(* ===== verification/Prelude.thy ===== *)
theory Prelude
  imports Main "HOL-Library.Word" "HOL-Library.Monad_Syntax"
begin

text \<open>
  What the component theories share: machine arithmetic, status codes, bug checks and the
  circular doubly linked lists of the Windows kernel (\<^verbatim>\<open>LIST_ENTRY\<close>).

  \<^item> A kernel routine that may stop the machine returns an option: \<^const>\<open>None\<close> is the bug check
    of a failed \<^verbatim>\<open>ASSERT\<close>, \<^verbatim>\<open>BUG_ON\<close> or of a \<^verbatim>\<open>CONTAINING_RECORD\<close> on a list anchor
    (src/src/common/assert.h, checked build), \<^const>\<open>Some\<close> is an ordinary return.
  \<^item> An NTSTATUS is a constructor per code the modelled sources use.
  \<^item> LONGLONG, ULONGLONG and ULONG values that only take part in additions and comparisons are
    \<^typ>\<open>int\<close>, with the wrap-around of every operation written out by \<open>s64\<close>, \<open>s32\<close>, \<open>u64\<close>,
    \<open>u32\<close> and \<open>u16\<close>; values that are used bitwise are words.
\<close>

section \<open>Status codes\<close>

datatype NTSTATUS =
    STATUS_SUCCESS
  | STATUS_TIMEOUT
  | STATUS_UNSUCCESSFUL
  | STATUS_INVALID_PARAMETER
  | STATUS_INSUFFICIENT_RESOURCES
  | STATUS_NO_MEMORY
  | STATUS_OBJECT_NAME_NOT_FOUND
  | STATUS_OBJECT_PATH_NOT_FOUND
  | STATUS_NOT_SUPPORTED
  | STATUS_BUFFER_OVERFLOW
  | STATUS_INVALID_BUFFER_SIZE
  | STATUS_RETRY
  | STATUS_QUOTA_EXCEEDED
  | STATUS_PENDING
  | STATUS_NOT_IMPLEMENTED
  | STATUS_BUFFER_TOO_SMALL
  | STATUS_ACCESS_DENIED
  | STATUS_INVALID_HANDLE
  | STATUS_OBJECTID_EXISTS
  | STATUS_NO_SUCH_DEVICE
  | STATUS_CANCELLED
  | STATUS_FILE_IS_A_DIRECTORY
  | STATUS_UNEXPECTED_IO_ERROR
  | STATUS_DIRECTORY_NOT_EMPTY
  | STATUS_MEDIA_WRITE_PROTECTED
  | STATUS_PIPE_BUSY
  | STATUS_PIPE_CONNECTED

text \<open>\<^verbatim>\<open>NT_SUCCESS\<close>: a status is a success when it is not negative; STATUS\_TIMEOUT (0x102) and STATUS\_PENDING
  (0x103) are such.\<close>

definition NT_SUCCESS :: "NTSTATUS \<Rightarrow> bool" where
  "NT_SUCCESS st \<longleftrightarrow> st = STATUS_SUCCESS \<or> st = STATUS_TIMEOUT \<or> st = STATUS_PENDING"

lemma NT_SUCCESS_simps [simp]:
  "NT_SUCCESS STATUS_SUCCESS"
  "NT_SUCCESS STATUS_TIMEOUT"
  "\<not> NT_SUCCESS STATUS_UNSUCCESSFUL"
  "\<not> NT_SUCCESS STATUS_INVALID_PARAMETER"
  "\<not> NT_SUCCESS STATUS_INSUFFICIENT_RESOURCES"
  "\<not> NT_SUCCESS STATUS_NO_MEMORY"
  "\<not> NT_SUCCESS STATUS_OBJECT_NAME_NOT_FOUND"
  "\<not> NT_SUCCESS STATUS_OBJECT_PATH_NOT_FOUND"
  "\<not> NT_SUCCESS STATUS_NOT_SUPPORTED"
  "\<not> NT_SUCCESS STATUS_BUFFER_OVERFLOW"
  "\<not> NT_SUCCESS STATUS_INVALID_BUFFER_SIZE"
  "\<not> NT_SUCCESS STATUS_RETRY"
  "\<not> NT_SUCCESS STATUS_QUOTA_EXCEEDED"
  "NT_SUCCESS STATUS_PENDING"
  "\<not> NT_SUCCESS STATUS_NOT_IMPLEMENTED"
  "\<not> NT_SUCCESS STATUS_BUFFER_TOO_SMALL"
  "\<not> NT_SUCCESS STATUS_ACCESS_DENIED"
  "\<not> NT_SUCCESS STATUS_INVALID_HANDLE"
  "\<not> NT_SUCCESS STATUS_OBJECTID_EXISTS"
  "\<not> NT_SUCCESS STATUS_NO_SUCH_DEVICE"
  "\<not> NT_SUCCESS STATUS_CANCELLED"
  "\<not> NT_SUCCESS STATUS_FILE_IS_A_DIRECTORY"
  "\<not> NT_SUCCESS STATUS_UNEXPECTED_IO_ERROR"
  "\<not> NT_SUCCESS STATUS_DIRECTORY_NOT_EMPTY"
  "\<not> NT_SUCCESS STATUS_MEDIA_WRITE_PROTECTED"
  "\<not> NT_SUCCESS STATUS_PIPE_BUSY"
  "\<not> NT_SUCCESS STATUS_PIPE_CONNECTED"
  by (simp_all add: NT_SUCCESS_def)

section \<open>Bug checks\<close>

type_synonym 'a kernel = "'a option"

definition ASSERT :: "bool \<Rightarrow> unit kernel" where
  "ASSERT P = (if P then Some () else None)"

abbreviation (input) BUG :: "'a kernel" where
  "BUG \<equiv> None"

lemma ASSERT_bind [simp]: "Option.bind (ASSERT P) f = (if P then f () else None)"
  by (simp add: ASSERT_def)

lemma ASSERT_eq_Some [simp]: "ASSERT P = Some u \<longleftrightarrow> P"
  by (simp add: ASSERT_def)

section \<open>Fixed-width arithmetic on integers\<close>

definition u16 :: "int \<Rightarrow> int" where
  "u16 x = x mod 2 ^ 16"

definition u32 :: "int \<Rightarrow> int" where
  "u32 x = x mod 2 ^ 32"

definition u64 :: "int \<Rightarrow> int" where
  "u64 x = x mod 2 ^ 64"

text \<open>Two's complement: the representative of \<open>x\<close> modulo \<open>2 ^ 64\<close> in \<open>-2 ^ 63 .. 2 ^ 63 - 1\<close>.\<close>

definition s64 :: "int \<Rightarrow> int" where
  "s64 x = (x + 2 ^ 63) mod 2 ^ 64 - 2 ^ 63"

lemma u16_id [simp]: "0 \<le> x \<Longrightarrow> x < 2 ^ 16 \<Longrightarrow> u16 x = x"
  by (simp add: u16_def)

lemma u32_id [simp]: "0 \<le> x \<Longrightarrow> x < 2 ^ 32 \<Longrightarrow> u32 x = x"
  by (simp add: u32_def)

lemma u64_id [simp]: "0 \<le> x \<Longrightarrow> x < 2 ^ 64 \<Longrightarrow> u64 x = x"
  by (simp add: u64_def)

lemma s64_id [simp]: "- (2 ^ 63) \<le> x \<Longrightarrow> x < 2 ^ 63 \<Longrightarrow> s64 x = x"
  by (simp add: s64_def)

definition s32 :: "int \<Rightarrow> int" where
  "s32 x = (x + 2 ^ 31) mod 2 ^ 32 - 2 ^ 31"

lemma s32_id [simp]: "- (2 ^ 31) \<le> x \<Longrightarrow> x < 2 ^ 31 \<Longrightarrow> s32 x = x"
  by (simp add: s32_def)

lemma s64_range: "- (2 ^ 63) \<le> s64 x \<and> s64 x < 2 ^ 63"
  by (simp add: s64_def)

section \<open>Circular lists\<close>

text \<open>
  A \<^verbatim>\<open>LIST_ENTRY\<close> anchor with its entries is the list of the entries' records in forward
  order, and a \<^verbatim>\<open>PLIST_ENTRY\<close> into it is an \<^typ>\<open>nat option\<close>: \<^const>\<open>None\<close> is the anchor itself,
  \<open>Some i\<close> the i-th entry. \<open>flink\<close> and \<open>blink\<close> follow the links all the way round, the way
  \<^verbatim>\<open>Flink\<close> and \<^verbatim>\<open>Blink\<close> do.
\<close>

type_synonym ptr = "nat option"

fun flink :: "'a list \<Rightarrow> ptr \<Rightarrow> ptr" where
  "flink xs None = (if xs = [] then None else Some 0)"
| "flink xs (Some i) = (if Suc i < length xs then Some (Suc i) else None)"

fun blink :: "'a list \<Rightarrow> ptr \<Rightarrow> ptr" where
  "blink xs None = (if xs = [] then None else Some (length xs - 1))"
| "blink xs (Some 0) = None"
| "blink xs (Some (Suc i)) = Some i"

text \<open>\<^verbatim>\<open>RemoveEntryList\<close>, and where a pointer to a remaining entry points afterwards.\<close>

definition remove_nth :: "nat \<Rightarrow> 'a list \<Rightarrow> 'a list" where
  "remove_nth i xs = take i xs @ drop (Suc i) xs"

fun unlinked :: "nat \<Rightarrow> ptr \<Rightarrow> ptr" where
  "unlinked i None = None"
| "unlinked i (Some j) = Some (if i < j then j - 1 else j)"

text \<open>
  Linking a new entry after or before a pointer: the new list and the new entry's index. Linking
  after the anchor prepends, linking before the anchor appends.
\<close>

fun insert_after :: "'a list \<Rightarrow> ptr \<Rightarrow> 'a \<Rightarrow> 'a list \<times> nat" where
  "insert_after xs None x = (x # xs, 0)"
| "insert_after xs (Some i) x = (take (Suc i) xs @ x # drop (Suc i) xs, Suc i)"

fun insert_before :: "'a list \<Rightarrow> ptr \<Rightarrow> 'a \<Rightarrow> 'a list \<times> nat" where
  "insert_before xs None x = (xs @ [x], length xs)"
| "insert_before xs (Some i) x = (take i xs @ x # drop i xs, i)"

lemma remove_nth_append [simp]: "remove_nth (length ys) (ys @ x # zs) = ys @ zs"
  by (simp add: remove_nth_def)

lemma length_remove_nth [simp]: "i < length xs \<Longrightarrow> length (remove_nth i xs) = length xs - 1"
  by (simp add: remove_nth_def)

lemma blink_Some: "blink xs (Some i) = (if i = 0 then None else Some (i - 1))"
  by (cases i) simp_all

lemma split_at:
  assumes "i < length xs"
  obtains ys x zs where "xs = ys @ x # zs" and "length ys = i" and "xs ! i = x"
proof -
  have "xs = take i xs @ xs ! i # drop (Suc i) xs"
    using assms by (rule id_take_nth_drop)
  moreover have "length (take i xs) = i" using assms by simp
  ultimately show thesis using that by blast
qed

lemma nat_ptr_cases:
  obtains (anchor) "p = None" | (entry) i where "p = Some (i :: nat)"
  by (cases p) auto

section \<open>Search loops\<close>

text \<open>
  \<^verbatim>\<open>while (i < n) { if (P(i)) break; i++; }\<close>, as the value of \<open>i\<close> when the loop ends.
\<close>

function first_from :: "(nat \<Rightarrow> bool) \<Rightarrow> nat \<Rightarrow> nat \<Rightarrow> nat" where
  "first_from P i n = (if i < n \<and> \<not> P i then first_from P (Suc i) n else i)"
  by pat_completeness auto
termination
  by (relation "measure (\<lambda>(_, i, n). n - i)") auto

declare first_from.simps [simp del]

lemma first_from_spec:
  "i \<le> n \<Longrightarrow> i \<le> first_from P i n \<and> first_from P i n \<le> n \<and>
     (\<forall>j. i \<le> j \<longrightarrow> j < first_from P i n \<longrightarrow> \<not> P j) \<and> (first_from P i n < n \<longrightarrow> P (first_from P i n))"
proof (induction P i n rule: first_from.induct)
  case (1 P i n)
  show ?case
  proof (cases "i < n \<and> \<not> P i")
    case True
    then have eq: "first_from P i n = first_from P (Suc i) n"
      by (subst first_from.simps) simp
    from True have "Suc i \<le> n" by simp
    note IH = 1(1) [OF True this]
    have "\<not> P j" if "i \<le> j" "j < first_from P i n" for j
      using that IH True eq by (cases "j = i") auto
    with IH eq show ?thesis by auto
  next
    case False
    then have "first_from P i n = i" by (subst first_from.simps) (rule if_not_P)
    with False 1(2) show ?thesis by auto
  qed
qed

lemma first_from_eqI:
  assumes "i \<le> k" and "k < n" and "P k" and "\<And>j. i \<le> j \<Longrightarrow> j < k \<Longrightarrow> \<not> P j"
  shows "first_from P i n = k"
proof -
  have "i \<le> n" using assms(1,2) by simp
  note s = first_from_spec [OF this, of P]
  show ?thesis
  proof (rule linorder_cases [of "first_from P i n" k])
    assume "first_from P i n < k"
    with s assms show ?thesis by (meson less_trans)
  next
    assume "k < first_from P i n"
    with s assms show ?thesis by blast
  qed
qed

lemma first_from_none: "i \<le> n \<Longrightarrow> (\<And>j. i \<le> j \<Longrightarrow> j < n \<Longrightarrow> \<not> P j) \<Longrightarrow> first_from P i n = n"
  using first_from_spec [of i n P] by (meson le_less not_le)

end
