(* ===== verification/Util.thy ===== *)
theory Util
  imports Prelude
begin

unbundle bit_operations_syntax

text \<open>
  The inline routines of src/src/common/util.h that the drivers compute with: rounding up to a power
  of two, the lowest set bit, splitting a string into tokens and the case of a character. Strings
  are character lists with the terminating NUL at their end.
\<close>

section \<open>Rounding up\<close>

definition P2ROUNDUP :: "32 word \<Rightarrow> 32 word \<Rightarrow> 32 word" where
  "P2ROUNDUP x a = - ((- x) AND (- a))"

lemma minus_power_mask: "- (2 ^ k :: 'a::len word) = NOT (mask k)"
  by (simp add: mask_eq_exp_minus_1 not_eq_complement)

lemma and_not_mask: "w AND NOT (mask k) = push_bit k (drop_bit k w)" for w :: "'a::len word"
  by (rule bit_word_eqI) (auto simp: bit_simps)

lemma ceil_div_nat:
  assumes "0 < (a::nat)" and "x \<le> a * M"
  shows "(a * M - x) div a = M - (x + a - 1) div a"
proof -
  define q where "q = (x + a - 1) div a"
  define r where "r = (x + a - 1) mod a"
  have qr: "x + a - 1 = q * a + r" "r < a" using assms by (simp_all add: q_def r_def)
  have "q * a < a * M + a" using qr assms by linarith
  then have "q * a < Suc M * a" by (simp add: mult.commute)
  then have "q < Suc M" by (simp only: mult_less_cancel2)
  then have qM: "q \<le> M" by simp
  have "a * M - x = (M - q) * a + (a - 1 - r)"
  proof -
    have "(M - q) * a = a * M - q * a" by (simp add: diff_mult_distrib mult.commute [of a M])
    moreover have "q * a \<le> a * M" using qM by (simp add: mult.commute)
    ultimately show ?thesis using qr assms by linarith
  qed
  moreover have "a - 1 - r < a" using assms by simp
  ultimately have "(a * M - x) div a = M - q" by simp
  then show ?thesis by (simp only: q_def)
qed

text \<open>On values whose rounding does not leave ULONG, the macro rounds up to a multiple of \<open>2 ^ k\<close>.\<close>

lemma P2ROUNDUP_unat:
  assumes "k < 32" and "0 < x" and "x + 2 ^ k \<le> 2 ^ 32"
  shows "unat (P2ROUNDUP (of_nat x) (2 ^ k)) = (x + 2 ^ k - 1) div 2 ^ k * 2 ^ k"
proof -
  let ?a = "2 ^ k :: nat" and ?M = "2 ^ (32 - k) :: nat"
  have aM: "?a * ?M = 2 ^ 32" using assms(1) by (simp flip: power_add)
  have pos: "0 < ?a" by simp
  have x: "x < 2 ^ 32" "x \<le> ?a * ?M" 
    unfolding aM using assms(3) pos by linarith+
  have neg: "unat (- of_nat y :: 32 word) = 2 ^ 32 - y" if "0 < y" "y \<le> 2 ^ 32" for y :: nat
  proof -
    have "(of_nat (2 ^ 32) :: 32 word) = 0" by simp
    then have "(- of_nat y :: 32 word) = of_nat (2 ^ 32) - of_nat y" by simp
    also have "\<dots> = of_nat (2 ^ 32 - y)" using that(2) by (simp only: of_nat_diff)
    finally have eq: "(- of_nat y :: 32 word) = of_nat (2 ^ 32 - y)" .
    show ?thesis unfolding eq unat_of_nat using that by simp
  qed
  have "(- of_nat x :: 32 word) AND - (2 ^ k) = push_bit k (drop_bit k (- of_nat x))"
    by (simp only: minus_power_mask and_not_mask)
  moreover have "unat (push_bit k (drop_bit k (- of_nat x)) :: 32 word) = (2 ^ 32 - x) div ?a * ?a"
  proof -
    have d: "unat (drop_bit k (- of_nat x) :: 32 word) = (2 ^ 32 - x) div ?a"
    proof -
      have "unat (- of_nat x :: 32 word) = 2 ^ 32 - x" using neg [of x] assms(2) x(1) by linarith
      then show ?thesis by (simp only: unat_drop_bit_eq drop_bit_eq_div [where 'a = nat])
    qed
    have "(2 ^ 32 - x) div ?a * ?a \<le> 2 ^ 32 - x" by simp
    then have "(2 ^ 32 - x) div ?a * ?a < 2 ^ 32"
      by (rule le_less_trans) (use assms(2) in simp)
    then show ?thesis using d
      by (simp only: unsigned_push_bit_eq push_bit_eq_mult [where 'a = nat]) (simp add: take_bit_nat_eq_self)
  qed
  moreover define c where "c = (x + ?a - 1) div ?a"
  moreover have "(2 ^ 32 - x) div ?a = ?M - c"
    using ceil_div_nat [OF pos x(2)] by (simp only: aM c_def)
  ultimately have w: "unat ((- of_nat x :: 32 word) AND - (2 ^ k)) = (?M - c) * ?a" by simp
  have "c * ?a \<le> x + ?a - 1" by (simp add: c_def)
  then have c: "c * ?a < 2 ^ 32" using assms(3) pos by linarith
  have "0 < c" using assms(2) pos by (simp add: c_def div_greater_zero_iff)
  then have "0 < c * ?a" by simp
  have "(?M - c) * ?a = 2 ^ 32 - c * ?a" by (simp only: diff_mult_distrib mult.commute [of ?M ?a] aM)
  with w have "unat ((- of_nat x :: 32 word) AND - (2 ^ k)) = 2 ^ 32 - c * ?a" by (simp only:)
  then have "(- of_nat x :: 32 word) AND - (2 ^ k) = of_nat (2 ^ 32 - c * ?a)"
    by (metis of_nat_unat ucast_id)
  then have "P2ROUNDUP (of_nat x) (2 ^ k) = - of_nat (2 ^ 32 - c * ?a)" by (simp only: P2ROUNDUP_def)
  then have "unat (P2ROUNDUP (of_nat x) (2 ^ k)) = 2 ^ 32 - (2 ^ 32 - c * ?a)"
    using c \<open>0 < c * ?a\<close> neg [of "2 ^ 32 - c * ?a"] by simp
  then show ?thesis using c by (simp add: c_def)
qed

lemma P2ROUNDUP_bounds:
  assumes "k < 32" and "0 < x" and "x + 2 ^ k \<le> 2 ^ 32"
  shows "x \<le> unat (P2ROUNDUP (of_nat x) (2 ^ k))" and "unat (P2ROUNDUP (of_nat x) (2 ^ k)) < x + 2 ^ k"
    and "2 ^ k dvd unat (P2ROUNDUP (of_nat x) (2 ^ k))"
proof -
  let ?a = "2 ^ k :: nat"
  have eq: "(x + ?a - 1) div ?a * ?a + (x + ?a - 1) mod ?a = x + ?a - 1" by (rule div_mult_mod_eq)
  have "(x + ?a - 1) mod ?a < ?a" by simp
  with eq assms(2) show "x \<le> unat (P2ROUNDUP (of_nat x) (2 ^ k))"
    unfolding P2ROUNDUP_unat [OF assms] by linarith
  have "0 < ?a" by simp
  with eq assms(2) show "unat (P2ROUNDUP (of_nat x) (2 ^ k)) < x + 2 ^ k"
    unfolding P2ROUNDUP_unat [OF assms] by linarith
  show "2 ^ k dvd unat (P2ROUNDUP (of_nat x) (2 ^ k))"
    unfolding P2ROUNDUP_unat [OF assms] by simp
qed

section \<open>The lowest set bit\<close>

text \<open>The bytes of a 64-bit value in memory order (little endian).\<close>

definition mask_byte :: "64 word \<Rightarrow> nat \<Rightarrow> 64 word" where
  "mask_byte m byte = take_bit 8 (drop_bit (8 * byte) m)"

definition ffs :: "64 word \<Rightarrow> int" where
  "ffs m =
     (let byte = first_from (\<lambda>b. mask_byte m b \<noteq> 0) 0 8 in
      if byte = 8 then -1
      else let val = mask_byte m byte;
               bit = first_from (\<lambda>k. drop_bit k val AND 1 \<noteq> 0) 0 8
           in int (byte * 8 + bit))"

definition ffu :: "64 word \<Rightarrow> int" where
  "ffu m = ffs (NOT m)"

lemma bit_mask_byte: "bit (mask_byte m b) k \<longleftrightarrow> k < 8 \<and> bit m (8 * b + k)"
  by (auto simp: mask_byte_def bit_simps)

lemma drop_and_1: "drop_bit k w AND 1 \<noteq> 0 \<longleftrightarrow> bit w k" for w :: "'a::len word"
  by (simp add: bit_iff_odd_drop_bit and_one_eq odd_iff_mod_2_eq_one [symmetric] even_iff_mod_2_eq_zero [symmetric])

lemma mask_byte_zero_iff: "mask_byte m b = 0 \<longleftrightarrow> (\<forall>k < 8. \<not> bit m (8 * b + k))"
proof
  assume "mask_byte m b = 0"
  then have "\<not> bit (mask_byte m b) k" for k by simp
  then show "\<forall>k < 8. \<not> bit m (8 * b + k)" by (simp add: bit_mask_byte)
next
  assume "\<forall>k < 8. \<not> bit m (8 * b + k)"
  then show "mask_byte m b = 0" by (intro bit_word_eqI) (auto simp: bit_mask_byte)
qed

lemma ffs_cases:
  obtains "m = 0" and "ffs m = -1"
  | n where "ffs m = int n" and "n < 64" and "bit m n" and "\<And>j. j < n \<Longrightarrow> \<not> bit m j"
proof -
  define B where "B = first_from (\<lambda>b. mask_byte m b \<noteq> 0) 0 8"
  have B: "B \<le> 8" "\<And>j. j < B \<Longrightarrow> mask_byte m j = 0" "B < 8 \<Longrightarrow> mask_byte m B \<noteq> 0"
    using first_from_spec [of 0 8 "\<lambda>b. mask_byte m b \<noteq> 0"] by (auto simp: B_def)
  have below: "\<not> bit m j" if "j < 8 * B" for j
  proof -
    have "j div 8 < B" using that by simp
    from B(2) [OF this] have "\<forall>k < 8. \<not> bit m (8 * (j div 8) + k)" by (simp only: mask_byte_zero_iff)
    moreover have "8 * (j div 8) + j mod 8 = j" by simp
    ultimately show ?thesis by (metis mod_less_divisor zero_less_numeral)
  qed
  show thesis
  proof (cases "B = 8")
    case True
    have "\<not> bit m j" for j
    proof (cases "j < 64")
      case True
      with below [of j] \<open>B = 8\<close> show ?thesis by simp
    qed (use bit_imp_le_length [of m j] in auto)
    then have "m = 0" by (intro bit_word_eqI) simp
    moreover have "ffs m = -1" using True by (simp add: ffs_def B_def)
    ultimately show thesis by (rule that(1))
  next
    case False
    then have "B < 8" using B(1) by simp
    define K where "K = first_from (\<lambda>k. drop_bit k (mask_byte m B) AND 1 \<noteq> 0) 0 8"
    have K: "K \<le> 8" "\<And>j. j < K \<Longrightarrow> \<not> bit (mask_byte m B) j" "K < 8 \<Longrightarrow> bit (mask_byte m B) K"
      using first_from_spec [of 0 8 "\<lambda>k. drop_bit k (mask_byte m B) AND 1 \<noteq> 0"]
      unfolding K_def [symmetric] by (auto simp only: drop_and_1 le0)
    obtain k where "k < 8" "bit m (8 * B + k)" using B(3) [OF \<open>B < 8\<close>] by (auto simp: mask_byte_zero_iff)
    then have "K < 8" using K(1,2) by (metis bit_mask_byte le_neq_implies_less)
    have "ffs m = int (8 * B + K)" using False by (simp add: ffs_def B_def K_def Let_def)
    moreover have "8 * B + K < 64" using \<open>B < 8\<close> \<open>K < 8\<close> by simp
    moreover have "bit m (8 * B + K)" using K(3) [OF \<open>K < 8\<close>] by (simp add: bit_mask_byte)
    moreover have "\<not> bit m j" if "j < 8 * B + K" for j
    proof (cases "j < 8 * B")
      case False
      then obtain i where "j = 8 * B + i" using le_Suc_ex by (metis not_less)
      moreover from this that have "i < K" by simp
      ultimately show ?thesis using K(2) [of i] \<open>K < 8\<close> by (simp add: bit_mask_byte)
    qed (rule below)
    ultimately show thesis by (rule that(2))
  qed
qed

section \<open>Tokens\<close>

text \<open>
  One call of \<^verbatim>\<open>__strtok_r\<close>: the arguments are \<^verbatim>\<open>Buffer\<close>, \<^verbatim>\<open>Delimiter\<close> and \<^verbatim>\<open>*Context\<close>, each pointer
  being the string from there to its NUL; the results are the token and the new context. The end
  pointer stays on the NUL when the string ends and steps over the delimiter it overwrites
  otherwise. \<^verbatim>\<open>__wcstok_r\<close> is the same text over WCHAR.
\<close>

definition strtok_r :: "'a list option \<Rightarrow> 'a list \<Rightarrow> 'a list option \<Rightarrow> 'a list option \<times> 'a list option" where
  "strtok_r Buffer Delimiter Context =
     (let Context = (case Buffer of None \<Rightarrow> Context | Some b \<Rightarrow> Some b) in
      case Context of
        None \<Rightarrow> (None, Context)
      | Some t \<Rightarrow>
          let Token = dropWhile (\<lambda>c. c \<in> set Delimiter) t in
          if Token = [] then (None, Context)
          else let End = dropWhile (\<lambda>c. c \<notin> set Delimiter) (tl Token);
                   tok = hd Token # takeWhile (\<lambda>c. c \<notin> set Delimiter) (tl Token)
               in (Some tok, Some (if End = [] then [] else tl End)))"

lemma strtok_r_next:
  "strtok_r None D (Some s) = (case dropWhile (\<lambda>c. c \<in> set D) s of
      [] \<Rightarrow> (None, Some s)
    | c # t \<Rightarrow> (Some (c # takeWhile (\<lambda>c. c \<notin> set D) t), Some (tl (dropWhile (\<lambda>c. c \<notin> set D) t))))"
proof -
  have "(if End = [] then [] else tl End) = tl End" for End :: "'a list" by simp
  then show ?thesis
    by (simp add: strtok_r_def Let_def del: dropWhile_eq_Nil_conv split: list.split)
qed

lemma strtok_r_shorter:
  assumes "strtok_r None D (Some s) = (Some tok, Some rest)"
  shows "length rest < length s"
proof (cases "dropWhile (\<lambda>c. c \<in> set D) s")
  case Nil
  with assms show ?thesis by (simp add: strtok_r_next)
next
  case (Cons c t)
  with assms have "length rest \<le> length (dropWhile (\<lambda>c. c \<notin> set D) t)" by (auto simp: strtok_r_next)
  moreover have "length (dropWhile (\<lambda>c. c \<notin> set D) t) \<le> length t" by (rule length_dropWhile_le)
  moreover have "length (c # t) \<le> length s" using length_dropWhile_le [of "\<lambda>c. c \<in> set D" s] Cons by simp
  ultimately show ?thesis by simp
qed

text \<open>All tokens of a string, by the loop the callers write around it.\<close>

function strtok_loop :: "'a list \<Rightarrow> 'a list \<Rightarrow> 'a list list" where
  "strtok_loop Delimiter s =
     (case strtok_r None Delimiter (Some s) of
        (Some tok, Some rest) \<Rightarrow> tok # strtok_loop Delimiter rest
      | _ \<Rightarrow> [])"
  by pat_completeness auto
termination
  by (relation "measure (\<lambda>(_, s). length s)") (auto dest: strtok_r_shorter [OF sym])

declare strtok_loop.simps [simp del]

text \<open>The specification: cut at every delimiter, and drop the empty pieces.\<close>

fun pieces :: "'a list \<Rightarrow> 'a list \<Rightarrow> 'a list list" where
  "pieces D [] = [[]]"
| "pieces D (c # s) = (if c \<in> set D then [] # pieces D s else (c # hd (pieces D s)) # tl (pieces D s))"

lemma pieces_ne [simp]: "pieces D s \<noteq> []"
  by (cases s) auto

lemma pieces_delim: "filter (\<lambda>p. p \<noteq> []) (pieces D (dropWhile (\<lambda>c. c \<in> set D) s)) = filter (\<lambda>p. p \<noteq> []) (pieces D s)"
  by (induction s) auto

lemma pieces_word:
  "pieces D s = takeWhile (\<lambda>c. c \<notin> set D) s #
     (case dropWhile (\<lambda>c. c \<notin> set D) s of [] \<Rightarrow> [] | _ # r \<Rightarrow> pieces D r)"
  by (induction s) (auto split: list.splits)

lemma strtok_loop_pieces: "strtok_loop D s = filter (\<lambda>p. p \<noteq> []) (pieces D s)"
proof (induction D s rule: strtok_loop.induct)
  case (1 D s)
  let ?t = "dropWhile (\<lambda>c. c \<in> set D) s"
  have delim: "filter (\<lambda>p. p \<noteq> []) (pieces D s) = filter (\<lambda>p. p \<noteq> []) (pieces D ?t)"
    by (rule pieces_delim [symmetric])
  show ?case
  proof (cases ?t)
    case Nil
    then have "strtok_r None D (Some s) = (None, Some s)" by (simp only: strtok_r_next list.case)
    then have "strtok_loop D s = []" by (subst strtok_loop.simps) simp
    then show ?thesis unfolding delim Nil by simp
  next
    case (Cons c t)
    then have c: "c \<notin> set D" using hd_dropWhile [of "\<lambda>c. c \<in> set D" s] by simp
    let ?e = "dropWhile (\<lambda>c. c \<notin> set D) t"
    have r: "strtok_r None D (Some s) = (Some (c # takeWhile (\<lambda>c. c \<notin> set D) t), Some (tl ?e))"
      using Cons by (simp add: strtok_r_next)
    have "strtok_loop D s = (c # takeWhile (\<lambda>c. c \<notin> set D) t) # strtok_loop D (tl ?e)"
      using r by (subst strtok_loop.simps) simp
    also have "\<dots> = (c # takeWhile (\<lambda>c. c \<notin> set D) t) # filter (\<lambda>p. p \<noteq> []) (pieces D (tl ?e))"
      using 1 [OF r [symmetric] refl refl] by simp
    also have "\<dots> = filter (\<lambda>p. p \<noteq> []) (pieces D (c # t))"
      using c by (subst pieces_word [of D "c # t"]) (auto simp del: dropWhile_eq_Nil_conv split: list.splits)
    finally show ?thesis unfolding delim Cons .
  qed
qed

definition to_upper :: "char \<Rightarrow> char" where
  "to_upper c = (if of_char c < (97 :: nat) \<or> of_char c > (122 :: nat) then c
                 else char_of (65 + of_char c - 97 :: nat))"

definition to_lower :: "char \<Rightarrow> char" where
  "to_lower c = (if of_char c < (65 :: nat) \<or> of_char c > (90 :: nat) then c
                 else char_of (97 + of_char c - 65 :: nat))"

section \<open>Properties\<close>

text \<open>
  \<^verbatim>\<open>__ffs\<close> returns -1 for 0 and the index of the lowest set bit for everything else, although
  it never looks at more than one byte at a time.
\<close>

theorem ffs_lowest_bit:
  "(m = 0 \<and> ffs m = -1) \<or>
   (\<exists>n. ffs m = int n \<and> n < 64 \<and> bit m n \<and> {j. bit m j \<and> j < n} = {})"
  by (rule ffs_cases [of m]) auto

text \<open>
  C36. The tokens a caller gets out of \<^verbatim>\<open>__strtok_r\<close> are the non-empty pieces of the string between
  delimiters, in order: no token is lost at the end of the string and none is empty.
\<close>

theorem strtok_tokens:
  "strtok_loop Delimiter s = filter (\<lambda>p. p \<noteq> []) (pieces Delimiter s)"
  by (rule strtok_loop_pieces)

end
