(* ===== verification/Range_Set.thy ===== *)
theory Range_Set
  imports Prelude
begin

text \<open>
  The range set of src/src/xenbus/range\_set.c: an allocator of 64-bit numbers kept as a sorted
  circular list of closed, non-touching ranges, with a cursor into the list and one spare entry.
  \<open>XENBUS_RANGE_SET\<close> is \<^verbatim>\<open>struct _XENBUS_RANGE_SET\<close> (the spin lock, held through each operation,
  makes every operation one step), the operations follow the code branch by branch. The second
  half relates them to the set of numbers the list stands for, and the locale
  \<open>range_allocator\<close> is the contract its clients (the grant table, the balloon) rely on.
\<close>

section \<open>State\<close>

record RANGE =
  range_Start :: int
  range_End :: int

definition MAXNAMELEN :: nat where
  "MAXNAMELEN = 128"

record XENBUS_RANGE_SET =
  rs_Name :: string
  rs_List :: "RANGE list"
  rs_Cursor :: ptr
  rs_RangeCount :: int
  rs_ItemCount :: int
  rs_Spare :: "RANGE option"

definition zero_RANGE :: RANGE where
  "zero_RANGE = \<lparr>range_Start = 0, range_End = 0\<rparr>"

definition RangeSetIsEmpty :: "XENBUS_RANGE_SET \<Rightarrow> bool" where
  "RangeSetIsEmpty rs \<longleftrightarrow> rs_List rs = []"

section \<open>Operations\<close>

text \<open>
  \<^verbatim>\<open>RangeSetRemove\<close>: unlink the entry under the cursor, which must have been invalidated, move the
  cursor on (past the anchor if need be) and keep the entry as the spare, zeroed, or free it.
\<close>

definition RangeSetRemove :: "XENBUS_RANGE_SET \<Rightarrow> bool \<Rightarrow> XENBUS_RANGE_SET kernel" where
  "RangeSetRemove rs After =
     do {
       ASSERT (\<not> RangeSetIsEmpty rs);
       c \<leftarrow> rs_Cursor rs;
       let xs = rs_List rs;
       let cur = unlinked c (if After then flink xs (Some c) else blink xs (Some c));
       let xs' = remove_nth c xs;
       ASSERT (rs_RangeCount rs \<noteq> 0);
       let cur' = (if cur = None then (if After then flink xs' None else blink xs' None) else cur);
       let Rng = xs ! c;
       ASSERT (range_End Rng < range_Start Rng);
       Some (rs\<lparr>rs_List := xs', rs_Cursor := cur', rs_RangeCount := u32 (rs_RangeCount rs - 1),
                rs_Spare := (case rs_Spare rs of None \<Rightarrow> Some zero_RANGE | Some s \<Rightarrow> Some s)\<rparr>)
     }"

definition RangeSetMergeBackwards :: "XENBUS_RANGE_SET \<Rightarrow> XENBUS_RANGE_SET kernel" where
  "RangeSetMergeBackwards rs =
     do {
       c \<leftarrow> rs_Cursor rs;
       let xs = rs_List rs;
       (case blink xs (Some c) of
          None \<Rightarrow> Some rs
        | Some p \<Rightarrow>
            (let Rng = xs ! c; Previous = xs ! p in
             if range_End Previous \<noteq> s64 (range_Start Rng - 1) then Some rs
             else RangeSetRemove
               (rs\<lparr>rs_List := xs[p := Previous\<lparr>range_End := range_End Rng\<rparr>,
                                 c := Rng\<lparr>range_Start := s64 (range_End Rng + 1)\<rparr>]\<rparr>)
               False))
     }"

definition RangeSetMergeForwards :: "XENBUS_RANGE_SET \<Rightarrow> XENBUS_RANGE_SET kernel" where
  "RangeSetMergeForwards rs =
     do {
       c \<leftarrow> rs_Cursor rs;
       let xs = rs_List rs;
       (case flink xs (Some c) of
          None \<Rightarrow> Some rs
        | Some n \<Rightarrow>
            (let Rng = xs ! c; Next = xs ! n in
             if range_Start Next \<noteq> s64 (range_End Rng + 1) then Some rs
             else RangeSetRemove
               (rs\<lparr>rs_List := xs[n := Next\<lparr>range_Start := range_Start Rng\<rparr>,
                                 c := Rng\<lparr>range_End := s64 (range_Start Rng - 1)\<rparr>]\<rparr>)
               True))
     }"

text \<open>The search loop of \<^verbatim>\<open>RangeSetPop\<close>: the first entry, from the head, with enough room.\<close>

fun first_fit :: "RANGE list \<Rightarrow> int \<Rightarrow> nat \<Rightarrow> nat option" where
  "first_fit [] Count i = None"
| "first_fit (r # rs) Count i =
     (if Count \<le> u64 (range_End r + 1 - range_Start r) then Some i else first_fit rs Count (Suc i))"

text \<open>\<^verbatim>\<open>RangeSetPop\<close>: the status, \<^verbatim>\<open>*Start\<close> (when it is written) and the new state.\<close>

definition RangeSetPop ::
  "XENBUS_RANGE_SET \<Rightarrow> int \<Rightarrow> (NTSTATUS \<times> int option \<times> XENBUS_RANGE_SET) kernel" where
  "RangeSetPop rs Count =
     (if Count = 0 then Some (STATUS_INVALID_PARAMETER, None, rs)
      else if RangeSetIsEmpty rs then Some (STATUS_INSUFFICIENT_RESOURCES, None, rs)
      else case first_fit (rs_List rs) Count 0 of
        None \<Rightarrow> Some (STATUS_INSUFFICIENT_RESOURCES, None, rs)
      | Some c \<Rightarrow>
          do {
            let Rng = rs_List rs ! c;
            let Rng' = Rng\<lparr>range_Start := s64 (range_Start Rng + Count)\<rparr>;
            ASSERT (Count \<le> rs_ItemCount rs);
            let rs' = rs\<lparr>rs_Cursor := Some c, rs_List := (rs_List rs)[c := Rng'],
                         rs_ItemCount := u64 (rs_ItemCount rs - Count)\<rparr>;
            rs'' \<leftarrow> (if range_End Rng' < range_Start Rng' then RangeSetRemove rs' True
                      else Some rs');
            Some (STATUS_SUCCESS, Some (range_Start Rng), rs'')
          })"

text \<open>
  \<^verbatim>\<open>RangeSetAdd\<close>: \<open>mem\<close> says whether \<^verbatim>\<open>__RangeSetAllocate\<close> finds memory, should it be called.
\<close>

definition RangeSetAdd ::
  "bool \<Rightarrow> XENBUS_RANGE_SET \<Rightarrow> int \<Rightarrow> int \<Rightarrow> bool \<Rightarrow> (NTSTATUS \<times> XENBUS_RANGE_SET) kernel" where
  "RangeSetAdd mem rs Start End After =
     (case (case rs_Spare rs of Some s \<Rightarrow> Some s | None \<Rightarrow> if mem then Some zero_RANGE else None) of
        None \<Rightarrow> Some (STATUS_NO_MEMORY, rs)
      | Some Rng \<Rightarrow>
          do {
            ASSERT (Rng = zero_RANGE);
            let Rng' = Rng\<lparr>range_Start := Start, range_End := End\<rparr>;
            let (xs', c) = (if After then insert_after (rs_List rs) (rs_Cursor rs) Rng'
                            else insert_before (rs_List rs) (rs_Cursor rs) Rng');
            let rs' = rs\<lparr>rs_Spare := None, rs_List := xs', rs_Cursor := Some c,
                         rs_RangeCount := u32 (rs_RangeCount rs + 1)\<rparr>;
            rs1 \<leftarrow> RangeSetMergeBackwards rs';
            rs2 \<leftarrow> RangeSetMergeForwards rs1;
            Some (STATUS_SUCCESS, rs2)
          })"

text \<open>
  The two cursor walks of \<^verbatim>\<open>RangeSetGet\<close>, as \<^verbatim>\<open>do ... while\<close> loops; reaching the anchor is the
  assertion failure \<^const>\<open>None\<close>.
\<close>

primrec get_backward :: "RANGE list \<Rightarrow> int \<Rightarrow> nat \<Rightarrow> nat kernel" where
  "get_backward xs Start 0 = None"
| "get_backward xs Start (Suc c) =
     (if Start < range_Start (xs ! c) then get_backward xs Start c else Some c)"

function get_forward :: "RANGE list \<Rightarrow> int \<Rightarrow> nat \<Rightarrow> nat kernel" where
  "get_forward xs Start c =
     (if length xs \<le> Suc c then None
      else if Start > range_End (xs ! Suc c) then get_forward xs Start (Suc c) else Some (Suc c))"
  by pat_completeness auto
termination
  by (relation "measure (\<lambda>(xs, _, c). length xs - c)") auto

declare get_forward.simps [simp del]

definition get_seek :: "RANGE list \<Rightarrow> int \<Rightarrow> nat \<Rightarrow> nat kernel" where
  "get_seek xs Start c =
     (if Start < range_Start (xs ! c) then get_backward xs Start c
      else if Start > range_End (xs ! c) then get_forward xs Start c
      else Some c)"

text \<open>The part of \<^verbatim>\<open>RangeSetGet\<close> up to the label \<^verbatim>\<open>done\<close>, with the cursor on the right entry.\<close>

definition get_carve ::
  "bool \<Rightarrow> XENBUS_RANGE_SET \<Rightarrow> nat \<Rightarrow> int \<Rightarrow> int \<Rightarrow> (NTSTATUS \<times> XENBUS_RANGE_SET) kernel" where
  "get_carve mem rs c Start End =
     (let xs = rs_List rs; Rng = xs ! c in
      do {
        ASSERT (range_Start Rng \<le> Start);
        ASSERT (Start \<le> range_End Rng);
        (if Start = range_Start Rng \<and> End = range_End Rng then
           do {
             rs' \<leftarrow> RangeSetRemove
                      (rs\<lparr>rs_List := xs[c := Rng\<lparr>range_Start := s64 (End + 1)\<rparr>]\<rparr>) True;
             Some (STATUS_SUCCESS, rs')
           }
         else do {
           ASSERT (range_Start Rng < range_End Rng);
           (if Start = range_Start Rng then
              Some (STATUS_SUCCESS, rs\<lparr>rs_List := xs[c := Rng\<lparr>range_Start := s64 (End + 1)\<rparr>]\<rparr>)
            else do {
              ASSERT (range_Start Rng < Start);
              (if End = range_End Rng then
                 Some (STATUS_SUCCESS, rs\<lparr>rs_List := xs[c := Rng\<lparr>range_End := s64 (Start - 1)\<rparr>]\<rparr>)
               else do {
                 ASSERT (End < range_End Rng);
                 (st, rs') \<leftarrow> RangeSetAdd mem rs (s64 (End + 1)) (range_End Rng) True;
                 (if \<not> NT_SUCCESS st then Some (st, rs')
                  else Some (STATUS_SUCCESS,
                    rs'\<lparr>rs_List := (rs_List rs')[c := (rs_List rs' ! c)\<lparr>range_End := s64 (Start - 1)\<rparr>]\<rparr>))
               })
            })
         })
      })"

definition RangeSetGet ::
  "bool \<Rightarrow> XENBUS_RANGE_SET \<Rightarrow> int \<Rightarrow> int \<Rightarrow> (NTSTATUS \<times> XENBUS_RANGE_SET) kernel" where
  "RangeSetGet mem rs Start Count =
     (let End = s64 (Start + Count - 1) in
      if Count = 0 then Some (STATUS_INVALID_PARAMETER, rs)
      else do {
        c0 \<leftarrow> rs_Cursor rs;
        c \<leftarrow> get_seek (rs_List rs) Start c0;
        (st, rs') \<leftarrow> get_carve mem (rs\<lparr>rs_Cursor := Some c\<rparr>) c Start End;
        (if \<not> NT_SUCCESS st then Some (st, rs')
         else do {
           ASSERT (Count \<le> rs_ItemCount rs');
           Some (STATUS_SUCCESS, rs'\<lparr>rs_ItemCount := u64 (rs_ItemCount rs' - Count)\<rparr>)
         })
      })"

text \<open>The searches of \<^verbatim>\<open>RangeSetAddAfter\<close> and \<^verbatim>\<open>RangeSetAddBefore\<close> for the insertion point.\<close>

function add_after_seek :: "RANGE list \<Rightarrow> int \<Rightarrow> int \<Rightarrow> nat \<Rightarrow> ptr kernel" where
  "add_after_seek xs Start End c =
     (if length xs \<le> c then Some None
      else if Start < range_Start (xs ! c) then
        (if End < range_Start (xs ! c) then Some (Some c) else None)
      else add_after_seek xs Start End (Suc c))"
  by pat_completeness auto
termination
  by (relation "measure (\<lambda>(xs, _, _, c). length xs - c)") auto

declare add_after_seek.simps [simp del]

primrec add_before_seek :: "RANGE list \<Rightarrow> int \<Rightarrow> int \<Rightarrow> nat \<Rightarrow> ptr kernel" where
  "add_before_seek xs Start End 0 = Some None"
| "add_before_seek xs Start End (Suc c) =
     (if End > range_End (xs ! c) then
        (if Start > range_End (xs ! c) then Some (Some c) else None)
      else add_before_seek xs Start End c)"

definition RangeSetAddAfter ::
  "bool \<Rightarrow> XENBUS_RANGE_SET \<Rightarrow> int \<Rightarrow> int \<Rightarrow> (NTSTATUS \<times> XENBUS_RANGE_SET) kernel" where
  "RangeSetAddAfter mem rs Start End =
     do {
       c \<leftarrow> rs_Cursor rs;
       ASSERT (Start > range_End (rs_List rs ! c));
       p \<leftarrow> add_after_seek (rs_List rs) Start End (Suc c);
       RangeSetAdd mem (rs\<lparr>rs_Cursor := p\<rparr>) Start End False
     }"

definition RangeSetAddBefore ::
  "bool \<Rightarrow> XENBUS_RANGE_SET \<Rightarrow> int \<Rightarrow> int \<Rightarrow> (NTSTATUS \<times> XENBUS_RANGE_SET) kernel" where
  "RangeSetAddBefore mem rs Start End =
     do {
       c \<leftarrow> rs_Cursor rs;
       ASSERT (End < range_Start (rs_List rs ! c));
       p \<leftarrow> add_before_seek (rs_List rs) Start End c;
       RangeSetAdd mem (rs\<lparr>rs_Cursor := p\<rparr>) Start End True
     }"

text \<open>
  \<^verbatim>\<open>RangeSetPut\<close>. In a non-empty set the entry under the cursor is read without a check, so a
  cursor on the anchor reads outside every entry, which is \<^const>\<open>None\<close> here.
\<close>

definition RangeSetPut ::
  "bool \<Rightarrow> XENBUS_RANGE_SET \<Rightarrow> int \<Rightarrow> int \<Rightarrow> (NTSTATUS \<times> XENBUS_RANGE_SET) kernel" where
  "RangeSetPut mem rs Start Count =
     (let End = s64 (Start + Count - 1) in
      if Count = 0 then Some (STATUS_INVALID_PARAMETER, rs)
      else do {
        ASSERT (Start \<le> End);
        (st, rs') \<leftarrow>
          (if RangeSetIsEmpty rs then RangeSetAdd mem rs Start End True
           else do {
             c \<leftarrow> rs_Cursor rs;
             (if Start > range_End (rs_List rs ! c) then RangeSetAddAfter mem rs Start End
              else do {
                ASSERT (End < range_Start (rs_List rs ! c));
                RangeSetAddBefore mem rs Start End
              })
           });
        (if \<not> NT_SUCCESS st then Some (st, rs')
         else Some (STATUS_SUCCESS, rs'\<lparr>rs_ItemCount := u64 (rs_ItemCount rs' + Count)\<rparr>))
      })"

section \<open>Invariant and abstraction\<close>

text \<open>
  A well-formed set: the ranges are non-empty, inside the open interval of LONGLONG (so that the
  invalidating increments cannot wrap), in order and not touching; the cursor is on an entry
  unless there is none; the counters count. \<open>rs_items\<close> is the set of numbers the list stands for.
\<close>

definition range_ok :: "RANGE \<Rightarrow> bool" where
  "range_ok r \<longleftrightarrow> - (2 ^ 63) < range_Start r \<and> range_Start r \<le> range_End r \<and> range_End r < 2 ^ 63 - 1"

definition apart :: "RANGE \<Rightarrow> RANGE \<Rightarrow> bool" where
  "apart a b \<longleftrightarrow> range_End a + 1 < range_Start b"

definition ranges_wf :: "RANGE list \<Rightarrow> bool" where
  "ranges_wf xs \<longleftrightarrow> sorted_wrt apart xs \<and> (\<forall>r \<in> set xs. range_ok r)"

definition span :: "RANGE \<Rightarrow> int" where
  "span r = range_End r + 1 - range_Start r"

definition items_of :: "RANGE list \<Rightarrow> int set" where
  "items_of xs = (\<Union>r \<in> set xs. {range_Start r .. range_End r})"

definition cursor_ok :: "RANGE list \<Rightarrow> ptr \<Rightarrow> bool" where
  "cursor_ok xs p \<longleftrightarrow> (case p of None \<Rightarrow> xs = [] | Some c \<Rightarrow> c < length xs)"

definition rs_items :: "XENBUS_RANGE_SET \<Rightarrow> int set" where
  "rs_items rs = items_of (rs_List rs)"

definition counts_ok :: "XENBUS_RANGE_SET \<Rightarrow> bool" where
  "counts_ok rs \<longleftrightarrow> rs_RangeCount rs = int (length (rs_List rs)) \<and> length (rs_List rs) < 2 ^ 32 \<and>
     rs_Spare rs \<in> {None, Some zero_RANGE}"

definition rs_wf :: "XENBUS_RANGE_SET \<Rightarrow> bool" where
  "rs_wf rs \<longleftrightarrow> ranges_wf (rs_List rs) \<and> cursor_ok (rs_List rs) (rs_Cursor rs) \<and> counts_ok rs \<and>
     rs_ItemCount rs = sum_list (map span (rs_List rs))"

lemma ranges_wf_Nil [simp]: "ranges_wf []"
  by (simp add: ranges_wf_def)

lemma ranges_wf_Cons [simp]:
  "ranges_wf (r # xs) \<longleftrightarrow> range_ok r \<and> (\<forall>b \<in> set xs. apart r b) \<and> ranges_wf xs"
  by (auto simp: ranges_wf_def)

lemma ranges_wf_append [simp]:
  "ranges_wf (ys @ zs) \<longleftrightarrow> ranges_wf ys \<and> ranges_wf zs \<and> (\<forall>a \<in> set ys. \<forall>b \<in> set zs. apart a b)"
  by (auto simp: ranges_wf_def sorted_wrt_append)

lemma ranges_wf_ok: "ranges_wf xs \<Longrightarrow> r \<in> set xs \<Longrightarrow> range_ok r"
  by (simp add: ranges_wf_def)

lemma items_of_simps [simp]:
  "items_of [] = {}"
  "items_of (r # xs) = {range_Start r .. range_End r} \<union> items_of xs"
  "items_of (ys @ zs) = items_of ys \<union> items_of zs"
  by (auto simp: items_of_def)

lemma items_of_before:
  "\<forall>a \<in> set ys. apart a r \<Longrightarrow> x \<in> items_of ys \<Longrightarrow> x + 1 < range_Start r"
  by (fastforce simp: items_of_def apart_def)

lemma items_of_after:
  "\<forall>b \<in> set zs. apart r b \<Longrightarrow> x \<in> items_of zs \<Longrightarrow> range_End r + 1 < x"
  by (fastforce simp: items_of_def apart_def)

lemma span_sum_nonneg: "ranges_wf xs \<Longrightarrow> 0 \<le> sum_list (map span xs)"
  by (induction xs) (auto simp: span_def range_ok_def)

lemma span_sum_bound:
  "ranges_wf xs \<Longrightarrow> xs = r # ys \<Longrightarrow> sum_list (map span xs) \<le> 2 ^ 63 - 1 - range_Start r"
proof (induction xs arbitrary: r ys)
  case (Cons x xs)
  show ?case
  proof (cases xs)
    case Nil
    with Cons.prems show ?thesis by (simp add: span_def range_ok_def)
  next
    case (Cons x' xs')
    with Cons.IH [of x' xs'] Cons.prems show ?thesis
      by (auto simp: span_def range_ok_def apart_def)
  qed
qed simp

lemma span_sum_u64: "ranges_wf xs \<Longrightarrow> sum_list (map span xs) < 2 ^ 64"
  using span_sum_bound [of xs] by (cases xs) (fastforce simp: range_ok_def)+

lemma span_u64 [simp]: "range_ok r \<Longrightarrow> u64 (range_End r + 1 - range_Start r) = span r"
  by (simp add: range_ok_def span_def)

text \<open>The number of items is the item count.\<close>

lemma card_items_of: "ranges_wf xs \<Longrightarrow> int (card (items_of xs)) = sum_list (map span xs)"
proof (induction xs)
  case (Cons r xs)
  have "{range_Start r .. range_End r} \<inter> items_of xs = {}"
    using Cons.prems items_of_after [of xs r] by fastforce
  moreover have "finite (items_of xs)" by (simp add: items_of_def)
  ultimately have "card (items_of (r # xs)) = card {range_Start r .. range_End r} + card (items_of xs)"
    by (simp add: card_Un_disjoint)
  with Cons show ?case by (simp add: span_def range_ok_def)
qed (simp add: items_of_def)

text \<open>A run of numbers in the set lies in one range, because ranges do not touch.\<close>

lemma items_of_run:
  assumes wf: "ranges_wf xs" and run: "{s .. e} \<subseteq> items_of xs" and "s \<le> e"
  obtains r where "r \<in> set xs" and "range_Start r \<le> s" and "e \<le> range_End r"
proof -
  from run \<open>s \<le> e\<close> obtain r where r: "r \<in> set xs" "range_Start r \<le> s" "s \<le> range_End r"
    by (fastforce simp: items_of_def)
  have "e \<le> range_End r"
  proof (rule ccontr)
    assume "\<not> e \<le> range_End r"
    then have "range_End r + 1 \<in> items_of xs" using r run by auto
    moreover from split_list [OF r(1)] obtain ys zs where xs: "xs = ys @ r # zs" by blast
    ultimately show False
      using wf r items_of_before [of ys r "range_End r + 1"] items_of_after [of zs r "range_End r + 1"]
      by auto
  qed
  with r that show thesis by blast
qed

section \<open>The operations on a well-formed set\<close>

lemma counts_u32 [simp]: "counts_ok rs \<Longrightarrow> rs_List rs = ys @ r # zs \<Longrightarrow>
    u32 (rs_RangeCount rs - 1) = int (length ys + length zs)"
  by (simp add: counts_ok_def)

text \<open>Removing the invalidated entry under the cursor keeps the cursor on an entry.\<close>

lemma RangeSetRemove_at:
  assumes xs: "rs_List rs = ys @ r # zs" and cur: "rs_Cursor rs = Some (length ys)"
    and inv: "range_End r < range_Start r" and cnt: "counts_ok rs"
  obtains p where "cursor_ok (ys @ zs) p"
    and "RangeSetRemove rs After =
       Some (rs\<lparr>rs_List := ys @ zs, rs_Cursor := p,
                rs_RangeCount := int (length ys + length zs), rs_Spare := Some zero_RANGE\<rparr>)"
proof -
  define q where "q = unlinked (length ys) (if After then flink (ys @ r # zs) (Some (length ys))
                                             else blink (ys @ r # zs) (Some (length ys)))"
  define p where "p = (if q = None then (if After then flink (ys @ zs) None else blink (ys @ zs) None)
                       else q)"
  have "cursor_ok (ys @ zs) p"
    by (cases ys; cases zs) (auto simp: p_def q_def cursor_ok_def blink_Some split: if_splits)
  moreover have "RangeSetRemove rs After =
       Some (rs\<lparr>rs_List := ys @ zs, rs_Cursor := p,
                rs_RangeCount := int (length ys + length zs), rs_Spare := Some zero_RANGE\<rparr>)"
    using cnt xs inv cur unfolding RangeSetRemove_def RangeSetIsEmpty_def p_def q_def Let_def
    by (cases "rs_Spare rs") (simp_all add: counts_ok_def del: flink.simps blink.simps)
  ultimately show thesis by (rule that)
qed

text \<open>A state whose list is \<open>ys @ r # zs\<close> with the cursor on \<open>r\<close>.\<close>

definition rs_at :: "XENBUS_RANGE_SET \<Rightarrow> RANGE list \<Rightarrow> RANGE \<Rightarrow> RANGE list \<Rightarrow> bool" where
  "rs_at rs ys r zs \<longleftrightarrow> rs_List rs = ys @ r # zs \<and> rs_Cursor rs = Some (length ys) \<and> counts_ok rs"

lemma rs_atD [dest]:
  assumes "rs_at rs ys r zs"
  shows "rs_List rs = ys @ r # zs" "rs_Cursor rs = Some (length ys)" "counts_ok rs"
  using assms by (simp_all add: rs_at_def)

lemma counts_ok_update [simp]:
  "length xs = length (rs_List rs) \<Longrightarrow> counts_ok (rs\<lparr>rs_List := xs\<rparr>) = counts_ok rs"
  "counts_ok (rs\<lparr>rs_Cursor := p\<rparr>) = counts_ok rs"
  "counts_ok (rs\<lparr>rs_ItemCount := n\<rparr>) = counts_ok rs"
  by (simp_all add: counts_ok_def)

lemma first_fit_Some:
  "first_fit xs Count i = Some j \<Longrightarrow>
     \<exists>ys r zs. xs = ys @ r # zs \<and> j = i + length ys \<and> Count \<le> u64 (range_End r + 1 - range_Start r) \<and>
       (\<forall>y \<in> set ys. u64 (range_End y + 1 - range_Start y) < Count)"
proof (induction xs arbitrary: i)
  case (Cons x xs)
  show ?case
  proof (cases "Count \<le> u64 (range_End x + 1 - range_Start x)")
    case True
    with Cons.prems show ?thesis by (intro exI [of _ "[]"]) auto
  next
    case False
    with Cons.prems Cons.IH [of "Suc i"] obtain ys r zs where
      "xs = ys @ r # zs" "j = Suc i + length ys" "Count \<le> u64 (range_End r + 1 - range_Start r)"
      "\<forall>y \<in> set ys. u64 (range_End y + 1 - range_Start y) < Count" by auto
    with False show ?thesis by (intro exI [of _ "x # ys"]) auto
  qed
qed simp

lemma first_fit_None:
  "first_fit xs Count i = None \<Longrightarrow> r \<in> set xs \<Longrightarrow> u64 (range_End r + 1 - range_Start r) < Count"
  by (induction xs arbitrary: i) (auto split: if_splits)

lemma rs_wf_at:
  assumes "rs_wf rs" and "rs_List rs = ys @ r # zs"
  shows "range_ok r" and "\<forall>a \<in> set ys. apart a r" and "\<forall>b \<in> set zs. apart r b"
    and "ranges_wf ys" and "ranges_wf zs" and "\<forall>a \<in> set ys. \<forall>b \<in> set zs. apart a b"
    and "counts_ok rs"
    and "rs_ItemCount rs = sum_list (map span ys) + span r + sum_list (map span zs)"
    and "rs_items rs = items_of ys \<union> {range_Start r .. range_End r} \<union> items_of zs"
  using assms by (auto simp: rs_wf_def rs_items_def)

lemma rs_wf_count: "rs_wf rs \<Longrightarrow> 0 \<le> rs_ItemCount rs \<and> rs_ItemCount rs < 2 ^ 64"
  using span_sum_nonneg [of "rs_List rs"] span_sum_u64 [of "rs_List rs"] by (simp add: rs_wf_def)

lemma rs_wf_span:
  assumes wf: "rs_wf rs" and r: "r \<in> set (rs_List rs)"
  shows "span r \<le> rs_ItemCount rs \<and> 0 < span r"
proof -
  from split_list [OF r] obtain ys zs where xs: "rs_List rs = ys @ r # zs" by blast
  note at = rs_wf_at [OF wf xs]
  show ?thesis
    using at(1,8) span_sum_nonneg [OF at(4)] span_sum_nonneg [OF at(5)]
    by (simp add: range_ok_def span_def)
qed

lemma items_of_disjoint:
  assumes "ranges_wf (ys @ r # zs)" and "range_Start r \<le> x" and "x \<le> range_End r"
  shows "x \<notin> items_of ys" and "x \<notin> items_of zs"
  using assms items_of_before [of ys r x] items_of_after [of zs r x] by auto

text \<open>Taking \<open>Count\<close> numbers from the front of a range with room for them.\<close>

lemma RangeSetPop_at:
  assumes wf: "rs_wf rs" and xs: "rs_List rs = ys @ r # zs"
    and fit: "first_fit (rs_List rs) Count 0 = Some (length ys)"
    and Count: "0 < Count" "Count \<le> span r"
  obtains rs' where "RangeSetPop rs Count = Some (STATUS_SUCCESS, Some (range_Start r), rs')"
    and "rs_wf rs'"
    and "rs_items rs' = rs_items rs - {range_Start r .. range_Start r + Count - 1}"
proof -
  note at = rs_wf_at [OF wf xs]
  let ?r = "r\<lparr>range_Start := range_Start r + Count\<rparr>"
  let ?rs = "rs\<lparr>rs_Cursor := Some (length ys), rs_List := ys @ ?r # zs,
                rs_ItemCount := rs_ItemCount rs - Count\<rparr>"
  have wrap: "s64 (range_Start r + Count) = range_Start r + Count"
    using at(1) Count by (simp add: range_ok_def span_def)
  have cnt: "Count \<le> rs_ItemCount rs" "u64 (rs_ItemCount rs - Count) = rs_ItemCount rs - Count"
    using rs_wf_span [OF wf, of r] rs_wf_count [OF wf] xs Count by simp_all
  have pop: "RangeSetPop rs Count =
      Option.bind (if range_End ?r < range_Start ?r then RangeSetRemove ?rs True else Some ?rs)
        (\<lambda>rs''. Some (STATUS_SUCCESS, Some (range_Start r), rs''))"
    using fit Count cnt wrap xs by (simp add: RangeSetPop_def RangeSetIsEmpty_def Let_def)
  have gone: "x \<notin> items_of ys \<and> x \<notin> items_of zs"
    if "range_Start r \<le> x" "x \<le> range_Start r + Count - 1" for x
    using items_of_disjoint [of ys r zs x] wf xs that Count by (auto simp: rs_wf_def span_def)
  show thesis
  proof (cases "Count = span r")
    case True
    then have e: "range_End ?r < range_Start ?r" by (simp add: span_def)
    have rs: "rs_List ?rs = ys @ ?r # zs" "rs_Cursor ?rs = Some (length ys)" "counts_ok ?rs"
      using at(7) xs by (simp_all add: counts_ok_def)
    obtain p where p: "cursor_ok (ys @ zs) p"
      and rem: "RangeSetRemove ?rs True = Some (?rs\<lparr>rs_List := ys @ zs, rs_Cursor := p,
                rs_RangeCount := int (length ys + length zs), rs_Spare := Some zero_RANGE\<rparr>)"
      using RangeSetRemove_at [OF rs(1,2) e rs(3)] by blast
    show thesis
    proof (rule that)
      show "RangeSetPop rs Count = Some (STATUS_SUCCESS, Some (range_Start r),
          ?rs\<lparr>rs_List := ys @ zs, rs_Cursor := p,
                rs_RangeCount := int (length ys + length zs), rs_Spare := Some zero_RANGE\<rparr>)"
        using pop rem e by simp
      show "rs_wf (?rs\<lparr>rs_List := ys @ zs, rs_Cursor := p,
                rs_RangeCount := int (length ys + length zs), rs_Spare := Some zero_RANGE\<rparr>)"
        using at p True xs by (simp add: rs_wf_def counts_ok_def)
      show "rs_items (?rs\<lparr>rs_List := ys @ zs, rs_Cursor := p,
                rs_RangeCount := int (length ys + length zs), rs_Spare := Some zero_RANGE\<rparr>)
          = rs_items rs - {range_Start r .. range_Start r + Count - 1}"
        using gone True at(9) by (auto simp: rs_items_def span_def)
    qed
  next
    case False
    with Count have e: "\<not> range_End ?r < range_Start ?r" by (simp add: span_def)
    show thesis
    proof (rule that)
      show "RangeSetPop rs Count = Some (STATUS_SUCCESS, Some (range_Start r), ?rs)"
        using pop e by simp
      show "rs_wf ?rs"
        using at e xs Count by (auto simp: rs_wf_def counts_ok_def cursor_ok_def range_ok_def apart_def span_def)
      show "rs_items ?rs = rs_items rs - {range_Start r .. range_Start r + Count - 1}"
        using gone at(9) Count e by (auto simp: rs_items_def)
    qed
  qed
qed

text \<open>
  Pop either takes the lowest run of \<open>Count\<close> free numbers out of the set, or reports
  insufficient resources exactly when there is no such run, without touching the state; it never
  fails an assertion.
\<close>

lemma RangeSetPop_law:
  assumes wf: "rs_wf rs" and "0 < Count"
  shows "(\<exists>Start rs'. RangeSetPop rs Count = Some (STATUS_SUCCESS, Some Start, rs') \<and> rs_wf rs' \<and>
            {Start .. Start + Count - 1} \<subseteq> rs_items rs \<and>
            rs_items rs' = rs_items rs - {Start .. Start + Count - 1} \<and>
            (\<forall>s. {s .. s + Count - 1} \<subseteq> rs_items rs \<longrightarrow> Start \<le> s)) \<or>
         (RangeSetPop rs Count = Some (STATUS_INSUFFICIENT_RESOURCES, None, rs) \<and>
            (\<forall>s. \<not> {s .. s + Count - 1} \<subseteq> rs_items rs))"
proof -
  have ok: "ranges_wf (rs_List rs)" using wf by (simp add: rs_wf_def)
  have room: "\<exists>r \<in> set (rs_List rs). range_Start r \<le> s \<and> Count \<le> span r \<and> s \<le> range_End r"
    if "{s .. s + Count - 1} \<subseteq> rs_items rs" for s
  proof -
    have run: "{s .. s + Count - 1} \<subseteq> items_of (rs_List rs)" "s \<le> s + Count - 1"
      using that \<open>0 < Count\<close> by (simp_all add: rs_items_def)
    obtain r where "r \<in> set (rs_List rs)" "range_Start r \<le> s" "s + Count - 1 \<le> range_End r"
      using items_of_run [OF ok run] .
    then show ?thesis using \<open>0 < Count\<close> by (intro bexI [of _ r]) (simp_all add: span_def)
  qed
  show ?thesis
  proof (cases "first_fit (rs_List rs) Count 0")
    case None
    then have "span r < Count" if "r \<in> set (rs_List rs)" for r
      using first_fit_None [OF None that] ranges_wf_ok [OF ok that] by simp
    with room have "\<forall>s. \<not> {s .. s + Count - 1} \<subseteq> rs_items rs" by fastforce
    moreover have "RangeSetPop rs Count = Some (STATUS_INSUFFICIENT_RESOURCES, None, rs)"
      using None \<open>0 < Count\<close> by (simp add: RangeSetPop_def)
    ultimately show ?thesis by blast
  next
    case (Some c)
    from first_fit_Some [OF Some] obtain ys r zs where xs: "rs_List rs = ys @ r # zs"
      and c: "c = length ys" and fits: "Count \<le> u64 (range_End r + 1 - range_Start r)"
      and ys: "\<forall>y \<in> set ys. u64 (range_End y + 1 - range_Start y) < Count" by auto
    note at = rs_wf_at [OF wf xs]
    have "Count \<le> span r" using fits at(1) by simp
    from RangeSetPop_at [OF wf xs _ \<open>0 < Count\<close> this] Some c obtain rs' where
      pop: "RangeSetPop rs Count = Some (STATUS_SUCCESS, Some (range_Start r), rs')"
        "rs_wf rs'" "rs_items rs' = rs_items rs - {range_Start r .. range_Start r + Count - 1}"
      by blast
    have "range_Start r \<le> s" if "{s .. s + Count - 1} \<subseteq> rs_items rs" for s
    proof -
      from room [OF that] obtain r' where r': "r' \<in> set (rs_List rs)" "range_Start r' \<le> s"
        "Count \<le> span r'" "s \<le> range_End r'" by blast
      then have "r' \<notin> set ys" using ys ranges_wf_ok [OF ok r'(1)] by fastforce
      with r'(1) xs have "r' = r \<or> r' \<in> set zs" by auto
      then have "range_Start r \<le> range_Start r'"
        using at(1,3) by (force simp: apart_def range_ok_def)
      with r'(2) show ?thesis by simp
    qed
    moreover have "{range_Start r .. range_Start r + Count - 1} \<subseteq> rs_items rs"
    proof
      fix x assume "x \<in> {range_Start r .. range_Start r + Count - 1}"
      with \<open>Count \<le> span r\<close> have "range_Start r \<le> x" "x \<le> range_End r" by (simp_all add: span_def)
      then show "x \<in> rs_items rs" by (simp add: at(9))
    qed
    ultimately show ?thesis using pop by blast
  qed
qed

section \<open>Merging and adding\<close>

text \<open>
  The entry under the cursor may touch its neighbours. Each merge makes one side apart, keeps the
  other, and keeps the numbers the list stands for.
\<close>

lemma RangeSetMergeBackwards_at:
  assumes at: "rs_at rs ys n zs" and n: "range_ok n" and ys: "ranges_wf ys"
    and before: "\<forall>a \<in> set ys. range_End a < range_Start n"
  obtains rs' ys' m where "RangeSetMergeBackwards rs = Some rs'" and "rs_at rs' ys' m zs"
    and "range_ok m" and "ranges_wf ys'" and "\<forall>a \<in> set ys'. apart a m"
    and "range_End m = range_End n" and "set ys' \<subseteq> set ys"
    and "items_of ys' \<union> {range_Start m .. range_End m} = items_of ys \<union> {range_Start n .. range_End n}"
    and "sum_list (map span ys') + span m = sum_list (map span ys) + span n"
    and "rs_ItemCount rs' = rs_ItemCount rs"
proof (cases ys rule: rev_cases)
  case Nil
  then have "RangeSetMergeBackwards rs = Some rs"
    using rs_atD [OF at] by (simp add: RangeSetMergeBackwards_def)
  with Nil at n that [of rs ys n] show thesis by simp
next
  case (snoc ys0 p)
  note rs = rs_atD [OF at]
  have p: "range_ok p" "range_End p < range_Start n" "\<forall>a \<in> set ys0. apart a p" "ranges_wf ys0"
    using ys before snoc by auto
  have wrap: "s64 (range_Start n - 1) = range_Start n - 1" "s64 (range_End n + 1) = range_End n + 1"
    using n by (simp_all add: range_ok_def)
  show thesis
  proof (cases "range_End p = range_Start n - 1")
    case False
    then have "RangeSetMergeBackwards rs = Some rs"
      using rs snoc wrap by (simp add: RangeSetMergeBackwards_def nth_append Let_def)
    moreover have "\<forall>a \<in> set ys. apart a n"
      using p snoc False by (force simp: apart_def range_ok_def)
    ultimately show thesis using at n ys that [of rs ys n] by simp
  next
    case True
    let ?p = "p\<lparr>range_End := range_End n\<rparr>"
    let ?n = "n\<lparr>range_Start := range_End n + 1\<rparr>"
    let ?rs = "rs\<lparr>rs_List := (ys0 @ [?p]) @ ?n # zs\<rparr>"
    have rs': "rs_List ?rs = (ys0 @ [?p]) @ ?n # zs" "rs_Cursor ?rs = Some (length (ys0 @ [?p]))"
      "range_End ?n < range_Start ?n" "counts_ok ?rs"
      using rs snoc by (simp_all add: counts_ok_def)
    have merge: "RangeSetMergeBackwards rs = RangeSetRemove ?rs False"
      using rs snoc wrap True by (simp add: RangeSetMergeBackwards_def nth_append Let_def list_update_append)
    let ?rs' = "?rs\<lparr>rs_List := ys0 @ ?p # zs, rs_Cursor := Some (length ys0),
        rs_RangeCount := int (Suc (length ys0 + length zs)), rs_Spare := Some zero_RANGE\<rparr>"
    have "RangeSetRemove ?rs False = Some ?rs'"
      using rs'(4) by (cases "rs_Spare rs")
        (simp_all add: RangeSetRemove_def RangeSetIsEmpty_def Let_def rs snoc counts_ok_def
          remove_nth_def nth_append)
    then have "RangeSetMergeBackwards rs = Some ?rs'" using merge by simp
    moreover have "rs_at ?rs' ys0 ?p zs"
      using rs'(4) by (simp add: rs_at_def counts_ok_def)
    moreover have "items_of ys0 \<union> {range_Start ?p .. range_End ?p} = items_of ys \<union> {range_Start n .. range_End n}"
      using snoc True p n by (auto simp: range_ok_def)
    moreover have "range_ok ?p" using p n by (simp add: range_ok_def)
    moreover have "\<forall>a \<in> set ys0. apart a ?p" using p(3) by (simp add: apart_def)
    ultimately show thesis
      using that [of ?rs' ys0 ?p] p snoc True by (auto simp: span_def)
  qed
qed

lemma RangeSetMergeForwards_at:
  assumes at: "rs_at rs ys n zs" and n: "range_ok n" and zs: "ranges_wf zs"
    and after: "\<forall>b \<in> set zs. range_End n < range_Start b"
  obtains rs' m zs' where "RangeSetMergeForwards rs = Some rs'" and "rs_at rs' ys m zs'"
    and "range_ok m" and "ranges_wf zs'" and "\<forall>b \<in> set zs'. apart m b"
    and "range_Start m = range_Start n" and "set zs' \<subseteq> set zs"
    and "items_of zs' \<union> {range_Start m .. range_End m} = items_of zs \<union> {range_Start n .. range_End n}"
    and "sum_list (map span zs') + span m = sum_list (map span zs) + span n"
    and "rs_ItemCount rs' = rs_ItemCount rs"
proof (cases zs)
  case Nil
  then have "RangeSetMergeForwards rs = Some rs"
    using rs_atD [OF at] by (simp add: RangeSetMergeForwards_def)
  with Nil at n that [of rs n zs] show thesis by simp
next
  case (Cons p zs0)
  note rs = rs_atD [OF at]
  have p: "range_ok p" "range_End n < range_Start p" "\<forall>b \<in> set zs0. apart p b" "ranges_wf zs0"
    using zs after Cons by auto
  have wrap: "s64 (range_Start n - 1) = range_Start n - 1" "s64 (range_End n + 1) = range_End n + 1"
    using n by (simp_all add: range_ok_def)
  show thesis
  proof (cases "range_Start p = range_End n + 1")
    case False
    then have "RangeSetMergeForwards rs = Some rs"
      using rs Cons wrap by (simp add: RangeSetMergeForwards_def nth_append Let_def)
    moreover have "\<forall>b \<in> set zs. apart n b"
      using p Cons False by (force simp: apart_def range_ok_def)
    ultimately show thesis using at n zs that [of rs n zs] by simp
  next
    case True
    let ?p = "p\<lparr>range_Start := range_Start n\<rparr>"
    let ?n = "n\<lparr>range_End := range_Start n - 1\<rparr>"
    let ?rs = "rs\<lparr>rs_List := ys @ ?n # ?p # zs0\<rparr>"
    have rs': "counts_ok ?rs" using rs Cons by (simp add: counts_ok_def)
    have merge: "RangeSetMergeForwards rs = RangeSetRemove ?rs True"
      using rs Cons wrap True
      by (simp add: RangeSetMergeForwards_def nth_append Let_def list_update_append)
    let ?rs' = "?rs\<lparr>rs_List := ys @ ?p # zs0, rs_Cursor := Some (length ys),
        rs_RangeCount := int (Suc (length ys + length zs0)), rs_Spare := Some zero_RANGE\<rparr>"
    have "RangeSetRemove ?rs True = Some ?rs'"
      using rs' by (cases "rs_Spare rs")
        (simp_all add: RangeSetRemove_def RangeSetIsEmpty_def Let_def rs Cons counts_ok_def
          remove_nth_def nth_append)
    then have "RangeSetMergeForwards rs = Some ?rs'" using merge by simp
    moreover have "rs_at ?rs' ys ?p zs0"
      using rs' by (simp add: rs_at_def counts_ok_def)
    moreover have "items_of zs0 \<union> {range_Start ?p .. range_End ?p} = items_of zs \<union> {range_Start n .. range_End n}"
      using Cons True p n by (auto simp: range_ok_def)
    moreover have "range_ok ?p" using p n by (simp add: range_ok_def)
    moreover have "\<forall>b \<in> set zs0. apart ?p b" using p(3) by (simp add: apart_def)
    ultimately show thesis
      using that [of ?rs' ?p zs0] p Cons True by (auto simp: span_def)
  qed
qed

text \<open>
  Adding a range at its place in the order: \<open>ins\<close> says that the insertion the code performs puts
  the entry between \<open>ys\<close> and \<open>zs\<close>.
\<close>

lemma RangeSetAdd_at:
  assumes xs: "rs_List rs = ys @ zs" and wf: "ranges_wf (ys @ zs)" and cnt: "counts_ok rs"
    and room: "length ys + length zs < 2 ^ 32 - 1" and mem: "mem \<or> rs_Spare rs \<noteq> None"
    and ins: "\<And>x. (if After then insert_after (ys @ zs) (rs_Cursor rs) x
                   else insert_before (ys @ zs) (rs_Cursor rs) x) = (ys @ x # zs, length ys)"
    and n: "- (2 ^ 63) < Start" "Start \<le> End" "End < 2 ^ 63 - 1"
    and before: "\<forall>a \<in> set ys. range_End a < Start" and after: "\<forall>b \<in> set zs. End < range_Start b"
  obtains rs' ys' k zs' where "RangeSetAdd mem rs Start End After = Some (STATUS_SUCCESS, rs')"
    and "rs_at rs' ys' k zs'" and "ranges_wf (ys' @ k # zs')"
    and "items_of (ys' @ k # zs') = items_of (ys @ zs) \<union> {Start .. End}"
    and "sum_list (map span (ys' @ k # zs')) = sum_list (map span (ys @ zs)) + (End + 1 - Start)"
    and "rs_ItemCount rs' = rs_ItemCount rs"
proof -
  let ?n = "\<lparr>range_Start = Start, range_End = End\<rparr>"
  let ?rs = "rs\<lparr>rs_Spare := None, rs_List := ys @ ?n # zs, rs_Cursor := Some (length ys),
                rs_RangeCount := u32 (rs_RangeCount rs + 1)\<rparr>"
  have at: "rs_at ?rs ys ?n zs"
    using xs cnt room by (simp add: rs_at_def counts_ok_def)
  have n': "range_ok ?n" using n by (simp add: range_ok_def)
  obtain rs1 ys1 m where 1: "RangeSetMergeBackwards ?rs = Some rs1" "rs_at rs1 ys1 m zs" "range_ok m"
    "ranges_wf ys1" "\<forall>a \<in> set ys1. apart a m" "range_End m = End" "set ys1 \<subseteq> set ys"
    "items_of ys1 \<union> {range_Start m .. range_End m} = items_of ys \<union> {Start .. End}"
    "sum_list (map span ys1) + span m = sum_list (map span ys) + span ?n"
    "rs_ItemCount rs1 = rs_ItemCount rs"
    using RangeSetMergeBackwards_at [OF at n'] wf before by auto
  obtain rs2 k zs2 where 2: "RangeSetMergeForwards rs1 = Some rs2" "rs_at rs2 ys1 k zs2" "range_ok k"
    "ranges_wf zs2" "\<forall>b \<in> set zs2. apart k b" "range_Start k = range_Start m" "set zs2 \<subseteq> set zs"
    "items_of zs2 \<union> {range_Start k .. range_End k} = items_of zs \<union> {range_Start m .. range_End m}"
    "sum_list (map span zs2) + span k = sum_list (map span zs) + span m"
    "rs_ItemCount rs2 = rs_ItemCount rs1"
    using RangeSetMergeForwards_at [OF 1(2,3)] wf after 1(6) by auto
  have spare: "(case rs_Spare rs of None \<Rightarrow> if mem then Some zero_RANGE else None | Some s \<Rightarrow> Some s)
      = Some zero_RANGE"
    using mem cnt by (auto simp: counts_ok_def split: option.splits)
  have "RangeSetAdd mem rs Start End After = Some (STATUS_SUCCESS, rs2)"
    using ins [of ?n] 1(1) 2(1) spare xs
    by (simp add: RangeSetAdd_def zero_RANGE_def Let_def del: insert_after.simps insert_before.simps
        split: if_splits)
  moreover have "ranges_wf (ys1 @ k # zs2)"
  proof -
    have "\<forall>a \<in> set ys1. \<forall>b \<in> set zs2. apart a b" using wf 1(7) 2(7) by auto
    moreover have "\<forall>a \<in> set ys1. apart a k" using 1(5) 2(6) by (simp add: apart_def)
    ultimately show ?thesis using 1 2 by simp
  qed
  moreover have "items_of (ys1 @ k # zs2) = items_of (ys @ zs) \<union> {Start .. End}"
    using 1(8) 2(8) by auto
  moreover have "sum_list (map span (ys1 @ k # zs2)) = sum_list (map span (ys @ zs)) + (End + 1 - Start)"
    using 1(9) 2(9) by (simp add: span_def)
  ultimately show thesis using that 2(2,10) 1(10) by metis
qed

lemma RangeSetAdd_no_memory:
  "rs_Spare rs = None \<Longrightarrow> RangeSetAdd False rs Start End After = Some (STATUS_NO_MEMORY, rs)"
  by (simp add: RangeSetAdd_def)

section \<open>Put\<close>

text \<open>A run is disjoint from the set when every range is on one side of it.\<close>

definition clear_of :: "RANGE list \<Rightarrow> int \<Rightarrow> int \<Rightarrow> bool" where
  "clear_of xs Start End \<longleftrightarrow> (\<forall>r \<in> set xs. range_End r < Start \<or> End < range_Start r)"

lemma clear_of_iff:
  assumes wf: "ranges_wf xs" and le: "Start \<le> End"
  shows "clear_of xs Start End \<longleftrightarrow> {Start .. End} \<inter> items_of xs = {}"
proof
  assume "clear_of xs Start End"
  then show "{Start .. End} \<inter> items_of xs = {}"
    by (fastforce simp: clear_of_def items_of_def)
next
  assume dis: "{Start .. End} \<inter> items_of xs = {}"
  show "clear_of xs Start End"
    unfolding clear_of_def
  proof (intro ballI)
    fix r assume r: "r \<in> set xs"
    have ne: "range_Start r \<le> range_End r" using ranges_wf_ok [OF wf r] by (simp add: range_ok_def)
    show "range_End r < Start \<or> End < range_Start r"
    proof (rule ccontr)
      assume "\<not> ?thesis"
      with ne le have "max Start (range_Start r) \<in> {Start .. End}"
        "max Start (range_Start r) \<in> {range_Start r .. range_End r}" by auto
      with r have "max Start (range_Start r) \<in> {Start .. End} \<inter> items_of xs"
        unfolding items_of_def by blast
      with dis show False by blast
    qed
  qed
qed

lemma ranges_wf_nth_mono:
  assumes wf: "ranges_wf xs" and "i \<le> j" and "j < length xs"
  shows "range_Start (xs ! i) \<le> range_Start (xs ! j) \<and> range_End (xs ! i) \<le> range_End (xs ! j)"
proof (cases "i = j")
  case False
  then have "apart (xs ! i) (xs ! j)"
    using assms by (simp add: ranges_wf_def sorted_wrt_nth_less)
  moreover have "range_ok (xs ! i)" "range_ok (xs ! j)"
    using assms by (auto intro: ranges_wf_ok)
  ultimately show ?thesis by (simp add: apart_def range_ok_def)
qed simp

lemma take_before:
  assumes "ranges_wf xs" and "c < length xs" and "range_End (xs ! c) < S"
  shows "\<forall>a \<in> set (take (Suc c) xs). range_End a < S"
proof
  fix a assume "a \<in> set (take (Suc c) xs)"
  then obtain i where "i \<le> c" "a = xs ! i"
    by (auto simp: in_set_conv_nth less_Suc_eq_le)
  with ranges_wf_nth_mono [OF assms(1) \<open>i \<le> c\<close> assms(2)] assms(3) show "range_End a < S" by simp
qed

lemma drop_after:
  assumes "ranges_wf xs" and "E < range_Start (xs ! c)"
  shows "\<forall>b \<in> set (drop c xs). E < range_Start b"
proof
  fix b assume "b \<in> set (drop c xs)"
  then obtain i where "i < length (drop c xs)" "b = drop c xs ! i"
    by (auto simp: in_set_conv_nth)
  then have "c + i < length xs" "b = xs ! (c + i)" by simp_all
  with ranges_wf_nth_mono [OF assms(1), of c "c + i"] assms(2) show "E < range_Start b" by simp
qed

lemma add_after_seek_spec:
  assumes "ranges_wf xs" and "clear_of xs Start End" and "Start \<le> End"
    and "c \<le> length xs" and "\<forall>a \<in> set (take c xs). range_End a < Start"
  shows "\<exists>ys zs. xs = ys @ zs \<and>
     add_after_seek xs Start End c = Some (if zs = [] then None else Some (length ys)) \<and>
     (\<forall>a \<in> set ys. range_End a < Start) \<and> (\<forall>b \<in> set zs. End < range_Start b)"
  using assms
proof (induction xs Start End c rule: add_after_seek.induct)
  case (1 xs Start End c)
  show ?case
  proof (cases "c < length xs")
    case False
    with "1.prems" show ?thesis
      by (intro exI [of _ xs] exI [of _ "[]"]) (simp add: add_after_seek.simps [of xs])
  next
    case c: True
    have ok: "range_ok (xs ! c)" using c "1.prems"(1) by (auto intro: ranges_wf_ok)
    have side: "range_End (xs ! c) < Start \<or> End < range_Start (xs ! c)"
      using c "1.prems"(2) by (simp add: clear_of_def)
    show ?thesis
    proof (cases "Start < range_Start (xs ! c)")
      case True
      with ok side have lt: "End < range_Start (xs ! c)" by (auto simp: range_ok_def)
      have "\<forall>b \<in> set (drop c xs). End < range_Start b"
        using drop_after [OF "1.prems"(1) lt] .
      moreover have "add_after_seek xs Start End c = Some (Some c)"
        using True lt c by (simp add: add_after_seek.simps [of xs])
      ultimately show ?thesis
        using c "1.prems"(5) by (intro exI [of _ "take c xs"] exI [of _ "drop c xs"]) simp
    next
      case False
      with side "1.prems"(3) have "range_End (xs ! c) < Start" by auto
      then have "\<forall>a \<in> set (take (Suc c) xs). range_End a < Start"
        using c "1.prems"(5) by (simp add: take_Suc_conv_app_nth)
      with "1.IH" [OF _ False] c "1.prems"(1-3) show ?thesis
        by (simp add: add_after_seek.simps [of xs _ _ c] False)
    qed
  qed
qed

lemma add_before_seek_spec:
  assumes "ranges_wf xs" and "clear_of xs Start End" and "Start \<le> End"
    and "c \<le> length xs" and "\<forall>b \<in> set (drop c xs). End < range_Start b"
  shows "\<exists>ys zs. xs = ys @ zs \<and>
     add_before_seek xs Start End c = Some (if ys = [] then None else Some (length ys - 1)) \<and>
     (\<forall>a \<in> set ys. range_End a < Start) \<and> (\<forall>b \<in> set zs. End < range_Start b)"
  using assms
proof (induction c)
  case 0
  then show ?case by (intro exI [of _ "[]"] exI [of _ xs]) simp
next
  case (Suc c)
  then have c: "c < length xs" by simp
  have ok: "range_ok (xs ! c)" using c Suc.prems(1) by (auto intro: ranges_wf_ok)
  have side: "range_End (xs ! c) < Start \<or> End < range_Start (xs ! c)"
    using c Suc.prems(2) by (simp add: clear_of_def)
  show ?case
  proof (cases "End > range_End (xs ! c)")
    case True
    with ok side have lt: "range_End (xs ! c) < Start" by (auto simp: range_ok_def)
    have "\<forall>a \<in> set (take (Suc c) xs). range_End a < Start"
      using take_before [OF Suc.prems(1) c lt] .
    moreover have "take (Suc c) xs \<noteq> []" using c by auto
    ultimately show ?thesis
      using True lt c Suc.prems(5)
      by - (rule exI [of _ "take (Suc c) xs"], rule exI [of _ "drop (Suc c) xs"], auto)
  next
    case False
    with side Suc.prems(3) ok have "End < range_Start (xs ! c)" by auto
    then have "\<forall>b \<in> set (drop c xs). End < range_Start b"
      using c Suc.prems(5) by (simp add: Cons_nth_drop_Suc [symmetric])
    with Suc.IH Suc.prems(1-3) c False show ?thesis by simp
  qed
qed

text \<open>
  The call \<^verbatim>\<open>RangeSetPut\<close> makes, whichever of the three it is, is \<^verbatim>\<open>RangeSetAdd\<close> at a cursor that
  inserts the run at its place.
\<close>

lemma RangeSetPut_seek:
  assumes wf: "rs_wf rs" and le: "Start \<le> End" and dis: "{Start .. End} \<inter> rs_items rs = {}"
  obtains ys zs p After where "rs_List rs = ys @ zs"
    and "\<forall>a \<in> set ys. range_End a < Start" and "\<forall>b \<in> set zs. End < range_Start b"
    and "\<And>x. (if After then insert_after (ys @ zs) p x else insert_before (ys @ zs) p x)
           = (ys @ x # zs, length ys)"
    and "\<And>mem Count. Count \<noteq> 0 \<Longrightarrow> s64 (Start + Count - 1) = End \<Longrightarrow> RangeSetPut mem rs Start Count =
       Option.bind (RangeSetAdd mem (rs\<lparr>rs_Cursor := p\<rparr>) Start End After)
         (\<lambda>(st, rs'). if \<not> NT_SUCCESS st then Some (st, rs')
            else Some (STATUS_SUCCESS, rs'\<lparr>rs_ItemCount := u64 (rs_ItemCount rs' + Count)\<rparr>))"
proof (cases "rs_Cursor rs")
  case None
  with wf have "rs_List rs = []" by (simp add: rs_wf_def cursor_ok_def)
  moreover have "rs\<lparr>rs_Cursor := None\<rparr> = rs" using None by (cases rs) simp
  ultimately show thesis
    using that [of "[]" "[]" True None] le by (simp add: RangeSetPut_def RangeSetIsEmpty_def Let_def)
next
  case (Some c)
  let ?xs = "rs_List rs"
  have ok: "ranges_wf ?xs" and c: "c < length ?xs"
    using wf Some by (simp_all add: rs_wf_def cursor_ok_def)
  have clear: "clear_of ?xs Start End" using dis clear_of_iff [OF ok le] by (simp add: rs_items_def)
  have side: "range_End (?xs ! c) < Start \<or> End < range_Start (?xs ! c)"
    using clear c by (simp add: clear_of_def)
  have nonempty: "?xs \<noteq> []" using c by auto
  have okc: "range_ok (?xs ! c)" using c ok by (auto intro: ranges_wf_ok)
  show thesis
  proof (cases "Start > range_End (?xs ! c)")
    case True
    have "\<forall>a \<in> set (take (Suc c) ?xs). range_End a < Start"
      using take_before [OF ok c] True by simp
    from add_after_seek_spec [OF ok clear le _ this] c obtain ys zs where
      s: "?xs = ys @ zs" "add_after_seek ?xs Start End (Suc c) = Some (if zs = [] then None else Some (length ys))"
      "\<forall>a \<in> set ys. range_End a < Start" "\<forall>b \<in> set zs. End < range_Start b" by auto
    show thesis
      by (rule that [of ys zs False "if zs = [] then None else Some (length ys)"])
        (use s nonempty Some True le in \<open>auto simp: RangeSetPut_def RangeSetIsEmpty_def RangeSetAddAfter_def Let_def\<close>)
  next
    case False
    with side have lt: "End < range_Start (?xs ! c)" by simp
    have "\<forall>b \<in> set (drop c ?xs). End < range_Start b"
      using drop_after [OF ok lt] .
    from add_before_seek_spec [OF ok clear le _ this] c obtain ys zs where
      s: "?xs = ys @ zs" "add_before_seek ?xs Start End c = Some (if ys = [] then None else Some (length ys - 1))"
      "\<forall>a \<in> set ys. range_End a < Start" "\<forall>b \<in> set zs. End < range_Start b" by auto
    show thesis
      by (rule that [of ys zs True "if ys = [] then None else Some (length ys - 1)"])
        (use s nonempty Some False lt le in \<open>auto simp: RangeSetPut_def RangeSetIsEmpty_def RangeSetAddBefore_def Let_def\<close>)
  qed
qed

text \<open>
  Putting a disjoint run into the set adds exactly its numbers and keeps the set well formed
  (merging it with the ranges it touches), unless the entry it needs cannot be allocated; then the
  set keeps its numbers.
\<close>

lemma RangeSetPut_law:
  assumes wf: "rs_wf rs" and Count: "0 < Count"
    and bounds: "- (2 ^ 63) < Start" "Start + Count < 2 ^ 63"
    and dis: "{Start .. Start + Count - 1} \<inter> rs_items rs = {}"
    and room: "length (rs_List rs) < 2 ^ 32 - 1"
  shows "if mem \<or> rs_Spare rs \<noteq> None
         then \<exists>rs'. RangeSetPut mem rs Start Count = Some (STATUS_SUCCESS, rs') \<and> rs_wf rs' \<and>
                rs_items rs' = rs_items rs \<union> {Start .. Start + Count - 1}
         else \<exists>p. RangeSetPut mem rs Start Count = Some (STATUS_NO_MEMORY, rs\<lparr>rs_Cursor := p\<rparr>)"
proof -
  let ?End = "Start + Count - 1"
  have le: "Start \<le> ?End" using Count by simp
  have wrap: "s64 (Start + Count - 1) = ?End" using bounds Count by simp
  obtain ys zs p After where s: "rs_List rs = ys @ zs"
    "\<forall>a \<in> set ys. range_End a < Start" "\<forall>b \<in> set zs. ?End < range_Start b"
    and ins: "\<And>x. (if After then insert_after (ys @ zs) p x else insert_before (ys @ zs) p x)
           = (ys @ x # zs, length ys)"
    and put: "\<And>mem Count. Count \<noteq> 0 \<Longrightarrow> s64 (Start + Count - 1) = ?End \<Longrightarrow> RangeSetPut mem rs Start Count =
       Option.bind (RangeSetAdd mem (rs\<lparr>rs_Cursor := p\<rparr>) Start ?End After)
         (\<lambda>(st, rs'). if \<not> NT_SUCCESS st then Some (st, rs')
            else Some (STATUS_SUCCESS, rs'\<lparr>rs_ItemCount := u64 (rs_ItemCount rs' + Count)\<rparr>))"
    by (rule RangeSetPut_seek [OF wf le dis], rule that, assumption+)
  note put = put [OF _ wrap, of mem]
  have ok: "ranges_wf (ys @ zs)" and cnt: "counts_ok rs"
    and items: "rs_ItemCount rs = sum_list (map span (ys @ zs))"
    using wf s(1) by (simp_all add: rs_wf_def)
  show ?thesis
  proof (cases "mem \<or> rs_Spare rs \<noteq> None")
    case False
    then show ?thesis using put Count RangeSetAdd_no_memory by simp (rule exI [of _ p], rule refl)
  next
    case mem: True
    let ?rs = "rs\<lparr>rs_Cursor := p\<rparr>"
    have pre: "rs_List ?rs = ys @ zs" "counts_ok ?rs" "length ys + length zs < 2 ^ 32 - 1"
      "mem \<or> rs_Spare ?rs \<noteq> None"
      using s(1) cnt room mem by simp_all
    have ins': "(if After then insert_after (ys @ zs) (rs_Cursor ?rs) x
            else insert_before (ys @ zs) (rs_Cursor ?rs) x) = (ys @ x # zs, length ys)" for x
      using ins [of x] by (cases After) simp_all
    have "?End < 2 ^ 63 - 1" using bounds by simp
    from RangeSetAdd_at [OF pre(1) ok pre(2-4) ins' bounds(1) le this s(2,3)] obtain rs' ys' k zs' where
      add: "RangeSetAdd mem ?rs Start ?End After = Some (STATUS_SUCCESS, rs')"
        "rs_at rs' ys' k zs'" "ranges_wf (ys' @ k # zs')"
        "items_of (ys' @ k # zs') = items_of (ys @ zs) \<union> {Start .. ?End}"
        "sum_list (map span (ys' @ k # zs')) = sum_list (map span (ys @ zs)) + (?End + 1 - Start)"
        "rs_ItemCount rs' = rs_ItemCount ?rs" .
    have sum: "rs_ItemCount rs' + Count = sum_list (map span (rs_List rs'))"
      using add(2,5,6) items by (simp add: rs_at_def)
    have wf': "ranges_wf (rs_List rs')" using add(2,3) by (simp add: rs_at_def)
    have u: "u64 (rs_ItemCount rs' + Count) = rs_ItemCount rs' + Count"
      unfolding sum using span_sum_nonneg [OF wf'] span_sum_u64 [OF wf'] by simp
    have "rs_wf (rs'\<lparr>rs_ItemCount := rs_ItemCount rs' + Count\<rparr>)"
      using wf' add(2) sum by (simp add: rs_wf_def rs_at_def cursor_ok_def)
    moreover have "rs_items (rs'\<lparr>rs_ItemCount := rs_ItemCount rs' + Count\<rparr>) = rs_items rs \<union> {Start .. ?End}"
      using add(2,4) s(1) by (simp add: rs_items_def rs_at_def)
    moreover have "RangeSetPut mem rs Start Count =
        Some (STATUS_SUCCESS, rs'\<lparr>rs_ItemCount := rs_ItemCount rs' + Count\<rparr>)"
      using put Count add(1) u by simp
    ultimately show ?thesis using mem by simp
  qed
qed

section \<open>Get\<close>

lemma ranges_wf_apart: "ranges_wf xs \<Longrightarrow> i < j \<Longrightarrow> j < length xs \<Longrightarrow> apart (xs ! i) (xs ! j)"
  by (simp add: ranges_wf_def sorted_wrt_nth_less)

text \<open>The cursor walk ends on the range that holds \<open>Start\<close>, from wherever it begins.\<close>

lemma get_backward_spec:
  assumes wf: "ranges_wf xs" and hit: "range_Start (xs ! i) \<le> Start" "Start \<le> range_End (xs ! i)"
  shows "i < c \<Longrightarrow> c < length xs \<Longrightarrow> get_backward xs Start c = Some i"
proof (induction c)
  case (Suc c)
  show ?case
  proof (cases "c = i")
    case True
    with hit show ?thesis by simp
  next
    case False
    with Suc.prems have "i < c" by simp
    with ranges_wf_apart [OF wf this] Suc.prems hit have "Start < range_Start (xs ! c)"
      by (simp add: apart_def)
    with Suc \<open>i < c\<close> show ?thesis by simp
  qed
qed simp

lemma get_forward_spec:
  assumes wf: "ranges_wf xs" and hit: "range_Start (xs ! i) \<le> Start" "Start \<le> range_End (xs ! i)"
    and i: "i < length xs"
  shows "c < i \<Longrightarrow> get_forward xs Start c = Some i"
proof (induction "i - c" arbitrary: c)
  case (Suc n)
  show ?case
  proof (cases "Suc c = i")
    case True
    with hit i show ?thesis by (simp add: get_forward.simps [of xs _ c])
  next
    case False
    with Suc.prems have "Suc c < i" by simp
    with ranges_wf_apart [OF wf this i] hit have "range_End (xs ! Suc c) < Start"
      by (simp add: apart_def)
    moreover have "get_forward xs Start (Suc c) = Some i"
      using Suc.hyps(1) [of "Suc c"] Suc.hyps(2) \<open>Suc c < i\<close> by simp
    ultimately show ?thesis
      using \<open>Suc c < i\<close> i by (simp add: get_forward.simps [of xs _ c])
  qed
qed simp

lemma get_seek_spec:
  assumes wf: "ranges_wf xs" and hit: "range_Start (xs ! i) \<le> Start" "Start \<le> range_End (xs ! i)"
    and i: "i < length xs" and c: "c < length xs"
  shows "get_seek xs Start c = Some i"
proof (cases rule: linorder_cases [of c i])
  case less
  with ranges_wf_apart [OF wf less i] hit ranges_wf_ok [OF wf nth_mem, OF c]
  have "range_Start (xs ! c) \<le> Start" "range_End (xs ! c) < Start"
    by (simp_all add: apart_def range_ok_def)
  with less get_forward_spec [OF wf hit i less] show ?thesis by (simp add: get_seek_def)
next
  case equal
  with hit show ?thesis by (simp add: get_seek_def)
next
  case greater
  with ranges_wf_apart [OF wf greater c] hit have "Start < range_Start (xs ! c)"
    by (simp add: apart_def)
  with get_backward_spec [OF wf hit greater c] show ?thesis by (simp add: get_seek_def)
qed

text \<open>Splitting: the upper half is linked in after the entry, touching neither neighbour's end.\<close>

lemma RangeSetAdd_split:
  assumes at: "rs_at rs ys r zs" and r: "range_ok r" and zs: "\<forall>b \<in> set zs. apart r b"
    and E: "range_Start r \<le> E" "E < range_End r"
    and room: "length (rs_List rs) < 2 ^ 32 - 1" and mem: "mem \<or> rs_Spare rs \<noteq> None"
  shows "RangeSetAdd mem rs (E + 1) (range_End r) True = Some (STATUS_SUCCESS,
     rs\<lparr>rs_Spare := None, rs_List := ys @ r # \<lparr>range_Start = E + 1, range_End = range_End r\<rparr> # zs,
        rs_Cursor := Some (Suc (length ys)), rs_RangeCount := rs_RangeCount rs + 1\<rparr>)"
proof -
  note rs = rs_atD [OF at]
  let ?n = "\<lparr>range_Start = E + 1, range_End = range_End r\<rparr>"
  let ?rs = "rs\<lparr>rs_Spare := None, rs_List := ys @ r # ?n # zs,
        rs_Cursor := Some (Suc (length ys)), rs_RangeCount := rs_RangeCount rs + 1\<rparr>"
  have wrap: "s64 E = E" "s64 (range_End r + 1) = range_End r + 1"
    using r E by (simp_all add: range_ok_def)
  have spare: "(case rs_Spare rs of None \<Rightarrow> if mem then Some zero_RANGE else None | Some s \<Rightarrow> Some s)
      = Some zero_RANGE"
    using mem rs(3) by (auto simp: counts_ok_def split: option.splits)
  have cnt: "u32 (rs_RangeCount rs + 1) = rs_RangeCount rs + 1"
    using rs(3) room by (simp add: counts_ok_def)
  have bwd: "RangeSetMergeBackwards ?rs = Some ?rs"
    using wrap E by (simp add: RangeSetMergeBackwards_def nth_append Let_def)
  have fwd: "RangeSetMergeForwards ?rs = Some ?rs"
    using wrap zs by (cases zs) (auto simp: RangeSetMergeForwards_def nth_append Let_def apart_def)
  have "RangeSetAdd mem rs (E + 1) (range_End r) True =
      Option.bind (Option.bind (RangeSetMergeBackwards ?rs) RangeSetMergeForwards)
        (\<lambda>rs2. Some (STATUS_SUCCESS, rs2))"
    using spare rs cnt by (simp add: RangeSetAdd_def zero_RANGE_def Let_def)
  then show ?thesis using bwd fwd by simp
qed

lemma get_carve_at:
  assumes at: "rs_at rs ys r zs" and wf: "rs_wf rs"
    and inn: "range_Start r \<le> Start" "Start \<le> End" "End \<le> range_End r"
    and room: "length (rs_List rs) < 2 ^ 32 - 1"
    and mem: "mem \<or> rs_Spare rs \<noteq> None \<or> Start = range_Start r \<or> End = range_End r"
  obtains rs' where "get_carve mem rs (length ys) Start End = Some (STATUS_SUCCESS, rs')"
    and "ranges_wf (rs_List rs')" and "cursor_ok (rs_List rs') (rs_Cursor rs')" and "counts_ok rs'"
    and "rs_items rs' = rs_items rs - {Start .. End}"
    and "sum_list (map span (rs_List rs')) = sum_list (map span (rs_List rs)) - (End + 1 - Start)"
    and "rs_ItemCount rs' = rs_ItemCount rs"
proof -
  note rs = rs_atD [OF at]
  note w = rs_wf_at [OF wf rs(1)]
  have wrap: "s64 (End + 1) = End + 1" "s64 (Start - 1) = Start - 1"
    using w(1) inn by (simp_all add: range_ok_def)
  have gone: "x \<notin> items_of ys \<and> x \<notin> items_of zs" if "Start \<le> x" "x \<le> End" for x
    using items_of_disjoint [of ys r zs x] wf rs(1) that inn by (auto simp: rs_wf_def)
  consider (all) "Start = range_Start r" "End = range_End r"
    | (low) "Start = range_Start r" "End < range_End r"
    | (high) "range_Start r < Start" "End = range_End r"
    | (mid) "range_Start r < Start" "End < range_End r" using inn by linarith
  then show thesis
  proof cases
    case all
    let ?r = "r\<lparr>range_Start := End + 1\<rparr>"
    let ?rs = "rs\<lparr>rs_List := ys @ ?r # zs\<rparr>"
    have "counts_ok ?rs" using rs by simp
    from RangeSetRemove_at [of ?rs ys ?r zs True, OF _ _ _ this] obtain p where
      p: "cursor_ok (ys @ zs) p" and rem: "RangeSetRemove ?rs True =
        Some (?rs\<lparr>rs_List := ys @ zs, rs_Cursor := p,
                rs_RangeCount := int (length ys + length zs), rs_Spare := Some zero_RANGE\<rparr>)"
      using rs all by auto
    have "get_carve mem rs (length ys) Start End = Some (STATUS_SUCCESS,
        ?rs\<lparr>rs_List := ys @ zs, rs_Cursor := p,
                rs_RangeCount := int (length ys + length zs), rs_Spare := Some zero_RANGE\<rparr>)"
      using rem all inn wrap rs by (simp add: get_carve_def Let_def)
    then show thesis
      by (rule that) (use w p rs gone all in \<open>auto simp: counts_ok_def rs_items_def span_def\<close>)
  next
    case low
    let ?r = "r\<lparr>range_Start := End + 1\<rparr>"
    have "get_carve mem rs (length ys) Start End = Some (STATUS_SUCCESS, rs\<lparr>rs_List := ys @ ?r # zs\<rparr>)"
      using low inn wrap rs by (simp add: get_carve_def Let_def)
    then show thesis
      by (rule that) (use w rs gone low inn in \<open>auto simp: counts_ok_def rs_items_def span_def cursor_ok_def range_ok_def apart_def\<close>)
  next
    case high
    let ?r = "r\<lparr>range_End := Start - 1\<rparr>"
    have "get_carve mem rs (length ys) Start End = Some (STATUS_SUCCESS, rs\<lparr>rs_List := ys @ ?r # zs\<rparr>)"
      using high inn wrap rs by (simp add: get_carve_def Let_def)
    then show thesis
      by (rule that) (use w rs gone high inn in \<open>auto simp: counts_ok_def rs_items_def span_def cursor_ok_def range_ok_def apart_def\<close>)
  next
    case mid
    let ?r = "r\<lparr>range_End := Start - 1\<rparr>"
    let ?n = "\<lparr>range_Start = End + 1, range_End = range_End r\<rparr>"
    let ?rs' = "rs\<lparr>rs_Spare := None, rs_List := ys @ ?r # ?n # zs,
        rs_Cursor := Some (Suc (length ys)), rs_RangeCount := rs_RangeCount rs + 1\<rparr>"
    have "mem \<or> rs_Spare rs \<noteq> None" using mem mid by auto
    then have "get_carve mem rs (length ys) Start End = Some (STATUS_SUCCESS, ?rs')"
      using mid inn wrap rs RangeSetAdd_split [OF at w(1,3) _ mid(2) room]
      by (simp add: get_carve_def Let_def nth_append)
    then show thesis
      by (rule that) (use w rs gone mid inn room in \<open>auto simp: counts_ok_def rs_items_def span_def cursor_ok_def range_ok_def apart_def\<close>)
  qed
qed

text \<open>
  Taking a given run, all of it in the set, out of the set takes out exactly its numbers, from
  any cursor position and however the run sits in its range. The one failure is a split (the run
  is strictly inside a range) that finds neither the spare entry nor memory; the set then keeps
  its numbers and stays well formed.
\<close>

lemma RangeSetGet_law:
  assumes wf: "rs_wf rs" and Count: "0 < Count" and run: "{Start .. Start + Count - 1} \<subseteq> rs_items rs"
    and room: "length (rs_List rs) < 2 ^ 32 - 1"
  shows "\<exists>st rs'. RangeSetGet mem rs Start Count = Some (st, rs') \<and> rs_wf rs' \<and>
           (if st = STATUS_SUCCESS then rs_items rs' = rs_items rs - {Start .. Start + Count - 1}
            else st = STATUS_NO_MEMORY \<and> \<not> mem \<and> rs_Spare rs = None \<and> rs_List rs' = rs_List rs)"
proof -
  let ?End = "Start + Count - 1"
  have ok: "ranges_wf (rs_List rs)" using wf by (simp add: rs_wf_def)
  have "{Start .. ?End} \<subseteq> items_of (rs_List rs)" "Start \<le> ?End"
    using run Count by (simp_all add: rs_items_def)
  from items_of_run [OF ok this] obtain r where r: "r \<in> set (rs_List rs)"
    and hit: "range_Start r \<le> Start" "?End \<le> range_End r" by blast
  from split_list [OF r] obtain ys zs where xs: "rs_List rs = ys @ r # zs" by blast
  obtain c where c: "rs_Cursor rs = Some c" "c < length (rs_List rs)"
    using wf xs by (auto simp: rs_wf_def cursor_ok_def split: option.splits)
  let ?rs = "rs\<lparr>rs_Cursor := Some (length ys)\<rparr>"
  have at: "rs_at ?rs ys r zs" and wf': "rs_wf ?rs"
    using wf xs by (simp_all add: rs_at_def rs_wf_def cursor_ok_def)
  have seek: "get_seek (rs_List rs) Start c = Some (length ys)"
    using hit Count c(2) xs by (intro get_seek_spec [OF ok]) simp_all
  have wrap: "s64 ?End = ?End"
    using hit Count rs_wf_at(1) [OF wf xs] by (simp add: range_ok_def)
  have get: "RangeSetGet mem rs Start Count = Option.bind (get_carve mem ?rs (length ys) Start ?End)
      (\<lambda>(st, rs'). if \<not> NT_SUCCESS st then Some (st, rs')
        else Option.bind (ASSERT (Count \<le> rs_ItemCount rs'))
          (\<lambda>_. Some (STATUS_SUCCESS, rs'\<lparr>rs_ItemCount := u64 (rs_ItemCount rs' - Count)\<rparr>)))"
    using c(1) seek wrap Count by (simp add: RangeSetGet_def Let_def)
  show ?thesis
  proof (cases "mem \<or> rs_Spare ?rs \<noteq> None \<or> Start = range_Start r \<or> ?End = range_End r")
    case True
    obtain rs' where carve: "get_carve mem ?rs (length ys) Start ?End = Some (STATUS_SUCCESS, rs')"
      "ranges_wf (rs_List rs')" "cursor_ok (rs_List rs') (rs_Cursor rs')" "counts_ok rs'"
      "rs_items rs' = rs_items ?rs - {Start .. ?End}"
      "sum_list (map span (rs_List rs')) = sum_list (map span (rs_List ?rs)) - (?End + 1 - Start)"
      "rs_ItemCount rs' = rs_ItemCount ?rs"
      by (rule get_carve_at [OF at wf' hit(1) \<open>Start \<le> ?End\<close> hit(2) _ True]) (use room in simp_all)
    have sum: "rs_ItemCount rs' - Count = sum_list (map span (rs_List rs'))"
      using carve(6,7) wf by (simp add: rs_wf_def)
    have u: "u64 (rs_ItemCount rs' - Count) = rs_ItemCount rs' - Count" "Count \<le> rs_ItemCount rs'"
      unfolding sum using span_sum_nonneg [OF carve(2)] span_sum_u64 [OF carve(2)] sum by simp_all
    let ?rs' = "rs'\<lparr>rs_ItemCount := rs_ItemCount rs' - Count\<rparr>"
    have "RangeSetGet mem rs Start Count = Some (STATUS_SUCCESS, ?rs')"
      using get carve(1) u by simp
    moreover have "rs_wf ?rs'" using carve sum by (simp add: rs_wf_def)
    moreover have "rs_items ?rs' = rs_items rs - {Start .. ?End}"
      using carve(5) by (simp add: rs_items_def)
    ultimately show ?thesis by simp
  next
    case False
    then have no: "\<not> mem" "rs_Spare ?rs = None" "range_Start r < Start" "?End < range_End r"
      using hit by auto
    then have "get_carve mem ?rs (length ys) Start ?End = Some (STATUS_NO_MEMORY, ?rs)"
      using xs Count by (simp add: get_carve_def Let_def RangeSetAdd_no_memory)
    with get wf' no show ?thesis by simp
  qed
qed

section \<open>Creating, destroying and sharing range sets\<close>

text \<open>
  \<^verbatim>\<open>RangeSetCreate\<close>: \<open>mem\<close> for the allocation, \<open>fmt\<close> for the status of \<^verbatim>\<open>RtlStringCbPrintfA\<close> on the
  name. The new set is zeroed but for its name; it is linked into the context's list.
\<close>

record XENBUS_RANGE_SET_CONTEXT =
  rsc_References :: int
  rsc_Debug :: bool
  rsc_DebugCallback :: bool
  rsc_List :: "string list"

definition RangeSetCreate ::
  "bool \<Rightarrow> NTSTATUS \<Rightarrow> XENBUS_RANGE_SET_CONTEXT \<Rightarrow> string \<Rightarrow>
     NTSTATUS \<times> XENBUS_RANGE_SET option \<times> XENBUS_RANGE_SET_CONTEXT" where
  "RangeSetCreate mem fmt ctx Name =
     (if \<not> mem then (STATUS_NO_MEMORY, None, ctx)
      else if \<not> NT_SUCCESS fmt then (fmt, None, ctx)
      else (STATUS_SUCCESS,
            Some \<lparr>rs_Name = Name, rs_List = [], rs_Cursor = None, rs_RangeCount = 0,
                  rs_ItemCount = 0, rs_Spare = None\<rparr>,
            ctx\<lparr>rsc_List := rsc_List ctx @ [Name]\<rparr>))"

text \<open>
  \<^verbatim>\<open>RangeSetDestroy\<close>: the set must be empty and, once its fields are cleared, all zero, which is an
  assertion on the two counters.
\<close>

definition RangeSetDestroy ::
  "XENBUS_RANGE_SET_CONTEXT \<Rightarrow> XENBUS_RANGE_SET \<Rightarrow> XENBUS_RANGE_SET_CONTEXT kernel" where
  "RangeSetDestroy ctx rs =
     do {
       let ctx' = ctx\<lparr>rsc_List := remove1 (rs_Name rs) (rsc_List ctx)\<rparr>;
       let rs1 = rs\<lparr>rs_Spare := None\<rparr>;
       ASSERT (RangeSetIsEmpty rs1);
       let rs2 = rs1\<lparr>rs_Cursor := None, rs_Name := ''''\<rparr>;
       ASSERT (rs2 = \<lparr>rs_Name = '''', rs_List = [], rs_Cursor = None, rs_RangeCount = 0,
                      rs_ItemCount = 0, rs_Spare = None\<rparr>);
       Some ctx'
     }"

text \<open>
  \<^verbatim>\<open>RangeSetAcquire\<close> and \<^verbatim>\<open>RangeSetRelease\<close>: the first user acquires the debug interface and
  registers a callback with it (\<open>acq\<close> and \<open>reg\<close> are the statuses these calls return), the last one
  gives both back.
\<close>

definition RangeSetAcquire ::
  "NTSTATUS \<Rightarrow> NTSTATUS \<Rightarrow> XENBUS_RANGE_SET_CONTEXT \<Rightarrow> (NTSTATUS \<times> XENBUS_RANGE_SET_CONTEXT) kernel" where
  "RangeSetAcquire acq reg ctx =
     (let ctx1 = ctx\<lparr>rsc_References := rsc_References ctx + 1\<rparr> in
      if rsc_References ctx \<noteq> 0 then Some (STATUS_SUCCESS, ctx1)
      else if \<not> NT_SUCCESS acq then
        do {
          let ctx2 = ctx1\<lparr>rsc_References := rsc_References ctx1 - 1\<rparr>;
          ASSERT (rsc_References ctx2 = 0);
          Some (acq, ctx2)
        }
      else let ctx2 = ctx1\<lparr>rsc_Debug := True\<rparr> in
      if \<not> NT_SUCCESS reg then
        do {
          let ctx3 = ctx2\<lparr>rsc_Debug := False, rsc_References := rsc_References ctx2 - 1\<rparr>;
          ASSERT (rsc_References ctx3 = 0);
          Some (reg, ctx3)
        }
      else Some (STATUS_SUCCESS, ctx2\<lparr>rsc_DebugCallback := True\<rparr>))"

definition RangeSetRelease :: "XENBUS_RANGE_SET_CONTEXT \<Rightarrow> XENBUS_RANGE_SET_CONTEXT kernel" where
  "RangeSetRelease ctx =
     (let ctx1 = ctx\<lparr>rsc_References := rsc_References ctx - 1\<rparr> in
      if 0 < rsc_References ctx1 then Some ctx1
      else if rsc_List ctx1 \<noteq> [] then BUG
      else Some (ctx1\<lparr>rsc_DebugCallback := False, rsc_Debug := False\<rparr>))"

text \<open>The context holds the debug interface and its callback exactly while it has users.\<close>

definition rsc_wf :: "XENBUS_RANGE_SET_CONTEXT \<Rightarrow> bool" where
  "rsc_wf ctx \<longleftrightarrow> 0 \<le> rsc_References ctx \<and> rsc_Debug ctx = (0 < rsc_References ctx) \<and>
     rsc_DebugCallback ctx = (0 < rsc_References ctx) \<and> (rsc_References ctx = 0 \<longrightarrow> rsc_List ctx = [])"

text \<open>No operation changes the name of the set.\<close>

lemma RangeSetRemove_name: "RangeSetRemove rs b = Some rs' \<Longrightarrow> rs_Name rs' = rs_Name rs"
  by (auto simp: RangeSetRemove_def Let_def bind_eq_Some_conv split: if_splits option.splits)

lemma merge_name:
  "RangeSetMergeBackwards rs = Some rs' \<Longrightarrow> rs_Name rs' = rs_Name rs"
  "RangeSetMergeForwards rs = Some rs' \<Longrightarrow> rs_Name rs' = rs_Name rs"
  by (auto simp: RangeSetMergeBackwards_def RangeSetMergeForwards_def Let_def bind_eq_Some_conv
      split: if_splits option.splits dest!: RangeSetRemove_name)

lemma RangeSetAdd_name: "RangeSetAdd mem rs Start End b = Some (st, rs') \<Longrightarrow> rs_Name rs' = rs_Name rs"
  by (auto simp: RangeSetAdd_def Let_def bind_eq_Some_conv split: if_splits option.splits prod.splits
      dest!: merge_name)

lemma RangeSetPop_name: "RangeSetPop rs Count = Some (st, r, rs') \<Longrightarrow> rs_Name rs' = rs_Name rs"
  by (auto simp: RangeSetPop_def Let_def bind_eq_Some_conv split: if_splits option.splits dest!: RangeSetRemove_name)

lemma get_carve_name: "get_carve mem rs c Start End = Some (st, rs') \<Longrightarrow> rs_Name rs' = rs_Name rs"
  unfolding get_carve_def Let_def ASSERT_bind
  by (auto simp: bind_eq_Some_conv split: if_splits dest: RangeSetRemove_name RangeSetAdd_name)

lemma RangeSetGet_name: "RangeSetGet mem rs Start Count = Some (st, rs') \<Longrightarrow> rs_Name rs' = rs_Name rs"
  unfolding RangeSetGet_def Let_def ASSERT_bind
  by (auto simp: bind_eq_Some_conv split: if_splits dest: get_carve_name)

lemma RangeSetAdds_name:
  "RangeSetAddAfter mem rs Start End = Some (st, rs') \<Longrightarrow> rs_Name rs' = rs_Name rs"
  "RangeSetAddBefore mem rs Start End = Some (st, rs') \<Longrightarrow> rs_Name rs' = rs_Name rs"
  unfolding RangeSetAddAfter_def RangeSetAddBefore_def Let_def ASSERT_bind
  by (auto simp: bind_eq_Some_conv split: if_splits dest!: RangeSetAdd_name)

lemma RangeSetPut_name: "RangeSetPut mem rs Start Count = Some (st, rs') \<Longrightarrow> rs_Name rs' = rs_Name rs"
  unfolding RangeSetPut_def Let_def ASSERT_bind
  by (auto simp: bind_eq_Some_conv split: if_splits dest: RangeSetAdd_name RangeSetAdds_name)

lemmas rs_names = RangeSetPop_name RangeSetGet_name RangeSetPut_name

lemma RangeSetCreate_wf:
  "RangeSetCreate mem fmt ctx Name = (STATUS_SUCCESS, Some rs, ctx') \<Longrightarrow> rs_wf rs \<and> rs_items rs = {}"
  by (auto simp: RangeSetCreate_def rs_wf_def cursor_ok_def counts_ok_def rs_items_def split: if_splits)

lemma RangeSetDestroy_wf:
  assumes "rs_wf rs" and "rs_items rs = {}"
  shows "RangeSetDestroy ctx rs = Some (ctx\<lparr>rsc_List := remove1 (rs_Name rs) (rsc_List ctx)\<rparr>)"
proof -
  have "rs_List rs = []"
    using assms by (cases "rs_List rs") (auto simp: rs_wf_def rs_items_def range_ok_def)
  with assms(1) show ?thesis
    by (simp add: RangeSetDestroy_def RangeSetIsEmpty_def Let_def rs_wf_def counts_ok_def)
qed

lemma RangeSetAcquire_wf:
  "rsc_wf ctx \<Longrightarrow> \<exists>st ctx'. RangeSetAcquire acq reg ctx = Some (st, ctx') \<and> rsc_wf ctx' \<and>
     rsc_References ctx' = rsc_References ctx + (if NT_SUCCESS st then 1 else 0)"
  by (auto simp: RangeSetAcquire_def rsc_wf_def Let_def)

lemma RangeSetRelease_wf:
  "rsc_wf ctx \<Longrightarrow> 0 < rsc_References ctx \<Longrightarrow> rsc_References ctx = 1 \<longrightarrow> rsc_List ctx = [] \<Longrightarrow>
     \<exists>ctx'. RangeSetRelease ctx = Some ctx' \<and> rsc_wf ctx' \<and> rsc_References ctx' = rsc_References ctx - 1"
  by (auto simp: RangeSetRelease_def rsc_wf_def Let_def)

section \<open>The interface\<close>

text \<open>
  The allocator contract, over any state with an invariant and a set of free numbers. The client
  lemmas of the locale keep accounts: a universe of numbers, each either free in the allocator
  or in use by the client.
\<close>

locale range_allocator =
  fixes inv :: "'s \<Rightarrow> bool" and items :: "'s \<Rightarrow> int set"
    and pop :: "'s \<Rightarrow> int \<Rightarrow> (NTSTATUS \<times> int option \<times> 's) kernel"
    and put :: "bool \<Rightarrow> 's \<Rightarrow> int \<Rightarrow> int \<Rightarrow> (NTSTATUS \<times> 's) kernel"
    and get :: "bool \<Rightarrow> 's \<Rightarrow> int \<Rightarrow> int \<Rightarrow> (NTSTATUS \<times> 's) kernel"
  assumes items_finite: "inv s \<Longrightarrow> finite (items s)"
    and pop_law: "inv s \<Longrightarrow> 0 < n \<Longrightarrow>
      (\<exists>x s'. pop s n = Some (STATUS_SUCCESS, Some x, s') \<and> inv s' \<and> {x .. x + n - 1} \<subseteq> items s \<and>
              items s' = items s - {x .. x + n - 1} \<and>
              (\<forall>y. {y .. y + n - 1} \<subseteq> items s \<longrightarrow> x \<le> y)) \<or>
      (pop s n = Some (STATUS_INSUFFICIENT_RESOURCES, None, s) \<and> (\<forall>x. \<not> {x .. x + n - 1} \<subseteq> items s))"
    and put_law: "inv s \<Longrightarrow> 0 < n \<Longrightarrow> - (2 ^ 63) < x \<Longrightarrow> x + n < 2 ^ 63 \<Longrightarrow>
      {x .. x + n - 1} \<inter> items s = {} \<Longrightarrow> card (items s) < 2 ^ 32 - 1 \<Longrightarrow>
      \<exists>s'. put True s x n = Some (STATUS_SUCCESS, s') \<and> inv s' \<and> items s' = items s \<union> {x .. x + n - 1}"
    and get_law: "inv s \<Longrightarrow> 0 < n \<Longrightarrow> {x .. x + n - 1} \<subseteq> items s \<Longrightarrow> card (items s) < 2 ^ 32 - 1 \<Longrightarrow>
      \<exists>s'. get True s x n = Some (STATUS_SUCCESS, s') \<and> inv s' \<and> items s' = items s - {x .. x + n - 1}"
begin

definition accounts :: "'s \<Rightarrow> int set \<Rightarrow> int set \<Rightarrow> bool" where
  "accounts s used U \<longleftrightarrow> inv s \<and> items s \<union> used = U \<and> items s \<inter> used = {}"

lemma pop_one:
  assumes "accounts s used U"
  shows "(\<exists>x s'. pop s 1 = Some (STATUS_SUCCESS, Some x, s') \<and> x \<in> U - used \<and>
             accounts s' (insert x used) U) \<or>
         (pop s 1 = Some (STATUS_INSUFFICIENT_RESOURCES, None, s) \<and> used = U)"
proof -
  have inv: "inv s" and split: "items s \<union> used = U" "items s \<inter> used = {}"
    using assms by (simp_all add: accounts_def)
  from pop_law [OF inv zero_less_one] show ?thesis
  proof (elim disjE exE conjE)
    fix x s' assume p: "pop s 1 = Some (STATUS_SUCCESS, Some x, s')" "inv s'"
      "{x .. x + 1 - 1} \<subseteq> items s" "items s' = items s - {x .. x + 1 - 1}"
    then have "x \<in> U - used" "accounts s' (insert x used) U"
      using split by (auto simp: accounts_def)
    with p show ?thesis by blast
  next
    assume "pop s 1 = Some (STATUS_INSUFFICIENT_RESOURCES, None, s)"
      and none: "\<forall>x. \<not> {x .. x + 1 - 1} \<subseteq> items s"
    moreover from none have "items s = {}" by auto
    ultimately show ?thesis using split by simp
  qed
qed

lemma put_one:
  assumes "accounts s used U" and "x \<in> used" and "- (2 ^ 63) < x" and "x + 1 < 2 ^ 63"
    and "card (items s) < 2 ^ 32 - 1"
  shows "\<exists>s'. put True s x 1 = Some (STATUS_SUCCESS, s') \<and> accounts s' (used - {x}) U"
proof -
  have "x \<notin> items s" "inv s" using assms by (auto simp: accounts_def)
  with put_law [of s 1 x] assms obtain s' where
    "put True s x 1 = Some (STATUS_SUCCESS, s')" "inv s'" "items s' = insert x (items s)" by auto
  moreover from this assms have "accounts s' (used - {x}) U" by (auto simp: accounts_def)
  ultimately show ?thesis by blast
qed

lemma put_new:
  assumes "accounts s used U" and "0 < n" and "- (2 ^ 63) < x" and "x + n < 2 ^ 63"
    and "{x .. x + n - 1} \<inter> U = {}" and "card (items s) < 2 ^ 32 - 1"
  shows "\<exists>s'. put True s x n = Some (STATUS_SUCCESS, s') \<and> accounts s' used (U \<union> {x .. x + n - 1})"
proof -
  have "{x .. x + n - 1} \<inter> items s = {}" using assms(1,5) by (auto simp: accounts_def)
  with assms put_law [of s n x] show ?thesis by (fastforce simp: accounts_def)
qed

lemma get_free:
  assumes "accounts s used U" and "0 < n" and "{x .. x + n - 1} \<subseteq> U - used"
    and "card (items s) < 2 ^ 32 - 1"
  shows "\<exists>s'. get True s x n = Some (STATUS_SUCCESS, s') \<and> accounts s' used (U - {x .. x + n - 1})"
proof -
  have "{x .. x + n - 1} \<subseteq> items s" using assms(1,3) by (auto simp: accounts_def)
  with assms get_law [of s n x] show ?thesis by (fastforce simp: accounts_def)
qed

lemma pop_put:
  assumes "inv s" and "0 < n" and "pop s n = Some (STATUS_SUCCESS, Some x, s')"
    and "- (2 ^ 63) < x" and "x + n < 2 ^ 63" and "card (items s) < 2 ^ 32 - 1"
  shows "\<exists>s''. put True s' x n = Some (STATUS_SUCCESS, s'') \<and> inv s'' \<and> items s'' = items s"
proof -
  have s': "inv s'" "{x .. x + n - 1} \<subseteq> items s" "items s' = items s - {x .. x + n - 1}"
    using pop_law [OF assms(1,2)] assms(3) by auto
  moreover have "card (items s') \<le> card (items s)"
    using s' items_finite [OF assms(1)] by (intro card_mono) auto
  ultimately show ?thesis using put_law [of s' n x] assms by (auto simp: Un_absorb2)
qed

end

text \<open>A set has no more ranges than numbers, so a bound on the numbers leaves room for a range.\<close>

lemma length_le_card: "ranges_wf xs \<Longrightarrow> length xs \<le> card (items_of xs)"
proof -
  assume wf: "ranges_wf xs"
  then have "int (length xs) \<le> sum_list (map span xs)"
    by (induction xs) (auto simp: span_def range_ok_def)
  with card_items_of [OF wf] show ?thesis by simp
qed

lemma rs_room: "rs_wf rs \<Longrightarrow> card (rs_items rs) < 2 ^ 32 - 1 \<Longrightarrow> length (rs_List rs) < 2 ^ 32 - 1"
  using length_le_card [of "rs_List rs"] by (simp add: rs_wf_def rs_items_def)

interpretation rs: range_allocator rs_wf rs_items RangeSetPop RangeSetPut RangeSetGet
proof
  fix s :: XENBUS_RANGE_SET and n x :: int
  assume wf: "rs_wf s"
  show "finite (rs_items s)" by (simp add: rs_items_def items_of_def)
  assume n: "0 < n"
  show "(\<exists>x s'. RangeSetPop s n = Some (STATUS_SUCCESS, Some x, s') \<and> rs_wf s' \<and>
              {x .. x + n - 1} \<subseteq> rs_items s \<and> rs_items s' = rs_items s - {x .. x + n - 1} \<and>
              (\<forall>y. {y .. y + n - 1} \<subseteq> rs_items s \<longrightarrow> x \<le> y)) \<or>
      (RangeSetPop s n = Some (STATUS_INSUFFICIENT_RESOURCES, None, s) \<and>
         (\<forall>x. \<not> {x .. x + n - 1} \<subseteq> rs_items s))"
    by (rule RangeSetPop_law [OF wf n])
  assume room: "card (rs_items s) < 2 ^ 32 - 1"
  note room = rs_room [OF wf room]
  show "- (2 ^ 63) < x \<Longrightarrow> x + n < 2 ^ 63 \<Longrightarrow> {x .. x + n - 1} \<inter> rs_items s = {} \<Longrightarrow>
      \<exists>s'. RangeSetPut True s x n = Some (STATUS_SUCCESS, s') \<and> rs_wf s' \<and>
           rs_items s' = rs_items s \<union> {x .. x + n - 1}"
    using RangeSetPut_law [OF wf n _ _ _ room, of x True] by simp
  show "{x .. x + n - 1} \<subseteq> rs_items s \<Longrightarrow>
      \<exists>s'. RangeSetGet True s x n = Some (STATUS_SUCCESS, s') \<and> rs_wf s' \<and>
           rs_items s' = rs_items s - {x .. x + n - 1}"
    using RangeSetGet_law [OF wf n _ room, of x True] by (auto split: if_splits)
qed

section \<open>Properties\<close>

text \<open>
  C1. Pop takes the lowest run of \<open>Count\<close> free numbers out of the set, or reports insufficient
  resources exactly when there is no such run, without touching the state; it never fails an
  assertion.
\<close>

theorem RangeSetPop_correct:
  assumes "rs_wf rs" and "0 < Count"
  shows "(\<exists>Start rs'. RangeSetPop rs Count = Some (STATUS_SUCCESS, Some Start, rs') \<and> rs_wf rs' \<and>
            {Start .. Start + Count - 1} \<subseteq> rs_items rs \<and>
            rs_items rs' = rs_items rs - {Start .. Start + Count - 1} \<and>
            (\<forall>s. {s .. s + Count - 1} \<subseteq> rs_items rs \<longrightarrow> Start \<le> s)) \<or>
         (RangeSetPop rs Count = Some (STATUS_INSUFFICIENT_RESOURCES, None, rs) \<and>
            (\<forall>s. \<not> {s .. s + Count - 1} \<subseteq> rs_items rs))"
  using assms by (rule rs.pop_law)

text \<open>A set with two ranges, its cursor on the second, for the witnesses.\<close>

definition rs_sample :: XENBUS_RANGE_SET where
  "rs_sample = \<lparr>rs_Name = ''sample'',
     rs_List = [\<lparr>range_Start = 0, range_End = 3\<rparr>, \<lparr>range_Start = 10, range_End = 19\<rparr>],
     rs_Cursor = Some 1, rs_RangeCount = 2, rs_ItemCount = 14, rs_Spare = None\<rparr>"

lemma rs_sample_wf: "rs_wf rs_sample" "length (rs_List rs_sample) = 2" "rs_Spare rs_sample = None"
  "rs_items rs_sample = {0 .. 3} \<union> {10 .. 19}"
  by (simp_all add: rs_sample_def rs_wf_def cursor_ok_def counts_ok_def span_def range_ok_def
      apart_def rs_items_def)

theorem RangeSetPop_correct_witness:
  "\<exists>rs'. RangeSetPop rs_sample 5 = Some (STATUS_SUCCESS, Some 10, rs') \<and>
     rs_items rs' = rs_items rs_sample - {10 .. 14}"
proof -
  have "RangeSetPop rs_sample 5 = Some (STATUS_SUCCESS, Some 10, rs_sample\<lparr>
      rs_List := [\<lparr>range_Start = 0, range_End = 3\<rparr>, \<lparr>range_Start = 15, range_End = 19\<rparr>],
      rs_ItemCount := 9\<rparr>)"
    by (simp add: RangeSetPop_def RangeSetIsEmpty_def rs_sample_def Let_def)
  with RangeSetPop_correct [OF rs_sample_wf(1), of 5] show ?thesis by auto
qed

text \<open>
  C2. Putting a run of numbers that are not in the set adds exactly these numbers and keeps the set
  well formed, merging the run with the ranges it touches on either side, wherever the cursor is.
  Only when the entry for it can neither be allocated nor taken from the spare does Put fail; the
  set then keeps its numbers.
\<close>

theorem RangeSetPut_correct:
  assumes "rs_wf rs" and "0 < Count" and "- (2 ^ 63) < Start" and "Start + Count < 2 ^ 63"
    and "{Start .. Start + Count - 1} \<inter> rs_items rs = {}" and "length (rs_List rs) < 2 ^ 32 - 1"
  shows "if mem \<or> rs_Spare rs \<noteq> None
         then \<exists>rs'. RangeSetPut mem rs Start Count = Some (STATUS_SUCCESS, rs') \<and> rs_wf rs' \<and>
                rs_items rs' = rs_items rs \<union> {Start .. Start + Count - 1}
         else \<exists>p. RangeSetPut mem rs Start Count = Some (STATUS_NO_MEMORY, rs\<lparr>rs_Cursor := p\<rparr>)"
  using assms by (rule RangeSetPut_law)

theorem RangeSetPut_correct_witness:
  "\<exists>rs'. RangeSetPut True rs_sample 4 6 = Some (STATUS_SUCCESS, rs') \<and> rs_items rs' = {0 .. 19}"
proof -
  have "{4 .. 4 + 6 - 1} \<inter> rs_items rs_sample = {}" by (auto simp: rs_sample_wf)
  with RangeSetPut_correct [OF rs_sample_wf(1), of 6 4 True] rs_sample_wf(2)
  obtain rs' where "RangeSetPut True rs_sample 4 6 = Some (STATUS_SUCCESS, rs')"
    "rs_items rs' = rs_items rs_sample \<union> {4 .. 9}" by auto
  moreover have "rs_items rs_sample \<union> {4 .. 9} = {0 .. 19}" by (auto simp: rs_sample_wf)
  ultimately show ?thesis by simp
qed

text \<open>
  Getting a given run, all of it in the set, out of the set takes out exactly its numbers, from
  any cursor position and however the run sits in its range. The one failure is a split (the run
  is strictly inside a range) that finds neither the spare entry nor memory; the set then keeps
  its ranges and stays well formed.
\<close>

theorem RangeSetGet_correct:
  assumes "rs_wf rs" and "0 < Count" and "{Start .. Start + Count - 1} \<subseteq> rs_items rs"
    and "length (rs_List rs) < 2 ^ 32 - 1"
  shows "\<exists>st rs'. RangeSetGet mem rs Start Count = Some (st, rs') \<and> rs_wf rs' \<and>
           (if st = STATUS_SUCCESS then rs_items rs' = rs_items rs - {Start .. Start + Count - 1}
            else st = STATUS_NO_MEMORY \<and> \<not> mem \<and> rs_Spare rs = None \<and> rs_List rs' = rs_List rs)"
  using assms by (rule RangeSetGet_law)

theorem RangeSetGet_correct_witness:
  "\<exists>rs'. RangeSetGet True rs_sample 1 2 = Some (STATUS_SUCCESS, rs') \<and>
     rs_items rs' = rs_items rs_sample - {1 .. 2}"
proof -
  have "{1 .. 1 + 2 - 1} \<subseteq> rs_items rs_sample" by (auto simp: rs_sample_wf)
  with RangeSetGet_correct [OF rs_sample_wf(1), of 2 1 True] rs_sample_wf(2) show ?thesis
    by (auto split: if_splits)
qed

text \<open>
  A run that was popped can be put back, and the set is then the set it was, whatever merging
  and splitting this took.
\<close>

theorem RangeSetPop_Put_roundtrip:
  assumes "rs_wf rs" and "0 < n" and "RangeSetPop rs n = Some (STATUS_SUCCESS, Some x, rs')"
    and "- (2 ^ 63) < x" and "x + n < 2 ^ 63" and "card (rs_items rs) < 2 ^ 32 - 1"
  shows "\<exists>rs''. RangeSetPut True rs' x n = Some (STATUS_SUCCESS, rs'') \<and> rs_wf rs'' \<and>
           rs_items rs'' = rs_items rs"
  using assms by (rule rs.pop_put)

theorem RangeSetPop_Put_roundtrip_witness:
  "\<exists>rs' rs''. RangeSetPop rs_sample 4 = Some (STATUS_SUCCESS, Some 0, rs') \<and>
     RangeSetPut True rs' 0 4 = Some (STATUS_SUCCESS, rs'') \<and> rs_items rs'' = rs_items rs_sample"
proof -
  have "\<exists>rs'. RangeSetPop rs_sample 4 = Some (STATUS_SUCCESS, Some 0, rs')"
    by (simp add: RangeSetPop_def RangeSetRemove_def RangeSetIsEmpty_def rs_sample_def Let_def
        remove_nth_def zero_RANGE_def)
  then obtain rs' where pop: "RangeSetPop rs_sample 4 = Some (STATUS_SUCCESS, Some 0, rs')" by blast
  have "card (rs_items rs_sample) = 14"
    unfolding rs_sample_wf(4) by (subst card_Un_disjoint) auto
  then have "card (rs_items rs_sample) < 2 ^ 32 - 1" by simp
  from RangeSetPop_Put_roundtrip [OF rs_sample_wf(1) _ pop _ _ this] pop show ?thesis by auto
qed

text \<open>
  the invariant is what the assertions need, and a Put that runs out of memory can break it:
  it leaves the cursor on the anchor of a set that is not empty, and then the next Get, of a number
  that is in the set, fails its assertion, and the next Put reads the anchor as if it were an entry.
\<close>

theorem RangeSetPut_no_memory_loses_cursor:
  "let rs = \<lparr>rs_Name = ''gnttab'', rs_List = [\<lparr>range_Start = 0, range_End = 9\<rparr>], rs_Cursor = Some 0,
             rs_RangeCount = 1, rs_ItemCount = 10, rs_Spare = None\<rparr>
   in rs_wf rs \<and>
      (\<exists>rs'. RangeSetPut False rs 20 1 = Some (STATUS_NO_MEMORY, rs') \<and>
             5 \<in> rs_items rs' \<and> RangeSetGet True rs' 5 1 = None \<and> RangeSetPut True rs' 20 1 = None)"
  by (simp add: Let_def rs_wf_def cursor_ok_def counts_ok_def span_def range_ok_def rs_items_def
      RangeSetPut_def RangeSetIsEmpty_def RangeSetAddAfter_def RangeSetAdd_def RangeSetGet_def
      add_after_seek.simps s64_def)

end
