(* ===== verification/Hash_Table.thy ===== *)
theory Hash_Table
  imports Prelude
begin

unbundle bit_operations_syntax

text \<open>
  The hash table of src/src/xenbus/hash\_table.c: 256 buckets of key/value nodes, a hidden list of
  removed nodes that a DPC frees, and the reader/writer lock of a bucket. The table operations run
  under the bucket lock and are single steps here; the lock itself, which is a loop around
  \<^verbatim>\<open>InterlockedCompareExchange\<close>, is the transition system of the last section. ULONG\_PTR is the
  64-bit word of the amd64 build.
\<close>

section \<open>State\<close>

type_synonym ULONG_PTR = "64 word"

record XENBUS_HASH_TABLE_NODE =
  node_Key :: ULONG_PTR
  node_Value :: ULONG_PTR

definition XENBUS_HASH_TABLE_NR_BUCKETS :: nat where
  "XENBUS_HASH_TABLE_NR_BUCKETS = 256"

record XENBUS_HASH_TABLE =
  ht_Bucket :: "XENBUS_HASH_TABLE_NODE list list"
  ht_Hidden :: "XENBUS_HASH_TABLE_NODE list"
  ht_Dpc :: bool

section \<open>Hashing\<close>

text \<open>One round of the loop, on byte \<open>b\<close> of the key.\<close>

definition hash_step :: "32 word \<Rightarrow> 32 word \<Rightarrow> 32 word" where
  "hash_step Accumulator b =
     (let A = push_bit 4 Accumulator + b; Overflow = A AND 0x0000ff00 in
      if Overflow \<noteq> 0 then (A XOR drop_bit 8 Overflow) XOR Overflow else A)"

definition key_byte :: "ULONG_PTR \<Rightarrow> nat \<Rightarrow> 32 word" where
  "key_byte Key Index = ucast (take_bit 8 (drop_bit (8 * Index) Key))"

definition hash_accumulate :: "ULONG_PTR \<Rightarrow> 32 word" where
  "hash_accumulate Key = fold (\<lambda>Index A. hash_step A (key_byte Key Index)) [0 ..< 8] 0"

definition HashTableHash :: "ULONG_PTR \<Rightarrow> nat kernel" where
  "HashTableHash Key =
     do {
       let Accumulator = hash_accumulate Key;
       ASSERT (unat Accumulator < XENBUS_HASH_TABLE_NR_BUCKETS);
       Some (unat Accumulator)
     }"

section \<open>Operations\<close>

text \<open>\<open>mem\<close>: whether the node can be allocated.\<close>

definition HashTableAdd ::
  "bool \<Rightarrow> XENBUS_HASH_TABLE \<Rightarrow> ULONG_PTR \<Rightarrow> ULONG_PTR \<Rightarrow> (NTSTATUS \<times> XENBUS_HASH_TABLE) kernel" where
  "HashTableAdd mem T Key Value =
     (if \<not> mem then Some (STATUS_NO_MEMORY, T)
      else do {
        h \<leftarrow> HashTableHash Key;
        Some (STATUS_SUCCESS,
          T\<lparr>ht_Bucket := (ht_Bucket T)[h := ht_Bucket T ! h @ [\<lparr>node_Key = Key, node_Value = Value\<rparr>]]\<rparr>)
      })"

text \<open>The search loop of \<^verbatim>\<open>HashTableRemove\<close> and \<^verbatim>\<open>HashTableLookup\<close>: the first node with the key.\<close>

fun bucket_find :: "XENBUS_HASH_TABLE_NODE list \<Rightarrow> ULONG_PTR \<Rightarrow> nat \<Rightarrow> nat option" where
  "bucket_find [] Key i = None"
| "bucket_find (n # ns) Key i = (if node_Key n = Key then Some i else bucket_find ns Key (Suc i))"

definition HashTableRemove ::
  "XENBUS_HASH_TABLE \<Rightarrow> ULONG_PTR \<Rightarrow> (NTSTATUS \<times> XENBUS_HASH_TABLE) kernel" where
  "HashTableRemove T Key =
     do {
       h \<leftarrow> HashTableHash Key;
       (case bucket_find (ht_Bucket T ! h) Key 0 of
          None \<Rightarrow> Some (STATUS_OBJECT_NAME_NOT_FOUND, T)
        | Some i \<Rightarrow> Some (STATUS_SUCCESS,
            T\<lparr>ht_Bucket := (ht_Bucket T)[h := remove_nth i (ht_Bucket T ! h)],
              ht_Hidden := ht_Hidden T @ [ht_Bucket T ! h ! i],
              ht_Dpc := True\<rparr>))
     }"

definition HashTableLookup ::
  "XENBUS_HASH_TABLE \<Rightarrow> ULONG_PTR \<Rightarrow> (NTSTATUS \<times> ULONG_PTR option) kernel" where
  "HashTableLookup T Key =
     do {
       h \<leftarrow> HashTableHash Key;
       (case bucket_find (ht_Bucket T ! h) Key 0 of
          None \<Rightarrow> Some (STATUS_OBJECT_NAME_NOT_FOUND, None)
        | Some i \<Rightarrow> Some (STATUS_SUCCESS, Some (node_Value (ht_Bucket T ! h ! i))))
     }"

text \<open>\<^verbatim>\<open>HashTableDpc\<close> empties the hidden list, whose nodes it frees: they are its second result.\<close>

definition HashTableDpc ::
  "XENBUS_HASH_TABLE \<Rightarrow> XENBUS_HASH_TABLE \<times> XENBUS_HASH_TABLE_NODE list" where
  "HashTableDpc T = (T\<lparr>ht_Hidden := [], ht_Dpc := False\<rparr>, ht_Hidden T)"

definition HashTableCreate :: "bool \<Rightarrow> NTSTATUS \<times> XENBUS_HASH_TABLE option" where
  "HashTableCreate mem =
     (if \<not> mem then (STATUS_NO_MEMORY, None)
      else (STATUS_SUCCESS,
            Some \<lparr>ht_Bucket = replicate XENBUS_HASH_TABLE_NR_BUCKETS [], ht_Hidden = [], ht_Dpc = False\<rparr>))"

text \<open>\<^verbatim>\<open>HashTableDestroy\<close>: \<^verbatim>\<open>KeFlushQueuedDpcs\<close> runs a queued DPC, then every list must be empty.\<close>

definition HashTableDestroy :: "XENBUS_HASH_TABLE \<Rightarrow> unit kernel" where
  "HashTableDestroy T =
     do {
       let T1 = (if ht_Dpc T then fst (HashTableDpc T) else T);
       ASSERT (ht_Hidden T1 = []);
       ASSERT (\<forall>b \<in> set (ht_Bucket T1). b = []);
       Some ()
     }"

section \<open>The hash is always a bucket index\<close>

lemma key_byte_less: "unat (key_byte Key Index) < 256"
proof -
  have "unat (take_bit 8 (drop_bit (8 * Index) Key)) < 2 ^ 8"
    by (simp only: unsigned_take_bit_eq take_bit_nat_less_exp)
  then show ?thesis
    by (simp add: key_byte_def unsigned_ucast_eq take_bit_nat_eq_self)
qed

lemma high_bits_clear:
  fixes w :: "'a::len word"
  assumes "unat w < 2 ^ n" and "n \<le> i"
  shows "\<not> bit w i"
proof -
  have "unat w < 2 ^ i" using assms by (meson less_le_trans one_le_numeral power_increasing)
  then have "unat (drop_bit i w) = 0"
    using unat_drop_bit_eq [of i w] by (simp add: drop_bit_eq_div [of i "unat w"])
  then have "drop_bit i w = 0" by (simp only: unsigned_eq_0_iff)
  then show ?thesis by (simp add: bit_iff_odd_drop_bit)
qed

lemma unat_less_of_bits:
  fixes w :: "'a::len word"
  assumes "\<And>i. n \<le> i \<Longrightarrow> \<not> bit w i"
  shows "unat w < 2 ^ n"
proof -
  have "i < n" if "bit w i" for i using assms [of i] that by (meson not_less)
  then have "take_bit n w = w" by (intro bit_eqI) (auto simp: bit_take_bit_iff)
  then have "take_bit n (unat w) = unat w" by (metis unsigned_take_bit_eq)
  then show ?thesis by (metis take_bit_nat_less_exp)
qed

lemma folded_high_bits:
  fixes t :: "'a::len word"
  assumes "\<And>i. bit v i \<longleftrightarrow> bit t i \<and> 8 \<le> i \<and> i < 16" and "\<And>i. 16 \<le> i \<Longrightarrow> \<not> bit t i" and "8 \<le> i"
  shows "\<not> bit ((t XOR drop_bit 8 v) XOR v) i"
  using assms(1) [of i] assms(1) [of "8 + i"] assms(2) [of i] assms(3)
  by (auto simp: bit_xor_iff bit_drop_bit_eq not_less)

text \<open>Each round leaves a value below 256: bits 8 to 15 are folded into the low byte and cleared.\<close>

lemma hash_step_less:
  assumes "unat A < 256" and "unat b < 256"
  shows "unat (hash_step A b) < 256"
proof -
  let ?t = "push_bit 4 A + b"
  let ?o = "?t AND 0x0000ff00"
  have "unat (push_bit 4 A) = unat A * 16"
    using assms by (simp add: push_bit_eq_mult unat_word_ariths)
  then have t: "unat ?t < 2 ^ 16" using assms by (simp add: unat_word_ariths)
  have o: "bit ?o i \<longleftrightarrow> bit ?t i \<and> 8 \<le> i \<and> i < 16" for i
  proof -
    have eq: "(0x0000ff00 :: 32 word) = push_bit 8 (mask 8)" by (simp add: mask_eq_exp_minus_1 push_bit_eq_mult)
    have "i < 32" if "bit ?t i" using bit_imp_le_length [OF that] by simp
    then show ?thesis by (auto simp only: eq bit_and_iff bit_push_bit_iff bit_mask_iff possible_bit_word) auto
  qed
  show ?thesis
  proof (cases "?o = 0")
    case True
    have "\<not> bit ?t i" if "8 \<le> i" for i
    proof
      assume "bit ?t i"
      moreover have "i < 16" using high_bits_clear [OF t, of i] \<open>bit ?t i\<close> by (meson not_less)
      ultimately have "bit ?o i" using o that by blast
      with True show False by simp
    qed
    then have "unat ?t < 2 ^ 8" by (rule unat_less_of_bits)
    with True show ?thesis by (simp add: hash_step_def)
  next
    case False
    have "\<not> bit ((?t XOR drop_bit 8 ?o) XOR ?o) i" if "8 \<le> i" for i
      by (rule folded_high_bits [OF o high_bits_clear [OF t] that])
    then have "unat ((?t XOR drop_bit 8 ?o) XOR ?o) < 2 ^ 8" by (rule unat_less_of_bits)
    with False show ?thesis by (simp add: hash_step_def Let_def)
  qed
qed

lemma hash_accumulate_less: "unat (hash_accumulate Key) < 256"
proof -
  have "unat (fold (\<lambda>i A. hash_step A (key_byte Key i)) is A) < 256" if "unat A < 256" for "is" A
    using that by (induction "is" arbitrary: A) (simp_all add: hash_step_less key_byte_less)
  from this [of 0] show ?thesis by (simp add: hash_accumulate_def)
qed

abbreviation hash_of :: "ULONG_PTR \<Rightarrow> nat" where
  "hash_of Key \<equiv> unat (hash_accumulate Key)"

lemma HashTableHash_eq [simp]: "HashTableHash Key = Some (hash_of Key)"
  using hash_accumulate_less [of Key] by (simp add: HashTableHash_def XENBUS_HASH_TABLE_NR_BUCKETS_def)

section \<open>The table as a map to queues of values\<close>

text \<open>
  Nodes sit in the bucket of their key, and the DPC is queued while removed nodes wait for it.
  \<open>ht_values\<close> lists the values stored under a key, oldest first.
\<close>

definition ht_wf :: "XENBUS_HASH_TABLE \<Rightarrow> bool" where
  "ht_wf T \<longleftrightarrow> length (ht_Bucket T) = XENBUS_HASH_TABLE_NR_BUCKETS \<and>
     (\<forall>i < length (ht_Bucket T). \<forall>n \<in> set (ht_Bucket T ! i). hash_of (node_Key n) = i) \<and>
     (ht_Hidden T \<noteq> [] \<longrightarrow> ht_Dpc T)"

definition values_in :: "XENBUS_HASH_TABLE_NODE list \<Rightarrow> ULONG_PTR \<Rightarrow> ULONG_PTR list" where
  "values_in ns Key = map node_Value (filter (\<lambda>n. node_Key n = Key) ns)"

definition ht_values :: "XENBUS_HASH_TABLE \<Rightarrow> ULONG_PTR \<Rightarrow> ULONG_PTR list" where
  "ht_values T Key = values_in (ht_Bucket T ! hash_of Key) Key"

lemma values_in_simps [simp]:
  "values_in [] Key = []"
  "values_in (n # ns) Key = (if node_Key n = Key then node_Value n # values_in ns Key else values_in ns Key)"
  "values_in (ms @ ns) Key = values_in ms Key @ values_in ns Key"
  by (simp_all add: values_in_def)

lemma values_in_Nil_iff: "values_in ns Key = [] \<longleftrightarrow> (\<forall>n \<in> set ns. node_Key n \<noteq> Key)"
  by (auto simp: values_in_def filter_empty_conv)

lemma ht_wf_hash: "ht_wf T \<Longrightarrow> hash_of Key < length (ht_Bucket T)"
  using hash_accumulate_less [of Key] by (simp add: ht_wf_def XENBUS_HASH_TABLE_NR_BUCKETS_def)

lemma bucket_find_Some:
  "bucket_find ns Key i = Some j \<Longrightarrow>
     \<exists>ys n zs. ns = ys @ n # zs \<and> j = i + length ys \<and> node_Key n = Key \<and> values_in ys Key = []"
proof (induction ns arbitrary: i)
  case (Cons m ns)
  show ?case
  proof (cases "node_Key m = Key")
    case True
    with Cons.prems show ?thesis by (intro exI [of _ "[]"]) simp
  next
    case False
    with Cons.prems Cons.IH [of "Suc i"] obtain ys n zs where
      "ns = ys @ n # zs" "j = Suc i + length ys" "node_Key n = Key" "values_in ys Key = []" by auto
    with False show ?thesis by (intro exI [of _ "m # ys"]) simp
  qed
qed simp

lemma bucket_find_None: "bucket_find ns Key i = None \<longleftrightarrow> values_in ns Key = []"
  by (induction ns arbitrary: i) auto

lemma HashTableAdd_law:
  assumes wf: "ht_wf T"
  shows "\<exists>T'. HashTableAdd True T Key Value = Some (STATUS_SUCCESS, T') \<and> ht_wf T' \<and>
           ht_values T' = (ht_values T)(Key := ht_values T Key @ [Value])"
proof -
  let ?T = "T\<lparr>ht_Bucket := (ht_Bucket T)[hash_of Key :=
              ht_Bucket T ! hash_of Key @ [\<lparr>node_Key = Key, node_Value = Value\<rparr>]]\<rparr>"
  have "ht_wf ?T" using wf ht_wf_hash [OF wf, of Key] by (auto simp: ht_wf_def nth_list_update)
  moreover have "ht_values ?T = (ht_values T)(Key := ht_values T Key @ [Value])"
    using ht_wf_hash [OF wf, of Key] by (auto simp: ht_values_def nth_list_update fun_eq_iff)
  ultimately show ?thesis by (simp add: HashTableAdd_def)
qed

lemma HashTableLookup_law:
  "HashTableLookup T Key = Some (case ht_values T Key of
     [] \<Rightarrow> (STATUS_OBJECT_NAME_NOT_FOUND, None) | v # vs \<Rightarrow> (STATUS_SUCCESS, Some v))"
proof (cases "bucket_find (ht_Bucket T ! hash_of Key) Key 0")
  case None
  moreover from this have "ht_values T Key = []" by (simp add: ht_values_def bucket_find_None)
  ultimately show ?thesis by (simp add: HashTableLookup_def)
next
  case (Some j)
  from bucket_find_Some [OF Some] show ?thesis
    using Some by (auto simp: HashTableLookup_def ht_values_def)
qed

lemma HashTableRemove_law:
  assumes wf: "ht_wf T"
  shows "if ht_values T Key = [] then HashTableRemove T Key = Some (STATUS_OBJECT_NAME_NOT_FOUND, T)
         else \<exists>T'. HashTableRemove T Key = Some (STATUS_SUCCESS, T') \<and> ht_wf T' \<and>
                ht_values T' = (ht_values T)(Key := tl (ht_values T Key))"
proof (cases "bucket_find (ht_Bucket T ! hash_of Key) Key 0")
  case None
  moreover from this have "ht_values T Key = []" by (simp add: ht_values_def bucket_find_None)
  ultimately show ?thesis by (simp add: HashTableRemove_def)
next
  case (Some j)
  from bucket_find_Some [OF Some] obtain ys n zs where
    b: "ht_Bucket T ! hash_of Key = ys @ n # zs" "j = length ys" "node_Key n = Key" "values_in ys Key = []"
    by auto
  let ?T = "T\<lparr>ht_Bucket := (ht_Bucket T)[hash_of Key := ys @ zs],
              ht_Hidden := ht_Hidden T @ [n], ht_Dpc := True\<rparr>"
  have h: "hash_of Key < length (ht_Bucket T)" by (rule ht_wf_hash [OF wf])
  have "\<forall>m \<in> set (ys @ n # zs). hash_of (node_Key m) = hash_of Key"
    using wf h b(1) unfolding ht_wf_def by metis
  then have "ht_wf ?T" using wf h by (auto simp: ht_wf_def nth_list_update)
  moreover have "ht_values ?T = (ht_values T)(Key := tl (ht_values T Key))"
    using h b by (auto simp: ht_values_def nth_list_update fun_eq_iff)
  moreover have "HashTableRemove T Key = Some (STATUS_SUCCESS, ?T)"
    using Some b by (simp add: HashTableRemove_def)
  moreover have "ht_values T Key \<noteq> []" using b by (simp add: ht_values_def)
  ultimately show ?thesis by simp
qed

lemma HashTableDpc_law:
  "ht_wf T \<Longrightarrow> ht_wf (fst (HashTableDpc T)) \<and> ht_values (fst (HashTableDpc T)) = ht_values T"
  by (auto simp: HashTableDpc_def ht_wf_def ht_values_def fun_eq_iff)

lemma HashTableCreate_law:
  "HashTableCreate True = (STATUS_SUCCESS, Some T) \<Longrightarrow> ht_wf T \<and> ht_values T = (\<lambda>_. [])"
  using hash_accumulate_less
  by (auto simp: HashTableCreate_def ht_wf_def ht_values_def fun_eq_iff XENBUS_HASH_TABLE_NR_BUCKETS_def)

section \<open>The interface\<close>

text \<open>
  The contract of a table from keys to queues of values, and what follows for a client that keeps
  at most one value per key, as the event channels and the grant table do: for it the table is a
  map.
\<close>

locale key_table =
  fixes inv :: "'t \<Rightarrow> bool" and vals :: "'t \<Rightarrow> 'k \<Rightarrow> 'v list"
    and add :: "'t \<Rightarrow> 'k \<Rightarrow> 'v \<Rightarrow> (NTSTATUS \<times> 't) kernel"
    and rem :: "'t \<Rightarrow> 'k \<Rightarrow> (NTSTATUS \<times> 't) kernel"
    and look :: "'t \<Rightarrow> 'k \<Rightarrow> (NTSTATUS \<times> 'v option) kernel"
  assumes add_law: "inv t \<Longrightarrow> \<exists>t'. add t k v = Some (STATUS_SUCCESS, t') \<and> inv t' \<and>
                      vals t' = (vals t)(k := vals t k @ [v])"
    and rem_law: "inv t \<Longrightarrow> if vals t k = [] then rem t k = Some (STATUS_OBJECT_NAME_NOT_FOUND, t)
                     else \<exists>t'. rem t k = Some (STATUS_SUCCESS, t') \<and> inv t' \<and>
                            vals t' = (vals t)(k := tl (vals t k))"
    and look_law: "inv t \<Longrightarrow> look t k = Some (case vals t k of
                     [] \<Rightarrow> (STATUS_OBJECT_NAME_NOT_FOUND, None) | v # vs \<Rightarrow> (STATUS_SUCCESS, Some v))"
begin

text \<open>The map a table with at most one value per key is.\<close>

definition as_map :: "'t \<Rightarrow> ('k \<rightharpoonup> 'v) \<Rightarrow> bool" where
  "as_map t m \<longleftrightarrow> inv t \<and> (\<forall>k. vals t k = (case m k of None \<Rightarrow> [] | Some v \<Rightarrow> [v]))"

lemma map_look: "as_map t m \<Longrightarrow>
    look t k = Some (case m k of None \<Rightarrow> (STATUS_OBJECT_NAME_NOT_FOUND, None)
                     | Some v \<Rightarrow> (STATUS_SUCCESS, Some v))"
  using look_law [of t k] by (auto simp: as_map_def split: option.splits)

lemma map_add: "as_map t m \<Longrightarrow> m k = None \<Longrightarrow>
    \<exists>t'. add t k v = Some (STATUS_SUCCESS, t') \<and> as_map t' (m(k \<mapsto> v))"
  using add_law [of t k v] by (fastforce simp: as_map_def)

lemma map_rem: "as_map t m \<Longrightarrow> m k = Some v \<Longrightarrow>
    \<exists>t'. rem t k = Some (STATUS_SUCCESS, t') \<and> as_map t' (m(k := None))"
  using rem_law [of t k] by (fastforce simp: as_map_def)

lemma map_rem_none: "as_map t m \<Longrightarrow> m k = None \<Longrightarrow> rem t k = Some (STATUS_OBJECT_NAME_NOT_FOUND, t)"
  using rem_law [of t k] by (simp add: as_map_def)

end

interpretation ht: key_table ht_wf ht_values "HashTableAdd True" HashTableRemove HashTableLookup
  by unfold_locales (use HashTableAdd_law HashTableRemove_law HashTableLookup_law in auto)

definition ht_as_map :: "XENBUS_HASH_TABLE \<Rightarrow> (ULONG_PTR \<rightharpoonup> ULONG_PTR) \<Rightarrow> bool" where
  "ht_as_map T m \<longleftrightarrow> ht_wf T \<and> (\<forall>k. ht_values T k = (case m k of None \<Rightarrow> [] | Some v \<Rightarrow> [v]))"

lemma ht_as_map_eq: "ht.as_map = ht_as_map"
  by (simp add: fun_eq_iff ht.as_map_def ht_as_map_def)

lemmas ht_map_add = ht.map_add [unfolded ht_as_map_eq]
lemmas ht_map_rem = ht.map_rem [unfolded ht_as_map_eq]
lemmas ht_map_rem_none = ht.map_rem_none [unfolded ht_as_map_eq]
lemmas ht_map_look = ht.map_look [unfolded ht_as_map_eq]

lemma ht_as_map_empty: "HashTableCreate True = (STATUS_SUCCESS, Some T) \<Longrightarrow> ht_as_map T Map.empty"
  using HashTableCreate_law by (simp add: ht_as_map_def)

section \<open>Every sequence of operations\<close>

text \<open>
  The operations of the clients and the DPC, as one type, with what each answers and the nodes it frees; next to
  it the table as it should be, the queue of values under each key, with the node each removal takes off.
\<close>

datatype ht_op =
    HtAdd bool ULONG_PTR ULONG_PTR
  | HtRemove ULONG_PTR
  | HtLookup ULONG_PTR
  | HtDpc

fun ht_do :: "ht_op \<Rightarrow> XENBUS_HASH_TABLE \<Rightarrow> ((NTSTATUS \<times> ULONG_PTR option) \<times> XENBUS_HASH_TABLE \<times> XENBUS_HASH_TABLE_NODE list) kernel" where
  "ht_do (HtAdd mem Key Value) T = do { (status, T1) \<leftarrow> HashTableAdd mem T Key Value; Some ((status, None), T1, []) }"
| "ht_do (HtRemove Key) T = do { (status, T1) \<leftarrow> HashTableRemove T Key; Some ((status, None), T1, []) }"
| "ht_do (HtLookup Key) T = do { answer \<leftarrow> HashTableLookup T Key; Some (answer, T, []) }"
| "ht_do HtDpc T = (case HashTableDpc T of (T1, freed) \<Rightarrow> Some ((STATUS_SUCCESS, None), T1, freed))"

fun ht_run :: "ht_op list \<Rightarrow> XENBUS_HASH_TABLE \<Rightarrow> ((NTSTATUS \<times> ULONG_PTR option) list \<times> XENBUS_HASH_TABLE \<times> XENBUS_HASH_TABLE_NODE list) kernel" where
  "ht_run [] T = Some ([], T, [])"
| "ht_run (a # ops) T =
     do {
       (answer, T1, freed) \<leftarrow> ht_do a T;
       (answers, T2, freed2) \<leftarrow> ht_run ops T1;
       Some (answer # answers, T2, freed @ freed2)
     }"

fun queues_do :: "ht_op \<Rightarrow> (ULONG_PTR \<Rightarrow> ULONG_PTR list) \<Rightarrow> (NTSTATUS \<times> ULONG_PTR option) \<times> (ULONG_PTR \<Rightarrow> ULONG_PTR list) \<times> XENBUS_HASH_TABLE_NODE list" where
  "queues_do (HtAdd mem Key Value) Q =
     (if mem then ((STATUS_SUCCESS, None), Q(Key := Q Key @ [Value]), []) else ((STATUS_NO_MEMORY, None), Q, []))"
| "queues_do (HtRemove Key) Q =
     (case Q Key of [] \<Rightarrow> ((STATUS_OBJECT_NAME_NOT_FOUND, None), Q, [])
      | v # vs \<Rightarrow> ((STATUS_SUCCESS, None), Q(Key := vs), [\<lparr>node_Key = Key, node_Value = v\<rparr>]))"
| "queues_do (HtLookup Key) Q =
     (case Q Key of [] \<Rightarrow> ((STATUS_OBJECT_NAME_NOT_FOUND, None), Q, []) | v # vs \<Rightarrow> ((STATUS_SUCCESS, Some v), Q, []))"
| "queues_do HtDpc Q = ((STATUS_SUCCESS, None), Q, [])"

fun queues_run :: "ht_op list \<Rightarrow> (ULONG_PTR \<Rightarrow> ULONG_PTR list) \<Rightarrow> (NTSTATUS \<times> ULONG_PTR option) list \<times> (ULONG_PTR \<Rightarrow> ULONG_PTR list) \<times> XENBUS_HASH_TABLE_NODE list" where
  "queues_run [] Q = ([], Q, [])"
| "queues_run (a # ops) Q =
     (case queues_do a Q of (answer, Q1, removed) \<Rightarrow>
        case queues_run ops Q1 of (answers, Q2, removed2) \<Rightarrow> (answer # answers, Q2, removed @ removed2))"

text \<open>The node that is taken off is the one the queue names.\<close>

lemma HashTableRemove_hides:
  assumes wf: "ht_wf T" and q: "ht_values T Key = v # vs"
  shows "\<exists>T'. HashTableRemove T Key = Some (STATUS_SUCCESS, T') \<and> ht_wf T' \<and> ht_values T' = (ht_values T)(Key := vs) \<and>
     ht_Hidden T' = ht_Hidden T @ [\<lparr>node_Key = Key, node_Value = v\<rparr>]"
proof -
  obtain T' where T': "HashTableRemove T Key = Some (STATUS_SUCCESS, T')" "ht_wf T'" "ht_values T' = (ht_values T)(Key := vs)"
    using HashTableRemove_law [OF wf, of Key] q by auto
  obtain j where f: "bucket_find (ht_Bucket T ! hash_of Key) Key 0 = Some j"
    using q bucket_find_None by (cases "bucket_find (ht_Bucket T ! hash_of Key) Key 0") (auto simp: ht_values_def)
  obtain ys n zs where b: "ht_Bucket T ! hash_of Key = ys @ n # zs" "j = length ys" "node_Key n = Key" "values_in ys Key = []"
    using bucket_find_Some [OF f] by auto
  have "node_Value n = v" using q b by (simp add: ht_values_def)
  then have "n = \<lparr>node_Key = Key, node_Value = v\<rparr>" using b(3) by (cases n) simp
  moreover have "ht_Hidden T' = ht_Hidden T @ [n]" using T'(1) f b(1,2) by (auto simp: HashTableRemove_def)
  ultimately show ?thesis using T' by blast
qed

lemma ht_do_law:
  assumes "ht_wf T" and "queues_do a (ht_values T) = (answer, Q, removed)"
  shows "\<exists>T' freed. ht_do a T = Some (answer, T', freed) \<and> ht_wf T' \<and> ht_values T' = Q \<and> freed @ ht_Hidden T' = ht_Hidden T @ removed"
proof (cases a)
  case (HtAdd mem Key Value)
  obtain T' where T': "HashTableAdd True T Key Value = Some (STATUS_SUCCESS, T')" "ht_wf T'" "ht_values T' = (ht_values T)(Key := ht_values T Key @ [Value])"
    using HashTableAdd_law [OF assms(1)] by blast
  then have "ht_Hidden T' = ht_Hidden T" by (auto simp: HashTableAdd_def)
  then show ?thesis using HtAdd T' assms by (cases mem) (auto simp: HashTableAdd_def [of False])
next
  case (HtRemove Key)
  then show ?thesis
    using assms HashTableRemove_law [OF assms(1), of Key] HashTableRemove_hides [OF assms(1), of Key] by (cases "ht_values T Key") auto
next
  case (HtLookup Key)
  then show ?thesis using assms HashTableLookup_law [of T Key] by (cases "ht_values T Key") auto
next
  case HtDpc
  then show ?thesis using assms HashTableDpc_law [OF assms(1)] by (auto simp: HashTableDpc_def)
qed

lemma ht_run_law:
  assumes "ht_wf T" and "queues_run ops (ht_values T) = (answers, Q, removed)"
  shows "\<exists>T' freed. ht_run ops T = Some (answers, T', freed) \<and> ht_wf T' \<and> ht_values T' = Q \<and> freed @ ht_Hidden T' = ht_Hidden T @ removed"
  using assms
proof (induction ops arbitrary: T answers Q removed)
  case (Cons a ops)
  obtain answer Q1 removed1 where 1: "queues_do a (ht_values T) = (answer, Q1, removed1)" using prod_cases3 by blast
  obtain answers2 Q2 removed2 where 2: "queues_run ops Q1 = (answers2, Q2, removed2)" using prod_cases3 by blast
  obtain T1 freed1 where T1: "ht_do a T = Some (answer, T1, freed1)" "ht_wf T1" "ht_values T1 = Q1" "freed1 @ ht_Hidden T1 = ht_Hidden T @ removed1"
    using ht_do_law [OF Cons.prems(1) 1] by blast
  obtain T2 freed2 where T2: "ht_run ops T1 = Some (answers2, T2, freed2)" "ht_wf T2" "ht_values T2 = Q2" "freed2 @ ht_Hidden T2 = ht_Hidden T1 @ removed2"
    using Cons.IH [OF T1(2)] T1(3) 2 by blast
  have "(freed1 @ freed2) @ ht_Hidden T2 = ht_Hidden T @ (removed1 @ removed2)" using T1(4) T2(4) by (metis append.assoc)
  then show ?case using Cons.prems(2) 1 2 T1(1) T2(1-3) by simp
qed simp

section \<open>Properties\<close>

text \<open>
  The assertion at the end of \<^verbatim>\<open>HashTableHash\<close> never fails: every key hashes to the index of a
  bucket, so that the bucket array is never read out of bounds.
\<close>

theorem HashTableHash_in_range:
  "\<exists>h. HashTableHash Key = Some h \<and> h < XENBUS_HASH_TABLE_NR_BUCKETS"
  using hash_accumulate_less [of Key] by (simp add: XENBUS_HASH_TABLE_NR_BUCKETS_def)

text \<open>
  A table can be destroyed without an assertion failure exactly when no key has a value left;
  nodes removed earlier, still hidden, are no obstacle, because the flush of the DPC queue frees
  them first.
\<close>

theorem HashTableDestroy_iff_empty:
  assumes wf: "ht_wf T"
  shows "HashTableDestroy T = Some () \<longleftrightarrow> (\<forall>Key. ht_values T Key = [])"
proof -
  have "(\<forall>b \<in> set (ht_Bucket T). b = []) \<longleftrightarrow> (\<forall>Key. ht_values T Key = [])"
  proof
    assume "\<forall>b \<in> set (ht_Bucket T). b = []"
    then have "ht_Bucket T ! hash_of Key = []" for Key
      using ht_wf_hash [OF wf, of Key] nth_mem by blast
    then show "\<forall>Key. ht_values T Key = []" by (simp add: ht_values_def)
  next
    assume none: "\<forall>Key. ht_values T Key = []"
    show "\<forall>b \<in> set (ht_Bucket T). b = []"
    proof
      fix b assume "b \<in> set (ht_Bucket T)"
      then obtain i where i: "i < length (ht_Bucket T)" "b = ht_Bucket T ! i"
        by (auto simp: in_set_conv_nth)
      show "b = []"
      proof (cases b)
        case Nil
        then show ?thesis .
      next
        case (Cons n ns)
        then have "n \<in> set b" by simp
        then have "n \<in> set (ht_Bucket T ! i)" by (simp only: i(2))
        with wf i(1) have h: "hash_of (node_Key n) = i" by (simp add: ht_wf_def)
        from none have "ht_values T (node_Key n) = []" by blast
        then have "values_in b (node_Key n) = []" by (simp only: ht_values_def h i(2))
        with Cons show ?thesis by simp
      qed
    qed
  qed
  moreover have "ht_Hidden T = []" if "\<not> ht_Dpc T" using wf that by (auto simp: ht_wf_def)
  ultimately show ?thesis by (simp add: HashTableDestroy_def HashTableDpc_def Let_def)
qed

theorem HashTableDestroy_iff_empty_witness:
  "\<exists>T T'. HashTableCreate True = (STATUS_SUCCESS, Some T) \<and> HashTableDestroy T = Some () \<and>
     HashTableAdd True T 7 70 = Some (STATUS_SUCCESS, T') \<and> HashTableDestroy T' \<noteq> Some ()"
proof -
  obtain T where T: "HashTableCreate True = (STATUS_SUCCESS, Some T)"
    by (simp add: HashTableCreate_def)
  then have wf: "ht_wf T" "ht_values T = (\<lambda>_. [])" using HashTableCreate_law by blast+
  obtain T' where T': "HashTableAdd True T 7 70 = Some (STATUS_SUCCESS, T')" "ht_wf T'"
    "ht_values T' 7 = [70]" using HashTableAdd_law [OF wf(1), of 7 70] wf(2) by auto
  have "HashTableDestroy T = Some ()" using HashTableDestroy_iff_empty [OF wf(1)] wf(2) by simp
  moreover have "HashTableDestroy T' \<noteq> Some ()"
    using HashTableDestroy_iff_empty [OF T'(2)] T'(3) by (metis list.distinct(1))
  ultimately show ?thesis using T T'(1) by blast
qed

text \<open>
  C5. Whatever sequence of additions, with or without memory, removals, lookups and runs of the DPC acts on a
  table, no assertion fails and every answer is the one of a map from keys to queues of values: an addition
  goes to the end of its key's queue, a lookup gives the head, a removal takes the head off, both fail exactly
  when the queue is empty, and no operation touches another key. The nodes that have been freed and the ones
  still hidden are, in order, the ones that were removed, so that each is freed once and none too early.
\<close>

theorem HashTable_refines_map:
  assumes "ht_wf T" and "queues_run ops (ht_values T) = (answers, Q, removed)"
  shows "\<exists>T' freed. ht_run ops T = Some (answers, T', freed) \<and> ht_wf T' \<and> ht_values T' = Q \<and>
     freed @ ht_Hidden T' = ht_Hidden T @ removed"
  using assms by (rule ht_run_law)

theorem HashTable_refines_map_witness:
  "\<exists>T T' freed. HashTableCreate True = (STATUS_SUCCESS, Some T) \<and>
     ht_run [HtAdd True 7 70, HtAdd True 8 80, HtAdd False 9 90, HtRemove 7, HtLookup 7, HtLookup 8, HtRemove 9, HtDpc] T =
       Some ([(STATUS_SUCCESS, None), (STATUS_SUCCESS, None), (STATUS_NO_MEMORY, None), (STATUS_SUCCESS, None),
         (STATUS_OBJECT_NAME_NOT_FOUND, None), (STATUS_SUCCESS, Some 80), (STATUS_OBJECT_NAME_NOT_FOUND, None), (STATUS_SUCCESS, None)], T', freed) \<and>
     ht_values T' 8 = [80] \<and> ht_values T' 7 = [] \<and> freed @ ht_Hidden T' = [\<lparr>node_Key = 7, node_Value = 70\<rparr>]"
proof -
  obtain T where T: "HashTableCreate True = (STATUS_SUCCESS, Some T)" by (simp add: HashTableCreate_def)
  then have wf: "ht_wf T" "ht_values T = (\<lambda>_. [])" "ht_Hidden T = []" using HashTableCreate_law by (auto simp: HashTableCreate_def)
  let ?ops = "[HtAdd True 7 70, HtAdd True 8 80, HtAdd False 9 90, HtRemove 7, HtLookup 7, HtLookup 8, HtRemove 9, HtDpc]"
  obtain answers Q removed where q: "queues_run ?ops (ht_values T) = (answers, Q, removed)" using prod_cases3 by blast
  then have "answers = [(STATUS_SUCCESS, None), (STATUS_SUCCESS, None), (STATUS_NO_MEMORY, None), (STATUS_SUCCESS, None),
      (STATUS_OBJECT_NAME_NOT_FOUND, None), (STATUS_SUCCESS, Some 80), (STATUS_OBJECT_NAME_NOT_FOUND, None), (STATUS_SUCCESS, None)]"
    "Q 8 = [80]" "Q 7 = []" "removed = [\<lparr>node_Key = 7, node_Value = 70\<rparr>]" by (auto simp: wf(2))
  then show ?thesis using HashTable_refines_map [OF wf(1) q] T wf(3) by auto
qed

end
