(* ===== verification/Bucket_Lock.thy ===== *)
theory Bucket_Lock
  imports Prelude
begin

text \<open>
  The reader/writer lock of a hash table bucket: \<^verbatim>\<open>__HashTableBucketLock\<close> and
  \<^verbatim>\<open>HashTableBucketUnlock\<close> of src/src/xenbus/hash\_table.c, as a system of processors (numbered by
  \<^typ>\<open>nat\<close>) that share the LONG \<^verbatim>\<open>Bucket->Lock\<close>: bit 0 is the writer, the rest counts readers. A
  step of a processor is the read of the lock word or the \<^verbatim>\<open>InterlockedCompareExchange\<close> of one
  round of a loop, so that other processors can run between the two. LONG is \<^typ>\<open>int\<close>: the count of
  readers is bounded by the number of processors, and \<open>div 2\<close> and \<open>mod 2\<close> are \<^verbatim>\<open>>> 1\<close> and \<^verbatim>\<open>& 1\<close>
  also on negative values.
\<close>

section \<open>One round of each loop\<close>

text \<open>
  The exchange of \<^verbatim>\<open>__HashTableBucketLock\<close>: \<open>Lock\<close> is the value the round has read, \<open>cur\<close> the lock
  word at the exchange. The result is the new lock word and whether the loop ends.
\<close>

definition lock_exchange :: "bool \<Rightarrow> int \<Rightarrow> int \<Rightarrow> int \<times> bool" where
  "lock_exchange Writer Lock cur =
     (let Readers = Lock div 2; Writers = Lock mod 2;
          Old = 2 * Readers;
          Writers' = (if Writer then Writers + 1 else Writers);
          Readers' = (if Writer then Readers else Readers + 1);
          New = 2 * Readers' + Writers' mod 2
      in if cur \<noteq> Old then (cur, False) else (New, \<not> Writer \<or> Readers' = 0))"

text \<open>The exchange of \<^verbatim>\<open>HashTableBucketUnlock\<close>, with the assertion of a writer's release.\<close>

definition unlock_exchange :: "bool \<Rightarrow> int \<Rightarrow> int \<Rightarrow> (int \<times> bool) kernel" where
  "unlock_exchange Writer Lock cur =
     do {
       let Readers = Lock div 2;
       let Writers = Lock mod 2;
       let Old = 2 * Readers + Writers mod 2;
       ASSERT (Writer \<longrightarrow> Writers \<noteq> 0);
       let Writers' = (if Writer then Writers - 1 else Writers);
       let Readers' = (if Writer then Readers else Readers - 1);
       let New = 2 * Readers' + Writers' mod 2;
       Some (if cur = Old then (New, True) else (cur, False))
     }"

section \<open>The system\<close>

datatype pc =
    Outside
  | Acquiring bool
  | Exchange bool int
  | Holding bool
  | Releasing bool
  | ReleaseExchange bool int

record bucket_sys =
  bk_Lock :: int
  bk_pc :: "nat \<Rightarrow> pc"

definition bucket_init :: bucket_sys where
  "bucket_init = \<lparr>bk_Lock = 0, bk_pc = (\<lambda>_. Outside)\<rparr>"

text \<open>The next step of processor \<open>i\<close>; \<open>w\<close> says for what it calls the lock, if it does.\<close>

definition proc_step :: "bool \<Rightarrow> nat \<Rightarrow> bucket_sys \<Rightarrow> bucket_sys kernel" where
  "proc_step w i s =
     (case bk_pc s i of
        Outside \<Rightarrow> Some (s\<lparr>bk_pc := (bk_pc s)(i := Acquiring w)\<rparr>)
      | Acquiring W \<Rightarrow> Some (s\<lparr>bk_pc := (bk_pc s)(i := Exchange W (bk_Lock s))\<rparr>)
      | Exchange W l \<Rightarrow>
          (case lock_exchange W l (bk_Lock s) of
             (L, done) \<Rightarrow> Some (s\<lparr>bk_Lock := L,
               bk_pc := (bk_pc s)(i := if done then Holding W else Acquiring W)\<rparr>))
      | Holding W \<Rightarrow> Some (s\<lparr>bk_pc := (bk_pc s)(i := Releasing W)\<rparr>)
      | Releasing W \<Rightarrow> Some (s\<lparr>bk_pc := (bk_pc s)(i := ReleaseExchange W (bk_Lock s))\<rparr>)
      | ReleaseExchange W l \<Rightarrow>
          do {
            (L, done) \<leftarrow> unlock_exchange W l (bk_Lock s);
            Some (s\<lparr>bk_Lock := L, bk_pc := (bk_pc s)(i := if done then Outside else Releasing W)\<rparr>)
          })"

text \<open>
  The step relation. With \<open>quiet\<close> an exchange only happens when the lock word is still the one the
  round read, as if read and exchange were one atomic step; without, anything can happen between.
\<close>

definition fresh :: "bucket_sys \<Rightarrow> nat \<Rightarrow> bool" where
  "fresh s i \<longleftrightarrow> (case bk_pc s i of Exchange W l \<Rightarrow> l = bk_Lock s | _ \<Rightarrow> True)"

inductive bucket_step :: "bool \<Rightarrow> bucket_sys \<Rightarrow> bucket_sys \<Rightarrow> bool" for quiet where
  proc: "proc_step w i s = Some t \<Longrightarrow> (quiet \<longrightarrow> fresh s i) \<Longrightarrow> bucket_step quiet s t"

inductive bucket_reach :: "bool \<Rightarrow> bucket_sys \<Rightarrow> bucket_sys \<Rightarrow> bool" for quiet where
  refl: "bucket_reach quiet s s"
| step: "bucket_reach quiet s t \<Longrightarrow> bucket_step quiet t u \<Longrightarrow> bucket_reach quiet s u"

inductive_cases bucket_stepE: "bucket_step quiet s t"

lemma proc_step_cases:
  assumes "proc_step w i s = Some t"
  obtains (call) "bk_pc s i = Outside" "t = s\<lparr>bk_pc := (bk_pc s)(i := Acquiring w)\<rparr>"
  | (read) W where "bk_pc s i = Acquiring W" "t = s\<lparr>bk_pc := (bk_pc s)(i := Exchange W (bk_Lock s))\<rparr>"
  | (exchange) W l L d where "bk_pc s i = Exchange W l" "lock_exchange W l (bk_Lock s) = (L, d)"
      "t = s\<lparr>bk_Lock := L, bk_pc := (bk_pc s)(i := if d then Holding W else Acquiring W)\<rparr>"
  | (unlock) W where "bk_pc s i = Holding W" "t = s\<lparr>bk_pc := (bk_pc s)(i := Releasing W)\<rparr>"
  | (reread) W where "bk_pc s i = Releasing W"
      "t = s\<lparr>bk_pc := (bk_pc s)(i := ReleaseExchange W (bk_Lock s))\<rparr>"
  | (release) W l L d where "bk_pc s i = ReleaseExchange W l"
      "unlock_exchange W l (bk_Lock s) = Some (L, d)"
      "t = s\<lparr>bk_Lock := L, bk_pc := (bk_pc s)(i := if d then Outside else Releasing W)\<rparr>"
  using assms
  by (cases "bk_pc s i") (auto simp: proc_step_def bind_eq_Some_conv split: prod.splits)

section \<open>Exclusion when no one intervenes\<close>

definition has_read :: "pc \<Rightarrow> bool" where
  "has_read p \<longleftrightarrow> p = Holding False \<or> p = Releasing False \<or> (\<exists>l. p = ReleaseExchange False l)"

definition has_write :: "pc \<Rightarrow> bool" where
  "has_write p \<longleftrightarrow> p = Holding True \<or> p = Releasing True \<or> (\<exists>l. p = ReleaseExchange True l)"

definition readers :: "bucket_sys \<Rightarrow> nat set" where
  "readers s = {i. has_read (bk_pc s i)}"

definition writers :: "bucket_sys \<Rightarrow> nat set" where
  "writers s = {i. has_write (bk_pc s i)}"

lemma has_simps [simp]:
  "\<not> has_read Outside" "\<not> has_read (Acquiring W)" "\<not> has_read (Exchange W l)"
  "has_read (Holding W) = (\<not> W)" "has_read (Releasing W) = (\<not> W)"
  "has_read (ReleaseExchange W l) = (\<not> W)"
  "\<not> has_write Outside" "\<not> has_write (Acquiring W)" "\<not> has_write (Exchange W l)"
  "has_write (Holding W) = W" "has_write (Releasing W) = W" "has_write (ReleaseExchange W l) = W"
  by (auto simp: has_read_def has_write_def)

lemma readers_upd [simp]:
  "readers (s\<lparr>bk_pc := (bk_pc s)(i := p)\<rparr>) = (if has_read p then insert i (readers s) else readers s - {i})"
  "readers (s\<lparr>bk_Lock := L, bk_pc := (bk_pc s)(i := p)\<rparr>) =
     (if has_read p then insert i (readers s) else readers s - {i})"
  by (auto simp: readers_def)

lemma writers_upd [simp]:
  "writers (s\<lparr>bk_pc := (bk_pc s)(i := p)\<rparr>) = (if has_write p then insert i (writers s) else writers s - {i})"
  "writers (s\<lparr>bk_Lock := L, bk_pc := (bk_pc s)(i := p)\<rparr>) =
     (if has_write p then insert i (writers s) else writers s - {i})"
  by (auto simp: writers_def)

text \<open>
  The lock word counts the processors inside for reading, and one inside for writing is alone and
  has the lock word 1.
\<close>

definition bucket_inv :: "bucket_sys \<Rightarrow> bool" where
  "bucket_inv s \<longleftrightarrow> finite (readers s) \<and> bk_Lock s div 2 = int (card (readers s)) \<and>
     (writers s = {} \<or> (\<exists>i. writers s = {i}) \<and> bk_Lock s = 1)"

lemma bucket_inv_no_write: "bucket_inv s \<Longrightarrow> bk_Lock s mod 2 = 0 \<Longrightarrow> writers s = {}"
  by (auto simp: bucket_inv_def)

lemma bucket_inv_local:
  assumes "bucket_inv s" and "has_read p = (i \<in> readers s)" and "has_write p = (i \<in> writers s)"
  shows "bucket_inv (s\<lparr>bk_pc := (bk_pc s)(i := p)\<rparr>)"
proof -
  have "(if has_read p then insert i (readers s) else readers s - {i}) = readers s"
    "(if has_write p then insert i (writers s) else writers s - {i}) = writers s"
    using assms(2,3) by auto
  with assms(1) show ?thesis by (simp only: bucket_inv_def readers_upd writers_upd) simp
qed

lemma bucket_inv_exchange:
  assumes inv: "bucket_inv s" and pc: "bk_pc s i = Exchange W (bk_Lock s)"
    and ex: "lock_exchange W (bk_Lock s) (bk_Lock s) = (L, d)"
  shows "bucket_inv (s\<lparr>bk_Lock := L, bk_pc := (bk_pc s)(i := if d then Holding W else Acquiring W)\<rparr>)"
proof (cases "bk_Lock s mod 2 = 0")
  case False
  then have "bk_Lock s \<noteq> 2 * (bk_Lock s div 2)" by presburger
  with ex have "L = bk_Lock s" "\<not> d" by (auto simp: lock_exchange_def)
  moreover have "s\<lparr>bk_Lock := bk_Lock s\<rparr> = s" by simp
  moreover have "i \<notin> readers s" "i \<notin> writers s" using pc by (simp_all add: readers_def writers_def)
  ultimately show ?thesis using bucket_inv_local [OF inv, of "Acquiring W" i] by simp
next
  case True
  then have even: "bk_Lock s = 2 * (bk_Lock s div 2)" by presburger
  have out: "i \<notin> readers s" "writers s = {}"
    using pc bucket_inv_no_write [OF inv True] by (simp_all add: readers_def)
  have fin: "finite (readers s)" "bk_Lock s div 2 = int (card (readers s))"
    using inv by (simp_all add: bucket_inv_def)
  show ?thesis
  proof (cases W)
    case True
    with ex even \<open>bk_Lock s mod 2 = 0\<close> have "L = 2 * (bk_Lock s div 2) + 1" "d = (bk_Lock s div 2 = 0)"
      by (auto simp: lock_exchange_def Let_def)
    with True out fin show ?thesis by (auto simp: bucket_inv_def)
  next
    case False
    with ex even \<open>bk_Lock s mod 2 = 0\<close> have "L = 2 * (bk_Lock s div 2 + 1)" "d"
      by (auto simp: lock_exchange_def Let_def)
    with False out fin show ?thesis by (auto simp: bucket_inv_def)
  qed
qed

lemma bucket_inv_release:
  assumes inv: "bucket_inv s" and pc: "bk_pc s i = ReleaseExchange W l"
    and ex: "unlock_exchange W l (bk_Lock s) = Some (L, d)"
  shows "bucket_inv (s\<lparr>bk_Lock := L, bk_pc := (bk_pc s)(i := if d then Outside else Releasing W)\<rparr>)"
proof (cases "bk_Lock s = l")
  case False
  moreover have "2 * (l div 2) + l mod 2 = l" by simp
  ultimately have "L = bk_Lock s" "\<not> d" using ex by (auto simp: unlock_exchange_def Let_def split: if_splits)
  moreover have "i \<in> readers s \<longleftrightarrow> \<not> W" "i \<in> writers s \<longleftrightarrow> W"
    using pc by (simp_all add: readers_def writers_def)
  ultimately show ?thesis using bucket_inv_local [OF inv, of "Releasing W" i] by simp
next
  case True
  have l: "2 * (l div 2) + l mod 2 = l" by simp
  have fin: "finite (readers s)" "l div 2 = int (card (readers s))"
    using inv True by (simp_all add: bucket_inv_def)
  show ?thesis
  proof (cases W)
    case True
    then have i: "i \<in> writers s" "i \<notin> readers s" using pc by (simp_all add: readers_def writers_def)
    with inv have "writers s = {i}" "bk_Lock s = 1" by (auto simp: bucket_inv_def)
    with \<open>bk_Lock s = l\<close> True ex l have "L = 0" "d" by (auto simp: unlock_exchange_def Let_def split: if_splits)
    with fin i True \<open>writers s = {i}\<close> \<open>bk_Lock s = 1\<close> \<open>bk_Lock s = l\<close> show ?thesis
      by (auto simp: bucket_inv_def)
  next
    case False
    then have i: "i \<in> readers s" "i \<notin> writers s" using pc by (simp_all add: readers_def writers_def)
    then have "0 < card (readers s)" using fin by (auto simp: card_gt_0_iff)
    moreover from this have "writers s = {}" using inv by (auto simp: bucket_inv_def)
    moreover have "L = 2 * (l div 2 - 1) + l mod 2" "d"
      using False ex l \<open>bk_Lock s = l\<close> by (auto simp: unlock_exchange_def Let_def split: if_splits)
    ultimately show ?thesis
      using False fin i \<open>bk_Lock s = l\<close> by (auto simp: bucket_inv_def)
  qed
qed

lemma bucket_inv_step:
  assumes "bucket_step True s t" and inv: "bucket_inv s"
  shows "bucket_inv t"
  using assms(1)
proof (cases rule: bucket_step.cases)
  case (proc w i)
  from proc(1) show ?thesis
  proof (cases rule: proc_step_cases)
    case call
    then show ?thesis using bucket_inv_local [OF inv] by (simp add: readers_def writers_def)
  next
    case (read W)
    then show ?thesis using bucket_inv_local [OF inv] by (simp add: readers_def writers_def)
  next
    case (exchange W l L d)
    moreover from this proc(2) have "l = bk_Lock s" by (simp add: fresh_def)
    ultimately show ?thesis using bucket_inv_exchange [OF inv] by simp
  next
    case (unlock W)
    then show ?thesis using bucket_inv_local [OF inv] by (simp add: readers_def writers_def)
  next
    case (reread W)
    then show ?thesis using bucket_inv_local [OF inv] by (simp add: readers_def writers_def)
  next
    case (release W l L d)
    then show ?thesis using bucket_inv_release [OF inv] by simp
  qed
qed

lemma bucket_inv_init: "bucket_inv bucket_init"
proof -
  have "readers bucket_init = {}" "writers bucket_init = {}" "bk_Lock bucket_init = 0"
    by (auto simp: bucket_init_def readers_def writers_def)
  then show ?thesis by (simp add: bucket_inv_def)
qed

lemma bucket_inv_reach: "bucket_reach True s t \<Longrightarrow> bucket_inv s \<Longrightarrow> bucket_inv t"
  by (induction rule: bucket_reach.induct) (simp_all add: bucket_inv_step)

section \<open>Schedules\<close>

text \<open>A schedule names the processors that step, with what each of them calls the lock for.\<close>

fun run :: "(bool \<times> nat) list \<Rightarrow> bucket_sys \<Rightarrow> bucket_sys kernel" where
  "run [] s = Some s"
| "run ((w, i) # sched) s = Option.bind (proc_step w i s) (run sched)"

fun quiet_run :: "(bool \<times> nat) list \<Rightarrow> bucket_sys \<Rightarrow> bool" where
  "quiet_run [] s = True"
| "quiet_run ((w, i) # sched) s =
     (fresh s i \<and> (case proc_step w i s of None \<Rightarrow> False | Some t \<Rightarrow> quiet_run sched t))"

lemma bucket_reach_trans:
  "bucket_reach q t u \<Longrightarrow> bucket_reach q s t \<Longrightarrow> bucket_reach q s u"
  by (induction rule: bucket_reach.induct) (auto intro: bucket_reach.step)

lemma bucket_reach_one: "bucket_step q s t \<Longrightarrow> bucket_reach q s t"
  by (rule bucket_reach.step [OF bucket_reach.refl])

lemma run_reach:
  "run sched s = Some t \<Longrightarrow> (q \<longrightarrow> quiet_run sched s) \<Longrightarrow> bucket_reach q s t"
proof (induction sched s rule: run.induct)
  case (1 s)
  then show ?case by (simp add: bucket_reach.refl)
next
  case (2 w i sched s)
  from 2(2) obtain u where u: "proc_step w i s = Some u" "run sched u = Some t"
    by (auto simp: bind_eq_Some_conv)
  have "bucket_step q s u" using u(1) 2(3) by (auto intro: bucket_step.proc)
  moreover have "bucket_reach q u t" by (rule 2(1) [OF u]) (use 2(3) u(1) in simp)
  ultimately show ?case by (blast intro: bucket_reach_trans bucket_reach_one)
qed

section \<open>A writer that finds readers never gets the lock\<close>

text \<open>
  The state a writer leaves behind when its exchange succeeds while readers are inside: the writer
  bit is set and nobody who holds the lock will clear it.
\<close>

definition orphaned :: "bucket_sys \<Rightarrow> bool" where
  "orphaned s \<longleftrightarrow> bk_Lock s mod 2 = 1 \<and> writers s = {}"

lemma orphaned_step:
  assumes "bucket_step q s t" and "orphaned s"
  shows "orphaned t \<and> readers t \<subseteq> readers s"
  using assms(1)
proof (cases rule: bucket_step.cases)
  case (proc w i)
  have odd: "bk_Lock s mod 2 = 1" and none: "writers s = {}"
    using assms(2) by (simp_all add: orphaned_def)
  from proc(1) show ?thesis
  proof (cases rule: proc_step_cases)
    case call
    then show ?thesis using odd none by (auto simp: orphaned_def)
  next
    case (read W)
    then show ?thesis using odd none by (auto simp: orphaned_def)
  next
    case (exchange W l L d)
    have "bk_Lock s \<noteq> 2 * (l div 2)" using odd by presburger
    with exchange(2) have "L = bk_Lock s" "\<not> d" by (auto simp: lock_exchange_def)
    with exchange(3) show ?thesis using odd none by (auto simp: orphaned_def)
  next
    case (unlock W)
    then have "i \<in> (if W then writers s else readers s)" by (simp add: readers_def writers_def)
    with unlock show ?thesis using odd none by (auto simp: orphaned_def split: if_splits)
  next
    case (reread W)
    then have "i \<in> (if W then writers s else readers s)" by (simp add: readers_def writers_def)
    with reread show ?thesis using odd none by (auto simp: orphaned_def split: if_splits)
  next
    case (release W l L d)
    then have i: "i \<in> (if W then writers s else readers s)" by (simp add: readers_def writers_def)
    with none have W: "\<not> W" by (auto split: if_splits)
    have "L mod 2 = 1"
    proof (cases "bk_Lock s = l")
      case True
      with release(2) W odd have "L = 2 * (l div 2 - 1) + 1"
        by (auto simp: unlock_exchange_def Let_def)
      then show ?thesis by presburger
    next
      case False
      moreover have "2 * (l div 2) + l mod 2 = l" by simp
      ultimately have "L = bk_Lock s"
        using release(2) by (auto simp: unlock_exchange_def Let_def split: if_splits)
      then show ?thesis using odd by simp
    qed
    then show ?thesis using release(3) W i none by (auto simp: orphaned_def)
  qed
qed

lemma orphaned_reach:
  "bucket_reach q s t \<Longrightarrow> orphaned s \<Longrightarrow> orphaned t \<and> readers t \<subseteq> readers s"
proof (induction rule: bucket_reach.induct)
  case (step s t u)
  then show ?case using orphaned_step [of q t u] by blast
qed simp

section \<open>Properties\<close>

text \<open>
  C6. When nothing intervenes between the read of the lock word and the exchange of a round, the
  lock is a reader/writer lock in every state it can reach: a processor holding it for writing is
  the only one holding it, and the lock word counts the readers.
\<close>

theorem bucket_lock_exclusive:
  assumes "bucket_reach True bucket_init s" and "bk_pc s i = Holding True" and "i \<noteq> j"
  shows "bk_pc s j \<noteq> Holding True \<and> bk_pc s j \<noteq> Holding False \<and> bk_Lock s = 1"
proof -
  have inv: "bucket_inv s" by (rule bucket_inv_reach [OF assms(1) bucket_inv_init])
  have "i \<in> writers s" using assms(2) by (simp add: writers_def)
  with inv have w: "writers s = {i}" "bk_Lock s = 1" "card (readers s) = 0" "finite (readers s)"
    by (auto simp: bucket_inv_def)
  then have "j \<notin> writers s" "j \<notin> readers s" using assms(3) by auto
  with w(2) show ?thesis by (auto simp: readers_def writers_def)
qed

theorem bucket_lock_exclusive_witness:
  "\<exists>s. bucket_reach True bucket_init s \<and> bk_pc s 0 = Holding True \<and> bk_pc s 1 \<noteq> Holding False"
proof -
  let ?sched = "[(True, 0), (False, 1), (True, 0), (True, 0)]"
  have ok: "\<exists>s. run ?sched bucket_init = Some s \<and> bk_pc s 0 = Holding True"
    "quiet_run ?sched bucket_init"
    by (simp_all add: bucket_init_def proc_step_def lock_exchange_def fresh_def)
  from ok(1) obtain s where s: "run ?sched bucket_init = Some s" "bk_pc s 0 = Holding True" by blast
  have "bucket_reach True bucket_init s" by (rule run_reach [OF s(1)]) (rule impI, rule ok(2))
  with s(2) bucket_lock_exclusive [of s 0 1] show ?thesis by auto
qed

text \<open>
  Without that proviso exclusion fails: a writer that read the lock word while another one held
  it computes the new value 0 (its \<^verbatim>\<open>Writers & 1\<close> wraps from 2), and its exchange succeeds once the
  holder has left. It then holds a lock whose word is 0, and the next writer enters as well.
\<close>

theorem bucket_lock_stale_read:
  "\<exists>s. bucket_reach False bucket_init s \<and> bk_pc s 0 = Holding True \<and> bk_pc s 1 = Holding True"
proof -
  let ?sched = "[(True, 0), (True, 0), (True, 0), (True, 1), (True, 1),
     (True, 0), (True, 0), (True, 0), (True, 1),
     (True, 0), (True, 0), (True, 0)]"
  have "\<exists>s. run ?sched bucket_init = Some s \<and> bk_pc s 0 = Holding True \<and> bk_pc s 1 = Holding True"
    by (simp add: bucket_init_def proc_step_def lock_exchange_def unlock_exchange_def)
  then show ?thesis using run_reach [where q = False] by blast
qed

text \<open>
  A writer whose exchange succeeds while readers are inside sets the writer bit for good: from
  then on, under every schedule, nobody gets the lock for writing and no processor that is not
  already inside gets it for reading.
\<close>

theorem bucket_lock_writer_waits_forever:
  assumes "writers s = {}" and "bk_pc s i = Exchange True (bk_Lock s)"
    and "bk_Lock s mod 2 = 0" and "0 < bk_Lock s"
    and "proc_step w i s = Some t" and "bucket_reach q t u"
  shows "bk_pc t i = Acquiring True \<and> bk_pc u j \<noteq> Holding True \<and>
    (bk_pc u j = Holding False \<longrightarrow> bk_pc s j = Holding False \<or> bk_pc s j = Releasing False \<or>
       (\<exists>l. bk_pc s j = ReleaseExchange False l))"
proof -
  have l: "bk_Lock s = 2 * (bk_Lock s div 2)" "bk_Lock s div 2 \<noteq> 0" using assms(3,4) by presburger+
  then have "lock_exchange True (bk_Lock s) (bk_Lock s) = (2 * (bk_Lock s div 2) + 1, False)"
    using assms(3) by (simp add: lock_exchange_def Let_def)
  with assms(2,5) have t: "t = s\<lparr>bk_Lock := 2 * (bk_Lock s div 2) + 1,
      bk_pc := (bk_pc s)(i := Acquiring True)\<rparr>"
    by (simp add: proc_step_def)
  have "i \<notin> readers s" using assms(2) by (simp add: readers_def)
  with t assms(1) have "orphaned t" "readers t = readers s" by (auto simp: orphaned_def)
  with orphaned_reach [OF assms(6)] have "writers u = {}" "readers u \<subseteq> readers s"
    by (auto simp: orphaned_def)
  moreover have "has_write (bk_pc u j) \<Longrightarrow> j \<in> writers u" "has_read (bk_pc u j) \<Longrightarrow> j \<in> readers u"
    by (simp_all add: readers_def writers_def)
  ultimately have "\<not> has_write (bk_pc u j)" "has_read (bk_pc u j) \<Longrightarrow> has_read (bk_pc s j)"
    by (auto simp: readers_def)
  moreover have "bk_pc t i = Acquiring True" using t by simp
  ultimately show ?thesis by (auto simp: has_read_def [of "bk_pc s j"])
qed

theorem bucket_lock_writer_waits_forever_witness:
  "\<exists>s t. bucket_reach True bucket_init s \<and> proc_step True 1 s = Some t \<and>
     (\<forall>u. bucket_reach False t u \<longrightarrow> bk_pc u 1 \<noteq> Holding True)"
proof -
  let ?sched = "[(False, 0), (False, 0), (False, 0), (True, 1), (True, 1)]"
  have q: "quiet_run ?sched bucket_init"
    by (simp add: bucket_init_def proc_step_def lock_exchange_def fresh_def)
  have "\<exists>s. run ?sched bucket_init = Some s \<and> writers s = {} \<and>
      bk_pc s 1 = Exchange True (bk_Lock s) \<and> bk_Lock s = 2"
    by (auto simp: bucket_init_def proc_step_def lock_exchange_def writers_def)
  then obtain s where s: "run ?sched bucket_init = Some s" "writers s = {}"
      "bk_pc s 1 = Exchange True (bk_Lock s)" "bk_Lock s = 2" by blast
  have "bucket_reach True bucket_init s" by (rule run_reach [OF s(1)]) (rule impI, rule q)
  moreover obtain t where t: "proc_step True 1 s = Some t"
    using s(3,4) by (simp add: proc_step_def lock_exchange_def)
  moreover have "bk_pc u 1 \<noteq> Holding True" if "bucket_reach False t u" for u
    using bucket_lock_writer_waits_forever [OF s(2,3) _ _ t that] s(4) by simp
  ultimately show ?thesis by blast
qed

end
