(* ===== verification/Slab_Cache.thy ===== *)
theory Slab_Cache
  imports Util
begin

unbundle bit_operations_syntax

text \<open>
  The object cache of src/src/xenbus/cache.c: slabs of objects with bit masks of the constructed and
  the allocated ones, kept in order of occupancy with a cursor on the first slab that has room, a
  magazine of objects in front of the slabs for every processor, and the constructor and
  destructor of the client. An object is its address (0 is \<^verbatim>\<open>NULL\<close>); a slab is found by its
  page-aligned address, as \<^verbatim>\<open>PAGE_ALIGN\<close> does. The checked build is modelled, so \<^verbatim>\<open>CacheAudit\<close> is an
  assertion. The client's \<^verbatim>\<open>Ctor\<close> and \<^verbatim>\<open>Dtor\<close> are arguments that change a state \<^typ>\<open>'w\<close> of the client,
  and what the pool allocator answers is an argument as well. The lock callbacks only say that an
  operation is one step.
\<close>

section \<open>State\<close>

definition PAGE_SIZE :: nat where
  "PAGE_SIZE = 4096"

definition PAGE_ALIGN :: "nat \<Rightarrow> nat" where
  "PAGE_ALIGN a = a - a mod PAGE_SIZE"

definition XENBUS_CACHE_MAGAZINE_SLOTS :: nat where
  "XENBUS_CACHE_MAGAZINE_SLOTS = 6"

record XENBUS_CACHE_MASK =
  mask_Size :: nat
  mask_Count :: nat
  mask_Mask :: "32 word list"

record XENBUS_CACHE_SLAB =
  slab_Base :: nat
  slab_Constructed :: XENBUS_CACHE_MASK
  slab_Allocated :: XENBUS_CACHE_MASK

text \<open>\<^verbatim>\<open>FIELD_OFFSET(XENBUS_CACHE_SLAB, Buffer)\<close> on amd64.\<close>

definition SLAB_BUFFER :: nat where
  "SLAB_BUFFER = 48"

record XENBUS_CACHE =
  cache_Name :: string
  cache_Size :: nat
  cache_Reservation :: nat
  cache_Cap :: nat
  cache_SlabList :: "XENBUS_CACHE_SLAB list"
  cache_Cursor :: ptr
  cache_Count :: nat
  cache_Magazine :: "nat list list"
  cache_MagazineCount :: nat
  cache_CurrentSlabs :: int
  cache_MaximumSlabs :: int
  cache_CurrentObjects :: int
  cache_MaximumObjects :: int

type_synonym 'w ctor = "nat \<Rightarrow> 'w \<Rightarrow> (NTSTATUS \<times> 'w) kernel"
type_synonym 'w dtor = "nat \<Rightarrow> 'w \<Rightarrow> 'w kernel"

text \<open>
  What the allocator answers while a slab is created: the slab's address, and whether each of the
  two masks can be allocated.
\<close>

type_synonym slab_mem = "nat option \<times> bool \<times> bool"

section \<open>Magazines\<close>

definition CacheGetObjectFromMagazine :: "nat list \<Rightarrow> nat \<times> nat list" where
  "CacheGetObjectFromMagazine M =
     (let Index = first_from (\<lambda>i. M ! i \<noteq> 0) 0 XENBUS_CACHE_MAGAZINE_SLOTS in
      if Index < XENBUS_CACHE_MAGAZINE_SLOTS then (M ! Index, M[Index := 0]) else (0, M))"

definition CachePutObjectToMagazine :: "nat list \<Rightarrow> nat \<Rightarrow> NTSTATUS \<times> nat list" where
  "CachePutObjectToMagazine M Object =
     (let Index = first_from (\<lambda>i. M ! i = 0) 0 XENBUS_CACHE_MAGAZINE_SLOTS in
      if Index < XENBUS_CACHE_MAGAZINE_SLOTS then (STATUS_SUCCESS, M[Index := Object])
      else (STATUS_UNSUCCESSFUL, M))"

section \<open>Masks\<close>

definition BITS_PER_ULONG :: nat where
  "BITS_PER_ULONG = 32"

text \<open>The mask is rounded up to whole ULONGs; the pool allocator zeroes it.\<close>

definition CacheMaskCreate :: "bool \<Rightarrow> nat \<Rightarrow> XENBUS_CACHE_MASK option" where
  "CacheMaskCreate mem Size =
     (if \<not> mem then None
      else Some \<lparr>mask_Size = Size, mask_Count = 0,
             mask_Mask = replicate (unat (P2ROUNDUP (of_nat Size) (of_nat BITS_PER_ULONG)) div 8 div 4) 0\<rparr>)"

definition CacheMaskDestroy :: "XENBUS_CACHE_MASK \<Rightarrow> unit kernel" where
  "CacheMaskDestroy Mask = ASSERT (mask_Count Mask = 0)"

definition CacheMaskSet :: "XENBUS_CACHE_MASK \<Rightarrow> nat \<Rightarrow> XENBUS_CACHE_MASK kernel" where
  "CacheMaskSet Mask Bit =
     (let Index = Bit div BITS_PER_ULONG; Value = push_bit (Bit mod BITS_PER_ULONG) 1 in
      do {
        ASSERT (Bit < mask_Size Mask);
        ASSERT (mask_Mask Mask ! Index AND Value = 0);
        ASSERT (mask_Count Mask < mask_Size Mask);
        Some (Mask\<lparr>mask_Mask := (mask_Mask Mask)[Index := mask_Mask Mask ! Index OR Value],
                   mask_Count := mask_Count Mask + 1\<rparr>)
      })"

definition CacheMaskTest :: "XENBUS_CACHE_MASK \<Rightarrow> nat \<Rightarrow> bool kernel" where
  "CacheMaskTest Mask Bit =
     (let Index = Bit div BITS_PER_ULONG; Value = push_bit (Bit mod BITS_PER_ULONG) 1 in
      do {
        ASSERT (Bit < mask_Size Mask);
        Some (mask_Mask Mask ! Index AND Value \<noteq> 0)
      })"

definition CacheMaskClear :: "XENBUS_CACHE_MASK \<Rightarrow> nat \<Rightarrow> XENBUS_CACHE_MASK kernel" where
  "CacheMaskClear Mask Bit =
     (let Index = Bit div BITS_PER_ULONG; Value = push_bit (Bit mod BITS_PER_ULONG) 1 in
      do {
        ASSERT (Bit < mask_Size Mask);
        ASSERT (mask_Count Mask \<noteq> 0);
        ASSERT (mask_Mask Mask ! Index AND Value \<noteq> 0);
        Some (Mask\<lparr>mask_Mask := (mask_Mask Mask)[Index := mask_Mask Mask ! Index AND NOT Value],
                   mask_Count := mask_Count Mask - 1\<rparr>)
      })"

section \<open>Slabs\<close>

abbreviation occupancy :: "XENBUS_CACHE_SLAB \<Rightarrow> nat" where
  "occupancy s \<equiv> mask_Count (slab_Allocated s)"

abbreviation capacity :: "XENBUS_CACHE_SLAB \<Rightarrow> nat" where
  "capacity s \<equiv> mask_Size (slab_Allocated s)"

text \<open>
  The loop of \<^verbatim>\<open>CacheInsertSlab\<close> over the slab list: the index before which the new slab goes
  (\<^const>\<open>None\<close>: the tail) and the cursor found on the way (\<^const>\<open>None\<close>: still \<^verbatim>\<open>NULL\<close>).
\<close>

fun insert_scan :: "XENBUS_CACHE_SLAB list \<Rightarrow> XENBUS_CACHE_SLAB \<Rightarrow> nat \<Rightarrow> nat option \<Rightarrow> nat option \<times> nat option" where
  "insert_scan [] New i Cursor = (None, Cursor)"
| "insert_scan (s # ss) New i Cursor =
     (if occupancy s < occupancy New then (Some i, Cursor)
      else insert_scan ss New (Suc i)
             (if occupancy s < capacity s \<and> Cursor = None then Some i else Cursor))"

definition CacheInsertSlab :: "XENBUS_CACHE \<Rightarrow> XENBUS_CACHE_SLAB \<Rightarrow> XENBUS_CACHE kernel" where
  "CacheInsertSlab c New =
     do {
       ASSERT (occupancy New < capacity New);
       let (place, Cursor) = insert_scan (cache_SlabList c) New 0 None;
       let (xs, i) = insert_before (cache_SlabList c) place New;
       Cursor' \<leftarrow> (case Cursor of
                     None \<Rightarrow> do { ASSERT (occupancy New < capacity New); Some i }
                   | Some j \<Rightarrow> Some j);
       Some (c\<lparr>cache_SlabList := xs, cache_Cursor := Some Cursor'\<rparr>)
     }"

fun audit_cursor :: "XENBUS_CACHE_SLAB list \<Rightarrow> nat \<Rightarrow> ptr \<Rightarrow> bool" where
  "audit_cursor [] i Cursor = True"
| "audit_cursor (s # ss) i Cursor =
     (if occupancy s < capacity s then Cursor = Some i else audit_cursor ss (Suc i) Cursor)"

fun audit_order :: "XENBUS_CACHE_SLAB list \<Rightarrow> nat \<Rightarrow> bool" where
  "audit_order [] Count = True"
| "audit_order (s # ss) Count = (occupancy s \<le> Count \<and> audit_order ss (occupancy s))"

definition CacheAudit :: "XENBUS_CACHE \<Rightarrow> unit kernel" where
  "CacheAudit c =
     do {
       ASSERT (audit_cursor (cache_SlabList c) 0 (cache_Cursor c));
       ASSERT (audit_order (cache_SlabList c) (2 ^ 32 - 1))
     }"

definition slab_bytes :: "nat \<Rightarrow> nat" where
  "slab_bytes Size = unat (P2ROUNDUP (of_nat (SLAB_BUFFER + Size)) (of_nat PAGE_SIZE))"

definition slab_objects :: "nat \<Rightarrow> nat" where
  "slab_objects Size = (slab_bytes Size - SLAB_BUFFER) div Size"

definition CacheCreateSlab :: "slab_mem \<Rightarrow> XENBUS_CACHE \<Rightarrow> (NTSTATUS \<times> XENBUS_CACHE) kernel" where
  "CacheCreateSlab mem c =
     (let Count = slab_objects (cache_Size c); (Slab, mem1, mem2) = mem in
      do {
        ASSERT (Count \<noteq> 0);
        (if (cache_Count c + Count) mod 2 ^ 32 > cache_Cap c then Some (STATUS_INSUFFICIENT_RESOURCES, c)
         else case Slab of
           None \<Rightarrow> Some (STATUS_NO_MEMORY, c)
         | Some Base \<Rightarrow>
             do {
               ASSERT (Base = PAGE_ALIGN Base);
               (case CacheMaskCreate mem1 Count of
                  None \<Rightarrow> Some (STATUS_NO_MEMORY, c)
                | Some Constructed \<Rightarrow>
                    (case CacheMaskCreate mem2 Count of
                       None \<Rightarrow> do { CacheMaskDestroy Constructed; Some (STATUS_NO_MEMORY, c) }
                     | Some Allocated \<Rightarrow>
                         do {
                           c1 \<leftarrow> CacheInsertSlab c \<lparr>slab_Base = Base, slab_Constructed = Constructed,
                                                    slab_Allocated = Allocated\<rparr>;
                           let SlabCount = s32 (cache_CurrentSlabs c1 + 1);
                           Some (STATUS_SUCCESS,
                             c1\<lparr>cache_Count := (cache_Count c1 + Count) mod 2 ^ 32,
                                cache_CurrentSlabs := SlabCount,
                                cache_MaximumSlabs := (if SlabCount > cache_MaximumSlabs c1 then SlabCount
                                                       else cache_MaximumSlabs c1)\<rparr>)
                         }))
             })
      })"

text \<open>The loop of \<^verbatim>\<open>CacheDestroySlab\<close> that destroys the constructed objects, last one first.\<close>

primrec destroy_objects ::
  "'w dtor \<Rightarrow> nat \<Rightarrow> nat \<Rightarrow> nat \<Rightarrow> XENBUS_CACHE_MASK \<Rightarrow> 'w \<Rightarrow> (XENBUS_CACHE_MASK \<times> 'w) kernel" where
  "destroy_objects Dtor Base Size 0 Constructed w = Some (Constructed, w)"
| "destroy_objects Dtor Base Size (Suc Index) Constructed w =
     do {
       t \<leftarrow> CacheMaskTest Constructed Index;
       (if t then
          do {
            w' \<leftarrow> Dtor (Base + SLAB_BUFFER + Index * Size) w;
            Constructed' \<leftarrow> CacheMaskClear Constructed Index;
            destroy_objects Dtor Base Size Index Constructed' w'
          }
        else destroy_objects Dtor Base Size Index Constructed w)
     }"

definition CacheDestroySlab :: "'w dtor \<Rightarrow> nat \<Rightarrow> XENBUS_CACHE \<Rightarrow> 'w \<Rightarrow> (XENBUS_CACHE \<times> 'w) kernel" where
  "CacheDestroySlab Dtor i c w =
     (let Slab = cache_SlabList c ! i in
      do {
        ASSERT (cache_Count c \<ge> capacity Slab);
        let c1 = c\<lparr>cache_Count := cache_Count c - capacity Slab\<rparr>;
        let Cursor = (if cache_Cursor c1 = Some i then flink (cache_SlabList c1) (Some i) else cache_Cursor c1);
        let c2 = c1\<lparr>cache_SlabList := remove_nth i (cache_SlabList c1), cache_Cursor := unlinked i Cursor\<rparr>;
        CacheAudit c2;
        (Constructed, w') \<leftarrow> destroy_objects Dtor (slab_Base Slab) (cache_Size c2)
                              (mask_Size (slab_Constructed Slab)) (slab_Constructed Slab) w;
        ASSERT (cache_CurrentSlabs c2 \<noteq> 0);
        let c3 = c2\<lparr>cache_CurrentSlabs := s32 (cache_CurrentSlabs c2 - 1)\<rparr>;
        CacheMaskDestroy (slab_Allocated Slab);
        CacheMaskDestroy Constructed;
        Some (c3, w')
      })"

text \<open>The result is the object, or 0.\<close>

definition CacheGetObjectFromSlab ::
  "'w ctor \<Rightarrow> nat \<Rightarrow> XENBUS_CACHE_SLAB \<Rightarrow> 'w \<Rightarrow> (nat \<times> XENBUS_CACHE_SLAB \<times> 'w) kernel" where
  "CacheGetObjectFromSlab Ctor Size Slab w =
     do {
       ASSERT (occupancy Slab \<le> capacity Slab);
       (if occupancy Slab = capacity Slab then Some (0, Slab, w)
        else
          let Start = (if occupancy Slab < mask_Count (slab_Constructed Slab) then 0
                       else mask_Count (slab_Constructed Slab));
              Index = first_from (\<lambda>i. CacheMaskTest (slab_Allocated Slab) i = Some False) Start (capacity Slab);
              Object = slab_Base Slab + SLAB_BUFFER + Index * Size
          in do {
            ASSERT (Index = (Object - (slab_Base Slab + SLAB_BUFFER)) div Size);
            t \<leftarrow> CacheMaskTest (slab_Constructed Slab) Index;
            (st, Slab1, w1) \<leftarrow>
              (if t then Some (STATUS_SUCCESS, Slab, w)
               else do {
                 (st, w') \<leftarrow> Ctor Object w;
                 (if \<not> NT_SUCCESS st then Some (st, Slab, w')
                  else do {
                    m \<leftarrow> CacheMaskSet (slab_Constructed Slab) Index;
                    Some (st, Slab\<lparr>slab_Constructed := m\<rparr>, w')
                  })
               });
            (if \<not> NT_SUCCESS st then Some (0, Slab1, w1)
             else do {
               m \<leftarrow> CacheMaskSet (slab_Allocated Slab1) Index;
               Some (Object, Slab1\<lparr>slab_Allocated := m\<rparr>, w1)
             })
          })
     }"

definition CachePutObjectToSlab :: "nat \<Rightarrow> XENBUS_CACHE_SLAB \<Rightarrow> nat \<Rightarrow> XENBUS_CACHE_SLAB kernel" where
  "CachePutObjectToSlab Size Slab Object =
     (let Index = (Object - (slab_Base Slab + SLAB_BUFFER)) div Size in
      do {
        ASSERT (Index < capacity Slab);
        m \<leftarrow> CacheMaskClear (slab_Allocated Slab) Index;
        Some (Slab\<lparr>slab_Allocated := m\<rparr>)
      })"

section \<open>Get and put\<close>

text \<open>The slab of an object: the one at its page, whose magic is then right.\<close>

fun find_slab :: "XENBUS_CACHE_SLAB list \<Rightarrow> nat \<Rightarrow> nat \<Rightarrow> nat kernel" where
  "find_slab [] Base i = BUG"
| "find_slab (s # ss) Base i = (if slab_Base s = Base then Some i else find_slab ss Base (Suc i))"

text \<open>The branch of \<^verbatim>\<open>CacheGet\<close> that takes an object from the slab under the cursor, slab \<open>i\<close>.\<close>

definition cache_take :: "'w ctor \<Rightarrow> nat \<Rightarrow> XENBUS_CACHE \<Rightarrow> 'w \<Rightarrow> (nat \<times> XENBUS_CACHE \<times> 'w) kernel" where
  "cache_take Ctor i c w =
     do {
       (Object, Slab, w') \<leftarrow> CacheGetObjectFromSlab Ctor (cache_Size c) (cache_SlabList c ! i) w;
       let c1 = c\<lparr>cache_SlabList := (cache_SlabList c)[i := Slab]\<rparr>;
       Some (Object,
             (if occupancy Slab = capacity Slab then c1\<lparr>cache_Cursor := flink (cache_SlabList c1) (Some i)\<rparr>
              else c1),
             w')
     }"

text \<open>The section of \<^verbatim>\<open>CacheGet\<close> under the cache's lock, from the label \<^verbatim>\<open>again\<close>.\<close>

definition cache_get_locked ::
  "'w ctor \<Rightarrow> slab_mem \<Rightarrow> XENBUS_CACHE \<Rightarrow> 'w \<Rightarrow> (nat \<times> XENBUS_CACHE \<times> 'w) kernel" where
  "cache_get_locked Ctor mem c w =
     (case cache_Cursor c of
        Some i \<Rightarrow> cache_take Ctor i c w
      | None \<Rightarrow>
          do {
            (st, c1) \<leftarrow> CacheCreateSlab mem c;
            (if NT_SUCCESS st then
               (case cache_Cursor c1 of None \<Rightarrow> BUG | Some i \<Rightarrow> cache_take Ctor i c1 w)
             else Some (0, c1, w))
          })"

definition count_get :: "nat \<Rightarrow> XENBUS_CACHE \<Rightarrow> XENBUS_CACHE" where
  "count_get Object c =
     (if Object = 0 then c
      else let ObjectCount = s32 (cache_CurrentObjects c + 1) in
           c\<lparr>cache_CurrentObjects := ObjectCount,
             cache_MaximumObjects := (if ObjectCount > cache_MaximumObjects c then ObjectCount
                                      else cache_MaximumObjects c)\<rparr>)"

definition CacheGet ::
  "'w ctor \<Rightarrow> slab_mem \<Rightarrow> nat \<Rightarrow> XENBUS_CACHE \<Rightarrow> 'w \<Rightarrow> (nat \<times> XENBUS_CACHE \<times> 'w) kernel" where
  "CacheGet Ctor mem Index c w =
     do {
       ASSERT (Index < cache_MagazineCount c);
       let (Object, M) = CacheGetObjectFromMagazine (cache_Magazine c ! Index);
       let c1 = c\<lparr>cache_Magazine := (cache_Magazine c)[Index := M]\<rparr>;
       (if Object \<noteq> 0 then Some (Object, count_get Object c1, w)
        else do {
          (Object, c2, w') \<leftarrow> cache_get_locked Ctor mem c1 w;
          CacheAudit c2;
          Some (Object, count_get Object c2, w')
        })
     }"

definition CachePut :: "nat \<Rightarrow> XENBUS_CACHE \<Rightarrow> nat \<Rightarrow> XENBUS_CACHE kernel" where
  "CachePut Index c Object =
     do {
       ASSERT (Object \<noteq> 0);
       ASSERT (Index < cache_MagazineCount c);
       let (st, M) = CachePutObjectToMagazine (cache_Magazine c ! Index) Object;
       let c1 = c\<lparr>cache_Magazine := (cache_Magazine c)[Index := M]\<rparr>;
       c2 \<leftarrow>
         (if NT_SUCCESS st then Some c1
          else do {
            i \<leftarrow> find_slab (cache_SlabList c1) (PAGE_ALIGN Object) 0;
            Slab \<leftarrow> CachePutObjectToSlab (cache_Size c1) (cache_SlabList c1 ! i) Object;
            c2 \<leftarrow> CacheInsertSlab (c1\<lparr>cache_SlabList := remove_nth i (cache_SlabList c1)\<rparr>) Slab;
            CacheAudit c2;
            Some c2
          });
       ASSERT (cache_CurrentObjects c2 \<noteq> 0);
       Some (c2\<lparr>cache_CurrentObjects := s32 (cache_CurrentObjects c2 - 1)\<rparr>)
     }"

section \<open>Filling, spilling and flushing\<close>

text \<open>
  The loops of \<^verbatim>\<open>CacheFill\<close> and \<^verbatim>\<open>CacheSpill\<close>: a run that never ends is \<^const>\<open>None\<close>, like a bug check.
  \<open>mems k\<close> is what the allocator answers in round \<open>k\<close>.
\<close>

partial_function (option) fill_loop ::
  "(nat \<Rightarrow> slab_mem) \<Rightarrow> nat \<Rightarrow> nat \<Rightarrow> XENBUS_CACHE \<Rightarrow> (NTSTATUS \<times> XENBUS_CACHE) kernel" where
  "fill_loop mems k Count c =
     (if cache_Count c < Count then
        Option.bind (CacheCreateSlab (mems k) c)
          (\<lambda>(st, c'). if \<not> NT_SUCCESS st then Some (st, c') else fill_loop mems (Suc k) Count c')
      else Some (STATUS_SUCCESS, c))"

definition CacheFill :: "(nat \<Rightarrow> slab_mem) \<Rightarrow> XENBUS_CACHE \<Rightarrow> nat \<Rightarrow> (NTSTATUS \<times> XENBUS_CACHE) kernel" where
  "CacheFill mems c Count =
     do {
       (st, c') \<leftarrow> fill_loop mems 0 Count c;
       CacheAudit c';
       Some (st, c')
     }"

partial_function (option) spill_loop ::
  "'w dtor \<Rightarrow> nat \<Rightarrow> XENBUS_CACHE \<Rightarrow> 'w \<Rightarrow> (XENBUS_CACHE \<times> 'w) kernel" where
  "spill_loop Dtor Count c w =
     (case blink (cache_SlabList c) None of
        None \<Rightarrow> Some (c, w)
      | Some i \<Rightarrow>
          (let Slab = cache_SlabList c ! i in
           if occupancy Slab \<noteq> 0 then Some (c, w)
           else if \<not> capacity Slab \<le> cache_Count c then BUG
           else if cache_Count c - capacity Slab < Count then Some (c, w)
           else Option.bind (CacheDestroySlab Dtor i c w) (\<lambda>(c', w'). spill_loop Dtor Count c' w')))"

definition CacheSpill :: "'w dtor \<Rightarrow> XENBUS_CACHE \<Rightarrow> 'w \<Rightarrow> nat \<Rightarrow> (XENBUS_CACHE \<times> 'w) kernel" where
  "CacheSpill Dtor c w Count =
     (if cache_Count c \<le> Count then Some (c, w)
      else do {
        (c', w') \<leftarrow> spill_loop Dtor Count c w;
        CacheAudit c';
        Some (c', w')
      })"

text \<open>
  \<^verbatim>\<open>__CacheFlushMagazines\<close>: the objects of a magazine go straight back to the masks of their slabs;
  the slab list keeps its order and the cursor its place. The inner loop takes at most one object
  out of every slot, so it is a recursion over that many rounds, which ends at the first \<^verbatim>\<open>NULL\<close>.
\<close>

primrec flush_magazine :: "nat \<Rightarrow> nat \<Rightarrow> XENBUS_CACHE \<Rightarrow> XENBUS_CACHE kernel" where
  "flush_magazine 0 Index c = Some c"
| "flush_magazine (Suc n) Index c =
     (let (Object, M) = CacheGetObjectFromMagazine (cache_Magazine c ! Index);
          c1 = c\<lparr>cache_Magazine := (cache_Magazine c)[Index := M]\<rparr>
      in if Object = 0 then Some c1
         else do {
           i \<leftarrow> find_slab (cache_SlabList c1) (PAGE_ALIGN Object) 0;
           Slab \<leftarrow> CachePutObjectToSlab (cache_Size c1) (cache_SlabList c1 ! i) Object;
           flush_magazine n Index (c1\<lparr>cache_SlabList := (cache_SlabList c1)[i := Slab]\<rparr>)
         })"

fun flush_magazines :: "nat list \<Rightarrow> XENBUS_CACHE \<Rightarrow> XENBUS_CACHE kernel" where
  "flush_magazines [] c = Some c"
| "flush_magazines (Index # Indices) c =
     Option.bind (flush_magazine (Suc XENBUS_CACHE_MAGAZINE_SLOTS) Index c) (flush_magazines Indices)"

definition CacheFlushMagazines :: "XENBUS_CACHE \<Rightarrow> XENBUS_CACHE kernel" where
  "CacheFlushMagazines c = flush_magazines [0 ..< cache_MagazineCount c] c"

section \<open>Creating and destroying caches\<close>

definition zero_CACHE :: XENBUS_CACHE where
  "zero_CACHE = \<lparr>cache_Name = '''', cache_Size = 0, cache_Reservation = 0, cache_Cap = 0,
     cache_SlabList = [], cache_Cursor = None, cache_Count = 0, cache_Magazine = [],
     cache_MagazineCount = 0, cache_CurrentSlabs = 0, cache_MaximumSlabs = 0,
     cache_CurrentObjects = 0, cache_MaximumObjects = 0\<rparr>"

text \<open>The label \<^verbatim>\<open>fail3\<close> of \<^verbatim>\<open>CacheCreate\<close> and what follows it; \<open>st\<close> is the status to return.\<close>

definition create_fail3 :: "NTSTATUS \<Rightarrow> XENBUS_CACHE \<Rightarrow> (NTSTATUS \<times> XENBUS_CACHE option) kernel" where
  "create_fail3 st c =
     do {
       ASSERT (cache_SlabList c = []);
       let c1 = c\<lparr>cache_Cursor := None, cache_Cap := 0, cache_Reservation := 0, cache_Size := 0,
                  cache_Name := ''''\<rparr>;
       ASSERT (c1 = zero_CACHE);
       Some (st, None)
     }"

text \<open>
  \<^verbatim>\<open>CacheCreate\<close>: \<open>mem\<close> for the cache, \<open>fmt\<close> for the name, \<open>mems\<close> for the slabs, \<open>mag\<close> for the
  magazines of the \<open>cpus\<close> processors. Linking it into the context is left to the caller.
\<close>

definition CacheCreate ::
  "bool \<Rightarrow> NTSTATUS \<Rightarrow> (nat \<Rightarrow> slab_mem) \<Rightarrow> bool \<Rightarrow> nat \<Rightarrow> 'w dtor \<Rightarrow>
     string \<Rightarrow> nat \<Rightarrow> nat \<Rightarrow> nat \<Rightarrow> 'w \<Rightarrow> (NTSTATUS \<times> XENBUS_CACHE option) kernel" where
  "CacheCreate mem fmt mems mag cpus Dtor Name Size Reservation Cap w =
     do {
       ASSERT (Size \<noteq> 0);
       (if \<not> mem then Some (STATUS_NO_MEMORY, None)
        else if \<not> NT_SUCCESS fmt then Some (fmt, None)
        else
          let Size' = unat (P2ROUNDUP (of_nat Size) 8);
              Cap' = (if Cap = 0 then 2 ^ 32 - 1 else Cap);
              c = zero_CACHE\<lparr>cache_Name := Name, cache_Size := Size', cache_Reservation := Reservation,
                             cache_Cap := Cap'\<rparr>
          in if cache_Reservation c > cache_Cap c then create_fail3 STATUS_INVALID_PARAMETER c
          else do {
            (st, c1) \<leftarrow> CacheFill mems c (cache_Reservation c);
            (if \<not> NT_SUCCESS st then create_fail3 st c1
             else
               let c2 = c1\<lparr>cache_MagazineCount := cpus\<rparr> in
               if \<not> mag then
                 do {
                   (c3, w') \<leftarrow> CacheSpill Dtor (c2\<lparr>cache_MagazineCount := 0\<rparr>) w 0;
                   create_fail3 STATUS_NO_MEMORY c3
                 }
               else Some (STATUS_SUCCESS,
                      Some (c2\<lparr>cache_Magazine := replicate cpus (replicate XENBUS_CACHE_MAGAZINE_SLOTS 0)\<rparr>)))
          })
     }"

definition CacheDestroy :: "'w dtor \<Rightarrow> XENBUS_CACHE \<Rightarrow> 'w \<Rightarrow> 'w kernel" where
  "CacheDestroy Dtor c w =
     do {
       c1 \<leftarrow> CacheFlushMagazines c;
       ASSERT (\<forall>M \<in> set (take (cache_MagazineCount c1) (cache_Magazine c1)). \<forall>o' \<in> set M. o' = 0);
       let c2 = c1\<lparr>cache_Magazine := [], cache_MagazineCount := 0\<rparr>;
       (c3, w') \<leftarrow> CacheSpill Dtor c2 w 0;
       ASSERT (cache_CurrentObjects c3 = 0);
       ASSERT (cache_CurrentSlabs c3 = 0);
       ASSERT (cache_SlabList c3 = []);
       let c4 = c3\<lparr>cache_MaximumObjects := 0, cache_MaximumSlabs := 0, cache_Cursor := None,
                   cache_Cap := 0, cache_Reservation := 0, cache_Size := 0, cache_Name := ''''\<rparr>;
       ASSERT (c4 = zero_CACHE);
       Some w'
     }"

section \<open>The context\<close>

text \<open>
  The context keeps the caches; the debug interface and its callback are held while there are users
  (\<open>acq\<close> and \<open>reg\<close> are the statuses of acquiring them).
\<close>

record XENBUS_CACHE_CONTEXT =
  cc_References :: int
  cc_Debug :: bool
  cc_DebugCallback :: bool
  cc_List :: "XENBUS_CACHE list"

text \<open>What one wake-up of \<^verbatim>\<open>CacheMonitor\<close> does to a cache: fill it up to its reservation or halve it.\<close>

definition monitor_cache :: "(nat \<Rightarrow> slab_mem) \<Rightarrow> 'w dtor \<Rightarrow> XENBUS_CACHE \<Rightarrow> 'w \<Rightarrow> (XENBUS_CACHE \<times> 'w) kernel" where
  "monitor_cache mems Dtor c w =
     (if cache_Count c < cache_Reservation c then
        Option.bind (CacheFill mems c (cache_Reservation c)) (\<lambda>(_, c'). Some (c', w))
      else if cache_Count c > cache_Reservation c then
        CacheSpill Dtor c w (max (cache_Reservation c) (cache_Count c div 2))
      else Some (c, w))"

text \<open>The loop over the context's caches, the \<open>k\<close>-th with its own destructor and allocations.\<close>

fun monitor_caches ::
  "(nat \<Rightarrow> nat \<Rightarrow> slab_mem) \<Rightarrow> (nat \<Rightarrow> 'w dtor) \<Rightarrow> nat \<Rightarrow> XENBUS_CACHE list \<Rightarrow> 'w \<Rightarrow>
     (XENBUS_CACHE list \<times> 'w) kernel" where
  "monitor_caches mems Dtor k [] w = Some ([], w)"
| "monitor_caches mems Dtor k (c # cs) w =
     do {
       (c', w1) \<leftarrow> monitor_cache (mems k) (Dtor k) c w;
       (cs', w2) \<leftarrow> monitor_caches mems Dtor (Suc k) cs w1;
       Some (c' # cs', w2)
     }"

definition CacheMonitor ::
  "(nat \<Rightarrow> nat \<Rightarrow> slab_mem) \<Rightarrow> (nat \<Rightarrow> 'w dtor) \<Rightarrow> XENBUS_CACHE_CONTEXT \<Rightarrow> 'w \<Rightarrow>
     (XENBUS_CACHE_CONTEXT \<times> 'w) kernel" where
  "CacheMonitor mems Dtor ctx w =
     (if cc_References ctx = 0 then Some (ctx, w)
      else Option.bind (monitor_caches mems Dtor 0 (cc_List ctx) w)
             (\<lambda>(cs, w'). Some (ctx\<lparr>cc_List := cs\<rparr>, w')))"

definition CacheAcquire ::
  "NTSTATUS \<Rightarrow> NTSTATUS \<Rightarrow> XENBUS_CACHE_CONTEXT \<Rightarrow> (NTSTATUS \<times> XENBUS_CACHE_CONTEXT) kernel" where
  "CacheAcquire acq reg ctx =
     (let ctx1 = ctx\<lparr>cc_References := cc_References ctx + 1\<rparr> in
      if cc_References ctx \<noteq> 0 then Some (STATUS_SUCCESS, ctx1)
      else if \<not> NT_SUCCESS acq then
        do {
          let ctx2 = ctx1\<lparr>cc_References := cc_References ctx1 - 1\<rparr>;
          ASSERT (cc_References ctx2 = 0);
          Some (acq, ctx2)
        }
      else let ctx2 = ctx1\<lparr>cc_Debug := True\<rparr> in
      if \<not> NT_SUCCESS reg then
        do {
          let ctx3 = ctx2\<lparr>cc_Debug := False, cc_References := cc_References ctx2 - 1\<rparr>;
          ASSERT (cc_References ctx3 = 0);
          Some (reg, ctx3)
        }
      else Some (STATUS_SUCCESS, ctx2\<lparr>cc_DebugCallback := True\<rparr>))"

definition CacheRelease :: "XENBUS_CACHE_CONTEXT \<Rightarrow> XENBUS_CACHE_CONTEXT kernel" where
  "CacheRelease ctx =
     (let ctx1 = ctx\<lparr>cc_References := cc_References ctx - 1\<rparr> in
      if 0 < cc_References ctx1 then Some ctx1
      else if cc_List ctx1 \<noteq> [] then BUG
      else Some (ctx1\<lparr>cc_DebugCallback := False, cc_Debug := False\<rparr>))"

declare fill_loop.simps [code] spill_loop.simps [code]

section \<open>Masks as sets of indices\<close>

definition mask_bits :: "XENBUS_CACHE_MASK \<Rightarrow> nat set" where
  "mask_bits m = {b. b < mask_Size m \<and> bit (mask_Mask m ! (b div 32)) (b mod 32)}"

definition mask_wf :: "XENBUS_CACHE_MASK \<Rightarrow> bool" where
  "mask_wf m \<longleftrightarrow> mask_Size m \<le> 32 * length (mask_Mask m) \<and> mask_Count m = card (mask_bits m)"

lemma mask_bits_finite [simp]: "finite (mask_bits m)"
  by (simp add: mask_bits_def)

lemma mask_bits_less: "b \<in> mask_bits m \<Longrightarrow> b < mask_Size m"
  by (simp add: mask_bits_def)

lemma mask_bits_sub: "mask_bits m \<subseteq> {0 ..< mask_Size m}"
  by (auto simp: mask_bits_def)

lemma mask_count_le: "mask_wf m \<Longrightarrow> mask_Count m \<le> mask_Size m"
  using card_mono [OF _ mask_bits_sub [of m]] by (simp add: mask_wf_def)

lemma mask_full: "mask_wf m \<Longrightarrow> mask_Count m = mask_Size m \<longleftrightarrow> mask_bits m = {0 ..< mask_Size m}"
  using card_subset_eq [OF _ mask_bits_sub [of m]] by (auto simp: mask_wf_def)

lemma and_push_bit: "w AND push_bit k 1 = 0 \<longleftrightarrow> \<not> bit w k" for w :: "'a::len word"
  using bit_iff_and_push_bit_not_eq_0 [of w k] by simp

lemma and_exp: "w AND 2 ^ k = 0 \<longleftrightarrow> \<not> bit w k" for w :: "'a::len word"
  using and_push_bit [of w k] by simp

lemma CacheMaskTest_bits: "b < mask_Size m \<Longrightarrow> CacheMaskTest m b = Some (b \<in> mask_bits m)"
  by (simp add: CacheMaskTest_def BITS_PER_ULONG_def and_exp mask_bits_def)

lemma mask_word_less: "mask_wf m \<Longrightarrow> b < mask_Size m \<Longrightarrow> b div 32 < length (mask_Mask m)"
  unfolding mask_wf_def by linarith

lemma div_mod_32_eq: "(x::nat) = b \<longleftrightarrow> x div 32 = b div 32 \<and> x mod 32 = b mod 32"
  by (metis div_mult_mod_eq)

lemma CacheMaskSet_bits:
  assumes "mask_wf m" and "b < mask_Size m" and "b \<notin> mask_bits m"
  shows "\<exists>m'. CacheMaskSet m b = Some m' \<and> mask_wf m' \<and> mask_Size m' = mask_Size m \<and>
           mask_bits m' = insert b (mask_bits m) \<and> mask_Count m' = Suc (mask_Count m)"
proof -
  let ?i = "b div 32" and ?v = "2 ^ (b mod 32) :: 32 word"
  let ?m = "m\<lparr>mask_Mask := (mask_Mask m)[?i := mask_Mask m ! ?i OR ?v], mask_Count := mask_Count m + 1\<rparr>"
  have len: "?i < length (mask_Mask m)" by (rule mask_word_less [OF assms(1,2)])
  have bit_v: "bit ?v n \<longleftrightarrow> n = b mod 32" for n by (auto simp: bit_simps)
  have bits: "mask_bits ?m = insert b (mask_bits m)"
  proof (rule set_eqI)
    fix x show "x \<in> mask_bits ?m \<longleftrightarrow> x \<in> insert b (mask_bits m)"
      using assms(2) len div_mod_32_eq [of x b]
      by (cases "x div 32 = ?i") (auto simp: mask_bits_def bit_or_iff bit_v)
  qed
  have "mask_bits m \<subset> {0 ..< mask_Size m}" using assms(2,3) mask_bits_sub [of m] by auto
  then have "mask_Count m < mask_Size m"
    using assms(1) psubset_card_mono [of "{0 ..< mask_Size m}" "mask_bits m"] by (simp add: mask_wf_def)
  moreover have "mask_Mask m ! ?i AND ?v = 0" using assms(2,3) by (simp add: and_exp mask_bits_def)
  ultimately have "CacheMaskSet m b = Some ?m"
    using assms(2) by (simp add: CacheMaskSet_def BITS_PER_ULONG_def Let_def)
  moreover have "mask_wf ?m" using assms(1,3) bits by (simp add: mask_wf_def)
  ultimately show ?thesis using bits by auto
qed

lemma CacheMaskClear_bits:
  assumes "mask_wf m" and "b \<in> mask_bits m"
  shows "\<exists>m'. CacheMaskClear m b = Some m' \<and> mask_wf m' \<and> mask_Size m' = mask_Size m \<and>
           mask_bits m' = mask_bits m - {b} \<and> mask_Count m = Suc (mask_Count m')"
proof -
  let ?i = "b div 32" and ?v = "2 ^ (b mod 32) :: 32 word"
  let ?m = "m\<lparr>mask_Mask := (mask_Mask m)[?i := mask_Mask m ! ?i AND NOT ?v], mask_Count := mask_Count m - 1\<rparr>"
  have b: "b < mask_Size m" using assms(2) by (rule mask_bits_less)
  have len: "?i < length (mask_Mask m)" by (rule mask_word_less [OF assms(1) b])
  have bit_v: "bit (NOT ?v) n \<longleftrightarrow> n < 32 \<and> n \<noteq> b mod 32" for n by (auto simp: bit_simps)
  have bits: "mask_bits ?m = mask_bits m - {b}"
  proof (rule set_eqI)
    fix x show "x \<in> mask_bits ?m \<longleftrightarrow> x \<in> mask_bits m - {b}"
      using b len div_mod_32_eq [of x b]
      by (cases "x div 32 = ?i") (auto simp: mask_bits_def bit_and_iff bit_v)
  qed
  have "0 < card (mask_bits m)" using assms(2) by (auto simp: card_gt_0_iff)
  then have count: "0 < mask_Count m" using assms(1) by (simp add: mask_wf_def)
  moreover have "mask_Mask m ! ?i AND ?v \<noteq> 0" using assms(2) by (simp add: and_exp mask_bits_def)
  ultimately have "CacheMaskClear m b = Some ?m"
    using b by (simp add: CacheMaskClear_def BITS_PER_ULONG_def Let_def)
  moreover have "mask_wf ?m" using assms bits count by (simp add: mask_wf_def)
  ultimately show ?thesis using bits count by auto
qed

lemma CacheMaskCreate_bits:
  assumes "0 < Size" and "Size + 32 \<le> 2 ^ 32"
  shows "\<exists>m. CacheMaskCreate True Size = Some m \<and> mask_wf m \<and> mask_Size m = Size \<and> mask_bits m = {} \<and>
           mask_Count m = 0"
proof -
  let ?r = "unat (P2ROUNDUP (of_nat Size) (2 ^ 5))"
  have r: "Size \<le> ?r" "2 ^ 5 dvd ?r" using assms by (rule_tac [!] P2ROUNDUP_bounds) simp_all
  then have len: "Size \<le> 32 * (?r div 8 div 4)" by auto
  let ?m = "\<lparr>mask_Size = Size, mask_Count = 0, mask_Mask = replicate (?r div 8 div 4) 0\<rparr>"
  have "b div 32 < ?r div 8 div 4" if "b < Size" for b using that len by linarith
  then have "mask_bits ?m = {}" by (auto simp: mask_bits_def)
  moreover from this have "mask_wf ?m" using len by (simp add: mask_wf_def)
  moreover have "CacheMaskCreate True Size = Some ?m" by (simp add: CacheMaskCreate_def BITS_PER_ULONG_def)
  ultimately show ?thesis by (intro exI [of _ ?m]) simp
qed

section \<open>Magazines as lists with holes\<close>

lemma magazine_get:
  assumes "length M = XENBUS_CACHE_MAGAZINE_SLOTS"
  obtains (empty) "CacheGetObjectFromMagazine M = (0, M)" "\<forall>x \<in> set M. x = 0"
  | (full) ys x zs where "CacheGetObjectFromMagazine M = (x, ys @ 0 # zs)" "M = ys @ x # zs" "x \<noteq> 0"
      "\<forall>y \<in> set ys. y = 0"
proof -
  let ?P = "\<lambda>i. M ! i \<noteq> 0" and ?n = XENBUS_CACHE_MAGAZINE_SLOTS
  define k where "k = first_from ?P 0 ?n"
  have k: "k \<le> ?n" "\<And>j. j < k \<Longrightarrow> M ! j = 0" "k < ?n \<Longrightarrow> M ! k \<noteq> 0"
    using first_from_spec [of 0 ?n ?P] unfolding k_def [symmetric] by auto
  show thesis
  proof (cases "k < ?n")
    case True
    with assms have "k < length M" by simp
    then obtain ys x zs where M: "M = ys @ x # zs" "length ys = k" "M ! k = x" by (rule split_at)
    have "y = 0" if "y \<in> set ys" for y
    proof -
      obtain j where "j < k" "y = ys ! j" using \<open>y \<in> set ys\<close> M(2) by (auto simp: in_set_conv_nth)
      with k(2) [of j] M show ?thesis by (simp add: nth_append)
    qed
    have "CacheGetObjectFromMagazine M = (M ! k, M[k := 0])"
      unfolding CacheGetObjectFromMagazine_def Let_def k_def [symmetric] using True by simp
    moreover have "M[k := 0] = ys @ 0 # zs" using M(1,2) by auto
    ultimately have "CacheGetObjectFromMagazine M = (x, ys @ 0 # zs)" using M(3) by simp
    moreover have "x \<noteq> 0" using M(3) k(3) [OF True] by simp
    ultimately show thesis using M(1) by (intro full [of x ys zs]) (simp_all add: \<open>\<And>y. y \<in> set ys \<Longrightarrow> y = 0\<close>)
  next
    case False
    with k assms have "\<forall>x \<in> set M. x = 0" by (auto simp: in_set_conv_nth)
    moreover have "CacheGetObjectFromMagazine M = (0, M)"
      unfolding CacheGetObjectFromMagazine_def Let_def k_def [symmetric] using False by simp
    ultimately show thesis by (intro empty)
  qed
qed

lemma magazine_put:
  assumes "length M = XENBUS_CACHE_MAGAZINE_SLOTS"
  obtains (full) "CachePutObjectToMagazine M x = (STATUS_UNSUCCESSFUL, M)" "\<forall>y \<in> set M. y \<noteq> 0"
  | (room) ys zs where "CachePutObjectToMagazine M x = (STATUS_SUCCESS, ys @ x # zs)" "M = ys @ 0 # zs"
proof -
  let ?P = "\<lambda>i. M ! i = 0" and ?n = XENBUS_CACHE_MAGAZINE_SLOTS
  define k where "k = first_from ?P 0 ?n"
  have k: "k \<le> ?n" "\<And>j. j < k \<Longrightarrow> M ! j \<noteq> 0" "k < ?n \<Longrightarrow> M ! k = 0"
    using first_from_spec [of 0 ?n ?P] unfolding k_def [symmetric] by auto
  show thesis
  proof (cases "k < ?n")
    case True
    with assms have "k < length M" by simp
    then obtain ys z zs where M: "M = ys @ z # zs" "length ys = k" "M ! k = z" by (rule split_at)
    have z: "z = 0" using M(3) k(3) [OF True] by simp
    have "CachePutObjectToMagazine M x = (STATUS_SUCCESS, M[k := x])"
      unfolding CachePutObjectToMagazine_def Let_def k_def [symmetric] using True by simp
    moreover have "M[k := x] = ys @ x # zs" using M(1,2) by auto
    ultimately show thesis using room [of ys zs] M(1) by (simp only: z)
  next
    case False
    with k assms have "\<forall>y \<in> set M. y \<noteq> 0" by (auto simp: in_set_conv_nth)
    moreover have "CachePutObjectToMagazine M x = (STATUS_UNSUCCESSFUL, M)"
      unfolding CachePutObjectToMagazine_def Let_def k_def [symmetric] using False by simp
    ultimately show thesis by (intro full)
  qed
qed

section \<open>The order of the slab list\<close>

definition order_ok :: "XENBUS_CACHE_SLAB list \<Rightarrow> bool" where
  "order_ok ss \<longleftrightarrow> sorted_wrt (\<lambda>a b. occupancy b \<le> occupancy a) ss"

text \<open>The index of the first slab with room.\<close>

fun first_free :: "XENBUS_CACHE_SLAB list \<Rightarrow> ptr" where
  "first_free [] = None"
| "first_free (s # ss) = (if occupancy s < capacity s then Some 0 else map_option Suc (first_free ss))"

lemma order_ok_simps [simp]:
  "order_ok []"
  "order_ok (s # ss) \<longleftrightarrow> (\<forall>t \<in> set ss. occupancy t \<le> occupancy s) \<and> order_ok ss"
  "order_ok (ys @ zs) \<longleftrightarrow> order_ok ys \<and> order_ok zs \<and> (\<forall>y \<in> set ys. \<forall>z \<in> set zs. occupancy z \<le> occupancy y)"
  by (auto simp: order_ok_def sorted_wrt_append)

lemma first_free_append [simp]:
  "first_free (ys @ zs) = (case first_free ys of Some k \<Rightarrow> Some k
                           | None \<Rightarrow> map_option (\<lambda>k. length ys + k) (first_free zs))"
  by (cases "first_free zs"; induction ys) (auto split: option.splits)

lemma first_free_NoneD: "first_free ss = None \<Longrightarrow> s \<in> set ss \<Longrightarrow> \<not> occupancy s < capacity s"
  by (induction ss) (auto split: if_splits)

lemma first_free_SomeD:
  "first_free ss = Some i \<Longrightarrow> \<exists>ys s zs. ss = ys @ s # zs \<and> length ys = i \<and> occupancy s < capacity s \<and>
     first_free ys = None"
proof (induction ss arbitrary: i)
  case (Cons s ss)
  show ?case
  proof (cases "occupancy s < capacity s")
    case True
    with Cons.prems show ?thesis by (intro exI [of _ "[]"]) auto
  next
    case False
    with Cons.prems obtain j where "first_free ss = Some j" "i = Suc j" by auto
    with Cons.IH [of j] obtain ys t zs where "ss = ys @ t # zs" "length ys = j"
      "occupancy t < capacity t" "first_free ys = None" by blast
    with False \<open>i = Suc j\<close> show ?thesis by (intro exI [of _ "s # ys"]) auto
  qed
qed simp

lemma audit_cursor_iff: "audit_cursor ss i p \<longleftrightarrow> (case first_free ss of None \<Rightarrow> True | Some k \<Rightarrow> p = Some (i + k))"
  by (induction ss arbitrary: i) (auto split: option.splits)

lemma audit_order_iff: "audit_order ss n \<longleftrightarrow> order_ok ss \<and> (\<forall>s \<in> set ss. occupancy s \<le> n)"
  by (induction ss arbitrary: n) auto

lemma CacheAudit_ok:
  assumes "cache_Cursor c = first_free (cache_SlabList c)" and "order_ok (cache_SlabList c)"
    and "\<forall>s \<in> set (cache_SlabList c). occupancy s \<le> 2 ^ 32 - 1"
  shows "CacheAudit c = Some ()"
  using assms unfolding CacheAudit_def
  by (simp add: audit_cursor_iff audit_order_iff ASSERT_def split: option.splits)

lemma insert_scan_spec:
  "\<exists>ys zs. ss = ys @ zs \<and> (\<forall>y \<in> set ys. occupancy New \<le> occupancy y) \<and>
     (zs \<noteq> [] \<longrightarrow> occupancy (hd zs) < occupancy New) \<and>
     insert_scan ss New i cur =
       (if zs = [] then None else Some (i + length ys),
        case cur of Some j \<Rightarrow> Some j | None \<Rightarrow> map_option (\<lambda>k. i + k) (first_free ys))"
proof (induction ss arbitrary: i cur)
  case (Cons s ss)
  show ?case
  proof (cases "occupancy s < occupancy New")
    case True
    then show ?thesis by (intro exI [of _ "[]"] exI [of _ "s # ss"]) (auto split: option.splits)
  next
    case False
    let ?cur = "if occupancy s < capacity s \<and> cur = None then Some i else cur"
    from Cons.IH [of "Suc i" ?cur] obtain ys zs where IH: "ss = ys @ zs"
      "\<forall>y \<in> set ys. occupancy New \<le> occupancy y" "zs \<noteq> [] \<longrightarrow> occupancy (hd zs) < occupancy New"
      "insert_scan ss New (Suc i) ?cur = (if zs = [] then None else Some (Suc i + length ys),
         case ?cur of Some j \<Rightarrow> Some j | None \<Rightarrow> map_option (\<lambda>k. Suc i + k) (first_free ys))" by blast
    have "insert_scan (s # ss) New i cur =
       (if zs = [] then None else Some (i + length (s # ys)),
        case cur of Some j \<Rightarrow> Some j | None \<Rightarrow> map_option (\<lambda>k. i + k) (first_free (s # ys)))"
      using False IH(4)
      by (cases cur; cases "occupancy s < capacity s"; cases "first_free ys"; cases "zs = []") simp_all
    with False IH(1-3) show ?thesis by (intro exI [of _ "s # ys"] exI [of _ zs]) auto
  qed
qed (auto split: option.splits)

lemma map_option_add_0: "map_option ((+) (0::nat)) p = p"
  by (cases p) simp_all

lemma CacheInsertSlab_law:
  assumes "order_ok (cache_SlabList c)" and "occupancy New < capacity New"
  obtains ys zs where "cache_SlabList c = ys @ zs" and "order_ok (ys @ New # zs)"
    and "CacheInsertSlab c New = Some (c\<lparr>cache_SlabList := ys @ New # zs, cache_Cursor := first_free (ys @ New # zs)\<rparr>)"
proof -
  from insert_scan_spec [of "cache_SlabList c" New 0 None] obtain ys zs where
    s: "cache_SlabList c = ys @ zs" "\<forall>y \<in> set ys. occupancy New \<le> occupancy y"
    "zs \<noteq> [] \<longrightarrow> occupancy (hd zs) < occupancy New"
    and scan0: "insert_scan (cache_SlabList c) New 0 None =
       (if zs = [] then None else Some (0 + length ys),
        case None of Some j \<Rightarrow> Some j | None \<Rightarrow> map_option (\<lambda>k. 0 + k) (first_free ys))" by blast
  from scan0 have scan: "insert_scan (cache_SlabList c) New 0 None =
       (if zs = [] then None else Some (length ys), first_free ys)"
    by (simp add: map_option_add_0)
  have "order_ok (ys @ New # zs)"
    using assms(1) s by (cases zs) fastforce+
  moreover have "insert_before (cache_SlabList c) (if zs = [] then None else Some (length ys)) New =
      (ys @ New # zs, length ys)"
    using s(1) by simp
  ultimately show thesis
    using s(1) scan assms(2) that [of ys zs]
    by (simp add: CacheInsertSlab_def split: option.splits)
qed

section \<open>Objects and their addresses\<close>

definition object_at :: "nat \<Rightarrow> nat \<Rightarrow> nat \<Rightarrow> nat" where
  "object_at Size Base i = Base + SLAB_BUFFER + i * Size"

text \<open>The object sizes for which every object of a slab starts in the slab's first page.\<close>

definition size_ok :: "nat \<Rightarrow> bool" where
  "size_ok Size \<longleftrightarrow> 0 < Size \<and> 0 < slab_objects Size \<and> slab_objects Size < 2 ^ 31 \<and>
     SLAB_BUFFER + (slab_objects Size - 1) * Size < PAGE_SIZE"

definition base_ok :: "nat \<Rightarrow> bool" where
  "base_ok Base \<longleftrightarrow> PAGE_ALIGN Base = Base \<and> Base \<noteq> 0"

lemma PAGE_ALIGN_object:
  assumes "size_ok Size" and "base_ok Base" and "i < slab_objects Size"
  shows "PAGE_ALIGN (object_at Size Base i) = Base"
proof -
  have "i * Size \<le> (slab_objects Size - 1) * Size" using assms(3) by (intro mult_right_mono) simp_all
  moreover have "SLAB_BUFFER + (slab_objects Size - 1) * Size < PAGE_SIZE" using assms(1) by (simp only: size_ok_def)
  ultimately have less: "SLAB_BUFFER + i * Size < PAGE_SIZE" by linarith
  have "Base mod PAGE_SIZE = 0"
  proof -
    have "Base - Base mod PAGE_SIZE = Base" "Base \<noteq> 0" using assms(2) by (simp_all add: base_ok_def PAGE_ALIGN_def)
    then show ?thesis by simp
  qed
  with less have "object_at Size Base i mod PAGE_SIZE = SLAB_BUFFER + i * Size"
    unfolding object_at_def by (metis add.assoc mod_add_left_eq add_0 mod_less)
  then show ?thesis by (simp add: PAGE_ALIGN_def object_at_def)
qed

lemma object_index: "0 < Size \<Longrightarrow> (object_at Size Base i - (Base + SLAB_BUFFER)) div Size = i"
  by (simp add: object_at_def)

lemma object_at_inj: "0 < Size \<Longrightarrow> object_at Size Base i = object_at Size Base j \<longleftrightarrow> i = j"
  by (simp add: object_at_def)

lemma object_nonzero [simp]: "object_at Size Base i \<noteq> 0"
  by (simp add: object_at_def SLAB_BUFFER_def)

section \<open>Slabs\<close>

text \<open>
  A slab of \<open>n\<close> objects: both masks have that size, only constructed objects are allocated, and the
  constructed ones are the first ones of the slab.
\<close>

definition slab_wf :: "nat \<Rightarrow> XENBUS_CACHE_SLAB \<Rightarrow> bool" where
  "slab_wf n s \<longleftrightarrow> mask_Size (slab_Constructed s) = n \<and> capacity s = n \<and>
     mask_wf (slab_Constructed s) \<and> mask_wf (slab_Allocated s) \<and>
     mask_bits (slab_Allocated s) \<subseteq> mask_bits (slab_Constructed s) \<and>
     mask_bits (slab_Constructed s) = {0 ..< mask_Count (slab_Constructed s)} \<and> base_ok (slab_Base s)"

definition allocated_in :: "nat \<Rightarrow> XENBUS_CACHE_SLAB \<Rightarrow> nat set" where
  "allocated_in Size s = object_at Size (slab_Base s) ` mask_bits (slab_Allocated s)"

definition constructed_in :: "nat \<Rightarrow> XENBUS_CACHE_SLAB \<Rightarrow> nat set" where
  "constructed_in Size s = object_at Size (slab_Base s) ` mask_bits (slab_Constructed s)"

text \<open>
  What the client's callbacks must do, with \<open>P X w\<close> for \<open>w\<close> being a client state in which the
  objects of \<open>X\<close> are constructed: the constructor works on an object that is not constructed and
  either constructs it or changes nothing, the destructor works on a constructed one.
\<close>

definition ctor_ok :: "(nat set \<Rightarrow> 'w \<Rightarrow> bool) \<Rightarrow> 'w ctor \<Rightarrow> bool" where
  "ctor_ok P Ctor \<longleftrightarrow> (\<forall>X x w. P X w \<longrightarrow> x \<notin> X \<longrightarrow>
     (\<exists>st w'. Ctor x w = Some (st, w') \<and> P (if NT_SUCCESS st then insert x X else X) w'))"

definition dtor_ok :: "(nat set \<Rightarrow> 'w \<Rightarrow> bool) \<Rightarrow> 'w dtor \<Rightarrow> bool" where
  "dtor_ok P Dtor \<longleftrightarrow> (\<forall>X x w. P X w \<longrightarrow> x \<in> X \<longrightarrow> (\<exists>w'. Dtor x w = Some w' \<and> P (X - {x}) w'))"

lemma ctor_okD:
  "ctor_ok P Ctor \<Longrightarrow> P X w \<Longrightarrow> x \<notin> X \<Longrightarrow>
     \<exists>st w'. Ctor x w = Some (st, w') \<and> P (if NT_SUCCESS st then insert x X else X) w'"
  by (simp add: ctor_ok_def)

lemma dtor_okD:
  "dtor_ok P Dtor \<Longrightarrow> P X w \<Longrightarrow> x \<in> X \<Longrightarrow> \<exists>w'. Dtor x w = Some w' \<and> P (X - {x}) w'"
  by (simp add: dtor_ok_def)

lemma slab_wfD:
  assumes "slab_wf n s"
  shows "mask_Size (slab_Constructed s) = n" "capacity s = n" "mask_wf (slab_Constructed s)"
    "mask_wf (slab_Allocated s)" "mask_bits (slab_Allocated s) \<subseteq> mask_bits (slab_Constructed s)"
    "mask_bits (slab_Constructed s) = {0 ..< mask_Count (slab_Constructed s)}" "base_ok (slab_Base s)"
    "occupancy s \<le> n" "mask_Count (slab_Constructed s) \<le> n"
  using assms mask_count_le [of "slab_Allocated s"] mask_count_le [of "slab_Constructed s"]
  by (auto simp: slab_wf_def)

text \<open>The search of \<^verbatim>\<open>CacheGetObjectFromSlab\<close> finds a free object, a constructed one if there is one.\<close>

lemma slab_free_index:
  assumes wf: "slab_wf n s" and room: "occupancy s < n"
  defines "i \<equiv> first_from (\<lambda>i. CacheMaskTest (slab_Allocated s) i = Some False)
      (if occupancy s < mask_Count (slab_Constructed s) then 0 else mask_Count (slab_Constructed s)) n"
  shows "i < n" and "i \<notin> mask_bits (slab_Allocated s)"
    and "i \<notin> mask_bits (slab_Constructed s) \<longrightarrow> i = mask_Count (slab_Constructed s)"
proof -
  let ?A = "mask_bits (slab_Allocated s)" and ?k = "mask_Count (slab_Constructed s)"
  let ?P = "\<lambda>i. CacheMaskTest (slab_Allocated s) i = Some False"
  note w = slab_wfD [OF wf]
  have A: "?A \<subseteq> {0 ..< ?k}" "card ?A = occupancy s" using w by (auto simp: mask_wf_def)
  have P: "?P j \<longleftrightarrow> j \<notin> ?A" if "j < n" for j using that w(2) by (simp add: CacheMaskTest_bits)
  have "\<exists>j. (if occupancy s < ?k then 0 else ?k) \<le> j \<and> j < n \<and> j \<notin> ?A \<and>
      (\<forall>m. (if occupancy s < ?k then 0 else ?k) \<le> m \<longrightarrow> m < j \<longrightarrow> m \<in> ?A) \<and> (j \<notin> {0 ..< ?k} \<longrightarrow> j = ?k)"
  proof (cases "occupancy s < ?k")
    case True
    then have "?A \<noteq> {0 ..< ?k}" using A(2) by auto
    with A(1) have ex: "\<exists>j. j < ?k \<and> j \<notin> ?A" by fastforce
    define j where "j = (LEAST j. j < ?k \<and> j \<notin> ?A)"
    have j: "j < ?k" "j \<notin> ?A" using LeastI_ex [OF ex] by (simp_all add: j_def)
    moreover have "m \<in> ?A" if "m < j" for m
      using not_less_Least [of m "\<lambda>j. j < ?k \<and> j \<notin> ?A"] that j(1) by (auto simp: j_def [symmetric])
    ultimately show ?thesis using True w(9) by (intro exI [of _ j]) auto
  next
    case False
    have "card ?A \<le> ?k" using A(1) card_mono [of "{0 ..< ?k}" ?A] by simp
    with False room have "?k < n" using A(2) by simp
    with False A(1) show ?thesis by (intro exI [of _ ?k]) auto
  qed
  then obtain j where j: "(if occupancy s < ?k then 0 else ?k) \<le> j" "j < n" "j \<notin> ?A"
      "\<forall>m. (if occupancy s < ?k then 0 else ?k) \<le> m \<longrightarrow> m < j \<longrightarrow> m \<in> ?A" "j \<notin> {0 ..< ?k} \<longrightarrow> j = ?k"
    by blast
  have "i = j" unfolding i_def
    by (rule first_from_eqI) (use j P in \<open>auto simp del: not_None_eq\<close>)
  with j w(6) show "i < n" "i \<notin> ?A" "i \<notin> mask_bits (slab_Constructed s) \<longrightarrow> i = ?k" by simp_all
qed

lemma CacheGetObjectFromSlab_law:
  assumes Size: "size_ok Size" and wf: "slab_wf (slab_objects Size) s" and room: "occupancy s < slab_objects Size"
    and client: "ctor_ok P Ctor" and w: "P X w"
    and X: "\<forall>i < slab_objects Size. object_at Size (slab_Base s) i \<in> X \<longleftrightarrow> i \<in> mask_bits (slab_Constructed s)"
  obtains (failed) w' where "CacheGetObjectFromSlab Ctor Size s w = Some (0, s, w')" "P X w'"
  | (got) i s' w' where "i < slab_objects Size" "i \<notin> mask_bits (slab_Allocated s)"
      "CacheGetObjectFromSlab Ctor Size s w = Some (object_at Size (slab_Base s) i, s', w')"
      "slab_wf (slab_objects Size) s'" "slab_Base s' = slab_Base s"
      "mask_bits (slab_Allocated s') = insert i (mask_bits (slab_Allocated s))"
      "mask_bits (slab_Constructed s') = insert i (mask_bits (slab_Constructed s))"
      "occupancy s' = Suc (occupancy s)" "P (insert (object_at Size (slab_Base s) i) X) w'"
proof -
  let ?n = "slab_objects Size"
  note s = slab_wfD [OF wf]
  define i where "i = first_from (\<lambda>i. CacheMaskTest (slab_Allocated s) i = Some False)
      (if occupancy s < mask_Count (slab_Constructed s) then 0 else mask_Count (slab_Constructed s)) ?n"
  note i = slab_free_index [OF wf room, folded i_def]
  let ?o = "object_at Size (slab_Base s) i"
  have test: "CacheMaskTest (slab_Constructed s) i = Some (i \<in> mask_bits (slab_Constructed s))"
    using i(1) s(1) by (simp add: CacheMaskTest_bits)
  have pos: "0 < Size" using Size by (simp add: size_ok_def)
  have obj: "slab_Base s + SLAB_BUFFER + i * Size = ?o" by (simp add: object_at_def)
  have "CacheGetObjectFromSlab Ctor Size s w = (do {
      t \<leftarrow> CacheMaskTest (slab_Constructed s) i;
      (st, Slab1, w1) \<leftarrow>
              (if t then Some (STATUS_SUCCESS, s, w)
               else do {
                 (st, w') \<leftarrow> Ctor ?o w;
                 (if \<not> NT_SUCCESS st then Some (st, s, w')
                  else do {
                    m \<leftarrow> CacheMaskSet (slab_Constructed s) i;
                    Some (st, s\<lparr>slab_Constructed := m\<rparr>, w')
                  })
               });
      (if \<not> NT_SUCCESS st then Some (0, Slab1, w1)
             else do {
               m \<leftarrow> CacheMaskSet (slab_Allocated Slab1) i;
               Some (?o, Slab1\<lparr>slab_Allocated := m\<rparr>, w1)
             })})"
    using room s(2,8) object_index [OF pos, of "slab_Base s" i]
    unfolding CacheGetObjectFromSlab_def Let_def s(2) i_def [symmetric] obj by simp
  note get = this [unfolded test, simplified]
  obtain a where a: "CacheMaskSet (slab_Allocated s) i = Some a" "mask_wf a" "mask_Size a = ?n"
      "mask_bits a = insert i (mask_bits (slab_Allocated s))" "mask_Count a = Suc (occupancy s)"
    using CacheMaskSet_bits [OF s(4), of i] i(1,2) s(2) by auto
  show thesis
  proof (cases "i \<in> mask_bits (slab_Constructed s)")
    case True
    let ?s = "s\<lparr>slab_Allocated := a\<rparr>"
    have "CacheGetObjectFromSlab Ctor Size s w = Some (?o, ?s, w)" using get a(1) True by simp
    moreover have "slab_wf ?n ?s" using wf a True unfolding slab_wf_def by auto
    moreover have "insert ?o X = X" using True X i(1) by auto
    ultimately show thesis using i a True w by (intro got [of i ?s w]) auto
  next
    case False
    then have "?o \<notin> X" using X i(1) by simp
    from ctor_okD [OF client w this] obtain st w' where
      c: "Ctor ?o w = Some (st, w')" "P (if NT_SUCCESS st then insert ?o X else X) w'" by blast
    show thesis
    proof (cases "NT_SUCCESS st")
      case no: False
      with get c False show thesis by (intro failed [of w']) simp_all
    next
      case True
      obtain m where m: "CacheMaskSet (slab_Constructed s) i = Some m" "mask_wf m" "mask_Size m = ?n"
          "mask_bits m = insert i (mask_bits (slab_Constructed s))" "mask_Count m = Suc (mask_Count (slab_Constructed s))"
        using CacheMaskSet_bits [OF s(3), of i] i(1) False s(1) by auto
      let ?s = "s\<lparr>slab_Constructed := m, slab_Allocated := a\<rparr>"
      have "CacheGetObjectFromSlab Ctor Size s w = Some (?o, ?s, w')" using get a(1) m(1) c(1) True False by simp
      moreover have "slab_wf ?n ?s"
      proof -
        have "mask_Count (slab_Constructed s) = i" using i(3) False by simp
        then have "mask_bits m = {0 ..< mask_Count m}" using m(4,5) s(6) by (simp add: atLeast0_lessThan_Suc)
        moreover have "mask_bits a \<subseteq> mask_bits m" using a(4) m(4) s(5) by blast
        ultimately show ?thesis using a(2,3) m(2,3) s(7) by (simp add: slab_wf_def)
      qed
      ultimately show thesis using i a m c(2) True by (intro got [of i ?s w']) auto
    qed
  qed
qed

lemma CachePutObjectToSlab_law:
  assumes Size: "size_ok Size" and wf: "slab_wf (slab_objects Size) s" and i: "i \<in> mask_bits (slab_Allocated s)"
  shows "\<exists>s'. CachePutObjectToSlab Size s (object_at Size (slab_Base s) i) = Some s' \<and>
           slab_wf (slab_objects Size) s' \<and> slab_Base s' = slab_Base s \<and>
           slab_Constructed s' = slab_Constructed s \<and>
           mask_bits (slab_Allocated s') = mask_bits (slab_Allocated s) - {i} \<and> occupancy s = Suc (occupancy s')"
proof -
  have pos: "0 < Size" using Size by (simp add: size_ok_def)
  note s = slab_wfD [OF wf]
  from CacheMaskClear_bits [OF s(4) i] obtain m where m: "CacheMaskClear (slab_Allocated s) i = Some m"
    "mask_wf m" "mask_Size m = capacity s" "mask_bits m = mask_bits (slab_Allocated s) - {i}"
    "occupancy s = Suc (mask_Count m)" by blast
  let ?s = "s\<lparr>slab_Allocated := m\<rparr>"
  have "CachePutObjectToSlab Size s (object_at Size (slab_Base s) i) = Some ?s"
    unfolding CachePutObjectToSlab_def object_index [OF pos] Let_def
    using m(1) mask_bits_less [OF i] by simp
  moreover have "slab_wf (slab_objects Size) ?s" using wf m by (auto simp: slab_wf_def)
  ultimately show ?thesis using m by (intro exI [of _ ?s]) simp
qed

section \<open>The invariant of a cache\<close>

definition slabs_wf :: "nat \<Rightarrow> XENBUS_CACHE_SLAB list \<Rightarrow> bool" where
  "slabs_wf Size ss \<longleftrightarrow> (\<forall>s \<in> set ss. slab_wf (slab_objects Size) s) \<and> distinct (map slab_Base ss)"

definition allocated :: "nat \<Rightarrow> XENBUS_CACHE_SLAB list \<Rightarrow> nat set" where
  "allocated Size ss = (\<Union>s \<in> set ss. allocated_in Size s)"

definition constructed :: "nat \<Rightarrow> XENBUS_CACHE_SLAB list \<Rightarrow> nat set" where
  "constructed Size ss = (\<Union>s \<in> set ss. constructed_in Size s)"

text \<open>The slab list, the cursor on its first slab with room, and the counters that go with it.\<close>

definition lists_wf :: "XENBUS_CACHE \<Rightarrow> bool" where
  "lists_wf c \<longleftrightarrow> size_ok (cache_Size c) \<and> slabs_wf (cache_Size c) (cache_SlabList c) \<and>
     order_ok (cache_SlabList c) \<and> cache_Cursor c = first_free (cache_SlabList c) \<and>
     cache_Count c = slab_objects (cache_Size c) * length (cache_SlabList c) \<and> cache_Count c < 2 ^ 31 \<and>
     cache_CurrentSlabs c = int (length (cache_SlabList c))"

definition mag_objects :: "nat list list \<Rightarrow> nat list" where
  "mag_objects Ms = filter (\<lambda>x. x \<noteq> 0) (concat Ms)"

text \<open>The objects the clients hold: allocated in the slabs and not in a magazine.\<close>

definition held :: "XENBUS_CACHE \<Rightarrow> nat set" where
  "held c = allocated (cache_Size c) (cache_SlabList c) - set (mag_objects (cache_Magazine c))"

definition mags_wf :: "XENBUS_CACHE \<Rightarrow> bool" where
  "mags_wf c \<longleftrightarrow> length (cache_Magazine c) = cache_MagazineCount c \<and>
     (\<forall>M \<in> set (cache_Magazine c). length M = XENBUS_CACHE_MAGAZINE_SLOTS) \<and>
     distinct (mag_objects (cache_Magazine c)) \<and>
     set (mag_objects (cache_Magazine c)) \<subseteq> allocated (cache_Size c) (cache_SlabList c)"

definition cache_wf :: "XENBUS_CACHE \<Rightarrow> bool" where
  "cache_wf c \<longleftrightarrow> lists_wf c \<and> mags_wf c \<and> cache_CurrentObjects c = int (card (held c))"

lemma lists_wfD:
  assumes "lists_wf c"
  shows "size_ok (cache_Size c)" "slabs_wf (cache_Size c) (cache_SlabList c)" "order_ok (cache_SlabList c)"
    "cache_Cursor c = first_free (cache_SlabList c)"
    "cache_Count c = slab_objects (cache_Size c) * length (cache_SlabList c)" "cache_Count c < 2 ^ 31"
    "cache_CurrentSlabs c = int (length (cache_SlabList c))"
  using assms by (simp_all add: lists_wf_def)

lemma slabs_wf_simps [simp]:
  "slabs_wf Size []"
  "slabs_wf Size (s # ss) \<longleftrightarrow> slab_wf (slab_objects Size) s \<and> slab_Base s \<notin> slab_Base ` set ss \<and> slabs_wf Size ss"
  "slabs_wf Size (ys @ zs) \<longleftrightarrow> slabs_wf Size ys \<and> slabs_wf Size zs \<and> slab_Base ` set ys \<inter> slab_Base ` set zs = {}"
  by (auto simp: slabs_wf_def)

lemma allocated_simps [simp]:
  "allocated Size [] = {}"
  "allocated Size (s # ss) = allocated_in Size s \<union> allocated Size ss"
  "allocated Size (ys @ zs) = allocated Size ys \<union> allocated Size zs"
  by (auto simp: allocated_def)

lemma constructed_simps [simp]:
  "constructed Size [] = {}"
  "constructed Size (s # ss) = constructed_in Size s \<union> constructed Size ss"
  "constructed Size (ys @ zs) = constructed Size ys \<union> constructed Size zs"
  by (auto simp: constructed_def)

lemma slabs_wfD: "slabs_wf Size ss \<Longrightarrow> s \<in> set ss \<Longrightarrow> slab_wf (slab_objects Size) s"
  by (simp add: slabs_wf_def)

lemma allocated_finite [simp]: "finite (allocated Size ss)"
  by (simp add: allocated_def allocated_in_def)

lemma CacheAudit_lists:
  assumes "lists_wf c"
  shows "CacheAudit c = Some ()"
proof (rule CacheAudit_ok)
  note w = lists_wfD [OF assms]
  show "cache_Cursor c = first_free (cache_SlabList c)" by (rule w(4))
  show "order_ok (cache_SlabList c)" by (rule w(3))
  show "\<forall>s \<in> set (cache_SlabList c). occupancy s \<le> 2 ^ 32 - 1"
  proof
    fix s assume "s \<in> set (cache_SlabList c)"
    then have "occupancy s \<le> slab_objects (cache_Size c)" using slab_wfD(8) slabs_wfD [OF w(2)] by blast
    then show "occupancy s \<le> 2 ^ 32 - 1" using w(1) by (simp add: size_ok_def)
  qed
qed

lemma in_allocated_page:
  assumes "size_ok Size" and "slab_wf (slab_objects Size) s" and "x \<in> allocated_in Size s \<union> constructed_in Size s"
  shows "PAGE_ALIGN x = slab_Base s"
proof -
  obtain i where "x = object_at Size (slab_Base s) i" "i < slab_objects Size"
    using assms(2,3) mask_bits_less slab_wfD(1,2) [OF assms(2)]
    by (fastforce simp: allocated_in_def constructed_in_def)
  with PAGE_ALIGN_object [OF assms(1) slab_wfD(7) [OF assms(2)]] show ?thesis by simp
qed

lemma not_in_other:
  assumes "size_ok Size" and "slabs_wf Size ss" and "x \<in> allocated Size ss \<union> constructed Size ss"
  shows "PAGE_ALIGN x \<in> slab_Base ` set ss"
  using assms in_allocated_page [OF assms(1) slabs_wfD [OF assms(2)]]
  by (fastforce simp: allocated_def constructed_def)

text \<open>An object of a slab of the list, seen through the list.\<close>

lemma object_in_list:
  assumes Size: "size_ok Size" and wf: "slabs_wf Size (ys @ s # zs)" and i: "i < slab_objects Size"
  shows "object_at Size (slab_Base s) i \<in> allocated Size (ys @ s # zs) \<longleftrightarrow> i \<in> mask_bits (slab_Allocated s)"
    and "object_at Size (slab_Base s) i \<in> constructed Size (ys @ s # zs) \<longleftrightarrow> i \<in> mask_bits (slab_Constructed s)"
    and "object_at Size (slab_Base s) i \<notin> allocated Size ys \<union> allocated Size zs"
    and "object_at Size (slab_Base s) i \<notin> constructed Size ys \<union> constructed Size zs"
proof -
  let ?x = "object_at Size (slab_Base s) i"
  have pos: "0 < Size" using Size by (simp add: size_ok_def)
  have "slab_wf (slab_objects Size) s" using wf by simp
  note s = slab_wfD [OF this]
  have page: "PAGE_ALIGN ?x = slab_Base s" by (rule PAGE_ALIGN_object [OF Size s(7) i])
  have "slab_Base s \<notin> slab_Base ` set ys" "slab_Base s \<notin> slab_Base ` set zs" "slabs_wf Size ys" "slabs_wf Size zs"
    using wf by auto
  then have out: "?x \<notin> allocated Size ys \<union> constructed Size ys" "?x \<notin> allocated Size zs \<union> constructed Size zs"
    using not_in_other [OF Size] page by metis+
  then show "?x \<notin> allocated Size ys \<union> allocated Size zs" "?x \<notin> constructed Size ys \<union> constructed Size zs" by auto
  show "?x \<in> allocated Size (ys @ s # zs) \<longleftrightarrow> i \<in> mask_bits (slab_Allocated s)"
    using out object_at_inj [OF pos] by (auto simp: allocated_in_def)
  show "?x \<in> constructed Size (ys @ s # zs) \<longleftrightarrow> i \<in> mask_bits (slab_Constructed s)"
    using out object_at_inj [OF pos] by (auto simp: constructed_in_def)
qed

lemma allocated_replace:
  assumes Size: "size_ok Size" and wf: "slabs_wf Size (ys @ s # zs)" and i: "i < slab_objects Size"
    and base: "slab_Base s' = slab_Base s"
  shows "mask_bits (slab_Allocated s') = insert i (mask_bits (slab_Allocated s)) \<Longrightarrow>
      allocated Size (ys @ s' # zs) = insert (object_at Size (slab_Base s) i) (allocated Size (ys @ s # zs))"
    and "mask_bits (slab_Constructed s') = insert i (mask_bits (slab_Constructed s)) \<Longrightarrow>
      constructed Size (ys @ s' # zs) = insert (object_at Size (slab_Base s) i) (constructed Size (ys @ s # zs))"
    and "mask_bits (slab_Allocated s') = mask_bits (slab_Allocated s) - {i} \<Longrightarrow>
      allocated Size (ys @ s' # zs) = allocated Size (ys @ s # zs) - {object_at Size (slab_Base s) i}"
proof -
  have pos: "0 < Size" using Size by (simp add: size_ok_def)
  note out = object_in_list(3,4) [OF Size wf i]
  show "mask_bits (slab_Allocated s') = insert i (mask_bits (slab_Allocated s)) \<Longrightarrow>
      allocated Size (ys @ s' # zs) = insert (object_at Size (slab_Base s) i) (allocated Size (ys @ s # zs))"
    using base by (auto simp: allocated_in_def)
  show "mask_bits (slab_Constructed s') = insert i (mask_bits (slab_Constructed s)) \<Longrightarrow>
      constructed Size (ys @ s' # zs) = insert (object_at Size (slab_Base s) i) (constructed Size (ys @ s # zs))"
    using base by (auto simp: constructed_in_def)
  show "mask_bits (slab_Allocated s') = mask_bits (slab_Allocated s) - {i} \<Longrightarrow>
      allocated Size (ys @ s' # zs) = allocated Size (ys @ s # zs) - {object_at Size (slab_Base s) i}"
    using base out object_at_inj [OF pos] by (auto simp: allocated_in_def)
qed

lemma find_slab_spec:
  "slab_Base s \<notin> slab_Base ` set ys \<Longrightarrow> find_slab (ys @ s # zs) (slab_Base s) k = Some (k + length ys)"
  by (induction ys arbitrary: k) auto

section \<open>The slab operations on a well-formed list\<close>

text \<open>The allocator returns pages that are aligned and not in use.\<close>

definition mem_ok :: "slab_mem \<Rightarrow> XENBUS_CACHE_SLAB list \<Rightarrow> bool" where
  "mem_ok mem ss \<longleftrightarrow> (case fst mem of None \<Rightarrow> True | Some B \<Rightarrow> base_ok B \<and> B \<notin> slab_Base ` set ss)"

lemma CacheCreateSlab_law:
  assumes wf: "lists_wf c" and room: "cache_Count c + slab_objects (cache_Size c) < 2 ^ 31"
    and mem: "mem_ok mem (cache_SlabList c)"
  obtains (failed) st where "CacheCreateSlab mem c = Some (st, c)" "\<not> NT_SUCCESS st"
  | (created) c' where "CacheCreateSlab mem c = Some (STATUS_SUCCESS, c')" "lists_wf c'"
      "cache_Cursor c' \<noteq> None" "cache_Size c' = cache_Size c" "cache_Magazine c' = cache_Magazine c"
      "cache_MagazineCount c' = cache_MagazineCount c" "cache_CurrentObjects c' = cache_CurrentObjects c"
      "allocated (cache_Size c) (cache_SlabList c') = allocated (cache_Size c) (cache_SlabList c)"
      "constructed (cache_Size c) (cache_SlabList c') = constructed (cache_Size c) (cache_SlabList c)"
      "cache_Count c' = cache_Count c + slab_objects (cache_Size c)"
      "Some ` slab_Base ` set (cache_SlabList c') = insert (fst mem) (Some ` slab_Base ` set (cache_SlabList c))"
proof -
  let ?n = "slab_objects (cache_Size c)"
  note w = lists_wfD [OF wf]
  have n: "0 < ?n" "?n < 2 ^ 31" using w(1) by (simp_all add: size_ok_def)
  obtain Slab m1 m2 where m: "mem = (Slab, m1, m2)" by (cases mem)
  show thesis
  proof (cases "cache_Count c + ?n \<le> cache_Cap c \<and> Slab \<noteq> None \<and> m1 \<and> m2")
    case False
    obtain mask where mask: "CacheMaskCreate True ?n = Some mask" "mask_Count mask = 0"
      using CacheMaskCreate_bits [of ?n] n by auto
    have none: "CacheMaskCreate False ?n = None" by (simp add: CacheMaskCreate_def)
    have base: "B = PAGE_ALIGN B" if "Slab = Some B" for B
      using mem m that by (simp add: mem_ok_def base_ok_def)
    have "\<exists>st. CacheCreateSlab mem c = Some (st, c) \<and> \<not> NT_SUCCESS st"
      using False n room mask none base
      by (cases Slab; cases m1; cases m2)
        (auto simp: CacheCreateSlab_def Let_def m CacheMaskDestroy_def ASSERT_def)
    then show thesis using failed by blast
  next
    case True
    then obtain B where B: "Slab = Some B" "m1" "m2" by auto
    have base: "base_ok B" "B \<notin> slab_Base ` set (cache_SlabList c)" using mem m B by (simp_all add: mem_ok_def)
    then have align: "B = PAGE_ALIGN B" by (simp add: base_ok_def)
    obtain mask where mask: "CacheMaskCreate True ?n = Some mask" "mask_wf mask" "mask_Size mask = ?n"
      "mask_bits mask = {}" "mask_Count mask = 0"
      using CacheMaskCreate_bits [of ?n] n by auto
    let ?s = "\<lparr>slab_Base = B, slab_Constructed = mask, slab_Allocated = mask\<rparr>"
    have new: "slab_wf ?n ?s" using mask base by (simp add: slab_wf_def)
    have empty: "allocated_in Size ?s = {}" "constructed_in Size ?s = {}" for Size
      using mask by (simp_all add: allocated_in_def constructed_in_def)
    have "occupancy ?s < capacity ?s" using mask n by simp
    then obtain ys zs where s: "cache_SlabList c = ys @ zs" "order_ok (ys @ ?s # zs)"
      "CacheInsertSlab c ?s = Some (c\<lparr>cache_SlabList := ys @ ?s # zs, cache_Cursor := first_free (ys @ ?s # zs)\<rparr>)"
      by (rule CacheInsertSlab_law [OF w(3)])
    let ?N = "s32 (cache_CurrentSlabs c + 1)"
    let ?c = "c\<lparr>cache_SlabList := ys @ ?s # zs, cache_Cursor := first_free (ys @ ?s # zs),
       cache_Count := (cache_Count c + ?n) mod 2 ^ 32, cache_CurrentSlabs := ?N,
       cache_MaximumSlabs := (if ?N > cache_MaximumSlabs c then ?N else cache_MaximumSlabs c)\<rparr>"
    have "length (cache_SlabList c) \<le> ?n * length (cache_SlabList c)" using n by simp
    then have "length (cache_SlabList c) + 1 < 2 ^ 31" using w(5) room n by linarith
    then have N: "?N = int (length (cache_SlabList c)) + 1" unfolding w(7) by (intro s32_id) simp_all
    have "CacheCreateSlab mem c = Some (STATUS_SUCCESS, ?c)"
      using True n room B align mask(1) s(3) by (simp add: CacheCreateSlab_def Let_def m)
    moreover have count: "(cache_Count c + ?n) mod 2 ^ 32 = cache_Count c + ?n" using room by simp
    moreover have "lists_wf ?c"
      using w s(1,2) new base(2) room N count by (auto simp: lists_wf_def algebra_simps)
    moreover have "first_free (ys @ ?s # zs) \<noteq> None" using mask n by (auto split: option.splits)
    moreover have "Some ` slab_Base ` set (ys @ ?s # zs) = insert (fst mem) (Some ` slab_Base ` set (cache_SlabList c))"
      using s(1) m B by auto
    ultimately show thesis using s(1) empty by (intro created [of ?c]) simp_all
  qed
qed

text \<open>A slab under the cursor: everything before it is full, and it is not.\<close>

lemma cursor_slab:
  assumes "lists_wf c" and "cache_Cursor c = Some k"
  obtains ys s zs where "cache_SlabList c = ys @ s # zs" and "length ys = k"
    and "occupancy s < slab_objects (cache_Size c)" and "first_free ys = None"
    and "slab_wf (slab_objects (cache_Size c)) s"
proof -
  note w = lists_wfD [OF assms(1)]
  from first_free_SomeD [of "cache_SlabList c" k] assms(2) w(4) obtain ys s zs where
    s: "cache_SlabList c = ys @ s # zs" "length ys = k" "occupancy s < capacity s" "first_free ys = None" by auto
  moreover have "slab_wf (slab_objects (cache_Size c)) s" using slabs_wfD [OF w(2)] s(1) by simp
  moreover from this have "capacity s = slab_objects (cache_Size c)" by (rule slab_wfD(2))
  ultimately show thesis using that by simp
qed

lemma cache_take_law:
  assumes wf: "lists_wf c" and cur: "cache_Cursor c = Some k" and client: "ctor_ok P Ctor"
    and w: "P (constructed (cache_Size c) (cache_SlabList c)) w"
  obtains (failed) w' where "cache_take Ctor k c w = Some (0, c, w')"
      "P (constructed (cache_Size c) (cache_SlabList c)) w'"
  | (got) x c' w' where "cache_take Ctor k c w = Some (x, c', w')" "x \<noteq> 0" "lists_wf c'"
      "x \<notin> allocated (cache_Size c) (cache_SlabList c)"
      "allocated (cache_Size c) (cache_SlabList c') = insert x (allocated (cache_Size c) (cache_SlabList c))"
      "P (constructed (cache_Size c) (cache_SlabList c')) w'"
      "cache_Size c' = cache_Size c" "cache_Magazine c' = cache_Magazine c"
      "cache_MagazineCount c' = cache_MagazineCount c" "cache_CurrentObjects c' = cache_CurrentObjects c"
      "cache_Count c' = cache_Count c"
proof -
  let ?n = "slab_objects (cache_Size c)"
  note l = lists_wfD [OF wf]
  from cursor_slab [OF wf cur] obtain ys s zs where
    s: "cache_SlabList c = ys @ s # zs" "length ys = k" "occupancy s < ?n" "first_free ys = None" "slab_wf ?n s" .
  have sw: "slabs_wf (cache_Size c) (ys @ s # zs)" using l(2) s(1) by simp
  have nth: "cache_SlabList c ! k = s" using s(1,2) by auto
  have X: "\<forall>i < ?n. object_at (cache_Size c) (slab_Base s) i \<in> constructed (cache_Size c) (cache_SlabList c) \<longleftrightarrow>
      i \<in> mask_bits (slab_Constructed s)"
    unfolding s(1) using object_in_list(2) [OF l(1) sw] by blast
  show thesis
  proof (cases rule: CacheGetObjectFromSlab_law [OF l(1) s(5,3) client w X, case_names failed got])
    case (failed w')
    have "c\<lparr>cache_SlabList := (cache_SlabList c)[k := s]\<rparr> = c" using nth by (metis list_update_id XENBUS_CACHE.surjective XENBUS_CACHE.update_convs(5))
    moreover have "occupancy s \<noteq> capacity s" using s(3) slab_wfD(2) [OF s(5)] by simp
    ultimately have "cache_take Ctor k c w = Some (0, c, w')"
      using failed(1) by (simp add: cache_take_def nth)
    with failed(2) show thesis using that(1) s(1) by simp
  next
    case (got i s' w')
    let ?x = "object_at (cache_Size c) (slab_Base s) i"
    have upd: "(cache_SlabList c)[k := s'] = ys @ s' # zs" using s(1,2) by auto
    define c' where "c' = (if occupancy s' = capacity s'
        then c\<lparr>cache_SlabList := ys @ s' # zs, cache_Cursor := flink (ys @ s' # zs) (Some k)\<rparr>
        else c\<lparr>cache_SlabList := ys @ s' # zs\<rparr>)"
    have take: "cache_take Ctor k c w = Some (?x, c', w')"
      using got(3) by (simp add: cache_take_def nth upd c'_def Let_def)
    have c': "cache_SlabList c' = ys @ s' # zs" "cache_Size c' = cache_Size c" "cache_Magazine c' = cache_Magazine c"
      "cache_MagazineCount c' = cache_MagazineCount c" "cache_CurrentObjects c' = cache_CurrentObjects c"
      "cache_Count c' = cache_Count c" "cache_CurrentSlabs c' = cache_CurrentSlabs c"
      by (simp_all add: c'_def)
    have n: "capacity s' = ?n" "capacity s = ?n" using slab_wfD(2) got(4) s(5) by blast+
    have full: "occupancy y = ?n" if "y \<in> set ys" for y
    proof -
      have "slab_wf ?n y" using sw that slabs_wfD by fastforce
      with slab_wfD(2,8) [OF this] first_free_NoneD [OF s(4) that] show ?thesis by simp
    qed
    have ord: "order_ok (ys @ s' # zs)"
      using l(3) s(1,3) got(8) full by (auto intro: le_SucI)
    have "cache_Cursor c' = first_free (ys @ s' # zs)"
    proof (cases "occupancy s' = capacity s'")
      case False
      then have "occupancy s' < capacity s'" using slab_wfD(8) [OF got(4)] n by simp
      with False s(4) l(4) s(1,2,3) n(2) cur show ?thesis by (simp add: c'_def)
    next
      case True
      show ?thesis
      proof (cases zs)
        case Nil
        with True s(2,4) show ?thesis by (simp add: c'_def)
      next
        case (Cons z zs')
        then have "occupancy z \<le> occupancy s" using l(3) s(1) by simp
        moreover have "capacity z = ?n" using sw Cons slab_wfD(2) by simp
        ultimately have "occupancy z < capacity z" using s(3) by simp
        with True Cons s(2,4) show ?thesis by (simp add: c'_def)
      qed
    qed
    moreover have "slabs_wf (cache_Size c) (ys @ s' # zs)" using sw got(4,5) by simp
    ultimately have "lists_wf c'" using l ord s(1) by (simp add: lists_wf_def c')
    then show thesis
      using that(2) [OF take] got(1,2,6,7,9) c' object_in_list(1) [OF l(1) sw got(1)]
        allocated_replace(1,2) [OF l(1) sw got(1,5)] s(1) by simp
  qed
qed

lemma lists_wf_update [simp]:
  "lists_wf (c\<lparr>cache_Magazine := Ms\<rparr>) = lists_wf c"
  "lists_wf (c\<lparr>cache_MagazineCount := k\<rparr>) = lists_wf c"
  "lists_wf (c\<lparr>cache_CurrentObjects := n\<rparr>) = lists_wf c"
  "lists_wf (c\<lparr>cache_MaximumObjects := n\<rparr>) = lists_wf c"
  by (simp_all add: lists_wf_def)

lemma card_allocated_in:
  assumes "slab_wf n s"
  shows "card (allocated_in Size s) \<le> n"
proof -
  have "card (allocated_in Size s) \<le> card (mask_bits (slab_Allocated s))"
    unfolding allocated_in_def by (rule card_image_le) simp
  also have "\<dots> \<le> n" using slab_wfD(4,8) [OF assms] by (simp add: mask_wf_def)
  finally show ?thesis .
qed

lemma card_allocated: "slabs_wf Size ss \<Longrightarrow> card (allocated Size ss) \<le> slab_objects Size * length ss"
proof (induction ss)
  case (Cons s ss)
  have "card (allocated Size (s # ss)) \<le> card (allocated_in Size s) + card (allocated Size ss)"
    by (simp add: card_Un_le)
  with Cons card_allocated_in [of "slab_objects Size" s Size] show ?case by simp
qed simp

lemma held_finite [simp]: "finite (held c)"
  by (simp add: held_def)

lemma card_held:
  assumes "lists_wf c"
  shows "card (held c) \<le> cache_Count c"
proof -
  have "card (held c) \<le> card (allocated (cache_Size c) (cache_SlabList c))"
    by (rule card_mono) (auto simp: held_def)
  also have "\<dots> \<le> cache_Count c"
    using card_allocated [OF lists_wfD(2) [OF assms]] lists_wfD(5) [OF assms] by simp
  finally show ?thesis .
qed

lemma mag_objects_simps [simp]:
  "mag_objects [] = []"
  "mag_objects (M # Ms) = filter (\<lambda>x. x \<noteq> 0) M @ mag_objects Ms"
  "mag_objects (Ms @ Ns) = mag_objects Ms @ mag_objects Ns"
  by (simp_all add: mag_objects_def)

text \<open>The last step of \<^verbatim>\<open>CacheGet\<close> and \<^verbatim>\<open>CachePut\<close>: counting the objects.\<close>

lemma cache_wf_count:
  "lists_wf c \<Longrightarrow> mags_wf c \<Longrightarrow> n = int (card (held c)) \<Longrightarrow>
     cache_wf (c\<lparr>cache_CurrentObjects := n, cache_MaximumObjects := m\<rparr>) \<and>
     cache_wf (c\<lparr>cache_CurrentObjects := n\<rparr>)"
  by (simp add: cache_wf_def mags_wf_def held_def)

lemma count_get_wf:
  assumes "lists_wf c" and "mags_wf c" and "cache_CurrentObjects c = int (card (held c - {x}))"
    and "x \<in> held c" and "x \<noteq> 0"
  shows "cache_wf (count_get x c)" and "cache_SlabList (count_get x c) = cache_SlabList c"
    and "cache_Size (count_get x c) = cache_Size c" and "held (count_get x c) = held c"
    and "cache_MagazineCount (count_get x c) = cache_MagazineCount c"
proof -
  have "card (held c) = Suc (card (held c - {x}))" using assms(4) by (intro card.remove) simp_all
  moreover have "card (held c) < 2 ^ 31" using card_held [OF assms(1)] lists_wfD(6) [OF assms(1)] by (rule le_less_trans)
  ultimately have n: "cache_CurrentObjects c + 1 = int (card (held c))" "int (card (held c)) < 2 ^ 31"
    using assms(3) by simp_all
  then have "s32 (cache_CurrentObjects c + 1) = int (card (held c))" by (simp only: n(1)) (rule s32_id, simp_all)
  then show "cache_wf (count_get x c)"
    using assms(5) cache_wf_count [OF assms(1,2)] by (simp add: count_get_def Let_def)
  show "cache_SlabList (count_get x c) = cache_SlabList c" "cache_Size (count_get x c) = cache_Size c"
    "held (count_get x c) = held c" "cache_MagazineCount (count_get x c) = cache_MagazineCount c"
    using assms(5) by (simp_all add: count_get_def Let_def held_def)
qed

lemma cache_get_locked_law:
  assumes l: "lists_wf c" and client: "ctor_ok P Ctor"
    and w: "P (constructed (cache_Size c) (cache_SlabList c)) w"
    and room: "cache_Count c + slab_objects (cache_Size c) < 2 ^ 31" and mem: "mem_ok mem (cache_SlabList c)"
  obtains x d w' where "cache_get_locked Ctor mem c w = Some (x, d, w')" and "lists_wf d"
    and "P (constructed (cache_Size d) (cache_SlabList d)) w'"
    and "cache_Size d = cache_Size c" and "cache_Magazine d = cache_Magazine c"
    and "cache_MagazineCount d = cache_MagazineCount c" and "cache_CurrentObjects d = cache_CurrentObjects c"
    and "if x = 0 then allocated (cache_Size c) (cache_SlabList d) = allocated (cache_Size c) (cache_SlabList c)
         else x \<notin> allocated (cache_Size c) (cache_SlabList c) \<and>
              allocated (cache_Size c) (cache_SlabList d) = insert x (allocated (cache_Size c) (cache_SlabList c))"
proof (cases "cache_Cursor c")
  case (Some k)
  then have body: "cache_get_locked Ctor mem c w = cache_take Ctor k c w" by (simp add: cache_get_locked_def)
  show thesis
  proof (cases rule: cache_take_law [OF l Some client w, case_names failed got])
    case (failed w')
    then show thesis using body l by (intro that [of 0 c w']) simp_all
  next
    case (got x d w')
    then show thesis using body by (intro that [of x d w']) simp_all
  qed
next
  case None
  show thesis
  proof (cases rule: CacheCreateSlab_law [OF l room mem, case_names failed created])
    case (failed st)
    then have "cache_get_locked Ctor mem c w = Some (0, c, w)" using None by (simp add: cache_get_locked_def)
    with l w show thesis by (intro that [of 0 c w]) simp_all
  next
    case (created d)
    then obtain k where k: "cache_Cursor d = Some k" by auto
    have wd: "P (constructed (cache_Size d) (cache_SlabList d)) w" using w created by simp
    have body: "cache_get_locked Ctor mem c w = cache_take Ctor k d w"
      using None k created(1) by (simp add: cache_get_locked_def)
    show thesis
    proof (cases rule: cache_take_law [OF created(2) k client wd, case_names failed got])
      case (failed w')
      then show thesis using body created by (intro that [of 0 d w']) simp_all
    next
      case (got x e w')
      then show thesis using body created by (intro that [of x e w']) simp_all
    qed
  qed
qed

lemma magazine_at:
  assumes "mags_wf c" and "Index < cache_MagazineCount c"
  obtains As M Bs where "cache_Magazine c = As @ M # Bs" and "length As = Index"
    and "cache_Magazine c ! Index = M" and "length M = XENBUS_CACHE_MAGAZINE_SLOTS"
proof -
  have "Index < length (cache_Magazine c)" using assms by (simp add: mags_wf_def)
  from split_at [OF this] obtain As M Bs where
    Ms: "cache_Magazine c = As @ M # Bs" "length As = Index" "cache_Magazine c ! Index = M" .
  moreover from this have "length M = XENBUS_CACHE_MAGAZINE_SLOTS" using assms(1) by (simp add: mags_wf_def)
  ultimately show thesis by (rule that)
qed

lemma cache_magazine_same: "cache_Magazine c ! Index = M \<Longrightarrow>
    c\<lparr>cache_Magazine := (cache_Magazine c)[Index := M]\<rparr> = c"
  by (metis list_update_id XENBUS_CACHE.surjective XENBUS_CACHE.update_convs(8))

lemma CacheGet_law:
  assumes wf: "cache_wf c" and Index: "Index < cache_MagazineCount c" and client: "ctor_ok P Ctor"
    and w: "P (constructed (cache_Size c) (cache_SlabList c)) w"
    and room: "cache_Count c + slab_objects (cache_Size c) < 2 ^ 31" and mem: "mem_ok mem (cache_SlabList c)"
  shows "\<exists>x c' w'. CacheGet Ctor mem Index c w = Some (x, c', w') \<and> cache_wf c' \<and>
     P (constructed (cache_Size c') (cache_SlabList c')) w' \<and>
     cache_Size c' = cache_Size c \<and> cache_MagazineCount c' = cache_MagazineCount c \<and>
     (if x = 0 then held c' = held c else x \<notin> held c \<and> held c' = insert x (held c))"
proof -
  let ?S = "cache_Size c"
  have l: "lists_wf c" and m: "mags_wf c" and cnt: "cache_CurrentObjects c = int (card (held c))"
    using wf by (simp_all add: cache_wf_def)
  from magazine_at [OF m Index] obtain As M Bs where
    Ms: "cache_Magazine c = As @ M # Bs" "length As = Index" "cache_Magazine c ! Index = M"
    and len: "length M = XENBUS_CACHE_MAGAZINE_SLOTS" .
  show ?thesis
  proof (cases rule: magazine_get [OF len, case_names empty full])
    case (full ys x zs)
    let ?c = "c\<lparr>cache_Magazine := As @ (ys @ 0 # zs) # Bs\<rparr>"
    have mags: "mags_wf ?c" "x \<notin> held c" "x \<in> held ?c" "held ?c = insert x (held c)"
      using m Ms(1) full by (auto simp: mags_wf_def held_def)
    from mags(2,4) have "held ?c - {x} = held c" by auto
    then have n: "cache_CurrentObjects ?c = int (card (held ?c - {x}))" using cnt by simp
    have "lists_wf ?c" using l by simp
    note d = count_get_wf [OF this mags(1) n mags(3) full(3)]
    have "(cache_Magazine c)[Index := ys @ 0 # zs] = As @ (ys @ 0 # zs) # Bs"
      using Ms(1,2) by (simp add: list_update_append)
    then have get: "CacheGet Ctor mem Index c w = Some (x, count_get x ?c, w)"
      using Index Ms(3) full(1,3) by (simp add: CacheGet_def)
    show ?thesis
      using get mags(2,4) full(3) w d by (intro exI [of _ x] exI [of _ "count_get x ?c"] exI [of _ w]) simp
  next
    case empty
    have get: "CacheGet Ctor mem Index c w = do {
          (Object, c2, w') \<leftarrow> cache_get_locked Ctor mem c w;
          CacheAudit c2;
          Some (Object, count_get Object c2, w') }"
      using Index empty(1) by (simp add: CacheGet_def Ms(3) cache_magazine_same [OF Ms(3)])
    from cache_get_locked_law [OF l client w room mem] obtain x d w' where
        d: "cache_get_locked Ctor mem c w = Some (x, d, w')" "lists_wf d"
        "P (constructed (cache_Size d) (cache_SlabList d)) w'" "cache_Size d = ?S"
        "cache_Magazine d = cache_Magazine c" "cache_MagazineCount d = cache_MagazineCount c"
        "cache_CurrentObjects d = cache_CurrentObjects c"
      and alloc: "if x = 0 then allocated ?S (cache_SlabList d) = allocated ?S (cache_SlabList c)
         else x \<notin> allocated ?S (cache_SlabList c) \<and>
              allocated ?S (cache_SlabList d) = insert x (allocated ?S (cache_SlabList c))" .
    have res: "CacheGet Ctor mem Index c w = Some (x, count_get x d, w')"
      using get d(1) CacheAudit_lists [OF d(2)] by simp
    show ?thesis
    proof (cases "x = 0")
      case True
      then have "count_get x d = d" by (simp add: count_get_def)
      moreover have "cache_wf d" "held d = held c"
        using True wf d alloc by (simp_all add: cache_wf_def mags_wf_def held_def)
      ultimately show ?thesis using res d True by (intro exI [of _ 0] exI [of _ d] exI [of _ w']) simp
    next
      case False
      have mags: "mags_wf d" "x \<notin> held c" "held d = insert x (held c)" "x \<in> held d"
        using False alloc d m by (auto simp: mags_wf_def held_def)
      from mags have "held d - {x} = held c" by auto
      then have n: "cache_CurrentObjects d = int (card (held d - {x}))" using cnt d(7) by simp
      note e = count_get_wf [OF d(2) mags(1) n mags(4) False]
      show ?thesis
        using res d False e mags(2,3) by (intro exI [of _ x] exI [of _ "count_get x d"] exI [of _ w']) simp
    qed
  qed
qed

lemma allocatedE:
  assumes "slabs_wf Size ss" and "x \<in> allocated Size ss"
  obtains ys s zs i where "ss = ys @ s # zs" and "x = object_at Size (slab_Base s) i"
    and "i \<in> mask_bits (slab_Allocated s)" and "i < slab_objects Size"
proof -
  from assms(2) obtain s i where s: "s \<in> set ss" "x = object_at Size (slab_Base s) i" "i \<in> mask_bits (slab_Allocated s)"
    by (auto simp: allocated_def allocated_in_def)
  have "i < slab_objects Size"
    using mask_bits_less [OF s(3)] slab_wfD(2) [OF slabs_wfD [OF assms(1) s(1)]] by simp
  with s split_list [OF s(1)] that show thesis by blast
qed

text \<open>Taking an object back into its slab and the slab to its new place.\<close>

lemma put_to_slab_law:
  assumes l: "lists_wf c" and x: "x \<in> allocated (cache_Size c) (cache_SlabList c)"
  obtains ys s zs s' where "cache_SlabList c = ys @ s # zs"
    and "find_slab (cache_SlabList c) (PAGE_ALIGN x) 0 = Some (length ys)"
    and "CachePutObjectToSlab (cache_Size c) s x = Some s'"
    and "slab_wf (slab_objects (cache_Size c)) s'" and "slab_Base s' = slab_Base s"
    and "slab_Constructed s' = slab_Constructed s" and "occupancy s = Suc (occupancy s')"
    and "allocated (cache_Size c) (ys @ s' # zs) = allocated (cache_Size c) (cache_SlabList c) - {x}"
proof -
  let ?S = "cache_Size c"
  note w = lists_wfD [OF l]
  from allocatedE [OF w(2) x] obtain ys s zs i where
    s: "cache_SlabList c = ys @ s # zs" "x = object_at ?S (slab_Base s) i" "i \<in> mask_bits (slab_Allocated s)"
    and i: "i < slab_objects ?S" .
  have sw: "slabs_wf ?S (ys @ s # zs)" "slab_wf (slab_objects ?S) s" using w(2) s(1) by simp_all
  have "PAGE_ALIGN x = slab_Base s"
    unfolding s(2) by (rule PAGE_ALIGN_object [OF w(1) slab_wfD(7) [OF sw(2)] i])
  moreover have "slab_Base s \<notin> slab_Base ` set ys" using sw(1) by auto
  ultimately have find: "find_slab (cache_SlabList c) (PAGE_ALIGN x) 0 = Some (length ys)"
    using find_slab_spec [of s ys zs 0] s(1) by simp
  from CachePutObjectToSlab_law [OF w(1) sw(2) s(3)] obtain s' where
    s': "CachePutObjectToSlab ?S s x = Some s'" "slab_wf (slab_objects ?S) s'" "slab_Base s' = slab_Base s"
    "slab_Constructed s' = slab_Constructed s"
    "mask_bits (slab_Allocated s') = mask_bits (slab_Allocated s) - {i}" "occupancy s = Suc (occupancy s')"
    unfolding s(2) by blast
  have "allocated ?S (ys @ s' # zs) = allocated ?S (cache_SlabList c) - {x}"
    using allocated_replace(3) [OF w(1) sw(1) i s'(3,5)] s(1,2) by simp
  with s(1) find s' show thesis by (intro that [of ys s zs s']) simp_all
qed

lemma CachePut_law:
  assumes wf: "cache_wf c" and Index: "Index < cache_MagazineCount c" and x: "x \<in> held c"
  shows "\<exists>c'. CachePut Index c x = Some c' \<and> cache_wf c' \<and> held c' = held c - {x} \<and>
     constructed (cache_Size c') (cache_SlabList c') = constructed (cache_Size c) (cache_SlabList c) \<and>
     cache_Size c' = cache_Size c \<and> cache_MagazineCount c' = cache_MagazineCount c \<and>
     cache_Count c' = cache_Count c"
proof -
  let ?S = "cache_Size c"
  have l: "lists_wf c" and m: "mags_wf c" and cnt: "cache_CurrentObjects c = int (card (held c))"
    using wf by (simp_all add: cache_wf_def)
  note w = lists_wfD [OF l]
  have alloc: "x \<in> allocated ?S (cache_SlabList c)" "x \<notin> set (mag_objects (cache_Magazine c))"
    using x by (simp_all add: held_def)
  have x0: "x \<noteq> 0" using allocatedE [OF w(2) alloc(1)] by (metis object_nonzero)
  have card: "card (held c) = Suc (card (held c - {x}))" using x by (intro card.remove) simp_all
  have "card (held c) < 2 ^ 31" using card_held [OF l] w(6) by (rule le_less_trans)
  then have n: "cache_CurrentObjects c \<noteq> 0" "s32 (cache_CurrentObjects c - 1) = int (card (held c - {x}))"
    unfolding cnt card by (simp_all add: s32_def)
  from magazine_at [OF m Index] obtain As M Bs where
    Ms: "cache_Magazine c = As @ M # Bs" "length As = Index" "cache_Magazine c ! Index = M"
    and len: "length M = XENBUS_CACHE_MAGAZINE_SLOTS" .
  show ?thesis
  proof (cases rule: magazine_put [OF len, of x, case_names full room])
    case (room ys zs)
    let ?c = "c\<lparr>cache_Magazine := As @ (ys @ x # zs) # Bs\<rparr>"
    have mags: "mags_wf ?c" "held ?c = held c - {x}"
      using m Ms(1) room alloc x0 by (auto simp: mags_wf_def held_def)
    have "(cache_Magazine c)[Index := ys @ x # zs] = As @ (ys @ x # zs) # Bs"
      using Ms(1,2) by (simp add: list_update_append)
    then have "CachePut Index c x = Some (?c\<lparr>cache_CurrentObjects := s32 (cache_CurrentObjects c - 1)\<rparr>)"
      using Index Ms(3) room(1) x0 n(1) by (simp add: CachePut_def)
    moreover have "cache_wf (?c\<lparr>cache_CurrentObjects := s32 (cache_CurrentObjects c - 1)\<rparr>)"
      using cache_wf_count [of ?c] l mags n(2) by simp
    ultimately show ?thesis using mags(2)
      by (intro exI [of _ "?c\<lparr>cache_CurrentObjects := s32 (cache_CurrentObjects c - 1)\<rparr>"]) (simp add: held_def)
  next
    case full
    from put_to_slab_law [OF l alloc(1)] obtain ys s zs s' where
      s: "cache_SlabList c = ys @ s # zs" "find_slab (cache_SlabList c) (PAGE_ALIGN x) 0 = Some (length ys)"
      "CachePutObjectToSlab ?S s x = Some s'" "slab_wf (slab_objects ?S) s'" "slab_Base s' = slab_Base s"
      "slab_Constructed s' = slab_Constructed s" "occupancy s = Suc (occupancy s')"
      "allocated ?S (ys @ s' # zs) = allocated ?S (cache_SlabList c) - {x}" .
    let ?c = "c\<lparr>cache_SlabList := ys @ zs\<rparr>"
    have sw: "slab_wf (slab_objects ?S) s" "slabs_wf ?S (ys @ s # zs)" using w(2) s(1) by simp_all
    have "occupancy s' < capacity s'" using s(7) slab_wfD(2,8) [OF sw(1)] slab_wfD(2) [OF s(4)] by simp
    moreover have "order_ok (cache_SlabList ?c)" using w(3) s(1) by simp
    ultimately obtain us vs where v: "ys @ zs = us @ vs" "order_ok (us @ s' # vs)"
      "CacheInsertSlab ?c s' = Some (?c\<lparr>cache_SlabList := us @ s' # vs, cache_Cursor := first_free (us @ s' # vs)\<rparr>)"
      by (elim CacheInsertSlab_law [of ?c s']) simp_all
    let ?d = "c\<lparr>cache_SlabList := us @ s' # vs, cache_Cursor := first_free (us @ s' # vs)\<rparr>"
    have sets: "set us \<union> set vs = set ys \<union> set zs" "length us + length vs = length ys + length zs"
      using v(1) by (metis set_append) (metis v(1) length_append)
    have "slabs_wf ?S (ys @ zs)" using sw(2) by auto
    then have "slabs_wf ?S (us @ vs)" using v(1) by simp
    moreover have "slab_Base s' \<notin> slab_Base ` (set us \<union> set vs)" unfolding sets(1) using sw(2) s(5) by auto
    ultimately have "slabs_wf ?S (us @ s' # vs)" using s(4) by auto
    then have ld: "lists_wf ?d" using w v(2) s(1) sets(2) by (simp add: lists_wf_def)
    have "allocated ?S (us @ s' # vs) = allocated ?S (ys @ s' # zs)"
      "constructed ?S (us @ s' # vs) = constructed ?S (ys @ s # zs)"
    proof -
      have "allocated ?S us \<union> allocated ?S vs = allocated ?S (us @ vs)"
        "constructed ?S us \<union> constructed ?S vs = constructed ?S (us @ vs)" by simp_all
      then have "allocated ?S us \<union> allocated ?S vs = allocated ?S ys \<union> allocated ?S zs"
        "constructed ?S us \<union> constructed ?S vs = constructed ?S ys \<union> constructed ?S zs"
        unfolding v(1) [symmetric] by simp_all
      moreover have "constructed_in ?S s' = constructed_in ?S s" using s(5,6) by (simp add: constructed_in_def)
      ultimately show "allocated ?S (us @ s' # vs) = allocated ?S (ys @ s' # zs)"
        "constructed ?S (us @ s' # vs) = constructed ?S (ys @ s # zs)" by auto
    qed
    note same = this
    have mags: "mags_wf ?d" "held ?d = held c - {x}"
      using m alloc same(1) s(8) by (auto simp: mags_wf_def held_def)
    have nth: "cache_SlabList c ! length ys = s" using s(1) by simp
    have "CachePut Index c x = Some (?d\<lparr>cache_CurrentObjects := s32 (cache_CurrentObjects c - 1)\<rparr>)"
      using Index full(1) x0 n(1) s(1,3) nth s(2) v(3) CacheAudit_lists [OF ld]
      by (simp add: CachePut_def Ms(3) cache_magazine_same [OF Ms(3)])
    moreover have "cache_wf (?d\<lparr>cache_CurrentObjects := s32 (cache_CurrentObjects c - 1)\<rparr>)"
      using cache_wf_count [of ?d] ld mags n(2) by simp
    ultimately show ?thesis using mags(2) same(2) s(1)
      by (intro exI [of _ "?d\<lparr>cache_CurrentObjects := s32 (cache_CurrentObjects c - 1)\<rparr>"]) (simp add: held_def)
  qed
qed

section \<open>Filling and spilling\<close>

text \<open>The allocator's answers in the rounds of a fill: pages that are aligned, new and distinct.\<close>

definition mems_ok :: "(nat \<Rightarrow> slab_mem) \<Rightarrow> nat \<Rightarrow> XENBUS_CACHE_SLAB list \<Rightarrow> bool" where
  "mems_ok mems k ss \<longleftrightarrow> (\<forall>i \<ge> k. mem_ok (mems i) ss \<and>
     (\<forall>j > i. fst (mems j) = fst (mems i) \<longrightarrow> fst (mems i) = None))"

lemma mem_ok_alt: "mem_ok mem ss \<longleftrightarrow> fst mem = None \<or>
    (\<exists>B. fst mem = Some B \<and> base_ok B \<and> fst mem \<notin> Some ` slab_Base ` set ss)"
  by (auto simp: mem_ok_def split: option.splits)

lemma mems_ok_Suc:
  assumes "mems_ok mems k ss" and "Some ` slab_Base ` set ss' = insert (fst (mems k)) (Some ` slab_Base ` set ss)"
  shows "mems_ok mems (Suc k) ss'"
  unfolding mems_ok_def
proof (intro allI impI)
  fix i assume "Suc k \<le> i"
  then have "k \<le> i" "k < i" by simp_all
  have i: "mem_ok (mems i) ss" "\<forall>j > i. fst (mems j) = fst (mems i) \<longrightarrow> fst (mems i) = None"
    using assms(1) \<open>k \<le> i\<close> by (simp_all add: mems_ok_def)
  have "fst (mems i) = fst (mems k) \<longrightarrow> fst (mems k) = None"
    using assms(1) \<open>k < i\<close> by (simp add: mems_ok_def)
  then have "mem_ok (mems i) ss'" using i(1) by (auto simp: mem_ok_alt assms(2))
  with i(2) show "mem_ok (mems i) ss' \<and> (\<forall>j > i. fst (mems j) = fst (mems i) \<longrightarrow> fst (mems i) = None)"
    by simp
qed

lemma fill_loop_law:
  assumes "lists_wf c" and "Count + slab_objects (cache_Size c) < 2 ^ 31" and "mems_ok mems k (cache_SlabList c)"
  shows "\<exists>st c'. fill_loop mems k Count c = Some (st, c') \<and> lists_wf c' \<and> cache_Size c' = cache_Size c \<and>
     cache_Magazine c' = cache_Magazine c \<and> cache_MagazineCount c' = cache_MagazineCount c \<and>
     cache_CurrentObjects c' = cache_CurrentObjects c \<and>
     allocated (cache_Size c) (cache_SlabList c') = allocated (cache_Size c) (cache_SlabList c) \<and>
     constructed (cache_Size c) (cache_SlabList c') = constructed (cache_Size c) (cache_SlabList c) \<and>
     cache_Count c \<le> cache_Count c' \<and> (NT_SUCCESS st \<longrightarrow> Count \<le> cache_Count c')"
  using assms
proof (induction "Count - cache_Count c" arbitrary: c k rule: less_induct)
  case less
  show ?case
  proof (cases "cache_Count c < Count")
    case False
    then show ?thesis using less.prems by (subst fill_loop.simps) simp
  next
    case True
    then have room: "cache_Count c + slab_objects (cache_Size c) < 2 ^ 31" using less.prems(2) by simp
    have mem: "mem_ok (mems k) (cache_SlabList c)" using less.prems(3) by (simp add: mems_ok_def)
    show ?thesis
    proof (cases rule: CacheCreateSlab_law [OF less.prems(1) room mem, case_names failed created])
      case (failed st)
      then show ?thesis using True less.prems(1) by (subst fill_loop.simps) simp
    next
      case (created d)
      have n: "0 < slab_objects (cache_Size c)"
        using lists_wfD(1) [OF less.prems(1)] by (simp add: size_ok_def)
      have "fill_loop mems k Count c = fill_loop mems (Suc k) Count d"
        using True created(1) by (subst fill_loop.simps) simp
      moreover have "Count - cache_Count d < Count - cache_Count c" using True created n by simp
      moreover have "mems_ok mems (Suc k) (cache_SlabList d)" by (rule mems_ok_Suc [OF less.prems(3)]) (rule created)
      ultimately show ?thesis using less.hyps [of d "Suc k"] created less.prems(2) by auto
    qed
  qed
qed

lemma CacheFill_law:
  assumes wf: "cache_wf c" and "Count + slab_objects (cache_Size c) < 2 ^ 31" and "mems_ok mems 0 (cache_SlabList c)"
  shows "\<exists>st c'. CacheFill mems c Count = Some (st, c') \<and> cache_wf c' \<and> held c' = held c \<and>
     constructed (cache_Size c') (cache_SlabList c') = constructed (cache_Size c) (cache_SlabList c) \<and>
     cache_Size c' = cache_Size c \<and> cache_MagazineCount c' = cache_MagazineCount c \<and>
     cache_Count c \<le> cache_Count c' \<and> (NT_SUCCESS st \<longrightarrow> Count \<le> cache_Count c')"
proof -
  have "lists_wf c" using wf by (simp add: cache_wf_def)
  from fill_loop_law [OF this assms(2,3)] obtain st d where
    d: "fill_loop mems 0 Count c = Some (st, d)" "lists_wf d" "cache_Size d = cache_Size c"
     "cache_Magazine d = cache_Magazine c" "cache_MagazineCount d = cache_MagazineCount c"
     "cache_CurrentObjects d = cache_CurrentObjects c"
     "allocated (cache_Size c) (cache_SlabList d) = allocated (cache_Size c) (cache_SlabList c)"
     "constructed (cache_Size c) (cache_SlabList d) = constructed (cache_Size c) (cache_SlabList c)"
     "cache_Count c \<le> cache_Count d" "NT_SUCCESS st \<longrightarrow> Count \<le> cache_Count d" by blast
  have "CacheFill mems c Count = Some (st, d)"
    using d(1) CacheAudit_lists [OF d(2)] by (simp add: CacheFill_def)
  moreover have "held d = held c" using d by (simp add: held_def)
  moreover from this have "cache_wf d" using wf d by (simp add: cache_wf_def mags_wf_def)
  ultimately show ?thesis using d by (intro exI [of _ st] exI [of _ d]) simp
qed

lemma destroy_objects_law:
  assumes client: "dtor_ok P Dtor" and Size: "0 < Size"
  shows "mask_wf C \<Longrightarrow> k \<le> mask_Size C \<Longrightarrow> mask_bits C \<subseteq> {0 ..< k} \<Longrightarrow> P X w \<Longrightarrow>
     object_at Size Base ` mask_bits C \<subseteq> X \<Longrightarrow>
     \<exists>C' w'. destroy_objects Dtor Base Size k C w = Some (C', w') \<and> mask_Count C' = 0 \<and>
       P (X - object_at Size Base ` mask_bits C) w'"
proof (induction k arbitrary: C w X)
  case 0
  then show ?case by (simp add: mask_wf_def)
next
  case (Suc k)
  have test: "CacheMaskTest C k = Some (k \<in> mask_bits C)" using Suc.prems(2) by (simp add: CacheMaskTest_bits)
  show ?case
  proof (cases "k \<in> mask_bits C")
    case False
    with Suc.prems(3) have "mask_bits C \<subseteq> {0 ..< k}" by (auto simp: less_Suc_eq)
    then show ?thesis using False test Suc.IH [OF Suc.prems(1) _ _ Suc.prems(4,5)] Suc.prems(2) by simp
  next
    case True
    let ?x = "object_at Size Base k"
    from True Suc.prems(5) have "?x \<in> X" by blast
    from dtor_okD [OF client Suc.prems(4) this] obtain w' where w': "Dtor ?x w = Some w'" "P (X - {?x}) w'"
      by blast
    from CacheMaskClear_bits [OF Suc.prems(1) True] obtain C' where C': "CacheMaskClear C k = Some C'" "mask_wf C'"
      "mask_Size C' = mask_Size C" "mask_bits C' = mask_bits C - {k}" by blast
    have sub: "mask_bits C' \<subseteq> {0 ..< k}" "object_at Size Base ` mask_bits C' \<subseteq> X - {?x}"
      using C'(4) Suc.prems(3,5) object_at_inj [OF Size] by (auto simp: less_Suc_eq)
    have "k \<le> mask_Size C'" using C'(3) Suc.prems(2) by simp
    from Suc.IH [OF C'(2) this sub(1) w'(2) sub(2)] obtain D v where
      D: "destroy_objects Dtor Base Size k C' w' = Some (D, v)" "mask_Count D = 0"
        "P (X - {?x} - object_at Size Base ` mask_bits C') v" by blast
    moreover have "X - {?x} - object_at Size Base ` mask_bits C' = X - object_at Size Base ` mask_bits C"
      using True C'(4) by auto
    ultimately show ?thesis using True test w'(1) C'(1) by (simp add: object_at_def)
  qed
qed

lemma CacheAudit_slabs [simp]: "CacheAudit (c\<lparr>cache_CurrentSlabs := n\<rparr>) = CacheAudit c"
  by (simp add: CacheAudit_def)

text \<open>Destroying the last slab of the list, when it is empty.\<close>

lemma CacheDestroySlab_law:
  assumes l: "lists_wf c" and s: "cache_SlabList c = ys @ [s]" and empty: "occupancy s = 0"
    and client: "dtor_ok P Dtor" and w: "P (constructed (cache_Size c) (cache_SlabList c)) w"
  shows "\<exists>c' w'. CacheDestroySlab Dtor (length ys) c w = Some (c', w') \<and> lists_wf c' \<and>
     cache_SlabList c' = ys \<and> P (constructed (cache_Size c) ys) w' \<and>
     cache_Size c' = cache_Size c \<and> cache_Magazine c' = cache_Magazine c \<and>
     cache_MagazineCount c' = cache_MagazineCount c \<and> cache_CurrentObjects c' = cache_CurrentObjects c \<and>
     cache_Count c' = cache_Count c - slab_objects (cache_Size c) \<and>
     allocated (cache_Size c) ys = allocated (cache_Size c) (cache_SlabList c)"
proof -
  let ?S = "cache_Size c" and ?n = "slab_objects (cache_Size c)"
  note L = lists_wfD [OF l]
  have pos: "0 < ?S" "0 < ?n" using L(1) by (simp_all add: size_ok_def)
  have sw: "slab_wf ?n s" "slabs_wf ?S ys" using L(2) s by simp_all
  note S = slab_wfD [OF sw(1)]
  have noalloc: "mask_bits (slab_Allocated s) = {}" using empty S(4) by (simp add: mask_wf_def)
  have "first_free (cache_SlabList c) = (case first_free ys of Some k \<Rightarrow> Some k | None \<Rightarrow> Some (length ys))"
    using s empty S(2) pos by (simp split: option.split)
  then have cur: "unlinked (length ys) (if cache_Cursor c = Some (length ys)
      then flink (cache_SlabList c) (Some (length ys)) else cache_Cursor c) = first_free ys"
  proof (cases "first_free ys")
    case None
    with \<open>first_free (cache_SlabList c) = _\<close> L(4) s show ?thesis by simp
  next
    case (Some k)
    from first_free_SomeD [OF Some] have "k < length ys" by auto
    with Some \<open>first_free (cache_SlabList c) = _\<close> L(4) show ?thesis by simp
  qed
  define c' where "c' = c\<lparr>cache_Count := cache_Count c - ?n, cache_SlabList := ys, cache_Cursor := first_free ys,
      cache_CurrentSlabs := s32 (cache_CurrentSlabs c - 1)\<rparr>"
  have len: "cache_CurrentSlabs c = int (length ys) + 1" "cache_Count c = ?n * length ys + ?n"
    using L(5,7) s by simp_all
  have "length ys \<le> ?n * length ys" using pos by simp
  then have "length ys < 2 ^ 31" using len(2) L(6) by linarith
  then have dec: "s32 (cache_CurrentSlabs c - 1) = int (length ys)" unfolding len(1) by (simp add: s32_def)
  have wf': "lists_wf c'" using L s sw(2) dec len(2) by (simp add: lists_wf_def c'_def)
  have X: "object_at ?S (slab_Base s) ` mask_bits (slab_Constructed s) \<subseteq> constructed ?S (cache_SlabList c)"
    using s by (auto simp: constructed_in_def)
  have sub: "mask_bits (slab_Constructed s) \<subseteq> {0 ..< ?n}" using mask_bits_sub [of "slab_Constructed s"] S(1) by simp
  from destroy_objects_law [OF client pos(1) S(3) _ sub w X] obtain C w' where
    C: "destroy_objects Dtor (slab_Base s) ?S ?n (slab_Constructed s) w = Some (C, w')" "mask_Count C = 0"
      "P (constructed ?S (cache_SlabList c) - object_at ?S (slab_Base s) ` mask_bits (slab_Constructed s)) w'"
    using S(1) by auto
  have "constructed ?S (cache_SlabList c) - object_at ?S (slab_Base s) ` mask_bits (slab_Constructed s) = constructed ?S ys"
  proof -
    have "x \<notin> constructed ?S ys" if "x \<in> constructed_in ?S s" for x
    proof -
      from that obtain i where "x = object_at ?S (slab_Base s) i" "i < ?n"
        using sub by (auto simp: constructed_in_def)
      with object_in_list(4) [OF L(1), of ys s "[]"] L(2) s show ?thesis by simp
    qed
    then show ?thesis using s by (auto simp: constructed_in_def)
  qed
  with C(3) have P': "P (constructed ?S ys) w'" by simp
  have "CacheAudit c' = Some ()" by (rule CacheAudit_lists [OF wf'])
  then have audit: "CacheAudit (c\<lparr>cache_Count := cache_Count c - ?n, cache_SlabList := ys, cache_Cursor := first_free ys\<rparr>) = Some ()"
    by (simp add: c'_def)
  have "CacheDestroySlab Dtor (length ys) c w = Some (c', w')"
    using s cur audit C(1,2) S(1,2) len empty
    by (cases "cache_Cursor c = Some (length ys)")
      (simp_all add: CacheDestroySlab_def Let_def remove_nth_def CacheMaskDestroy_def c'_def ASSERT_def)
  moreover have "allocated ?S ys = allocated ?S (cache_SlabList c)"
    using s noalloc by (simp add: allocated_in_def)
  ultimately show ?thesis using wf' P' by (intro exI [of _ c'] exI [of _ w']) (simp add: c'_def)
qed

lemma spill_loop_law:
  assumes "lists_wf c" and "dtor_ok P Dtor" and "P (constructed (cache_Size c) (cache_SlabList c)) w"
  shows "\<exists>c' w'. spill_loop Dtor Count c w = Some (c', w') \<and> lists_wf c' \<and>
     P (constructed (cache_Size c) (cache_SlabList c')) w' \<and>
     cache_Size c' = cache_Size c \<and> cache_Magazine c' = cache_Magazine c \<and>
     cache_MagazineCount c' = cache_MagazineCount c \<and> cache_CurrentObjects c' = cache_CurrentObjects c \<and>
     allocated (cache_Size c) (cache_SlabList c') = allocated (cache_Size c) (cache_SlabList c) \<and>
     (\<exists>zs. cache_SlabList c = cache_SlabList c' @ zs) \<and> (Count \<le> cache_Count c \<longrightarrow> Count \<le> cache_Count c') \<and>
     (cache_SlabList c' = [] \<or> occupancy (last (cache_SlabList c')) \<noteq> 0 \<or>
      cache_Count c' < Count + slab_objects (cache_Size c))"
  using assms
proof (induction "length (cache_SlabList c)" arbitrary: c w rule: less_induct)
  case less
  note L = lists_wfD [OF less.prems(1)]
  show ?case
  proof (cases "cache_SlabList c" rule: rev_cases)
    case Nil
    then show ?thesis using less.prems by (subst spill_loop.simps) simp
  next
    case (snoc ys s)
    let ?n = "slab_objects (cache_Size c)"
    have "slab_wf ?n s" using L(2) snoc by simp
    then have cap: "capacity s = ?n" by (rule slab_wfD(2))
    have count: "?n \<le> cache_Count c" using L(5) snoc by simp
    have step: "spill_loop Dtor Count c w =
        (if occupancy s \<noteq> 0 then Some (c, w)
         else if cache_Count c - ?n < Count then Some (c, w)
         else Option.bind (CacheDestroySlab Dtor (length ys) c w) (\<lambda>(c', w'). spill_loop Dtor Count c' w'))"
      using snoc cap count by (subst spill_loop.simps) simp
    show ?thesis
    proof (cases "occupancy s = 0 \<and> Count \<le> cache_Count c - ?n")
      case False
      have "spill_loop Dtor Count c w = Some (c, w)"
      proof (cases "occupancy s = 0")
        case True
        with False show ?thesis unfolding step by simp
      next
        case no: False
        then show ?thesis unfolding step by simp
      qed
      moreover have "occupancy (last (cache_SlabList c)) \<noteq> 0 \<or> cache_Count c < Count + ?n"
        using False snoc count by auto
      ultimately show ?thesis using less.prems by (intro exI [of _ c] exI [of _ w]) simp
    next
      case True
      then have empty: "occupancy s = 0" by simp
      from CacheDestroySlab_law [OF less.prems(1) snoc empty less.prems(2,3)] obtain d v where
        d: "CacheDestroySlab Dtor (length ys) c w = Some (d, v)" "lists_wf d" "cache_SlabList d = ys"
          "P (constructed (cache_Size c) ys) v" "cache_Size d = cache_Size c" "cache_Magazine d = cache_Magazine c"
          "cache_MagazineCount d = cache_MagazineCount c" "cache_CurrentObjects d = cache_CurrentObjects c"
          "cache_Count d = cache_Count c - ?n" "allocated (cache_Size c) ys = allocated (cache_Size c) (cache_SlabList c)"
        by blast
      have eq: "spill_loop Dtor Count c w = spill_loop Dtor Count d v"
        using d(1) True unfolding step by simp
      have "length (cache_SlabList d) < length (cache_SlabList c)" using d(3) snoc by simp
      moreover have "P (constructed (cache_Size d) (cache_SlabList d)) v" using d(3,4,5) by simp
      ultimately obtain e u where e: "spill_loop Dtor Count d v = Some (e, u)" "lists_wf e"
          "P (constructed (cache_Size d) (cache_SlabList e)) u" "cache_Size e = cache_Size d"
          "cache_Magazine e = cache_Magazine d" "cache_MagazineCount e = cache_MagazineCount d"
          "cache_CurrentObjects e = cache_CurrentObjects d"
          "allocated (cache_Size d) (cache_SlabList e) = allocated (cache_Size d) (cache_SlabList d)"
          "\<exists>zs. cache_SlabList d = cache_SlabList e @ zs" "Count \<le> cache_Count d \<longrightarrow> Count \<le> cache_Count e"
          "cache_SlabList e = [] \<or> occupancy (last (cache_SlabList e)) \<noteq> 0 \<or>
           cache_Count e < Count + slab_objects (cache_Size d)"
        using less.hyps [of d v] d(2) less.prems(2) by blast
      have "\<exists>zs. cache_SlabList c = cache_SlabList e @ zs" using e(9) d(3) snoc by auto
      moreover have "Count \<le> cache_Count e" using e(10) d(9) True by simp
      ultimately show ?thesis
        using e d eq by (intro exI [of _ e] exI [of _ u]) simp
    qed
  qed
qed

lemma CacheSpill_law:
  assumes wf: "cache_wf c" and client: "dtor_ok P Dtor"
    and w: "P (constructed (cache_Size c) (cache_SlabList c)) w"
  shows "\<exists>c' w'. CacheSpill Dtor c w Count = Some (c', w') \<and> cache_wf c' \<and> held c' = held c \<and>
     P (constructed (cache_Size c') (cache_SlabList c')) w' \<and>
     cache_Size c' = cache_Size c \<and> cache_MagazineCount c' = cache_MagazineCount c \<and>
     (Count \<le> cache_Count c \<longrightarrow> Count \<le> cache_Count c') \<and>
     (cache_Count c' \<le> Count \<or> cache_SlabList c' = [] \<or> occupancy (last (cache_SlabList c')) \<noteq> 0 \<or>
      cache_Count c' < Count + slab_objects (cache_Size c))"
proof (cases "cache_Count c \<le> Count")
  case True
  then show ?thesis using wf w by (simp add: CacheSpill_def)
next
  case False
  have l: "lists_wf c" using wf by (simp add: cache_wf_def)
  from spill_loop_law [OF l client w, of Count] obtain d v where
    d: "spill_loop Dtor Count c w = Some (d, v)" "lists_wf d"
     "P (constructed (cache_Size c) (cache_SlabList d)) v"
     "cache_Size d = cache_Size c" "cache_Magazine d = cache_Magazine c"
     "cache_MagazineCount d = cache_MagazineCount c" "cache_CurrentObjects d = cache_CurrentObjects c"
     "allocated (cache_Size c) (cache_SlabList d) = allocated (cache_Size c) (cache_SlabList c)"
     "Count \<le> cache_Count c \<longrightarrow> Count \<le> cache_Count d"
     "cache_SlabList d = [] \<or> occupancy (last (cache_SlabList d)) \<noteq> 0 \<or>
      cache_Count d < Count + slab_objects (cache_Size c)" by blast
  have "CacheSpill Dtor c w Count = Some (d, v)"
    using False d(1) CacheAudit_lists [OF d(2)] by (simp add: CacheSpill_def)
  moreover have "held d = held c" using d by (simp add: held_def)
  moreover from this have "cache_wf d" using wf d by (simp add: cache_wf_def mags_wf_def)
  ultimately show ?thesis using d by (intro exI [of _ d] exI [of _ v]) simp
qed

section \<open>The interface\<close>

text \<open>
  The contract of an object cache, over any state: \<open>held\<close> are the objects that have been handed out,
  a get hands out a new one (or none), a put takes one back. \<open>ok\<close> is what has to be true of the
  environment of a step (the processor number, the allocator's answer).
\<close>

datatype 'e cache_op = OpGet 'e | OpPut 'e nat

locale object_cache =
  fixes inv :: "'s \<Rightarrow> bool" and held_of :: "'s \<Rightarrow> nat set" and ok :: "'e \<Rightarrow> 's \<Rightarrow> bool"
    and get :: "'e \<Rightarrow> 's \<Rightarrow> (nat \<times> 's) kernel" and put :: "'e \<Rightarrow> 's \<Rightarrow> nat \<Rightarrow> 's kernel"
  assumes get_law: "inv s \<Longrightarrow> ok e s \<Longrightarrow> \<exists>x s'. get e s = Some (x, s') \<and> inv s' \<and>
      (if x = 0 then held_of s' = held_of s else x \<notin> held_of s \<and> held_of s' = insert x (held_of s))"
    and put_law: "inv s \<Longrightarrow> ok e s \<Longrightarrow> x \<in> held_of s \<Longrightarrow>
      \<exists>s'. put e s x = Some s' \<and> inv s' \<and> held_of s' = held_of s - {x}"
begin

text \<open>
  A client that remembers the objects it was given in \<open>H\<close> and puts only those back; a step whose
  environment is not \<open>ok\<close> does not happen. Handing out an object of \<open>H\<close> again would stop it.
\<close>

fun client :: "'e cache_op list \<Rightarrow> 's \<Rightarrow> nat set \<Rightarrow> ('s \<times> nat set) kernel" where
  "client [] s H = Some (s, H)"
| "client (OpGet e # ops) s H =
     (if \<not> ok e s then client ops s H
      else do {
        (x, s') \<leftarrow> get e s;
        (if x = 0 then client ops s' H
         else if x \<in> H then None
         else client ops s' (insert x H))
      })"
| "client (OpPut e x # ops) s H =
     (if \<not> ok e s \<or> x \<notin> H then client ops s H
      else do { s' \<leftarrow> put e s x; client ops s' (H - {x}) })"

lemma client_ok: "inv s \<Longrightarrow> held_of s = H \<Longrightarrow> \<exists>s' H'. client ops s H = Some (s', H') \<and> inv s' \<and> held_of s' = H'"
proof (induction ops arbitrary: s H)
  case (Cons op ops)
  show ?case
  proof (cases op)
    case (OpGet e)
    show ?thesis
    proof (cases "ok e s")
      case True
      from get_law [OF Cons.prems(1) True] obtain x s' where
        "get e s = Some (x, s')" "inv s'"
        "if x = 0 then held_of s' = held_of s else x \<notin> held_of s \<and> held_of s' = insert x (held_of s)" by blast
      with True OpGet Cons.prems Cons.IH [of s' "if x = 0 then H else insert x H"] show ?thesis
        by (cases "x = 0") simp_all
    qed (use OpGet Cons in simp)
  next
    case (OpPut e x)
    show ?thesis
    proof (cases "ok e s \<and> x \<in> H")
      case True
      then obtain s' where "put e s x = Some s'" "inv s'" "held_of s' = H - {x}"
        using put_law [OF Cons.prems(1), of e x] Cons.prems(2) by auto
      with True OpPut Cons.IH [of s' "H - {x}"] show ?thesis by simp
    qed (use OpPut Cons in auto)
  qed
qed simp

end

text \<open>The cache of a client whose callbacks keep their side of the contract.\<close>

locale slab_client =
  fixes P :: "nat set \<Rightarrow> 'w \<Rightarrow> bool" and Ctor :: "'w ctor" and Dtor :: "'w dtor"
  assumes ctor: "ctor_ok P Ctor" and dtor: "dtor_ok P Dtor"
begin

definition state_ok :: "XENBUS_CACHE \<times> 'w \<Rightarrow> bool" where
  "state_ok s \<longleftrightarrow> cache_wf (fst s) \<and> P (constructed (cache_Size (fst s)) (cache_SlabList (fst s))) (snd s)"

definition env_ok :: "nat \<times> slab_mem \<Rightarrow> XENBUS_CACHE \<times> 'w \<Rightarrow> bool" where
  "env_ok e s \<longleftrightarrow> fst e < cache_MagazineCount (fst s) \<and> mem_ok (snd e) (cache_SlabList (fst s)) \<and>
     cache_Count (fst s) + slab_objects (cache_Size (fst s)) < 2 ^ 31"

definition get_op :: "nat \<times> slab_mem \<Rightarrow> XENBUS_CACHE \<times> 'w \<Rightarrow> (nat \<times> XENBUS_CACHE \<times> 'w) kernel" where
  "get_op e s = CacheGet Ctor (snd e) (fst e) (fst s) (snd s)"

definition put_op :: "nat \<times> slab_mem \<Rightarrow> XENBUS_CACHE \<times> 'w \<Rightarrow> nat \<Rightarrow> (XENBUS_CACHE \<times> 'w) kernel" where
  "put_op e s x = Option.bind (CachePut (fst e) (fst s) x) (\<lambda>c. Some (c, snd s))"

end

sublocale slab_client \<subseteq> objects: object_cache state_ok "\<lambda>s. held (fst s)" env_ok get_op put_op
proof
  fix s :: "XENBUS_CACHE \<times> 'w" and e x
  assume s: "state_ok s" and e: "env_ok e s"
  obtain c w where cw: "s = (c, w)" by (cases s)
  have pre: "cache_wf c" "fst e < cache_MagazineCount c" "P (constructed (cache_Size c) (cache_SlabList c)) w"
    "cache_Count c + slab_objects (cache_Size c) < 2 ^ 31" "mem_ok (snd e) (cache_SlabList c)"
    using s e cw by (simp_all add: state_ok_def env_ok_def)
  show "\<exists>x s'. get_op e s = Some (x, s') \<and> state_ok s' \<and>
      (if x = 0 then held (fst s') = held (fst s) else x \<notin> held (fst s) \<and> held (fst s') = insert x (held (fst s)))"
    using CacheGet_law [OF pre(1,2) ctor pre(3,4,5)] cw by (force simp: get_op_def state_ok_def)
  assume "x \<in> held (fst s)"
  then show "\<exists>s'. put_op e s x = Some s' \<and> state_ok s' \<and> held (fst s') = held (fst s) - {x}"
    using CachePut_law [OF pre(1,2), of x] pre(3) cw by (force simp: put_op_def state_ok_def)
qed

section \<open>Which object sizes work\<close>

lemma slab_bytes_eq:
  assumes "Size \<le> 2 ^ 30"
  shows "slab_bytes Size = (SLAB_BUFFER + Size + 4095) div 4096 * 4096"
proof -
  have "(of_nat PAGE_SIZE :: 32 word) = 2 ^ 12" by (simp add: PAGE_SIZE_def)
  moreover have "SLAB_BUFFER + Size + 2 ^ 12 \<le> 2 ^ 32" using assms by (simp add: SLAB_BUFFER_def)
  ultimately show ?thesis
    using P2ROUNDUP_unat [of 12 "SLAB_BUFFER + Size"] by (simp add: slab_bytes_def SLAB_BUFFER_def)
qed

lemma slab_objects_eq: "Size \<le> 2 ^ 30 \<Longrightarrow> slab_objects Size = ((Size + 4143) div 4096 * 4096 - 48) div Size"
  by (simp add: slab_objects_def slab_bytes_eq SLAB_BUFFER_def add.commute)

lemma slab_objects_small:
  assumes "0 < Size" and "Size \<le> 4048"
  shows "slab_objects Size = 4048 div Size"
proof -
  have "(Size + 4143) div 4096 = 1" using assms by linarith
  then show ?thesis using assms by (simp add: slab_objects_eq)
qed

lemma slab_objects_big:
  assumes "4048 < Size" and "Size \<le> 2 ^ 30"
  shows "slab_objects Size = (if Size \<le> 4072 then 2 else 1)"
proof -
  define k where "k = (Size + 4143) div 4096"
  have k: "2 \<le> k" "k * 4096 \<le> Size + 4143" "Size + 47 < k * 4096" using assms(1) by (auto simp: k_def)
  have eq: "slab_objects Size = (k * 4096 - 48) div Size" using slab_objects_eq [OF assms(2)] by (simp add: k_def)
  show ?thesis
  proof (cases "Size \<le> 4072")
    case True
    then have "k = 2" using assms(1) by (simp add: k_def)
    moreover have "(2 * 4096 - 48) div Size = 2" by (rule div_nat_eqI) (use True assms(1) in simp_all)
    ultimately show ?thesis using True eq by simp
  next
    case False
    have "k * 4096 - 48 < 2 * Size"
    proof (cases "Size \<le> 4095 + 1")
      case True
      then have "k = 2" using assms(1) by (simp add: k_def)
      then show ?thesis using False by simp
    next
      case False
      then show ?thesis using k(2) by linarith
    qed
    then have "(k * 4096 - 48) div Size = 1" using k(3) assms(1) by (intro div_nat_eqI) simp_all
    then show ?thesis using False eq by simp
  qed
qed

lemma size_ok_small:
  assumes "0 < Size" and "Size \<le> 4048"
  shows "size_ok Size"
proof -
  have n: "slab_objects Size = 4048 div Size" by (rule slab_objects_small [OF assms])
  have "0 < 4048 div Size" using assms by (simp add: div_greater_zero_iff)
  moreover have "4048 div Size < 2 ^ 31" by (rule le_less_trans [OF div_le_dividend]) simp
  moreover have "(4048 div Size - 1) * Size \<le> 4048 - Size"
    using div_times_less_eq_dividend [of 4048 Size] by (simp only: diff_mult_distrib mult_1 diff_le_mono)
  moreover have "48 + (4048 div Size - 1) * Size < 4096" using calculation(3) assms by linarith
  ultimately show ?thesis using assms(1) unfolding size_ok_def n SLAB_BUFFER_def PAGE_SIZE_def by simp
qed

lemma size_ok_iff:
  assumes "0 < Size" and "Size \<le> 2 ^ 30"
  shows "size_ok Size \<longleftrightarrow> \<not> (4048 < Size \<and> Size \<le> 4072)"
proof (cases "Size \<le> 4048")
  case True
  with size_ok_small [OF assms(1)] show ?thesis by simp
next
  case False
  then show ?thesis
    using slab_objects_big [of Size] assms by (auto simp: size_ok_def SLAB_BUFFER_def PAGE_SIZE_def)
qed

section \<open>A small cache, for the properties on concrete runs\<close>

definition trivial_ctor :: "unit ctor" where
  "trivial_ctor = (\<lambda>x w. Some (STATUS_SUCCESS, w))"

definition trivial_dtor :: "unit dtor" where
  "trivial_dtor = (\<lambda>x w. Some w)"

definition sample_slab :: "nat \<Rightarrow> nat \<Rightarrow> 32 word \<Rightarrow> XENBUS_CACHE_SLAB" where
  "sample_slab Base n m = \<lparr>slab_Base = Base,
     slab_Constructed = \<lparr>mask_Size = 2, mask_Count = n, mask_Mask = [m]\<rparr>,
     slab_Allocated = \<lparr>mask_Size = 2, mask_Count = n, mask_Mask = [m]\<rparr>\<rparr>"

definition sample_cache :: "XENBUS_CACHE_SLAB list \<Rightarrow> ptr \<Rightarrow> nat list \<Rightarrow> int \<Rightarrow> int \<Rightarrow> XENBUS_CACHE" where
  "sample_cache ss p M n m = \<lparr>cache_Name = ''sample'', cache_Size = 2000, cache_Reservation = 0,
      cache_Cap = 4294967295, cache_SlabList = ss, cache_Cursor = p, cache_Count = 2 * length ss,
      cache_Magazine = [M], cache_MagazineCount = 1, cache_CurrentSlabs = int (length ss),
      cache_MaximumSlabs = int (length ss), cache_CurrentObjects = n, cache_MaximumObjects = m\<rparr>"

lemma sample_slab_simps [simp]:
  "mask_Count (slab_Allocated (sample_slab B n m)) = n"
  "mask_Size (slab_Allocated (sample_slab B n m)) = 2" "slab_Base (sample_slab B n m) = B"
  by (simp_all add: sample_slab_def)

lemma slab_objects_2000: "slab_objects 2000 = 2"
  by (simp add: slab_objects_small)

lemma CacheMaskCreate_2: "CacheMaskCreate True 2 = Some \<lparr>mask_Size = 2, mask_Count = 0, mask_Mask = [0]\<rparr>"
  by (simp add: CacheMaskCreate_def P2ROUNDUP_def BITS_PER_ULONG_def)

lemma replicate_samples: "replicate 6 (0::nat) = [0, 0, 0, 0, 0, 0]" "replicate 1 x = [x]"
  by (simp_all add: numeral_eq_Suc)

lemma P2ROUNDUP_2000: "unat (P2ROUNDUP 2000 8) = 2000"
  by (simp add: P2ROUNDUP_def)

lemmas mask_eval = CacheMaskTest_def CacheMaskSet_def CacheMaskClear_def BITS_PER_ULONG_def

lemmas magazine_eval = CacheGetObjectFromMagazine_def CachePutObjectToMagazine_def
  XENBUS_CACHE_MAGAZINE_SLOTS_def first_from.simps

lemma sample_create:
  "CacheCreate True STATUS_SUCCESS mems True 1 trivial_dtor ''sample'' 2000 0 0 () =
     Some (STATUS_SUCCESS, Some (sample_cache [] None [0, 0, 0, 0, 0, 0] 0 0))"
  by (simp add: CacheCreate_def CacheFill_def fill_loop.simps sample_cache_def zero_CACHE_def
      CacheAudit_def P2ROUNDUP_2000 XENBUS_CACHE_MAGAZINE_SLOTS_def replicate_samples ASSERT_def)

lemma sample_take:
  "CacheGetObjectFromSlab trivial_ctor 2000 (sample_slab B 0 0) () = Some (B + 48, sample_slab B 1 1, ())"
  "CacheGetObjectFromSlab trivial_ctor 2000 (sample_slab B 1 1) () = Some (B + 2048, sample_slab B 2 3, ())"
  by (simp_all add: CacheGetObjectFromSlab_def sample_slab_def mask_eval first_from.simps SLAB_BUFFER_def
      trivial_ctor_def)

lemmas create_eval = CacheCreateSlab_def sample_cache_def slab_objects_2000 CacheMaskCreate_2
  CacheInsertSlab_def PAGE_ALIGN_def PAGE_SIZE_def s32_def

lemma sample_new:
  "CacheCreateSlab (Some 4096, True, True) (sample_cache [] None M n m) =
     Some (STATUS_SUCCESS, sample_cache [sample_slab 4096 0 0] (Some 0) M n m)"
  "CacheCreateSlab (Some 8192, True, True) (sample_cache [sample_slab 4096 2 3] None M n m) =
     Some (STATUS_SUCCESS, sample_cache [sample_slab 4096 2 3, sample_slab 8192 0 0] (Some 1) M n m)"
  by (simp_all add: create_eval sample_slab_def)

lemma sample_magazine: "CacheGetObjectFromMagazine [0, 0, 0, 0, 0, 0] = (0, [0, 0, 0, 0, 0, 0])"
  by (simp add: magazine_eval)

lemmas get_eval = CacheGet_def cache_get_locked_def cache_take_def sample_magazine sample_take
  CacheAudit_def count_get_def s32_def ASSERT_def

lemma sample_get1:
  "CacheGet trivial_ctor (Some 4096, True, True) 0 (sample_cache [] None [0, 0, 0, 0, 0, 0] 0 0) () =
     Some (4144, sample_cache [sample_slab 4096 1 1] (Some 0) [0, 0, 0, 0, 0, 0] 1 1, ())"
  using sample_new(1) [of "[0, 0, 0, 0, 0, 0]" 0 0] by (simp add: get_eval sample_cache_def)

lemma sample_get2:
  "CacheGet trivial_ctor mem 0 (sample_cache [sample_slab 4096 1 1] (Some 0) [0, 0, 0, 0, 0, 0] 1 1) () =
     Some (6144, sample_cache [sample_slab 4096 2 3] None [0, 0, 0, 0, 0, 0] 2 2, ())"
  using sample_take(2) [of 4096] by (simp add: get_eval sample_cache_def)

lemma sample_get3:
  "CacheGet trivial_ctor (Some 8192, True, True) 0 (sample_cache [sample_slab 4096 2 3] None [0, 0, 0, 0, 0, 0] 2 2) () =
     Some (8240, sample_cache [sample_slab 4096 2 3, sample_slab 8192 1 1] (Some 1) [0, 0, 0, 0, 0, 0] 3 3, ())"
  using sample_new(2) [of "[0, 0, 0, 0, 0, 0]" 2 2] sample_take(1) [of 8192]
  by (simp add: get_eval sample_cache_def)

lemma sample_puts:
  "CachePut 0 (sample_cache ss p [0, 0, 0, 0, 0, 0] 3 3) 4144 = Some (sample_cache ss p [4144, 0, 0, 0, 0, 0] 2 3)"
  "CachePut 0 (sample_cache ss p [4144, 0, 0, 0, 0, 0] 2 3) 6144 = Some (sample_cache ss p [4144, 6144, 0, 0, 0, 0] 1 3)"
  "CachePut 0 (sample_cache ss p [4144, 6144, 0, 0, 0, 0] 1 3) 8240 = Some (sample_cache ss p [4144, 6144, 8240, 0, 0, 0] 0 3)"
  by (simp_all add: CachePut_def magazine_eval sample_cache_def s32_def)

lemma sample_destroy:
  "CacheDestroy trivial_dtor (sample_cache [sample_slab 4096 2 3, sample_slab 8192 1 1] (Some 1)
     [4144, 6144, 8240, 0, 0, 0] 0 3) () = None"
  by (simp add: CacheDestroy_def CacheFlushMagazines_def upt_rec magazine_eval sample_cache_def
      flush_magazine_def PAGE_ALIGN_def PAGE_SIZE_def CachePutObjectToSlab_def SLAB_BUFFER_def sample_slab_def
      mask_eval Let_def CacheSpill_def spill_loop.simps CacheDestroySlab_def CacheAudit_def remove_nth_def)

text \<open>The same cache while it is being created with a reservation \<open>R\<close>.\<close>

definition sample_young :: "nat \<Rightarrow> XENBUS_CACHE_SLAB list \<Rightarrow> ptr \<Rightarrow> int \<Rightarrow> XENBUS_CACHE" where
  "sample_young R ss p m = \<lparr>cache_Name = ''sample'', cache_Size = 2000, cache_Reservation = R,
      cache_Cap = 4294967295, cache_SlabList = ss, cache_Cursor = p, cache_Count = 2 * length ss,
      cache_Magazine = [], cache_MagazineCount = 0, cache_CurrentSlabs = int (length ss),
      cache_MaximumSlabs = m, cache_CurrentObjects = 0, cache_MaximumObjects = 0\<rparr>"

definition one_page :: "nat \<Rightarrow> slab_mem" where
  "one_page k = (if k = 0 then Some 4096 else None, True, True)"

lemma sample_young_create:
  "CacheCreateSlab (one_page 0) (sample_young R [] None 0) =
     Some (STATUS_SUCCESS, sample_young R [sample_slab 4096 0 0] (Some 0) 1)"
  "CacheCreateSlab (one_page (Suc k)) (sample_young R [s] p m) = Some (STATUS_NO_MEMORY, sample_young R [s] p m)"
  by (simp_all add: create_eval sample_young_def sample_slab_def one_page_def)

lemma sample_young_count: "cache_Count (sample_young R ss p m) = 2 * length ss"
  by (simp add: sample_young_def)

lemma sample_young_audit: "CacheAudit (sample_young R [sample_slab B 0 0] (Some 0) m) = Some ()"
  "CacheAudit (sample_young R [] p m) = Some ()"
  by (simp_all add: CacheAudit_def sample_young_def ASSERT_def)

lemma sample_young_fill:
  "CacheFill one_page (sample_young R [] None 0) 3 =
     Some (STATUS_NO_MEMORY, sample_young R [sample_slab 4096 0 0] (Some 0) 1)"
  "CacheFill one_page (sample_young R [] None 0) 1 =
     Some (STATUS_SUCCESS, sample_young R [sample_slab 4096 0 0] (Some 0) 1)"
  by (simp_all add: CacheFill_def fill_loop.simps sample_young_create sample_young_count sample_young_audit
      del: One_nat_def)

lemma sample_young_destroy:
  "CacheDestroySlab trivial_dtor 0 (sample_young R [sample_slab 4096 0 0] (Some 0) m) () =
     Some (sample_young R [] None m, ())"
  by (simp add: CacheDestroySlab_def sample_young_def CacheAudit_def sample_slab_def mask_eval
      CacheMaskDestroy_def remove_nth_def numeral_2_eq_2 s32_def)

lemma sample_young_spill:
  "CacheSpill trivial_dtor (sample_young R [sample_slab 4096 0 0] (Some 0) m) () 0 = Some (sample_young R [] None m, ())"
proof -
  let ?c = "sample_young R [sample_slab 4096 0 0] (Some 0) m"
  have "spill_loop trivial_dtor 0 (sample_young R [] None m) () = Some (sample_young R [] None m, ())"
    by (subst spill_loop.simps) (simp add: sample_young_def)
  then have "spill_loop trivial_dtor 0 ?c () = Some (sample_young R [] None m, ())"
    using sample_young_destroy [of R m] by (subst spill_loop.simps) (simp add: sample_young_def)
  then show ?thesis by (simp add: CacheSpill_def sample_young_count sample_young_audit)
qed

text \<open>The empty cache and the cache with one slab are well formed; the client state is \<^typ>\<open>unit\<close>.\<close>

lemma trivial_client: "ctor_ok (\<lambda>X w. True) trivial_ctor" "dtor_ok (\<lambda>X w. True) trivial_dtor"
  by (simp_all add: ctor_ok_def dtor_ok_def trivial_ctor_def trivial_dtor_def)

lemma sample_wf: "cache_wf (sample_cache [] None [0, 0, 0, 0, 0, 0] 0 0)"
  "held (sample_cache [] None [0, 0, 0, 0, 0, 0] 0 0) = {}"
  by (simp_all add: cache_wf_def lists_wf_def mags_wf_def held_def sample_cache_def size_ok_small
      XENBUS_CACHE_MAGAZINE_SLOTS_def)

section \<open>Properties\<close>

text \<open>
  C3. \<^verbatim>\<open>CacheGet\<close> on a well-formed cache never fails an assertion and keeps the cache well formed
  (slabs in order of occupancy, cursor on the first with room, masks and counters right): it
  returns no object and hands out nothing, or an object that no client holds, which is then held.
  The client's constructor is called at most once for an object, before it is handed out.
\<close>

theorem CacheGet_correct:
  assumes "cache_wf c" and "Index < cache_MagazineCount c" and "ctor_ok P Ctor"
    and "P (constructed (cache_Size c) (cache_SlabList c)) w"
    and "cache_Count c + slab_objects (cache_Size c) < 2 ^ 31" and "mem_ok mem (cache_SlabList c)"
  shows "\<exists>x c' w'. CacheGet Ctor mem Index c w = Some (x, c', w') \<and> cache_wf c' \<and>
     P (constructed (cache_Size c') (cache_SlabList c')) w' \<and>
     (if x = 0 then held c' = held c else x \<notin> held c \<and> held c' = insert x (held c))"
  using CacheGet_law [OF assms] by blast

theorem CacheGet_correct_witness:
  "\<exists>c. CacheGet trivial_ctor (Some 4096, True, True) 0 (sample_cache [] None [0, 0, 0, 0, 0, 0] 0 0) () =
       Some (4144, c, ()) \<and> held c = {4144}"
proof -
  let ?c = "sample_cache [] None [0, 0, 0, 0, 0, 0] 0 0"
  have "mem_ok (Some 4096, True, True) (cache_SlabList ?c)"
    by (simp add: mem_ok_def base_ok_def PAGE_ALIGN_def PAGE_SIZE_def sample_cache_def)
  moreover have "0 < cache_MagazineCount ?c" "cache_Count ?c + slab_objects (cache_Size ?c) < 2 ^ 31"
    by (simp_all add: sample_cache_def slab_objects_2000)
  ultimately show ?thesis
    using CacheGet_correct [OF sample_wf(1) _ trivial_client(1), where Index = 0 and mem = "(Some 4096, True, True)"]
      sample_get1 sample_wf(2) by auto
qed

text \<open>
  C4. \<^verbatim>\<open>CachePut\<close> of a held object never fails an assertion, keeps the cache well formed, whether the
  object goes to the magazine or back to its slab, and takes exactly that object back; the
  constructed objects stay constructed.
\<close>

theorem CachePut_correct:
  assumes "cache_wf c" and "Index < cache_MagazineCount c" and "x \<in> held c"
  shows "\<exists>c'. CachePut Index c x = Some c' \<and> cache_wf c' \<and> held c' = held c - {x} \<and>
     constructed (cache_Size c') (cache_SlabList c') = constructed (cache_Size c) (cache_SlabList c)"
  using CachePut_law [OF assms] by blast

text \<open>
  \<^verbatim>\<open>CacheFill\<close> always returns. It leaves the objects that are held alone, and when it reports
  success there is room for \<open>Count\<close> objects; otherwise it keeps what it has created.
\<close>

theorem CacheFill_terminates:
  assumes "cache_wf c" and "Count + slab_objects (cache_Size c) < 2 ^ 31" and "mems_ok mems 0 (cache_SlabList c)"
  shows "\<exists>st c'. CacheFill mems c Count = Some (st, c') \<and> cache_wf c' \<and> held c' = held c \<and>
     cache_Count c \<le> cache_Count c' \<and> (NT_SUCCESS st \<longrightarrow> Count \<le> cache_Count c')"
  using CacheFill_law [OF assms] by blast

text \<open>
  \<^verbatim>\<open>CacheSpill\<close> always returns, frees only slabs without allocated objects (after calling the
  destructor on every constructed object of the slab), does not go below \<open>Count\<close>, and stops only
  when the cache is down to \<open>Count\<close>, empty, or its least occupied slab is in use or too big.
\<close>

theorem CacheSpill_correct:
  assumes "cache_wf c" and "dtor_ok P Dtor" and "P (constructed (cache_Size c) (cache_SlabList c)) w"
  shows "\<exists>c' w'. CacheSpill Dtor c w Count = Some (c', w') \<and> cache_wf c' \<and> held c' = held c \<and>
     P (constructed (cache_Size c') (cache_SlabList c')) w' \<and>
     (Count \<le> cache_Count c \<longrightarrow> Count \<le> cache_Count c') \<and>
     (cache_Count c' \<le> Count \<or> cache_SlabList c' = [] \<or> occupancy (last (cache_SlabList c')) \<noteq> 0 \<or>
      cache_Count c' < Count + slab_objects (cache_Size c))"
  using CacheSpill_law [OF assms] by blast

text \<open>A cache with one slab, one of whose two objects is held.\<close>

lemma sample_held:
  obtains c where "CacheGet trivial_ctor (Some 4096, True, True) 0 (sample_cache [] None [0, 0, 0, 0, 0, 0] 0 0) () =
      Some (4144, c, ())" and "cache_wf c" and "held c = {4144}" and "cache_MagazineCount c = 1"
    and "cache_Size c = 2000"
proof -
  let ?c = "sample_cache [] None [0, 0, 0, 0, 0, 0] 0 0"
  have "mem_ok (Some 4096, True, True) (cache_SlabList ?c)" "0 < cache_MagazineCount ?c"
    "cache_Count ?c + slab_objects (cache_Size ?c) < 2 ^ 31"
    by (simp_all add: mem_ok_def base_ok_def PAGE_ALIGN_def PAGE_SIZE_def sample_cache_def slab_objects_2000)
  then obtain c where "CacheGet trivial_ctor (Some 4096, True, True) 0 ?c () = Some (4144, c, ())" "cache_wf c"
     "held c = {4144}" "cache_MagazineCount c = cache_MagazineCount ?c" "cache_Size c = cache_Size ?c"
    using CacheGet_law [OF sample_wf(1) _ trivial_client(1), where Index = 0 and mem = "(Some 4096, True, True)"]
      sample_get1 sample_wf(2) by auto
  then show thesis by (intro that) (simp_all add: sample_cache_def)
qed

theorem CachePut_correct_witness:
  "\<exists>c c'. cache_wf c \<and> held c = {4144} \<and> CachePut 0 c 4144 = Some c' \<and> held c' = {}"
proof -
  obtain c where "cache_wf c" "held c = {4144}" "cache_MagazineCount c = 1" by (rule sample_held)
  with CachePut_correct [of c 0 4144] show ?thesis by auto
qed

theorem CacheFill_terminates_witness:
  "\<exists>st c. CacheFill (\<lambda>k. (Some (4096 * (k + 1)), True, True))
     (sample_cache [] None [0, 0, 0, 0, 0, 0] 0 0) 5 = Some (st, c) \<and> cache_wf c"
proof -
  have "4096 * (k + 1) mod 4096 = (0::nat)" for k by simp
  then have "mems_ok (\<lambda>k. (Some (4096 * (k + 1)), True, True)) 0 []"
    by (auto simp: mems_ok_def mem_ok_def base_ok_def PAGE_ALIGN_def PAGE_SIZE_def)
  then have "mems_ok (\<lambda>k. (Some (4096 * (k + 1)), True, True)) 0
      (cache_SlabList (sample_cache [] None [0, 0, 0, 0, 0, 0] 0 0))"
    "5 + slab_objects (cache_Size (sample_cache [] None [0, 0, 0, 0, 0, 0] 0 0)) < 2 ^ 31"
    by (simp_all add: sample_cache_def slab_objects_2000)
  from CacheFill_terminates [OF sample_wf(1) this(2,1)] show ?thesis by blast
qed

theorem CacheSpill_correct_witness:
  "\<exists>c c' w'. held c = {4144} \<and> CacheSpill trivial_dtor c () 0 = Some (c', w') \<and> held c' = {4144}"
proof -
  obtain c where "cache_wf c" "held c = {4144}" by (rule sample_held)
  with CacheSpill_correct [OF this(1) trivial_client(2), of "()" 0] show ?thesis by auto
qed

text \<open>
  Every object of a slab is found again by \<^verbatim>\<open>PAGE_ALIGN\<close> for all object sizes but those from 4049
  to 4072 bytes: for these a slab has two pages and two objects, the second one starts in the
  second page, and \<^verbatim>\<open>CachePut\<close> would look for the slab's header there.
\<close>

theorem slab_size_bounds:
  assumes "0 < Size" and "Size \<le> 2 ^ 30" and "base_ok Base"
  shows "(\<forall>i < slab_objects Size. PAGE_ALIGN (object_at Size Base i) = Base) \<longleftrightarrow>
     \<not> (4048 < Size \<and> Size \<le> 4072)"
proof (cases "4048 < Size \<and> Size \<le> 4072")
  case False
  with size_ok_iff [OF assms(1,2)] PAGE_ALIGN_object [OF _ assms(3)] show ?thesis by blast
next
  case True
  then have "slab_objects Size = 2" using slab_objects_big [of Size] by simp
  moreover have "PAGE_ALIGN (object_at Size Base 1) \<noteq> Base"
  proof -
    have "PAGE_SIZE \<le> SLAB_BUFFER + Size" using True by (simp add: PAGE_SIZE_def SLAB_BUFFER_def)
    moreover have "(Base + SLAB_BUFFER + Size) mod PAGE_SIZE < PAGE_SIZE" by (simp add: PAGE_SIZE_def)
    ultimately show ?thesis by (simp add: PAGE_ALIGN_def object_at_def)
  qed
  ultimately show ?thesis using True by (metis one_less_numeral_iff semiring_norm(76))
qed

theorem slab_size_bounds_witness:
  "(\<exists>i < slab_objects 4056. PAGE_ALIGN (object_at 4056 4096 i) \<noteq> 4096) \<and>
   PAGE_ALIGN (object_at 2000 4096 1) = 4096"
proof -
  have "base_ok 4096" by (simp add: base_ok_def PAGE_ALIGN_def PAGE_SIZE_def)
  moreover have "slab_objects 2000 = 2" by code_simp
  ultimately show ?thesis
    using slab_size_bounds [of 4056 4096] slab_size_bounds [of 2000 4096] by auto
qed

text \<open>
  \<^verbatim>\<open>CacheDestroy\<close> fails the assertion of \<^verbatim>\<open>CacheAudit\<close> (checked build) on a cache whose objects have
  all been put back: three objects of two slabs are taken and put, so they sit in the magazine.
  \<^verbatim>\<open>__CacheFlushMagazines\<close> returns them to their slabs but leaves the cursor on the second slab, which
  \<^verbatim>\<open>CacheSpill\<close> destroys first: the cursor moves to the anchor although the first slab has room.
\<close>

theorem CacheDestroy_audit_fails:
  "\<exists>c0 c1 c2 c3 c4 c5 c6 a b d.
     CacheCreate True STATUS_SUCCESS (\<lambda>k. (None, True, True)) True 1 trivial_dtor ''sample'' 2000 0 0 () =
       Some (STATUS_SUCCESS, Some c0) \<and>
     CacheGet trivial_ctor (Some 4096, True, True) 0 c0 () = Some (a, c1, ()) \<and>
     CacheGet trivial_ctor (None, True, True) 0 c1 () = Some (b, c2, ()) \<and>
     CacheGet trivial_ctor (Some 8192, True, True) 0 c2 () = Some (d, c3, ()) \<and>
     CachePut 0 c3 a = Some c4 \<and> CachePut 0 c4 b = Some c5 \<and> CachePut 0 c5 d = Some c6 \<and>
     CacheDestroy trivial_dtor c6 () = None"
  using sample_create sample_get1 sample_get2 sample_get3 sample_puts sample_destroy by blast

text \<open>
  Two error paths of \<^verbatim>\<open>CacheCreate\<close> fail an assertion instead of returning a status: when filling
  the reservation fails after the first slab, the slab list is not empty, and when the magazines
  cannot be allocated, the high-water mark of the slabs that were freed again is left non-zero.
\<close>

theorem CacheCreate_failure_paths:
  "CacheCreate True STATUS_SUCCESS one_page True 1 trivial_dtor ''sample'' 2000 3 0 () = None \<and>
   CacheCreate True STATUS_SUCCESS one_page False 1 trivial_dtor ''sample'' 2000 1 0 () = None"
proof -
  have young: "zero_CACHE\<lparr>cache_Name := ''sample'', cache_Size := 2000, cache_Reservation := R,
      cache_Cap := 4294967295\<rparr> = sample_young R [] None 0" for R
    by (simp add: zero_CACHE_def sample_young_def)
  have proj: "cache_Reservation (sample_young R ss p m) = R" "cache_Cap (sample_young R ss p m) = 4294967295"
    "cache_SlabList (sample_young R ss p m) = ss" "cache_MaximumSlabs (sample_young R ss p m) = m"
    "(sample_young R ss p m)\<lparr>cache_MagazineCount := 0\<rparr> = sample_young R ss p m" for R ss p m
    by (simp_all add: sample_young_def)
  have "CacheCreate True STATUS_SUCCESS one_page True 1 trivial_dtor ''sample'' 2000 3 0 () = None"
    by (simp add: CacheCreate_def P2ROUNDUP_2000 Let_def young proj sample_young_fill create_fail3_def)
  moreover have "CacheCreate True STATUS_SUCCESS one_page False 1 trivial_dtor ''sample'' 2000 1 0 () = None"
    using sample_young_fill(2) [of 1] sample_young_spill [of 1 1]
    by (simp add: CacheCreate_def P2ROUNDUP_2000 Let_def young proj create_fail3_def zero_CACHE_def sample_young_def)
  ultimately show ?thesis by blast
qed

end
