(* ===== verification/Shared_Info.thy ===== *)
theory Shared_Info
  imports Prelude
begin

unbundle bit_operations_syntax

text \<open>
  The shared info page of src/src/xenbus/shared\_info.c: the pending and mask bits of the 4096
  two-level event channels, the per-VCPU selector words, the poll loop over them, the wallclock
  and the acquisition of the page. A word of the page is a \<^typ>\<open>64 word\<close> (xen\_ulong\_t of the amd64
  build), the array a list of them. The callback of a poll changes an arbitrary state that the
  page is part of, so that an event handler that acknowledges or masks ports is covered; what the
  hypervisor writes while a poll runs is not modelled.
\<close>

section \<open>State\<close>

definition XENBUS_SHARED_INFO_EVTCHN_PER_SELECTOR :: nat where
  "XENBUS_SHARED_INFO_EVTCHN_PER_SELECTOR = 64"

definition XENBUS_SHARED_INFO_EVTCHN_SELECTOR_COUNT :: nat where
  "XENBUS_SHARED_INFO_EVTCHN_SELECTOR_COUNT = 64"

text \<open>A \<^verbatim>\<open>vcpu_info_t *\<close>: into the legacy array of the shared page, or where the VCPU registered one.\<close>

datatype vcpu_ptr = LegacyVcpu nat | RegisteredVcpu nat

record vcpu_info =
  evtchn_upcall_pending :: "8 word"
  evtchn_pending_sel :: "64 word"

record shared_info =
  evtchn_pending :: "64 word list"
  evtchn_mask :: "64 word list"
  vcpu_infos :: "vcpu_ptr \<Rightarrow> vcpu_info"

record XENBUS_SHARED_INFO_PROCESSOR =
  proc_vcpu_id :: nat
  proc_Vcpu :: "vcpu_ptr option"
  proc_Port :: nat

definition zero_PROCESSOR :: XENBUS_SHARED_INFO_PROCESSOR where
  "zero_PROCESSOR = \<lparr>proc_vcpu_id = 0, proc_Vcpu = None, proc_Port = 0\<rparr>"

text \<open>
  The context; \<open>si_Mdl\<close> says whether the page has been allocated, \<open>si_Mapped\<close> whether it is in the
  physmap, and the last four fields which interfaces and callbacks it holds.
\<close>

record XENBUS_SHARED_INFO_CONTEXT =
  si_References :: int
  si_Mdl :: bool
  si_Mapped :: bool
  si_Shared :: shared_info
  si_Processor :: "XENBUS_SHARED_INFO_PROCESSOR list option"
  si_ProcessorCount :: nat
  si_Suspend :: bool
  si_SuspendCallbackEarly :: bool
  si_Debug :: bool
  si_DebugCallback :: bool

section \<open>Bits\<close>

text \<open>The value of the word afterwards and the result.\<close>

definition SharedInfoSetBit :: "64 word \<Rightarrow> nat \<Rightarrow> (64 word \<times> bool) kernel" where
  "SharedInfoSetBit Mask Bit = do { ASSERT (Bit < 64); Some (set_bit Bit Mask, \<not> bit Mask Bit) }"

definition SharedInfoClearBit :: "64 word \<Rightarrow> nat \<Rightarrow> (64 word \<times> bool) kernel" where
  "SharedInfoClearBit Mask Bit = do { ASSERT (Bit < 64); Some (unset_bit Bit Mask, bit Mask Bit) }"

definition SharedInfoTestBit :: "64 word \<Rightarrow> nat \<Rightarrow> bool kernel" where
  "SharedInfoTestBit Mask Bit = do { ASSERT (Bit < 64); Some (Mask AND push_bit Bit 1 \<noteq> 0) }"

text \<open>All ports masked: one word per selector.\<close>

definition SharedInfoEvtchnMaskAll :: "shared_info \<Rightarrow> shared_info" where
  "SharedInfoEvtchnMaskAll s =
     s\<lparr>evtchn_mask := fold (\<lambda>SelectorBit m. m[SelectorBit := -1])
        [0 ..< XENBUS_SHARED_INFO_EVTCHN_SELECTOR_COUNT] (evtchn_mask s)\<rparr>"

section \<open>Upcalls\<close>

definition SharedInfoUpcallSupported :: "XENBUS_SHARED_INFO_PROCESSOR list \<Rightarrow> nat \<Rightarrow> bool kernel" where
  "SharedInfoUpcallSupported ps Index =
     do { ASSERT (Index < length ps); Some (proc_Vcpu (ps ! Index) \<noteq> None) }"

definition SharedInfoUpcallPending ::
  "XENBUS_SHARED_INFO_PROCESSOR list \<Rightarrow> nat \<Rightarrow> shared_info \<Rightarrow> (bool \<times> shared_info) kernel" where
  "SharedInfoUpcallPending ps Index s =
     do {
       ASSERT (Index < length ps);
       (case proc_Vcpu (ps ! Index) of
          None \<Rightarrow> Some (False, s)
        | Some v \<Rightarrow>
            Some (evtchn_upcall_pending (vcpu_infos s v) \<noteq> 0,
                  s\<lparr>vcpu_infos := (vcpu_infos s)(v := (vcpu_infos s v)\<lparr>evtchn_upcall_pending := 0\<rparr>)\<rparr>))
     }"

section \<open>The poll loop\<close>

text \<open>
  The state a poll runs in: the shared page and whatever else the callback changes. \<open>Event\<close> is the
  callback with its argument applied.
\<close>

type_synonym 'w poll_state = "shared_info \<times> 'w"
type_synonym 'w event = "nat \<Rightarrow> 'w poll_state \<Rightarrow> (bool \<times> 'w poll_state) kernel"

text \<open>The inner loop over the ports of one selector.\<close>

function poll_ports ::
  "'w event \<Rightarrow> nat \<Rightarrow> 64 word \<Rightarrow> nat \<Rightarrow> bool \<Rightarrow> 'w poll_state \<Rightarrow> (64 word \<times> bool \<times> 'w poll_state) kernel" where
  "poll_ports Event SelectorBit PortMask PortBit DoneSomething s =
     (if PortMask \<noteq> 0 \<and> PortBit < XENBUS_SHARED_INFO_EVTCHN_PER_SELECTOR then
        do {
          t \<leftarrow> SharedInfoTestBit PortMask PortBit;
          (if t then
             do {
               (d, s') \<leftarrow> Event (SelectorBit * XENBUS_SHARED_INFO_EVTCHN_PER_SELECTOR + PortBit) s;
               poll_ports Event SelectorBit (PortMask AND NOT (push_bit PortBit 1)) (Suc PortBit)
                 (DoneSomething \<or> d) s'
             }
           else poll_ports Event SelectorBit PortMask (Suc PortBit) DoneSomething s)
        }
      else Some (PortMask, DoneSomething, s))"
  by pat_completeness auto
termination
  by (relation "measure (\<lambda>(_, _, _, PortBit, _, _). XENBUS_SHARED_INFO_EVTCHN_PER_SELECTOR - PortBit)") auto

declare poll_ports.simps [simp del]

text \<open>The outer loop over the selectors; a loop that does not end is \<^const>\<open>None\<close>.\<close>

partial_function (option) poll_selectors ::
  "'w event \<Rightarrow> 64 word \<Rightarrow> nat \<Rightarrow> bool \<Rightarrow> 'w poll_state \<Rightarrow> (nat \<times> bool \<times> 'w poll_state) kernel" where
  "poll_selectors Event SelectorMask Port DoneSomething s =
     (if SelectorMask = 0 then Some (Port, DoneSomething, s)
      else
        let SelectorBit = Port div XENBUS_SHARED_INFO_EVTCHN_PER_SELECTOR;
            PortBit = Port mod XENBUS_SHARED_INFO_EVTCHN_PER_SELECTOR;
            Port1 = (SelectorBit + 1) * XENBUS_SHARED_INFO_EVTCHN_PER_SELECTOR;
            Port' = (if Port1 \<ge> XENBUS_SHARED_INFO_EVTCHN_SELECTOR_COUNT * XENBUS_SHARED_INFO_EVTCHN_PER_SELECTOR
                     then 0 else Port1)
        in Option.bind (SharedInfoTestBit SelectorMask SelectorBit) (\<lambda>t.
             if t then
               let PortMask = evtchn_pending (fst s) ! SelectorBit AND NOT (evtchn_mask (fst s) ! SelectorBit)
               in Option.bind (poll_ports Event SelectorBit PortMask PortBit DoneSomething s)
                    (\<lambda>(PortMask', DoneSomething', s').
                       poll_selectors Event
                         (if PortMask' = 0 then SelectorMask AND NOT (push_bit SelectorBit 1) else SelectorMask)
                         Port' DoneSomething' s')
             else poll_selectors Event SelectorMask Port' DoneSomething s))"

text \<open>\<^verbatim>\<open>SharedInfoEvtchnPoll\<close>: the selector word is exchanged with 0 first.\<close>

definition SharedInfoEvtchnPoll ::
  "'w event \<Rightarrow> XENBUS_SHARED_INFO_PROCESSOR list \<Rightarrow> nat \<Rightarrow> 'w poll_state \<Rightarrow>
     (bool \<times> XENBUS_SHARED_INFO_PROCESSOR list \<times> 'w poll_state) kernel" where
  "SharedInfoEvtchnPoll Event ps Index s =
     do {
       ASSERT (Index < length ps);
       (case proc_Vcpu (ps ! Index) of
          None \<Rightarrow> Some (False, ps, s)
        | Some v \<Rightarrow>
            do {
              let SelectorMask = evtchn_pending_sel (vcpu_infos (fst s) v);
              let s1 = ((fst s)\<lparr>vcpu_infos :=
                          (vcpu_infos (fst s))(v := (vcpu_infos (fst s) v)\<lparr>evtchn_pending_sel := 0\<rparr>)\<rparr>, snd s);
              (Port, DoneSomething, s2) \<leftarrow> poll_selectors Event SelectorMask (proc_Port (ps ! Index)) False s1;
              Some (DoneSomething, ps[Index := (ps ! Index)\<lparr>proc_Port := Port\<rparr>], s2)
            })
     }"

section \<open>Acknowledging, masking and unmasking\<close>

definition SharedInfoEvtchnAck :: "shared_info \<Rightarrow> nat \<Rightarrow> shared_info kernel" where
  "SharedInfoEvtchnAck s Port =
     (let SelectorBit = Port div XENBUS_SHARED_INFO_EVTCHN_PER_SELECTOR;
          PortBit = Port mod XENBUS_SHARED_INFO_EVTCHN_PER_SELECTOR
      in do {
        (w, _) \<leftarrow> SharedInfoClearBit (evtchn_pending s ! SelectorBit) PortBit;
        Some (s\<lparr>evtchn_pending := (evtchn_pending s)[SelectorBit := w]\<rparr>)
      })"

definition SharedInfoEvtchnMask :: "shared_info \<Rightarrow> nat \<Rightarrow> shared_info kernel" where
  "SharedInfoEvtchnMask s Port =
     (let SelectorBit = Port div XENBUS_SHARED_INFO_EVTCHN_PER_SELECTOR;
          PortBit = Port mod XENBUS_SHARED_INFO_EVTCHN_PER_SELECTOR
      in do {
        (w, _) \<leftarrow> SharedInfoSetBit (evtchn_mask s ! SelectorBit) PortBit;
        Some (s\<lparr>evtchn_mask := (evtchn_mask s)[SelectorBit := w]\<rparr>)
      })"

definition SharedInfoEvtchnUnmask :: "shared_info \<Rightarrow> nat \<Rightarrow> (bool \<times> shared_info) kernel" where
  "SharedInfoEvtchnUnmask s Port =
     (let SelectorBit = Port div XENBUS_SHARED_INFO_EVTCHN_PER_SELECTOR;
          PortBit = Port mod XENBUS_SHARED_INFO_EVTCHN_PER_SELECTOR
      in do {
        (w, _) \<leftarrow> SharedInfoClearBit (evtchn_mask s ! SelectorBit) PortBit;
        t \<leftarrow> SharedInfoTestBit (evtchn_pending s ! SelectorBit) PortBit;
        Some (t, s\<lparr>evtchn_mask := (evtchn_mask s)[SelectorBit := w]\<rparr>)
      })"

section \<open>The wallclock\<close>

text \<open>What one round of the read loop sees: the two versions before and after, and the values.\<close>

record time_sample =
  ts_WcVersion :: nat
  ts_TimeVersion :: nat
  ts_WcVersion' :: nat
  ts_TimeVersion' :: nat
  ts_Seconds :: nat
  ts_NanoSeconds :: nat
  ts_SystemTime :: nat
  ts_Timestamp :: nat
  ts_TscShift :: int
  ts_TscSystemMul :: nat

definition consistent :: "time_sample \<Rightarrow> bool" where
  "consistent r \<longleftrightarrow> \<not> (ts_WcVersion' r \<noteq> ts_WcVersion r \<or> ts_TimeVersion' r \<noteq> ts_TimeVersion r \<or>
     odd (ts_WcVersion r) \<or> odd (ts_TimeVersion r))"

text \<open>The loop, on the samples its rounds would read; \<^const>\<open>None\<close> if none of them is consistent.\<close>

fun read_time :: "time_sample list \<Rightarrow> time_sample kernel" where
  "read_time [] = None"
| "read_time (r # rs) = (if consistent r then Some r else read_time rs)"

definition ull :: "nat \<Rightarrow> nat" where
  "ull x = x mod 2 ^ 64"

definition NS_PER_S :: nat where
  "NS_PER_S = 1000000000"

text \<open>
  The arithmetic of \<^verbatim>\<open>SharedInfoGetTime\<close> on ULONGLONG, with every wrap written out: the time since the
  timestamp was taken, and the result \<^verbatim>\<open>Time->QuadPart\<close>, in units of 100 ns since 1601.
\<close>

definition tsc_age :: "time_sample \<Rightarrow> nat \<Rightarrow> nat" where
  "tsc_age r Tsc =
     (let Age = ull (Tsc + 2 ^ 64 - ts_Timestamp r);
          Age = (if ts_TscShift r < 0 then Age div 2 ^ nat (- ts_TscShift r)
                 else ull (Age * 2 ^ nat (ts_TscShift r)))
      in ull (Age * ts_TscSystemMul r div 2 ^ 32))"

definition wall_time :: "time_sample \<Rightarrow> nat \<Rightarrow> nat" where
  "wall_time r Tsc =
     (let SystemTime = ull (ts_SystemTime r + tsc_age r Tsc);
          Seconds = ull (ts_Seconds r + 11644473600);
          Seconds = ull (Seconds + SystemTime div NS_PER_S);
          NanoSeconds = ull (ts_NanoSeconds r + SystemTime mod NS_PER_S)
      in ull (ull (Seconds * NS_PER_S) + NanoSeconds) div 100)"

text \<open>The whole function: the time and \<^verbatim>\<open>Local\<close>; \<open>universal\<close> is \<^verbatim>\<open>SystemRealTimeIsUniversal\<close>.\<close>

definition SharedInfoGetTime :: "XENBUS_SHARED_INFO_CONTEXT \<Rightarrow> time_sample list \<Rightarrow> nat \<Rightarrow> bool \<Rightarrow> (nat \<times> bool) kernel" where
  "SharedInfoGetTime ctx rs Tsc universal =
     do {
       ps \<leftarrow> si_Processor ctx;
       ASSERT (0 < length ps);
       ASSERT (proc_Vcpu (ps ! 0) \<noteq> None);
       r \<leftarrow> read_time rs;
       Some (wall_time r Tsc, \<not> universal)
     }"

section \<open>Acquiring and releasing\<close>

text \<open>\<^verbatim>\<open>SharedInfoMap\<close> and \<^verbatim>\<open>SharedInfoUnmap\<close> read the page number out of the MDL, which must exist.\<close>

definition SharedInfoMap :: "NTSTATUS \<Rightarrow> XENBUS_SHARED_INFO_CONTEXT \<Rightarrow> XENBUS_SHARED_INFO_CONTEXT kernel" where
  "SharedInfoMap add ctx = do { ASSERT (si_Mdl ctx); ASSERT (NT_SUCCESS add); Some (ctx\<lparr>si_Mapped := True\<rparr>) }"

definition SharedInfoUnmap :: "XENBUS_SHARED_INFO_CONTEXT \<Rightarrow> XENBUS_SHARED_INFO_CONTEXT kernel" where
  "SharedInfoUnmap ctx = do { ASSERT (si_Mdl ctx); Some (ctx\<lparr>si_Mapped := False\<rparr>) }"

definition SharedInfoSuspendCallbackEarly ::
  "NTSTATUS \<Rightarrow> XENBUS_SHARED_INFO_CONTEXT \<Rightarrow> XENBUS_SHARED_INFO_CONTEXT kernel" where
  "SharedInfoSuspendCallbackEarly add ctx =
     do {
       ctx1 \<leftarrow> SharedInfoMap add ctx;
       Some (ctx1\<lparr>si_Shared := SharedInfoEvtchnMaskAll (si_Shared ctx1)\<rparr>)
     }"

text \<open>
  What the environment answers during an acquisition: the allocation of the page, its mapping, the
  acquisition of the suspend and debug interfaces and the registration of the callbacks, the
  number of processors, the allocation of their array, and the VCPU number and the registered
  VCPU info of a processor (system.c).
\<close>

record si_env =
  env_hole :: bool
  env_map :: NTSTATUS
  env_suspend :: NTSTATUS
  env_suspend_cb :: NTSTATUS
  env_debug :: NTSTATUS
  env_debug_cb :: NTSTATUS
  env_cpus :: nat
  env_mem :: bool
  env_vcpu_id :: "nat \<Rightarrow> NTSTATUS \<times> nat"
  env_vcpu_info :: "nat \<Rightarrow> NTSTATUS \<times> nat"

definition XEN_LEGACY_MAX_VCPUS :: nat where
  "XEN_LEGACY_MAX_VCPUS = 32"

text \<open>
  The loop over the processors: the status it ends with and the array, or the array as the label
  \<^verbatim>\<open>fail7\<close> finds it, with the index it stopped at.
\<close>

fun init_processors :: "si_env \<Rightarrow> nat list \<Rightarrow> XENBUS_SHARED_INFO_PROCESSOR list \<Rightarrow>
    (NTSTATUS \<times> nat) option \<times> XENBUS_SHARED_INFO_PROCESSOR list" where
  "init_processors env [] ps = (None, ps)"
| "init_processors env (Index # is) ps =
     (case env_vcpu_id env Index of (st, vcpu_id) \<Rightarrow>
        if st = STATUS_NOT_SUPPORTED then init_processors env is ps
        else if \<not> NT_SUCCESS st then (Some (st, Index), ps)
        else
          let ps1 = ps[Index := (ps ! Index)\<lparr>proc_vcpu_id := vcpu_id\<rparr>] in
          (case env_vcpu_info env Index of (st, v) \<Rightarrow>
             if NT_SUCCESS st then
               init_processors env is (ps1[Index := (ps1 ! Index)\<lparr>proc_Vcpu := Some (RegisteredVcpu v)\<rparr>])
             else if st \<noteq> STATUS_NOT_SUPPORTED then
               (Some (st, Index), ps1[Index := (ps1 ! Index)\<lparr>proc_vcpu_id := 0\<rparr>])
             else if vcpu_id \<ge> XEN_LEGACY_MAX_VCPUS then init_processors env is ps1
             else init_processors env is (ps1[Index := (ps1 ! Index)\<lparr>proc_Vcpu := Some (LegacyVcpu vcpu_id)\<rparr>])))"

definition clear_processors :: "nat \<Rightarrow> XENBUS_SHARED_INFO_PROCESSOR list \<Rightarrow> XENBUS_SHARED_INFO_PROCESSOR list" where
  "clear_processors Index ps =
     fold (\<lambda>i ps. ps[i := (ps ! i)\<lparr>proc_Vcpu := None, proc_vcpu_id := 0\<rparr>]) (rev [0 ..< Index]) ps"

text \<open>The error labels of \<^verbatim>\<open>SharedInfoAcquire\<close>, each falling through to the next.\<close>

definition si_fail1 :: "NTSTATUS \<Rightarrow> XENBUS_SHARED_INFO_CONTEXT \<Rightarrow> (NTSTATUS \<times> XENBUS_SHARED_INFO_CONTEXT) kernel" where
  "si_fail1 st ctx =
     do {
       let ctx1 = ctx\<lparr>si_References := si_References ctx - 1\<rparr>;
       ASSERT (si_References ctx1 = 0);
       Some (st, ctx1)
     }"

definition si_fail2 :: "NTSTATUS \<Rightarrow> XENBUS_SHARED_INFO_CONTEXT \<Rightarrow> (NTSTATUS \<times> XENBUS_SHARED_INFO_CONTEXT) kernel" where
  "si_fail2 st ctx = do { ctx1 \<leftarrow> SharedInfoUnmap ctx; si_fail1 st (ctx1\<lparr>si_Mdl := False\<rparr>) }"

definition si_fail3 :: "NTSTATUS \<Rightarrow> XENBUS_SHARED_INFO_CONTEXT \<Rightarrow> (NTSTATUS \<times> XENBUS_SHARED_INFO_CONTEXT) kernel" where
  "si_fail3 st ctx = si_fail2 st (ctx\<lparr>si_Suspend := False\<rparr>)"

definition si_fail4 :: "NTSTATUS \<Rightarrow> XENBUS_SHARED_INFO_CONTEXT \<Rightarrow> (NTSTATUS \<times> XENBUS_SHARED_INFO_CONTEXT) kernel" where
  "si_fail4 st ctx = si_fail3 st (ctx\<lparr>si_SuspendCallbackEarly := False\<rparr>)"

definition si_fail5 :: "NTSTATUS \<Rightarrow> XENBUS_SHARED_INFO_CONTEXT \<Rightarrow> (NTSTATUS \<times> XENBUS_SHARED_INFO_CONTEXT) kernel" where
  "si_fail5 st ctx = si_fail4 st (ctx\<lparr>si_Debug := False\<rparr>)"

definition si_fail6 :: "NTSTATUS \<Rightarrow> XENBUS_SHARED_INFO_CONTEXT \<Rightarrow> (NTSTATUS \<times> XENBUS_SHARED_INFO_CONTEXT) kernel" where
  "si_fail6 st ctx = si_fail5 st (ctx\<lparr>si_ProcessorCount := 0, si_DebugCallback := False\<rparr>)"

definition si_fail7 ::
  "NTSTATUS \<Rightarrow> nat \<Rightarrow> XENBUS_SHARED_INFO_PROCESSOR list \<Rightarrow> XENBUS_SHARED_INFO_CONTEXT \<Rightarrow>
     (NTSTATUS \<times> XENBUS_SHARED_INFO_CONTEXT) kernel" where
  "si_fail7 st Index ps ctx =
     do {
       ASSERT (\<forall>p \<in> set (clear_processors Index ps). p = zero_PROCESSOR);
       si_fail6 st (ctx\<lparr>si_Processor := None\<rparr>)
     }"

definition SharedInfoAcquire ::
  "si_env \<Rightarrow> XENBUS_SHARED_INFO_CONTEXT \<Rightarrow> (NTSTATUS \<times> XENBUS_SHARED_INFO_CONTEXT) kernel" where
  "SharedInfoAcquire env ctx =
     (let ctx0 = ctx\<lparr>si_References := si_References ctx + 1\<rparr> in
      if si_References ctx \<noteq> 0 then Some (STATUS_SUCCESS, ctx0)
      else if \<not> env_hole env then si_fail1 STATUS_NO_MEMORY ctx0
      else do {
        ctx1 \<leftarrow> SharedInfoMap (env_map env) (ctx0\<lparr>si_Mdl := True\<rparr>);
        let ctx2 = ctx1\<lparr>si_Shared := SharedInfoEvtchnMaskAll (si_Shared ctx1)\<rparr>;
        (if \<not> NT_SUCCESS (env_suspend env) then si_fail2 (env_suspend env) ctx2
         else let ctx3 = ctx2\<lparr>si_Suspend := True\<rparr> in
         if \<not> NT_SUCCESS (env_suspend_cb env) then si_fail3 (env_suspend_cb env) ctx3
         else let ctx4 = ctx3\<lparr>si_SuspendCallbackEarly := True\<rparr> in
         if \<not> NT_SUCCESS (env_debug env) then si_fail4 (env_debug env) ctx4
         else let ctx5 = ctx4\<lparr>si_Debug := True\<rparr> in
         if \<not> NT_SUCCESS (env_debug_cb env) then si_fail5 (env_debug_cb env) ctx5
         else let ctx6 = ctx5\<lparr>si_DebugCallback := True, si_ProcessorCount := env_cpus env\<rparr> in
         if \<not> env_mem env then si_fail6 STATUS_NO_MEMORY ctx6
         else
           (case init_processors env [0 ..< env_cpus env] (replicate (env_cpus env) zero_PROCESSOR) of
              (Some (st, Index), ps) \<Rightarrow> si_fail7 st Index ps ctx6
            | (None, ps) \<Rightarrow> Some (STATUS_SUCCESS, ctx6\<lparr>si_Processor := Some ps\<rparr>)))
      })"

text \<open>Freeing the array of a context that has none is a bug check, as is reading its MDL.\<close>

definition SharedInfoRelease :: "XENBUS_SHARED_INFO_CONTEXT \<Rightarrow> XENBUS_SHARED_INFO_CONTEXT kernel" where
  "SharedInfoRelease ctx =
     (let ctx1 = ctx\<lparr>si_References := si_References ctx - 1\<rparr> in
      if 0 < si_References ctx1 then Some ctx1
      else do {
        ps \<leftarrow> si_Processor ctx1;
        let ps' = map (\<lambda>p. p\<lparr>proc_Port := 0, proc_Vcpu := None, proc_vcpu_id := 0\<rparr>) ps;
        ASSERT (\<forall>p \<in> set ps'. p = zero_PROCESSOR);
        let ctx2 = ctx1\<lparr>si_Processor := None, si_ProcessorCount := 0, si_DebugCallback := False,
                        si_Debug := False, si_SuspendCallbackEarly := False, si_Suspend := False\<rparr>;
        ctx3 \<leftarrow> SharedInfoUnmap ctx2;
        Some (ctx3\<lparr>si_Mdl := False\<rparr>)
      })"

section \<open>The page as two predicates on ports\<close>

definition page_ok :: "shared_info \<Rightarrow> bool" where
  "page_ok s \<longleftrightarrow> length (evtchn_pending s) = 64 \<and> length (evtchn_mask s) = 64"

definition port_pending :: "shared_info \<Rightarrow> nat \<Rightarrow> bool" where
  "port_pending s p \<longleftrightarrow> bit (evtchn_pending s ! (p div 64)) (p mod 64)"

definition port_masked :: "shared_info \<Rightarrow> nat \<Rightarrow> bool" where
  "port_masked s p \<longleftrightarrow> bit (evtchn_mask s ! (p div 64)) (p mod 64)"

lemmas si_consts = XENBUS_SHARED_INFO_EVTCHN_PER_SELECTOR_def XENBUS_SHARED_INFO_EVTCHN_SELECTOR_COUNT_def

lemma port_eq: "(p::nat) = q \<longleftrightarrow> p div 64 = q div 64 \<and> p mod 64 = q mod 64"
  by (metis div_mult_mod_eq)

lemma SharedInfoTestBit_bit: "b < 64 \<Longrightarrow> SharedInfoTestBit w b = Some (bit w b)"
  using bit_iff_and_push_bit_not_eq_0 [of w b] by (simp add: SharedInfoTestBit_def)

lemma bit_set_word: "b < 64 \<Longrightarrow> bit (set_bit b w) i \<longleftrightarrow> i = b \<or> bit w i" for w :: "64 word"
  by (auto simp: bit_set_bit_iff)

lemma bit_unset_word: "bit (unset_bit b w) i \<longleftrightarrow> i \<noteq> b \<and> bit w i" for w :: "64 word"
  by (auto simp: bit_unset_bit_iff)

lemma nth_list_update_bit:
  "i < length ws \<Longrightarrow> bit (ws[i := w] ! j) b = (if j = i then bit w b else bit (ws ! j) b)"
  by (simp add: nth_list_update)

lemma SharedInfoEvtchnAck_law:
  assumes "page_ok s" and "p < 4096"
  shows "\<exists>s'. SharedInfoEvtchnAck s p = Some s' \<and> page_ok s' \<and>
     (\<forall>q. port_pending s' q = (q \<noteq> p \<and> port_pending s q)) \<and> (\<forall>q. port_masked s' q = port_masked s q)"
proof -
  have "p div 64 < length (evtchn_pending s)" using assms by (simp add: page_ok_def)
  then show ?thesis using assms port_eq [of _ p]
    by (auto simp: SharedInfoEvtchnAck_def SharedInfoClearBit_def si_consts Let_def page_ok_def
        port_pending_def port_masked_def nth_list_update_bit bit_unset_word)
qed

lemma SharedInfoEvtchnMask_law:
  assumes "page_ok s" and "p < 4096"
  shows "\<exists>s'. SharedInfoEvtchnMask s p = Some s' \<and> page_ok s' \<and>
     (\<forall>q. port_masked s' q = (q = p \<or> port_masked s q)) \<and> (\<forall>q. port_pending s' q = port_pending s q)"
proof -
  have "p div 64 < length (evtchn_mask s)" using assms by (simp add: page_ok_def)
  then show ?thesis using assms port_eq [of _ p]
    by (auto simp: SharedInfoEvtchnMask_def SharedInfoSetBit_def si_consts Let_def page_ok_def
        port_pending_def port_masked_def nth_list_update_bit bit_set_word)
qed

lemma SharedInfoEvtchnUnmask_law:
  assumes "page_ok s" and "p < 4096"
  shows "\<exists>s'. SharedInfoEvtchnUnmask s p = Some (port_pending s p, s') \<and> page_ok s' \<and>
     (\<forall>q. port_masked s' q = (q \<noteq> p \<and> port_masked s q)) \<and> (\<forall>q. port_pending s' q = port_pending s q)"
proof -
  have "p div 64 < length (evtchn_mask s)" using assms by (simp add: page_ok_def)
  then show ?thesis using assms port_eq [of _ p]
    by (auto simp: SharedInfoEvtchnUnmask_def SharedInfoClearBit_def SharedInfoTestBit_bit si_consts Let_def
        page_ok_def port_pending_def port_masked_def nth_list_update_bit bit_unset_word)
qed

lemma fold_update_all:
  "fold (\<lambda>i m. m[i := c]) [0 ..< k] xs = replicate (min k (length xs)) c @ drop k xs"
proof (induction k)
  case (Suc k)
  show ?case
  proof (cases "k < length xs")
    case True
    then have "drop k xs = xs ! k # drop (Suc k) xs" by (rule Cons_nth_drop_Suc [symmetric])
    with Suc True show ?thesis by (simp add: list_update_append replicate_append_same)
  next
    case False
    with Suc show ?thesis by (simp add: min_def list_update_beyond)
  qed
qed simp

lemma SharedInfoEvtchnMaskAll_law:
  assumes "page_ok s" and "p < 4096"
  shows "port_masked (SharedInfoEvtchnMaskAll s) p"
    and "port_pending (SharedInfoEvtchnMaskAll s) p = port_pending s p"
    and "page_ok (SharedInfoEvtchnMaskAll s)"
proof -
  have "fold (\<lambda>i m. m[i := -1]) [0 ..< 64] (evtchn_mask s) = replicate 64 (-1)"
    using assms by (simp only: fold_update_all) (simp add: page_ok_def)
  then have eq: "SharedInfoEvtchnMaskAll s = s\<lparr>evtchn_mask := replicate 64 (-1)\<rparr>"
    by (simp add: SharedInfoEvtchnMaskAll_def si_consts)
  have "p div 64 < 64" "p mod 64 < 64" using assms by simp_all
  then show "port_masked (SharedInfoEvtchnMaskAll s) p" by (simp add: eq port_masked_def)
  show "port_pending (SharedInfoEvtchnMaskAll s) p = port_pending s p" "page_ok (SharedInfoEvtchnMaskAll s)"
    using assms by (simp_all add: eq port_pending_def page_ok_def)
qed

section \<open>What a poll does\<close>

text \<open>Calling the event handler on a list of ports.\<close>

fun deliver :: "'w event \<Rightarrow> nat list \<Rightarrow> bool \<Rightarrow> 'w poll_state \<Rightarrow> (bool \<times> 'w poll_state) kernel" where
  "deliver Event [] d s = Some (d, s)"
| "deliver Event (p # ps) d s = Option.bind (Event p s) (\<lambda>(x, s'). deliver Event ps (d \<or> x) s')"

definition word_ports :: "nat \<Rightarrow> 64 word \<Rightarrow> nat list" where
  "word_ports j w = map (\<lambda>b. j * 64 + b) (filter (bit w) [0 ..< 64])"

text \<open>Visiting the selectors of a list in order, the words of each read when its turn comes.\<close>

fun visit :: "'w event \<Rightarrow> nat list \<Rightarrow> bool \<Rightarrow> 'w poll_state \<Rightarrow> (bool \<times> 'w poll_state) kernel" where
  "visit Event [] d s = Some (d, s)"
| "visit Event (j # js) d s =
     Option.bind (deliver Event (word_ports j (evtchn_pending (fst s) ! j AND NOT (evtchn_mask (fst s) ! j))) d s)
       (\<lambda>(d', s'). visit Event js d' s')"

lemma bit_clear: "bit (w AND NOT (2 ^ b)) i \<longleftrightarrow> bit w i \<and> i \<noteq> b" for w :: "64 word"
  by (auto simp: bit_simps dest: bit_imp_le_length)

lemma poll_ports_spec:
  assumes "b \<le> 64" and "\<forall>i. bit M i \<longrightarrow> b \<le> i"
  shows "poll_ports Event j M b d s =
     Option.bind (deliver Event (map (\<lambda>b. j * 64 + b) (filter (bit M) [b ..< 64])) d s) (\<lambda>x. Some (0, x))"
  using assms
proof (induction "64 - b" arbitrary: M b d s)
  case 0
  then have b: "b = 64" by simp
  have "M = 0"
  proof (rule bit_word_eqI)
    fix n assume "n < LENGTH(64)"
    then show "bit M n = bit (0 :: 64 word) n" using 0(3) b by fastforce
  qed
  then show ?case using b by (simp add: poll_ports.simps)
next
  case (Suc n)
  then have b: "b < 64" "n = 64 - Suc b" by simp_all
  have upt: "[b ..< 64] = b # [Suc b ..< 64]" using b by (simp add: upt_conv_Cons)
  show ?case
  proof (cases "M = 0")
    case True
    then show ?thesis by (simp add: poll_ports.simps)
  next
    case ne: False
    show ?thesis
    proof (cases "bit M b")
      case True
      let ?M = "M AND NOT (2 ^ b)"
      have "\<forall>i. bit ?M i \<longrightarrow> Suc b \<le> i" using Suc.prems(2) by (auto simp: bit_clear Suc_le_eq le_less)
      note IH = Suc.hyps(1) [OF b(2) _ this]
      have "filter (bit ?M) [Suc b ..< 64] = filter (bit M) [Suc b ..< 64]"
        by (rule filter_cong) (auto simp: bit_clear)
      then show ?thesis
        using ne b True IH upt
        by (subst poll_ports.simps)
          (auto simp: si_consts SharedInfoTestBit_bit split: Option.bind_split prod.splits)
    next
      case False
      have "\<forall>i. bit M i \<longrightarrow> Suc b \<le> i" using Suc.prems(2) False by (auto simp: Suc_le_eq le_less)
      note IH = Suc.hyps(1) [OF b(2) _ this]
      then show ?thesis
        using ne b False upt by (subst poll_ports.simps) (simp add: si_consts SharedInfoTestBit_bit)
    qed
  qed
qed

lemma poll_ports_all:
  "poll_ports Event j M 0 d s = Option.bind (deliver Event (word_ports j M) d s) (\<lambda>x. Some (0, x))"
  using poll_ports_spec [of 0 M Event j d s] by (simp add: word_ports_def)

text \<open>The next \<open>n\<close> selectors from \<open>k\<close> on, wrapping round.\<close>

definition selectors_from :: "nat \<Rightarrow> nat \<Rightarrow> nat list" where
  "selectors_from k n = map (\<lambda>i. (k + i) mod 64) [0 ..< n]"

lemma selectors_from_Suc:
  assumes "k < 64"
  shows "selectors_from k (Suc n) = k # selectors_from (Suc k mod 64) n"
proof -
  have "[0 ..< Suc n] = 0 # map Suc [0 ..< n]" by (simp add: map_Suc_upt upt_conv_Cons)
  then show ?thesis using assms by (simp add: selectors_from_def mod_add_left_eq)
qed

lemma selectors_from_fresh:
  assumes "k < 64" and "n < 64"
  shows "k \<notin> set (selectors_from (Suc k mod 64) n)"
proof
  assume "k \<in> set (selectors_from (Suc k mod 64) n)"
  then obtain i where i: "i < n" "(Suc k + i) mod 64 = k" by (auto simp: selectors_from_def mod_add_left_eq)
  show False
  proof (cases "Suc k + i < 64")
    case True
    then show False using i(2) by simp
  next
    case False
    then have "(Suc k + i) mod 64 = (Suc k + i - 64) mod 64" by (simp add: le_mod_geq)
    also have "\<dots> = Suc k + i - 64" using assms i(1) by (intro mod_less) linarith
    finally show False using i assms False by linarith
  qed
qed

lemma poll_selectors_spec:
  assumes "k < 64" and "n \<le> 64" and "\<forall>j. bit M j \<longrightarrow> j \<in> set (selectors_from k n)"
  shows "\<exists>P. P mod 64 = 0 \<and> P < 4096 \<and> poll_selectors Event M (64 * k) d s =
     Option.bind (visit Event (filter (bit M) (selectors_from k n)) d s) (\<lambda>x. Some (P, x))"
  using assms
proof (induction n arbitrary: k M d s)
  case 0
  then have "M = 0" by (intro bit_word_eqI) (simp add: selectors_from_def)
  then show ?case using 0(1) by (intro exI [of _ "64 * k"]) (simp add: poll_selectors.simps)
next
  case (Suc n)
  show ?case
  proof (cases "M = 0")
    case True
    then show ?thesis using Suc.prems(1) by (intro exI [of _ "64 * k"]) (simp add: poll_selectors.simps)
  next
    case ne: False
    let ?k = "Suc k mod 64"
    have sel: "selectors_from k (Suc n) = k # selectors_from ?k n" by (rule selectors_from_Suc [OF Suc.prems(1)])
    have fresh: "k \<notin> set (selectors_from ?k n)" using Suc.prems(1,2) by (intro selectors_from_fresh) simp_all
    have step: "poll_selectors Event M (64 * k) d s = (if bit M k then
        Option.bind (deliver Event (word_ports k (evtchn_pending (fst s) ! k AND NOT (evtchn_mask (fst s) ! k))) d s)
          (\<lambda>(d', s'). poll_selectors Event (M AND NOT (2 ^ k)) (64 * ?k) d' s')
        else poll_selectors Event M (64 * ?k) d s)"
      using ne Suc.prems(1)
      by (subst poll_selectors.simps, cases "k = 63")
        (simp_all add: si_consts SharedInfoTestBit_bit poll_ports_all Let_def mult.commute split_def)
    show ?thesis
    proof (cases "bit M k")
      case True
      let ?M = "M AND NOT (2 ^ k)"
      have sub: "\<forall>j. bit ?M j \<longrightarrow> j \<in> set (selectors_from ?k n)" using Suc.prems(3) sel by (auto simp: bit_clear)
      have same: "filter (bit ?M) (selectors_from ?k n) = filter (bit M) (selectors_from ?k n)"
        by (rule filter_cong) (use fresh in \<open>auto simp: bit_clear\<close>)
      let ?w = "deliver Event (word_ports k (evtchn_pending (fst s) ! k AND NOT (evtchn_mask (fst s) ! k))) d s"
      show ?thesis
      proof (cases ?w)
        case None
        then show ?thesis using step True sel by (intro exI [of _ 0]) simp
      next
        case (Some ds)
        then obtain d' s' where ds: "?w = Some (d', s')" by (cases ds) auto
        have "?k < 64" "n \<le> 64" using Suc.prems(2) by simp_all
        then have "\<exists>P. P mod 64 = 0 \<and> P < 4096 \<and> poll_selectors Event ?M (64 * ?k) d' s' =
            Option.bind (visit Event (filter (bit M) (selectors_from ?k n)) d' s') (\<lambda>x. Some (P, x))"
          using Suc.IH [OF _ _ sub, of d' s'] by (simp only: same)
        then obtain P where
          "P mod 64 = 0" "P < 4096" "poll_selectors Event ?M (64 * ?k) d' s' =
            Option.bind (visit Event (filter (bit M) (selectors_from ?k n)) d' s') (\<lambda>x. Some (P, x))"
          by (elim exE conjE)
        then show ?thesis using step True sel ds by (intro exI [of _ P]) simp
      qed
    next
      case False
      have "\<forall>j. bit M j \<longrightarrow> j \<in> set (selectors_from ?k n)" using Suc.prems(3) sel False by auto
      moreover have "?k < 64" "n \<le> 64" using Suc.prems(2) by simp_all
      ultimately have "\<exists>P. P mod 64 = 0 \<and> P < 4096 \<and> poll_selectors Event M (64 * ?k) d s =
          Option.bind (visit Event (filter (bit M) (selectors_from ?k n)) d s) (\<lambda>x. Some (P, x))"
        by (intro Suc.IH)
      then obtain P where
        "P mod 64 = 0" "P < 4096" "poll_selectors Event M (64 * ?k) d s =
          Option.bind (visit Event (filter (bit M) (selectors_from ?k n)) d s) (\<lambda>x. Some (P, x))"
        by (elim exE conjE)
      then show ?thesis using step False sel by (intro exI [of _ P]) simp
    qed
  qed
qed

lemma selectors_from_all: "k < 64 \<Longrightarrow> j < 64 \<Longrightarrow> j \<in> set (selectors_from k 64)"
proof -
  assume kj: "k < 64" "j < 64"
  show ?thesis
  proof (cases "k \<le> j")
    case True
    then have "j = (k + (j - k)) mod 64" "j - k < 64" using kj by simp_all
    then show ?thesis unfolding selectors_from_def by force
  next
    case False
    then have "k + (j + 64 - k) = j + 64" "j + 64 - k < 64" using kj by simp_all
    then have "j = (k + (j + 64 - k)) mod 64" "j + 64 - k < 64" using kj by simp_all
    then show ?thesis unfolding selectors_from_def by force
  qed
qed

lemma poll_selectors_visit:
  assumes "k < 64"
  shows "\<exists>P. P mod 64 = 0 \<and> P < 4096 \<and> poll_selectors Event M (64 * k) d s =
     Option.bind (visit Event (filter (bit M) (selectors_from k 64)) d s) (\<lambda>x. Some (P, x))"
proof (rule poll_selectors_spec [OF assms])
  show "\<forall>j. bit M j \<longrightarrow> j \<in> set (selectors_from k 64)"
    using selectors_from_all [OF assms] bit_imp_le_length [of M] by auto
qed simp

section \<open>Polling with a handler that minds its own port\<close>

text \<open>
  The handlers of evtchn.c: they always return, and of the page they change at most the bits of the
  port they are called for. The handler logs the ports it is called for.
\<close>

definition local_handler :: "nat list event \<Rightarrow> bool" where
  "local_handler Event \<longleftrightarrow> (\<forall>p s w. p < 4096 \<longrightarrow> page_ok s \<longrightarrow>
     (\<exists>r s'. Event p (s, w) = Some (r, s', w @ [p]) \<and> page_ok s' \<and>
        (\<forall>q. q \<noteq> p \<longrightarrow> port_pending s' q = port_pending s q \<and> port_masked s' q = port_masked s q)))"

definition due :: "shared_info \<Rightarrow> nat \<Rightarrow> bool" where
  "due s p \<longleftrightarrow> port_pending s p \<and> \<not> port_masked s p"

lemma word_ports_due:
  assumes "j < 64"
  shows "word_ports j (evtchn_pending s ! j AND NOT (evtchn_mask s ! j)) = filter (due s) [64 * j ..< 64 * j + 64]"
proof -
  have "[64 * j ..< 64 * j + 64] = map (\<lambda>b. j * 64 + b) [0 ..< 64]"
    using map_add_upt [of "64 * j" 64] by (simp add: add.commute mult.commute)
  moreover have "filter (bit (evtchn_pending s ! j AND NOT (evtchn_mask s ! j))) [0 ..< 64] =
      filter (\<lambda>b. due s (j * 64 + b)) [0 ..< 64]"
  proof (rule filter_cong [OF refl])
    fix b assume "b \<in> set [0 ..< 64]"
    then have b: "b < 64" by simp
    then have d: "(j * 64 + b) div 64 = j" "(j * 64 + b) mod 64 = b" by simp_all
    have "possible_bit TYPE(64 word) b" using b by simp
    then show "bit (evtchn_pending s ! j AND NOT (evtchn_mask s ! j)) b = due s (j * 64 + b)"
      by (simp only: due_def port_pending_def port_masked_def bit_and_iff bit_not_iff d simp_thms)
  qed
  ultimately show ?thesis by (simp add: word_ports_def filter_map comp_def)
qed

lemma deliver_local:
  assumes "local_handler Event"
  shows "distinct ps \<Longrightarrow> \<forall>p \<in> set ps. p < 4096 \<Longrightarrow> page_ok s \<Longrightarrow>
     \<exists>d' s'. deliver Event ps d (s, w) = Some (d', s', w @ ps) \<and> page_ok s' \<and> (\<forall>q. q \<notin> set ps \<longrightarrow> due s' q = due s q)"
proof (induction ps arbitrary: d s w)
  case (Cons p ps)
  have "p < 4096" "page_ok s" using Cons.prems(2,3) by simp_all
  with assms have "\<exists>r s'. Event p (s, w) = Some (r, s', w @ [p]) \<and> page_ok s' \<and>
      (\<forall>q. q \<noteq> p \<longrightarrow> port_pending s' q = port_pending s q \<and> port_masked s' q = port_masked s q)"
    unfolding local_handler_def by blast
  then obtain r s1 where s1: "Event p (s, w) = Some (r, s1, w @ [p])" "page_ok s1"
    "\<forall>q. q \<noteq> p \<longrightarrow> port_pending s1 q = port_pending s q \<and> port_masked s1 q = port_masked s q" by blast
  from s1(3) have due: "\<forall>q. q \<noteq> p \<longrightarrow> due s1 q = due s q" by (simp add: due_def)
  from Cons.IH [of s1 "d \<or> r" "w @ [p]"] Cons.prems s1(2) obtain d' s' where
    "deliver Event ps (d \<or> r) (s1, w @ [p]) = Some (d', s', w @ p # ps)" "page_ok s'"
    "\<forall>q. q \<notin> set ps \<longrightarrow> due s' q = due s1 q" by auto
  with s1(1) due show ?case by simp
qed simp

definition due_ports :: "shared_info \<Rightarrow> nat list \<Rightarrow> nat list" where
  "due_ports s js = concat (map (\<lambda>j. filter (due s) [64 * j ..< 64 * j + 64]) js)"

lemma visit_local:
  assumes "local_handler Event"
  shows "distinct js \<Longrightarrow> \<forall>j \<in> set js. j < 64 \<Longrightarrow> page_ok s \<Longrightarrow>
     \<exists>d' s'. visit Event js d (s, w) = Some (d', s', w @ due_ports s js) \<and> page_ok s'"
proof (induction js arbitrary: d s w)
  case (Cons j js)
  let ?ps = "filter (due s) [64 * j ..< 64 * j + 64]"
  have "\<forall>p \<in> set ?ps. p < 4096" using Cons.prems(2) by auto
  then obtain d1 s1 where s1: "deliver Event ?ps d (s, w) = Some (d1, s1, w @ ?ps)" "page_ok s1"
    "\<forall>q. q \<notin> set ?ps \<longrightarrow> due s1 q = due s q"
    using deliver_local [OF assms, of ?ps s d w] Cons.prems(3) by auto
  have "due_ports s1 js = due_ports s js"
    unfolding due_ports_def
  proof (intro arg_cong [of _ _ concat] map_cong refl filter_cong)
    fix i q assume "i \<in> set js" "q \<in> set [64 * i ..< 64 * i + 64]"
    then have "q div 64 = i" "i \<noteq> j" using Cons.prems(1) by auto
    then have "q \<notin> set ?ps" by auto
    with s1(3) show "due s1 q = due s q" by blast
  qed
  moreover from Cons.IH [of s1 d1 "w @ ?ps"] Cons.prems s1(2) obtain d' s' where
    "visit Event js d1 (s1, w @ ?ps) = Some (d', s', (w @ ?ps) @ due_ports s1 js)" "page_ok s'" by auto
  ultimately show ?case using s1(1) Cons.prems(2) by (auto simp: word_ports_due due_ports_def)
qed (simp add: due_ports_def)

lemma selectors_from_distinct: "k < 64 \<Longrightarrow> n \<le> 64 \<Longrightarrow> distinct (selectors_from k n)"
proof (induction n arbitrary: k)
  case (Suc n)
  then have "k \<notin> set (selectors_from (Suc k mod 64) n)" by (intro selectors_from_fresh) simp_all
  with Suc show ?case by (simp add: selectors_from_Suc)
qed (simp add: selectors_from_def)

lemma set_due_ports:
  "set (due_ports s js) = {p. p div 64 \<in> set js \<and> due s p}"
proof (rule set_eqI)
  fix p
  have "(\<exists>j \<in> set js. 64 * j \<le> p \<and> p < 64 * j + 64) \<longleftrightarrow> p div 64 \<in> set js"
  proof
    assume "\<exists>j \<in> set js. 64 * j \<le> p \<and> p < 64 * j + 64"
    then obtain j where "j \<in> set js" "64 * j \<le> p" "p < 64 * j + 64" by blast
    moreover from this have "p div 64 = j" by simp
    ultimately show "p div 64 \<in> set js" by simp
  next
    assume "p div 64 \<in> set js"
    moreover have "64 * (p div 64) \<le> p" "p < 64 * (p div 64) + 64" by simp_all
    ultimately show "\<exists>j \<in> set js. 64 * j \<le> p \<and> p < 64 * j + 64" by blast
  qed
  then show "p \<in> set (due_ports s js) \<longleftrightarrow> p \<in> {p. p div 64 \<in> set js \<and> due s p}" by (auto simp: due_ports_def)
qed

lemma distinct_due_ports: "distinct js \<Longrightarrow> distinct (due_ports s js)"
proof (induction js)
  case (Cons j js)
  have "p div 64 = j" if "p \<in> {64 * j ..< 64 * j + 64}" for p
    by (rule div_nat_eqI) (use that in simp_all)
  then have "set (due_ports s js) \<inter> {64 * j ..< 64 * j + 64} = {}" using Cons.prems by (fastforce simp: set_due_ports)
  moreover have "due_ports s (j # js) = filter (due s) [64 * j ..< 64 * j + 64] @ due_ports s js"
    by (simp add: due_ports_def)
  ultimately show ?case using Cons by auto
qed (simp add: due_ports_def)

lemma SharedInfoEvtchnPoll_law:
  assumes handler: "local_handler Event" and Index: "Index < length ps" and v: "proc_Vcpu (ps ! Index) = Some v"
    and Port: "proc_Port (ps ! Index) mod 64 = 0" "proc_Port (ps ! Index) < 4096" and s: "page_ok s"
  shows "\<exists>d P s' js. SharedInfoEvtchnPoll Event ps Index (s, w) =
       Some (d, ps[Index := (ps ! Index)\<lparr>proc_Port := P\<rparr>], s', w @ due_ports s js) \<and>
     P mod 64 = 0 \<and> P < 4096 \<and> page_ok s' \<and> distinct js \<and>
     set js = {j. j < 64 \<and> bit (evtchn_pending_sel (vcpu_infos s v)) j} \<and>
     js = filter (bit (evtchn_pending_sel (vcpu_infos s v))) (selectors_from (proc_Port (ps ! Index) div 64) 64)"
proof -
  define k where "k = proc_Port (ps ! Index) div 64"
  have k: "proc_Port (ps ! Index) = 64 * k" "k < 64" using Port by (auto simp: k_def)
  let ?M = "evtchn_pending_sel (vcpu_infos s v)"
  let ?s = "s\<lparr>vcpu_infos := (vcpu_infos s)(v := (vcpu_infos s v)\<lparr>evtchn_pending_sel := 0\<rparr>)\<rparr>"
  let ?js = "filter (bit ?M) (selectors_from k 64)"
  have js: "distinct ?js" "set ?js = {j. j < 64 \<and> bit ?M j}"
    using selectors_from_distinct [OF k(2)] selectors_from_all [OF k(2)] by (auto simp: selectors_from_def)
  have same: "page_ok ?s" "due_ports ?s ?js = due_ports s ?js"
  proof -
    have "due ?s = due s" by (rule ext) (simp add: due_def port_pending_def port_masked_def)
    then show "due_ports ?s ?js = due_ports s ?js" by (simp add: due_ports_def)
    show "page_ok ?s" using s by (simp add: page_ok_def)
  qed
  from visit_local [OF handler js(1) _ same(1), of False w] js(2) obtain d s' where
    vis: "visit Event ?js False (?s, w) = Some (d, s', w @ due_ports s ?js)" "page_ok s'"
    using same(2) by auto
  from poll_selectors_visit [OF k(2), of Event ?M False "(?s, w)"] obtain P where
    P: "P mod 64 = 0" "P < 4096" "poll_selectors Event ?M (64 * k) False (?s, w) =
      Option.bind (visit Event ?js False (?s, w)) (\<lambda>x. Some (P, x))"
    by (elim exE conjE)
  then have "poll_selectors Event ?M (64 * k) False (?s, w) = Some (P, d, s', w @ due_ports s ?js)"
    using vis(1) by simp
  then have poll: "SharedInfoEvtchnPoll Event ps Index (s, w) =
      Some (d, ps[Index := (ps ! Index)\<lparr>proc_Port := P\<rparr>], s', w @ due_ports s ?js)"
    using Index v k(1) by (simp add: SharedInfoEvtchnPoll_def)
  show ?thesis unfolding k_def [symmetric]
    by (intro exI conjI) (rule poll P(1,2) vis(2) js refl)+
qed

section \<open>The time of day\<close>

lemma ull_id [simp]: "x < 2 ^ 64 \<Longrightarrow> ull x = x"
  by (simp add: ull_def)

text \<open>
  While nothing wraps the result is the wallclock at boot plus the time since boot, in units of
  100 ns since 1601. The seconds since 1601 have to stay below \<open>2 ^ 64\<close> ns.
\<close>

lemma wall_time_exact:
  assumes "ts_NanoSeconds r < NS_PER_S"
    and fits: "(ts_Seconds r + 11644473600) * NS_PER_S + ts_NanoSeconds r + (ts_SystemTime r + tsc_age r Tsc) < 2 ^ 64"
  shows "wall_time r Tsc =
     ((ts_Seconds r + 11644473600) * NS_PER_S + ts_NanoSeconds r + (ts_SystemTime r + tsc_age r Tsc)) div 100"
proof -
  define T where "T = ts_SystemTime r + tsc_age r Tsc"
  define S where "S = ts_Seconds r + 11644473600"
  have S: "S \<le> S * NS_PER_S" by (simp add: NS_PER_S_def)
  have le: "T div NS_PER_S \<le> T" by (rule div_le_dividend)
  have "T mod NS_PER_S < NS_PER_S" by (simp add: NS_PER_S_def)
  then have nano: "ts_NanoSeconds r + T mod NS_PER_S < 2 ^ 64" using assms(1) by (simp add: NS_PER_S_def)
  have split: "T = T div NS_PER_S * NS_PER_S + T mod NS_PER_S" by simp
  have total: "(S + T div NS_PER_S) * NS_PER_S + (ts_NanoSeconds r + T mod NS_PER_S) =
      S * NS_PER_S + ts_NanoSeconds r + T"
    by (subst (3) split) (simp only: add_mult_distrib)
  have fits': "S * NS_PER_S + ts_NanoSeconds r + T < 2 ^ 64" using fits by (simp only: T_def S_def)
  have T: "T < 2 ^ 64" "S < 2 ^ 64" using fits' S by linarith+
  have "S + T div NS_PER_S < 2 ^ 64" using fits' S le by linarith
  moreover have "(S + T div NS_PER_S) * NS_PER_S < 2 ^ 64" using total fits' by linarith
  ultimately have "wall_time r Tsc =
      ((S + T div NS_PER_S) * NS_PER_S + (ts_NanoSeconds r + T mod NS_PER_S)) div 100"
    using T nano total fits' unfolding wall_time_def Let_def T_def [symmetric] S_def [symmetric]
    by (simp only: ull_id)
  then show ?thesis by (simp only: total) (simp only: T_def S_def)
qed

section \<open>Reading while the hypervisor writes\<close>

text \<open>
  The words the loop reads, as they are at each moment. The hypervisor makes a version odd before it changes the
  values the version guards and even after; versions only grow. An attempt of the loop reads the
  versions, the values in any order between the barriers, and the versions again, each at a moment of its own.
\<close>

record time_page =
  tp_wc_version :: nat
  tp_time_version :: nat
  tp_sec :: nat
  tp_nsec :: nat
  tp_system_time :: nat
  tp_timestamp :: nat
  tp_shift :: int
  tp_mul :: nat

definition guards :: "(nat \<Rightarrow> nat) \<Rightarrow> (nat \<Rightarrow> 'a) \<Rightarrow> bool" where
  "guards version values \<longleftrightarrow> (\<forall>t. version t \<le> version (Suc t)) \<and> (\<forall>t. values (Suc t) = values t \<or> odd (version t))"

definition hypervisor_updates :: "(nat \<Rightarrow> time_page) \<Rightarrow> bool" where
  "hypervisor_updates page \<longleftrightarrow>
     guards (\<lambda>t. tp_wc_version (page t)) (\<lambda>t. (tp_sec (page t), tp_nsec (page t))) \<and>
     guards (\<lambda>t. tp_time_version (page t)) (\<lambda>t. (tp_system_time (page t), tp_timestamp (page t), tp_shift (page t), tp_mul (page t)))"

record read_moments =
  rm_wc :: nat
  rm_time :: nat
  rm_value :: "nat \<Rightarrow> nat"
  rm_wc' :: nat
  rm_time' :: nat

definition moments_ok :: "read_moments \<Rightarrow> bool" where
  "moments_ok m \<longleftrightarrow> rm_wc m \<le> rm_time m \<and> (\<forall>i. rm_time m \<le> rm_value m i \<and> rm_value m i \<le> rm_wc' m) \<and> rm_wc' m \<le> rm_time' m"

definition sample_at :: "(nat \<Rightarrow> time_page) \<Rightarrow> read_moments \<Rightarrow> time_sample" where
  "sample_at page m = \<lparr>ts_WcVersion = tp_wc_version (page (rm_wc m)), ts_TimeVersion = tp_time_version (page (rm_time m)),
     ts_WcVersion' = tp_wc_version (page (rm_wc' m)), ts_TimeVersion' = tp_time_version (page (rm_time' m)),
     ts_Seconds = tp_sec (page (rm_value m 0)), ts_NanoSeconds = tp_nsec (page (rm_value m 1)),
     ts_SystemTime = tp_system_time (page (rm_value m 2)), ts_Timestamp = tp_timestamp (page (rm_value m 3)),
     ts_TscShift = tp_shift (page (rm_value m 4)), ts_TscSystemMul = tp_mul (page (rm_value m 5))\<rparr>"

text \<open>Between two equal, even versions nothing changes.\<close>

lemma guards_mono: "guards version values \<Longrightarrow> a \<le> b \<Longrightarrow> version a \<le> version b"
  by (rule lift_Suc_mono_le) (auto simp: guards_def)

lemma guards_still:
  assumes g: "guards version values" and "version b = version a" and "even (version a)"
  shows "a \<le> t \<Longrightarrow> t \<le> b \<Longrightarrow> values t = values a"
proof (induction t rule: dec_induct)
  case (step t)
  have "version t = version a" using guards_mono [OF g, of a t] guards_mono [OF g, of t b] step assms(2) by simp
  then have "values (Suc t) = values t" using g assms(3) by (auto simp: guards_def)
  with step show ?case by simp
qed simp

lemma consistent_sample:
  assumes "hypervisor_updates page" and m: "moments_ok m" and c: "consistent (sample_at page m)"
  shows "sample_at page m = sample_at page \<lparr>rm_wc = rm_time m, rm_time = rm_time m, rm_value = (\<lambda>_. rm_time m), rm_wc' = rm_time m, rm_time' = rm_time m\<rparr>"
proof -
  have g: "guards (\<lambda>t. tp_wc_version (page t)) (\<lambda>t. (tp_sec (page t), tp_nsec (page t)))"
    "guards (\<lambda>t. tp_time_version (page t)) (\<lambda>t. (tp_system_time (page t), tp_timestamp (page t), tp_shift (page t), tp_mul (page t)))"
    using assms(1) by (simp_all add: hypervisor_updates_def)
  have v: "tp_wc_version (page (rm_wc' m)) = tp_wc_version (page (rm_wc m))" "even (tp_wc_version (page (rm_wc m)))"
    "tp_time_version (page (rm_time' m)) = tp_time_version (page (rm_time m))" "even (tp_time_version (page (rm_time m)))"
    using c by (simp_all add: consistent_def sample_at_def)
  have le: "rm_wc m \<le> rm_time m" "rm_time m \<le> rm_value m i" "rm_value m i \<le> rm_wc' m" "rm_wc' m \<le> rm_time' m" for i
    using m by (simp_all add: moments_ok_def)
  have range: "rm_wc m \<le> rm_value m i" "rm_value m i \<le> rm_time' m" "rm_time m \<le> rm_wc' m" for i
    using le(1,4) le(2,3) [of i] by linarith+
  note wc = guards_still [OF g(1) v(1,2)] and tm = guards_still [OF g(2) v(3,4)]
  have "tp_wc_version (page (rm_time m)) = tp_wc_version (page (rm_wc m))"
    using guards_mono [OF g(1) le(1)] guards_mono [OF g(1) range(3)] v(1) by simp
  then show ?thesis using wc [OF range(1) le(3)] wc [OF le(1) range(3)] tm [OF le(2) range(2)] v(1,3)
    by (simp add: sample_at_def)
qed

text \<open>
  What the time is by the words of one page: seconds, nanoseconds and system time as they stand, and the ticks since
  the timestamp, scaled by the shift to the left or to the right and by \<open>tp_mul / 2 ^ 32\<close> ns a tick.
\<close>

definition elapsed_ns :: "time_page \<Rightarrow> nat \<Rightarrow> nat" where
  "elapsed_ns p Tsc =
     (if 0 \<le> tp_shift p then (Tsc - tp_timestamp p) * 2 ^ nat (tp_shift p) * tp_mul p div 2 ^ 32
      else (Tsc - tp_timestamp p) div 2 ^ nat (- tp_shift p) * tp_mul p div 2 ^ 32)"

definition since_1601 :: "time_page \<Rightarrow> nat \<Rightarrow> nat" where
  "since_1601 p Tsc = ((tp_sec p + 11644473600) * 1000000000 + tp_nsec p + tp_system_time p + elapsed_ns p Tsc) div 100"

definition page_in_range :: "nat \<Rightarrow> time_page \<Rightarrow> bool" where
  "page_in_range Tsc p \<longleftrightarrow> tp_sec p < 2 ^ 32 \<and> tp_nsec p < 1000000000 \<and> tp_timestamp p \<le> Tsc \<and> Tsc < 2 ^ 64 \<and>
     - 64 < tp_shift p \<and> tp_shift p < 64 \<and> tp_mul p < 2 ^ 32 \<and>
     (Tsc - tp_timestamp p) * (if 0 \<le> tp_shift p then 2 ^ nat (tp_shift p) else 1) < 2 ^ 64 \<and>
     tp_system_time p + elapsed_ns p Tsc < 25 * 10 ^ 17"

lemma ull_scaled: "x < 2 ^ 64 \<Longrightarrow> m < 2 ^ 32 \<Longrightarrow> ull (x * m div 2 ^ 32) = x * m div 2 ^ 32"
proof (rule ull_id)
  assume "x < 2 ^ 64" "m < 2 ^ 32"
  then have "x * m < 2 ^ 64 * 2 ^ 32" by (intro mult_strict_mono) auto
  then show "x * m div 2 ^ 32 < 2 ^ 64" by (rule less_mult_imp_div_less)
qed

lemma tsc_age_elapsed:
  assumes "page_in_range Tsc p" and r: "ts_Timestamp r = tp_timestamp p" "ts_TscShift r = tp_shift p" "ts_TscSystemMul r = tp_mul p"
  shows "tsc_age r Tsc = elapsed_ns p Tsc"
proof -
  let ?d = "Tsc - tp_timestamp p"
  have ticks: "ull (Tsc + 2 ^ 64 - tp_timestamp p) = ?d"
  proof -
    have "Tsc + 2 ^ 64 - tp_timestamp p = ?d + 2 ^ 64" "?d < 2 ^ 64" using assms(1) by (auto simp: page_in_range_def)
    then show ?thesis by (simp only: ull_def mod_add_self2 mod_less)
  qed
  have m: "tp_mul p < 2 ^ 32" and d: "?d < 2 ^ 64" using assms(1) by (auto simp: page_in_range_def)
  show ?thesis
  proof (cases "0 \<le> tp_shift p")
    case True
    then have x: "?d * 2 ^ nat (tp_shift p) < 2 ^ 64" using assms(1) by (simp only: page_in_range_def if_True)
    then show ?thesis using True ticks ull_scaled [OF x m] by (simp only: tsc_age_def Let_def r elapsed_ns_def ull_id [OF x] not_less [symmetric] if_False if_True not_False_eq_True)
  next
    case False
    have x: "?d div 2 ^ nat (- tp_shift p) < 2 ^ 64" using d by (rule le_less_trans [OF div_le_dividend])
    have "tp_shift p < 0" using False by simp
    then show ?thesis using False ticks ull_scaled [OF x m] by (simp only: tsc_age_def Let_def r elapsed_ns_def if_False if_True)
  qed
qed

lemma range_bound:
  assumes "page_in_range Tsc p"
  shows "(tp_sec p + 11644473600) * NS_PER_S + tp_nsec p + (tp_system_time p + elapsed_ns p Tsc) < 2 ^ 64"
proof -
  have eqs: "(2::nat) ^ 32 = 4294967296" "(2::nat) ^ 64 = 18446744073709551616" "25 * (10::nat) ^ 17 = 2500000000000000000" by simp_all
  have "tp_sec p < 4294967296" "tp_nsec p < 1000000000" "tp_system_time p + elapsed_ns p Tsc < 2500000000000000000"
    using assms unfolding page_in_range_def by (simp_all only: eqs)
  moreover have "(tp_sec p + 11644473600) * 1000000000 = tp_sec p * 1000000000 + 11644473600000000000" by simp
  ultimately show ?thesis unfolding NS_PER_S_def eqs by linarith
qed

section \<open>Reference counting\<close>

text \<open>Nothing is held, or everything is.\<close>

definition si_idle :: "XENBUS_SHARED_INFO_CONTEXT \<Rightarrow> bool" where
  "si_idle ctx \<longleftrightarrow> si_References ctx = 0 \<and> \<not> si_Mdl ctx \<and> \<not> si_Mapped ctx \<and> si_Processor ctx = None \<and>
     si_ProcessorCount ctx = 0 \<and> \<not> si_Suspend ctx \<and> \<not> si_SuspendCallbackEarly ctx \<and> \<not> si_Debug ctx \<and>
     \<not> si_DebugCallback ctx"

definition si_active :: "XENBUS_SHARED_INFO_CONTEXT \<Rightarrow> bool" where
  "si_active ctx \<longleftrightarrow> 0 < si_References ctx \<and> si_Mdl ctx \<and> si_Mapped ctx \<and> si_Suspend ctx \<and>
     si_SuspendCallbackEarly ctx \<and> si_Debug ctx \<and> si_DebugCallback ctx \<and>
     (\<exists>ps. si_Processor ctx = Some ps \<and> length ps = si_ProcessorCount ctx)"

lemma zero_PROCESSOR_fields [simp]:
  "proc_Port zero_PROCESSOR = 0" "zero_PROCESSOR\<lparr>proc_vcpu_id := 0\<rparr> = zero_PROCESSOR"
  by (simp_all add: zero_PROCESSOR_def)

lemma init_processors_shape:
  assumes "init_processors env [a ..< n] ps = (r, ps')" and "length ps = n" and "a \<le> n"
    and "\<forall>p \<in> set ps. proc_Port p = 0" and "\<forall>j. a \<le> j \<and> j < n \<longrightarrow> ps ! j = zero_PROCESSOR"
  shows "length ps' = n \<and> (\<forall>p \<in> set ps'. proc_Port p = 0) \<and>
     (\<forall>st k. r = Some (st, k) \<longrightarrow> \<not> NT_SUCCESS st \<and> k \<le> n \<and> (\<forall>j. k \<le> j \<and> j < n \<longrightarrow> ps' ! j = zero_PROCESSOR))"
  using assms
proof (induction "n - a" arbitrary: a ps)
  case 0
  then show ?case by simp
next
  case (Suc m)
  then have a: "a < n" "m = n - Suc a" "[a ..< n] = a # [Suc a ..< n]" by (simp_all add: upt_conv_Cons)
  have z: "ps ! a = zero_PROCESSOR" using Suc.prems(5) a(1) by simp
  obtain st v where id: "env_vcpu_id env a = (st, v)" by fastforce
  obtain st2 u where info: "env_vcpu_info env a = (st2, u)" by fastforce
  note IH = Suc.hyps(1) [OF a(2)]
  have upd: "length (ps[a := p]) = n" "\<forall>q \<in> set (ps[a := p]). proc_Port q = 0"
    "\<forall>j. Suc a \<le> j \<and> j < n \<longrightarrow> ps[a := p] ! j = zero_PROCESSOR" if "proc_Port p = 0" for p
    using Suc.prems that by (auto dest!: set_update_subset_insert [THEN subsetD])
  have step: ?case if "init_processors env [Suc a ..< n] (ps[a := p]) = (r, ps')" "proc_Port p = 0" for p
    using IH [OF that(1) upd(1) _ upd(2,3)] that(2) a(1) by simp
  have same: ?case if "init_processors env [Suc a ..< n] ps = (r, ps')"
  proof -
    have "ps[a := zero_PROCESSOR] = ps" using z list_update_id [of ps a] by simp
    with step [of zero_PROCESSOR] that show ?thesis by (simp add: zero_PROCESSOR_def)
  qed
  have stop: "\<forall>j. a \<le> j \<and> j < n \<longrightarrow> ps[a := zero_PROCESSOR] ! j = zero_PROCESSOR"
    using Suc.prems(5) a(1) Suc.prems(2) by (auto simp: nth_list_update)
  have eq: "ps[a := zero_PROCESSOR] = ps" using z list_update_id [of ps a] by simp
  show ?case
  proof (cases "st = STATUS_NOT_SUPPORTED")
    case True
    then show ?thesis using Suc.prems(1) a(3) id same by simp
  next
    case sup: False
    show ?thesis
    proof (cases "NT_SUCCESS st")
      case False
      then show ?thesis using Suc.prems a id sup by auto
    next
      case ok: True
      show ?thesis
      proof (cases "NT_SUCCESS st2")
        case True
        then show ?thesis
          using Suc.prems(1,2) a id info sup ok z
            step [of "zero_PROCESSOR\<lparr>proc_vcpu_id := v, proc_Vcpu := Some (RegisteredVcpu u)\<rparr>"]
          by (simp add: Let_def)
      next
        case bad: False
        show ?thesis
        proof (cases "st2 = STATUS_NOT_SUPPORTED")
          case True
          then show ?thesis
            using Suc.prems(1,2) a id info sup ok z bad
              step [of "zero_PROCESSOR\<lparr>proc_vcpu_id := v\<rparr>"]
              step [of "zero_PROCESSOR\<lparr>proc_vcpu_id := v, proc_Vcpu := Some (LegacyVcpu v)\<rparr>"]
            by (simp add: Let_def split: if_splits)
        next
          case False
          then have "r = Some (st2, a)" "ps' = ps[a := zero_PROCESSOR]"
            using Suc.prems(1,2) a id info sup ok z bad by (simp_all add: Let_def)
          then show ?thesis using eq Suc.prems(2,4,5) a(1) bad by simp
        qed
      qed
    qed
  qed
qed

lemma clear_processors_nth:
  "k \<le> length ps \<Longrightarrow> length (clear_processors k ps) = length ps \<and> (\<forall>j < length ps.
     clear_processors k ps ! j = (if j < k then (ps ! j)\<lparr>proc_Vcpu := None, proc_vcpu_id := 0\<rparr> else ps ! j))"
proof (induction k arbitrary: ps)
  case (Suc k)
  let ?ps = "ps[k := (ps ! k)\<lparr>proc_Vcpu := None, proc_vcpu_id := 0\<rparr>]"
  have "clear_processors (Suc k) ps = clear_processors k ?ps" by (simp add: clear_processors_def)
  with Suc.IH [of ?ps] Suc.prems show ?case by (auto simp: nth_list_update less_Suc_eq)
qed (simp add: clear_processors_def)

lemma clear_processors_zero:
  assumes "k \<le> length ps" and "\<forall>p \<in> set ps. proc_Port p = 0" and "\<forall>j. k \<le> j \<and> j < length ps \<longrightarrow> ps ! j = zero_PROCESSOR"
  shows "\<forall>p \<in> set (clear_processors k ps). p = zero_PROCESSOR"
proof
  fix p assume "p \<in> set (clear_processors k ps)"
  then obtain j where "j < length ps" "p = clear_processors k ps ! j"
    using clear_processors_nth [OF assms(1)] by (auto simp: in_set_conv_nth)
  moreover from this have "proc_Port (ps ! j) = 0" using assms(2) by simp
  ultimately show "p = zero_PROCESSOR"
    using clear_processors_nth [OF assms(1)] assms(3) by (cases "j < k") (simp_all add: zero_PROCESSOR_def)
qed

lemma not_success_no_memory: "\<not> NT_SUCCESS STATUS_NO_MEMORY"
  by (simp add: NT_SUCCESS_def)

lemmas si_fails = si_fail1_def si_fail2_def si_fail3_def si_fail4_def si_fail5_def si_fail6_def si_fail7_def
  SharedInfoUnmap_def ASSERT_def

lemma SharedInfoAcquire_law:
  assumes "si_idle ctx \<or> si_active ctx" and map: "NT_SUCCESS (env_map env)"
  shows "\<exists>st ctx'. SharedInfoAcquire env ctx = Some (st, ctx') \<and>
     (if NT_SUCCESS st then si_active ctx' \<and> si_References ctx' = si_References ctx + 1
      else \<exists>S. ctx' = ctx\<lparr>si_Shared := S\<rparr>)"
proof (cases "si_References ctx = 0")
  case False
  with assms(1) show ?thesis by (auto simp: SharedInfoAcquire_def si_idle_def si_active_def NT_SUCCESS_def)
next
  case zero: True
  then have idle: "si_idle ctx" using assms(1) by (auto simp: si_active_def)
  obtain r ps where ps: "init_processors env [0 ..< env_cpus env] (replicate (env_cpus env) zero_PROCESSOR) = (r, ps)"
    by fastforce
  note shape = init_processors_shape [OF ps]
  have shape: "length ps = env_cpus env" "\<And>st k. r = Some (st, k) \<Longrightarrow> \<not> NT_SUCCESS st \<and>
      (\<forall>p \<in> set (clear_processors k ps). p = zero_PROCESSOR)"
    using shape clear_processors_zero [of _ ps] by (auto simp: zero_PROCESSOR_def)
  show ?thesis
  proof (cases r)
    case None
    then show ?thesis using zero idle map ps shape(1) not_success_no_memory
      by (cases ctx) (auto simp: SharedInfoAcquire_def si_fails SharedInfoMap_def si_idle_def si_active_def Let_def NT_SUCCESS_def)
  next
    case (Some sk)
    then obtain st k where r: "r = Some (st, k)" by (cases sk) auto
    from shape(2) [OF r] have "\<not> NT_SUCCESS st" "\<forall>p \<in> set (clear_processors k ps). p = zero_PROCESSOR" by blast+
    then show ?thesis using zero idle map ps r not_success_no_memory
      by (cases ctx) (auto simp: SharedInfoAcquire_def si_fails SharedInfoMap_def si_idle_def si_active_def Let_def)
  qed
qed

lemma SharedInfoRelease_law:
  assumes "si_active ctx"
  shows "\<exists>ctx'. SharedInfoRelease ctx = Some ctx' \<and> si_References ctx' = si_References ctx - 1 \<and>
     (if si_References ctx = 1 then si_idle ctx' else si_active ctx') \<and> si_Shared ctx' = si_Shared ctx"
  using assms
  by (auto simp: SharedInfoRelease_def si_active_def si_idle_def SharedInfoUnmap_def ASSERT_def zero_PROCESSOR_def Let_def)

lemma SharedInfoRelease_idle: "si_idle ctx \<Longrightarrow> SharedInfoRelease ctx = None"
  by (simp add: SharedInfoRelease_def si_idle_def Let_def)

section \<open>Properties\<close>

text \<open>An event handler as evtchn.c has them: it acknowledges its port.\<close>

definition ack_event :: "nat list event" where
  "ack_event Port s = do { s' \<leftarrow> SharedInfoEvtchnAck (fst s) Port; Some (True, s', snd s @ [Port]) }"

lemma ack_event_local: "local_handler ack_event"
  unfolding local_handler_def
proof (intro allI impI)
  fix p :: nat and s and w :: "nat list"
  assume "p < 4096" "page_ok s"
  then obtain s' where "SharedInfoEvtchnAck s p = Some s'" "page_ok s'"
    "\<forall>q. port_pending s' q = (q \<noteq> p \<and> port_pending s q)" "\<forall>q. port_masked s' q = port_masked s q"
    using SharedInfoEvtchnAck_law by blast
  then show "\<exists>r s'. ack_event p (s, w) = Some (r, s', w @ [p]) \<and> page_ok s' \<and>
      (\<forall>q. q \<noteq> p \<longrightarrow> port_pending s' q = port_pending s q \<and> port_masked s' q = port_masked s q)"
    unfolding ack_event_def by (intro exI [of _ True] exI [of _ s']) simp
qed

definition sample_page :: shared_info where
  "sample_page = \<lparr>evtchn_pending = (replicate 64 0)[1 := 5, 3 := 2], evtchn_mask = (replicate 64 0)[1 := 4],
     vcpu_infos = (\<lambda>_. \<lparr>evtchn_upcall_pending = 1, evtchn_pending_sel = 10\<rparr>)\<rparr>"

definition sample_processor :: XENBUS_SHARED_INFO_PROCESSOR where
  "sample_processor = \<lparr>proc_vcpu_id = 0, proc_Vcpu = Some (LegacyVcpu 0), proc_Port = 128\<rparr>"

lemma sample_page_ok: "page_ok sample_page"
  by (simp add: page_ok_def sample_page_def)

text \<open>
  C38. A poll returns, whatever port the last one stopped at, and calls the handler exactly once for
  every port that is pending and not masked under a selector the hypervisor has set, and for no
  other port. The port stored for the next poll is the first of a selector again.
\<close>

theorem SharedInfoEvtchnPoll_delivers_due:
  assumes "local_handler Event" and "Index < length ps" and "proc_Vcpu (ps ! Index) = Some v"
    and "proc_Port (ps ! Index) mod 64 = 0" and "proc_Port (ps ! Index) < 4096" and "page_ok s"
  shows "\<exists>d P s' ports.
     SharedInfoEvtchnPoll Event ps Index (s, w) =
       Some (d, ps[Index := (ps ! Index)\<lparr>proc_Port := P\<rparr>], s', w @ ports) \<and>
     page_ok s' \<and> P mod 64 = 0 \<and> P < 4096 \<and> distinct ports \<and>
     set ports = {p. p < 4096 \<and> bit (evtchn_pending_sel (vcpu_infos s v)) (p div 64) \<and>
                     port_pending s p \<and> \<not> port_masked s p}"
proof -
  from SharedInfoEvtchnPoll_law [OF assms, of w] obtain d P s' js where
    poll: "SharedInfoEvtchnPoll Event ps Index (s, w) =
       Some (d, ps[Index := (ps ! Index)\<lparr>proc_Port := P\<rparr>], s', w @ due_ports s js)" and
    P: "P mod 64 = 0" "P < 4096" and s': "page_ok s'" and js: "distinct js"
    "set js = {j. j < 64 \<and> bit (evtchn_pending_sel (vcpu_infos s v)) j}"
    by (elim exE conjE)
  have "p div 64 < 64 \<longleftrightarrow> p < 4096" for p :: nat by (simp add: div_less_iff_less_mult)
  then have "set (due_ports s js) = {p. p < 4096 \<and> bit (evtchn_pending_sel (vcpu_infos s v)) (p div 64) \<and>
      port_pending s p \<and> \<not> port_masked s p}"
    by (simp add: set_due_ports js(2) due_def conj_assoc)
  then show ?thesis
    by (intro exI conjI) (rule poll s' P distinct_due_ports [OF js(1)] | assumption)+
qed

theorem SharedInfoEvtchnPoll_delivers_due_witness:
  "\<exists>d P s' ports.
     SharedInfoEvtchnPoll ack_event [sample_processor] 0 (sample_page, []) =
       Some (d, [sample_processor\<lparr>proc_Port := P\<rparr>], s', [] @ ports) \<and> distinct ports \<and>
     set ports = {p. p < 4096 \<and> bit (10 :: 64 word) (p div 64) \<and>
                     port_pending sample_page p \<and> \<not> port_masked sample_page p} \<and> 64 \<in> set ports"
proof -
  have v: "proc_Vcpu ([sample_processor] ! 0) = Some (LegacyVcpu 0)" by (simp add: sample_processor_def)
  have sel: "evtchn_pending_sel (vcpu_infos sample_page (LegacyVcpu 0)) = 10" by (simp add: sample_page_def)
  have "port_pending sample_page 64 \<and> \<not> port_masked sample_page 64"
    by (simp add: port_pending_def port_masked_def sample_page_def)
  moreover have "bit (10 :: 64 word) 1" by (simp add: bit_numeral_rec)
  moreover have "0 < length [sample_processor]" "proc_Port ([sample_processor] ! 0) mod 64 = 0"
    "proc_Port ([sample_processor] ! 0) < 4096" by (simp_all add: sample_processor_def)
  ultimately show ?thesis
    using SharedInfoEvtchnPoll_delivers_due [OF ack_event_local _ v _ _ sample_page_ok, of "[]"]
    unfolding sel by fastforce
qed

text \<open>
  C40. The clock, while the hypervisor updates the page at any moments: when an attempt of the loop ends it,
  everything that was read is what the page held at one moment, with no update under way, and the result is the
  exact number of 100 ns units since 1601 by the words of that moment: the wallclock at boot, the system
  time and the ticks since the timestamp, scaled. The words are in range (32-bit seconds, 79 years of uptime, a
  timestamp not in the future, a shift below 64 that loses no bit to the left) and the versions do not wrap
  during a read.
\<close>

theorem SharedInfoGetTime_exact_from_consistent:
  assumes "hypervisor_updates page" and "\<forall>m \<in> set ms. moments_ok m \<and> rm_time m \<le> bound" and "\<forall>t \<le> bound. page_in_range Tsc (page t)"
    and "si_Processor ctx = Some (P # ps)" and "proc_Vcpu P = Some v" and "\<exists>m \<in> set ms. consistent (sample_at page m)"
  shows "\<exists>m t. m \<in> set ms \<and> consistent (sample_at page m) \<and> t = rm_time m \<and> even (tp_wc_version (page t)) \<and> even (tp_time_version (page t)) \<and>
     SharedInfoGetTime ctx (map (sample_at page) ms) Tsc universal = Some (since_1601 (page t) Tsc, \<not> universal)"
proof -
  from assms(6) have "\<exists>m \<in> set ms. read_time (map (sample_at page) ms) = Some (sample_at page m) \<and> consistent (sample_at page m)"
    by (induction ms) auto
  then obtain m where m: "m \<in> set ms" "read_time (map (sample_at page) ms) = Some (sample_at page m)" "consistent (sample_at page m)" by blast
  define r where "r = sample_at page m"
  define p where "p = page (rm_time m)"
  have ok: "moments_ok m" "rm_time m \<le> bound" using assms(2) m(1) by auto
  have range: "page_in_range Tsc p" using assms(3) ok(2) by (simp add: p_def)
  have at: "ts_Seconds r = tp_sec p" "ts_NanoSeconds r = tp_nsec p" "ts_SystemTime r = tp_system_time p" "ts_WcVersion r = tp_wc_version p"
    "ts_TimeVersion r = tp_time_version p" "ts_Timestamp r = tp_timestamp p" "ts_TscShift r = tp_shift p" "ts_TscSystemMul r = tp_mul p"
    unfolding r_def consistent_sample [OF assms(1) ok(1) m(3)] by (simp_all add: sample_at_def p_def)
  note age = tsc_age_elapsed [OF range at(6-8)]
  have nano: "ts_NanoSeconds r < NS_PER_S" using range by (simp add: at page_in_range_def NS_PER_S_def)
  have fits: "(ts_Seconds r + 11644473600) * NS_PER_S + ts_NanoSeconds r + (ts_SystemTime r + tsc_age r Tsc) < 2 ^ 64"
    unfolding age at using range_bound [OF range] by simp
  have "wall_time r Tsc = since_1601 p Tsc"
    using wall_time_exact [OF nano fits] by (simp add: age at since_1601_def NS_PER_S_def add.assoc)
  moreover have "even (tp_wc_version p)" "even (tp_time_version p)" using m(3) at(4,5) by (simp_all add: consistent_def r_def [symmetric])
  ultimately show ?thesis using assms(4,5) m
    by (intro exI [of _ m] exI [of _ "rm_time m"]) (simp add: SharedInfoGetTime_def r_def p_def)
qed

definition idle_context :: XENBUS_SHARED_INFO_CONTEXT where
  "idle_context = \<lparr>si_References = 0, si_Mdl = False, si_Mapped = False, si_Shared = sample_page,
     si_Processor = None, si_ProcessorCount = 0, si_Suspend = False, si_SuspendCallbackEarly = False,
     si_Debug = False, si_DebugCallback = False\<rparr>"

text \<open>An update between two moments: an attempt that spans it is thrown away, the next one is used.\<close>

definition sample_pages :: "nat \<Rightarrow> time_page" where
  "sample_pages t = (let p = \<lparr>tp_wc_version = 4, tp_time_version = 6, tp_sec = 1700000000, tp_nsec = 5, tp_system_time = 1000, tp_timestamp = 2000,
       tp_shift = -1, tp_mul = 2147483648\<rparr> in
     if t = 0 then p else if t = 1 then p\<lparr>tp_time_version := 7\<rparr> else if t = 2 then p\<lparr>tp_time_version := 7, tp_system_time := 1100\<rparr>
     else p\<lparr>tp_time_version := 8, tp_system_time := 1100\<rparr>)"

definition sample_moments :: "nat \<Rightarrow> nat \<Rightarrow> read_moments" where
  "sample_moments a b = \<lparr>rm_wc = a, rm_time = a, rm_value = (\<lambda>_. b), rm_wc' = b, rm_time' = b\<rparr>"

theorem SharedInfoGetTime_exact_from_consistent_witness:
  "SharedInfoGetTime (idle_context\<lparr>si_Processor := Some [sample_processor]\<rparr>) (map (sample_at sample_pages) [sample_moments 0 2, sample_moments 3 4]) 2400 True =
     Some (((1700000000 + 11644473600) * 1000000000 + 5 + 1100 + 100) div 100, False)"
proof -
  have hyp: "hypervisor_updates sample_pages" by (auto simp: hypervisor_updates_def guards_def sample_pages_def Let_def)
  have range: "\<forall>t \<le> 4. page_in_range 2400 (sample_pages t)"
    by (auto simp: page_in_range_def sample_pages_def elapsed_ns_def Let_def)
  have moments: "\<forall>m \<in> set [sample_moments 0 2, sample_moments 3 4]. moments_ok m \<and> rm_time m \<le> 4"
    by (simp add: moments_ok_def sample_moments_def)
  have cons: "\<exists>m \<in> set [sample_moments 0 2, sample_moments 3 4]. consistent (sample_at sample_pages m)"
    by (simp add: consistent_def sample_at_def sample_moments_def sample_pages_def Let_def)
  have not_first: "\<not> consistent (sample_at sample_pages (sample_moments 0 2))"
    by (simp add: consistent_def sample_at_def sample_moments_def sample_pages_def Let_def)
  have proc: "si_Processor (idle_context\<lparr>si_Processor := Some [sample_processor]\<rparr>) = Some [sample_processor]" "proc_Vcpu sample_processor = Some (LegacyVcpu 0)"
    by (simp_all add: sample_processor_def)
  have "rm_time (sample_moments 3 4) = 3" by (simp add: sample_moments_def)
  with SharedInfoGetTime_exact_from_consistent [OF hyp moments range proc cons, where universal = True] not_first
  have "SharedInfoGetTime (idle_context\<lparr>si_Processor := Some [sample_processor]\<rparr>)
      (map (sample_at sample_pages) [sample_moments 0 2, sample_moments 3 4]) 2400 True = Some (since_1601 (sample_pages 3) 2400, \<not> True)"
    by (auto simp del: list.map)
  then show ?thesis by (simp add: since_1601_def elapsed_ns_def sample_pages_def Let_def del: list.map)
qed

text \<open>
  Acquisition is all or nothing: whatever step fails, the context is left as it was found (only
  the content of the shared page may differ), and on success every resource is held. It returns in
  every case in which the page can be mapped; the assertion on the processor array holds.
\<close>

theorem SharedInfoAcquire_all_or_nothing:
  assumes "si_idle ctx \<or> si_active ctx" and "NT_SUCCESS (env_map env)"
  shows "\<exists>st ctx'. SharedInfoAcquire env ctx = Some (st, ctx') \<and>
     (if NT_SUCCESS st then si_active ctx' \<and> si_References ctx' = si_References ctx + 1
      else \<exists>S. ctx' = ctx\<lparr>si_Shared := S\<rparr>)"
  using SharedInfoAcquire_law [OF assms] .

definition good_env :: si_env where
  "good_env = \<lparr>env_hole = True, env_map = STATUS_SUCCESS, env_suspend = STATUS_SUCCESS,
     env_suspend_cb = STATUS_SUCCESS, env_debug = STATUS_SUCCESS, env_debug_cb = STATUS_SUCCESS, env_cpus = 2,
     env_mem = True, env_vcpu_id = (\<lambda>i. (STATUS_SUCCESS, i)), env_vcpu_info = (\<lambda>i. (STATUS_SUCCESS, i))\<rparr>"

lemma idle_context_idle: "si_idle idle_context"
  by (simp add: si_idle_def idle_context_def)

theorem SharedInfoAcquire_all_or_nothing_witness:
  "\<exists>st ctx'. SharedInfoAcquire (good_env\<lparr>env_vcpu_info := (\<lambda>i. (if i = 0 then STATUS_SUCCESS else STATUS_UNSUCCESSFUL, i))\<rparr>)
       idle_context = Some (st, ctx') \<and>
     (if NT_SUCCESS st then si_active ctx' \<and> si_References ctx' = si_References idle_context + 1
      else \<exists>S. ctx' = idle_context\<lparr>si_Shared := S\<rparr>)"
  by (rule SharedInfoAcquire_all_or_nothing) (simp_all add: idle_context_idle good_env_def NT_SUCCESS_def)

text \<open>
  Each release undoes one acquisition: a context with \<open>n\<close> references can be released \<open>n\<close> times
  without failing an assertion, gives everything back with the last one and nothing before it.
\<close>

theorem SharedInfoRelease_balances:
  assumes "si_active ctx" and "si_References ctx = int (Suc n)"
  shows "\<exists>ctx'. ((\<lambda>c. Option.bind c SharedInfoRelease) ^^ Suc n) (Some ctx) = Some ctx' \<and> si_idle ctx' \<and>
     (\<forall>k \<le> n. \<exists>c. ((\<lambda>c. Option.bind c SharedInfoRelease) ^^ k) (Some ctx) = Some c \<and> si_active c)"
proof -
  let ?R = "\<lambda>c. Option.bind c SharedInfoRelease"
  have "\<exists>c. (?R ^^ k) (Some ctx) = Some c \<and> si_active c \<and> si_References c = int (Suc (n - k))" if "k \<le> n" for k
    using that
  proof (induction k)
    case 0 then show ?case using assms by simp
  next
    case (Suc k)
    then obtain c where "(?R ^^ k) (Some ctx) = Some c" "si_active c" "si_References c = int (Suc (n - k))" by auto
    with SharedInfoRelease_law [of c] Suc.prems show ?case by auto
  qed
  note * = this
  from * [of n] obtain c where "(?R ^^ n) (Some ctx) = Some c" "si_active c" "si_References c = 1" by auto
  with SharedInfoRelease_law [of c] have "\<exists>ctx'. (?R ^^ Suc n) (Some ctx) = Some ctx' \<and> si_idle ctx'" by auto
  with * show ?thesis by blast
qed

theorem SharedInfoRelease_balances_witness:
  "\<exists>ctx ctx'. SharedInfoAcquire good_env idle_context = Some (STATUS_SUCCESS, ctx) \<and>
     ((\<lambda>c. Option.bind c SharedInfoRelease) ^^ Suc 0) (Some ctx) = Some ctx' \<and> si_idle ctx'"
proof -
  obtain st ctx where a: "SharedInfoAcquire good_env idle_context = Some (st, ctx)" "NT_SUCCESS st \<longrightarrow> si_active ctx \<and>
      si_References ctx = 1"
    using SharedInfoAcquire_law [of idle_context good_env] idle_context_idle
    by (auto simp: good_env_def NT_SUCCESS_def idle_context_def)
  have "[0 ..< 2] = [0, 1 :: nat]" by (simp add: upt_rec)
  then have "st = STATUS_SUCCESS" using a(1)
    by (simp add: SharedInfoAcquire_def idle_context_def good_env_def SharedInfoMap_def ASSERT_def NT_SUCCESS_def
        numeral_2_eq_2 Let_def)
  with a SharedInfoRelease_balances [of ctx 0] show ?thesis by (auto simp: NT_SUCCESS_def)
qed

end
