(* ===== verification/Evtchn_Abi.thy ===== *)
theory Evtchn_Abi
  imports Prelude
begin

text \<open>
  The interface through which evtchn.c drives the two event channel ABIs
  (XENBUS\_EVTCHN\_ABI of src/src/xenbus/evtchn\_abi.h), as a locale: the operations on one port,
  the laws both providers keep, and what a client can conclude from them. The providers are
  evtchn\_2l.c and evtchn\_fifo.c; each is an interpretation in its own theory.
\<close>

section \<open>The abstract port\<close>

text \<open>What a client does to ports, and its effect on the two bits of every port.\<close>

datatype port_op = PortAck nat | PortMask nat | PortUnmask nat

type_synonym port_bits = "(nat \<Rightarrow> bool) \<times> (nat \<Rightarrow> bool)"

fun port_of :: "port_op \<Rightarrow> nat" where
  "port_of (PortAck p) = p"
| "port_of (PortMask p) = p"
| "port_of (PortUnmask p) = p"

fun abstract_op :: "port_op \<Rightarrow> port_bits \<Rightarrow> port_bits" where
  "abstract_op (PortAck p) (pending, masked) = (pending(p := False), masked)"
| "abstract_op (PortMask p) (pending, masked) = (pending, masked(p := True))"
| "abstract_op (PortUnmask p) (pending, masked) = (pending, masked(p := False))"

text \<open>The value returned: whether an unmasked port is pending; nothing for the others.\<close>

fun abstract_result :: "port_op \<Rightarrow> port_bits \<Rightarrow> bool option" where
  "abstract_result (PortUnmask p) (pending, masked) = Some (pending p)"
| "abstract_result _ _ = None"

text \<open>The same operations on a provider's state.\<close>

fun provider_op ::
  "('s \<Rightarrow> nat \<Rightarrow> 's kernel) \<Rightarrow> ('s \<Rightarrow> nat \<Rightarrow> 's kernel) \<Rightarrow> ('s \<Rightarrow> nat \<Rightarrow> (bool \<times> 's) kernel) \<Rightarrow>
     port_op \<Rightarrow> 's \<Rightarrow> (bool option \<times> 's) kernel" where
  "provider_op ack msk unmask (PortAck p) s = Option.bind (ack s p) (\<lambda>s'. Some (None, s'))"
| "provider_op ack msk unmask (PortMask p) s = Option.bind (msk s p) (\<lambda>s'. Some (None, s'))"
| "provider_op ack msk unmask (PortUnmask p) s = Option.bind (unmask s p) (\<lambda>(r, s'). Some (Some r, s'))"

fun provider_run ::
  "('s \<Rightarrow> nat \<Rightarrow> 's kernel) \<Rightarrow> ('s \<Rightarrow> nat \<Rightarrow> 's kernel) \<Rightarrow> ('s \<Rightarrow> nat \<Rightarrow> (bool \<times> 's) kernel) \<Rightarrow>
     port_op list \<Rightarrow> 's \<Rightarrow> (bool option list \<times> 's) kernel" where
  "provider_run ack msk unmask [] s = Some ([], s)"
| "provider_run ack msk unmask (op # ops) s =
     Option.bind (provider_op ack msk unmask op s)
       (\<lambda>(r, s'). Option.bind (provider_run ack msk unmask ops s') (\<lambda>(rs, t). Some (r # rs, t)))"

fun abstract_run :: "port_op list \<Rightarrow> port_bits \<Rightarrow> bool option list \<times> port_bits" where
  "abstract_run [] b = ([], b)"
| "abstract_run (op # ops) b =
     (let (rs, b') = abstract_run ops (abstract_op op b) in (abstract_result op b # rs, b'))"

section \<open>The interface\<close>

locale evtchn_abi =
  fixes ok :: "'s \<Rightarrow> bool"
    and ports :: "'s \<Rightarrow> nat set"
    and pending :: "'s \<Rightarrow> nat \<Rightarrow> bool"
    and masked :: "'s \<Rightarrow> nat \<Rightarrow> bool"
    and ack :: "'s \<Rightarrow> nat \<Rightarrow> 's kernel"
    and msk :: "'s \<Rightarrow> nat \<Rightarrow> 's kernel"
    and unmask :: "'s \<Rightarrow> nat \<Rightarrow> (bool \<times> 's) kernel"
  assumes ack_law: "ok s \<Longrightarrow> p \<in> ports s \<Longrightarrow> \<exists>s'. ack s p = Some s' \<and> ok s' \<and> ports s' = ports s \<and>
        (\<forall>q \<in> ports s. pending s' q = (q \<noteq> p \<and> pending s q) \<and> masked s' q = masked s q)"
    and mask_law: "ok s \<Longrightarrow> p \<in> ports s \<Longrightarrow> \<exists>s'. msk s p = Some s' \<and> ok s' \<and> ports s' = ports s \<and>
        (\<forall>q \<in> ports s. pending s' q = pending s q \<and> masked s' q = (q = p \<or> masked s q))"
    and unmask_law: "ok s \<Longrightarrow> p \<in> ports s \<Longrightarrow> \<exists>s'. unmask s p = Some (pending s p, s') \<and> ok s' \<and>
        ports s' = ports s \<and> (\<forall>q \<in> ports s. pending s' q = pending s q \<and> masked s' q = (q \<noteq> p \<and> masked s q))"
begin

definition represents :: "'s \<Rightarrow> port_bits \<Rightarrow> bool" where
  "represents s b \<longleftrightarrow> ok s \<and> (\<forall>q \<in> ports s. fst b q = pending s q \<and> snd b q = masked s q)"

lemma op_refines:
  assumes "represents s b" and "port_of op \<in> ports s"
  shows "\<exists>s'. provider_op ack msk unmask op s = Some (abstract_result op b, s') \<and> ports s' = ports s \<and>
     represents s' (abstract_op op b)"
proof (cases op)
  case (PortAck p)
  with assms ack_law [of s p] show ?thesis by (cases b) (auto simp: represents_def)
next
  case (PortMask p)
  with assms mask_law [of s p] show ?thesis by (cases b) (auto simp: represents_def)
next
  case (PortUnmask p)
  with assms unmask_law [of s p] show ?thesis by (cases b) (auto simp: represents_def)
qed

text \<open>Any sequence of operations acts on the provider as on the two bits of every port.\<close>

lemma run_refines:
  "represents s b \<Longrightarrow> \<forall>op \<in> set ops. port_of op \<in> ports s \<Longrightarrow>
     \<exists>s'. provider_run ack msk unmask ops s = Some (fst (abstract_run ops b), s') \<and> ports s' = ports s \<and>
       represents s' (snd (abstract_run ops b))"
proof (induction ops arbitrary: s b)
  case (Cons op ops)
  from op_refines [OF Cons.prems(1), of op] Cons.prems(2) obtain s1 where
    s1: "provider_op ack msk unmask op s = Some (abstract_result op b, s1)" "ports s1 = ports s"
      "represents s1 (abstract_op op b)" by auto
  from Cons.IH [OF s1(3)] Cons.prems(2) s1(2) obtain s' where
    "provider_run ack msk unmask ops s1 = Some (fst (abstract_run ops (abstract_op op b)), s')" "ports s' = ports s1"
    "represents s' (snd (abstract_run ops (abstract_op op b)))" by auto
  with s1 show ?case by (auto simp: split_def Let_def)
qed simp

lemma represents_self: "ok s \<Longrightarrow> represents s (pending s, masked s)"
  by (simp add: represents_def)

end

text \<open>An operation on another port does not touch a port's bits; the last ones on it decide.\<close>

lemma abstract_run_other:
  "\<forall>op \<in> set ops. port_of op \<noteq> q \<Longrightarrow>
     fst (snd (abstract_run ops b)) q = fst b q \<and> snd (snd (abstract_run ops b)) q = snd b q"
proof (induction ops arbitrary: b)
  case (Cons op ops)
  moreover have "fst (abstract_op op b) q = fst b q \<and> snd (abstract_op op b) q = snd b q"
    using Cons.prems by (cases op; cases b) auto
  ultimately show ?case by (simp add: split_def Let_def)
qed simp

end
