(* ===== verification/Evtchn_2L.thy ===== *)
theory Evtchn_2L
  imports Shared_Info Evtchn_Abi
begin

text \<open>
  The two-level event channel ABI of src/src/xenbus/evtchn\_2l.c: every operation forwards to the
  shared info page. It provides the interface of Evtchn\_Abi.
\<close>

section \<open>State and operations\<close>

text \<open>The context, with the shared info context its interface points to.\<close>

record XENBUS_EVTCHN_TWO_LEVEL_CONTEXT =
  tl_References :: int
  tl_SharedInfo :: XENBUS_SHARED_INFO_CONTEXT

abbreviation tl_page :: "XENBUS_EVTCHN_TWO_LEVEL_CONTEXT \<Rightarrow> shared_info" where
  "tl_page c \<equiv> si_Shared (tl_SharedInfo c)"

definition set_page :: "shared_info \<Rightarrow> XENBUS_EVTCHN_TWO_LEVEL_CONTEXT \<Rightarrow> XENBUS_EVTCHN_TWO_LEVEL_CONTEXT" where
  "set_page s c = c\<lparr>tl_SharedInfo := (tl_SharedInfo c)\<lparr>si_Shared := s\<rparr>\<rparr>"

text \<open>\<open>vcpu_id\<close> is \<^verbatim>\<open>SystemProcessorVcpuId\<close> of the xen driver.\<close>

definition EvtchnTwoLevelIsProcessorEnabled :: "(nat \<Rightarrow> NTSTATUS \<times> nat) \<Rightarrow> nat \<Rightarrow> bool" where
  "EvtchnTwoLevelIsProcessorEnabled vcpu_id Index = (if NT_SUCCESS (fst (vcpu_id Index)) then True else False)"

text \<open>The handler changes the page and a state of its own.\<close>

definition EvtchnTwoLevelPoll ::
  "'w event \<Rightarrow> nat \<Rightarrow> XENBUS_EVTCHN_TWO_LEVEL_CONTEXT \<Rightarrow> 'w \<Rightarrow>
     (bool \<times> XENBUS_EVTCHN_TWO_LEVEL_CONTEXT \<times> 'w) kernel" where
  "EvtchnTwoLevelPoll Event Index c w =
     do {
       ps \<leftarrow> si_Processor (tl_SharedInfo c);
       (d, ps', s', w') \<leftarrow> SharedInfoEvtchnPoll Event ps Index (tl_page c, w);
       Some (d, c\<lparr>tl_SharedInfo := (tl_SharedInfo c)\<lparr>si_Shared := s', si_Processor := Some ps'\<rparr>\<rparr>, w')
     }"

definition EvtchnTwoLevelPortEnable ::
  "XENBUS_EVTCHN_TWO_LEVEL_CONTEXT \<Rightarrow> nat \<Rightarrow> NTSTATUS \<times> XENBUS_EVTCHN_TWO_LEVEL_CONTEXT" where
  "EvtchnTwoLevelPortEnable c Port = (STATUS_SUCCESS, c)"

definition EvtchnTwoLevelPortDisable ::
  "XENBUS_EVTCHN_TWO_LEVEL_CONTEXT \<Rightarrow> nat \<Rightarrow> XENBUS_EVTCHN_TWO_LEVEL_CONTEXT kernel" where
  "EvtchnTwoLevelPortDisable c Port = do { s \<leftarrow> SharedInfoEvtchnMask (tl_page c) Port; Some (set_page s c) }"

definition EvtchnTwoLevelPortAck ::
  "XENBUS_EVTCHN_TWO_LEVEL_CONTEXT \<Rightarrow> nat \<Rightarrow> XENBUS_EVTCHN_TWO_LEVEL_CONTEXT kernel" where
  "EvtchnTwoLevelPortAck c Port = do { s \<leftarrow> SharedInfoEvtchnAck (tl_page c) Port; Some (set_page s c) }"

definition EvtchnTwoLevelPortMask ::
  "XENBUS_EVTCHN_TWO_LEVEL_CONTEXT \<Rightarrow> nat \<Rightarrow> XENBUS_EVTCHN_TWO_LEVEL_CONTEXT kernel" where
  "EvtchnTwoLevelPortMask c Port = do { s \<leftarrow> SharedInfoEvtchnMask (tl_page c) Port; Some (set_page s c) }"

definition EvtchnTwoLevelPortUnmask ::
  "XENBUS_EVTCHN_TWO_LEVEL_CONTEXT \<Rightarrow> nat \<Rightarrow> (bool \<times> XENBUS_EVTCHN_TWO_LEVEL_CONTEXT) kernel" where
  "EvtchnTwoLevelPortUnmask c Port =
     do { (r, s) \<leftarrow> SharedInfoEvtchnUnmask (tl_page c) Port; Some (r, set_page s c) }"

text \<open>
  Acquiring: the label \<^verbatim>\<open>fail1\<close>, reached when the shared info page could not be acquired, releases
  it nevertheless.
\<close>

definition EvtchnTwoLevelAcquire ::
  "si_env \<Rightarrow> XENBUS_EVTCHN_TWO_LEVEL_CONTEXT \<Rightarrow> (NTSTATUS \<times> XENBUS_EVTCHN_TWO_LEVEL_CONTEXT) kernel" where
  "EvtchnTwoLevelAcquire env c =
     (let c1 = c\<lparr>tl_References := tl_References c + 1\<rparr> in
      if tl_References c \<noteq> 0 then Some (STATUS_SUCCESS, c1)
      else do {
        (status, si) \<leftarrow> SharedInfoAcquire env (tl_SharedInfo c1);
        (if \<not> NT_SUCCESS status then
           do {
             si' \<leftarrow> SharedInfoRelease si;
             let c2 = c1\<lparr>tl_SharedInfo := si', tl_References := tl_References c1 - 1\<rparr>;
             ASSERT (tl_References c2 = 0);
             Some (status, c2)
           }
         else Some (STATUS_SUCCESS, c1\<lparr>tl_SharedInfo := si\<rparr>))
      })"

definition EvtchnTwoLevelRelease ::
  "XENBUS_EVTCHN_TWO_LEVEL_CONTEXT \<Rightarrow> XENBUS_EVTCHN_TWO_LEVEL_CONTEXT kernel" where
  "EvtchnTwoLevelRelease c =
     (let c1 = c\<lparr>tl_References := tl_References c - 1\<rparr> in
      if 0 < tl_References c1 then Some c1
      else do { si \<leftarrow> SharedInfoRelease (tl_SharedInfo c1); Some (c1\<lparr>tl_SharedInfo := si\<rparr>) })"

section \<open>The interface\<close>

definition tl_ok :: "XENBUS_EVTCHN_TWO_LEVEL_CONTEXT \<Rightarrow> bool" where
  "tl_ok c \<longleftrightarrow> page_ok (tl_page c)"

lemma tl_page_set [simp]: "tl_page (set_page s c) = s"
  by (simp add: set_page_def)

interpretation two_level: evtchn_abi tl_ok "\<lambda>c. {..< 4096}" "\<lambda>c. port_pending (tl_page c)"
  "\<lambda>c. port_masked (tl_page c)" EvtchnTwoLevelPortAck EvtchnTwoLevelPortMask EvtchnTwoLevelPortUnmask
proof (unfold_locales, goal_cases)
  case (1 c p)
  with SharedInfoEvtchnAck_law [of "tl_page c" p] show ?case
    by (auto simp: EvtchnTwoLevelPortAck_def tl_ok_def)
next
  case (2 c p)
  with SharedInfoEvtchnMask_law [of "tl_page c" p] show ?case
    by (auto simp: EvtchnTwoLevelPortMask_def tl_ok_def)
next
  case (3 c p)
  with SharedInfoEvtchnUnmask_law [of "tl_page c" p] show ?case
    by (auto simp: EvtchnTwoLevelPortUnmask_def tl_ok_def)
qed

section \<open>Properties\<close>

text \<open>
  The two-level ABI implements the abstract ports: any sequence of acknowledging, masking and
  unmasking returns and leaves exactly the pending and mask bits, and the results of unmasking,
  that the sequence has on two bits per port.
\<close>

theorem EvtchnTwoLevel_refines_ports:
  assumes "page_ok (tl_page c)" and "\<forall>op \<in> set ops. port_of op < 4096"
  shows "\<exists>c'. provider_run EvtchnTwoLevelPortAck EvtchnTwoLevelPortMask EvtchnTwoLevelPortUnmask ops c =
       Some (fst (abstract_run ops (port_pending (tl_page c), port_masked (tl_page c))), c') \<and> page_ok (tl_page c') \<and>
     (\<forall>q < 4096.
        port_pending (tl_page c') q = fst (snd (abstract_run ops (port_pending (tl_page c), port_masked (tl_page c)))) q \<and>
        port_masked (tl_page c') q = snd (snd (abstract_run ops (port_pending (tl_page c), port_masked (tl_page c)))) q)"
proof -
  have "two_level.represents c (port_pending (tl_page c), port_masked (tl_page c))"
    by (rule two_level.represents_self) (simp add: tl_ok_def assms(1))
  from two_level.run_refines [OF this, of ops] assms(2) show ?thesis
    by (auto simp: two_level.represents_def tl_ok_def)
qed

definition sample_two_level :: XENBUS_EVTCHN_TWO_LEVEL_CONTEXT where
  "sample_two_level = \<lparr>tl_References = 0, tl_SharedInfo = idle_context\<rparr>"

theorem EvtchnTwoLevel_refines_ports_witness:
  "\<exists>c'. provider_run EvtchnTwoLevelPortAck EvtchnTwoLevelPortMask EvtchnTwoLevelPortUnmask
      [PortAck 64, PortUnmask 66, PortUnmask 64] sample_two_level = Some ([None, Some True, Some False], c')"
proof -
  have "tl_page sample_two_level = sample_page" by (simp add: sample_two_level_def idle_context_def)
  moreover have "port_pending sample_page 66" by code_simp
  ultimately show ?thesis
    using EvtchnTwoLevel_refines_ports [of sample_two_level "[PortAck 64, PortUnmask 66, PortUnmask 64]"] sample_page_ok
    by auto
qed

text \<open>
  When the shared info page cannot be acquired, for want of memory or for any other reason, the
  two-level ABI does not return the error: its error path releases the page that was not acquired,
  which frees a processor array that does not exist.
\<close>

theorem EvtchnTwoLevelAcquire_failure_releases:
  assumes "si_idle (tl_SharedInfo c)" and "tl_References c = 0" and "NT_SUCCESS (env_map env)"
    and "SharedInfoAcquire env (tl_SharedInfo c) = Some (st, si)" and "\<not> NT_SUCCESS st"
  shows "EvtchnTwoLevelAcquire env c = None"
proof -
  obtain S where "si = (tl_SharedInfo c)\<lparr>si_Shared := S\<rparr>"
    using SharedInfoAcquire_law [of "tl_SharedInfo c" env] assms by auto
  then have "si_idle si" using assms(1) by (simp add: si_idle_def)
  then show ?thesis using assms(2,4,5) SharedInfoRelease_idle by (simp add: EvtchnTwoLevelAcquire_def)
qed

theorem EvtchnTwoLevelAcquire_failure_releases_witness:
  "EvtchnTwoLevelAcquire (good_env\<lparr>env_hole := False\<rparr>) sample_two_level = None"
proof -
  have "SharedInfoAcquire (good_env\<lparr>env_hole := False\<rparr>) (tl_SharedInfo sample_two_level) =
      Some (STATUS_NO_MEMORY, idle_context)"
    by (simp add: SharedInfoAcquire_def si_fail1_def sample_two_level_def idle_context_def good_env_def ASSERT_def)
  moreover have "si_idle (tl_SharedInfo sample_two_level)" "tl_References sample_two_level = 0"
    using idle_context_idle by (simp_all add: sample_two_level_def)
  moreover have "NT_SUCCESS (env_map (good_env\<lparr>env_hole := False\<rparr>))" by (simp add: good_env_def NT_SUCCESS_def)
  ultimately show ?thesis
    using EvtchnTwoLevelAcquire_failure_releases not_success_no_memory by blast
qed

end
