(* ===== verification/Evtchn_Fifo.thy ===== *)
theory Evtchn_Fifo
  imports Prelude Evtchn_Abi
begin

unbundle bit_operations_syntax

text \<open>
  The FIFO event channel ABI of src/src/xenbus/evtchn\_fifo.c: the array of event words, grown a
  page at a time, the control block of every VCPU with one queue per priority, chained through the
  link fields of the event words, and the poll that takes events off the queues. An event word is
  a \<^typ>\<open>32 word\<close>; port numbers, queue heads and links, on which the code does no arithmetic that
  could wrap, are natural numbers. An access outside the arrays of the context is \<^const>\<open>None\<close>.
\<close>

section \<open>Resetting the hypervisor's event channels\<close>

text \<open>
  \<^verbatim>\<open>EvtchnReset\<close> of evtchn.c. The reset would lose the two channels that the toolstack made, so their
  remote ends are read before and bound again after it, and the HVM parameters set to the new ports.
  The hypercalls that change something are the result; the other fields are what the hypervisor answers.
\<close>

datatype reset_call = EventChannelReset | EventChannelBindInterDomain nat nat | SetStoreEvtchn nat | SetConsoleEvtchn nat

record reset_env =
  re_store :: "NTSTATUS \<times> nat"
  re_console :: "NTSTATUS \<times> nat"
  re_query :: "nat \<Rightarrow> NTSTATUS \<times> nat \<times> nat"
  re_bind :: "nat \<Rightarrow> nat \<Rightarrow> NTSTATUS \<times> nat"
  re_set :: "reset_call \<Rightarrow> NTSTATUS"

definition reset_port :: "NTSTATUS \<times> nat \<Rightarrow> nat" where
  "reset_port r = (if NT_SUCCESS (fst r) then snd r mod 2 ^ 32 else 0)"

definition reset_query :: "reset_env \<Rightarrow> nat \<Rightarrow> (nat \<times> nat) kernel" where
  "reset_query env LocalPort =
     (if LocalPort \<noteq> 0 then
        do { let (status, remote) = re_query env LocalPort; ASSERT (NT_SUCCESS status); Some remote }
      else Some (0, 0))"

definition reset_bind :: "reset_env \<Rightarrow> (nat \<Rightarrow> reset_call) \<Rightarrow> nat \<Rightarrow> nat \<times> nat \<Rightarrow> reset_call list kernel" where
  "reset_bind env param LocalPort remote =
     (if LocalPort \<noteq> 0 then
        do {
          let (status, new) = re_bind env (fst remote) (snd remote);
          ASSERT (NT_SUCCESS status);
          ASSERT (NT_SUCCESS (re_set env (param new)));
          Some [EventChannelBindInterDomain (fst remote) (snd remote), param new]
        }
      else Some [])"

definition EvtchnReset :: "reset_env \<Rightarrow> reset_call list kernel" where
  "EvtchnReset env =
     do {
       let Store = reset_port (re_store env);
       let Console = reset_port (re_console env);
       store \<leftarrow> reset_query env Store;
       console \<leftarrow> reset_query env Console;
       bs \<leftarrow> reset_bind env SetStoreEvtchn Store store;
       cs \<leftarrow> reset_bind env SetConsoleEvtchn Console console;
       Some (EventChannelReset # bs @ cs)
     }"

section \<open>State\<close>

definition EVTCHN_FIFO_PENDING :: nat where "EVTCHN_FIFO_PENDING = 31"
definition EVTCHN_FIFO_MASKED :: nat where "EVTCHN_FIFO_MASKED = 30"
definition EVTCHN_FIFO_LINKED :: nat where "EVTCHN_FIFO_LINKED = 29"
definition EVTCHN_FIFO_BUSY :: nat where "EVTCHN_FIFO_BUSY = 28"
definition EVTCHN_FIFO_LINK_MASK :: "32 word" where "EVTCHN_FIFO_LINK_MASK = mask 17"
definition EVTCHN_FIFO_MAX_QUEUES :: nat where "EVTCHN_FIFO_MAX_QUEUES = 16"
definition HVM_MAX_VCPUS :: nat where "HVM_MAX_VCPUS = 128"
definition EVENT_WORDS_PER_PAGE :: nat where "EVENT_WORDS_PER_PAGE = 1024"

record evtchn_fifo_control_block =
  cb_ready :: "32 word"
  cb_head :: "nat list"

text \<open>
  The context. \<^verbatim>\<open>EventPageMdl\<close> with \<^verbatim>\<open>EventPageCount\<close> is the list of the pages' contents,
  \<^verbatim>\<open>ControlBlockMdl\<close> the list of the control blocks. \<open>fifo_Registered\<close> records what is not in the
  context: how many pages of the event array the hypervisor has accepted since the last reset, and \<open>fifo_Resets\<close> the
  hypercalls of the resets.
\<close>

record XENBUS_EVTCHN_FIFO_CONTEXT =
  fifo_References :: int
  fifo_ControlBlock :: "evtchn_fifo_control_block option list"
  fifo_EventPage :: "32 word list list"
  fifo_Head :: "nat list list"
  fifo_Registered :: nat
  fifo_Resets :: "reset_call list"

abbreviation EventPageCount :: "XENBUS_EVTCHN_FIFO_CONTEXT \<Rightarrow> nat" where
  "EventPageCount c \<equiv> length (fifo_EventPage c)"

section \<open>Event words\<close>

text \<open>The location of a port's event word: page and offset.\<close>

definition EvtchnFifoEventWord :: "XENBUS_EVTCHN_FIFO_CONTEXT \<Rightarrow> nat \<Rightarrow> (nat \<times> nat) kernel" where
  "EvtchnFifoEventWord c Port =
     (let Index = Port div EVENT_WORDS_PER_PAGE in
      do {
        ASSERT (Index < EventPageCount c);
        ASSERT (Port \<ge> Index * EVENT_WORDS_PER_PAGE);
        Some (Index, Port - Index * EVENT_WORDS_PER_PAGE)
      })"

definition read_word :: "XENBUS_EVTCHN_FIFO_CONTEXT \<Rightarrow> nat \<times> nat \<Rightarrow> 32 word" where
  "read_word c l = fifo_EventPage c ! fst l ! snd l"

definition write_word :: "XENBUS_EVTCHN_FIFO_CONTEXT \<Rightarrow> nat \<times> nat \<Rightarrow> 32 word \<Rightarrow> XENBUS_EVTCHN_FIFO_CONTEXT" where
  "write_word c l w =
     c\<lparr>fifo_EventPage := (fifo_EventPage c)[fst l := (fifo_EventPage c ! fst l)[snd l := w]]\<rparr>"

definition EvtchnFifoTestFlag :: "32 word \<Rightarrow> nat \<Rightarrow> bool" where
  "EvtchnFifoTestFlag w Flag = (w AND push_bit Flag 1 \<noteq> 0)"

definition EvtchnFifoSetFlag :: "32 word \<Rightarrow> nat \<Rightarrow> 32 word" where
  "EvtchnFifoSetFlag w Flag = set_bit Flag w"

definition EvtchnFifoClearFlag :: "32 word \<Rightarrow> nat \<Rightarrow> 32 word" where
  "EvtchnFifoClearFlag w Flag = unset_bit Flag w"

text \<open>
  Unlinking a word: the value the successful compare-exchange stores, and the link it had. The loop
  recomputes the value from what it reads, so it is an atomic update of the word.
\<close>

definition EvtchnFifoUnlink :: "32 word \<Rightarrow> 32 word \<times> nat" where
  "EvtchnFifoUnlink Old =
     (Old AND NOT (push_bit EVTCHN_FIFO_LINKED 1 OR EVTCHN_FIFO_LINK_MASK), unat (Old AND EVTCHN_FIFO_LINK_MASK))"

section \<open>Growing and freeing the event array\<close>

text \<open>
  The loop over the new pages. \<open>page i\<close> says whether page \<open>i\<close> could be allocated, \<open>reg i\<close> what the
  hypervisor answers to it (\<^verbatim>\<open>EventChannelExpandArray\<close>). The last component counts accepted pages.
\<close>

fun expand_pages ::
  "(nat \<Rightarrow> bool) \<Rightarrow> (nat \<Rightarrow> NTSTATUS) \<Rightarrow> nat list \<Rightarrow> 32 word list list \<Rightarrow> nat \<Rightarrow>
     NTSTATUS \<times> 32 word list list \<times> nat" where
  "expand_pages page reg [] ps n = (STATUS_SUCCESS, ps, n)"
| "expand_pages page reg (Index # is) ps n =
     (if \<not> page Index then (STATUS_NO_MEMORY, ps, n)
      else let Mdl = map (\<lambda>w. EvtchnFifoSetFlag w EVTCHN_FIFO_MASKED) (replicate EVENT_WORDS_PER_PAGE 0) in
      if \<not> NT_SUCCESS (reg Index) then (reg Index, ps, n)
      else expand_pages page reg is (ps @ [Mdl]) (Suc n))"

text \<open>On failure the new pages and the new array of pages are freed.\<close>

definition EvtchnFifoExpand ::
  "bool \<Rightarrow> (nat \<Rightarrow> bool) \<Rightarrow> (nat \<Rightarrow> NTSTATUS) \<Rightarrow> XENBUS_EVTCHN_FIFO_CONTEXT \<Rightarrow> nat \<Rightarrow>
     (NTSTATUS \<times> XENBUS_EVTCHN_FIFO_CONTEXT) kernel" where
  "EvtchnFifoExpand mem page reg c Port =
     (let Index = Port div EVENT_WORDS_PER_PAGE in
      do {
        ASSERT (Index \<ge> EventPageCount c);
        (if \<not> mem then Some (STATUS_NO_MEMORY, c)
         else
           let (status, pages, n) =
             expand_pages page reg [EventPageCount c ..< Index + 1] (fifo_EventPage c) (fifo_Registered c) in
           if NT_SUCCESS status then Some (STATUS_SUCCESS, c\<lparr>fifo_EventPage := pages, fifo_Registered := n\<rparr>)
           else Some (status, c\<lparr>fifo_Registered := n\<rparr>))
      })"

definition EvtchnFifoContract :: "XENBUS_EVTCHN_FIFO_CONTEXT \<Rightarrow> XENBUS_EVTCHN_FIFO_CONTEXT" where
  "EvtchnFifoContract c = c\<lparr>fifo_EventPage := []\<rparr>"

section \<open>Polling\<close>

type_synonym 'w fifo_state = "XENBUS_EVTCHN_FIFO_CONTEXT \<times> 'w"
type_synonym 'w fifo_event = "nat \<Rightarrow> 'w fifo_state \<Rightarrow> (bool \<times> 'w fifo_state) kernel"

definition EvtchnFifoIsProcessorEnabled ::
  "(nat \<Rightarrow> NTSTATUS \<times> nat) \<Rightarrow> XENBUS_EVTCHN_FIFO_CONTEXT \<Rightarrow> nat \<Rightarrow> bool" where
  "EvtchnFifoIsProcessorEnabled vcpu_id c Index =
     (case vcpu_id Index of (status, v) \<Rightarrow>
        if \<not> NT_SUCCESS status then False else fifo_ControlBlock c ! v \<noteq> None)"

definition set_Head :: "nat \<Rightarrow> nat \<Rightarrow> nat \<Rightarrow> XENBUS_EVTCHN_FIFO_CONTEXT \<Rightarrow> XENBUS_EVTCHN_FIFO_CONTEXT" where
  "set_Head v Priority h c = c\<lparr>fifo_Head := (fifo_Head c)[v := (fifo_Head c ! v)[Priority := h]]\<rparr>"

text \<open>One event of one queue: the result of the handler, \<^verbatim>\<open>Ready\<close> afterwards and the state.\<close>

definition EvtchnFifoPollPriority ::
  "nat \<Rightarrow> nat \<Rightarrow> 32 word \<Rightarrow> 'w fifo_event \<Rightarrow> 'w fifo_state \<Rightarrow> (bool \<times> 32 word \<times> 'w fifo_state) kernel" where
  "EvtchnFifoPollPriority v Priority Ready Event s =
     do {
       ASSERT (Priority < EVTCHN_FIFO_MAX_QUEUES);
       let Head = fifo_Head (fst s) ! v ! Priority;
       Port \<leftarrow> (if Head = 0 then
                  do { ControlBlock \<leftarrow> fifo_ControlBlock (fst s) ! v; Some (cb_head ControlBlock ! Priority) }
                else Some Head);
       l \<leftarrow> EvtchnFifoEventWord (fst s) Port;
       let (New, Head) = EvtchnFifoUnlink (read_word (fst s) l);
       let c1 = write_word (fst s) l New;
       let Ready' = (if Head = 0 then Ready AND NOT (push_bit Priority 1) else Ready);
       (DoneSomething, s2) \<leftarrow>
         (if \<not> EvtchnFifoTestFlag (read_word c1 l) EVTCHN_FIFO_MASKED \<and>
             EvtchnFifoTestFlag (read_word c1 l) EVTCHN_FIFO_PENDING
          then Event Port (c1, snd s) else Some (False, c1, snd s));
       Some (DoneSomething, Ready', set_Head v Priority Head (fst s2), snd s2)
     }"

text \<open>\<^verbatim>\<open>_BitScanReverse\<close> of a word that is not 0: its highest bit.\<close>

definition BitScanReverse :: "32 word \<Rightarrow> nat" where
  "BitScanReverse w = last (filter (bit w) [0 ..< 32])"

text \<open>The exchange of the ready word of a control block with 0.\<close>

definition take_ready :: "nat \<Rightarrow> XENBUS_EVTCHN_FIFO_CONTEXT \<Rightarrow> (32 word \<times> XENBUS_EVTCHN_FIFO_CONTEXT) kernel" where
  "take_ready v c =
     do {
       cb \<leftarrow> fifo_ControlBlock c ! v;
       Some (cb_ready cb, c\<lparr>fifo_ControlBlock := (fifo_ControlBlock c)[v := Some (cb\<lparr>cb_ready := 0\<rparr>)]\<rparr>)
     }"

partial_function (option) fifo_poll_loop ::
  "nat \<Rightarrow> 'w fifo_event \<Rightarrow> 32 word \<Rightarrow> bool \<Rightarrow> 'w fifo_state \<Rightarrow> (bool \<times> 'w fifo_state) kernel" where
  "fifo_poll_loop v Event Ready DoneSomething s =
     (if Ready = 0 then Some (DoneSomething, s)
      else Option.bind (EvtchnFifoPollPriority v (BitScanReverse Ready) Ready Event s)
        (\<lambda>(d, Ready', s'). Option.bind (take_ready v (fst s'))
          (\<lambda>(r, c). fifo_poll_loop v Event (Ready' OR r) (DoneSomething \<or> d) (c, snd s'))))"

definition EvtchnFifoPoll ::
  "(nat \<Rightarrow> NTSTATUS \<times> nat) \<Rightarrow> 'w fifo_event \<Rightarrow> nat \<Rightarrow> 'w fifo_state \<Rightarrow> (bool \<times> 'w fifo_state) kernel" where
  "EvtchnFifoPoll vcpu_id Event Index s =
     (case vcpu_id Index of (status, v) \<Rightarrow>
        if \<not> NT_SUCCESS status then Some (False, s)
        else
          (case fifo_ControlBlock (fst s) ! v of
             None \<Rightarrow> Some (False, s)
           | Some _ \<Rightarrow> do { (Ready, c) \<leftarrow> take_ready v (fst s); fifo_poll_loop v Event Ready False (c, snd s) }))"

section \<open>Port operations\<close>

definition EvtchnFifoPortEnable ::
  "bool \<Rightarrow> (nat \<Rightarrow> bool) \<Rightarrow> (nat \<Rightarrow> NTSTATUS) \<Rightarrow> XENBUS_EVTCHN_FIFO_CONTEXT \<Rightarrow> nat \<Rightarrow>
     (NTSTATUS \<times> XENBUS_EVTCHN_FIFO_CONTEXT) kernel" where
  "EvtchnFifoPortEnable mem page reg c Port =
     (if Port div EVENT_WORDS_PER_PAGE \<ge> EventPageCount c then EvtchnFifoExpand mem page reg c Port
      else Some (STATUS_SUCCESS, c))"

definition EvtchnFifoPortAck :: "XENBUS_EVTCHN_FIFO_CONTEXT \<Rightarrow> nat \<Rightarrow> XENBUS_EVTCHN_FIFO_CONTEXT kernel" where
  "EvtchnFifoPortAck c Port =
     do {
       l \<leftarrow> EvtchnFifoEventWord c Port;
       Some (write_word c l (EvtchnFifoClearFlag (read_word c l) EVTCHN_FIFO_PENDING))
     }"

definition EvtchnFifoPortMask :: "XENBUS_EVTCHN_FIFO_CONTEXT \<Rightarrow> nat \<Rightarrow> XENBUS_EVTCHN_FIFO_CONTEXT kernel" where
  "EvtchnFifoPortMask c Port =
     do {
       l \<leftarrow> EvtchnFifoEventWord c Port;
       Some (write_word c l (EvtchnFifoSetFlag (read_word c l) EVTCHN_FIFO_MASKED))
     }"

text \<open>
  The compare-exchange loop of unmasking, on what its rounds see: the word at the read and at the
  exchange. It does not end while the word is busy or changes in between.
\<close>

fun unmask_rounds :: "(32 word \<times> 32 word) list \<Rightarrow> 32 word kernel" where
  "unmask_rounds [] = None"
| "unmask_rounds ((seen, at_exchange) # rs) =
     (let Old = seen AND NOT (push_bit EVTCHN_FIFO_BUSY 1);
          New = Old AND NOT (push_bit EVTCHN_FIFO_MASKED 1)
      in if at_exchange = Old then Some New else unmask_rounds rs)"

definition EvtchnFifoPortUnmask ::
  "(32 word \<Rightarrow> (32 word \<times> 32 word) list) \<Rightarrow> XENBUS_EVTCHN_FIFO_CONTEXT \<Rightarrow> nat \<Rightarrow>
     (bool \<times> XENBUS_EVTCHN_FIFO_CONTEXT) kernel" where
  "EvtchnFifoPortUnmask rounds c Port =
     do {
       l \<leftarrow> EvtchnFifoEventWord c Port;
       New \<leftarrow> unmask_rounds (rounds (read_word c l));
       let c' = write_word c l New;
       Some (EvtchnFifoTestFlag (read_word c' l) EVTCHN_FIFO_PENDING, c')
     }"

definition EvtchnFifoPortDisable :: "XENBUS_EVTCHN_FIFO_CONTEXT \<Rightarrow> nat \<Rightarrow> XENBUS_EVTCHN_FIFO_CONTEXT kernel" where
  "EvtchnFifoPortDisable c Port = EvtchnFifoPortMask c Port"

section \<open>Acquiring and releasing\<close>

text \<open>A reset: the hypervisor forgets the event array.\<close>

definition forget_array :: "reset_call list \<Rightarrow> XENBUS_EVTCHN_FIFO_CONTEXT \<Rightarrow> XENBUS_EVTCHN_FIFO_CONTEXT" where
  "forget_array calls c = c\<lparr>fifo_Registered := 0, fifo_Resets := fifo_Resets c @ calls\<rparr>"

definition zero_control_block :: evtchn_fifo_control_block where
  "zero_control_block = \<lparr>cb_ready = 0, cb_head = replicate EVTCHN_FIFO_MAX_QUEUES 0\<rparr>"

text \<open>The loop over the processors; \<^const>\<open>Inr\<close> is the failing index with its status.\<close>

fun init_blocks ::
  "(nat \<Rightarrow> NTSTATUS \<times> nat) \<Rightarrow> (nat \<Rightarrow> bool) \<Rightarrow> (nat \<Rightarrow> NTSTATUS) \<Rightarrow> nat list \<Rightarrow>
     evtchn_fifo_control_block option list \<Rightarrow> (evtchn_fifo_control_block option list \<times> (nat \<times> NTSTATUS) option) kernel" where
  "init_blocks vcpu_id page init [] bs = Some (bs, None)"
| "init_blocks vcpu_id page init (Index # is) bs =
     (case vcpu_id Index of (status, v) \<Rightarrow>
        if status = STATUS_NOT_SUPPORTED then init_blocks vcpu_id page init is bs
        else if \<not> NT_SUCCESS status then Some (bs, Some (Index, status))
        else if \<not> page Index then Some (bs, Some (Index, STATUS_NO_MEMORY))
        else if \<not> NT_SUCCESS (init Index) then Some (bs, Some (Index, init Index))
        else do {
          ASSERT (v < HVM_MAX_VCPUS);
          init_blocks vcpu_id page init is (bs[v := Some zero_control_block])
        })"

text \<open>
  The loop of the error path, from the index before the failing one down. It keeps its own answers in
  \<^verbatim>\<open>status\<close>, which held the failure.
\<close>

fun free_blocks ::
  "(nat \<Rightarrow> NTSTATUS \<times> nat) \<Rightarrow> nat list \<Rightarrow> NTSTATUS \<Rightarrow> evtchn_fifo_control_block option list \<Rightarrow>
     (NTSTATUS \<times> evtchn_fifo_control_block option list) kernel" where
  "free_blocks vcpu_id [] status bs = Some (status, bs)"
| "free_blocks vcpu_id (Index # is) status bs =
     (case vcpu_id Index of (status, v) \<Rightarrow>
        if status = STATUS_NOT_SUPPORTED then free_blocks vcpu_id is status bs
        else do {
          ASSERT (NT_SUCCESS status);
          ASSERT (bs ! v \<noteq> None);
          free_blocks vcpu_id is status (bs[v := None])
        })"

definition EvtchnFifoAcquire ::
  "nat \<Rightarrow> (nat \<Rightarrow> NTSTATUS \<times> nat) \<Rightarrow> (nat \<Rightarrow> bool) \<Rightarrow> (nat \<Rightarrow> NTSTATUS) \<Rightarrow> reset_env \<Rightarrow> XENBUS_EVTCHN_FIFO_CONTEXT \<Rightarrow>
     (NTSTATUS \<times> XENBUS_EVTCHN_FIFO_CONTEXT) kernel" where
  "EvtchnFifoAcquire ProcessorCount vcpu_id page init reset c =
     (let c1 = c\<lparr>fifo_References := fifo_References c + 1\<rparr> in
      if fifo_References c \<noteq> 0 then Some (STATUS_SUCCESS, c1)
      else do {
        (bs, r) \<leftarrow> init_blocks vcpu_id page init [0 ..< ProcessorCount] (fifo_ControlBlock c1);
        (case r of
           None \<Rightarrow> Some (STATUS_SUCCESS, c1\<lparr>fifo_ControlBlock := bs\<rparr>)
         | Some (Index, failure) \<Rightarrow>
             do {
               calls \<leftarrow> EvtchnReset reset;
               (status, bs') \<leftarrow> free_blocks vcpu_id (rev [0 ..< Index]) failure bs;
               let c2 = (forget_array calls c1)\<lparr>fifo_ControlBlock := bs', fifo_References := fifo_References c1 - 1\<rparr>;
               ASSERT (fifo_References c2 = 0);
               Some (status, c2)
             })
      })"

definition EvtchnFifoRelease :: "reset_env \<Rightarrow> XENBUS_EVTCHN_FIFO_CONTEXT \<Rightarrow> XENBUS_EVTCHN_FIFO_CONTEXT kernel" where
  "EvtchnFifoRelease reset c =
     (let c1 = c\<lparr>fifo_References := fifo_References c - 1\<rparr> in
      if 0 < fifo_References c1 then Some c1
      else do {
        calls \<leftarrow> EvtchnReset reset;
        Some ((EvtchnFifoContract (forget_array calls c1))\<lparr>fifo_ControlBlock :=
          fold (\<lambda>v bs. if bs ! v = None then bs else bs[v := None]) (rev [0 ..< HVM_MAX_VCPUS]) (fifo_ControlBlock c1)\<rparr>)
      })"

section \<open>Words by port\<close>

lemmas fifo_consts = EVTCHN_FIFO_PENDING_def EVTCHN_FIFO_MASKED_def EVTCHN_FIFO_LINKED_def EVTCHN_FIFO_BUSY_def
  EVTCHN_FIFO_LINK_MASK_def EVTCHN_FIFO_MAX_QUEUES_def HVM_MAX_VCPUS_def EVENT_WORDS_PER_PAGE_def

definition fifo_pages_ok :: "XENBUS_EVTCHN_FIFO_CONTEXT \<Rightarrow> bool" where
  "fifo_pages_ok c \<longleftrightarrow> (\<forall>pg \<in> set (fifo_EventPage c). length pg = EVENT_WORDS_PER_PAGE)"

definition fifo_ports :: "XENBUS_EVTCHN_FIFO_CONTEXT \<Rightarrow> nat set" where
  "fifo_ports c = {p. p div EVENT_WORDS_PER_PAGE < EventPageCount c}"

definition word_of :: "XENBUS_EVTCHN_FIFO_CONTEXT \<Rightarrow> nat \<Rightarrow> 32 word" where
  "word_of c p = fifo_EventPage c ! (p div EVENT_WORDS_PER_PAGE) ! (p mod EVENT_WORDS_PER_PAGE)"

definition fifo_pending :: "XENBUS_EVTCHN_FIFO_CONTEXT \<Rightarrow> nat \<Rightarrow> bool" where
  "fifo_pending c p = bit (word_of c p) EVTCHN_FIFO_PENDING"

definition fifo_masked :: "XENBUS_EVTCHN_FIFO_CONTEXT \<Rightarrow> nat \<Rightarrow> bool" where
  "fifo_masked c p = bit (word_of c p) EVTCHN_FIFO_MASKED"

definition fifo_busy :: "XENBUS_EVTCHN_FIFO_CONTEXT \<Rightarrow> nat \<Rightarrow> bool" where
  "fifo_busy c p = bit (word_of c p) EVTCHN_FIFO_BUSY"

definition fifo_link :: "XENBUS_EVTCHN_FIFO_CONTEXT \<Rightarrow> nat \<Rightarrow> nat" where
  "fifo_link c p = unat (word_of c p AND EVTCHN_FIFO_LINK_MASK)"

text \<open>The update of one port's word.\<close>

definition put_word :: "nat \<Rightarrow> 32 word \<Rightarrow> XENBUS_EVTCHN_FIFO_CONTEXT \<Rightarrow> XENBUS_EVTCHN_FIFO_CONTEXT" where
  "put_word p w c = write_word c (p div EVENT_WORDS_PER_PAGE, p mod EVENT_WORDS_PER_PAGE) w"

lemma EvtchnFifoEventWord_port:
  "EvtchnFifoEventWord c p =
     (if p \<in> fifo_ports c then Some (p div EVENT_WORDS_PER_PAGE, p mod EVENT_WORDS_PER_PAGE) else None)"
  by (simp add: EvtchnFifoEventWord_def fifo_ports_def ASSERT_def Let_def minus_div_mult_eq_mod)

lemma read_word_port [simp]:
  "read_word c (p div EVENT_WORDS_PER_PAGE, p mod EVENT_WORDS_PER_PAGE) = word_of c p"
  by (simp add: read_word_def word_of_def)

lemma put_word_simps [simp]:
  "fifo_ControlBlock (put_word p w c) = fifo_ControlBlock c" "fifo_Head (put_word p w c) = fifo_Head c"
  "fifo_References (put_word p w c) = fifo_References c" "fifo_ports (put_word p w c) = fifo_ports c"
  by (simp_all add: put_word_def write_word_def fifo_ports_def)

lemma word_of_put:
  assumes "fifo_pages_ok c" and "p \<in> fifo_ports c"
  shows "word_of (put_word p w c) q = (if q = p then w else word_of c q)"
proof -
  have "length (fifo_EventPage c ! (p div EVENT_WORDS_PER_PAGE)) = EVENT_WORDS_PER_PAGE"
    using assms by (simp add: fifo_pages_ok_def fifo_ports_def)
  moreover have "p mod EVENT_WORDS_PER_PAGE < EVENT_WORDS_PER_PAGE" by (simp add: fifo_consts)
  moreover have "q = p \<longleftrightarrow> p div EVENT_WORDS_PER_PAGE = q div EVENT_WORDS_PER_PAGE \<and>
      p mod EVENT_WORDS_PER_PAGE = q mod EVENT_WORDS_PER_PAGE" by (metis div_mult_mod_eq)
  ultimately show ?thesis using assms(2)
    by (auto simp: put_word_def write_word_def word_of_def fifo_ports_def nth_list_update)
qed

lemma pages_ok_put [simp]: "fifo_pages_ok c \<Longrightarrow> p \<in> fifo_ports c \<Longrightarrow> fifo_pages_ok (put_word p w c)"
  by (auto simp: fifo_pages_ok_def put_word_def write_word_def fifo_ports_def
      dest!: set_update_subset_insert [THEN subsetD])

lemma EvtchnFifoTestFlag_bit: "f < 32 \<Longrightarrow> EvtchnFifoTestFlag w f = bit w f"
  by (simp add: EvtchnFifoTestFlag_def bit_iff_and_push_bit_not_eq_0)

lemma bit_flags [simp]:
  "f < 32 \<Longrightarrow> bit (EvtchnFifoSetFlag w f) i = (i = f \<or> bit w i)"
  "bit (EvtchnFifoClearFlag w f) i = (i \<noteq> f \<and> bit w i)"
  by (auto simp: EvtchnFifoSetFlag_def EvtchnFifoClearFlag_def bit_simps)

lemma bit_clear32: "bit (w AND NOT (2 ^ f)) i = (i \<noteq> f \<and> bit w i)" for w :: "32 word"
  by (auto simp: bit_simps dest: bit_imp_le_length)

lemma bit_Unlink: "bit (fst (EvtchnFifoUnlink w)) i = (17 \<le> i \<and> i \<noteq> EVTCHN_FIFO_LINKED \<and> bit w i)"
  by (auto simp: EvtchnFifoUnlink_def EVTCHN_FIFO_LINK_MASK_def bit_simps dest: bit_imp_le_length)

section \<open>The interface\<close>

definition quiet :: "32 word \<Rightarrow> (32 word \<times> 32 word) list" where
  "quiet w = [(w, w)]"

definition fifo_ok :: "XENBUS_EVTCHN_FIFO_CONTEXT \<Rightarrow> bool" where
  "fifo_ok c \<longleftrightarrow> fifo_pages_ok c \<and> (\<forall>p \<in> fifo_ports c. \<not> fifo_busy c p)"

lemma clear_clear:
  assumes "\<not> bit w f"
  shows "w AND NOT (2 ^ f) = (w :: 32 word)"
  using assms by (intro bit_word_eqI) (auto simp: bit_clear32)

lemma EvtchnFifoPortAck_port:
  "EvtchnFifoPortAck c p =
     (if p \<in> fifo_ports c then Some (put_word p (EvtchnFifoClearFlag (word_of c p) EVTCHN_FIFO_PENDING) c) else None)"
  by (simp add: EvtchnFifoPortAck_def EvtchnFifoEventWord_port put_word_def)

lemma EvtchnFifoPortMask_port:
  "EvtchnFifoPortMask c p =
     (if p \<in> fifo_ports c then Some (put_word p (EvtchnFifoSetFlag (word_of c p) EVTCHN_FIFO_MASKED) c) else None)"
  by (simp add: EvtchnFifoPortMask_def EvtchnFifoEventWord_port put_word_def)

lemma EvtchnFifoPortUnmask_port:
  assumes "fifo_ok c" and "p \<in> fifo_ports c"
  shows "EvtchnFifoPortUnmask quiet c p =
     Some (fifo_pending c p, put_word p (word_of c p AND NOT (2 ^ EVTCHN_FIFO_MASKED)) c)"
proof -
  have ok: "fifo_pages_ok c" and "\<not> bit (word_of c p) EVTCHN_FIFO_BUSY"
    using assms by (simp_all add: fifo_ok_def fifo_busy_def)
  then have same: "word_of c p AND NOT (2 ^ EVTCHN_FIFO_BUSY) = word_of c p" by (intro clear_clear)
  let ?w = "word_of c p AND NOT (2 ^ EVTCHN_FIFO_MASKED)"
  have "read_word (put_word p ?w c) (p div EVENT_WORDS_PER_PAGE, p mod EVENT_WORDS_PER_PAGE) = ?w"
    by (simp only: read_word_port word_of_put [OF ok assms(2)] if_True simp_thms)
  then have "read_word (write_word c (p div EVENT_WORDS_PER_PAGE, p mod EVENT_WORDS_PER_PAGE) ?w)
      (p div EVENT_WORDS_PER_PAGE, p mod EVENT_WORDS_PER_PAGE) = ?w" by (simp only: put_word_def)
  moreover have "EvtchnFifoTestFlag ?w EVTCHN_FIFO_PENDING = fifo_pending c p"
    using bit_clear32 [of "word_of c p" EVTCHN_FIFO_MASKED EVTCHN_FIFO_PENDING]
    by (simp add: EvtchnFifoTestFlag_bit fifo_pending_def EVTCHN_FIFO_PENDING_def EVTCHN_FIFO_MASKED_def)
  ultimately show ?thesis using assms(2)
    by (simp add: EvtchnFifoPortUnmask_def EvtchnFifoEventWord_port quiet_def same Let_def put_word_def)
qed

lemma fifo_put_flags:
  assumes "fifo_pages_ok c" and "p \<in> fifo_ports c"
  shows "fifo_pending (put_word p w c) q = (if q = p then bit w EVTCHN_FIFO_PENDING else fifo_pending c q)"
    and "fifo_masked (put_word p w c) q = (if q = p then bit w EVTCHN_FIFO_MASKED else fifo_masked c q)"
    and "fifo_busy (put_word p w c) q = (if q = p then bit w EVTCHN_FIFO_BUSY else fifo_busy c q)"
  by (simp_all add: fifo_pending_def fifo_masked_def fifo_busy_def word_of_put [OF assms])

interpretation fifo: evtchn_abi fifo_ok fifo_ports fifo_pending fifo_masked EvtchnFifoPortAck EvtchnFifoPortMask
  "EvtchnFifoPortUnmask quiet"
proof (unfold_locales, goal_cases)
  case (1 c p)
  then have "fifo_pages_ok c" by (simp add: fifo_ok_def)
  note put = fifo_put_flags [OF this 1(2)] pages_ok_put [OF this 1(2)]
  from 1 show ?case
    by (auto simp: EvtchnFifoPortAck_port put fifo_ok_def)
      (auto simp: fifo_consts fifo_pending_def fifo_masked_def fifo_busy_def)
next
  case (2 c p)
  then have "fifo_pages_ok c" by (simp add: fifo_ok_def)
  note put = fifo_put_flags [OF this 2(2)] pages_ok_put [OF this 2(2)]
  from 2 show ?case
    by (auto simp: EvtchnFifoPortMask_port put fifo_ok_def)
      (auto simp: fifo_consts fifo_pending_def fifo_masked_def fifo_busy_def)
next
  case (3 c p)
  then have "fifo_pages_ok c" by (simp add: fifo_ok_def)
  note put = fifo_put_flags [OF this 3(2)] pages_ok_put [OF this 3(2)]
  have "EVTCHN_FIFO_MASKED \<noteq> EVTCHN_FIFO_PENDING" "EVTCHN_FIFO_MASKED \<noteq> EVTCHN_FIFO_BUSY" by (simp_all add: fifo_consts)
  with 3 show ?case unfolding EvtchnFifoPortUnmask_port [OF 3]
    by (auto simp: put fifo_ok_def bit_clear32) (simp_all add: fifo_pending_def fifo_busy_def)
qed

section \<open>The queues\<close>

text \<open>
  A queue as the hypervisor builds it: the head names the first port, each port's link field the
  next one, and 0 ends it.
\<close>

fun fifo_chain :: "XENBUS_EVTCHN_FIFO_CONTEXT \<Rightarrow> nat \<Rightarrow> nat list \<Rightarrow> bool" where
  "fifo_chain c h [] = (h = 0)"
| "fifo_chain c h (p # ps) = (h = p \<and> p \<noteq> 0 \<and> p \<in> fifo_ports c \<and> fifo_chain c (fifo_link c p) ps)"

text \<open>The head a poll would start from.\<close>

definition queue_head :: "XENBUS_EVTCHN_FIFO_CONTEXT \<Rightarrow> nat \<Rightarrow> nat \<Rightarrow> nat" where
  "queue_head c v k = (if fifo_Head c ! v ! k = 0 then cb_head (the (fifo_ControlBlock c ! v)) ! k else fifo_Head c ! v ! k)"

text \<open>\<open>Q k\<close> is the queue of priority \<open>k\<close>: \<open>Ready\<close> has a bit for exactly the non-empty ones.\<close>

definition queues :: "XENBUS_EVTCHN_FIFO_CONTEXT \<Rightarrow> nat \<Rightarrow> 32 word \<Rightarrow> (nat \<Rightarrow> nat list) \<Rightarrow> bool" where
  "queues c v Ready Q \<longleftrightarrow>
     (\<forall>k. bit Ready k \<longleftrightarrow> k < 16 \<and> Q k \<noteq> []) \<and>
     (\<forall>k < 16. if Q k = [] then fifo_Head c ! v ! k = 0 else fifo_chain c (queue_head c v k) (Q k)) \<and>
     (\<forall>k < 16. distinct (Q k)) \<and> (\<forall>j < 16. \<forall>k < 16. j \<noteq> k \<longrightarrow> set (Q j) \<inter> set (Q k) = {})"

definition fifo_wf :: "XENBUS_EVTCHN_FIFO_CONTEXT \<Rightarrow> nat \<Rightarrow> bool" where
  "fifo_wf c v \<longleftrightarrow> fifo_pages_ok c \<and> v < length (fifo_Head c) \<and> length (fifo_Head c ! v) = 16 \<and>
     v < length (fifo_ControlBlock c) \<and> fifo_ControlBlock c ! v \<noteq> None"

text \<open>
  The handlers of evtchn.c: they return, and change at most the flags of the port they are called
  for. The handler logs the ports it is called for.
\<close>

definition fifo_local :: "nat list fifo_event \<Rightarrow> bool" where
  "fifo_local Event \<longleftrightarrow> (\<forall>p c w. p \<in> fifo_ports c \<longrightarrow> fifo_pages_ok c \<longrightarrow>
     (\<exists>r c'. Event p (c, w) = Some (r, c', w @ [p]) \<and> fifo_pages_ok c' \<and> fifo_ports c' = fifo_ports c \<and>
        fifo_ControlBlock c' = fifo_ControlBlock c \<and> fifo_Head c' = fifo_Head c \<and>
        (\<forall>q. fifo_link c' q = fifo_link c q) \<and> (\<forall>q. q \<noteq> p \<longrightarrow> word_of c' q = word_of c q)))"

definition fifo_due :: "XENBUS_EVTCHN_FIFO_CONTEXT \<Rightarrow> nat \<Rightarrow> bool" where
  "fifo_due c p \<longleftrightarrow> fifo_pending c p \<and> \<not> fifo_masked c p"

lemma chain_cong:
  "fifo_chain c h ps \<Longrightarrow> fifo_ports c' = fifo_ports c \<Longrightarrow> \<forall>q \<in> set ps. fifo_link c' q = fifo_link c q \<Longrightarrow> fifo_chain c' h ps"
  by (induction ps arbitrary: h) auto

lemma fifo_link_zero_iff: "fifo_chain c (fifo_link c p) ps \<Longrightarrow> fifo_link c p = 0 \<longleftrightarrow> ps = []"
  by (cases ps) auto

lemma fifo_due_cong: "word_of c' q = word_of c q \<Longrightarrow> fifo_due c' q = fifo_due c q"
  by (simp add: fifo_due_def fifo_pending_def fifo_masked_def)

lemma fifo_link_cong: "word_of c' q = word_of c q \<Longrightarrow> fifo_link c' q = fifo_link c q"
  by (simp add: fifo_link_def)

lemma PollPriority_law:
  assumes handler: "fifo_local Event" and wf: "fifo_wf c v" and k: "k < 16"
    and chain: "fifo_chain c (queue_head c v k) (p # ps)" and fresh: "p \<notin> set ps"
  shows "\<exists>d c'. EvtchnFifoPollPriority v k Ready Event (c, w) =
       Some (d, if ps = [] then Ready AND NOT (2 ^ k) else Ready, c', w @ (if fifo_due c p then [p] else [])) \<and>
     fifo_wf c' v \<and> fifo_ports c' = fifo_ports c \<and> fifo_ControlBlock c' = fifo_ControlBlock c \<and>
     fifo_Head c' = (fifo_Head c)[v := (fifo_Head c ! v)[k := fifo_link c p]] \<and>
     (\<forall>q. q \<noteq> p \<longrightarrow> word_of c' q = word_of c q) \<and> fifo_link c' p = 0"
proof -
  let ?l = "(p div EVENT_WORDS_PER_PAGE, p mod EVENT_WORDS_PER_PAGE)"
  define new where "new = fst (EvtchnFifoUnlink (word_of c p))"
  let ?c = "put_word p new c"
  from chain have p: "queue_head c v k = p" "p \<in> fifo_ports c" and rest: "fifo_chain c (fifo_link c p) ps" by simp_all
  obtain cb where cb: "fifo_ControlBlock c ! v = Some cb" using wf by (auto simp: fifo_wf_def)
  have pages: "fifo_pages_ok c" using wf by (simp add: fifo_wf_def)
  note put = word_of_put [OF pages p(2)]
  have unlink: "EvtchnFifoUnlink (word_of c p) = (new, fifo_link c p)"
    by (simp add: new_def EvtchnFifoUnlink_def fifo_link_def)
  have Port: "(if fifo_Head c ! v ! k = 0
       then do { ControlBlock \<leftarrow> fifo_ControlBlock c ! v; Some (cb_head ControlBlock ! k) }
       else Some (fifo_Head c ! v ! k)) = Some p"
    using p(1) cb by (auto simp: queue_head_def split: if_splits)
  have bits: "EvtchnFifoTestFlag new EVTCHN_FIFO_MASKED = fifo_masked c p"
    "EvtchnFifoTestFlag new EVTCHN_FIFO_PENDING = fifo_pending c p"
    by (simp_all add: fifo_masked_def fifo_pending_def fifo_consts EvtchnFifoTestFlag_bit new_def bit_Unlink)
  have links: "fifo_link ?c p = 0"
  proof -
    have "new AND EVTCHN_FIFO_LINK_MASK = 0"
      by (intro bit_word_eqI) (auto simp: new_def bit_Unlink bit_and_iff EVTCHN_FIFO_LINK_MASK_def bit_mask_iff)
    then show ?thesis by (simp add: fifo_link_def put)
  qed
  have ready: "fifo_link c p = 0 \<longleftrightarrow> ps = []" by (rule fifo_link_zero_iff [OF rest])
  have "\<exists>d c2. (if fifo_due c p then Event p (?c, w) else Some (False, ?c, w)) =
       Some (d, c2, w @ (if fifo_due c p then [p] else [])) \<and>
     fifo_pages_ok c2 \<and> fifo_ports c2 = fifo_ports c \<and> fifo_ControlBlock c2 = fifo_ControlBlock c \<and>
     fifo_Head c2 = fifo_Head c \<and> fifo_link c2 p = 0 \<and> (\<forall>q. q \<noteq> p \<longrightarrow> word_of c2 q = word_of c q)"
  proof (cases "fifo_due c p")
    case True
    have "p \<in> fifo_ports ?c" "fifo_pages_ok ?c" using pages p(2) by simp_all
    with handler obtain r c2 where "Event p (?c, w) = Some (r, c2, w @ [p])" "fifo_pages_ok c2"
      "fifo_ports c2 = fifo_ports ?c" "fifo_ControlBlock c2 = fifo_ControlBlock ?c" "fifo_Head c2 = fifo_Head ?c"
      "\<forall>q. fifo_link c2 q = fifo_link ?c q" "\<forall>q. q \<noteq> p \<longrightarrow> word_of c2 q = word_of ?c q"
      unfolding fifo_local_def by blast
    then show ?thesis using True links put by simp
  next
    case False
    then show ?thesis using links put pages p(2) by auto
  qed
  then obtain d c2 where c2: "(if fifo_due c p then Event p (?c, w) else Some (False, ?c, w)) =
       Some (d, c2, w @ (if fifo_due c p then [p] else []))"
    "fifo_pages_ok c2" "fifo_ports c2 = fifo_ports c" "fifo_ControlBlock c2 = fifo_ControlBlock c"
    "fifo_Head c2 = fifo_Head c" "fifo_link c2 p = 0" "\<forall>q. q \<noteq> p \<longrightarrow> word_of c2 q = word_of c q" by (elim exE conjE)
  have cond: "(\<not> EvtchnFifoTestFlag (word_of ?c p) EVTCHN_FIFO_MASKED \<and>
      EvtchnFifoTestFlag (word_of ?c p) EVTCHN_FIFO_PENDING) = fifo_due c p"
    by (simp add: put bits fifo_due_def conj_commute)
  have location: "EvtchnFifoEventWord c p = Some ?l" using p(2) by (simp add: EvtchnFifoEventWord_port)
  have "(k < EVTCHN_FIFO_MAX_QUEUES) = True" using k by (simp add: fifo_consts)
  then have "EvtchnFifoPollPriority v k Ready Event (c, w) =
      Option.bind (if fifo_due c p then Event p (?c, w) else Some (False, ?c, w))
        (\<lambda>(d, s2). Some (d, if fifo_link c p = 0 then Ready AND NOT (2 ^ k) else Ready,
           set_Head v k (fifo_link c p) (fst s2), snd s2))"
    by (simp only: EvtchnFifoPollPriority_def ASSERT_def if_True Option.bind.bind_lunit fst_conv snd_conv Let_def
        Port location read_word_port unlink prod.case put_word_def [symmetric] cond push_bit_of_1)
  then have "EvtchnFifoPollPriority v k Ready Event (c, w) =
      Some (d, if ps = [] then Ready AND NOT (2 ^ k) else Ready, set_Head v k (fifo_link c p) c2,
        w @ (if fifo_due c p then [p] else []))"
    by (simp only: c2(1) Option.bind.bind_lunit prod.case fst_conv snd_conv ready)
  moreover have "fifo_wf (set_Head v k (fifo_link c p) c2) v"
    using wf c2 by (simp add: fifo_wf_def set_Head_def fifo_pages_ok_def)
  moreover have "word_of (set_Head v k (fifo_link c p) c2) q = word_of c2 q" for q
    by (simp add: word_of_def set_Head_def)
  moreover have "fifo_ports (set_Head v k (fifo_link c p) c2) = fifo_ports c2"
    by (simp add: fifo_ports_def set_Head_def)
  ultimately show ?thesis using c2
    by (intro exI [of _ d] exI [of _ "set_Head v k (fifo_link c p) c2"])
      (simp add: set_Head_def fifo_link_def word_of_def)
qed

section \<open>The poll\<close>

lemma last_sorted_max: "sorted xs \<Longrightarrow> x \<in> set xs \<Longrightarrow> x \<le> last xs" for x :: nat
  by (induction xs) (auto split: if_splits)

lemma BitScanReverse_highest:
  assumes "w \<noteq> 0"
  shows "bit w (BitScanReverse w) \<and> (\<forall>j. bit w j \<longrightarrow> j \<le> BitScanReverse w)"
proof -
  let ?xs = "filter (bit w) [0 ..< 32]"
  have mem: "j \<in> set ?xs" if "bit w j" for j using that bit_imp_le_length [of w j] by simp
  have "\<exists>n. bit w n" using assms by (auto intro: ccontr simp: bit_eq_iff)
  then have "?xs \<noteq> []" using mem by (metis empty_iff list.set(1))
  then have "last ?xs \<in> set ?xs" by (rule last_in_set)
  moreover have "sorted ?xs" by (intro sorted_wrt_filter) simp
  ultimately show ?thesis using mem last_sorted_max [of ?xs] by (auto simp: BitScanReverse_def)
qed

text \<open>The order of delivery: the queues from priority 15 down to priority 0, each from its head.\<close>

definition queue_order :: "(nat \<Rightarrow> nat list) \<Rightarrow> nat list" where
  "queue_order Q = concat (map Q (rev [0 ..< 16]))"

lemma set_queue_order: "set (queue_order Q) = (\<Union>k < 16. set (Q k))"
  by (auto simp: queue_order_def)

lemma queue_order_pop:
  assumes "k < n" and "\<forall>j. k < j \<and> j < n \<longrightarrow> Q j = []" and "Q k = p # ps" and "\<forall>j. j \<noteq> k \<longrightarrow> R j = Q j" and "R k = ps"
  shows "concat (map Q (rev [0 ..< n])) = p # concat (map R (rev [0 ..< n]))"
  using assms(1,2)
proof (induction n)
  case (Suc n)
  show ?case
  proof (cases "n = k")
    case True
    have "concat (map R (rev [0 ..< k])) = concat (map Q (rev [0 ..< k]))"
      by (intro arg_cong [of _ _ concat] map_cong) (use assms(4) in auto)
    then show ?thesis using True assms(3,5) by (simp del: map_eq_conv)
  next
    case False
    with Suc.prems have "Q n = []" "k < n" by simp_all
    with Suc False assms(4) show ?thesis by simp
  qed
qed simp

lemma queues_pop:
  assumes Q: "queues c v Ready Q" and k: "k < 16" "Q k = p # ps" and v: "v < length (fifo_Head c)"
    "length (fifo_Head c ! v) = 16" and
    c': "fifo_ports c' = fifo_ports c" "fifo_ControlBlock c' = fifo_ControlBlock c"
    "fifo_Head c' = (fifo_Head c)[v := (fifo_Head c ! v)[k := fifo_link c p]]"
    "\<forall>q. q \<noteq> p \<longrightarrow> word_of c' q = word_of c q"
  shows "queues c' v (if ps = [] then Ready AND NOT (2 ^ k) else Ready) (Q(k := ps))"
proof -
  have chain: "fifo_chain c (queue_head c v j) (Q j)" if "j < 16" "Q j \<noteq> []" for j
    using Q that unfolding queues_def by metis
  have apart: "set (Q i) \<inter> set (Q j) = {}" if "i < 16" "j < 16" "i \<noteq> j" for i j
    using Q that unfolding queues_def by blast
  have dist: "distinct (Q j)" if "j < 16" for j using Q that unfolding queues_def by blast
  have rest: "fifo_chain c (fifo_link c p) ps" using chain [OF k(1)] k(2) by simp
  have fresh: "p \<notin> set ps" using dist [OF k(1)] k(2) by simp
  have Head: "fifo_Head c' ! v ! j = (if j = k then fifo_link c p else fifo_Head c ! v ! j)" if "j < 16" for j
    using c'(3) v that by (simp add: nth_list_update)
  have links: "fifo_link c' q = fifo_link c q" if "q \<noteq> p" for q using c'(4) that by (intro fifo_link_cong) simp
  have head_k: "fifo_Head c' ! v ! k = fifo_link c p" using Head [OF k(1)] by simp
  have zero: "fifo_link c p = 0 \<longleftrightarrow> ps = []" by (rule fifo_link_zero_iff [OF rest])
  have chain_k: "fifo_chain c' (fifo_link c p) ps"
    by (rule chain_cong [OF rest c'(1)]) (use links fresh in metis)
  have heads_k: "if ps = [] then fifo_Head c' ! v ! k = 0 else fifo_chain c' (queue_head c' v k) ps"
  proof (cases "ps = []")
    case False
    then have "queue_head c' v k = fifo_link c p" using zero head_k by (simp add: queue_head_def)
    then show ?thesis using False chain_k by simp
  qed (use zero head_k in simp)
  have heads_other: "if Q j = [] then fifo_Head c' ! v ! j = 0 else fifo_chain c' (queue_head c' v j) (Q j)"
    if j: "j < 16" "j \<noteq> k" for j
  proof (cases "Q j = []")
    case True
    then have "fifo_Head c ! v ! j = 0" using Q j(1) unfolding queues_def by metis
    then show ?thesis using True Head [OF j(1)] j(2) by simp
  next
    case False
    have same: "queue_head c' v j = queue_head c v j" using j(2) Head [OF j(1)] c'(2) by (simp add: queue_head_def)
    have "p \<notin> set (Q j)" using apart [OF j(1) k(1) j(2)] k(2) by auto
    then have "\<forall>q \<in> set (Q j). fifo_link c' q = fifo_link c q" using links by metis
    from chain_cong [OF chain [OF j(1) False] c'(1) this] show ?thesis using False same by simp
  qed
  have heads: "if (Q(k := ps)) j = [] then fifo_Head c' ! v ! j = 0
      else fifo_chain c' (queue_head c' v j) ((Q(k := ps)) j)" if "j < 16" for j
    using heads_k heads_other [OF that] by (cases "j = k") simp_all
  have bits: "bit (if ps = [] then Ready AND NOT (2 ^ k) else Ready) j \<longleftrightarrow> j < 16 \<and> (Q(k := ps)) j \<noteq> []" for j
  proof -
    have "bit Ready j \<longleftrightarrow> j < 16 \<and> Q j \<noteq> []" using Q unfolding queues_def by blast
    then show ?thesis using k by (auto simp: bit_clear32)
  qed
  show ?thesis unfolding queues_def
  proof (intro conjI allI impI)
    fix i j :: nat assume ij: "i < 16" "j < 16" "i \<noteq> j"
    then show "set ((Q(k := ps)) i) \<inter> set ((Q(k := ps)) j) = {}" using apart [OF ij] k(2) by auto
  next
    fix j :: nat assume "j < 16"
    then show "distinct ((Q(k := ps)) j)" using dist [of j] k(2) by auto
  qed (rule bits heads | assumption)+
qed

lemma take_ready_zero:
  assumes "v < length (fifo_ControlBlock c)" and "fifo_ControlBlock c ! v = Some cb" and "cb_ready cb = 0"
  shows "take_ready v c = Some (0, c)"
proof -
  have "(fifo_ControlBlock c)[v := Some (cb\<lparr>cb_ready := 0\<rparr>)] = fifo_ControlBlock c"
  proof -
    have "cb\<lparr>cb_ready := 0\<rparr> = cb" using assms(3) by (cases cb) simp
    then show ?thesis using assms(2) list_update_id [of "fifo_ControlBlock c" v] by simp
  qed
  then show ?thesis using assms by (simp add: take_ready_def)
qed

lemma fifo_poll_loop_law:
  assumes handler: "fifo_local Event"
  shows "fifo_wf c v \<Longrightarrow> queues c v Ready Q \<Longrightarrow> cb_ready (the (fifo_ControlBlock c ! v)) = 0 \<Longrightarrow>
     \<exists>d' c'. fifo_poll_loop v Event Ready d (c, w) = Some (d', c', w @ filter (fifo_due c) (queue_order Q)) \<and>
       fifo_wf c' v \<and> fifo_ports c' = fifo_ports c \<and> (\<forall>k < 16. fifo_Head c' ! v ! k = 0) \<and>
       (\<forall>q. q \<notin> set (queue_order Q) \<longrightarrow> word_of c' q = word_of c q) \<and>
       (\<forall>q \<in> set (queue_order Q). fifo_link c' q = 0)"
proof (induction "length (queue_order Q)" arbitrary: Q c Ready d w rule: less_induct)
  case less
  have bits: "bit Ready j \<longleftrightarrow> j < 16 \<and> Q j \<noteq> []" for j using less.prems(2) unfolding queues_def by blast
  show ?case
  proof (cases "Ready = 0")
    case True
    then have "Q j = []" if "j < 16" for j using bits [of j] that by simp
    then have "queue_order Q = []" "\<forall>k < 16. fifo_Head c ! v ! k = 0"
      using less.prems(2) by (auto simp: queue_order_def queues_def)
    then show ?thesis using True less.prems(1) by (simp add: fifo_poll_loop.simps)
  next
    case False
    define k where "k = BitScanReverse Ready"
    have high: "bit Ready k" "\<forall>j. bit Ready j \<longrightarrow> j \<le> k" using BitScanReverse_highest [OF False] by (auto simp: k_def)
    then obtain p ps where k: "k < 16" "Q k = p # ps" using bits [of k] by (cases "Q k") auto
    have empty: "\<forall>j. k < j \<and> j < 16 \<longrightarrow> Q j = []" using high(2) bits by (metis linorder_not_le)
    have order: "queue_order Q = p # queue_order (Q(k := ps))"
      unfolding queue_order_def by (rule queue_order_pop [of k 16 Q p ps, OF k(1) empty k(2)]) simp_all
    have chain: "fifo_chain c (queue_head c v k) (p # ps)" using less.prems(2) k unfolding queues_def by (metis list.distinct(1))
    have apart: "p \<notin> set ps" "\<forall>j < 16. j \<noteq> k \<longrightarrow> p \<notin> set (Q j)"
      using less.prems(2) k unfolding queues_def by (metis distinct.simps(2), metis disjoint_iff list.set_intros(1))
    let ?R = "if ps = [] then Ready AND NOT (2 ^ k) else Ready"
    let ?w = "w @ (if fifo_due c p then [p] else [])"
    from PollPriority_law [OF handler less.prems(1) k(1) chain apart(1), of Ready w] obtain d1 c1 where
      step: "EvtchnFifoPollPriority v k Ready Event (c, w) = Some (d1, ?R, c1, ?w)" and
      c1: "fifo_wf c1 v" "fifo_ports c1 = fifo_ports c" "fifo_ControlBlock c1 = fifo_ControlBlock c"
        "fifo_Head c1 = (fifo_Head c)[v := (fifo_Head c ! v)[k := fifo_link c p]]"
        "\<forall>q. q \<noteq> p \<longrightarrow> word_of c1 q = word_of c q" "fifo_link c1 p = 0" by (elim exE conjE)
    obtain cb where cb: "v < length (fifo_ControlBlock c1)" "fifo_ControlBlock c1 ! v = Some cb" "cb_ready cb = 0"
      using c1(1,3) less.prems(3) by (auto simp: fifo_wf_def)
    have loop: "fifo_poll_loop v Event Ready d (c, w) = fifo_poll_loop v Event ?R (d \<or> d1) (c1, ?w)"
      using False step take_ready_zero [OF cb] by (subst fifo_poll_loop.simps) (simp add: k_def)
    have v: "v < length (fifo_Head c)" "length (fifo_Head c ! v) = 16" using less.prems(1) by (simp_all add: fifo_wf_def)
    have Q1: "queues c1 v ?R (Q(k := ps))" by (rule queues_pop [OF less.prems(2) k v c1(2-5)])
    have ready1: "cb_ready (the (fifo_ControlBlock c1 ! v)) = 0" using cb by simp
    have shorter: "length (queue_order (Q(k := ps))) < length (queue_order Q)" by (simp add: order)
    from less.hyps [OF shorter c1(1) Q1 ready1, of "d \<or> d1" ?w] obtain d' c' where
      run: "fifo_poll_loop v Event ?R (d \<or> d1) (c1, ?w) =
          Some (d', c', ?w @ filter (fifo_due c1) (queue_order (Q(k := ps))))" and
      c': "fifo_wf c' v" "fifo_ports c' = fifo_ports c1" "\<forall>k < 16. fifo_Head c' ! v ! k = 0"
        "\<forall>q. q \<notin> set (queue_order (Q(k := ps))) \<longrightarrow> word_of c' q = word_of c1 q"
        "\<forall>q \<in> set (queue_order (Q(k := ps))). fifo_link c' q = 0" by (elim exE conjE)
    have gone: "p \<notin> set (queue_order (Q(k := ps)))" using apart by (auto simp: set_queue_order)
    then have "filter (fifo_due c1) (queue_order (Q(k := ps))) = filter (fifo_due c) (queue_order (Q(k := ps)))"
      using c1(5) by (intro filter_cong refl fifo_due_cong) auto
    then have "fifo_poll_loop v Event Ready d (c, w) = Some (d', c', w @ filter (fifo_due c) (queue_order Q))"
      using loop run order by simp
    moreover have "\<forall>q. q \<notin> set (queue_order Q) \<longrightarrow> word_of c' q = word_of c q" using c'(4) c1(5) order by simp
    moreover have "\<forall>q \<in> set (queue_order Q). fifo_link c' q = 0"
      using c'(4,5) c1(6) order gone fifo_link_cong [of c' p c1] by auto
    ultimately show ?thesis using c'(1-3) c1(2) by (intro exI conjI) (assumption | simp)+
  qed
qed

section \<open>Enabling ports\<close>

lemma expand_pages_law:
  assumes "expand_pages page reg [a ..< m] ps n = (st, ps', n')" and "a \<le> m"
  shows "if NT_SUCCESS st then st = STATUS_SUCCESS \<and> ps' = ps @ replicate (m - a) (replicate EVENT_WORDS_PER_PAGE
       (EvtchnFifoSetFlag 0 EVTCHN_FIFO_MASKED)) else (\<exists>k. a \<le> k \<and> k < m \<and> n' = n + (k - a))"
  using assms
proof (induction "m - a" arbitrary: a ps n)
  case 0
  then show ?case by (simp add: NT_SUCCESS_def)
next
  case (Suc d)
  then have a: "a < m" "d = m - Suc a" "[a ..< m] = a # [Suc a ..< m]" by (simp_all add: upt_conv_Cons)
  let ?pg = "replicate EVENT_WORDS_PER_PAGE (EvtchnFifoSetFlag 0 EVTCHN_FIFO_MASKED)"
  show ?case
  proof (cases "page a \<and> NT_SUCCESS (reg a)")
    case True
    then have "expand_pages page reg [Suc a ..< m] (ps @ [?pg]) (Suc n) = (st, ps', n')"
      using Suc.prems a(3) by (simp add: Let_def map_replicate_const)
    from Suc.hyps(1) [OF a(2) this] a(1) have IH: "if NT_SUCCESS st then st = STATUS_SUCCESS \<and>
        ps' = (ps @ [?pg]) @ replicate (m - Suc a) ?pg else (\<exists>k. Suc a \<le> k \<and> k < m \<and> n' = Suc n + (k - Suc a))" by simp
    have "m - a = Suc (m - Suc a)" using a(1) by simp
    moreover have "\<exists>k. a \<le> k \<and> k < m \<and> n' = n + (k - a)" if "Suc a \<le> k" "k < m" "n' = Suc n + (k - Suc a)" for k
      using that by (intro exI [of _ k]) simp
    ultimately show ?thesis using IH by (auto split: if_splits)
  next
    case False
    then have "\<not> NT_SUCCESS st" "n' = n" using Suc.prems a(3) by (auto simp: Let_def NT_SUCCESS_def split: if_splits)
    then show ?thesis using a(1) by auto
  qed
qed

lemma EvtchnFifoPortEnable_law:
  assumes "fifo_pages_ok c"
  shows "\<exists>st c'. EvtchnFifoPortEnable mem page reg c p = Some (st, c') \<and> fifo_pages_ok c' \<and>
     fifo_ControlBlock c' = fifo_ControlBlock c \<and> fifo_Head c' = fifo_Head c \<and>
     (if NT_SUCCESS st then p \<in> fifo_ports c' \<and> fifo_ports c \<subseteq> fifo_ports c' \<and>
        (\<forall>q \<in> fifo_ports c. word_of c' q = word_of c q) \<and>
        (\<forall>q \<in> fifo_ports c' - fifo_ports c. word_of c' q = EvtchnFifoSetFlag 0 EVTCHN_FIFO_MASKED)
      else fifo_EventPage c' = fifo_EventPage c)"
proof (cases "p \<in> fifo_ports c")
  case True
  then show ?thesis using assms by (simp add: EvtchnFifoPortEnable_def fifo_ports_def NT_SUCCESS_def)
next
  case False
  define m where "m = Suc (p div EVENT_WORDS_PER_PAGE)"
  have le: "EventPageCount c \<le> p div EVENT_WORDS_PER_PAGE" using False by (simp add: fifo_ports_def)
  let ?pg = "replicate EVENT_WORDS_PER_PAGE (EvtchnFifoSetFlag 0 EVTCHN_FIFO_MASKED)"
  obtain st ps n where e: "expand_pages page reg [EventPageCount c ..< m] (fifo_EventPage c) (fifo_Registered c) = (st, ps, n)"
    by (metis prod_cases3)
  have law: "if NT_SUCCESS st then st = STATUS_SUCCESS \<and> ps = fifo_EventPage c @ replicate (m - EventPageCount c) ?pg
      else True" using expand_pages_law [OF e] le by (auto simp: m_def)
  have run: "EvtchnFifoPortEnable mem page reg c p = Some (if \<not> mem then (STATUS_NO_MEMORY, c) else
      if NT_SUCCESS st then (STATUS_SUCCESS, c\<lparr>fifo_EventPage := ps, fifo_Registered := n\<rparr>)
      else (st, c\<lparr>fifo_Registered := n\<rparr>))"
    using le e by (simp add: EvtchnFifoPortEnable_def EvtchnFifoExpand_def ASSERT_def Let_def m_def)
  show ?thesis
  proof (cases "mem \<and> NT_SUCCESS st")
    case False
    then show ?thesis using run assms by (auto simp: NT_SUCCESS_def fifo_pages_ok_def)
  next
    case True
    let ?c = "c\<lparr>fifo_EventPage := ps, fifo_Registered := n\<rparr>"
    have ps: "ps = fifo_EventPage c @ replicate (m - EventPageCount c) ?pg" using law True by simp
    have ports: "fifo_ports ?c = {q. q div EVENT_WORDS_PER_PAGE < m}" using ps le by (auto simp: fifo_ports_def m_def)
    have old: "word_of ?c q = word_of c q" if "q \<in> fifo_ports c" for q
      using that ps by (simp add: word_of_def fifo_ports_def nth_append)
    have new: "word_of ?c q = EvtchnFifoSetFlag 0 EVTCHN_FIFO_MASKED" if "q \<in> fifo_ports ?c - fifo_ports c" for q
    proof -
      have "q mod EVENT_WORDS_PER_PAGE < EVENT_WORDS_PER_PAGE" by (simp add: fifo_consts)
      then show ?thesis using that ps ports by (auto simp: word_of_def fifo_ports_def nth_append)
    qed
    have "fifo_ports c \<subseteq> fifo_ports ?c" "p \<in> fifo_ports ?c" using ports le by (auto simp: fifo_ports_def m_def)
    moreover have "fifo_pages_ok ?c" using assms ps by (auto simp: fifo_pages_ok_def)
    moreover have "EvtchnFifoPortEnable mem page reg c p = Some (STATUS_SUCCESS, ?c)" using run True by simp
    moreover have "NT_SUCCESS STATUS_SUCCESS" by (simp add: NT_SUCCESS_def)
    ultimately show ?thesis using old new
      by (intro exI [of _ STATUS_SUCCESS] exI [of _ ?c] conjI) simp_all
  qed
qed

section \<open>Acquiring\<close>

text \<open>The control blocks of the processors below \<open>a\<close>.\<close>

definition blocks_of :: "(nat \<Rightarrow> NTSTATUS \<times> nat) \<Rightarrow> nat \<Rightarrow> evtchn_fifo_control_block option list" where
  "blocks_of vcpu_id a = map (\<lambda>v. if \<exists>i < a. NT_SUCCESS (fst (vcpu_id i)) \<and> snd (vcpu_id i) = v
     then Some zero_control_block else None) [0 ..< HVM_MAX_VCPUS]"

text \<open>Every processor that has a VCPU number has one of its own, below the limit.\<close>

definition vcpus_ok :: "(nat \<Rightarrow> NTSTATUS \<times> nat) \<Rightarrow> nat \<Rightarrow> bool" where
  "vcpus_ok vcpu_id n \<longleftrightarrow>
     (\<forall>i < n. NT_SUCCESS (fst (vcpu_id i)) \<longrightarrow> snd (vcpu_id i) < HVM_MAX_VCPUS \<and>
        (\<forall>j < i. NT_SUCCESS (fst (vcpu_id j)) \<longrightarrow> snd (vcpu_id j) \<noteq> snd (vcpu_id i)))"

lemma blocks_of_skip: "\<not> NT_SUCCESS (fst (vcpu_id a)) \<Longrightarrow> blocks_of vcpu_id (Suc a) = blocks_of vcpu_id a"
  by (auto simp: blocks_of_def less_Suc_eq)

lemma blocks_of_nth:
  "length (blocks_of vcpu_id a) = HVM_MAX_VCPUS"
  "v < HVM_MAX_VCPUS \<Longrightarrow> blocks_of vcpu_id a ! v =
     (if \<exists>i < a. NT_SUCCESS (fst (vcpu_id i)) \<and> snd (vcpu_id i) = v then Some zero_control_block else None)"
  by (simp_all add: blocks_of_def)

lemma blocks_of_set:
  assumes "NT_SUCCESS (fst (vcpu_id a))"
  shows "(blocks_of vcpu_id a)[snd (vcpu_id a) := Some zero_control_block] = blocks_of vcpu_id (Suc a)"
proof (rule nth_equalityI)
  fix v assume "v < length ((blocks_of vcpu_id a)[snd (vcpu_id a) := Some zero_control_block])"
  then have v: "v < HVM_MAX_VCPUS" by (simp add: blocks_of_nth(1))
  show "(blocks_of vcpu_id a)[snd (vcpu_id a) := Some zero_control_block] ! v = blocks_of vcpu_id (Suc a) ! v"
    using assms v by (cases "snd (vcpu_id a) = v") (auto simp: blocks_of_nth less_Suc_eq)
qed (simp add: blocks_of_nth(1))

lemma blocks_of_unset:
  assumes "vcpus_ok vcpu_id n" and "a < n" and "NT_SUCCESS (fst (vcpu_id a))"
  shows "(blocks_of vcpu_id (Suc a))[snd (vcpu_id a) := None] = blocks_of vcpu_id a"
    and "blocks_of vcpu_id (Suc a) ! snd (vcpu_id a) \<noteq> None"
proof -
  have lt: "snd (vcpu_id a) < HVM_MAX_VCPUS" and other: "\<forall>j < a. NT_SUCCESS (fst (vcpu_id j)) \<longrightarrow> snd (vcpu_id j) \<noteq> snd (vcpu_id a)"
    using assms unfolding vcpus_ok_def by blast+
  show "blocks_of vcpu_id (Suc a) ! snd (vcpu_id a) \<noteq> None"
    using lt assms(3) by (auto simp: blocks_of_nth less_Suc_eq)
  show "(blocks_of vcpu_id (Suc a))[snd (vcpu_id a) := None] = blocks_of vcpu_id a"
  proof (rule nth_equalityI)
    fix v assume "v < length ((blocks_of vcpu_id (Suc a))[snd (vcpu_id a) := None])"
    then have v: "v < HVM_MAX_VCPUS" by (simp add: blocks_of_nth(1))
    show "(blocks_of vcpu_id (Suc a))[snd (vcpu_id a) := None] ! v = blocks_of vcpu_id a ! v"
      using other v by (cases "snd (vcpu_id a) = v") (auto simp: blocks_of_nth less_Suc_eq)
  qed (simp add: blocks_of_nth(1))
qed

text \<open>What becomes of one processor: success, also for a processor without a VCPU number, or why it fails.\<close>

definition block_status :: "(nat \<Rightarrow> NTSTATUS \<times> nat) \<Rightarrow> (nat \<Rightarrow> bool) \<Rightarrow> (nat \<Rightarrow> NTSTATUS) \<Rightarrow> nat \<Rightarrow> NTSTATUS" where
  "block_status vcpu_id page init i =
     (if fst (vcpu_id i) = STATUS_NOT_SUPPORTED then STATUS_SUCCESS
      else if \<not> NT_SUCCESS (fst (vcpu_id i)) then fst (vcpu_id i)
      else if \<not> page i then STATUS_NO_MEMORY
      else if \<not> NT_SUCCESS (init i) then init i
      else STATUS_SUCCESS)"

abbreviation block_fails :: "(nat \<Rightarrow> NTSTATUS \<times> nat) \<Rightarrow> (nat \<Rightarrow> bool) \<Rightarrow> (nat \<Rightarrow> NTSTATUS) \<Rightarrow> nat \<Rightarrow> bool" where
  "block_fails vcpu_id page init i \<equiv> \<not> NT_SUCCESS (block_status vcpu_id page init i)"

lemma status_classes: "\<not> NT_SUCCESS STATUS_NOT_SUPPORTED" "\<not> NT_SUCCESS STATUS_NO_MEMORY" "NT_SUCCESS STATUS_SUCCESS"
  by (simp_all add: NT_SUCCESS_def)

lemma init_blocks_law:
  assumes "vcpus_ok vcpu_id n"
  shows "a \<le> n \<Longrightarrow> init_blocks vcpu_id page init [a ..< n] (blocks_of vcpu_id a) =
     Some (case find (block_fails vcpu_id page init) [a ..< n] of
         None \<Rightarrow> (blocks_of vcpu_id n, None)
       | Some k \<Rightarrow> (blocks_of vcpu_id k, Some (k, block_status vcpu_id page init k)))"
proof (induction "n - a" arbitrary: a)
  case 0
  then show ?case by simp
next
  case (Suc d)
  then have a: "a < n" "d = n - Suc a" "Suc a \<le> n" "[a ..< n] = a # [Suc a ..< n]" by (simp_all add: upt_conv_Cons)
  obtain st v where id: "vcpu_id a = (st, v)" by fastforce
  note IH = Suc.hyps(1) [OF a(2,3)]
  consider "st = STATUS_NOT_SUPPORTED" | "st \<noteq> STATUS_NOT_SUPPORTED" "\<not> NT_SUCCESS st \<or> \<not> page a \<or> \<not> NT_SUCCESS (init a)"
    | "st \<noteq> STATUS_NOT_SUPPORTED" "NT_SUCCESS st" "page a" "NT_SUCCESS (init a)" by blast
  then show ?case
  proof cases
    case 1
    then show ?thesis using IH blocks_of_skip [of vcpu_id a] id status_classes a(4) by (simp add: block_status_def)
  next
    case 2
    then show ?thesis using id status_classes a(4) by (auto simp: block_status_def)
  next
    case 3
    then have "v < HVM_MAX_VCPUS" using assms a(1) id by (auto simp: vcpus_ok_def)
    then show ?thesis using 3 IH blocks_of_set [of vcpu_id a] id status_classes a(4) by (simp add: block_status_def ASSERT_def)
  qed
qed

lemma free_blocks_law:
  assumes "vcpus_ok vcpu_id n"
  shows "k \<le> n \<Longrightarrow> \<forall>i < k. \<not> block_fails vcpu_id page init i \<Longrightarrow>
     free_blocks vcpu_id (rev [0 ..< k]) status (blocks_of vcpu_id k) = Some (if k = 0 then status else fst (vcpu_id 0), blocks_of vcpu_id 0)"
proof (induction k arbitrary: status)
  case (Suc k)
  obtain st v where id: "vcpu_id k = (st, v)" by fastforce
  have IH: "free_blocks vcpu_id (rev [0 ..< k]) st (blocks_of vcpu_id k) = Some (fst (vcpu_id 0), blocks_of vcpu_id 0)"
    using Suc id by (cases k) auto
  have rev: "rev [0 ..< Suc k] = k # rev [0 ..< k]" by simp
  have ok: "NT_SUCCESS st \<or> st = STATUS_NOT_SUPPORTED"
    using Suc.prems(2) [rule_format, of k] id by (auto simp: block_status_def split: if_splits)
  show ?case
  proof (cases "NT_SUCCESS st")
    case False
    then have "st = STATUS_NOT_SUPPORTED" "blocks_of vcpu_id (Suc k) = blocks_of vcpu_id k"
      using ok id blocks_of_skip [of vcpu_id k] by auto
    then show ?thesis using IH id unfolding rev by simp
  next
    case True
    then have "st \<noteq> STATUS_NOT_SUPPORTED" using status_classes by auto
    then show ?thesis using blocks_of_unset [OF assms, of k] True Suc.prems(1) IH id unfolding rev by (simp add: ASSERT_def)
  qed
qed simp

lemma find_upt_Some: "find P [0 ..< n] = Some k \<Longrightarrow> k < n \<and> P k \<and> (\<forall>i < k. \<not> P i)"
  by (auto simp: find_Some_iff)

lemma EvtchnFifoAcquire_law:
  assumes "vcpus_ok vcpu_id n" and "fifo_References c = 0" and "fifo_ControlBlock c = replicate HVM_MAX_VCPUS None"
    and "EvtchnReset reset = Some calls"
  shows "EvtchnFifoAcquire n vcpu_id page init reset c =
     Some (case find (block_fails vcpu_id page init) [0 ..< n] of
         None \<Rightarrow> (STATUS_SUCCESS, c\<lparr>fifo_References := 1, fifo_ControlBlock := blocks_of vcpu_id n\<rparr>)
       | Some k \<Rightarrow> (if k = 0 then block_status vcpu_id page init 0 else fst (vcpu_id 0), forget_array calls c))"
proof -
  have none: "fifo_ControlBlock c = blocks_of vcpu_id 0"
    using assms(3) by (simp add: blocks_of_def map_replicate_const)
  note run = init_blocks_law [OF assms(1), of 0 page init, folded none]
  show ?thesis
  proof (cases "find (block_fails vcpu_id page init) [0 ..< n]")
    case None
    then show ?thesis using run assms(2) by (simp add: EvtchnFifoAcquire_def Let_def)
  next
    case (Some k)
    from find_upt_Some [OF this] have k: "k \<le> n" "\<forall>i < k. \<not> block_fails vcpu_id page init i" by auto
    have "(forget_array calls (c\<lparr>fifo_References := 1\<rparr>))\<lparr>fifo_ControlBlock := fifo_ControlBlock c, fifo_References := 0\<rparr> = forget_array calls c"
      using assms(2) by (cases c) (simp add: forget_array_def)
    then show ?thesis using Some run assms(2,4) free_blocks_law [OF assms(1) k, of "block_status vcpu_id page init k", folded none]
      by (auto simp add: EvtchnFifoAcquire_def Let_def ASSERT_def forget_array_def)
  qed
qed

section \<open>Properties\<close>

text \<open>
  C39. The FIFO ABI implements the same abstract ports as the two-level one, for event words that the
  hypervisor does not hold busy: any sequence of acknowledging, masking and unmasking returns and
  acts on the two bits of every port.
\<close>

theorem EvtchnFifo_refines_ports:
  assumes "fifo_ok c" and "\<forall>op \<in> set ops. port_of op \<in> fifo_ports c"
  shows "\<exists>c'. provider_run EvtchnFifoPortAck EvtchnFifoPortMask (EvtchnFifoPortUnmask quiet) ops c =
       Some (fst (abstract_run ops (fifo_pending c, fifo_masked c)), c') \<and> fifo_ok c' \<and>
     (\<forall>q \<in> fifo_ports c.
        fifo_pending c' q = fst (snd (abstract_run ops (fifo_pending c, fifo_masked c))) q \<and>
        fifo_masked c' q = snd (snd (abstract_run ops (fifo_pending c, fifo_masked c))) q)"
  using fifo.run_refines [OF fifo.represents_self [OF assms(1)] assms(2)]
  by (auto simp: fifo.represents_def)

text \<open>
  Two ports queued for VCPU 0: port 3 with priority 0, the highest, and port 5 with priority 15;
  port 3 links port 4, which is masked.
\<close>

definition sample_fifo :: XENBUS_EVTCHN_FIFO_CONTEXT where
  "sample_fifo = \<lparr>fifo_References = 1,
     fifo_ControlBlock = [Some \<lparr>cb_ready = 0x8001, cb_head = (replicate 16 0)[0 := 3, 15 := 5]\<rparr>],
     fifo_EventPage = [(replicate 1024 0)[3 := 0xA0000004, 4 := 0xE0000000, 5 := 0xA0000000]],
     fifo_Head = [replicate 16 0], fifo_Registered = 1, fifo_Resets = []\<rparr>"

definition sample_queues :: "nat \<Rightarrow> nat list" where
  "sample_queues k = (if k = 0 then [3, 4] else if k = 15 then [5] else [])"

lemma sample_fifo_word: "word_of sample_fifo p =
    (if p = 3 then 0xA0000004 else if p = 4 then 0xE0000000 else if p = 5 then 0xA0000000 else 0)" if "p < 1024" for p
  using that by (simp add: word_of_def sample_fifo_def fifo_consts)

lemma sample_fifo_pages: "fifo_pages_ok sample_fifo" "p \<in> fifo_ports sample_fifo \<longleftrightarrow> p < 1024"
  by (simp_all add: fifo_pages_ok_def fifo_ports_def sample_fifo_def fifo_consts div_eq_0_iff)

lemma sample_fifo_ok: "fifo_ok sample_fifo"
proof -
  have "\<not> bit (0xA0000004 :: 32 word) 28" "\<not> bit (0xE0000000 :: 32 word) 28" "\<not> bit (0xA0000000 :: 32 word) 28"
    by code_simp+
  then show ?thesis by (simp add: fifo_ok_def sample_fifo_pages fifo_busy_def sample_fifo_word EVTCHN_FIFO_BUSY_def)
qed

lemma sample_fifo_wf: "fifo_wf sample_fifo 0"
  using sample_fifo_pages(1) by (simp add: fifo_wf_def sample_fifo_def)

lemma sample_fifo_due: "fifo_due sample_fifo 3" "fifo_due sample_fifo 5"
  by (simp_all add: fifo_due_def fifo_pending_def fifo_masked_def sample_fifo_word) code_simp+

lemma sample_queues_ok: "queues sample_fifo 0 0x8001 sample_queues"
proof -
  have bits: "bit (0x8001 :: 32 word) k \<longleftrightarrow> k = 0 \<or> k = 15" for k
  proof -
    have *: "(0x8001 :: 32 word) = 2 ^ 0 OR 2 ^ 15" by simp
    show ?thesis unfolding * bit_or_iff bit_exp_iff by auto
  qed
  have link: "fifo_link sample_fifo 3 = 4" "fifo_link sample_fifo 4 = 0" "fifo_link sample_fifo 5 = 0"
    by (simp_all add: fifo_link_def sample_fifo_word EVTCHN_FIFO_LINK_MASK_def mask_eq_exp_minus_1)
  have heads: "queue_head sample_fifo 0 0 = 3" "queue_head sample_fifo 0 15 = 5"
    by (simp_all add: queue_head_def sample_fifo_def)
  have zero: "fifo_Head sample_fifo ! 0 ! k = 0" if "k < 16" for k using that by (simp add: sample_fifo_def)
  have "\<forall>k. bit (0x8001 :: 32 word) k \<longleftrightarrow> k < 16 \<and> sample_queues k \<noteq> []"
    by (simp only: bits) (auto simp: sample_queues_def)
  moreover have "\<forall>k < 16. if sample_queues k = [] then fifo_Head sample_fifo ! 0 ! k = 0
      else fifo_chain sample_fifo (queue_head sample_fifo 0 k) (sample_queues k)"
    by (simp add: sample_queues_def link heads zero sample_fifo_pages(2))
  moreover have "\<forall>k < 16. distinct (sample_queues k)"
    "\<forall>j < 16. \<forall>k < 16. j \<noteq> k \<longrightarrow> set (sample_queues j) \<inter> set (sample_queues k) = {}"
    by (auto simp: sample_queues_def)
  ultimately show ?thesis unfolding queues_def by blast
qed

theorem EvtchnFifo_refines_ports_witness:
  "\<exists>c'. provider_run EvtchnFifoPortAck EvtchnFifoPortMask (EvtchnFifoPortUnmask quiet)
      [PortUnmask 4, PortAck 3, PortMask 5, PortUnmask 3] sample_fifo = Some ([Some True, None, None, Some False], c')"
proof -
  have "fifo_pending sample_fifo 4"
    by (simp add: fifo_pending_def sample_fifo_word EVTCHN_FIFO_PENDING_def)
  then show ?thesis
    using EvtchnFifo_refines_ports [OF sample_fifo_ok, of "[PortUnmask 4, PortAck 3, PortMask 5, PortUnmask 3]"]
    by (auto simp: sample_fifo_pages(2))
qed

lemma queues_take_ready:
  assumes "fifo_wf c v" and "queues c v (cb_ready (the (fifo_ControlBlock c ! v))) Q"
  shows "\<exists>c'. take_ready v c = Some (cb_ready (the (fifo_ControlBlock c ! v)), c') \<and> fifo_wf c' v \<and>
     queues c' v (cb_ready (the (fifo_ControlBlock c ! v))) Q \<and> cb_ready (the (fifo_ControlBlock c' ! v)) = 0 \<and>
     fifo_ports c' = fifo_ports c \<and> (\<forall>q. word_of c' q = word_of c q)"
proof -
  obtain cb where cb: "fifo_ControlBlock c ! v = Some cb" "v < length (fifo_ControlBlock c)"
    using assms(1) by (auto simp: fifo_wf_def)
  let ?c = "c\<lparr>fifo_ControlBlock := (fifo_ControlBlock c)[v := Some (cb\<lparr>cb_ready := 0\<rparr>)]\<rparr>"
  have words: "word_of ?c q = word_of c q" "fifo_ports ?c = fifo_ports c" for q
    by (simp_all add: word_of_def fifo_ports_def)
  then have links: "\<forall>q. fifo_link ?c q = fifo_link c q" by (simp add: fifo_link_def)
  have head: "queue_head ?c v k = queue_head c v k" for k using cb by (simp add: queue_head_def)
  have "fifo_chain ?c h ps = fifo_chain c h ps" for h ps
    using links words(2) chain_cong [of c h ps ?c] chain_cong [of ?c h ps c] by auto
  then have "queues ?c v (cb_ready cb) Q" using assms(2) cb by (simp add: queues_def head)
  moreover have "fifo_wf ?c v" using assms(1) by (simp add: fifo_wf_def fifo_pages_ok_def)
  moreover have "take_ready v c = Some (cb_ready cb, ?c)" using cb(1) by (simp add: take_ready_def)
  moreover have "cb_ready (the (fifo_ControlBlock ?c ! v)) = 0" using cb by simp
  ultimately show ?thesis using words cb(1) by (intro exI [of _ ?c]) simp
qed

text \<open>
  C37. A poll of a VCPU returns and drains the queues the hypervisor has built for it: it takes every
  queued port off its queue, calls the handler exactly once for those that are pending and not
  masked, and leaves every link cleared and every saved head 0, so that the heads of the next poll
  come from the control block. The queues are served from priority 15 to priority 0, each in order.
\<close>

theorem EvtchnFifoPoll_drains:
  assumes "fifo_local Event" and "vcpu_id Index = (st, v)" and "NT_SUCCESS st" and "fifo_wf c v"
    and "queues c v (cb_ready (the (fifo_ControlBlock c ! v))) Q"
  shows "\<exists>d c'. EvtchnFifoPoll vcpu_id Event Index (c, w) =
       Some (d, c', w @ filter (fifo_due c) (queue_order Q)) \<and> fifo_wf c' v \<and>
     (\<forall>k < 16. fifo_Head c' ! v ! k = 0) \<and> (\<forall>q \<in> set (queue_order Q). fifo_link c' q = 0) \<and>
     (\<forall>q. q \<notin> set (queue_order Q) \<longrightarrow> word_of c' q = word_of c q)"
proof -
  let ?R = "cb_ready (the (fifo_ControlBlock c ! v))"
  from queues_take_ready [OF assms(4,5)] obtain c1 where
    c1: "take_ready v c = Some (?R, c1)" "fifo_wf c1 v" "queues c1 v ?R Q"
      "cb_ready (the (fifo_ControlBlock c1 ! v)) = 0" "\<forall>q. word_of c1 q = word_of c q" by (elim exE conjE)
  have due: "fifo_due c1 = fifo_due c" using c1(5) by (intro ext fifo_due_cong) simp
  from fifo_poll_loop_law [OF assms(1) c1(2-4), of False w] obtain d c' where
    run: "fifo_poll_loop v Event ?R False (c1, w) = Some (d, c', w @ filter (fifo_due c1) (queue_order Q))" and
    c': "fifo_wf c' v" "\<forall>k < 16. fifo_Head c' ! v ! k = 0"
      "\<forall>q. q \<notin> set (queue_order Q) \<longrightarrow> word_of c' q = word_of c1 q"
      "\<forall>q \<in> set (queue_order Q). fifo_link c' q = 0" by (elim exE conjE)
  obtain cb where "fifo_ControlBlock c ! v = Some cb" using assms(4) by (auto simp: fifo_wf_def)
  then have "EvtchnFifoPoll vcpu_id Event Index (c, w) = Some (d, c', w @ filter (fifo_due c) (queue_order Q))"
    using assms(2,3) c1(1) run due by (simp add: EvtchnFifoPoll_def)
  then show ?thesis using c' c1(5) by (intro exI conjI) (assumption | simp)+
qed

text \<open>A handler that acknowledges its port.\<close>

definition fifo_ack_event :: "nat list fifo_event" where
  "fifo_ack_event Port s = do { c' \<leftarrow> EvtchnFifoPortAck (fst s) Port; Some (True, c', snd s @ [Port]) }"

lemma fifo_ack_event_local: "fifo_local fifo_ack_event"
  unfolding fifo_local_def
proof (intro allI impI)
  fix p c and w :: "nat list"
  assume p: "p \<in> fifo_ports c" "fifo_pages_ok c"
  let ?c = "put_word p (EvtchnFifoClearFlag (word_of c p) EVTCHN_FIFO_PENDING) c"
  have "fifo_link ?c q = fifo_link c q" for q
  proof (cases "q = p")
    case True
    have "EvtchnFifoClearFlag (word_of c p) EVTCHN_FIFO_PENDING AND EVTCHN_FIFO_LINK_MASK =
        word_of c p AND EVTCHN_FIFO_LINK_MASK"
      by (intro bit_word_eqI) (auto simp: EVTCHN_FIFO_LINK_MASK_def EVTCHN_FIFO_PENDING_def bit_and_iff bit_mask_iff)
    then show ?thesis using True p by (simp add: fifo_link_def word_of_put)
  qed (use p in \<open>simp add: fifo_link_def word_of_put\<close>)
  then show "\<exists>r c'. fifo_ack_event p (c, w) = Some (r, c', w @ [p]) \<and> fifo_pages_ok c' \<and> fifo_ports c' = fifo_ports c \<and>
        fifo_ControlBlock c' = fifo_ControlBlock c \<and> fifo_Head c' = fifo_Head c \<and>
        (\<forall>q. fifo_link c' q = fifo_link c q) \<and> (\<forall>q. q \<noteq> p \<longrightarrow> word_of c' q = word_of c q)"
    using p by (intro exI [of _ True] exI [of _ ?c])
      (simp add: fifo_ack_event_def EvtchnFifoPortAck_port word_of_put)
qed

theorem EvtchnFifoPoll_drains_witness:
  "\<exists>d c'. EvtchnFifoPoll (\<lambda>i. (STATUS_SUCCESS, i)) fifo_ack_event 0 (sample_fifo, []) =
       Some (d, c', filter (fifo_due sample_fifo) [5, 3, 4]) \<and> fifo_link c' 3 = 0"
proof -
  have ready: "cb_ready (the (fifo_ControlBlock sample_fifo ! 0)) = 0x8001" by (simp add: sample_fifo_def)
  have order: "queue_order sample_queues = [5, 3, 4]"
    by (simp add: queue_order_def sample_queues_def upt_rec [of _ 16] upt_rec)
  have "NT_SUCCESS STATUS_SUCCESS" by (simp add: NT_SUCCESS_def)
  moreover have "queues sample_fifo 0 (cb_ready (the (fifo_ControlBlock sample_fifo ! 0))) sample_queues"
    unfolding ready by (rule sample_queues_ok)
  ultimately show ?thesis
    using EvtchnFifoPoll_drains [of fifo_ack_event "\<lambda>i. (STATUS_SUCCESS, i)" 0 STATUS_SUCCESS 0 sample_fifo
        sample_queues "[]"] fifo_ack_event_local sample_fifo_wf order by auto
qed

text \<open>
  The poll serves the queues in the wrong order: Xen's priority 0 is the highest
  (\<^verbatim>\<open>EVTCHN_FIFO_PRIORITY_MAX\<close>) and 15 the lowest, but the scan for the highest bit of \<^verbatim>\<open>Ready\<close> takes
  every event of a lower priority before any event of a higher one.
\<close>

theorem EvtchnFifoPoll_lowest_priority_first:
  assumes "fifo_local Event" and "vcpu_id Index = (st, v)" and "NT_SUCCESS st" and "fifo_wf c v"
    and "queues c v (cb_ready (the (fifo_ControlBlock c ! v))) Q" and "i < j" and "j < 16"
  shows "\<exists>d c' before_i after_j. EvtchnFifoPoll vcpu_id Event Index (c, []) = Some (d, c', before_i @ after_j) \<and>
     (\<forall>q \<in> set (Q j). fifo_due c q \<longrightarrow> q \<in> set before_i) \<and> set (Q i) \<inter> set before_i = {}"
proof -
  let ?R = "cb_ready (the (fifo_ControlBlock c ! v))"
  from queues_take_ready [OF assms(4,5)] obtain c1 where
    c1: "take_ready v c = Some (?R, c1)" "fifo_wf c1 v" "queues c1 v ?R Q"
      "cb_ready (the (fifo_ControlBlock c1 ! v)) = 0" "\<forall>q. word_of c1 q = word_of c q" by (elim exE conjE)
  have due: "fifo_due c1 = fifo_due c" using c1(5) by (intro ext fifo_due_cong) simp
  from fifo_poll_loop_law [OF assms(1) c1(2-4), of False "[]"] obtain d c' where
    run: "fifo_poll_loop v Event ?R False (c1, []) = Some (d, c', [] @ filter (fifo_due c1) (queue_order Q))"
    by (elim exE conjE)
  obtain cb where "fifo_ControlBlock c ! v = Some cb" using assms(4) by (auto simp: fifo_wf_def)
  then have poll: "EvtchnFifoPoll vcpu_id Event Index (c, []) = Some (d, c', filter (fifo_due c) (queue_order Q))"
    using assms(2,3) c1(1) run due by (simp add: EvtchnFifoPoll_def)
  have "[0 ..< 16] = [0 ..< j] @ [j ..< 16]" using upt_add_eq_append [of 0 j "16 - j"] assms(7) by simp
  then have order: "queue_order Q = concat (map Q (rev [j ..< 16])) @ concat (map Q (rev [0 ..< j]))"
    by (simp add: queue_order_def)
  have "set (Q i) \<inter> set (Q k) = {}" if "j \<le> k" "k < 16" for k
  proof -
    have "i < 16" "i \<noteq> k" using assms(6,7) that by simp_all
    with assms(5) that(2) show ?thesis unfolding queues_def by blast
  qed
  then have "set (Q i) \<inter> set (concat (map Q (rev [j ..< 16]))) = {}" by fastforce
  then show ?thesis using poll assms(7) unfolding order filter_append
    by (intro exI conjI) (assumption | auto)+
qed

theorem EvtchnFifoPoll_lowest_priority_first_witness:
  "\<exists>d c' before_0 after_15. EvtchnFifoPoll (\<lambda>i. (STATUS_SUCCESS, i)) fifo_ack_event 0 (sample_fifo, []) =
       Some (d, c', before_0 @ after_15) \<and> 5 \<in> set before_0 \<and> 3 \<notin> set before_0"
proof -
  have ready: "cb_ready (the (fifo_ControlBlock sample_fifo ! 0)) = 0x8001" by (simp add: sample_fifo_def)
  have "queues sample_fifo 0 (cb_ready (the (fifo_ControlBlock sample_fifo ! 0))) sample_queues"
    unfolding ready by (rule sample_queues_ok)
  moreover have "NT_SUCCESS STATUS_SUCCESS" "sample_queues 15 = [5]" "sample_queues 0 = [3, 4]"
    by (simp_all add: NT_SUCCESS_def sample_queues_def)
  ultimately show ?thesis
    using EvtchnFifoPoll_lowest_priority_first [of fifo_ack_event "\<lambda>i. (STATUS_SUCCESS, i)" 0 STATUS_SUCCESS 0
        sample_fifo sample_queues 0 15] fifo_ack_event_local sample_fifo_wf sample_fifo_due by fastforce
qed

text \<open>
  Enabling a port returns. On success the port has an event word, the words there were before
  are unchanged, and every port that was added is masked and not pending; on failure the event
  array is the one there was.
\<close>

theorem EvtchnFifoPortEnable_correct:
  assumes "fifo_pages_ok c"
  shows "\<exists>st c'. EvtchnFifoPortEnable mem page reg c p = Some (st, c') \<and> fifo_pages_ok c' \<and>
     (if NT_SUCCESS st then p \<in> fifo_ports c' \<and> fifo_ports c \<subseteq> fifo_ports c' \<and>
        (\<forall>q \<in> fifo_ports c. word_of c' q = word_of c q) \<and>
        (\<forall>q \<in> fifo_ports c' - fifo_ports c. fifo_masked c' q \<and> \<not> fifo_pending c' q)
      else fifo_EventPage c' = fifo_EventPage c)"
proof -
  from EvtchnFifoPortEnable_law [OF assms, of mem page reg p] obtain st c' where
    r: "EvtchnFifoPortEnable mem page reg c p = Some (st, c')" "fifo_pages_ok c'" and
    law: "if NT_SUCCESS st then p \<in> fifo_ports c' \<and> fifo_ports c \<subseteq> fifo_ports c' \<and>
        (\<forall>q \<in> fifo_ports c. word_of c' q = word_of c q) \<and>
        (\<forall>q \<in> fifo_ports c' - fifo_ports c. word_of c' q = EvtchnFifoSetFlag 0 EVTCHN_FIFO_MASKED)
      else fifo_EventPage c' = fifo_EventPage c" by (elim exE conjE)
  have "bit (EvtchnFifoSetFlag 0 EVTCHN_FIFO_MASKED) EVTCHN_FIFO_MASKED"
    "\<not> bit (EvtchnFifoSetFlag 0 EVTCHN_FIFO_MASKED) EVTCHN_FIFO_PENDING"
    by (simp_all add: EVTCHN_FIFO_MASKED_def EVTCHN_FIFO_PENDING_def)
  then have "if NT_SUCCESS st then p \<in> fifo_ports c' \<and> fifo_ports c \<subseteq> fifo_ports c' \<and>
        (\<forall>q \<in> fifo_ports c. word_of c' q = word_of c q) \<and>
        (\<forall>q \<in> fifo_ports c' - fifo_ports c. fifo_masked c' q \<and> \<not> fifo_pending c' q)
      else fifo_EventPage c' = fifo_EventPage c" using law by (simp add: fifo_masked_def fifo_pending_def)
  with r show ?thesis by (intro exI conjI)
qed

theorem EvtchnFifoPortEnable_correct_witness:
  "\<exists>c'. EvtchnFifoPortEnable True (\<lambda>_. True) (\<lambda>_. STATUS_SUCCESS) sample_fifo 2100 = Some (STATUS_SUCCESS, c') \<and>
     2100 \<in> fifo_ports c' \<and> fifo_masked c' 2100"
proof -
  have "fst (the (EvtchnFifoPortEnable True (\<lambda>_. True) (\<lambda>_. STATUS_SUCCESS) sample_fifo 2100)) = STATUS_SUCCESS"
    by (simp add: EvtchnFifoPortEnable_def EvtchnFifoExpand_def sample_fifo_def fifo_consts ASSERT_def Let_def
        upt_rec NT_SUCCESS_def)
  then show ?thesis
    using EvtchnFifoPortEnable_correct [OF sample_fifo_pages(1), of True "\<lambda>_. True" "\<lambda>_. STATUS_SUCCESS" 2100]
    by (auto simp: sample_fifo_pages(2) NT_SUCCESS_def)
qed

text \<open>
  When a port needs two more pages and the second one cannot be had, the first is freed although
  the hypervisor has been given it: the hypervisor's event array then ends in a page the driver no
  longer owns.
\<close>

theorem EvtchnFifoExpand_failure_leaves_freed_page:
  "\<exists>c'. EvtchnFifoExpand True (\<lambda>i. i < 2) (\<lambda>_. STATUS_SUCCESS) sample_fifo 2100 = Some (STATUS_NO_MEMORY, c') \<and>
     EventPageCount c' = 1 \<and> fifo_Registered c' = 2"
  by (simp add: EvtchnFifoExpand_def sample_fifo_def fifo_consts ASSERT_def Let_def upt_rec NT_SUCCESS_def)

text \<open>
  Acquiring the FIFO ABI, when every processor has a VCPU number of its own and the reset does not stop: if
  no processor fails there is a reference and a control block for exactly the processors with a VCPU number.
  If some processor fails, the hypervisor has been reset, there is no reference and every block is freed; but
  the failure is returned only when it is that of the first processor. Otherwise the loop that frees
  the blocks has overwritten it, and the caller is told what \<^verbatim>\<open>SystemProcessorVcpuId\<close> says of the
  first processor: success, unless that one has no number.
\<close>

theorem EvtchnFifoAcquire_failure_status:
  assumes "vcpus_ok vcpu_id n" and "fifo_References c = 0" and "fifo_ControlBlock c = replicate HVM_MAX_VCPUS None"
    and "EvtchnReset reset = Some calls"
  shows "\<exists>st c'. EvtchnFifoAcquire n vcpu_id page init reset c = Some (st, c') \<and>
     (case find (block_fails vcpu_id page init) [0 ..< n] of
        None \<Rightarrow> st = STATUS_SUCCESS \<and> fifo_References c' = 1 \<and> fifo_Resets c' = fifo_Resets c \<and>
          {v. v < 128 \<and> fifo_ControlBlock c' ! v \<noteq> None} = {v. \<exists>i < n. NT_SUCCESS (fst (vcpu_id i)) \<and> snd (vcpu_id i) = v}
      | Some k \<Rightarrow> st = (if k = 0 then block_status vcpu_id page init 0 else fst (vcpu_id 0)) \<and>
          c' = c\<lparr>fifo_Registered := 0, fifo_Resets := fifo_Resets c @ calls\<rparr>)"
proof (cases "find (block_fails vcpu_id page init) [0 ..< n]")
  case None
  have "{v. v < 128 \<and> blocks_of vcpu_id n ! v \<noteq> None} = {v. \<exists>i < n. NT_SUCCESS (fst (vcpu_id i)) \<and> snd (vcpu_id i) = v}"
    using assms(1) by (auto simp: blocks_of_nth vcpus_ok_def fifo_consts split: if_splits)
  then show ?thesis using EvtchnFifoAcquire_law [OF assms, of page init] None by (simp add: split_def)
next
  case (Some k)
  then show ?thesis using EvtchnFifoAcquire_law [OF assms, of page init] by (simp add: forget_array_def)
qed

definition sample_reset :: reset_env where
  "sample_reset = \<lparr>re_store = (STATUS_SUCCESS, 1), re_console = (STATUS_UNSUCCESSFUL, 0), re_query = (\<lambda>p. (STATUS_SUCCESS, 0, 7)),
     re_bind = (\<lambda>d p. (STATUS_SUCCESS, 3)), re_set = (\<lambda>_. STATUS_SUCCESS)\<rparr>"

theorem EvtchnFifoAcquire_failure_status_witness:
  "\<exists>c'. EvtchnFifoAcquire 2 (\<lambda>i. (STATUS_SUCCESS, i)) (\<lambda>i. i < 1) (\<lambda>_. STATUS_SUCCESS) sample_reset
     (sample_fifo\<lparr>fifo_References := 0, fifo_ControlBlock := replicate HVM_MAX_VCPUS None\<rparr>) = Some (STATUS_SUCCESS, c') \<and>
     fifo_References c' = 0 \<and> fifo_Resets c' = [EventChannelReset, EventChannelBindInterDomain 0 7, SetStoreEvtchn 3]"
proof -
  have ok: "vcpus_ok (\<lambda>i. (STATUS_SUCCESS, i)) 2" by (simp add: vcpus_ok_def fifo_consts)
  let ?c = "sample_fifo\<lparr>fifo_References := 0, fifo_ControlBlock := replicate HVM_MAX_VCPUS None\<rparr>"
  have reset: "EvtchnReset sample_reset = Some [EventChannelReset, EventChannelBindInterDomain 0 7, SetStoreEvtchn 3]"
    by (simp add: EvtchnReset_def sample_reset_def reset_port_def reset_query_def reset_bind_def NT_SUCCESS_def ASSERT_def Let_def)
  have fails: "find (block_fails (\<lambda>i. (STATUS_SUCCESS, i)) (\<lambda>i. i < 1) (\<lambda>_. STATUS_SUCCESS)) [0 ..< 2] = Some 1"
    by (simp add: upt_rec block_status_def NT_SUCCESS_def)
  have "fifo_Resets ?c = []" by (simp add: sample_fifo_def)
  then show ?thesis using EvtchnFifoAcquire_failure_status [OF ok _ _ reset, of ?c "\<lambda>i. i < 1" "\<lambda>_. STATUS_SUCCESS"] fails by auto
qed

end
