(* ===== verification/Evtchn.thy ===== *)
theory Evtchn
  imports Hash_Table Evtchn_2L Evtchn_Fifo
begin

text \<open>
  The event channels of src/src/xenbus/evtchn.c: opening, closing, triggering, binding, unmasking and
  sending on a channel, the interrupt callback and the DPC that poll the pending channels of a
  processor, and waiting for events. It runs on one of the two ABIs (Evtchn\_2L, Evtchn\_Fifo), which it
  calls through a table of functions, and finds the channel of a port in the hash table of Hash\_Table.

  \<^item> A channel is known by its address, a ULONG\_PTR, as the hash table stores it; \<open>ev_Channel\<close> is the
    pool. Reading a channel that has been freed is a bug check (its \<^verbatim>\<open>Magic\<close> is gone). \<^verbatim>\<open>Caller\<close> is for
    debugging only and the spin lock of a channel carries no state; neither has a field. A
    \<^verbatim>\<open>PendingListEntry\<close> is \<^const>\<open>True\<close> when it is not zero.
  \<^item> Every routine is one step: the locks it takes make it so, where it takes them. What the
    hypervisor writes to the shared pages between two steps is an argument.
  \<^item> The callback of a channel is its client's code. It is called with its argument, which is logged in
    \<open>ev_Services\<close>, and does not call back into this component (those of store.c, console.c and fdo.c
    queue a DPC); what it answers is the argument \<open>service\<close>.
\<close>

section \<open>State\<close>

text \<open>\<^verbatim>\<open>XENBUS_EVTCHN_TYPE\<close> with \<^verbatim>\<open>XENBUS_EVTCHN_PARAMETERS\<close>: the union by the type that selects it.\<close>

datatype XENBUS_EVTCHN_TYPE = TYPE_INVALID | TYPE_FIXED | TYPE_UNBOUND | TYPE_INTER_DOMAIN | TYPE_VIRQ

datatype XENBUS_EVTCHN_PARAMETERS =
    NoParameters
  | Unbound (RemoteDomain: nat)
  | InterDomain (RemoteDomain: nat) (RemotePort: nat)
  | Virq (Index: nat)

record XENBUS_EVTCHN_CHANNEL =
  ch_PendingListEntry :: bool
  ch_Pending :: bool
  ch_Callback :: ULONG_PTR
  ch_Argument :: ULONG_PTR
  ch_Active :: bool
  ch_Count :: "32 word"
  ch_Type :: XENBUS_EVTCHN_TYPE
  ch_Parameters :: XENBUS_EVTCHN_PARAMETERS
  ch_Mask :: bool
  ch_LocalPort :: nat
  ch_Cpu :: nat
  ch_Closed :: bool

definition zero_CHANNEL :: XENBUS_EVTCHN_CHANNEL where
  "zero_CHANNEL = \<lparr>ch_PendingListEntry = False, ch_Pending = False, ch_Callback = 0, ch_Argument = 0, ch_Active = False,
     ch_Count = 0, ch_Type = TYPE_INVALID, ch_Parameters = NoParameters, ch_Mask = False, ch_LocalPort = 0, ch_Cpu = 0,
     ch_Closed = False\<rparr>"

text \<open>
  A processor: whether it has been initialised (a zeroed one has no list head), its interrupt by its
  vector, its pending list, and whether its DPC is queued.
\<close>

record XENBUS_EVTCHN_PROCESSOR =
  pr_Context :: bool
  pr_Interrupt :: "nat option"
  pr_PendingList :: "ULONG_PTR list"
  pr_Dpc :: bool
  pr_UpcallEnabled :: bool

definition zero_EVTCHN_PROCESSOR :: XENBUS_EVTCHN_PROCESSOR where
  "zero_EVTCHN_PROCESSOR = \<lparr>pr_Context = False, pr_Interrupt = None, pr_PendingList = [], pr_Dpc = False, pr_UpcallEnabled = False\<rparr>"

text \<open>The function table of the context: zeroed, or that of one of the two ABIs.\<close>

datatype XENBUS_EVTCHN_ABI = FIFO | TWO_LEVEL

text \<open>The hypercalls of this component that change something.\<close>

datatype hypercall =
    EventChannelClose nat
  | EventChannelUnmask nat
  | EventChannelSend nat
  | EventChannelBindVirtualCpu nat nat
  | HvmSetEvtchnUpcallVector nat nat
  | HvmSetCallbackIrq nat

text \<open>
  The context. \<open>ev_Processor\<close> is the array, with \<^verbatim>\<open>ProcessorCount\<close> entries, empty when there is none. The
  shared info context its interface points to is the one of the two-level context.
\<close>

record XENBUS_EVTCHN_CONTEXT =
  ev_References :: int
  ev_Interrupt :: "nat option"
  ev_Processor :: "XENBUS_EVTCHN_PROCESSOR list"
  ev_Suspend :: bool
  ev_SuspendCallbackEarly :: bool
  ev_SuspendCallbackLate :: bool
  ev_Debug :: bool
  ev_DebugCallback :: bool
  ev_TwoLevel :: XENBUS_EVTCHN_TWO_LEVEL_CONTEXT
  ev_Fifo :: XENBUS_EVTCHN_FIFO_CONTEXT
  ev_Abi :: "XENBUS_EVTCHN_ABI option"
  ev_UseEvtchnFifoAbi :: bool
  ev_UseEvtchnUpcall :: bool
  ev_Table :: XENBUS_HASH_TABLE
  ev_List :: "ULONG_PTR list"
  ev_Channel :: "ULONG_PTR \<rightharpoonup> XENBUS_EVTCHN_CHANNEL"
  ev_Calls :: "hypercall list"
  ev_Services :: "(ULONG_PTR \<times> ULONG_PTR) list"

text \<open>
  What the calls of one operation answer: the pool, \<^verbatim>\<open>KeGetProcessorIndexFromNumber\<close>, the VCPU number of
  a processor, the hypercalls that make a port and bind one, and what enabling a port of the FIFO ABI
  needs (the memory, the pages and their registration); \<open>ee_node\<close> is the memory of a hash table node and
  \<open>ee_rounds\<close> what the compare-exchange loop of unmasking sees.
\<close>

record evtchn_env =
  ee_alloc :: "ULONG_PTR option"
  ee_cpu :: "nat \<Rightarrow> nat \<Rightarrow> nat"
  ee_vcpu :: "nat \<Rightarrow> NTSTATUS \<times> nat"
  ee_unbound :: "nat \<Rightarrow> NTSTATUS \<times> nat"
  ee_interdomain :: "nat \<Rightarrow> nat \<Rightarrow> NTSTATUS \<times> nat"
  ee_virq :: "nat \<Rightarrow> nat \<Rightarrow> NTSTATUS \<times> nat"
  ee_bind :: "nat \<Rightarrow> nat \<Rightarrow> NTSTATUS"
  ee_mem :: bool
  ee_page :: "nat \<Rightarrow> bool"
  ee_reg :: "nat \<Rightarrow> NTSTATUS"
  ee_node :: bool
  ee_rounds :: "32 word \<Rightarrow> (32 word \<times> 32 word) list"

definition put_channel :: "ULONG_PTR \<Rightarrow> XENBUS_EVTCHN_CHANNEL \<Rightarrow> XENBUS_EVTCHN_CONTEXT \<Rightarrow> XENBUS_EVTCHN_CONTEXT" where
  "put_channel p ch ctx = ctx\<lparr>ev_Channel := (ev_Channel ctx)(p \<mapsto> ch)\<rparr>"

definition put_processor :: "nat \<Rightarrow> XENBUS_EVTCHN_PROCESSOR \<Rightarrow> XENBUS_EVTCHN_CONTEXT \<Rightarrow> XENBUS_EVTCHN_CONTEXT" where
  "put_processor Cpu P ctx = ctx\<lparr>ev_Processor := (ev_Processor ctx)[Cpu := P]\<rparr>"

definition hypercall :: "hypercall \<Rightarrow> XENBUS_EVTCHN_CONTEXT \<Rightarrow> XENBUS_EVTCHN_CONTEXT" where
  "hypercall h ctx = ctx\<lparr>ev_Calls := ev_Calls ctx @ [h]\<rparr>"

section \<open>The ABI\<close>

text \<open>Calls through the function table; through a zeroed one they stop the machine.\<close>

definition abi_PortEnable :: "evtchn_env \<Rightarrow> XENBUS_EVTCHN_CONTEXT \<Rightarrow> nat \<Rightarrow> (NTSTATUS \<times> XENBUS_EVTCHN_CONTEXT) kernel" where
  "abi_PortEnable env ctx Port =
     (case ev_Abi ctx of
        None \<Rightarrow> None
      | Some FIFO \<Rightarrow> do {
          (status, f) \<leftarrow> EvtchnFifoPortEnable (ee_mem env) (ee_page env) (ee_reg env) (ev_Fifo ctx) Port;
          Some (status, ctx\<lparr>ev_Fifo := f\<rparr>) }
      | Some TWO_LEVEL \<Rightarrow>
          (case EvtchnTwoLevelPortEnable (ev_TwoLevel ctx) Port of (status, t) \<Rightarrow> Some (status, ctx\<lparr>ev_TwoLevel := t\<rparr>)))"

definition abi_op ::
  "(XENBUS_EVTCHN_FIFO_CONTEXT \<Rightarrow> nat \<Rightarrow> XENBUS_EVTCHN_FIFO_CONTEXT kernel) \<Rightarrow>
   (XENBUS_EVTCHN_TWO_LEVEL_CONTEXT \<Rightarrow> nat \<Rightarrow> XENBUS_EVTCHN_TWO_LEVEL_CONTEXT kernel) \<Rightarrow>
     XENBUS_EVTCHN_CONTEXT \<Rightarrow> nat \<Rightarrow> XENBUS_EVTCHN_CONTEXT kernel" where
  "abi_op fifo_op two_level_op ctx Port =
     (case ev_Abi ctx of
        None \<Rightarrow> None
      | Some FIFO \<Rightarrow> do { f \<leftarrow> fifo_op (ev_Fifo ctx) Port; Some (ctx\<lparr>ev_Fifo := f\<rparr>) }
      | Some TWO_LEVEL \<Rightarrow> do { t \<leftarrow> two_level_op (ev_TwoLevel ctx) Port; Some (ctx\<lparr>ev_TwoLevel := t\<rparr>) })"

definition abi_PortDisable :: "XENBUS_EVTCHN_CONTEXT \<Rightarrow> nat \<Rightarrow> XENBUS_EVTCHN_CONTEXT kernel" where
  "abi_PortDisable = abi_op EvtchnFifoPortDisable EvtchnTwoLevelPortDisable"

definition abi_PortAck :: "XENBUS_EVTCHN_CONTEXT \<Rightarrow> nat \<Rightarrow> XENBUS_EVTCHN_CONTEXT kernel" where
  "abi_PortAck = abi_op EvtchnFifoPortAck EvtchnTwoLevelPortAck"

definition abi_PortMask :: "XENBUS_EVTCHN_CONTEXT \<Rightarrow> nat \<Rightarrow> XENBUS_EVTCHN_CONTEXT kernel" where
  "abi_PortMask = abi_op EvtchnFifoPortMask EvtchnTwoLevelPortMask"

definition abi_PortUnmask ::
  "(32 word \<Rightarrow> (32 word \<times> 32 word) list) \<Rightarrow> XENBUS_EVTCHN_CONTEXT \<Rightarrow> nat \<Rightarrow> (bool \<times> XENBUS_EVTCHN_CONTEXT) kernel" where
  "abi_PortUnmask rounds ctx Port =
     (case ev_Abi ctx of
        None \<Rightarrow> None
      | Some FIFO \<Rightarrow> do { (r, f) \<leftarrow> EvtchnFifoPortUnmask rounds (ev_Fifo ctx) Port; Some (r, ctx\<lparr>ev_Fifo := f\<rparr>) }
      | Some TWO_LEVEL \<Rightarrow> do { (r, t) \<leftarrow> EvtchnTwoLevelPortUnmask (ev_TwoLevel ctx) Port; Some (r, ctx\<lparr>ev_TwoLevel := t\<rparr>) })"

definition abi_IsProcessorEnabled :: "(nat \<Rightarrow> NTSTATUS \<times> nat) \<Rightarrow> XENBUS_EVTCHN_CONTEXT \<Rightarrow> nat \<Rightarrow> bool kernel" where
  "abi_IsProcessorEnabled vcpu_id ctx Cpu =
     (case ev_Abi ctx of
        None \<Rightarrow> None
      | Some FIFO \<Rightarrow> Some (EvtchnFifoIsProcessorEnabled vcpu_id (ev_Fifo ctx) Cpu)
      | Some TWO_LEVEL \<Rightarrow> Some (EvtchnTwoLevelIsProcessorEnabled vcpu_id Cpu))"

text \<open>A poll calls the event handler on the context; it keeps the part of it that the ABI owns to itself.\<close>

definition abi_Poll ::
  "(nat \<Rightarrow> NTSTATUS \<times> nat) \<Rightarrow> (nat \<Rightarrow> XENBUS_EVTCHN_CONTEXT \<Rightarrow> (bool \<times> XENBUS_EVTCHN_CONTEXT) kernel) \<Rightarrow>
     XENBUS_EVTCHN_CONTEXT \<Rightarrow> nat \<Rightarrow> (bool \<times> XENBUS_EVTCHN_CONTEXT) kernel" where
  "abi_Poll vcpu_id Event ctx Cpu =
     (case ev_Abi ctx of
        None \<Rightarrow> None
      | Some FIFO \<Rightarrow> do {
          (d, f, c) \<leftarrow> EvtchnFifoPoll vcpu_id (\<lambda>Port (f, c). do { (d, c') \<leftarrow> Event Port c; Some (d, f, c') }) Cpu (ev_Fifo ctx, ctx);
          Some (d, c\<lparr>ev_Fifo := f\<rparr>) }
      | Some TWO_LEVEL \<Rightarrow> do {
          (d, t, c) \<leftarrow> EvtchnTwoLevelPoll (\<lambda>Port (s, c). do { (d, c') \<leftarrow> Event Port c; Some (d, s, c') }) Cpu (ev_TwoLevel ctx) ctx;
          Some (d, c\<lparr>ev_TwoLevel := t\<rparr>) })"

section \<open>Opening a channel\<close>

text \<open>The type of a channel to open with the variable arguments that go with it.\<close>

datatype open_args =
    OpenFixed nat bool
  | OpenUnbound nat bool
  | OpenInterDomain nat nat bool
  | OpenVirq nat nat nat
  | OpenInvalid

fun type_of :: "open_args \<Rightarrow> XENBUS_EVTCHN_TYPE" where
  "type_of (OpenFixed LocalPort Mask) = TYPE_FIXED"
| "type_of (OpenUnbound Dom Mask) = TYPE_UNBOUND"
| "type_of (OpenInterDomain Dom Port Mask) = TYPE_INTER_DOMAIN"
| "type_of (OpenVirq i Group Number) = TYPE_VIRQ"
| "type_of OpenInvalid = TYPE_INVALID"

definition EvtchnOpenFixed :: "XENBUS_EVTCHN_CHANNEL \<Rightarrow> nat \<Rightarrow> bool \<Rightarrow> NTSTATUS \<times> XENBUS_EVTCHN_CHANNEL" where
  "EvtchnOpenFixed ch LocalPort Mask = (STATUS_SUCCESS, ch\<lparr>ch_Mask := Mask, ch_LocalPort := LocalPort\<rparr>)"

definition EvtchnOpenUnbound :: "evtchn_env \<Rightarrow> XENBUS_EVTCHN_CHANNEL \<Rightarrow> nat \<Rightarrow> bool \<Rightarrow> NTSTATUS \<times> XENBUS_EVTCHN_CHANNEL" where
  "EvtchnOpenUnbound env ch Dom Mask =
     (case ee_unbound env Dom of (status, LocalPort) \<Rightarrow>
        if \<not> NT_SUCCESS status then (status, ch)
        else (STATUS_SUCCESS, ch\<lparr>ch_Parameters := Unbound Dom, ch_Mask := Mask, ch_LocalPort := LocalPort\<rparr>))"

definition EvtchnOpenInterDomain ::
  "evtchn_env \<Rightarrow> XENBUS_EVTCHN_CHANNEL \<Rightarrow> nat \<Rightarrow> nat \<Rightarrow> bool \<Rightarrow> NTSTATUS \<times> XENBUS_EVTCHN_CHANNEL" where
  "EvtchnOpenInterDomain env ch Dom Port Mask =
     (case ee_interdomain env Dom Port of (status, LocalPort) \<Rightarrow>
        if \<not> NT_SUCCESS status then (status, ch)
        else (STATUS_SUCCESS, ch\<lparr>ch_Parameters := InterDomain Dom Port, ch_Mask := Mask, ch_LocalPort := LocalPort\<rparr>))"

text \<open>Before version 9 of the interface (\<open>Count = 1\<close>) a VIRQ is bound on processor 0 of group 0.\<close>

definition EvtchnOpenVirq ::
  "evtchn_env \<Rightarrow> XENBUS_EVTCHN_CONTEXT \<Rightarrow> XENBUS_EVTCHN_CHANNEL \<Rightarrow> nat \<Rightarrow> nat \<Rightarrow> nat \<Rightarrow> nat \<Rightarrow>
     (NTSTATUS \<times> XENBUS_EVTCHN_CHANNEL) kernel" where
  "EvtchnOpenVirq env ctx ch Count i Group Number =
     (let Cpu = (if Count = 1 then ee_cpu env 0 0 else ee_cpu env Group Number) in
      do {
        ASSERT (Cpu < length (ev_Processor ctx));
        (if \<not> pr_UpcallEnabled (ev_Processor ctx ! Cpu) \<and> Cpu \<noteq> 0 then Some (STATUS_NOT_SUPPORTED, ch)
         else case ee_vcpu env Cpu of (status, vcpu_id) \<Rightarrow>
           if \<not> NT_SUCCESS status then Some (status, ch)
           else case ee_virq env i vcpu_id of (status, LocalPort) \<Rightarrow>
             if \<not> NT_SUCCESS status then Some (status, ch)
             else Some (STATUS_SUCCESS, ch\<lparr>ch_Parameters := Virq i, ch_LocalPort := LocalPort\<rparr>))
      })"

definition evtchn_open_type ::
  "evtchn_env \<Rightarrow> nat \<Rightarrow> XENBUS_EVTCHN_CONTEXT \<Rightarrow> open_args \<Rightarrow> XENBUS_EVTCHN_CHANNEL \<Rightarrow> (NTSTATUS \<times> XENBUS_EVTCHN_CHANNEL) kernel" where
  "evtchn_open_type env Version ctx args ch =
     (case args of
        OpenFixed LocalPort Mask \<Rightarrow> Some (EvtchnOpenFixed ch LocalPort Mask)
      | OpenUnbound Dom Mask \<Rightarrow> Some (EvtchnOpenUnbound env ch Dom Mask)
      | OpenInterDomain Dom Port Mask \<Rightarrow> Some (EvtchnOpenInterDomain env ch Dom Port Mask)
      | OpenVirq i Group Number \<Rightarrow> EvtchnOpenVirq env ctx ch (if Version < 9 then 1 else 3) i Group Number
      | OpenInvalid \<Rightarrow> Some (STATUS_INVALID_PARAMETER, ch))"

text \<open>The labels \<^verbatim>\<open>fail2\<close> and \<^verbatim>\<open>fail3\<close>: the channel is cleared and freed, and a port that had been made is closed.\<close>

definition evtchn_open_fail2 :: "XENBUS_EVTCHN_CHANNEL \<Rightarrow> XENBUS_EVTCHN_CONTEXT \<Rightarrow> (ULONG_PTR option \<times> XENBUS_EVTCHN_CONTEXT) kernel" where
  "evtchn_open_fail2 ch ctx =
     do { ASSERT (ch\<lparr>ch_Argument := 0, ch_Callback := 0, ch_Type := TYPE_INVALID\<rparr> = zero_CHANNEL); Some (None, ctx) }"

definition evtchn_open_fail3 ::
  "nat \<Rightarrow> XENBUS_EVTCHN_CHANNEL \<Rightarrow> XENBUS_EVTCHN_CONTEXT \<Rightarrow> (ULONG_PTR option \<times> XENBUS_EVTCHN_CONTEXT) kernel" where
  "evtchn_open_fail3 LocalPort ch ctx =
     evtchn_open_fail2 (ch\<lparr>ch_LocalPort := 0, ch_Mask := False, ch_Parameters := NoParameters\<rparr>)
       (if ch_Type ch \<noteq> TYPE_FIXED then hypercall (EventChannelClose LocalPort) ctx else ctx)"

definition EvtchnOpen ::
  "evtchn_env \<Rightarrow> nat \<Rightarrow> open_args \<Rightarrow> ULONG_PTR \<Rightarrow> ULONG_PTR \<Rightarrow> XENBUS_EVTCHN_CONTEXT \<Rightarrow>
     (ULONG_PTR option \<times> XENBUS_EVTCHN_CONTEXT) kernel" where
  "EvtchnOpen env Version args Callback Argument ctx =
     (case ee_alloc env of
        None \<Rightarrow> Some (None, ctx)
      | Some p \<Rightarrow> do {
          (status, ch) \<leftarrow> evtchn_open_type env Version ctx args
             (zero_CHANNEL\<lparr>ch_Type := type_of args, ch_Callback := Callback, ch_Argument := Argument\<rparr>);
          (if \<not> NT_SUCCESS status then evtchn_open_fail2 ch ctx
           else do {
             (status, ctx1) \<leftarrow> abi_PortEnable env ctx (ch_LocalPort ch);
             (if \<not> NT_SUCCESS status then evtchn_open_fail3 (ch_LocalPort ch) ch ctx1
              else do {
                (status, T) \<leftarrow> HashTableAdd (ee_node env) (ev_Table ctx1) (of_nat (ch_LocalPort ch)) p;
                (if \<not> NT_SUCCESS status then
                   do { ctx2 \<leftarrow> abi_PortDisable ctx1 (ch_LocalPort ch); evtchn_open_fail3 (ch_LocalPort ch) ch ctx2 }
                 else
                   let ctx2 = put_channel p (ch\<lparr>ch_Active := True\<rparr>) (ctx1\<lparr>ev_Table := T\<rparr>)
                   in Some (Some p, ctx2\<lparr>ev_List := ev_List ctx2 @ [p]\<rparr>))
              })
           })
        })"

section \<open>Reaping a closed channel\<close>

text \<open>The channel is cleared, all of it being zero then, and freed; \<open>Close\<close> tells whether its port is closed.\<close>

definition EvtchnReap :: "XENBUS_EVTCHN_CONTEXT \<Rightarrow> ULONG_PTR \<Rightarrow> bool \<Rightarrow> XENBUS_EVTCHN_CONTEXT kernel" where
  "EvtchnReap ctx p Close =
     do {
       ch \<leftarrow> ev_Channel ctx p;
       ASSERT (ch_Closed ch);
       let ctx1 = ctx\<lparr>ev_List := remove1 p (ev_List ctx)\<rparr>;
       let ctx2 = (if Close \<and> ch_Type ch \<noteq> TYPE_FIXED then hypercall (EventChannelClose (ch_LocalPort ch)) ctx1 else ctx1);
       ASSERT (ch\<lparr>ch_Count := 0, ch_Closed := False, ch_Cpu := 0, ch_LocalPort := 0, ch_Mask := False,
                  ch_Parameters := NoParameters, ch_Argument := 0, ch_Callback := 0, ch_Type := TYPE_INVALID\<rparr> = zero_CHANNEL);
       Some (ctx2\<lparr>ev_Channel := (ev_Channel ctx2)(p := None)\<rparr>)
     }"

section \<open>Polling\<close>

text \<open>\<^verbatim>\<open>InsertTailList\<close> on the pending list of a processor; the head of one never initialised is zero.\<close>

definition append_pending :: "nat \<Rightarrow> ULONG_PTR \<Rightarrow> XENBUS_EVTCHN_CONTEXT \<Rightarrow> XENBUS_EVTCHN_CONTEXT kernel" where
  "append_pending Cpu p ctx =
     do {
       ASSERT (pr_Context (ev_Processor ctx ! Cpu));
       ch \<leftarrow> ev_Channel ctx p;
       Some (put_processor Cpu ((ev_Processor ctx ! Cpu)\<lparr>pr_PendingList := pr_PendingList (ev_Processor ctx ! Cpu) @ [p]\<rparr>)
         (put_channel p (ch\<lparr>ch_Pending := True, ch_PendingListEntry := True\<rparr>) ctx))
     }"

text \<open>What the ABI calls for a port with an event: the channel joins the pending list unless it is there.\<close>

definition EvtchnPollCallback :: "nat \<Rightarrow> nat \<Rightarrow> XENBUS_EVTCHN_CONTEXT \<Rightarrow> (bool \<times> XENBUS_EVTCHN_CONTEXT) kernel" where
  "EvtchnPollCallback Cpu LocalPort ctx =
     do {
       (status, v) \<leftarrow> HashTableLookup (ev_Table ctx) (of_nat LocalPort);
       (if \<not> NT_SUCCESS status then Some (False, ctx)
        else do {
          p \<leftarrow> v;
          ch \<leftarrow> ev_Channel ctx p;
          ASSERT (ch_LocalPort ch = LocalPort);
          (if ch_Cpu ch \<noteq> Cpu then Some (False, ctx)
           else if \<not> ch_Pending ch then
             do { ASSERT (\<not> ch_PendingListEntry ch); ctx1 \<leftarrow> append_pending Cpu p ctx; Some (False, ctx1) }
           else Some (False, ctx))
        })
     }"

text \<open>\<^verbatim>\<open>RemoveEntryList\<close> on the pending list.\<close>

definition remove_pending :: "nat \<Rightarrow> ULONG_PTR \<Rightarrow> XENBUS_EVTCHN_CONTEXT \<Rightarrow> XENBUS_EVTCHN_CONTEXT" where
  "remove_pending Cpu p ctx =
     put_processor Cpu ((ev_Processor ctx ! Cpu)\<lparr>pr_PendingList := remove1 p (pr_PendingList (ev_Processor ctx ! Cpu))\<rparr>) ctx"

text \<open>
  An open channel of the pending list: it leaves the list, its port is masked if the channel asks for it
  and acknowledged, then its events are counted and its callback runs.
\<close>

definition serve_channel ::
  "((ULONG_PTR \<times> ULONG_PTR) list \<Rightarrow> bool) \<Rightarrow> nat \<Rightarrow> ULONG_PTR \<Rightarrow> XENBUS_EVTCHN_CHANNEL \<Rightarrow> XENBUS_EVTCHN_CONTEXT \<Rightarrow>
     (bool \<times> XENBUS_EVTCHN_CONTEXT) kernel" where
  "serve_channel service Cpu p ch ctx =
     do {
       ASSERT (ch_Pending ch);
       let ctx1 = put_channel p (ch\<lparr>ch_PendingListEntry := False, ch_Pending := False\<rparr>) (remove_pending Cpu p ctx);
       ctx2 \<leftarrow> (if ch_Mask ch then abi_PortMask ctx1 (ch_LocalPort ch) else Some ctx1);
       ctx3 \<leftarrow> abi_PortAck ctx2 (ch_LocalPort ch);
       let ctx4 = put_channel p (ch\<lparr>ch_PendingListEntry := False, ch_Pending := False, ch_Count := ch_Count ch + 1\<rparr>) ctx3;
       let ctx5 = ctx4\<lparr>ev_Services := ev_Services ctx4 @ [(ch_Callback ch, ch_Argument ch)]\<rparr>;
       Some (service (ev_Services ctx5), ctx5)
     }"

text \<open>
  The loop over the pending list. A closed channel moves to the caller's list, when there is one
  (\<open>List\<close>), and stays otherwise.
\<close>

fun poll_channels ::
  "((ULONG_PTR \<times> ULONG_PTR) list \<Rightarrow> bool) \<Rightarrow> nat \<Rightarrow> ULONG_PTR list \<Rightarrow> bool \<Rightarrow> ULONG_PTR list option \<Rightarrow> XENBUS_EVTCHN_CONTEXT \<Rightarrow>
     (bool \<times> ULONG_PTR list option \<times> XENBUS_EVTCHN_CONTEXT) kernel" where
  "poll_channels service Cpu [] DoneSomething List ctx = Some (DoneSomething, List, ctx)"
| "poll_channels service Cpu (p # ps) DoneSomething List ctx =
     do {
       ch \<leftarrow> ev_Channel ctx p;
       (if \<not> ch_Closed ch then
          do {
            (d, ctx1) \<leftarrow> serve_channel service Cpu p ch ctx;
            poll_channels service Cpu ps (DoneSomething \<or> d) List ctx1
          }
        else case List of
            Some l \<Rightarrow> do {
              ASSERT (ch_Pending ch);
              poll_channels service Cpu ps DoneSomething (Some (l @ [p])) (remove_pending Cpu p ctx) }
          | None \<Rightarrow> poll_channels service Cpu ps DoneSomething None ctx)
     }"

definition EvtchnPoll ::
  "(nat \<Rightarrow> NTSTATUS \<times> nat) \<Rightarrow> ((ULONG_PTR \<times> ULONG_PTR) list \<Rightarrow> bool) \<Rightarrow> XENBUS_EVTCHN_CONTEXT \<Rightarrow> nat \<Rightarrow> ULONG_PTR list option \<Rightarrow>
     (bool \<times> ULONG_PTR list option \<times> XENBUS_EVTCHN_CONTEXT) kernel" where
  "EvtchnPoll vcpu_id service ctx Cpu List =
     do {
       ASSERT (Cpu < length (ev_Processor ctx));
       (_, ctx1) \<leftarrow> abi_Poll vcpu_id (EvtchnPollCallback Cpu) ctx Cpu;
       ASSERT (pr_Context (ev_Processor ctx1 ! Cpu));
       poll_channels service Cpu (pr_PendingList (ev_Processor ctx1 ! Cpu)) False List ctx1
     }"

text \<open>The loop of \<^verbatim>\<open>EvtchnFlush\<close> over the closed channels the poll collected.\<close>

fun reap_channels :: "ULONG_PTR list \<Rightarrow> XENBUS_EVTCHN_CONTEXT \<Rightarrow> XENBUS_EVTCHN_CONTEXT kernel" where
  "reap_channels [] ctx = Some ctx"
| "reap_channels (p # ps) ctx =
     do {
       ch \<leftarrow> ev_Channel ctx p;
       ASSERT (ch_Pending ch);
       ctx1 \<leftarrow> EvtchnReap (put_channel p (ch\<lparr>ch_PendingListEntry := False, ch_Pending := False\<rparr>) ctx) p True;
       reap_channels ps ctx1
     }"

definition EvtchnFlush ::
  "(nat \<Rightarrow> NTSTATUS \<times> nat) \<Rightarrow> ((ULONG_PTR \<times> ULONG_PTR) list \<Rightarrow> bool) \<Rightarrow> XENBUS_EVTCHN_CONTEXT \<Rightarrow> nat \<Rightarrow> XENBUS_EVTCHN_CONTEXT kernel" where
  "EvtchnFlush vcpu_id service ctx Cpu =
     do {
       ASSERT (Cpu < length (ev_Processor ctx));
       (_, List, ctx1) \<leftarrow> EvtchnPoll vcpu_id service ctx Cpu (Some []);
       reap_channels (the List) ctx1
     }"

text \<open>The DPC of a processor, which leaves the queue as it starts.\<close>

definition EvtchnDpc ::
  "(nat \<Rightarrow> NTSTATUS \<times> nat) \<Rightarrow> ((ULONG_PTR \<times> ULONG_PTR) list \<Rightarrow> bool) \<Rightarrow> XENBUS_EVTCHN_CONTEXT \<Rightarrow> nat \<Rightarrow> XENBUS_EVTCHN_CONTEXT kernel" where
  "EvtchnDpc vcpu_id service ctx Cpu =
     (let ctx1 = put_processor Cpu ((ev_Processor ctx ! Cpu)\<lparr>pr_Dpc := False\<rparr>) ctx in
      if ev_References ctx1 = 0 then Some ctx1 else EvtchnFlush vcpu_id service ctx1 Cpu)"

section \<open>Operations on an open channel\<close>

definition EvtchnTrigger :: "XENBUS_EVTCHN_CONTEXT \<Rightarrow> ULONG_PTR \<Rightarrow> XENBUS_EVTCHN_CONTEXT kernel" where
  "EvtchnTrigger ctx p =
     do {
       ch \<leftarrow> ev_Channel ctx p;
       let Cpu = ch_Cpu ch;
       ASSERT (Cpu < length (ev_Processor ctx));
       (if \<not> ch_Pending ch then
          do {
            ctx1 \<leftarrow> append_pending Cpu p ctx;
            Some (put_processor Cpu ((ev_Processor ctx1 ! Cpu)\<lparr>pr_Dpc := True\<rparr>) ctx1)
          }
        else Some ctx)
     }"

definition EvtchnBind :: "evtchn_env \<Rightarrow> XENBUS_EVTCHN_CONTEXT \<Rightarrow> ULONG_PTR \<Rightarrow> nat \<Rightarrow> nat \<Rightarrow> (NTSTATUS \<times> XENBUS_EVTCHN_CONTEXT) kernel" where
  "EvtchnBind env ctx p Group Number =
     do {
       ch \<leftarrow> ev_Channel ctx p;
       let Cpu = ee_cpu env Group Number;
       ASSERT (Cpu < length (ev_Processor ctx));
       (if \<not> pr_UpcallEnabled (ev_Processor ctx ! Cpu) \<and> Cpu \<noteq> 0 then Some (STATUS_NOT_SUPPORTED, ctx)
        else if \<not> ch_Active ch then Some (STATUS_SUCCESS, ctx)
        else if ch_Cpu ch = Cpu then Some (STATUS_SUCCESS, ctx)
        else case ee_vcpu env Cpu of (status, vcpu_id) \<Rightarrow>
          if \<not> NT_SUCCESS status then Some (status, ctx)
          else if \<not> NT_SUCCESS (ee_bind env (ch_LocalPort ch) vcpu_id) then Some (ee_bind env (ch_LocalPort ch) vcpu_id, ctx)
          else Some (STATUS_SUCCESS, put_channel p (ch\<lparr>ch_Cpu := Cpu\<rparr>)
                 (hypercall (EventChannelBindVirtualCpu (ch_LocalPort ch) vcpu_id) ctx)))
     }"

text \<open>\<open>Current\<close> is the processor the caller runs on.\<close>

definition EvtchnUnmask ::
  "evtchn_env \<Rightarrow> nat \<Rightarrow> XENBUS_EVTCHN_CONTEXT \<Rightarrow> ULONG_PTR \<Rightarrow> bool \<Rightarrow> bool \<Rightarrow> (bool \<times> XENBUS_EVTCHN_CONTEXT) kernel" where
  "EvtchnUnmask env Current ctx p InUpcall Force =
     do {
       ch \<leftarrow> ev_Channel ctx p;
       (if \<not> ch_Active ch then Some (False, ctx)
        else do {
          (Pending, ctx1) \<leftarrow> abi_PortUnmask (ee_rounds env) ctx (ch_LocalPort ch);
          (if \<not> Pending then Some (False, ctx1)
           else if InUpcall \<or> Force then
             do { ctx2 \<leftarrow> abi_PortMask ctx1 (ch_LocalPort ch); Some (False, hypercall (EventChannelUnmask (ch_LocalPort ch)) ctx2) }
           else if ch_Cpu ch \<noteq> Current then
             do { ctx2 \<leftarrow> abi_PortMask ctx1 (ch_LocalPort ch); Some (False, hypercall (EventChannelUnmask (ch_LocalPort ch)) ctx2) }
           else do {
             ctx2 \<leftarrow> (if ch_Mask ch then abi_PortMask ctx1 (ch_LocalPort ch) else Some ctx1);
             ctx3 \<leftarrow> abi_PortAck ctx2 (ch_LocalPort ch);
             Some (True, ctx3)
           })
        })
     }"

definition EvtchnUnmaskVersion4 ::
  "evtchn_env \<Rightarrow> nat \<Rightarrow> XENBUS_EVTCHN_CONTEXT \<Rightarrow> ULONG_PTR \<Rightarrow> bool \<Rightarrow> XENBUS_EVTCHN_CONTEXT kernel" where
  "EvtchnUnmaskVersion4 env Current ctx p InUpcall =
     do { (_, ctx1) \<leftarrow> EvtchnUnmask env Current ctx p InUpcall True; Some ctx1 }"

definition EvtchnSend :: "XENBUS_EVTCHN_CONTEXT \<Rightarrow> ULONG_PTR \<Rightarrow> XENBUS_EVTCHN_CONTEXT kernel" where
  "EvtchnSend ctx p =
     do { ch \<leftarrow> ev_Channel ctx p; Some (if ch_Active ch then hypercall (EventChannelSend (ch_LocalPort ch)) ctx else ctx) }"

definition EvtchnGetPort :: "XENBUS_EVTCHN_CONTEXT \<Rightarrow> ULONG_PTR \<Rightarrow> nat kernel" where
  "EvtchnGetPort ctx p = do { ch \<leftarrow> ev_Channel ctx p; ASSERT (ch_Active ch); Some (ch_LocalPort ch) }"

definition EvtchnGetCount :: "XENBUS_EVTCHN_CONTEXT \<Rightarrow> ULONG_PTR \<Rightarrow> (32 word) kernel" where
  "EvtchnGetCount ctx p = do { ch \<leftarrow> ev_Channel ctx p; Some (ch_Count ch) }"

section \<open>Closing a channel\<close>

text \<open>
  The first half, up to the barrier: an active channel is taken out of the ABI and the table and marked.
  The second half triggers it, so that the DPC of its processor reaps it.
\<close>

definition evtchn_mark_closed :: "XENBUS_EVTCHN_CONTEXT \<Rightarrow> ULONG_PTR \<Rightarrow> XENBUS_EVTCHN_CONTEXT kernel" where
  "evtchn_mark_closed ctx p =
     do {
       ch \<leftarrow> ev_Channel ctx p;
       let ctx1 = put_channel p (ch\<lparr>ch_Active := False\<rparr>) ctx;
       ctx2 \<leftarrow> abi_PortDisable ctx1 (ch_LocalPort ch);
       (status, T) \<leftarrow> HashTableRemove (ev_Table ctx2) (of_nat (ch_LocalPort ch));
       ASSERT (NT_SUCCESS status);
       Some (put_channel p (ch\<lparr>ch_Active := False, ch_Closed := True\<rparr>) (ctx2\<lparr>ev_Table := T\<rparr>))
     }"

definition EvtchnClose :: "XENBUS_EVTCHN_CONTEXT \<Rightarrow> ULONG_PTR \<Rightarrow> XENBUS_EVTCHN_CONTEXT kernel" where
  "EvtchnClose ctx p =
     do {
       ch \<leftarrow> ev_Channel ctx p;
       (if ch_Active ch then do { ctx1 \<leftarrow> evtchn_mark_closed ctx p; EvtchnTrigger ctx1 p }
        else EvtchnReap (put_channel p (ch\<lparr>ch_Closed := True\<rparr>) ctx) p False)
     }"

section \<open>Waiting for events\<close>

text \<open>
  The loop of \<^verbatim>\<open>EvtchnWait\<close>. \<open>count n\<close> is the channel's count and \<open>now n\<close> the system time, as its n-th
  round reads them; \<open>Timeout\<close> is \<^const>\<open>None\<close> for a null pointer. A wait that never ends is \<^const>\<open>None\<close>.
\<close>

definition wait_reached :: "32 word \<Rightarrow> 32 word \<Rightarrow> bool" where
  "wait_reached Count channel_Count \<longleftrightarrow> s64 (uint Count - uint channel_Count) \<le> 0"

definition wait_expired :: "int \<Rightarrow> int \<Rightarrow> int \<Rightarrow> bool" where
  "wait_expired Start Timeout Now =
     (if Timeout > 0 then Now > Timeout
      else if Timeout < 0 then s64 (Now - Start) > s64 (- Timeout)
      else True)"

partial_function (option) wait_loop ::
  "(nat \<Rightarrow> 32 word) \<Rightarrow> (nat \<Rightarrow> int) \<Rightarrow> 32 word \<Rightarrow> int option \<Rightarrow> int \<Rightarrow> nat \<Rightarrow> NTSTATUS kernel" where
  "wait_loop count now Count Timeout Start n =
     (if wait_reached Count (count n) then Some STATUS_SUCCESS
      else if (case Timeout of None \<Rightarrow> False | Some t \<Rightarrow> wait_expired Start t (now n)) then Some STATUS_TIMEOUT
      else wait_loop count now Count Timeout Start (Suc n))"

definition EvtchnWait :: "(nat \<Rightarrow> 32 word) \<Rightarrow> (nat \<Rightarrow> int) \<Rightarrow> int \<Rightarrow> 32 word \<Rightarrow> int option \<Rightarrow> NTSTATUS kernel" where
  "EvtchnWait count now Start Count Timeout = wait_loop count now Count Timeout Start 0"

text \<open>\<open>current\<close> is the count that \<^verbatim>\<open>EvtchnGetCount\<close> reads.\<close>

definition EvtchnWaitVersion5 :: "(nat \<Rightarrow> 32 word) \<Rightarrow> (nat \<Rightarrow> int) \<Rightarrow> int \<Rightarrow> 32 word \<Rightarrow> int option \<Rightarrow> NTSTATUS kernel" where
  "EvtchnWaitVersion5 count now Start current Timeout = EvtchnWait count now Start (current + 1) Timeout"

section \<open>The interrupt callback\<close>

text \<open>What the hypervisor writes: the shared info page, and the event array and control blocks of the FIFO ABI.\<close>

type_synonym guest_pages = "shared_info \<times> XENBUS_EVTCHN_FIFO_CONTEXT"

definition hypervisor_writes :: "(guest_pages \<Rightarrow> guest_pages) \<Rightarrow> XENBUS_EVTCHN_CONTEXT \<Rightarrow> XENBUS_EVTCHN_CONTEXT" where
  "hypervisor_writes h ctx =
     (case h (tl_page (ev_TwoLevel ctx), ev_Fifo ctx) of
        (s, f) \<Rightarrow> ctx\<lparr>ev_TwoLevel := set_page s (ev_TwoLevel ctx), ev_Fifo := f\<rparr>)"

definition UpcallPending :: "XENBUS_EVTCHN_CONTEXT \<Rightarrow> nat \<Rightarrow> (bool \<times> XENBUS_EVTCHN_CONTEXT) kernel" where
  "UpcallPending ctx Cpu =
     do {
       ps \<leftarrow> si_Processor (tl_SharedInfo (ev_TwoLevel ctx));
       (r, s) \<leftarrow> SharedInfoUpcallPending ps Cpu (tl_page (ev_TwoLevel ctx));
       Some (r, ctx\<lparr>ev_TwoLevel := set_page s (ev_TwoLevel ctx)\<rparr>)
     }"

text \<open>The loop; \<open>hyper n\<close> is what the hypervisor has written when the n-th round looks.\<close>

partial_function (option) interrupt_loop ::
  "(nat \<Rightarrow> NTSTATUS \<times> nat) \<Rightarrow> ((ULONG_PTR \<times> ULONG_PTR) list \<Rightarrow> bool) \<Rightarrow> (nat \<Rightarrow> guest_pages \<Rightarrow> guest_pages) \<Rightarrow> nat \<Rightarrow> nat \<Rightarrow>
     bool \<Rightarrow> XENBUS_EVTCHN_CONTEXT \<Rightarrow> (bool \<times> XENBUS_EVTCHN_CONTEXT) kernel" where
  "interrupt_loop vcpu_id service hyper n Cpu DoneSomething ctx =
     Option.bind (UpcallPending (hypervisor_writes (hyper n) ctx) Cpu) (\<lambda>(r, ctx1).
       if \<not> r then Some (DoneSomething, ctx1)
       else Option.bind (EvtchnPoll vcpu_id service ctx1 Cpu None) (\<lambda>(d, _, ctx2).
         interrupt_loop vcpu_id service hyper (Suc n) Cpu (DoneSomething \<or> d) ctx2))"

text \<open>A processor that was never initialised has no context to find.\<close>

definition EvtchnInterruptCallback ::
  "(nat \<Rightarrow> NTSTATUS \<times> nat) \<Rightarrow> ((ULONG_PTR \<times> ULONG_PTR) list \<Rightarrow> bool) \<Rightarrow> (nat \<Rightarrow> guest_pages \<Rightarrow> guest_pages) \<Rightarrow>
     XENBUS_EVTCHN_CONTEXT \<Rightarrow> nat \<Rightarrow> (bool \<times> XENBUS_EVTCHN_CONTEXT) kernel" where
  "EvtchnInterruptCallback vcpu_id service hyper ctx Cpu =
     do {
       ASSERT (Cpu < length (ev_Processor ctx) \<and> pr_Context (ev_Processor ctx ! Cpu));
       interrupt_loop vcpu_id service hyper 0 Cpu False ctx
     }"

section \<open>Suspending\<close>

text \<open>Before the domain is suspended every active channel is taken out of the table: its port will be gone.\<close>

fun suspend_channels :: "ULONG_PTR list \<Rightarrow> XENBUS_EVTCHN_CONTEXT \<Rightarrow> XENBUS_EVTCHN_CONTEXT kernel" where
  "suspend_channels [] ctx = Some ctx"
| "suspend_channels (p # ps) ctx =
     do {
       ch \<leftarrow> ev_Channel ctx p;
       (if ch_Active ch then
          do {
            (status, T) \<leftarrow> HashTableRemove (ev_Table ctx) (of_nat (ch_LocalPort ch));
            ASSERT (NT_SUCCESS status);
            suspend_channels ps (put_channel p (ch\<lparr>ch_Active := False\<rparr>) (ctx\<lparr>ev_Table := T\<rparr>))
          }
        else suspend_channels ps ctx)
     }"

definition EvtchnSuspendCallbackEarly :: "XENBUS_EVTCHN_CONTEXT \<Rightarrow> XENBUS_EVTCHN_CONTEXT kernel" where
  "EvtchnSuspendCallbackEarly ctx = suspend_channels (ev_List ctx) ctx"

section \<open>The interrupts\<close>

text \<open>
  What the calls of an acquisition answer: the suspend and debug interfaces and their callbacks, the
  shared info page, the processors, the FIFO ABI's pages and their registration, a reset, the pool, the interrupts
  by their vectors, and the hypercalls that set them up. \<open>ae_hyper i\<close> is what the hypervisor writes while
  the callback of processor \<open>i\<close> runs, or that of the line when \<open>i\<close> is the number of processors.
\<close>

record acquire_env =
  ae_suspend :: NTSTATUS
  ae_early :: NTSTATUS
  ae_late :: NTSTATUS
  ae_debug :: NTSTATUS
  ae_debug_cb :: NTSTATUS
  ae_si :: si_env
  ae_cpus :: nat
  ae_vcpu :: "nat \<Rightarrow> NTSTATUS \<times> nat"
  ae_block :: "nat \<Rightarrow> bool"
  ae_init :: "nat \<Rightarrow> NTSTATUS"
  ae_reset :: reset_env
  ae_mem :: bool
  ae_number :: "nat \<Rightarrow> NTSTATUS"
  ae_interrupt :: "nat \<Rightarrow> nat option"
  ae_line :: "nat option"
  ae_upcall :: "nat \<Rightarrow> nat \<Rightarrow> NTSTATUS"
  ae_irq :: "nat \<Rightarrow> NTSTATUS"
  ae_service :: "(ULONG_PTR \<times> ULONG_PTR) list \<Rightarrow> bool"
  ae_hyper :: "nat \<Rightarrow> nat \<Rightarrow> guest_pages \<Rightarrow> guest_pages"

definition EvtchnAbiAcquire :: "acquire_env \<Rightarrow> XENBUS_EVTCHN_CONTEXT \<Rightarrow> (NTSTATUS \<times> XENBUS_EVTCHN_CONTEXT) kernel" where
  "EvtchnAbiAcquire env ctx =
     do {
       (acquired, ctx1) \<leftarrow>
         (if ev_UseEvtchnFifoAbi ctx then
            do {
              (status, f) \<leftarrow> EvtchnFifoAcquire (ae_cpus env) (ae_vcpu env) (ae_block env) (ae_init env) (ae_reset env) (ev_Fifo ctx);
              Some (NT_SUCCESS status, ctx\<lparr>ev_Abi := Some FIFO, ev_Fifo := f\<rparr>)
            }
          else Some (False, ctx));
       (if acquired then Some (STATUS_SUCCESS, ctx1)
        else do {
          (status, t) \<leftarrow> EvtchnTwoLevelAcquire (ae_si env) (ev_TwoLevel ctx1);
          Some (if NT_SUCCESS status then STATUS_SUCCESS else status, ctx1\<lparr>ev_Abi := Some TWO_LEVEL, ev_TwoLevel := t\<rparr>)
        })
     }"

definition EvtchnAbiRelease :: "acquire_env \<Rightarrow> XENBUS_EVTCHN_CONTEXT \<Rightarrow> XENBUS_EVTCHN_CONTEXT kernel" where
  "EvtchnAbiRelease env ctx =
     (case ev_Abi ctx of
        None \<Rightarrow> None
      | Some FIFO \<Rightarrow> do { f \<leftarrow> EvtchnFifoRelease (ae_reset env) (ev_Fifo ctx); Some (ctx\<lparr>ev_Fifo := f, ev_Abi := None\<rparr>) }
      | Some TWO_LEVEL \<Rightarrow> do { t \<leftarrow> EvtchnTwoLevelRelease (ev_TwoLevel ctx); Some (ctx\<lparr>ev_TwoLevel := t, ev_Abi := None\<rparr>) })"

definition EvtchnIsProcessorEnabled :: "(nat \<Rightarrow> NTSTATUS \<times> nat) \<Rightarrow> XENBUS_EVTCHN_CONTEXT \<Rightarrow> nat \<Rightarrow> bool kernel" where
  "EvtchnIsProcessorEnabled vcpu_id ctx Cpu =
     do {
       ps \<leftarrow> si_Processor (tl_SharedInfo (ev_TwoLevel ctx));
       supported \<leftarrow> SharedInfoUpcallSupported ps Cpu;
       (if \<not> supported then Some False else abi_IsProcessorEnabled vcpu_id ctx Cpu)
     }"

text \<open>The loop over the processors, which ends early when the hypervisor has no upcalls by vector.\<close>

fun enable_upcalls :: "acquire_env \<Rightarrow> nat list \<Rightarrow> XENBUS_EVTCHN_CONTEXT \<Rightarrow> XENBUS_EVTCHN_CONTEXT kernel" where
  "enable_upcalls env [] ctx = Some ctx"
| "enable_upcalls env (Cpu # is) ctx =
     do {
       enabled \<leftarrow> EvtchnIsProcessorEnabled (ae_vcpu env) ctx Cpu;
       (if \<not> enabled then enable_upcalls env is ctx
        else do {
          Vector \<leftarrow> pr_Interrupt (ev_Processor ctx ! Cpu);
          ASSERT (NT_SUCCESS (fst (ae_vcpu env Cpu)));
          let status = ae_upcall env (snd (ae_vcpu env Cpu)) Vector;
          (if \<not> NT_SUCCESS status then
             if status \<noteq> STATUS_NOT_IMPLEMENTED then enable_upcalls env is ctx else Some ctx
           else do {
             ASSERT (NT_SUCCESS (ae_number env Cpu));
             let ctx1 = hypercall (HvmSetEvtchnUpcallVector (snd (ae_vcpu env Cpu)) Vector) ctx;
             let ctx2 = put_processor Cpu ((ev_Processor ctx1 ! Cpu)\<lparr>pr_UpcallEnabled := True\<rparr>) ctx1;
             (_, ctx3) \<leftarrow> EvtchnInterruptCallback (ae_vcpu env) (ae_service env) (ae_hyper env Cpu) ctx2 Cpu;
             enable_upcalls env is ctx3
           })
        })
     }"

definition EvtchnInterruptEnable :: "acquire_env \<Rightarrow> XENBUS_EVTCHN_CONTEXT \<Rightarrow> XENBUS_EVTCHN_CONTEXT kernel" where
  "EvtchnInterruptEnable env ctx =
     do {
       ctx1 \<leftarrow> (if ev_UseEvtchnUpcall ctx then enable_upcalls env [0 ..< length (ev_Processor ctx)] ctx else Some ctx);
       Line \<leftarrow> ev_Interrupt ctx1;
       ASSERT (NT_SUCCESS (ae_irq env Line));
       let ctx2 = hypercall (HvmSetCallbackIrq Line) ctx1;
       (_, ctx3) \<leftarrow> EvtchnInterruptCallback (ae_vcpu env) (ae_service env) (ae_hyper env (length (ev_Processor ctx))) ctx2 0;
       Some ctx3
     }"

fun disable_upcalls :: "acquire_env \<Rightarrow> nat list \<Rightarrow> XENBUS_EVTCHN_CONTEXT \<Rightarrow> XENBUS_EVTCHN_CONTEXT kernel" where
  "disable_upcalls env [] ctx = Some ctx"
| "disable_upcalls env (Cpu # is) ctx =
     (if \<not> pr_UpcallEnabled (ev_Processor ctx ! Cpu) then disable_upcalls env is ctx
      else do {
        enabled \<leftarrow> EvtchnIsProcessorEnabled (ae_vcpu env) ctx Cpu;
        ASSERT enabled;
        ASSERT (NT_SUCCESS (fst (ae_vcpu env Cpu)));
        disable_upcalls env is (put_processor Cpu ((ev_Processor ctx ! Cpu)\<lparr>pr_UpcallEnabled := False\<rparr>)
          (hypercall (HvmSetEvtchnUpcallVector (snd (ae_vcpu env Cpu)) 0) ctx))
      })"

definition EvtchnInterruptDisable :: "acquire_env \<Rightarrow> XENBUS_EVTCHN_CONTEXT \<Rightarrow> XENBUS_EVTCHN_CONTEXT kernel" where
  "EvtchnInterruptDisable env ctx =
     do {
       ASSERT (NT_SUCCESS (ae_irq env 0));
       disable_upcalls env [0 ..< length (ev_Processor ctx)] (hypercall (HvmSetCallbackIrq 0) ctx)
     }"

definition EvtchnSuspendCallbackLate :: "acquire_env \<Rightarrow> XENBUS_EVTCHN_CONTEXT \<Rightarrow> XENBUS_EVTCHN_CONTEXT kernel" where
  "EvtchnSuspendCallbackLate env ctx =
     do {
       ctx1 \<leftarrow> EvtchnAbiRelease env ctx;
       (status, ctx2) \<leftarrow> EvtchnAbiAcquire env ctx1;
       ASSERT (NT_SUCCESS status);
       ctx3 \<leftarrow> EvtchnInterruptDisable env ctx2;
       EvtchnInterruptEnable env ctx3
     }"

section \<open>Acquiring and releasing\<close>

text \<open>The processors that are enabled get an interrupt, a list head and a DPC; the others stay zero.\<close>

fun init_evtchn_processors :: "acquire_env \<Rightarrow> nat list \<Rightarrow> XENBUS_EVTCHN_CONTEXT \<Rightarrow> XENBUS_EVTCHN_CONTEXT kernel" where
  "init_evtchn_processors env [] ctx = Some ctx"
| "init_evtchn_processors env (Cpu # is) ctx =
     do {
       enabled \<leftarrow> EvtchnIsProcessorEnabled (ae_vcpu env) ctx Cpu;
       (if \<not> enabled then init_evtchn_processors env is ctx
        else do {
          ASSERT (NT_SUCCESS (ae_number env Cpu));
          init_evtchn_processors env is (put_processor Cpu
            ((ev_Processor ctx ! Cpu)\<lparr>pr_Context := True, pr_Interrupt := ae_interrupt env Cpu, pr_PendingList := [], pr_Dpc := False\<rparr>) ctx)
        })
     }"

text \<open>The error labels of \<^verbatim>\<open>EvtchnAcquire\<close>, each falling through to the next.\<close>

definition ev_fail1 :: "NTSTATUS \<Rightarrow> XENBUS_EVTCHN_CONTEXT \<Rightarrow> (NTSTATUS \<times> XENBUS_EVTCHN_CONTEXT) kernel" where
  "ev_fail1 status ctx = do { let ctx1 = ctx\<lparr>ev_References := ev_References ctx - 1\<rparr>; ASSERT (ev_References ctx1 = 0); Some (status, ctx1) }"

definition ev_fail2 :: "NTSTATUS \<Rightarrow> XENBUS_EVTCHN_CONTEXT \<Rightarrow> (NTSTATUS \<times> XENBUS_EVTCHN_CONTEXT) kernel" where
  "ev_fail2 status ctx = ev_fail1 status (ctx\<lparr>ev_Suspend := False\<rparr>)"

definition ev_fail3 :: "NTSTATUS \<Rightarrow> XENBUS_EVTCHN_CONTEXT \<Rightarrow> (NTSTATUS \<times> XENBUS_EVTCHN_CONTEXT) kernel" where
  "ev_fail3 status ctx = ev_fail2 status (ctx\<lparr>ev_SuspendCallbackEarly := False\<rparr>)"

definition ev_fail4 :: "NTSTATUS \<Rightarrow> XENBUS_EVTCHN_CONTEXT \<Rightarrow> (NTSTATUS \<times> XENBUS_EVTCHN_CONTEXT) kernel" where
  "ev_fail4 status ctx = ev_fail3 status (ctx\<lparr>ev_SuspendCallbackLate := False\<rparr>)"

definition ev_fail5 :: "NTSTATUS \<Rightarrow> XENBUS_EVTCHN_CONTEXT \<Rightarrow> (NTSTATUS \<times> XENBUS_EVTCHN_CONTEXT) kernel" where
  "ev_fail5 status ctx = ev_fail4 status (ctx\<lparr>ev_Debug := False\<rparr>)"

definition ev_fail6 :: "NTSTATUS \<Rightarrow> XENBUS_EVTCHN_CONTEXT \<Rightarrow> (NTSTATUS \<times> XENBUS_EVTCHN_CONTEXT) kernel" where
  "ev_fail6 status ctx = ev_fail5 status (ctx\<lparr>ev_DebugCallback := False\<rparr>)"

definition release_shared_info :: "XENBUS_EVTCHN_CONTEXT \<Rightarrow> XENBUS_EVTCHN_CONTEXT kernel" where
  "release_shared_info ctx =
     do { si \<leftarrow> SharedInfoRelease (tl_SharedInfo (ev_TwoLevel ctx)); Some (ctx\<lparr>ev_TwoLevel := (ev_TwoLevel ctx)\<lparr>tl_SharedInfo := si\<rparr>\<rparr>) }"

definition ev_fail7 :: "NTSTATUS \<Rightarrow> XENBUS_EVTCHN_CONTEXT \<Rightarrow> (NTSTATUS \<times> XENBUS_EVTCHN_CONTEXT) kernel" where
  "ev_fail7 status ctx = do { ctx1 \<leftarrow> release_shared_info ctx; ev_fail6 status ctx1 }"

definition ev_fail8 :: "acquire_env \<Rightarrow> NTSTATUS \<Rightarrow> XENBUS_EVTCHN_CONTEXT \<Rightarrow> (NTSTATUS \<times> XENBUS_EVTCHN_CONTEXT) kernel" where
  "ev_fail8 env status ctx = do { ctx1 \<leftarrow> EvtchnAbiRelease env ctx; ev_fail7 status ctx1 }"

fun free_evtchn_processors :: "acquire_env \<Rightarrow> nat list \<Rightarrow> XENBUS_EVTCHN_CONTEXT \<Rightarrow> XENBUS_EVTCHN_CONTEXT kernel" where
  "free_evtchn_processors env [] ctx = Some ctx"
| "free_evtchn_processors env (Cpu # is) ctx =
     do {
       enabled \<leftarrow> EvtchnIsProcessorEnabled (ae_vcpu env) ctx Cpu;
       (if \<not> enabled then free_evtchn_processors env is ctx
        else do {
          ASSERT (pr_Interrupt (ev_Processor ctx ! Cpu) \<noteq> None);
          free_evtchn_processors env is (put_processor Cpu
            ((ev_Processor ctx ! Cpu)\<lparr>pr_Dpc := False, pr_PendingList := [], pr_Interrupt := None, pr_Context := False\<rparr>) ctx)
        })
     }"

definition ev_fail9 :: "acquire_env \<Rightarrow> NTSTATUS \<Rightarrow> XENBUS_EVTCHN_CONTEXT \<Rightarrow> (NTSTATUS \<times> XENBUS_EVTCHN_CONTEXT) kernel" where
  "ev_fail9 env status ctx =
     do {
       ctx1 \<leftarrow> free_evtchn_processors env [0 ..< length (ev_Processor ctx)] ctx;
       ASSERT (\<forall>P \<in> set (ev_Processor ctx1). P = zero_EVTCHN_PROCESSOR);
       ev_fail8 env status (ctx1\<lparr>ev_Processor := []\<rparr>)
     }"

definition EvtchnAcquire :: "acquire_env \<Rightarrow> XENBUS_EVTCHN_CONTEXT \<Rightarrow> (NTSTATUS \<times> XENBUS_EVTCHN_CONTEXT) kernel" where
  "EvtchnAcquire env ctx =
     (let ctx0 = ctx\<lparr>ev_References := ev_References ctx + 1\<rparr> in
      if ev_References ctx \<noteq> 0 then Some (STATUS_SUCCESS, ctx0)
      else if \<not> NT_SUCCESS (ae_suspend env) then ev_fail1 (ae_suspend env) ctx0
      else let ctx1 = ctx0\<lparr>ev_Suspend := True\<rparr> in
      if \<not> NT_SUCCESS (ae_early env) then ev_fail2 (ae_early env) ctx1
      else let ctx2 = ctx1\<lparr>ev_SuspendCallbackEarly := True\<rparr> in
      if \<not> NT_SUCCESS (ae_late env) then ev_fail3 (ae_late env) ctx2
      else let ctx3 = ctx2\<lparr>ev_SuspendCallbackLate := True\<rparr> in
      if \<not> NT_SUCCESS (ae_debug env) then ev_fail4 (ae_debug env) ctx3
      else let ctx4 = ctx3\<lparr>ev_Debug := True\<rparr> in
      if \<not> NT_SUCCESS (ae_debug_cb env) then ev_fail5 (ae_debug_cb env) ctx4
      else let ctx5 = ctx4\<lparr>ev_DebugCallback := True\<rparr> in
      do {
        (status, si) \<leftarrow> SharedInfoAcquire (ae_si env) (tl_SharedInfo (ev_TwoLevel ctx5));
        let ctx6 = ctx5\<lparr>ev_TwoLevel := (ev_TwoLevel ctx5)\<lparr>tl_SharedInfo := si\<rparr>\<rparr>;
        (if \<not> NT_SUCCESS status then ev_fail6 status ctx6
         else do {
           (status, ctx7) \<leftarrow> EvtchnAbiAcquire env ctx6;
           (if \<not> NT_SUCCESS status then ev_fail7 status ctx7
            else if \<not> ae_mem env then ev_fail8 env STATUS_NO_MEMORY ctx7
            else do {
              ctx8 \<leftarrow> init_evtchn_processors env [0 ..< ae_cpus env] (ctx7\<lparr>ev_Processor := replicate (ae_cpus env) zero_EVTCHN_PROCESSOR\<rparr>);
              ASSERT (NT_SUCCESS (ae_number env 0));
              (case ae_line env of
                 None \<Rightarrow> ev_fail9 env STATUS_UNSUCCESSFUL ctx8
               | Some Line \<Rightarrow> do {
                   ctx9 \<leftarrow> EvtchnInterruptEnable env (ctx8\<lparr>ev_Interrupt := Some Line\<rparr>);
                   Some (STATUS_SUCCESS, ctx9) })
            })
         })
      })"

text \<open>The last release flushes the channels being closed and gives everything back; an open channel is a bug check.\<close>

fun release_processors :: "acquire_env \<Rightarrow> nat list \<Rightarrow> XENBUS_EVTCHN_CONTEXT \<Rightarrow> XENBUS_EVTCHN_CONTEXT kernel" where
  "release_processors env [] ctx = Some ctx"
| "release_processors env (Cpu # is) ctx =
     do {
       enabled \<leftarrow> EvtchnIsProcessorEnabled (ae_vcpu env) ctx Cpu;
       (if \<not> enabled then release_processors env is ctx
        else do {
          ctx1 \<leftarrow> EvtchnFlush (ae_vcpu env) (ae_service env) ctx Cpu;
          ASSERT (pr_Interrupt (ev_Processor ctx1 ! Cpu) \<noteq> None);
          release_processors env is (put_processor Cpu
            ((ev_Processor ctx1 ! Cpu)\<lparr>pr_Dpc := False, pr_PendingList := [], pr_Interrupt := None, pr_Context := False\<rparr>) ctx1)
        })
     }"

definition EvtchnRelease :: "acquire_env \<Rightarrow> XENBUS_EVTCHN_CONTEXT \<Rightarrow> XENBUS_EVTCHN_CONTEXT kernel" where
  "EvtchnRelease env ctx =
     (let ctx0 = ctx\<lparr>ev_References := ev_References ctx - 1\<rparr> in
      if 0 < ev_References ctx0 then Some ctx0
      else do {
        ctx1 \<leftarrow> EvtchnInterruptDisable env ctx0;
        ctx2 \<leftarrow> release_processors env [0 ..< length (ev_Processor ctx1)] ctx1;
        ASSERT (\<forall>P \<in> set (ev_Processor ctx2). P = zero_EVTCHN_PROCESSOR);
        let ctx3 = ctx2\<lparr>ev_Processor := [], ev_Interrupt := None\<rparr>;
        ASSERT (ev_List ctx3 = []);
        ctx4 \<leftarrow> EvtchnAbiRelease env ctx3;
        ctx5 \<leftarrow> release_shared_info ctx4;
        Some (ctx5\<lparr>ev_DebugCallback := False, ev_Debug := False, ev_SuspendCallbackLate := False,
                   ev_SuspendCallbackEarly := False, ev_Suspend := False\<rparr>)
      })"

end
