(* ===== verification/Evtchn_Inv.thy ===== *)
theory Evtchn_Inv
  imports Evtchn
begin

text \<open>
  The invariant of the event channels and that every operation keeps it: the hash table maps exactly the
  ports of the active channels, every channel is in the list of channels, the pending bit of a channel
  says whether it is in a pending list, where it then is once, and an active channel is not closed.
\<close>

section \<open>The invariant\<close>

definition queued :: "XENBUS_EVTCHN_CONTEXT \<Rightarrow> ULONG_PTR list" where
  "queued ctx = concat (map pr_PendingList (ev_Processor ctx))"

definition table_inv :: "XENBUS_HASH_TABLE \<Rightarrow> (ULONG_PTR \<rightharpoonup> XENBUS_EVTCHN_CHANNEL) \<Rightarrow> bool" where
  "table_inv T C \<longleftrightarrow> ht_wf T \<and> (\<forall>k. length (ht_values T k) \<le> 1) \<and>
     (\<forall>k p. p \<in> set (ht_values T k) \<longleftrightarrow> (\<exists>ch. C p = Some ch \<and> ch_Active ch \<and> of_nat (ch_LocalPort ch) = k))"

definition list_inv :: "ULONG_PTR list \<Rightarrow> (ULONG_PTR \<rightharpoonup> XENBUS_EVTCHN_CHANNEL) \<Rightarrow> bool" where
  "list_inv L C \<longleftrightarrow> distinct L \<and> set L = dom C"

text \<open>The number of times a channel is in a pending list, or in the list \<open>l\<close> of a flush, is its pending bit.\<close>

definition is_pending :: "(ULONG_PTR \<rightharpoonup> XENBUS_EVTCHN_CHANNEL) \<Rightarrow> ULONG_PTR \<Rightarrow> bool" where
  "is_pending C p = (case C p of None \<Rightarrow> False | Some ch \<Rightarrow> ch_Pending ch)"

definition queue_inv :: "ULONG_PTR list \<Rightarrow> (ULONG_PTR \<rightharpoonup> XENBUS_EVTCHN_CHANNEL) \<Rightarrow> bool" where
  "queue_inv q C \<longleftrightarrow> (\<forall>p. count_list q p = of_bool (is_pending C p))"

definition channel_ok :: "XENBUS_EVTCHN_PROCESSOR list \<Rightarrow> XENBUS_EVTCHN_CHANNEL \<Rightarrow> bool" where
  "channel_ok ps ch \<longleftrightarrow> ch_PendingListEntry ch = ch_Pending ch \<and>
     (ch_Active ch \<longrightarrow> \<not> ch_Closed ch \<and> ch_LocalPort ch < 2 ^ 32) \<and>
     ch_Cpu ch < length ps \<and> pr_Context (ps ! ch_Cpu ch)"

definition processors_ok :: "XENBUS_EVTCHN_PROCESSOR list \<Rightarrow> bool" where
  "processors_ok ps \<longleftrightarrow> ps \<noteq> [] \<and> pr_Context (ps ! 0) \<and> (\<forall>P \<in> set ps. pr_UpcallEnabled P \<longrightarrow> pr_Context P)"

definition ev_inv :: "ULONG_PTR list \<Rightarrow> XENBUS_EVTCHN_CONTEXT \<Rightarrow> bool" where
  "ev_inv l ctx \<longleftrightarrow> table_inv (ev_Table ctx) (ev_Channel ctx) \<and> list_inv (ev_List ctx) (ev_Channel ctx) \<and>
     queue_inv (queued ctx @ l) (ev_Channel ctx) \<and> (\<forall>ch \<in> ran (ev_Channel ctx). channel_ok (ev_Processor ctx) ch) \<and>
     processors_ok (ev_Processor ctx)"

abbreviation evtchn_wf :: "XENBUS_EVTCHN_CONTEXT \<Rightarrow> bool" where
  "evtchn_wf ctx \<equiv> ev_inv [] ctx"

section \<open>Lists of pending channels\<close>

lemma count_concat_update:
  "i < length xs \<Longrightarrow> count_list (concat (map f (xs[i := x]))) p + count_list (f (xs ! i)) p =
     count_list (concat (map f xs)) p + count_list (f x) p"
proof (induction xs arbitrary: i)
  case (Cons y xs)
  show ?case
  proof (cases i)
    case (Suc j)
    then show ?thesis using Cons.IH [of j] Cons.prems by simp
  qed simp
qed simp

lemma count_list_remove1: "p \<in> set xs \<Longrightarrow> count_list (remove1 p xs) q + of_bool (q = p) = count_list xs q"
  by (induction xs) auto

lemma count_list_pos: "count_list xs p = 0 \<longleftrightarrow> p \<notin> set xs"
  by (induction xs) auto

lemma count_list_one_distinct: "(\<forall>p. count_list xs p \<le> 1) \<Longrightarrow> distinct xs"
proof (induction xs)
  case (Cons x xs)
  have "count_list xs x = 0" using spec [OF Cons.prems, of x] by simp
  moreover have "\<forall>p. count_list xs p \<le> 1"
  proof
    fix p show "count_list xs p \<le> 1" using spec [OF Cons.prems, of p] by (cases "p = x") auto
  qed
  ultimately show ?case using Cons.IH by (simp add: count_list_pos)
qed simp

lemma queue_inv_mem: "queue_inv q C \<Longrightarrow> p \<in> set q \<longleftrightarrow> is_pending C p"
  using count_list_pos [of q p] by (simp add: queue_inv_def split: if_splits)

lemma queue_inv_distinct: "queue_inv q C \<Longrightarrow> distinct q"
  by (rule count_list_one_distinct) (simp add: queue_inv_def)

lemma queued_put_processor:
  assumes "Cpu < length (ev_Processor ctx)"
  shows "count_list (queued (put_processor Cpu P ctx)) p + count_list (pr_PendingList (ev_Processor ctx ! Cpu)) p =
     count_list (queued ctx) p + count_list (pr_PendingList P) p"
  using count_concat_update [OF assms, of pr_PendingList P p] by (simp add: queued_def put_processor_def)

lemma queued_member: "Cpu < length (ev_Processor ctx) \<Longrightarrow> p \<in> set (pr_PendingList (ev_Processor ctx ! Cpu)) \<Longrightarrow> p \<in> set (queued ctx)"
  by (auto simp: queued_def)

section \<open>The invariant and single updates\<close>

lemma put_simps [simp]:
  "ev_Processor (put_channel p ch ctx) = ev_Processor ctx"
  "ev_Channel (put_processor i P ctx) = ev_Channel ctx"
  "ev_Channel (put_channel p ch ctx) = (ev_Channel ctx)(p \<mapsto> ch)"
  "ev_Processor (put_processor i P ctx) = (ev_Processor ctx)[i := P]"
  "ev_Table (put_channel p ch ctx) = ev_Table ctx"
  "ev_Table (put_processor i P ctx) = ev_Table ctx"
  "ev_List (put_channel p ch ctx) = ev_List ctx"
  "ev_List (put_processor i P ctx) = ev_List ctx"
  "ev_Abi (put_channel p ch ctx) = ev_Abi ctx"
  "ev_Abi (put_processor i P ctx) = ev_Abi ctx"
  "ev_Fifo (put_channel p ch ctx) = ev_Fifo ctx"
  "ev_Fifo (put_processor i P ctx) = ev_Fifo ctx"
  "ev_TwoLevel (put_channel p ch ctx) = ev_TwoLevel ctx"
  "ev_TwoLevel (put_processor i P ctx) = ev_TwoLevel ctx"
  "ev_Services (put_channel p ch ctx) = ev_Services ctx"
  "ev_Services (put_processor i P ctx) = ev_Services ctx"
  "ev_Calls (put_channel p ch ctx) = ev_Calls ctx"
  "ev_Calls (put_processor i P ctx) = ev_Calls ctx"
  "ev_References (put_channel p ch ctx) = ev_References ctx"
  "ev_References (put_processor i P ctx) = ev_References ctx"
  by (simp_all add: put_channel_def put_processor_def)

lemma queued_put_channel [simp]: "queued (put_channel p ch ctx) = queued ctx"
  by (simp add: queued_def)

text \<open>What neither a processor, a channel, the table nor the list depends on.\<close>

lemma ev_inv_cong:
  assumes "ev_Table c = ev_Table ctx" and "ev_Channel c = ev_Channel ctx" and "ev_List c = ev_List ctx"
    and "ev_Processor c = ev_Processor ctx"
  shows "ev_inv l c = ev_inv l ctx"
  using assms by (simp add: ev_inv_def queued_def)

text \<open>A processor changes in its pending list and its flags.\<close>

lemma channel_ok_update: "pr_Context P = pr_Context (ps ! i) \<Longrightarrow> channel_ok (ps[i := P]) ch = channel_ok ps ch"
  by (cases "i < length ps") (auto simp: channel_ok_def nth_list_update)

lemma map_update_same: "i < length xs \<Longrightarrow> f x = f (xs ! i) \<Longrightarrow> map f (xs[i := x]) = map f xs"
  by (simp add: map_update list_eq_iff_nth_eq nth_list_update)

lemma processors_ok_update:
  assumes "processors_ok ps" and "pr_Context P = pr_Context (ps ! i)" and "pr_UpcallEnabled P = pr_UpcallEnabled (ps ! i)" and "i < length ps"
  shows "processors_ok (ps[i := P])"
proof -
  have "\<forall>Q \<in> set (ps[i := P]). pr_UpcallEnabled Q \<longrightarrow> pr_Context Q"
  proof
    fix Q assume "Q \<in> set (ps[i := P])"
    then have "Q \<in> set ps \<or> Q = P" using set_update_subset_insert [of ps i P] by auto
    moreover have "ps ! i \<in> set ps" using assms(4) by simp
    ultimately show "pr_UpcallEnabled Q \<longrightarrow> pr_Context Q" using assms(1-3) by (auto simp: processors_ok_def)
  qed
  moreover have "ps \<noteq> []" "pr_Context (ps ! 0)" using assms(1) by (simp_all add: processors_ok_def)
  ultimately show ?thesis using assms(2,4) by (cases "i = 0") (simp_all add: processors_ok_def)
qed

text \<open>The hash table after a channel has changed.\<close>

lemma table_inv_same:
  assumes "table_inv T C" and "C p = Some ch" and "ch_Active ch' = ch_Active ch" and "ch_LocalPort ch' = ch_LocalPort ch"
  shows "table_inv T (C(p \<mapsto> ch'))"
  using assms by (auto simp: table_inv_def)

lemma table_inv_lookup:
  assumes "table_inv T C"
  shows "HashTableLookup T k = Some (STATUS_OBJECT_NAME_NOT_FOUND, None) \<and> (\<forall>p ch. C p = Some ch \<and> ch_Active ch \<longrightarrow> of_nat (ch_LocalPort ch) \<noteq> k) \<or>
     (\<exists>p ch. HashTableLookup T k = Some (STATUS_SUCCESS, Some p) \<and> C p = Some ch \<and> ch_Active ch \<and> of_nat (ch_LocalPort ch) = k)"
proof (cases "ht_values T k")
  case Nil
  then show ?thesis using assms HashTableLookup_law [of T k] by (auto simp: table_inv_def) (metis list.set_intros(1) empty_iff empty_set)
next
  case (Cons p ps)
  then have "p \<in> set (ht_values T k)" by simp
  with assms obtain ch where "C p = Some ch" "ch_Active ch" "of_nat (ch_LocalPort ch) = k"
    unfolding table_inv_def by blast
  then show ?thesis using HashTableLookup_law [of T k] Cons by simp
qed

text \<open>A channel and a processor change together; the counts say what the pending lists then hold.\<close>

lemma ev_inv_step:
  assumes inv: "ev_inv l ctx" and Cpu: "Cpu < length (ev_Processor ctx)" and ch: "ev_Channel ctx p = Some ch"
    and P: "pr_Context P = pr_Context (ev_Processor ctx ! Cpu)" "pr_UpcallEnabled P = pr_UpcallEnabled (ev_Processor ctx ! Cpu)"
    and ch': "channel_ok (ev_Processor ctx) ch'" "ch_Active ch' = ch_Active ch" "ch_LocalPort ch' = ch_LocalPort ch"
    and count: "\<And>q. count_list (pr_PendingList P) q + count_list l' q + of_bool (q = p \<and> ch_Pending ch) =
        count_list (pr_PendingList (ev_Processor ctx ! Cpu)) q + count_list l q + of_bool (q = p \<and> ch_Pending ch')"
  shows "ev_inv l' (put_processor Cpu P (put_channel p ch' ctx))"
proof -
  let ?c = "put_processor Cpu P (put_channel p ch' ctx)"
  have q: "queue_inv (queued ctx @ l) (ev_Channel ctx)" and oks: "\<forall>ch \<in> ran (ev_Channel ctx). channel_ok (ev_Processor ctx) ch"
    and procs: "processors_ok (ev_Processor ctx)" using inv by (simp_all add: ev_inv_def)
  have "queue_inv (queued ?c @ l') (ev_Channel ?c)" unfolding queue_inv_def
  proof
    fix r
    have 1: "count_list (queued ?c) r + count_list (pr_PendingList (ev_Processor ctx ! Cpu)) r = count_list (queued ctx) r + count_list (pr_PendingList P) r"
      using queued_put_processor [of Cpu "put_channel p ch' ctx" P r] Cpu by simp
    have 2: "count_list (queued ctx) r + count_list l r = of_bool (is_pending (ev_Channel ctx) r)"
      using q by (simp add: queue_inv_def)
    have 3: "of_bool (is_pending (ev_Channel ?c) r) + of_bool (r = p \<and> ch_Pending ch) = (of_bool (is_pending (ev_Channel ctx) r) + of_bool (r = p \<and> ch_Pending ch') :: nat)"
      using ch by (simp add: is_pending_def)
    show "count_list (queued ?c @ l') r = of_bool (is_pending (ev_Channel ?c) r)"
      using 1 2 3 count [of r] by simp
  qed
  moreover have "\<forall>ch \<in> ran (ev_Channel ?c). channel_ok (ev_Processor ?c) ch"
    using oks ch'(1) by (auto simp: ran_def channel_ok_update [OF P(1)])
  moreover have "processors_ok (ev_Processor ?c)" using processors_ok_update [OF procs P Cpu] by simp
  moreover have "table_inv (ev_Table ?c) (ev_Channel ?c)" "list_inv (ev_List ?c) (ev_Channel ?c)"
    using inv table_inv_same [of "ev_Table ctx" "ev_Channel ctx" p ch ch'] ch ch'(2,3) by (auto simp: ev_inv_def list_inv_def)
  ultimately show ?thesis by (simp add: ev_inv_def)
qed

lemma put_processor_id: "put_processor Cpu (ev_Processor ctx ! Cpu) ctx = ctx"
  by (simp add: put_processor_def)

lemma ev_inv_put_channel:
  assumes inv: "ev_inv l ctx" and ch: "ev_Channel ctx p = Some ch" and ok: "channel_ok (ev_Processor ctx) ch'"
    and same: "ch_Active ch' = ch_Active ch" "ch_LocalPort ch' = ch_LocalPort ch" "ch_Pending ch' = ch_Pending ch"
  shows "ev_inv l (put_channel p ch' ctx)"
proof -
  have "0 < length (ev_Processor ctx)" using inv by (simp add: ev_inv_def processors_ok_def)
  from ev_inv_step [OF inv this ch _ _ ok same(1,2), of "ev_Processor ctx ! 0" l] same(3) show ?thesis
    using put_processor_id [of 0 "put_channel p ch' ctx"] by simp
qed

lemma ev_inv_channel_ok: "ev_inv l ctx \<Longrightarrow> ev_Channel ctx p = Some ch \<Longrightarrow> channel_ok (ev_Processor ctx) ch"
  by (auto simp: ev_inv_def ran_def)

text \<open>The flag of the DPC of a processor.\<close>

lemma ev_inv_dpc:
  assumes "ev_inv l ctx"
  shows "ev_inv l (put_processor Cpu ((ev_Processor ctx ! Cpu)\<lparr>pr_Dpc := d\<rparr>) ctx)"
proof (cases "Cpu < length (ev_Processor ctx)")
  case True
  let ?P = "(ev_Processor ctx ! Cpu)\<lparr>pr_Dpc := d\<rparr>"
  have "map pr_PendingList ((ev_Processor ctx)[Cpu := ?P]) = map pr_PendingList (ev_Processor ctx)"
    using True by (intro map_update_same) simp_all
  then have "queued (put_processor Cpu ?P ctx) = queued ctx" by (simp add: queued_def)
  moreover have "channel_ok ((ev_Processor ctx)[Cpu := ?P]) c = channel_ok (ev_Processor ctx) c" for c
    by (rule channel_ok_update) simp
  moreover have "processors_ok ((ev_Processor ctx)[Cpu := ?P])"
    using processors_ok_update [of "ev_Processor ctx" ?P Cpu] assms True by (simp add: ev_inv_def)
  ultimately show ?thesis using assms by (simp add: ev_inv_def)
next
  case False
  then show ?thesis using assms by (simp add: put_processor_def list_update_beyond)
qed

section \<open>Pending lists\<close>

lemma append_pending_law:
  assumes inv: "ev_inv l ctx" and Cpu: "Cpu < length (ev_Processor ctx)" "pr_Context (ev_Processor ctx ! Cpu)"
    and ch: "ev_Channel ctx p = Some ch" "\<not> ch_Pending ch"
  shows "\<exists>c. append_pending Cpu p ctx = Some c \<and> ev_inv l c \<and> ev_Processor c =
     (ev_Processor ctx)[Cpu := (ev_Processor ctx ! Cpu)\<lparr>pr_PendingList := pr_PendingList (ev_Processor ctx ! Cpu) @ [p]\<rparr>] \<and>
     ev_Channel c = (ev_Channel ctx)(p \<mapsto> ch\<lparr>ch_Pending := True, ch_PendingListEntry := True\<rparr>) \<and>
     ev_Table c = ev_Table ctx \<and> ev_List c = ev_List ctx \<and> ev_Abi c = ev_Abi ctx \<and> ev_Fifo c = ev_Fifo ctx \<and>
     ev_TwoLevel c = ev_TwoLevel ctx \<and> ev_Services c = ev_Services ctx \<and> ev_Calls c = ev_Calls ctx \<and> ev_References c = ev_References ctx"
proof -
  let ?ch = "ch\<lparr>ch_Pending := True, ch_PendingListEntry := True\<rparr>"
  let ?P = "(ev_Processor ctx ! Cpu)\<lparr>pr_PendingList := pr_PendingList (ev_Processor ctx ! Cpu) @ [p]\<rparr>"
  have "channel_ok (ev_Processor ctx) ?ch" using ev_inv_channel_ok [OF inv ch(1)] by (simp add: channel_ok_def)
  then have "ev_inv l (put_processor Cpu ?P (put_channel p ?ch ctx))"
    by (intro ev_inv_step [OF inv Cpu(1) ch(1)]) (use ch(2) in \<open>auto simp: of_bool_def\<close>)
  then show ?thesis using Cpu ch by (simp add: append_pending_def)
qed

section \<open>What a poll of an ABI keeps\<close>

text \<open>Whatever the event handler keeps of its own state, a poll that returns keeps.\<close>

definition keeps :: "('w \<Rightarrow> bool) \<Rightarrow> (nat \<Rightarrow> 's \<times> 'w \<Rightarrow> (bool \<times> 's \<times> 'w) kernel) \<Rightarrow> bool" where
  "keeps J Event \<longleftrightarrow> (\<forall>Port sw d sw'. J (snd sw) \<longrightarrow> Event Port sw = Some (d, sw') \<longrightarrow> J (snd sw'))"

lemma keepsD: "keeps J Event \<Longrightarrow> Event Port sw = Some (d, sw') \<Longrightarrow> J (snd sw) \<Longrightarrow> J (snd sw')"
  unfolding keeps_def by blast

lemma poll_ports_keeps:
  assumes "keeps J Event"
  shows "poll_ports Event j M b d sw = Some (M', d', sw') \<Longrightarrow> J (snd sw) \<Longrightarrow> J (snd sw')"
proof (induction "64 - b" arbitrary: M b d sw)
  case 0
  then show ?case by (subst (asm) poll_ports.simps) (simp add: si_consts)
next
  case (Suc n)
  then have n: "n = 64 - Suc b" by simp
  note run = Suc.prems(1) [unfolded poll_ports.simps [of Event j M b d sw]]
  show ?case
  proof (cases "M \<noteq> 0 \<and> b < XENBUS_SHARED_INFO_EVTCHN_PER_SELECTOR")
    case True
    with run obtain t where t: "SharedInfoTestBit M b = Some t" by (auto simp: bind_eq_Some_conv)
    show ?thesis
    proof (cases t)
      case False
      with run True t have "poll_ports Event j M (Suc b) d sw = Some (M', d', sw')" by simp
      then show ?thesis using Suc.hyps(1) [OF n] Suc.prems(2) by blast
    next
      case set: True
      with run True t obtain x sw1 where e: "Event (j * XENBUS_SHARED_INFO_EVTCHN_PER_SELECTOR + b) sw = Some (x, sw1)"
        by (auto simp: bind_eq_Some_conv)
      with run True t set have "poll_ports Event j (M AND NOT (push_bit b 1)) (Suc b) (d \<or> x) sw1 = Some (M', d', sw')" by simp
      then show ?thesis using Suc.hyps(1) [OF n] keepsD [OF assms e Suc.prems(2)] by blast
    qed
  next
    case False
    with run Suc.prems(2) show ?thesis by auto
  qed
qed


lemma poll_selectors_keeps:
  assumes "keeps J Event" and run: "poll_selectors Event M Port d sw = Some r" and "J (snd sw)"
  shows "J (snd (snd (snd r)))"
proof -
  have "keeps J Event \<longrightarrow> J (snd sw) \<longrightarrow> J (snd (snd (snd r)))"
  proof (rule poll_selectors.raw_induct [where P = "\<lambda>Event M Port d sw r. keeps J Event \<longrightarrow> J (snd sw) \<longrightarrow> J (snd (snd (snd r)))", OF _ run], intro impI)
    fix f Event M Port d sw r
    assume IH: "\<And>Event M Port d sw r. f Event M Port d sw = Some r \<Longrightarrow> keeps J Event \<longrightarrow> J (snd sw) \<longrightarrow> J (snd (snd (snd r)))"
      and ev: "keeps J Event" and J: "J (snd sw)"
      and step: "(if M = 0 then Some (Port, d, sw)
        else let SelectorBit = Port div XENBUS_SHARED_INFO_EVTCHN_PER_SELECTOR; PortBit = Port mod XENBUS_SHARED_INFO_EVTCHN_PER_SELECTOR;
            Port1 = (SelectorBit + 1) * XENBUS_SHARED_INFO_EVTCHN_PER_SELECTOR;
            Port' = if XENBUS_SHARED_INFO_EVTCHN_SELECTOR_COUNT * XENBUS_SHARED_INFO_EVTCHN_PER_SELECTOR \<le> Port1 then 0 else Port1
          in Option.bind (SharedInfoTestBit M SelectorBit) (\<lambda>t. if t then
               let PortMask = evtchn_pending (fst sw) ! SelectorBit AND NOT (evtchn_mask (fst sw) ! SelectorBit)
               in Option.bind (poll_ports Event SelectorBit PortMask PortBit d sw)
                    (\<lambda>(PortMask', d', s'). f Event (if PortMask' = 0 then M AND NOT (push_bit SelectorBit 1) else M) Port' d' s')
             else f Event M Port' d sw)) = Some r"
    show "J (snd (snd (snd r)))"
    proof (cases "M = 0")
      case True
      then show ?thesis using step J by auto
    next
      case False
      from step False show ?thesis
        by (auto simp: Let_def bind_eq_Some_conv split: if_splits prod.splits
            dest!: IH [rule_format, OF _ ev] poll_ports_keeps [OF ev] intro: J)
    qed
  qed
  then show ?thesis using assms by blast
qed

lemma EvtchnFifoPollPriority_keeps:
  assumes "keeps J Event" and "EvtchnFifoPollPriority v Priority Ready Event s = Some (d, Ready', s')" and "J (snd s)"
  shows "J (snd s')"
  using assms(2,3) unfolding EvtchnFifoPollPriority_def Let_def split_def
  by (clarsimp simp: bind_eq_Some_conv simp del: ASSERT_bind split del: if_split)
    (auto split: if_split_asm dest: keepsD [OF assms(1)])

lemma fifo_poll_loop_keeps:
  assumes "keeps J Event" and run: "fifo_poll_loop v Event Ready d s = Some r" and "J (snd s)"
  shows "J (snd (snd r))"
proof -
  have "keeps J Event \<longrightarrow> J (snd s) \<longrightarrow> J (snd (snd r))"
  proof (rule fifo_poll_loop.raw_induct [where P = "\<lambda>v Event Ready d s r. keeps J Event \<longrightarrow> J (snd s) \<longrightarrow> J (snd (snd r))", OF _ run], intro impI)
    fix f v Event Ready d s r
    assume IH: "\<And>v Event Ready d s r. f v Event Ready d s = Some r \<Longrightarrow> keeps J Event \<longrightarrow> J (snd s) \<longrightarrow> J (snd (snd r))"
      and ev: "keeps J Event" and J: "J (snd s)"
      and step: "(if Ready = 0 then Some (d, s)
        else Option.bind (EvtchnFifoPollPriority v (BitScanReverse Ready) Ready Event s)
          (\<lambda>(x, Ready', s'). Option.bind (take_ready v (fst s')) (\<lambda>(r, c). f v Event (Ready' OR r) (d \<or> x) (c, snd s')))) = Some r"
    show "J (snd (snd r))"
    proof (cases "Ready = 0")
      case True
      then show ?thesis using step J by auto
    next
      case False
      with step obtain x R s' t c where "EvtchnFifoPollPriority v (BitScanReverse Ready) Ready Event s = Some (x, R, s')"
        "f v Event (R OR t) (d \<or> x) (c, snd s') = Some r" by (auto simp: bind_eq_Some_conv)
      then show ?thesis using IH [of v Event "R OR t" "d \<or> x" "(c, snd s')" r] ev EvtchnFifoPollPriority_keeps [OF ev _ J] by simp
    qed
  qed
  then show ?thesis using assms by blast
qed

text \<open>Contexts that differ in the pages of the ABIs only.\<close>

definition pages_only :: "XENBUS_EVTCHN_CONTEXT \<Rightarrow> XENBUS_EVTCHN_CONTEXT \<Rightarrow> bool" where
  "pages_only ctx c \<longleftrightarrow> (\<exists>f t. c = ctx\<lparr>ev_Fifo := f, ev_TwoLevel := t\<rparr>)"

lemma pages_only_update [simp]: "pages_only ctx (ctx\<lparr>ev_Fifo := f\<rparr>)" "pages_only ctx (ctx\<lparr>ev_TwoLevel := t\<rparr>)" "pages_only ctx ctx"
proof -
  have "ctx\<lparr>ev_Fifo := f\<rparr> = ctx\<lparr>ev_Fifo := f, ev_TwoLevel := ev_TwoLevel ctx\<rparr>"
    "ctx\<lparr>ev_TwoLevel := t\<rparr> = ctx\<lparr>ev_Fifo := ev_Fifo ctx, ev_TwoLevel := t\<rparr>"
    "ctx = ctx\<lparr>ev_Fifo := ev_Fifo ctx, ev_TwoLevel := ev_TwoLevel ctx\<rparr>" by simp_all
  then show "pages_only ctx (ctx\<lparr>ev_Fifo := f\<rparr>)" "pages_only ctx (ctx\<lparr>ev_TwoLevel := t\<rparr>)" "pages_only ctx ctx"
    unfolding pages_only_def by blast+
qed

lemma pages_only_trans:
  assumes "pages_only a b" and "pages_only b c"
  shows "pages_only a c"
proof -
  from assms(1) obtain f t where b: "b = a\<lparr>ev_Fifo := f, ev_TwoLevel := t\<rparr>" by (auto simp: pages_only_def)
  from assms(2) obtain f' t' where "c = b\<lparr>ev_Fifo := f', ev_TwoLevel := t'\<rparr>" by (auto simp: pages_only_def)
  then have "c = a\<lparr>ev_Fifo := f', ev_TwoLevel := t'\<rparr>" by (simp add: b)
  then show ?thesis unfolding pages_only_def by blast
qed

lemma pages_only_fields:
  assumes "pages_only ctx c"
  shows "ev_Table c = ev_Table ctx" "ev_Channel c = ev_Channel ctx" "ev_List c = ev_List ctx" "ev_Processor c = ev_Processor ctx"
    "ev_Abi c = ev_Abi ctx" "ev_Services c = ev_Services ctx" "ev_Calls c = ev_Calls ctx" "ev_References c = ev_References ctx"
  using assms by (auto simp: pages_only_def)

lemma ev_inv_pages: "pages_only ctx c \<Longrightarrow> ev_inv l c = ev_inv l ctx"
  by (rule ev_inv_cong) (simp_all add: pages_only_fields)

lemma pages_only_ops:
  "abi_PortAck ctx p = Some c \<Longrightarrow> pages_only ctx c"
  "abi_PortMask ctx p = Some c \<Longrightarrow> pages_only ctx c"
  "abi_PortDisable ctx p = Some c \<Longrightarrow> pages_only ctx c"
  "abi_PortUnmask rounds ctx p = Some (r, c) \<Longrightarrow> pages_only ctx c"
  "abi_PortEnable env ctx p = Some (st, c) \<Longrightarrow> pages_only ctx c"
  by (auto simp: abi_PortAck_def abi_PortMask_def abi_PortDisable_def abi_PortUnmask_def abi_PortEnable_def abi_op_def bind_eq_Some_conv
      split: option.splits XENBUS_EVTCHN_ABI.splits prod.splits)

lemma abi_Poll_keeps:
  assumes ev: "\<And>Port c d c'. J c \<Longrightarrow> Event Port c = Some (d, c') \<Longrightarrow> J c'"
    and run: "abi_Poll vcpu_id Event ctx Cpu = Some (d, c)" and J: "J ctx"
  shows "\<exists>c'. J c' \<and> pages_only c' c"
proof (cases "ev_Abi ctx")
  case None
  then show ?thesis using run by (simp add: abi_Poll_def)
next
  case (Some a)
  show ?thesis
  proof (cases a)
    case FIFO
    let ?E = "\<lambda>Port (f :: XENBUS_EVTCHN_FIFO_CONTEXT, c). do { (d, c') \<leftarrow> Event Port c; Some (d, f, c') }"
    have k: "keeps J ?E" unfolding keeps_def using ev by (auto simp: bind_eq_Some_conv)
    from run Some FIFO obtain f c' where r: "EvtchnFifoPoll vcpu_id ?E Cpu (ev_Fifo ctx, ctx) = Some (d, f, c')" "c = c'\<lparr>ev_Fifo := f\<rparr>"
      by (auto simp: abi_Poll_def bind_eq_Some_conv)
    then have "J c'" using J fifo_poll_loop_keeps [OF k]
      by (fastforce simp: EvtchnFifoPoll_def bind_eq_Some_conv split: if_splits prod.splits option.splits)
    then show ?thesis using r(2) by (intro exI [of _ c']) simp
  next
    case TWO_LEVEL
    let ?E = "\<lambda>Port (f :: shared_info, c). do { (d, c') \<leftarrow> Event Port c; Some (d, f, c') }"
    have k: "keeps J ?E" unfolding keeps_def using ev by (auto simp: bind_eq_Some_conv)
    from run Some TWO_LEVEL obtain t c' where r: "EvtchnTwoLevelPoll ?E Cpu (ev_TwoLevel ctx) ctx = Some (d, t, c')" "c = c'\<lparr>ev_TwoLevel := t\<rparr>"
      by (auto simp: abi_Poll_def bind_eq_Some_conv)
    then have "J c'" using J poll_selectors_keeps [OF k]
      by (fastforce simp: EvtchnTwoLevelPoll_def SharedInfoEvtchnPoll_def Let_def bind_eq_Some_conv split: if_splits prod.splits option.splits)
    then show ?thesis using r(2) by (intro exI [of _ c']) simp
  qed
qed

section \<open>Polling keeps the invariant\<close>

lemma EvtchnPollCallback_keeps:
  assumes "ev_inv l ctx \<and> Cpu < length (ev_Processor ctx)" and run: "EvtchnPollCallback Cpu Port ctx = Some (d, c)"
  shows "ev_inv l c \<and> Cpu < length (ev_Processor c)"
proof -
  have inv: "ev_inv l ctx" and Cpu: "Cpu < length (ev_Processor ctx)" using assms(1) by simp_all
  have "table_inv (ev_Table ctx) (ev_Channel ctx)" using inv by (simp add: ev_inv_def)
  from table_inv_lookup [OF this, of "of_nat Port"] consider
      (none) "HashTableLookup (ev_Table ctx) (of_nat Port) = Some (STATUS_OBJECT_NAME_NOT_FOUND, None)"
    | (found) p ch where "HashTableLookup (ev_Table ctx) (of_nat Port) = Some (STATUS_SUCCESS, Some p)" "ev_Channel ctx p = Some ch"
    by blast
  then show ?thesis
  proof cases
    case none
    then show ?thesis using run inv Cpu by (simp add: EvtchnPollCallback_def)
  next
    case found
    show ?thesis
    proof (cases "ch_Cpu ch \<noteq> Cpu \<or> ch_Pending ch")
      case True
      then show ?thesis using run inv Cpu found by (auto simp: EvtchnPollCallback_def split: if_splits)
    next
      case False
      then have "append_pending Cpu p ctx = Some c"
        using run found by (auto simp: EvtchnPollCallback_def bind_eq_Some_conv split: if_splits)
      moreover have "pr_Context (ev_Processor ctx ! Cpu)" using ev_inv_channel_ok [OF inv found(2)] False by (auto simp: channel_ok_def)
      ultimately show ?thesis using append_pending_law [OF inv Cpu _ found(2)] False Cpu by auto
    qed
  qed
qed

text \<open>Taking a channel out of a pending list, to serve it or to reap it.\<close>

lemma remove_pending_simps [simp]:
  "ev_Channel (remove_pending Cpu p ctx) = ev_Channel ctx"
  "ev_Table (remove_pending Cpu p ctx) = ev_Table ctx"
  "ev_List (remove_pending Cpu p ctx) = ev_List ctx"
  "ev_Services (remove_pending Cpu p ctx) = ev_Services ctx"
  "ev_Calls (remove_pending Cpu p ctx) = ev_Calls ctx"
  "ev_References (remove_pending Cpu p ctx) = ev_References ctx"
  "ev_Abi (remove_pending Cpu p ctx) = ev_Abi ctx"
  "ev_Fifo (remove_pending Cpu p ctx) = ev_Fifo ctx"
  "ev_TwoLevel (remove_pending Cpu p ctx) = ev_TwoLevel ctx"
  "length (ev_Processor (remove_pending Cpu p ctx)) = length (ev_Processor ctx)"
  "Cpu < length (ev_Processor ctx) \<Longrightarrow> pr_PendingList (ev_Processor (remove_pending Cpu p ctx) ! Cpu) = remove1 p (pr_PendingList (ev_Processor ctx ! Cpu))"
  "Cpu < length (ev_Processor ctx) \<Longrightarrow> pr_Context (ev_Processor (remove_pending Cpu p ctx) ! i) = pr_Context (ev_Processor ctx ! i)"
  by (auto simp: remove_pending_def nth_list_update)

lemma put_put_commute: "put_processor i P (put_channel p ch ctx) = put_channel p ch (put_processor i P ctx)"
  by (simp add: put_processor_def put_channel_def)

lemma served_inv:
  assumes inv: "ev_inv l ctx" and Cpu: "Cpu < length (ev_Processor ctx)" and ch: "ev_Channel ctx p = Some ch" "ch_Pending ch"
    and p: "p \<in> set (pr_PendingList (ev_Processor ctx ! Cpu))"
    and ch': "ch' = ch\<lparr>ch_PendingListEntry := False, ch_Pending := False\<rparr>"
  shows "ev_inv l (put_channel p ch' (remove_pending Cpu p ctx))"
proof -
  have "channel_ok (ev_Processor ctx) ch'" using ev_inv_channel_ok [OF inv ch(1)] by (simp add: channel_ok_def ch')
  then show ?thesis unfolding remove_pending_def put_put_commute [symmetric]
    by (intro ev_inv_step [OF inv Cpu ch(1)])
      (use count_list_remove1 [OF p] ch(2) in \<open>simp_all add: ch'\<close>)
qed

lemma moved_inv:
  assumes inv: "ev_inv l ctx" and Cpu: "Cpu < length (ev_Processor ctx)" and ch: "ev_Channel ctx p = Some ch"
    and p: "p \<in> set (pr_PendingList (ev_Processor ctx ! Cpu))"
  shows "ev_inv (l @ [p]) (remove_pending Cpu p ctx)"
proof -
  have "ev_inv (l @ [p]) (put_processor Cpu ((ev_Processor ctx ! Cpu)\<lparr>pr_PendingList := remove1 p (pr_PendingList (ev_Processor ctx ! Cpu))\<rparr>) (put_channel p ch ctx))"
  proof (rule ev_inv_step [OF inv Cpu ch])
    fix q
    show "count_list (pr_PendingList ((ev_Processor ctx ! Cpu)\<lparr>pr_PendingList := remove1 p (pr_PendingList (ev_Processor ctx ! Cpu))\<rparr>)) q +
        count_list (l @ [p]) q + of_bool (q = p \<and> ch_Pending ch) =
      count_list (pr_PendingList (ev_Processor ctx ! Cpu)) q + count_list l q + of_bool (q = p \<and> ch_Pending ch)"
      using count_list_remove1 [OF p, of q] by (auto simp: of_bool_def)
  qed (use ev_inv_channel_ok [OF inv ch] in simp_all)
  moreover have "put_channel p ch ctx = ctx" using ch by (cases ctx) (simp add: put_channel_def fun_upd_idem_iff)
  ultimately show ?thesis by (simp add: remove_pending_def)
qed

lemma serve_channel_keeps:
  assumes inv: "ev_inv l ctx" and Cpu: "Cpu < length (ev_Processor ctx)" and ch: "ev_Channel ctx p = Some ch"
    and p: "p \<in> set (pr_PendingList (ev_Processor ctx ! Cpu))"
    and run: "serve_channel service Cpu p ch ctx = Some (d, c)"
  shows "ev_inv l c \<and> ev_Processor c = ev_Processor (remove_pending Cpu p ctx)"
proof -
  let ?ch = "ch\<lparr>ch_PendingListEntry := False, ch_Pending := False\<rparr>"
  let ?c1 = "put_channel p ?ch (remove_pending Cpu p ctx)"
  from run have pend: "ch_Pending ch" by (simp add: serve_channel_def split: if_splits)
  from run pend obtain c2 c3 where r: "(if ch_Mask ch then abi_PortMask ?c1 (ch_LocalPort ch) else Some ?c1) = Some c2"
    "abi_PortAck c2 (ch_LocalPort ch) = Some c3"
    "c = (put_channel p (?ch\<lparr>ch_Count := ch_Count ch + 1\<rparr>) c3)\<lparr>ev_Services := ev_Services c3 @ [(ch_Callback ch, ch_Argument ch)]\<rparr>"
    by (auto simp: serve_channel_def bind_eq_Some_conv Let_def)
  have inv1: "ev_inv l ?c1" by (rule served_inv [OF inv Cpu ch pend p refl])
  have p12: "pages_only ?c1 c2" using r(1) by (auto split: if_splits dest: pages_only_ops)
  have p23: "pages_only c2 c3" using r(2) by (rule pages_only_ops)
  have inv3: "ev_inv l c3" using inv1 ev_inv_pages [OF p12] ev_inv_pages [OF p23] by simp
  have c3: "ev_Channel c3 p = Some ?ch" "ev_Processor c3 = ev_Processor (remove_pending Cpu p ctx)"
    using pages_only_fields [OF p12] pages_only_fields [OF p23] by simp_all
  have "ev_inv l (put_channel p (?ch\<lparr>ch_Count := ch_Count ch + 1\<rparr>) c3)"
    using ev_inv_channel_ok [OF inv3 c3(1)] by (intro ev_inv_put_channel [OF inv3 c3(1)]) (simp_all add: channel_ok_def)
  then show ?thesis using r(3) c3(2) ev_inv_cong [of c "put_channel p (?ch\<lparr>ch_Count := ch_Count ch + 1\<rparr>) c3" l] by simp
qed

fun collected :: "ULONG_PTR list option \<Rightarrow> ULONG_PTR list" where
  "collected None = []"
| "collected (Some l) = l"

lemma ev_inv_queued_distinct:
  assumes "ev_inv l ctx" and "Cpu < length (ev_Processor ctx)"
  shows "distinct (pr_PendingList (ev_Processor ctx ! Cpu))"
proof -
  have "distinct (queued ctx @ l)" using assms(1) queue_inv_distinct [of "queued ctx @ l" "ev_Channel ctx"] by (simp add: ev_inv_def)
  then have "distinct (queued ctx)" by simp
  moreover have "pr_PendingList (ev_Processor ctx ! Cpu) \<in> set (map pr_PendingList (ev_Processor ctx))" using assms(2) by simp
  ultimately show ?thesis unfolding queued_def distinct_concat_iff by blast
qed

lemma poll_channels_keeps:
  "poll_channels service Cpu ps d List ctx = Some (d', List', c) \<Longrightarrow> ev_inv (collected List) ctx \<Longrightarrow> Cpu < length (ev_Processor ctx) \<Longrightarrow>
     distinct ps \<Longrightarrow> set ps \<subseteq> set (pr_PendingList (ev_Processor ctx ! Cpu)) \<Longrightarrow>
     ev_inv (collected List') c \<and> (List = None \<longleftrightarrow> List' = None) \<and> length (ev_Processor c) = length (ev_Processor ctx)"
proof (induction ps arbitrary: d List ctx)
  case (Cons p ps)
  from Cons.prems(1) obtain ch where ch: "ev_Channel ctx p = Some ch" by (auto simp: bind_eq_Some_conv)
  have p: "p \<in> set (pr_PendingList (ev_Processor ctx ! Cpu))" using Cons.prems(5) by simp
  have left: "set ps \<subseteq> set (remove1 p (pr_PendingList (ev_Processor ctx ! Cpu)))"
    using Cons.prems(4,5) ev_inv_queued_distinct [OF Cons.prems(2,3)] by (auto simp: set_remove1_eq)
  show ?case
  proof (cases "ch_Closed ch")
    case False
    with Cons.prems(1) ch obtain x c1 where s: "serve_channel service Cpu p ch ctx = Some (x, c1)"
      "poll_channels service Cpu ps (d \<or> x) List c1 = Some (d', List', c)" by (auto simp: bind_eq_Some_conv)
    from serve_channel_keeps [OF Cons.prems(2,3) ch p s(1)] Cons.prems(3,4) left
    have "ev_inv (collected List) c1 \<and> length (ev_Processor c1) = length (ev_Processor ctx) \<and>
      set ps \<subseteq> set (pr_PendingList (ev_Processor c1 ! Cpu))" by simp
    then show ?thesis using Cons.IH [OF s(2)] Cons.prems(3,4) by simp
  next
    case True
    show ?thesis
    proof (cases List)
      case None
      then show ?thesis using Cons.IH [of d None ctx] Cons.prems True ch by auto
    next
      case (Some l)
      then have "poll_channels service Cpu ps d (Some (l @ [p])) (remove_pending Cpu p ctx) = Some (d', List', c)"
        using Cons.prems(1) True ch by (auto split: if_splits)
      from Cons.IH [OF this] moved_inv [OF _ Cons.prems(3) ch p, of l] Cons.prems(2-4) left Some show ?thesis by simp
    qed
  qed
qed simp

lemma EvtchnPoll_keeps:
  assumes "EvtchnPoll vcpu_id service ctx Cpu List = Some (d, List', c)" and inv: "ev_inv (collected List) ctx"
  shows "ev_inv (collected List') c \<and> (List = None \<longleftrightarrow> List' = None) \<and> length (ev_Processor c) = length (ev_Processor ctx)"
proof -
  from assms(1) obtain x c1 where r: "Cpu < length (ev_Processor ctx)" "abi_Poll vcpu_id (EvtchnPollCallback Cpu) ctx Cpu = Some (x, c1)"
    "poll_channels service Cpu (pr_PendingList (ev_Processor c1 ! Cpu)) False List c1 = Some (d, List', c)"
    by (auto simp: EvtchnPoll_def bind_eq_Some_conv split: if_splits)
  let ?J = "\<lambda>c. (ev_inv (collected List) c \<and> Cpu < length (ev_Processor c)) \<and> length (ev_Processor c) = length (ev_Processor ctx)"
  have "\<exists>c'. ?J c' \<and> pages_only c' c1"
  proof (rule abi_Poll_keeps [where J = ?J, OF _ r(2)])
    fix Port c d c' assume J: "?J c" and run: "EvtchnPollCallback Cpu Port c = Some (d, c')"
    have "length (ev_Processor c') = length (ev_Processor c)"
      using run by (auto simp: EvtchnPollCallback_def append_pending_def bind_eq_Some_conv split: if_splits)
    then show "?J c'" using EvtchnPollCallback_keeps [OF conjunct1 [OF J] run] J by simp
  qed (use inv r(1) in simp)
  then obtain c' where c': "?J c'" "pages_only c' c1" by blast
  have c1: "ev_inv (collected List) c1" "Cpu < length (ev_Processor c1)" "length (ev_Processor c1) = length (ev_Processor ctx)"
    using c' ev_inv_pages [OF c'(2)] pages_only_fields [OF c'(2)] by simp_all
  from poll_channels_keeps [OF r(3) c1(1,2) ev_inv_queued_distinct [OF c1(1,2)]] c1(3) show ?thesis by simp
qed

section \<open>Reaping and flushing keep the invariant\<close>

lemma hypercall_simps [simp]:
  "ev_Channel (hypercall h ctx) = ev_Channel ctx" "ev_Table (hypercall h ctx) = ev_Table ctx"
  "ev_List (hypercall h ctx) = ev_List ctx" "ev_Processor (hypercall h ctx) = ev_Processor ctx"
  "ev_Abi (hypercall h ctx) = ev_Abi ctx" "ev_Fifo (hypercall h ctx) = ev_Fifo ctx" "ev_TwoLevel (hypercall h ctx) = ev_TwoLevel ctx"
  "ev_Calls (hypercall h ctx) = ev_Calls ctx @ [h]" "ev_References (hypercall h ctx) = ev_References ctx"
  "ev_Services (hypercall h ctx) = ev_Services ctx"
  by (simp_all add: hypercall_def)

lemma EvtchnReap_shape:
  assumes "EvtchnReap ctx p Close = Some c"
  shows "\<exists>ch. ev_Channel ctx p = Some ch \<and> ch_Closed ch \<and> \<not> ch_Pending ch \<and> \<not> ch_Active ch \<and>
     c = (if Close \<and> ch_Type ch \<noteq> TYPE_FIXED then hypercall (EventChannelClose (ch_LocalPort ch)) ctx else ctx)
       \<lparr>ev_List := remove1 p (ev_List ctx), ev_Channel := (ev_Channel ctx)(p := None)\<rparr>"
proof -
  from assms obtain ch where ch: "ev_Channel ctx p = Some ch" by (auto simp: EvtchnReap_def bind_eq_Some_conv)
  have pend: "\<not> ch_Pending ch \<and> \<not> ch_Active ch" if "ch\<lparr>ch_Count := 0, ch_Closed := False, ch_Cpu := 0, ch_LocalPort := 0, ch_Mask := False,
      ch_Parameters := NoParameters, ch_Argument := 0, ch_Callback := 0, ch_Type := TYPE_INVALID\<rparr> = zero_CHANNEL"
    using arg_cong [OF that, of ch_Pending] arg_cong [OF that, of ch_Active] by (simp add: zero_CHANNEL_def)
  show ?thesis using assms ch pend
    by (intro exI [of _ ch]) (auto simp: EvtchnReap_def Let_def hypercall_def split: if_splits)
qed

lemma EvtchnReap_keeps:
  assumes inv: "ev_inv l ctx" and run: "EvtchnReap ctx p Close = Some c"
  shows "ev_inv l c"
proof -
  from EvtchnReap_shape [OF run] obtain ch where ch: "ev_Channel ctx p = Some ch" "\<not> ch_Pending ch" "\<not> ch_Active ch"
    and c: "ev_Channel c = (ev_Channel ctx)(p := None)" "ev_List c = remove1 p (ev_List ctx)" "ev_Table c = ev_Table ctx"
      "ev_Processor c = ev_Processor ctx" by (auto split: if_splits)
  have "is_pending (ev_Channel c) = is_pending (ev_Channel ctx)" using ch(1,2) by (auto simp: is_pending_def c fun_eq_iff)
  then have "queue_inv (queued c @ l) (ev_Channel c)" using inv by (simp add: ev_inv_def queue_inv_def queued_def c)
  moreover have "table_inv (ev_Table c) (ev_Channel c)" using inv ch(1,3) by (auto simp: ev_inv_def table_inv_def c)
  moreover have "list_inv (ev_List c) (ev_Channel c)" using inv by (auto simp: ev_inv_def list_inv_def c)
  ultimately show ?thesis using inv by (auto simp: ev_inv_def c ran_def)
qed

lemma reaped_inv:
  assumes inv: "ev_inv (p # l) ctx" and ch: "ev_Channel ctx p = Some ch" "ch_Pending ch"
  shows "ev_inv l (put_channel p (ch\<lparr>ch_PendingListEntry := False, ch_Pending := False\<rparr>) ctx)"
proof -
  have 0: "0 < length (ev_Processor ctx)" using inv by (simp add: ev_inv_def processors_ok_def)
  have "channel_ok (ev_Processor ctx) (ch\<lparr>ch_PendingListEntry := False, ch_Pending := False\<rparr>)"
    using ev_inv_channel_ok [OF inv ch(1)] by (simp add: channel_ok_def)
  then have "ev_inv l (put_processor 0 (ev_Processor ctx ! 0) (put_channel p (ch\<lparr>ch_PendingListEntry := False, ch_Pending := False\<rparr>) ctx))"
    by (intro ev_inv_step [OF inv 0 ch(1)]) (use ch(2) in \<open>auto simp: of_bool_def\<close>)
  then show ?thesis using put_processor_id [of 0 "put_channel p (ch\<lparr>ch_PendingListEntry := False, ch_Pending := False\<rparr>) ctx"] by simp
qed

lemma reap_channels_keeps: "reap_channels ps ctx = Some c \<Longrightarrow> ev_inv ps ctx \<Longrightarrow> evtchn_wf c"
proof (induction ps arbitrary: ctx)
  case (Cons p ps)
  from Cons.prems(1) obtain ch c1 where r: "ev_Channel ctx p = Some ch" "ch_Pending ch"
    "EvtchnReap (put_channel p (ch\<lparr>ch_PendingListEntry := False, ch_Pending := False\<rparr>) ctx) p True = Some c1" "reap_channels ps c1 = Some c"
    by (auto simp: bind_eq_Some_conv split: if_splits)
  from EvtchnReap_keeps [OF reaped_inv [OF Cons.prems(2) r(1,2)] r(3)] show ?case by (rule Cons.IH [OF r(4)])
qed simp

lemma EvtchnFlush_keeps:
  assumes "EvtchnFlush vcpu_id service ctx Cpu = Some c" and "evtchn_wf ctx"
  shows "evtchn_wf c"
proof -
  from assms(1) obtain d List c1 where r: "EvtchnPoll vcpu_id service ctx Cpu (Some []) = Some (d, List, c1)" "reap_channels (the List) c1 = Some c"
    by (auto simp: EvtchnFlush_def bind_eq_Some_conv split: if_splits)
  from EvtchnPoll_keeps [OF r(1)] assms(2) have "ev_inv (the List) c1" by (cases List) auto
  then show ?thesis by (rule reap_channels_keeps [OF r(2)])
qed

lemma EvtchnDpc_keeps:
  assumes "EvtchnDpc vcpu_id service ctx Cpu = Some c" and "evtchn_wf ctx"
  shows "evtchn_wf c"
  using assms EvtchnFlush_keeps ev_inv_dpc [OF assms(2), of Cpu False] by (auto simp: EvtchnDpc_def Let_def split: if_splits)

section \<open>The operations of the interface keep the invariant\<close>

lemma EvtchnTrigger_law:
  assumes inv: "ev_inv l ctx" and ch: "ev_Channel ctx p = Some ch"
  shows "\<exists>c. EvtchnTrigger ctx p = Some c \<and> ev_inv l c \<and> ev_Channel c = (ev_Channel ctx)(p \<mapsto> ch\<lparr>ch_Pending := True, ch_PendingListEntry := True\<rparr>) \<and>
     p \<in> set (queued c @ l) \<and> (if ch_Pending ch then c = ctx else pr_Dpc (ev_Processor c ! ch_Cpu ch) \<and> p \<in> set (pr_PendingList (ev_Processor c ! ch_Cpu ch)))"
proof -
  have ok: "channel_ok (ev_Processor ctx) ch" by (rule ev_inv_channel_ok [OF inv ch])
  then have Cpu: "ch_Cpu ch < length (ev_Processor ctx)" "pr_Context (ev_Processor ctx ! ch_Cpu ch)" by (simp_all add: channel_ok_def)
  have q: "queue_inv (queued ctx @ l) (ev_Channel ctx)" using inv by (simp add: ev_inv_def)
  show ?thesis
  proof (cases "ch_Pending ch")
    case True
    then have "ch\<lparr>ch_Pending := True, ch_PendingListEntry := True\<rparr> = ch" using ok by (cases ch) (simp add: channel_ok_def)
    moreover have "p \<in> set (queued ctx @ l)" using queue_inv_mem [OF q, of p] ch True by (simp add: is_pending_def)
    ultimately show ?thesis using True ch Cpu inv by (simp add: EvtchnTrigger_def map_upd_triv)
  next
    case False
    from append_pending_law [OF inv Cpu ch False] obtain c1 where c1: "append_pending (ch_Cpu ch) p ctx = Some c1" "ev_inv l c1"
      "ev_Processor c1 = (ev_Processor ctx)[ch_Cpu ch := (ev_Processor ctx ! ch_Cpu ch)\<lparr>pr_PendingList := pr_PendingList (ev_Processor ctx ! ch_Cpu ch) @ [p]\<rparr>]"
      "ev_Channel c1 = (ev_Channel ctx)(p \<mapsto> ch\<lparr>ch_Pending := True, ch_PendingListEntry := True\<rparr>)" by blast
    let ?c = "put_processor (ch_Cpu ch) ((ev_Processor c1 ! ch_Cpu ch)\<lparr>pr_Dpc := True\<rparr>) c1"
    have wf: "ev_inv l ?c" by (rule ev_inv_dpc [OF c1(2)])
    moreover have run: "EvtchnTrigger ctx p = Some ?c" using ch Cpu False c1(1) by (simp add: EvtchnTrigger_def Let_def)
    moreover have "p \<in> set (pr_PendingList (ev_Processor ?c ! ch_Cpu ch))" using c1(3) Cpu by simp
    moreover from this have "p \<in> set (queued ?c)" using queued_member [of "ch_Cpu ch" ?c p] c1(3) Cpu by simp
    ultimately show ?thesis using False c1(3,4) Cpu by (intro exI [of _ ?c]) simp
  qed
qed

lemma EvtchnBind_keeps:
  assumes inv: "evtchn_wf ctx" and run: "EvtchnBind env ctx p Group Number = Some (st, c)"
  shows "evtchn_wf c"
proof -
  let ?Cpu = "ee_cpu env Group Number"
  from run obtain ch where ch: "ev_Channel ctx p = Some ch" by (auto simp: EvtchnBind_def bind_eq_Some_conv)
  with run have Cpu: "?Cpu < length (ev_Processor ctx)" by (simp add: EvtchnBind_def Let_def split: if_split_asm)
  have ok: "channel_ok (ev_Processor ctx) ch" by (rule ev_inv_channel_ok [OF inv ch])
  have procs: "processors_ok (ev_Processor ctx)" using inv by (simp add: ev_inv_def)
  consider "c = ctx" | v where "pr_UpcallEnabled (ev_Processor ctx ! ?Cpu) \<or> ?Cpu = 0"
    "c = put_channel p (ch\<lparr>ch_Cpu := ?Cpu\<rparr>) (hypercall (EventChannelBindVirtualCpu (ch_LocalPort ch) v) ctx)"
    using run ch Cpu that unfolding EvtchnBind_def Let_def by (auto split: if_split_asm prod.splits)
  then show ?thesis
  proof cases
    case 2
    then have ctx: "pr_Context (ev_Processor ctx ! ?Cpu)" using procs Cpu by (auto simp: processors_ok_def)
    let ?c = "hypercall (EventChannelBindVirtualCpu (ch_LocalPort ch) v) ctx"
    have wf: "evtchn_wf ?c" using inv ev_inv_cong [of ?c ctx "[]"] by simp
    moreover have "ev_Channel ?c p = Some ch" using ch by simp
    ultimately show ?thesis unfolding 2(2)
      by (rule ev_inv_put_channel) (use ok Cpu ctx in \<open>simp_all add: channel_ok_def\<close>)
  qed (use inv in simp)
qed

lemma EvtchnUnmask_keeps:
  assumes inv: "evtchn_wf ctx" and run: "EvtchnUnmask env Current ctx p InUpcall Force = Some (r, c)"
  shows "evtchn_wf c"
proof -
  from run obtain ch where ch: "ev_Channel ctx p = Some ch" by (auto simp: EvtchnUnmask_def bind_eq_Some_conv)
  have "\<exists>c1. pages_only ctx c1 \<and> (c = c1 \<or> (\<exists>h. c = hypercall h c1))"
  proof (cases "ch_Active ch")
    case False
    then show ?thesis using run ch by (intro exI [of _ ctx]) (simp add: EvtchnUnmask_def)
  next
    case True
    then obtain x c1 where u: "abi_PortUnmask (ee_rounds env) ctx (ch_LocalPort ch) = Some (x, c1)"
      using run ch by (auto simp: EvtchnUnmask_def bind_eq_Some_conv)
    note p1 = pages_only_ops(4) [OF u]
    consider "c = c1" | c2 where "abi_PortMask c1 (ch_LocalPort ch) = Some c2" "c = hypercall (EventChannelUnmask (ch_LocalPort ch)) c2"
      | c2 where "abi_PortMask c1 (ch_LocalPort ch) = Some c2" "abi_PortAck c2 (ch_LocalPort ch) = Some c"
      | "abi_PortAck c1 (ch_LocalPort ch) = Some c"
      using run ch True u that by (auto simp: EvtchnUnmask_def bind_eq_Some_conv split: if_split_asm)
    then show ?thesis
      by cases (use p1 in \<open>blast dest: pages_only_ops intro: pages_only_trans\<close>)+
  qed
  then obtain c1 where c1: "pages_only ctx c1" "c = c1 \<or> (\<exists>h. c = hypercall h c1)" by blast
  have "evtchn_wf (hypercall h c1) = evtchn_wf c1" for h by (rule ev_inv_cong) simp_all
  then show ?thesis using inv ev_inv_pages [OF c1(1)] c1(2) by auto
qed

text \<open>Taking an active channel out of the table, as closing and suspending do.\<close>

lemma deactivate_inv:
  assumes inv: "ev_inv l ctx" and ch: "ev_Channel ctx p = Some ch" "ch_Active ch"
    and ch': "channel_ok (ev_Processor ctx) ch'" "\<not> ch_Active ch'" "ch_Pending ch' = ch_Pending ch"
  shows "\<exists>T. HashTableRemove (ev_Table ctx) (of_nat (ch_LocalPort ch)) = Some (STATUS_SUCCESS, T) \<and>
     ev_inv l (put_channel p ch' (ctx\<lparr>ev_Table := T\<rparr>))"
proof -
  let ?k = "of_nat (ch_LocalPort ch) :: ULONG_PTR"
  have t: "ht_wf (ev_Table ctx)" "\<forall>k. length (ht_values (ev_Table ctx) k) \<le> 1"
    "\<forall>k q. q \<in> set (ht_values (ev_Table ctx) k) \<longleftrightarrow> (\<exists>c. ev_Channel ctx q = Some c \<and> ch_Active c \<and> of_nat (ch_LocalPort c) = k)"
    using inv by (simp_all add: ev_inv_def table_inv_def)
  then have mem: "p \<in> set (ht_values (ev_Table ctx) ?k)" using ch by blast
  with t(2) have one: "ht_values (ev_Table ctx) ?k = [p]"
    by (cases "ht_values (ev_Table ctx) ?k") (auto dest: spec [of _ ?k])
  then obtain T where T: "HashTableRemove (ev_Table ctx) ?k = Some (STATUS_SUCCESS, T)" "ht_wf T" "ht_values T = (ht_values (ev_Table ctx))(?k := [])"
    using HashTableRemove_law [OF t(1), of ?k] by auto
  have "table_inv T ((ev_Channel ctx)(p \<mapsto> ch'))" unfolding table_inv_def
  proof (intro conjI allI)
    fix k q
    show "q \<in> set (ht_values T k) \<longleftrightarrow> (\<exists>c. ((ev_Channel ctx)(p \<mapsto> ch')) q = Some c \<and> ch_Active c \<and> of_nat (ch_LocalPort c) = k)"
    proof (cases "q = p")
      case True
      have "p \<notin> set (ht_values T k)"
      proof (cases "k = ?k")
        case False
        then have "\<not> (\<exists>c. ev_Channel ctx p = Some c \<and> ch_Active c \<and> of_nat (ch_LocalPort c) = k)" using ch by auto
        then show ?thesis using t(3) T(3) False by simp
      qed (simp add: T(3))
      then show ?thesis using True ch'(2) by simp
    next
      case other: False
      show ?thesis
      proof (cases "k = ?k")
        case True
        have "q \<notin> set (ht_values (ev_Table ctx) ?k)" using one other by simp
        then have "\<not> (\<exists>c. ev_Channel ctx q = Some c \<and> ch_Active c \<and> of_nat (ch_LocalPort c) = ?k)"
          by (simp only: spec [OF spec [OF t(3), of ?k], of q] not_False_eq_True)
        then show ?thesis using other True T(3) by simp
      next
        case False
        then show ?thesis using other t(3) T(3) by simp
      qed
    qed
  qed (use T t(2) in auto)
  moreover have "list_inv (ev_List ctx) ((ev_Channel ctx)(p \<mapsto> ch'))" using inv ch(1) by (auto simp: ev_inv_def list_inv_def)
  moreover have "is_pending ((ev_Channel ctx)(p \<mapsto> ch')) = is_pending (ev_Channel ctx)" using ch ch'(3) by (auto simp: is_pending_def fun_eq_iff)
  then have "queue_inv (queued ctx @ l) ((ev_Channel ctx)(p \<mapsto> ch'))" using inv by (simp add: ev_inv_def queue_inv_def)
  moreover have "\<forall>c \<in> ran ((ev_Channel ctx)(p \<mapsto> ch')). channel_ok (ev_Processor ctx) c" using inv ch'(1) by (auto simp: ev_inv_def ran_def)
  ultimately show ?thesis using T(1) inv by (intro exI [of _ T]) (simp add: ev_inv_def queued_def)
qed

lemma evtchn_mark_closed_keeps:
  assumes inv: "evtchn_wf ctx" and ch: "ev_Channel ctx p = Some ch" "ch_Active ch" and run: "evtchn_mark_closed ctx p = Some c"
  shows "evtchn_wf c \<and> ev_Channel c = (ev_Channel ctx)(p \<mapsto> ch\<lparr>ch_Active := False, ch_Closed := True\<rparr>) \<and> ev_Processor c = ev_Processor ctx"
proof -
  let ?ch = "ch\<lparr>ch_Active := False, ch_Closed := True\<rparr>"
  have "channel_ok (ev_Processor ctx) ?ch" using ev_inv_channel_ok [OF inv ch(1)] by (simp add: channel_ok_def)
  from deactivate_inv [OF inv ch this] obtain T where
    T: "HashTableRemove (ev_Table ctx) (of_nat (ch_LocalPort ch)) = Some (STATUS_SUCCESS, T)" "evtchn_wf (put_channel p ?ch (ctx\<lparr>ev_Table := T\<rparr>))"
    by auto
  from run ch(1) obtain c2 where c2: "abi_PortDisable (put_channel p (ch\<lparr>ch_Active := False\<rparr>) ctx) (ch_LocalPort ch) = Some c2"
    by (auto simp: evtchn_mark_closed_def bind_eq_Some_conv)
  note f = pages_only_fields [OF pages_only_ops(3) [OF c2]]
  have c: "c = put_channel p ?ch (c2\<lparr>ev_Table := T\<rparr>)" using run ch(1) c2 T(1) by (simp add: evtchn_mark_closed_def f)
  have "evtchn_wf c = evtchn_wf (put_channel p ?ch (ctx\<lparr>ev_Table := T\<rparr>))" unfolding c by (rule ev_inv_cong) (simp_all add: f)
  then show ?thesis using T(2) by (simp add: c f)
qed

lemma EvtchnClose_keeps:
  assumes inv: "evtchn_wf ctx" and run: "EvtchnClose ctx p = Some c"
  shows "evtchn_wf c"
proof -
  from run obtain ch where ch: "ev_Channel ctx p = Some ch" by (auto simp: EvtchnClose_def bind_eq_Some_conv)
  show ?thesis
  proof (cases "ch_Active ch")
    case True
    with run ch obtain c1 where c1: "evtchn_mark_closed ctx p = Some c1" "EvtchnTrigger c1 p = Some c"
      by (auto simp: EvtchnClose_def bind_eq_Some_conv)
    note m = evtchn_mark_closed_keeps [OF inv ch True c1(1)]
    then have "ev_Channel c1 p = Some (ch\<lparr>ch_Active := False, ch_Closed := True\<rparr>)" by simp
    from EvtchnTrigger_law [OF conjunct1 [OF m] this] c1(2) show ?thesis by auto
  next
    case False
    have "evtchn_wf (put_channel p (ch\<lparr>ch_Closed := True\<rparr>) ctx)"
      by (rule ev_inv_put_channel [OF inv ch]) (use ev_inv_channel_ok [OF inv ch] False in \<open>simp_all add: channel_ok_def\<close>)
    moreover have "EvtchnReap (put_channel p (ch\<lparr>ch_Closed := True\<rparr>) ctx) p False = Some c" using run ch False by (simp add: EvtchnClose_def)
    ultimately show ?thesis by (rule EvtchnReap_keeps)
  qed
qed

text \<open>Opening, on a free address and a port that no active channel has.\<close>

definition port_free :: "XENBUS_EVTCHN_CONTEXT \<Rightarrow> nat \<Rightarrow> bool" where
  "port_free ctx Port \<longleftrightarrow> Port < 2 ^ 32 \<and> (\<forall>ch \<in> ran (ev_Channel ctx). ch_Active ch \<longrightarrow> ch_LocalPort ch \<noteq> Port)"

lemma of_nat_port: "(of_nat a :: ULONG_PTR) = of_nat b \<longleftrightarrow> a = b" if "a < 2 ^ 32" "b < 2 ^ 32"
  using that by (simp add: word_of_nat_eq_iff take_bit_nat_eq_self_iff [THEN iffD2] take_bit_nat_def)

lemma add_channel_inv:
  assumes inv: "evtchn_wf ctx" and free: "ev_Channel ctx p = None" "port_free ctx (ch_LocalPort ch)"
    and ch: "ch_Active ch" "\<not> ch_Closed ch" "\<not> ch_Pending ch" "\<not> ch_PendingListEntry ch" "ch_Cpu ch = 0"
    and T: "HashTableAdd True (ev_Table ctx) (of_nat (ch_LocalPort ch)) p = Some (STATUS_SUCCESS, T)"
  shows "evtchn_wf ((put_channel p ch (ctx\<lparr>ev_Table := T\<rparr>))\<lparr>ev_List := ev_List ctx @ [p]\<rparr>)"
proof -
  let ?k = "of_nat (ch_LocalPort ch) :: ULONG_PTR" and ?C = "(ev_Channel ctx)(p \<mapsto> ch)"
  have t: "ht_wf (ev_Table ctx)" "\<forall>k. length (ht_values (ev_Table ctx) k) \<le> 1"
    "\<forall>k q. q \<in> set (ht_values (ev_Table ctx) k) \<longleftrightarrow> (\<exists>c. ev_Channel ctx q = Some c \<and> ch_Active c \<and> of_nat (ch_LocalPort c) = k)"
    and procs: "processors_ok (ev_Processor ctx)" using inv by (simp_all add: ev_inv_def table_inv_def)
  have fresh: "of_nat (ch_LocalPort c) \<noteq> ?k" if "ev_Channel ctx q = Some c" "ch_Active c" for q c
  proof -
    have "ch_LocalPort c < 2 ^ 32" using ev_inv_channel_ok [OF inv that(1)] that(2) by (simp add: channel_ok_def)
    moreover have "ch_LocalPort c \<noteq> ch_LocalPort ch" using free(2) that by (auto simp: port_free_def ran_def)
    ultimately show ?thesis using free(2) of_nat_port [of "ch_LocalPort c" "ch_LocalPort ch"] by (simp add: port_free_def)
  qed
  have none: "ht_values (ev_Table ctx) ?k = []"
  proof (cases "ht_values (ev_Table ctx) ?k")
    case (Cons q qs)
    then have "q \<in> set (ht_values (ev_Table ctx) ?k)" by simp
    then obtain c where "ev_Channel ctx q = Some c" "ch_Active c" "of_nat (ch_LocalPort c) = ?k"
      unfolding spec [OF spec [OF t(3), of ?k], of q] by (elim exE conjE)
    then show ?thesis using fresh by blast
  qed
  from HashTableAdd_law [OF t(1), of ?k p] T have T': "ht_wf T" "ht_values T = (ht_values (ev_Table ctx))(?k := [p])" by (auto simp: none)
  have "table_inv T ?C" unfolding table_inv_def
  proof (intro conjI allI)
    fix k q
    show "q \<in> set (ht_values T k) \<longleftrightarrow> (\<exists>c. ?C q = Some c \<and> ch_Active c \<and> of_nat (ch_LocalPort c) = k)"
    proof (cases "k = ?k")
      case True
      have "q \<notin> set (ht_values (ev_Table ctx) ?k)" using none by simp
      then have "\<not> (\<exists>c. ev_Channel ctx q = Some c \<and> ch_Active c \<and> of_nat (ch_LocalPort c) = ?k)"
        by (simp only: spec [OF spec [OF t(3), of ?k], of q] not_False_eq_True)
      then show ?thesis using True T'(2) ch(1) by auto
    qed (use t(3) free(1) T'(2) in auto)
  qed (use T' t(2) in auto)
  moreover have "list_inv (ev_List ctx @ [p]) ?C" using inv free(1) by (auto simp: ev_inv_def list_inv_def)
  moreover have "is_pending ?C = is_pending (ev_Channel ctx)" using free(1) ch(3) by (auto simp: is_pending_def fun_eq_iff)
  then have "queue_inv (queued ctx) ?C" using inv by (simp add: ev_inv_def queue_inv_def)
  moreover have "channel_ok (ev_Processor ctx) ch" using procs ch free(2) by (simp add: channel_ok_def processors_ok_def port_free_def)
  then have "\<forall>c \<in> ran ?C. channel_ok (ev_Processor ctx) c" using inv by (auto simp: ev_inv_def ran_def)
  ultimately show ?thesis using procs by (simp add: ev_inv_def queued_def)
qed

section \<open>Suspending and resuming keep the invariant\<close>

lemma suspend_channels_keeps: "suspend_channels ps ctx = Some c \<Longrightarrow> evtchn_wf ctx \<Longrightarrow> evtchn_wf c"
proof (induction ps arbitrary: ctx)
  case (Cons p ps)
  from Cons.prems(1) obtain ch where ch: "ev_Channel ctx p = Some ch" by (auto simp: bind_eq_Some_conv)
  show ?case
  proof (cases "ch_Active ch")
    case True
    have "channel_ok (ev_Processor ctx) (ch\<lparr>ch_Active := False\<rparr>)" using ev_inv_channel_ok [OF Cons.prems(2) ch] by (simp add: channel_ok_def)
    from deactivate_inv [OF Cons.prems(2) ch True this] obtain T where
      T: "HashTableRemove (ev_Table ctx) (of_nat (ch_LocalPort ch)) = Some (STATUS_SUCCESS, T)" "evtchn_wf (put_channel p (ch\<lparr>ch_Active := False\<rparr>) (ctx\<lparr>ev_Table := T\<rparr>))"
      by auto
    then show ?thesis using Cons.IH Cons.prems(1) ch True by simp
  next
    case False
    then show ?thesis using Cons ch by simp
  qed
qed simp

lemma ev_inv_upcall:
  assumes inv: "ev_inv l ctx" and "d \<Longrightarrow> pr_Context (ev_Processor ctx ! Cpu)"
  shows "ev_inv l (put_processor Cpu ((ev_Processor ctx ! Cpu)\<lparr>pr_UpcallEnabled := d\<rparr>) ctx)"
proof (cases "Cpu < length (ev_Processor ctx)")
  case True
  let ?P = "(ev_Processor ctx ! Cpu)\<lparr>pr_UpcallEnabled := d\<rparr>"
  have "map pr_PendingList ((ev_Processor ctx)[Cpu := ?P]) = map pr_PendingList (ev_Processor ctx)"
    using True by (intro map_update_same) simp_all
  then have "queued (put_processor Cpu ?P ctx) = queued ctx" by (simp add: queued_def)
  moreover have "channel_ok ((ev_Processor ctx)[Cpu := ?P]) c = channel_ok (ev_Processor ctx) c" for c
    by (rule channel_ok_update) simp
  moreover have "processors_ok ((ev_Processor ctx)[Cpu := ?P])"
  proof -
    have ok: "processors_ok (ev_Processor ctx)" using inv by (simp add: ev_inv_def)
    have "\<forall>Q \<in> set ((ev_Processor ctx)[Cpu := ?P]). pr_UpcallEnabled Q \<longrightarrow> pr_Context Q"
    proof
      fix Q assume "Q \<in> set ((ev_Processor ctx)[Cpu := ?P])"
      then have "Q \<in> set (ev_Processor ctx) \<or> Q = ?P" using set_update_subset_insert [of "ev_Processor ctx" Cpu ?P] by auto
      then show "pr_UpcallEnabled Q \<longrightarrow> pr_Context Q" using ok assms(2) by (auto simp: processors_ok_def)
    qed
    then show ?thesis using ok True by (cases "Cpu = 0") (simp_all add: processors_ok_def)
  qed
  ultimately show ?thesis using inv by (simp add: ev_inv_def)
next
  case False
  then show ?thesis using inv by (simp add: put_processor_def list_update_beyond)
qed

lemma hypervisor_pages: "pages_only ctx (hypervisor_writes h ctx)"
proof -
  obtain s f where "h (tl_page (ev_TwoLevel ctx), ev_Fifo ctx) = (s, f)" by (cases "h (tl_page (ev_TwoLevel ctx), ev_Fifo ctx)")
  then have "hypervisor_writes h ctx = ctx\<lparr>ev_Fifo := f, ev_TwoLevel := set_page s (ev_TwoLevel ctx)\<rparr>" by (simp add: hypervisor_writes_def)
  then show ?thesis unfolding pages_only_def by blast
qed

lemma UpcallPending_pages: "UpcallPending ctx Cpu = Some (r, c) \<Longrightarrow> pages_only ctx c"
  by (auto simp: UpcallPending_def bind_eq_Some_conv)

lemma interrupt_loop_keeps:
  assumes "interrupt_loop vcpu_id service hyper n Cpu d ctx = Some r" and "evtchn_wf ctx"
  shows "evtchn_wf (snd r)"
proof -
  have "evtchn_wf ctx \<longrightarrow> evtchn_wf (snd r)"
  proof (rule interrupt_loop.raw_induct [where P = "\<lambda>vcpu_id service hyper n Cpu d ctx r. evtchn_wf ctx \<longrightarrow> evtchn_wf (snd r)", OF _ assms(1)], intro impI)
    fix f vcpu_id service hyper n Cpu d ctx r
    assume IH: "\<And>vcpu_id service hyper n Cpu d ctx r. f vcpu_id service hyper n Cpu d ctx = Some r \<Longrightarrow> evtchn_wf ctx \<longrightarrow> evtchn_wf (snd r)"
      and wf: "evtchn_wf ctx"
      and step: "Option.bind (UpcallPending (hypervisor_writes (hyper n) ctx) Cpu) (\<lambda>(r, ctx1).
         if \<not> r then Some (d, ctx1) else Option.bind (EvtchnPoll vcpu_id service ctx1 Cpu None)
           (\<lambda>(x, _, ctx2). f vcpu_id service hyper (Suc n) Cpu (d \<or> x) ctx2)) = Some r"
    from step obtain t c1 where c1: "UpcallPending (hypervisor_writes (hyper n) ctx) Cpu = Some (t, c1)" by (auto simp: bind_eq_Some_conv)
    have wf1: "evtchn_wf c1"
      using wf ev_inv_pages [OF UpcallPending_pages [OF c1]] ev_inv_pages [OF hypervisor_pages] by blast
    show "evtchn_wf (snd r)"
    proof (cases t)
      case False
      then show ?thesis using step c1 wf1 by auto
    next
      case True
      with step c1 obtain x l c2 where c2: "EvtchnPoll vcpu_id service c1 Cpu None = Some (x, l, c2)" "f vcpu_id service hyper (Suc n) Cpu (d \<or> x) c2 = Some r"
        by (auto simp: bind_eq_Some_conv)
      from EvtchnPoll_keeps [OF c2(1)] wf1 have "evtchn_wf c2" by (cases l) auto
      then show ?thesis using IH [OF c2(2)] by blast
    qed
  qed
  then show ?thesis using assms(2) by blast
qed

lemma EvtchnInterruptCallback_keeps:
  "EvtchnInterruptCallback vcpu_id service hyper ctx Cpu = Some (d, c) \<Longrightarrow> evtchn_wf ctx \<Longrightarrow> evtchn_wf c"
  using interrupt_loop_keeps [of vcpu_id service hyper 0 Cpu False ctx "(d, c)"] by (auto simp: EvtchnInterruptCallback_def split: if_splits)

lemma ev_inv_hypercall [simp]: "ev_inv l (hypercall h ctx) = ev_inv l ctx"
  by (rule ev_inv_cong) simp_all

lemma enable_upcalls_keeps: "enable_upcalls env is ctx = Some c \<Longrightarrow> evtchn_wf ctx \<Longrightarrow> evtchn_wf c"
proof (induction "is" arbitrary: ctx)
  case (Cons Cpu cpus)
  from Cons.prems(1) obtain en where en: "EvtchnIsProcessorEnabled (ae_vcpu env) ctx Cpu = Some en" by (auto simp: bind_eq_Some_conv)
  show ?case
  proof (cases en)
    case False
    then show ?thesis using Cons en by simp
  next
    case True
    with Cons.prems(1) en obtain V where V: "pr_Interrupt (ev_Processor ctx ! Cpu) = Some V" "NT_SUCCESS (fst (ae_vcpu env Cpu))"
      by (auto simp: bind_eq_Some_conv split: if_splits)
    let ?st = "ae_upcall env (snd (ae_vcpu env Cpu)) V"
    show ?thesis
    proof (cases "NT_SUCCESS ?st")
      case False
      then show ?thesis using Cons True en V by (auto simp: Let_def split: if_splits)
    next
      case ok: True
      let ?c1 = "hypercall (HvmSetEvtchnUpcallVector (snd (ae_vcpu env Cpu)) V) ctx"
      let ?c2 = "put_processor Cpu ((ev_Processor ?c1 ! Cpu)\<lparr>pr_UpcallEnabled := True\<rparr>) ?c1"
      from Cons.prems(1) True en V ok obtain d c3 where c3: "EvtchnInterruptCallback (ae_vcpu env) (ae_service env) (ae_hyper env Cpu) ?c2 Cpu = Some (d, c3)"
        "enable_upcalls env cpus c3 = Some c" by (auto simp: Let_def bind_eq_Some_conv split: if_splits)
      then have "pr_Context (ev_Processor ?c2 ! Cpu)" "Cpu < length (ev_Processor ctx)" by (auto simp: EvtchnInterruptCallback_def split: if_splits)
      then have "pr_Context (ev_Processor ?c1 ! Cpu)" by simp
      then have "evtchn_wf ?c2" using Cons.prems(2) by (intro ev_inv_upcall) simp_all
      from EvtchnInterruptCallback_keeps [OF c3(1) this] show ?thesis by (rule Cons.IH [OF c3(2)])
    qed
  qed
qed simp

lemma disable_upcalls_keeps: "disable_upcalls env is ctx = Some c \<Longrightarrow> evtchn_wf ctx \<Longrightarrow> evtchn_wf c"
proof (induction "is" arbitrary: ctx)
  case (Cons Cpu cpus)
  show ?case
  proof (cases "pr_UpcallEnabled (ev_Processor ctx ! Cpu)")
    case True
    let ?c = "hypercall (HvmSetEvtchnUpcallVector (snd (ae_vcpu env Cpu)) 0) ctx"
    have "disable_upcalls env cpus (put_processor Cpu ((ev_Processor ?c ! Cpu)\<lparr>pr_UpcallEnabled := False\<rparr>) ?c) = Some c"
      using Cons.prems(1) True by (auto simp: bind_eq_Some_conv split: if_splits)
    moreover have "evtchn_wf (put_processor Cpu ((ev_Processor ?c ! Cpu)\<lparr>pr_UpcallEnabled := False\<rparr>) ?c)"
      using Cons.prems(2) by (intro ev_inv_upcall) simp_all
    ultimately show ?thesis by (rule Cons.IH)
  qed (use Cons in simp)
qed simp

lemma EvtchnInterruptEnable_keeps:
  assumes "EvtchnInterruptEnable env ctx = Some c" and "evtchn_wf ctx"
  shows "evtchn_wf c"
proof -
  from assms(1) obtain c1 L d where r: "(if ev_UseEvtchnUpcall ctx then enable_upcalls env [0 ..< length (ev_Processor ctx)] ctx else Some ctx) = Some c1"
    "EvtchnInterruptCallback (ae_vcpu env) (ae_service env) (ae_hyper env (length (ev_Processor ctx))) (hypercall (HvmSetCallbackIrq L) c1) 0 = Some (d, c)"
    by (auto simp: EvtchnInterruptEnable_def bind_eq_Some_conv Let_def split: if_splits)
  have "evtchn_wf c1" using r(1) enable_upcalls_keeps assms(2) by (auto split: if_splits)
  then show ?thesis using EvtchnInterruptCallback_keeps [OF r(2)] by simp
qed

lemma EvtchnInterruptDisable_keeps: "EvtchnInterruptDisable env ctx = Some c \<Longrightarrow> evtchn_wf ctx \<Longrightarrow> evtchn_wf c"
  using disable_upcalls_keeps by (auto simp: EvtchnInterruptDisable_def split: if_splits)

lemma EvtchnAbiAcquire_keeps:
  assumes "EvtchnAbiAcquire env ctx = Some (st, c)"
  shows "ev_inv l c = ev_inv l ctx"
proof -
  from assms obtain a c1 where r: "(if ev_UseEvtchnFifoAbi ctx then do {
       (status, f) \<leftarrow> EvtchnFifoAcquire (ae_cpus env) (ae_vcpu env) (ae_block env) (ae_init env) (ae_reset env) (ev_Fifo ctx);
       Some (NT_SUCCESS status, ctx\<lparr>ev_Abi := Some FIFO, ev_Fifo := f\<rparr>) } else Some (False, ctx)) = Some (a, c1)"
    "(if a then Some (STATUS_SUCCESS, c1) else do {
       (status, t) \<leftarrow> EvtchnTwoLevelAcquire (ae_si env) (ev_TwoLevel c1);
       Some (if NT_SUCCESS status then STATUS_SUCCESS else status, c1\<lparr>ev_Abi := Some TWO_LEVEL, ev_TwoLevel := t\<rparr>) }) = Some (st, c)"
    unfolding EvtchnAbiAcquire_def bind_eq_Some_conv by auto
  have "c1 = ctx \<or> (\<exists>f. c1 = ctx\<lparr>ev_Abi := Some FIFO, ev_Fifo := f\<rparr>)"
    using r(1) by (cases "ev_UseEvtchnFifoAbi ctx") (auto simp: bind_eq_Some_conv)
  then have 1: "ev_inv l c1 = ev_inv l ctx" by (intro ev_inv_cong) auto
  have "c = c1 \<or> (\<exists>t. c = c1\<lparr>ev_Abi := Some TWO_LEVEL, ev_TwoLevel := t\<rparr>)"
    using r(2) by (cases a) (auto simp: bind_eq_Some_conv)
  then have "ev_inv l c = ev_inv l c1" by (intro ev_inv_cong) auto
  with 1 show ?thesis by simp
qed

lemma EvtchnSuspendCallbackLate_keeps:
  assumes "EvtchnSuspendCallbackLate env ctx = Some c" and "evtchn_wf ctx"
  shows "evtchn_wf c"
proof -
  from assms(1) obtain c1 st c2 c3 where r: "EvtchnAbiRelease env ctx = Some c1" "EvtchnAbiAcquire env c1 = Some (st, c2)"
    "EvtchnInterruptDisable env c2 = Some c3" "EvtchnInterruptEnable env c3 = Some c"
    by (auto simp: EvtchnSuspendCallbackLate_def bind_eq_Some_conv split: if_splits)
  have "evtchn_wf c1" using r(1) assms(2) ev_inv_cong [of c1 ctx "[]"]
    by (auto simp: EvtchnAbiRelease_def bind_eq_Some_conv split: option.splits XENBUS_EVTCHN_ABI.splits)
  moreover have "evtchn_wf c2 = evtchn_wf c1" by (rule EvtchnAbiAcquire_keeps [OF r(2)])
  ultimately show ?thesis using EvtchnInterruptDisable_keeps [OF r(3)] EvtchnInterruptEnable_keeps [OF r(4)] by blast
qed

end
