(* ===== verification/Evtchn_Poll.thy ===== *)
theory Evtchn_Poll
  imports Evtchn_Inv
begin

text \<open>
  What a poll of the pending channels of a processor does, from the pages of either ABI to the callbacks
  of the channels: the ports that the ABI reports, the channels they put on the pending list, and the
  service of the list.
\<close>

section \<open>The ABI as two bits per port\<close>

definition abi_pages_ok :: "XENBUS_EVTCHN_CONTEXT \<Rightarrow> bool" where
  "abi_pages_ok ctx = (case ev_Abi ctx of None \<Rightarrow> False | Some FIFO \<Rightarrow> fifo_pages_ok (ev_Fifo ctx) | Some TWO_LEVEL \<Rightarrow> page_ok (tl_page (ev_TwoLevel ctx)))"

definition abi_ok :: "XENBUS_EVTCHN_CONTEXT \<Rightarrow> bool" where
  "abi_ok ctx = (case ev_Abi ctx of None \<Rightarrow> False | Some FIFO \<Rightarrow> fifo_ok (ev_Fifo ctx) | Some TWO_LEVEL \<Rightarrow> page_ok (tl_page (ev_TwoLevel ctx)))"

definition abi_ports :: "XENBUS_EVTCHN_CONTEXT \<Rightarrow> nat set" where
  "abi_ports ctx = (case ev_Abi ctx of None \<Rightarrow> {} | Some FIFO \<Rightarrow> fifo_ports (ev_Fifo ctx) | Some TWO_LEVEL \<Rightarrow> {..< 4096})"

definition abi_pending :: "XENBUS_EVTCHN_CONTEXT \<Rightarrow> nat \<Rightarrow> bool" where
  "abi_pending ctx = (case ev_Abi ctx of None \<Rightarrow> (\<lambda>_. False) | Some FIFO \<Rightarrow> fifo_pending (ev_Fifo ctx) | Some TWO_LEVEL \<Rightarrow> port_pending (tl_page (ev_TwoLevel ctx)))"

definition abi_masked :: "XENBUS_EVTCHN_CONTEXT \<Rightarrow> nat \<Rightarrow> bool" where
  "abi_masked ctx = (case ev_Abi ctx of None \<Rightarrow> (\<lambda>_. False) | Some FIFO \<Rightarrow> fifo_masked (ev_Fifo ctx) | Some TWO_LEVEL \<Rightarrow> port_masked (tl_page (ev_TwoLevel ctx)))"

lemmas abi_defs = abi_pages_ok_def abi_ok_def abi_ports_def abi_pending_def abi_masked_def

lemma abi_frame:
  assumes "ev_Abi c = ev_Abi ctx" and "ev_Fifo c = ev_Fifo ctx" and "ev_TwoLevel c = ev_TwoLevel ctx"
  shows "abi_pages_ok c = abi_pages_ok ctx" "abi_ok c = abi_ok ctx" "abi_ports c = abi_ports ctx" "abi_pending c = abi_pending ctx"
    "abi_masked c = abi_masked ctx"
  unfolding abi_defs assms by simp_all

lemma abi_cases:
  assumes "abi_pages_ok ctx"
  obtains (fifo) "ev_Abi ctx = Some FIFO" | (two_level) "ev_Abi ctx = Some TWO_LEVEL"
proof -
  have "ev_Abi ctx = Some FIFO \<or> ev_Abi ctx = Some TWO_LEVEL" using assms
    by (cases "ev_Abi ctx"; cases "the (ev_Abi ctx)") (simp_all add: abi_pages_ok_def)
  then show ?thesis using fifo two_level by blast
qed

lemma abi_ok_pages: "abi_ok ctx \<Longrightarrow> abi_pages_ok ctx"
  by (auto simp: abi_defs fifo_ok_def split: option.splits XENBUS_EVTCHN_ABI.splits)

lemma abi_PortAck_law:
  assumes "abi_pages_ok ctx" and "p \<in> abi_ports ctx"
  shows "\<exists>c. abi_PortAck ctx p = Some c \<and> pages_only ctx c \<and> abi_pages_ok c \<and> abi_ports c = abi_ports ctx \<and>
     (\<forall>q \<in> abi_ports ctx. abi_pending c q = (q \<noteq> p \<and> abi_pending ctx q) \<and> abi_masked c q = abi_masked ctx q)"
  using assms(1)
proof (cases rule: abi_cases)
  case fifo
  then have pg: "fifo_pages_ok (ev_Fifo ctx)" "p \<in> fifo_ports (ev_Fifo ctx)" using assms by (simp_all add: abi_defs)
  let ?f = "put_word p (EvtchnFifoClearFlag (word_of (ev_Fifo ctx) p) EVTCHN_FIFO_PENDING) (ev_Fifo ctx)"
  have "fifo_pending ?f q = (q \<noteq> p \<and> fifo_pending (ev_Fifo ctx) q) \<and> fifo_masked ?f q = fifo_masked (ev_Fifo ctx) q" for q
    using fifo_put_flags [OF pg] by (auto simp: fifo_consts fifo_pending_def fifo_masked_def)
  then show ?thesis using fifo pg
    by (intro exI [of _ "ctx\<lparr>ev_Fifo := ?f\<rparr>"]) (simp add: abi_PortAck_def abi_op_def EvtchnFifoPortAck_port abi_defs)
next
  case two_level
  then have pg: "page_ok (tl_page (ev_TwoLevel ctx))" "p < 4096" using assms by (simp_all add: abi_defs)
  from SharedInfoEvtchnAck_law [OF pg] obtain s where
    "SharedInfoEvtchnAck (tl_page (ev_TwoLevel ctx)) p = Some s" "page_ok s"
    "\<forall>q < 4096. port_pending s q = (q \<noteq> p \<and> port_pending (tl_page (ev_TwoLevel ctx)) q) \<and> port_masked s q = port_masked (tl_page (ev_TwoLevel ctx)) q"
    by auto
  then show ?thesis using two_level
    by (intro exI [of _ "ctx\<lparr>ev_TwoLevel := set_page s (ev_TwoLevel ctx)\<rparr>"])
      (simp add: abi_PortAck_def abi_op_def EvtchnTwoLevelPortAck_def abi_defs)
qed

lemma abi_PortMask_law:
  assumes "abi_pages_ok ctx" and "p \<in> abi_ports ctx"
  shows "\<exists>c. abi_PortMask ctx p = Some c \<and> pages_only ctx c \<and> abi_pages_ok c \<and> abi_ports c = abi_ports ctx \<and>
     (\<forall>q \<in> abi_ports ctx. abi_pending c q = abi_pending ctx q \<and> abi_masked c q = (q = p \<or> abi_masked ctx q))"
  using assms(1)
proof (cases rule: abi_cases)
  case fifo
  then have pg: "fifo_pages_ok (ev_Fifo ctx)" "p \<in> fifo_ports (ev_Fifo ctx)" using assms by (simp_all add: abi_defs)
  let ?f = "put_word p (EvtchnFifoSetFlag (word_of (ev_Fifo ctx) p) EVTCHN_FIFO_MASKED) (ev_Fifo ctx)"
  have "fifo_pending ?f q = fifo_pending (ev_Fifo ctx) q \<and> fifo_masked ?f q = (q = p \<or> fifo_masked (ev_Fifo ctx) q)" for q
    using fifo_put_flags [OF pg] by (auto simp: fifo_consts fifo_pending_def fifo_masked_def)
  then show ?thesis using fifo pg
    by (intro exI [of _ "ctx\<lparr>ev_Fifo := ?f\<rparr>"]) (simp add: abi_PortMask_def abi_op_def EvtchnFifoPortMask_port abi_defs)
next
  case two_level
  then have pg: "page_ok (tl_page (ev_TwoLevel ctx))" "p < 4096" using assms by (simp_all add: abi_defs)
  from SharedInfoEvtchnMask_law [OF pg] obtain s where
    "SharedInfoEvtchnMask (tl_page (ev_TwoLevel ctx)) p = Some s" "page_ok s"
    "\<forall>q < 4096. port_pending s q = port_pending (tl_page (ev_TwoLevel ctx)) q \<and> port_masked s q = (q = p \<or> port_masked (tl_page (ev_TwoLevel ctx)) q)"
    by auto
  then show ?thesis using two_level
    by (intro exI [of _ "ctx\<lparr>ev_TwoLevel := set_page s (ev_TwoLevel ctx)\<rparr>"])
      (simp add: abi_PortMask_def abi_op_def EvtchnTwoLevelPortMask_def abi_defs)
qed

lemma abi_PortUnmask_law:
  assumes "abi_ok ctx" and "p \<in> abi_ports ctx"
  shows "\<exists>c. abi_PortUnmask quiet ctx p = Some (abi_pending ctx p, c) \<and> pages_only ctx c \<and> abi_ok c \<and> abi_ports c = abi_ports ctx \<and>
     (\<forall>q \<in> abi_ports ctx. abi_pending c q = abi_pending ctx q \<and> abi_masked c q = (q \<noteq> p \<and> abi_masked ctx q))"
  using abi_ok_pages [OF assms(1)]
proof (cases rule: abi_cases)
  case fifo
  then have "fifo_ok (ev_Fifo ctx)" "p \<in> fifo_ports (ev_Fifo ctx)" using assms by (simp_all add: abi_defs)
  from fifo.unmask_law [OF this] obtain f where "EvtchnFifoPortUnmask quiet (ev_Fifo ctx) p = Some (fifo_pending (ev_Fifo ctx) p, f)"
    "fifo_ok f" "fifo_ports f = fifo_ports (ev_Fifo ctx)"
    "\<forall>q \<in> fifo_ports (ev_Fifo ctx). fifo_pending f q = fifo_pending (ev_Fifo ctx) q \<and> fifo_masked f q = (q \<noteq> p \<and> fifo_masked (ev_Fifo ctx) q)"
    by (elim exE conjE)
  then show ?thesis using fifo by (intro exI [of _ "ctx\<lparr>ev_Fifo := f\<rparr>"]) (simp add: abi_PortUnmask_def abi_defs)
next
  case two_level
  then have "tl_ok (ev_TwoLevel ctx)" "p \<in> {..< 4096}" using assms by (simp_all add: abi_defs tl_ok_def)
  from two_level.unmask_law [OF this] obtain t where
    "EvtchnTwoLevelPortUnmask (ev_TwoLevel ctx) p = Some (port_pending (tl_page (ev_TwoLevel ctx)) p, t)" "tl_ok t"
    "\<forall>q \<in> {..< 4096}. port_pending (tl_page t) q = port_pending (tl_page (ev_TwoLevel ctx)) q \<and>
       port_masked (tl_page t) q = (q \<noteq> p \<and> port_masked (tl_page (ev_TwoLevel ctx)) q)"
    by (elim exE conjE)
  then show ?thesis using two_level by (intro exI [of _ "ctx\<lparr>ev_TwoLevel := t\<rparr>"]) (simp add: abi_PortUnmask_def abi_defs tl_ok_def)
qed

text \<open>The function table provides the interface of Evtchn\_Abi, whichever ABI is behind it.\<close>

lemma abi_op_ok:
  assumes "abi_ok ctx" and "p \<in> abi_ports ctx"
    and "\<And>f. fifo_op = f \<Longrightarrow> fifo_ok (ev_Fifo ctx) \<Longrightarrow> p \<in> fifo_ports (ev_Fifo ctx) \<Longrightarrow> \<exists>f'. f (ev_Fifo ctx) p = Some f' \<and> fifo_ok f'"
    and "abi_op fifo_op two_level_op ctx p = Some c" and "abi_pages_ok c"
  shows "abi_ok c"
  using abi_ok_pages [OF assms(1)]
proof (cases rule: abi_cases)
  case fifo
  then show ?thesis using assms by (auto simp: abi_op_def abi_defs bind_eq_Some_conv)
next
  case two_level
  then show ?thesis using assms by (auto simp: abi_op_def abi_defs bind_eq_Some_conv)
qed

interpretation abi: evtchn_abi abi_ok abi_ports abi_pending abi_masked abi_PortAck abi_PortMask "abi_PortUnmask quiet"
proof (unfold_locales, goal_cases)
  case (1 ctx p)
  from abi_PortAck_law [OF abi_ok_pages [OF 1(1)] 1(2)] obtain c where c: "abi_PortAck ctx p = Some c" "abi_pages_ok c"
    "abi_ports c = abi_ports ctx" "\<forall>q \<in> abi_ports ctx. abi_pending c q = (q \<noteq> p \<and> abi_pending ctx q) \<and> abi_masked c q = abi_masked ctx q"
    by (elim exE conjE)
  moreover have "abi_ok c" using fifo.ack_law [of "ev_Fifo ctx" p] c(1,2)
    by (intro abi_op_ok [OF 1, of EvtchnFifoPortAck EvtchnTwoLevelPortAck]) (auto simp: abi_PortAck_def)
  ultimately show ?case by blast
next
  case (2 ctx p)
  from abi_PortMask_law [OF abi_ok_pages [OF 2(1)] 2(2)] obtain c where c: "abi_PortMask ctx p = Some c" "abi_pages_ok c"
    "abi_ports c = abi_ports ctx" "\<forall>q \<in> abi_ports ctx. abi_pending c q = abi_pending ctx q \<and> abi_masked c q = (q = p \<or> abi_masked ctx q)"
    by (elim exE conjE)
  moreover have "abi_ok c" using fifo.mask_law [of "ev_Fifo ctx" p] c(1,2)
    by (intro abi_op_ok [OF 2, of EvtchnFifoPortMask EvtchnTwoLevelPortMask]) (auto simp: abi_PortMask_def)
  ultimately show ?case by blast
next
  case (3 ctx p)
  from abi_PortUnmask_law [OF 3] show ?case by blast
qed

section \<open>The ports an ABI reports\<close>

text \<open>Calling a handler for the ports of a list, in order.\<close>

fun run_ports :: "(nat \<Rightarrow> 'c \<Rightarrow> 'c kernel) \<Rightarrow> nat list \<Rightarrow> 'c \<Rightarrow> 'c kernel" where
  "run_ports step [] c = Some c"
| "run_ports step (p # ps) c = Option.bind (step p c) (run_ports step ps)"

lemma run_ports_append: "run_ports step (ps @ qs) c = Option.bind (run_ports step ps c) (run_ports step qs)"
proof (induction ps arbitrary: c)
  case (Cons p ps)
  then show ?case by (cases "step p c") simp_all
qed simp

text \<open>A handler that leaves the ABI's pages alone and answers \<^const>\<open>False\<close>, as an event of either ABI.\<close>

definition lift_event :: "(nat \<Rightarrow> 'c \<Rightarrow> 'c kernel) \<Rightarrow> nat \<Rightarrow> 's \<times> 'c \<Rightarrow> (bool \<times> 's \<times> 'c) kernel" where
  "lift_event step Port sc = Option.bind (step Port (snd sc)) (\<lambda>c'. Some (False, fst sc, c'))"

definition log_port :: "nat \<Rightarrow> nat list \<Rightarrow> nat list kernel" where
  "log_port Port w = Some (w @ [Port])"

lemma log_local: "local_handler (lift_event log_port)" "fifo_local (lift_event log_port)"
  by (auto simp: local_handler_def fifo_local_def lift_event_def log_port_def)

lemma deliver_run: "deliver (lift_event step) ps d (s, c) = Option.bind (run_ports step ps c) (\<lambda>c'. Some (d, s, c'))"
  by (induction ps arbitrary: c) (auto simp: lift_event_def split: Option.bind_split)

lemma visit_run: "visit (lift_event step) js d (s, c) =
    Option.bind (run_ports step (concat (map (\<lambda>j. word_ports j (evtchn_pending s ! j AND NOT (evtchn_mask s ! j))) js)) c) (\<lambda>c'. Some (d, s, c'))"
  by (induction js arbitrary: c) (auto simp: deliver_run run_ports_append split: Option.bind_split)

text \<open>A FIFO poll with any such handler follows the poll that logs the ports.\<close>

definition head_port :: "nat \<Rightarrow> nat \<Rightarrow> XENBUS_EVTCHN_FIFO_CONTEXT \<Rightarrow> nat kernel" where
  "head_port v k f = (if fifo_Head f ! v ! k = 0 then do { ControlBlock \<leftarrow> fifo_ControlBlock f ! v; Some (cb_head ControlBlock ! k) }
     else Some (fifo_Head f ! v ! k))"

definition unlinked_word :: "XENBUS_EVTCHN_FIFO_CONTEXT \<Rightarrow> nat \<times> nat \<Rightarrow> XENBUS_EVTCHN_FIFO_CONTEXT" where
  "unlinked_word f l = write_word f l (fst (EvtchnFifoUnlink (read_word f l)))"

definition unlinked_due :: "XENBUS_EVTCHN_FIFO_CONTEXT \<Rightarrow> nat \<times> nat \<Rightarrow> bool" where
  "unlinked_due f l \<longleftrightarrow> \<not> EvtchnFifoTestFlag (read_word (unlinked_word f l) l) EVTCHN_FIFO_MASKED \<and>
     EvtchnFifoTestFlag (read_word (unlinked_word f l) l) EVTCHN_FIFO_PENDING"

lemma PollPriority_eq:
  "EvtchnFifoPollPriority v k Ready E (f, c) =
     (if k < EVTCHN_FIFO_MAX_QUEUES then
        Option.bind (head_port v k f) (\<lambda>Port. Option.bind (EvtchnFifoEventWord f Port) (\<lambda>l.
          Option.bind (if unlinked_due f l then E Port (unlinked_word f l, c) else Some (False, unlinked_word f l, c))
            (\<lambda>x. Some (fst x, if snd (EvtchnFifoUnlink (read_word f l)) = 0 then Ready AND NOT (push_bit k 1) else Ready,
               set_Head v k (snd (EvtchnFifoUnlink (read_word f l))) (fst (snd x)), snd (snd x)))))
      else None)"
  by (simp add: EvtchnFifoPollPriority_def head_port_def unlinked_due_def unlinked_word_def Let_def split_def cong: if_cong)

lemma PollPriority_run:
  assumes "EvtchnFifoPollPriority v k Ready (lift_event log_port) (f, w) = Some (d, R, f', w')"
  shows "\<exists>ps. w' = w @ ps \<and> (\<forall>step (c :: XENBUS_EVTCHN_CONTEXT) c'. run_ports step ps c = Some c' \<longrightarrow>
     EvtchnFifoPollPriority v k Ready (lift_event step) (f, c) = Some (d, R, f', c'))"
proof -
  from assms have k: "k < EVTCHN_FIFO_MAX_QUEUES" by (simp add: PollPriority_eq split: if_splits)
  with assms obtain Port l where l: "head_port v k f = Some Port" "EvtchnFifoEventWord f Port = Some l"
    by (auto simp: PollPriority_eq bind_eq_Some_conv)
  show ?thesis
  proof (cases "unlinked_due f l")
    case True
    then show ?thesis using assms k l
      by (intro exI [of _ "[Port]"]) (auto simp: PollPriority_eq lift_event_def log_port_def bind_eq_Some_conv)
  next
    case False
    then show ?thesis using assms k l by (intro exI [of _ "[]"]) (auto simp: PollPriority_eq)
  qed
qed

lemma fifo_poll_loop_run:
  assumes run: "fifo_poll_loop v (lift_event log_port) Ready d s = Some r"
  shows "\<exists>ps. snd (snd r) = snd s @ ps \<and> (\<forall>step (c :: XENBUS_EVTCHN_CONTEXT) c'. run_ports step ps c = Some c' \<longrightarrow>
     fifo_poll_loop v (lift_event step) Ready d (fst s, c) = Some (fst r, fst (snd r), c'))"
proof -
  let ?R = "\<lambda>v Ready d s r. \<exists>ps. snd (snd r) = snd s @ ps \<and> (\<forall>step (c :: XENBUS_EVTCHN_CONTEXT) c'. run_ports step ps c = Some c' \<longrightarrow>
     fifo_poll_loop v (lift_event step) Ready d (fst s, c) = Some (fst r, fst (snd r), c'))"
  have "lift_event log_port = (lift_event log_port :: nat list fifo_event) \<longrightarrow> ?R v Ready d s r"
  proof (rule fifo_poll_loop.raw_induct [where P = "\<lambda>v Event Ready d s r. Event = lift_event log_port \<longrightarrow> ?R v Ready d s r", OF _ run], intro impI)
    fix f v and Event :: "nat list fifo_event" and Ready d s r
    assume IH: "\<And>v Event Ready d s r. f v Event Ready d s = Some r \<Longrightarrow> Event = lift_event log_port \<longrightarrow> ?R v Ready d s r"
      and ev: "Event = lift_event log_port"
      and step: "(if Ready = 0 then Some (d, s)
        else Option.bind (EvtchnFifoPollPriority v (BitScanReverse Ready) Ready Event s)
          (\<lambda>(x, Ready', s'). Option.bind (take_ready v (fst s')) (\<lambda>(r, c). f v Event (Ready' OR r) (d \<or> x) (c, snd s')))) = Some r"
    show "?R v Ready d s r"
    proof (cases "Ready = 0")
      case True
      then show ?thesis using step by (intro exI [of _ "[]"]) (auto simp: fifo_poll_loop.simps)
    next
      case False
      with step obtain x R s' t c where p: "EvtchnFifoPollPriority v (BitScanReverse Ready) Ready Event s = Some (x, R, s')"
        "take_ready v (fst s') = Some (t, c)" "f v Event (R OR t) (d \<or> x) (c, snd s') = Some r" by (auto simp: bind_eq_Some_conv)
      have "EvtchnFifoPollPriority v (BitScanReverse Ready) Ready (lift_event log_port) (fst s, snd s) = Some (x, R, fst s', snd s')"
        using p(1) ev by simp
      from PollPriority_run [OF this] obtain ps where ps: "snd s' = snd s @ ps" "\<forall>step (c :: XENBUS_EVTCHN_CONTEXT) c'. run_ports step ps c = Some c' \<longrightarrow>
          EvtchnFifoPollPriority v (BitScanReverse Ready) Ready (lift_event step) (fst s, c) = Some (x, R, fst s', c')" by (elim exE conjE)
      from mp [OF IH [OF p(3)] ev] obtain qs where qs: "snd (snd r) = snd (c, snd s') @ qs" "\<forall>step (c1 :: XENBUS_EVTCHN_CONTEXT) c'. run_ports step qs c1 = Some c' \<longrightarrow>
          fifo_poll_loop v (lift_event step) (R OR t) (d \<or> x) (fst (c, snd s'), c1) = Some (fst r, fst (snd r), c')" by (elim exE conjE)
      have "fifo_poll_loop v (lift_event step) Ready d (fst s, c0) = Some (fst r, fst (snd r), c')"
        if "run_ports step (ps @ qs) c0 = Some c'" for step and c0 c' :: XENBUS_EVTCHN_CONTEXT
      proof -
        from that obtain c1 where c1: "run_ports step ps c0 = Some c1" "run_ports step qs c1 = Some c'"
          by (auto simp: run_ports_append bind_eq_Some_conv)
        show ?thesis using False ps(2) [rule_format, OF c1(1)] p(2) qs(2) [rule_format, OF c1(2)] by (subst fifo_poll_loop.simps) simp
      qed
      then show ?thesis using ps(1) qs(1) by (intro exI [of _ "ps @ qs"]) auto
    qed
  qed
  then show ?thesis by simp
qed

text \<open>Taking a port off its queue leaves the flags of every port alone.\<close>

definition same_flags :: "XENBUS_EVTCHN_FIFO_CONTEXT \<Rightarrow> XENBUS_EVTCHN_FIFO_CONTEXT \<Rightarrow> bool" where
  "same_flags f f' \<longleftrightarrow> fifo_pages_ok f' \<and> fifo_ports f' = fifo_ports f \<and>
     (\<forall>q. fifo_pending f' q = fifo_pending f q \<and> fifo_masked f' q = fifo_masked f q \<and> fifo_busy f' q = fifo_busy f q)"

lemma same_flags_trans: "same_flags f g \<Longrightarrow> same_flags g h \<Longrightarrow> same_flags f h"
  by (simp add: same_flags_def)

lemma same_flags_refl: "fifo_pages_ok f \<Longrightarrow> same_flags f f"
  by (simp add: same_flags_def)

lemma same_flags_frame: "fifo_EventPage g = fifo_EventPage f \<Longrightarrow> fifo_pages_ok f \<Longrightarrow> same_flags f g"
  by (simp add: same_flags_def fifo_pages_ok_def fifo_ports_def fifo_pending_def fifo_masked_def fifo_busy_def word_of_def)

lemma unlinked_same_flags:
  assumes "EvtchnFifoEventWord f Port = Some l" and pg: "fifo_pages_ok f"
  shows "same_flags f (unlinked_word f l)"
proof -
  have p: "Port \<in> fifo_ports f" "l = (Port div EVENT_WORDS_PER_PAGE, Port mod EVENT_WORDS_PER_PAGE)"
    using assms(1) by (auto simp: EvtchnFifoEventWord_port split: if_splits)
  then have "unlinked_word f l = put_word Port (fst (EvtchnFifoUnlink (word_of f Port))) f"
    by (simp add: unlinked_word_def put_word_def)
  then show ?thesis using fifo_put_flags [OF pg p(1)] pages_ok_put [OF pg p(1)]
    by (auto simp: same_flags_def bit_Unlink fifo_consts fifo_pending_def fifo_masked_def fifo_busy_def)
qed

lemma PollPriority_flags:
  assumes "EvtchnFifoPollPriority v k Ready (lift_event step) s = Some (d, R, s')" and "fifo_pages_ok (fst s)"
  shows "same_flags (fst s) (fst s')"
proof -
  obtain f c where s: "s = (f, c)" by (cases s)
  from assms(1) have k: "k < EVTCHN_FIFO_MAX_QUEUES" by (simp add: s PollPriority_eq split: if_splits)
  with assms(1) obtain Port l x where l: "EvtchnFifoEventWord f Port = Some l"
    "(if unlinked_due f l then lift_event step Port (unlinked_word f l, c) else Some (False, unlinked_word f l, c)) = Some x"
    "fst s' = set_Head v k (snd (EvtchnFifoUnlink (read_word f l))) (fst (snd x))"
    by (auto simp: s PollPriority_eq bind_eq_Some_conv)
  have "fst (snd x) = unlinked_word f l" using l(2) by (auto simp: lift_event_def bind_eq_Some_conv split: if_splits)
  moreover have "same_flags f (unlinked_word f l)" using unlinked_same_flags [OF l(1)] assms(2) by (simp add: s)
  moreover have "same_flags (unlinked_word f l) (set_Head v k h (unlinked_word f l))" for h
    using calculation(2) by (intro same_flags_frame) (simp_all add: set_Head_def same_flags_def)
  ultimately show ?thesis using same_flags_trans l(3) by (simp add: s)
qed

lemma fifo_poll_loop_flags:
  fixes step :: "nat \<Rightarrow> 'c \<Rightarrow> 'c kernel"
  assumes run: "fifo_poll_loop v (lift_event step) Ready d s = Some r" and "fifo_pages_ok (fst s)"
  shows "same_flags (fst s) (fst (snd r))"
proof -
  have "lift_event step = (lift_event step :: 'c fifo_event) \<longrightarrow> fifo_pages_ok (fst s) \<longrightarrow> same_flags (fst s) (fst (snd r))"
  proof (rule fifo_poll_loop.raw_induct [where P = "\<lambda>v Event Ready d s r. Event = lift_event step \<longrightarrow> fifo_pages_ok (fst s) \<longrightarrow> same_flags (fst s) (fst (snd r))",
        OF _ run], intro impI)
    fix f v Event Ready d s r
    assume IH: "\<And>v Event Ready d s r. f v Event Ready d s = Some r \<Longrightarrow> Event = lift_event step \<longrightarrow> fifo_pages_ok (fst s) \<longrightarrow> same_flags (fst s) (fst (snd r))"
      and ev: "Event = lift_event step" and pg: "fifo_pages_ok (fst s)"
      and step: "(if Ready = 0 then Some (d, s)
        else Option.bind (EvtchnFifoPollPriority v (BitScanReverse Ready) Ready Event s)
          (\<lambda>(x, Ready', s'). Option.bind (take_ready v (fst s')) (\<lambda>(r, c). f v Event (Ready' OR r) (d \<or> x) (c, snd s')))) = Some r"
    show "same_flags (fst s) (fst (snd r))"
    proof (cases "Ready = 0")
      case True
      then show ?thesis using step same_flags_refl [OF pg] by auto
    next
      case False
      with step obtain x R s' t c where p: "EvtchnFifoPollPriority v (BitScanReverse Ready) Ready Event s = Some (x, R, s')"
        "take_ready v (fst s') = Some (t, c)" "f v Event (R OR t) (d \<or> x) (c, snd s') = Some r" by (auto simp: bind_eq_Some_conv)
      have 1: "same_flags (fst s) (fst s')" using PollPriority_flags p(1) pg ev by blast
      moreover have "fifo_EventPage c = fifo_EventPage (fst s')" using p(2) by (auto simp: take_ready_def bind_eq_Some_conv)
      then have 2: "same_flags (fst s') c" using 1 by (intro same_flags_frame) (simp_all add: same_flags_def)
      moreover have "same_flags c (fst (snd r))" using IH [OF p(3)] ev 2 by (simp add: same_flags_def)
      ultimately show ?thesis using same_flags_trans by blast
    qed
  qed
  then show ?thesis using assms(2) by blast
qed

text \<open>The ports that the pages hold for a processor, in the order an ABI reports them.\<close>

definition reports :: "(nat \<Rightarrow> NTSTATUS \<times> nat) \<Rightarrow> XENBUS_EVTCHN_CONTEXT \<Rightarrow> nat \<Rightarrow> nat list \<Rightarrow> bool" where
  "reports vcpu_id ctx Cpu ports =
     (case ev_Abi ctx of
        None \<Rightarrow> False
      | Some FIFO \<Rightarrow> \<exists>Q. NT_SUCCESS (fst (vcpu_id Cpu)) \<and> fifo_wf (ev_Fifo ctx) (snd (vcpu_id Cpu)) \<and>
          queues (ev_Fifo ctx) (snd (vcpu_id Cpu)) (cb_ready (the (fifo_ControlBlock (ev_Fifo ctx) ! snd (vcpu_id Cpu)))) Q \<and>
          ports = filter (fifo_due (ev_Fifo ctx)) (queue_order Q)
      | Some TWO_LEVEL \<Rightarrow> \<exists>ps v. si_Processor (tl_SharedInfo (ev_TwoLevel ctx)) = Some ps \<and> Cpu < length ps \<and> proc_Vcpu (ps ! Cpu) = Some v \<and>
          proc_Port (ps ! Cpu) mod 64 = 0 \<and> proc_Port (ps ! Cpu) < 4096 \<and> page_ok (tl_page (ev_TwoLevel ctx)) \<and>
          ports = due_ports (tl_page (ev_TwoLevel ctx))
            (filter (bit (evtchn_pending_sel (vcpu_infos (tl_page (ev_TwoLevel ctx)) v))) (selectors_from (proc_Port (ps ! Cpu) div 64) 64)))"

lemma FifoPoll_run:
  assumes v: "NT_SUCCESS (fst (vcpu_id Cpu))" "v = snd (vcpu_id Cpu)" and wf: "fifo_wf f v"
    and Q: "queues f v (cb_ready (the (fifo_ControlBlock f ! v))) Q"
    and run: "run_ports step (filter (fifo_due f) (queue_order Q)) (c :: XENBUS_EVTCHN_CONTEXT) = Some c1"
  shows "\<exists>d f'. EvtchnFifoPoll vcpu_id (lift_event step) Cpu (f, c) = Some (d, f', c1) \<and> same_flags f f'"
proof -
  let ?R = "cb_ready (the (fifo_ControlBlock f ! v))"
  from queues_take_ready [OF wf Q] obtain f1 where f1: "take_ready v f = Some (?R, f1)" "fifo_wf f1 v" "queues f1 v ?R Q"
    "cb_ready (the (fifo_ControlBlock f1 ! v)) = 0" "\<forall>q. word_of f1 q = word_of f q" by (elim exE conjE)
  have due: "fifo_due f1 = fifo_due f" using f1(5) by (intro ext fifo_due_cong) simp
  from fifo_poll_loop_law [OF log_local(2) f1(2-4), of False "[]"] obtain d f' where
    log: "fifo_poll_loop v (lift_event log_port) ?R False (f1, []) = Some (d, f', filter (fifo_due f) (queue_order Q))"
    unfolding due by auto
  from fifo_poll_loop_run [OF log] obtain ps where ps: "filter (fifo_due f) (queue_order Q) = ps"
    "\<forall>step (c :: XENBUS_EVTCHN_CONTEXT) c'. run_ports step ps c = Some c' \<longrightarrow> fifo_poll_loop v (lift_event step) ?R False (f1, c) = Some (d, f', c')"
    by auto
  have pg: "fifo_pages_ok f" "fifo_pages_ok f1" using wf f1(2) by (simp_all add: fifo_wf_def)
  have "same_flags f1 f'" using fifo_poll_loop_flags [OF log] pg(2) by simp
  moreover have "fifo_EventPage f1 = fifo_EventPage f" using f1(1) by (auto simp: take_ready_def bind_eq_Some_conv)
  then have "same_flags f f1" using pg by (intro same_flags_frame)
  ultimately have flags: "same_flags f f'" using same_flags_trans by blast
  obtain cb where "fifo_ControlBlock f ! v = Some cb" using wf by (auto simp: fifo_wf_def)
  moreover have "fifo_poll_loop v (lift_event step) ?R False (f1, c) = Some (d, f', c1)" using ps run by simp
  ultimately have "EvtchnFifoPoll vcpu_id (lift_event step) Cpu (f, c) = Some (d, f', c1)"
    using v f1(1) by (simp add: EvtchnFifoPoll_def split_def)
  with flags show ?thesis by blast
qed

lemma TwoLevelPoll_run:
  assumes ps: "si_Processor (tl_SharedInfo t) = Some ps" "Cpu < length ps" "proc_Vcpu (ps ! Cpu) = Some v"
    "proc_Port (ps ! Cpu) mod 64 = 0" "proc_Port (ps ! Cpu) < 4096"
    and ports: "ports = due_ports (tl_page t) (filter (bit (evtchn_pending_sel (vcpu_infos (tl_page t) v))) (selectors_from (proc_Port (ps ! Cpu) div 64) 64))"
    and run: "run_ports step ports (c :: XENBUS_EVTCHN_CONTEXT) = Some c1"
  shows "\<exists>d t'. EvtchnTwoLevelPoll (lift_event step) Cpu t c = Some (d, t', c1) \<and>
     evtchn_pending (tl_page t') = evtchn_pending (tl_page t) \<and> evtchn_mask (tl_page t') = evtchn_mask (tl_page t)"
proof -
  define k where "k = proc_Port (ps ! Cpu) div 64"
  have k: "proc_Port (ps ! Cpu) = 64 * k" "k < 64" using ps(4,5) by (auto simp: k_def)
  let ?s = "tl_page t" and ?M = "evtchn_pending_sel (vcpu_infos (tl_page t) v)"
  let ?s1 = "?s\<lparr>vcpu_infos := (vcpu_infos ?s)(v := (vcpu_infos ?s v)\<lparr>evtchn_pending_sel := 0\<rparr>)\<rparr>"
  let ?js = "filter (bit ?M) (selectors_from k 64)"
  from poll_selectors_visit [OF k(2), of "lift_event step" ?M False "(?s1, c)"] obtain P where
    P: "poll_selectors (lift_event step) ?M (64 * k) False (?s1, c) = Option.bind (visit (lift_event step) ?js False (?s1, c)) (\<lambda>x. Some (P, x))"
    by (elim exE conjE)
  have same: "map (\<lambda>j. word_ports j (evtchn_pending ?s1 ! j AND NOT (evtchn_mask ?s1 ! j))) ?js = map (\<lambda>j. filter (due ?s) [64 * j ..< 64 * j + 64]) ?js"
  proof (rule map_cong [OF refl])
    fix j assume "j \<in> set ?js"
    then have "j < 64" by (auto simp: selectors_from_def)
    from word_ports_due [OF this, of ?s] show "word_ports j (evtchn_pending ?s1 ! j AND NOT (evtchn_mask ?s1 ! j)) = filter (due ?s) [64 * j ..< 64 * j + 64]"
      by simp
  qed
  have "visit (lift_event step) ?js False (?s1, c) = Some (False, ?s1, c1)"
    using run unfolding visit_run same by (simp add: ports due_ports_def k_def [symmetric])
  then have "SharedInfoEvtchnPoll (lift_event step) ps Cpu (?s, c) = Some (False, ps[Cpu := (ps ! Cpu)\<lparr>proc_Port := P\<rparr>], ?s1, c1)"
    using ps k(1) P by (simp add: SharedInfoEvtchnPoll_def)
  then show ?thesis using ps(1) by (auto simp: EvtchnTwoLevelPoll_def)
qed

lemma abi_Poll_run:
  assumes reports: "reports vcpu_id ctx Cpu ports" and run: "run_ports step ports ctx = Some c1"
    and event: "\<And>p c. Event p c = Option.bind (step p c) (\<lambda>c'. Some (False, c'))" and abi: "ev_Abi c1 = ev_Abi ctx"
  shows "\<exists>d c. abi_Poll vcpu_id Event ctx Cpu = Some (d, c) \<and> pages_only c1 c \<and> abi_pages_ok c \<and> abi_ports c = abi_ports ctx \<and>
     abi_pending c = abi_pending ctx \<and> abi_masked c = abi_masked ctx"
proof (cases "ev_Abi ctx")
  case None
  then show ?thesis using reports by (simp add: reports_def)
next
  case (Some a)
  have lift: "(\<lambda>Port (s, c). do { (d, c') \<leftarrow> Event Port c; Some (d, s, c') }) = lift_event step"
    by (auto simp: fun_eq_iff lift_event_def event split: Option.bind_split)
  show ?thesis
  proof (cases a)
    case FIFO
    let ?v = "snd (vcpu_id Cpu)" and ?f = "ev_Fifo ctx"
    from reports Some FIFO obtain Q where Q: "NT_SUCCESS (fst (vcpu_id Cpu))" "fifo_wf ?f ?v"
      "queues ?f ?v (cb_ready (the (fifo_ControlBlock ?f ! ?v))) Q" "ports = filter (fifo_due ?f) (queue_order Q)" by (auto simp: reports_def)
    from FifoPoll_run [where vcpu_id = vcpu_id and Cpu = Cpu and v = ?v and f = ?f and Q = Q and step = step and c = ctx, OF Q(1) refl Q(2,3)] run Q(4) obtain d f' where
      r: "EvtchnFifoPoll vcpu_id (lift_event step) Cpu (?f, ctx) = Some (d, f', c1)" "same_flags ?f f'" by blast
    then have "abi_Poll vcpu_id Event ctx Cpu = Some (d, c1\<lparr>ev_Fifo := f'\<rparr>)" using Some FIFO by (simp add: abi_Poll_def lift)
    then show ?thesis using r(2) Some FIFO abi
      by (intro exI [of _ d] exI [of _ "c1\<lparr>ev_Fifo := f'\<rparr>"]) (simp add: abi_defs same_flags_def fun_eq_iff)
  next
    case TWO_LEVEL
    let ?t = "ev_TwoLevel ctx"
    from reports Some TWO_LEVEL obtain ps v where r: "si_Processor (tl_SharedInfo ?t) = Some ps" "Cpu < length ps" "proc_Vcpu (ps ! Cpu) = Some v"
      "proc_Port (ps ! Cpu) mod 64 = 0" "proc_Port (ps ! Cpu) < 4096" "page_ok (tl_page ?t)"
      "ports = due_ports (tl_page ?t) (filter (bit (evtchn_pending_sel (vcpu_infos (tl_page ?t) v))) (selectors_from (proc_Port (ps ! Cpu) div 64) 64))"
      by (auto simp: reports_def)
    from TwoLevelPoll_run [where step = step, OF r(1-5,7) run] obtain d t' where
      t: "EvtchnTwoLevelPoll (lift_event step) Cpu ?t ctx = Some (d, t', c1)" "evtchn_pending (tl_page t') = evtchn_pending (tl_page ?t)"
        "evtchn_mask (tl_page t') = evtchn_mask (tl_page ?t)" by blast
    then have "abi_Poll vcpu_id Event ctx Cpu = Some (d, c1\<lparr>ev_TwoLevel := t'\<rparr>)" using Some TWO_LEVEL by (simp add: abi_Poll_def lift)
    then show ?thesis using t(2,3) r(6) Some TWO_LEVEL abi
      by (intro exI [of _ d] exI [of _ "c1\<lparr>ev_TwoLevel := t'\<rparr>"]) (simp add: abi_defs page_ok_def port_pending_def port_masked_def fun_eq_iff)
  qed
qed

section \<open>The channels a poll puts on the pending list\<close>

definition arriving :: "nat \<Rightarrow> XENBUS_EVTCHN_CONTEXT \<Rightarrow> nat \<Rightarrow> ULONG_PTR option" where
  "arriving Cpu ctx Port =
     (case HashTableLookup (ev_Table ctx) (of_nat Port) of
        Some (_, Some p) \<Rightarrow> (case ev_Channel ctx p of Some ch \<Rightarrow> if ch_Cpu ch = Cpu \<and> \<not> ch_Pending ch then Some p else None | None \<Rightarrow> None)
      | _ \<Rightarrow> None)"

definition arrivals :: "nat \<Rightarrow> XENBUS_EVTCHN_CONTEXT \<Rightarrow> nat list \<Rightarrow> ULONG_PTR list" where
  "arrivals Cpu ctx ports = List.map_filter (arriving Cpu ctx) ports"

text \<open>The context with channels added to a pending list.\<close>

definition arrive :: "nat \<Rightarrow> ULONG_PTR list \<Rightarrow> XENBUS_EVTCHN_CONTEXT \<Rightarrow> XENBUS_EVTCHN_CONTEXT" where
  "arrive Cpu ps ctx = ctx\<lparr>ev_Processor := (ev_Processor ctx)[Cpu := (ev_Processor ctx ! Cpu)\<lparr>pr_PendingList := pr_PendingList (ev_Processor ctx ! Cpu) @ ps\<rparr>],
     ev_Channel := (\<lambda>p. if p \<in> set ps then map_option (\<lambda>ch. ch\<lparr>ch_Pending := True, ch_PendingListEntry := True\<rparr>) (ev_Channel ctx p) else ev_Channel ctx p)\<rparr>"

definition poll_step :: "nat \<Rightarrow> nat \<Rightarrow> XENBUS_EVTCHN_CONTEXT \<Rightarrow> XENBUS_EVTCHN_CONTEXT kernel" where
  "poll_step Cpu Port ctx = map_option snd (EvtchnPollCallback Cpu Port ctx)"

lemma PollCallback_step: "EvtchnPollCallback Cpu p c = Option.bind (poll_step Cpu p c) (\<lambda>c'. Some (False, c'))"
proof (cases "EvtchnPollCallback Cpu p c")
  case (Some r)
  then have "\<not> fst r" by (auto simp: EvtchnPollCallback_def bind_eq_Some_conv split: if_splits)
  then show ?thesis using Some by (cases r) (simp add: poll_step_def)
qed (simp add: poll_step_def)

lemma poll_step_law:
  assumes inv: "evtchn_wf ctx" and Cpu: "Cpu < length (ev_Processor ctx)" "pr_Context (ev_Processor ctx ! Cpu)" and Port: "Port < 2 ^ 32"
  shows "\<exists>c. poll_step Cpu Port ctx = Some c \<and> evtchn_wf c \<and> c = arrive Cpu (arrivals Cpu ctx [Port]) ctx"
proof -
  have "table_inv (ev_Table ctx) (ev_Channel ctx)" using inv by (simp add: ev_inv_def)
  from table_inv_lookup [OF this, of "of_nat Port"] consider
      (none) "HashTableLookup (ev_Table ctx) (of_nat Port) = Some (STATUS_OBJECT_NAME_NOT_FOUND, None)"
    | (found) p ch where "HashTableLookup (ev_Table ctx) (of_nat Port) = Some (STATUS_SUCCESS, Some p)" "ev_Channel ctx p = Some ch"
        "ch_Active ch" "of_nat (ch_LocalPort ch) = (of_nat Port :: ULONG_PTR)" by blast
  then show ?thesis
  proof cases
    case none
    then have "arrivals Cpu ctx [Port] = []" by (simp add: arrivals_def arriving_def map_filter_simps)
    then show ?thesis using none inv by (simp add: poll_step_def EvtchnPollCallback_def arrive_def)
  next
    case found
    have "ch_LocalPort ch = Port"
      using ev_inv_channel_ok [OF inv found(2)] found(3,4) of_nat_port [of "ch_LocalPort ch" Port] Port by (simp add: channel_ok_def)
    show ?thesis
    proof (cases "ch_Cpu ch = Cpu \<and> \<not> ch_Pending ch")
      case False
      then have "arrivals Cpu ctx [Port] = []" using found by (auto simp: arrivals_def arriving_def map_filter_simps)
      then show ?thesis using False found inv \<open>ch_LocalPort ch = Port\<close>
        by (auto simp: poll_step_def EvtchnPollCallback_def arrive_def)
    next
      case True
      then have a: "arrivals Cpu ctx [Port] = [p]" using found by (simp add: arrivals_def arriving_def map_filter_simps)
      have e: "\<not> ch_PendingListEntry ch" using ev_inv_channel_ok [OF inv found(2)] True by (simp add: channel_ok_def)
      from append_pending_law [OF inv Cpu found(2)] True obtain c where c: "append_pending Cpu p ctx = Some c" "evtchn_wf c" by blast
      have "c = arrive Cpu [p] ctx" using c(1) Cpu(2) found(2)
        by (auto simp: append_pending_def arrive_def put_processor_def put_channel_def fun_eq_iff)
      then show ?thesis using True found e c \<open>ch_LocalPort ch = Port\<close> a by (simp add: poll_step_def EvtchnPollCallback_def)
    qed
  qed
qed

lemma arrive_simps [simp]:
  "ev_Table (arrive Cpu ps ctx) = ev_Table ctx" "ev_List (arrive Cpu ps ctx) = ev_List ctx" "ev_Abi (arrive Cpu ps ctx) = ev_Abi ctx"
  "ev_Fifo (arrive Cpu ps ctx) = ev_Fifo ctx" "ev_TwoLevel (arrive Cpu ps ctx) = ev_TwoLevel ctx"
  "ev_Services (arrive Cpu ps ctx) = ev_Services ctx" "ev_Calls (arrive Cpu ps ctx) = ev_Calls ctx"
  "length (ev_Processor (arrive Cpu ps ctx)) = length (ev_Processor ctx)"
  "Cpu < length (ev_Processor ctx) \<Longrightarrow> pr_PendingList (ev_Processor (arrive Cpu ps ctx) ! Cpu) = pr_PendingList (ev_Processor ctx ! Cpu) @ ps"
  "pr_Context (ev_Processor (arrive Cpu ps ctx) ! i) = pr_Context (ev_Processor ctx ! i)"
  "ev_Channel (arrive Cpu ps ctx) p = (if p \<in> set ps then map_option (\<lambda>ch. ch\<lparr>ch_Pending := True, ch_PendingListEntry := True\<rparr>) (ev_Channel ctx p) else ev_Channel ctx p)"
  by (simp_all add: arrive_def) (cases "Cpu < length (ev_Processor ctx)"; cases "i = Cpu"; simp add: list_update_beyond)

lemma arrive_arrive:
  "Cpu < length (ev_Processor ctx) \<Longrightarrow> arrive Cpu qs (arrive Cpu ps ctx) = arrive Cpu (ps @ qs) ctx"
  by (auto simp: arrive_def fun_eq_iff option.map_comp comp_def)

lemma arriving_Some:
  assumes "evtchn_wf ctx" and "arriving Cpu ctx Port = Some p" and "Port < 2 ^ 32"
  shows "\<exists>ch. ev_Channel ctx p = Some ch \<and> ch_Active ch \<and> \<not> ch_Closed ch \<and> ch_LocalPort ch = Port \<and> ch_Cpu ch = Cpu \<and> \<not> ch_Pending ch"
proof -
  have "table_inv (ev_Table ctx) (ev_Channel ctx)" using assms(1) by (simp add: ev_inv_def)
  from table_inv_lookup [OF this, of "of_nat Port"] assms(2) obtain ch where ch: "ev_Channel ctx p = Some ch" "ch_Active ch"
    "of_nat (ch_LocalPort ch) = (of_nat Port :: ULONG_PTR)" "ch_Cpu ch = Cpu" "\<not> ch_Pending ch"
    by (auto simp: arriving_def split: if_splits)
  then show ?thesis using ev_inv_channel_ok [OF assms(1) ch(1)] of_nat_port [of "ch_LocalPort ch" Port] assms(3) by (simp add: channel_ok_def)
qed

lemma arriving_other:
  assumes "evtchn_wf ctx" and "arriving Cpu ctx Port = Some x" and "Port < 2 ^ 32" and "q < 2 ^ 32" and "q \<noteq> Port"
  shows "arriving Cpu (arrive Cpu [x] ctx) q = arriving Cpu ctx q"
proof -
  have "table_inv (ev_Table ctx) (ev_Channel ctx)" using assms(1) by (simp add: ev_inv_def)
  from table_inv_lookup [OF this, of "of_nat q"] consider
      (none) "HashTableLookup (ev_Table ctx) (of_nat q) = Some (STATUS_OBJECT_NAME_NOT_FOUND, None)"
    | (found) p ch where "HashTableLookup (ev_Table ctx) (of_nat q) = Some (STATUS_SUCCESS, Some p)" "ev_Channel ctx p = Some ch"
        "ch_Active ch" "of_nat (ch_LocalPort ch) = (of_nat q :: ULONG_PTR)" by blast
  then show ?thesis
  proof cases
    case found
    then have "ch_LocalPort ch = q"
      using ev_inv_channel_ok [OF assms(1) found(2)] of_nat_port [of "ch_LocalPort ch" q] assms(4) by (simp add: channel_ok_def)
    then have "p \<noteq> x" using arriving_Some [OF assms(1-3)] found(2) assms(5) by auto
    then show ?thesis using found by (simp add: arriving_def)
  qed (simp add: arriving_def)
qed

lemma map_filter_cong: "(\<And>x. x \<in> set xs \<Longrightarrow> f x = g x) \<Longrightarrow> List.map_filter f xs = List.map_filter g xs"
  by (induction xs) (auto simp: map_filter_simps split: option.splits)

lemma arrivals_simps: "arrivals Cpu ctx [] = []"
  "arrivals Cpu ctx (p # ps) = arrivals Cpu ctx [p] @ arrivals Cpu ctx ps"
  by (simp_all add: arrivals_def map_filter_simps split: option.splits)

lemma arrivals_run:
  "evtchn_wf ctx \<Longrightarrow> Cpu < length (ev_Processor ctx) \<Longrightarrow> pr_Context (ev_Processor ctx ! Cpu) \<Longrightarrow> distinct ports \<Longrightarrow>
     \<forall>p \<in> set ports. p < 2 ^ 32 \<Longrightarrow>
     run_ports (poll_step Cpu) ports ctx = Some (arrive Cpu (arrivals Cpu ctx ports) ctx) \<and> evtchn_wf (arrive Cpu (arrivals Cpu ctx ports) ctx)"
proof (induction ports arbitrary: ctx)
  case Nil
  then show ?case by (simp add: arrivals_simps arrive_def)
next
  case (Cons p ps)
  let ?c = "arrive Cpu (arrivals Cpu ctx [p]) ctx"
  have p: "p < 2 ^ 32" using Cons.prems(5) by simp
  from poll_step_law [OF Cons.prems(1-3) p] have step: "poll_step Cpu p ctx = Some ?c" "evtchn_wf ?c" by auto
  have "arriving Cpu ?c q = arriving Cpu ctx q" if "q \<in> set ps" for q
  proof (cases "arriving Cpu ctx p")
    case None
    then show ?thesis by (simp add: arrivals_def map_filter_simps arrive_def)
  next
    case (Some x)
    have "q < 2 ^ 32" "q \<noteq> p" using that Cons.prems(4,5) by auto
    then show ?thesis using arriving_other [OF Cons.prems(1) Some p] Some by (simp add: arrivals_def map_filter_simps)
  qed
  then have "arrivals Cpu ?c ps = arrivals Cpu ctx ps" unfolding arrivals_def by (rule map_filter_cong)
  with Cons.IH [of ?c] Cons.prems step show ?case
    by (subst (1 2) arrivals_simps(2)) (simp add: arrive_arrive)
qed

section \<open>Serving the pending list\<close>

definition is_open :: "XENBUS_EVTCHN_CONTEXT \<Rightarrow> ULONG_PTR \<Rightarrow> bool" where
  "is_open ctx p = (case ev_Channel ctx p of Some ch \<Rightarrow> \<not> ch_Closed ch | None \<Rightarrow> False)"

definition callback_of :: "XENBUS_EVTCHN_CONTEXT \<Rightarrow> ULONG_PTR \<Rightarrow> ULONG_PTR \<times> ULONG_PTR" where
  "callback_of ctx p = (case ev_Channel ctx p of Some ch \<Rightarrow> (ch_Callback ch, ch_Argument ch) | None \<Rightarrow> (0, 0))"

definition port_of_channel :: "XENBUS_EVTCHN_CONTEXT \<Rightarrow> ULONG_PTR \<Rightarrow> nat" where
  "port_of_channel ctx p = (case ev_Channel ctx p of Some ch \<Rightarrow> ch_LocalPort ch | None \<Rightarrow> 0)"

definition served :: "XENBUS_EVTCHN_CHANNEL \<Rightarrow> XENBUS_EVTCHN_CHANNEL" where
  "served ch = ch\<lparr>ch_PendingListEntry := False, ch_Pending := False, ch_Count := ch_Count ch + 1\<rparr>"

lemma serve_channel_law:
  assumes inv: "ev_inv l ctx" and Cpu: "Cpu < length (ev_Processor ctx)" and ch: "ev_Channel ctx p = Some ch" "ch_Pending ch"
    and p: "p \<in> set (pr_PendingList (ev_Processor ctx ! Cpu))" and pg: "abi_pages_ok ctx" "ch_LocalPort ch \<in> abi_ports ctx"
  shows "\<exists>d c. serve_channel service Cpu p ch ctx = Some (d, c) \<and> ev_inv l c \<and> ev_Processor c = ev_Processor (remove_pending Cpu p ctx) \<and>
     ev_Channel c = (ev_Channel ctx)(p \<mapsto> served ch) \<and> ev_Services c = ev_Services ctx @ [(ch_Callback ch, ch_Argument ch)] \<and>
     ev_Table c = ev_Table ctx \<and> ev_List c = ev_List ctx \<and> ev_Calls c = ev_Calls ctx \<and> ev_Abi c = ev_Abi ctx \<and>
     abi_pages_ok c \<and> abi_ports c = abi_ports ctx \<and> (\<forall>q \<in> abi_ports ctx. abi_pending c q = (q \<noteq> ch_LocalPort ch \<and> abi_pending ctx q))"
proof -
  let ?ch = "ch\<lparr>ch_PendingListEntry := False, ch_Pending := False\<rparr>" and ?P = "ch_LocalPort ch"
  let ?c1 = "put_channel p ?ch (remove_pending Cpu p ctx)"
  have same: "abi_pages_ok ?c1" "abi_ports ?c1 = abi_ports ctx" "abi_pending ?c1 = abi_pending ctx"
    using pg(1) abi_frame [of ?c1 ctx] by simp_all
  have "\<exists>c2. (if ch_Mask ch then abi_PortMask ?c1 ?P else Some ?c1) = Some c2 \<and> pages_only ?c1 c2 \<and> abi_pages_ok c2 \<and>
      abi_ports c2 = abi_ports ctx \<and> (\<forall>q \<in> abi_ports ctx. abi_pending c2 q = abi_pending ctx q)"
    using abi_PortMask_law [of ?c1 ?P] same pg(2) by (cases "ch_Mask ch") auto
  then obtain c2 where c2: "(if ch_Mask ch then abi_PortMask ?c1 ?P else Some ?c1) = Some c2" "pages_only ?c1 c2" "abi_pages_ok c2"
      "abi_ports c2 = abi_ports ctx" "\<forall>q \<in> abi_ports ctx. abi_pending c2 q = abi_pending ctx q" by (elim exE conjE)
  from abi_PortAck_law [OF c2(3), of ?P] pg(2) c2(4) obtain c3 where c3: "abi_PortAck c2 ?P = Some c3" "pages_only c2 c3" "abi_pages_ok c3"
      "abi_ports c3 = abi_ports ctx" "\<forall>q \<in> abi_ports ctx. abi_pending c3 q = (q \<noteq> ?P \<and> abi_pending c2 q)" by auto
  let ?c = "(put_channel p (served ch) c3)\<lparr>ev_Services := ev_Services c3 @ [(ch_Callback ch, ch_Argument ch)]\<rparr>"
  have run: "serve_channel service Cpu p ch ctx = Some (service (ev_Services ?c), ?c)"
    using ch(2) c2(1) c3(1) by (simp add: serve_channel_def Let_def served_def)
  note f = pages_only_fields [OF c2(2)] pages_only_fields [OF c3(2)]
  have "abi_pages_ok ?c" "abi_ports ?c = abi_ports ctx" "abi_pending ?c = abi_pending c3" using c3(3,4) abi_frame [of ?c c3] by simp_all
  then show ?thesis using run serve_channel_keeps [OF inv Cpu ch(1) p run] c2(5) c3(5)
    by (intro exI [of _ "service (ev_Services ?c)"] exI [of _ ?c]) (simp add: f)
qed

text \<open>
  The whole list. Closed channels are collected when the caller wants them, and stay otherwise.
\<close>

lemma poll_channels_law:
  "ev_inv (collected List) ctx \<Longrightarrow> Cpu < length (ev_Processor ctx) \<Longrightarrow> distinct ps \<Longrightarrow> set ps \<subseteq> set (pr_PendingList (ev_Processor ctx ! Cpu)) \<Longrightarrow>
     abi_pages_ok ctx \<Longrightarrow> \<forall>p \<in> set ps. is_open ctx p \<longrightarrow> port_of_channel ctx p \<in> abi_ports ctx \<Longrightarrow>
     \<exists>d' c. poll_channels service Cpu ps d List ctx = Some (d', map_option (\<lambda>l. l @ filter (\<lambda>p. \<not> is_open ctx p) ps) List, c) \<and>
       ev_inv (collected (map_option (\<lambda>l. l @ filter (\<lambda>p. \<not> is_open ctx p) ps) List)) c \<and>
       ev_Services c = ev_Services ctx @ map (callback_of ctx) (filter (is_open ctx) ps) \<and>
       (\<forall>p. ev_Channel c p = (if p \<in> set ps \<and> is_open ctx p then map_option served (ev_Channel ctx p) else ev_Channel ctx p)) \<and>
       pr_PendingList (ev_Processor c ! Cpu) = filter (\<lambda>p. p \<notin> set ps \<or> (\<not> is_open ctx p \<and> List = None)) (pr_PendingList (ev_Processor ctx ! Cpu)) \<and>
       ev_Table c = ev_Table ctx \<and> ev_List c = ev_List ctx \<and> ev_Calls c = ev_Calls ctx \<and> ev_Abi c = ev_Abi ctx \<and>
       abi_pages_ok c \<and> abi_ports c = abi_ports ctx \<and>
       (\<forall>q \<in> abi_ports ctx. abi_pending c q = (abi_pending ctx q \<and> q \<notin> port_of_channel ctx ` set (filter (is_open ctx) ps)))"
proof (induction ps arbitrary: d List ctx)
  case Nil
  then show ?case by (cases List) auto
next
  case (Cons p ps)
  have p: "p \<in> set (pr_PendingList (ev_Processor ctx ! Cpu))" "p \<notin> set ps" "distinct ps" using Cons.prems(3,4) by simp_all
  have dist: "distinct (pr_PendingList (ev_Processor ctx ! Cpu))" by (rule ev_inv_queued_distinct [OF Cons.prems(1,2)])
  have left: "set ps \<subseteq> set (remove1 p (pr_PendingList (ev_Processor ctx ! Cpu)))"
    using Cons.prems(3,4) dist by (auto simp: set_remove1_eq)
  have q: "queue_inv (queued ctx @ collected List) (ev_Channel ctx)" using Cons.prems(1) by (simp add: ev_inv_def)
  have "is_pending (ev_Channel ctx) p" using queue_inv_mem [OF q, of p] queued_member [OF Cons.prems(2) p(1)] by simp
  then obtain ch where ch: "ev_Channel ctx p = Some ch" "ch_Pending ch" by (auto simp: is_pending_def split: option.splits)
  let ?L = "pr_PendingList (ev_Processor ctx ! Cpu)"
  have rem: "filter P (remove1 p ?L) = filter (\<lambda>q. q \<noteq> p \<and> P q) ?L" for P
    using dist by (simp add: distinct_remove1_removeAll removeAll_filter_not_eq) (rule filter_cong, auto)
  show ?case
  proof (cases "ch_Closed ch")
    case False
    then have open_p: "is_open ctx p" using ch by (simp add: is_open_def)
    then have "ch_LocalPort ch \<in> abi_ports ctx" using Cons.prems(6) ch by (simp add: port_of_channel_def)
    from serve_channel_law [OF Cons.prems(1,2) ch p(1) Cons.prems(5) this, of service] obtain x c1 where
      c1: "serve_channel service Cpu p ch ctx = Some (x, c1)" "ev_inv (collected List) c1" "ev_Processor c1 = ev_Processor (remove_pending Cpu p ctx)"
        "ev_Channel c1 = (ev_Channel ctx)(p \<mapsto> served ch)" "ev_Services c1 = ev_Services ctx @ [(ch_Callback ch, ch_Argument ch)]"
        "ev_Table c1 = ev_Table ctx" "ev_List c1 = ev_List ctx" "ev_Calls c1 = ev_Calls ctx" "ev_Abi c1 = ev_Abi ctx"
        "abi_pages_ok c1" "abi_ports c1 = abi_ports ctx" "\<forall>q \<in> abi_ports ctx. abi_pending c1 q = (q \<noteq> ch_LocalPort ch \<and> abi_pending ctx q)"
      by (elim exE conjE)
    have same: "is_open c1 = is_open ctx" "port_of_channel c1 = port_of_channel ctx" "callback_of c1 = callback_of ctx"
      using ch by (auto simp: fun_eq_iff is_open_def port_of_channel_def callback_of_def c1(4) served_def)
    have pl: "pr_PendingList (ev_Processor c1 ! Cpu) = remove1 p ?L" and len: "length (ev_Processor c1) = length (ev_Processor ctx)"
      using c1(3) Cons.prems(2) by simp_all
    from Cons.IH [OF c1(2) _ p(3) _ c1(10), of "d \<or> x"] Cons.prems(2,6) len left c1(11) pl same obtain d' c where
      c: "poll_channels service Cpu ps (d \<or> x) List c1 = Some (d', map_option (\<lambda>l. l @ filter (\<lambda>p. \<not> is_open ctx p) ps) List, c)"
       "ev_inv (collected (map_option (\<lambda>l. l @ filter (\<lambda>p. \<not> is_open ctx p) ps) List)) c"
       "ev_Services c = ev_Services c1 @ map (callback_of ctx) (filter (is_open ctx) ps)"
       "\<forall>p. ev_Channel c p = (if p \<in> set ps \<and> is_open ctx p then map_option served (ev_Channel c1 p) else ev_Channel c1 p)"
       "pr_PendingList (ev_Processor c ! Cpu) = filter (\<lambda>p. p \<notin> set ps \<or> (\<not> is_open ctx p \<and> List = None)) (remove1 p ?L)"
       "ev_Table c = ev_Table c1" "ev_List c = ev_List c1" "ev_Calls c = ev_Calls c1" "ev_Abi c = ev_Abi c1"
       "abi_pages_ok c" "abi_ports c = abi_ports c1"
       "\<forall>q \<in> abi_ports c1. abi_pending c q = (abi_pending c1 q \<and> q \<notin> port_of_channel ctx ` set (filter (is_open ctx) ps))" by auto
    have "poll_channels service Cpu (p # ps) d List ctx = poll_channels service Cpu ps (d \<or> x) List c1" using ch(1) False c1(1) by simp
    moreover have "filter (\<lambda>r. r \<notin> set (p # ps) \<or> (\<not> is_open ctx r \<and> List = None)) ?L = pr_PendingList (ev_Processor c ! Cpu)"
      unfolding c(5) rem by (rule filter_cong) (use open_p in auto)
    moreover have "ev_Channel c r = (if r \<in> set (p # ps) \<and> is_open ctx r then map_option served (ev_Channel ctx r) else ev_Channel ctx r)" for r
      using c(4) c1(4) ch(1) open_p p(2) by auto
    moreover have "callback_of ctx p = (ch_Callback ch, ch_Argument ch)" "port_of_channel ctx p = ch_LocalPort ch"
      using ch(1) by (simp_all add: callback_of_def port_of_channel_def)
    ultimately show ?thesis using c c1 open_p by (intro exI [of _ d'] exI [of _ c]) auto
  next
    case closed: True
    then have not_open: "\<not> is_open ctx p" using ch by (simp add: is_open_def)
    show ?thesis
    proof (cases List)
      case None
      from Cons.IH [of None ctx d] Cons.prems None p(3) obtain d' c where
        c: "poll_channels service Cpu ps d None ctx = Some (d', None, c)" "evtchn_wf c"
         "ev_Services c = ev_Services ctx @ map (callback_of ctx) (filter (is_open ctx) ps)"
         "\<forall>p. ev_Channel c p = (if p \<in> set ps \<and> is_open ctx p then map_option served (ev_Channel ctx p) else ev_Channel ctx p)"
         "pr_PendingList (ev_Processor c ! Cpu) = filter (\<lambda>p. p \<notin> set ps \<or> \<not> is_open ctx p) ?L"
         "ev_Table c = ev_Table ctx" "ev_List c = ev_List ctx" "ev_Calls c = ev_Calls ctx" "ev_Abi c = ev_Abi ctx"
         "abi_pages_ok c" "abi_ports c = abi_ports ctx"
         "\<forall>q \<in> abi_ports ctx. abi_pending c q = (abi_pending ctx q \<and> q \<notin> port_of_channel ctx ` set (filter (is_open ctx) ps))" by auto
      have "filter (\<lambda>r. r \<notin> set (p # ps) \<or> (\<not> is_open ctx r \<and> List = None)) ?L = pr_PendingList (ev_Processor c ! Cpu)"
        unfolding c(5) by (rule filter_cong) (use not_open None in auto)
      moreover have "ev_Channel c r = (if r \<in> set (p # ps) \<and> is_open ctx r then map_option served (ev_Channel ctx r) else ev_Channel ctx r)" for r
        using c(4) not_open by auto
      ultimately show ?thesis using c None closed ch(1) not_open by (intro exI [of _ d'] exI [of _ c]) auto
    next
      case (Some l)
      let ?c = "remove_pending Cpu p ctx"
      have same: "is_open ?c = is_open ctx" "port_of_channel ?c = port_of_channel ctx" "callback_of ?c = callback_of ctx"
        by (simp_all add: fun_eq_iff is_open_def port_of_channel_def callback_of_def)
      have abi: "abi_pages_ok ?c" "abi_ports ?c = abi_ports ctx" "abi_pending ?c = abi_pending ctx"
        using abi_frame [of ?c ctx] Cons.prems(5) by simp_all
      have "ev_inv (l @ [p]) ?c" using moved_inv [OF _ Cons.prems(2) ch(1) p(1), of l] Cons.prems(1) Some by simp
      with Cons.IH [of "Some (l @ [p])" ?c d] Cons.prems(2,6) p(3) left abi same obtain d' c where
        c: "poll_channels service Cpu ps d (Some (l @ [p])) ?c = Some (d', Some ((l @ [p]) @ filter (\<lambda>p. \<not> is_open ctx p) ps), c)"
         "ev_inv ((l @ [p]) @ filter (\<lambda>p. \<not> is_open ctx p) ps) c"
         "ev_Services c = ev_Services ctx @ map (callback_of ctx) (filter (is_open ctx) ps)"
         "\<forall>p. ev_Channel c p = (if p \<in> set ps \<and> is_open ctx p then map_option served (ev_Channel ctx p) else ev_Channel ctx p)"
         "pr_PendingList (ev_Processor c ! Cpu) = filter (\<lambda>p. p \<notin> set ps) (remove1 p ?L)"
         "ev_Table c = ev_Table ctx" "ev_List c = ev_List ctx" "ev_Calls c = ev_Calls ctx" "ev_Abi c = ev_Abi ctx"
         "abi_pages_ok c" "abi_ports c = abi_ports ctx"
         "\<forall>q \<in> abi_ports ctx. abi_pending c q = (abi_pending ctx q \<and> q \<notin> port_of_channel ctx ` set (filter (is_open ctx) ps))" by auto
      have "filter (\<lambda>r. r \<notin> set (p # ps) \<or> (\<not> is_open ctx r \<and> List = None)) ?L = pr_PendingList (ev_Processor c ! Cpu)"
        unfolding c(5) rem by (rule filter_cong) (use Some in auto)
      moreover have "ev_Channel c r = (if r \<in> set (p # ps) \<and> is_open ctx r then map_option served (ev_Channel ctx r) else ev_Channel ctx r)" for r
        using c(4) not_open by auto
      ultimately show ?thesis using c Some closed ch not_open by (intro exI [of _ d'] exI [of _ c]) auto
    qed
  qed
qed

section \<open>A whole poll\<close>

lemma chain_ports: "fifo_chain f h ps \<Longrightarrow> set ps \<subseteq> fifo_ports f"
  by (induction ps arbitrary: h) auto

lemma queue_order_distinct:
  assumes "\<forall>k < 16. distinct (Q k)" and "\<forall>j < 16. \<forall>k < 16. j \<noteq> k \<longrightarrow> set (Q j) \<inter> set (Q k) = {}"
  shows "distinct (queue_order Q)"
proof -
  have "distinct (concat (map Q ks))" if "distinct ks" "set ks \<subseteq> {..< 16}" for ks
    using that
  proof (induction ks)
    case (Cons k ks)
    have "set (Q k) \<inter> set (Q j) = {}" if "j \<in> set ks" for j
    proof -
      have "k < 16" "j < 16" "k \<noteq> j" using that Cons.prems by auto
      then show ?thesis using assms(2) by blast
    qed
    then have "set (Q k) \<inter> (\<Union>j \<in> set ks. set (Q j)) = {}" by blast
    moreover have "distinct (concat (map Q ks))" using Cons by simp
    moreover have "distinct (Q k)" using assms(1) Cons.prems(2) by simp
    ultimately show ?case by simp
  qed simp
  moreover have "set (rev [0 ..< 16]) \<subseteq> {..< (16 :: nat)}" by auto
  ultimately show ?thesis unfolding queue_order_def by (metis distinct_rev distinct_upt)
qed

lemma reports_ports:
  assumes "reports vcpu_id ctx Cpu ports"
  shows "distinct ports \<and> set ports \<subseteq> abi_ports ctx"
proof (cases "ev_Abi ctx")
  case None
  then show ?thesis using assms by (simp add: reports_def)
next
  case (Some a)
  show ?thesis
  proof (cases a)
    case FIFO
    let ?v = "snd (vcpu_id Cpu)" and ?f = "ev_Fifo ctx"
    from assms Some FIFO obtain Q where Q: "queues ?f ?v (cb_ready (the (fifo_ControlBlock ?f ! ?v))) Q"
      "ports = filter (fifo_due ?f) (queue_order Q)" by (auto simp: reports_def)
    have "set (Q k) \<subseteq> fifo_ports ?f" if "k < 16" for k
      using Q(1) that chain_ports [of ?f "queue_head ?f ?v k" "Q k"] unfolding queues_def by (cases "Q k = []") auto
    then have "set (queue_order Q) \<subseteq> fifo_ports ?f" by (auto simp: set_queue_order)
    moreover have "distinct (queue_order Q)" using Q(1) by (intro queue_order_distinct) (simp_all add: queues_def)
    ultimately show ?thesis using Some FIFO Q(2) by (auto simp: abi_ports_def)
  next
    case TWO_LEVEL
    let ?s = "tl_page (ev_TwoLevel ctx)"
    from assms [unfolded reports_def Some TWO_LEVEL option.case XENBUS_EVTCHN_ABI.case] obtain ps v where
      "si_Processor (tl_SharedInfo (ev_TwoLevel ctx)) = Some ps" "proc_Vcpu (ps ! Cpu) = Some v" and r: "proc_Port (ps ! Cpu) < 4096"
      "ports = due_ports ?s (filter (bit (evtchn_pending_sel (vcpu_infos ?s v))) (selectors_from (proc_Port (ps ! Cpu) div 64) 64))"
      by (elim exE conjE)
    have k: "proc_Port (ps ! Cpu) div 64 < 64" using r(1) by simp
    then have "distinct ports" unfolding r(2) by (intro distinct_due_ports distinct_filter selectors_from_distinct) simp_all
    moreover have "set ports \<subseteq> {..< 4096}"
    proof
      fix p assume "p \<in> set ports"
      then obtain j where "j \<in> set (selectors_from (proc_Port (ps ! Cpu) div 64) 64)" "p < 64 * j + 64" by (auto simp: r(2) due_ports_def)
      then show "p \<in> {..< 4096}" by (auto simp: selectors_from_def)
    qed
    ultimately show ?thesis using Some TWO_LEVEL by (simp add: abi_ports_def)
  qed
qed

text \<open>The pending list that the loop of a poll goes through.\<close>

definition poll_list :: "XENBUS_EVTCHN_CONTEXT \<Rightarrow> nat \<Rightarrow> nat list \<Rightarrow> ULONG_PTR list" where
  "poll_list ctx Cpu ports = pr_PendingList (ev_Processor ctx ! Cpu) @ arrivals Cpu ctx ports"

definition poll_ready :: "(nat \<Rightarrow> NTSTATUS \<times> nat) \<Rightarrow> XENBUS_EVTCHN_CONTEXT \<Rightarrow> nat \<Rightarrow> nat list \<Rightarrow> bool" where
  "poll_ready vcpu_id ctx Cpu ports \<longleftrightarrow> Cpu < length (ev_Processor ctx) \<and> pr_Context (ev_Processor ctx ! Cpu) \<and> reports vcpu_id ctx Cpu ports \<and>
     abi_ports ctx \<subseteq> {..< 2 ^ 32} \<and>
     (\<forall>p \<in> set (pr_PendingList (ev_Processor ctx ! Cpu)). is_open ctx p \<longrightarrow> port_of_channel ctx p \<in> abi_ports ctx)"

lemma EvtchnPoll_law:
  assumes inv: "evtchn_wf ctx" and ready: "poll_ready vcpu_id ctx Cpu ports" and List: "List = None \<or> List = Some []"
  shows "\<exists>d c. EvtchnPoll vcpu_id service ctx Cpu List = Some (d, map_option (\<lambda>_. filter (\<lambda>p. \<not> is_open ctx p) (poll_list ctx Cpu ports)) List, c) \<and>
       ev_inv (collected (map_option (\<lambda>_. filter (\<lambda>p. \<not> is_open ctx p) (poll_list ctx Cpu ports)) List)) c \<and>
       ev_Services c = ev_Services ctx @ map (callback_of ctx) (filter (is_open ctx) (poll_list ctx Cpu ports)) \<and>
       (\<forall>p. ev_Channel c p = (if p \<in> set (poll_list ctx Cpu ports) \<and> is_open ctx p then map_option served (ev_Channel ctx p) else ev_Channel ctx p)) \<and>
       pr_PendingList (ev_Processor c ! Cpu) = filter (\<lambda>p. \<not> is_open ctx p \<and> List = None) (poll_list ctx Cpu ports) \<and>
       ev_Table c = ev_Table ctx \<and> ev_List c = ev_List ctx \<and> ev_Calls c = ev_Calls ctx \<and> ev_Abi c = ev_Abi ctx \<and>
       abi_pages_ok c \<and> abi_ports c = abi_ports ctx \<and> length (ev_Processor c) = length (ev_Processor ctx) \<and>
       (\<forall>q \<in> abi_ports ctx. abi_pending c q = (abi_pending ctx q \<and> q \<notin> port_of_channel ctx ` set (filter (is_open ctx) (poll_list ctx Cpu ports))))"
proof -
  have Cpu: "Cpu < length (ev_Processor ctx)" "pr_Context (ev_Processor ctx ! Cpu)" and rep: "reports vcpu_id ctx Cpu ports"
    and bound: "abi_ports ctx \<subseteq> {..< 2 ^ 32}" using ready by (simp_all add: poll_ready_def)
  have dist: "distinct ports" and sub: "set ports \<subseteq> abi_ports ctx" using reports_ports [OF rep] by simp_all
  have small: "\<forall>p \<in> set ports. p < 2 ^ 32" using sub bound by auto
  let ?as = "arrivals Cpu ctx ports"
  define c1 where "c1 = arrive Cpu ?as ctx"
  from arrivals_run [OF inv Cpu dist small] have run: "run_ports (poll_step Cpu) ports ctx = Some c1" and inv1: "evtchn_wf c1" by (simp_all add: c1_def)
  from abi_Poll_run [OF rep run PollCallback_step] obtain d0 c2 where c2: "abi_Poll vcpu_id (EvtchnPollCallback Cpu) ctx Cpu = Some (d0, c2)"
    "pages_only c1 c2" "abi_pages_ok c2" "abi_ports c2 = abi_ports ctx" "abi_pending c2 = abi_pending ctx" by (auto simp: c1_def)
  note f = pages_only_fields [OF c2(2)]
  have inv2: "evtchn_wf c2" using inv1 ev_inv_pages [OF c2(2)] by simp
  have Cpu2: "Cpu < length (ev_Processor c2)" "pr_Context (ev_Processor c2 ! Cpu)" "length (ev_Processor c2) = length (ev_Processor ctx)"
    using Cpu by (simp_all add: f c1_def)
  have pl: "pr_PendingList (ev_Processor c2 ! Cpu) = poll_list ctx Cpu ports" using Cpu by (simp add: f c1_def poll_list_def)
  have same: "is_open c2 = is_open ctx" "port_of_channel c2 = port_of_channel ctx" "callback_of c2 = callback_of ctx"
    by (auto simp: fun_eq_iff is_open_def port_of_channel_def callback_of_def f c1_def split: option.splits)
  have arrived: "port_of_channel ctx p \<in> abi_ports ctx" "is_open ctx p" if "p \<in> set ?as" for p
  proof -
    from that obtain q where q: "q \<in> set ports" "arriving Cpu ctx q = Some p" by (auto simp: arrivals_def List.map_filter_def)
    from arriving_Some [OF inv q(2)] small q(1) show "port_of_channel ctx p \<in> abi_ports ctx" "is_open ctx p"
      using sub by (auto simp: port_of_channel_def is_open_def)
  qed
  have ports_ok: "\<forall>p \<in> set (poll_list ctx Cpu ports). is_open c2 p \<longrightarrow> port_of_channel c2 p \<in> abi_ports c2"
    using ready arrived(1) by (auto simp: poll_list_def poll_ready_def same c2(4))
  have "ev_inv (collected List) c2" using inv2 List by auto
  from poll_channels_law [OF this Cpu2(1) ev_inv_queued_distinct [OF inv2 Cpu2(1)] order_refl c2(3), of service False] ports_ok obtain d c where
    c: "poll_channels service Cpu (poll_list ctx Cpu ports) False List c2 = Some (d, map_option (\<lambda>l. l @ filter (\<lambda>p. \<not> is_open ctx p) (poll_list ctx Cpu ports)) List, c)"
     "ev_inv (collected (map_option (\<lambda>l. l @ filter (\<lambda>p. \<not> is_open ctx p) (poll_list ctx Cpu ports)) List)) c"
     "ev_Services c = ev_Services c2 @ map (callback_of ctx) (filter (is_open ctx) (poll_list ctx Cpu ports))"
     "\<forall>p. ev_Channel c p = (if p \<in> set (poll_list ctx Cpu ports) \<and> is_open ctx p then map_option served (ev_Channel c2 p) else ev_Channel c2 p)"
     "pr_PendingList (ev_Processor c ! Cpu) = filter (\<lambda>p. p \<notin> set (poll_list ctx Cpu ports) \<or> (\<not> is_open ctx p \<and> List = None)) (poll_list ctx Cpu ports)"
     "ev_Table c = ev_Table c2" "ev_List c = ev_List c2" "ev_Calls c = ev_Calls c2" "ev_Abi c = ev_Abi c2"
     "abi_pages_ok c" "abi_ports c = abi_ports c2"
     "\<forall>q \<in> abi_ports c2. abi_pending c q = (abi_pending c2 q \<and> q \<notin> port_of_channel ctx ` set (filter (is_open ctx) (poll_list ctx Cpu ports)))"
    unfolding pl same by auto
  have collect: "map_option (\<lambda>l. l @ filter (\<lambda>p. \<not> is_open ctx p) (poll_list ctx Cpu ports)) List =
      map_option (\<lambda>_. filter (\<lambda>p. \<not> is_open ctx p) (poll_list ctx Cpu ports)) List" using List by auto
  have poll: "EvtchnPoll vcpu_id service ctx Cpu List = poll_channels service Cpu (poll_list ctx Cpu ports) False List c2"
    using Cpu(1) c2(1) Cpu2(2) pl by (simp add: EvtchnPoll_def)
  have len: "length (ev_Processor c) = length (ev_Processor ctx)"
    using poll_channels_keeps [OF c(1) _ Cpu2(1)] inv2 List ev_inv_queued_distinct [OF inv2 Cpu2(1)] pl Cpu2(3) by auto
  have chan: "ev_Channel c p = (if p \<in> set (poll_list ctx Cpu ports) \<and> is_open ctx p then map_option served (ev_Channel ctx p) else ev_Channel ctx p)" for p
  proof -
    have "map_option served (ev_Channel c2 p) = map_option served (ev_Channel ctx p)"
      by (cases "ev_Channel ctx p") (simp_all add: f c1_def served_def)
    moreover have "p \<notin> set ?as \<Longrightarrow> ev_Channel c2 p = ev_Channel ctx p" by (simp add: f c1_def)
    ultimately show ?thesis using c(4) arrived(2) [of p] by (auto simp: poll_list_def)
  qed
  have "filter (\<lambda>p. p \<notin> set (poll_list ctx Cpu ports) \<or> (\<not> is_open ctx p \<and> List = None)) (poll_list ctx Cpu ports) =
      filter (\<lambda>p. \<not> is_open ctx p \<and> List = None) (poll_list ctx Cpu ports)" by (rule filter_cong) auto
  then show ?thesis using c chan len unfolding poll collect
    by (intro exI [of _ d] exI [of _ c]) (simp add: f c2(4,5) c1_def)
qed

end
