(* ===== verification/Evtchn_Correct.thy ===== *)
theory Evtchn_Correct
  imports Evtchn_Poll
begin

text \<open>
  The properties of the event channels: the invariant over every run of the component, what opening,
  polling, closing, unmasking and waiting do, and the cases where the code falls short.
\<close>

section \<open>Runs\<close>

text \<open>
  The steps of the component. Closing is its two halves, so that other steps can come between them; the
  hypervisor writes to its pages at any time. Opening is given a free address, and a port that no active
  channel has, which is what the hypervisor promises for the ports it makes.
\<close>

definition open_ok :: "evtchn_env \<Rightarrow> nat \<Rightarrow> open_args \<Rightarrow> ULONG_PTR \<Rightarrow> ULONG_PTR \<Rightarrow> XENBUS_EVTCHN_CONTEXT \<Rightarrow> bool" where
  "open_ok env Version args Callback Argument ctx \<longleftrightarrow>
     (\<forall>p. ee_alloc env = Some p \<longrightarrow> ev_Channel ctx p = None) \<and>
     (\<forall>ch. evtchn_open_type env Version ctx args (zero_CHANNEL\<lparr>ch_Type := type_of args, ch_Callback := Callback, ch_Argument := Argument\<rparr>) =
         Some (STATUS_SUCCESS, ch) \<longrightarrow> port_free ctx (ch_LocalPort ch))"

inductive evtchn_step :: "XENBUS_EVTCHN_CONTEXT \<Rightarrow> XENBUS_EVTCHN_CONTEXT \<Rightarrow> bool" where
  step_open: "open_ok env Version args Callback Argument ctx \<Longrightarrow> EvtchnOpen env Version args Callback Argument ctx = Some (r, c) \<Longrightarrow> evtchn_step ctx c"
| step_mark: "ev_Channel ctx p = Some ch \<Longrightarrow> ch_Active ch \<Longrightarrow> evtchn_mark_closed ctx p = Some c \<Longrightarrow> evtchn_step ctx c"
| step_close: "EvtchnClose ctx p = Some c \<Longrightarrow> evtchn_step ctx c"
| step_trigger: "EvtchnTrigger ctx p = Some c \<Longrightarrow> evtchn_step ctx c"
| step_bind: "EvtchnBind env ctx p Group Number = Some (st, c) \<Longrightarrow> evtchn_step ctx c"
| step_unmask: "EvtchnUnmask env Current ctx p InUpcall Force = Some (r, c) \<Longrightarrow> evtchn_step ctx c"
| step_send: "EvtchnSend ctx p = Some c \<Longrightarrow> evtchn_step ctx c"
| step_interrupt: "EvtchnInterruptCallback vcpu_id service hyper ctx Cpu = Some (d, c) \<Longrightarrow> evtchn_step ctx c"
| step_dpc: "EvtchnDpc vcpu_id service ctx Cpu = Some c \<Longrightarrow> evtchn_step ctx c"
| step_suspend: "EvtchnSuspendCallbackEarly ctx = Some c \<Longrightarrow> evtchn_step ctx c"
| step_resume: "EvtchnSuspendCallbackLate aenv ctx = Some c \<Longrightarrow> evtchn_step ctx c"
| step_hypervisor: "c = hypervisor_writes h ctx \<Longrightarrow> evtchn_step ctx c"

inductive_cases evtchn_stepE: "evtchn_step ctx c"

lemma EvtchnOpen_keeps:
  assumes inv: "evtchn_wf ctx" and ok: "open_ok env Version args Callback Argument ctx"
    and run: "EvtchnOpen env Version args Callback Argument ctx = Some (r, c)"
  shows "evtchn_wf c"
proof (cases "ee_alloc env")
  case None
  then show ?thesis using run inv by (simp add: EvtchnOpen_def)
next
  case (Some p)
  let ?z = "zero_CHANNEL\<lparr>ch_Type := type_of args, ch_Callback := Callback, ch_Argument := Argument\<rparr>"
  have fail2: "evtchn_wf c'" if "evtchn_open_fail2 ch c = Some (r', c')" "evtchn_wf c" for ch c r' c'
    using that by (auto simp: evtchn_open_fail2_def split: if_splits)
  have fail3: "evtchn_wf c'" if "evtchn_open_fail3 P ch c = Some (r', c')" "evtchn_wf c" for P ch c r' c'
    using that fail2 by (auto simp: evtchn_open_fail3_def split: if_splits)
  from run Some obtain st ch where t: "evtchn_open_type env Version ctx args ?z = Some (st, ch)" by (auto simp: EvtchnOpen_def bind_eq_Some_conv)
  show ?thesis
  proof (cases "NT_SUCCESS st")
    case False
    then have "evtchn_open_fail2 ch ctx = Some (r, c)" using run Some t by (simp add: EvtchnOpen_def)
    then show ?thesis using inv by (rule fail2)
  next
    case ok1: True
    with run Some t obtain st2 c1 where e: "abi_PortEnable env ctx (ch_LocalPort ch) = Some (st2, c1)" by (auto simp: EvtchnOpen_def bind_eq_Some_conv)
    have p1: "pages_only ctx c1" by (rule pages_only_ops(5) [OF e])
    have inv1: "evtchn_wf c1" using inv ev_inv_pages [OF p1] by simp
    show ?thesis
    proof (cases "NT_SUCCESS st2")
      case False
      then have "evtchn_open_fail3 (ch_LocalPort ch) ch c1 = Some (r, c)" using run Some t ok1 e by (simp add: EvtchnOpen_def)
      then show ?thesis using inv1 by (rule fail3)
    next
      case ok2: True
      show ?thesis
      proof (cases "ee_node env")
        case False
        with run Some t ok1 e ok2 obtain c2 where c2: "abi_PortDisable c1 (ch_LocalPort ch) = Some c2" "evtchn_open_fail3 (ch_LocalPort ch) ch c2 = Some (r, c)"
          by (auto simp: EvtchnOpen_def HashTableAdd_def bind_eq_Some_conv)
        from pages_only_ops(3) [OF c2(1)] inv1 have "evtchn_wf c2" using ev_inv_pages by blast
        with c2(2) show ?thesis by (rule fail3)
      next
        case True
        have "table_inv (ev_Table c1) (ev_Channel c1)" using inv1 by (simp add: ev_inv_def)
        then have "ht_wf (ev_Table c1)" by (simp add: table_inv_def)
        from HashTableAdd_law [OF this] obtain T where T: "HashTableAdd True (ev_Table c1) (of_nat (ch_LocalPort ch)) p = Some (STATUS_SUCCESS, T)" by blast
        have st: "st = STATUS_SUCCESS" and shape: "\<not> ch_Active ch" "\<not> ch_Closed ch" "\<not> ch_Pending ch" "\<not> ch_PendingListEntry ch" "ch_Cpu ch = 0"
          using t ok1 by (auto simp: evtchn_open_type_def EvtchnOpenFixed_def EvtchnOpenUnbound_def EvtchnOpenInterDomain_def EvtchnOpenVirq_def zero_CHANNEL_def
              Let_def split: open_args.splits prod.splits if_split_asm)
        note f = pages_only_fields [OF p1]
        have free: "ev_Channel c1 p = None" "port_free c1 (ch_LocalPort ch)" using ok Some t st by (auto simp: open_ok_def f port_free_def)
        from add_channel_inv [OF inv1 free(1), of "ch\<lparr>ch_Active := True\<rparr>" T] free(2) shape T
        have "evtchn_wf ((put_channel p (ch\<lparr>ch_Active := True\<rparr>) (c1\<lparr>ev_Table := T\<rparr>))\<lparr>ev_List := ev_List c1 @ [p]\<rparr>)" by simp
        moreover have "c = (put_channel p (ch\<lparr>ch_Active := True\<rparr>) (c1\<lparr>ev_Table := T\<rparr>))\<lparr>ev_List := ev_List c1 @ [p]\<rparr>"
          using run Some t ok1 e ok2 True T by (simp add: EvtchnOpen_def Let_def)
        ultimately show ?thesis by simp
      qed
    qed
  qed
qed

lemma evtchn_step_keeps:
  assumes "evtchn_step ctx c" and wf: "evtchn_wf ctx"
  shows "evtchn_wf c"
  using assms(1)
proof cases
  case step_open
  then show ?thesis using EvtchnOpen_keeps [OF wf] by blast
next
  case step_mark
  then show ?thesis using evtchn_mark_closed_keeps [OF wf] by blast
next
  case step_close
  then show ?thesis using EvtchnClose_keeps [OF wf] by blast
next
  case (step_trigger p)
  then obtain ch where "ev_Channel ctx p = Some ch" by (auto simp: EvtchnTrigger_def bind_eq_Some_conv)
  from EvtchnTrigger_law [OF wf this] step_trigger show ?thesis by auto
next
  case step_bind
  then show ?thesis using EvtchnBind_keeps [OF wf] by blast
next
  case step_unmask
  then show ?thesis using EvtchnUnmask_keeps [OF wf] by blast
next
  case step_send
  then show ?thesis using wf by (auto simp: EvtchnSend_def bind_eq_Some_conv split: if_splits)
next
  case step_interrupt
  then show ?thesis using EvtchnInterruptCallback_keeps wf by blast
next
  case step_dpc
  then show ?thesis using EvtchnDpc_keeps wf by blast
next
  case step_suspend
  then show ?thesis using suspend_channels_keeps [of "ev_List ctx" ctx c] wf by (simp add: EvtchnSuspendCallbackEarly_def)
next
  case step_resume
  then show ?thesis using EvtchnSuspendCallbackLate_keeps wf by blast
next
  case step_hypervisor
  then show ?thesis using ev_inv_pages [OF hypervisor_pages] wf by blast
qed

section \<open>Opening\<close>

lemma abi_PortDisable_mask: "abi_PortDisable = abi_PortMask"
proof -
  have "EvtchnFifoPortDisable = EvtchnFifoPortMask" by (simp add: fun_eq_iff EvtchnFifoPortDisable_def)
  moreover have "EvtchnTwoLevelPortDisable = EvtchnTwoLevelPortMask"
    by (simp add: fun_eq_iff EvtchnTwoLevelPortDisable_def EvtchnTwoLevelPortMask_def)
  ultimately show ?thesis by (simp add: abi_PortDisable_def abi_PortMask_def)
qed

lemma abi_PortEnable_law:
  assumes "abi_pages_ok ctx"
  shows "\<exists>st c. abi_PortEnable env ctx p = Some (st, c) \<and> pages_only ctx c \<and> abi_pages_ok c \<and>
     (NT_SUCCESS st \<and> (ev_Abi ctx = Some TWO_LEVEL \<longrightarrow> p < 4096) \<longrightarrow> p \<in> abi_ports c)"
  using assms
proof (cases rule: abi_cases)
  case fifo
  then have "fifo_pages_ok (ev_Fifo ctx)" using assms by (simp add: abi_defs)
  from EvtchnFifoPortEnable_law [OF this, of "ee_mem env" "ee_page env" "ee_reg env" p] obtain st f where
    f: "EvtchnFifoPortEnable (ee_mem env) (ee_page env) (ee_reg env) (ev_Fifo ctx) p = Some (st, f)" "fifo_pages_ok f"
      "NT_SUCCESS st \<Longrightarrow> p \<in> fifo_ports f" by (auto split: if_splits)
  then show ?thesis using fifo by (intro exI [of _ st] exI [of _ "ctx\<lparr>ev_Fifo := f\<rparr>"]) (simp add: abi_PortEnable_def abi_defs)
next
  case two_level
  then show ?thesis using assms
    by (intro exI [of _ STATUS_SUCCESS] exI [of _ ctx]) (simp add: abi_PortEnable_def EvtchnTwoLevelPortEnable_def abi_defs)
qed

definition open_start :: "open_args \<Rightarrow> ULONG_PTR \<Rightarrow> ULONG_PTR \<Rightarrow> XENBUS_EVTCHN_CHANNEL" where
  "open_start args Callback Argument = zero_CHANNEL\<lparr>ch_Type := type_of args, ch_Callback := Callback, ch_Argument := Argument\<rparr>"

lemma open_start_updates:
  "(open_start args Callback Argument)\<lparr>ch_Mask := M, ch_LocalPort := L\<rparr> =
     (open_start args Callback Argument)\<lparr>ch_Parameters := NoParameters, ch_Mask := M, ch_LocalPort := L\<rparr>"
  "(open_start args Callback Argument)\<lparr>ch_Parameters := P, ch_LocalPort := L\<rparr> =
     (open_start args Callback Argument)\<lparr>ch_Parameters := P, ch_Mask := False, ch_LocalPort := L\<rparr>"
  by (simp_all add: open_start_def zero_CHANNEL_def)

lemma open_type_shape:
  assumes "evtchn_open_type env Version ctx args (open_start args Callback Argument) = Some (st, ch)"
  shows "if NT_SUCCESS st then st = STATUS_SUCCESS \<and>
       (\<exists>P M L. ch = (open_start args Callback Argument)\<lparr>ch_Parameters := P, ch_Mask := M, ch_LocalPort := L\<rparr>)
     else ch = open_start args Callback Argument"
  using assms
  by (cases args) (auto simp: evtchn_open_type_def EvtchnOpenFixed_def EvtchnOpenUnbound_def EvtchnOpenInterDomain_def EvtchnOpenVirq_def
      open_start_updates Let_def split: prod.splits if_split_asm)

text \<open>What a context keeps when the opening of a channel fails.\<close>

definition same_channels :: "XENBUS_EVTCHN_CONTEXT \<Rightarrow> XENBUS_EVTCHN_CONTEXT \<Rightarrow> bool" where
  "same_channels ctx c \<longleftrightarrow> ev_Channel c = ev_Channel ctx \<and> ev_List c = ev_List ctx \<and> ev_Table c = ev_Table ctx \<and> ev_Processor c = ev_Processor ctx"

lemma open_fail3_law:
  assumes "ch = (open_start args Callback Argument)\<lparr>ch_Parameters := P, ch_Mask := M, ch_LocalPort := L\<rparr>"
  shows "evtchn_open_fail3 L ch ctx = Some (None, if type_of args = TYPE_FIXED then ctx else hypercall (EventChannelClose L) ctx)"
  by (simp add: evtchn_open_fail3_def evtchn_open_fail2_def assms open_start_def zero_CHANNEL_def)

text \<open>
  C32. Opening a channel is all or nothing. It always returns; on success the channel is active, in the list
  and found under its port, and the ABI knows the port. On failure, wherever it fails, the channels, the
  table and the lists are as before, and a port that the hypervisor had made for it has been closed again,
  once, while a port given by the caller has not.
\<close>
theorem EvtchnOpen_all_or_nothing:
  assumes inv: "evtchn_wf ctx" and pages: "abi_pages_ok ctx" and ok: "open_ok env Version args Callback Argument ctx"
    and made: "evtchn_open_type env Version ctx args (open_start args Callback Argument) = Some (st, ch)"
    and port: "ev_Abi ctx = Some TWO_LEVEL \<longrightarrow> ch_LocalPort ch < 4096"
  shows "\<exists>r c. EvtchnOpen env Version args Callback Argument ctx = Some (r, c) \<and> evtchn_wf c \<and>
     (case r of
        None \<Rightarrow> same_channels ctx c \<and> ev_Calls c = ev_Calls ctx @
          (if ee_alloc env \<noteq> None \<and> NT_SUCCESS st \<and> type_of args \<noteq> TYPE_FIXED then [EventChannelClose (ch_LocalPort ch)] else [])
      | Some p \<Rightarrow> ee_alloc env = Some p \<and> NT_SUCCESS st \<and> ev_Channel c = (ev_Channel ctx)(p \<mapsto> ch\<lparr>ch_Active := True\<rparr>) \<and>
          ev_List c = ev_List ctx @ [p] \<and> HashTableLookup (ev_Table c) (of_nat (ch_LocalPort ch)) = Some (STATUS_SUCCESS, Some p) \<and>
          ch_LocalPort ch \<in> abi_ports c \<and> ev_Calls c = ev_Calls ctx)"
proof -
  note made' = made [unfolded open_start_def]
  have over: ?thesis if "EvtchnOpen env Version args Callback Argument ctx = Some (None, c)" "same_channels ctx c"
      "ev_Calls c = ev_Calls ctx @ (if ee_alloc env \<noteq> None \<and> NT_SUCCESS st \<and> type_of args \<noteq> TYPE_FIXED then [EventChannelClose (ch_LocalPort ch)] else [])" for c
    using that EvtchnOpen_keeps [OF inv ok that(1)] by (intro exI [of _ None] exI [of _ c]) simp
  show ?thesis
  proof (cases "ee_alloc env")
    case None
    then show ?thesis by (intro over [of ctx]) (simp_all add: EvtchnOpen_def same_channels_def)
  next
    case (Some p)
    note shape = open_type_shape [OF made]
    show ?thesis
    proof (cases "NT_SUCCESS st")
      case False
      then have "ch = open_start args Callback Argument" using shape by simp
      then have "evtchn_open_fail2 ch ctx = Some (None, ctx)" by (simp add: evtchn_open_fail2_def open_start_def zero_CHANNEL_def)
      then show ?thesis using Some made' False by (intro over [of ctx]) (simp_all add: EvtchnOpen_def same_channels_def)
    next
      case ok1: True
      then obtain P M L where ch: "ch = (open_start args Callback Argument)\<lparr>ch_Parameters := P, ch_Mask := M, ch_LocalPort := L\<rparr>" using shape by auto
      then have L: "ch_LocalPort ch = L" by simp
      from abi_PortEnable_law [OF pages, of env L] obtain st2 c1 where c1: "abi_PortEnable env ctx L = Some (st2, c1)" "pages_only ctx c1"
        "abi_pages_ok c1" "NT_SUCCESS st2 \<Longrightarrow> L \<in> abi_ports c1" using port L by auto
      note f = pages_only_fields [OF c1(2)]
      show ?thesis
      proof (cases "NT_SUCCESS st2")
        case False
        then show ?thesis using Some made' ok1 c1(1) L open_fail3_law [OF ch, of c1]
          by (intro over [of "if type_of args = TYPE_FIXED then c1 else hypercall (EventChannelClose L) c1"])
            (simp_all add: EvtchnOpen_def same_channels_def f)
      next
        case ok2: True
        show ?thesis
        proof (cases "ee_node env")
          case False
          from abi_PortMask_law [OF c1(3) c1(4) [OF ok2]] obtain c2 where c2: "abi_PortMask c1 L = Some c2" "pages_only c1 c2" by blast
          note g = pages_only_fields [OF c2(2)]
          show ?thesis using Some made' ok1 c1(1) L ok2 False c2(1) open_fail3_law [OF ch, of c2]
            by (intro over [of "if type_of args = TYPE_FIXED then c2 else hypercall (EventChannelClose L) c2"])
              (simp_all add: EvtchnOpen_def HashTableAdd_def abi_PortDisable_mask same_channels_def f g)
        next
          case True
          have "ht_wf (ev_Table ctx)" using inv by (simp add: ev_inv_def table_inv_def)
          from HashTableAdd_law [OF this, of "of_nat L" p] obtain T where
            T: "HashTableAdd True (ev_Table ctx) (of_nat L) p = Some (STATUS_SUCCESS, T)" by blast
          let ?c = "(put_channel p (ch\<lparr>ch_Active := True\<rparr>) (c1\<lparr>ev_Table := T\<rparr>))\<lparr>ev_List := ev_List ctx @ [p]\<rparr>"
          have run: "EvtchnOpen env Version args Callback Argument ctx = Some (Some p, ?c)"
            using Some made' ok1 c1(1) L ok2 True T by (simp add: EvtchnOpen_def Let_def f)
          have wf: "evtchn_wf ?c" by (rule EvtchnOpen_keeps [OF inv ok run])
          then have "table_inv T ((ev_Channel ctx)(p \<mapsto> ch\<lparr>ch_Active := True\<rparr>))" by (simp add: ev_inv_def f)
          from table_inv_lookup [OF this, of "of_nat L"] have "HashTableLookup T (of_nat L) = Some (STATUS_SUCCESS, Some p)"
          proof
            assume "HashTableLookup T (of_nat L) = Some (STATUS_OBJECT_NAME_NOT_FOUND, None) \<and>
              (\<forall>q c. ((ev_Channel ctx)(p \<mapsto> ch\<lparr>ch_Active := True\<rparr>)) q = Some c \<and> ch_Active c \<longrightarrow> of_nat (ch_LocalPort c) \<noteq> (of_nat L :: ULONG_PTR))"
            then show ?thesis using L by (metis fun_upd_same XENBUS_EVTCHN_CHANNEL.select_convs(5,10) XENBUS_EVTCHN_CHANNEL.surjective XENBUS_EVTCHN_CHANNEL.update_convs(5))
          next
            assume "\<exists>q c. HashTableLookup T (of_nat L) = Some (STATUS_SUCCESS, Some q) \<and>
              ((ev_Channel ctx)(p \<mapsto> ch\<lparr>ch_Active := True\<rparr>)) q = Some c \<and> ch_Active c \<and> of_nat (ch_LocalPort c) = (of_nat L :: ULONG_PTR)"
            then obtain q c where q: "HashTableLookup T (of_nat L) = Some (STATUS_SUCCESS, Some q)"
              "((ev_Channel ctx)(p \<mapsto> ch\<lparr>ch_Active := True\<rparr>)) q = Some c" "ch_Active c" "of_nat (ch_LocalPort c) = (of_nat L :: ULONG_PTR)" by blast
            have "q = p"
            proof (rule ccontr)
              assume "q \<noteq> p"
              with q(2) have c: "ev_Channel ctx q = Some c" by simp
              have free: "port_free ctx L" using ok made' shape ok1 L by (auto simp: open_ok_def)
              have "ch_LocalPort c < 2 ^ 32" using ev_inv_channel_ok [OF inv c] q(3) by (simp add: channel_ok_def)
              then have "ch_LocalPort c = L" using of_nat_port [of "ch_LocalPort c" L] q(4) free by (simp add: port_free_def)
              then show False using free c q(3) by (auto simp: port_free_def ran_def)
            qed
            then show ?thesis using q(1) by simp
          qed
          moreover have "abi_ports ?c = abi_ports c1" by (rule abi_frame(3)) simp_all
          ultimately show ?thesis using run wf Some ok1 L c1(4) [OF ok2] by (intro exI [of _ "Some p"] exI [of _ ?c]) (simp add: f)
        qed
      qed
    qed
  qed
qed

section \<open>Flushing\<close>

text \<open>The channels that a flush has collected are cleared and freed, and their ports closed.\<close>

definition close_calls :: "XENBUS_EVTCHN_CONTEXT \<Rightarrow> ULONG_PTR list \<Rightarrow> hypercall list" where
  "close_calls ctx ps = concat (map (\<lambda>p. case ev_Channel ctx p of
     Some ch \<Rightarrow> if ch_Type ch = TYPE_FIXED then [] else [EventChannelClose (ch_LocalPort ch)] | None \<Rightarrow> []) ps)"

lemma reap_one_law:
  assumes inv: "ev_inv (p # l) ctx" and ch: "ev_Channel ctx p = Some ch" "ch_Closed ch" "ch_Pending ch"
  shows "\<exists>c. EvtchnReap (put_channel p (ch\<lparr>ch_PendingListEntry := False, ch_Pending := False\<rparr>) ctx) p True = Some c \<and> ev_inv l c \<and>
     ev_Channel c = (ev_Channel ctx)(p := None) \<and> ev_List c = remove1 p (ev_List ctx) \<and> ev_Processor c = ev_Processor ctx \<and>
     ev_Table c = ev_Table ctx \<and> ev_Services c = ev_Services ctx \<and> ev_Abi c = ev_Abi ctx \<and>
     ev_Calls c = ev_Calls ctx @ (if ch_Type ch = TYPE_FIXED then [] else [EventChannelClose (ch_LocalPort ch)])"
proof -
  let ?c = "put_channel p (ch\<lparr>ch_PendingListEntry := False, ch_Pending := False\<rparr>) ctx"
  have "\<not> ch_Active ch" using ev_inv_channel_ok [OF inv ch(1)] ch(2) by (auto simp: channel_ok_def)
  then have "ch\<lparr>ch_PendingListEntry := False, ch_Pending := False, ch_Count := 0, ch_Closed := False, ch_Cpu := 0, ch_LocalPort := 0, ch_Mask := False,
      ch_Parameters := NoParameters, ch_Argument := 0, ch_Callback := 0, ch_Type := TYPE_INVALID\<rparr> = zero_CHANNEL"
    by (cases ch) (simp add: zero_CHANNEL_def)
  then obtain c where run: "EvtchnReap ?c p True = Some c" using ch(2) by (simp add: EvtchnReap_def Let_def)
  from EvtchnReap_keeps [OF reaped_inv [OF inv ch(1,3)] run] have "ev_inv l c" .
  with run EvtchnReap_shape [OF run] show ?thesis by (intro exI [of _ c]) (auto simp: fun_upd_def)
qed

lemma reap_channels_law:
  "ev_inv ps ctx \<Longrightarrow> distinct ps \<Longrightarrow> \<forall>p \<in> set ps. \<exists>ch. ev_Channel ctx p = Some ch \<and> ch_Closed ch \<and> ch_Pending ch \<Longrightarrow>
     \<exists>c. reap_channels ps ctx = Some c \<and> evtchn_wf c \<and> (\<forall>p. ev_Channel c p = (if p \<in> set ps then None else ev_Channel ctx p)) \<and>
       ev_List c = filter (\<lambda>p. p \<notin> set ps) (ev_List ctx) \<and> ev_Processor c = ev_Processor ctx \<and> ev_Table c = ev_Table ctx \<and>
       ev_Services c = ev_Services ctx \<and> ev_Calls c = ev_Calls ctx @ close_calls ctx ps"
proof (induction ps arbitrary: ctx)
  case Nil
  then show ?case by (simp add: close_calls_def)
next
  case (Cons p ps)
  then obtain ch where ch: "ev_Channel ctx p = Some ch" "ch_Closed ch" "ch_Pending ch" by auto
  from reap_one_law [OF Cons.prems(1) ch] obtain c1 where
    c1: "EvtchnReap (put_channel p (ch\<lparr>ch_PendingListEntry := False, ch_Pending := False\<rparr>) ctx) p True = Some c1" "ev_inv ps c1"
      "ev_Channel c1 = (ev_Channel ctx)(p := None)" "ev_List c1 = remove1 p (ev_List ctx)" "ev_Processor c1 = ev_Processor ctx" "ev_Table c1 = ev_Table ctx"
      "ev_Services c1 = ev_Services ctx"
      "ev_Calls c1 = ev_Calls ctx @ (if ch_Type ch = TYPE_FIXED then [] else [EventChannelClose (ch_LocalPort ch)])" by (elim exE conjE)
  have p: "p \<notin> set ps" "distinct ps" using Cons.prems(2) by simp_all
  have "\<forall>q \<in> set ps. \<exists>ch. ev_Channel c1 q = Some ch \<and> ch_Closed ch \<and> ch_Pending ch" using Cons.prems(3) p(1) c1(3) by auto
  from Cons.IH [OF c1(2) p(2) this] obtain c where
    c: "reap_channels ps c1 = Some c" "evtchn_wf c" "\<forall>q. ev_Channel c q = (if q \<in> set ps then None else ev_Channel c1 q)"
      "ev_List c = filter (\<lambda>q. q \<notin> set ps) (ev_List c1)" "ev_Processor c = ev_Processor c1" "ev_Table c = ev_Table c1"
      "ev_Services c = ev_Services c1" "ev_Calls c = ev_Calls c1 @ close_calls c1 ps" by (elim exE conjE)
  have "distinct (ev_List ctx)" using Cons.prems(1) by (simp add: ev_inv_def list_inv_def)
  then have "ev_List c = filter (\<lambda>q. q \<notin> set (p # ps)) (ev_List ctx)" unfolding c(4) c1(4)
    by (auto simp: distinct_remove1_removeAll removeAll_filter_not_eq intro: filter_cong)
  moreover have "close_calls c1 ps = close_calls ctx ps" unfolding close_calls_def
    by (intro arg_cong [where f = concat] map_cong refl) (use p(1) c1(3) in auto)
  moreover have "close_calls ctx (p # ps) = (if ch_Type ch = TYPE_FIXED then [] else [EventChannelClose (ch_LocalPort ch)]) @ close_calls ctx ps"
    by (simp add: close_calls_def ch(1))
  ultimately show ?case using c c1 ch by (intro exI [of _ c]) auto
qed

lemma EvtchnFlush_law:
  assumes inv: "evtchn_wf ctx" and ready: "poll_ready vcpu_id ctx Cpu ports"
  shows "\<exists>c. EvtchnFlush vcpu_id service ctx Cpu = Some c \<and> evtchn_wf c \<and>
     (\<forall>p. ev_Channel c p = (if p \<in> set (poll_list ctx Cpu ports) then (if is_open ctx p then map_option served (ev_Channel ctx p) else None) else ev_Channel ctx p)) \<and>
     ev_Services c = ev_Services ctx @ map (callback_of ctx) (filter (is_open ctx) (poll_list ctx Cpu ports)) \<and>
     ev_Calls c = ev_Calls ctx @ close_calls ctx (filter (\<lambda>p. \<not> is_open ctx p) (poll_list ctx Cpu ports)) \<and>
     pr_PendingList (ev_Processor c ! Cpu) = [] \<and>
     ev_List c = filter (\<lambda>p. p \<in> set (poll_list ctx Cpu ports) \<longrightarrow> is_open ctx p) (ev_List ctx)"
proof -
  let ?ps = "filter (\<lambda>p. \<not> is_open ctx p) (poll_list ctx Cpu ports)"
  from EvtchnPoll_law [OF inv ready, of "Some []" service] obtain d c1 where
    c1: "EvtchnPoll vcpu_id service ctx Cpu (Some []) = Some (d, Some ?ps, c1)" "ev_inv ?ps c1"
      "ev_Services c1 = ev_Services ctx @ map (callback_of ctx) (filter (is_open ctx) (poll_list ctx Cpu ports))"
      "\<forall>p. ev_Channel c1 p = (if p \<in> set (poll_list ctx Cpu ports) \<and> is_open ctx p then map_option served (ev_Channel ctx p) else ev_Channel ctx p)"
      "pr_PendingList (ev_Processor c1 ! Cpu) = []" "ev_List c1 = ev_List ctx" "ev_Calls c1 = ev_Calls ctx" by auto
  have q: "queue_inv (queued c1 @ ?ps) (ev_Channel c1)" using c1(2) by (simp add: ev_inv_def)
  then have dist: "distinct ?ps" using queue_inv_distinct [OF q] by simp
  have closed: "\<exists>ch. ev_Channel c1 p = Some ch \<and> ch_Closed ch \<and> ch_Pending ch" if "p \<in> set ?ps" for p
  proof -
    have "is_pending (ev_Channel c1) p" using queue_inv_mem [OF q, of p] that by simp
    then obtain ch where "ev_Channel c1 p = Some ch" "ch_Pending ch" by (auto simp: is_pending_def split: option.splits)
    then show ?thesis using that c1(4) by (auto simp: is_open_def)
  qed
  from reap_channels_law [OF c1(2) dist] closed obtain c where
    c: "reap_channels ?ps c1 = Some c" "evtchn_wf c" "\<forall>p. ev_Channel c p = (if p \<in> set ?ps then None else ev_Channel c1 p)"
      "ev_List c = filter (\<lambda>p. p \<notin> set ?ps) (ev_List c1)" "ev_Processor c = ev_Processor c1" "ev_Services c = ev_Services c1"
      "ev_Calls c = ev_Calls c1 @ close_calls c1 ?ps" by blast
  have "EvtchnFlush vcpu_id service ctx Cpu = Some c" using c1(1) c(1) ready by (simp add: EvtchnFlush_def poll_ready_def)
  moreover have "close_calls c1 ?ps = close_calls ctx ?ps" unfolding close_calls_def
    by (intro arg_cong [where f = concat] map_cong refl) (use c1(4) in auto)
  moreover have "ev_List c = filter (\<lambda>p. p \<in> set (poll_list ctx Cpu ports) \<longrightarrow> is_open ctx p) (ev_List ctx)"
    unfolding c(4) c1(6) by (rule filter_cong) auto
  ultimately show ?thesis using c c1 by (intro exI [of _ c]) auto
qed

text \<open>
  C33. A poll, on either ABI, serves every channel exactly once: the channels already waiting and then those
  of the ports that the ABI reports for the processor, in that order. A channel that is open leaves the
  pending list, its port is no longer pending, its count goes up by one and its callback runs with its
  argument; closed channels stay for the flush, and no other channel or port changes.
\<close>
theorem EvtchnPoll_serves_each_once:
  assumes "evtchn_wf ctx" and "poll_ready vcpu_id ctx Cpu ports"
  shows "\<exists>d c. EvtchnPoll vcpu_id service ctx Cpu None = Some (d, None, c) \<and> evtchn_wf c \<and>
     ev_Services c = ev_Services ctx @ map (callback_of ctx) (filter (is_open ctx) (poll_list ctx Cpu ports)) \<and>
     (\<forall>p. ev_Channel c p = (if p \<in> set (poll_list ctx Cpu ports) \<and> is_open ctx p then map_option served (ev_Channel ctx p) else ev_Channel ctx p)) \<and>
     pr_PendingList (ev_Processor c ! Cpu) = filter (\<lambda>p. \<not> is_open ctx p) (poll_list ctx Cpu ports) \<and>
     (\<forall>q \<in> abi_ports ctx. abi_pending c q = (abi_pending ctx q \<and> q \<notin> port_of_channel ctx ` set (filter (is_open ctx) (poll_list ctx Cpu ports))))"
  using EvtchnPoll_law [OF assms, of None service] by auto

section \<open>Closing\<close>

lemma reports_frame:
  assumes "ev_Abi c = ev_Abi ctx" and "ev_Fifo c = ev_Fifo ctx" and "ev_TwoLevel c = ev_TwoLevel ctx"
  shows "reports vcpu_id c Cpu ports = reports vcpu_id ctx Cpu ports"
  unfolding reports_def assms by simp

text \<open>
  Closing an active channel and then running the DPC of its processor, which the closing has queued,
  frees the channel: it is in no list and not in the table, its port has been closed by one hypercall
  unless the caller had given it, and its callback has not run again.
\<close>
theorem EvtchnClose_reaps:
  assumes inv: "evtchn_wf ctx" and ch: "ev_Channel ctx p = Some ch" "ch_Active ch" "\<not> ch_Pending ch"
    and close: "EvtchnClose ctx p = Some c1" and refs: "ev_References c1 \<noteq> 0" and ready: "poll_ready vcpu_id c1 (ch_Cpu ch) ports"
    and alone: "pr_PendingList (ev_Processor ctx ! ch_Cpu ch) = []"
  shows "pr_Dpc (ev_Processor c1 ! ch_Cpu ch) \<and>
     (\<exists>c2. EvtchnDpc vcpu_id service c1 (ch_Cpu ch) = Some c2 \<and> evtchn_wf c2 \<and> ev_Channel c2 p = None \<and> p \<notin> set (ev_List c2) \<and> p \<notin> set (queued c2) \<and>
       ev_Calls c2 = ev_Calls c1 @ (if ch_Type ch = TYPE_FIXED then [] else [EventChannelClose (ch_LocalPort ch)]) \<and>
       ev_Services c2 = ev_Services c1 @ map (callback_of c1) (arrivals (ch_Cpu ch) c1 ports))"
proof -
  let ?Cpu = "ch_Cpu ch" and ?ch = "ch\<lparr>ch_Active := False, ch_Closed := True\<rparr>"
  from close ch obtain m where m: "evtchn_mark_closed ctx p = Some m" "EvtchnTrigger m p = Some c1" by (auto simp: EvtchnClose_def bind_eq_Some_conv)
  note k = evtchn_mark_closed_keeps [OF inv ch(1,2) m(1)]
  then have chm: "ev_Channel m p = Some ?ch" by simp
  from EvtchnTrigger_law [OF conjunct1 [OF k] chm] m(2) ch(3) have t: "evtchn_wf c1" "pr_Dpc (ev_Processor c1 ! ?Cpu)"
    "ev_Channel c1 = (ev_Channel m)(p \<mapsto> ?ch\<lparr>ch_Pending := True, ch_PendingListEntry := True\<rparr>)" by auto
  have Cpu: "?Cpu < length (ev_Processor ctx)" using ev_inv_channel_ok [OF inv ch(1)] by (simp add: channel_ok_def)
  have pl: "pr_PendingList (ev_Processor c1 ! ?Cpu) = [p]"
    using m(2) chm ch(3) k Cpu alone by (auto simp: EvtchnTrigger_def append_pending_def Let_def bind_eq_Some_conv split: if_split_asm)
  define c where "c = put_processor ?Cpu ((ev_Processor c1 ! ?Cpu)\<lparr>pr_Dpc := False\<rparr>) c1"
  have wf: "evtchn_wf c" unfolding c_def by (rule ev_inv_dpc [OF t(1)])
  have same_maps: "ev_Channel c = ev_Channel c1" "ev_Table c = ev_Table c1" by (simp_all add: c_def)
  have "arriving ?Cpu c = arriving ?Cpu c1" unfolding fun_eq_iff arriving_def same_maps by simp
  then have same: "arrivals ?Cpu c ports = arrivals ?Cpu c1 ports" "is_open c = is_open c1" "callback_of c = callback_of c1" "port_of_channel c = port_of_channel c1"
    by (simp add: arrivals_def, simp_all add: fun_eq_iff is_open_def callback_of_def port_of_channel_def same_maps)
  have Cpu1: "?Cpu < length (ev_Processor c1)" using ready by (simp add: poll_ready_def)
  have plc: "pr_PendingList (ev_Processor c ! ?Cpu) = [p]" using pl Cpu1 by (simp add: c_def)
  have ready': "poll_ready vcpu_id c ?Cpu ports"
    using ready abi_frame(3) [of c c1] reports_frame [of c c1 vcpu_id ?Cpu ports] pl plc same(2,4) Cpu1
    by (simp add: poll_ready_def) (simp add: c_def)
  have closed: "\<not> is_open c1 p" using t(3) by (simp add: is_open_def)
  have small: "q < 2 ^ 32" if "q \<in> set ports" for q
    using ready reports_ports [of vcpu_id c1 ?Cpu ports] that by (auto simp: poll_ready_def)
  have open_arrivals: "is_open c1 q" if "q \<in> set (arrivals ?Cpu c1 ports)" for q
  proof -
    from that obtain x where "x \<in> set ports" "arriving ?Cpu c1 x = Some q" by (auto simp: arrivals_def List.map_filter_def)
    with arriving_Some [OF t(1)] small show ?thesis by (force simp: is_open_def)
  qed
  have lists: "filter (is_open c1) (poll_list c ?Cpu ports) = arrivals ?Cpu c1 ports" "filter (\<lambda>q. \<not> is_open c1 q) (poll_list c ?Cpu ports) = [p]"
    using closed open_arrivals by (auto simp: poll_list_def plc same filter_id_conv filter_empty_conv)
  from EvtchnFlush_law [OF wf ready', of service] obtain c2 where
    c2: "EvtchnFlush vcpu_id service c ?Cpu = Some c2" "evtchn_wf c2"
      "\<forall>q. ev_Channel c2 q = (if q \<in> set (poll_list c ?Cpu ports) then (if is_open c1 q then map_option served (ev_Channel c q) else None) else ev_Channel c q)"
      "ev_Services c2 = ev_Services c @ map (callback_of c1) (arrivals ?Cpu c1 ports)" "ev_Calls c2 = ev_Calls c @ close_calls c [p]"
    unfolding same lists by blast
  have gone: "ev_Channel c2 p = None" using c2(3) closed by (simp add: poll_list_def plc)
  then have "p \<notin> set (ev_List c2)" "p \<notin> set (queued c2)"
    using c2(2) queue_inv_mem [of "queued c2" "ev_Channel c2" p] by (auto simp: ev_inv_def list_inv_def is_pending_def)
  moreover have "EvtchnDpc vcpu_id service c1 ?Cpu = Some c2" using c2(1) refs by (simp add: EvtchnDpc_def c_def [symmetric]) (simp add: c_def)
  moreover have "close_calls c [p] = (if ch_Type ch = TYPE_FIXED then [] else [EventChannelClose (ch_LocalPort ch)])"
    by (simp add: close_calls_def c_def t(3))
  ultimately show ?thesis using t(2) c2(2,4,5) gone by (intro conjI exI [of _ c2]) (simp_all add: c_def)
qed

text \<open>What a poll without a list does to the DPC flags and to the closed channels.\<close>

lemma serve_channel_frame:
  assumes "serve_channel service Cpu p ch ctx = Some (d, c)"
  shows "pr_Dpc (ev_Processor c ! i) = pr_Dpc (ev_Processor ctx ! i) \<and> (\<forall>q. q \<noteq> p \<longrightarrow> ev_Channel c q = ev_Channel ctx q) \<and>
     length (ev_Processor c) = length (ev_Processor ctx) \<and>
     (q \<noteq> p \<longrightarrow> q \<in> set (pr_PendingList (ev_Processor ctx ! j)) \<longrightarrow> q \<in> set (pr_PendingList (ev_Processor c ! j)))"
proof -
  let ?ch = "ch\<lparr>ch_PendingListEntry := False, ch_Pending := False\<rparr>"
  let ?c1 = "put_channel p ?ch (remove_pending Cpu p ctx)"
  from assms obtain c2 c3 where r: "(if ch_Mask ch then abi_PortMask ?c1 (ch_LocalPort ch) else Some ?c1) = Some c2"
    "abi_PortAck c2 (ch_LocalPort ch) = Some c3"
    "c = (put_channel p (?ch\<lparr>ch_Count := ch_Count ch + 1\<rparr>) c3)\<lparr>ev_Services := ev_Services c3 @ [(ch_Callback ch, ch_Argument ch)]\<rparr>"
    by (auto simp: serve_channel_def bind_eq_Some_conv Let_def split: if_split_asm)
  have "pages_only ?c1 c2" using r(1) by (auto split: if_splits dest: pages_only_ops)
  note f = pages_only_fields [OF this] pages_only_fields [OF pages_only_ops(1) [OF r(2)]]
  have P: "pr_Dpc (ev_Processor (remove_pending Cpu p ctx) ! i) = pr_Dpc (ev_Processor ctx ! i)"
    "q \<noteq> p \<longrightarrow> q \<in> set (pr_PendingList (ev_Processor ctx ! j)) \<longrightarrow> q \<in> set (pr_PendingList (ev_Processor (remove_pending Cpu p ctx) ! j))"
    by (cases "Cpu < length (ev_Processor ctx)"; cases "i = Cpu"; simp add: remove_pending_def list_update_beyond)
      (cases "Cpu < length (ev_Processor ctx)"; cases "j = Cpu"; simp add: remove_pending_def list_update_beyond)
  then show ?thesis by (simp add: r(3) f)
qed

lemma poll_channels_frame:
  "poll_channels service Cpu ps d None ctx = Some (d', List', c) \<Longrightarrow> ev_Channel ctx p = Some ch \<Longrightarrow> ch_Closed ch \<Longrightarrow>
     pr_Dpc (ev_Processor c ! i) = pr_Dpc (ev_Processor ctx ! i) \<and> ev_Channel c p = Some ch \<and> length (ev_Processor c) = length (ev_Processor ctx) \<and>
     (p \<in> set (pr_PendingList (ev_Processor ctx ! j)) \<longrightarrow> p \<in> set (pr_PendingList (ev_Processor c ! j)))"
proof (induction ps arbitrary: d ctx)
  case (Cons q qs)
  from Cons.prems(1) obtain cq where cq: "ev_Channel ctx q = Some cq" by (auto simp: bind_eq_Some_conv)
  show ?case
  proof (cases "ch_Closed cq")
    case True
    then show ?thesis using Cons.IH [of d ctx] Cons.prems cq by simp
  next
    case False
    with Cons.prems cq obtain x c1 where s: "serve_channel service Cpu q cq ctx = Some (x, c1)" "poll_channels service Cpu qs (d \<or> x) None c1 = Some (d', List', c)"
      by (auto simp: bind_eq_Some_conv)
    have "p \<noteq> q" using False Cons.prems(2,3) cq by auto
    with serve_channel_frame [OF s(1), of i p j] Cons.IH [OF s(2)] Cons.prems(2,3) show ?thesis by auto
  qed
qed simp

text \<open>
  A race strands a channel. When the interrupt callback has queued the channel for an event, and the
  channel is marked closed before the callback's loop reaches it, the loop leaves it on the pending list,
  and the trigger that ends the closing finds it pending and queues no DPC: the channel is not freed and
  its port not closed until something else flushes that processor.
\<close>
theorem EvtchnClose_race_strands:
  assumes inv: "evtchn_wf ctx" and ch: "ev_Channel ctx p = Some ch" "ch_Active ch" "p \<in> set (pr_PendingList (ev_Processor ctx ! ch_Cpu ch))"
    and mark: "evtchn_mark_closed ctx p = Some c1"
    and poll: "poll_channels service (ch_Cpu ch) (pr_PendingList (ev_Processor c1 ! ch_Cpu ch)) False None c1 = Some (d, List, c2)"
    and trigger: "EvtchnTrigger c2 p = Some c3"
  shows "p \<in> set (pr_PendingList (ev_Processor c3 ! ch_Cpu ch)) \<and> ev_Channel c3 p = Some (ch\<lparr>ch_Active := False, ch_Closed := True\<rparr>) \<and>
     pr_Dpc (ev_Processor c3 ! i) = pr_Dpc (ev_Processor ctx ! i)"
proof -
  let ?ch = "ch\<lparr>ch_Active := False, ch_Closed := True\<rparr>"
  have Cpu: "ch_Cpu ch < length (ev_Processor ctx)" using ev_inv_channel_ok [OF inv ch(1)] by (simp add: channel_ok_def)
  have "queue_inv (queued ctx) (ev_Channel ctx)" using inv by (simp add: ev_inv_def)
  from queue_inv_mem [OF this, of p] queued_member [OF Cpu ch(3)] ch(1) have pend: "ch_Pending ch" by (simp add: is_pending_def)
  note k = evtchn_mark_closed_keeps [OF inv ch(1,2) mark]
  then have chm: "ev_Channel c1 p = Some ?ch" by simp
  note f = poll_channels_frame [OF poll chm, of i "ch_Cpu ch"]
  have "c3 = c2" using trigger f pend by (auto simp: EvtchnTrigger_def Let_def split: if_split_asm)
  then show ?thesis using f k ch(3) by simp
qed

section \<open>Unmasking\<close>

text \<open>
  C35. Unmasking loses no event. For an active channel the port ends up unmasked when nothing is pending.
  A pending event is either handed to the caller, who gets \<^const>\<open>True\<close>, the event acknowledged and the port masked
  again if the channel asks for it, or, in the upcall, when forced, or on another processor than the
  channel's, left pending under the mask and unmasked by the hypervisor, which raises it again.
\<close>
theorem EvtchnUnmask_loses_no_event:
  assumes ch: "ev_Channel ctx p = Some ch" "ch_Active ch" and ok: "abi_ok ctx" "ch_LocalPort ch \<in> abi_ports ctx" and rounds: "ee_rounds env = quiet"
  shows "\<exists>r c. EvtchnUnmask env Current ctx p InUpcall Force = Some (r, c) \<and>
     (r \<longleftrightarrow> abi_pending ctx (ch_LocalPort ch) \<and> \<not> InUpcall \<and> \<not> Force \<and> ch_Cpu ch = Current) \<and>
     ev_Calls c = ev_Calls ctx @ (if abi_pending ctx (ch_LocalPort ch) \<and> \<not> r then [EventChannelUnmask (ch_LocalPort ch)] else []) \<and>
     abi_pending c (ch_LocalPort ch) = (abi_pending ctx (ch_LocalPort ch) \<and> \<not> r) \<and>
     abi_masked c (ch_LocalPort ch) = (if r then ch_Mask ch else abi_pending ctx (ch_LocalPort ch)) \<and>
     (\<forall>q \<in> abi_ports ctx. q \<noteq> ch_LocalPort ch \<longrightarrow> abi_pending c q = abi_pending ctx q \<and> abi_masked c q = abi_masked ctx q)"
proof -
  let ?P = "ch_LocalPort ch"
  from abi_PortUnmask_law [OF ok] obtain c1 where c1: "abi_PortUnmask quiet ctx ?P = Some (abi_pending ctx ?P, c1)" "pages_only ctx c1" "abi_ok c1"
    "abi_ports c1 = abi_ports ctx" "\<forall>q \<in> abi_ports ctx. abi_pending c1 q = abi_pending ctx q \<and> abi_masked c1 q = (q \<noteq> ?P \<and> abi_masked ctx q)" by (elim exE conjE)
  note f1 = pages_only_fields [OF c1(2)]
  have P1: "?P \<in> abi_ports c1" using ok(2) c1(4) by simp
  from abi_PortMask_law [OF abi_ok_pages [OF c1(3)] P1] obtain c2 where c2: "abi_PortMask c1 ?P = Some c2" "pages_only c1 c2" "abi_pages_ok c2"
    "abi_ports c2 = abi_ports c1" "\<forall>q \<in> abi_ports c1. abi_pending c2 q = abi_pending c1 q \<and> abi_masked c2 q = (q = ?P \<or> abi_masked c1 q)" by (elim exE conjE)
  note f2 = pages_only_fields [OF c2(2)]
  define m where "m = (if ch_Mask ch then c2 else c1)"
  have m: "(if ch_Mask ch then abi_PortMask c1 ?P else Some c1) = Some m" "abi_pages_ok m" "?P \<in> abi_ports m" "abi_ports m = abi_ports ctx"
    "\<forall>q \<in> abi_ports ctx. abi_pending m q = abi_pending ctx q \<and> abi_masked m q = (if q = ?P then ch_Mask ch else abi_masked ctx q)" "ev_Calls m = ev_Calls ctx"
    using c1 c2 P1 abi_ok_pages [OF c1(3)] by (auto simp: m_def f1 f2)
  from abi_PortAck_law [OF m(2,3)] obtain c3 where c3: "abi_PortAck m ?P = Some c3" "pages_only m c3"
    "\<forall>q \<in> abi_ports m. abi_pending c3 q = (q \<noteq> ?P \<and> abi_pending m q) \<and> abi_masked c3 q = abi_masked m q" by (elim exE conjE)
  note f3 = pages_only_fields [OF c3(2)]
  let ?h = "hypercall (EventChannelUnmask ?P) c2"
  have h: "abi_pending ?h = abi_pending c2" "abi_masked ?h = abi_masked c2" using abi_frame [of ?h c2] by simp_all
  consider "\<not> abi_pending ctx ?P" | "abi_pending ctx ?P" "InUpcall \<or> Force \<or> ch_Cpu ch \<noteq> Current"
    | "abi_pending ctx ?P" "\<not> InUpcall" "\<not> Force" "ch_Cpu ch = Current" by blast
  then show ?thesis
  proof cases
    case 1
    then show ?thesis using ch c1 ok(2) rounds by (intro exI [of _ False] exI [of _ c1]) (simp add: EvtchnUnmask_def f1)
  next
    case 2
    then have "EvtchnUnmask env Current ctx p InUpcall Force = Some (False, ?h)" using ch c1(1) c2(1) rounds by (auto simp: EvtchnUnmask_def)
    then show ?thesis using 2 c1(4,5) c2(5) ok(2) h by (intro exI [of _ False] exI [of _ ?h]) (auto simp: f1 f2)
  next
    case 3
    then have "EvtchnUnmask env Current ctx p InUpcall Force = Some (True, c3)" using ch c1(1) m(1) c3(1) rounds by (simp add: EvtchnUnmask_def)
    then show ?thesis using 3 m(4-6) c3(3) ok(2) by (intro exI [of _ True] exI [of _ c3]) (auto simp: f3)
  qed
qed

section \<open>Triggering after a resume\<close>

lemma abi_ports_ops: "abi_PortAck ctx p = Some c \<Longrightarrow> abi_ports c = abi_ports ctx" "abi_PortMask ctx p = Some c \<Longrightarrow> abi_ports c = abi_ports ctx"
  by (auto simp: abi_PortAck_def abi_PortMask_def abi_op_def abi_ports_def bind_eq_Some_conv EvtchnFifoPortAck_port EvtchnFifoPortMask_port
      split: option.splits XENBUS_EVTCHN_ABI.splits if_splits)

lemma abi_PortAck_outside: "ev_Abi ctx = Some FIFO \<Longrightarrow> p \<notin> abi_ports ctx \<Longrightarrow> abi_PortAck ctx p = None"
  by (simp add: abi_PortAck_def abi_op_def abi_ports_def EvtchnFifoPortAck_port)

lemma serve_channel_ports:
  assumes "serve_channel service Cpu p ch ctx = Some (d, c)"
  shows "abi_ports c = abi_ports ctx \<and> ev_Abi c = ev_Abi ctx \<and> (\<forall>q. q \<noteq> p \<longrightarrow> ev_Channel c q = ev_Channel ctx q) \<and>
     (ev_Abi ctx = Some FIFO \<longrightarrow> ch_LocalPort ch \<in> abi_ports ctx)"
proof -
  let ?ch = "ch\<lparr>ch_PendingListEntry := False, ch_Pending := False\<rparr>"
  let ?c1 = "put_channel p ?ch (remove_pending Cpu p ctx)"
  from assms obtain c2 c3 where r: "(if ch_Mask ch then abi_PortMask ?c1 (ch_LocalPort ch) else Some ?c1) = Some c2"
    "abi_PortAck c2 (ch_LocalPort ch) = Some c3"
    "c = (put_channel p (?ch\<lparr>ch_Count := ch_Count ch + 1\<rparr>) c3)\<lparr>ev_Services := ev_Services c3 @ [(ch_Callback ch, ch_Argument ch)]\<rparr>"
    by (auto simp: serve_channel_def bind_eq_Some_conv Let_def split: if_split_asm)
  have p2: "pages_only ?c1 c2" using r(1) by (auto split: if_splits dest: pages_only_ops)
  note f = pages_only_fields [OF p2] pages_only_fields [OF pages_only_ops(1) [OF r(2)]]
  have 1: "abi_ports ?c1 = abi_ports ctx" by (rule abi_frame(3)) simp_all
  have 2: "abi_ports c2 = abi_ports ?c1" using r(1) abi_ports_ops(2) by (auto split: if_splits)
  have 3: "abi_ports c3 = abi_ports c2" by (rule abi_ports_ops(1) [OF r(2)])
  have 4: "abi_ports c = abi_ports c3" by (rule abi_frame(3)) (simp_all add: r(3))
  have "ev_Abi ctx = Some FIFO \<longrightarrow> ch_LocalPort ch \<in> abi_ports ctx"
    using abi_PortAck_outside [of c2 "ch_LocalPort ch"] r(2) 1 2 by (auto simp: f)
  then show ?thesis using 1 2 3 4 by (simp add: r(3) f)
qed

lemma poll_channels_stuck:
  "p \<in> set ps \<Longrightarrow> distinct ps \<Longrightarrow> ev_Abi ctx = Some FIFO \<Longrightarrow> ev_Channel ctx p = Some ch \<Longrightarrow> \<not> ch_Closed ch \<Longrightarrow> ch_LocalPort ch \<notin> abi_ports ctx \<Longrightarrow>
     poll_channels service Cpu ps d List ctx = None"
proof (induction ps arbitrary: d List ctx)
  case (Cons q qs)
  show ?case
  proof (cases "q = p")
    case True
    have "serve_channel service Cpu p ch ctx = None"
      using serve_channel_ports [of service Cpu p ch ctx] Cons.prems(3,6) by (cases "serve_channel service Cpu p ch ctx") auto
    then show ?thesis using True Cons.prems(4,5) by simp
  next
    case False
    then have p: "p \<in> set qs" "distinct qs" using Cons.prems(1,2) by auto
    have IH: "poll_channels service Cpu qs d List c = None" if "ev_Abi c = Some FIFO" "ev_Channel c p = Some ch" "abi_ports c = abi_ports ctx" for d List c
      using Cons.IH [OF p that(1,2) Cons.prems(5)] Cons.prems(6) that(3) by simp
    have rem: "abi_ports (remove_pending Cpu q ctx) = abi_ports ctx" by (rule abi_frame(3)) simp_all
    show ?thesis
    proof (cases "ev_Channel ctx q")
      case (Some cq)
      show ?thesis
      proof (cases "ch_Closed cq")
        case True
        then show ?thesis using Some IH [OF Cons.prems(3,4) refl] IH [of "remove_pending Cpu q ctx"] Cons.prems(3,4) rem
          by (simp split: option.splits)
      next
        case open_q: False
        show ?thesis
        proof (cases "serve_channel service Cpu q cq ctx")
          case s: (Some r)
          obtain x c where "r = (x, c)" by (cases r)
          with serve_channel_ports [of service Cpu q cq ctx x c] s False Cons.prems(3,4) IH [of c "d \<or> x" List] Some open_q show ?thesis by simp
        qed (use Some open_q in simp)
      qed
    qed simp
  qed
qed simp

text \<open>
  Triggering a channel after a resume stops the machine. Suspending makes the channel inactive, and the
  FIFO ABI is acquired anew without an event array; a client that triggers the channel before it opens it
  again queues it all the same, and the DPC then acknowledges its old port, for which there is no page.
\<close>
theorem EvtchnTrigger_after_resume_stops:
  assumes inv: "evtchn_wf ctx" and fifo: "ev_Abi ctx = Some FIFO" "fifo_EventPage (ev_Fifo ctx) = []"
    and ch: "ev_Channel ctx p = Some ch" "\<not> ch_Active ch" "\<not> ch_Closed ch" "\<not> ch_Pending ch"
    and trigger: "EvtchnTrigger ctx p = Some c" and refs: "ev_References c \<noteq> 0" and rep: "reports vcpu_id c (ch_Cpu ch) ports"
  shows "pr_Dpc (ev_Processor c ! ch_Cpu ch) \<and> EvtchnDpc vcpu_id service c (ch_Cpu ch) = None"
proof -
  let ?Cpu = "ch_Cpu ch"
  have Cpu: "?Cpu < length (ev_Processor ctx)" "pr_Context (ev_Processor ctx ! ?Cpu)" using ev_inv_channel_ok [OF inv ch(1)] by (simp_all add: channel_ok_def)
  from EvtchnTrigger_law [OF inv ch(1)] trigger ch(4) have t: "evtchn_wf c" "pr_Dpc (ev_Processor c ! ?Cpu)" "p \<in> set (pr_PendingList (ev_Processor c ! ?Cpu))"
    "ev_Channel c = (ev_Channel ctx)(p \<mapsto> ch\<lparr>ch_Pending := True, ch_PendingListEntry := True\<rparr>)" by auto
  have c: "ev_Abi c = Some FIFO" "ev_Fifo c = ev_Fifo ctx" "length (ev_Processor c) = length (ev_Processor ctx)"
    "pr_Context (ev_Processor c ! ?Cpu)"
    using trigger ch Cpu fifo(1) by (auto simp: EvtchnTrigger_def append_pending_def Let_def bind_eq_Some_conv split: if_split_asm)
  have none: "abi_ports c = {}" using c(1,2) fifo(2) by (simp add: abi_ports_def fifo_ports_def)
  have "ports = []" using reports_ports [OF rep] none by simp
  define c0 where "c0 = put_processor ?Cpu ((ev_Processor c ! ?Cpu)\<lparr>pr_Dpc := False\<rparr>) c"
  have wf0: "evtchn_wf c0" unfolding c0_def by (rule ev_inv_dpc [OF t(1)])
  have rep0: "reports vcpu_id c0 ?Cpu []" using rep reports_frame [of c0 c] \<open>ports = []\<close> by (simp add: c0_def)
  have "run_ports (poll_step ?Cpu) [] c0 = Some c0" by simp
  from abi_Poll_run [OF rep0 this PollCallback_step refl] obtain d c1 where c1: "abi_Poll vcpu_id (EvtchnPollCallback ?Cpu) c0 ?Cpu = Some (d, c1)"
    "pages_only c0 c1" "abi_ports c1 = abi_ports c0" by blast
  note f = pages_only_fields [OF c1(2)]
  have Cpu0: "?Cpu < length (ev_Processor c0)" using Cpu(1) c(3) by (simp add: c0_def)
  have "abi_ports c0 = abi_ports c" by (rule abi_frame(3)) (simp_all add: c0_def)
  moreover have "distinct (pr_PendingList (ev_Processor c1 ! ?Cpu))" using ev_inv_queued_distinct [OF wf0 Cpu0] by (simp add: f)
  moreover have "p \<in> set (pr_PendingList (ev_Processor c1 ! ?Cpu))" using t(3) Cpu(1) c(3) by (simp add: f c0_def)
  moreover have "ev_Channel c1 p = Some (ch\<lparr>ch_Pending := True, ch_PendingListEntry := True\<rparr>)" "ev_Abi c1 = Some FIFO"
    using t(4) c(1) by (simp_all add: f c0_def)
  ultimately have "poll_channels service ?Cpu (pr_PendingList (ev_Processor c1 ! ?Cpu)) False (Some []) c1 = None"
    using poll_channels_stuck [of p "pr_PendingList (ev_Processor c1 ! ?Cpu)" c1] ch(3) none c1(3) by simp
  then have "EvtchnPoll vcpu_id service c0 ?Cpu (Some []) = None" using c1(1) by (simp add: EvtchnPoll_def)
  then have "EvtchnFlush vcpu_id service c0 ?Cpu = None" by (simp add: EvtchnFlush_def)
  then show ?thesis using t(2) refs by (simp add: EvtchnDpc_def c0_def)
qed

section \<open>Waiting\<close>

definition wait_stops :: "(nat \<Rightarrow> 32 word) \<Rightarrow> (nat \<Rightarrow> int) \<Rightarrow> int \<Rightarrow> 32 word \<Rightarrow> int option \<Rightarrow> nat \<Rightarrow> bool" where
  "wait_stops count now Start Count Timeout n \<longleftrightarrow> wait_reached Count (count n) \<or> (\<exists>t. Timeout = Some t \<and> wait_expired Start t (now n))"

lemma wait_loop_step:
  "wait_loop count now Count Timeout Start n =
     (if wait_stops count now Start Count Timeout n then Some (if wait_reached Count (count n) then STATUS_SUCCESS else STATUS_TIMEOUT)
      else wait_loop count now Count Timeout Start (Suc n))"
  by (subst wait_loop.simps) (auto simp: wait_stops_def split: option.splits)

lemma wait_loop_stops:
  assumes "\<And>m. n \<le> m \<Longrightarrow> m < n + k \<Longrightarrow> \<not> wait_stops count now Start Count Timeout m" and "wait_stops count now Start Count Timeout (n + k)"
  shows "wait_loop count now Count Timeout Start n = Some (if wait_reached Count (count (n + k)) then STATUS_SUCCESS else STATUS_TIMEOUT)"
  using assms
proof (induction k arbitrary: n)
  case (Suc k)
  then have "\<not> wait_stops count now Start Count Timeout n" by simp
  moreover have "wait_loop count now Count Timeout Start (Suc n) = Some (if wait_reached Count (count (Suc n + k)) then STATUS_SUCCESS else STATUS_TIMEOUT)"
    by (rule Suc.IH) (use Suc.prems in auto)
  ultimately show ?case by (subst wait_loop_step) simp
qed (simp add: wait_loop_step)

lemma wait_loop_ends:
  assumes "wait_loop count now Count Timeout Start n = Some r"
  shows "\<exists>m. wait_stops count now Start Count Timeout m"
proof (rule wait_loop.raw_induct [where P = "\<lambda>count now Count Timeout Start n r. \<exists>m. wait_stops count now Start Count Timeout m", OF _ assms])
  fix f count now Count Timeout Start n r
  assume IH: "\<And>count now Count Timeout Start n r. f count now Count Timeout Start n = Some r \<Longrightarrow> \<exists>m. wait_stops count now Start Count Timeout m"
    and step: "(if wait_reached Count (count n) then Some STATUS_SUCCESS
      else if (case Timeout of None \<Rightarrow> False | Some t \<Rightarrow> wait_expired Start t (now n)) then Some STATUS_TIMEOUT
      else f count now Count Timeout Start (Suc n)) = Some r"
  show "\<exists>m. wait_stops count now Start Count Timeout m"
  proof (cases "wait_stops count now Start Count Timeout n")
    case False
    then have "f count now Count Timeout Start (Suc n) = Some r" using step by (auto simp: wait_stops_def split: option.splits if_split_asm)
    then show ?thesis by (rule IH)
  qed blast
qed

text \<open>
  A wait ends in the first round in which the channel's count has reached the one waited for or the
  timeout has passed, with success in the first case even when both hold, and it never ends when there is
  no such round.
\<close>
theorem EvtchnWait_outcome:
  "EvtchnWait count now Start Count Timeout =
     (if \<exists>n. wait_stops count now Start Count Timeout n then
        Some (if wait_reached Count (count (LEAST n. wait_stops count now Start Count Timeout n)) then STATUS_SUCCESS else STATUS_TIMEOUT)
      else None)"
proof (cases "\<exists>n. wait_stops count now Start Count Timeout n")
  case True
  define k where "k = (LEAST n. wait_stops count now Start Count Timeout n)"
  have "wait_stops count now Start Count Timeout k" using LeastI_ex [OF True] by (simp add: k_def)
  moreover have "\<not> wait_stops count now Start Count Timeout m" if "m < k" for m using not_less_Least that by (simp add: k_def)
  ultimately have "wait_loop count now Count Timeout Start 0 = Some (if wait_reached Count (count k) then STATUS_SUCCESS else STATUS_TIMEOUT)"
    using wait_loop_stops [of 0 k count now Start Count Timeout] by simp
  with True show ?thesis unfolding EvtchnWait_def k_def by (simp only: if_True)
next
  case False
  then show ?thesis using wait_loop_ends [of count now Count Timeout Start 0] by (cases "EvtchnWait count now Start Count Timeout") (auto simp: EvtchnWait_def)
qed

text \<open>
  The count is compared as a number, not modulo \<open>2 ^ 32\<close>: when the channel has counted up to the largest
  ULONG, the wait for one more event that the interface of version 5 makes returns success at once, whether
  or not an event comes.
\<close>
theorem EvtchnWaitVersion5_wraps:
  "EvtchnWaitVersion5 count now Start (- 1) Timeout = Some STATUS_SUCCESS"
proof -
  have "0 \<le> uint (count 0)" "uint (count 0) < 2 ^ 32" using uint_lt2p [of "count 0"] by simp_all
  moreover have "- (2 ^ 63) \<le> - x \<and> - x < 2 ^ 63" if "0 \<le> x" "x < 2 ^ 32" for x :: int using that by simp
  ultimately have "- (2 ^ 63) \<le> - uint (count 0) \<and> - uint (count 0) < 2 ^ 63" by blast
  then have "wait_reached 0 (count 0)" by (simp add: wait_reached_def s64_id)
  then show ?thesis by (simp add: EvtchnWaitVersion5_def EvtchnWait_def wait_loop.simps)
qed


section \<open>Runs keep the invariant\<close>

lemma evtchn_run_keeps: "evtchn_step\<^sup>*\<^sup>* ctx c \<Longrightarrow> evtchn_wf ctx \<Longrightarrow> evtchn_wf c"
  by (induction rule: rtranclp_induct) (auto intro: evtchn_step_keeps)

text \<open>
  C31. No sequence of operations, interrupts, DPCs, suspends and resumes breaks the component: a channel
  stays in the list exactly while it exists, is found in the table under its port exactly while it is
  active, and is in one pending list, once, exactly while it is marked pending; every channel is bound to
  a processor that has been initialised.
\<close>
theorem evtchn_runs_keep_invariant:
  assumes "evtchn_step\<^sup>*\<^sup>* ctx c" and "evtchn_wf ctx"
  shows "table_inv (ev_Table c) (ev_Channel c) \<and> list_inv (ev_List c) (ev_Channel c) \<and> queue_inv (queued c) (ev_Channel c) \<and>
     (\<forall>p ch. ev_Channel c p = Some ch \<longrightarrow> channel_ok (ev_Processor c) ch)"
  using evtchn_run_keeps [OF assms] by (auto simp: ev_inv_def ran_def)

section \<open>Concrete runs\<close>

text \<open>
  One processor on the FIFO ABI, with the queues of \<^const>\<open>sample_fifo\<close>; then with a channel for port 4 at
  address \<open>0x1000\<close>, and with that channel on the pending list.
\<close>

definition ev_empty :: XENBUS_EVTCHN_CONTEXT where
  "ev_empty = \<lparr>ev_References = 1, ev_Interrupt = Some 48, ev_Processor = [zero_EVTCHN_PROCESSOR\<lparr>pr_Context := True\<rparr>],
     ev_Suspend = True, ev_SuspendCallbackEarly = True, ev_SuspendCallbackLate = True, ev_Debug = True, ev_DebugCallback = True,
     ev_TwoLevel = sample_two_level, ev_Fifo = sample_fifo, ev_Abi = Some FIFO, ev_UseEvtchnFifoAbi = True,
     ev_UseEvtchnUpcall = False, ev_Table = the (snd (HashTableCreate True)), ev_List = [], ev_Channel = Map.empty,
     ev_Calls = [], ev_Services = []\<rparr>"

definition sample_channel :: XENBUS_EVTCHN_CHANNEL where
  "sample_channel = zero_CHANNEL\<lparr>ch_Type := TYPE_FIXED, ch_Callback := 0x77, ch_Argument := 0x88, ch_Active := True, ch_Mask := True, ch_LocalPort := 4\<rparr>"

definition ev_opened :: XENBUS_EVTCHN_CONTEXT where
  "ev_opened = ev_empty\<lparr>ev_Table := snd (the (HashTableAdd True (ev_Table ev_empty) 4 0x1000)),
     ev_Channel := Map.empty(0x1000 \<mapsto> sample_channel), ev_List := [0x1000]\<rparr>"

definition ev_queued :: XENBUS_EVTCHN_CONTEXT where
  "ev_queued = the (EvtchnTrigger ev_opened 0x1000)"

definition sample_env :: evtchn_env where
  "sample_env = \<lparr>ee_alloc = Some 0x1000, ee_cpu = (\<lambda>_ _. 0), ee_vcpu = (\<lambda>i. (STATUS_SUCCESS, i)),
     ee_unbound = (\<lambda>_. (STATUS_SUCCESS, 7)), ee_interdomain = (\<lambda>_ _. (STATUS_SUCCESS, 8)), ee_virq = (\<lambda>_ _. (STATUS_SUCCESS, 9)),
     ee_bind = (\<lambda>_ _. STATUS_SUCCESS), ee_mem = True, ee_page = (\<lambda>_. True), ee_reg = (\<lambda>_. STATUS_SUCCESS), ee_node = True,
     ee_rounds = quiet\<rparr>"

lemma ev_empty_wf: "evtchn_wf ev_empty"
proof -
  obtain T where "HashTableCreate True = (STATUS_SUCCESS, Some T)" by (simp add: HashTableCreate_def)
  with HashTableCreate_law [OF this] have "ht_wf (ev_Table ev_empty)" "ht_values (ev_Table ev_empty) = (\<lambda>_. [])"
    by (simp_all add: ev_empty_def)
  then show ?thesis by (simp add: ev_inv_def table_inv_def list_inv_def queue_inv_def queued_def processors_ok_def is_pending_def)
      (simp add: ev_empty_def zero_EVTCHN_PROCESSOR_def)
qed

lemma ev_empty_abi: "abi_pages_ok ev_empty" "abi_ok ev_empty" "abi_ports ev_empty = {..< 1024}" "ev_Abi ev_empty = Some FIFO"
  using sample_fifo_pages sample_fifo_ok by (auto simp: abi_defs ev_empty_def)

lemma ev_empty_reports: "reports (\<lambda>i. (STATUS_SUCCESS, i)) ev_empty 0 (filter (fifo_due sample_fifo) [5, 3, 4])"
proof -
  have ready: "cb_ready (the (fifo_ControlBlock sample_fifo ! 0)) = 0x8001" by (simp add: sample_fifo_def)
  have order: "queue_order sample_queues = [5, 3, 4]"
    by (simp add: queue_order_def sample_queues_def upt_rec [of _ 16] upt_rec)
  show ?thesis unfolding reports_def ev_empty_def using sample_fifo_wf sample_queues_ok ready order
    by (auto simp: NT_SUCCESS_def intro!: exI [of _ sample_queues])
qed

lemma ev_opened_wf: "evtchn_wf ev_opened"
proof -
  have "ht_wf (ev_Table ev_empty)" using ev_empty_wf by (simp add: ev_inv_def table_inv_def)
  from HashTableAdd_law [OF this, of 4 "0x1000"] obtain T where T: "HashTableAdd True (ev_Table ev_empty) 4 0x1000 = Some (STATUS_SUCCESS, T)" by blast
  have "ev_opened = (put_channel 0x1000 sample_channel (ev_empty\<lparr>ev_Table := T\<rparr>))\<lparr>ev_List := ev_List ev_empty @ [0x1000]\<rparr>"
    using T by (simp add: ev_opened_def put_channel_def) (simp add: ev_empty_def)
  moreover have "evtchn_wf \<dots>"
    by (rule add_channel_inv [OF ev_empty_wf]) (use T in \<open>simp_all add: sample_channel_def zero_CHANNEL_def ev_empty_def port_free_def\<close>)
  ultimately show ?thesis by simp
qed


theorem evtchn_runs_keep_invariant_witness:
  "\<exists>c. EvtchnTrigger ev_opened 0x1000 = Some c \<and> queue_inv (queued c) (ev_Channel c) \<and> 0x1000 \<in> set (queued c)"
proof -
  have "ev_Channel ev_opened 0x1000 = Some sample_channel" by (simp add: ev_opened_def)
  from EvtchnTrigger_law [OF ev_opened_wf this] obtain c where "EvtchnTrigger ev_opened 0x1000 = Some c" "0x1000 \<in> set (queued c)" by auto
  moreover have "evtchn_step\<^sup>*\<^sup>* ev_opened c" using r_into_rtranclp [of evtchn_step, OF step_trigger] calculation by blast
  ultimately show ?thesis using evtchn_runs_keep_invariant [OF _ ev_opened_wf] by blast
qed

theorem EvtchnOpen_all_or_nothing_witness:
  "\<exists>r c. EvtchnOpen (sample_env\<lparr>ee_node := False\<rparr>) 9 (OpenUnbound 2 False) 0x77 0x88 ev_empty = Some (r, c) \<and> evtchn_wf c \<and>
     (r = None \<longrightarrow> same_channels ev_empty c \<and> ev_Calls c = [EventChannelClose 7])"
proof -
  let ?env = "sample_env\<lparr>ee_node := False\<rparr>" and ?ch = "(open_start (OpenUnbound 2 False) 0x77 0x88)\<lparr>ch_Parameters := Unbound 2, ch_Mask := False, ch_LocalPort := 7\<rparr>"
  have type: "evtchn_open_type ?env 9 ev_empty (OpenUnbound 2 False) (open_start (OpenUnbound 2 False) 0x77 0x88) = Some (STATUS_SUCCESS, ?ch)"
    by (simp add: evtchn_open_type_def EvtchnOpenUnbound_def sample_env_def NT_SUCCESS_def)
  moreover have "open_ok ?env 9 (OpenUnbound 2 False) 0x77 0x88 ev_empty"
    using type unfolding open_ok_def open_start_def by (auto simp: port_free_def ev_empty_def sample_env_def)
  ultimately show ?thesis
    using EvtchnOpen_all_or_nothing [OF ev_empty_wf ev_empty_abi(1), of ?env 9 "OpenUnbound 2 False" "0x77" "0x88" STATUS_SUCCESS ?ch] ev_empty_abi(4)
    by (auto simp: sample_env_def NT_SUCCESS_def ev_empty_def split: option.splits)
qed

lemma ev_queued_run: "EvtchnTrigger ev_opened 0x1000 = Some ev_queued"
  "ev_queued = (put_channel 0x1000 (sample_channel\<lparr>ch_Pending := True, ch_PendingListEntry := True\<rparr>) ev_opened)\<lparr>ev_Processor :=
     [zero_EVTCHN_PROCESSOR\<lparr>pr_Context := True, pr_PendingList := [0x1000], pr_Dpc := True\<rparr>]\<rparr>"
proof -
  have "EvtchnTrigger ev_opened 0x1000 = Some ((put_channel 0x1000 (sample_channel\<lparr>ch_Pending := True, ch_PendingListEntry := True\<rparr>) ev_opened)\<lparr>ev_Processor :=
     [zero_EVTCHN_PROCESSOR\<lparr>pr_Context := True, pr_PendingList := [0x1000], pr_Dpc := True\<rparr>]\<rparr>)"
    by (simp add: EvtchnTrigger_def append_pending_def ev_opened_def sample_channel_def zero_CHANNEL_def ASSERT_def put_channel_def put_processor_def)
      (simp add: ev_empty_def zero_EVTCHN_PROCESSOR_def)
  then show "EvtchnTrigger ev_opened 0x1000 = Some ev_queued"
    "ev_queued = (put_channel 0x1000 (sample_channel\<lparr>ch_Pending := True, ch_PendingListEntry := True\<rparr>) ev_opened)\<lparr>ev_Processor :=
     [zero_EVTCHN_PROCESSOR\<lparr>pr_Context := True, pr_PendingList := [0x1000], pr_Dpc := True\<rparr>]\<rparr>" by (simp_all add: ev_queued_def)
qed

lemma ev_queued_wf: "evtchn_wf ev_queued"
  using EvtchnTrigger_law [OF ev_opened_wf, of "0x1000" sample_channel] ev_queued_run(1) by (auto simp: ev_opened_def)

lemma ev_opened_frame:
  "reports (\<lambda>i. (STATUS_SUCCESS, i)) ev_opened 0 (filter (fifo_due sample_fifo) [5, 3, 4])"
  "reports (\<lambda>i. (STATUS_SUCCESS, i)) ev_queued 0 (filter (fifo_due sample_fifo) [5, 3, 4])"
  "abi_ports ev_opened = {..< 1024}" "abi_ports ev_queued = {..< 1024}" "abi_ok ev_opened"
proof -
  have o: "ev_Abi ev_opened = ev_Abi ev_empty" "ev_Fifo ev_opened = ev_Fifo ev_empty" "ev_TwoLevel ev_opened = ev_TwoLevel ev_empty" by (simp_all add: ev_opened_def)
  have q: "ev_Abi ev_queued = ev_Abi ev_empty" "ev_Fifo ev_queued = ev_Fifo ev_empty" "ev_TwoLevel ev_queued = ev_TwoLevel ev_empty" by (simp_all add: ev_queued_run(2) o)
  show "reports (\<lambda>i. (STATUS_SUCCESS, i)) ev_opened 0 (filter (fifo_due sample_fifo) [5, 3, 4])"
    "reports (\<lambda>i. (STATUS_SUCCESS, i)) ev_queued 0 (filter (fifo_due sample_fifo) [5, 3, 4])"
    "abi_ports ev_opened = {..< 1024}" "abi_ports ev_queued = {..< 1024}" "abi_ok ev_opened"
    using reports_frame [OF o] reports_frame [OF q] ev_empty_reports abi_frame [OF o] abi_frame [OF q] ev_empty_abi by simp_all
qed

lemma ev_queued_no_arrivals: "arrivals 0 ev_queued ports = []"
proof -
  have t: "table_inv (ev_Table ev_queued) (ev_Channel ev_queued)" using ev_queued_wf by (simp add: ev_inv_def)
  have "arriving 0 ev_queued q = None" for q
    using table_inv_lookup [OF t, of "of_nat q"] by (auto simp: arriving_def ev_queued_run(2) ev_opened_def split: if_splits)
  then show ?thesis by (simp add: arrivals_def List.map_filter_def)
qed

theorem EvtchnPoll_serves_each_once_witness:
  "\<exists>d c. EvtchnPoll (\<lambda>i. (STATUS_SUCCESS, i)) (\<lambda>_. True) ev_queued 0 None = Some (d, None, c) \<and> ev_Services c = [(0x77, 0x88)] \<and>
     pr_PendingList (ev_Processor c ! 0) = [] \<and> \<not> abi_pending c 4"
proof -
  have ready: "poll_ready (\<lambda>i. (STATUS_SUCCESS, i)) ev_queued 0 (filter (fifo_due sample_fifo) [5, 3, 4])"
    using ev_opened_frame by (auto simp: poll_ready_def ev_queued_run(2) zero_EVTCHN_PROCESSOR_def port_of_channel_def sample_channel_def)
  have "poll_list ev_queued 0 (filter (fifo_due sample_fifo) [5, 3, 4]) = [0x1000]" "is_open ev_queued 0x1000" "callback_of ev_queued 0x1000 = (0x77, 0x88)"
    "port_of_channel ev_queued 0x1000 = 4" "ev_Services ev_queued = []"
    by (simp_all add: poll_list_def ev_queued_no_arrivals is_open_def callback_of_def port_of_channel_def)
      (simp_all add: ev_queued_run(2) sample_channel_def zero_CHANNEL_def ev_opened_def ev_empty_def)
  with EvtchnPoll_serves_each_once [OF ev_queued_wf ready, of "\<lambda>_. True"] ev_opened_frame(4) show ?thesis by force
qed

theorem EvtchnUnmask_loses_no_event_witness:
  "\<exists>c. EvtchnUnmask sample_env 0 ev_opened 0x1000 False False = Some (True, c) \<and> \<not> abi_pending c 4 \<and> abi_masked c 4"
proof -
  have "abi_pending ev_opened 4" by (simp add: abi_pending_def ev_opened_def ev_empty_def fifo_pending_def sample_fifo_word EVTCHN_FIFO_PENDING_def)
  then show ?thesis
    using EvtchnUnmask_loses_no_event [of ev_opened "0x1000" sample_channel sample_env 0 False False] ev_opened_frame
    by (auto simp: sample_env_def sample_channel_def zero_CHANNEL_def ev_opened_def)
qed


lemma sample_mask_masked: "abi_PortMask ctx 4 = Some ctx" if "ev_Abi ctx = Some FIFO" "ev_Fifo ctx = sample_fifo"
proof -
  have "EvtchnFifoSetFlag 0xE0000000 EVTCHN_FIFO_MASKED = 0xE0000000" by code_simp
  then have "EvtchnFifoPortMask sample_fifo 4 = Some sample_fifo"
    by (simp add: EvtchnFifoPortMask_def EvtchnFifoEventWord_def read_word_def write_word_def sample_fifo_def fifo_consts ASSERT_def list_update_swap [of 5 4])
  then show ?thesis using that by (simp add: abi_PortMask_def abi_op_def)
qed

text \<open>The channel marked closed, while it is not pending and while it is on the pending list.\<close>

definition closing :: "XENBUS_EVTCHN_CONTEXT \<Rightarrow> XENBUS_EVTCHN_CONTEXT" where
  "closing ctx = the (evtchn_mark_closed ctx 0x1000)"

lemma closing_run:
  assumes wf: "evtchn_wf ctx" and ch: "ev_Channel ctx 0x1000 = Some ch" "ch_Active ch" "ch_LocalPort ch = 4"
    and abi: "ev_Abi ctx = Some FIFO" "ev_Fifo ctx = sample_fifo"
  shows "evtchn_mark_closed ctx 0x1000 = Some (closing ctx) \<and> evtchn_wf (closing ctx) \<and>
     (\<exists>T. closing ctx = put_channel 0x1000 (ch\<lparr>ch_Active := False, ch_Closed := True\<rparr>) (ctx\<lparr>ev_Table := T\<rparr>))"
proof -
  let ?c = "put_channel 0x1000 (ch\<lparr>ch_Active := False\<rparr>) ctx"
  have d: "abi_PortDisable ?c 4 = Some ?c" unfolding abi_PortDisable_mask by (rule sample_mask_masked) (simp_all add: abi)
  have "channel_ok (ev_Processor ctx) (ch\<lparr>ch_Active := False, ch_Closed := True\<rparr>)" using ev_inv_channel_ok [OF wf ch(1)] by (simp add: channel_ok_def)
  from deactivate_inv [OF wf ch(1,2) this] ch(3) obtain T where "HashTableRemove (ev_Table ctx) 4 = Some (STATUS_SUCCESS, T)" by auto
  then have run: "evtchn_mark_closed ctx 0x1000 = Some (put_channel 0x1000 (ch\<lparr>ch_Active := False, ch_Closed := True\<rparr>) (ctx\<lparr>ev_Table := T\<rparr>))"
    using ch d by (simp add: evtchn_mark_closed_def NT_SUCCESS_def ASSERT_def put_channel_def)
  with evtchn_mark_closed_keeps [OF wf ch(1,2) run] show ?thesis by (auto simp: closing_def)
qed


lemma closing_opened: obtains T where
  "evtchn_mark_closed ev_opened 0x1000 = Some (closing ev_opened)" "evtchn_wf (closing ev_opened)"
  "closing ev_opened = put_channel 0x1000 (sample_channel\<lparr>ch_Active := False, ch_Closed := True\<rparr>) (ev_opened\<lparr>ev_Table := T\<rparr>)"
proof -
  have "ev_Channel ev_opened 0x1000 = Some sample_channel" by (simp add: ev_opened_def)
  from closing_run [OF ev_opened_wf this] show thesis using that by (auto simp: sample_channel_def ev_opened_def ev_empty_def)
qed

lemma closing_queued: obtains T where
  "evtchn_mark_closed ev_queued 0x1000 = Some (closing ev_queued)" "evtchn_wf (closing ev_queued)"
  "closing ev_queued = put_channel 0x1000 (sample_channel\<lparr>ch_Pending := True, ch_PendingListEntry := True, ch_Active := False, ch_Closed := True\<rparr>)
     (ev_queued\<lparr>ev_Table := T\<rparr>)"
proof -
  have "ev_Channel ev_queued 0x1000 = Some (sample_channel\<lparr>ch_Pending := True, ch_PendingListEntry := True\<rparr>)" by (simp add: ev_queued_run(2))
  from closing_run [OF ev_queued_wf this] show thesis using that by (auto simp: sample_channel_def ev_queued_run(2) ev_opened_def ev_empty_def)
qed

theorem EvtchnClose_race_strands_witness:
  "\<exists>c. EvtchnTrigger (closing ev_queued) 0x1000 = Some c \<and> 0x1000 \<in> set (pr_PendingList (ev_Processor c ! 0)) \<and>
     ev_Channel c 0x1000 = Some (sample_channel\<lparr>ch_Pending := True, ch_PendingListEntry := True, ch_Active := False, ch_Closed := True\<rparr>)"
proof -
  from closing_queued obtain T where c: "evtchn_mark_closed ev_queued 0x1000 = Some (closing ev_queued)" "evtchn_wf (closing ev_queued)"
    "closing ev_queued = put_channel 0x1000 (sample_channel\<lparr>ch_Pending := True, ch_PendingListEntry := True, ch_Active := False, ch_Closed := True\<rparr>)
     (ev_queued\<lparr>ev_Table := T\<rparr>)" .
  let ?ch = "sample_channel\<lparr>ch_Pending := True, ch_PendingListEntry := True\<rparr>"
  have "ch_Cpu ?ch = 0" "ch_Active ?ch" by (simp_all add: sample_channel_def zero_CHANNEL_def)
  moreover have "ev_Channel ev_queued 0x1000 = Some ?ch" "pr_PendingList (ev_Processor ev_queued ! 0) = [0x1000]"
    by (simp_all add: ev_queued_run(2) zero_EVTCHN_PROCESSOR_def)
  moreover have chc: "ev_Channel (closing ev_queued) 0x1000 = Some (?ch\<lparr>ch_Active := False, ch_Closed := True\<rparr>)"
    "ev_Processor (closing ev_queued) = ev_Processor ev_queued" by (simp_all add: c(3))
  moreover have "poll_channels (\<lambda>_. True) 0 [0x1000] False None (closing ev_queued) = Some (False, None, closing ev_queued)"
    by (simp add: chc)
  moreover have "EvtchnTrigger (closing ev_queued) 0x1000 = Some (closing ev_queued)"
    unfolding EvtchnTrigger_def by (simp add: chc ASSERT_def) (simp add: ev_queued_run(2) sample_channel_def zero_CHANNEL_def)
  ultimately show ?thesis
    using EvtchnClose_race_strands [of ev_queued "0x1000" ?ch "closing ev_queued" "\<lambda>_. True" False None "closing ev_queued" "closing ev_queued"]
      ev_queued_wf c(1) by simp
qed

theorem EvtchnClose_reaps_witness:
  "\<exists>c1 c2. EvtchnClose ev_opened 0x1000 = Some c1 \<and> EvtchnDpc (\<lambda>i. (STATUS_SUCCESS, i)) (\<lambda>_. True) c1 0 = Some c2 \<and> ev_Channel c2 0x1000 = None"
proof -
  from closing_opened obtain T where c: "evtchn_mark_closed ev_opened 0x1000 = Some (closing ev_opened)" "evtchn_wf (closing ev_opened)"
    "closing ev_opened = put_channel 0x1000 (sample_channel\<lparr>ch_Active := False, ch_Closed := True\<rparr>) (ev_opened\<lparr>ev_Table := T\<rparr>)" .
  let ?c1 = "(put_channel 0x1000 (sample_channel\<lparr>ch_Active := False, ch_Closed := True, ch_Pending := True, ch_PendingListEntry := True\<rparr>) (ev_opened\<lparr>ev_Table := T\<rparr>))\<lparr>ev_Processor :=
     [zero_EVTCHN_PROCESSOR\<lparr>pr_Context := True, pr_PendingList := [0x1000], pr_Dpc := True\<rparr>]\<rparr>"
  have ch: "ev_Channel ev_opened 0x1000 = Some sample_channel" "ch_Active sample_channel" "\<not> ch_Pending sample_channel" "ch_Cpu sample_channel = 0"
    by (simp_all add: ev_opened_def sample_channel_def zero_CHANNEL_def)
  have "EvtchnTrigger (closing ev_opened) 0x1000 = Some ?c1" unfolding c(3)
    by (simp add: EvtchnTrigger_def append_pending_def ev_opened_def sample_channel_def zero_CHANNEL_def ASSERT_def put_channel_def put_processor_def)
      (simp add: ev_empty_def zero_EVTCHN_PROCESSOR_def)
  then have close: "EvtchnClose ev_opened 0x1000 = Some ?c1" using c(1) ch by (simp add: EvtchnClose_def)
  have frame: "ev_Abi ?c1 = ev_Abi ev_opened" "ev_Fifo ?c1 = ev_Fifo ev_opened" "ev_TwoLevel ?c1 = ev_TwoLevel ev_opened" by simp_all
  have ready: "poll_ready (\<lambda>i. (STATUS_SUCCESS, i)) ?c1 0 (filter (fifo_due sample_fifo) [5, 3, 4])"
    using reports_frame [OF frame] abi_frame(3) [OF frame] ev_opened_frame
    by (auto simp: poll_ready_def zero_EVTCHN_PROCESSOR_def is_open_def)
  have "ev_References ?c1 \<noteq> 0" "pr_PendingList (ev_Processor ev_opened ! 0) = []" by (simp_all add: ev_opened_def ev_empty_def zero_EVTCHN_PROCESSOR_def)
  with EvtchnClose_reaps [OF ev_opened_wf ch(1-3) close, unfolded ch(4), OF _ ready, of "\<lambda>_. True"] close show ?thesis by blast
qed

text \<open>The context after a suspend, with the FIFO ABI acquired anew.\<close>

definition fresh_fifo :: XENBUS_EVTCHN_FIFO_CONTEXT where
  "fresh_fifo = sample_fifo\<lparr>fifo_ControlBlock := [Some \<lparr>cb_ready = 0, cb_head = replicate 16 0\<rparr>], fifo_EventPage := []\<rparr>"

definition ev_resumed :: XENBUS_EVTCHN_CONTEXT where
  "ev_resumed = (the (EvtchnSuspendCallbackEarly ev_opened))\<lparr>ev_Fifo := fresh_fifo\<rparr>"

lemma ev_resumed_run: "evtchn_wf ev_resumed"
  "\<exists>T. ev_resumed = (put_channel 0x1000 (sample_channel\<lparr>ch_Active := False\<rparr>) (ev_opened\<lparr>ev_Table := T\<rparr>))\<lparr>ev_Fifo := fresh_fifo\<rparr>"
proof -
  have ch: "ev_Channel ev_opened 0x1000 = Some sample_channel" "ch_Active sample_channel" "ch_LocalPort sample_channel = 4" "ev_List ev_opened = [0x1000]"
    by (simp_all add: ev_opened_def sample_channel_def)
  have "channel_ok (ev_Processor ev_opened) (sample_channel\<lparr>ch_Active := False\<rparr>)" using ev_inv_channel_ok [OF ev_opened_wf ch(1)] by (simp add: channel_ok_def)
  from deactivate_inv [OF ev_opened_wf ch(1,2) this] ch(3) obtain T where T: "HashTableRemove (ev_Table ev_opened) 4 = Some (STATUS_SUCCESS, T)"
    "evtchn_wf (put_channel 0x1000 (sample_channel\<lparr>ch_Active := False\<rparr>) (ev_opened\<lparr>ev_Table := T\<rparr>))" by auto
  then have run: "ev_resumed = (put_channel 0x1000 (sample_channel\<lparr>ch_Active := False\<rparr>) (ev_opened\<lparr>ev_Table := T\<rparr>))\<lparr>ev_Fifo := fresh_fifo\<rparr>"
    using ch by (simp add: ev_resumed_def EvtchnSuspendCallbackEarly_def ASSERT_def NT_SUCCESS_def)
  have "evtchn_wf ev_resumed = evtchn_wf (put_channel 0x1000 (sample_channel\<lparr>ch_Active := False\<rparr>) (ev_opened\<lparr>ev_Table := T\<rparr>))"
    unfolding run by (rule ev_inv_cong) simp_all
  then show "evtchn_wf ev_resumed" using T(2) by simp
  show "\<exists>T. ev_resumed = (put_channel 0x1000 (sample_channel\<lparr>ch_Active := False\<rparr>) (ev_opened\<lparr>ev_Table := T\<rparr>))\<lparr>ev_Fifo := fresh_fifo\<rparr>" using run by blast
qed

theorem EvtchnTrigger_after_resume_stops_witness:
  "\<exists>c. EvtchnTrigger ev_resumed 0x1000 = Some c \<and> EvtchnDpc (\<lambda>i. (STATUS_SUCCESS, i)) (\<lambda>_. True) c 0 = None"
proof -
  let ?ch = "sample_channel\<lparr>ch_Active := False\<rparr>"
  from ev_resumed_run(2) obtain T where r: "ev_resumed = (put_channel 0x1000 ?ch (ev_opened\<lparr>ev_Table := T\<rparr>))\<lparr>ev_Fifo := fresh_fifo\<rparr>" by blast
  have ch: "ev_Channel ev_resumed 0x1000 = Some ?ch" "\<not> ch_Active ?ch" "\<not> ch_Closed ?ch" "\<not> ch_Pending ?ch" "ch_Cpu ?ch = 0"
    by (simp_all add: r sample_channel_def zero_CHANNEL_def)
  from EvtchnTrigger_law [OF ev_resumed_run(1) ch(1)] obtain c where c: "EvtchnTrigger ev_resumed 0x1000 = Some c" by blast
  then have f: "ev_Fifo c = fresh_fifo" "ev_Abi c = Some FIFO" "ev_References c \<noteq> 0"
    using ch by (auto simp: EvtchnTrigger_def append_pending_def Let_def bind_eq_Some_conv ASSERT_def split: if_splits) (auto simp: r ev_opened_def ev_empty_def)
  have "queues fresh_fifo 0 0 (\<lambda>_. [])" by (simp add: queues_def fresh_fifo_def sample_fifo_def)
  moreover have "fifo_wf fresh_fifo 0" by (simp add: fifo_wf_def fresh_fifo_def sample_fifo_def fifo_pages_ok_def)
  moreover have "cb_ready (the (fifo_ControlBlock fresh_fifo ! 0)) = 0" by (simp add: fresh_fifo_def)
  moreover have "queue_order (\<lambda>_. []) = []" by (simp add: queue_order_def)
  ultimately have "reports (\<lambda>i. (STATUS_SUCCESS, i)) c 0 []" unfolding reports_def
    by (auto simp: f NT_SUCCESS_def intro!: exI [of _ "\<lambda>_. []"])
  moreover have "ev_Abi ev_resumed = Some FIFO" "fifo_EventPage (ev_Fifo ev_resumed) = []" by (simp_all add: r ev_opened_def ev_empty_def fresh_fifo_def)
  ultimately show ?thesis
    using EvtchnTrigger_after_resume_stops [OF ev_resumed_run(1) _ _ ch(1-4) c f(3), of "\<lambda>i. (STATUS_SUCCESS, i)" "[]" "\<lambda>_. True"] c ch(5) by auto
qed

end
