(* ===== verification/Gnttab.thy ===== *)
theory Gnttab
  imports Range_Set Hash_Table Slab_Cache
begin

unbundle bit_operations_syntax

text \<open>
  The grant table of src/src/xenbus/gnttab.c. It uses three other components: the range set keeps
  the free grant references, the slab cache the grant entries of each client (the constructor of
  an entry takes a reference from the range set, growing the table when there is none, the
  destructor gives it back), the hash table the foreign pages that are mapped. Here the interfaces
  of these components meet: the cache's client locale is interpreted on the constructor and
  destructor of this file, whose laws follow from the range set's.
\<close>

section \<open>State\<close>

definition XENBUS_GNTTAB_ENTRY_PER_FRAME :: nat where
  "XENBUS_GNTTAB_ENTRY_PER_FRAME = 512"

definition XENBUS_GNTTAB_RESERVED_ENTRY_COUNT :: nat where
  "XENBUS_GNTTAB_RESERVED_ENTRY_COUNT = 32"

definition GTF_permit_access :: "16 word" where "GTF_permit_access = 1"
definition GTF_readonly :: "16 word" where "GTF_readonly = 4"
definition GTF_reading :: "16 word" where "GTF_reading = 8"
definition GTF_writing :: "16 word" where "GTF_writing = 16"

record grant_entry_v1 =
  gr_flags :: "16 word"
  gr_domid :: nat
  gr_frame :: nat

definition zero_grant :: grant_entry_v1 where
  "zero_grant = \<lparr>gr_flags = 0, gr_domid = 0, gr_frame = 0\<rparr>"

text \<open>An object of the cache; \<open>ge_Magic\<close> says whether the magic number has been written.\<close>

record XENBUS_GNTTAB_ENTRY =
  ge_Magic :: bool
  ge_Reference :: nat
  ge_Entry :: grant_entry_v1

text \<open>What a mapping of foreign pages remembers: the pages of its MDL and a handle for each.\<close>

record XENBUS_GNTTAB_MAP_ENTRY =
  me_Pages :: nat
  me_MapHandles :: "nat list"

text \<open>
  The context. \<open>gn_Frame\<close> is the array of frames, \<^const>\<open>None\<close> where no page is mapped, a mapped frame
  the 512 entries of its page; \<open>gn_RangeSet\<close> is \<open>no_RangeSet\<close> where the pointer is NULL. \<open>gn_Entry\<close> is
  the memory of the cache's objects, \<open>gn_MapEntry\<close> the pool the map entries are allocated from, both
  by address. \<open>gn_RangeSets\<close> and \<open>gn_Caches\<close> are the contexts of the other two components, the
  booleans say which interfaces and callbacks are held, \<open>gn_List\<close> names the clients' caches.
  \<open>gn_Mapped\<close> is the hypervisor's: the foreign pages mapped for this domain, a handle and an address
  each.
\<close>

record XENBUS_GNTTAB_CONTEXT =
  gn_References :: int
  gn_MaximumFrameCount :: nat
  gn_Frame :: "(nat \<Rightarrow> grant_entry_v1) option list"
  gn_FrameIndex :: int
  gn_RangeSet :: XENBUS_RANGE_SET
  gn_Entry :: "nat \<Rightarrow> XENBUS_GNTTAB_ENTRY"
  gn_MapTable :: XENBUS_HASH_TABLE
  gn_MapEntry :: "nat \<rightharpoonup> XENBUS_GNTTAB_MAP_ENTRY"
  gn_Mapped :: "(nat \<times> nat) set"
  gn_RangeSets :: XENBUS_RANGE_SET_CONTEXT
  gn_Caches :: XENBUS_CACHE_CONTEXT
  gn_Suspend :: bool
  gn_SuspendCallbackEarly :: bool
  gn_Debug :: bool
  gn_DebugCallback :: bool
  gn_List :: "string list"

text \<open>
  The environment when the table grows, by the index of the frame: whether a page of address space
  is found, what the hypervisor answers when the frame is mapped there, what the page holds, and whether the
  range set finds the memory to put the references of the frame in.
\<close>

record gnttab_env =
  env_hole :: "nat \<Rightarrow> bool"
  env_put :: "nat \<Rightarrow> bool"
  env_physmap :: "nat \<Rightarrow> NTSTATUS"
  env_page :: "nat \<Rightarrow> nat \<Rightarrow> grant_entry_v1"

section \<open>Growing and shrinking the table\<close>

definition frame_start :: "nat \<Rightarrow> int" where
  "frame_start Index = int (max XENBUS_GNTTAB_RESERVED_ENTRY_COUNT (Index * XENBUS_GNTTAB_ENTRY_PER_FRAME))"

definition frame_end :: "nat \<Rightarrow> int" where
  "frame_end Index = int ((Index + 1) * XENBUS_GNTTAB_ENTRY_PER_FRAME) - 1"

definition GnttabExpand ::
  "gnttab_env \<Rightarrow> XENBUS_GNTTAB_CONTEXT \<Rightarrow> (NTSTATUS \<times> XENBUS_GNTTAB_CONTEXT) kernel" where
  "GnttabExpand env ctx =
     (let Index = gn_FrameIndex ctx + 1;
          ctx1 = ctx\<lparr>gn_FrameIndex := Index\<rparr>;
          fail1 = (\<lambda>status c. Some (status, c\<lparr>gn_FrameIndex := gn_FrameIndex c - 1\<rparr>))
      in do {
        ASSERT (Index \<le> int (gn_MaximumFrameCount ctx));
        (if Index = int (gn_MaximumFrameCount ctx) then fail1 STATUS_INSUFFICIENT_RESOURCES ctx1
         else if \<not> env_hole env (nat Index) then fail1 STATUS_NO_MEMORY ctx1
         else if \<not> NT_SUCCESS (env_physmap env (nat Index)) then fail1 (env_physmap env (nat Index)) ctx1
         else do {
           let ctx2 = ctx1\<lparr>gn_Frame := (gn_Frame ctx1)[nat Index := Some (env_page env (nat Index))]\<rparr>;
           (status, rs) \<leftarrow> RangeSetPut (env_put env (nat Index)) (gn_RangeSet ctx2) (frame_start (nat Index))
             (frame_end (nat Index) + 1 - frame_start (nat Index));
           let ctx3 = ctx2\<lparr>gn_RangeSet := rs\<rparr>;
           (if NT_SUCCESS status then Some (STATUS_SUCCESS, ctx3)
            else fail1 status (ctx3\<lparr>gn_Frame := (gn_Frame ctx3)[nat Index := None]\<rparr>))
         })
      })"

text \<open>
  Mapping the frames again after a resume (\<^verbatim>\<open>GnttabSuspendCallbackEarly\<close>) and unmapping them: only
  the assertions and the content of the pages are visible to the driver.
\<close>

definition GnttabMap :: "(nat \<Rightarrow> NTSTATUS) \<Rightarrow> (nat \<Rightarrow> nat \<Rightarrow> grant_entry_v1) \<Rightarrow> XENBUS_GNTTAB_CONTEXT \<Rightarrow>
    XENBUS_GNTTAB_CONTEXT kernel" where
  "GnttabMap add page ctx =
     fold (\<lambda>Index c. do {
         ctx1 \<leftarrow> c;
         ASSERT (gn_Frame ctx1 ! Index \<noteq> None);
         ASSERT (NT_SUCCESS (add Index));
         Some (ctx1\<lparr>gn_Frame := (gn_Frame ctx1)[Index := Some (page Index)]\<rparr>)
       }) [0 ..< nat (gn_FrameIndex ctx + 1)] (Some ctx)"

definition GnttabSuspendCallbackEarly :: "(nat \<Rightarrow> NTSTATUS) \<Rightarrow> (nat \<Rightarrow> nat \<Rightarrow> grant_entry_v1) \<Rightarrow>
    XENBUS_GNTTAB_CONTEXT \<Rightarrow> XENBUS_GNTTAB_CONTEXT kernel" where
  "GnttabSuspendCallbackEarly add page ctx = GnttabMap add page ctx"

text \<open>The loop of \<^verbatim>\<open>GnttabContract\<close>, on the indices from the last frame down.\<close>

fun contract_frames :: "nat list \<Rightarrow> XENBUS_GNTTAB_CONTEXT \<Rightarrow> XENBUS_GNTTAB_CONTEXT kernel" where
  "contract_frames [] ctx = Some ctx"
| "contract_frames (Index # is) ctx =
     do {
       (status, rs) \<leftarrow> RangeSetGet True (gn_RangeSet ctx) (frame_start Index)
         (frame_end Index + 1 - frame_start Index);
       ASSERT (NT_SUCCESS status);
       ASSERT (gn_Frame ctx ! Index \<noteq> None);
       contract_frames is (ctx\<lparr>gn_RangeSet := rs, gn_Frame := (gn_Frame ctx)[Index := None]\<rparr>)
     }"

definition GnttabContract :: "XENBUS_GNTTAB_CONTEXT \<Rightarrow> XENBUS_GNTTAB_CONTEXT kernel" where
  "GnttabContract ctx =
     do {
       ctx1 \<leftarrow> contract_frames (rev [0 ..< nat (gn_FrameIndex ctx + 1)]) ctx;
       Some (ctx1\<lparr>gn_FrameIndex := - 1\<rparr>)
     }"

section \<open>Entries\<close>

text \<open>The constructor: the jump back to \<^verbatim>\<open>again\<close> is the recursion.\<close>

partial_function (option) GnttabEntryCtor ::
  "gnttab_env \<Rightarrow> nat \<Rightarrow> XENBUS_GNTTAB_CONTEXT \<Rightarrow> (NTSTATUS \<times> XENBUS_GNTTAB_CONTEXT) kernel" where
  "GnttabEntryCtor env Object ctx =
     Option.bind (RangeSetPop (gn_RangeSet ctx) 1) (\<lambda>(status, Reference, rs).
       let ctx1 = ctx\<lparr>gn_RangeSet := rs\<rparr> in
       if \<not> NT_SUCCESS status then
         Option.bind (GnttabExpand env ctx1) (\<lambda>(status', ctx2).
           if \<not> NT_SUCCESS status' then Some (status', ctx2)
           else GnttabEntryCtor env Object ctx2)
       else
         let Entry = (gn_Entry ctx1 Object)\<lparr>ge_Magic := True, ge_Reference := nat (u32 (the Reference))\<rparr>
         in Some (STATUS_SUCCESS, ctx1\<lparr>gn_Entry := (gn_Entry ctx1)(Object := Entry)\<rparr>))"

definition GnttabEntryDtor :: "bool \<Rightarrow> nat \<Rightarrow> XENBUS_GNTTAB_CONTEXT \<Rightarrow> XENBUS_GNTTAB_CONTEXT kernel" where
  "GnttabEntryDtor mem Object ctx =
     do {
       (status, rs) \<leftarrow> RangeSetPut mem (gn_RangeSet ctx) (int (ge_Reference (gn_Entry ctx Object))) 1;
       ASSERT (NT_SUCCESS status);
       Some (ctx\<lparr>gn_RangeSet := rs\<rparr>)
     }"

section \<open>Granting and revoking access\<close>

text \<open>The entry of the table for a reference, if its frame is mapped.\<close>

definition read_slot :: "XENBUS_GNTTAB_CONTEXT \<Rightarrow> nat \<Rightarrow> grant_entry_v1 kernel" where
  "read_slot ctx r =
     do {
       Frame \<leftarrow> gn_Frame ctx ! (r div XENBUS_GNTTAB_ENTRY_PER_FRAME);
       Some (Frame (r mod XENBUS_GNTTAB_ENTRY_PER_FRAME))
     }"

definition write_slot :: "nat \<Rightarrow> grant_entry_v1 \<Rightarrow> XENBUS_GNTTAB_CONTEXT \<Rightarrow> XENBUS_GNTTAB_CONTEXT kernel" where
  "write_slot r g ctx =
     do {
       Frame \<leftarrow> gn_Frame ctx ! (r div XENBUS_GNTTAB_ENTRY_PER_FRAME);
       Some (ctx\<lparr>gn_Frame := (gn_Frame ctx)[r div XENBUS_GNTTAB_ENTRY_PER_FRAME :=
         Some (Frame(r mod XENBUS_GNTTAB_ENTRY_PER_FRAME := g))]\<rparr>)
     }"

definition reference_ok :: "XENBUS_GNTTAB_CONTEXT \<Rightarrow> nat \<Rightarrow> bool" where
  "reference_ok ctx r \<longleftrightarrow> r \<ge> XENBUS_GNTTAB_RESERVED_ENTRY_COUNT \<and>
     int r < (gn_FrameIndex ctx + 1) * int XENBUS_GNTTAB_ENTRY_PER_FRAME"

text \<open>\<open>cpu\<close> and \<open>mem\<close> are the processor and the allocator's answer of the cache's get.\<close>

definition GnttabPermitForeignAccess ::
  "gnttab_env \<Rightarrow> slab_mem \<Rightarrow> nat \<Rightarrow> nat \<Rightarrow> nat \<Rightarrow> bool \<Rightarrow> XENBUS_CACHE \<times> XENBUS_GNTTAB_CONTEXT \<Rightarrow>
     (NTSTATUS \<times> nat \<times> XENBUS_CACHE \<times> XENBUS_GNTTAB_CONTEXT) kernel" where
  "GnttabPermitForeignAccess env mem cpu Domid Pfn ReadOnly s =
     do {
       (Entry, c, ctx) \<leftarrow> CacheGet (GnttabEntryCtor env) mem cpu (fst s) (snd s);
       (if Entry = 0 then Some (STATUS_INSUFFICIENT_RESOURCES, Entry, c, ctx)
        else do {
          let r = ge_Reference (gn_Entry ctx Entry);
          ASSERT (reference_ok ctx r);
          let g = \<lparr>gr_flags = (if ReadOnly then GTF_readonly else 0), gr_domid = Domid, gr_frame = Pfn mod 2 ^ 32\<rparr>;
          ASSERT (gr_frame g = Pfn);
          let ctx1 = ctx\<lparr>gn_Entry := (gn_Entry ctx)(Entry := (gn_Entry ctx Entry)\<lparr>ge_Entry := g\<rparr>)\<rparr>;
          ctx2 \<leftarrow> write_slot r g ctx1;
          ctx3 \<leftarrow> write_slot r (g\<lparr>gr_flags := gr_flags g OR GTF_permit_access\<rparr>) ctx2;
          Some (STATUS_SUCCESS, Entry, c, ctx3)
        })
     }"

text \<open>
  The loop of \<^verbatim>\<open>GnttabRevokeForeignAccess\<close>: attempt \<open>k\<close> reads and exchanges the flags, which the
  hypervisor may change at any time; \<open>seen k\<close> is what it sees at both (grant flags use the low bits, so
  the signed value the exchange returns compares like the unsigned one). The results are \<^verbatim>\<open>Attempt\<close>
  after the loop and the flags stored, if any.
\<close>

function revoke_loop :: "(nat \<Rightarrow> 16 word \<times> 16 word) \<Rightarrow> nat \<Rightarrow> nat \<times> 16 word option" where
  "revoke_loop seen Attempt =
     (if Attempt < 100 then
        let Old = fst (seen Attempt) AND NOT (GTF_reading OR GTF_writing);
            New = Old AND NOT GTF_permit_access
        in if snd (seen Attempt) = Old then (Attempt + 1, Some New) else revoke_loop seen (Attempt + 1)
      else (Attempt + 1, None))"
  by pat_completeness auto
termination by (relation "measure (\<lambda>(seen, Attempt). 100 - Attempt)") auto

declare revoke_loop.simps [simp del]

definition GnttabRevokeForeignAccess ::
  "(nat \<Rightarrow> 16 word \<times> 16 word) \<Rightarrow> nat \<Rightarrow> nat \<Rightarrow> XENBUS_CACHE \<times> XENBUS_GNTTAB_CONTEXT \<Rightarrow>
     (NTSTATUS \<times> XENBUS_CACHE \<times> XENBUS_GNTTAB_CONTEXT) kernel" where
  "GnttabRevokeForeignAccess seen cpu Entry s =
     do {
       let ctx = snd s;
       let r = ge_Reference (gn_Entry ctx Entry);
       ASSERT (ge_Magic (gn_Entry ctx Entry));
       ASSERT (reference_ok ctx r);
       let (Attempt, flags) = revoke_loop seen 0;
       g \<leftarrow> read_slot ctx r;
       ctx1 \<leftarrow> (case flags of None \<Rightarrow> Some ctx | Some New \<Rightarrow> write_slot r (g\<lparr>gr_flags := New\<rparr>) ctx);
       (if Attempt = 100 then Some (STATUS_UNSUCCESSFUL, fst s, ctx1)
        else do {
          ctx2 \<leftarrow> write_slot r zero_grant ctx1;
          let ctx3 = ctx2\<lparr>gn_Entry := (gn_Entry ctx2)(Entry := (gn_Entry ctx2 Entry)\<lparr>ge_Entry := zero_grant\<rparr>)\<rparr>;
          c \<leftarrow> CachePut cpu (fst s) Entry;
          Some (STATUS_SUCCESS, c, ctx3)
        })
     }"

definition GnttabGetReference :: "XENBUS_GNTTAB_CONTEXT \<Rightarrow> nat \<Rightarrow> nat kernel" where
  "GnttabGetReference ctx Entry =
     do { ASSERT (ge_Magic (gn_Entry ctx Entry)); Some (ge_Reference (gn_Entry ctx Entry)) }"

definition GnttabQueryReference :: "XENBUS_GNTTAB_CONTEXT \<Rightarrow> nat \<Rightarrow> (NTSTATUS \<times> (nat \<times> bool) option) kernel" where
  "GnttabQueryReference ctx Reference =
     (if int Reference \<ge> (gn_FrameIndex ctx + 1) * int XENBUS_GNTTAB_ENTRY_PER_FRAME
      then Some (STATUS_INVALID_PARAMETER, None)
      else do {
        g \<leftarrow> read_slot ctx Reference;
        Some (STATUS_SUCCESS, Some (gr_frame g, gr_flags g AND GTF_readonly \<noteq> 0))
      })"

section \<open>Mapping foreign pages\<close>

text \<open>
  The two loops: \<open>map k\<close> is the hypervisor's answer for page \<open>k\<close>, a status and a handle. Mapped
  pages are recorded with their address. Unmapping removes one; a failure is the environment's
  and only matters where the code checks for it.
\<close>

fun map_pages ::
  "(nat \<Rightarrow> NTSTATUS \<times> nat) \<Rightarrow> nat list \<Rightarrow> nat \<Rightarrow> nat list \<Rightarrow> (nat \<times> nat) set \<Rightarrow>
     NTSTATUS \<times> nat \<times> nat list \<times> (nat \<times> nat) set" where
  "map_pages m [] PageAddress hs M = (STATUS_SUCCESS, PageAddress, hs, M)"
| "map_pages m (PageIndex # is) PageAddress hs M =
     (case m PageIndex of (status, h) \<Rightarrow>
        if \<not> NT_SUCCESS status then (status, PageAddress, hs, M)
        else map_pages m is (PageAddress + PAGE_SIZE) (hs @ [h]) (insert (h, PageAddress) M))"

fun unmap_back :: "nat list \<Rightarrow> nat \<Rightarrow> (nat \<times> nat) set \<Rightarrow> (nat \<times> nat) set" where
  "unmap_back [] PageAddress M = M"
| "unmap_back (h # hs) PageAddress M = unmap_back hs (PageAddress - PAGE_SIZE) (M - {(h, PageAddress - PAGE_SIZE)})"

text \<open>
  \<open>hole\<close> is the address of the pages found, if any, \<open>ptr\<close> that of the map entry, \<open>mem\<close> whether the
  hash table finds memory.
\<close>

definition GnttabMapForeignPages ::
  "nat option \<Rightarrow> nat option \<Rightarrow> bool \<Rightarrow> (nat \<Rightarrow> NTSTATUS \<times> nat) \<Rightarrow> nat \<Rightarrow> XENBUS_GNTTAB_CONTEXT \<Rightarrow>
     (NTSTATUS \<times> nat \<times> XENBUS_GNTTAB_CONTEXT) kernel" where
  "GnttabMapForeignPages hole ptr mem m NumberPages ctx =
     (case hole of
        None \<Rightarrow> Some (STATUS_NO_MEMORY, 0, ctx)
      | Some Address \<Rightarrow>
        (case ptr of
           None \<Rightarrow> Some (STATUS_NO_MEMORY, 0, ctx)
         | Some MapEntry \<Rightarrow>
             let (status, PageAddress, hs, M) = map_pages m [0 ..< NumberPages] Address [] (gn_Mapped ctx);
                 fail3 = (\<lambda>status. Some (status, 0, ctx\<lparr>gn_Mapped := unmap_back (rev hs) PageAddress M\<rparr>))
             in if \<not> NT_SUCCESS status then fail3 status
                else do {
                  (status, T) \<leftarrow> HashTableAdd mem (gn_MapTable ctx) (word_of_nat Address) (word_of_nat MapEntry);
                  (if \<not> NT_SUCCESS status then fail3 status
                   else Some (STATUS_SUCCESS, Address,
                     ctx\<lparr>gn_MapTable := T, gn_Mapped := M,
                         gn_MapEntry := (gn_MapEntry ctx)(MapEntry \<mapsto> \<lparr>me_Pages = NumberPages, me_MapHandles = hs\<rparr>)\<rparr>))
                }))"

fun unmap_pages :: "nat list \<Rightarrow> nat \<Rightarrow> (nat \<times> nat) set \<Rightarrow> (nat \<times> nat) set kernel" where
  "unmap_pages [] PageAddress M = Some M"
| "unmap_pages (h # hs) PageAddress M =
     (if (h, PageAddress) \<notin> M then BUG else unmap_pages hs (PageAddress + PAGE_SIZE) (M - {(h, PageAddress)}))"

definition GnttabUnmapForeignPages ::
  "nat \<Rightarrow> XENBUS_GNTTAB_CONTEXT \<Rightarrow> (NTSTATUS \<times> XENBUS_GNTTAB_CONTEXT) kernel" where
  "GnttabUnmapForeignPages Address ctx =
     do {
       (status, MapEntry) \<leftarrow> HashTableLookup (gn_MapTable ctx) (word_of_nat Address);
       (if \<not> NT_SUCCESS status then Some (status, ctx)
        else do {
          (status, T) \<leftarrow> HashTableRemove (gn_MapTable ctx) (word_of_nat Address);
          (if \<not> NT_SUCCESS status then Some (status, ctx\<lparr>gn_MapTable := T\<rparr>)
           else do {
             MapEntry \<leftarrow> MapEntry;
             e \<leftarrow> gn_MapEntry ctx (unat MapEntry);
             M \<leftarrow> unmap_pages (take (me_Pages e) (me_MapHandles e)) Address (gn_Mapped ctx);
             Some (STATUS_SUCCESS, ctx\<lparr>gn_MapTable := T, gn_Mapped := M,
               gn_MapEntry := (gn_MapEntry ctx)(unat MapEntry := None)\<rparr>)
           })
        })
     }"

section \<open>Creating and destroying the caches of clients\<close>

text \<open>
  What a client holds. \<^verbatim>\<open>RtlStringCbPrintfA\<close> truncates a text that does not fit, with its terminator, and
  says so by STATUS\_BUFFER\_OVERFLOW.
\<close>

record XENBUS_GNTTAB_CACHE =
  gc_Name :: string
  gc_Context :: bool
  gc_Cache :: "XENBUS_CACHE option"

definition zero_GNTTAB_CACHE :: XENBUS_GNTTAB_CACHE where
  "zero_GNTTAB_CACHE = \<lparr>gc_Name = '''', gc_Context = False, gc_Cache = None\<rparr>"

definition print_name :: "string \<Rightarrow> NTSTATUS \<times> string" where
  "print_name s = (if length s < MAXNAMELEN then STATUS_SUCCESS else STATUS_BUFFER_OVERFLOW, take (MAXNAMELEN - 1) s)"

text \<open>
  \<open>mem\<close> is the memory for the client's record, the other parameters of the environment are those of
  \<^const>\<open>CacheCreate\<close>. The entries are 16 bytes long.
\<close>

definition GnttabCreateCache ::
  "bool \<Rightarrow> bool \<Rightarrow> (nat \<Rightarrow> slab_mem) \<Rightarrow> bool \<Rightarrow> nat \<Rightarrow> string \<Rightarrow> nat \<Rightarrow> nat \<Rightarrow> XENBUS_GNTTAB_CONTEXT \<Rightarrow>
     (NTSTATUS \<times> XENBUS_GNTTAB_CACHE option \<times> XENBUS_GNTTAB_CONTEXT) kernel" where
  "GnttabCreateCache mem cmem mems mag cpus Name Reservation Cap ctx =
     (let fail2 = (\<lambda>status Cache. do {
            let Cache1 = Cache\<lparr>gc_Context := False\<rparr>;
            ASSERT (Cache1 = zero_GNTTAB_CACHE);
            Some (status, None, ctx)
          })
      in if \<not> mem then Some (STATUS_NO_MEMORY, None, ctx)
      else
        let (status, text) = print_name (Name @ ''_gnttab'');
            Cache = zero_GNTTAB_CACHE\<lparr>gc_Context := True, gc_Name := text\<rparr>
        in if \<not> NT_SUCCESS status then fail2 status Cache
        else do {
          (status, c) \<leftarrow> CacheCreate cmem STATUS_SUCCESS mems mag cpus (GnttabEntryDtor True) text 16 Reservation Cap ctx;
          (if \<not> NT_SUCCESS status then fail2 status (Cache\<lparr>gc_Name := ''''\<rparr>)
           else Some (STATUS_SUCCESS, Some (Cache\<lparr>gc_Cache := c\<rparr>), ctx\<lparr>gn_List := gn_List ctx @ [text]\<rparr>))
        })"

definition GnttabCreateCacheVersion1 ::
  "bool \<Rightarrow> bool \<Rightarrow> (nat \<Rightarrow> slab_mem) \<Rightarrow> bool \<Rightarrow> nat \<Rightarrow> string \<Rightarrow> nat \<Rightarrow> XENBUS_GNTTAB_CONTEXT \<Rightarrow>
     (NTSTATUS \<times> XENBUS_GNTTAB_CACHE option \<times> XENBUS_GNTTAB_CONTEXT) kernel" where
  "GnttabCreateCacheVersion1 mem cmem mems mag cpus Name Reservation ctx =
     GnttabCreateCache mem cmem mems mag cpus Name Reservation 0 ctx"

definition GnttabDestroyCache :: "XENBUS_GNTTAB_CACHE \<Rightarrow> XENBUS_GNTTAB_CONTEXT \<Rightarrow> XENBUS_GNTTAB_CONTEXT kernel" where
  "GnttabDestroyCache Cache ctx =
     do {
       let ctx1 = ctx\<lparr>gn_List := remove1 (gc_Name Cache) (gn_List ctx)\<rparr>;
       c \<leftarrow> gc_Cache Cache;
       ctx2 \<leftarrow> CacheDestroy (GnttabEntryDtor True) c ctx1;
       let Cache1 = Cache\<lparr>gc_Cache := None, gc_Name := '''', gc_Context := False\<rparr>;
       ASSERT (Cache1 = zero_GNTTAB_CACHE);
       Some ctx2
     }"

section \<open>Acquiring and releasing the interface\<close>

definition no_RangeSet :: XENBUS_RANGE_SET where
  "no_RangeSet = \<lparr>rs_Name = '''', rs_List = [], rs_Cursor = None, rs_RangeCount = 0, rs_ItemCount = 0, rs_Spare = None\<rparr>"

text \<open>What the calls answer: the size query, the allocation of the frames, the other interfaces.\<close>

record gnttab_calls =
  call_size :: "NTSTATUS \<times> nat"
  call_frames :: bool
  call_range_set :: "NTSTATUS \<times> NTSTATUS"
  call_create :: "bool \<times> NTSTATUS"
  call_cache :: "NTSTATUS \<times> NTSTATUS"
  call_suspend :: NTSTATUS
  call_suspend_cb :: NTSTATUS
  call_debug :: NTSTATUS
  call_debug_cb :: NTSTATUS

text \<open>The error labels, each falling through to the next.\<close>

definition gn_fail1 :: "NTSTATUS \<Rightarrow> XENBUS_GNTTAB_CONTEXT \<Rightarrow> (NTSTATUS \<times> XENBUS_GNTTAB_CONTEXT) kernel" where
  "gn_fail1 st ctx =
     do {
       let ctx1 = ctx\<lparr>gn_References := gn_References ctx - 1\<rparr>;
       ASSERT (gn_References ctx1 = 0);
       Some (st, ctx1)
     }"

definition gn_fail2 :: "NTSTATUS \<Rightarrow> XENBUS_GNTTAB_CONTEXT \<Rightarrow> (NTSTATUS \<times> XENBUS_GNTTAB_CONTEXT) kernel" where
  "gn_fail2 st ctx = gn_fail1 st (ctx\<lparr>gn_MaximumFrameCount := 0\<rparr>)"

definition gn_fail3 :: "NTSTATUS \<Rightarrow> XENBUS_GNTTAB_CONTEXT \<Rightarrow> (NTSTATUS \<times> XENBUS_GNTTAB_CONTEXT) kernel" where
  "gn_fail3 st ctx = gn_fail2 st (ctx\<lparr>gn_FrameIndex := 0, gn_Frame := []\<rparr>)"

definition gn_fail4 :: "NTSTATUS \<Rightarrow> XENBUS_GNTTAB_CONTEXT \<Rightarrow> (NTSTATUS \<times> XENBUS_GNTTAB_CONTEXT) kernel" where
  "gn_fail4 st ctx = do { r \<leftarrow> RangeSetRelease (gn_RangeSets ctx); gn_fail3 st (ctx\<lparr>gn_RangeSets := r\<rparr>) }"

text \<open>Giving the table back: what \<^verbatim>\<open>fail5\<close> and \<^verbatim>\<open>GnttabRelease\<close> both do.\<close>

definition gn_drop_table :: "XENBUS_GNTTAB_CONTEXT \<Rightarrow> XENBUS_GNTTAB_CONTEXT kernel" where
  "gn_drop_table ctx =
     do {
       ctx1 \<leftarrow> GnttabContract ctx;
       ASSERT (gn_FrameIndex ctx1 = - 1);
       r \<leftarrow> RangeSetDestroy (gn_RangeSets ctx1) (gn_RangeSet ctx1);
       Some (ctx1\<lparr>gn_RangeSets := r, gn_RangeSet := no_RangeSet\<rparr>)
     }"

definition gn_fail5 :: "NTSTATUS \<Rightarrow> XENBUS_GNTTAB_CONTEXT \<Rightarrow> (NTSTATUS \<times> XENBUS_GNTTAB_CONTEXT) kernel" where
  "gn_fail5 st ctx = do { ctx1 \<leftarrow> gn_drop_table ctx; gn_fail4 st ctx1 }"

definition gn_fail6 :: "NTSTATUS \<Rightarrow> XENBUS_GNTTAB_CONTEXT \<Rightarrow> (NTSTATUS \<times> XENBUS_GNTTAB_CONTEXT) kernel" where
  "gn_fail6 st ctx = do { c \<leftarrow> CacheRelease (gn_Caches ctx); gn_fail5 st (ctx\<lparr>gn_Caches := c\<rparr>) }"

definition gn_fail7 :: "NTSTATUS \<Rightarrow> XENBUS_GNTTAB_CONTEXT \<Rightarrow> (NTSTATUS \<times> XENBUS_GNTTAB_CONTEXT) kernel" where
  "gn_fail7 st ctx = gn_fail6 st (ctx\<lparr>gn_Suspend := False\<rparr>)"

definition gn_fail8 :: "NTSTATUS \<Rightarrow> XENBUS_GNTTAB_CONTEXT \<Rightarrow> (NTSTATUS \<times> XENBUS_GNTTAB_CONTEXT) kernel" where
  "gn_fail8 st ctx = gn_fail7 st (ctx\<lparr>gn_SuspendCallbackEarly := False\<rparr>)"

definition gn_fail9 :: "NTSTATUS \<Rightarrow> XENBUS_GNTTAB_CONTEXT \<Rightarrow> (NTSTATUS \<times> XENBUS_GNTTAB_CONTEXT) kernel" where
  "gn_fail9 st ctx = gn_fail8 st (ctx\<lparr>gn_Debug := False\<rparr>)"

definition gn_fail10 :: "NTSTATUS \<Rightarrow> XENBUS_GNTTAB_CONTEXT \<Rightarrow> (NTSTATUS \<times> XENBUS_GNTTAB_CONTEXT) kernel" where
  "gn_fail10 st ctx = gn_fail9 st (ctx\<lparr>gn_DebugCallback := False\<rparr>)"

text \<open>From the suspend interface on.\<close>

definition gn_acquire_callbacks ::
  "gnttab_calls \<Rightarrow> gnttab_env \<Rightarrow> XENBUS_GNTTAB_CONTEXT \<Rightarrow> (NTSTATUS \<times> XENBUS_GNTTAB_CONTEXT) kernel" where
  "gn_acquire_callbacks calls env ctx =
     (if \<not> NT_SUCCESS (call_suspend calls) then gn_fail6 (call_suspend calls) ctx
      else let ctx1 = ctx\<lparr>gn_Suspend := True\<rparr> in
      if \<not> NT_SUCCESS (call_suspend_cb calls) then gn_fail7 (call_suspend_cb calls) ctx1
      else let ctx2 = ctx1\<lparr>gn_SuspendCallbackEarly := True\<rparr> in
      if \<not> NT_SUCCESS (call_debug calls) then gn_fail8 (call_debug calls) ctx2
      else let ctx3 = ctx2\<lparr>gn_Debug := True\<rparr> in
      if \<not> NT_SUCCESS (call_debug_cb calls) then gn_fail9 (call_debug_cb calls) ctx3
      else do {
        (status, ctx4) \<leftarrow> GnttabExpand env (ctx3\<lparr>gn_DebugCallback := True\<rparr>);
        (if \<not> NT_SUCCESS status then gn_fail10 status ctx4 else Some (STATUS_SUCCESS, ctx4))
      })"

text \<open>From the cache interface on.\<close>

definition gn_acquire_cache ::
  "gnttab_calls \<Rightarrow> gnttab_env \<Rightarrow> XENBUS_GNTTAB_CONTEXT \<Rightarrow> (NTSTATUS \<times> XENBUS_GNTTAB_CONTEXT) kernel" where
  "gn_acquire_cache calls env ctx =
     do {
       (status, c) \<leftarrow> CacheAcquire (fst (call_cache calls)) (snd (call_cache calls)) (gn_Caches ctx);
       let ctx1 = ctx\<lparr>gn_Caches := c\<rparr>;
       (if \<not> NT_SUCCESS status then gn_fail5 status ctx1 else gn_acquire_callbacks calls env ctx1)
     }"

definition GnttabAcquire ::
  "gnttab_calls \<Rightarrow> gnttab_env \<Rightarrow> XENBUS_GNTTAB_CONTEXT \<Rightarrow> (NTSTATUS \<times> XENBUS_GNTTAB_CONTEXT) kernel" where
  "GnttabAcquire calls env ctx =
     (let ctx0 = ctx\<lparr>gn_References := gn_References ctx + 1\<rparr>; (status, M) = call_size calls in
      if gn_References ctx \<noteq> 0 then Some (STATUS_SUCCESS, ctx0)
      else if \<not> NT_SUCCESS status then gn_fail1 status ctx0
      else let ctx1 = ctx0\<lparr>gn_MaximumFrameCount := M\<rparr> in
      if \<not> call_frames calls then gn_fail2 STATUS_NO_MEMORY ctx1
      else let ctx2 = ctx1\<lparr>gn_Frame := replicate M None, gn_FrameIndex := - 1\<rparr> in do {
        (status, r) \<leftarrow> RangeSetAcquire (fst (call_range_set calls)) (snd (call_range_set calls)) (gn_RangeSets ctx2);
        let ctx3 = ctx2\<lparr>gn_RangeSets := r\<rparr>;
        (if \<not> NT_SUCCESS status then gn_fail3 status ctx3
         else
           case RangeSetCreate (fst (call_create calls)) (snd (call_create calls)) (gn_RangeSets ctx3) ''gnttab'' of
             (status, None, r) \<Rightarrow> gn_fail4 status (ctx3\<lparr>gn_RangeSets := r\<rparr>)
           | (status, Some rs, r) \<Rightarrow>
               gn_acquire_cache calls env (ctx3\<lparr>gn_RangeSets := r, gn_RangeSet := rs\<rparr>))
      })"

definition GnttabRelease :: "XENBUS_GNTTAB_CONTEXT \<Rightarrow> XENBUS_GNTTAB_CONTEXT kernel" where
  "GnttabRelease ctx =
     (let ctx1 = ctx\<lparr>gn_References := gn_References ctx - 1\<rparr> in
      if 0 < gn_References ctx1 then Some ctx1
      else if gn_List ctx1 \<noteq> [] then BUG
      else do {
        let ctx2 = ctx1\<lparr>gn_DebugCallback := False, gn_Debug := False, gn_SuspendCallbackEarly := False, gn_Suspend := False\<rparr>;
        c \<leftarrow> CacheRelease (gn_Caches ctx2);
        ctx3 \<leftarrow> gn_drop_table (ctx2\<lparr>gn_Caches := c\<rparr>);
        r \<leftarrow> RangeSetRelease (gn_RangeSets ctx3);
        Some (ctx3\<lparr>gn_RangeSets := r, gn_FrameIndex := 0, gn_Frame := [], gn_MaximumFrameCount := 0\<rparr>)
      })"

section \<open>The accounts of the table\<close>

lemmas gn_consts = XENBUS_GNTTAB_ENTRY_PER_FRAME_def XENBUS_GNTTAB_RESERVED_ENTRY_COUNT_def

text \<open>The references there are with frames up to index \<open>k\<close>, and the reference of an entry.\<close>

definition universe :: "int \<Rightarrow> int set" where
  "universe k = {32 .. 512 * (k + 1) - 1}"

abbreviation reference_of :: "XENBUS_GNTTAB_CONTEXT \<Rightarrow> nat \<Rightarrow> nat" where
  "reference_of ctx x \<equiv> ge_Reference (gn_Entry ctx x)"

text \<open>The content of the table at a reference; nothing where no frame is mapped.\<close>

definition slot :: "XENBUS_GNTTAB_CONTEXT \<Rightarrow> nat \<Rightarrow> grant_entry_v1" where
  "slot ctx r = (if r div 512 < length (gn_Frame ctx) then
     case gn_Frame ctx ! (r div 512) of None \<Rightarrow> zero_grant | Some f \<Rightarrow> f (r mod 512) else zero_grant)"

text \<open>
  With \<open>X\<close> the constructed entries: the frames up to \<^verbatim>\<open>FrameIndex\<close> are mapped, every entry has a
  reference of its own, and every reference is either free in the range set or some entry's.
\<close>

definition gnttab_wf :: "nat set \<Rightarrow> XENBUS_GNTTAB_CONTEXT \<Rightarrow> bool" where
  "gnttab_wf X ctx \<longleftrightarrow> gn_MaximumFrameCount ctx \<le> 2 ^ 22 \<and> - 1 \<le> gn_FrameIndex ctx \<and>
     gn_FrameIndex ctx < int (gn_MaximumFrameCount ctx) \<and> length (gn_Frame ctx) = gn_MaximumFrameCount ctx \<and>
     (\<forall>i < gn_MaximumFrameCount ctx. gn_Frame ctx ! i \<noteq> None \<longleftrightarrow> int i \<le> gn_FrameIndex ctx) \<and>
     inj_on (reference_of ctx) X \<and> (\<forall>x \<in> X. ge_Magic (gn_Entry ctx x)) \<and>
     rs.accounts (gn_RangeSet ctx) ((\<lambda>x. int (reference_of ctx x)) ` X) (universe (gn_FrameIndex ctx))"

text \<open>Xen hands a new grant frame out cleared.\<close>

definition fresh_pages :: "gnttab_env \<Rightarrow> bool" where
  "fresh_pages env \<longleftrightarrow> (\<forall>i k. env_page env i k = zero_grant)"

lemma frame_bounds: "frame_start i = (if i = 0 then 32 else int (512 * i))" "frame_end i = int (512 * (i + 1)) - 1"
  by (auto simp: frame_start_def frame_end_def gn_consts)

lemma universe_Suc:
  assumes "- 1 \<le> k"
  shows "universe k \<union> {frame_start (nat (k + 1)) .. frame_start (nat (k + 1)) + (frame_end (nat (k + 1)) + 1 - frame_start (nat (k + 1))) - 1} =
     universe (k + 1)" and "universe k \<inter> {frame_start (nat (k + 1)) .. frame_end (nat (k + 1))} = {}"
    and "0 < frame_end (nat (k + 1)) + 1 - frame_start (nat (k + 1))"
  using assms by (cases "k = - 1"; auto simp: universe_def frame_bounds)+

lemma universe_card: "k \<le> 2 ^ 22 \<Longrightarrow> A \<subseteq> universe k \<Longrightarrow> card A < 2 ^ 32 - 1"
proof -
  assume k: "k \<le> 2 ^ 22" and A: "A \<subseteq> universe k"
  have "card A \<le> card (universe k)" using A by (intro card_mono) (simp_all add: universe_def)
  also have "\<dots> \<le> nat (512 * (k + 1))" by (simp add: universe_def)
  also have "\<dots> < 2 ^ 32 - 1"
  proof -
    have "512 * (k + 1) \<le> 512 * (4194304 + 1)" using k by simp
    then show ?thesis by simp
  qed
  finally show ?thesis .
qed

lemma gnttab_items_card:
  assumes "gnttab_wf X ctx"
  shows "card (rs_items (gn_RangeSet ctx)) < 2 ^ 32 - 1"
proof (rule universe_card [of "gn_FrameIndex ctx"])
  show "gn_FrameIndex ctx \<le> 2 ^ 22" using assms by (simp add: gnttab_wf_def)
  show "rs_items (gn_RangeSet ctx) \<subseteq> universe (gn_FrameIndex ctx)"
    using assms by (auto simp: gnttab_wf_def rs.accounts_def)
qed

text \<open>
  The table grows when the set is empty. A Put into an empty set succeeds, or there is neither a spare entry nor
  memory for one and it leaves the set as it is.
\<close>

lemma put_empty:
  assumes wf: "rs_wf rs" and empty: "rs_items rs = {}" and n: "0 < n" and bound: "- (2 ^ 63) < x" "x + n < 2 ^ 63"
  shows "(\<exists>rs'. RangeSetPut mem rs x n = Some (STATUS_SUCCESS, rs') \<and> rs_wf rs' \<and> rs_items rs' = {x .. x + n - 1}) \<or>
     RangeSetPut mem rs x n = Some (STATUS_NO_MEMORY, rs)"
proof -
  have nil: "rs_List rs = []" using wf empty by (cases "rs_List rs") (auto simp: rs_wf_def rs_items_def range_ok_def)
  have s: "s64 (x + n - 1) = x + n - 1" using bound n by simp
  show ?thesis
  proof (cases "mem \<or> rs_Spare rs \<noteq> None")
    case True
    have "{x .. x + n - 1} \<inter> rs_items rs = {}" "length (rs_List rs) < 2 ^ 32 - 1" using empty nil by simp_all
    from RangeSetPut_law [OF wf n bound this, of mem] show ?thesis using True empty by simp
  next
    case False
    then show ?thesis using nil s n by (simp add: RangeSetPut_def RangeSetIsEmpty_def RangeSetAdd_def)
  qed
qed

lemma GnttabExpand_law:
  assumes wf: "gnttab_wf X ctx" and empty: "rs_items (gn_RangeSet ctx) = {}"
  shows "\<exists>st ctx'. GnttabExpand env ctx = Some (st, ctx') \<and> gnttab_wf X ctx' \<and> gn_Entry ctx' = gn_Entry ctx \<and>
     gn_MaximumFrameCount ctx' = gn_MaximumFrameCount ctx \<and>
     (if NT_SUCCESS st then gn_FrameIndex ctx' = gn_FrameIndex ctx + 1 \<and> (fresh_pages env \<longrightarrow> slot ctx' = slot ctx)
      else ctx' = ctx)"
proof -
  define k where "k = gn_FrameIndex ctx"
  define i where "i = nat (k + 1)"
  have k: "- 1 \<le> k" "k < int (gn_MaximumFrameCount ctx)" "int i = k + 1" "gn_MaximumFrameCount ctx \<le> 2 ^ 22"
    using wf by (simp_all add: gnttab_wf_def k_def i_def)
  have ns: "\<not> NT_SUCCESS STATUS_INSUFFICIENT_RESOURCES" "\<not> NT_SUCCESS STATUS_NO_MEMORY" "NT_SUCCESS STATUS_SUCCESS"
    by (simp_all add: NT_SUCCESS_def)
  have undo: "ctx\<lparr>gn_FrameIndex := k\<rparr> = ctx" by (cases ctx) (simp add: k_def)
  then have undo_max: "k + 1 = int M \<Longrightarrow> ctx\<lparr>gn_FrameIndex := int M - 1\<rparr> = ctx" for M
    by (metis add_diff_cancel_right')
  show ?thesis
  proof (cases "k + 1 < int (gn_MaximumFrameCount ctx) \<and> env_hole env i \<and> NT_SUCCESS (env_physmap env i)")
    case False
    then have "\<exists>st. \<not> NT_SUCCESS st \<and> GnttabExpand env ctx = Some (st, ctx)"
      using k(2) ns undo undo_max unfolding GnttabExpand_def Let_def k_def [symmetric]
      by (auto simp: ASSERT_def i_def [symmetric])
    then show ?thesis using wf by auto
  next
    case True
    let ?n = "frame_end i + 1 - frame_start i"
    have acc: "rs_wf (gn_RangeSet ctx)" "(\<lambda>x. int (reference_of ctx x)) ` X = universe k"
      using wf empty by (simp_all add: gnttab_wf_def k_def rs.accounts_def)
    have "512 * int (i + 1) \<le> 512 * (4194304 + 1)" using k(2-4) True by simp
    then have bound: "- (2 ^ 63) < frame_start i" "frame_start i + ?n < 2 ^ 63" by (simp_all add: frame_bounds)
    note U = universe_Suc [OF k(1), folded i_def]
    have frames: "gn_Frame ctx ! j \<noteq> None \<longleftrightarrow> int j \<le> k" if "j < gn_MaximumFrameCount ctx" for j
      using wf that by (simp add: gnttab_wf_def k_def)
    have i: "i < gn_MaximumFrameCount ctx" "length (gn_Frame ctx) = gn_MaximumFrameCount ctx"
      using True k(3) wf by (simp_all add: gnttab_wf_def)
    show ?thesis
    proof (cases "RangeSetPut (env_put env i) (gn_RangeSet ctx) (frame_start i) ?n = Some (STATUS_NO_MEMORY, gn_RangeSet ctx)")
      case fails: True
      have "gn_Frame ctx ! i = None" using frames [OF i(1)] k(3) by auto
      then have "(gn_Frame ctx)[i := None] = gn_Frame ctx" by (metis list_update_id)
      then have "ctx\<lparr>gn_Frame := (gn_Frame ctx)[i := None], gn_FrameIndex := k\<rparr> = ctx"
        by (cases ctx) (simp add: k_def)
      then have "GnttabExpand env ctx = Some (STATUS_NO_MEMORY, ctx)"
        using True fails ns unfolding GnttabExpand_def Let_def k_def [symmetric] by (auto simp: ASSERT_def i_def [symmetric])
      then show ?thesis using wf ns by auto
    next
      case works: False
      from works put_empty [OF acc(1) empty U(3) bound, of "env_put env i"] obtain rs' where
        put: "RangeSetPut (env_put env i) (gn_RangeSet ctx) (frame_start i) ?n = Some (STATUS_SUCCESS, rs')" "rs_wf rs'"
        "rs_items rs' = {frame_start i .. frame_start i + ?n - 1}" by blast
      have "rs.accounts rs' ((\<lambda>x. int (reference_of ctx x)) ` X) (universe (k + 1))"
        using put(2,3) U(1,2) unfolding acc(2) rs.accounts_def by auto
      note rs' = put(1) this
      let ?ctx = "ctx\<lparr>gn_FrameIndex := k + 1, gn_Frame := (gn_Frame ctx)[i := Some (env_page env i)], gn_RangeSet := rs'\<rparr>"
      have run: "GnttabExpand env ctx = Some (STATUS_SUCCESS, ?ctx)"
        using True rs'(1) ns unfolding GnttabExpand_def Let_def k_def [symmetric]
        by (auto simp: ASSERT_def i_def [symmetric])
      have "gnttab_wf X ?ctx"
        using wf True rs'(2) frames i k(1,3) by (auto simp: gnttab_wf_def nth_list_update)
      moreover have "slot ?ctx r = slot ctx r" if "fresh_pages env" for r
      proof (cases "r div 512 = i")
        case True
        then have "gn_Frame ctx ! i = None" using frames [OF i(1)] k(3) by auto
        then show ?thesis using True that i by (simp add: slot_def fresh_pages_def)
      qed (simp add: slot_def)
      ultimately show ?thesis using run ns by (intro exI [of _ STATUS_SUCCESS] exI [of _ ?ctx]) (auto simp: k_def)
    qed
  qed
qed

text \<open>
  What stays while entries are constructed: the table \<open>T\<close> and the references \<open>R\<close> of the entries of
  \<open>H\<close>, which stay constructed.
\<close>

definition gnttab_keeps ::
  "gnttab_env \<Rightarrow> (nat \<Rightarrow> grant_entry_v1) \<Rightarrow> nat set \<Rightarrow> (nat \<Rightarrow> nat) \<Rightarrow> nat set \<Rightarrow> XENBUS_GNTTAB_CONTEXT \<Rightarrow> bool" where
  "gnttab_keeps env T H R X ctx \<longleftrightarrow> gnttab_wf X ctx \<and> fresh_pages env \<and> slot ctx = T \<and> H \<subseteq> X \<and>
     (\<forall>x \<in> H. reference_of ctx x = R x)"

lemma GnttabEntryCtor_law:
  assumes "gnttab_wf X ctx" and "x \<notin> X"
  shows "\<exists>st ctx'. GnttabEntryCtor env x ctx = Some (st, ctx') \<and>
     gnttab_wf (if NT_SUCCESS st then insert x X else X) ctx' \<and>
     (\<forall>y. y \<noteq> x \<longrightarrow> gn_Entry ctx' y = gn_Entry ctx y) \<and> (fresh_pages env \<longrightarrow> slot ctx' = slot ctx)"
  using assms(1)
proof (induction "nat (int (gn_MaximumFrameCount ctx) - gn_FrameIndex ctx)" arbitrary: ctx rule: less_induct)
  case less
  define U where "U = universe (gn_FrameIndex ctx)"
  have acc: "rs.accounts (gn_RangeSet ctx) ((\<lambda>x. int (reference_of ctx x)) ` X) U"
    using less.prems by (simp add: gnttab_wf_def U_def)
  from rs.pop_one [OF acc] show ?case
  proof (elim disjE exE conjE)
    fix r rs'
    assume pop: "RangeSetPop (gn_RangeSet ctx) 1 = Some (STATUS_SUCCESS, Some r, rs')"
      and r: "r \<in> U - (\<lambda>x. int (reference_of ctx x)) ` X"
      and acc': "rs.accounts rs' (insert r ((\<lambda>x. int (reference_of ctx x)) ` X)) U"
    let ?e = "(gn_Entry ctx x)\<lparr>ge_Magic := True, ge_Reference := nat r\<rparr>"
    let ?ctx = "ctx\<lparr>gn_RangeSet := rs', gn_Entry := (gn_Entry ctx)(x := ?e)\<rparr>"
    have max: "gn_FrameIndex ctx < int (gn_MaximumFrameCount ctx)" "gn_MaximumFrameCount ctx \<le> 2 ^ 22"
      using less.prems by (simp_all add: gnttab_wf_def)
    have range: "0 \<le> r" "r < 2 ^ 32"
    proof -
      show "0 \<le> r" using r by (simp add: U_def universe_def)
      have "r < 512 * (4194304 + 1)" using r max by (simp add: U_def universe_def)
      then show "r < 2 ^ 32" by simp
    qed
    then have "nat (u32 r) = nat r" by simp
    then have run: "GnttabEntryCtor env x ctx = Some (STATUS_SUCCESS, ?ctx)"
      using pop by (subst GnttabEntryCtor.simps) (simp add: NT_SUCCESS_def Let_def)
    have refs: "(\<lambda>y. int (reference_of ?ctx y)) ` insert x X = insert r ((\<lambda>y. int (reference_of ctx y)) ` X)"
      using assms(2) range(1) by auto
    have "reference_of ctx y \<noteq> nat r" if "y \<in> X" for y
    proof
      assume "reference_of ctx y = nat r"
      then have "r = int (reference_of ctx y)" using range(1) by simp
      then show False using r that by blast
    qed
    moreover have same: "reference_of ?ctx y = reference_of ctx y" if "y \<in> X" for y using that assms(2) by auto
    moreover have "inj_on (reference_of ctx) X" using less.prems by (simp add: gnttab_wf_def)
    moreover have "reference_of ?ctx x = nat r" by simp
    ultimately have "inj_on (reference_of ?ctx) (insert x X)"
      unfolding inj_on_def by (metis insert_iff)
    then have "gnttab_wf (insert x X) ?ctx"
      using less.prems acc' refs unfolding gnttab_wf_def U_def by simp
    moreover have "slot ?ctx = slot ctx" by (simp add: slot_def fun_eq_iff)
    moreover have "NT_SUCCESS STATUS_SUCCESS" by (simp add: NT_SUCCESS_def)
    ultimately show ?thesis using run by (intro exI [of _ STATUS_SUCCESS] exI [of _ ?ctx]) simp
  next
    assume pop: "RangeSetPop (gn_RangeSet ctx) 1 = Some (STATUS_INSUFFICIENT_RESOURCES, None, gn_RangeSet ctx)"
      and used: "(\<lambda>x. int (reference_of ctx x)) ` X = U"
    have "rs_items (gn_RangeSet ctx) = {}" using acc used by (auto simp: rs.accounts_def)
    from GnttabExpand_law [OF less.prems this, of env] obtain st ctx1 where
      e: "GnttabExpand env ctx = Some (st, ctx1)" "gnttab_wf X ctx1" "gn_Entry ctx1 = gn_Entry ctx"
      "gn_MaximumFrameCount ctx1 = gn_MaximumFrameCount ctx"
      "if NT_SUCCESS st then gn_FrameIndex ctx1 = gn_FrameIndex ctx + 1 \<and> (fresh_pages env \<longrightarrow> slot ctx1 = slot ctx)
       else ctx1 = ctx" by (elim exE conjE)
    have run: "GnttabEntryCtor env x ctx =
        (if NT_SUCCESS st then GnttabEntryCtor env x ctx1 else Some (st, ctx1))"
      using pop e(1) by (subst GnttabEntryCtor.simps) (simp add: NT_SUCCESS_def Let_def)
    show ?thesis
    proof (cases "NT_SUCCESS st")
      case True
      have "gn_FrameIndex ctx < int (gn_MaximumFrameCount ctx)" using less.prems by (simp add: gnttab_wf_def)
      then have "nat (int (gn_MaximumFrameCount ctx1) - gn_FrameIndex ctx1) <
          nat (int (gn_MaximumFrameCount ctx) - gn_FrameIndex ctx)" using True e(4,5) by simp
      from less.hyps [OF this e(2)] show ?thesis using True run e(3,5) by auto
    next
      case False
      then show ?thesis using run e less.prems by auto
    qed
  qed
qed

lemma GnttabEntryDtor_law:
  assumes wf: "gnttab_wf X ctx" and x: "x \<in> X"
  shows "\<exists>ctx'. GnttabEntryDtor True x ctx = Some ctx' \<and> gnttab_wf (X - {x}) ctx' \<and> gn_Entry ctx' = gn_Entry ctx \<and>
     slot ctx' = slot ctx"
proof -
  let ?r = "int (reference_of ctx x)"
  have acc: "rs.accounts (gn_RangeSet ctx) ((\<lambda>x. int (reference_of ctx x)) ` X) (universe (gn_FrameIndex ctx))"
    and inj: "inj_on (reference_of ctx) X" using wf by (simp_all add: gnttab_wf_def)
  have "?r \<in> universe (gn_FrameIndex ctx)" using acc x by (auto simp: rs.accounts_def)
  then have "?r < 512 * (4194304 + 1)" using wf by (simp add: universe_def gnttab_wf_def)
  then have bound: "- (2 ^ 63) < ?r" "?r + 1 < 2 ^ 63" by simp_all
  from rs.put_one [OF acc _ bound gnttab_items_card [OF wf]] x obtain rs' where
    rs': "RangeSetPut True (gn_RangeSet ctx) ?r 1 = Some (STATUS_SUCCESS, rs')"
    "rs.accounts rs' ((\<lambda>x. int (reference_of ctx x)) ` X - {?r}) (universe (gn_FrameIndex ctx))" by blast
  have "(\<lambda>x. int (reference_of ctx x)) ` X - {?r} = (\<lambda>x. int (reference_of ctx x)) ` (X - {x})"
    using inj x by (auto simp: inj_on_def)
  then have "gnttab_wf (X - {x}) (ctx\<lparr>gn_RangeSet := rs'\<rparr>)"
    using wf rs'(2) inj by (auto simp: gnttab_wf_def intro: inj_on_subset)
  then show ?thesis using rs'(1)
    by (intro exI [of _ "ctx\<lparr>gn_RangeSet := rs'\<rparr>"]) (simp add: GnttabEntryDtor_def ASSERT_def NT_SUCCESS_def slot_def fun_eq_iff)
qed

text \<open>
  The cache's client locale on the constructor and destructor: any sequence of gets and puts hands
  out distinct entries with distinct references.
\<close>

interpretation grants: slab_client gnttab_wf "GnttabEntryCtor env" "GnttabEntryDtor True" for env
proof
  show "ctor_ok gnttab_wf (GnttabEntryCtor env)"
    using GnttabEntryCtor_law unfolding ctor_ok_def by blast
  show "dtor_ok gnttab_wf (GnttabEntryDtor True)"
    using GnttabEntryDtor_law unfolding dtor_ok_def by blast
qed

lemma gnttab_keeps_ctor: "ctor_ok (gnttab_keeps env T H R) (GnttabEntryCtor env)"
  unfolding ctor_ok_def
proof (intro allI impI)
  fix X x ctx
  assume k: "gnttab_keeps env T H R X ctx" and x: "x \<notin> X"
  then have "gnttab_wf X ctx" by (simp add: gnttab_keeps_def)
  from GnttabEntryCtor_law [OF this x, of env] obtain st ctx' where
    c: "GnttabEntryCtor env x ctx = Some (st, ctx')" "gnttab_wf (if NT_SUCCESS st then insert x X else X) ctx'"
    "\<forall>y. y \<noteq> x \<longrightarrow> gn_Entry ctx' y = gn_Entry ctx y" "fresh_pages env \<longrightarrow> slot ctx' = slot ctx" by (elim exE conjE)
  have "\<forall>y \<in> H. y \<noteq> x" using k x by (auto simp: gnttab_keeps_def)
  then have "gnttab_keeps env T H R (if NT_SUCCESS st then insert x X else X) ctx'"
    using k c by (auto simp: gnttab_keeps_def)
  with c(1) show "\<exists>st ctx'. GnttabEntryCtor env x ctx = Some (st, ctx') \<and>
      gnttab_keeps env T H R (if NT_SUCCESS st then insert x X else X) ctx'" by blast
qed

section \<open>The table and the entries that are held\<close>

definition permitted :: "XENBUS_GNTTAB_CONTEXT \<Rightarrow> nat \<Rightarrow> bool" where
  "permitted ctx r \<longleftrightarrow> gr_flags (slot ctx r) AND GTF_permit_access \<noteq> 0"

text \<open>The invariant of a client's cache with the table: exactly the references of held entries are permitted.\<close>

definition grants_wf :: "gnttab_env \<Rightarrow> XENBUS_CACHE \<times> XENBUS_GNTTAB_CONTEXT \<Rightarrow> bool" where
  "grants_wf env s \<longleftrightarrow> cache_wf (fst s) \<and>
     gnttab_wf (constructed (cache_Size (fst s)) (cache_SlabList (fst s))) (snd s) \<and> fresh_pages env \<and>
     (\<forall>r. permitted (snd s) r \<longleftrightarrow> r \<in> reference_of (snd s) ` held (fst s))"

lemma held_constructed:
  assumes "cache_wf c"
  shows "held c \<subseteq> constructed (cache_Size c) (cache_SlabList c)"
proof -
  have "allocated_in (cache_Size c) s \<subseteq> constructed_in (cache_Size c) s" if "s \<in> set (cache_SlabList c)" for s
    using assms that by (auto simp: cache_wf_def lists_wf_def slabs_wf_def slab_wf_def allocated_in_def constructed_in_def)
  then show ?thesis by (fastforce simp: held_def allocated_def constructed_def)
qed

lemma zero_grant_flags [simp]: "gr_flags zero_grant = 0"
  by (simp add: zero_grant_def)

lemma slot_frame:
  assumes wf: "gnttab_wf X ctx" and r: "int r < 512 * (gn_FrameIndex ctx + 1)"
  obtains f where "gn_Frame ctx ! (r div 512) = Some f" "r div 512 < gn_MaximumFrameCount ctx"
    "r div 512 < length (gn_Frame ctx)"
proof -
  have "q \<le> k" if "R < 512 * (k + 1)" "512 * q + m = R" "0 \<le> m" for q m k R :: int using that by simp
  from this [OF r, of "int r div 512" "int r mod 512"] have i: "int (r div 512) \<le> gn_FrameIndex ctx"
    by (simp add: zdiv_int)
  then have "r div 512 < gn_MaximumFrameCount ctx" "r div 512 < length (gn_Frame ctx)"
    using wf by (auto simp: gnttab_wf_def)
  with i wf that show thesis unfolding gnttab_wf_def by blast
qed

lemma write_slot_law:
  assumes wf: "gnttab_wf X ctx" and r: "int r < 512 * (gn_FrameIndex ctx + 1)"
  shows "\<exists>ctx'. write_slot r g ctx = Some ctx' \<and> gnttab_wf X ctx' \<and> slot ctx' = (slot ctx)(r := g) \<and>
     gn_Entry ctx' = gn_Entry ctx \<and> gn_FrameIndex ctx' = gn_FrameIndex ctx"
proof -
  from slot_frame [OF wf r] obtain f where f: "gn_Frame ctx ! (r div 512) = Some f" and
    lt: "r div 512 < gn_MaximumFrameCount ctx" "r div 512 < length (gn_Frame ctx)" .
  let ?ctx = "ctx\<lparr>gn_Frame := (gn_Frame ctx)[r div 512 := Some (f(r mod 512 := g))]\<rparr>"
  have "slot ?ctx q = ((slot ctx)(r := g)) q" for q
  proof (cases "q div 512 = r div 512")
    case True
    then have "q = r \<longleftrightarrow> q mod 512 = r mod 512" by (metis div_mult_mod_eq)
    then show ?thesis using True lt f by (simp add: slot_def)
  next
    case False
    then show ?thesis using lt by (auto simp: slot_def)
  qed
  moreover have "gnttab_wf X ?ctx" using wf lt f by (auto simp: gnttab_wf_def nth_list_update)
  ultimately show ?thesis using f by (intro exI [of _ ?ctx]) (auto simp: write_slot_def gn_consts)
qed

lemma entry_update_wf:
  assumes "gnttab_wf X ctx"
  shows "gnttab_wf X (ctx\<lparr>gn_Entry := (gn_Entry ctx)(x := (gn_Entry ctx x)\<lparr>ge_Entry := g\<rparr>)\<rparr>)"
    and "reference_of (ctx\<lparr>gn_Entry := (gn_Entry ctx)(x := (gn_Entry ctx x)\<lparr>ge_Entry := g\<rparr>)\<rparr>) = reference_of ctx"
    and "slot (ctx\<lparr>gn_Entry := (gn_Entry ctx)(x := (gn_Entry ctx x)\<lparr>ge_Entry := g\<rparr>)\<rparr>) = slot ctx"
proof -
  let ?ctx = "ctx\<lparr>gn_Entry := (gn_Entry ctx)(x := (gn_Entry ctx x)\<lparr>ge_Entry := g\<rparr>)\<rparr>"
  show refs: "reference_of ?ctx = reference_of ctx" by (simp add: fun_eq_iff)
  have img: "(\<lambda>y. int (reference_of ?ctx y)) ` X = (\<lambda>y. int (reference_of ctx y)) ` X" by (rule image_cong) auto
  have magic: "(\<forall>y \<in> X. ge_Magic (gn_Entry ?ctx y)) = (\<forall>y \<in> X. ge_Magic (gn_Entry ctx y))" by auto
  show "gnttab_wf X ?ctx" using assms unfolding gnttab_wf_def refs img magic by simp
  show "slot ?ctx = slot ctx" by (simp add: slot_def fun_eq_iff)
qed

lemma reference_in_table:
  assumes "gnttab_wf X ctx" and "x \<in> X"
  shows "32 \<le> reference_of ctx x" "int (reference_of ctx x) < 512 * (gn_FrameIndex ctx + 1)"
    "reference_ok ctx (reference_of ctx x)"
proof -
  have "int (reference_of ctx x) \<in> universe (gn_FrameIndex ctx)"
    using assms by (auto simp: gnttab_wf_def rs.accounts_def)
  then show "32 \<le> reference_of ctx x" "int (reference_of ctx x) < 512 * (gn_FrameIndex ctx + 1)"
    by (simp_all add: universe_def)
  then show "reference_ok ctx (reference_of ctx x)" by (simp add: reference_ok_def gn_consts)
qed

lemma permit_flag: "(w OR GTF_permit_access) AND GTF_permit_access \<noteq> 0" for w :: "16 word"
  by (simp add: GTF_permit_access_def bit.conj_disj_distrib2)

lemma GnttabPermitForeignAccess_law:
  assumes wf: "grants_wf env (c, ctx)" and cpu: "cpu < cache_MagazineCount c"
    and room: "cache_Count c + slab_objects (cache_Size c) < 2 ^ 31" and mem: "mem_ok mem (cache_SlabList c)"
    and Pfn: "Pfn < 2 ^ 32"
    and flags_def: "flags = (if ReadOnly then GTF_readonly else 0) OR GTF_permit_access"
  shows "\<exists>st x c' ctx'. GnttabPermitForeignAccess env mem cpu Domid Pfn ReadOnly (c, ctx) = Some (st, x, c', ctx') \<and>
     grants_wf env (c', ctx') \<and> (\<forall>y \<in> held c. reference_of ctx' y = reference_of ctx y) \<and>
     (if NT_SUCCESS st then x \<notin> held c \<and> held c' = insert x (held c) \<and> 32 \<le> reference_of ctx' x \<and>
        \<not> permitted ctx (reference_of ctx' x) \<and>
        slot ctx' = (slot ctx)(reference_of ctx' x := \<lparr>gr_flags = flags, gr_domid = Domid, gr_frame = Pfn\<rparr>)
      else held c' = held c \<and> slot ctx' = slot ctx)"
proof -
  let ?X = "constructed (cache_Size c) (cache_SlabList c)"
  have c: "cache_wf c" and gn: "gnttab_wf ?X ctx" and fresh: "fresh_pages env"
    and perm: "\<And>r. permitted ctx r \<longleftrightarrow> r \<in> reference_of ctx ` held c"
    using wf by (simp_all add: grants_wf_def)
  have "gnttab_keeps env (slot ctx) (held c) (reference_of ctx) ?X ctx"
    using gn fresh held_constructed [OF c] by (simp add: gnttab_keeps_def)
  from CacheGet_law [OF c cpu gnttab_keeps_ctor this room mem] obtain x c' ctx1 where
    get: "CacheGet (GnttabEntryCtor env) mem cpu c ctx = Some (x, c', ctx1)" and c': "cache_wf c'" and
    keeps: "gnttab_keeps env (slot ctx) (held c) (reference_of ctx) (constructed (cache_Size c') (cache_SlabList c')) ctx1" and
    x: "if x = 0 then held c' = held c else x \<notin> held c \<and> held c' = insert x (held c)"
    by (elim exE conjE)
  let ?X' = "constructed (cache_Size c') (cache_SlabList c')"
  have gn1: "gnttab_wf ?X' ctx1" and slot1: "slot ctx1 = slot ctx" and sub: "held c \<subseteq> ?X'"
    and refs1: "\<forall>y \<in> held c. reference_of ctx1 y = reference_of ctx y" using keeps by (simp_all add: gnttab_keeps_def)
  have imgs: "reference_of ctx1 ` held c = reference_of ctx ` held c" using refs1 by (intro image_cong) auto
  have ns: "\<not> NT_SUCCESS STATUS_INSUFFICIENT_RESOURCES" "NT_SUCCESS STATUS_SUCCESS" by (simp_all add: NT_SUCCESS_def)
  show ?thesis
  proof (cases "x = 0")
    case True
    then have "grants_wf env (c', ctx1)"
      using c' gn1 fresh perm slot1 x imgs by (simp add: grants_wf_def permitted_def)
    then show ?thesis using get True x slot1 refs1 ns
      by (intro exI [of _ STATUS_INSUFFICIENT_RESOURCES] exI [of _ x] exI [of _ c'] exI [of _ ctx1])
        (simp add: GnttabPermitForeignAccess_def)
  next
    case False
    let ?r = "reference_of ctx1 x"
    let ?g = "\<lparr>gr_flags = (if ReadOnly then GTF_readonly else 0), gr_domid = Domid, gr_frame = Pfn\<rparr>"
    let ?ctx2 = "ctx1\<lparr>gn_Entry := (gn_Entry ctx1)(x := (gn_Entry ctx1 x)\<lparr>ge_Entry := ?g\<rparr>)\<rparr>"
    have held: "x \<notin> held c" "held c' = insert x (held c)" using x False by simp_all
    have xX: "x \<in> ?X'" using held_constructed [OF c'] held by auto
    note r = reference_in_table [OF gn1 xX]
    note upd = entry_update_wf [OF gn1, of x ?g]
    have inj: "?r \<notin> reference_of ctx1 ` held c"
    proof
      assume "?r \<in> reference_of ctx1 ` held c"
      then obtain y where y: "y \<in> held c" "?r = reference_of ctx1 y" by blast
      have "inj_on (reference_of ctx1) ?X'" using gn1 by (simp add: gnttab_wf_def)
      from inj_onD [OF this y(2) xX] y(1) sub held(1) show False by blast
    qed
    have "int ?r < 512 * (gn_FrameIndex ?ctx2 + 1)" using r(2) by simp
    from write_slot_law [OF upd(1) this, of ?g] obtain ctx3 where
      w3: "write_slot ?r ?g ?ctx2 = Some ctx3" "gnttab_wf ?X' ctx3" "slot ctx3 = (slot ?ctx2)(?r := ?g)"
        "gn_Entry ctx3 = gn_Entry ?ctx2" "gn_FrameIndex ctx3 = gn_FrameIndex ?ctx2" by (elim exE conjE)
    have "int ?r < 512 * (gn_FrameIndex ctx3 + 1)" using r(2) w3(5) by simp
    from write_slot_law [OF w3(2) this, of "?g\<lparr>gr_flags := gr_flags ?g OR GTF_permit_access\<rparr>"] obtain ctx4 where
      w4: "write_slot ?r (?g\<lparr>gr_flags := gr_flags ?g OR GTF_permit_access\<rparr>) ctx3 = Some ctx4" "gnttab_wf ?X' ctx4"
        "slot ctx4 = (slot ctx3)(?r := ?g\<lparr>gr_flags := gr_flags ?g OR GTF_permit_access\<rparr>)"
        "gn_Entry ctx4 = gn_Entry ctx3" by (elim exE conjE)
    have slot4: "slot ctx4 = (slot ctx)(?r := \<lparr>gr_flags = flags, gr_domid = Domid, gr_frame = Pfn\<rparr>)"
      using w4(3) w3(3) upd(3) slot1 by (simp add: flags_def)
    have refs4: "reference_of ctx4 = reference_of ctx1" using w4(4) w3(4) upd(2) by simp
    have run: "GnttabPermitForeignAccess env mem cpu Domid Pfn ReadOnly (c, ctx) = Some (STATUS_SUCCESS, x, c', ctx4)"
      using get False r(3) Pfn w3(1) w4(1)
      by (simp add: GnttabPermitForeignAccess_def ASSERT_def Let_def)
    have perm4: "permitted ctx4 q \<longleftrightarrow> q \<in> reference_of ctx4 ` held c'" for q
    proof -
      have "reference_of ctx4 ` held c' = insert ?r (reference_of ctx ` held c)"
        by (simp only: refs4 held(2) image_insert imgs)
      then show ?thesis using perm [of q] permit_flag by (simp add: permitted_def slot4 flags_def)
    qed
    have "\<not> permitted ctx ?r" using perm inj imgs by simp
    moreover have "reference_of ctx4 y = reference_of ctx1 y" for y using refs4 by (simp only: fun_eq_iff)
    ultimately show ?thesis using run c' w4(2) fresh perm4 held r(1) slot4 refs4 refs1 ns(2)
      by (intro exI [of _ STATUS_SUCCESS] exI [of _ x] exI [of _ c'] exI [of _ ctx4]) (simp add: grants_wf_def)
  qed
qed

section \<open>Revoking\<close>

text \<open>Attempt \<open>k\<close> succeeds when the flags at the exchange are those read, with nobody reading or writing.\<close>

definition revoke_hit :: "(nat \<Rightarrow> 16 word \<times> 16 word) \<Rightarrow> nat \<Rightarrow> bool" where
  "revoke_hit seen k \<longleftrightarrow> snd (seen k) = fst (seen k) AND NOT (GTF_reading OR GTF_writing)"

lemma revoke_loop_hit:
  "a \<le> k \<Longrightarrow> k < 100 \<Longrightarrow> revoke_hit seen k \<Longrightarrow> \<forall>j. a \<le> j \<and> j < k \<longrightarrow> \<not> revoke_hit seen j \<Longrightarrow>
     \<exists>New. revoke_loop seen a = (k + 1, Some New)"
proof (induction "k - a" arbitrary: a)
  case 0
  then show ?case by (subst revoke_loop.simps) (simp add: revoke_hit_def Let_def)
next
  case (Suc n)
  then have "\<not> revoke_hit seen a" "a < 100" "n = k - Suc a" "Suc a \<le> k" by simp_all
  with Suc show ?case by (subst revoke_loop.simps) (simp add: revoke_hit_def Let_def)
qed

lemma revoke_loop_miss:
  "a \<le> 100 \<Longrightarrow> \<forall>j. a \<le> j \<and> j < 100 \<longrightarrow> \<not> revoke_hit seen j \<Longrightarrow> revoke_loop seen a = (101, None)"
proof (induction "100 - a" arbitrary: a)
  case 0
  then show ?case by (subst revoke_loop.simps) simp
next
  case (Suc n)
  then have "\<not> revoke_hit seen a" "a < 100" "n = 100 - Suc a" by simp_all
  with Suc show ?case by (subst revoke_loop.simps) (simp add: revoke_hit_def Let_def)
qed

lemma read_slot_law:
  assumes wf: "gnttab_wf X ctx" and r: "int r < 512 * (gn_FrameIndex ctx + 1)"
  shows "read_slot ctx r = Some (slot ctx r)"
proof -
  from slot_frame [OF wf r] obtain f where "gn_Frame ctx ! (r div 512) = Some f" "r div 512 < length (gn_Frame ctx)" .
  then show ?thesis by (simp add: read_slot_def slot_def gn_consts)
qed

text \<open>Every outcome of the loop that the code takes for success clears the entry and puts it back.\<close>

lemma GnttabRevokeForeignAccess_law:
  assumes wf: "grants_wf env (c, ctx)" and cpu: "cpu < cache_MagazineCount c" and x: "x \<in> held c"
    and loop: "revoke_loop seen 0 = (Attempt, flags)" and ne: "Attempt \<noteq> 100"
  shows "\<exists>c' ctx'. GnttabRevokeForeignAccess seen cpu x (c, ctx) = Some (STATUS_SUCCESS, c', ctx') \<and>
     grants_wf env (c', ctx') \<and> held c' = held c - {x} \<and>
     slot ctx' = (slot ctx)(reference_of ctx x := zero_grant) \<and> reference_of ctx' = reference_of ctx"
proof -
  let ?X = "constructed (cache_Size c) (cache_SlabList c)" and ?r = "reference_of ctx x"
  have c: "cache_wf c" and gn: "gnttab_wf ?X ctx" and fresh: "fresh_pages env"
    and perm: "\<And>r. permitted ctx r \<longleftrightarrow> r \<in> reference_of ctx ` held c"
    using wf by (simp_all add: grants_wf_def)
  have xX: "x \<in> ?X" using held_constructed [OF c] x by blast
  note r = reference_in_table [OF gn xX]
  have magic: "ge_Magic (gn_Entry ctx x)" using gn xX by (simp add: gnttab_wf_def)
  have "\<exists>ctx1. (case flags of None \<Rightarrow> Some ctx | Some New \<Rightarrow> write_slot ?r ((slot ctx ?r)\<lparr>gr_flags := New\<rparr>) ctx) = Some ctx1 \<and>
      gnttab_wf ?X ctx1 \<and> (\<forall>g. (slot ctx1)(?r := g) = (slot ctx)(?r := g)) \<and> gn_Entry ctx1 = gn_Entry ctx \<and>
      gn_FrameIndex ctx1 = gn_FrameIndex ctx"
  proof (cases flags)
    case (Some New)
    with write_slot_law [OF gn r(2), of "(slot ctx ?r)\<lparr>gr_flags := New\<rparr>"] show ?thesis by auto
  qed (use gn in simp)
  then obtain ctx1 where c1: "(case flags of None \<Rightarrow> Some ctx | Some New \<Rightarrow> write_slot ?r ((slot ctx ?r)\<lparr>gr_flags := New\<rparr>) ctx) = Some ctx1"
    "gnttab_wf ?X ctx1" "\<forall>g. (slot ctx1)(?r := g) = (slot ctx)(?r := g)" "gn_Entry ctx1 = gn_Entry ctx"
    "gn_FrameIndex ctx1 = gn_FrameIndex ctx" by (elim exE conjE)
  have "int ?r < 512 * (gn_FrameIndex ctx1 + 1)" using r(2) c1(5) by simp
  from write_slot_law [OF c1(2) this, of zero_grant] obtain ctx2 where
    c2: "write_slot ?r zero_grant ctx1 = Some ctx2" "gnttab_wf ?X ctx2" "slot ctx2 = (slot ctx1)(?r := zero_grant)"
      "gn_Entry ctx2 = gn_Entry ctx1" by (elim exE conjE)
  let ?ctx = "ctx2\<lparr>gn_Entry := (gn_Entry ctx2)(x := (gn_Entry ctx2 x)\<lparr>ge_Entry := zero_grant\<rparr>)\<rparr>"
  note upd = entry_update_wf [OF c2(2), of x zero_grant]
  have refs: "reference_of ?ctx = reference_of ctx" using upd(2) c2(4) c1(4) by simp
  have slots: "slot ?ctx = (slot ctx)(?r := zero_grant)" using upd(3) c2(3) c1(3) by simp
  from CachePut_law [OF c cpu x] obtain c' where
    c': "CachePut cpu c x = Some c'" "cache_wf c'" "held c' = held c - {x}"
      "constructed (cache_Size c') (cache_SlabList c') = ?X" by (elim exE conjE)
  have run: "GnttabRevokeForeignAccess seen cpu x (c, ctx) = Some (STATUS_SUCCESS, c', ?ctx)"
    using magic r(3) read_slot_law [OF gn r(2)] c1(1) c2(1) c'(1) ne loop
    by (simp add: GnttabRevokeForeignAccess_def ASSERT_def Let_def)
  have "permitted ?ctx q \<longleftrightarrow> q \<in> reference_of ?ctx ` held c'" for q
  proof -
    have "reference_of ctx ` (held c - {x}) = reference_of ctx ` held c - {?r}"
      using gn held_constructed [OF c] xX by (auto simp: gnttab_wf_def inj_on_def)
    then have "reference_of ?ctx ` held c' = reference_of ctx ` held c - {?r}" by (simp only: refs c'(3))
    then show ?thesis using perm [of q] by (simp add: permitted_def slots)
  qed
  then show ?thesis using run c' upd(1) fresh slots refs
    by (intro exI [of _ c'] exI [of _ ?ctx]) (simp add: grants_wf_def)
qed

section \<open>Shrinking\<close>

lemma contract_frames_index:
  "contract_frames is (c\<lparr>gn_FrameIndex := j\<rparr>) = map_option (\<lambda>d. d\<lparr>gn_FrameIndex := j\<rparr>) (contract_frames is c)"
proof (induction "is" arbitrary: c)
  case (Cons i "is")
  have swap: "c\<lparr>gn_FrameIndex := j, gn_RangeSet := r, gn_Frame := f\<rparr> = c\<lparr>gn_RangeSet := r, gn_Frame := f, gn_FrameIndex := j\<rparr>"
    for r f by (cases c) simp
  show ?case
    by (cases "RangeSetGet True (gn_RangeSet c) (frame_start i) (frame_end i + 1 - frame_start i)")
      (auto simp: ASSERT_def swap Cons.IH)
qed simp

lemma contract_frames_law:
  "gnttab_wf {} ctx \<Longrightarrow> gn_FrameIndex ctx = int n - 1 \<Longrightarrow>
     \<exists>ctx'. contract_frames (rev [0 ..< n]) ctx = Some ctx' \<and> rs_wf (gn_RangeSet ctx') \<and> rs_items (gn_RangeSet ctx') = {} \<and>
       (\<forall>i < gn_MaximumFrameCount ctx. gn_Frame ctx' ! i = None) \<and> gn_MaximumFrameCount ctx' = gn_MaximumFrameCount ctx"
proof (induction n arbitrary: ctx)
  case 0
  then have "rs.accounts (gn_RangeSet ctx) {} (universe (- 1))"
    "\<forall>i < gn_MaximumFrameCount ctx. gn_Frame ctx ! i \<noteq> None \<longleftrightarrow> int i \<le> - 1" by (simp_all add: gnttab_wf_def)
  then show ?case by (auto simp: rs.accounts_def universe_def)
next
  case (Suc n)
  let ?k = "int n - 1" and ?m = "frame_end n + 1 - frame_start n"
  have wf: "gnttab_wf {} ctx" and k: "gn_FrameIndex ctx = ?k + 1" using Suc.prems by simp_all
  have acc: "rs.accounts (gn_RangeSet ctx) {} (universe (?k + 1))" using wf k by (simp add: gnttab_wf_def)
  have nat: "nat (?k + 1) = n" by simp
  note U = universe_Suc [of ?k, unfolded nat]
  have split: "universe (?k + 1) = universe ?k \<union> {frame_start n .. frame_start n + ?m - 1}" "0 < ?m"
    "universe ?k \<inter> {frame_start n .. frame_end n} = {}" using U by simp_all
  then have "{frame_start n .. frame_start n + ?m - 1} \<subseteq> universe (?k + 1) - {}" by simp
  from rs.get_free [OF acc split(2) this gnttab_items_card [OF wf]] obtain rs' where
    rs': "RangeSetGet True (gn_RangeSet ctx) (frame_start n) ?m = Some (STATUS_SUCCESS, rs')"
      "rs.accounts rs' {} (universe (?k + 1) - {frame_start n .. frame_start n + ?m - 1})" by blast
  have "universe (?k + 1) - {frame_start n .. frame_start n + ?m - 1} = universe ?k" using split(1,3) by auto
  with rs'(2) have acc': "rs.accounts rs' {} (universe ?k)" by simp
  let ?ctx = "ctx\<lparr>gn_RangeSet := rs', gn_Frame := (gn_Frame ctx)[n := None]\<rparr>"
  have lt: "n < gn_MaximumFrameCount ctx" "length (gn_Frame ctx) = gn_MaximumFrameCount ctx"
    using wf k by (simp_all add: gnttab_wf_def)
  have frames: "gn_Frame ctx ! i \<noteq> None \<longleftrightarrow> int i \<le> ?k + 1" if "i < gn_MaximumFrameCount ctx" for i
    using wf k that by (simp add: gnttab_wf_def)
  then have n: "gn_Frame ctx ! n \<noteq> None" using lt by simp
  define ctx2 where "ctx2 = ?ctx\<lparr>gn_FrameIndex := ?k\<rparr>"
  have wf2: "gnttab_wf {} ctx2"
    using wf acc' lt frames by (auto simp: ctx2_def gnttab_wf_def nth_list_update)
  have "gn_FrameIndex ctx2 = int n - 1" by (simp add: ctx2_def)
  from Suc.IH [OF wf2 this] obtain ctx' where IH: "contract_frames (rev [0 ..< n]) ctx2 = Some ctx'" "rs_wf (gn_RangeSet ctx')"
    "rs_items (gn_RangeSet ctx') = {}" "\<forall>i < gn_MaximumFrameCount ctx2. gn_Frame ctx' ! i = None"
    "gn_MaximumFrameCount ctx' = gn_MaximumFrameCount ctx2" by (elim exE conjE)
  from IH(1) obtain d where d: "contract_frames (rev [0 ..< n]) ?ctx = Some d" "ctx' = d\<lparr>gn_FrameIndex := ?k\<rparr>"
    by (auto simp: ctx2_def contract_frames_index)
  have "contract_frames (rev [0 ..< Suc n]) ctx = contract_frames (rev [0 ..< n]) ?ctx"
    using rs'(1) n by (simp add: ASSERT_def NT_SUCCESS_def)
  then show ?case using d IH by (auto simp: ctx2_def)
qed

lemma GnttabContract_law:
  assumes "gnttab_wf {} ctx"
  shows "\<exists>ctx'. GnttabContract ctx = Some ctx' \<and> gn_FrameIndex ctx' = - 1 \<and> rs_wf (gn_RangeSet ctx') \<and>
     rs_items (gn_RangeSet ctx') = {} \<and> (\<forall>i < gn_MaximumFrameCount ctx. gn_Frame ctx' ! i = None)"
proof -
  have "gn_FrameIndex ctx = int (nat (gn_FrameIndex ctx + 1)) - 1" using assms by (simp add: gnttab_wf_def)
  from contract_frames_law [OF assms this] show ?thesis by (auto simp: GnttabContract_def)
qed

section \<open>Foreign pages\<close>

text \<open>The handles with the addresses of their pages, from \<open>P\<close> on.\<close>

fun pages_at :: "nat list \<Rightarrow> nat \<Rightarrow> (nat \<times> nat) list" where
  "pages_at [] P = []"
| "pages_at (h # hs) P = (h, P) # pages_at hs (P + PAGE_SIZE)"

lemma pages_at_append: "pages_at (hs @ [h]) P = pages_at hs P @ [(h, P + length hs * PAGE_SIZE)]"
  by (induction hs arbitrary: P) (simp_all add: algebra_simps)

lemma pages_at_above: "(h, A) \<in> set (pages_at hs P) \<Longrightarrow> P \<le> A \<and> h \<in> set hs"
  by (induction hs P rule: pages_at.induct) (auto simp: PAGE_SIZE_def)

lemma map_pages_law:
  "map_pages m is P hs M = (st, P', hs', M') \<Longrightarrow>
     \<exists>new. hs' = hs @ new \<and> set new \<subseteq> range (snd \<circ> m) \<and> P' = P + length new * PAGE_SIZE \<and>
       M' = M \<union> set (pages_at new P) \<and> (NT_SUCCESS st \<longrightarrow> st = STATUS_SUCCESS \<and> length new = length is)"
proof (induction "is" arbitrary: P hs M)
  case (Cons i "is")
  obtain s h where m: "m i = (s, h)" by fastforce
  show ?case
  proof (cases "NT_SUCCESS s")
    case True
    then have "map_pages m is (P + PAGE_SIZE) (hs @ [h]) (insert (h, P) M) = (st, P', hs', M')" using Cons.prems m by simp
    from Cons.IH [OF this] obtain new where new:
      "hs' = (hs @ [h]) @ new" "set new \<subseteq> range (snd \<circ> m)" "P' = P + PAGE_SIZE + length new * PAGE_SIZE"
      "M' = insert (h, P) M \<union> set (pages_at new (P + PAGE_SIZE))"
      "NT_SUCCESS st \<longrightarrow> st = STATUS_SUCCESS \<and> length new = length is" by (elim exE conjE)
    have "h \<in> range (snd \<circ> m)" using m by (metis comp_apply rangeI snd_conv)
    then show ?thesis using new by (intro exI [of _ "h # new"]) auto
  next
    case False
    then show ?thesis using Cons.prems m by auto
  qed
qed auto

lemma unmap_back_law: "unmap_back (rev hs) (P + length hs * PAGE_SIZE) M = M - set (pages_at hs P)"
proof (induction hs arbitrary: M rule: rev_induct)
  case (snoc h hs)
  have "P + length (hs @ [h]) * PAGE_SIZE - PAGE_SIZE = P + length hs * PAGE_SIZE" by simp
  then have "unmap_back (rev (hs @ [h])) (P + length (hs @ [h]) * PAGE_SIZE) M =
      M - {(h, P + length hs * PAGE_SIZE)} - set (pages_at hs P)" using snoc.IH by simp
  then show ?case by (auto simp: pages_at_append)
qed simp

lemma unmap_pages_law:
  "set (pages_at hs P) \<subseteq> M \<Longrightarrow> unmap_pages hs P M = Some (M - set (pages_at hs P))"
proof (induction hs P M rule: unmap_pages.induct)
  case (2 h hs P M)
  have "(h, P) \<notin> set (pages_at hs (P + PAGE_SIZE))" using pages_at_above by (fastforce simp: PAGE_SIZE_def)
  then have "set (pages_at hs (P + PAGE_SIZE)) \<subseteq> M - {(h, P)}" using 2(2) by auto
  then show ?case using 2 by auto
qed simp

text \<open>The hypervisor gives a new mapping a handle that is not in use.\<close>

definition new_handles :: "(nat \<Rightarrow> NTSTATUS \<times> nat) \<Rightarrow> XENBUS_GNTTAB_CONTEXT \<Rightarrow> bool" where
  "new_handles m ctx \<longleftrightarrow> (\<forall>i. snd (m i) \<notin> fst ` gn_Mapped ctx)"

lemma pages_at_handles: "(h, A) \<in> set (pages_at hs P) \<Longrightarrow> h \<in> set hs"
  using pages_at_above by blast

lemma GnttabMapForeignPages_law:
  assumes T: "ht_as_map (gn_MapTable ctx) mp" "mp (word_of_nat A) = None" and handles: "new_handles m ctx"
    and bounds: "ptr < 2 ^ 64"
  shows "\<exists>st A' ctx'. GnttabMapForeignPages (Some A) (Some ptr) mem m n ctx = Some (st, A', ctx') \<and>
     (if NT_SUCCESS st then A' = A \<and>
        (\<exists>hs. length hs = n \<and> gn_Mapped ctx' = gn_Mapped ctx \<union> set (pages_at hs A) \<and>
           gn_Mapped ctx \<inter> set (pages_at hs A) = {} \<and>
           (\<exists>T'. GnttabUnmapForeignPages A ctx' = Some (STATUS_SUCCESS,
               ctx\<lparr>gn_MapTable := T', gn_MapEntry := (gn_MapEntry ctx)(ptr := None)\<rparr>) \<and> ht_as_map T' mp))
      else ctx' = ctx)"
proof -
  obtain st P' hs M where run: "map_pages m [0 ..< n] A [] (gn_Mapped ctx) = (st, P', hs, M)"
    by (metis prod_cases4)
  from map_pages_law [OF this] have r: "set hs \<subseteq> range (snd \<circ> m)" "P' = A + length hs * PAGE_SIZE"
    "M = gn_Mapped ctx \<union> set (pages_at hs A)" "NT_SUCCESS st \<longrightarrow> st = STATUS_SUCCESS \<and> length hs = n" by auto
  have new: "gn_Mapped ctx \<inter> set (pages_at hs A) = {}"
  proof (rule ccontr)
    assume "gn_Mapped ctx \<inter> set (pages_at hs A) \<noteq> {}"
    then obtain h B where "(h, B) \<in> gn_Mapped ctx" "(h, B) \<in> set (pages_at hs A)" by auto
    moreover from this(2) have "h \<in> set hs" by (rule pages_at_handles)
    ultimately have "h \<in> set hs" "(h, B) \<in> gn_Mapped ctx" by simp_all
    then show False using r(1) handles by (force simp: new_handles_def)
  qed
  have undo: "ctx\<lparr>gn_Mapped := unmap_back (rev hs) P' M\<rparr> = ctx"
  proof -
    have "unmap_back (rev hs) P' M = gn_Mapped ctx" unfolding r(2) unmap_back_law r(3) using new by auto
    then show ?thesis by (cases ctx) simp
  qed
  have ns: "\<not> NT_SUCCESS STATUS_NO_MEMORY" "NT_SUCCESS STATUS_SUCCESS" by (simp_all add: NT_SUCCESS_def)
  show ?thesis
  proof (cases "NT_SUCCESS st \<and> mem")
    case False
    have nomem: "HashTableAdd False (gn_MapTable ctx) k v = Some (STATUS_NO_MEMORY, gn_MapTable ctx)" for k v
      by (simp add: HashTableAdd_def)
    let ?s = "if NT_SUCCESS st then STATUS_NO_MEMORY else st"
    have "GnttabMapForeignPages (Some A) (Some ptr) mem m n ctx = Some (?s, 0, ctx)"
    proof (cases "NT_SUCCESS st")
      case True
      then show ?thesis using False nomem by (simp add: GnttabMapForeignPages_def run undo ns(1))
    qed (simp add: GnttabMapForeignPages_def run undo)
    moreover have "\<not> NT_SUCCESS ?s" using ns(1) by simp
    ultimately have "\<exists>s. \<not> NT_SUCCESS s \<and> GnttabMapForeignPages (Some A) (Some ptr) mem m n ctx = Some (s, 0, ctx)"
      by blast
    then show ?thesis by auto
  next
    case True
    let ?k = "word_of_nat A :: 64 word" and ?v = "word_of_nat ptr :: 64 word"
    from ht_map_add [OF T, of ?v] obtain T1 where
      T1: "HashTableAdd True (gn_MapTable ctx) ?k ?v = Some (STATUS_SUCCESS, T1)" "ht_as_map T1 (mp(?k \<mapsto> ?v))" by blast
    have "(mp(?k \<mapsto> ?v))(?k := None) = mp" using T(2) by (simp add: fun_upd_idem)
    with ht_map_rem [OF T1(2), of ?k ?v] obtain T2 where
      T2: "HashTableRemove T1 ?k = Some (STATUS_SUCCESS, T2)" "ht_as_map T2 mp" by auto
    have look: "HashTableLookup T1 ?k = Some (STATUS_SUCCESS, Some ?v)" using ht_map_look [OF T1(2), of ?k] by simp
    let ?e = "\<lparr>me_Pages = n, me_MapHandles = hs\<rparr>"
    let ?ctx = "ctx\<lparr>gn_MapTable := T1, gn_Mapped := M, gn_MapEntry := (gn_MapEntry ctx)(ptr \<mapsto> ?e)\<rparr>"
    have mapped: "GnttabMapForeignPages (Some A) (Some ptr) mem m n ctx = Some (STATUS_SUCCESS, A, ?ctx)"
      using True run T1(1) ns by (simp add: GnttabMapForeignPages_def Let_def)
    have len: "length hs = n" using r(4) True by simp
    have ptr: "unat ?v = ptr" using bounds by (simp add: unsigned_of_nat take_bit_nat_eq_self)
    have "unmap_pages hs A M = Some (gn_Mapped ctx)"
      using unmap_pages_law [of hs A M] r(3) new by auto
    then have "GnttabUnmapForeignPages A ?ctx = Some (STATUS_SUCCESS,
        ctx\<lparr>gn_MapTable := T2, gn_MapEntry := (gn_MapEntry ctx)(ptr := None)\<rparr>)"
      using look T2(1) ns ptr len by (cases ctx) (simp add: GnttabUnmapForeignPages_def)
    then show ?thesis using mapped ns len r(3) new T2(2)
      by (intro exI [of _ STATUS_SUCCESS] exI [of _ A] exI [of _ ?ctx]) auto
  qed
qed


section \<open>Acquiring and releasing\<close>

text \<open>
  Without users the context holds nothing; with users everything, the table is in order, and while
  it is the range set context's only user, the set of free references is the only set.
\<close>

definition cc_wf :: "XENBUS_CACHE_CONTEXT \<Rightarrow> bool" where
  "cc_wf c \<longleftrightarrow> 0 \<le> cc_References c \<and> cc_Debug c = (0 < cc_References c) \<and>
     cc_DebugCallback c = (0 < cc_References c) \<and> (cc_References c = 0 \<longrightarrow> cc_List c = [])"

definition gn_idle :: "XENBUS_GNTTAB_CONTEXT \<Rightarrow> bool" where
  "gn_idle ctx \<longleftrightarrow> gn_References ctx = 0 \<and> gn_MaximumFrameCount ctx = 0 \<and> gn_Frame ctx = [] \<and>
     gn_FrameIndex ctx = 0 \<and> gn_RangeSet ctx = no_RangeSet \<and> \<not> gn_Suspend ctx \<and> \<not> gn_SuspendCallbackEarly ctx \<and>
     \<not> gn_Debug ctx \<and> \<not> gn_DebugCallback ctx \<and> gn_List ctx = [] \<and>
     rsc_wf (gn_RangeSets ctx) \<and> ''gnttab'' \<notin> set (rsc_List (gn_RangeSets ctx)) \<and> cc_wf (gn_Caches ctx)"

definition gn_live :: "nat set \<Rightarrow> XENBUS_GNTTAB_CONTEXT \<Rightarrow> bool" where
  "gn_live X ctx \<longleftrightarrow> 0 < gn_References ctx \<and> gnttab_wf X ctx \<and> rs_Name (gn_RangeSet ctx) = ''gnttab'' \<and>
     gn_Suspend ctx \<and> gn_SuspendCallbackEarly ctx \<and> gn_Debug ctx \<and> gn_DebugCallback ctx \<and>
     rsc_wf (gn_RangeSets ctx) \<and> 0 < rsc_References (gn_RangeSets ctx) \<and>
     ''gnttab'' \<notin> set (remove1 ''gnttab'' (rsc_List (gn_RangeSets ctx))) \<and>
     (rsc_References (gn_RangeSets ctx) = 1 \<longrightarrow> rsc_List (gn_RangeSets ctx) = [''gnttab'']) \<and>
     cc_wf (gn_Caches ctx) \<and> 0 < cc_References (gn_Caches ctx) \<and>
     (cc_References (gn_Caches ctx) = 1 \<longrightarrow> cc_List (gn_Caches ctx) = [])"

lemma RangeSetAcquire_law:
  assumes "rsc_wf r"
  shows "\<exists>st r'. RangeSetAcquire acq reg r = Some (st, r') \<and>
     (if NT_SUCCESS st then rsc_wf r' \<and> rsc_References r' = rsc_References r + 1 \<and> rsc_List r' = rsc_List r \<and>
        RangeSetRelease r' = Some r
      else r' = r)"
  using assms by (cases r) (auto simp: RangeSetAcquire_def RangeSetRelease_def rsc_wf_def Let_def)

lemma CacheAcquire_law:
  assumes "cc_wf c"
  shows "\<exists>st c'. CacheAcquire acq reg c = Some (st, c') \<and>
     (if NT_SUCCESS st then cc_wf c' \<and> cc_References c' = cc_References c + 1 \<and> cc_List c' = cc_List c \<and>
        CacheRelease c' = Some c
      else c' = c)"
  using assms by (cases c) (auto simp: CacheAcquire_def CacheRelease_def cc_wf_def Let_def)

lemma CacheRelease_law:
  "cc_wf c \<Longrightarrow> 0 < cc_References c \<Longrightarrow> cc_References c = 1 \<longrightarrow> cc_List c = [] \<Longrightarrow>
     \<exists>c'. CacheRelease c = Some c' \<and> cc_wf c' \<and> cc_References c' = cc_References c - 1"
  by (auto simp: CacheRelease_def cc_wf_def Let_def)

lemma CacheRelease_back:
  "cc_wf c \<Longrightarrow> cc_wf c0 \<Longrightarrow> cc_References c = cc_References c0 + 1 \<Longrightarrow> cc_List c = cc_List c0 \<Longrightarrow> CacheRelease c = Some c0"
  by (cases c; cases c0) (auto simp: CacheRelease_def cc_wf_def Let_def)

text \<open>The context without the table; the operations on the table do not touch it.\<close>

definition gn_rest :: "XENBUS_GNTTAB_CONTEXT \<Rightarrow> XENBUS_GNTTAB_CONTEXT" where
  "gn_rest ctx = ctx\<lparr>gn_FrameIndex := 0, gn_Frame := [], gn_RangeSet := no_RangeSet\<rparr>"

lemma gn_rest_same [simp]:
  "gn_rest (ctx\<lparr>gn_FrameIndex := i\<rparr>) = gn_rest ctx" "gn_rest (ctx\<lparr>gn_Frame := F\<rparr>) = gn_rest ctx"
  "gn_rest (ctx\<lparr>gn_RangeSet := r\<rparr>) = gn_rest ctx"
  by (cases ctx; simp add: gn_rest_def)+

lemma gn_rest_fields:
  assumes "gn_rest c = gn_rest d"
  shows "gn_References c = gn_References d" "gn_MaximumFrameCount c = gn_MaximumFrameCount d"
    "gn_Suspend c = gn_Suspend d" "gn_SuspendCallbackEarly c = gn_SuspendCallbackEarly d"
    "gn_Debug c = gn_Debug d" "gn_DebugCallback c = gn_DebugCallback d" "gn_RangeSets c = gn_RangeSets d"
    "gn_Caches c = gn_Caches d" "gn_List c = gn_List d"
  using assms by (cases c; cases d; simp add: gn_rest_def)+

lemma GnttabExpand_frame:
  "GnttabExpand env ctx = Some (st, ctx') \<Longrightarrow> gn_rest ctx' = gn_rest ctx \<and> rs_Name (gn_RangeSet ctx') = rs_Name (gn_RangeSet ctx)"
  unfolding GnttabExpand_def Let_def ASSERT_bind
  by (auto simp: bind_eq_Some_conv split: if_splits dest!: rs_names(3))

lemma contract_frames_frame:
  "contract_frames is ctx = Some ctx' \<Longrightarrow> gn_rest ctx' = gn_rest ctx \<and> rs_Name (gn_RangeSet ctx') = rs_Name (gn_RangeSet ctx)"
proof (induction "is" arbitrary: ctx)
  case (Cons i "is")
  then obtain st rs where get: "RangeSetGet True (gn_RangeSet ctx) (frame_start i) (frame_end i + 1 - frame_start i) = Some (st, rs)"
    and rest: "contract_frames is (ctx\<lparr>gn_RangeSet := rs, gn_Frame := (gn_Frame ctx)[i := None]\<rparr>) = Some ctx'"
    by (auto simp: bind_eq_Some_conv split: if_splits)
  from Cons.IH [OF rest] RangeSetGet_name [OF get] show ?case by simp
qed simp

lemma gn_drop_table_law:
  assumes "gnttab_wf {} ctx" and "rs_Name (gn_RangeSet ctx) = ''gnttab''"
  shows "\<exists>ctx'. gn_drop_table ctx = Some ctx' \<and> gn_RangeSet ctx' = no_RangeSet \<and> gn_rest ctx' = gn_rest
     (ctx\<lparr>gn_RangeSets := (gn_RangeSets ctx)\<lparr>rsc_List := remove1 ''gnttab'' (rsc_List (gn_RangeSets ctx))\<rparr>\<rparr>)"
proof -
  from GnttabContract_law [OF assms(1)] obtain c where c: "GnttabContract ctx = Some c"
    "rs_wf (gn_RangeSet c)" "rs_items (gn_RangeSet c) = {}" "gn_FrameIndex c = - 1" by blast
  then obtain d where d: "contract_frames (rev [0 ..< nat (gn_FrameIndex ctx + 1)]) ctx = Some d" "c = d\<lparr>gn_FrameIndex := - 1\<rparr>"
    by (auto simp: GnttabContract_def bind_eq_Some_conv)
  have rest: "gn_rest c = gn_rest ctx" "rs_Name (gn_RangeSet c) = ''gnttab''"
    using contract_frames_frame [OF d(1)] assms(2) d(2) by simp_all
  note sets = gn_rest_fields(7) [OF rest(1)]
  let ?r = "(gn_RangeSets ctx)\<lparr>rsc_List := remove1 ''gnttab'' (rsc_List (gn_RangeSets ctx))\<rparr>"
  have "gn_drop_table ctx = Some (c\<lparr>gn_RangeSets := ?r, gn_RangeSet := no_RangeSet\<rparr>)"
    using c RangeSetDestroy_wf [OF c(2,3)] rest(2) sets by (simp add: gn_drop_table_def)
  moreover have "gn_rest (c\<lparr>gn_RangeSets := ?r\<rparr>) = gn_rest (ctx\<lparr>gn_RangeSets := ?r\<rparr>)"
    using rest(1) by (cases c; cases ctx) (simp add: gn_rest_def)
  ultimately show ?thesis by simp
qed


lemma gnttab_wf_frame [simp]:
  "gnttab_wf X (ctx\<lparr>gn_Caches := c\<rparr>) = gnttab_wf X ctx" "gnttab_wf X (ctx\<lparr>gn_Suspend := b\<rparr>) = gnttab_wf X ctx"
  "gnttab_wf X (ctx\<lparr>gn_SuspendCallbackEarly := b\<rparr>) = gnttab_wf X ctx" "gnttab_wf X (ctx\<lparr>gn_Debug := b\<rparr>) = gnttab_wf X ctx"
  "gnttab_wf X (ctx\<lparr>gn_DebugCallback := b\<rparr>) = gnttab_wf X ctx" "gnttab_wf X (ctx\<lparr>gn_References := i\<rparr>) = gnttab_wf X ctx"
  by (simp_all add: gnttab_wf_def)

lemma gn_fail5_law:
  assumes "gnttab_wf {} ctx" and "rs_Name (gn_RangeSet ctx) = ''gnttab''" and "gn_References ctx = 1"
    and r: "RangeSetRelease ((gn_RangeSets ctx)\<lparr>rsc_List := remove1 ''gnttab'' (rsc_List (gn_RangeSets ctx))\<rparr>) = Some r"
  shows "gn_fail5 st ctx = Some (st, (gn_rest ctx)\<lparr>gn_RangeSets := r, gn_MaximumFrameCount := 0, gn_References := 0\<rparr>)"
proof -
  from gn_drop_table_law [OF assms(1,2)] obtain c where c: "gn_drop_table ctx = Some c" "gn_RangeSet c = no_RangeSet"
    "gn_rest c = gn_rest (ctx\<lparr>gn_RangeSets := (gn_RangeSets ctx)\<lparr>rsc_List := remove1 ''gnttab'' (rsc_List (gn_RangeSets ctx))\<rparr>\<rparr>)"
    by blast
  note f = gn_rest_fields [OF c(3)]
  have "c\<lparr>gn_RangeSets := r, gn_FrameIndex := 0, gn_Frame := [], gn_MaximumFrameCount := 0, gn_References := 0\<rparr> =
      (gn_rest c)\<lparr>gn_RangeSets := r, gn_MaximumFrameCount := 0, gn_References := 0\<rparr>"
    using c(2) by (cases c) (simp add: gn_rest_def)
  also have "\<dots> = (gn_rest ctx)\<lparr>gn_RangeSets := r, gn_MaximumFrameCount := 0, gn_References := 0\<rparr>"
    unfolding c(3) by (cases ctx) (simp add: gn_rest_def)
  finally show ?thesis using c(1) r f(1,7) assms(3)
    by (simp add: gn_fail5_def gn_fail4_def gn_fail3_def gn_fail2_def gn_fail1_def)
qed

lemma gn_fail6_law:
  assumes "gnttab_wf {} ctx" and "rs_Name (gn_RangeSet ctx) = ''gnttab''" and "gn_References ctx = 1"
    and "RangeSetRelease ((gn_RangeSets ctx)\<lparr>rsc_List := remove1 ''gnttab'' (rsc_List (gn_RangeSets ctx))\<rparr>) = Some r"
    and "CacheRelease (gn_Caches ctx) = Some c"
  shows "gn_fail6 st ctx = Some (st, (gn_rest ctx)\<lparr>gn_Caches := c, gn_RangeSets := r, gn_MaximumFrameCount := 0, gn_References := 0\<rparr>)"
proof -
  have "gn_rest (ctx\<lparr>gn_Caches := c\<rparr>) = (gn_rest ctx)\<lparr>gn_Caches := c\<rparr>" by (cases ctx) (simp add: gn_rest_def)
  then show ?thesis using gn_fail5_law [of "ctx\<lparr>gn_Caches := c\<rparr>" r st] assms by (simp add: gn_fail6_def)
qed

text \<open>From the point on where the range set and the cache interfaces are held.\<close>

lemma gn_acquire_callbacks_law:
  assumes wf: "gnttab_wf {} ctx" and name: "rs_Name (gn_RangeSet ctx) = ''gnttab''" and one: "gn_References ctx = 1"
    and r: "RangeSetRelease ((gn_RangeSets ctx)\<lparr>rsc_List := remove1 ''gnttab'' (rsc_List (gn_RangeSets ctx))\<rparr>) = Some r"
    and c: "CacheRelease (gn_Caches ctx) = Some c"
    and flags: "\<not> gn_Suspend ctx" "\<not> gn_SuspendCallbackEarly ctx" "\<not> gn_Debug ctx" "\<not> gn_DebugCallback ctx"
    and empty: "rs_items (gn_RangeSet ctx) = {}"
  shows "\<exists>st ctx'. gn_acquire_callbacks calls env ctx = Some (st, ctx') \<and>
     (if NT_SUCCESS st then gnttab_wf {} ctx' \<and> rs_Name (gn_RangeSet ctx') = ''gnttab'' \<and>
        gn_rest ctx' = (gn_rest ctx)\<lparr>gn_Suspend := True, gn_SuspendCallbackEarly := True, gn_Debug := True, gn_DebugCallback := True\<rparr>
      else ctx' = (gn_rest ctx)\<lparr>gn_Caches := c, gn_RangeSets := r, gn_MaximumFrameCount := 0, gn_References := 0\<rparr>)"
proof -
  have off [simp]: "ctx\<lparr>gn_Suspend := False\<rparr> = ctx"
    "ctx\<lparr>gn_SuspendCallbackEarly := False, gn_Suspend := False\<rparr> = ctx"
    "ctx\<lparr>gn_Debug := False, gn_SuspendCallbackEarly := False, gn_Suspend := False\<rparr> = ctx"
    "ctx\<lparr>gn_Suspend := False, gn_SuspendCallbackEarly := False\<rparr> = ctx"
    "ctx\<lparr>gn_Suspend := False, gn_SuspendCallbackEarly := False, gn_Debug := False\<rparr> = ctx"
    "ctx\<lparr>gn_Suspend := False, gn_SuspendCallbackEarly := False, gn_Debug := False, gn_DebugCallback := False\<rparr> = ctx"
    "ctx\<lparr>gn_DebugCallback := False, gn_Debug := False, gn_SuspendCallbackEarly := False, gn_Suspend := False\<rparr> = ctx"
    using flags by (cases ctx; simp)+
  note fail6 = gn_fail6_law [OF wf name one r c]
  note fails = gn_fail10_def gn_fail9_def gn_fail8_def gn_fail7_def fail6
  let ?on = "ctx\<lparr>gn_Suspend := True, gn_SuspendCallbackEarly := True, gn_Debug := True, gn_DebugCallback := True\<rparr>"
  have "gnttab_wf {} ?on" "rs_items (gn_RangeSet ?on) = {}" using wf empty by simp_all
  from GnttabExpand_law [OF this, of env] obtain st d where d: "GnttabExpand env ?on = Some (st, d)"
    "gnttab_wf {} d" "NT_SUCCESS st \<or> d = ?on" by (auto split: if_splits)
  have "gn_rest d = (gn_rest ctx)\<lparr>gn_Suspend := True, gn_SuspendCallbackEarly := True, gn_Debug := True, gn_DebugCallback := True\<rparr>"
    "rs_Name (gn_RangeSet d) = ''gnttab''"
    using GnttabExpand_frame [OF d(1)] name by (cases ctx, simp_all add: gn_rest_def)
  note d = d this
  let ?undo = "(gn_rest ctx)\<lparr>gn_Caches := c, gn_RangeSets := r, gn_MaximumFrameCount := 0, gn_References := 0\<rparr>"
  have fail: ?thesis if "\<not> NT_SUCCESS s" "gn_acquire_callbacks calls env ctx = Some (s, ?undo)" for s
    using that by (intro exI [of _ s] exI [of _ ?undo]) simp
  show ?thesis
  proof (cases "NT_SUCCESS (call_suspend calls) \<and> NT_SUCCESS (call_suspend_cb calls) \<and> NT_SUCCESS (call_debug calls) \<and>
      NT_SUCCESS (call_debug_cb calls)")
    case True
    show ?thesis
    proof (cases "NT_SUCCESS st")
      case ok: True
      then have "gn_acquire_callbacks calls env ctx = Some (STATUS_SUCCESS, d)"
        using True d(1) by (simp add: gn_acquire_callbacks_def)
      then show ?thesis using d by (intro exI [of _ STATUS_SUCCESS] exI [of _ d]) simp
    next
      case False
      then show ?thesis using True d by (intro fail) (simp_all add: gn_acquire_callbacks_def fails)
    qed
  next
    case False
    then consider "\<not> NT_SUCCESS (call_suspend calls)"
      | "NT_SUCCESS (call_suspend calls)" "\<not> NT_SUCCESS (call_suspend_cb calls)"
      | "NT_SUCCESS (call_suspend calls)" "NT_SUCCESS (call_suspend_cb calls)" "\<not> NT_SUCCESS (call_debug calls)"
      | "NT_SUCCESS (call_suspend calls)" "NT_SUCCESS (call_suspend_cb calls)" "NT_SUCCESS (call_debug calls)"
        "\<not> NT_SUCCESS (call_debug_cb calls)" by blast
    then show ?thesis
      by cases (rule fail, assumption, simp add: gn_acquire_callbacks_def fails)+
  qed
qed

lemma gn_acquire_cache_law:
  assumes wf: "gnttab_wf {} ctx" and name: "rs_Name (gn_RangeSet ctx) = ''gnttab''" and one: "gn_References ctx = 1"
    and r: "RangeSetRelease ((gn_RangeSets ctx)\<lparr>rsc_List := remove1 ''gnttab'' (rsc_List (gn_RangeSets ctx))\<rparr>) = Some r"
    and cc: "cc_wf (gn_Caches ctx)"
    and flags: "\<not> gn_Suspend ctx" "\<not> gn_SuspendCallbackEarly ctx" "\<not> gn_Debug ctx" "\<not> gn_DebugCallback ctx"
    and empty: "rs_items (gn_RangeSet ctx) = {}"
  shows "\<exists>st ctx'. gn_acquire_cache calls env ctx = Some (st, ctx') \<and>
     (if NT_SUCCESS st then gnttab_wf {} ctx' \<and> rs_Name (gn_RangeSet ctx') = ''gnttab'' \<and>
        (\<exists>c. cc_wf c \<and> cc_References c = cc_References (gn_Caches ctx) + 1 \<and> cc_List c = cc_List (gn_Caches ctx) \<and>
           gn_rest ctx' = (gn_rest ctx)\<lparr>gn_Caches := c, gn_Suspend := True, gn_SuspendCallbackEarly := True, gn_Debug := True,
             gn_DebugCallback := True\<rparr>)
      else ctx' = (gn_rest ctx)\<lparr>gn_RangeSets := r, gn_MaximumFrameCount := 0, gn_References := 0\<rparr>)"
proof -
  from CacheAcquire_law [OF cc, of "fst (call_cache calls)" "snd (call_cache calls)"] obtain s c where
    c: "CacheAcquire (fst (call_cache calls)) (snd (call_cache calls)) (gn_Caches ctx) = Some (s, c)"
    "if NT_SUCCESS s then cc_wf c \<and> cc_References c = cc_References (gn_Caches ctx) + 1 \<and>
       cc_List c = cc_List (gn_Caches ctx) \<and> CacheRelease c = Some (gn_Caches ctx) else c = gn_Caches ctx" by blast
  have caches: "(gn_rest ctx)\<lparr>gn_Caches := c, gn_Caches := gn_Caches ctx\<rparr> = gn_rest ctx"
    "gn_rest (ctx\<lparr>gn_Caches := c\<rparr>) = (gn_rest ctx)\<lparr>gn_Caches := c\<rparr>" by (cases ctx; simp add: gn_rest_def)+
  show ?thesis
  proof (cases "NT_SUCCESS s")
    case False
    then have "ctx\<lparr>gn_Caches := c\<rparr> = ctx" using c(2) by (cases ctx) simp
    then have "gn_acquire_cache calls env ctx =
        Some (s, (gn_rest ctx)\<lparr>gn_RangeSets := r, gn_MaximumFrameCount := 0, gn_References := 0\<rparr>)"
      using False c(1) gn_fail5_law [OF wf name one r, of s] by (simp add: gn_acquire_cache_def)
    then show ?thesis using False by (intro exI conjI) (assumption, simp)
  next
    case True
    let ?ctx = "ctx\<lparr>gn_Caches := c\<rparr>"
    have pre: "gnttab_wf {} ?ctx" "rs_Name (gn_RangeSet ?ctx) = ''gnttab''" "gn_References ?ctx = 1"
      "RangeSetRelease ((gn_RangeSets ?ctx)\<lparr>rsc_List := remove1 ''gnttab'' (rsc_List (gn_RangeSets ?ctx))\<rparr>) = Some r"
      "CacheRelease (gn_Caches ?ctx) = Some (gn_Caches ctx)"
      "\<not> gn_Suspend ?ctx" "\<not> gn_SuspendCallbackEarly ?ctx" "\<not> gn_Debug ?ctx" "\<not> gn_DebugCallback ?ctx"
      "rs_items (gn_RangeSet ?ctx) = {}"
      using wf name one r True c(2) flags empty by simp_all
    from gn_acquire_callbacks_law [OF pre, of calls env] obtain st d where
      "gn_acquire_callbacks calls env ?ctx = Some (st, d)"
      "if NT_SUCCESS st then gnttab_wf {} d \<and> rs_Name (gn_RangeSet d) = ''gnttab'' \<and> gn_rest d = (gn_rest ctx)
         \<lparr>gn_Caches := c, gn_Suspend := True, gn_SuspendCallbackEarly := True, gn_Debug := True, gn_DebugCallback := True\<rparr>
       else d = (gn_rest ctx)\<lparr>gn_RangeSets := r, gn_MaximumFrameCount := 0, gn_References := 0\<rparr>"
      unfolding caches by blast
    then show ?thesis using True c by (intro exI [of _ st] exI [of _ d]) (auto simp: gn_acquire_cache_def)
  qed
qed

lemma empty_table:
  assumes "M \<le> 2 ^ 22" and "rs_wf rs" and "rs_items rs = {}"
  shows "gnttab_wf {} (ctx\<lparr>gn_MaximumFrameCount := M, gn_Frame := replicate M None, gn_FrameIndex := - 1, gn_RangeSet := rs\<rparr>)"
  using assms by (simp add: gnttab_wf_def rs.accounts_def universe_def)

text \<open>The release right after an acquisition: everything is as before, in the interfaces of the others too.\<close>

lemma GnttabRelease_back:
  assumes wf: "gnttab_wf {} d" and name: "rs_Name (gn_RangeSet d) = ''gnttab''" and idle: "gn_idle ctx"
    and rest: "gn_rest d = gn_rest (ctx\<lparr>gn_References := 1, gn_MaximumFrameCount := M, gn_RangeSets := r, gn_Caches := c, gn_Suspend := True,
      gn_SuspendCallbackEarly := True, gn_Debug := True, gn_DebugCallback := True\<rparr>)"
    and c: "CacheRelease c = Some (gn_Caches ctx)"
    and r: "RangeSetRelease (r\<lparr>rsc_List := remove1 ''gnttab'' (rsc_List r)\<rparr>) = Some (gn_RangeSets ctx)"
  shows "GnttabRelease d = Some ctx"
proof -
  note f = gn_rest_fields [OF rest, simplified]
  let ?off = "d\<lparr>gn_References := 0, gn_DebugCallback := False, gn_Debug := False, gn_SuspendCallbackEarly := False,
      gn_Suspend := False, gn_Caches := gn_Caches ctx\<rparr>"
  from gn_drop_table_law [of ?off] wf name obtain e where e: "gn_drop_table ?off = Some e" "gn_RangeSet e = no_RangeSet"
    "gn_rest e = gn_rest (?off\<lparr>gn_RangeSets := (gn_RangeSets ?off)\<lparr>rsc_List := remove1 ''gnttab'' (rsc_List (gn_RangeSets ?off))\<rparr>\<rparr>)" by auto
  note g = gn_rest_fields [OF e(3), simplified]
  have "gn_List ctx = []" using idle by (simp add: gn_idle_def)
  then have run: "GnttabRelease d = Some (e\<lparr>gn_RangeSets := gn_RangeSets ctx, gn_FrameIndex := 0, gn_Frame := [], gn_MaximumFrameCount := 0\<rparr>)"
    using f c e(1) g r by (simp add: GnttabRelease_def)
  have "e\<lparr>gn_RangeSets := gn_RangeSets ctx, gn_FrameIndex := 0, gn_Frame := [], gn_MaximumFrameCount := 0\<rparr> =
      (gn_rest e)\<lparr>gn_RangeSets := gn_RangeSets ctx, gn_MaximumFrameCount := 0\<rparr>" using e(2) by (cases e) (simp add: gn_rest_def)
  also have "\<dots> = (gn_rest d)\<lparr>gn_References := 0, gn_DebugCallback := False, gn_Debug := False, gn_SuspendCallbackEarly := False,
      gn_Suspend := False, gn_Caches := gn_Caches ctx, gn_RangeSets := gn_RangeSets ctx, gn_MaximumFrameCount := 0\<rparr>"
    unfolding e(3) by (cases d) (simp add: gn_rest_def)
  also have "\<dots> = ctx" unfolding rest using idle by (cases ctx) (simp add: gn_rest_def gn_idle_def)
  finally show ?thesis using run by simp
qed

lemma GnttabAcquire_law:
  assumes idle: "gn_idle ctx" and size: "snd (call_size calls) \<le> 2 ^ 22"
  shows "\<exists>st ctx'. GnttabAcquire calls env ctx = Some (st, ctx') \<and>
     (if NT_SUCCESS st then gn_live {} ctx' \<and> gn_References ctx' = 1 \<and> gn_List ctx' = [] \<and> GnttabRelease ctx' = Some ctx else ctx' = ctx)"
proof -
  obtain s M where sM: "call_size calls = (s, M)" by fastforce
  let ?ctx2 = "ctx\<lparr>gn_References := 1, gn_MaximumFrameCount := M, gn_Frame := replicate M None, gn_FrameIndex := - 1\<rparr>"
  have ref: "gn_References ctx = 0" and flags: "\<not> gn_Suspend ctx" "\<not> gn_SuspendCallbackEarly ctx" "\<not> gn_Debug ctx" "\<not> gn_DebugCallback ctx"
    and wfs: "rsc_wf (gn_RangeSets ctx)" "cc_wf (gn_Caches ctx)" and fresh: "''gnttab'' \<notin> set (rsc_List (gn_RangeSets ctx))"
    and nil: "gn_List ctx = []"
    using idle by (simp_all add: gn_idle_def)
  have clear: "ctx\<lparr>gn_References := 0\<rparr> = ctx" "ctx\<lparr>gn_MaximumFrameCount := 0, gn_References := 0\<rparr> = ctx"
    "ctx\<lparr>gn_FrameIndex := 0, gn_Frame := [], gn_MaximumFrameCount := 0, gn_References := 0\<rparr> = ctx"
    using idle by (cases ctx; simp add: gn_idle_def)+
  from RangeSetAcquire_law [OF wfs(1), of "fst (call_range_set calls)" "snd (call_range_set calls)"]
  obtain s1 r1 where r1: "RangeSetAcquire (fst (call_range_set calls)) (snd (call_range_set calls)) (gn_RangeSets ctx) = Some (s1, r1)"
    "if NT_SUCCESS s1 then rsc_wf r1 \<and> rsc_References r1 = rsc_References (gn_RangeSets ctx) + 1 \<and>
       rsc_List r1 = rsc_List (gn_RangeSets ctx) \<and> RangeSetRelease r1 = Some (gn_RangeSets ctx) else r1 = gn_RangeSets ctx" by blast
  have fail: ?thesis if "\<not> NT_SUCCESS s" "GnttabAcquire calls env ctx = Some (s, ctx)" for s
    using that by (intro exI [of _ s] exI [of _ ctx]) simp
  consider (size) "\<not> NT_SUCCESS s" | (frames) "NT_SUCCESS s" "\<not> call_frames calls"
    | (sets) "NT_SUCCESS s" "call_frames calls" "\<not> NT_SUCCESS s1"
    | (table) "NT_SUCCESS s" "call_frames calls" "NT_SUCCESS s1" by blast
  then show ?thesis
  proof cases
    case size
    then show ?thesis using ref clear sM by (intro fail) (simp_all add: GnttabAcquire_def gn_fail1_def)
  next
    case frames
    then show ?thesis using ref clear sM
      by (intro fail [of STATUS_NO_MEMORY]) (simp_all add: GnttabAcquire_def gn_fail1_def gn_fail2_def)
  next
    case sets
    have "?ctx2\<lparr>gn_RangeSets := gn_RangeSets ctx\<rparr> = ?ctx2" by (cases ctx) simp
    then show ?thesis using sets r1 ref clear sM
      by (intro fail [of s1]) (simp_all add: GnttabAcquire_def gn_fail1_def gn_fail2_def gn_fail3_def)
  next
    case table
    then have r1': "rsc_wf r1" "rsc_References r1 = rsc_References (gn_RangeSets ctx) + 1"
      "rsc_List r1 = rsc_List (gn_RangeSets ctx)" "RangeSetRelease r1 = Some (gn_RangeSets ctx)" using r1(2) by simp_all
    obtain s2 m2 rs r2 where create: "RangeSetCreate (fst (call_create calls)) (snd (call_create calls)) r1 ''gnttab'' = (s2, m2, r2)"
      by (metis prod_cases3)
    show ?thesis
    proof (cases m2)
      case None
      then have "\<not> NT_SUCCESS s2" "r2 = r1" using create by (auto simp: RangeSetCreate_def split: if_splits)
      moreover have "?ctx2\<lparr>gn_RangeSets := gn_RangeSets ctx\<rparr> = ?ctx2" by (cases ctx) simp
      ultimately show ?thesis using table None create r1(1) r1' ref clear sM
        by (intro fail [of s2]) (simp_all add: GnttabAcquire_def gn_fail1_def gn_fail2_def gn_fail3_def gn_fail4_def)
    next
      case (Some rs)
      then have rs: "rs_wf rs" "rs_items rs = {}" "rs_Name rs = ''gnttab''" "r2 = r1\<lparr>rsc_List := rsc_List r1 @ [''gnttab'']\<rparr>"
        "s2 = STATUS_SUCCESS"
        using create RangeSetCreate_wf [of "fst (call_create calls)" "snd (call_create calls)" r1 "''gnttab''" rs r2]
        by (auto simp: RangeSetCreate_def split: if_splits)
      have list: "remove1 ''gnttab'' (rsc_List r2) = rsc_List r1"
        using fresh r1'(3) rs(4) by (simp add: remove1_append)
      then have rel: "RangeSetRelease (r2\<lparr>rsc_List := remove1 ''gnttab'' (rsc_List r2)\<rparr>) = Some (gn_RangeSets ctx)"
        using r1'(4) rs(4) by simp
      let ?ctx4 = "?ctx2\<lparr>gn_RangeSets := r2, gn_RangeSet := rs\<rparr>"
      have "?ctx4 = (ctx\<lparr>gn_MaximumFrameCount := M, gn_Frame := replicate M None, gn_FrameIndex := - 1, gn_RangeSet := rs\<rparr>)
          \<lparr>gn_References := 1, gn_RangeSets := r2\<rparr>" by (cases ctx) simp
      then have "gnttab_wf {} ?ctx4"
        using empty_table [of M rs ctx] size sM rs(1,2) by (simp add: gnttab_wf_def)
      moreover have "rs_Name (gn_RangeSet ?ctx4) = ''gnttab''" "gn_References ?ctx4 = 1" using rs(3) by simp_all
      moreover have "RangeSetRelease ((gn_RangeSets ?ctx4)\<lparr>rsc_List := remove1 ''gnttab'' (rsc_List (gn_RangeSets ?ctx4))\<rparr>) =
          Some (gn_RangeSets ctx)" using rel by simp
      moreover have "cc_wf (gn_Caches ?ctx4)" "\<not> gn_Suspend ?ctx4" "\<not> gn_SuspendCallbackEarly ?ctx4" "\<not> gn_Debug ?ctx4"
        "\<not> gn_DebugCallback ?ctx4" "rs_items (gn_RangeSet ?ctx4) = {}" using flags wfs(2) rs(2) by simp_all
      ultimately obtain st d where d: "gn_acquire_cache calls env ?ctx4 = Some (st, d)"
        "if NT_SUCCESS st then gnttab_wf {} d \<and> rs_Name (gn_RangeSet d) = ''gnttab'' \<and>
           (\<exists>c. cc_wf c \<and> cc_References c = cc_References (gn_Caches ?ctx4) + 1 \<and> cc_List c = cc_List (gn_Caches ?ctx4) \<and>
              gn_rest d = (gn_rest ?ctx4)\<lparr>gn_Caches := c, gn_Suspend := True, gn_SuspendCallbackEarly := True, gn_Debug := True,
                gn_DebugCallback := True\<rparr>)
         else d = (gn_rest ?ctx4)\<lparr>gn_RangeSets := gn_RangeSets ctx, gn_MaximumFrameCount := 0, gn_References := 0\<rparr>"
        using gn_acquire_cache_law [of ?ctx4 "gn_RangeSets ctx" calls env] by blast
      have run: "GnttabAcquire calls env ctx = Some (st, d)"
        using table ref sM r1(1) create Some rs(5) d(1) by (simp add: GnttabAcquire_def)
      show ?thesis
      proof (cases "NT_SUCCESS st")
        case False
        have "(gn_rest ?ctx4)\<lparr>gn_RangeSets := gn_RangeSets ctx, gn_MaximumFrameCount := 0, gn_References := 0\<rparr> = ctx"
          using idle by (cases ctx) (simp add: gn_rest_def gn_idle_def)
        then show ?thesis using False d(2) run by (intro fail [of st]) simp_all
      next
        case True
        then obtain c where c: "cc_wf c" "cc_References c = cc_References (gn_Caches ctx) + 1" "cc_List c = cc_List (gn_Caches ctx)"
          "gn_rest d = (gn_rest ?ctx4)\<lparr>gn_Caches := c, gn_Suspend := True, gn_SuspendCallbackEarly := True, gn_Debug := True,
             gn_DebugCallback := True\<rparr>" using d(2) by auto
        have "\<dots> = gn_rest (?ctx4\<lparr>gn_Caches := c, gn_Suspend := True, gn_SuspendCallbackEarly := True, gn_Debug := True,
             gn_DebugCallback := True\<rparr>)" by (cases ctx) (simp add: gn_rest_def)
        note f = gn_rest_fields [OF c(4) [unfolded this]]
        have "gn_live {} d"
          using d(2) True f r1' rs(4) list fresh c wfs by (simp add: gn_live_def rsc_wf_def cc_wf_def)
        moreover have "GnttabRelease d = Some ctx"
        proof (rule GnttabRelease_back)
          show "gnttab_wf {} d" "rs_Name (gn_RangeSet d) = ''gnttab''" using d(2) True by simp_all
          show "gn_rest d = gn_rest (ctx\<lparr>gn_References := 1, gn_MaximumFrameCount := M, gn_RangeSets := r2, gn_Caches := c, gn_Suspend := True,
              gn_SuspendCallbackEarly := True, gn_Debug := True, gn_DebugCallback := True\<rparr>)"
            unfolding c(4) by (cases ctx) (simp add: gn_rest_def)
          show "CacheRelease c = Some (gn_Caches ctx)" using CacheRelease_back [OF c(1) wfs(2)] c(2,3) by simp
          show "RangeSetRelease (r2\<lparr>rsc_List := remove1 ''gnttab'' (rsc_List r2)\<rparr>) = Some (gn_RangeSets ctx)" by (rule rel)
        qed (rule idle)
        ultimately show ?thesis using run True f(1,9) nil by (intro exI [of _ st] exI [of _ d]) simp
      qed
    qed
  qed
qed

text \<open>The last release needs the caches of the clients to be gone, so that no entry is left.\<close>

lemma GnttabRelease_law:
  assumes live: "gn_live X ctx" and last: "gn_References ctx = 1 \<longrightarrow> gn_List ctx = [] \<and> X = {}"
  shows "\<exists>ctx'. GnttabRelease ctx = Some ctx' \<and> gn_References ctx' = gn_References ctx - 1 \<and>
     (if gn_References ctx = 1 then gn_idle ctx' else gn_live X ctx')"
proof (cases "gn_References ctx = 1")
  case False
  then have "0 < gn_References ctx - 1" using live by (simp add: gn_live_def)
  then show ?thesis using live by (simp add: GnttabRelease_def gn_live_def)
next
  case True
  with last have X: "X = {}" and nil: "gn_List ctx = []" by simp_all
  have l: "gnttab_wf {} ctx" "rs_Name (gn_RangeSet ctx) = ''gnttab''" "rsc_wf (gn_RangeSets ctx)" "0 < rsc_References (gn_RangeSets ctx)"
    "''gnttab'' \<notin> set (remove1 ''gnttab'' (rsc_List (gn_RangeSets ctx)))"
    "rsc_References (gn_RangeSets ctx) = 1 \<longrightarrow> rsc_List (gn_RangeSets ctx) = [''gnttab'']"
    "cc_wf (gn_Caches ctx)" "0 < cc_References (gn_Caches ctx)" "cc_References (gn_Caches ctx) = 1 \<longrightarrow> cc_List (gn_Caches ctx) = []"
    using live X by (simp_all add: gn_live_def)
  from CacheRelease_law [OF l(7-9)] obtain c where c: "CacheRelease (gn_Caches ctx) = Some c" "cc_wf c" by blast
  let ?off = "ctx\<lparr>gn_References := 0, gn_DebugCallback := False, gn_Debug := False, gn_SuspendCallbackEarly := False,
      gn_Suspend := False, gn_Caches := c\<rparr>"
  let ?r = "(gn_RangeSets ctx)\<lparr>rsc_List := remove1 ''gnttab'' (rsc_List (gn_RangeSets ctx))\<rparr>"
  from gn_drop_table_law [of ?off] l(1,2) obtain d where d: "gn_drop_table ?off = Some d" "gn_RangeSet d = no_RangeSet"
    "gn_rest d = gn_rest (?off\<lparr>gn_RangeSets := ?r\<rparr>)" by auto
  note f = gn_rest_fields [OF d(3)]
  have "rsc_wf ?r" "rsc_References ?r = 1 \<longrightarrow> rsc_List ?r = []" "0 < rsc_References ?r" using l(3-6) by (simp_all add: rsc_wf_def)
  then have "\<exists>r. RangeSetRelease ?r = Some r \<and> rsc_wf r \<and> rsc_List r = rsc_List ?r"
    by (simp add: RangeSetRelease_def rsc_wf_def Let_def)
  then obtain r where r: "RangeSetRelease ?r = Some r" "rsc_wf r" "rsc_List r = rsc_List ?r" by blast
  have "GnttabRelease ctx = Some (d\<lparr>gn_RangeSets := r, gn_FrameIndex := 0, gn_Frame := [], gn_MaximumFrameCount := 0\<rparr>)"
    using True nil c(1) d(1) r(1) f(7) by (simp add: GnttabRelease_def)
  then show ?thesis using True d(2) f r(2,3) l(5) c(2) nil by (simp add: gn_idle_def)
qed


section \<open>Samples\<close>

text \<open>A table with one frame, empty and with the first reference granted to the object at 4144.\<close>

definition gnttab_sample :: XENBUS_GNTTAB_CONTEXT where
  "gnttab_sample = \<lparr>gn_References = 0, gn_MaximumFrameCount = 0, gn_Frame = [], gn_FrameIndex = 0,
     gn_RangeSet = no_RangeSet, gn_Entry = (\<lambda>x. \<lparr>ge_Magic = False, ge_Reference = 0, ge_Entry = zero_grant\<rparr>),
     gn_MapTable = 
       \<lparr>ht_Bucket = replicate XENBUS_HASH_TABLE_NR_BUCKETS [], ht_Hidden = [], ht_Dpc = False\<rparr>, gn_MapEntry = Map.empty, gn_Mapped = {},
     gn_RangeSets = \<lparr>rsc_References = 0, rsc_Debug = False, rsc_DebugCallback = False, rsc_List = []\<rparr>,
     gn_Caches = \<lparr>cc_References = 0, cc_Debug = False, cc_DebugCallback = False, cc_List = []\<rparr>,
     gn_Suspend = False, gn_SuspendCallbackEarly = False, gn_Debug = False, gn_DebugCallback = False, gn_List = []\<rparr>"

definition table_sample :: XENBUS_GNTTAB_CONTEXT where
  "table_sample = gnttab_sample\<lparr>gn_References := 1, gn_MaximumFrameCount := 1, gn_Frame := replicate 1 None,
     gn_FrameIndex := - 1\<rparr>"

definition granted :: grant_entry_v1 where
  "granted = \<lparr>gr_flags = GTF_permit_access, gr_domid = 5, gr_frame = 77\<rparr>"

definition granted_sample :: XENBUS_GNTTAB_CONTEXT where
  "granted_sample = table_sample\<lparr>gn_FrameIndex := 0, gn_Frame := [Some (\<lambda>k. if k = 32 then granted else zero_grant)],
     gn_RangeSet := no_RangeSet\<lparr>rs_List := [\<lparr>range_Start = 33, range_End = 511\<rparr>], rs_Cursor := Some 0, rs_RangeCount := 1,
       rs_ItemCount := 479\<rparr>,
     gn_Entry := (\<lambda>x. \<lparr>ge_Magic = True, ge_Reference = 32, ge_Entry = granted\<rparr>)\<rparr>"

definition sample_env :: gnttab_env where
  "sample_env = \<lparr>env_hole = (\<lambda>i. True), env_put = (\<lambda>i. True), env_physmap = (\<lambda>i. STATUS_SUCCESS), env_page = (\<lambda>i k. zero_grant)\<rparr>"

lemma gnttab_sample_idle: "gn_idle gnttab_sample"
  by (simp add: gn_idle_def gnttab_sample_def rsc_wf_def cc_wf_def)

lemma sample_env_fresh: "fresh_pages sample_env"
  by (simp add: fresh_pages_def sample_env_def)

lemma no_RangeSet_wf: "rs_wf no_RangeSet" "rs_items no_RangeSet = {}"
  by (simp_all add: no_RangeSet_def rs_wf_def cursor_ok_def counts_ok_def rs_items_def items_of_def)

lemma table_sample_grants: "grants_wf sample_env (sample_cache [] None [0, 0, 0, 0, 0, 0] 0 0, table_sample)"
proof -
  have "gnttab_wf {} table_sample"
    using no_RangeSet_wf by (simp add: gnttab_wf_def table_sample_def gnttab_sample_def rs.accounts_def universe_def)
  moreover have "\<not> permitted table_sample r" for r
    by (cases "r div 512") (simp_all add: permitted_def slot_def table_sample_def)
  ultimately show ?thesis
    using sample_wf sample_env_fresh by (simp add: grants_wf_def sample_cache_def constructed_def)
qed

lemma granted_sample_wf: "gnttab_wf {4144} granted_sample"
proof -
  let ?rs = "gn_RangeSet granted_sample"
  have "rs_wf ?rs" "rs_items ?rs = {33 .. 511}"
    by (simp_all add: granted_sample_def no_RangeSet_def rs_wf_def cursor_ok_def counts_ok_def rs_items_def items_of_def
        range_ok_def span_def)
  then have "rs.accounts ?rs {32} (universe 0)" by (auto simp: rs.accounts_def universe_def)
  then show ?thesis by (simp add: gnttab_wf_def granted_sample_def table_sample_def gnttab_sample_def)
qed

lemma granted_sample_permitted: "permitted granted_sample r \<longleftrightarrow> r = 32"
proof -
  have "r = 32 \<longleftrightarrow> r div 512 = 0 \<and> r mod 512 = 32" using div_mult_mod_eq [of r 512] by auto
  moreover have "slot granted_sample r = (if r div 512 = 0 \<and> r mod 512 = 32 then granted else zero_grant)"
    unfolding slot_def granted_sample_def by (simp del: div_eq_0_iff)
  moreover have "gr_flags granted AND GTF_permit_access \<noteq> 0" by (simp add: granted_def GTF_permit_access_def)
  ultimately show ?thesis by (simp add: permitted_def)
qed

lemma granted_sample_grants:
  obtains c where "grants_wf sample_env (c, granted_sample)" "held c = {4144}" "cache_MagazineCount c = 1"
proof -
  from sample_held obtain c where c: "CacheGet trivial_ctor (Some 4096, True, True) 0
      (sample_cache [] None [0, 0, 0, 0, 0, 0] 0 0) () = Some (4144, c, ())" "cache_wf c" "held c = {4144}"
      "cache_MagazineCount c = 1" .
  then have c': "c = sample_cache [sample_slab 4096 1 1] (Some 0) [0, 0, 0, 0, 0, 0] 1 1" using sample_get1 by simp
  have "mask_bits \<lparr>mask_Size = 2, mask_Count = 1, mask_Mask = [1]\<rparr> = {0}"
    by (auto simp: mask_bits_def bit_1_iff)
  then have "constructed (cache_Size c) (cache_SlabList c) = {4144}"
    by (simp add: c' sample_cache_def constructed_def constructed_in_def sample_slab_def object_at_def SLAB_BUFFER_def)
  then have "grants_wf sample_env (c, granted_sample)"
    using c granted_sample_wf sample_env_fresh granted_sample_permitted
    by (simp add: grants_wf_def) (simp add: granted_sample_def)
  then show thesis using c(3,4) by (rule that)
qed


section \<open>Properties\<close>

text \<open>
  C7. Granting access from the cache of a client, with the table in that client's use, either fails and changes no grant, or hands out an object nobody holds, whose
  reference (not a reserved one) was not permitted before, and writes exactly its entry of the table:
  the flags with the permission, the domain and the frame. The references of the entries held before
  stay, and in every case exactly the references of held entries are permitted. This goes through the
  cache, its constructor, the range set and, when it is out of references, the growing table, whose every step may
  fail: the frames may be used up, there may be no address space, the hypervisor may refuse the frame, and the
  range set may have no memory for its references.
\<close>

theorem GnttabPermitForeignAccess_correct:
  assumes "grants_wf env (c, ctx)" and "cpu < cache_MagazineCount c"
    and "cache_Count c + slab_objects (cache_Size c) < 2 ^ 31" and "mem_ok mem (cache_SlabList c)" and "Pfn < 2 ^ 32"
  shows "\<exists>st x c' ctx'. GnttabPermitForeignAccess env mem cpu Domid Pfn ReadOnly (c, ctx) = Some (st, x, c', ctx') \<and>
     grants_wf env (c', ctx') \<and> (\<forall>y \<in> held c. reference_of ctx' y = reference_of ctx y) \<and>
     (if NT_SUCCESS st then x \<notin> held c \<and> held c' = insert x (held c) \<and> 32 \<le> reference_of ctx' x \<and>
        \<not> permitted ctx (reference_of ctx' x) \<and>
        slot ctx' = (slot ctx)(reference_of ctx' x := \<lparr>gr_flags = (if ReadOnly then GTF_readonly else 0) OR GTF_permit_access,
          gr_domid = Domid, gr_frame = Pfn\<rparr>)
      else held c' = held c \<and> slot ctx' = slot ctx)"
  using GnttabPermitForeignAccess_law [OF assms refl] by blast

theorem GnttabPermitForeignAccess_correct_witness:
  "\<exists>st x c' ctx'. GnttabPermitForeignAccess sample_env (Some 4096, True, True) 0 5 77 True
       (sample_cache [] None [0, 0, 0, 0, 0, 0] 0 0, table_sample) = Some (st, x, c', ctx') \<and>
     grants_wf sample_env (c', ctx')"
proof -
  let ?c = "sample_cache [] None [0, 0, 0, 0, 0, 0] 0 0"
  have "mem_ok (Some 4096, True, True) (cache_SlabList ?c)" "0 < cache_MagazineCount ?c"
    "cache_Count ?c + slab_objects (cache_Size ?c) < 2 ^ 31" "(77::nat) < 2 ^ 32"
    by (simp_all add: mem_ok_def base_ok_def PAGE_ALIGN_def PAGE_SIZE_def sample_cache_def slab_objects_2000)
  with GnttabPermitForeignAccess_correct [OF table_sample_grants, of 0 "(Some 4096, True, True)" 77 5 True]
  show ?thesis by blast
qed

text \<open>
  C8. Revoking access to a held entry: when at one of the first 99 attempts nobody is reading or writing
  the page and the flags do not change between the read and the exchange, the entry of the table is
  cleared, no other entry changes, and the object goes back to the cache.
\<close>

theorem GnttabRevokeForeignAccess_correct:
  assumes "grants_wf env (c, ctx)" and "cpu < cache_MagazineCount c" and "x \<in> held c"
    and "k < 99" and "revoke_hit seen k"
  shows "\<exists>c' ctx'. GnttabRevokeForeignAccess seen cpu x (c, ctx) = Some (STATUS_SUCCESS, c', ctx') \<and>
     grants_wf env (c', ctx') \<and> held c' = held c - {x} \<and>
     slot ctx' = (slot ctx)(reference_of ctx x := zero_grant) \<and> reference_of ctx' = reference_of ctx"
proof -
  define j where "j = (LEAST j. revoke_hit seen j)"
  have hit: "revoke_hit seen j" "j \<le> k" "\<forall>i. 0 \<le> i \<and> i < j \<longrightarrow> \<not> revoke_hit seen i"
    unfolding j_def using assms(5) by (auto intro: LeastI Least_le dest: not_less_Least)
  have j: "j < 100" "j + 1 \<noteq> 100" using hit(2) assms(4) by simp_all
  from revoke_loop_hit [OF le0 j(1) hit(1,3)] obtain New where "revoke_loop seen 0 = (j + 1, Some New)" ..
  from GnttabRevokeForeignAccess_law [OF assms(1-3) this j(2)] show ?thesis .
qed

theorem GnttabRevokeForeignAccess_correct_witness:
  "\<exists>c c' ctx'. held c = {4144} \<and>
     GnttabRevokeForeignAccess (\<lambda>k. if k = 0 then (9, 9) else (1, 1)) 0 4144 (c, granted_sample) = Some (STATUS_SUCCESS, c', ctx') \<and>
     held c' = {} \<and> slot ctx' = (slot granted_sample)(32 := zero_grant)"
proof -
  obtain c where c: "grants_wf sample_env (c, granted_sample)" "held c = {4144}" "cache_MagazineCount c = 1"
    by (rule granted_sample_grants)
  have "revoke_hit (\<lambda>k. if k = 0 then (9, 9) else (1, 1)) 1"
    by (simp add: revoke_hit_def GTF_reading_def GTF_writing_def)
  moreover have "reference_of granted_sample 4144 = 32" by (simp add: granted_sample_def)
  ultimately show ?thesis
    using GnttabRevokeForeignAccess_correct [OF c(1), of 0 4144 1 "\<lambda>k. if k = 0 then (9, 9) else (1, 1)"] c by auto
qed

text \<open>
  The attempts are counted one too far: when the foreign domain never stops using the page, the
  loop ends with \<^verbatim>\<open>Attempt\<close> at 101 and not at 100, so that revoking reports success, clears the
  entry and gives the reference back while the page is in use. Success at exactly the last
  attempt, on the other hand, leaves 100, and is reported as a failure.
\<close>

theorem GnttabRevokeForeignAccess_exhausted:
  assumes "grants_wf env (c, ctx)" and "cpu < cache_MagazineCount c" and "x \<in> held c"
    and "\<forall>k. revoke_hit seen k \<longleftrightarrow> 99 \<le> k \<and> late"
  shows "\<exists>c' ctx'. GnttabRevokeForeignAccess seen cpu x (c, ctx) =
       Some (if late then STATUS_UNSUCCESSFUL else STATUS_SUCCESS, c', ctx') \<and> held c' = (if late then held c else held c - {x})"
proof (cases late)
  case False
  then have "\<forall>j. 0 \<le> j \<and> j < 100 \<longrightarrow> \<not> revoke_hit seen j" using assms(4) by simp
  from revoke_loop_miss [OF _ this] have "revoke_loop seen 0 = (101, None)" by simp
  from GnttabRevokeForeignAccess_law [OF assms(1-3) this] False show ?thesis by auto
next
  case True
  then have "revoke_hit seen 99" "\<forall>j. 0 \<le> j \<and> j < 99 \<longrightarrow> \<not> revoke_hit seen j" using assms(4) by auto
  from revoke_loop_hit [OF _ _ this] obtain New where loop: "revoke_loop seen 0 = (100, Some New)" by auto
  let ?X = "constructed (cache_Size c) (cache_SlabList c)"
  have c: "cache_wf c" and gn: "gnttab_wf ?X ctx" using assms(1) by (simp_all add: grants_wf_def)
  then have xX: "x \<in> ?X" using held_constructed assms(3) by blast
  note r = reference_in_table [OF gn xX]
  have "ge_Magic (gn_Entry ctx x)" using gn xX by (simp add: gnttab_wf_def)
  moreover from write_slot_law [OF gn r(2)] obtain ctx' where
    "write_slot (reference_of ctx x) ((slot ctx (reference_of ctx x))\<lparr>gr_flags := New\<rparr>) ctx = Some ctx'" by blast
  ultimately show ?thesis using True loop r(3) read_slot_law [OF gn r(2)]
    by (simp add: GnttabRevokeForeignAccess_def)
qed

theorem GnttabRevokeForeignAccess_exhausted_witness:
  "\<exists>c c' ctx'. held c = {4144} \<and>
     GnttabRevokeForeignAccess (\<lambda>k. (9, 9)) 0 4144 (c, granted_sample) = Some (STATUS_SUCCESS, c', ctx') \<and> held c' = {}"
proof -
  obtain c where c: "grants_wf sample_env (c, granted_sample)" "held c = {4144}" "cache_MagazineCount c = 1"
    by (rule granted_sample_grants)
  have "\<not> revoke_hit (\<lambda>k. (9, 9)) k" for k by (simp add: revoke_hit_def GTF_reading_def GTF_writing_def)
  then show ?thesis
    using GnttabRevokeForeignAccess_exhausted [OF c(1), of 0 4144 "\<lambda>k. (9, 9)" False] c by auto
qed

text \<open>
  C9. Mapping foreign pages fails and leaves everything as it was, the pages mapped before the failing
  one being unmapped again, or maps all of them, one after the other from the address returned, and
  unmapping at that address then restores the table, the pool and the mappings.
\<close>

theorem GnttabMapForeignPages_roundtrip:
  assumes "ht_as_map (gn_MapTable ctx) mp" and "mp (word_of_nat A) = None" and "new_handles m ctx" and "ptr < 2 ^ 64"
  shows "\<exists>st A' ctx'. GnttabMapForeignPages (Some A) (Some ptr) mem m n ctx = Some (st, A', ctx') \<and>
     (if NT_SUCCESS st then A' = A \<and>
        (\<exists>hs. length hs = n \<and> gn_Mapped ctx' = gn_Mapped ctx \<union> set (pages_at hs A) \<and>
           gn_Mapped ctx \<inter> set (pages_at hs A) = {} \<and>
           (\<exists>T'. GnttabUnmapForeignPages A ctx' = Some (STATUS_SUCCESS,
               ctx\<lparr>gn_MapTable := T', gn_MapEntry := (gn_MapEntry ctx)(ptr := None)\<rparr>) \<and> ht_as_map T' mp))
      else ctx' = ctx)"
  using GnttabMapForeignPages_law [OF assms] by blast

theorem GnttabMapForeignPages_roundtrip_witness:
  "\<exists>ctx'. GnttabMapForeignPages (Some 8192) (Some 16) True (\<lambda>i. (if i < 2 then STATUS_SUCCESS else STATUS_RETRY, i)) 3 gnttab_sample =
     Some (STATUS_RETRY, 0, ctx') \<and> ctx' = gnttab_sample"
proof -
  let ?m = "\<lambda>i. (if i < 2 then STATUS_SUCCESS else STATUS_RETRY, i)"
  have "ht_as_map (gn_MapTable gnttab_sample) Map.empty"
    using ht_as_map_empty by (simp add: HashTableCreate_def gnttab_sample_def)
  moreover have "new_handles ?m gnttab_sample" by (simp add: new_handles_def gnttab_sample_def)
  moreover have "[0 ..< 3] = [0, 1, 2 :: nat]" by (simp add: upt_rec)
  then have "\<exists>ctx'. GnttabMapForeignPages (Some 8192) (Some 16) True ?m 3 gnttab_sample = Some (STATUS_RETRY, 0, ctx')"
    by (simp add: GnttabMapForeignPages_def)
  ultimately show ?thesis
    using GnttabMapForeignPages_roundtrip [of gnttab_sample Map.empty 8192 ?m 16 True 3] by fastforce
qed


definition sample_calls :: gnttab_calls where
  "sample_calls = \<lparr>call_size = (STATUS_SUCCESS, 4), call_frames = True, call_range_set = (STATUS_SUCCESS, STATUS_SUCCESS),
     call_create = (True, STATUS_SUCCESS), call_cache = (STATUS_SUCCESS, STATUS_SUCCESS), call_suspend = STATUS_SUCCESS,
     call_suspend_cb = STATUS_SUCCESS, call_debug = STATUS_SUCCESS, call_debug_cb = STATUS_SUCCESS\<rparr>"


text \<open>
  A name of 121 or more characters does not fit with its suffix. \<^verbatim>\<open>GnttabCreateCache\<close> then jumps to
  \<^verbatim>\<open>fail2\<close>, past the statement that clears the name, and stops in the assertion that the record is zero
  instead of returning the error; a name that fits never stops there.
\<close>

theorem GnttabCreateCache_long_name_stops:
  "GnttabCreateCache True True (\<lambda>k. (None, True, True)) True 1 Name 0 0 ctx = None \<longleftrightarrow> 121 \<le> length Name"
proof -
  have young: "CacheCreate True STATUS_SUCCESS mems True 1 Dtor t 16 0 0 ctx \<noteq> None" for mems t and Dtor :: "XENBUS_GNTTAB_CONTEXT dtor"
    by (simp add: CacheCreate_def CacheFill_def fill_loop.simps zero_CACHE_def P2ROUNDUP_def CacheAudit_def)
  have name: "take 127 (Name @ ''_gnttab'') \<noteq> ''''" by (cases Name) simp_all
  show ?thesis
  proof (cases "121 \<le> length Name")
    case True
    then show ?thesis using name by (simp add: GnttabCreateCache_def print_name_def MAXNAMELEN_def zero_GNTTAB_CACHE_def)
  next
    case False
    then show ?thesis using young [where Dtor = "GnttabEntryDtor True" and mems = "\<lambda>k. (None, True, True)" and t = "Name @ ''_gnttab''"]
      by (auto simp: GnttabCreateCache_def print_name_def MAXNAMELEN_def zero_GNTTAB_CACHE_def Let_def)
  qed
qed

end
