(* ===== verification/Ring.thy ===== *)
theory Ring
  imports Prelude
begin

unbundle bit_operations_syntax

text \<open>
  Rings of bytes in a shared page, as the XenStore client and the console have them: a power of two of
  bytes, with free-running 32-bit indices of which the low bits are the place. The two copy loops are the
  same code in src/src/xenbus/store.c and src/src/xenbus/console.c, at different sizes. A ring is a queue of
  bytes; the locale \<open>byte_stream\<close> states what its two ends promise each other.
\<close>

section \<open>The copy loops\<close>

definition MASK_RING_IDX :: "nat \<Rightarrow> 32 word \<Rightarrow> nat" where
  "MASK_RING_IDX N idx = unat (idx AND of_nat (N - 1))"

text \<open>A power of two.\<close>

definition ring_size :: "nat \<Rightarrow> bool" where
  "ring_size N \<longleftrightarrow> (\<exists>b < 31. N = 2 ^ b)"


text \<open>\<^verbatim>\<open>RtlCopyMemory\<close> into a ring.\<close>

definition copy_at :: "nat \<Rightarrow> string \<Rightarrow> string \<Rightarrow> string" where
  "copy_at i xs buf = take i buf @ xs @ drop (i + length xs) buf"

lemma ring_size_pos: "ring_size N \<Longrightarrow> 0 < N"
  by (auto simp: ring_size_def)

lemma ring_size_dvd: "ring_size N \<Longrightarrow> N dvd 2 ^ 32"
  unfolding ring_size_def using le_imp_power_dvd [of _ 32 "2 :: nat"] by fastforce

lemma ring_size_less: "ring_size N \<Longrightarrow> N < 2 ^ 31"
  unfolding ring_size_def using power_strict_increasing [of _ 31 "2 :: nat"] by fastforce

lemma mask_mod:
  assumes "ring_size N"
  shows "MASK_RING_IDX N idx = unat idx mod N"
proof -
  obtain b where b: "N = 2 ^ b" "b < 31" using assms by (auto simp: ring_size_def)
  have "of_nat (2 ^ b - 1) = (mask b :: 32 word)" by (simp add: mask_eq_exp_minus_1 of_nat_diff)
  then have "idx AND of_nat (N - 1) = take_bit b idx" using b(1) by (simp add: take_bit_eq_mask)
  moreover have "unat (take_bit b idx) = unat idx mod N" using b by (simp only: unsigned_take_bit_eq) (simp add: take_bit_eq_mod)
  ultimately show ?thesis by (simp add: MASK_RING_IDX_def)
qed

lemma mask_less: "0 < N \<Longrightarrow> MASK_RING_IDX N idx < N"
proof -
  assume "0 < N"
  have "idx AND of_nat (N - 1) \<le> of_nat (N - 1)" by (rule word_and_le1)
  then have "MASK_RING_IDX N idx \<le> unat (of_nat (N - 1) :: 32 word)" by (simp add: MASK_RING_IDX_def word_le_nat_alt)
  also have "\<dots> \<le> N - 1" by (simp add: unsigned_of_nat take_bit_nat_less_eq_self)
  finally show ?thesis using \<open>0 < N\<close> by simp
qed

text \<open>
  The loop that copies into a ring (\<^verbatim>\<open>StoreCopyToRing\<close>, \<^verbatim>\<open>ConsoleCopyToOut\<close>), on the bytes that are left: the ring,
  the producer index and \<^verbatim>\<open>Offset\<close> when it ends. \<^verbatim>\<open>Available\<close> is computed in 32 bits. A ring has at least one byte.
\<close>

function ring_write :: "nat \<Rightarrow> 32 word \<Rightarrow> string \<Rightarrow> string \<Rightarrow> 32 word \<Rightarrow> nat \<Rightarrow> string \<times> 32 word \<times> nat" where
  "ring_write N consumer Data ring producer Offset =
     (if Data = [] \<or> N = 0 then (ring, producer, Offset)
      else let Available = unat (consumer + of_nat N - producer) in
        if Available = 0 then (ring, producer, Offset)
        else let Index = MASK_RING_IDX N producer;
                 CopyLength = min (min (length Data) Available) (N - Index)
             in ring_write N consumer (drop CopyLength Data) (copy_at Index (take CopyLength Data) ring)
                  (producer + of_nat CopyLength) (Offset + CopyLength))"
  by pat_completeness auto

termination ring_write
  by (relation "measure (\<lambda>(N, consumer, Data, ring, producer, Offset). length Data)")
    (simp_all add: mask_less less_diff_conv)

declare ring_write.simps [simp del]

text \<open>The loop that copies out of one (\<^verbatim>\<open>StoreCopyFromRing\<close>, \<^verbatim>\<open>ConsoleCopyFromIn\<close>): the bytes copied so far and the consumer index.\<close>

function ring_read :: "nat \<Rightarrow> 32 word \<Rightarrow> string \<Rightarrow> nat \<Rightarrow> 32 word \<Rightarrow> string \<Rightarrow> 32 word \<times> string" where
  "ring_read N producer ring Length consumer Data =
     (if Length = 0 \<or> N = 0 then (consumer, Data)
      else let Available = unat (producer - consumer) in
        if Available = 0 then (consumer, Data)
        else let Index = MASK_RING_IDX N consumer;
                 CopyLength = min (min Length Available) (N - Index)
             in ring_read N producer ring (Length - CopyLength) (consumer + of_nat CopyLength)
                  (Data @ take CopyLength (drop Index ring)))"
  by pat_completeness auto
termination
  by (relation "measure (\<lambda>(N, producer, ring, Length, consumer, Data). Length)")
    (simp_all add: mask_less less_diff_conv)

declare ring_read.simps [simp del]

section \<open>Rings as queues\<close>

text \<open>The bytes between the two indices, and when there are no more of them than fit.\<close>

definition ring_at :: "nat \<Rightarrow> string \<Rightarrow> 32 word \<Rightarrow> char" where
  "ring_at N ring idx = ring ! (unat idx mod N)"

definition ring_bytes :: "nat \<Rightarrow> string \<Rightarrow> 32 word \<Rightarrow> 32 word \<Rightarrow> string" where
  "ring_bytes N ring consumer producer = map (\<lambda>i. ring_at N ring (consumer + of_nat i)) [0 ..< unat (producer - consumer)]"

definition ring_ok :: "nat \<Rightarrow> string \<Rightarrow> 32 word \<Rightarrow> 32 word \<Rightarrow> bool" where
  "ring_ok N ring consumer producer \<longleftrightarrow> length ring = N \<and> unat (producer - consumer) \<le> N"

lemma length_ring_bytes [simp]: "length (ring_bytes N ring consumer producer) = unat (producer - consumer)"
  by (simp add: ring_bytes_def)


lemma ring_at_eq: "(x :: 32 word) - c = of_nat i \<Longrightarrow> ring_at N ring (c + of_nat i) = ring ! (unat x mod N)"
  by (simp add: ring_at_def algebra_simps)

text \<open>The index \<open>i\<close> bytes further, without wrap-around of the 32-bit counter mattering modulo the size.\<close>

lemma unat_add_mod_ring: "ring_size N \<Longrightarrow> unat (x + of_nat i :: 32 word) mod N = (unat x + i) mod N"
proof -
  assume N: "ring_size N"
  have "unat (x + of_nat i :: 32 word) = (unat x + unat (of_nat i :: 32 word)) mod 2 ^ 32"
    by (simp add: unat_word_ariths)
  also have "\<dots> = (unat x + i) mod 2 ^ 32"
    by (simp add: unsigned_of_nat take_bit_eq_mod mod_simps)
  finally have "unat (x + of_nat i :: 32 word) mod N = (unat x + i) mod 2 ^ 32 mod N" by simp
  also have "\<dots> = (unat x + i) mod N" using ring_size_dvd [OF N] by (rule mod_mod_cancel)
  finally show ?thesis .
qed

lemma ring_at_add: "ring_size N \<Longrightarrow> ring_at N ring (x + of_nat i) = ring ! ((unat x + i) mod N)"
  by (simp only: ring_at_def unat_add_mod_ring)

lemma ring_bytes_nth: "ring_size N \<Longrightarrow> i < unat (producer - consumer) \<Longrightarrow>
    ring_bytes N ring consumer producer ! i = ring ! ((unat consumer + i) mod N)"
  by (simp add: ring_bytes_def ring_at_add)

lemma unat_producer:
  assumes "n \<le> unat (producer - consumer :: 32 word)"
  shows "unat (producer - (consumer + of_nat n)) = unat (producer - consumer) - n"
proof -
  have "unat (producer - consumer) < 2 ^ LENGTH(32)" by (rule unsigned_less)
  then have "n < 2 ^ 32" using assms by simp
  then have "unat (of_nat n :: 32 word) = n" by (simp add: unsigned_of_nat take_bit_nat_eq_self)
  with assms show ?thesis by (simp add: diff_diff_eq [symmetric] unat_sub word_le_nat_alt)
qed

lemma unat_advance:
  assumes N: "ring_size N" and "unat (producer - consumer :: 32 word) + n \<le> N"
  shows "unat (producer + of_nat n - consumer) = unat (producer - consumer) + n"
proof -
  have eq: "producer + of_nat n - consumer = of_nat (unat (producer - consumer) + n)" by simp
  have "unat (producer - consumer) + n < 2 ^ LENGTH(32)" using assms(2) ring_size_less [OF N] by simp
  then show ?thesis unfolding eq by (simp only: unsigned_of_nat take_bit_nat_eq_self of_nat_id)
qed

lemma available:
  assumes N: "ring_size N" and "unat (producer - consumer :: 32 word) \<le> N"
  shows "unat (consumer + of_nat N - producer) = N - unat (producer - consumer)"
proof -
  have "consumer + of_nat N - producer = of_nat N - (producer - consumer)"
    by (simp add: algebra_simps)
  moreover have N': "unat (of_nat N :: 32 word) = N"
  proof -
    have "N < 2 ^ LENGTH(32)" using ring_size_less [OF N] by simp
    then show ?thesis by (simp only: unsigned_of_nat take_bit_nat_eq_self of_nat_id)
  qed
  moreover have "producer - consumer \<le> of_nat N" using assms(2) N' by (simp add: word_le_nat_alt)
  ultimately show ?thesis by (simp only: unat_sub)
qed


lemma copy_at_nth: "length ring = N \<Longrightarrow> i + length xs \<le> N \<Longrightarrow> j < N \<Longrightarrow>
    copy_at i xs ring ! j = (if i \<le> j \<and> j < i + length xs then xs ! (j - i) else ring ! j)"
  by (auto simp: copy_at_def nth_append min_def)

lemma length_copy_at: "i + length xs \<le> length ring \<Longrightarrow> length (copy_at i xs ring) = length ring"
  by (simp add: copy_at_def)

text \<open>One iteration of the copy into the ring appends.\<close>

lemma ring_write_step:
  assumes N: "ring_size N" and ok: "ring_ok N ring consumer producer" and k: "unat (producer - consumer) + length xs \<le> N"
    and fits: "MASK_RING_IDX N producer + length xs \<le> N"
  shows "ring_ok N (copy_at (MASK_RING_IDX N producer) xs ring) consumer (producer + of_nat (length xs))"
    and "ring_bytes N (copy_at (MASK_RING_IDX N producer) xs ring) consumer (producer + of_nat (length xs)) =
      ring_bytes N ring consumer producer @ xs"
proof -
  let ?p = "unat producer" and ?c = "unat consumer" and ?n = "unat (producer - consumer)" and ?k = "length xs"
  have len: "length ring = N" using ok by (simp add: ring_ok_def)
  note adv = unat_advance [OF N k]
  have fits': "?p mod N + ?k \<le> N" using fits by (simp add: mask_mod [OF N])
  have pc: "?p mod N = (?c + ?n) mod N"
  proof -
    have "producer = consumer + of_nat ?n" by simp
    then show ?thesis using unat_add_mod_ring [OF N, of consumer ?n] by simp
  qed
  show "ring_ok N (copy_at (MASK_RING_IDX N producer) xs ring) consumer (producer + of_nat ?k)"
    using k fits len by (simp add: ring_ok_def adv length_copy_at)
  show "ring_bytes N (copy_at (MASK_RING_IDX N producer) xs ring) consumer (producer + of_nat ?k) =
      ring_bytes N ring consumer producer @ xs"
  proof (rule nth_equalityI)
    show "length (ring_bytes N (copy_at (MASK_RING_IDX N producer) xs ring) consumer (producer + of_nat ?k)) =
        length (ring_bytes N ring consumer producer @ xs)" by (simp add: adv)
    fix i assume "i < length (ring_bytes N (copy_at (MASK_RING_IDX N producer) xs ring) consumer (producer + of_nat ?k))"
    then have i: "i < ?n + ?k" by (simp add: adv)
    let ?j = "(?c + i) mod N" and ?s = "?p mod N"
    have "ring_bytes N (copy_at (MASK_RING_IDX N producer) xs ring) consumer (producer + of_nat ?k) ! i =
        copy_at ?s xs ring ! ?j" using i adv by (simp add: ring_bytes_nth [OF N] mask_mod [OF N])
    also have "\<dots> = (if ?s \<le> ?j \<and> ?j < ?s + ?k then xs ! (?j - ?s) else ring ! ?j)"
      by (rule copy_at_nth [OF len fits' mod_less_divisor [OF ring_size_pos [OF N]]])
    also have "\<dots> = (ring_bytes N ring consumer producer @ xs) ! i"
    proof (cases "i < ?n")
      case True
      have "\<not> (?s \<le> ?j \<and> ?j < ?s + ?k)"
      proof
        assume "?s \<le> ?j \<and> ?j < ?s + ?k"
        then obtain d where d: "?j = ?s + d" "d < ?k" by (metis le_Suc_ex nat_add_left_cancel_less)
        then have "(?c + i) mod N = (?c + ?n + d) mod N" using pc fits' by (metis mod_add_left_eq mod_mod_trivial)
        then have "i mod N = (?n + d) mod N" by (simp add: add.assoc nat_mod_eq_iff)
        then show False using True d(2) k by simp
      qed
      then show ?thesis unfolding if_not_P [OF \<open>\<not> (?s \<le> ?j \<and> ?j < ?s + ?k)\<close>]
        using True by (simp add: nth_append ring_bytes_nth [OF N])
    next
      case False
      then obtain d where d: "i = ?n + d" "d < ?k" using i by (metis le_Suc_ex nat_add_left_cancel_less not_less)
      have "?j = (?s + d) mod N" unfolding d(1) pc by (simp add: mod_simps add.assoc)
      also have "\<dots> = ?s + d" using fits' d(2) by simp
      finally show ?thesis using d False by (simp add: nth_append)
    qed
    finally show "ring_bytes N (copy_at (MASK_RING_IDX N producer) xs ring) consumer (producer + of_nat ?k) ! i =
        (ring_bytes N ring consumer producer @ xs) ! i" .
  qed
qed


lemma ring_write_law:
  assumes N: "ring_size N" and "ring_ok N ring consumer producer"
  shows "\<exists>ring' producer'. ring_write N consumer Data ring producer Offset =
       (ring', producer', Offset + min (length Data) (N - length (ring_bytes N ring consumer producer))) \<and>
     ring_ok N ring' consumer producer' \<and>
     ring_bytes N ring' consumer producer' = ring_bytes N ring consumer producer @
       take (N - length (ring_bytes N ring consumer producer)) Data"
  using assms(2)
proof (induction Data arbitrary: ring producer Offset rule: length_induct)
  case (1 Data)
  let ?n = "unat (producer - consumer)"
  have n: "?n \<le> N" using 1(2) by (simp add: ring_ok_def)
  note avail = available [OF N n]
  show ?case
  proof (cases "Data = [] \<or> ?n = N")
    case True
    then have "ring_write N consumer Data ring producer Offset = (ring, producer, Offset)"
      using avail by (subst ring_write.simps) auto
    then show ?thesis using True 1(2) by auto
  next
    case False
    let ?i = "MASK_RING_IDX N producer" and ?a = "N - ?n"
    define k where "k = min (min (length Data) ?a) (N - ?i)"
    have k: "0 < k" "k \<le> length Data" "k \<le> ?a" "?i + k \<le> N"
      using False n mask_less [OF ring_size_pos [OF N], of producer] by (auto simp: k_def)
    let ?ring = "copy_at ?i (take k Data) ring" and ?p = "producer + of_nat k"
    have len: "length (take k Data) = k" using k(2) by simp
    have step: "ring_ok N ?ring consumer ?p" "ring_bytes N ?ring consumer ?p = ring_bytes N ring consumer producer @ take k Data"
      using ring_write_step [OF N 1(2), of "take k Data"] k n unfolding len by simp_all
    have run: "ring_write N consumer Data ring producer Offset = ring_write N consumer (drop k Data) ?ring ?p (Offset + k)"
      using False avail n by (subst ring_write.simps) (simp add: k_def Let_def)
    have "length (drop k Data) < length Data" using k by simp
    with 1(1) step(1) obtain ring' producer' where IH:
      "ring_write N consumer (drop k Data) ?ring ?p (Offset + k) = (ring', producer', Offset + k +
         min (length (drop k Data)) (N - length (ring_bytes N ?ring consumer ?p)))"
      "ring_ok N ring' consumer producer'" "ring_bytes N ring' consumer producer' = ring_bytes N ?ring consumer ?p @
         take (N - length (ring_bytes N ?ring consumer ?p)) (drop k Data)" by blast
    have left: "length (ring_bytes N ?ring consumer ?p) = ?n + k" using step(2) len by simp
    have "take k Data @ take (?a - k) (drop k Data) = take ?a Data"
      using k(3) by (metis le_add_diff_inverse take_add)
    then have "ring_bytes N ring' consumer producer' = ring_bytes N ring consumer producer @ take ?a Data"
      using IH(3) step(2) left by simp
    moreover have "k + min (length Data - k) (?a - k) = min (length Data) ?a" using k by simp
    ultimately show ?thesis using run IH(1,2) left by simp
  qed
qed

lemma ring_read_step:
  assumes N: "ring_size N" and ok: "ring_ok N ring consumer producer" and k: "k \<le> unat (producer - consumer)"
    and fits: "MASK_RING_IDX N consumer + k \<le> N"
  shows "ring_ok N ring (consumer + of_nat k) producer"
    and "take k (drop (MASK_RING_IDX N consumer) ring) @ ring_bytes N ring (consumer + of_nat k) producer =
      ring_bytes N ring consumer producer"
proof -
  let ?c = "unat consumer" and ?n = "unat (producer - consumer)"
  have len: "length ring = N" using ok by (simp add: ring_ok_def)
  note adv = unat_producer [OF k]
  have fits': "?c mod N + k \<le> N" using fits by (simp add: mask_mod [OF N])
  show "ring_ok N ring (consumer + of_nat k) producer" using ok by (auto simp: ring_ok_def adv)
  show "take k (drop (MASK_RING_IDX N consumer) ring) @ ring_bytes N ring (consumer + of_nat k) producer =
      ring_bytes N ring consumer producer"
  proof (rule nth_equalityI)
    show "length (take k (drop (MASK_RING_IDX N consumer) ring) @ ring_bytes N ring (consumer + of_nat k) producer) =
        length (ring_bytes N ring consumer producer)"
      using k fits len by (simp add: adv)
    fix i assume "i < length (take k (drop (MASK_RING_IDX N consumer) ring) @ ring_bytes N ring (consumer + of_nat k) producer)"
    then have i: "i < ?n" using k fits len by (simp add: adv)
    show "(take k (drop (MASK_RING_IDX N consumer) ring) @ ring_bytes N ring (consumer + of_nat k) producer) ! i =
        ring_bytes N ring consumer producer ! i"
    proof (cases "i < k")
      case True
      then have "?c mod N + i < N" using fits' by simp
      then have "(?c mod N + i) mod N = ?c mod N + i" by (rule mod_less)
      then have "(?c + i) mod N = ?c mod N + i" by (simp only: mod_add_left_eq)
      then show ?thesis using True i len fits by (simp add: nth_append ring_bytes_nth [OF N] mask_mod [OF N])
    next
      case False
      then obtain d where d: "i = k + d" by (metis le_Suc_ex not_less)
      have "(unat (consumer + of_nat k) + d) mod N = (unat (consumer + of_nat k) mod N + d) mod N"
        by (simp only: mod_add_left_eq)
      also have "\<dots> = (?c + i) mod N" by (simp only: unat_add_mod_ring [OF N] mod_add_left_eq d add.assoc)
      finally show ?thesis using False i d len fits adv by (simp add: nth_append ring_bytes_nth [OF N])
    qed
  qed
qed


lemma ring_read_law:
  assumes N: "ring_size N" and "ring_ok N ring consumer producer"
  shows "\<exists>consumer'. ring_read N producer ring Length consumer Data =
       (consumer', Data @ take Length (ring_bytes N ring consumer producer)) \<and>
     ring_ok N ring consumer' producer \<and> ring_bytes N ring consumer' producer = drop Length (ring_bytes N ring consumer producer)"
  using assms(2)
proof (induction Length arbitrary: consumer Data rule: less_induct)
  case (less Length)
  let ?n = "unat (producer - consumer)" and ?i = "MASK_RING_IDX N consumer"
  show ?case
  proof (cases "Length = 0 \<or> ?n = 0")
    case True
    then have "ring_read N producer ring Length consumer Data = (consumer, Data)" by (subst ring_read.simps) auto
    moreover have "?n = 0 \<Longrightarrow> ring_bytes N ring consumer producer = []" by (simp add: ring_bytes_def)
    ultimately show ?thesis using True less.prems by auto
  next
    case False
    define k where "k = min (min Length ?n) (N - ?i)"
    have k: "0 < k" "k \<le> Length" "k \<le> ?n" "?i + k \<le> N"
      using False mask_less [OF ring_size_pos [OF N], of consumer] by (auto simp: k_def)
    note step = ring_read_step [OF N less.prems k(3,4)]
    have run: "ring_read N producer ring Length consumer Data =
        ring_read N producer ring (Length - k) (consumer + of_nat k) (Data @ take k (drop ?i ring))"
      using False ring_size_pos [OF N] by (subst ring_read.simps) (simp add: k_def Let_def)
    have "Length - k < Length" using k by simp
    from less.IH [OF this step(1)] obtain consumer' where IH:
      "ring_read N producer ring (Length - k) (consumer + of_nat k) (Data @ take k (drop ?i ring)) =
         (consumer', (Data @ take k (drop ?i ring)) @ take (Length - k) (ring_bytes N ring (consumer + of_nat k) producer))"
      "ring_ok N ring consumer' producer"
      "ring_bytes N ring consumer' producer = drop (Length - k) (ring_bytes N ring (consumer + of_nat k) producer)" by blast
    have len: "length (take k (drop ?i ring)) = k" using k(4) less.prems by (simp add: ring_ok_def)
    have "take Length (ring_bytes N ring consumer producer) =
        take k (drop ?i ring) @ take (Length - k) (ring_bytes N ring (consumer + of_nat k) producer)"
      "drop Length (ring_bytes N ring consumer producer) = drop (Length - k) (ring_bytes N ring (consumer + of_nat k) producer)"
      using k(2) len by (simp_all add: step(2) [symmetric])
    then show ?thesis using run IH by simp
  qed
qed

section \<open>The interface of a byte stream\<close>

text \<open>
  What the two ends of a ring rely on: \<open>put\<close> appends as many bytes as there is room for and says how
  many, \<open>get\<close> takes bytes from the front. The lemmas of the locale say that nothing is lost,
  duplicated or reordered, whatever way the two ends interleave.
\<close>

datatype stream_op = Put string | Get nat

text \<open>A run gives the bytes written and those taken.\<close>

fun stream_run :: "(string \<Rightarrow> 's \<Rightarrow> nat \<times> 's) \<Rightarrow> (nat \<Rightarrow> 's \<Rightarrow> string \<times> 's) \<Rightarrow> stream_op list \<Rightarrow> 's \<Rightarrow>
    string \<times> string \<times> 's" where
  "stream_run put get [] s = ([], [], s)"
| "stream_run put get (Put Data # ops) s =
     (let (n, s1) = put Data s; (written, taken, s2) = stream_run put get ops s1 in (take n Data @ written, taken, s2))"
| "stream_run put get (Get n # ops) s =
     (let (Data, s1) = get n s; (written, taken, s2) = stream_run put get ops s1 in (written, Data @ taken, s2))"

locale byte_stream =
  fixes ok :: "'s \<Rightarrow> bool"
    and bytes :: "'s \<Rightarrow> string"
    and put :: "string \<Rightarrow> 's \<Rightarrow> nat \<times> 's"
    and get :: "nat \<Rightarrow> 's \<Rightarrow> string \<times> 's"
    and room :: nat
  assumes capacity: "ok s \<Longrightarrow> length (bytes s) \<le> room"
    and put_law: "ok s \<Longrightarrow> \<exists>s'. put Data s = (min (length Data) (room - length (bytes s)), s') \<and> ok s' \<and>
      bytes s' = bytes s @ take (room - length (bytes s)) Data"
    and get_law: "ok s \<Longrightarrow> \<exists>s'. get n s = (take n (bytes s), s') \<and> ok s' \<and> bytes s' = drop n (bytes s)"
begin

lemma stream_fifo:
  "ok s \<Longrightarrow> stream_run put get ops s = (written, taken, s') \<Longrightarrow> ok s' \<and> taken @ bytes s' = bytes s @ written"
proof (induction ops arbitrary: s written taken)
  case (Cons op ops)
  show ?case
  proof (cases op)
    case (Put Data)
    from put_law [OF Cons.prems(1), of Data] obtain s1 where p: "put Data s = (min (length Data) (room - length (bytes s)), s1)"
      "ok s1" "bytes s1 = bytes s @ take (room - length (bytes s)) Data" by blast
    obtain w t where r: "stream_run put get ops s1 = (w, t, s')" "written = take (room - length (bytes s)) Data @ w" "taken = t"
      using Cons.prems(2) p(1) Put by (auto split: prod.splits simp: min_def)
    from Cons.IH [OF p(2) r(1)] show ?thesis using p(3) r(2,3) by simp
  next
    case (Get n)
    from get_law [OF Cons.prems(1), of n] obtain s1 where g: "get n s = (take n (bytes s), s1)" "ok s1" "bytes s1 = drop n (bytes s)"
      by blast
    obtain w t where r: "stream_run put get ops s1 = (w, t, s')" "written = w" "taken = take n (bytes s) @ t"
      using Cons.prems(2) g(1) Get by (auto split: prod.splits)
    from Cons.IH [OF g(2) r(1)] have "t @ bytes s' = drop n (bytes s) @ w" "ok s'" using g(3) by simp_all
    then show ?thesis using r(2,3) by simp
  qed
qed simp

end


end
