(* ===== verification/Store_Ring.thy ===== *)
theory Store_Ring
  imports Ring
begin

text \<open>
  The shared page of the XenStore client (src/src/xenbus/store.c, src/include/xen/public/io/xs\_wire.h):
  two rings of bytes, on which the two copy loops of the driver are those of Ring, and the interpretation of
  \<open>byte_stream\<close> on both. The daemon's end of a ring is the mirror image of the driver's end of the other one.
\<close>

section \<open>The page\<close>

definition XENSTORE_RING_SIZE :: nat where
  "XENSTORE_RING_SIZE = 1024"

lemma store_ring_size: "ring_size XENSTORE_RING_SIZE"
  unfolding ring_size_def XENSTORE_RING_SIZE_def by (rule exI [of _ 10]) simp

record xenstore_domain_interface =
  xs_req :: string
  xs_rsp :: string
  xs_req_cons :: "32 word"
  xs_req_prod :: "32 word"
  xs_rsp_cons :: "32 word"
  xs_rsp_prod :: "32 word"

section \<open>The copy loops\<close>

text \<open>\<^verbatim>\<open>StoreCopyToRing\<close>: the number of bytes copied and the page.\<close>

definition StoreCopyToRing :: "string \<Rightarrow> xenstore_domain_interface \<Rightarrow> nat \<times> xenstore_domain_interface" where
  "StoreCopyToRing Data Shared =
     (case ring_write XENSTORE_RING_SIZE (xs_req_cons Shared) Data (xs_req Shared) (xs_req_prod Shared) 0 of
        (ring, producer, Offset) \<Rightarrow> (Offset, Shared\<lparr>xs_req := ring, xs_req_prod := producer\<rparr>))"

text \<open>\<^verbatim>\<open>StoreCopyFromRing\<close>: the bytes copied and the page.\<close>

definition StoreCopyFromRing :: "nat \<Rightarrow> xenstore_domain_interface \<Rightarrow> string \<times> xenstore_domain_interface" where
  "StoreCopyFromRing Length Shared =
     (case ring_read XENSTORE_RING_SIZE (xs_rsp_prod Shared) (xs_rsp Shared) Length (xs_rsp_cons Shared) [] of
        (consumer, Data) \<Rightarrow> (Data, Shared\<lparr>xs_rsp_cons := consumer\<rparr>))"

text \<open>The daemon's ends, the same two loops on the other ring.\<close>

definition daemon_read :: "nat \<Rightarrow> xenstore_domain_interface \<Rightarrow> string \<times> xenstore_domain_interface" where
  "daemon_read Length Shared =
     (case ring_read XENSTORE_RING_SIZE (xs_req_prod Shared) (xs_req Shared) Length (xs_req_cons Shared) [] of
        (consumer, Data) \<Rightarrow> (Data, Shared\<lparr>xs_req_cons := consumer\<rparr>))"

definition daemon_write :: "string \<Rightarrow> xenstore_domain_interface \<Rightarrow> nat \<times> xenstore_domain_interface" where
  "daemon_write Data Shared =
     (case ring_write XENSTORE_RING_SIZE (xs_rsp_cons Shared) Data (xs_rsp Shared) (xs_rsp_prod Shared) 0 of
        (ring, producer, Offset) \<Rightarrow> (Offset, Shared\<lparr>xs_rsp := ring, xs_rsp_prod := producer\<rparr>))"

section \<open>The two rings\<close>

definition req_ok :: "xenstore_domain_interface \<Rightarrow> bool" where
  "req_ok Shared \<longleftrightarrow> ring_ok XENSTORE_RING_SIZE (xs_req Shared) (xs_req_cons Shared) (xs_req_prod Shared)"

definition req_bytes :: "xenstore_domain_interface \<Rightarrow> string" where
  "req_bytes Shared = ring_bytes XENSTORE_RING_SIZE (xs_req Shared) (xs_req_cons Shared) (xs_req_prod Shared)"

definition rsp_ok :: "xenstore_domain_interface \<Rightarrow> bool" where
  "rsp_ok Shared \<longleftrightarrow> ring_ok XENSTORE_RING_SIZE (xs_rsp Shared) (xs_rsp_cons Shared) (xs_rsp_prod Shared)"

definition rsp_bytes :: "xenstore_domain_interface \<Rightarrow> string" where
  "rsp_bytes Shared = ring_bytes XENSTORE_RING_SIZE (xs_rsp Shared) (xs_rsp_cons Shared) (xs_rsp_prod Shared)"

interpretation req: byte_stream req_ok req_bytes StoreCopyToRing daemon_read 1024
proof
  show "length (req_bytes s) \<le> 1024" if "req_ok s" for s using that by (simp add: XENSTORE_RING_SIZE_def req_ok_def req_bytes_def ring_ok_def)
  show "\<exists>s'. StoreCopyToRing Data s = (min (length Data) (1024 - length (req_bytes s)), s') \<and> req_ok s' \<and>
      req_bytes s' = req_bytes s @ take (1024 - length (req_bytes s)) Data" if "req_ok s" for s Data
    using ring_write_law [OF store_ring_size, of "xs_req s" "xs_req_cons s" "xs_req_prod s" Data 0] that
    by (auto simp: XENSTORE_RING_SIZE_def StoreCopyToRing_def req_ok_def req_bytes_def)
  show "\<exists>s'. daemon_read n s = (take n (req_bytes s), s') \<and> req_ok s' \<and> req_bytes s' = drop n (req_bytes s)"
    if "req_ok s" for s n
    using ring_read_law [OF store_ring_size, of "xs_req s" "xs_req_cons s" "xs_req_prod s" n "[]"] that
    by (auto simp: XENSTORE_RING_SIZE_def daemon_read_def req_ok_def req_bytes_def)
qed

interpretation rsp: byte_stream rsp_ok rsp_bytes daemon_write StoreCopyFromRing 1024
proof
  show "length (rsp_bytes s) \<le> 1024" if "rsp_ok s" for s using that by (simp add: XENSTORE_RING_SIZE_def rsp_ok_def rsp_bytes_def ring_ok_def)
  show "\<exists>s'. daemon_write Data s = (min (length Data) (1024 - length (rsp_bytes s)), s') \<and> rsp_ok s' \<and>
      rsp_bytes s' = rsp_bytes s @ take (1024 - length (rsp_bytes s)) Data" if "rsp_ok s" for s Data
    using ring_write_law [OF store_ring_size, of "xs_rsp s" "xs_rsp_cons s" "xs_rsp_prod s" Data 0] that
    by (auto simp: XENSTORE_RING_SIZE_def daemon_write_def rsp_ok_def rsp_bytes_def)
  show "\<exists>s'. StoreCopyFromRing n s = (take n (rsp_bytes s), s') \<and> rsp_ok s' \<and> rsp_bytes s' = drop n (rsp_bytes s)"
    if "rsp_ok s" for s n
    using ring_read_law [OF store_ring_size, of "xs_rsp s" "xs_rsp_cons s" "xs_rsp_prod s" n "[]"] that
    by (auto simp: XENSTORE_RING_SIZE_def StoreCopyFromRing_def rsp_ok_def rsp_bytes_def)
qed

text \<open>The two rings do not touch each other.\<close>

lemma StoreCopyToRing_frame:
  assumes "StoreCopyToRing Data s = (n, s')"
  shows "rsp_ok s' = rsp_ok s" "rsp_bytes s' = rsp_bytes s" "xs_rsp_cons s' = xs_rsp_cons s" "xs_req_cons s' = xs_req_cons s"
  using assms by (auto simp: StoreCopyToRing_def rsp_ok_def rsp_bytes_def split: prod.splits)

lemma StoreCopyFromRing_frame:
  assumes "StoreCopyFromRing n s = (Data, s')"
  shows "req_ok s' = req_ok s" "req_bytes s' = req_bytes s" "xs_rsp_prod s' = xs_rsp_prod s" "xs_req_prod s' = xs_req_prod s"
  using assms by (auto simp: StoreCopyFromRing_def req_ok_def req_bytes_def split: prod.splits)

end
