(* ===== verification/Store.thy ===== *)
theory Store
  imports Store_Ring Gnttab
begin

text \<open>
  The message layer of the XenStore client (src/src/xenbus/store.c): requests cut into segments and
  sent as the ring has room, responses put together from whatever arrives, responses matched with the
  pending requests, watch events delivered to their watches, and the poll loop over all this. The
  operations clients call are in the theory \<open>Store_Ops\<close>.
\<close>

section \<open>The wire format\<close>

definition XENSTORE_PAYLOAD_MAX :: nat where "XENSTORE_PAYLOAD_MAX = 4096"
definition XENSTORE_ABS_PATH_MAX :: nat where "XENSTORE_ABS_PATH_MAX = 3072"
definition XENSTORE_REL_PATH_MAX :: nat where "XENSTORE_REL_PATH_MAX = 2048"

abbreviation (input) XS_DEBUG :: nat where "XS_DEBUG \<equiv> 0"
abbreviation (input) XS_DIRECTORY :: nat where "XS_DIRECTORY \<equiv> 1"
abbreviation (input) XS_READ :: nat where "XS_READ \<equiv> 2"
abbreviation (input) XS_GET_PERMS :: nat where "XS_GET_PERMS \<equiv> 3"
abbreviation (input) XS_WATCH :: nat where "XS_WATCH \<equiv> 4"
abbreviation (input) XS_UNWATCH :: nat where "XS_UNWATCH \<equiv> 5"
abbreviation (input) XS_TRANSACTION_START :: nat where "XS_TRANSACTION_START \<equiv> 6"
abbreviation (input) XS_TRANSACTION_END :: nat where "XS_TRANSACTION_END \<equiv> 7"
abbreviation (input) XS_INTRODUCE :: nat where "XS_INTRODUCE \<equiv> 8"
abbreviation (input) XS_RELEASE :: nat where "XS_RELEASE \<equiv> 9"
abbreviation (input) XS_GET_DOMAIN_PATH :: nat where "XS_GET_DOMAIN_PATH \<equiv> 10"
abbreviation (input) XS_WRITE :: nat where "XS_WRITE \<equiv> 11"
abbreviation (input) XS_MKDIR :: nat where "XS_MKDIR \<equiv> 12"
abbreviation (input) XS_RM :: nat where "XS_RM \<equiv> 13"
abbreviation (input) XS_SET_PERMS :: nat where "XS_SET_PERMS \<equiv> 14"
abbreviation (input) XS_WATCH_EVENT :: nat where "XS_WATCH_EVENT \<equiv> 15"
abbreviation (input) XS_ERROR :: nat where "XS_ERROR \<equiv> 16"
abbreviation (input) XS_IS_DOMAIN_INTRODUCED :: nat where "XS_IS_DOMAIN_INTRODUCED \<equiv> 17"
abbreviation (input) XS_RESUME :: nat where "XS_RESUME \<equiv> 18"
abbreviation (input) XS_SET_TARGET :: nat where "XS_SET_TARGET \<equiv> 19"
abbreviation (input) XS_RESTRICT :: nat where "XS_RESTRICT \<equiv> 20"

text \<open>Four 32-bit fields, in memory 16 bytes, the least significant byte of each first.\<close>

record xsd_sockmsg =
  sm_type :: nat
  sm_req_id :: nat
  sm_tx_id :: nat
  sm_len :: nat

definition le32 :: "nat \<Rightarrow> string" where
  "le32 n = map char_of [n mod 256, n div 256 mod 256, n div 65536 mod 256, n div 16777216 mod 256]"

definition le32_of :: "string \<Rightarrow> nat" where
  "le32_of s = of_char (s ! 0) + 256 * of_char (s ! 1) + 65536 * of_char (s ! 2) + 16777216 * of_char (s ! 3)"

definition header_bytes :: "xsd_sockmsg \<Rightarrow> string" where
  "header_bytes h = le32 (sm_type h) @ le32 (sm_req_id h) @ le32 (sm_tx_id h) @ le32 (sm_len h)"

definition header_of :: "string \<Rightarrow> xsd_sockmsg" where
  "header_of s = \<lparr>sm_type = le32_of s, sm_req_id = le32_of (drop 4 s), sm_tx_id = le32_of (drop 8 s),
     sm_len = le32_of (drop 12 s)\<rparr>"

definition zero_sockmsg :: xsd_sockmsg where
  "zero_sockmsg = \<lparr>sm_type = 0, sm_req_id = 0, sm_tx_id = 0, sm_len = 0\<rparr>"

section \<open>State\<close>

datatype XENBUS_STORE_REQUEST_STATE =
    XENBUS_STORE_REQUEST_INVALID
  | XENBUS_STORE_REQUEST_PREPARED
  | XENBUS_STORE_REQUEST_SUBMITTED
  | XENBUS_STORE_REQUEST_PENDING
  | XENBUS_STORE_REQUEST_COMPLETED

record XENBUS_STORE_SEGMENT =
  sg_Data :: string
  sg_Offset :: nat
  sg_Length :: nat

text \<open>
  A response: the bytes of the header and of the payload received so far, whose numbers are the
  offsets of the two segments. \<open>rp_Payload\<close> says that the payload segment has its buffer,
  \<open>rp_Length\<close> is its length; the header's is 16.
\<close>

record XENBUS_STORE_RESPONSE =
  rp_Header :: string
  rp_Payload :: bool
  rp_Length :: nat
  rp_Data :: string

definition empty_RESPONSE :: XENBUS_STORE_RESPONSE where
  "empty_RESPONSE = \<lparr>rp_Header = [], rp_Payload = False, rp_Length = 0, rp_Data = []\<rparr>"

definition XENBUS_STORE_REQUEST_SEGMENT_COUNT :: nat where
  "XENBUS_STORE_REQUEST_SEGMENT_COUNT = 8"

record XENBUS_STORE_REQUEST =
  rq_State :: XENBUS_STORE_REQUEST_STATE
  rq_Header :: xsd_sockmsg
  rq_Segment :: "XENBUS_STORE_SEGMENT list"
  rq_Count :: nat
  rq_Index :: nat
  rq_Response :: "XENBUS_STORE_RESPONSE option"

definition zero_REQUEST :: XENBUS_STORE_REQUEST where
  "zero_REQUEST = \<lparr>rq_State = XENBUS_STORE_REQUEST_INVALID, rq_Header = zero_sockmsg, rq_Segment = [], rq_Count = 0,
     rq_Index = 0, rq_Response = None\<rparr>"

record XENBUS_STORE_TRANSACTION =
  tr_Magic :: bool
  tr_Caller :: nat
  tr_Id :: nat
  tr_Active :: bool

record XENBUS_STORE_WATCH =
  wt_Magic :: bool
  wt_Caller :: nat
  wt_Id :: nat
  wt_Path :: string
  wt_Event :: nat
  wt_Active :: bool

record XENBUS_STORE_BUFFER =
  bf_Magic :: bool
  bf_Length :: nat
  bf_Caller :: nat
  bf_Data :: string

text \<open>
  The context. Requests, transactions, watches and buffers live at addresses, the lists link
  addresses. \<open>sc_Signalled\<close> are the events that have been set, \<open>sc_Sends\<close> counts the notifications
  sent through the event channel, \<open>sc_DpcQueued\<close> says that the DPC is queued; the remaining booleans
  say which interfaces, callbacks and the channel are held.
\<close>

record XENBUS_STORE_CONTEXT =
  sc_References :: int
  sc_Shared :: xenstore_domain_interface
  sc_RequestId :: nat
  sc_SubmittedList :: "nat list"
  sc_PendingList :: "nat list"
  sc_Request :: "nat \<Rightarrow> XENBUS_STORE_REQUEST"
  sc_TransactionList :: "nat list"
  sc_Transaction :: "nat \<Rightarrow> XENBUS_STORE_TRANSACTION"
  sc_WatchId :: nat
  sc_WatchList :: "nat list"
  sc_Watch :: "nat \<Rightarrow> XENBUS_STORE_WATCH"
  sc_BufferList :: "nat list"
  sc_Buffer :: "nat \<Rightarrow> XENBUS_STORE_BUFFER"
  sc_Polls :: nat
  sc_Dpcs :: nat
  sc_Events :: nat
  sc_Response :: XENBUS_STORE_RESPONSE
  sc_Signalled :: "nat set"
  sc_Sends :: nat
  sc_DpcQueued :: bool
  sc_Address :: nat
  sc_Mapped :: bool
  sc_Channel :: "nat option"
  sc_Enabled :: bool
  sc_Evtchn :: bool
  sc_Suspend :: bool
  sc_SuspendCallbackEarly :: bool
  sc_SuspendCallbackLate :: bool
  sc_Debug :: bool
  sc_DebugCallback :: bool
  sc_Gnttab :: XENBUS_GNTTAB_CONTEXT

section \<open>Preparing a request\<close>

text \<open>
  The variable arguments are the list of the pieces (the call sites pass each with its length; NUL is
  a piece of one byte). The loop of \<^verbatim>\<open>StorePrepareRequest\<close> fails when there are too many or they are
  too long.
\<close>

fun add_segments :: "string list \<Rightarrow> nat \<Rightarrow> XENBUS_STORE_SEGMENT list \<Rightarrow> (nat \<times> XENBUS_STORE_SEGMENT list) option" where
  "add_segments [] len Segment = Some (len, Segment)"
| "add_segments (Data # args) len Segment =
     (if length Segment \<ge> XENBUS_STORE_REQUEST_SEGMENT_COUNT then None
      else if \<not> len + length Data < 2 ^ 32 \<or> len + length Data > XENSTORE_PAYLOAD_MAX then None
      else add_segments args (len + length Data) (Segment @ [\<lparr>sg_Data = Data, sg_Offset = 0, sg_Length = length Data\<rparr>]))"

text \<open>
  The first segment is the header itself, by address; it is sent after the length has been added up,
  so its bytes are those of the finished header.
\<close>

definition StorePrepareRequest ::
  "nat \<Rightarrow> nat option \<Rightarrow> nat \<Rightarrow> string list \<Rightarrow> XENBUS_STORE_CONTEXT \<Rightarrow> (NTSTATUS \<times> XENBUS_STORE_CONTEXT) kernel" where
  "StorePrepareRequest Request Transaction Type args ctx =
     do {
       ASSERT (sc_Request ctx Request = zero_REQUEST);
       (case (case Transaction of None \<Rightarrow> Some 0
              | Some T \<Rightarrow> if tr_Active (sc_Transaction ctx T) then Some (tr_Id (sc_Transaction ctx T)) else None) of
          None \<Rightarrow> Some (STATUS_UNSUCCESSFUL, ctx)
        | Some tx_id \<Rightarrow>
            let ctx1 = ctx\<lparr>sc_RequestId := (sc_RequestId ctx + 1) mod 2 ^ 16\<rparr>;
                Header = \<lparr>sm_type = Type, sm_req_id = sc_RequestId ctx, sm_tx_id = tx_id, sm_len = 0\<rparr>;
                first = \<lparr>sg_Data = header_bytes Header, sg_Offset = 0, sg_Length = 16\<rparr>
            in case add_segments args 0 [first] of
                 None \<Rightarrow> Some (STATUS_UNSUCCESSFUL, ctx1\<lparr>sc_Request := (sc_Request ctx1)(Request := zero_REQUEST)\<rparr>)
               | Some (len, Segment) \<Rightarrow>
                   let Header1 = Header\<lparr>sm_len := len\<rparr>;
                       Segment1 = Segment[0 := first\<lparr>sg_Data := header_bytes Header1\<rparr>]
                   in Some (STATUS_SUCCESS, ctx1\<lparr>sc_Request := (sc_Request ctx1)(Request :=
                        \<lparr>rq_State = XENBUS_STORE_REQUEST_PREPARED, rq_Header = Header1, rq_Segment = Segment1,
                         rq_Count = length Segment1, rq_Index = 0, rq_Response = None\<rparr>)\<rparr>))
     }"

section \<open>Sending\<close>

definition StoreSendSegment ::
  "XENBUS_STORE_SEGMENT \<Rightarrow> xenstore_domain_interface \<Rightarrow>
     (NTSTATUS \<times> nat \<times> XENBUS_STORE_SEGMENT \<times> xenstore_domain_interface) kernel" where
  "StoreSendSegment Segment Shared =
     (let (Copied, Shared1) = StoreCopyToRing
            (take (sg_Length Segment - sg_Offset Segment) (drop (sg_Offset Segment) (sg_Data Segment))) Shared;
          Segment1 = Segment\<lparr>sg_Offset := sg_Offset Segment + Copied\<rparr>
      in do {
        ASSERT (sg_Offset Segment1 \<le> sg_Length Segment1);
        Some (if sg_Offset Segment1 = sg_Length Segment1 then STATUS_SUCCESS else STATUS_UNSUCCESSFUL,
          Copied, Segment1, Shared1)
      })"

text \<open>The inner loop of \<^verbatim>\<open>StoreSendRequests\<close>: the segments of one request from its index on.\<close>

function send_segments ::
  "XENBUS_STORE_REQUEST \<Rightarrow> xenstore_domain_interface \<Rightarrow> nat \<Rightarrow>
     (XENBUS_STORE_REQUEST \<times> xenstore_domain_interface \<times> nat) kernel" where
  "send_segments rq Shared Written =
     (if rq_Index rq < rq_Count rq then
        Option.bind (StoreSendSegment (rq_Segment rq ! rq_Index rq) Shared) (\<lambda>(status, Copied, Segment, Shared1).
          let rq1 = rq\<lparr>rq_Segment := (rq_Segment rq)[rq_Index rq := Segment]\<rparr> in
          if \<not> NT_SUCCESS status then Some (rq1, Shared1, Written + Copied)
          else send_segments (rq1\<lparr>rq_Index := rq_Index rq1 + 1\<rparr>) Shared1 (Written + Copied))
      else Some (rq, Shared, Written))"
  by pat_completeness auto
termination
  by (relation "measure (\<lambda>(rq, Shared, Written). rq_Count rq - rq_Index rq)") auto

declare send_segments.simps [simp del]

text \<open>The outer loop, over the submitted list.\<close>

fun send_requests :: "nat list \<Rightarrow> XENBUS_STORE_CONTEXT \<Rightarrow> nat \<Rightarrow> (nat \<times> XENBUS_STORE_CONTEXT) kernel" where
  "send_requests [] ctx Written = Some (Written, ctx)"
| "send_requests (r # rs) ctx Written =
     do {
       ASSERT (rq_State (sc_Request ctx r) = XENBUS_STORE_REQUEST_SUBMITTED);
       (rq, Shared, Written1) \<leftarrow> send_segments (sc_Request ctx r) (sc_Shared ctx) Written;
       let ctx1 = ctx\<lparr>sc_Request := (sc_Request ctx)(r := rq), sc_Shared := Shared\<rparr>;
       (if rq_Index rq < rq_Count rq then Some (Written1, ctx1)
        else send_requests rs
          (ctx1\<lparr>sc_SubmittedList := rs, sc_PendingList := sc_PendingList ctx1 @ [r],
                sc_Request := (sc_Request ctx1)(r := rq\<lparr>rq_State := XENBUS_STORE_REQUEST_PENDING\<rparr>)\<rparr>) Written1)
     }"

definition StoreSendRequests :: "XENBUS_STORE_CONTEXT \<Rightarrow> (nat \<times> XENBUS_STORE_CONTEXT) kernel" where
  "StoreSendRequests ctx = send_requests (sc_SubmittedList ctx) ctx 0"


section \<open>Receiving\<close>

definition StoreReceiveSegment ::
  "nat \<Rightarrow> string \<Rightarrow> xenstore_domain_interface \<Rightarrow> (NTSTATUS \<times> nat \<times> string \<times> xenstore_domain_interface) kernel" where
  "StoreReceiveSegment Length Received Shared =
     (let (Data, Shared1) = StoreCopyFromRing (Length - length Received) Shared;
          Received1 = Received @ Data
      in do {
        ASSERT (length Received1 \<le> Length);
        Some (if length Received1 = Length then STATUS_SUCCESS else STATUS_UNSUCCESSFUL, length Data, Received1, Shared1)
      })"

definition StoreIgnoreHeaderType :: "nat \<Rightarrow> bool" where
  "StoreIgnoreHeaderType Type = (Type \<in> {XS_DEBUG, XS_GET_PERMS, XS_INTRODUCE, XS_RELEASE, XS_GET_DOMAIN_PATH,
     XS_MKDIR, XS_IS_DOMAIN_INTRODUCED, XS_RESUME, XS_SET_TARGET, XS_RESTRICT})"

definition StoreVerifyHeader :: "xsd_sockmsg \<Rightarrow> bool" where
  "StoreVerifyHeader Header \<longleftrightarrow>
     \<not> (sm_type Header \<noteq> XS_DIRECTORY \<and> sm_type Header \<noteq> XS_READ \<and> sm_type Header \<noteq> XS_WATCH \<and>
        sm_type Header \<noteq> XS_UNWATCH \<and> sm_type Header \<noteq> XS_TRANSACTION_START \<and> sm_type Header \<noteq> XS_TRANSACTION_END \<and>
        sm_type Header \<noteq> XS_WRITE \<and> sm_type Header \<noteq> XS_RM \<and> sm_type Header \<noteq> XS_SET_PERMS \<and>
        sm_type Header \<noteq> XS_WATCH_EVENT \<and> sm_type Header \<noteq> XS_ERROR \<and> \<not> StoreIgnoreHeaderType (sm_type Header)) \<and>
     \<not> sm_len Header \<ge> XENSTORE_PAYLOAD_MAX"

text \<open>The label \<^verbatim>\<open>payload\<close>, with the bytes read before it.\<close>

definition receive_payload ::
  "nat \<Rightarrow> XENBUS_STORE_CONTEXT \<Rightarrow> (NTSTATUS \<times> nat \<times> XENBUS_STORE_CONTEXT) kernel" where
  "receive_payload Read ctx =
     do {
       let Response = sc_Response ctx;
       (status, n, Data, Shared) \<leftarrow> StoreReceiveSegment (rp_Length Response) (rp_Data Response) (sc_Shared ctx);
       Some (status, Read + n, ctx\<lparr>sc_Shared := Shared, sc_Response := Response\<lparr>rp_Data := Data\<rparr>\<rparr>)
     }"

definition StoreReceiveResponse :: "XENBUS_STORE_CONTEXT \<Rightarrow> (NTSTATUS \<times> nat \<times> XENBUS_STORE_CONTEXT) kernel" where
  "StoreReceiveResponse ctx =
     (if rp_Payload (sc_Response ctx) then receive_payload 0 ctx
      else do {
        (status, n, Header, Shared) \<leftarrow> StoreReceiveSegment 16 (rp_Header (sc_Response ctx)) (sc_Shared ctx);
        let ctx1 = ctx\<lparr>sc_Shared := Shared, sc_Response := (sc_Response ctx)\<lparr>rp_Header := Header\<rparr>\<rparr>;
        (if \<not> NT_SUCCESS status then Some (status, n, ctx1)
         else do {
           ASSERT (StoreVerifyHeader (header_of Header));
           (if sm_len (header_of Header) = 0 then Some (status, n, ctx1)
            else receive_payload n
              (ctx1\<lparr>sc_Response := (sc_Response ctx1)\<lparr>rp_Length := sm_len (header_of Header), rp_Payload := True\<rparr>\<rparr>))
         })
      })"

section \<open>Watch events\<close>

fun find_request :: "(nat \<Rightarrow> XENBUS_STORE_REQUEST) \<Rightarrow> nat list \<Rightarrow> nat \<Rightarrow> nat option" where
  "find_request R [] req_id = None"
| "find_request R (r # rs) req_id = (if sm_req_id (rq_Header (R r)) = req_id then Some r else find_request R rs req_id)"

definition StoreFindRequest :: "XENBUS_STORE_CONTEXT \<Rightarrow> nat \<Rightarrow> nat option" where
  "StoreFindRequest ctx req_id = find_request (sc_Request ctx) (sc_PendingList ctx) req_id"

fun find_watch :: "(nat \<Rightarrow> XENBUS_STORE_WATCH) \<Rightarrow> nat list \<Rightarrow> nat \<Rightarrow> nat option" where
  "find_watch W [] wid = None"
| "find_watch W (w # ws) wid = (if wt_Id (W w) = wid then Some w else find_watch W ws wid)"

definition StoreFindWatch :: "XENBUS_STORE_CONTEXT \<Rightarrow> nat \<Rightarrow> nat option" where
  "StoreFindWatch ctx wid = find_watch (sc_Watch ctx) (sc_WatchList ctx) wid"

text \<open>
  \<^verbatim>\<open>StoreNextWatchId\<close>: the loop may not end (when every id is in use).
\<close>

partial_function (option) StoreNextWatchId :: "XENBUS_STORE_CONTEXT \<Rightarrow> (nat \<times> XENBUS_STORE_CONTEXT) option" where
  "StoreNextWatchId ctx =
     (let wid = sc_WatchId ctx; ctx1 = ctx\<lparr>sc_WatchId := (wid + 1) mod 2 ^ 16\<rparr> in
      if StoreFindWatch ctx1 wid = None then Some (wid, ctx1) else StoreNextWatchId ctx1)"

text \<open>
  \<^verbatim>\<open>_strtoui64\<close> and \<^verbatim>\<open>strtoul\<close> of the C library in base 16: white space, a sign, an optional \<^verbatim>\<open>0x\<close>, digits,
  saturating at \<open>lim\<close>; the value and what follows, which is the whole text when there are no digits.
\<close>

definition NUL :: char where "NUL = CHR 0x00"

definition hex_value :: "char \<Rightarrow> nat option" where
  "hex_value c = (let n = of_char c in
     if 48 \<le> n \<and> n \<le> 57 then Some (n - 48)
     else if 65 \<le> n \<and> n \<le> 70 then Some (n - 55)
     else if 97 \<le> n \<and> n \<le> 102 then Some (n - 87) else None)"

definition is_hex :: "char \<Rightarrow> bool" where
  "is_hex c \<longleftrightarrow> hex_value c \<noteq> None"

definition is_space :: "char \<Rightarrow> bool" where
  "is_space c \<longleftrightarrow> of_char c = (32::nat) \<or> 9 \<le> (of_char c :: nat) \<and> of_char c \<le> (13::nat)"

definition hex_number :: "string \<Rightarrow> nat" where
  "hex_number ds = foldl (\<lambda>n c. n * 16 + the (hex_value c)) 0 ds"

definition skip_0x :: "string \<Rightarrow> string" where
  "skip_0x s = (if length s > 2 \<and> s ! 0 = CHR ''0'' \<and> (s ! 1 = CHR ''x'' \<or> s ! 1 = CHR ''X'') \<and> is_hex (s ! 2)
     then drop 2 s else s)"

definition strtou16 :: "nat \<Rightarrow> string \<Rightarrow> nat \<times> string" where
  "strtou16 lim s =
     (let s1 = dropWhile is_space s;
          neg = (s1 \<noteq> [] \<and> hd s1 = CHR ''-'');
          s2 = (if s1 \<noteq> [] \<and> (hd s1 = CHR ''-'' \<or> hd s1 = CHR ''+'') then tl s1 else s1);
          s3 = skip_0x s2;
          n = min lim (hex_number (takeWhile is_hex s3))
      in if takeWhile is_hex s3 = [] then (0, s)
         else (if neg \<and> n < lim then (lim + 1 - n) mod (lim + 1) else n, dropWhile is_hex s3))"

definition TOKEN_LENGTH :: nat where
  "TOKEN_LENGTH = 26"

text \<open>
  \<^verbatim>\<open>StoreParseWatchEvent\<close> on the bytes of the payload, \<^const>\<open>None\<close> where there is no buffer: reading it is
  a bug check. The results are the path, the caller and the id. \<^verbatim>\<open>End\<close> always points to a byte of
  the payload because its last byte has been found to be NUL.
\<close>

definition StoreParseWatchEvent :: "string option \<Rightarrow> (NTSTATUS \<times> (string \<times> nat \<times> nat) option) kernel" where
  "StoreParseWatchEvent payload =
     do {
       Data \<leftarrow> payload;
       let Path = takeWhile (\<lambda>c. c \<noteq> NUL) Data;
       let rest = dropWhile (\<lambda>c. c \<noteq> NUL) Data;
       (if length rest \<noteq> TOKEN_LENGTH + 1 then Some (STATUS_UNSUCCESSFUL, None)
        else let Token = tl rest in
        if Token ! (length Token - 1) \<noteq> NUL then Some (STATUS_UNSUCCESSFUL, None)
        else if take 4 Token \<noteq> ''TOK|'' then Some (STATUS_UNSUCCESSFUL, None)
        else let (Caller, End) = strtou16 (2 ^ 64 - 1) (drop 4 Token) in
        if hd End \<noteq> CHR ''|'' then Some (STATUS_UNSUCCESSFUL, None)
        else let (wid, End) = strtou16 (2 ^ 32 - 1) (tl End) in
        if hd End \<noteq> NUL then Some (STATUS_UNSUCCESSFUL, None)
        else Some (STATUS_SUCCESS, Some (Path, Caller, wid mod 2 ^ 16)))
     }"

definition response_payload :: "XENBUS_STORE_RESPONSE \<Rightarrow> string option" where
  "response_payload Response = (if rp_Payload Response then Some (rp_Data Response) else None)"

definition StoreProcessWatchEvent :: "XENBUS_STORE_CONTEXT \<Rightarrow> XENBUS_STORE_CONTEXT kernel" where
  "StoreProcessWatchEvent ctx =
     do {
       ASSERT (sm_req_id (header_of (rp_Header (sc_Response ctx))) = 0);
       (status, r) \<leftarrow> StoreParseWatchEvent (response_payload (sc_Response ctx));
       (case r of
          None \<Rightarrow> Some ctx
        | Some (Path, Caller, wid) \<Rightarrow>
            (case StoreFindWatch ctx wid of
               None \<Rightarrow> Some ctx
             | Some Watch \<Rightarrow> do {
                 ASSERT (Caller = wt_Caller (sc_Watch ctx Watch));
                 (if wt_Active (sc_Watch ctx Watch)
                  then Some (ctx\<lparr>sc_Signalled := insert (wt_Event (sc_Watch ctx Watch)) (sc_Signalled ctx)\<rparr>)
                  else Some ctx)
               }))
     }"

section \<open>Responses\<close>

definition StoreResetResponse :: "XENBUS_STORE_CONTEXT \<Rightarrow> XENBUS_STORE_CONTEXT" where
  "StoreResetResponse ctx = ctx\<lparr>sc_Response := empty_RESPONSE\<rparr>"

text \<open>\<^verbatim>\<open>StoreCopyResponse\<close> moves the segments to the copy; the assertion says that one without length has no buffer.\<close>

definition StoreCopyResponse :: "XENBUS_STORE_CONTEXT \<Rightarrow> XENBUS_STORE_RESPONSE kernel" where
  "StoreCopyResponse ctx =
     do {
       ASSERT (rp_Payload (sc_Response ctx) \<longleftrightarrow> rp_Length (sc_Response ctx) \<noteq> 0);
       Some (sc_Response ctx)
     }"

definition StoreProcessResponse :: "XENBUS_STORE_CONTEXT \<Rightarrow> XENBUS_STORE_CONTEXT kernel" where
  "StoreProcessResponse ctx =
     (let Header = header_of (rp_Header (sc_Response ctx)) in
      if StoreIgnoreHeaderType (sm_type Header) then Some (StoreResetResponse ctx)
      else if sm_type Header = XS_WATCH_EVENT then
        do { ctx1 \<leftarrow> StoreProcessWatchEvent ctx; Some (StoreResetResponse ctx1) }
      else case StoreFindRequest ctx (sm_req_id Header) of
        None \<Rightarrow> Some (StoreResetResponse ctx)
      | Some r \<Rightarrow> do {
          ASSERT (rq_State (sc_Request ctx r) = XENBUS_STORE_REQUEST_PENDING);
          let ctx1 = ctx\<lparr>sc_PendingList := remove1 r (sc_PendingList ctx)\<rparr>;
          Response \<leftarrow> StoreCopyResponse ctx1;
          let ctx2 = StoreResetResponse ctx1;
          Some (ctx2\<lparr>sc_Request := (sc_Request ctx2)(r := (sc_Request ctx2 r)
            \<lparr>rq_Response := Some Response, rq_State := XENBUS_STORE_REQUEST_COMPLETED\<rparr>)\<rparr>)
        })"

section \<open>The poll loop\<close>

text \<open>
  \<open>daemon k\<close> is what the other side does to the page before iteration \<open>k\<close>; it may be anything, and the
  loop ends only when an iteration has moved nothing.
\<close>

definition StoreNotify :: "nat \<Rightarrow> XENBUS_STORE_CONTEXT \<Rightarrow> XENBUS_STORE_CONTEXT" where
  "StoreNotify n ctx = (if n \<noteq> 0 then ctx\<lparr>sc_Sends := sc_Sends ctx + 1\<rparr> else ctx)"

definition poll_step ::
  "(xenstore_domain_interface \<Rightarrow> xenstore_domain_interface) \<Rightarrow> XENBUS_STORE_CONTEXT \<Rightarrow>
     (bool \<times> XENBUS_STORE_CONTEXT) kernel" where
  "poll_step daemon ctx =
     do {
       (Written, ctx1) \<leftarrow> StoreSendRequests (ctx\<lparr>sc_Shared := daemon (sc_Shared ctx)\<rparr>);
       let ctx2 = StoreNotify Written ctx1;
       (status, Read, ctx3) \<leftarrow> StoreReceiveResponse ctx2;
       ctx4 \<leftarrow> (if NT_SUCCESS status then StoreProcessResponse ctx3 else Some ctx3);
       Some (Written \<noteq> 0 \<or> Read \<noteq> 0, StoreNotify Read ctx4)
     }"

partial_function (option) poll_loop ::
  "(nat \<Rightarrow> xenstore_domain_interface \<Rightarrow> xenstore_domain_interface) \<Rightarrow> nat \<Rightarrow> XENBUS_STORE_CONTEXT \<Rightarrow>
     XENBUS_STORE_CONTEXT option" where
  "poll_loop daemon k ctx =
     Option.bind (poll_step (daemon k) ctx) (\<lambda>(more, ctx1). if more then poll_loop daemon (Suc k) ctx1 else Some ctx1)"

text \<open>\<open>count\<close> is the event count of the channel, which is returned.\<close>

definition StorePollLocked ::
  "(nat \<Rightarrow> xenstore_domain_interface \<Rightarrow> xenstore_domain_interface) \<Rightarrow> nat \<Rightarrow> XENBUS_STORE_CONTEXT \<Rightarrow>
     (nat \<times> XENBUS_STORE_CONTEXT) kernel" where
  "StorePollLocked daemon count ctx =
     do {
       ctx1 \<leftarrow> poll_loop daemon 0 (ctx\<lparr>sc_Polls := (sc_Polls ctx + 1) mod 2 ^ 32\<rparr>);
       Some (count, ctx1)
     }"

definition StorePoll ::
  "(nat \<Rightarrow> xenstore_domain_interface \<Rightarrow> xenstore_domain_interface) \<Rightarrow> nat \<Rightarrow> XENBUS_STORE_CONTEXT \<Rightarrow>
     XENBUS_STORE_CONTEXT kernel" where
  "StorePoll daemon count ctx =
     (if sc_References ctx \<noteq> 0 then map_option snd (StorePollLocked daemon count ctx) else Some ctx)"

definition StoreDpc ::
  "(nat \<Rightarrow> xenstore_domain_interface \<Rightarrow> xenstore_domain_interface) \<Rightarrow> nat \<Rightarrow> XENBUS_STORE_CONTEXT \<Rightarrow>
     XENBUS_STORE_CONTEXT kernel" where
  "StoreDpc daemon count ctx = StorePoll daemon count (ctx\<lparr>sc_DpcQueued := False\<rparr>)"

section \<open>Submitting a request\<close>

text \<open>
  The loop of \<^verbatim>\<open>StoreSubmitRequest\<close>: wait for an event (a timeout is only reported) and poll again,
  until the request is completed. \<open>daemon j\<close> is the other side during poll \<open>j\<close>.
\<close>

partial_function (option) submit_loop ::
  "(nat \<Rightarrow> nat \<Rightarrow> xenstore_domain_interface \<Rightarrow> xenstore_domain_interface) \<Rightarrow> nat \<Rightarrow> nat \<Rightarrow> XENBUS_STORE_CONTEXT \<Rightarrow>
     XENBUS_STORE_CONTEXT option" where
  "submit_loop daemon j r ctx =
     (if rq_State (sc_Request ctx r) = XENBUS_STORE_REQUEST_COMPLETED then Some ctx
      else Option.bind (StorePollLocked (daemon j) 0 ctx) (\<lambda>(count, ctx1). submit_loop daemon (Suc j) r ctx1))"

text \<open>The result is the response, none when there is no memory for one.\<close>

definition StoreSubmitRequest ::
  "bool \<Rightarrow> (nat \<Rightarrow> nat \<Rightarrow> xenstore_domain_interface \<Rightarrow> xenstore_domain_interface) \<Rightarrow> nat \<Rightarrow> XENBUS_STORE_CONTEXT \<Rightarrow>
     (XENBUS_STORE_RESPONSE option \<times> XENBUS_STORE_CONTEXT) kernel" where
  "StoreSubmitRequest mem daemon r ctx =
     do {
       ASSERT (rq_State (sc_Request ctx r) = XENBUS_STORE_REQUEST_PREPARED);
       (if \<not> mem then Some (None, ctx)
        else do {
          let ctx1 = ctx\<lparr>sc_SubmittedList := sc_SubmittedList ctx @ [r],
            sc_Request := (sc_Request ctx)(r := (sc_Request ctx r)\<lparr>rq_State := XENBUS_STORE_REQUEST_SUBMITTED\<rparr>)\<rparr>;
          (count, ctx2) \<leftarrow> StorePollLocked (daemon 0) 0 ctx1;
          ctx3 \<leftarrow> submit_loop daemon 1 r ctx2;
          Response \<leftarrow> rq_Response (sc_Request ctx3 r);
          ASSERT (sm_type (header_of (rp_Header Response)) = XS_ERROR \<or>
                  sm_type (header_of (rp_Header Response)) = sm_type (rq_Header (sc_Request ctx3 r)));
          Some (Some Response, ctx3\<lparr>sc_Request := (sc_Request ctx3)(r := zero_REQUEST)\<rparr>)
        })
     }"

end
