(* ===== verification/Store_Stream.thy ===== *)
theory Store_Stream
  imports Store
begin

text \<open>
  The laws of the message layer: sending puts the bytes of the submitted requests on the ring in
  order, receiving cuts the byte stream into messages whatever pieces it arrives in, and the poll
  loop refines the delivery of these messages one by one.
\<close>

section \<open>The wire format\<close>

lemma length_le32 [simp]: "length (le32 n) = 4"
  by (simp add: le32_def)

lemma length_header_bytes [simp]: "length (header_bytes h) = 16"
  by (simp add: header_bytes_def)

lemma le32_roundtrip: "n < 2 ^ 32 \<Longrightarrow> le32_of (le32 n @ s) = n"
proof -
  assume n: "n < 2 ^ 32"
  have "n div 65536 = n div 256 div 256" "n div 16777216 = n div 256 div 256 div 256"
    by (simp_all add: div_mult2_eq [symmetric])
  moreover have "n div 256 div 256 div 256 < 256" using n by (simp add: div_mult2_eq [symmetric])
  moreover have "n = n mod 256 + 256 * (n div 256)" "n div 256 = n div 256 mod 256 + 256 * (n div 256 div 256)"
    "n div 256 div 256 = n div 256 div 256 mod 256 + 256 * (n div 256 div 256 div 256)" by (simp_all only: mod_mult_div_eq)
  ultimately have "n mod 256 + 256 * (n div 256 mod 256) + 65536 * (n div 65536 mod 256) + 16777216 * (n div 16777216 mod 256) = n"
    by (simp only: mod_less)
  moreover have "le32_of (le32 n @ s) = n mod 256 + 256 * (n div 256 mod 256) + 65536 * (n div 65536 mod 256) +
      16777216 * (n div 16777216 mod 256)" by (simp add: le32_def le32_of_def)
  ultimately show ?thesis by (simp only:)
qed

definition sockmsg_ok :: "xsd_sockmsg \<Rightarrow> bool" where
  "sockmsg_ok h \<longleftrightarrow> sm_type h < 2 ^ 32 \<and> sm_req_id h < 2 ^ 32 \<and> sm_tx_id h < 2 ^ 32 \<and> sm_len h < 2 ^ 32"

lemma header_roundtrip: "sockmsg_ok h \<Longrightarrow> header_of (header_bytes h @ s) = h"
  by (cases h) (simp add: header_of_def header_bytes_def le32_roundtrip sockmsg_ok_def)

section \<open>Sending\<close>

text \<open>The bytes of a request that have not been sent; the bytes of all submitted requests.\<close>

definition segment_rest :: "XENBUS_STORE_SEGMENT \<Rightarrow> string" where
  "segment_rest sg = drop (sg_Offset sg) (sg_Data sg)"

definition unsent :: "XENBUS_STORE_REQUEST \<Rightarrow> string" where
  "unsent rq = concat (map segment_rest (drop (rq_Index rq) (rq_Segment rq)))"

definition request_wf :: "XENBUS_STORE_REQUEST \<Rightarrow> bool" where
  "request_wf rq \<longleftrightarrow> rq_Count rq = length (rq_Segment rq) \<and> rq_Index rq \<le> rq_Count rq \<and>
     (\<forall>sg \<in> set (rq_Segment rq). sg_Length sg = length (sg_Data sg) \<and> sg_Offset sg \<le> sg_Length sg)"

definition outgoing :: "XENBUS_STORE_CONTEXT \<Rightarrow> string" where
  "outgoing ctx = concat (map (\<lambda>r. unsent (sc_Request ctx r)) (sc_SubmittedList ctx))"

lemma StoreSendSegment_law:
  assumes "sg_Length sg = length (sg_Data sg)" and "sg_Offset sg \<le> sg_Length sg" and "req_ok S"
  shows "\<exists>sg' S'. StoreSendSegment sg S = Some (if segment_rest sg' = [] then STATUS_SUCCESS else STATUS_UNSUCCESSFUL,
       min (length (segment_rest sg)) (1024 - length (req_bytes S)), sg', S') \<and>
     sg_Data sg' = sg_Data sg \<and> sg_Length sg' = sg_Length sg \<and> sg_Offset sg' \<le> sg_Length sg' \<and>
     segment_rest sg' = drop (1024 - length (req_bytes S)) (segment_rest sg) \<and>
     req_ok S' \<and> req_bytes S' = req_bytes S @ take (1024 - length (req_bytes S)) (segment_rest sg) \<and>
     rsp_ok S' = rsp_ok S \<and> rsp_bytes S' = rsp_bytes S"
proof -
  let ?d = "segment_rest sg" and ?room = "1024 - length (req_bytes S)"
  have d: "take (sg_Length sg - sg_Offset sg) (drop (sg_Offset sg) (sg_Data sg)) = ?d" using assms(1) by (simp add: segment_rest_def)
  have len: "length ?d = sg_Length sg - sg_Offset sg" using assms(1) by (simp add: segment_rest_def)
  from req.put_law [OF assms(3), of ?d] obtain S' where S': "StoreCopyToRing ?d S = (min (length ?d) ?room, S')" "req_ok S'"
    "req_bytes S' = req_bytes S @ take ?room ?d" by blast
  let ?sg = "sg\<lparr>sg_Offset := sg_Offset sg + min (length ?d) ?room\<rparr>"
  have le: "sg_Offset ?sg \<le> sg_Length ?sg" using assms(2) len by simp
  have "segment_rest ?sg = drop (min (length ?d) ?room) ?d" by (simp add: segment_rest_def add.commute)
  also have "\<dots> = drop ?room ?d" by (cases "length ?d \<le> ?room") simp_all
  finally have rest: "segment_rest ?sg = drop ?room ?d" .
  have fin: "sg_Offset ?sg = sg_Length ?sg \<longleftrightarrow> segment_rest ?sg = []" using le assms(1) by (auto simp: segment_rest_def)
  have "StoreSendSegment sg S = Some (if segment_rest ?sg = [] then STATUS_SUCCESS else STATUS_UNSUCCESSFUL,
      min (length ?d) ?room, ?sg, S')"
    unfolding StoreSendSegment_def d S'(1) using le fin by (simp only: Let_def prod.case ASSERT_bind if_True)
  then show ?thesis using S' le rest StoreCopyToRing_frame [OF S'(1)]
    by (intro exI [of _ ?sg] exI [of _ S']) simp
qed

lemma request_wf_nth:
  assumes "request_wf rq" and "rq_Index rq < rq_Count rq"
  shows "sg_Length (rq_Segment rq ! rq_Index rq) = length (sg_Data (rq_Segment rq ! rq_Index rq))"
    and "sg_Offset (rq_Segment rq ! rq_Index rq) \<le> sg_Length (rq_Segment rq ! rq_Index rq)"
    and "unsent rq = segment_rest (rq_Segment rq ! rq_Index rq) @
      concat (map segment_rest (drop (Suc (rq_Index rq)) (rq_Segment rq)))"
proof -
  have i: "rq_Index rq < length (rq_Segment rq)" using assms by (simp add: request_wf_def)
  then have "rq_Segment rq ! rq_Index rq \<in> set (rq_Segment rq)" by simp
  then show "sg_Length (rq_Segment rq ! rq_Index rq) = length (sg_Data (rq_Segment rq ! rq_Index rq))"
    "sg_Offset (rq_Segment rq ! rq_Index rq) \<le> sg_Length (rq_Segment rq ! rq_Index rq)"
    using assms(1) unfolding request_wf_def by blast+
  show "unsent rq = segment_rest (rq_Segment rq ! rq_Index rq) @
      concat (map segment_rest (drop (Suc (rq_Index rq)) (rq_Segment rq)))"
    unfolding unsent_def Cons_nth_drop_Suc [OF i, symmetric] by simp
qed

text \<open>A request that waits for room: its current segment has bytes left.\<close>

definition waits :: "XENBUS_STORE_REQUEST \<Rightarrow> bool" where
  "waits rq \<longleftrightarrow> rq_Index rq < rq_Count rq \<and> segment_rest (rq_Segment rq ! rq_Index rq) \<noteq> []"

lemma send_segments_law:
  assumes "request_wf rq" and "req_ok S"
  shows "\<exists>rq' S'. send_segments rq S W = Some (rq', S', W + min (length (unsent rq)) (1024 - length (req_bytes S))) \<and>
     request_wf rq' \<and> (rq_Index rq' < rq_Count rq' \<longleftrightarrow> unsent rq' \<noteq> []) \<and> (unsent rq' \<noteq> [] \<longrightarrow> waits rq') \<and>
     unsent rq' = drop (1024 - length (req_bytes S)) (unsent rq) \<and>
     rq_Header rq' = rq_Header rq \<and> rq_State rq' = rq_State rq \<and> rq_Response rq' = rq_Response rq \<and>
     map sg_Data (rq_Segment rq') = map sg_Data (rq_Segment rq) \<and>
     req_ok S' \<and> req_bytes S' = req_bytes S @ take (1024 - length (req_bytes S)) (unsent rq) \<and>
     rsp_ok S' = rsp_ok S \<and> rsp_bytes S' = rsp_bytes S"
  using assms
proof (induction "rq_Count rq - rq_Index rq" arbitrary: rq S W)
  case 0
  then have "\<not> rq_Index rq < rq_Count rq" "unsent rq = []" by (simp_all add: request_wf_def unsent_def)
  then show ?case using 0 by (subst send_segments.simps) simp
next
  case (Suc k)
  let ?i = "rq_Index rq" and ?room = "1024 - length (req_bytes S)"
  let ?sg = "rq_Segment rq ! ?i" and ?rest = "concat (map segment_rest (drop (Suc (rq_Index rq)) (rq_Segment rq)))"
  let ?d = "segment_rest ?sg"
  have i: "?i < rq_Count rq" "?i < length (rq_Segment rq)" using Suc.hyps(2) Suc.prems(1) by (simp_all add: request_wf_def)
  note nth = request_wf_nth [OF Suc.prems(1) i(1)]
  from StoreSendSegment_law [OF nth(1,2) Suc.prems(2)] obtain sg S1 where s:
    "StoreSendSegment ?sg S = Some (if segment_rest sg = [] then STATUS_SUCCESS else STATUS_UNSUCCESSFUL,
       min (length ?d) ?room, sg, S1)" "sg_Data sg = sg_Data ?sg" "sg_Length sg = sg_Length ?sg" "sg_Offset sg \<le> sg_Length sg"
    "segment_rest sg = drop ?room ?d" "req_ok S1" "req_bytes S1 = req_bytes S @ take ?room ?d"
    "rsp_ok S1 = rsp_ok S" "rsp_bytes S1 = rsp_bytes S" by (elim exE conjE)
  define rq1 where "rq1 = rq\<lparr>rq_Segment := (rq_Segment rq)[?i := sg]\<rparr>"
  have data1: "map sg_Data (rq_Segment rq1) = map sg_Data (rq_Segment rq)"
    using i(2) s(2) by (simp add: rq1_def map_update) (metis list_update_id nth_map)
  have wf1: "request_wf rq1"
    using Suc.prems(1) s(2-4) nth(1) by (auto simp: request_wf_def rq1_def dest!: set_update_subset_insert [THEN subsetD])
  have same1: "rq_Header rq1 = rq_Header rq" "rq_State rq1 = rq_State rq" "rq_Response rq1 = rq_Response rq"
    "rq_Index rq1 = ?i" "rq_Count rq1 = rq_Count rq" by (simp_all add: rq1_def)
  have here: "rq_Segment rq1 ! rq_Index rq1 = sg" and "drop (Suc ?i) (rq_Segment rq1) = drop (Suc ?i) (rq_Segment rq)"
    using i(2) by (simp_all add: rq1_def)
  with here have unsent1: "unsent rq1 = drop ?room ?d @ ?rest"
    using request_wf_nth(3) [OF wf1] i(1) same1(4,5) s(5) by simp
  show ?case
  proof (cases "drop ?room ?d = []")
    case False
    then have room: "?room < length ?d" by simp
    then have "send_segments rq S W = Some (rq1, S1, W + ?room)"
      using i(1) s(1,5) by (subst send_segments.simps) (simp add: rq1_def)
    moreover have "min (length (unsent rq)) ?room = ?room" "drop ?room (unsent rq) = unsent rq1"
      "take ?room (unsent rq) = take ?room ?d" using room nth(3) unsent1 by simp_all
    moreover have "waits rq1" using i(1) same1(4,5) s(5) False here by (simp add: waits_def)
    ultimately show ?thesis using wf1 same1 i(1) False unsent1 s(6-9) data1 by (intro exI [of _ rq1] exI [of _ S1]) simp
  next
    case True
    then have room: "length ?d \<le> ?room" by simp
    define rq2 where "rq2 = rq1\<lparr>rq_Index := Suc ?i\<rparr>"
    have run: "send_segments rq S W = send_segments rq2 S1 (W + length ?d)"
      using i(1) s(1,5) True room by (subst send_segments.simps) (simp add: rq2_def rq1_def)
    have wf2: "request_wf rq2" using wf1 i(1) same1(5) by (auto simp: request_wf_def rq2_def)
    have unsent2: "unsent rq2 = ?rest" using i(2) by (simp add: unsent_def rq2_def rq1_def)
    have k2: "k = rq_Count rq2 - rq_Index rq2" using Suc.hyps(2) same1(5) by (simp add: rq2_def)
    from Suc.hyps(1) [OF k2 wf2 s(6), of "W + length ?d"] obtain rq' S' where IH:
      "send_segments rq2 S1 (W + length ?d) = Some (rq', S', W + length ?d + min (length (unsent rq2)) (1024 - length (req_bytes S1)))"
      "request_wf rq'" "rq_Index rq' < rq_Count rq' \<longleftrightarrow> unsent rq' \<noteq> []" "unsent rq' \<noteq> [] \<longrightarrow> waits rq'"
      "unsent rq' = drop (1024 - length (req_bytes S1)) (unsent rq2)"
      "rq_Header rq' = rq_Header rq2" "rq_State rq' = rq_State rq2" "rq_Response rq' = rq_Response rq2"
      "map sg_Data (rq_Segment rq') = map sg_Data (rq_Segment rq2)" "req_ok S'"
      "req_bytes S' = req_bytes S1 @ take (1024 - length (req_bytes S1)) (unsent rq2)"
      "rsp_ok S' = rsp_ok S1" "rsp_bytes S' = rsp_bytes S1" by (elim exE conjE)
    have left: "1024 - length (req_bytes S1) = ?room - length ?d" using s(7) room by simp
    have "min (length (unsent rq)) ?room = length ?d + min (length (unsent rq2)) (?room - length ?d)"
      "drop ?room (unsent rq) = drop (?room - length ?d) (unsent rq2)"
      "take ?room (unsent rq) = ?d @ take (?room - length ?d) (unsent rq2)"
      using nth(3) unsent2 room by simp_all
    then show ?thesis using run IH s(7-9) left same1 data1 room
      by (intro exI [of _ rq'] exI [of _ S']) (simp add: rq2_def)
  qed
qed


text \<open>
  The whole submitted list: what goes to the ring is a prefix of the bytes of the requests one after
  the other, the requests that are through move to the pending list in order.
\<close>

definition submitted_wf :: "XENBUS_STORE_CONTEXT \<Rightarrow> bool" where
  "submitted_wf ctx \<longleftrightarrow> distinct (sc_PendingList ctx @ sc_SubmittedList ctx) \<and>
     (\<forall>r \<in> set (sc_SubmittedList ctx). rq_State (sc_Request ctx r) = XENBUS_STORE_REQUEST_SUBMITTED \<and>
        request_wf (sc_Request ctx r)) \<and>
     (\<forall>r \<in> set (sc_PendingList ctx). rq_State (sc_Request ctx r) = XENBUS_STORE_REQUEST_PENDING)"

text \<open>What stays of a request while it is being sent.\<close>

definition same_request :: "XENBUS_STORE_REQUEST \<Rightarrow> XENBUS_STORE_REQUEST \<Rightarrow> bool" where
  "same_request rq rq' \<longleftrightarrow> rq_Header rq' = rq_Header rq \<and> rq_Response rq' = rq_Response rq \<and>
     map sg_Data (rq_Segment rq') = map sg_Data (rq_Segment rq)"

lemma same_request_refl [simp]: "same_request rq rq" by (simp add: same_request_def)

lemma same_request_trans: "same_request a b \<Longrightarrow> same_request b c \<Longrightarrow> same_request a c" by (simp add: same_request_def)

lemma send_requests_law:
  assumes "submitted_wf ctx" and "req_ok (sc_Shared ctx)"
  shows "\<exists>sent R S ctx'. send_requests (sc_SubmittedList ctx) ctx W =
       Some (W + min (length (outgoing ctx)) (1024 - length (req_bytes (sc_Shared ctx))), ctx') \<and>
     ctx' = ctx\<lparr>sc_Request := R, sc_Shared := S, sc_SubmittedList := drop (length sent) (sc_SubmittedList ctx),
       sc_PendingList := sc_PendingList ctx @ sent\<rparr> \<and>
     sc_SubmittedList ctx = sent @ sc_SubmittedList ctx' \<and> submitted_wf ctx' \<and>
     outgoing ctx' = drop (1024 - length (req_bytes (sc_Shared ctx))) (outgoing ctx) \<and>
     (sc_SubmittedList ctx' = [] \<or> outgoing ctx' \<noteq> [] \<and> waits (R (hd (sc_SubmittedList ctx')))) \<and>
     (\<forall>r. same_request (sc_Request ctx r) (R r)) \<and> (\<forall>r. r \<notin> set (sc_SubmittedList ctx) \<longrightarrow> R r = sc_Request ctx r) \<and>
     req_ok S \<and> req_bytes S = req_bytes (sc_Shared ctx) @ take (1024 - length (req_bytes (sc_Shared ctx))) (outgoing ctx) \<and>
     rsp_ok S = rsp_ok (sc_Shared ctx) \<and> rsp_bytes S = rsp_bytes (sc_Shared ctx)"
  using assms
proof (induction "sc_SubmittedList ctx" arbitrary: ctx W)
  case Nil
  have "ctx = ctx\<lparr>sc_Request := sc_Request ctx, sc_Shared := sc_Shared ctx, sc_SubmittedList := [], sc_PendingList := sc_PendingList ctx\<rparr>"
    using Nil(1) by (cases ctx) simp
  then show ?case using Nil
    by (intro exI [of _ "[]"] exI [of _ "sc_Request ctx"] exI [of _ "sc_Shared ctx"] exI [of _ ctx])
      (simp add: outgoing_def)
next
  case (Cons r rs)
  let ?S = "sc_Shared ctx" and ?rq = "sc_Request ctx r"
  let ?room = "1024 - length (req_bytes ?S)"
  have list: "sc_SubmittedList ctx = r # rs" using Cons.hyps(2) by simp
  have wf: "distinct (sc_PendingList ctx @ r # rs)" "rq_State ?rq = XENBUS_STORE_REQUEST_SUBMITTED" "request_wf ?rq"
    "\<forall>q \<in> set rs. rq_State (sc_Request ctx q) = XENBUS_STORE_REQUEST_SUBMITTED \<and> request_wf (sc_Request ctx q)"
    "\<forall>q \<in> set (sc_PendingList ctx). rq_State (sc_Request ctx q) = XENBUS_STORE_REQUEST_PENDING"
    using Cons.prems(1) list by (simp_all add: submitted_wf_def)
  from send_segments_law [OF wf(3) Cons.prems(2), of W] obtain rq S1 where s:
    "send_segments ?rq ?S W = Some (rq, S1, W + min (length (unsent ?rq)) ?room)" "request_wf rq"
    "rq_Index rq < rq_Count rq \<longleftrightarrow> unsent rq \<noteq> []" "unsent rq = drop ?room (unsent ?rq)"
    "unsent rq \<noteq> [] \<longrightarrow> waits rq" "rq_Header rq = rq_Header ?rq" "rq_State rq = rq_State ?rq" "rq_Response rq = rq_Response ?rq"
    "map sg_Data (rq_Segment rq) = map sg_Data (rq_Segment ?rq)" "req_ok S1"
    "req_bytes S1 = req_bytes ?S @ take ?room (unsent ?rq)" "rsp_ok S1 = rsp_ok ?S" "rsp_bytes S1 = rsp_bytes ?S" by (elim exE conjE)
  define rest where "rest = concat (map (\<lambda>q. unsent (sc_Request ctx q)) rs)"
  have out: "outgoing ctx = unsent ?rq @ rest" by (simp add: outgoing_def list rest_def)
  have fresh: "r \<notin> set rs" "r \<notin> set (sc_PendingList ctx)" using wf(1) by auto
  show ?case
  proof (cases "unsent rq = []")
    case False
    let ?R = "(sc_Request ctx)(r := rq)"
    let ?ctx = "ctx\<lparr>sc_Request := ?R, sc_Shared := S1\<rparr>"
    have room: "?room < length (unsent ?rq)" using False s(4) by simp
    have run: "send_requests (sc_SubmittedList ctx) ctx W = Some (W + ?room, ?ctx)"
      unfolding list using wf(2) s(1,3) False room by simp
    have "map (\<lambda>q. unsent (?R q)) rs = map (\<lambda>q. unsent (sc_Request ctx q)) rs" using fresh by auto
    then have "concat (map (\<lambda>q. unsent (?R q)) rs) = rest" by (simp only: rest_def)
    then have out': "outgoing ?ctx = unsent rq @ rest" by (simp add: outgoing_def list)
    have "submitted_wf ?ctx" using Cons.prems(1) s(2,7) wf(2) fresh by (auto simp: submitted_wf_def list)
    moreover have "?ctx = ctx\<lparr>sc_Request := ?R, sc_Shared := S1, sc_SubmittedList := drop (length []) (sc_SubmittedList ctx),
        sc_PendingList := sc_PendingList ctx @ []\<rparr>" by (cases ctx) simp
    moreover have "min (length (outgoing ctx)) ?room = ?room" "drop ?room (outgoing ctx) = unsent rq @ rest"
      "take ?room (outgoing ctx) = take ?room (unsent ?rq)" using room s(4) out by simp_all
    moreover have "r \<in> set (sc_SubmittedList ctx)" using list by simp
    ultimately show ?thesis using run s(5,6,8-13) out' False list
      by (intro exI [of _ "[]"] exI [of _ ?R] exI [of _ S1] exI [of _ ?ctx]) (simp add: same_request_def)
  next
    case True
    let ?rq' = "rq\<lparr>rq_State := XENBUS_STORE_REQUEST_PENDING\<rparr>"
    let ?R1 = "(sc_Request ctx)(r := ?rq')"
    let ?ctx1 = "ctx\<lparr>sc_Request := ?R1, sc_Shared := S1, sc_SubmittedList := rs, sc_PendingList := sc_PendingList ctx @ [r]\<rparr>"
    have room: "length (unsent ?rq) \<le> ?room" using True s(4) by simp
    have eq: "ctx\<lparr>sc_Shared := S1, sc_SubmittedList := rs,
        sc_PendingList := sc_PendingList ctx @ [r], sc_Request := ?R1\<rparr> = ?ctx1" by (cases ctx) simp
    have run: "send_requests (sc_SubmittedList ctx) ctx W =
        send_requests (sc_SubmittedList ?ctx1) ?ctx1 (W + length (unsent ?rq))"
      unfolding list eq [symmetric] using wf(2) s(1,3) True room by (simp add: min_absorb1)
    have wf1: "submitted_wf ?ctx1" using wf fresh by (auto simp: submitted_wf_def)
    have "map (\<lambda>q. unsent (?R1 q)) rs = map (\<lambda>q. unsent (sc_Request ctx q)) rs" using fresh by auto
    then have "concat (map (\<lambda>q. unsent (?R1 q)) rs) = rest" by (simp only: rest_def)
    then have out1: "outgoing ?ctx1 = rest" by (simp add: outgoing_def)
    have sel: "sc_Shared ?ctx1 = S1" "sc_SubmittedList ?ctx1 = rs" "sc_Request ?ctx1 = ?R1"
      "sc_PendingList ?ctx1 = sc_PendingList ctx @ [r]" by simp_all
    have "rs = sc_SubmittedList ?ctx1" "req_ok (sc_Shared ?ctx1)" using s(10) by simp_all
    note hyp = Cons.hyps(1) [OF this(1) wf1 this(2), of "W + length (unsent ?rq)", unfolded out1 sel]
    then obtain sent R S ctx' where IH:
      "send_requests rs ?ctx1 (W + length (unsent ?rq)) =
         Some (W + length (unsent ?rq) + min (length rest) (1024 - length (req_bytes S1)), ctx')"
      "ctx' = ?ctx1\<lparr>sc_Request := R, sc_Shared := S, sc_SubmittedList := drop (length sent) rs,
         sc_PendingList := (sc_PendingList ctx @ [r]) @ sent\<rparr>"
      "rs = sent @ sc_SubmittedList ctx'" "submitted_wf ctx'"
      "outgoing ctx' = drop (1024 - length (req_bytes S1)) rest" "sc_SubmittedList ctx' = [] \<or> outgoing ctx' \<noteq> [] \<and> waits (R (hd (sc_SubmittedList ctx')))"
      "\<forall>q. same_request (?R1 q) (R q)" "\<forall>q. q \<notin> set rs \<longrightarrow> R q = ?R1 q" "req_ok S"
      "req_bytes S = req_bytes S1 @ take (1024 - length (req_bytes S1)) rest" "rsp_ok S = rsp_ok S1" "rsp_bytes S = rsp_bytes S1"
      by (elim exE conjE)
    have left: "1024 - length (req_bytes S1) = ?room - length (unsent ?rq)" using s(11) room by simp
    have "min (length (outgoing ctx)) ?room = length (unsent ?rq) + min (length rest) (?room - length (unsent ?rq))"
      "drop ?room (outgoing ctx) = drop (?room - length (unsent ?rq)) rest"
      "take ?room (outgoing ctx) = unsent ?rq @ take (?room - length (unsent ?rq)) rest" using out room by simp_all
    moreover have "ctx' = ctx\<lparr>sc_Request := R, sc_Shared := S, sc_SubmittedList := drop (length (r # sent)) (sc_SubmittedList ctx),
        sc_PendingList := sc_PendingList ctx @ r # sent\<rparr>" unfolding IH(2) list by (cases ctx) simp
    moreover have "same_request (sc_Request ctx q) (R q)" for q
      using IH(7) s(6,8,9) by (cases "q = r") (auto simp: same_request_def)
    moreover have "R q = sc_Request ctx q" if "q \<notin> set (r # rs)" for q using IH(8) that by simp
    ultimately show ?thesis using run [unfolded sel] IH(1,3-6,9-12) s(10-13) left list
      by (intro exI [of _ "r # sent"] exI [of _ R] exI [of _ S] exI [of _ ctx']) (simp add: room)
  qed
qed


text \<open>A waiting request in front of a full ring: sending changes nothing.\<close>

lemma StoreSendSegment_stuck:
  assumes "sg_Length sg = length (sg_Data sg)" and "segment_rest sg \<noteq> []" and "req_ok S" and "length (req_bytes S) = 1024"
  shows "StoreSendSegment sg S = Some (STATUS_UNSUCCESSFUL, 0, sg, S)"
proof -
  have d: "take (sg_Length sg - sg_Offset sg) (drop (sg_Offset sg) (sg_Data sg)) = segment_rest sg"
    using assms(1) by (simp add: segment_rest_def)
  have full: "unat (xs_req_prod S - xs_req_cons S) = 1024" using assms(4) by (simp add: req_bytes_def)
  then have "ring_write XENSTORE_RING_SIZE (xs_req_cons S) (segment_rest sg) (xs_req S) (xs_req_prod S) 0 = (xs_req S, xs_req_prod S, 0)"
    using available [OF store_ring_size, of "xs_req_prod S" "xs_req_cons S"] by (subst ring_write.simps) (simp add: XENSTORE_RING_SIZE_def)
  then have "StoreCopyToRing (segment_rest sg) S = (0, S)" by (cases S) (simp add: StoreCopyToRing_def)
  moreover have "sg_Offset sg < sg_Length sg" using assms(1,2) by (simp add: segment_rest_def)
  moreover have "sg\<lparr>sg_Offset := sg_Offset sg + 0\<rparr> = sg" by (cases sg) simp
  ultimately show ?thesis unfolding StoreSendSegment_def d by simp
qed

definition blocked :: "XENBUS_STORE_CONTEXT \<Rightarrow> bool" where
  "blocked ctx \<longleftrightarrow> sc_SubmittedList ctx = [] \<or>
     (waits (sc_Request ctx (hd (sc_SubmittedList ctx))) \<and> length (req_bytes (sc_Shared ctx)) = 1024)"

lemma send_blocked:
  assumes "submitted_wf ctx" and "req_ok (sc_Shared ctx)" and "blocked ctx"
  shows "StoreSendRequests ctx = Some (0, ctx)"
proof (cases "sc_SubmittedList ctx")
  case Nil
  then show ?thesis by (simp add: StoreSendRequests_def)
next
  case (Cons r rs)
  let ?rq = "sc_Request ctx r" and ?S = "sc_Shared ctx"
  let ?i = "rq_Index ?rq"
  have wf: "rq_State ?rq = XENBUS_STORE_REQUEST_SUBMITTED" "request_wf ?rq" "waits ?rq" "length (req_bytes ?S) = 1024"
    using assms(1,3) Cons by (simp_all add: submitted_wf_def blocked_def)
  have i: "?i < rq_Count ?rq" "segment_rest (rq_Segment ?rq ! ?i) \<noteq> []" using wf(3) by (simp_all add: waits_def)
  note seg = StoreSendSegment_stuck [OF request_wf_nth(1) [OF wf(2) i(1)] i(2) assms(2) wf(4)]
  have "?rq\<lparr>rq_Segment := (rq_Segment ?rq)[?i := rq_Segment ?rq ! ?i]\<rparr> = ?rq" by (cases ?rq) simp
  then have "send_segments ?rq ?S 0 = Some (?rq, ?S, 0)"
    using i(1) seg by (subst send_segments.simps) simp
  moreover have "ctx\<lparr>sc_Request := (sc_Request ctx)(r := ?rq), sc_Shared := ?S\<rparr> = ctx" by (cases ctx) simp
  ultimately show ?thesis using wf(1) i(1) Cons by (simp add: StoreSendRequests_def)
qed

lemma StoreSendRequests_law:
  assumes "submitted_wf ctx" and "req_ok (sc_Shared ctx)"
  shows "\<exists>sent R S ctx'. StoreSendRequests ctx =
       Some (min (length (outgoing ctx)) (1024 - length (req_bytes (sc_Shared ctx))), ctx') \<and>
     ctx' = ctx\<lparr>sc_Request := R, sc_Shared := S, sc_SubmittedList := drop (length sent) (sc_SubmittedList ctx),
       sc_PendingList := sc_PendingList ctx @ sent\<rparr> \<and>
     sc_SubmittedList ctx = sent @ sc_SubmittedList ctx' \<and> submitted_wf ctx' \<and> blocked ctx' \<and>
     outgoing ctx' = drop (1024 - length (req_bytes (sc_Shared ctx))) (outgoing ctx) \<and>
     (\<forall>r. same_request (sc_Request ctx r) (R r)) \<and> (\<forall>r. r \<notin> set (sc_SubmittedList ctx) \<longrightarrow> R r = sc_Request ctx r) \<and>
     req_ok S \<and> req_bytes S = req_bytes (sc_Shared ctx) @ take (1024 - length (req_bytes (sc_Shared ctx))) (outgoing ctx) \<and>
     rsp_ok S = rsp_ok (sc_Shared ctx) \<and> rsp_bytes S = rsp_bytes (sc_Shared ctx)"
proof -
  from send_requests_law [OF assms, of 0] obtain sent R S ctx' where l: "send_requests (sc_SubmittedList ctx) ctx 0 =
       Some (0 + min (length (outgoing ctx)) (1024 - length (req_bytes (sc_Shared ctx))), ctx')"
     "ctx' = ctx\<lparr>sc_Request := R, sc_Shared := S, sc_SubmittedList := drop (length sent) (sc_SubmittedList ctx),
       sc_PendingList := sc_PendingList ctx @ sent\<rparr>"
     "sc_SubmittedList ctx = sent @ sc_SubmittedList ctx'" "submitted_wf ctx'"
     "outgoing ctx' = drop (1024 - length (req_bytes (sc_Shared ctx))) (outgoing ctx)"
     "sc_SubmittedList ctx' = [] \<or> outgoing ctx' \<noteq> [] \<and> waits (R (hd (sc_SubmittedList ctx')))"
     "\<forall>r. same_request (sc_Request ctx r) (R r)" "\<forall>r. r \<notin> set (sc_SubmittedList ctx) \<longrightarrow> R r = sc_Request ctx r"
     "req_ok S" "req_bytes S = req_bytes (sc_Shared ctx) @ take (1024 - length (req_bytes (sc_Shared ctx))) (outgoing ctx)"
     "rsp_ok S = rsp_ok (sc_Shared ctx)" "rsp_bytes S = rsp_bytes (sc_Shared ctx)" by (elim exE conjE)
  have "length (req_bytes S) = 1024" if "outgoing ctx' \<noteq> []"
    using that l(5,10) req.capacity [OF assms(2)] by simp
  moreover have "sc_Request ctx' = R" "sc_Shared ctx' = S" by (simp_all add: l(2))
  ultimately have "blocked ctx'" using l(6) unfolding blocked_def by metis
  then show ?thesis using l unfolding StoreSendRequests_def add_0 by blast
qed

section \<open>Receiving\<close>

definition received :: "XENBUS_STORE_RESPONSE \<Rightarrow> string" where
  "received rp = rp_Header rp @ rp_Data rp"

text \<open>Between polls the response is incomplete.\<close>

definition response_wf :: "XENBUS_STORE_RESPONSE \<Rightarrow> bool" where
  "response_wf rp \<longleftrightarrow>
     (if rp_Payload rp
      then length (rp_Header rp) = 16 \<and> StoreVerifyHeader (header_of (rp_Header rp)) \<and>
        rp_Length rp = sm_len (header_of (rp_Header rp)) \<and> length (rp_Data rp) < rp_Length rp
      else length (rp_Header rp) < 16 \<and> rp_Length rp = 0 \<and> rp_Data rp = [])"

text \<open>The message at the front of a byte stream: its header, its length, the response it makes.\<close>

definition front :: "string \<Rightarrow> xsd_sockmsg" where
  "front bs = header_of (take 16 bs)"

definition message_length :: "string \<Rightarrow> nat" where
  "message_length bs = 16 + sm_len (front bs)"

definition full_response :: "string \<Rightarrow> XENBUS_STORE_RESPONSE" where
  "full_response bs = \<lparr>rp_Header = take 16 bs, rp_Payload = (sm_len (front bs) \<noteq> 0), rp_Length = sm_len (front bs),
     rp_Data = take (sm_len (front bs)) (drop 16 bs)\<rparr>"

lemma StoreReceiveSegment_law:
  assumes "length Received \<le> n" and "rsp_ok S"
  shows "\<exists>S'. StoreReceiveSegment n Received S =
       Some (if n - length Received \<le> length (rsp_bytes S) then STATUS_SUCCESS else STATUS_UNSUCCESSFUL,
         min (n - length Received) (length (rsp_bytes S)), Received @ take (n - length Received) (rsp_bytes S), S') \<and>
     rsp_ok S' \<and> rsp_bytes S' = drop (n - length Received) (rsp_bytes S) \<and> req_ok S' = req_ok S \<and> req_bytes S' = req_bytes S"
proof -
  let ?k = "n - length Received" and ?b = "rsp_bytes S"
  from rsp.get_law [OF assms(2), of ?k] obtain S' where S': "StoreCopyFromRing ?k S = (take ?k ?b, S')" "rsp_ok S'"
    "rsp_bytes S' = drop ?k ?b" by blast
  define k where "k = ?k"
  have k: "n = length Received + k" using assms(1) by (simp add: k_def)
  have len: "length (Received @ take ?k ?b) \<le> n" "length (Received @ take ?k ?b) = n \<longleftrightarrow> ?k \<le> length ?b"
    "length (take ?k ?b) = min ?k (length ?b)" unfolding k by (auto simp: min_def)
  have "StoreReceiveSegment n Received S = Some (if ?k \<le> length ?b then STATUS_SUCCESS else STATUS_UNSUCCESSFUL,
      min ?k (length ?b), Received @ take ?k ?b, S')"
    unfolding StoreReceiveSegment_def S'(1) using len by (simp only: Let_def prod.case ASSERT_bind if_True)
  then show ?thesis using S'(2,3) StoreCopyFromRing_frame [OF S'(1)] by (intro exI [of _ S']) simp
qed

lemma receive_payload_law:
  assumes rp: "rp_Payload (sc_Response ctx)" "length (rp_Header (sc_Response ctx)) = 16"
      "rp_Length (sc_Response ctx) = sm_len (header_of (rp_Header (sc_Response ctx)))"
      "StoreVerifyHeader (header_of (rp_Header (sc_Response ctx)))" "length (rp_Data (sc_Response ctx)) < rp_Length (sc_Response ctx)"
    and ok: "rsp_ok (sc_Shared ctx)" and bs: "bs = received (sc_Response ctx) @ rsp_bytes (sc_Shared ctx)"
  shows "\<exists>S' rp'. receive_payload n ctx =
       Some (if message_length bs \<le> length bs then STATUS_SUCCESS else STATUS_UNSUCCESSFUL,
         n + (length (rsp_bytes (sc_Shared ctx)) - length (rsp_bytes S')), ctx\<lparr>sc_Shared := S', sc_Response := rp'\<rparr>) \<and>
     rsp_ok S' \<and> req_ok S' = req_ok (sc_Shared ctx) \<and> req_bytes S' = req_bytes (sc_Shared ctx) \<and>
     rsp_bytes S' = drop (message_length bs) bs \<and>
     (if message_length bs \<le> length bs then rp' = full_response bs else response_wf rp' \<and> received rp' = bs)"
proof -
  let ?r = "sc_Response ctx" and ?S = "sc_Shared ctx"
  let ?L = "rp_Length ?r" and ?d = "rp_Data ?r"
  from StoreReceiveSegment_law [of ?d ?L ?S] rp(5) ok obtain S' where s:
    "StoreReceiveSegment ?L ?d ?S = Some (if ?L - length ?d \<le> length (rsp_bytes ?S) then STATUS_SUCCESS else STATUS_UNSUCCESSFUL,
       min (?L - length ?d) (length (rsp_bytes ?S)), ?d @ take (?L - length ?d) (rsp_bytes ?S), S')"
    "rsp_ok S'" "rsp_bytes S' = drop (?L - length ?d) (rsp_bytes ?S)" "req_ok S' = req_ok ?S" "req_bytes S' = req_bytes ?S" by auto
  have fr: "front bs = header_of (rp_Header ?r)" "message_length bs = 16 + ?L" "sm_len (front bs) = ?L"
    using rp(2,3) by (simp_all add: front_def bs received_def message_length_def)
  have fits: "message_length bs \<le> length bs \<longleftrightarrow> ?L - length ?d \<le> length (rsp_bytes ?S)"
    using fr(2) rp(2,5) by (auto simp: bs received_def)
  have moved: "min (?L - length ?d) (length (rsp_bytes ?S)) = length (rsp_bytes ?S) - length (rsp_bytes S')"
    using s(3) by simp
  have left: "drop (message_length bs) bs = rsp_bytes S'" using fr(2) rp(2,5) s(3) by (simp add: bs received_def)
  let ?rp = "?r\<lparr>rp_Data := ?d @ take (?L - length ?d) (rsp_bytes ?S)\<rparr>"
  have run: "receive_payload n ctx = Some (if message_length bs \<le> length bs then STATUS_SUCCESS else STATUS_UNSUCCESSFUL,
      n + (length (rsp_bytes ?S) - length (rsp_bytes S')), ctx\<lparr>sc_Shared := S', sc_Response := ?rp\<rparr>)"
    unfolding receive_payload_def Let_def s(1) fits moved by simp
  have "if message_length bs \<le> length bs then ?rp = full_response bs else response_wf ?rp \<and> received ?rp = bs"
  proof (cases "message_length bs \<le> length bs")
    case True
    have "take ?L (drop 16 bs) = ?d @ take (?L - length ?d) (rsp_bytes ?S)"
      using rp(2,5) by (simp add: bs received_def)
    moreover have "take 16 bs = rp_Header ?r" "?L \<noteq> 0" using rp(2,5) by (simp_all add: bs received_def)
    ultimately have "?rp = full_response bs" using rp(1) fr(3) by (cases ?r) (simp add: full_response_def)
    then show ?thesis using True by simp
  next
    case False
    then have "length (rsp_bytes ?S) < ?L - length ?d" using fits by simp
    then show ?thesis using False rp by (simp add: response_wf_def received_def bs)
  qed
  then show ?thesis using run s left by (intro exI [of _ S'] exI [of _ ?rp]) simp
qed

text \<open>What receiving leaves: a complete message at the front, or everything there was as a part of one.\<close>

definition receive_result ::
  "string \<Rightarrow> xenstore_domain_interface \<Rightarrow> xenstore_domain_interface \<Rightarrow> XENBUS_STORE_RESPONSE \<Rightarrow> bool" where
  "receive_result bs S S' rp' \<longleftrightarrow> rsp_ok S' \<and> req_ok S' = req_ok S \<and> req_bytes S' = req_bytes S \<and>
     (if 16 \<le> length bs \<and> message_length bs \<le> length bs
      then rp' = full_response bs \<and> rsp_bytes S' = drop (message_length bs) bs
      else response_wf rp' \<and> received rp' = bs \<and> rsp_bytes S' = [])"

lemma StoreReceiveResponse_law:
  assumes wf: "response_wf (sc_Response ctx)" and ok: "rsp_ok (sc_Shared ctx)"
    and bs: "bs = received (sc_Response ctx) @ rsp_bytes (sc_Shared ctx)"
    and good: "16 \<le> length bs \<longrightarrow> StoreVerifyHeader (front bs)"
  shows "\<exists>S' rp'. StoreReceiveResponse ctx =
       Some (if 16 \<le> length bs \<and> message_length bs \<le> length bs then STATUS_SUCCESS else STATUS_UNSUCCESSFUL,
         length (rsp_bytes (sc_Shared ctx)) - length (rsp_bytes S'), ctx\<lparr>sc_Shared := S', sc_Response := rp'\<rparr>) \<and>
       receive_result bs (sc_Shared ctx) S' rp'"
proof (cases "rp_Payload (sc_Response ctx)")
  case True
  with wf have rp: "length (rp_Header (sc_Response ctx)) = 16" "StoreVerifyHeader (header_of (rp_Header (sc_Response ctx)))"
    "rp_Length (sc_Response ctx) = sm_len (header_of (rp_Header (sc_Response ctx)))"
    "length (rp_Data (sc_Response ctx)) < rp_Length (sc_Response ctx)" by (simp_all add: response_wf_def)
  have "16 \<le> length bs" "StoreVerifyHeader (front bs)" using rp by (simp_all add: bs received_def front_def)
  moreover have "StoreReceiveResponse ctx = receive_payload 0 ctx" using True by (simp add: StoreReceiveResponse_def)
  moreover from receive_payload_law [OF True rp(1,3,2,4) ok bs, of 0] obtain S' rp' where p:
    "receive_payload 0 ctx = Some (if message_length bs \<le> length bs then STATUS_SUCCESS else STATUS_UNSUCCESSFUL,
       0 + (length (rsp_bytes (sc_Shared ctx)) - length (rsp_bytes S')), ctx\<lparr>sc_Shared := S', sc_Response := rp'\<rparr>)"
    "rsp_ok S'" "req_ok S' = req_ok (sc_Shared ctx)" "req_bytes S' = req_bytes (sc_Shared ctx)"
    "rsp_bytes S' = drop (message_length bs) bs"
    "if message_length bs \<le> length bs then rp' = full_response bs else response_wf rp' \<and> received rp' = bs" by (elim exE conjE)
  moreover have "receive_result bs (sc_Shared ctx) S' rp'"
    using p(2-6) \<open>16 \<le> length bs\<close> by (auto simp: receive_result_def)
  ultimately show ?thesis by (intro exI [of _ S'] exI [of _ rp']) simp
next
  case False
  let ?r = "sc_Response ctx" and ?S = "sc_Shared ctx"
  let ?h = "rp_Header ?r" and ?b = "rsp_bytes (sc_Shared ctx)"
  have rp: "length ?h < 16" "rp_Length ?r = 0" "rp_Data ?r = []" using wf False by (simp_all add: response_wf_def)
  have bs': "bs = ?h @ ?b" using rp bs by (simp add: received_def)
  from StoreReceiveSegment_law [of ?h 16 ?S] rp(1) ok obtain S1 where s:
    "StoreReceiveSegment 16 ?h ?S = Some (if 16 - length ?h \<le> length ?b then STATUS_SUCCESS else STATUS_UNSUCCESSFUL,
       min (16 - length ?h) (length ?b), ?h @ take (16 - length ?h) ?b, S1)"
    "rsp_ok S1" "rsp_bytes S1 = drop (16 - length ?h) ?b" "req_ok S1 = req_ok ?S" "req_bytes S1 = req_bytes ?S" by auto
  have h: "?h @ take (16 - length ?h) ?b = take 16 bs" using rp(1) bs' by simp
  let ?ctx1 = "ctx\<lparr>sc_Shared := S1, sc_Response := ?r\<lparr>rp_Header := take 16 bs\<rparr>\<rparr>"
  have fits: "16 - length ?h \<le> length ?b \<longleftrightarrow> 16 \<le> length bs" using rp(1) bs' by auto
  have moved: "min (16 - length ?h) (length ?b) = length ?b - length (rsp_bytes S1)" using s(3) by simp
  have run: "StoreReceiveResponse ctx =
      (if \<not> 16 \<le> length bs then Some (STATUS_UNSUCCESSFUL, length ?b - length (rsp_bytes S1), ?ctx1)
       else if \<not> StoreVerifyHeader (front bs) then None
       else if sm_len (front bs) = 0 then Some (STATUS_SUCCESS, length ?b - length (rsp_bytes S1), ?ctx1)
       else receive_payload (length ?b - length (rsp_bytes S1))
         (?ctx1\<lparr>sc_Response := (sc_Response ?ctx1)\<lparr>rp_Length := sm_len (front bs), rp_Payload := True\<rparr>\<rparr>))"
    using False unfolding StoreReceiveResponse_def s(1) h fits moved by (simp add: front_def)
  consider (part) "\<not> 16 \<le> length bs"
    | (empty) "16 \<le> length bs" "StoreVerifyHeader (front bs)" "sm_len (front bs) = 0"
    | (payload) "16 \<le> length bs" "StoreVerifyHeader (front bs)" "sm_len (front bs) \<noteq> 0" using good by blast
  then show ?thesis
  proof cases
    case part
    then have "rsp_bytes S1 = []" using s(3) fits by simp
    moreover have "response_wf (?r\<lparr>rp_Header := take 16 bs\<rparr>)" "received (?r\<lparr>rp_Header := take 16 bs\<rparr>) = bs"
      using part False rp by (simp_all add: response_wf_def received_def)
    ultimately have "receive_result bs ?S S1 (?r\<lparr>rp_Header := take 16 bs\<rparr>)"
      using part s(2,4,5) by (simp only: receive_result_def if_False simp_thms)
    then show ?thesis using part run by (intro exI conjI) (simp only: if_True if_False simp_thms)
  next
    case empty
    have "rsp_bytes S1 = drop (message_length bs) bs"
      using s(3) rp(1) bs' empty(3) by (simp add: message_length_def)
    moreover have "?r\<lparr>rp_Header := take 16 bs\<rparr> = full_response bs"
      using empty(3) False rp by (cases ?r) (simp add: full_response_def)
    ultimately have "receive_result bs ?S S1 (full_response bs)" "?r\<lparr>rp_Header := take 16 bs\<rparr> = full_response bs"
      using empty(1,3) s(2,4,5) by (simp_all add: receive_result_def message_length_def)
    then show ?thesis using empty run
      by (intro exI [of _ S1] exI [of _ "full_response bs"]) (simp add: message_length_def)
  next
    case payload
    let ?r2 = "?r\<lparr>rp_Header := take 16 bs, rp_Length := sm_len (front bs), rp_Payload := True\<rparr>"
    let ?ctx2 = "ctx\<lparr>sc_Shared := S1, sc_Response := ?r2\<rparr>"
    have same: "?ctx1\<lparr>sc_Response := (sc_Response ?ctx1)\<lparr>rp_Length := sm_len (front bs), rp_Payload := True\<rparr>\<rparr> = ?ctx2" by simp
    have bs2: "bs = received (sc_Response ?ctx2) @ rsp_bytes (sc_Shared ?ctx2)"
      using s(3) rp h payload(1) bs' by (simp add: received_def)
    have pre: "rp_Payload (sc_Response ?ctx2)" "length (rp_Header (sc_Response ?ctx2)) = 16"
      "rp_Length (sc_Response ?ctx2) = sm_len (header_of (rp_Header (sc_Response ?ctx2)))"
      "StoreVerifyHeader (header_of (rp_Header (sc_Response ?ctx2)))"
      "length (rp_Data (sc_Response ?ctx2)) < rp_Length (sc_Response ?ctx2)" "rsp_ok (sc_Shared ?ctx2)"
      using payload rp s(2) by (simp_all add: front_def)
    from receive_payload_law [OF pre bs2, of "length ?b - length (rsp_bytes S1)"] obtain S' rp' where p:
      "receive_payload (length ?b - length (rsp_bytes S1)) ?ctx2 =
         Some (if message_length bs \<le> length bs then STATUS_SUCCESS else STATUS_UNSUCCESSFUL,
           length ?b - length (rsp_bytes S1) + (length (rsp_bytes S1) - length (rsp_bytes S')), ?ctx2\<lparr>sc_Shared := S', sc_Response := rp'\<rparr>)"
      "rsp_ok S'" "req_ok S' = req_ok ?S" "req_bytes S' = req_bytes ?S" "rsp_bytes S' = drop (message_length bs) bs"
      "if message_length bs \<le> length bs then rp' = full_response bs else response_wf rp' \<and> received rp' = bs"
      using s(4,5) by auto
    have "length bs = 16 + length (rsp_bytes S1)" using s(3) payload(1) rp(1) by (simp add: bs')
    then have "length (rsp_bytes S') \<le> length (rsp_bytes S1)" "length (rsp_bytes S1) \<le> length ?b"
      using p(5) s(3) by (simp_all add: message_length_def)
    then have sum: "length ?b - length (rsp_bytes S1) + (length (rsp_bytes S1) - length (rsp_bytes S')) = length ?b - length (rsp_bytes S')"
      by simp
    have "StoreReceiveResponse ctx = receive_payload (length ?b - length (rsp_bytes S1)) ?ctx2"
      unfolding run same using payload by simp
    moreover have "receive_result bs ?S S' rp'" using p(2-6) payload(1) by (auto simp: receive_result_def)
    moreover have "?ctx2\<lparr>sc_Shared := S', sc_Response := rp'\<rparr> = ctx\<lparr>sc_Shared := S', sc_Response := rp'\<rparr>" by simp
    ultimately show ?thesis using payload(1) p(1) [unfolded sum]
      by (intro exI [of _ S'] exI [of _ rp']) simp
  qed
qed


section \<open>Delivery\<close>

text \<open>
  The messages of a byte stream with what is left, none where a header does not pass the check; and
  what a message does when it has arrived.
\<close>

function messages :: "string \<Rightarrow> (string list \<times> string) option" where
  "messages bs =
     (if length bs < 16 then Some ([], bs)
      else if \<not> StoreVerifyHeader (front bs) then None
      else if length bs < message_length bs then Some ([], bs)
      else map_option (\<lambda>(ms, left). (take (message_length bs) bs # ms, left)) (messages (drop (message_length bs) bs)))"
  by pat_completeness auto
termination
  by (relation "measure length") (auto simp: message_length_def)

declare messages.simps [simp del]

definition deliver :: "string \<Rightarrow> XENBUS_STORE_CONTEXT \<Rightarrow> XENBUS_STORE_CONTEXT kernel" where
  "deliver m ctx = StoreProcessResponse (ctx\<lparr>sc_Response := full_response m\<rparr>)"

fun deliver_all :: "string list \<Rightarrow> XENBUS_STORE_CONTEXT \<Rightarrow> XENBUS_STORE_CONTEXT kernel" where
  "deliver_all [] ctx = Some ctx"
| "deliver_all (m # ms) ctx = do { ctx1 \<leftarrow> deliver m ctx; deliver_all ms ctx1 }"

lemma front_take: "16 \<le> n \<Longrightarrow> front (take n bs) = front bs"
  by (simp add: front_def min_absorb1)

lemma full_response_take: "full_response (take (message_length bs) bs) = full_response bs"
proof -
  have "take (sm_len (front bs)) (drop 16 (take (message_length bs) bs)) = take (sm_len (front bs)) (drop 16 bs)"
    by (simp add: message_length_def drop_take)
  moreover have "take 16 (take (message_length bs) bs) = take 16 bs" by (simp add: message_length_def)
  moreover have "front (take (message_length bs) bs) = front bs" by (simp add: front_take message_length_def)
  ultimately show ?thesis by (simp add: full_response_def)
qed

lemmas process_defs = StoreProcessResponse_def StoreProcessWatchEvent_def StoreFindRequest_def StoreFindWatch_def
  StoreResetResponse_def StoreCopyResponse_def

text \<open>Delivery does not look at the page and the number of notifications.\<close>

lemma process_response_page:
  "StoreProcessResponse (ctx\<lparr>sc_Shared := S, sc_Sends := n\<rparr>) =
     map_option (\<lambda>c. c\<lparr>sc_Shared := S, sc_Sends := n\<rparr>) (StoreProcessResponse ctx)"
  by (cases "StoreParseWatchEvent (response_payload (sc_Response ctx))")
    (auto simp: process_defs Let_def split: option.splits prod.splits)

lemma deliver_all_page:
  "deliver_all ms (ctx\<lparr>sc_Shared := S, sc_Sends := n\<rparr>) =
     map_option (\<lambda>c. c\<lparr>sc_Shared := S, sc_Sends := n\<rparr>) (deliver_all ms ctx)"
proof (induction ms arbitrary: ctx)
  case (Cons m ms)
  have eq: "ctx\<lparr>sc_Shared := S, sc_Sends := n, sc_Response := full_response m\<rparr> =
      ctx\<lparr>sc_Response := full_response m, sc_Shared := S, sc_Sends := n\<rparr>" by (cases ctx) simp
  have "deliver m (ctx\<lparr>sc_Shared := S, sc_Sends := n\<rparr>) = map_option (\<lambda>c. c\<lparr>sc_Shared := S, sc_Sends := n\<rparr>) (deliver m ctx)"
    using process_response_page [where ctx = "ctx\<lparr>sc_Response := full_response m\<rparr>" and S = S and n = n]
    unfolding deliver_def by (simp only: eq)
  then show ?case using Cons.IH by (cases "deliver m ctx") simp_all
qed simp

lemma watch_event_effect:
  assumes "StoreProcessWatchEvent ctx = Some c"
  shows "c = ctx \<or> (\<exists>E. c = ctx\<lparr>sc_Signalled := E\<rparr>)"
proof (cases "StoreParseWatchEvent (response_payload (sc_Response ctx))")
  case None
  then show ?thesis using assms by (simp add: StoreProcessWatchEvent_def bind_eq_Some_conv)
next
  case (Some a)
  obtain st r where a: "a = (st, r)" by (cases a)
  show ?thesis
  proof (cases r)
    case None
    then show ?thesis using assms Some a by (simp add: StoreProcessWatchEvent_def bind_eq_Some_conv split: if_splits)
  next
    case (Some e)
    obtain p k w where e: "e = (p, k, w)" by (cases e)
    show ?thesis using assms \<open>StoreParseWatchEvent (response_payload (sc_Response ctx)) = Some a\<close> a Some e
      by (cases "StoreFindWatch ctx w") (auto simp: StoreProcessWatchEvent_def bind_eq_Some_conv split: if_splits)
  qed
qed

lemma process_response_effect:
  assumes "StoreProcessResponse ctx = Some c"
  shows "\<exists>R P E. c = ctx\<lparr>sc_Request := R, sc_PendingList := P, sc_Signalled := E, sc_Response := empty_RESPONSE\<rparr> \<and>
     (P = sc_PendingList ctx \<and> R = sc_Request ctx \<or>
      (\<exists>r. P = remove1 r (sc_PendingList ctx) \<and> r \<in> set (sc_PendingList ctx) \<and> (\<forall>q. q \<noteq> r \<longrightarrow> R q = sc_Request ctx q)))"
proof -
  have same: "ctx\<lparr>sc_Response := e\<rparr> = ctx\<lparr>sc_Request := sc_Request ctx, sc_PendingList := sc_PendingList ctx,
      sc_Signalled := sc_Signalled ctx, sc_Response := e\<rparr>"
    "ctx\<lparr>sc_Signalled := E, sc_Response := e\<rparr> = ctx\<lparr>sc_Request := sc_Request ctx, sc_PendingList := sc_PendingList ctx,
      sc_Signalled := E, sc_Response := e\<rparr>"
    "ctx\<lparr>sc_PendingList := P, sc_Response := e, sc_Request := R\<rparr> = ctx\<lparr>sc_Request := R, sc_PendingList := P,
      sc_Signalled := sc_Signalled ctx, sc_Response := e\<rparr>" for e E P R by (cases ctx; simp)+
  have found: "r \<in> set rs" if "find_request R rs q = Some r" for R rs q r
    using that by (induction rs) (auto split: if_splits)
  let ?h = "header_of (rp_Header (sc_Response ctx))"
  consider (ignored) "StoreIgnoreHeaderType (sm_type ?h)"
    | (watch) "\<not> StoreIgnoreHeaderType (sm_type ?h)" "sm_type ?h = XS_WATCH_EVENT"
    | (reply) "\<not> StoreIgnoreHeaderType (sm_type ?h)" "sm_type ?h \<noteq> XS_WATCH_EVENT" by blast
  then show ?thesis
  proof cases
    case ignored
    then have "c = ctx\<lparr>sc_Response := empty_RESPONSE\<rparr>" using assms by (simp add: process_defs Let_def)
    then show ?thesis using same(1) by blast
  next
    case watch
    then obtain c1 where c1: "StoreProcessWatchEvent ctx = Some c1" "c = c1\<lparr>sc_Response := empty_RESPONSE\<rparr>"
      using assms by (auto simp: StoreProcessResponse_def StoreResetResponse_def Let_def bind_eq_Some_conv)
    then have "c1 = ctx \<or> (\<exists>E. c1 = ctx\<lparr>sc_Signalled := E\<rparr>)"
      by (intro watch_event_effect)
    then show ?thesis using c1(2) same(1,2) by blast
  next
    case reply
    show ?thesis
    proof (cases "StoreFindRequest ctx (sm_req_id ?h)")
      case None
      then have "c = ctx\<lparr>sc_Response := empty_RESPONSE\<rparr>"
        using reply assms by (simp add: StoreProcessResponse_def StoreResetResponse_def Let_def)
      then show ?thesis using same(1) by blast
    next
      case (Some r)
      then obtain rq where "c = ctx\<lparr>sc_PendingList := remove1 r (sc_PendingList ctx), sc_Response := empty_RESPONSE,
          sc_Request := (sc_Request ctx)(r := rq)\<rparr>"
        using reply assms by (auto simp: StoreProcessResponse_def StoreResetResponse_def StoreCopyResponse_def Let_def
            bind_eq_Some_conv split: if_splits)
      moreover have "r \<in> set (sc_PendingList ctx)" using Some found by (auto simp: StoreFindRequest_def)
      ultimately show ?thesis unfolding same(3) by (metis fun_upd_other)
    qed
  qed
qed

end
