(* ===== verification/Store_Poll.thy ===== *)
theory Store_Poll
  imports Store_Stream
begin

text \<open>
  The poll loop of the XenStore client over the laws of the message layer: with the other side quiet,
  a poll sends what the ring has room for, takes every byte there is, delivers each complete message
  once and in order, and ends.
\<close>

section \<open>One iteration\<close>

text \<open>The bytes of the other side that have not been made a message yet.\<close>

definition incoming :: "XENBUS_STORE_CONTEXT \<Rightarrow> string" where
  "incoming ctx = received (sc_Response ctx) @ rsp_bytes (sc_Shared ctx)"

text \<open>The state between two polls.\<close>

definition store_ok :: "XENBUS_STORE_CONTEXT \<Rightarrow> bool" where
  "store_ok ctx \<longleftrightarrow> submitted_wf ctx \<and> response_wf (sc_Response ctx) \<and> req_ok (sc_Shared ctx) \<and> rsp_ok (sc_Shared ctx)"

lemma response_wf_empty [simp]: "response_wf empty_RESPONSE" "received empty_RESPONSE = []"
  by (simp_all add: response_wf_def received_def empty_RESPONSE_def)

lemma received_short:
  assumes "response_wf rp" and "bs = received rp @ b" and "16 \<le> length bs" and "message_length bs \<le> length bs"
  shows "length (received rp) < message_length bs"
proof (cases "rp_Payload rp")
  case True
  then have "message_length bs = 16 + rp_Length rp"
    using assms(1,2) by (simp add: message_length_def front_def response_wf_def received_def)
  then show ?thesis using True assms(1) by (simp add: response_wf_def received_def)
next
  case False
  then show ?thesis using assms(1) by (simp add: message_length_def response_wf_def received_def)
qed

lemma deliver_blocked:
  assumes "deliver m ctx = Some c" and "submitted_wf ctx" and "blocked ctx"
  shows "submitted_wf c \<and> blocked c \<and> sc_Shared c = sc_Shared ctx \<and> sc_Response c = empty_RESPONSE"
proof -
  from process_response_effect [OF assms(1) [unfolded deliver_def]] obtain R P E where c:
    "c = ctx\<lparr>sc_Response := full_response m, sc_Request := R, sc_PendingList := P, sc_Signalled := E, sc_Response := empty_RESPONSE\<rparr>"
    and R: "P = sc_PendingList ctx \<and> R = sc_Request ctx \<or>
      (\<exists>r. P = remove1 r (sc_PendingList ctx) \<and> r \<in> set (sc_PendingList ctx) \<and> (\<forall>q. q \<noteq> r \<longrightarrow> R q = sc_Request ctx q))"
    by auto
  have keep: "R q = sc_Request ctx q" if "q \<in> set (sc_SubmittedList ctx)" for q
    using R assms(2) that unfolding submitted_wf_def distinct_append by (metis disjoint_iff)
  have pend: "distinct P" "set P \<subseteq> set (sc_PendingList ctx)" "\<forall>q \<in> set P. R q = sc_Request ctx q"
    using R assms(2) by (auto simp: submitted_wf_def dest: notin_set_remove1 set_remove1_subset [THEN subsetD])
  have sel: "sc_Request c = R" "sc_PendingList c = P" "sc_SubmittedList c = sc_SubmittedList ctx" "sc_Shared c = sc_Shared ctx"
    "sc_Response c = empty_RESPONSE" by (simp_all add: c)
  have "submitted_wf c" using assms(2) pend keep unfolding submitted_wf_def sel by auto
  moreover have "blocked c" using assms(3) keep unfolding blocked_def sel by (cases "sc_SubmittedList ctx") auto
  ultimately show ?thesis using sel by simp
qed

text \<open>The part of an iteration after the notification of the other side.\<close>

definition receive_step :: "XENBUS_STORE_CONTEXT \<Rightarrow> (nat \<times> XENBUS_STORE_CONTEXT) kernel" where
  "receive_step ctx =
     do {
       (status, Read, ctx3) \<leftarrow> StoreReceiveResponse ctx;
       ctx4 \<leftarrow> (if NT_SUCCESS status then StoreProcessResponse ctx3 else Some ctx3);
       Some (Read, StoreNotify Read ctx4)
     }"

lemma poll_step_split:
  "poll_step daemon ctx =
     do {
       (Written, ctx1) \<leftarrow> StoreSendRequests (ctx\<lparr>sc_Shared := daemon (sc_Shared ctx)\<rparr>);
       (Read, ctx2) \<leftarrow> receive_step (StoreNotify Written ctx1);
       Some (Written \<noteq> 0 \<or> Read \<noteq> 0, ctx2)
     }"
proof (cases "StoreSendRequests (ctx\<lparr>sc_Shared := daemon (sc_Shared ctx)\<rparr>)")
  case (Some a)
  then show ?thesis unfolding poll_step_def receive_step_def Let_def
    by (cases a; cases "StoreReceiveResponse (StoreNotify (fst a) (snd a))") (auto simp: Option.bind_assoc)
qed (simp add: poll_step_def)

text \<open>Contexts that differ in the page, the response under way and the number of notifications only.\<close>

definition store_eq :: "XENBUS_STORE_CONTEXT \<Rightarrow> XENBUS_STORE_CONTEXT \<Rightarrow> bool" where
  "store_eq a b \<longleftrightarrow> b\<lparr>sc_Shared := sc_Shared a, sc_Response := sc_Response a, sc_Sends := sc_Sends a\<rparr> = a"

lemma store_eq_refl [simp]: "store_eq a a" by (cases a) (simp add: store_eq_def)

lemma store_eq_sym: "store_eq a b \<Longrightarrow> store_eq b a" by (cases a; cases b) (simp add: store_eq_def)

lemma store_eq_trans [trans]: "store_eq a b \<Longrightarrow> store_eq b c \<Longrightarrow> store_eq a c" by (cases a; cases b; cases c) (simp add: store_eq_def)

lemma store_eq_update [simp]: "store_eq a (a\<lparr>sc_Shared := S\<rparr>)" "store_eq a (a\<lparr>sc_Response := rp\<rparr>)" "store_eq a (a\<lparr>sc_Sends := n\<rparr>)"
  by (cases a; simp add: store_eq_def)+

lemma deliver_store_eq:
  assumes "store_eq a b" and "deliver m a = Some a1"
  shows "\<exists>b1. deliver m b = Some b1 \<and> store_eq a1 b1"
proof -
  have "b\<lparr>sc_Response := full_response m\<rparr> = a\<lparr>sc_Response := full_response m, sc_Shared := sc_Shared b, sc_Sends := sc_Sends b\<rparr>"
    using assms(1) by (cases a; cases b) (simp add: store_eq_def)
  then have "deliver m b = Some (a1\<lparr>sc_Shared := sc_Shared b, sc_Sends := sc_Sends b\<rparr>)"
    using assms(2) process_response_page [where ctx = "a\<lparr>sc_Response := full_response m\<rparr>" and S = "sc_Shared b" and n = "sc_Sends b"]
    by (simp add: deliver_def)
  moreover have "store_eq a1 (a1\<lparr>sc_Shared := sc_Shared b, sc_Sends := sc_Sends b\<rparr>)" by (cases a1) (simp add: store_eq_def)
  ultimately show ?thesis by blast
qed

lemma deliver_all_store_eq:
  assumes "store_eq a b" and "deliver_all ms a = Some a1"
  shows "\<exists>b1. deliver_all ms b = Some b1 \<and> store_eq a1 b1"
  using assms
proof (induction ms arbitrary: a b)
  case (Cons m ms)
  then obtain a2 where a2: "deliver m a = Some a2" "deliver_all ms a2 = Some a1" by (auto simp: bind_eq_Some_conv)
  from deliver_store_eq [OF Cons.prems(1) a2(1)] obtain b2 where b2: "deliver m b = Some b2" "store_eq a2 b2" by blast
  from Cons.IH [OF b2(2) a2(2)] b2(1) show ?case by simp
qed simp

text \<open>
  What an iteration does: everything is taken and no message is complete, or one message is taken
  from the front and delivered.
\<close>

lemma StoreNotify_simps [simp]:
  "sc_Shared (StoreNotify n ctx) = sc_Shared ctx" "sc_Response (StoreNotify n ctx) = sc_Response ctx"
  "submitted_wf (StoreNotify n ctx) = submitted_wf ctx" "blocked (StoreNotify n ctx) = blocked ctx"
  "store_eq ctx (StoreNotify n ctx)"
  by (simp_all add: StoreNotify_def submitted_wf_def blocked_def)

lemma submitted_wf_wires [simp]:
  "submitted_wf (ctx\<lparr>sc_Shared := S\<rparr>) = submitted_wf ctx" "submitted_wf (ctx\<lparr>sc_Response := rp\<rparr>) = submitted_wf ctx"
  by (simp_all add: submitted_wf_def)

lemma blocked_wires:
  "req_bytes S = req_bytes (sc_Shared ctx) \<Longrightarrow> blocked (ctx\<lparr>sc_Shared := S, sc_Response := rp\<rparr>) = blocked ctx"
  by (simp add: blocked_def)

lemma messages_verified: "messages bs = Some r \<Longrightarrow> 16 \<le> length bs \<longrightarrow> StoreVerifyHeader (front bs)"
  by (subst (asm) messages.simps) (auto split: if_splits)

lemma receive_step_law:
  assumes ok: "store_ok ctx" and bl: "blocked ctx"
    and ms: "messages (incoming ctx) = Some (ms, left)" and all: "deliver_all ms ctx = Some c"
  shows "\<exists>n c'. receive_step ctx = Some (n, c') \<and> store_ok c' \<and> blocked c' \<and>
     length (rsp_bytes (sc_Shared ctx)) = n + length (rsp_bytes (sc_Shared c')) \<and>
     req_bytes (sc_Shared c') = req_bytes (sc_Shared ctx) \<and>
     (n = 0 \<longrightarrow> ms = [] \<and> left = received (sc_Response c') \<and> rsp_bytes (sc_Shared c') = []) \<and>
     (\<exists>ms' c''. messages (incoming c') = Some (ms', left) \<and> deliver_all ms' c' = Some c'' \<and> store_eq c c'' \<and> (n = 0 \<longrightarrow> c' = c''))"
proof -
  let ?S = "sc_Shared ctx" and ?bs = "incoming ctx"
  have wf: "submitted_wf ctx" "response_wf (sc_Response ctx)" "req_ok ?S" "rsp_ok ?S" using ok by (simp_all add: store_ok_def)
  from StoreReceiveResponse_law [OF wf(2,4) incoming_def messages_verified [OF ms]] obtain S' rp' where r:
    "StoreReceiveResponse ctx = Some (if 16 \<le> length ?bs \<and> message_length ?bs \<le> length ?bs then STATUS_SUCCESS else STATUS_UNSUCCESSFUL,
       length (rsp_bytes ?S) - length (rsp_bytes S'), ctx\<lparr>sc_Shared := S', sc_Response := rp'\<rparr>)"
    "receive_result ?bs ?S S' rp'" by (elim exE conjE)
  have res: "rsp_ok S'" "req_ok S'" "req_bytes S' = req_bytes ?S" using r(2) wf(3) by (simp_all add: receive_result_def)
  let ?n = "length (rsp_bytes ?S) - length (rsp_bytes S')"
  have len: "length ?bs = length (received (sc_Response ctx)) + length (rsp_bytes ?S)" by (simp add: incoming_def)
  show ?thesis
  proof (cases "16 \<le> length ?bs \<and> message_length ?bs \<le> length ?bs")
    case False
    then have rr: "response_wf rp'" "received rp' = ?bs" "rsp_bytes S' = []" using r(2) by (auto simp: receive_result_def)
    let ?c = "ctx\<lparr>sc_Shared := S', sc_Response := rp'\<rparr>"
    have part: "messages ?bs = Some ([], ?bs)" using False ms by (subst messages.simps) (auto simp: messages_verified)
    then have "ms = []" "left = ?bs" using ms by simp_all
    moreover have "receive_step ctx = Some (?n, StoreNotify ?n ?c)" using r(1) by (simp only: receive_step_def False if_False) simp
    moreover have "store_ok (StoreNotify ?n ?c)" using wf res rr by (simp add: store_ok_def)
    moreover have "blocked (StoreNotify ?n ?c)" using bl res blocked_wires by simp
    moreover have "incoming (StoreNotify ?n ?c) = ?bs" using rr by (simp add: incoming_def)
    moreover have "store_eq c (StoreNotify ?n ?c)"
      using all \<open>ms = []\<close> by (cases ctx) (simp add: store_eq_def StoreNotify_def)
    ultimately show ?thesis using part rr res by (intro exI [of _ ?n] exI [of _ "StoreNotify ?n ?c"]) simp
  next
    case True
    then have rr: "rp' = full_response ?bs" "rsp_bytes S' = drop (message_length ?bs) ?bs" using r(2) by (auto simp: receive_result_def)
    let ?m = "take (message_length ?bs) ?bs"
    obtain ms1 where ms1: "ms = ?m # ms1" "messages (drop (message_length ?bs) ?bs) = Some (ms1, left)"
      using ms True by (subst (asm) messages.simps) (auto split: if_splits)
    then obtain c1 where c1: "deliver ?m ctx = Some c1" "deliver_all ms1 c1 = Some c" using all by (auto simp: bind_eq_Some_conv)
    have "store_eq ctx (ctx\<lparr>sc_Shared := S'\<rparr>)" by simp
    from deliver_store_eq [OF this c1(1)] obtain c2 where c2: "deliver ?m (ctx\<lparr>sc_Shared := S'\<rparr>) = Some c2" "store_eq c1 c2" by blast
    have "submitted_wf (ctx\<lparr>sc_Shared := S'\<rparr>)" "blocked (ctx\<lparr>sc_Shared := S'\<rparr>)" using wf(1) bl res(3) by (simp_all add: blocked_def)
    from deliver_blocked [OF c2(1) this] have d: "submitted_wf c2" "blocked c2" "sc_Shared c2 = S'" "sc_Response c2 = empty_RESPONSE"
      by simp_all
    have pos: "0 < ?n" "length (rsp_bytes ?S) = ?n + length (rsp_bytes S')"
      using received_short [OF wf(2) incoming_def [of ctx]] True len rr(2) by auto
    have "receive_step ctx = Some (?n, StoreNotify ?n c2)"
      using True r(1) c2(1) by (simp add: receive_step_def deliver_def full_response_take rr(1))
    moreover have "store_ok (StoreNotify ?n c2)" using d res by (simp add: store_ok_def)
    moreover have "incoming (StoreNotify ?n c2) = drop (message_length ?bs) ?bs" using d rr(2) by (simp add: incoming_def)
    moreover from deliver_all_store_eq [OF store_eq_trans [OF c2(2)] c1(2)] obtain c3 where
      "deliver_all ms1 (StoreNotify ?n c2) = Some c3" "store_eq c c3" using StoreNotify_simps(5) by blast
    ultimately show ?thesis using ms1(2) d pos res(3) by (intro exI [of _ ?n] exI [of _ "StoreNotify ?n c2"]) simp
  qed
qed

section \<open>The loop\<close>

lemma poll_loop_settled:
  assumes "store_ok ctx" and "blocked ctx" and "messages (incoming ctx) = Some (ms, left)" and "deliver_all ms ctx = Some c"
    and "\<And>i. k \<le> i \<Longrightarrow> daemon i = (\<lambda>S. S)"
  shows "\<exists>c'. poll_loop daemon k ctx = Some c' \<and> store_eq c c' \<and> store_ok c' \<and> blocked c' \<and>
     rsp_bytes (sc_Shared c') = [] \<and> received (sc_Response c') = left \<and> req_bytes (sc_Shared c') = req_bytes (sc_Shared ctx)"
  using assms
proof (induction "length (rsp_bytes (sc_Shared ctx))" arbitrary: ctx ms c k rule: less_induct)
  case less
  from receive_step_law [OF less.prems(1-4)] obtain n c' ms' c'' where r: "receive_step ctx = Some (n, c')" "store_ok c'" "blocked c'"
    "length (rsp_bytes (sc_Shared ctx)) = n + length (rsp_bytes (sc_Shared c'))" "req_bytes (sc_Shared c') = req_bytes (sc_Shared ctx)"
    "n = 0 \<longrightarrow> ms = [] \<and> left = received (sc_Response c') \<and> rsp_bytes (sc_Shared c') = []" "messages (incoming c') = Some (ms', left)"
    "deliver_all ms' c' = Some c''" "store_eq c c''" "n = 0 \<longrightarrow> c' = c''" by (elim exE conjE)
  have "StoreSendRequests ctx = Some (0, ctx)"
    using less.prems(1,2) by (intro send_blocked) (simp_all add: store_ok_def)
  then have step: "poll_step (daemon k) ctx = Some (n \<noteq> 0, c')"
    using r(1) less.prems(5) [of k] by (simp add: poll_step_split StoreNotify_def)
  show ?case
  proof (cases "n = 0")
    case True
    then have "poll_loop daemon k ctx = Some c'" using step by (subst poll_loop.simps) simp
    then show ?thesis using True r by simp
  next
    case False
    then have "poll_loop daemon k ctx = poll_loop daemon (Suc k) c'" using step by (subst poll_loop.simps) simp
    moreover have "length (rsp_bytes (sc_Shared c')) < length (rsp_bytes (sc_Shared ctx))" using False r(4) by simp
    from less.hyps [OF this r(2,3,7,8), of "Suc k"] obtain d where "poll_loop daemon (Suc k) c' = Some d" "store_eq c'' d" "store_ok d"
      "blocked d" "rsp_bytes (sc_Shared d) = []" "received (sc_Response d) = left" "req_bytes (sc_Shared d) = req_bytes (sc_Shared c')"
      using less.prems(5) Suc_leD by metis
    ultimately show ?thesis using store_eq_trans [OF r(9)] r(5) by auto
  qed
qed

text \<open>From any state between polls, with the other side acting before the first iteration only.\<close>

lemma poll_loop_law:
  assumes ok: "store_ok ctx0" and ctx0: "ctx0 = ctx\<lparr>sc_Shared := daemon k (sc_Shared ctx)\<rparr>"
    and quiet: "\<And>i. k < i \<Longrightarrow> daemon i = (\<lambda>S. S)"
    and send: "StoreSendRequests ctx0 = Some (W, c1)"
    and ms: "messages (incoming ctx0) = Some (ms, left)" and all: "deliver_all ms c1 = Some c"
  shows "\<exists>c'. poll_loop daemon k ctx = Some c' \<and> store_eq c c' \<and> store_ok c' \<and> blocked c' \<and>
     rsp_bytes (sc_Shared c') = [] \<and> received (sc_Response c') = left \<and> req_bytes (sc_Shared c') = req_bytes (sc_Shared c1)"
proof -
  have wf: "submitted_wf ctx0" "response_wf (sc_Response ctx0)" "req_ok (sc_Shared ctx0)" "rsp_ok (sc_Shared ctx0)"
    using ok by (simp_all add: store_ok_def)
  from StoreSendRequests_law [OF wf(1,3)] send obtain sent R S where l:
    "c1 = ctx0\<lparr>sc_Request := R, sc_Shared := S, sc_SubmittedList := drop (length sent) (sc_SubmittedList ctx0),
       sc_PendingList := sc_PendingList ctx0 @ sent\<rparr>" "submitted_wf c1" "blocked c1" "req_ok S"
    "rsp_ok S = rsp_ok (sc_Shared ctx0)" "rsp_bytes S = rsp_bytes (sc_Shared ctx0)" by auto
  let ?c = "StoreNotify W c1"
  have sel: "sc_Shared c1 = S" "sc_Response c1 = sc_Response ctx0" by (simp_all add: l(1))
  have pre: "store_ok ?c" "blocked ?c" "messages (incoming ?c) = Some (ms, left)"
    using l(2-6) wf ms sel by (simp_all add: store_ok_def incoming_def)
  from deliver_all_store_eq [OF StoreNotify_simps(5) all] obtain d where d: "deliver_all ms ?c = Some d" "store_eq c d" by blast
  from receive_step_law [OF pre d(1)] obtain n c' ms' c'' where r: "receive_step ?c = Some (n, c')" "store_ok c'" "blocked c'"
    "req_bytes (sc_Shared c') = req_bytes (sc_Shared ?c)"
    "n = 0 \<longrightarrow> ms = [] \<and> left = received (sc_Response c') \<and> rsp_bytes (sc_Shared c') = []" "messages (incoming c') = Some (ms', left)"
    "deliver_all ms' c' = Some c''" "store_eq d c''" "n = 0 \<longrightarrow> c' = c''" by (elim exE conjE)
  have eq: "store_eq c c''" using d(2) r(8) by (rule store_eq_trans)
  have step: "poll_step (daemon k) ctx = Some (W \<noteq> 0 \<or> n \<noteq> 0, c')"
    using r(1) send by (simp add: poll_step_split ctx0 [symmetric])
  show ?thesis
  proof (cases "W \<noteq> 0 \<or> n \<noteq> 0")
    case False
    then have "poll_loop daemon k ctx = Some c'" using step by (subst poll_loop.simps) simp
    then show ?thesis using False r eq by simp
  next
    case True
    then have run: "poll_loop daemon k ctx = poll_loop daemon (Suc k) c'" using step by (subst poll_loop.simps) simp
    from poll_loop_settled [OF r(2,3,6,7), of "Suc k" daemon] quiet obtain d' where "poll_loop daemon (Suc k) c' = Some d'"
      "store_eq c'' d'" "store_ok d'" "blocked d'" "rsp_bytes (sc_Shared d') = []" "received (sc_Response d') = left"
      "req_bytes (sc_Shared d') = req_bytes (sc_Shared c')" by auto
    then show ?thesis using run store_eq_trans [OF eq] r(4) by auto
  qed
qed

section \<open>Messages of a well-behaved other side\<close>

text \<open>A message as the other side writes it, and what is read back from a stream of them.\<close>

definition encode :: "xsd_sockmsg \<times> string \<Rightarrow> string" where
  "encode m = header_bytes (fst m) @ snd m"

definition message_ok :: "xsd_sockmsg \<times> string \<Rightarrow> bool" where
  "message_ok m \<longleftrightarrow> sockmsg_ok (fst m) \<and> StoreVerifyHeader (fst m) \<and> sm_len (fst m) = length (snd m)"

lemma encode_front:
  assumes "message_ok m"
  shows "front (encode m @ bs) = fst m" and "message_length (encode m @ bs) = length (encode m)"
    and "full_response (encode m @ bs) = \<lparr>rp_Header = header_bytes (fst m), rp_Payload = (snd m \<noteq> []),
      rp_Length = length (snd m), rp_Data = snd m\<rparr>"
proof -
  have "header_of (header_bytes (fst m)) = fst m" using header_roundtrip [of "fst m" "[]"] assms by (simp add: message_ok_def)
  then show f: "front (encode m @ bs) = fst m" by (simp add: front_def encode_def)
  show "message_length (encode m @ bs) = length (encode m)" using assms unfolding message_length_def f by (simp add: encode_def message_ok_def)
  show "full_response (encode m @ bs) = \<lparr>rp_Header = header_bytes (fst m), rp_Payload = (snd m \<noteq> []),
      rp_Length = length (snd m), rp_Data = snd m\<rparr>" using assms unfolding full_response_def f by (simp add: encode_def message_ok_def)
qed

lemma full_response_encode:
  "message_ok m \<Longrightarrow> full_response (encode m) = \<lparr>rp_Header = header_bytes (fst m), rp_Payload = (snd m \<noteq> []),
     rp_Length = length (snd m), rp_Data = snd m\<rparr>"
  using encode_front(3) [of m "[]"] by simp

lemma messages_encode:
  assumes "\<forall>m \<in> set ms. message_ok m" and "messages left = Some ([], left)"
  shows "messages (concat (map encode ms) @ left) = Some (map encode ms, left)"
  using assms(1)
proof (induction ms)
  case Nil
  then show ?case using assms(2) by simp
next
  case (Cons m ms)
  let ?bs = "encode m @ concat (map encode ms) @ left"
  have ok: "message_ok m" "StoreVerifyHeader (fst m)" using Cons.prems by (simp_all add: message_ok_def)
  note front = encode_front [OF ok(1), of "concat (map encode ms) @ left"]
  have "16 \<le> length (encode m)" by (simp add: encode_def)
  then have "messages ?bs = Some (encode m # map encode ms, left)"
    using Cons front ok(2) by (subst messages.simps) simp
  then show ?case by simp
qed

text \<open>
  What the client relies on for its assertions: a watch event has request id 0, a payload, and the
  token of the watch that has its id.
\<close>

definition acceptable :: "XENBUS_STORE_CONTEXT \<Rightarrow> string \<Rightarrow> bool" where
  "acceptable ctx m \<longleftrightarrow> (let h = header_of (rp_Header (full_response m)) in
     sm_type h = XS_WATCH_EVENT \<longrightarrow> sm_req_id h = 0 \<and> rp_Payload (full_response m) \<and>
       (case StoreParseWatchEvent (Some (rp_Data (full_response m))) of
          Some (_, Some (_, Caller, wid)) \<Rightarrow>
            (case StoreFindWatch ctx wid of Some w \<Rightarrow> Caller = wt_Caller (sc_Watch ctx w) | None \<Rightarrow> True)
        | _ \<Rightarrow> True))"

lemma find_request_in: "find_request R rs q = Some r \<Longrightarrow> r \<in> set rs \<and> sm_req_id (rq_Header (R r)) = q"
  by (induction rs) (auto split: if_splits)

lemma parse_total: "StoreParseWatchEvent (Some d) \<noteq> None"
  by (auto simp: StoreParseWatchEvent_def Let_def split: prod.splits)

lemma deliver_total:
  assumes "submitted_wf ctx" and "acceptable ctx m"
  shows "deliver m ctx \<noteq> None"
proof -
  let ?c = "ctx\<lparr>sc_Response := full_response m\<rparr>" and ?h = "header_of (rp_Header (full_response m))"
  consider (ignored) "StoreIgnoreHeaderType (sm_type ?h)"
    | (watch) "\<not> StoreIgnoreHeaderType (sm_type ?h)" "sm_type ?h = XS_WATCH_EVENT"
    | (reply) "\<not> StoreIgnoreHeaderType (sm_type ?h)" "sm_type ?h \<noteq> XS_WATCH_EVENT" by blast
  then show ?thesis
  proof cases
    case ignored
    then show ?thesis by (simp add: deliver_def StoreProcessResponse_def Let_def)
  next
    case watch
    let ?d = "rp_Data (full_response m)"
    have a: "sm_req_id ?h = 0" "rp_Payload (full_response m)" using assms(2) watch(2) by (simp_all add: acceptable_def Let_def)
    obtain st r where p: "StoreParseWatchEvent (Some ?d) = Some (st, r)" using parse_total [of ?d] by auto
    have "StoreProcessWatchEvent ?c \<noteq> None"
    proof (cases r)
      case None
      then show ?thesis using a p by (simp add: StoreProcessWatchEvent_def response_payload_def)
    next
      case (Some e)
      obtain path caller wid where e: "e = (path, caller, wid)" by (cases e)
      have find: "StoreFindWatch ?c wid = StoreFindWatch ctx wid" by (simp add: StoreFindWatch_def)
      show ?thesis
      proof (cases "StoreFindWatch ctx wid")
        case None
        then show ?thesis using a p Some e find by (simp add: StoreProcessWatchEvent_def response_payload_def)
      next
        case (Some w)
        then have "caller = wt_Caller (sc_Watch ctx w)" using assms(2) watch(2) p \<open>r = Some e\<close> e by (simp add: acceptable_def Let_def)
        then show ?thesis using a p Some \<open>r = Some e\<close> e find by (simp add: StoreProcessWatchEvent_def response_payload_def)
      qed
    qed
    then show ?thesis using watch by (auto simp: deliver_def StoreProcessResponse_def Let_def)
  next
    case reply
    show ?thesis
    proof (cases "StoreFindRequest ?c (sm_req_id ?h)")
      case None
      then show ?thesis using reply by (simp add: deliver_def StoreProcessResponse_def Let_def)
    next
      case (Some r)
      then have "rq_State (sc_Request ctx r) = XENBUS_STORE_REQUEST_PENDING"
        using find_request_in assms(1) by (fastforce simp: StoreFindRequest_def submitted_wf_def)
      then show ?thesis using reply Some by (simp add: deliver_def StoreProcessResponse_def StoreCopyResponse_def Let_def full_response_def)
    qed
  qed
qed

lemma acceptable_cong:
  assumes "sc_Watch a = sc_Watch b" and "sc_WatchList a = sc_WatchList b"
  shows "acceptable a = acceptable b"
  unfolding acceptable_def StoreFindWatch_def assms by (rule refl)

lemma deliver_all_total:
  assumes "submitted_wf ctx" and "blocked ctx" and "\<forall>m \<in> set ms. acceptable ctx m"
  shows "\<exists>c. deliver_all ms ctx = Some c"
  using assms
proof (induction ms arbitrary: ctx)
  case (Cons m ms)
  then obtain c1 where c1: "deliver m ctx = Some c1" using deliver_total [of ctx m] by auto
  from process_response_effect [OF c1 [unfolded deliver_def]] have w: "sc_Watch c1 = sc_Watch ctx" "sc_WatchList c1 = sc_WatchList ctx" by auto
  have "acceptable c1 = acceptable ctx" using w by (rule acceptable_cong)
  then show ?case using Cons c1 deliver_blocked [OF c1] by simp
qed simp

section \<open>A poll\<close>

text \<open>The effect of a poll: the requests are sent, the messages delivered, the pieces kept.\<close>

definition poll_result ::
  "string list \<Rightarrow> string \<Rightarrow> XENBUS_STORE_CONTEXT \<Rightarrow> XENBUS_STORE_CONTEXT \<Rightarrow> bool" where
  "poll_result ms left ctx ctx' \<longleftrightarrow> (\<exists>W c1 c. StoreSendRequests ctx = Some (W, c1) \<and> deliver_all ms c1 = Some c \<and>
     store_eq c ctx' \<and> store_ok ctx' \<and> blocked ctx' \<and>
     rsp_bytes (sc_Shared ctx') = [] \<and> received (sc_Response ctx') = left \<and>
     outgoing c1 = drop (1024 - length (req_bytes (sc_Shared ctx))) (outgoing ctx) \<and>
     req_bytes (sc_Shared ctx') =
       req_bytes (sc_Shared ctx) @ take (1024 - length (req_bytes (sc_Shared ctx))) (outgoing ctx))"

lemma poll_total:
  assumes ok: "store_ok ctx0" and ctx0: "ctx0 = ctx\<lparr>sc_Shared := daemon k (sc_Shared ctx)\<rparr>"
    and quiet: "\<And>i. k < i \<Longrightarrow> daemon i = (\<lambda>S. S)"
    and ms: "messages (incoming ctx0) = Some (ms, left)" and acc: "\<forall>m \<in> set ms. acceptable ctx0 m"
  shows "\<exists>ctx'. poll_loop daemon k ctx = Some ctx' \<and> poll_result ms left ctx0 ctx'"
proof -
  have wf: "submitted_wf ctx0" "req_ok (sc_Shared ctx0)" using ok by (simp_all add: store_ok_def)
  from StoreSendRequests_law [OF wf] obtain W sent R S c1 where l: "StoreSendRequests ctx0 = Some (W, c1)"
    "c1 = ctx0\<lparr>sc_Request := R, sc_Shared := S, sc_SubmittedList := drop (length sent) (sc_SubmittedList ctx0),
       sc_PendingList := sc_PendingList ctx0 @ sent\<rparr>" "submitted_wf c1" "blocked c1"
    "outgoing c1 = drop (1024 - length (req_bytes (sc_Shared ctx0))) (outgoing ctx0)"
    "req_bytes S = req_bytes (sc_Shared ctx0) @ take (1024 - length (req_bytes (sc_Shared ctx0))) (outgoing ctx0)" by blast
  have w: "sc_Watch c1 = sc_Watch ctx0" "sc_WatchList c1 = sc_WatchList ctx0" "sc_Shared c1 = S" by (simp_all add: l(2))
  have "acceptable c1 = acceptable ctx0" using w(1,2) by (rule acceptable_cong)
  with deliver_all_total [OF l(3,4)] acc obtain c where c: "deliver_all ms c1 = Some c" by auto
  from poll_loop_law [where daemon = daemon and k = k, OF ok ctx0 quiet l(1) ms c] obtain c' where "poll_loop daemon k ctx = Some c'" "store_eq c c'" "store_ok c'"
    "blocked c'" "rsp_bytes (sc_Shared c') = []" "received (sc_Response c') = left" "req_bytes (sc_Shared c') = req_bytes (sc_Shared c1)"
    by blast
  then show ?thesis using l(1,5,6) c w(3) unfolding poll_result_def by auto
qed

text \<open>
  C12. A poll with a quiet other side returns, without a bug check when the messages are acceptable. It
  sends the bytes of the submitted requests in order as far as the ring has room, takes all bytes of
  the response ring, delivers every complete message once and in order, whatever pieces they came in,
  and keeps the bytes of the incomplete one.
\<close>
theorem StorePollLocked_delivers:
  assumes "store_ok ctx" and "messages (incoming ctx) = Some (ms, left)" and "\<forall>m \<in> set ms. acceptable ctx m"
  shows "\<exists>ctx'. StorePollLocked (\<lambda>k S. S) count ctx = Some (count, ctx') \<and>
     poll_result ms left (ctx\<lparr>sc_Polls := (sc_Polls ctx + 1) mod 2 ^ 32\<rparr>) ctx'"
proof -
  let ?ctx = "ctx\<lparr>sc_Polls := (sc_Polls ctx + 1) mod 2 ^ 32\<rparr>"
  have "acceptable ?ctx = acceptable ctx" by (rule acceptable_cong) simp_all
  moreover have "store_ok ?ctx" "incoming ?ctx = incoming ctx"
    using assms(1) by (simp_all add: store_ok_def submitted_wf_def incoming_def)
  ultimately obtain ctx' where "poll_loop (\<lambda>k S. S) 0 ?ctx = Some ctx'" "poll_result ms left ?ctx ctx'"
    using poll_total [where ctx0 = ?ctx and ctx = ?ctx and daemon = "\<lambda>k S. S" and k = 0 and ms = ms and left = left] assms(2,3) by auto
  then show ?thesis by (simp add: StorePollLocked_def)
qed

section \<open>A request and its response\<close>

text \<open>Nothing under way.\<close>

definition store_idle :: "XENBUS_STORE_CONTEXT \<Rightarrow> bool" where
  "store_idle ctx \<longleftrightarrow> sc_SubmittedList ctx = [] \<and> sc_PendingList ctx = [] \<and> sc_Response ctx = empty_RESPONSE \<and>
     req_ok (sc_Shared ctx) \<and> rsp_ok (sc_Shared ctx) \<and> rsp_bytes (sc_Shared ctx) = []"

lemma received_Nil: "response_wf rp \<Longrightarrow> received rp = [] \<Longrightarrow> rp = empty_RESPONSE"
  by (cases rp) (auto simp: response_wf_def received_def empty_RESPONSE_def split: if_splits)

lemma messages_Nil [simp]: "messages [] = Some ([], [])"
  by (subst messages.simps) simp

text \<open>Request \<open>r\<close> is on its way and the only one.\<close>

definition in_flight :: "nat \<Rightarrow> nat \<Rightarrow> string \<Rightarrow> XENBUS_STORE_CONTEXT \<Rightarrow> XENBUS_STORE_CONTEXT \<Rightarrow> bool" where
  "in_flight r req_id out ctx ctx' \<longleftrightarrow> (\<exists>S rq p n. ctx' = ctx\<lparr>sc_Request := (sc_Request ctx)(r := rq), sc_Shared := S,
       sc_PendingList := [r], sc_Polls := p, sc_Sends := n\<rparr> \<and>
     rq_State rq = XENBUS_STORE_REQUEST_PENDING \<and> rq_Header rq = rq_Header (sc_Request ctx r) \<and> sm_req_id (rq_Header rq) = req_id \<and>
     req_ok S \<and> rsp_ok S \<and> rsp_bytes S = [] \<and> req_bytes S = out)"

lemma waits_unsent: "request_wf rq \<Longrightarrow> waits rq \<Longrightarrow> unsent rq \<noteq> []"
  by (simp add: waits_def request_wf_nth(3))

lemma poll_sends:
  assumes idle: "store_idle ctx" and r: "request_wf (sc_Request ctx r)" and fits: "length (req_bytes (sc_Shared ctx)) + length (unsent (sc_Request ctx r)) \<le> 1024"
    and ctx1: "ctx1 = ctx\<lparr>sc_SubmittedList := [r], sc_Request := (sc_Request ctx)(r := (sc_Request ctx r)\<lparr>rq_State := XENBUS_STORE_REQUEST_SUBMITTED\<rparr>)\<rparr>"
  shows "\<exists>ctx'. StorePollLocked (\<lambda>k S. S) count ctx1 = Some (count, ctx') \<and>
     in_flight r (sm_req_id (rq_Header (sc_Request ctx r))) (req_bytes (sc_Shared ctx) @ unsent (sc_Request ctx r)) ctx ctx'"
proof -
  let ?c = "ctx1\<lparr>sc_Polls := (sc_Polls ctx1 + 1) mod 2 ^ 32\<rparr>" and ?u = "unsent (sc_Request ctx r)" and ?b = "req_bytes (sc_Shared ctx)"
  have wf: "submitted_wf ?c" "req_ok (sc_Shared ?c)" "store_ok ?c"
    using idle r by (auto simp: ctx1 store_idle_def store_ok_def submitted_wf_def request_wf_def)
  have out: "outgoing ?c = ?u" by (simp add: outgoing_def ctx1 unsent_def)
  have bytes: "req_bytes (sc_Shared ?c) = ?b" "rsp_bytes (sc_Shared ?c) = []" "incoming ?c = []"
    using idle by (simp_all add: ctx1 incoming_def store_idle_def)
  from StoreSendRequests_law [OF wf(1,2), unfolded out bytes] obtain W sent R S c1 where l: "StoreSendRequests ?c = Some (W, c1)"
    "c1 = ?c\<lparr>sc_Request := R, sc_Shared := S, sc_SubmittedList := drop (length sent) (sc_SubmittedList ?c),
       sc_PendingList := sc_PendingList ?c @ sent\<rparr>" "sc_SubmittedList ?c = sent @ sc_SubmittedList c1" "submitted_wf c1" "blocked c1"
    "outgoing c1 = drop (1024 - length ?b) ?u" "\<forall>q. same_request (sc_Request ?c q) (R q)"
    "\<forall>q. q \<notin> set (sc_SubmittedList ?c) \<longrightarrow> R q = sc_Request ?c q" "req_bytes S = ?b @ take (1024 - length ?b) ?u" by blast
  have none: "outgoing c1 = []" using l(6) fits by simp
  have "sc_SubmittedList c1 = []"
  proof (rule ccontr)
    assume ne: "sc_SubmittedList c1 \<noteq> []"
    then have "waits (sc_Request c1 (hd (sc_SubmittedList c1)))" "request_wf (sc_Request c1 (hd (sc_SubmittedList c1)))"
      using l(4,5) by (auto simp: blocked_def submitted_wf_def)
    then show False using waits_unsent none ne by (cases "sc_SubmittedList c1") (auto simp: outgoing_def)
  qed
  then have sent: "sent = [r]" using l(3) by (simp add: ctx1)
  have pend: "rq_State (R r) = XENBUS_STORE_REQUEST_PENDING" using l(4) sent by (simp add: submitted_wf_def l(2))
  have msgs: "messages (incoming ?c) = Some ([], [])" using bytes(3) by simp
  from poll_loop_law [where daemon = "\<lambda>k S. S" and k = 0, OF wf(3) _ _ l(1) msgs] obtain c' where c':
    "poll_loop (\<lambda>k S. S) 0 ?c = Some c'" "store_eq c1 c'" "store_ok c'"
    "rsp_bytes (sc_Shared c') = []" "received (sc_Response c') = []" "req_bytes (sc_Shared c') = req_bytes (sc_Shared c1)" by auto
  have R: "R = (sc_Request ctx)(r := R r)" using l(8) by (auto simp: ctx1 fun_eq_iff)
  have "sc_Response c' = sc_Response ctx" using received_Nil c'(3,5) idle by (simp add: store_ok_def store_idle_def)
  then have "c' = c1\<lparr>sc_Shared := sc_Shared c', sc_Response := sc_Response ctx, sc_Sends := sc_Sends c'\<rparr>"
    using c'(2) by (cases c1; cases c') (simp add: store_eq_def)
  also have "\<dots> = ctx\<lparr>sc_Request := R, sc_Shared := sc_Shared c', sc_PendingList := [r], sc_Polls := sc_Polls ?c, sc_Sends := sc_Sends c'\<rparr>"
    using idle sent by (cases ctx) (simp add: l(2) ctx1 store_idle_def)
  also have "\<dots> = ctx\<lparr>sc_Request := (sc_Request ctx)(r := R r), sc_Shared := sc_Shared c', sc_PendingList := [r], sc_Polls := sc_Polls ?c, sc_Sends := sc_Sends c'\<rparr>"
    using R by simp
  finally have "in_flight r (sm_req_id (rq_Header (sc_Request ctx r))) (?b @ ?u) ctx c'"
    unfolding in_flight_def
    using pend l(7) [THEN spec [of _ r]] c'(3,4,6) l(9) fits
    by (intro exI conjI) (assumption, simp_all add: same_request_def store_ok_def ctx1 l(2))
  moreover have "StorePollLocked (\<lambda>k S. S) count ctx1 = Some (count, c')" using c'(1) by (simp add: StorePollLocked_def)
  ultimately show ?thesis by blast
qed

lemma poll_waits:
  assumes fl: "in_flight r req_id out ctx ctx1" and idle: "store_idle ctx"
  shows "\<exists>ctx'. StorePollLocked (\<lambda>k S. S) count ctx1 = Some (count, ctx') \<and> in_flight r req_id out ctx ctx'"
proof -
  let ?c = "ctx1\<lparr>sc_Polls := (sc_Polls ctx1 + 1) mod 2 ^ 32\<rparr>"
  from fl obtain S rq p n where f: "ctx1 = ctx\<lparr>sc_Request := (sc_Request ctx)(r := rq), sc_Shared := S,
       sc_PendingList := [r], sc_Polls := p, sc_Sends := n\<rparr>" "rq_State rq = XENBUS_STORE_REQUEST_PENDING"
    "rq_Header rq = rq_Header (sc_Request ctx r)" "sm_req_id (rq_Header rq) = req_id"
    "req_ok S" "rsp_ok S" "rsp_bytes S = []" "req_bytes S = out" unfolding in_flight_def by (elim exE conjE)
  have wf: "store_ok ?c" "blocked ?c" "incoming ?c = []" "req_bytes (sc_Shared ?c) = out" "sc_Response ?c = empty_RESPONSE"
    using f idle by (simp_all add: store_ok_def submitted_wf_def blocked_def incoming_def store_idle_def)
  have msgs: "messages (incoming ?c) = Some ([], [])" using wf(3) by simp
  from poll_loop_settled [where daemon = "\<lambda>k S. S" and k = 0, OF wf(1,2) msgs] obtain c' where c':
    "poll_loop (\<lambda>k S. S) 0 ?c = Some c'" "store_eq ?c c'" "store_ok c'"
    "rsp_bytes (sc_Shared c') = []" "received (sc_Response c') = []" "req_bytes (sc_Shared c') = out" using wf(4) by auto
  have "sc_Response c' = empty_RESPONSE" using received_Nil c'(3,5) by (simp add: store_ok_def)
  then have "c' = ctx\<lparr>sc_Request := (sc_Request ctx)(r := rq), sc_Shared := sc_Shared c', sc_PendingList := [r],
      sc_Polls := sc_Polls ?c, sc_Sends := sc_Sends c'\<rparr>"
    using c'(2) wf(5) by (cases ctx; cases c') (simp add: f(1) store_eq_def)
  then have "in_flight r req_id out ctx c'"
    unfolding in_flight_def using f(2-4) c'(3,4,6) by (intro exI conjI) (assumption, simp_all add: store_ok_def)
  then show ?thesis using c'(1) by (simp add: StorePollLocked_def)
qed

text \<open>The other side answers: whatever it does with the requests, message \<open>m\<close> is then on the response ring.\<close>

definition answers :: "(xenstore_domain_interface \<Rightarrow> xenstore_domain_interface) \<Rightarrow> string \<Rightarrow> string \<Rightarrow> bool" where
  "answers f out bs \<longleftrightarrow> (\<forall>S. req_ok S \<and> rsp_ok S \<and> rsp_bytes S = [] \<and> req_bytes S = out \<longrightarrow>
     req_ok (f S) \<and> rsp_ok (f S) \<and> rsp_bytes (f S) = bs)"

definition completed :: "nat \<Rightarrow> XENBUS_STORE_RESPONSE \<Rightarrow> XENBUS_STORE_CONTEXT \<Rightarrow> XENBUS_STORE_CONTEXT \<Rightarrow> bool" where
  "completed r rp ctx ctx' \<longleftrightarrow> (\<exists>S rq p n. ctx' = ctx\<lparr>sc_Request := (sc_Request ctx)(r := rq), sc_Shared := S,
       sc_Polls := p, sc_Sends := n\<rparr> \<and>
     rq_State rq = XENBUS_STORE_REQUEST_COMPLETED \<and> rq_Header rq = rq_Header (sc_Request ctx r) \<and> rq_Response rq = Some rp \<and>
     req_ok S \<and> rsp_ok S \<and> rsp_bytes S = [])"

lemma poll_answered:
  assumes fl: "in_flight r req_id out ctx ctx1" and idle: "store_idle ctx"
    and ans: "answers (daemon 0) out (encode m)" and quiet: "\<And>k. 0 < k \<Longrightarrow> daemon k = (\<lambda>S. S)"
    and m: "message_ok m" "sm_req_id (fst m) = req_id" "sm_type (fst m) \<noteq> XS_WATCH_EVENT" "\<not> StoreIgnoreHeaderType (sm_type (fst m))"
  shows "\<exists>ctx'. StorePollLocked daemon count ctx1 = Some (count, ctx') \<and> completed r (full_response (encode m)) ctx ctx'"
proof -
  let ?p = "ctx1\<lparr>sc_Polls := (sc_Polls ctx1 + 1) mod 2 ^ 32\<rparr>"
  let ?c = "?p\<lparr>sc_Shared := daemon 0 (sc_Shared ?p)\<rparr>"
  from fl obtain S rq p n where f: "ctx1 = ctx\<lparr>sc_Request := (sc_Request ctx)(r := rq), sc_Shared := S,
       sc_PendingList := [r], sc_Polls := p, sc_Sends := n\<rparr>" "rq_State rq = XENBUS_STORE_REQUEST_PENDING"
    "rq_Header rq = rq_Header (sc_Request ctx r)" "sm_req_id (rq_Header rq) = req_id"
    "req_ok S" "rsp_ok S" "rsp_bytes S = []" "req_bytes S = out" unfolding in_flight_def by (elim exE conjE)
  have page: "req_ok (daemon 0 S)" "rsp_ok (daemon 0 S)" "rsp_bytes (daemon 0 S) = encode m" using ans f(5-8) by (simp_all add: answers_def)
  have wf: "store_ok ?c" "incoming ?c = encode m" using f page idle by (simp_all add: store_ok_def submitted_wf_def incoming_def store_idle_def)
  have send: "StoreSendRequests ?c = Some (0, ?c)" using f(1) idle by (simp add: StoreSendRequests_def store_idle_def)
  have msgs: "messages (incoming ?c) = Some ([encode m], [])" using messages_encode [of "[m]" "[]"] m(1) wf(2) by simp
  let ?rp = "full_response (encode m)" and ?rq = "rq\<lparr>rq_Response := Some (full_response (encode m)), rq_State := XENBUS_STORE_REQUEST_COMPLETED\<rparr>"
  have hdr: "header_of (rp_Header ?rp) = fst m"
    using header_roundtrip [of "fst m" "[]"] m(1) full_response_encode [OF m(1)] by (simp add: message_ok_def)
  have find: "find_request ((sc_Request ctx)(r := rq)) [r] req_id = Some r" using f(4) by simp
  let ?d = "?c\<lparr>sc_PendingList := [], sc_Response := empty_RESPONSE, sc_Request := (sc_Request ctx)(r := ?rq)\<rparr>"
  have "rp_Payload ?rp \<longleftrightarrow> rp_Length ?rp \<noteq> 0" by (simp add: full_response_def)
  then have "deliver (encode m) ?c = Some ?d"
    using m(2-4) find f(2) by (simp add: deliver_def StoreProcessResponse_def hdr Let_def StoreFindRequest_def f(1) StoreCopyResponse_def
        StoreResetResponse_def)
  then have all: "deliver_all [encode m] ?c = Some ?d" by simp
  from poll_loop_law [where daemon = daemon and k = 0, OF wf(1) refl quiet send msgs all] obtain c' where c':
    "poll_loop daemon 0 ?p = Some c'" "store_eq ?d c'" "store_ok c'" "rsp_bytes (sc_Shared c') = []" "received (sc_Response c') = []" by blast
  have "sc_Response c' = empty_RESPONSE" using received_Nil c'(3,5) by (simp add: store_ok_def)
  then have "c' = ctx\<lparr>sc_Request := (sc_Request ctx)(r := ?rq), sc_Shared := sc_Shared c', sc_Polls := sc_Polls ?p, sc_Sends := sc_Sends c'\<rparr>"
    using c'(2) idle by (cases ctx; cases c') (simp add: f(1) store_eq_def store_idle_def)
  then have "completed r ?rp ctx c'"
    unfolding completed_def using f(3) c'(3,4) by (intro exI conjI) (assumption, simp_all add: store_ok_def)
  then show ?thesis using c'(1) by (simp add: StorePollLocked_def)
qed

lemma submit_loop_answered:
  assumes "in_flight r req_id out ctx ctx1" and "store_idle ctx" and "j \<le> J"
    and "\<And>i. j \<le> i \<Longrightarrow> i < J \<Longrightarrow> daemon i = (\<lambda>k S. S)"
    and "answers (daemon J 0) out (encode m)" and "\<And>k. 0 < k \<Longrightarrow> daemon J k = (\<lambda>S. S)"
    and "message_ok m" and "sm_req_id (fst m) = req_id" and "sm_type (fst m) \<noteq> XS_WATCH_EVENT" and "\<not> StoreIgnoreHeaderType (sm_type (fst m))"
  shows "\<exists>ctx'. submit_loop daemon j r ctx1 = Some ctx' \<and> completed r (full_response (encode m)) ctx ctx'"
  using assms(1,3,4)
proof (induction "J - j" arbitrary: j ctx1)
  case 0
  then have j: "j = J" by simp
  have "rq_State (sc_Request ctx1 r) \<noteq> XENBUS_STORE_REQUEST_COMPLETED" using 0(2) by (auto simp: in_flight_def)
  moreover from poll_answered [where daemon = "daemon J" and count = 0, OF 0(2) assms(2,5,6,7,8,9,10)] obtain c' where c':
    "StorePollLocked (daemon J) 0 ctx1 = Some (0, c')" "completed r (full_response (encode m)) ctx c'" by blast
  moreover have "rq_State (sc_Request c' r) = XENBUS_STORE_REQUEST_COMPLETED" using c'(2) by (auto simp: completed_def)
  ultimately show ?case
    unfolding j by (intro exI [of _ c'] conjI) (subst submit_loop.simps, simp, subst submit_loop.simps, simp)
next
  case (Suc n)
  have "rq_State (sc_Request ctx1 r) \<noteq> XENBUS_STORE_REQUEST_COMPLETED" using Suc(3) by (auto simp: in_flight_def)
  moreover have "daemon j = (\<lambda>k S. S)" using Suc(2) Suc(5) [of j] by simp
  moreover from poll_waits [where count = 0, OF Suc(3) assms(2)] obtain c' where c':
    "StorePollLocked (\<lambda>k S. S) 0 ctx1 = Some (0, c')" "in_flight r req_id out ctx c'" by blast
  ultimately have "submit_loop daemon j r ctx1 = submit_loop daemon (Suc j) r c'" by (subst submit_loop.simps) simp
  moreover have "n = J - Suc j" "Suc j \<le> J" using Suc(2) by simp_all
  ultimately show ?case using Suc(1) [OF _ c'(2)] Suc(5) by simp
qed

text \<open>
  A request that fits in the ring, submitted to an idle client, returns with the response that the
  other side gives to its id, however many polls it takes; afterwards the client is idle again, the
  request is reset and nothing else has changed.
\<close>
lemma StoreSubmitRequest_answered:
  assumes "store_idle ctx" and "rq_State (sc_Request ctx r) = XENBUS_STORE_REQUEST_PREPARED" and "request_wf (sc_Request ctx r)"
    and "length (req_bytes (sc_Shared ctx)) + length (unsent (sc_Request ctx r)) \<le> 1024"
    and "0 < J" and "\<And>i. i < J \<Longrightarrow> daemon i = (\<lambda>k S. S)"
    and "answers (daemon J 0) (req_bytes (sc_Shared ctx) @ unsent (sc_Request ctx r)) (encode m)"
    and "\<And>k. 0 < k \<Longrightarrow> daemon J k = (\<lambda>S. S)"
    and "message_ok m" and "sm_req_id (fst m) = sm_req_id (rq_Header (sc_Request ctx r))"
    and "sm_type (fst m) \<in> {XS_ERROR, sm_type (rq_Header (sc_Request ctx r))}"
    and "sm_type (fst m) \<noteq> XS_WATCH_EVENT" and "\<not> StoreIgnoreHeaderType (sm_type (fst m))"
  shows "\<exists>S p n. StoreSubmitRequest True daemon r ctx = Some (Some \<lparr>rp_Header = header_bytes (fst m), rp_Payload = (snd m \<noteq> []),
         rp_Length = length (snd m), rp_Data = snd m\<rparr>,
       ctx\<lparr>sc_Request := (sc_Request ctx)(r := zero_REQUEST), sc_Shared := S, sc_Polls := p, sc_Sends := n\<rparr>) \<and>
     store_idle (ctx\<lparr>sc_Request := (sc_Request ctx)(r := zero_REQUEST), sc_Shared := S, sc_Polls := p, sc_Sends := n\<rparr>)"
proof -
  let ?rq = "sc_Request ctx r" and ?rp = "full_response (encode m)"
  let ?ctx1 = "ctx\<lparr>sc_SubmittedList := [r], sc_Request := (sc_Request ctx)(r := ?rq\<lparr>rq_State := XENBUS_STORE_REQUEST_SUBMITTED\<rparr>)\<rparr>"
  from poll_sends [where count = 0, OF assms(1,3,4) refl] obtain c1 where c1: "StorePollLocked (\<lambda>k S. S) 0 ?ctx1 = Some (0, c1)"
    "in_flight r (sm_req_id (rq_Header ?rq)) (req_bytes (sc_Shared ctx) @ unsent ?rq) ctx c1" by blast
  from submit_loop_answered [where j = 1 and J = J and daemon = daemon, OF c1(2) assms(1) _ assms(6) assms(7,8,9,10,12,13)] assms(5)
  obtain c2 where c2: "submit_loop daemon 1 r c1 = Some c2" "completed r ?rp ctx c2" by auto
  from c2(2) obtain S rq p n where f: "c2 = ctx\<lparr>sc_Request := (sc_Request ctx)(r := rq), sc_Shared := S, sc_Polls := p, sc_Sends := n\<rparr>"
    "rq_Header rq = rq_Header ?rq" "rq_Response rq = Some ?rp" "req_ok S" "rsp_ok S" "rsp_bytes S = []" unfolding completed_def by blast
  have hdr: "header_of (rp_Header ?rp) = fst m"
    using header_roundtrip [of "fst m" "[]"] assms(9) full_response_encode [OF assms(9)] by (simp add: message_ok_def)
  have list: "sc_SubmittedList ctx = []" using assms(1) by (simp add: store_idle_def)
  let ?c = "c2\<lparr>sc_Request := (sc_Request c2)(r := zero_REQUEST)\<rparr>"
  have "daemon 0 = (\<lambda>k S. S)" using assms(5,6) by simp
  then have "StoreSubmitRequest True daemon r ctx = Some (Some ?rp, ?c)"
    using assms(2,11) c1(1) c2(1) f(1-3) hdr list by (auto simp: StoreSubmitRequest_def)
  moreover have "?c = ctx\<lparr>sc_Request := (sc_Request ctx)(r := zero_REQUEST), sc_Shared := S, sc_Polls := p, sc_Sends := n\<rparr>"
    by (simp add: f(1))
  moreover have "store_idle (ctx\<lparr>sc_Request := (sc_Request ctx)(r := zero_REQUEST), sc_Shared := S, sc_Polls := p, sc_Sends := n\<rparr>)"
    using assms(1) f(4-6) by (simp add: store_idle_def)
  ultimately show ?thesis unfolding full_response_encode [OF assms(9)] by auto
qed

section \<open>Samples\<close>

definition empty_page :: xenstore_domain_interface where
  "empty_page = \<lparr>xs_req = replicate 1024 NUL, xs_rsp = replicate 1024 NUL, xs_req_cons = 0, xs_req_prod = 0,
     xs_rsp_cons = 0, xs_rsp_prod = 0\<rparr>"

definition sample_watch :: XENBUS_STORE_WATCH where
  "sample_watch = \<lparr>wt_Magic = True, wt_Caller = 77, wt_Id = 5, wt_Path = ''p'', wt_Event = 9, wt_Active = True\<rparr>"

definition store_sample :: XENBUS_STORE_CONTEXT where
  "store_sample = \<lparr>sc_References = 1, sc_Shared = empty_page, sc_RequestId = 3, sc_SubmittedList = [], sc_PendingList = [],
     sc_Request = (\<lambda>r. zero_REQUEST), sc_TransactionList = [], sc_Transaction = (\<lambda>t. \<lparr>tr_Magic = True, tr_Caller = 0, tr_Id = 0, tr_Active = False\<rparr>),
     sc_WatchId = 6, sc_WatchList = [1], sc_Watch = (\<lambda>w. sample_watch), sc_BufferList = [],
     sc_Buffer = (\<lambda>b. \<lparr>bf_Magic = False, bf_Length = 0, bf_Caller = 0, bf_Data = []\<rparr>), sc_Polls = 0, sc_Dpcs = 0, sc_Events = 0,
     sc_Response = empty_RESPONSE, sc_Signalled = {}, sc_Sends = 0, sc_DpcQueued = False, sc_Address = 0, sc_Mapped = True,
     sc_Channel = Some 1, sc_Enabled = True, sc_Evtchn = True, sc_Suspend = True, sc_SuspendCallbackEarly = True,
     sc_SuspendCallbackLate = True, sc_Debug = True, sc_DebugCallback = True, sc_Gnttab = gnttab_sample\<rparr>"

lemma empty_page_ok [simp]: "req_ok empty_page" "rsp_ok empty_page" "req_bytes empty_page = []" "rsp_bytes empty_page = []"
  by (simp_all add: req_ok_def rsp_ok_def req_bytes_def rsp_bytes_def ring_ok_def ring_bytes_def XENSTORE_RING_SIZE_def empty_page_def)

lemma store_sample_idle: "store_idle store_sample"
  by (simp add: store_idle_def store_sample_def)

text \<open>A watch event for the sample's watch.\<close>

definition sample_event :: "xsd_sockmsg \<times> string" where
  "sample_event = (\<lparr>sm_type = XS_WATCH_EVENT, sm_req_id = 0, sm_tx_id = 0, sm_len = 28\<rparr>,
     ''p'' @ [NUL] @ ''TOK|000000000000004D|0005'' @ [NUL])"

definition event_page :: xenstore_domain_interface where
  "event_page = snd (daemon_write (encode sample_event) empty_page)"

lemma event_page_bytes: "req_ok event_page \<and> rsp_ok event_page \<and> req_bytes event_page = [] \<and> rsp_bytes event_page = encode sample_event"
proof -
  from rsp.put_law [OF empty_page_ok(2), of "encode sample_event"] obtain S' n where
    S': "daemon_write (encode sample_event) empty_page = (n, S')" "rsp_ok S'" "rsp_bytes S' = take 1024 (encode sample_event)" by auto
  have "length (encode sample_event) = 44" by (simp add: encode_def sample_event_def)
  moreover have "xs_req S' = xs_req empty_page" "xs_req_cons S' = xs_req_cons empty_page" "xs_req_prod S' = xs_req_prod empty_page"
    using S'(1) by (auto simp: daemon_write_def split: prod.splits)
  then have "req_ok S' = req_ok empty_page" "req_bytes S' = req_bytes empty_page" by (simp_all add: req_ok_def req_bytes_def)
  ultimately show ?thesis using S' by (simp add: event_page_def)
qed

lemma sample_event_ok: "message_ok sample_event"
  by (simp add: message_ok_def sample_event_def sockmsg_ok_def StoreVerifyHeader_def StoreIgnoreHeaderType_def XENSTORE_PAYLOAD_MAX_def)

lemma sample_event_parses: "StoreParseWatchEvent (Some (snd sample_event)) = Some (STATUS_SUCCESS, Some (''p'', 77, 5))"
  by (simp add: StoreParseWatchEvent_def sample_event_def NUL_def strtou16_def Let_def skip_0x_def is_space_def is_hex_def hex_value_def hex_number_def TOKEN_LENGTH_def of_char_def)

lemma sample_event_acceptable: "acceptable store_sample (encode sample_event)"
proof -
  have "header_of (header_bytes (fst sample_event)) = fst sample_event"
    using header_roundtrip [of "fst sample_event" "[]"] sample_event_ok by (simp add: message_ok_def)
  then show ?thesis
    unfolding acceptable_def full_response_encode [OF sample_event_ok]
    using sample_event_parses by (simp add: StoreFindWatch_def store_sample_def sample_watch_def) (simp add: sample_event_def)
qed

theorem StorePollLocked_delivers_witness:
  "\<exists>ctx'. StorePollLocked (\<lambda>k S. S) 4 (store_sample\<lparr>sc_Shared := event_page\<rparr>) = Some (4, ctx') \<and>
     poll_result [encode sample_event] [] (store_sample\<lparr>sc_Shared := event_page, sc_Polls := 1\<rparr>) ctx'"
proof -
  let ?c = "store_sample\<lparr>sc_Shared := event_page\<rparr>"
  have "store_ok ?c" using event_page_bytes by (simp add: store_ok_def submitted_wf_def store_sample_def)
  moreover have "messages (incoming ?c) = Some ([encode sample_event], [])"
    using event_page_bytes messages_encode [of "[sample_event]" "[]"] sample_event_ok by (simp add: incoming_def store_sample_def)
  moreover have "\<forall>m \<in> set [encode sample_event]. acceptable ?c m"
    using sample_event_acceptable acceptable_cong [of ?c store_sample] by simp
  moreover have "sc_Polls ?c = 0" by (simp add: store_sample_def)
  ultimately show ?thesis using StorePollLocked_delivers [of ?c "[encode sample_event]" "[]" 4] by simp
qed

end
