(* ===== verification/Store_Ops.thy ===== *)
theory Store_Ops
  imports Store_Poll
begin

text \<open>
  The operations of the XenStore client (src/src/xenbus/store.c) on top of the message layer: reading,
  writing, removing and listing nodes, permissions, transactions, watches, the watchdog, suspend and
  resume, acquiring and releasing the interface.
\<close>

section \<open>Status of a response\<close>

definition xsd_errors :: "(nat \<times> string) list" where
  "xsd_errors = [(22, ''EINVAL''), (13, ''EACCES''), (17, ''EEXIST''), (21, ''EISDIR''), (2, ''ENOENT''),
     (12, ''ENOMEM''), (28, ''ENOSPC''), (5, ''EIO''), (39, ''ENOTEMPTY''), (38, ''ENOSYS''), (30, ''EROFS''),
     (16, ''EBUSY''), (11, ''EAGAIN''), (106, ''EISCONN''), (7, ''E2BIG'')]"

definition ERRNO_TO_STATUS :: "nat \<Rightarrow> NTSTATUS" where
  "ERRNO_TO_STATUS errno =
     (if errno = 22 then STATUS_INVALID_PARAMETER
      else if errno = 13 then STATUS_ACCESS_DENIED
      else if errno = 17 then STATUS_OBJECTID_EXISTS
      else if errno = 21 then STATUS_FILE_IS_A_DIRECTORY
      else if errno = 2 then STATUS_OBJECT_NAME_NOT_FOUND
      else if errno = 12 then STATUS_NO_MEMORY
      else if errno = 28 then STATUS_INSUFFICIENT_RESOURCES
      else if errno = 5 then STATUS_UNEXPECTED_IO_ERROR
      else if errno = 39 then STATUS_DIRECTORY_NOT_EMPTY
      else if errno = 38 then STATUS_NOT_IMPLEMENTED
      else if errno = 30 then STATUS_MEDIA_WRITE_PROTECTED
      else if errno = 16 then STATUS_PIPE_BUSY
      else if errno = 11 then STATUS_RETRY
      else if errno = 106 then STATUS_PIPE_CONNECTED
      else if errno = 1 then STATUS_ACCESS_DENIED
      else STATUS_UNSUCCESSFUL)"

text \<open>
  \<^verbatim>\<open>strncmp(a, b, n) == 0\<close>: the first \<open>n\<close> bytes agree up to a NUL. A text stands for its bytes followed
  by a NUL, as the response's buffer and the literals have it.
\<close>

fun strncmp_eq :: "string \<Rightarrow> string \<Rightarrow> nat \<Rightarrow> bool" where
  "strncmp_eq a b 0 = True"
| "strncmp_eq [] [] (Suc n) = True"
| "strncmp_eq (x # a) [] (Suc n) = (x = NUL)"
| "strncmp_eq [] (y # b) (Suc n) = (y = NUL)"
| "strncmp_eq (x # a) (y # b) (Suc n) = (x = y \<and> (y = NUL \<or> strncmp_eq a b n))"

fun find_error :: "string \<Rightarrow> nat \<Rightarrow> (nat \<times> string) list \<Rightarrow> NTSTATUS" where
  "find_error Error n [] = STATUS_UNSUCCESSFUL"
| "find_error Error n ((errnum, errstring) # es) =
     (if strncmp_eq Error errstring n then ERRNO_TO_STATUS errnum else find_error Error n es)"

definition response_type :: "XENBUS_STORE_RESPONSE \<Rightarrow> nat" where
  "response_type Response = sm_type (header_of (rp_Header Response))"

definition StoreCheckResponse :: "XENBUS_STORE_RESPONSE \<Rightarrow> NTSTATUS" where
  "StoreCheckResponse Response =
     (if response_type Response = XS_ERROR then
        (if strncmp_eq (rp_Data Response) ''EQUOTA'' (rp_Length Response) then STATUS_QUOTA_EXCEEDED
         else find_error (rp_Data Response) (rp_Length Response) xsd_errors)
      else STATUS_SUCCESS)"

section \<open>Buffers\<close>

text \<open>\<open>a\<close> is the new buffer's address, none when there is no memory.\<close>

definition StoreCopyPayload ::
  "nat option \<Rightarrow> XENBUS_STORE_RESPONSE \<Rightarrow> nat \<Rightarrow> XENBUS_STORE_CONTEXT \<Rightarrow> nat option \<times> XENBUS_STORE_CONTEXT" where
  "StoreCopyPayload a Response Caller ctx =
     (case a of
        None \<Rightarrow> (None, ctx)
      | Some Buffer \<Rightarrow> (Some Buffer, ctx\<lparr>sc_Buffer := (sc_Buffer ctx)(Buffer :=
            \<lparr>bf_Magic = True, bf_Length = rp_Length Response, bf_Caller = Caller, bf_Data = rp_Data Response @ [NUL, NUL]\<rparr>),
          sc_BufferList := sc_BufferList ctx @ [Buffer]\<rparr>))"

definition StoreFreePayload :: "nat \<Rightarrow> XENBUS_STORE_CONTEXT \<Rightarrow> XENBUS_STORE_CONTEXT kernel" where
  "StoreFreePayload Buffer ctx =
     do {
       ASSERT (bf_Magic (sc_Buffer ctx Buffer));
       Some (ctx\<lparr>sc_BufferList := remove1 Buffer (sc_BufferList ctx)\<rparr>)
     }"

text \<open>\<^verbatim>\<open>StoreFree\<close> finds the buffer of a value, which is its last field.\<close>

definition StoreFree :: "nat \<Rightarrow> XENBUS_STORE_CONTEXT \<Rightarrow> XENBUS_STORE_CONTEXT kernel" where
  "StoreFree Buffer ctx = StoreFreePayload Buffer ctx"

section \<open>Paths\<close>

definition StoreCheckPathLength :: "string option \<Rightarrow> string \<Rightarrow> NTSTATUS" where
  "StoreCheckPathLength Prefix Node =
     (let rest = (\<lambda>MaximumLength.
            if length Node > MaximumLength then STATUS_INVALID_BUFFER_SIZE
            else if MaximumLength - length Node < 1 then STATUS_INVALID_BUFFER_SIZE
            else STATUS_SUCCESS)
      in case Prefix of
        Some P \<Rightarrow>
          let MaximumLength = (if P = [] \<or> hd P = CHR ''/'' then XENSTORE_ABS_PATH_MAX else XENSTORE_REL_PATH_MAX) in
          if length P > MaximumLength then STATUS_INVALID_BUFFER_SIZE
          else if MaximumLength - length P < 1 then STATUS_INVALID_BUFFER_SIZE
          else rest (MaximumLength - length P - 1)
      | None \<Rightarrow> rest (if Node \<noteq> [] \<and> hd Node = CHR ''/'' then XENSTORE_ABS_PATH_MAX else XENSTORE_REL_PATH_MAX))"

text \<open>The pieces of a path in a request, and the path they make.\<close>

definition path_args :: "string option \<Rightarrow> string \<Rightarrow> string list" where
  "path_args Prefix Node = (case Prefix of None \<Rightarrow> [Node, [NUL]] | Some P \<Rightarrow> [P, ''/'', Node, [NUL]])"

definition path_of :: "string option \<Rightarrow> string \<Rightarrow> string" where
  "path_of Prefix Node = (case Prefix of None \<Rightarrow> Node | Some P \<Rightarrow> P @ ''/'' @ Node)"

section \<open>Requests\<close>

text \<open>
  What the operations have in common: clear the request on the stack (at \<open>r\<close>), prepare it, submit it.
  \<open>mem\<close> is whether there is memory for the response. The result is the status when the request could
  not be prepared, or else what \<^verbatim>\<open>StoreSubmitRequest\<close> returned.
\<close>

type_synonym store_daemon = "nat \<Rightarrow> nat \<Rightarrow> xenstore_domain_interface \<Rightarrow> xenstore_domain_interface"

definition do_request ::
  "bool \<Rightarrow> store_daemon \<Rightarrow> nat \<Rightarrow> nat option \<Rightarrow> nat \<Rightarrow> string list \<Rightarrow> XENBUS_STORE_CONTEXT \<Rightarrow>
     ((NTSTATUS + XENBUS_STORE_RESPONSE option) \<times> XENBUS_STORE_CONTEXT) kernel" where
  "do_request mem daemon r Transaction Type args ctx =
     do {
       (status, ctx1) \<leftarrow> StorePrepareRequest r Transaction Type args (ctx\<lparr>sc_Request := (sc_Request ctx)(r := zero_REQUEST)\<rparr>);
       (if \<not> NT_SUCCESS status then Some (Inl status, ctx1)
        else do { (Response, ctx2) \<leftarrow> StoreSubmitRequest mem daemon r ctx1; Some (Inr Response, ctx2) })
     }"

definition request_zero :: "nat \<Rightarrow> XENBUS_STORE_CONTEXT \<Rightarrow> bool" where
  "request_zero r ctx \<longleftrightarrow> sc_Request ctx r = zero_REQUEST"

definition StoreRead ::
  "bool \<Rightarrow> nat option \<Rightarrow> store_daemon \<Rightarrow> nat \<Rightarrow> nat \<Rightarrow> nat option \<Rightarrow> string option \<Rightarrow> string \<Rightarrow> XENBUS_STORE_CONTEXT \<Rightarrow>
     (NTSTATUS \<times> nat option \<times> XENBUS_STORE_CONTEXT) kernel" where
  "StoreRead mem a daemon r Caller Transaction Prefix Node ctx =
     (if \<not> NT_SUCCESS (StoreCheckPathLength Prefix Node) then Some (StoreCheckPathLength Prefix Node, None, ctx)
      else do {
        (result, ctx1) \<leftarrow> do_request mem daemon r Transaction XS_READ (path_args Prefix Node) ctx;
        ASSERT (request_zero r ctx1);
        (case result of
           Inl status \<Rightarrow> Some (status, None, ctx1)
         | Inr None \<Rightarrow> Some (STATUS_NO_MEMORY, None, ctx1)
         | Inr (Some Response) \<Rightarrow>
             if \<not> NT_SUCCESS (StoreCheckResponse Response) then Some (StoreCheckResponse Response, None, ctx1)
             else case StoreCopyPayload a Response Caller ctx1 of
               (None, ctx2) \<Rightarrow> Some (STATUS_NO_MEMORY, None, ctx2)
             | (Some Buffer, ctx2) \<Rightarrow> Some (STATUS_SUCCESS, Some Buffer, ctx2))
      })"

text \<open>In \<^verbatim>\<open>StoreWrite\<close> the request is not looked at when it could not be prepared.\<close>

definition StoreWrite ::
  "bool \<Rightarrow> store_daemon \<Rightarrow> nat \<Rightarrow> nat option \<Rightarrow> string option \<Rightarrow> string \<Rightarrow> string \<Rightarrow> XENBUS_STORE_CONTEXT \<Rightarrow>
     (NTSTATUS \<times> XENBUS_STORE_CONTEXT) kernel" where
  "StoreWrite mem daemon r Transaction Prefix Node Value ctx =
     do {
       (result, ctx1) \<leftarrow> do_request mem daemon r Transaction XS_WRITE (path_args Prefix Node @ [Value]) ctx;
       (case result of
          Inl status \<Rightarrow> Some (status, ctx1)
        | Inr None \<Rightarrow> do { ASSERT (request_zero r ctx1); Some (STATUS_NO_MEMORY, ctx1) }
        | Inr (Some Response) \<Rightarrow> do { ASSERT (request_zero r ctx1); Some (StoreCheckResponse Response, ctx1) })
     }"

text \<open>
  The loop of \<^verbatim>\<open>StoreVPrintf\<close>: \<open>Value\<close> is the text the format and its arguments make; \<open>alloc n\<close> is whether
  a buffer of \<open>n\<close> bytes is to be had. Printing fails when the text with its NUL is longer than the buffer,
  and for a buffer of no bytes.
\<close>

function vprintf_buffer :: "(nat \<Rightarrow> bool) \<Rightarrow> string \<Rightarrow> nat \<Rightarrow> NTSTATUS" where
  "vprintf_buffer alloc Value Length =
     (if \<not> alloc Length then STATUS_NO_MEMORY
      else if Length = 0 then STATUS_INVALID_PARAMETER
      else if length Value + 1 \<le> Length then STATUS_SUCCESS
      else if Length * 2 > 1024 then STATUS_INVALID_BUFFER_SIZE
      else vprintf_buffer alloc Value (Length * 2))"
  by pat_completeness auto
termination
  by (relation "measure (\<lambda>(alloc, Value, Length). 2048 - Length)") auto

declare vprintf_buffer.simps [simp del]

definition StoreVPrintf ::
  "(nat \<Rightarrow> bool) \<Rightarrow> bool \<Rightarrow> store_daemon \<Rightarrow> nat \<Rightarrow> nat option \<Rightarrow> string option \<Rightarrow> string \<Rightarrow> string \<Rightarrow> XENBUS_STORE_CONTEXT \<Rightarrow>
     (NTSTATUS \<times> XENBUS_STORE_CONTEXT) kernel" where
  "StoreVPrintf alloc mem daemon r Transaction Prefix Node Value ctx =
     (let status = vprintf_buffer alloc Value 32 in
      if \<not> NT_SUCCESS status then Some (status, ctx)
      else StoreWrite mem daemon r Transaction Prefix Node Value ctx)"

definition StorePrintf ::
  "(nat \<Rightarrow> bool) \<Rightarrow> bool \<Rightarrow> store_daemon \<Rightarrow> nat \<Rightarrow> nat option \<Rightarrow> string option \<Rightarrow> string \<Rightarrow> string \<Rightarrow> XENBUS_STORE_CONTEXT \<Rightarrow>
     (NTSTATUS \<times> XENBUS_STORE_CONTEXT) kernel" where
  "StorePrintf alloc mem daemon r Transaction Prefix Node Value ctx =
     (if \<not> NT_SUCCESS (StoreCheckPathLength Prefix Node) then Some (StoreCheckPathLength Prefix Node, ctx)
      else StoreVPrintf alloc mem daemon r Transaction Prefix Node Value ctx)"

definition StoreRemove ::
  "bool \<Rightarrow> store_daemon \<Rightarrow> nat \<Rightarrow> nat option \<Rightarrow> string option \<Rightarrow> string \<Rightarrow> XENBUS_STORE_CONTEXT \<Rightarrow>
     (NTSTATUS \<times> XENBUS_STORE_CONTEXT) kernel" where
  "StoreRemove mem daemon r Transaction Prefix Node ctx =
     (if \<not> NT_SUCCESS (StoreCheckPathLength Prefix Node) then Some (StoreCheckPathLength Prefix Node, ctx)
      else do {
        (result, ctx1) \<leftarrow> do_request mem daemon r Transaction XS_RM (path_args Prefix Node) ctx;
        ASSERT (request_zero r ctx1);
        (case result of
           Inl status \<Rightarrow> Some (status, ctx1)
         | Inr None \<Rightarrow> Some (STATUS_NO_MEMORY, ctx1)
         | Inr (Some Response) \<Rightarrow> Some (StoreCheckResponse Response, ctx1))
      })"

definition StoreDirectory ::
  "bool \<Rightarrow> nat option \<Rightarrow> store_daemon \<Rightarrow> nat \<Rightarrow> nat \<Rightarrow> nat option \<Rightarrow> string option \<Rightarrow> string \<Rightarrow> XENBUS_STORE_CONTEXT \<Rightarrow>
     (NTSTATUS \<times> nat option \<times> XENBUS_STORE_CONTEXT) kernel" where
  "StoreDirectory mem a daemon r Caller Transaction Prefix Node ctx =
     (if \<not> NT_SUCCESS (StoreCheckPathLength Prefix Node) then Some (StoreCheckPathLength Prefix Node, None, ctx)
      else do {
        (result, ctx1) \<leftarrow> do_request mem daemon r Transaction XS_DIRECTORY (path_args Prefix Node) ctx;
        ASSERT (request_zero r ctx1);
        (case result of
           Inl status \<Rightarrow> Some (status, None, ctx1)
         | Inr None \<Rightarrow> Some (STATUS_NO_MEMORY, None, ctx1)
         | Inr (Some Response) \<Rightarrow>
             if \<not> NT_SUCCESS (StoreCheckResponse Response) then Some (StoreCheckResponse Response, None, ctx1)
             else case StoreCopyPayload a Response Caller ctx1 of
               (None, ctx2) \<Rightarrow> Some (STATUS_NO_MEMORY, None, ctx2)
             | (Some Buffer, ctx2) \<Rightarrow>
                 if bf_Length (sc_Buffer ctx2 Buffer) = 0
                 then do { ctx3 \<leftarrow> StoreFreePayload Buffer ctx2; Some (STATUS_OBJECT_PATH_NOT_FOUND, None, ctx3) }
                 else Some (STATUS_SUCCESS, Some Buffer, ctx2))
      })"

section \<open>Transactions\<close>

text \<open>\<^verbatim>\<open>strtoul\<close> in base 10 of a buffer that ends in NULs.\<close>

definition is_digit :: "char \<Rightarrow> bool" where
  "is_digit c \<longleftrightarrow> 48 \<le> (of_char c :: nat) \<and> of_char c \<le> (57::nat)"

definition strtoul10 :: "string \<Rightarrow> nat" where
  "strtoul10 s =
     (let s1 = dropWhile is_space s;
          neg = (s1 \<noteq> [] \<and> hd s1 = CHR ''-'');
          s2 = (if s1 \<noteq> [] \<and> (hd s1 = CHR ''-'' \<or> hd s1 = CHR ''+'') then tl s1 else s1);
          n = min (2 ^ 32 - 1) (foldl (\<lambda>n c. n * 10 + (of_char c - 48)) 0 (takeWhile is_digit s2))
      in if neg \<and> n < 2 ^ 32 - 1 then (2 ^ 32 - n) mod 2 ^ 32 else n)"

definition zero_TRANSACTION :: XENBUS_STORE_TRANSACTION where
  "zero_TRANSACTION = \<lparr>tr_Magic = False, tr_Caller = 0, tr_Id = 0, tr_Active = False\<rparr>"

text \<open>
  \<open>a\<close> is the address of the new transaction, none without memory. An empty payload is no buffer at
  all: reading the id from it is a bug check.
\<close>

definition StoreTransactionStart ::
  "nat option \<Rightarrow> bool \<Rightarrow> store_daemon \<Rightarrow> nat \<Rightarrow> nat \<Rightarrow> XENBUS_STORE_CONTEXT \<Rightarrow>
     (NTSTATUS \<times> nat option \<times> XENBUS_STORE_CONTEXT) kernel" where
  "StoreTransactionStart a mem daemon r Caller ctx =
     (case a of
        None \<Rightarrow> Some (STATUS_NO_MEMORY, None, ctx)
      | Some T \<Rightarrow>
          let start = \<lparr>tr_Magic = True, tr_Caller = Caller, tr_Id = 0, tr_Active = False\<rparr>;
              set = (\<lambda>t c. c\<lparr>sc_Transaction := (sc_Transaction c)(T := t)\<rparr>);
              fail2 = (\<lambda>status c. let t = (sc_Transaction c T)\<lparr>tr_Caller := 0, tr_Magic := False\<rparr> in
                do { ASSERT (t = zero_TRANSACTION); Some (status, None, set t c) })
          in do {
            (result, ctx1) \<leftarrow> do_request mem daemon r None XS_TRANSACTION_START [[NUL]] (set start ctx);
            (case result of
               Inl status \<Rightarrow> fail2 status ctx1
             | Inr None \<Rightarrow> fail2 STATUS_NO_MEMORY ctx1
             | Inr (Some Response) \<Rightarrow>
                 if \<not> NT_SUCCESS (StoreCheckResponse Response)
                 then do { ASSERT (request_zero r ctx1); fail2 (StoreCheckResponse Response) ctx1 }
                 else do {
                   Data \<leftarrow> response_payload Response;
                   ASSERT (strtoul10 Data \<noteq> 0);
                   ASSERT (request_zero r ctx1);
                   Some (STATUS_SUCCESS, Some T,
                     set ((sc_Transaction ctx1 T)\<lparr>tr_Id := strtoul10 Data, tr_Active := True\<rparr>) ctx1
                       \<lparr>sc_TransactionList := sc_TransactionList ctx1 @ [T]\<rparr>)
                 })
          })"

text \<open>The label \<^verbatim>\<open>done\<close>: the transaction is unlinked, cleared and freed.\<close>

definition transaction_done ::
  "NTSTATUS \<Rightarrow> nat \<Rightarrow> XENBUS_STORE_CONTEXT \<Rightarrow> (NTSTATUS \<times> XENBUS_STORE_CONTEXT) kernel" where
  "transaction_done status T ctx =
     (let t = (sc_Transaction ctx T)\<lparr>tr_Id := 0, tr_Caller := 0, tr_Magic := False\<rparr> in
      do {
        ASSERT (t = zero_TRANSACTION);
        Some (status, ctx\<lparr>sc_Transaction := (sc_Transaction ctx)(T := t),
          sc_TransactionList := remove1 T (sc_TransactionList ctx)\<rparr>)
      })"

definition StoreTransactionEnd ::
  "bool \<Rightarrow> store_daemon \<Rightarrow> nat \<Rightarrow> nat \<Rightarrow> bool \<Rightarrow> XENBUS_STORE_CONTEXT \<Rightarrow>
     (NTSTATUS \<times> XENBUS_STORE_CONTEXT) kernel" where
  "StoreTransactionEnd mem daemon r T Commit ctx =
     do {
       ASSERT (tr_Magic (sc_Transaction ctx T));
       (if \<not> tr_Active (sc_Transaction ctx T) then transaction_done STATUS_RETRY T ctx
        else do {
          (result, ctx1) \<leftarrow> do_request mem daemon r (Some T) XS_TRANSACTION_END [(if Commit then ''T'' else ''F'') @ [NUL]] ctx;
          ASSERT (request_zero r ctx1);
          (case result of
             Inl status \<Rightarrow> Some (status, ctx1)
           | Inr None \<Rightarrow> Some (STATUS_NO_MEMORY, ctx1)
           | Inr (Some Response) \<Rightarrow>
               let status = StoreCheckResponse Response in
               if \<not> NT_SUCCESS status \<and> status \<noteq> STATUS_RETRY then Some (status, ctx1)
               else transaction_done status T
                 (ctx1\<lparr>sc_Transaction := (sc_Transaction ctx1)(T := (sc_Transaction ctx1 T)\<lparr>tr_Active := False\<rparr>)\<rparr>))
        })
     }"

section \<open>Watches\<close>

definition hex_digit :: "nat \<Rightarrow> char" where
  "hex_digit n = char_of (if n < 10 then 48 + n else 55 + n)"

text \<open>\<open>k\<close> digits in base 16, in capitals and with leading zeroes, as \<^verbatim>\<open>%04X\<close> and \<^verbatim>\<open>%p\<close> print them.\<close>

fun hex_fixed :: "nat \<Rightarrow> nat \<Rightarrow> string" where
  "hex_fixed 0 n = []"
| "hex_fixed (Suc k) n = hex_fixed k (n div 16) @ [hex_digit (n mod 16)]"

definition watch_token :: "nat \<Rightarrow> nat \<Rightarrow> string" where
  "watch_token Caller wid = ''TOK|'' @ hex_fixed 16 Caller @ ''|'' @ hex_fixed 4 wid"

definition zero_WATCH :: XENBUS_STORE_WATCH where
  "zero_WATCH = \<lparr>wt_Magic = False, wt_Caller = 0, wt_Id = 0, wt_Path = [], wt_Event = 0, wt_Active = False\<rparr>"

text \<open>The labels \<^verbatim>\<open>fail3\<close> and \<^verbatim>\<open>fail5\<close> of \<^verbatim>\<open>StoreWatchAdd\<close>.\<close>

definition watch_fail3 ::
  "NTSTATUS \<Rightarrow> nat \<Rightarrow> XENBUS_STORE_CONTEXT \<Rightarrow> (NTSTATUS \<times> nat option \<times> XENBUS_STORE_CONTEXT) kernel" where
  "watch_fail3 status W ctx =
     (let w = (sc_Watch ctx W)\<lparr>wt_Caller := 0, wt_Magic := False\<rparr> in
      do { ASSERT (w = zero_WATCH); Some (status, None, ctx\<lparr>sc_Watch := (sc_Watch ctx)(W := w)\<rparr>) })"

definition watch_fail5 ::
  "NTSTATUS \<Rightarrow> nat \<Rightarrow> nat \<Rightarrow> XENBUS_STORE_CONTEXT \<Rightarrow> (NTSTATUS \<times> nat option \<times> XENBUS_STORE_CONTEXT) kernel" where
  "watch_fail5 status r W ctx =
     do {
       ASSERT (request_zero r ctx);
       watch_fail3 status W (ctx\<lparr>sc_Watch := (sc_Watch ctx)(W :=
           (sc_Watch ctx W)\<lparr>wt_Active := False, wt_Id := 0, wt_Event := 0, wt_Path := []\<rparr>),
         sc_WatchList := remove1 W (sc_WatchList ctx)\<rparr>)
     }"

text \<open>
  \<open>a\<close> is the address of the new watch, none without memory, \<open>path_mem\<close> whether there is memory for the
  path. A request that cannot be prepared leads to the label \<^verbatim>\<open>fail4\<close>, which does not unlink the watch.
\<close>

definition StoreWatchAdd ::
  "nat option \<Rightarrow> bool \<Rightarrow> bool \<Rightarrow> store_daemon \<Rightarrow> nat \<Rightarrow> nat \<Rightarrow> string option \<Rightarrow> string \<Rightarrow> nat \<Rightarrow> XENBUS_STORE_CONTEXT \<Rightarrow>
     (NTSTATUS \<times> nat option \<times> XENBUS_STORE_CONTEXT) kernel" where
  "StoreWatchAdd a path_mem mem daemon r Caller Prefix Node Event ctx =
     (if \<not> NT_SUCCESS (StoreCheckPathLength Prefix Node) then Some (StoreCheckPathLength Prefix Node, None, ctx)
      else case a of
        None \<Rightarrow> Some (STATUS_NO_MEMORY, None, ctx)
      | Some W \<Rightarrow>
          let ctx1 = ctx\<lparr>sc_Watch := (sc_Watch ctx)(W := zero_WATCH\<lparr>wt_Magic := True, wt_Caller := Caller\<rparr>)\<rparr> in
          if \<not> path_mem then watch_fail3 STATUS_NO_MEMORY W ctx1
          else do {
            let Path = path_of Prefix Node;
            (wid, ctx2) \<leftarrow> StoreNextWatchId ctx1;
            let ctx3 = ctx2\<lparr>sc_Watch := (sc_Watch ctx2)(W :=
                (sc_Watch ctx2 W)\<lparr>wt_Path := Path, wt_Event := Event, wt_Id := wid, wt_Active := True\<rparr>),
              sc_WatchList := sc_WatchList ctx2 @ [W]\<rparr>;
            let Token = watch_token Caller wid;
            ASSERT (length Token = TOKEN_LENGTH - 1);
            (result, ctx4) \<leftarrow> do_request mem daemon r None XS_WATCH [Path, [NUL], Token, [NUL]] ctx3;
            (case result of
               Inl status \<Rightarrow> watch_fail3 status W ctx4
             | Inr None \<Rightarrow> watch_fail5 STATUS_NO_MEMORY r W ctx4
             | Inr (Some Response) \<Rightarrow>
                 if \<not> NT_SUCCESS (StoreCheckResponse Response) then watch_fail5 (StoreCheckResponse Response) r W ctx4
                 else do { ASSERT (request_zero r ctx4); Some (STATUS_SUCCESS, Some W, ctx4) })
          })"

text \<open>The label \<^verbatim>\<open>done\<close> of \<^verbatim>\<open>StoreWatchRemove\<close>.\<close>

definition watch_done :: "nat \<Rightarrow> XENBUS_STORE_CONTEXT \<Rightarrow> (NTSTATUS \<times> XENBUS_STORE_CONTEXT) kernel" where
  "watch_done W ctx =
     (let w = (sc_Watch ctx W)\<lparr>wt_Id := 0, wt_Event := 0, wt_Path := [], wt_Caller := 0, wt_Magic := False\<rparr> in
      do {
        ASSERT (w = zero_WATCH);
        Some (STATUS_SUCCESS, ctx\<lparr>sc_Watch := (sc_Watch ctx)(W := w), sc_WatchList := remove1 W (sc_WatchList ctx)\<rparr>)
      })"

definition StoreWatchRemove ::
  "bool \<Rightarrow> store_daemon \<Rightarrow> nat \<Rightarrow> nat \<Rightarrow> XENBUS_STORE_CONTEXT \<Rightarrow> (NTSTATUS \<times> XENBUS_STORE_CONTEXT) kernel" where
  "StoreWatchRemove mem daemon r W ctx =
     do {
       ASSERT (wt_Magic (sc_Watch ctx W));
       let Path = wt_Path (sc_Watch ctx W);
       let Token = watch_token (wt_Caller (sc_Watch ctx W)) (wt_Id (sc_Watch ctx W));
       ASSERT (length Token = TOKEN_LENGTH - 1);
       (if \<not> wt_Active (sc_Watch ctx W) then watch_done W ctx
        else do {
          (result, ctx1) \<leftarrow> do_request mem daemon r None XS_UNWATCH [Path, [NUL], Token, [NUL]] ctx;
          ASSERT (request_zero r ctx1);
          (case result of
             Inl status \<Rightarrow> Some (status, ctx1)
           | Inr None \<Rightarrow> Some (STATUS_NO_MEMORY, ctx1)
           | Inr (Some Response) \<Rightarrow>
               if \<not> NT_SUCCESS (StoreCheckResponse Response) then Some (StoreCheckResponse Response, ctx1)
               else watch_done W (ctx1\<lparr>sc_Watch := (sc_Watch ctx1)(W := (sc_Watch ctx1 W)\<lparr>wt_Active := False\<rparr>)\<rparr>))
        })
     }"

section \<open>Permissions\<close>

record XENBUS_STORE_PERMISSION =
  pm_Domain :: nat
  pm_Mask :: nat

abbreviation (input) XENBUS_STORE_PERM_NONE :: nat where "XENBUS_STORE_PERM_NONE \<equiv> 0"
abbreviation (input) XENBUS_STORE_PERM_READ :: nat where "XENBUS_STORE_PERM_READ \<equiv> 1"
abbreviation (input) XENBUS_STORE_PERM_WRITE :: nat where "XENBUS_STORE_PERM_WRITE \<equiv> 2"

text \<open>\<^verbatim>\<open>%u\<close>.\<close>

fun decimal :: "nat \<Rightarrow> string" where
  "decimal n = (if n < 10 then [char_of (48 + n)] else decimal (n div 10) @ [char_of (48 + n mod 10)])"

declare decimal.simps [simp del]

text \<open>The result is the text written with its NUL, whose length is \<^verbatim>\<open>UsedSize\<close>.\<close>

definition permission_letter :: "nat \<Rightarrow> char option" where
  "permission_letter Mask =
     (if Mask = XENBUS_STORE_PERM_NONE then Some CHR ''n''
      else if Mask = XENBUS_STORE_PERM_READ then Some CHR ''r''
      else if Mask = XENBUS_STORE_PERM_WRITE then Some CHR ''w''
      else if Mask = or XENBUS_STORE_PERM_READ XENBUS_STORE_PERM_WRITE then Some CHR ''b'' else None)"

definition StorePermissionToString :: "XENBUS_STORE_PERMISSION \<Rightarrow> nat \<Rightarrow> (NTSTATUS \<times> string) kernel" where
  "StorePermissionToString Permission BufferSize =
     do {
       ASSERT (BufferSize > 1);
       Some (case permission_letter (pm_Mask Permission) of
          None \<Rightarrow> (STATUS_INVALID_PARAMETER, [])
        | Some c \<Rightarrow>
            if length (decimal (pm_Domain Permission)) + 1 \<le> BufferSize - 1
            then (STATUS_SUCCESS, c # decimal (pm_Domain Permission) @ [NUL])
            else (STATUS_BUFFER_OVERFLOW, []))
     }"

text \<open>The loop of \<^verbatim>\<open>StorePermissionsSet\<close>: \<open>Length\<close> bytes of the buffer are left, \<open>s\<close> has been written.\<close>

fun permission_strings :: "XENBUS_STORE_PERMISSION list \<Rightarrow> nat \<Rightarrow> string \<Rightarrow> (NTSTATUS \<times> string) kernel" where
  "permission_strings [] Length s = Some (STATUS_SUCCESS, s)"
| "permission_strings (p # ps) Length s =
     do {
       (status, t) \<leftarrow> StorePermissionToString p Length;
       (if \<not> NT_SUCCESS status then Some (status, s) else permission_strings ps (Length - length t) (s @ t))
     }"

text \<open>\<open>buf_mem\<close> and \<open>path_mem\<close> are the two allocations.\<close>

definition StorePermissionsSet ::
  "bool \<Rightarrow> bool \<Rightarrow> bool \<Rightarrow> store_daemon \<Rightarrow> nat \<Rightarrow> nat option \<Rightarrow> string option \<Rightarrow> string \<Rightarrow> XENBUS_STORE_PERMISSION list \<Rightarrow>
     XENBUS_STORE_CONTEXT \<Rightarrow> (NTSTATUS \<times> XENBUS_STORE_CONTEXT) kernel" where
  "StorePermissionsSet buf_mem path_mem mem daemon r Transaction Prefix Node Permissions ctx =
     (if \<not> NT_SUCCESS (StoreCheckPathLength Prefix Node) then Some (StoreCheckPathLength Prefix Node, ctx)
      else if \<not> buf_mem then Some (STATUS_NO_MEMORY, ctx)
      else if \<not> path_mem then Some (STATUS_NO_MEMORY, ctx)
      else do {
        (status, PermissionString) \<leftarrow> permission_strings Permissions XENSTORE_PAYLOAD_MAX [];
        (if \<not> NT_SUCCESS status then Some (status, ctx)
         else do {
           (result, ctx1) \<leftarrow> do_request mem daemon r Transaction XS_SET_PERMS [path_of Prefix Node, [NUL], PermissionString] ctx;
           ASSERT (request_zero r ctx1);
           (case result of
              Inl status \<Rightarrow> Some (status, ctx1)
            | Inr None \<Rightarrow> Some (STATUS_NO_MEMORY, ctx1)
            | Inr (Some Response) \<Rightarrow> Some (StoreCheckResponse Response, ctx1))
         })
      })"

section \<open>Events\<close>

definition StoreQueueDpc :: "XENBUS_STORE_CONTEXT \<Rightarrow> XENBUS_STORE_CONTEXT" where
  "StoreQueueDpc ctx =
     (if sc_DpcQueued ctx then ctx else ctx\<lparr>sc_DpcQueued := True, sc_Dpcs := (sc_Dpcs ctx + 1) mod 2 ^ 32\<rparr>)"

definition StoreEvtchnCallback :: "XENBUS_STORE_CONTEXT \<Rightarrow> bool \<times> XENBUS_STORE_CONTEXT" where
  "StoreEvtchnCallback ctx = (True, StoreQueueDpc (ctx\<lparr>sc_Events := (sc_Events ctx + 1) mod 2 ^ 32\<rparr>))"

definition StoreDisable :: "XENBUS_STORE_CONTEXT \<Rightarrow> XENBUS_STORE_CONTEXT" where
  "StoreDisable ctx = ctx\<lparr>sc_Enabled := False, sc_Channel := None\<rparr>"

text \<open>\<open>param\<close> answers \<^verbatim>\<open>HvmGetParam\<close>, \<open>open\<close> opens the port it names (a channel, if it can).\<close>

definition StoreEnable ::
  "NTSTATUS \<times> nat \<Rightarrow> (nat \<Rightarrow> nat option) \<Rightarrow> XENBUS_STORE_CONTEXT \<Rightarrow> XENBUS_STORE_CONTEXT kernel" where
  "StoreEnable param open ctx =
     (case param of (status, Value) \<Rightarrow>
        if \<not> NT_SUCCESS status then BUG
        else let ctx1 = ctx\<lparr>sc_Channel := open (Value mod 2 ^ 32)\<rparr> in
        do {
          ASSERT (sc_Channel ctx1 \<noteq> None);
          Some (StoreQueueDpc (ctx1\<lparr>sc_Enabled := True\<rparr>))
        })"

definition XENBUS_GNTTAB_STORE_REFERENCE :: nat where
  "XENBUS_GNTTAB_STORE_REFERENCE = 1"

definition StoreGetAddress :: "XENBUS_STORE_CONTEXT \<Rightarrow> (NTSTATUS \<times> nat) kernel" where
  "StoreGetAddress ctx =
     do {
       (status, r) \<leftarrow> GnttabQueryReference (sc_Gnttab ctx) XENBUS_GNTTAB_STORE_REFERENCE;
       (case r of None \<Rightarrow> Some (status, 0) | Some (Pfn, ReadOnly) \<Rightarrow> Some (STATUS_SUCCESS, Pfn * 4096))
     }"

section \<open>The watchdog\<close>

text \<open>
  One round of \<^verbatim>\<open>StoreWatchdog\<close>, with the indices of the round before: when one ring has something new
  and its reader has not moved, the other side is notified and the rings are polled.
\<close>

record watchdog_indices =
  wd_req_prod :: "32 word"
  wd_req_cons :: "32 word"
  wd_rsp_prod :: "32 word"
  wd_rsp_cons :: "32 word"

definition stalled :: "watchdog_indices \<Rightarrow> xenstore_domain_interface \<Rightarrow> bool" where
  "stalled wd Shared \<longleftrightarrow> (xs_rsp_prod Shared \<noteq> wd_rsp_prod wd \<and> xs_rsp_cons Shared = wd_rsp_cons wd) \<or>
     (xs_req_prod Shared \<noteq> wd_req_prod wd \<and> xs_req_cons Shared = wd_req_cons wd)"

definition watchdog_round ::
  "(nat \<Rightarrow> xenstore_domain_interface \<Rightarrow> xenstore_domain_interface) \<Rightarrow> watchdog_indices \<Rightarrow> XENBUS_STORE_CONTEXT \<Rightarrow>
     (watchdog_indices \<times> XENBUS_STORE_CONTEXT) kernel" where
  "watchdog_round daemon wd ctx =
     (if sc_Enabled ctx then
        do {
          ctx1 \<leftarrow> (if stalled wd (sc_Shared ctx)
                    then map_option snd (StorePollLocked daemon 0 (ctx\<lparr>sc_Sends := sc_Sends ctx + 1\<rparr>)) else Some ctx);
          Some (\<lparr>wd_req_prod = xs_req_prod (sc_Shared ctx1), wd_req_cons = xs_req_cons (sc_Shared ctx1),
            wd_rsp_prod = xs_rsp_prod (sc_Shared ctx1), wd_rsp_cons = xs_rsp_cons (sc_Shared ctx1)\<rparr>, ctx1)
        }
      else Some (wd, ctx))"

text \<open>
  The thread: each time it wakes it may be alerted; \<open>world\<close> is what the others have done to the context
  meanwhile. With no waking left it is still waiting.
\<close>

fun StoreWatchdog ::
  "(bool \<times> (XENBUS_STORE_CONTEXT \<Rightarrow> XENBUS_STORE_CONTEXT) \<times> (nat \<Rightarrow> xenstore_domain_interface \<Rightarrow> xenstore_domain_interface)) list \<Rightarrow>
     watchdog_indices \<Rightarrow> XENBUS_STORE_CONTEXT \<Rightarrow> (NTSTATUS option \<times> XENBUS_STORE_CONTEXT) kernel" where
  "StoreWatchdog [] wd ctx = Some (None, ctx)"
| "StoreWatchdog ((alerted, world, daemon) # ws) wd ctx =
     (if alerted then Some (Some STATUS_SUCCESS, world ctx)
      else do { (wd1, ctx1) \<leftarrow> watchdog_round daemon wd (world ctx); StoreWatchdog ws wd1 ctx1 })"

section \<open>Suspend and resume\<close>

definition StoreSuspendCallbackEarly :: "XENBUS_STORE_CONTEXT \<Rightarrow> XENBUS_STORE_CONTEXT" where
  "StoreSuspendCallbackEarly ctx = ctx
     \<lparr>sc_Transaction := (\<lambda>T. if T \<in> set (sc_TransactionList ctx) then (sc_Transaction ctx T)\<lparr>tr_Active := False\<rparr> else sc_Transaction ctx T),
      sc_Watch := (\<lambda>W. if W \<in> set (sc_WatchList ctx) then (sc_Watch ctx W)\<lparr>wt_Active := False\<rparr> else sc_Watch ctx W)\<rparr>"

definition StoreSuspendCallbackLate ::
  "NTSTATUS \<times> nat \<Rightarrow> (nat \<Rightarrow> nat option) \<Rightarrow> XENBUS_STORE_CONTEXT \<Rightarrow> XENBUS_STORE_CONTEXT kernel" where
  "StoreSuspendCallbackLate param open ctx =
     do {
       (status, Address) \<leftarrow> StoreGetAddress ctx;
       ASSERT (NT_SUCCESS status);
       ASSERT (Address = sc_Address ctx);
       ctx1 \<leftarrow> StoreEnable param open (StoreResetResponse (StoreDisable ctx));
       Some (ctx1\<lparr>sc_Signalled := sc_Signalled ctx1 \<union> (\<lambda>W. wt_Event (sc_Watch ctx1 W)) ` set (sc_WatchList ctx1)\<rparr>)
     }"

section \<open>Acquiring and releasing\<close>

text \<open>What the calls on the way answer.\<close>

record store_calls =
  st_gnttab :: "gnttab_calls \<times> gnttab_env"
  st_page :: "xenstore_domain_interface option"
  st_evtchn :: NTSTATUS
  st_param :: "NTSTATUS \<times> nat"
  st_open :: "nat \<Rightarrow> nat option"
  st_suspend :: NTSTATUS
  st_early :: NTSTATUS
  st_late :: NTSTATUS
  st_debug :: NTSTATUS
  st_debug_cb :: NTSTATUS

definition st_fail1 :: "NTSTATUS \<Rightarrow> XENBUS_STORE_CONTEXT \<Rightarrow> (NTSTATUS \<times> XENBUS_STORE_CONTEXT) kernel" where
  "st_fail1 status ctx =
     (let ctx1 = ctx\<lparr>sc_Address := 0, sc_References := sc_References ctx - 1\<rparr> in
      do { ASSERT (sc_References ctx1 = 0); Some (status, ctx1) })"

definition st_fail2 :: "NTSTATUS \<Rightarrow> XENBUS_STORE_CONTEXT \<Rightarrow> (NTSTATUS \<times> XENBUS_STORE_CONTEXT) kernel" where
  "st_fail2 status ctx = do { g \<leftarrow> GnttabRelease (sc_Gnttab ctx); st_fail1 status (ctx\<lparr>sc_Gnttab := g\<rparr>) }"

definition st_fail3 :: "NTSTATUS \<Rightarrow> XENBUS_STORE_CONTEXT \<Rightarrow> (NTSTATUS \<times> XENBUS_STORE_CONTEXT) kernel" where
  "st_fail3 status ctx = st_fail2 status (ctx\<lparr>sc_Address := 0\<rparr>)"

definition st_fail4 :: "NTSTATUS \<Rightarrow> XENBUS_STORE_CONTEXT \<Rightarrow> (NTSTATUS \<times> XENBUS_STORE_CONTEXT) kernel" where
  "st_fail4 status ctx = st_fail3 status (ctx\<lparr>sc_Mapped := False\<rparr>)"

definition st_fail5 :: "NTSTATUS \<Rightarrow> XENBUS_STORE_CONTEXT \<Rightarrow> (NTSTATUS \<times> XENBUS_STORE_CONTEXT) kernel" where
  "st_fail5 status ctx = st_fail4 status ((StoreDisable ctx)\<lparr>sc_Response := empty_RESPONSE, sc_Evtchn := False\<rparr>)"

definition st_fail6 :: "NTSTATUS \<Rightarrow> XENBUS_STORE_CONTEXT \<Rightarrow> (NTSTATUS \<times> XENBUS_STORE_CONTEXT) kernel" where
  "st_fail6 status ctx = st_fail5 status (ctx\<lparr>sc_Suspend := False\<rparr>)"

definition st_fail7 :: "NTSTATUS \<Rightarrow> XENBUS_STORE_CONTEXT \<Rightarrow> (NTSTATUS \<times> XENBUS_STORE_CONTEXT) kernel" where
  "st_fail7 status ctx = st_fail6 status (ctx\<lparr>sc_SuspendCallbackEarly := False\<rparr>)"

definition st_fail8 :: "NTSTATUS \<Rightarrow> XENBUS_STORE_CONTEXT \<Rightarrow> (NTSTATUS \<times> XENBUS_STORE_CONTEXT) kernel" where
  "st_fail8 status ctx = st_fail7 status (ctx\<lparr>sc_SuspendCallbackLate := False\<rparr>)"

definition st_fail9 :: "NTSTATUS \<Rightarrow> XENBUS_STORE_CONTEXT \<Rightarrow> (NTSTATUS \<times> XENBUS_STORE_CONTEXT) kernel" where
  "st_fail9 status ctx = st_fail8 status (ctx\<lparr>sc_Debug := False\<rparr>)"

text \<open>From the event channel on.\<close>

definition store_connect :: "store_calls \<Rightarrow> XENBUS_STORE_CONTEXT \<Rightarrow> (NTSTATUS \<times> XENBUS_STORE_CONTEXT) kernel" where
  "store_connect calls ctx =
     (if \<not> NT_SUCCESS (st_evtchn calls) then st_fail4 (st_evtchn calls) ctx
      else do {
        ctx1 \<leftarrow> StoreEnable (st_param calls) (st_open calls) (StoreResetResponse (ctx\<lparr>sc_Evtchn := True\<rparr>));
        (if \<not> NT_SUCCESS (st_suspend calls) then st_fail5 (st_suspend calls) ctx1
         else let ctx2 = ctx1\<lparr>sc_Suspend := True\<rparr> in
         if \<not> NT_SUCCESS (st_early calls) then st_fail6 (st_early calls) ctx2
         else let ctx3 = ctx2\<lparr>sc_SuspendCallbackEarly := True\<rparr> in
         if \<not> NT_SUCCESS (st_late calls) then st_fail7 (st_late calls) ctx3
         else let ctx4 = ctx3\<lparr>sc_SuspendCallbackLate := True\<rparr> in
         if \<not> NT_SUCCESS (st_debug calls) then st_fail8 (st_debug calls) ctx4
         else let ctx5 = ctx4\<lparr>sc_Debug := True\<rparr> in
         if \<not> NT_SUCCESS (st_debug_cb calls) then st_fail9 (st_debug_cb calls) ctx5
         else Some (STATUS_SUCCESS, ctx5\<lparr>sc_DebugCallback := True\<rparr>))
      })"

definition StoreAcquire :: "store_calls \<Rightarrow> XENBUS_STORE_CONTEXT \<Rightarrow> (NTSTATUS \<times> XENBUS_STORE_CONTEXT) kernel" where
  "StoreAcquire calls ctx =
     (let ctx0 = ctx\<lparr>sc_References := sc_References ctx + 1\<rparr> in
      if sc_References ctx \<noteq> 0 then Some (STATUS_SUCCESS, ctx0)
      else case st_gnttab calls of (gcalls, genv) \<Rightarrow>
        do {
          (status, g) \<leftarrow> GnttabAcquire gcalls genv (sc_Gnttab ctx0);
          let ctx1 = ctx0\<lparr>sc_Gnttab := g\<rparr>;
          (if \<not> NT_SUCCESS status then st_fail1 status ctx1
           else do {
             (status, Address) \<leftarrow> StoreGetAddress ctx1;
             (if \<not> NT_SUCCESS status then st_fail2 status ctx1
              else let ctx2 = ctx1\<lparr>sc_Address := Address\<rparr> in
              case st_page calls of
                None \<Rightarrow> st_fail3 STATUS_UNSUCCESSFUL ctx2
              | Some Shared \<Rightarrow> store_connect calls (ctx2\<lparr>sc_Shared := Shared, sc_Mapped := True\<rparr>))
           })
        })"

definition StoreRelease ::
  "(nat \<Rightarrow> xenstore_domain_interface \<Rightarrow> xenstore_domain_interface) \<Rightarrow> XENBUS_STORE_CONTEXT \<Rightarrow> XENBUS_STORE_CONTEXT kernel" where
  "StoreRelease daemon ctx =
     (let ctx1 = ctx\<lparr>sc_References := sc_References ctx - 1\<rparr> in
      if sc_References ctx1 > 0 then Some ctx1
      else if sc_WatchList ctx1 \<noteq> [] then BUG
      else if sc_TransactionList ctx1 \<noteq> [] then BUG
      else if sc_BufferList ctx1 \<noteq> [] then BUG
      else do {
        let ctx2 = ctx1\<lparr>sc_DebugCallback := False, sc_Debug := False, sc_SuspendCallbackLate := False,
          sc_SuspendCallbackEarly := False, sc_Suspend := False\<rparr>;
        (count, ctx3) \<leftarrow> StorePollLocked daemon 0 ctx2;
        let ctx4 = (StoreDisable ctx3)\<lparr>sc_Response := empty_RESPONSE, sc_Evtchn := False, sc_Mapped := False, sc_Address := 0\<rparr>;
        g \<leftarrow> GnttabRelease (sc_Gnttab ctx4);
        Some (ctx4\<lparr>sc_Gnttab := g\<rparr>)
      })"

end
