(* ===== verification/Store_Correct.thy ===== *)
theory Store_Correct
  imports Store_Ops
begin

text \<open>
  The correctness of the XenStore client's operations: a request is prepared with exactly the bytes
  of its pieces, a read returns the value the other side answered, tokens and watch ids name their
  watch, paths that pass the check fit, suspending expires transactions and watches, acquiring takes
  everything or nothing.
\<close>

section \<open>Preparing\<close>

lemma add_segments_ok:
  assumes "length Segment + length args \<le> XENBUS_STORE_REQUEST_SEGMENT_COUNT" and "len + length (concat args) \<le> XENSTORE_PAYLOAD_MAX"
  shows "add_segments args len Segment = Some (len + length (concat args),
    Segment @ map (\<lambda>d. \<lparr>sg_Data = d, sg_Offset = 0, sg_Length = length d\<rparr>) args)"
  using assms
proof (induction args arbitrary: len Segment)
  case (Cons d args)
  have "length Segment < XENBUS_STORE_REQUEST_SEGMENT_COUNT" "len + length d \<le> XENSTORE_PAYLOAD_MAX" "len + length d < 2 ^ 32"
    using Cons.prems by (simp_all add: XENSTORE_PAYLOAD_MAX_def)
  then show ?case using Cons.prems Cons.IH [of "Segment @ [\<lparr>sg_Data = d, sg_Offset = 0, sg_Length = length d\<rparr>]" "len + length d"]
    by simp
qed simp

text \<open>The transaction id of a request; none for a transaction that is not active.\<close>

definition tx_id :: "nat option \<Rightarrow> XENBUS_STORE_CONTEXT \<Rightarrow> nat option" where
  "tx_id Transaction ctx = (case Transaction of None \<Rightarrow> Some 0
     | Some T \<Rightarrow> if tr_Active (sc_Transaction ctx T) then Some (tr_Id (sc_Transaction ctx T)) else None)"

text \<open>The message a request makes.\<close>

definition request_message :: "nat \<Rightarrow> nat \<Rightarrow> string list \<Rightarrow> XENBUS_STORE_CONTEXT \<Rightarrow> xsd_sockmsg \<times> string" where
  "request_message tx Type args ctx =
     (\<lparr>sm_type = Type, sm_req_id = sc_RequestId ctx, sm_tx_id = tx, sm_len = length (concat args)\<rparr>, concat args)"

lemma StorePrepareRequest_law:
  assumes "sc_Request ctx r = zero_REQUEST" and "tx_id T ctx = Some tx" and "length args \<le> 7" and "length (concat args) \<le> XENSTORE_PAYLOAD_MAX"
  shows "\<exists>rq. StorePrepareRequest r T Type args ctx = Some (STATUS_SUCCESS,
       ctx\<lparr>sc_RequestId := (sc_RequestId ctx + 1) mod 2 ^ 16, sc_Request := (sc_Request ctx)(r := rq)\<rparr>) \<and>
     rq_State rq = XENBUS_STORE_REQUEST_PREPARED \<and> request_wf rq \<and> rq_Header rq = fst (request_message tx Type args ctx) \<and>
     unsent rq = encode (request_message tx Type args ctx)"
proof -
  let ?seg = "\<lambda>d. \<lparr>sg_Data = d, sg_Offset = 0, sg_Length = length d\<rparr>"
  let ?H = "\<lparr>sm_type = Type, sm_req_id = sc_RequestId ctx, sm_tx_id = tx, sm_len = 0\<rparr>"
  let ?H1 = "?H\<lparr>sm_len := length (concat args)\<rparr>"
  have add: "add_segments args 0 [?seg (header_bytes ?H)] = Some (length (concat args), ?seg (header_bytes ?H) # map ?seg args)"
    using add_segments_ok [of "[?seg (header_bytes ?H)]" args 0] assms(3,4) by (simp add: XENBUS_STORE_REQUEST_SEGMENT_COUNT_def)
  define rq where "rq = \<lparr>rq_State = XENBUS_STORE_REQUEST_PREPARED, rq_Header = ?H1, rq_Segment = ?seg (header_bytes ?H1) # map ?seg args,
      rq_Count = Suc (length args), rq_Index = 0, rq_Response = None\<rparr>"
  have "StorePrepareRequest r T Type args ctx = Some (STATUS_SUCCESS,
       ctx\<lparr>sc_RequestId := (sc_RequestId ctx + 1) mod 2 ^ 16, sc_Request := (sc_Request ctx)(r := rq)\<rparr>)"
    using assms(1,2) add by (simp add: StorePrepareRequest_def tx_id_def [symmetric] Let_def rq_def)
  moreover have "request_wf rq" by (auto simp: request_wf_def rq_def)
  moreover have "concat (map segment_rest (map ?seg args)) = concat args" by (simp add: segment_rest_def o_def)
  then have "unsent rq = encode (request_message tx Type args ctx)"
    by (simp add: unsent_def rq_def encode_def request_message_def segment_rest_def)
  ultimately show ?thesis by (intro exI [of _ rq]) (simp add: rq_def request_message_def)
qed

section \<open>A request and its answer\<close>

definition response_to :: "xsd_sockmsg \<times> string \<Rightarrow> XENBUS_STORE_RESPONSE" where
  "response_to m = \<lparr>rp_Header = header_bytes (fst m), rp_Payload = (snd m \<noteq> []), rp_Length = length (snd m), rp_Data = snd m\<rparr>"

lemma response_type_response_to: "message_ok m \<Longrightarrow> response_type (response_to m) = sm_type (fst m)"
  using header_roundtrip [of "fst m" "[]"] by (simp add: response_type_def response_to_def message_ok_def)

text \<open>
  The other side is quiet up to poll \<open>J\<close>; then, having been sent \<open>out\<close>, it answers request \<open>q\<close> with \<open>m\<close>, whose
  type is the request's or \<^verbatim>\<open>XS_ERROR\<close>.
\<close>

definition answered_by :: "store_daemon \<Rightarrow> string \<Rightarrow> xsd_sockmsg \<Rightarrow> xsd_sockmsg \<times> string \<Rightarrow> bool" where
  "answered_by daemon out q m \<longleftrightarrow> message_ok m \<and> sm_req_id (fst m) = sm_req_id q \<and> sm_type (fst m) \<in> {XS_ERROR, sm_type q} \<and>
     (\<exists>J > 0. (\<forall>i < J. daemon i = (\<lambda>k S. S)) \<and> (\<forall>k > 0. daemon J k = (\<lambda>S. S)) \<and> answers (daemon J 0) out (encode m))"

text \<open>What a request leaves of the context.\<close>

definition after_request :: "nat \<Rightarrow> XENBUS_STORE_CONTEXT \<Rightarrow> XENBUS_STORE_CONTEXT \<Rightarrow> bool" where
  "after_request r ctx ctx' \<longleftrightarrow> store_idle ctx' \<and> sc_Request ctx' r = zero_REQUEST \<and>
     (\<exists>S p n. ctx' = ctx\<lparr>sc_RequestId := (sc_RequestId ctx + 1) mod 2 ^ 16, sc_Request := (sc_Request ctx)(r := zero_REQUEST),
        sc_Shared := S, sc_Polls := p, sc_Sends := n\<rparr>)"

lemma do_request_answered:
  assumes idle: "store_idle ctx" and tx: "tx_id T ctx = Some tx" and args: "length args \<le> 7" "length (concat args) \<le> XENSTORE_PAYLOAD_MAX"
    and fits: "length (req_bytes (sc_Shared ctx)) + 16 + length (concat args) \<le> 1024"
    and ans: "answered_by daemon (req_bytes (sc_Shared ctx) @ encode (request_message tx Type args ctx)) (fst (request_message tx Type args ctx)) m"
    and type: "Type \<noteq> XS_WATCH_EVENT" "\<not> StoreIgnoreHeaderType Type"
  shows "\<exists>ctx'. do_request True daemon r T Type args ctx = Some (Inr (Some (response_to m)), ctx') \<and> after_request r ctx ctx'"
proof -
  let ?q = "request_message tx Type args ctx" and ?ctx0 = "ctx\<lparr>sc_Request := (sc_Request ctx)(r := zero_REQUEST)\<rparr>"
  have pre: "tx_id T ?ctx0 = Some tx" unfolding tx [symmetric] by (cases T) (simp_all add: tx_id_def)
  have msg: "request_message tx Type args ?ctx0 = ?q" by (simp add: request_message_def)
  have "sc_Request ?ctx0 r = zero_REQUEST" "sc_RequestId ?ctx0 = sc_RequestId ctx" by simp_all
  note prep = StorePrepareRequest_law [where Type = Type, OF this(1) pre args, unfolded msg this(2)]
  have fold: "(sc_Request ?ctx0)(r := rq) = (sc_Request ctx)(r := rq)" for rq by simp
  from prep [unfolded fold] obtain rq where p:
    "StorePrepareRequest r T Type args ?ctx0 = Some (STATUS_SUCCESS,
       ?ctx0\<lparr>sc_RequestId := (sc_RequestId ctx + 1) mod 2 ^ 16, sc_Request := (sc_Request ctx)(r := rq)\<rparr>)"
    "rq_State rq = XENBUS_STORE_REQUEST_PREPARED" "request_wf rq" "rq_Header rq = fst ?q" "unsent rq = encode ?q" by (elim exE conjE)
  let ?ctx1 = "?ctx0\<lparr>sc_RequestId := (sc_RequestId ctx + 1) mod 2 ^ 16, sc_Request := (sc_Request ctx)(r := rq)\<rparr>"
  have m: "message_ok m" "sm_req_id (fst m) = sm_req_id (fst ?q)" "sm_type (fst m) \<in> {XS_ERROR, Type}"
    using ans by (simp_all add: answered_by_def request_message_def)
  then have notype: "sm_type (fst m) \<noteq> XS_WATCH_EVENT" "\<not> StoreIgnoreHeaderType (sm_type (fst m))"
    using type by (auto simp: StoreIgnoreHeaderType_def)
  from ans obtain J where J: "0 < J" "\<And>i. i < J \<Longrightarrow> daemon i = (\<lambda>k S. S)" "\<And>k. 0 < k \<Longrightarrow> daemon J k = (\<lambda>S. S)"
    "answers (daemon J 0) (req_bytes (sc_Shared ctx) @ encode ?q) (encode m)" unfolding answered_by_def by blast
  have "store_idle ?ctx1" "rq_State (sc_Request ?ctx1 r) = XENBUS_STORE_REQUEST_PREPARED" "request_wf (sc_Request ?ctx1 r)"
    "length (req_bytes (sc_Shared ?ctx1)) + length (unsent (sc_Request ?ctx1 r)) \<le> 1024"
    using idle p fits by (simp_all add: store_idle_def encode_def request_message_def)
  note pre1 = this
  have sel: "sc_Request ?ctx1 r = rq" "sc_Shared ?ctx1 = sc_Shared ctx" by simp_all
  have "answers (daemon J 0) (req_bytes (sc_Shared ?ctx1) @ unsent (sc_Request ?ctx1 r)) (encode m)"
    "sm_req_id (fst m) = sm_req_id (rq_Header (sc_Request ?ctx1 r))" "sm_type (fst m) \<in> {XS_ERROR, sm_type (rq_Header (sc_Request ?ctx1 r))}"
    unfolding sel p(4,5) using J(4) m(2,3) by (simp_all add: request_message_def)
  from StoreSubmitRequest_answered [where daemon = daemon and J = J, OF pre1 J(1,2) this(1) J(3) m(1) this(2,3) notype] obtain S k n where s:
    "StoreSubmitRequest True daemon r ?ctx1 = Some (Some (response_to m),
       ?ctx1\<lparr>sc_Request := (sc_Request ?ctx1)(r := zero_REQUEST), sc_Shared := S, sc_Polls := k, sc_Sends := n\<rparr>)"
    "store_idle (?ctx1\<lparr>sc_Request := (sc_Request ?ctx1)(r := zero_REQUEST), sc_Shared := S, sc_Polls := k, sc_Sends := n\<rparr>)"
    unfolding response_to_def by blast
  have eq: "?ctx1\<lparr>sc_Request := (sc_Request ?ctx1)(r := zero_REQUEST), sc_Shared := S, sc_Polls := k, sc_Sends := n\<rparr> =
      ctx\<lparr>sc_RequestId := (sc_RequestId ctx + 1) mod 2 ^ 16, sc_Request := (sc_Request ctx)(r := zero_REQUEST),
        sc_Shared := S, sc_Polls := k, sc_Sends := n\<rparr>" by (cases ctx) simp
  have "after_request r ctx (ctx\<lparr>sc_RequestId := (sc_RequestId ctx + 1) mod 2 ^ 16, sc_Request := (sc_Request ctx)(r := zero_REQUEST),
        sc_Shared := S, sc_Polls := k, sc_Sends := n\<rparr>)"
    using s(2) unfolding eq after_request_def by auto
  moreover have "do_request True daemon r T Type args ctx = Some (Inr (Some (response_to m)),
      ctx\<lparr>sc_RequestId := (sc_RequestId ctx + 1) mod 2 ^ 16, sc_Request := (sc_Request ctx)(r := zero_REQUEST),
        sc_Shared := S, sc_Polls := k, sc_Sends := n\<rparr>)"
    using p(1) s(1) unfolding eq by (simp add: do_request_def)
  ultimately show ?thesis by blast
qed

section \<open>Paths\<close>

lemma concat_path_args: "concat (path_args P N) = path_of P N @ [NUL]" and length_path_args: "length (path_args P N) \<le> 4"
  by (cases P; simp add: path_args_def path_of_def)+

lemma path_ok_length: "NT_SUCCESS (StoreCheckPathLength P N) \<Longrightarrow> length (path_of P N) + 1 \<le> XENSTORE_ABS_PATH_MAX"
  by (cases P) (auto simp: StoreCheckPathLength_def path_of_def XENSTORE_ABS_PATH_MAX_def XENSTORE_REL_PATH_MAX_def Let_def split: if_splits)

lemma vprintf_buffer_law:
  "vprintf_buffer (\<lambda>n. True) Value 32 = (if length Value < 1024 then STATUS_SUCCESS else STATUS_INVALID_BUFFER_SIZE)"
  by (simp add: vprintf_buffer.simps [of _ _ 32] vprintf_buffer.simps [of _ _ 64] vprintf_buffer.simps [of _ _ 128]
      vprintf_buffer.simps [of _ _ 256] vprintf_buffer.simps [of _ _ 512] vprintf_buffer.simps [of _ _ 1024])

text \<open>
  Every path that passes the length check, and every text \<^verbatim>\<open>StorePrintf\<close> can print, make a request that
  can be prepared, whose bytes on the wire are a header and the path, a NUL and the value; printing takes
  exactly the texts of less than 1024 characters.
\<close>
theorem StoreCheckPathLength_sufficient:
  assumes "NT_SUCCESS (StoreCheckPathLength Prefix Node)" and "vprintf_buffer (\<lambda>n. True) Value 32 = STATUS_SUCCESS"
    and "tx_id T ctx = Some tx" and "sc_Request ctx r = zero_REQUEST"
  shows "length Value < 1024 \<and>
     (\<exists>ctx'. StorePrepareRequest r T XS_WRITE (path_args Prefix Node @ [Value]) ctx = Some (STATUS_SUCCESS, ctx') \<and>
       unsent (sc_Request ctx' r) = header_bytes \<lparr>sm_type = XS_WRITE, sm_req_id = sc_RequestId ctx, sm_tx_id = tx,
           sm_len = length (path_of Prefix Node) + 1 + length Value\<rparr> @ path_of Prefix Node @ [NUL] @ Value)"
proof -
  have len: "length Value < 1024" using assms(2) vprintf_buffer_law [of Value] by (simp split: if_splits)
  let ?args = "path_args Prefix Node @ [Value]"
  have "length ?args \<le> 7" "length (concat ?args) \<le> XENSTORE_PAYLOAD_MAX"
    using length_path_args [of Prefix Node] path_ok_length [OF assms(1)] len
    by (simp_all add: concat_path_args XENSTORE_PAYLOAD_MAX_def XENSTORE_ABS_PATH_MAX_def)
  from StorePrepareRequest_law [OF assms(4,3) this, of XS_WRITE] show ?thesis
    using len by (auto simp: encode_def request_message_def concat_path_args)
qed

theorem StoreCheckPathLength_sufficient_witness:
  "\<exists>ctx'. StorePrepareRequest 0 None XS_WRITE (path_args (Some ''data'') ''x'' @ [''42'']) store_sample = Some (STATUS_SUCCESS, ctx') \<and>
     unsent (sc_Request ctx' 0) = header_bytes \<lparr>sm_type = XS_WRITE, sm_req_id = 3, sm_tx_id = 0, sm_len = 9\<rparr> @ ''data/x'' @ [NUL] @ ''42''"
proof -
  have "NT_SUCCESS (StoreCheckPathLength (Some ''data'') ''x'')"
    by (simp add: StoreCheckPathLength_def XENSTORE_REL_PATH_MAX_def)
  moreover have "vprintf_buffer (\<lambda>n. True) ''42'' 32 = STATUS_SUCCESS" by (simp add: vprintf_buffer.simps)
  moreover have "tx_id None store_sample = Some 0" "sc_Request store_sample 0 = zero_REQUEST" "sc_RequestId store_sample = 3"
    by (simp_all add: tx_id_def store_sample_def)
  ultimately show ?thesis
    using StoreCheckPathLength_sufficient [of "Some ''data''" "''x''" "''42''" None store_sample 0 0] by (simp add: path_of_def eval_nat_numeral)
qed

section \<open>Reading\<close>

lemma find_error_not_success: "\<not> NT_SUCCESS (find_error Error n xsd_errors)"
  by (simp add: xsd_errors_def ERRNO_TO_STATUS_def)

lemma StoreCheckResponse_law:
  assumes "message_ok m"
  shows "NT_SUCCESS (StoreCheckResponse (response_to m)) \<longleftrightarrow> sm_type (fst m) \<noteq> XS_ERROR"
  using response_type_response_to [OF assms] find_error_not_success by (simp add: StoreCheckResponse_def)

lemma after_request_simps:
  "after_request r ctx ctx' \<Longrightarrow> sc_BufferList ctx' = sc_BufferList ctx" "after_request r ctx ctx' \<Longrightarrow> sc_Buffer ctx' = sc_Buffer ctx"
  "after_request r ctx ctx' \<Longrightarrow> store_idle ctx'" "after_request r ctx ctx' \<Longrightarrow> request_zero r ctx'"
  "after_request r ctx ctx' \<Longrightarrow> sc_Watch ctx' = sc_Watch ctx" "after_request r ctx ctx' \<Longrightarrow> sc_WatchList ctx' = sc_WatchList ctx"
  "after_request r ctx ctx' \<Longrightarrow> sc_Transaction ctx' = sc_Transaction ctx"
  "after_request r ctx ctx' \<Longrightarrow> sc_TransactionList ctx' = sc_TransactionList ctx"
  by (auto simp: after_request_def request_zero_def)

text \<open>
  C11. Reading a node returns, in a new buffer and with two NULs after it, exactly the bytes with which the
  other side answers the request for this path, however many polls that takes; an error answer gives its
  status and no buffer. The client is idle again afterwards, and freeing the value gives the buffer back.
\<close>
theorem StoreRead_returns_value:
  assumes "store_idle ctx" and "tx_id T ctx = Some tx" and "NT_SUCCESS (StoreCheckPathLength Prefix Node)"
    and "length (req_bytes (sc_Shared ctx)) + 16 + length (path_of Prefix Node) + 1 \<le> 1024" and "a \<notin> set (sc_BufferList ctx)"
    and "answered_by daemon (req_bytes (sc_Shared ctx) @ header_bytes q @ path_of Prefix Node @ [NUL]) q m"
    and "q = \<lparr>sm_type = XS_READ, sm_req_id = sc_RequestId ctx, sm_tx_id = tx, sm_len = length (path_of Prefix Node) + 1\<rparr>"
  shows "\<exists>status v ctx'. StoreRead True (Some a) daemon r Caller T Prefix Node ctx = Some (status, v, ctx') \<and> store_idle ctx' \<and>
     (if sm_type (fst m) = XS_ERROR
      then status = StoreCheckResponse (response_to m) \<and> \<not> NT_SUCCESS status \<and> v = None \<and> sc_BufferList ctx' = sc_BufferList ctx
      else status = STATUS_SUCCESS \<and> v = Some a \<and> bf_Data (sc_Buffer ctx' a) = snd m @ [NUL, NUL] \<and>
        bf_Length (sc_Buffer ctx' a) = length (snd m) \<and>
        (\<exists>ctx''. StoreFree a ctx' = Some ctx'' \<and> sc_BufferList ctx'' = sc_BufferList ctx))"
proof -
  let ?args = "path_args Prefix Node"
  have m: "message_ok m" using assms(6) by (simp add: answered_by_def)
  have req: "request_message tx XS_READ ?args ctx = (q, path_of Prefix Node @ [NUL])"
    by (simp add: request_message_def concat_path_args assms(7))
  have args: "length ?args \<le> 7" "length (concat ?args) \<le> XENSTORE_PAYLOAD_MAX"
    using length_path_args [of Prefix Node] path_ok_length [OF assms(3)]
    by (simp_all add: concat_path_args XENSTORE_PAYLOAD_MAX_def XENSTORE_ABS_PATH_MAX_def)
  have fits: "length (req_bytes (sc_Shared ctx)) + 16 + length (concat ?args) \<le> 1024" using assms(4) by (simp add: concat_path_args)
  have ans: "answered_by daemon (req_bytes (sc_Shared ctx) @ encode (request_message tx XS_READ ?args ctx))
      (fst (request_message tx XS_READ ?args ctx)) m" using assms(6) by (simp add: req encode_def)
  from do_request_answered [OF assms(1,2) args fits ans, of r] obtain ctx1 where ctx1:
    "do_request True daemon r T XS_READ ?args ctx = Some (Inr (Some (response_to m)), ctx1)" "after_request r ctx ctx1"
    by (auto simp: StoreIgnoreHeaderType_def)
  note after = after_request_simps [OF ctx1(2)]
  show ?thesis
  proof (cases "sm_type (fst m) = XS_ERROR")
    case True
    then show ?thesis using ctx1(1) assms(3) after StoreCheckResponse_law [OF m] by (simp add: StoreRead_def)
  next
    case False
    let ?ctx2 = "snd (StoreCopyPayload (Some a) (response_to m) Caller ctx1)"
    have run: "StoreRead True (Some a) daemon r Caller T Prefix Node ctx = Some (STATUS_SUCCESS, Some a, ?ctx2)"
      using False ctx1(1) assms(3) after StoreCheckResponse_law [OF m] by (simp add: StoreRead_def StoreCopyPayload_def)
    have "store_idle ?ctx2" "bf_Data (sc_Buffer ?ctx2 a) = snd m @ [NUL, NUL]" "bf_Length (sc_Buffer ?ctx2 a) = length (snd m)"
      "sc_BufferList ?ctx2 = sc_BufferList ctx @ [a]" "bf_Magic (sc_Buffer ?ctx2 a)"
      using after by (simp_all add: StoreCopyPayload_def store_idle_def response_to_def)
    then show ?thesis using run False assms(5) by (simp add: StoreFree_def StoreFreePayload_def remove1_append)
  qed
qed

lemma answers_daemon_write:
  assumes "length bs \<le> 1024"
  shows "answers (\<lambda>S. snd (daemon_write bs S)) out bs"
proof (unfold answers_def, intro allI impI, elim conjE)
  fix S assume S: "req_ok S" "rsp_ok S" "rsp_bytes S = []"
  from rsp.put_law [OF S(2), of bs] obtain S' n where S': "daemon_write bs S = (n, S')" "rsp_ok S'" "rsp_bytes S' = take 1024 bs"
    using S(3) by auto
  have "xs_req S' = xs_req S" "xs_req_cons S' = xs_req_cons S" "xs_req_prod S' = xs_req_prod S"
    using S'(1) by (auto simp: daemon_write_def split: prod.splits)
  then have "req_ok S' = req_ok S" by (simp add: req_ok_def)
  then show "req_ok (snd (daemon_write bs S)) \<and> rsp_ok (snd (daemon_write bs S)) \<and> rsp_bytes (snd (daemon_write bs S)) = bs"
    using S S' assms by simp
qed

text \<open>A daemon that answers in the second poll of a request.\<close>

definition answering :: "xsd_sockmsg \<times> string \<Rightarrow> store_daemon" where
  "answering m = (\<lambda>j k S. if j = 1 \<and> k = 0 then snd (daemon_write (encode m) S) else S)"

lemma answered_by_answering:
  assumes "message_ok m" and "length (encode m) \<le> 1024" and "sm_req_id (fst m) = sm_req_id q" and "sm_type (fst m) \<in> {XS_ERROR, sm_type q}"
  shows "answered_by (answering m) out q m"
proof -
  have eq: "(\<lambda>S. snd (daemon_write (encode m) S)) = answering m 1 0" by (simp add: answering_def)
  have "answers (answering m 1 0) out (encode m)" using answers_daemon_write [OF assms(2), of out] unfolding eq .
  then show ?thesis using assms(1,3,4)
    unfolding answered_by_def by (intro conjI exI [of _ 1]) (simp_all add: answering_def)
qed

definition sample_value :: "xsd_sockmsg \<times> string" where
  "sample_value = (\<lparr>sm_type = XS_READ, sm_req_id = 3, sm_tx_id = 0, sm_len = 2\<rparr>, ''42'')"

theorem StoreRead_returns_value_witness:
  "\<exists>ctx'. StoreRead True (Some 64) (answering sample_value) 0 9 None (Some ''data'') ''x'' store_sample = Some (STATUS_SUCCESS, Some 64, ctx') \<and>
     bf_Data (sc_Buffer ctx' 64) = ''42'' @ [NUL, NUL]"
proof -
  let ?q = "\<lparr>sm_type = XS_READ, sm_req_id = sc_RequestId store_sample, sm_tx_id = 0, sm_len = length (path_of (Some ''data'') ''x'') + 1\<rparr>"
  have id: "sc_RequestId store_sample = 3" by (simp add: store_sample_def)
  have "message_ok sample_value" "length (encode sample_value) \<le> 1024"
    by (simp_all add: message_ok_def sample_value_def sockmsg_ok_def StoreVerifyHeader_def XENSTORE_PAYLOAD_MAX_def encode_def)
  then have "answered_by (answering sample_value) out ?q sample_value" for out
    using answered_by_answering [of sample_value ?q out] id by (simp add: sample_value_def)
  moreover have "NT_SUCCESS (StoreCheckPathLength (Some ''data'') ''x'')"
    by (simp add: StoreCheckPathLength_def XENSTORE_REL_PATH_MAX_def)
  moreover have "tx_id None store_sample = Some 0" "64 \<notin> set (sc_BufferList store_sample)"
    "length (req_bytes (sc_Shared store_sample)) + 16 + length (path_of (Some ''data'') ''x'') + 1 \<le> 1024"
    by (simp_all add: tx_id_def store_sample_def path_of_def)
  ultimately show ?thesis
    using StoreRead_returns_value [OF store_sample_idle, of None 0 "Some ''data''" "''x''" 64 "answering sample_value" ?q sample_value 0 9]
    by (simp add: sample_value_def split: if_splits) blast
qed

section \<open>Tokens\<close>

lemma length_hex_fixed [simp]: "length (hex_fixed k n) = k"
  by (induction k n rule: hex_fixed.induct) simp_all

lemma hex_value_digit: "n < 16 \<Longrightarrow> hex_value (hex_digit n) = Some n"
  by (auto simp: hex_value_def hex_digit_def Let_def)

lemma hex_fixed_hex: "\<forall>c \<in> set (hex_fixed k n). is_hex c"
  by (induction k n rule: hex_fixed.induct) (auto simp: is_hex_def hex_value_digit)

lemma hex_number_snoc: "hex_number (s @ [c]) = hex_number s * 16 + the (hex_value c)"
  by (simp add: hex_number_def)

lemma hex_number_fixed: "n < 16 ^ k \<Longrightarrow> hex_number (hex_fixed k n) = n"
proof (induction k n rule: hex_fixed.induct)
  case (2 k n)
  then have "n div 16 < 16 ^ k" by (simp add: less_mult_imp_div_less mult.commute)
  then show ?case using 2 by (simp add: hex_number_snoc hex_value_digit)
qed (simp add: hex_number_def)

lemma is_hex_not: "is_hex c \<Longrightarrow> \<not> is_space c" "is_hex c \<Longrightarrow> c \<noteq> CHR ''-''" "is_hex c \<Longrightarrow> c \<noteq> CHR ''+''"
  "is_hex c \<Longrightarrow> c \<noteq> CHR ''x''" "is_hex c \<Longrightarrow> c \<noteq> CHR ''X''" "is_hex c \<Longrightarrow> c \<noteq> NUL"
  by (auto simp: is_hex_def is_space_def hex_value_def Let_def NUL_def split: if_splits)

text \<open>Reading back what was printed, with something after it that is no digit.\<close>

lemma strtou16_hex_fixed:
  assumes "0 < k" and "n < 16 ^ k" and "n \<le> lim" and "\<not> is_hex c" and "c \<noteq> CHR ''x''" and "c \<noteq> CHR ''X''"
  shows "strtou16 lim (hex_fixed k n @ c # s) = (n, c # s)"
proof -
  let ?d = "hex_fixed k n"
  have ne: "?d \<noteq> []" using assms(1) by (metis length_hex_fixed length_0_conv less_irrefl)
  then obtain d ds where d: "?d = d # ds" by (cases ?d) auto
  have hex: "is_hex d" "\<forall>c \<in> set ds. is_hex c" using hex_fixed_hex [of k n] by (simp_all add: d)
  have s1: "dropWhile is_space (?d @ c # s) = ?d @ c # s" using is_hex_not(1) [OF hex(1)] by (simp add: d)
  have second: "(?d @ c # s) ! 1 \<noteq> CHR ''x'' \<and> (?d @ c # s) ! 1 \<noteq> CHR ''X''"
    using hex(2) is_hex_not(4,5) assms(5,6) by (cases ds) (auto simp: d)
  then have s3: "skip_0x (?d @ c # s) = ?d @ c # s" unfolding skip_0x_def by (simp only: if_False simp_thms)
  have take: "takeWhile is_hex (?d @ c # s) = ?d" "dropWhile is_hex (?d @ c # s) = c # s"
    using hex_fixed_hex [of k n] assms(4) by simp_all
  show ?thesis
    using ne is_hex_not(2,3) [OF hex(1)] hex_number_fixed [OF assms(2)] assms(3) s3 take
    unfolding strtou16_def Let_def s1 by (simp add: d)
qed

lemma watch_token_parses_length:
  assumes "NUL \<notin> set Path" and "Caller < 2 ^ 64" and "wid < 2 ^ 16"
  shows "StoreParseWatchEvent (Some (Path @ [NUL] @ watch_token Caller wid @ [NUL])) = Some (STATUS_SUCCESS, Some (Path, Caller, wid)) \<and>
     length (watch_token Caller wid) = TOKEN_LENGTH - 1"
proof -
  let ?t = "watch_token Caller wid @ [NUL]"
  have path: "takeWhile (\<lambda>c. c \<noteq> NUL) (Path @ [NUL] @ ?t) = Path" "dropWhile (\<lambda>c. c \<noteq> NUL) (Path @ [NUL] @ ?t) = NUL # ?t"
    using assms(1) by (auto simp: takeWhile_append dropWhile_append)
  have len: "length ?t = TOKEN_LENGTH" by (simp add: watch_token_def TOKEN_LENGTH_def)
  have token: "take 4 ?t = ''TOK|''" "drop 4 ?t = hex_fixed 16 Caller @ CHR ''|'' # hex_fixed 4 wid @ [NUL]"
    by (simp_all add: watch_token_def)
  have bound: "Caller < 16 ^ 16" "wid < 16 ^ 4" using assms(2,3) by simp_all
  have "\<not> is_hex CHR ''|''" "\<not> is_hex NUL" by (simp_all add: is_hex_def hex_value_def NUL_def)
  then have caller: "strtou16 (2 ^ 64 - 1) (drop 4 ?t) = (Caller, CHR ''|'' # hex_fixed 4 wid @ [NUL])"
    and wid: "strtou16 (2 ^ 32 - 1) (hex_fixed 4 wid @ [NUL]) = (wid, [NUL])"
    unfolding token using strtou16_hex_fixed [of 16 Caller "2 ^ 64 - 1" "CHR ''|''" "hex_fixed 4 wid @ [NUL]"]
      strtou16_hex_fixed [of 4 wid "2 ^ 32 - 1" NUL "[]"] bound assms(2,3) by (simp_all add: NUL_def)
  have end_nul: "?t ! (TOKEN_LENGTH - 1) = NUL" by (simp add: watch_token_def TOKEN_LENGTH_def nth_append)
  have "StoreParseWatchEvent (Some (Path @ [NUL] @ ?t)) = Some (STATUS_SUCCESS, Some (Path, Caller, wid))"
    unfolding StoreParseWatchEvent_def Option.bind.bind_lunit path Let_def list.sel len token(1) caller
    using end_nul wid assms(3) len by simp
  then show ?thesis using len by simp
qed

lemmas watch_token_parses = watch_token_parses_length [THEN conjunct1]

text \<open>
  The token of a watch names it: the parser of watch events reads back, from any path, a NUL and the
  token printed for a caller and an id, exactly this path, caller and id. A token always has 25 characters.
\<close>
theorem watch_token_roundtrip:
  assumes "NUL \<notin> set Path" and "Caller < 2 ^ 64" and "wid < 2 ^ 16"
  shows "StoreParseWatchEvent (Some (Path @ [NUL] @ watch_token Caller wid @ [NUL])) = Some (STATUS_SUCCESS, Some (Path, Caller, wid)) \<and>
     length (watch_token Caller wid) = TOKEN_LENGTH - 1"
  using assms by (rule watch_token_parses_length)

theorem watch_token_roundtrip_witness:
  "StoreParseWatchEvent (Some (''a/b'' @ [NUL] @ watch_token 1234567 65535 @ [NUL])) = Some (STATUS_SUCCESS, Some (''a/b'', 1234567, 65535)) \<and>
     length (watch_token 1234567 65535) = 25"
  using watch_token_roundtrip [of "''a/b''" 1234567 65535] by (simp add: NUL_def TOKEN_LENGTH_def)

section \<open>Watch ids\<close>

lemma find_watch_None: "find_watch W ws k = None \<longleftrightarrow> k \<notin> (\<lambda>w. wt_Id (W w)) ` set ws"
  by (induction ws) auto

lemma find_watch_unique:
  assumes "distinct (map (\<lambda>w. wt_Id (W w)) ws)" and "w \<in> set ws"
  shows "find_watch W ws (wt_Id (W w)) = Some w"
  using assms by (induction ws) auto

definition used_ids :: "XENBUS_STORE_CONTEXT \<Rightarrow> nat set" where
  "used_ids ctx = (\<lambda>w. wt_Id (sc_Watch ctx w)) ` set (sc_WatchList ctx)"

lemma used_ids_WatchId [simp]: "used_ids (ctx\<lparr>sc_WatchId := n\<rparr>) = used_ids ctx"
  by (simp add: used_ids_def)

lemma StoreNextWatchId_step:
  "StoreNextWatchId ctx = (if sc_WatchId ctx \<notin> used_ids ctx then Some (sc_WatchId ctx, ctx\<lparr>sc_WatchId := (sc_WatchId ctx + 1) mod 2 ^ 16\<rparr>)
     else StoreNextWatchId (ctx\<lparr>sc_WatchId := (sc_WatchId ctx + 1) mod 2 ^ 16\<rparr>))"
  by (subst StoreNextWatchId.simps) (simp add: Let_def StoreFindWatch_def used_ids_def find_watch_None)

lemma StoreNextWatchId_finds:
  assumes "(sc_WatchId ctx + d) mod 2 ^ 16 \<notin> used_ids ctx" and "sc_WatchId ctx < 2 ^ 16"
  shows "\<exists>k n. StoreNextWatchId ctx = Some (k, ctx\<lparr>sc_WatchId := n\<rparr>) \<and> k < 2 ^ 16 \<and> n < 2 ^ 16 \<and> k \<notin> used_ids ctx"
  using assms
proof (induction d arbitrary: ctx)
  case 0
  then show ?case by (subst StoreNextWatchId_step) auto
next
  case (Suc d)
  let ?c = "ctx\<lparr>sc_WatchId := (sc_WatchId ctx + 1) mod 2 ^ 16\<rparr>"
  show ?case
  proof (cases "sc_WatchId ctx \<in> used_ids ctx")
    case False
    then show ?thesis using Suc.prems(2) by (subst StoreNextWatchId_step) auto
  next
    case True
    have "(sc_WatchId ?c + d) mod 2 ^ 16 = (sc_WatchId ctx + Suc d) mod 2 ^ 16" by (simp add: mod_simps)
    then have "(sc_WatchId ?c + d) mod 2 ^ 16 \<notin> used_ids ?c" using Suc.prems(1) by simp
    from Suc.IH [OF this] show ?thesis using True by (subst StoreNextWatchId_step) simp
  qed
qed

lemma StoreNextWatchId_stuck:
  assumes "StoreNextWatchId ctx = Some r"
  shows "sc_WatchId ctx < 2 ^ 16 \<longrightarrow> (\<exists>k < 2 ^ 16. k \<notin> used_ids ctx)"
proof (rule StoreNextWatchId.raw_induct [where P = "\<lambda>ctx r. sc_WatchId ctx < 2 ^ 16 \<longrightarrow> (\<exists>k < 2 ^ 16. k \<notin> used_ids ctx)", OF _ assms])
  fix f ctx r
  assume IH: "\<And>ctx r. f ctx = Some r \<Longrightarrow> sc_WatchId ctx < 2 ^ 16 \<longrightarrow> (\<exists>k < 2 ^ 16. k \<notin> used_ids ctx)"
    and run: "(let wid = sc_WatchId ctx; ctx1 = ctx\<lparr>sc_WatchId := (wid + 1) mod 2 ^ 16\<rparr> in
      if StoreFindWatch ctx1 wid = None then Some (wid, ctx1) else f ctx1) = Some r"
  let ?c = "ctx\<lparr>sc_WatchId := (sc_WatchId ctx + 1) mod 2 ^ 16\<rparr>"
  show "sc_WatchId ctx < 2 ^ 16 \<longrightarrow> (\<exists>k < 2 ^ 16. k \<notin> used_ids ctx)"
  proof (cases "sc_WatchId ctx \<in> used_ids ctx")
    case True
    then have "f ?c = Some r" using run by (auto simp: Let_def StoreFindWatch_def used_ids_def find_watch_None)
    from IH [OF this] show ?thesis by simp
  qed blast
qed

text \<open>
  Looking for a watch id ends exactly when one of the 65536 ids is free, with an id no watch has; when
  all are in use it never returns.
\<close>
theorem StoreNextWatchId_terminates_iff_free:
  assumes "sc_WatchId ctx < 2 ^ 16"
  shows "(StoreNextWatchId ctx = None \<longleftrightarrow> {..< 2 ^ 16} \<subseteq> used_ids ctx) \<and>
     (StoreNextWatchId ctx = None \<or>
      (\<exists>k n. StoreNextWatchId ctx = Some (k, ctx\<lparr>sc_WatchId := n\<rparr>) \<and> k < 2 ^ 16 \<and> n < 2 ^ 16 \<and> k \<notin> used_ids ctx))"
proof (cases "{..< 2 ^ 16} \<subseteq> used_ids ctx")
  case True
  then have "StoreNextWatchId ctx = None" using StoreNextWatchId_stuck [of ctx] assms by (cases "StoreNextWatchId ctx") auto
  then show ?thesis using True by simp
next
  case False
  then obtain k where k: "k < 2 ^ 16" "k \<notin> used_ids ctx" by auto
  then have "(sc_WatchId ctx + (k + (2 ^ 16 - sc_WatchId ctx))) mod 2 ^ 16 = k" using assms by simp
  then show ?thesis using StoreNextWatchId_finds [of ctx "k + (2 ^ 16 - sc_WatchId ctx)"] k(2) assms False by auto
qed

theorem StoreNextWatchId_terminates_iff_free_witness:
  "(\<exists>k n. StoreNextWatchId store_sample = Some (k, store_sample\<lparr>sc_WatchId := n\<rparr>) \<and> k \<noteq> 5) \<and> used_ids store_sample = {5}"
proof -
  have "used_ids store_sample = {5}" by (simp add: used_ids_def store_sample_def sample_watch_def)
  moreover have "\<not> {..< 2 ^ 16} \<subseteq> {5 :: nat}" by (auto simp: subset_iff intro: exI [of _ 0])
  ultimately show ?thesis
    using StoreNextWatchId_terminates_iff_free [of store_sample] by (auto simp: store_sample_def)
qed

section \<open>Watch events\<close>

text \<open>The event of the other side for a watch.\<close>

definition event_for :: "string \<Rightarrow> XENBUS_STORE_WATCH \<Rightarrow> xsd_sockmsg \<times> string" where
  "event_for Path w = (let d = Path @ [NUL] @ watch_token (wt_Caller w) (wt_Id w) @ [NUL] in
     (\<lparr>sm_type = XS_WATCH_EVENT, sm_req_id = 0, sm_tx_id = 0, sm_len = length d\<rparr>, d))"

definition watches_wf :: "XENBUS_STORE_CONTEXT \<Rightarrow> bool" where
  "watches_wf ctx \<longleftrightarrow> distinct (map (\<lambda>w. wt_Id (sc_Watch ctx w)) (sc_WatchList ctx)) \<and>
     (\<forall>w \<in> set (sc_WatchList ctx). wt_Magic (sc_Watch ctx w) \<and> wt_Caller (sc_Watch ctx w) < 2 ^ 64 \<and> wt_Id (sc_Watch ctx w) < 2 ^ 16)"

lemma event_for_ok: "length Path \<le> XENSTORE_ABS_PATH_MAX \<Longrightarrow> message_ok (event_for Path w)"
  by (simp add: message_ok_def event_for_def Let_def sockmsg_ok_def StoreVerifyHeader_def watch_token_def
      XENSTORE_PAYLOAD_MAX_def XENSTORE_ABS_PATH_MAX_def)

lemma StoreProcessWatchEvent_law:
  assumes "watches_wf ctx" and "w \<in> set (sc_WatchList ctx)" and "NUL \<notin> set Path" and "length Path \<le> XENSTORE_ABS_PATH_MAX"
  shows "deliver (encode (event_for Path (sc_Watch ctx w))) ctx = Some (ctx\<lparr>sc_Response := empty_RESPONSE,
     sc_Signalled := (if wt_Active (sc_Watch ctx w) then {wt_Event (sc_Watch ctx w)} else {}) \<union> sc_Signalled ctx\<rparr>)"
proof -
  let ?w = "sc_Watch ctx w" and ?m = "event_for Path (sc_Watch ctx w)"
  let ?c = "ctx\<lparr>sc_Response := full_response (encode ?m)\<rparr>"
  have ok: "message_ok ?m" using assms(4) by (rule event_for_ok)
  have full: "full_response (encode ?m) = response_to ?m" using full_response_encode [OF ok] by (simp add: response_to_def)
  have hdr: "header_of (rp_Header (response_to ?m)) = fst ?m"
    using header_roundtrip [of "fst ?m" "[]"] ok by (simp add: message_ok_def response_to_def)
  have h: "sm_type (fst ?m) = XS_WATCH_EVENT" "sm_req_id (fst ?m) = 0" by (simp_all add: event_for_def Let_def)
  have data: "response_payload (response_to ?m) = Some (Path @ [NUL] @ watch_token (wt_Caller ?w) (wt_Id ?w) @ [NUL])"
    by (simp add: response_payload_def response_to_def event_for_def Let_def)
  have bounds: "wt_Caller ?w < 2 ^ 64" "wt_Id ?w < 2 ^ 16" using assms(1,2) by (simp_all add: watches_wf_def)
  have find: "StoreFindWatch ?c (wt_Id ?w) = Some w"
    using find_watch_unique [of "sc_Watch ctx" "sc_WatchList ctx" w] assms(1,2) by (simp add: StoreFindWatch_def watches_wf_def)
  have "StoreProcessWatchEvent ?c = Some (?c\<lparr>sc_Signalled := (if wt_Active ?w then {wt_Event ?w} else {}) \<union> sc_Signalled ctx\<rparr>)"
    using find watch_token_parses [OF assms(3) bounds] by (simp add: StoreProcessWatchEvent_def full hdr h data)
  then show ?thesis by (simp add: deliver_def StoreProcessResponse_def full hdr h StoreIgnoreHeaderType_def StoreResetResponse_def)
qed

lemma watch_request_fits:
  "NT_SUCCESS (StoreCheckPathLength P N) \<Longrightarrow> length (concat [path_of P N, [NUL], watch_token Caller wid, [NUL]]) \<le> XENSTORE_PAYLOAD_MAX"
  using path_ok_length [of P N] by (simp add: watch_token_def XENSTORE_PAYLOAD_MAX_def XENSTORE_ABS_PATH_MAX_def)

lemma watch_fail5_law:
  assumes "sc_Request ctx r = zero_REQUEST"
  shows "watch_fail5 status r W ctx = Some (status, None, ctx\<lparr>sc_Watch := (sc_Watch ctx)(W := zero_WATCH), sc_WatchList := remove1 W (sc_WatchList ctx)\<rparr>)"
proof -
  have "w\<lparr>wt_Active := False, wt_Id := 0, wt_Event := 0, wt_Path := [], wt_Caller := 0, wt_Magic := False\<rparr> = zero_WATCH" for w
    by (cases w) (simp add: zero_WATCH_def)
  then show ?thesis using assms by (cases ctx) (simp add: watch_fail5_def watch_fail3_def request_zero_def Let_def)
qed

text \<open>
  Adding a watch either fails and leaves the list of watches as it was, or succeeds with a watch whose
  id no other watch has; then an event of the other side with the token of this watch sets the caller's
  event. No request is prepared that the error path which forgets to unlink the watch would be taken for.
\<close>
theorem StoreWatchAdd_correct:
  assumes "store_idle ctx" and "watches_wf ctx" and "NT_SUCCESS (StoreCheckPathLength Prefix Node)" and "NUL \<notin> set (path_of Prefix Node)"
    and "W \<notin> set (sc_WatchList ctx)" and "Caller < 2 ^ 64" and "sc_WatchId ctx < 2 ^ 16" and "\<not> {..< 2 ^ 16} \<subseteq> used_ids ctx"
    and "length (req_bytes (sc_Shared ctx)) + 16 + length (path_of Prefix Node) + 27 \<le> 1024"
    and "q = \<lparr>sm_type = XS_WATCH, sm_req_id = sc_RequestId ctx, sm_tx_id = 0, sm_len = length (path_of Prefix Node) + 27\<rparr>"
    and "\<And>wid. answered_by daemon (req_bytes (sc_Shared ctx) @ header_bytes q @ path_of Prefix Node @ [NUL] @ watch_token Caller wid @ [NUL]) q m"
  shows "\<exists>status v ctx'. StoreWatchAdd (Some W) True True daemon r Caller Prefix Node Event ctx = Some (status, v, ctx') \<and>
     store_idle ctx' \<and> watches_wf ctx' \<and>
     (if sm_type (fst m) = XS_ERROR
      then \<not> NT_SUCCESS status \<and> v = None \<and> sc_WatchList ctx' = sc_WatchList ctx \<and> (\<forall>w \<in> set (sc_WatchList ctx). sc_Watch ctx' w = sc_Watch ctx w)
      else status = STATUS_SUCCESS \<and> v = Some W \<and> sc_WatchList ctx' = sc_WatchList ctx @ [W] \<and>
        (\<forall>w \<in> set (sc_WatchList ctx). sc_Watch ctx' w = sc_Watch ctx w \<and> wt_Id (sc_Watch ctx w) \<noteq> wt_Id (sc_Watch ctx' W)) \<and>
        deliver (encode (event_for (path_of Prefix Node) (sc_Watch ctx' W))) ctx' =
          Some (ctx'\<lparr>sc_Response := empty_RESPONSE, sc_Signalled := insert Event (sc_Signalled ctx')\<rparr>))"
proof -
  let ?Path = "path_of Prefix Node" and ?w = "zero_WATCH\<lparr>wt_Magic := True, wt_Caller := Caller\<rparr>"
  let ?ctx1 = "ctx\<lparr>sc_Watch := (sc_Watch ctx)(W := ?w)\<rparr>"
  have keep: "((sc_Watch ctx)(W := v)) w = sc_Watch ctx w" if "w \<in> set (sc_WatchList ctx)" for v w using that assms(5) by auto
  have used: "used_ids ?ctx1 = used_ids ctx" using keep by (simp add: used_ids_def)
  obtain k where k: "k < 2 ^ 16" "k \<notin> used_ids ctx" using assms(8) by auto
  have "(sc_WatchId ?ctx1 + (k + (2 ^ 16 - sc_WatchId ctx))) mod 2 ^ 16 = k" using k(1) assms(7) by simp
  with StoreNextWatchId_finds [of ?ctx1 "k + (2 ^ 16 - sc_WatchId ctx)"] k(2) assms(7) used
  obtain wid n where next_id: "StoreNextWatchId ?ctx1 = Some (wid, ?ctx1\<lparr>sc_WatchId := n\<rparr>)" "wid < 2 ^ 16" "wid \<notin> used_ids ctx" by auto
  let ?new = "?w\<lparr>wt_Path := ?Path, wt_Event := Event, wt_Id := wid, wt_Active := True\<rparr>"
  let ?ctx3 = "ctx\<lparr>sc_WatchId := n, sc_Watch := (sc_Watch ctx)(W := ?new), sc_WatchList := sc_WatchList ctx @ [W]\<rparr>"
  let ?args = "[?Path, [NUL], watch_token Caller wid, [NUL]]"
  have eq3: "(?ctx1\<lparr>sc_WatchId := n\<rparr>)\<lparr>sc_Watch := (sc_Watch (?ctx1\<lparr>sc_WatchId := n\<rparr>))(W :=
      (sc_Watch (?ctx1\<lparr>sc_WatchId := n\<rparr>) W)\<lparr>wt_Path := ?Path, wt_Event := Event, wt_Id := wid, wt_Active := True\<rparr>),
      sc_WatchList := sc_WatchList (?ctx1\<lparr>sc_WatchId := n\<rparr>) @ [W]\<rparr> = ?ctx3" by simp
  have tok: "length (watch_token Caller wid) = 25" by (simp add: watch_token_def)
  have idle3: "store_idle ?ctx3" "tx_id None ?ctx3 = Some 0" using assms(1) by (simp_all add: store_idle_def tx_id_def)
  have msg: "request_message 0 XS_WATCH ?args ?ctx3 = (q, ?Path @ [NUL] @ watch_token Caller wid @ [NUL])"
    by (simp add: request_message_def assms(10) tok)
  have ans: "answered_by daemon (req_bytes (sc_Shared ?ctx3) @ encode (request_message 0 XS_WATCH ?args ?ctx3))
      (fst (request_message 0 XS_WATCH ?args ?ctx3)) m" using assms(11) [of wid] unfolding msg by (simp add: encode_def)
  have fits: "length (req_bytes (sc_Shared ?ctx3)) + 16 + length (concat ?args) \<le> 1024" using assms(9) tok by simp
  have "length ?args \<le> 7" by simp
  from do_request_answered [OF idle3 this watch_request_fits [OF assms(3)] fits ans, of r] obtain ctx4 where ctx4:
    "do_request True daemon r None XS_WATCH ?args ?ctx3 = Some (Inr (Some (response_to m)), ctx4)" "after_request r ?ctx3 ctx4"
    by (auto simp: StoreIgnoreHeaderType_def)
  note after = after_request_simps [OF ctx4(2)]
  have m: "message_ok m" using assms(11) by (simp add: answered_by_def)
  have run: "StoreWatchAdd (Some W) True True daemon r Caller Prefix Node Event ctx =
      (if sm_type (fst m) = XS_ERROR then watch_fail5 (StoreCheckResponse (response_to m)) r W ctx4 else Some (STATUS_SUCCESS, Some W, ctx4))"
    using assms(3) next_id(1) ctx4(1) after(4) StoreCheckResponse_law [OF m] tok
    unfolding StoreWatchAdd_def option.case if_not_P if_True Let_def by (simp add: eq3 TOKEN_LENGTH_def del: StoreNextWatchId.simps)
  show ?thesis
  proof (cases "sm_type (fst m) = XS_ERROR")
    case True
    let ?c = "ctx4\<lparr>sc_Watch := (sc_Watch ctx4)(W := zero_WATCH), sc_WatchList := remove1 W (sc_WatchList ctx4)\<rparr>"
    have "sc_WatchList ?c = sc_WatchList ctx" using after(6) assms(5) by (simp add: remove1_append)
    moreover have "\<forall>w \<in> set (sc_WatchList ctx). sc_Watch ?c w = sc_Watch ctx w" using after(5) assms(5) by auto
    ultimately have "watches_wf ?c" using assms(2) unfolding watches_wf_def by (simp cong: map_cong)
    moreover have "store_idle ?c" using after(3) by (simp add: store_idle_def)
    ultimately show ?thesis
      using True run watch_fail5_law [of ctx4 r] after(4) StoreCheckResponse_law [OF m] \<open>sc_WatchList ?c = _\<close> \<open>\<forall>w \<in> _. _\<close>
      by (simp add: request_zero_def)
  next
    case False
    have watch: "sc_Watch ctx4 W = ?new" "sc_WatchList ctx4 = sc_WatchList ctx @ [W]"
      "\<forall>w \<in> set (sc_WatchList ctx). sc_Watch ctx4 w = sc_Watch ctx w" using after(5,6) assms(5) by auto
    have fresh: "\<forall>w \<in> set (sc_WatchList ctx). wt_Id (sc_Watch ctx w) \<noteq> wid" using next_id(3) by (auto simp: used_ids_def)
    have same: "map (\<lambda>w. wt_Id (sc_Watch ctx4 w)) (sc_WatchList ctx) = map (\<lambda>w. wt_Id (sc_Watch ctx w)) (sc_WatchList ctx)" using watch(3) by simp
    have wf: "watches_wf ctx4" using assms(2,6) next_id(2) watch fresh by (auto simp: watches_wf_def same)
    have "length ?Path \<le> XENSTORE_ABS_PATH_MAX" using path_ok_length [OF assms(3)] by simp
    from StoreProcessWatchEvent_law [OF wf _ assms(4) this, of W] watch(1,2) have
      "deliver (encode (event_for ?Path (sc_Watch ctx4 W))) ctx4 =
        Some (ctx4\<lparr>sc_Response := empty_RESPONSE, sc_Signalled := insert Event (sc_Signalled ctx4)\<rparr>)" by simp
    then show ?thesis using False run after(3) wf watch fresh by simp
  qed
qed

definition sample_watched :: "xsd_sockmsg \<times> string" where
  "sample_watched = (\<lparr>sm_type = XS_WATCH, sm_req_id = 3, sm_tx_id = 0, sm_len = 3\<rparr>, ''OK'' @ [NUL])"

theorem StoreWatchAdd_correct_witness:
  "\<exists>ctx'. StoreWatchAdd (Some 2) True True (answering sample_watched) 0 78 None ''y'' 11 store_sample = Some (STATUS_SUCCESS, Some 2, ctx') \<and>
     sc_WatchList ctx' = [1, 2] \<and>
     deliver (encode (event_for ''y'' (sc_Watch ctx' 2))) ctx' = Some (ctx'\<lparr>sc_Response := empty_RESPONSE, sc_Signalled := insert 11 (sc_Signalled ctx')\<rparr>)"
proof -
  let ?q = "\<lparr>sm_type = XS_WATCH, sm_req_id = sc_RequestId store_sample, sm_tx_id = 0, sm_len = length (path_of None ''y'') + 27\<rparr>"
  have c: "sc_WatchList store_sample = [1]" "sc_Watch store_sample = (\<lambda>w. sample_watch)" "sc_WatchId store_sample = 6"
    "sc_RequestId store_sample = 3" "req_bytes (sc_Shared store_sample) = []" by (simp_all add: store_sample_def)
  have ok: "message_ok sample_watched" "length (encode sample_watched) \<le> 1024"
    by (simp_all add: message_ok_def sample_watched_def sockmsg_ok_def StoreVerifyHeader_def XENSTORE_PAYLOAD_MAX_def encode_def)
  have ans: "answered_by (answering sample_watched) out ?q sample_watched" for out
    using answered_by_answering [OF ok, of ?q out] c(4) by (simp add: sample_watched_def)
  have "watches_wf store_sample" by (simp add: watches_wf_def c sample_watch_def)
  moreover have "NT_SUCCESS (StoreCheckPathLength None ''y'')" by (simp add: StoreCheckPathLength_def XENSTORE_REL_PATH_MAX_def)
  moreover have "\<not> {..< 2 ^ 16} \<subseteq> used_ids store_sample"
    by (auto simp: used_ids_def c sample_watch_def subset_iff intro: exI [of _ 0])
  ultimately show ?thesis
    using StoreWatchAdd_correct [where Prefix = None and Node = "''y''" and W = 2 and Caller = 78 and r = 0 and Event = 11 and q = ?q,
        OF store_sample_idle _ _ _ _ _ _ _ _ refl ans] c
    by (simp add: path_of_def NUL_def sample_watched_def split: if_splits) blast
qed

section \<open>Suspend\<close>

text \<open>
  Suspending expires every transaction and every watch: ending such a transaction afterwards reports
  \<^verbatim>\<open>STATUS_RETRY\<close>, removing such a watch succeeds, each unlinks its object, and neither sends anything to the
  other side, which has forgotten both.
\<close>
theorem StoreSuspendCallbackEarly_expires:
  assumes "T \<in> set (sc_TransactionList ctx)" and "tr_Magic (sc_Transaction ctx T)"
    and "W \<in> set (sc_WatchList ctx)" and "wt_Magic (sc_Watch ctx W)"
  shows "(\<exists>ctx'. StoreTransactionEnd mem daemon r T Commit (StoreSuspendCallbackEarly ctx) = Some (STATUS_RETRY, ctx') \<and>
       sc_TransactionList ctx' = remove1 T (sc_TransactionList ctx) \<and> sc_Shared ctx' = sc_Shared ctx \<and> sc_SubmittedList ctx' = sc_SubmittedList ctx) \<and>
     (\<exists>ctx'. StoreWatchRemove mem daemon r W (StoreSuspendCallbackEarly ctx) = Some (STATUS_SUCCESS, ctx') \<and>
       sc_WatchList ctx' = remove1 W (sc_WatchList ctx) \<and> sc_Shared ctx' = sc_Shared ctx \<and> sc_SubmittedList ctx' = sc_SubmittedList ctx)"
proof
  let ?c = "StoreSuspendCallbackEarly ctx"
  have t: "tr_Magic (sc_Transaction ?c T)" "\<not> tr_Active (sc_Transaction ?c T)" using assms(1,2) by (simp_all add: StoreSuspendCallbackEarly_def)
  have "(sc_Transaction ?c T)\<lparr>tr_Id := 0, tr_Caller := 0, tr_Magic := False\<rparr> = zero_TRANSACTION"
    using t(2) by (cases "sc_Transaction ?c T") (simp add: zero_TRANSACTION_def)
  then show "\<exists>ctx'. StoreTransactionEnd mem daemon r T Commit ?c = Some (STATUS_RETRY, ctx') \<and>
       sc_TransactionList ctx' = remove1 T (sc_TransactionList ctx) \<and> sc_Shared ctx' = sc_Shared ctx \<and> sc_SubmittedList ctx' = sc_SubmittedList ctx"
    using t by (simp add: StoreTransactionEnd_def transaction_done_def) (simp add: StoreSuspendCallbackEarly_def)
  have w: "wt_Magic (sc_Watch ?c W)" "\<not> wt_Active (sc_Watch ?c W)" using assms(3,4) by (simp_all add: StoreSuspendCallbackEarly_def)
  have "(sc_Watch ?c W)\<lparr>wt_Id := 0, wt_Event := 0, wt_Path := [], wt_Caller := 0, wt_Magic := False\<rparr> = zero_WATCH"
    using w(2) by (cases "sc_Watch ?c W") (simp add: zero_WATCH_def)
  then show "\<exists>ctx'. StoreWatchRemove mem daemon r W ?c = Some (STATUS_SUCCESS, ctx') \<and>
       sc_WatchList ctx' = remove1 W (sc_WatchList ctx) \<and> sc_Shared ctx' = sc_Shared ctx \<and> sc_SubmittedList ctx' = sc_SubmittedList ctx"
    using w by (simp add: StoreWatchRemove_def watch_done_def watch_token_def TOKEN_LENGTH_def) (simp add: StoreSuspendCallbackEarly_def)
qed

definition open_sample :: XENBUS_STORE_CONTEXT where
  "open_sample = store_sample\<lparr>sc_TransactionList := [8], sc_Transaction := (\<lambda>t. \<lparr>tr_Magic = True, tr_Caller = 5, tr_Id = 21, tr_Active = True\<rparr>)\<rparr>"

theorem StoreSuspendCallbackEarly_expires_witness:
  "(\<exists>ctx'. StoreTransactionEnd False (answering sample_value) 0 8 True (StoreSuspendCallbackEarly open_sample) = Some (STATUS_RETRY, ctx') \<and>
       sc_TransactionList ctx' = []) \<and>
   (\<exists>ctx'. StoreWatchRemove False (answering sample_value) 0 1 (StoreSuspendCallbackEarly open_sample) = Some (STATUS_SUCCESS, ctx') \<and>
       sc_WatchList ctx' = [])"
  using StoreSuspendCallbackEarly_expires [of 8 open_sample 1 False "answering sample_value" 0 True]
  by (simp add: open_sample_def store_sample_def sample_watch_def) blast

section \<open>Errors\<close>

text \<open>
  When there is no memory for a response, a read of a path in order never reports \<^verbatim>\<open>STATUS_NO_MEMORY\<close>:
  \<^verbatim>\<open>StoreSubmitRequest\<close> leaves the prepared request as it is, and the caller's assertion that the request is
  zero again stops the machine.
\<close>
theorem StoreRead_without_memory_stops:
  assumes "tx_id T ctx = Some tx" and "NT_SUCCESS (StoreCheckPathLength Prefix Node)"
  shows "StoreRead False a daemon r Caller T Prefix Node ctx = None"
proof -
  let ?ctx0 = "ctx\<lparr>sc_Request := (sc_Request ctx)(r := zero_REQUEST)\<rparr>"
  have pre: "sc_Request ?ctx0 r = zero_REQUEST" "tx_id T ?ctx0 = Some tx"
    unfolding assms(1) [symmetric] by (cases T; simp add: tx_id_def)+
  have "length (path_args Prefix Node) \<le> 7" "length (concat (path_args Prefix Node)) \<le> XENSTORE_PAYLOAD_MAX"
    using length_path_args [of Prefix Node] path_ok_length [OF assms(2)]
    by (simp_all add: concat_path_args XENSTORE_PAYLOAD_MAX_def XENSTORE_ABS_PATH_MAX_def)
  from StorePrepareRequest_law [OF pre this, of XS_READ] obtain rq ctx1 where
    "StorePrepareRequest r T XS_READ (path_args Prefix Node) ?ctx0 = Some (STATUS_SUCCESS, ctx1)" "sc_Request ctx1 r = rq"
    "rq_State rq = XENBUS_STORE_REQUEST_PREPARED" by auto
  then show ?thesis using assms(2)
    by (auto simp: StoreRead_def do_request_def StoreSubmitRequest_def request_zero_def zero_REQUEST_def)
qed

theorem StoreRead_without_memory_stops_witness:
  "StoreRead False (Some 64) (answering sample_value) 0 9 None None ''x'' store_sample = None"
  using StoreRead_without_memory_stops [of None store_sample 0 None "''x''"]
  by (simp add: tx_id_def StoreCheckPathLength_def XENSTORE_REL_PATH_MAX_def)

lemma errors_found:
  "list_all (\<lambda>(n, s). \<not> strncmp_eq (s @ [NUL]) ''EQUOTA'' (Suc (length s))) xsd_errors"
  "list_all (\<lambda>(n, s). find_error (s @ [NUL]) (Suc (length s)) xsd_errors = ERRNO_TO_STATUS n) xsd_errors"
  by (simp_all add: xsd_errors_def NUL_def)

text \<open>
  An error response is translated by its name: each name of the table, with its NUL, to its status, the
  quota error to \<^verbatim>\<open>STATUS_QUOTA_EXCEEDED\<close>; but so is an error response without a name.
\<close>
theorem StoreCheckResponse_names:
  assumes "message_ok m" and "sm_type (fst m) = XS_ERROR"
  shows "((errnum, snd m) \<in> (\<lambda>(n, s). (n, s @ [NUL])) ` set xsd_errors \<longrightarrow> StoreCheckResponse (response_to m) = ERRNO_TO_STATUS errnum) \<and>
     (snd m \<in> {[], ''EQUOTA'' @ [NUL]} \<longrightarrow> StoreCheckResponse (response_to m) = STATUS_QUOTA_EXCEEDED)"
proof -
  have ty: "response_type (response_to m) = XS_ERROR" using response_type_response_to [OF assms(1)] assms(2) by simp
  have "StoreCheckResponse (response_to m) = ERRNO_TO_STATUS errnum" if named: "(errnum, snd m) \<in> (\<lambda>(n, s). (n, s @ [NUL])) ` set xsd_errors"
  proof -
    from named obtain s where "(errnum, s) \<in> set xsd_errors" "snd m = s @ [NUL]" by auto
    then show ?thesis using ty errors_found by (auto simp: StoreCheckResponse_def response_to_def list_all_iff)
  qed
  moreover have "StoreCheckResponse (response_to m) = STATUS_QUOTA_EXCEEDED" if "snd m \<in> {[], ''EQUOTA'' @ [NUL]}"
    using that ty by (auto simp: StoreCheckResponse_def response_to_def NUL_def)
  ultimately show ?thesis by blast
qed

theorem StoreCheckResponse_names_witness:
  "StoreCheckResponse (response_to (\<lparr>sm_type = XS_ERROR, sm_req_id = 3, sm_tx_id = 0, sm_len = 7\<rparr>, ''ENOENT'' @ [NUL])) = STATUS_OBJECT_NAME_NOT_FOUND \<and>
   StoreCheckResponse (response_to (\<lparr>sm_type = XS_ERROR, sm_req_id = 3, sm_tx_id = 0, sm_len = 0\<rparr>, [])) = STATUS_QUOTA_EXCEEDED"
proof -
  let ?h = "\<lambda>n. \<lparr>sm_type = XS_ERROR, sm_req_id = 3, sm_tx_id = 0, sm_len = n\<rparr>"
  have "message_ok (?h 7, ''ENOENT'' @ [NUL])" "message_ok (?h 0, [])"
    by (simp_all add: message_ok_def sockmsg_ok_def StoreVerifyHeader_def XENSTORE_PAYLOAD_MAX_def)
  then show ?thesis
    using StoreCheckResponse_names [of "(?h 7, ''ENOENT'' @ [NUL])" 2] StoreCheckResponse_names [of "(?h 0, [])" 2]
    by (simp add: xsd_errors_def ERRNO_TO_STATUS_def image_iff)
qed

section \<open>The rings\<close>

text \<open>
  Each ring refines a queue of bytes: whatever the two ends write and read, in whatever order and
  pieces, the bytes taken followed by those on the ring are the bytes that were there followed by those
  written, and never more than 1024 are on the ring.
\<close>
theorem store_rings_fifo:
  assumes "req_ok S" and "rsp_ok S" and "stream_run StoreCopyToRing daemon_read ops S = (sent, taken, S1)"
    and "stream_run daemon_write StoreCopyFromRing ops' S = (written, got, S2)"
  shows "taken @ req_bytes S1 = req_bytes S @ sent \<and> length (req_bytes S1) \<le> 1024 \<and>
     got @ rsp_bytes S2 = rsp_bytes S @ written \<and> length (rsp_bytes S2) \<le> 1024"
  using req.stream_fifo [OF assms(1,3)] rsp.stream_fifo [OF assms(2,4)] req.capacity rsp.capacity by simp

theorem store_rings_fifo_witness:
  "\<exists>S1. stream_run StoreCopyToRing daemon_read [Put ''abc'', Get 2] empty_page = (''abc'', ''ab'', S1) \<and> req_bytes S1 = ''c''"
proof -
  from req.put_law [OF empty_page_ok(1), of "''abc''"] obtain S where S: "StoreCopyToRing ''abc'' empty_page = (3, S)" "req_ok S"
    "req_bytes S = ''abc''" by auto
  from req.get_law [OF S(2), of 2] obtain S1 where S1: "daemon_read 2 S = (''ab'', S1)" using S(3) by auto
  have run: "stream_run StoreCopyToRing daemon_read [Put ''abc'', Get 2] empty_page = (''abc'', ''ab'', S1)" using S(1) S1 by simp
  from store_rings_fifo [OF empty_page_ok(1,2) run, of "[]" "[]" "[]" empty_page] run show ?thesis by simp
qed

end
