(* ===== verification/Store_Acquire.thy ===== *)
theory Store_Acquire
  imports Store_Correct
begin

text \<open>
  Acquiring and releasing the XenStore interface, over the grant table, whose reference 1 is the page:
  every failing step gives back what had been taken, and a release everything.
\<close>

section \<open>Acquiring and releasing\<close>

definition store_off :: "XENBUS_STORE_CONTEXT \<Rightarrow> bool" where
  "store_off ctx \<longleftrightarrow> sc_References ctx = 0 \<and> sc_Address ctx = 0 \<and> \<not> sc_Mapped ctx \<and> sc_Channel ctx = None \<and> \<not> sc_Enabled ctx \<and>
     \<not> sc_Evtchn ctx \<and> \<not> sc_Suspend ctx \<and> \<not> sc_SuspendCallbackEarly ctx \<and> \<not> sc_SuspendCallbackLate ctx \<and> \<not> sc_Debug ctx \<and>
     \<not> sc_DebugCallback ctx \<and> gn_idle (sc_Gnttab ctx)"

definition store_on :: "XENBUS_STORE_CONTEXT \<Rightarrow> bool" where
  "store_on ctx \<longleftrightarrow> sc_References ctx = 1 \<and> sc_Mapped ctx \<and> sc_Channel ctx \<noteq> None \<and> sc_Enabled ctx \<and> sc_Evtchn ctx \<and> sc_Suspend ctx \<and>
     sc_SuspendCallbackEarly ctx \<and> sc_SuspendCallbackLate ctx \<and> sc_Debug ctx \<and> sc_DebugCallback ctx \<and>
     sc_DpcQueued ctx \<and> sc_Response ctx = empty_RESPONSE \<and> gn_References (sc_Gnttab ctx) = 1"

definition table_on :: "XENBUS_GNTTAB_CONTEXT \<Rightarrow> bool" where
  "table_on g \<longleftrightarrow> gn_live {} g \<and> gn_References g = 1 \<and> gn_List g = []"

lemma st_fail2_law:
  assumes "table_on (sc_Gnttab ctx)" and "sc_References ctx = 1"
  shows "\<exists>g. st_fail2 status ctx = Some (status, ctx\<lparr>sc_Gnttab := g, sc_Address := 0, sc_References := 0\<rparr>) \<and> gn_idle g"
  using GnttabRelease_law [of "{}" "sc_Gnttab ctx"] assms by (auto simp: table_on_def st_fail2_def st_fail1_def)

lemmas st_fails = st_fail3_def st_fail4_def st_fail5_def st_fail6_def st_fail7_def st_fail8_def st_fail9_def StoreDisable_def

lemma StoreGetAddress_total:
  assumes "table_on (sc_Gnttab ctx)"
  shows "\<exists>status A. StoreGetAddress ctx = Some (status, A)"
proof -
  have wf: "gnttab_wf {} (sc_Gnttab ctx)" using assms by (simp add: table_on_def gn_live_def)
  show ?thesis
  proof (cases "512 * (gn_FrameIndex (sc_Gnttab ctx) + 1) \<le> 1")
    case True
    then show ?thesis by (simp add: StoreGetAddress_def GnttabQueryReference_def XENBUS_GNTTAB_STORE_REFERENCE_def gn_consts mult.commute)
  next
    case False
    then have "read_slot (sc_Gnttab ctx) 1 = Some (slot (sc_Gnttab ctx) 1)" by (intro read_slot_law [OF wf]) simp
    then show ?thesis using False
      by (simp add: StoreGetAddress_def GnttabQueryReference_def XENBUS_GNTTAB_STORE_REFERENCE_def gn_consts mult.commute)
  qed
qed

text \<open>Connecting, with nothing but the page there.\<close>

lemma store_connect_law:
  assumes off: "store_off (ctx\<lparr>sc_References := 0, sc_Address := 0, sc_Mapped := False, sc_Gnttab := g0\<rparr>)"
    and on: "sc_References ctx = 1" "sc_Mapped ctx" "table_on (sc_Gnttab ctx)"
    and port: "NT_SUCCESS (fst (st_param calls))" "st_open calls (snd (st_param calls) mod 2 ^ 32) \<noteq> None"
  shows "\<exists>status ctx'. store_connect calls ctx = Some (status, ctx') \<and>
     (if NT_SUCCESS status then store_on ctx' \<and> sc_Gnttab ctx' = sc_Gnttab ctx \<and> sc_Shared ctx' = sc_Shared ctx \<and>
        sc_SubmittedList ctx' = sc_SubmittedList ctx \<and> sc_PendingList ctx' = sc_PendingList ctx \<and> sc_WatchList ctx' = sc_WatchList ctx \<and>
        sc_TransactionList ctx' = sc_TransactionList ctx \<and> sc_BufferList ctx' = sc_BufferList ctx \<and> sc_Request ctx' = sc_Request ctx
      else store_off ctx')"
proof -
  obtain st v ch where port': "st_param calls = (st, v)" "NT_SUCCESS st" "st_open calls (v mod 2 ^ 32) = Some ch"
    using port by (cases "st_param calls") auto
  define ctx1 where "ctx1 = StoreQueueDpc ((StoreResetResponse (ctx\<lparr>sc_Evtchn := True\<rparr>))\<lparr>sc_Channel := Some ch, sc_Enabled := True\<rparr>)"
  have en: "StoreEnable (st_param calls) (st_open calls) (StoreResetResponse (ctx\<lparr>sc_Evtchn := True\<rparr>)) = Some ctx1"
    using port' by (simp add: StoreEnable_def ctx1_def)
  have flags: "\<not> sc_Suspend ctx" "\<not> sc_SuspendCallbackEarly ctx" "\<not> sc_SuspendCallbackLate ctx" "\<not> sc_Debug ctx" "\<not> sc_DebugCallback ctx"
    "sc_Channel ctx = None" "\<not> sc_Enabled ctx" "\<not> sc_Evtchn ctx"
    using off by (simp_all add: store_off_def)
  have sel: "sc_References ctx1 = 1" "sc_Mapped ctx1" "sc_Gnttab ctx1 = sc_Gnttab ctx" "\<not> sc_Suspend ctx1" "\<not> sc_SuspendCallbackEarly ctx1"
    "\<not> sc_SuspendCallbackLate ctx1" "\<not> sc_Debug ctx1" "\<not> sc_DebugCallback ctx1" "sc_Channel ctx1 = Some ch" "sc_Enabled ctx1" "sc_Evtchn ctx1"
    "sc_DpcQueued ctx1" "sc_Response ctx1 = empty_RESPONSE" "sc_Shared ctx1 = sc_Shared ctx" "sc_SubmittedList ctx1 = sc_SubmittedList ctx"
    "sc_PendingList ctx1 = sc_PendingList ctx" "sc_WatchList ctx1 = sc_WatchList ctx" "sc_TransactionList ctx1 = sc_TransactionList ctx"
    "sc_BufferList ctx1 = sc_BufferList ctx" "sc_Request ctx1 = sc_Request ctx"
    using on flags by (simp_all add: ctx1_def StoreQueueDpc_def StoreResetResponse_def)
  have fail: "\<exists>g. st_fail2 status c = Some (status, c\<lparr>sc_Gnttab := g, sc_Address := 0, sc_References := 0\<rparr>) \<and> gn_idle g"
    if "sc_Gnttab c = sc_Gnttab ctx" "sc_References c = 1" for status c using st_fail2_law [of c status] that on(3) by simp
  have late: "\<exists>ctx'. st_fail5 status c = Some (status, ctx') \<and> store_off ctx'"
    if "sc_Gnttab c = sc_Gnttab ctx" "sc_References c = 1" "\<not> sc_Suspend c" "\<not> sc_SuspendCallbackEarly c" "\<not> sc_SuspendCallbackLate c"
      "\<not> sc_Debug c" "\<not> sc_DebugCallback c" for status c
    using fail [of "c\<lparr>sc_Enabled := False, sc_Channel := None, sc_Response := empty_RESPONSE, sc_Evtchn := False, sc_Mapped := False, sc_Address := 0\<rparr>" status] that
    by (auto simp: st_fails store_off_def)
  have failed: ?thesis if "store_connect calls ctx = Some (status, c)" "store_off c" "\<not> NT_SUCCESS status" for status c
    using that by (intro exI [of _ status] exI [of _ c]) simp
  show ?thesis
  proof (cases "NT_SUCCESS (st_evtchn calls)")
    case False
    from fail [of "ctx\<lparr>sc_Mapped := False, sc_Address := 0\<rparr>" "st_evtchn calls"] on(1) obtain g where
      "st_fail4 (st_evtchn calls) ctx = Some (st_evtchn calls, ctx\<lparr>sc_Mapped := False, sc_Address := 0, sc_Gnttab := g, sc_Address := 0, sc_References := 0\<rparr>)"
      "gn_idle g" by (auto simp: st_fails)
    then show ?thesis using False flags
      by (intro failed [of "st_evtchn calls" "ctx\<lparr>sc_Mapped := False, sc_Gnttab := g, sc_Address := 0, sc_References := 0\<rparr>"]) (simp_all add: store_connect_def store_off_def)
  next
    case ev: True
    note run = store_connect_def [of calls ctx, unfolded en]
    consider "\<not> NT_SUCCESS (st_suspend calls)" | "NT_SUCCESS (st_suspend calls)" "\<not> NT_SUCCESS (st_early calls)"
      | "NT_SUCCESS (st_suspend calls)" "NT_SUCCESS (st_early calls)" "\<not> NT_SUCCESS (st_late calls)"
      | "NT_SUCCESS (st_suspend calls)" "NT_SUCCESS (st_early calls)" "NT_SUCCESS (st_late calls)" "\<not> NT_SUCCESS (st_debug calls)"
      | "NT_SUCCESS (st_suspend calls)" "NT_SUCCESS (st_early calls)" "NT_SUCCESS (st_late calls)" "NT_SUCCESS (st_debug calls)"
        "\<not> NT_SUCCESS (st_debug_cb calls)"
      | "NT_SUCCESS (st_suspend calls)" "NT_SUCCESS (st_early calls)" "NT_SUCCESS (st_late calls)" "NT_SUCCESS (st_debug calls)"
        "NT_SUCCESS (st_debug_cb calls)" by blast
    then show ?thesis
    proof cases
      case 1
      from late [of "ctx1" "st_suspend calls"] sel obtain c where "st_fail5 (st_suspend calls) (ctx1) = Some (st_suspend calls, c)" "store_off c" by auto
      then show ?thesis using 1 ev
        by (intro failed [of "st_suspend calls" c]) (simp_all add: run st_fail6_def st_fail7_def st_fail8_def st_fail9_def)
    next
      case 2
      from late [of "ctx1\<lparr>sc_Suspend := False\<rparr>" "st_early calls"] sel obtain c where "st_fail5 (st_early calls) (ctx1\<lparr>sc_Suspend := False\<rparr>) = Some (st_early calls, c)" "store_off c" by auto
      then show ?thesis using 2 ev
        by (intro failed [of "st_early calls" c]) (simp_all add: run st_fail6_def st_fail7_def st_fail8_def st_fail9_def)
    next
      case 3
      from late [of "ctx1\<lparr>sc_SuspendCallbackEarly := False, sc_Suspend := False\<rparr>" "st_late calls"] sel obtain c where "st_fail5 (st_late calls) (ctx1\<lparr>sc_SuspendCallbackEarly := False, sc_Suspend := False\<rparr>) = Some (st_late calls, c)" "store_off c" by auto
      then show ?thesis using 3 ev
        by (intro failed [of "st_late calls" c]) (simp_all add: run st_fail6_def st_fail7_def st_fail8_def st_fail9_def)
    next
      case 4
      from late [of "ctx1\<lparr>sc_SuspendCallbackLate := False, sc_SuspendCallbackEarly := False, sc_Suspend := False\<rparr>" "st_debug calls"] sel obtain c where "st_fail5 (st_debug calls) (ctx1\<lparr>sc_SuspendCallbackLate := False, sc_SuspendCallbackEarly := False, sc_Suspend := False\<rparr>) = Some (st_debug calls, c)" "store_off c" by auto
      then show ?thesis using 4 ev
        by (intro failed [of "st_debug calls" c]) (simp_all add: run st_fail6_def st_fail7_def st_fail8_def st_fail9_def)
    next
      case 5
      from late [of "ctx1\<lparr>sc_Debug := False, sc_SuspendCallbackLate := False, sc_SuspendCallbackEarly := False, sc_Suspend := False\<rparr>" "st_debug_cb calls"] sel obtain c where "st_fail5 (st_debug_cb calls) (ctx1\<lparr>sc_Debug := False, sc_SuspendCallbackLate := False, sc_SuspendCallbackEarly := False, sc_Suspend := False\<rparr>) = Some (st_debug_cb calls, c)" "store_off c" by auto
      then show ?thesis using 5 ev
        by (intro failed [of "st_debug_cb calls" c]) (simp_all add: run st_fail6_def st_fail7_def st_fail8_def st_fail9_def)
    next
      case 6
      then show ?thesis using sel on(3) ev by (simp add: run store_on_def table_on_def)
    qed
  qed
qed

text \<open>What the calls have to answer: the table fits, the event channel can be opened, the page is in order.\<close>

definition calls_ok :: "store_calls \<Rightarrow> bool" where
  "calls_ok calls \<longleftrightarrow> (\<exists>gcalls genv. st_gnttab calls = (gcalls, genv) \<and> snd (call_size gcalls) \<le> 2 ^ 22) \<and>
     NT_SUCCESS (fst (st_param calls)) \<and> st_open calls (snd (st_param calls) mod 2 ^ 32) \<noteq> None \<and>
     (\<forall>S. st_page calls = Some S \<longrightarrow> req_ok S \<and> rsp_ok S \<and> rsp_bytes S = [])"

text \<open>No requests, watches, transactions and buffers.\<close>

definition store_unused :: "XENBUS_STORE_CONTEXT \<Rightarrow> bool" where
  "store_unused ctx \<longleftrightarrow> sc_SubmittedList ctx = [] \<and> sc_PendingList ctx = [] \<and> sc_WatchList ctx = [] \<and>
     sc_TransactionList ctx = [] \<and> sc_BufferList ctx = []"

lemma StoreRelease_law:
  assumes on: "store_on ctx" "store_unused ctx" and g: "table_on (sc_Gnttab ctx)"
    and page: "req_ok (sc_Shared ctx)" "rsp_ok (sc_Shared ctx)" "rsp_bytes (sc_Shared ctx) = []"
  shows "\<exists>ctx'. StoreRelease (\<lambda>k S. S) ctx = Some ctx' \<and> store_off ctx'"
proof -
  define ctx2 where "ctx2 = ctx\<lparr>sc_References := 0, sc_DebugCallback := False, sc_Debug := False, sc_SuspendCallbackLate := False,
      sc_SuspendCallbackEarly := False, sc_Suspend := False\<rparr>"
  define ctx0 where "ctx0 = ctx2\<lparr>sc_Polls := (sc_Polls ctx2 + 1) mod 2 ^ 32\<rparr>"
  have sel: "sc_SubmittedList ctx0 = []" "sc_PendingList ctx0 = []" "sc_Response ctx0 = empty_RESPONSE" "sc_Shared ctx0 = sc_Shared ctx"
    "sc_Gnttab ctx0 = sc_Gnttab ctx" "sc_References ctx0 = 0" "\<not> sc_Suspend ctx0" "\<not> sc_SuspendCallbackEarly ctx0"
    "\<not> sc_SuspendCallbackLate ctx0" "\<not> sc_Debug ctx0" "\<not> sc_DebugCallback ctx0"
    using on by (simp_all add: ctx0_def ctx2_def store_on_def store_unused_def)
  have ok: "store_ok ctx0" "blocked ctx0" "messages (incoming ctx0) = Some ([], [])"
    using sel page by (simp_all add: store_ok_def submitted_wf_def blocked_def incoming_def)
  have "deliver_all [] ctx0 = Some ctx0" by simp
  from poll_loop_settled [where daemon = "\<lambda>k S. S" and k = 0, OF ok this] obtain c where c:
    "poll_loop (\<lambda>k S. S) 0 ctx0 = Some c" "store_eq ctx0 c" by auto
  have keep: "sc_Gnttab c = sc_Gnttab ctx" "sc_References c = 0" "\<not> sc_Suspend c" "\<not> sc_SuspendCallbackEarly c"
    "\<not> sc_SuspendCallbackLate c" "\<not> sc_Debug c" "\<not> sc_DebugCallback c"
    using c(2) sel by (cases c; cases ctx0; simp add: store_eq_def)+
  have "StorePollLocked (\<lambda>k S. S) 0 ctx2 = Some (0, c)" using c(1) by (simp add: StorePollLocked_def ctx0_def)
  moreover from GnttabRelease_law [of "{}" "sc_Gnttab ctx"] g obtain g' where g': "GnttabRelease (sc_Gnttab ctx) = Some g'" "gn_idle g'"
    by (auto simp: table_on_def)
  moreover have "sc_References ctx = 1" "sc_WatchList ctx = []" "sc_TransactionList ctx = []" "sc_BufferList ctx = []"
    using on by (simp_all add: store_on_def store_unused_def)
  ultimately show ?thesis using keep
    by (simp add: StoreRelease_def ctx2_def StoreDisable_def store_off_def)
qed

text \<open>
  Acquiring the XenStore interface takes the grant table, the page, the channel and the callbacks, or
  gives back all that had been taken, whichever of the calls fails; while nothing is in use one release
  then gives everything back, the last poll included.
\<close>
theorem StoreAcquire_all_or_nothing:
  assumes "store_off ctx" and "store_unused ctx" and "calls_ok calls"
  shows "\<exists>status ctx'. StoreAcquire calls ctx = Some (status, ctx') \<and>
     (if NT_SUCCESS status then store_on ctx' \<and> (\<exists>ctx''. StoreRelease (\<lambda>k S. S) ctx' = Some ctx'' \<and> store_off ctx'')
      else store_off ctx')"
proof -
  obtain gcalls genv where gn: "st_gnttab calls = (gcalls, genv)" "snd (call_size gcalls) \<le> 2 ^ 22"
    using assms(3) by (auto simp: calls_ok_def)
  have idle: "gn_idle (sc_Gnttab ctx)" and ref: "sc_References ctx = 0" using assms(1) by (simp_all add: store_off_def)
  let ?ctx0 = "ctx\<lparr>sc_References := 1\<rparr>"
  from GnttabAcquire_law [OF idle gn(2), of genv] obtain st g where a: "GnttabAcquire gcalls genv (sc_Gnttab ctx) = Some (st, g)"
    "if NT_SUCCESS st then table_on g else g = sc_Gnttab ctx" unfolding table_on_def by auto
  show ?thesis
  proof (cases "NT_SUCCESS st")
    case False
    then show ?thesis using a assms(1) gn(1) ref by (simp add: StoreAcquire_def st_fail1_def store_off_def)
  next
    case True
    with a(2) have on: "table_on g" by simp
    let ?ctx1 = "?ctx0\<lparr>sc_Gnttab := g\<rparr>"
    from StoreGetAddress_total [of ?ctx1] on obtain st2 A where addr: "StoreGetAddress ?ctx1 = Some (st2, A)" by auto
    have fail: "\<exists>ctx'. st_fail2 status c = Some (status, ctx') \<and> store_off ctx'"
      if "c = ?ctx1\<lparr>sc_Address := x\<rparr>" for status c x
      using st_fail2_law [of c status] on assms(1) by (auto simp: that store_off_def)
    show ?thesis
    proof (cases "NT_SUCCESS st2")
      case False
      have "?ctx1 = ?ctx1\<lparr>sc_Address := sc_Address ctx\<rparr>" by (cases ctx) simp
      from fail [OF this, of st2] obtain c where "st_fail2 st2 ?ctx1 = Some (st2, c)" "store_off c" by blast
      then show ?thesis using False True a(1) addr gn(1) ref by (simp add: StoreAcquire_def)
    next
      case ok: True
      show ?thesis
      proof (cases "st_page calls")
        case None
        from fail [OF refl, of STATUS_UNSUCCESSFUL 0] obtain c where
          "st_fail2 STATUS_UNSUCCESSFUL (?ctx1\<lparr>sc_Address := 0\<rparr>) = Some (STATUS_UNSUCCESSFUL, c)" "store_off c" by blast
        then show ?thesis using None ok True a(1) addr gn(1) ref by (simp add: StoreAcquire_def st_fail3_def)
      next
        case (Some S)
        let ?ctx2 = "?ctx1\<lparr>sc_Address := A, sc_Shared := S, sc_Mapped := True\<rparr>"
        have page: "req_ok S" "rsp_ok S" "rsp_bytes S = []" and port: "NT_SUCCESS (fst (st_param calls))"
          "st_open calls (snd (st_param calls) mod 2 ^ 32) \<noteq> None" using assms(3) Some by (simp_all add: calls_ok_def)
        have "store_off (?ctx2\<lparr>sc_References := 0, sc_Address := 0, sc_Mapped := False, sc_Gnttab := sc_Gnttab ctx\<rparr>)"
          using assms(1) by (simp add: store_off_def)
        from store_connect_law [OF this _ _ _ port] on obtain status ctx' where r: "store_connect calls ?ctx2 = Some (status, ctx')"
          "if NT_SUCCESS status then store_on ctx' \<and> sc_Gnttab ctx' = g \<and> sc_Shared ctx' = S \<and> store_unused ctx' else store_off ctx'"
          using assms(2) by (fastforce simp: store_unused_def split: if_splits)
        have "StoreAcquire calls ctx = Some (status, ctx')"
          using Some ok True a(1) addr gn(1) ref r(1) by (simp add: StoreAcquire_def)
        then show ?thesis using r(2) StoreRelease_law [of ctx'] on page by (cases "NT_SUCCESS status") simp_all
      qed
    qed
  qed
qed

definition sample_store_calls :: store_calls where
  "sample_store_calls = \<lparr>st_gnttab = (sample_calls, sample_env), st_page = Some empty_page, st_evtchn = STATUS_SUCCESS,
     st_param = (STATUS_SUCCESS, 7), st_open = (\<lambda>p. Some p), st_suspend = STATUS_SUCCESS, st_early = STATUS_SUCCESS,
     st_late = STATUS_SUCCESS, st_debug = STATUS_SUCCESS, st_debug_cb = STATUS_UNSUCCESSFUL\<rparr>"

definition store_off_sample :: XENBUS_STORE_CONTEXT where
  "store_off_sample = store_sample\<lparr>sc_References := 0, sc_WatchList := [], sc_Mapped := False, sc_Channel := None, sc_Enabled := False,
     sc_Evtchn := False, sc_Suspend := False, sc_SuspendCallbackEarly := False, sc_SuspendCallbackLate := False, sc_Debug := False,
     sc_DebugCallback := False\<rparr>"

theorem StoreAcquire_all_or_nothing_witness:
  "\<exists>status ctx'. StoreAcquire sample_store_calls store_off_sample = Some (status, ctx') \<and> (NT_SUCCESS status \<or> store_off ctx')"
proof -
  have "store_off store_off_sample" "store_unused store_off_sample"
    using gnttab_sample_idle by (simp_all add: store_off_def store_unused_def store_off_sample_def store_sample_def)
  moreover have "calls_ok sample_store_calls" by (simp add: calls_ok_def sample_store_calls_def sample_calls_def)
  ultimately show ?thesis using StoreAcquire_all_or_nothing [of store_off_sample sample_store_calls] by (auto split: if_splits)
qed

end
