(* ===== verification/Sync.thy ===== *)
theory Sync
  imports Prelude
begin

text \<open>
  The corralling of the processors for a suspend, src/src/xenbus/sync.c, driven by \<^verbatim>\<open>SuspendTrigger\<close> of
  src/src/xenbus/suspend.c: one processor, the owner, makes all others run a DPC that spins in a known
  place, disables the interrupts everywhere, suspends, runs the early callbacks, enables the interrupts
  again, runs the late callbacks and lets the others go. It is a transition system, in which every read
  and write of the shared \<^verbatim>\<open>SyncContext\<close> is a step of the processor that makes it and the others can run
  between any two.

  \<^item> A program counter says where a processor is; what a processor does between two shared accesses
    (raising its IRQL, disabling its interrupts) belongs to the step before or after. The spinning
    loops are steps that change nothing but the counter of attempts.
  \<^item> A CPU number is a \<^typ>\<open>nat\<close>, and the LONG counters are \<^typ>\<open>int\<close>: they stay between -1 and the number of
    processors. Queueing the DPCs is one step with the rest of \<^verbatim>\<open>SyncCapture\<close> up to its increment; a
    queued DPC may start at any time after it.
  \<^item> A call of a callback is logged with the processor and whether its interrupts are disabled.
\<close>

section \<open>State\<close>

datatype SYNC_REQUEST =
    SYNC_REQUEST_NONE
  | SYNC_REQUEST_DISABLE_INTERRUPTS
  | SYNC_REQUEST_RUN_EARLY
  | SYNC_REQUEST_ENABLE_INTERRUPTS
  | SYNC_REQUEST_RUN_LATE
  | SYNC_REQUEST_EXIT

text \<open>
  Inside \<^verbatim>\<open>__SyncProcessorDisableInterrupts\<close>: before the increment, spinning with the attempts so far, and
  before the read and the compare-exchange (of the value read) of the loop that backs off.
\<close>

datatype disable_pc = D_INC | D_SPIN nat | D_READ | D_CAS int

text \<open>
  The worker: its DPC is queued; it is before one of the four reads of \<^verbatim>\<open>Context->Request\<close>; it disables its
  interrupts; it is about to carry out a request, or to count it; it is about to count its end; it has ended.
\<close>

datatype worker_pc =
    W_QUEUED
  | W_EXIT_TEST
  | W_SAME_TEST
  | W_SWITCH
  | W_DISABLE disable_pc
  | W_ACT SYNC_REQUEST
  | W_TICK SYNC_REQUEST
  | W_RECORD
  | W_LEAVE
  | W_DONE

text \<open>
  The owner: before the increment of \<^verbatim>\<open>SyncCapture\<close>; waiting for everyone to carry out a request; about to
  reset the count for a request, to do its own part of it, to count it, to publish it; disabling its own
  interrupts; about to suspend; about to clear the context.
\<close>

datatype owner_pc =
    M_INC
  | M_WAIT SYNC_REQUEST
  | M_RESET SYNC_REQUEST
  | M_ACT SYNC_REQUEST
  | M_TICK SYNC_REQUEST
  | M_SET SYNC_REQUEST
  | M_DISABLE disable_pc
  | M_SHUTDOWN
  | M_FREE
  | M_DONE

text \<open>A processor: the worker's place and its local \<^verbatim>\<open>Request\<close>, whether it is at HIGH\_LEVEL and whether its interrupts are disabled.\<close>

record sync_cpu =
  cpu_pc :: worker_pc
  cpu_Request :: SYNC_REQUEST
  cpu_High :: bool
  cpu_Disabled :: bool

text \<open>\<^verbatim>\<open>SyncOwner\<close> and \<^verbatim>\<open>SyncContext\<close> (whether \<^verbatim>\<open>Early\<close>, \<^verbatim>\<open>Late\<close> and \<^verbatim>\<open>Dpc\<close> are not null), the owner's \<^verbatim>\<open>status\<close>, and the processors.\<close>

record sync_state =
  sy_Owner :: "nat option"
  sy_Early :: bool
  sy_Late :: bool
  sy_ProcessorCount :: nat
  sy_Request :: SYNC_REQUEST
  sy_CompletionCount :: int
  sy_Dpc :: bool
  sy_pc :: owner_pc
  sy_status :: NTSTATUS
  sy_Cpu :: "nat \<Rightarrow> sync_cpu"
  sy_Calls :: "(SYNC_REQUEST \<times> nat \<times> bool) list"

definition zero_SYNC_CONTEXT :: "sync_state \<Rightarrow> sync_state" where
  "zero_SYNC_CONTEXT s = s\<lparr>sy_Early := False, sy_Late := False, sy_ProcessorCount := 0, sy_Request := SYNC_REQUEST_NONE,
     sy_CompletionCount := 0, sy_Dpc := False\<rparr>"

definition IsZero_SYNC_CONTEXT :: "sync_state \<Rightarrow> bool" where
  "IsZero_SYNC_CONTEXT s \<longleftrightarrow> \<not> sy_Early s \<and> \<not> sy_Late s \<and> sy_ProcessorCount s = 0 \<and> sy_Request s = SYNC_REQUEST_NONE \<and>
     sy_CompletionCount s = 0 \<and> \<not> sy_Dpc s"

section \<open>The parts that owner and workers share\<close>

text \<open>
  One shared access of \<^verbatim>\<open>__SyncProcessorDisableInterrupts\<close>, on the number of processors and the count: where
  it goes on, or whether it has succeeded, and the new count.
\<close>

fun disable_step :: "nat \<Rightarrow> disable_pc \<Rightarrow> int \<Rightarrow> (disable_pc + bool) \<times> int" where
  "disable_step N D_INC count = (Inl (D_SPIN 0), count + 1)"
| "disable_step N (D_SPIN a) count =
     (if Suc a \<le> 1000 \<and> count \<noteq> int N then Inl (D_SPIN (Suc a)) else Inl D_READ, count)"
| "disable_step N D_READ count = (if count = int N then Inr True else Inl (D_CAS count), count)"
| "disable_step N (D_CAS Old) count =
     (if count = Old then (Inr (\<not> Old < int N), Old - 1) else (Inl D_READ, count))"

definition put_cpu :: "nat \<Rightarrow> sync_cpu \<Rightarrow> sync_state \<Rightarrow> sync_state" where
  "put_cpu i w s = s\<lparr>sy_Cpu := (sy_Cpu s)(i := w)\<rparr>"

text \<open>\<^verbatim>\<open>__SyncProcessorRunEarly\<close>, \<^verbatim>\<open>__SyncProcessorEnableInterrupts\<close> and \<^verbatim>\<open>__SyncProcessorRunLate\<close>, up to their increment.\<close>

definition sync_call :: "SYNC_REQUEST \<Rightarrow> nat \<Rightarrow> sync_state \<Rightarrow> sync_state" where
  "sync_call r i s = s\<lparr>sy_Calls := sy_Calls s @ [(r, i, cpu_Disabled (sy_Cpu s i))]\<rparr>"

fun sync_act :: "SYNC_REQUEST \<Rightarrow> nat \<Rightarrow> sync_state \<Rightarrow> sync_state" where
  "sync_act SYNC_REQUEST_RUN_EARLY i s = (if sy_Early s then sync_call SYNC_REQUEST_RUN_EARLY i s else s)"
| "sync_act SYNC_REQUEST_RUN_LATE i s = (if sy_Late s then sync_call SYNC_REQUEST_RUN_LATE i s else s)"
| "sync_act SYNC_REQUEST_ENABLE_INTERRUPTS i s = put_cpu i ((sy_Cpu s i)\<lparr>cpu_Disabled := False, cpu_High := False\<rparr>) s"
| "sync_act r i s = s"

section \<open>The worker\<close>

definition worker_to :: "nat \<Rightarrow> worker_pc \<Rightarrow> sync_state \<Rightarrow> sync_state" where
  "worker_to i pc s = put_cpu i ((sy_Cpu s i)\<lparr>cpu_pc := pc\<rparr>) s"

text \<open>\<^verbatim>\<open>__SyncProcessorDisableInterrupts\<close> on a worker, with the test of its status after it.\<close>

definition worker_disable :: "nat \<Rightarrow> disable_pc \<Rightarrow> sync_state \<Rightarrow> sync_state" where
  "worker_disable i d s =
     (case disable_step (sy_ProcessorCount s) d (sy_CompletionCount s) of
        (Inl d', count) \<Rightarrow> put_cpu i ((sy_Cpu s i)\<lparr>cpu_High := True, cpu_pc := W_DISABLE d'\<rparr>) (s\<lparr>sy_CompletionCount := count\<rparr>)
      | (Inr True, count) \<Rightarrow> put_cpu i ((sy_Cpu s i)\<lparr>cpu_Disabled := True, cpu_pc := W_RECORD\<rparr>) (s\<lparr>sy_CompletionCount := count\<rparr>)
      | (Inr False, count) \<Rightarrow> put_cpu i ((sy_Cpu s i)\<lparr>cpu_High := False, cpu_pc := W_EXIT_TEST\<rparr>) (s\<lparr>sy_CompletionCount := count\<rparr>))"

definition SyncWorker :: "nat \<Rightarrow> sync_state \<Rightarrow> sync_state kernel" where
  "SyncWorker i s =
     (case cpu_pc (sy_Cpu s i) of
        W_QUEUED \<Rightarrow> do {
          ASSERT (sy_Owner s \<noteq> None \<and> sy_Owner s \<noteq> Some i);
          Some (put_cpu i ((sy_Cpu s i)\<lparr>cpu_pc := W_EXIT_TEST, cpu_Request := SYNC_REQUEST_NONE\<rparr>)
            (s\<lparr>sy_CompletionCount := sy_CompletionCount s + 1\<rparr>)) }
      | W_EXIT_TEST \<Rightarrow>
          if sy_Request s = SYNC_REQUEST_EXIT then do { ASSERT (\<not> cpu_High (sy_Cpu s i)); Some (worker_to i W_LEAVE s) }
          else Some (worker_to i W_SAME_TEST s)
      | W_SAME_TEST \<Rightarrow> Some (worker_to i (if sy_Request s = cpu_Request (sy_Cpu s i) then W_EXIT_TEST else W_SWITCH) s)
      | W_SWITCH \<Rightarrow> Some (worker_to i
          (case sy_Request s of
             SYNC_REQUEST_DISABLE_INTERRUPTS \<Rightarrow> W_DISABLE D_INC
           | SYNC_REQUEST_RUN_EARLY \<Rightarrow> W_ACT SYNC_REQUEST_RUN_EARLY
           | SYNC_REQUEST_ENABLE_INTERRUPTS \<Rightarrow> W_ACT SYNC_REQUEST_ENABLE_INTERRUPTS
           | SYNC_REQUEST_RUN_LATE \<Rightarrow> W_ACT SYNC_REQUEST_RUN_LATE
           | _ \<Rightarrow> W_RECORD) s)
      | W_DISABLE d \<Rightarrow> Some (worker_disable i d s)
      | W_ACT r \<Rightarrow> Some (worker_to i (W_TICK r) (sync_act r i s))
      | W_TICK r \<Rightarrow> Some (worker_to i W_RECORD (s\<lparr>sy_CompletionCount := sy_CompletionCount s + 1\<rparr>))
      | W_RECORD \<Rightarrow> Some (put_cpu i ((sy_Cpu s i)\<lparr>cpu_Request := sy_Request s, cpu_pc := W_EXIT_TEST\<rparr>) s)
      | W_LEAVE \<Rightarrow> Some (worker_to i W_DONE (s\<lparr>sy_CompletionCount := sy_CompletionCount s + 1\<rparr>))
      | W_DONE \<Rightarrow> Some s)"

section \<open>The owner\<close>

text \<open>
  \<^verbatim>\<open>SyncCapture\<close> up to its increment, on the processor \<open>Index\<close> of \<open>Count\<close>: it takes the ownership, fills the
  context and queues a DPC on every other processor. Without memory for the DPCs the machine stops.
\<close>

definition SyncCapture :: "bool \<Rightarrow> nat \<Rightarrow> nat \<Rightarrow> bool \<Rightarrow> bool \<Rightarrow> sync_state \<Rightarrow> sync_state kernel" where
  "SyncCapture mem Count Index Early Late s =
     do {
       ASSERT (sy_Owner s = None);
       ASSERT (IsZero_SYNC_CONTEXT s);
       ASSERT mem;
       Some (s\<lparr>sy_Owner := Some Index, sy_Early := Early, sy_Late := Late, sy_CompletionCount := 0, sy_ProcessorCount := Count,
         sy_Dpc := True, sy_pc := M_INC,
         sy_Cpu := (\<lambda>i. if i < Count \<and> i \<noteq> Index then (sy_Cpu s i)\<lparr>cpu_pc := W_QUEUED\<rparr> else sy_Cpu s i)\<rparr>)
     }"

definition owner_to :: "owner_pc \<Rightarrow> sync_state \<Rightarrow> sync_state" where
  "owner_to pc s = s\<lparr>sy_pc := pc\<rparr>"

text \<open>The order of \<^verbatim>\<open>SuspendTrigger\<close>: what follows when all have carried out a request, by the status of the shutdown.\<close>

fun after_wait :: "NTSTATUS \<Rightarrow> SYNC_REQUEST \<Rightarrow> owner_pc" where
  "after_wait status SYNC_REQUEST_NONE = M_RESET SYNC_REQUEST_DISABLE_INTERRUPTS"
| "after_wait status SYNC_REQUEST_DISABLE_INTERRUPTS = M_SHUTDOWN"
| "after_wait status SYNC_REQUEST_RUN_EARLY = M_RESET SYNC_REQUEST_ENABLE_INTERRUPTS"
| "after_wait status SYNC_REQUEST_ENABLE_INTERRUPTS =
     (if NT_SUCCESS status then M_RESET SYNC_REQUEST_RUN_LATE else M_RESET SYNC_REQUEST_EXIT)"
| "after_wait status SYNC_REQUEST_RUN_LATE = M_RESET SYNC_REQUEST_EXIT"
| "after_wait status SYNC_REQUEST_EXIT = M_FREE"

definition after_shutdown :: "NTSTATUS \<Rightarrow> owner_pc" where
  "after_shutdown status = (if NT_SUCCESS status then M_RESET SYNC_REQUEST_RUN_EARLY else M_RESET SYNC_REQUEST_ENABLE_INTERRUPTS)"

text \<open>After the reset of the count: disabling is published at once, an exit counted, the others carried out first.\<close>

fun after_reset :: "SYNC_REQUEST \<Rightarrow> owner_pc" where
  "after_reset SYNC_REQUEST_DISABLE_INTERRUPTS = M_SET SYNC_REQUEST_DISABLE_INTERRUPTS"
| "after_reset SYNC_REQUEST_EXIT = M_TICK SYNC_REQUEST_EXIT"
| "after_reset r = M_ACT r"

definition owner_disable :: "nat \<Rightarrow> disable_pc \<Rightarrow> sync_state \<Rightarrow> sync_state" where
  "owner_disable i d s =
     (case disable_step (sy_ProcessorCount s) d (sy_CompletionCount s) of
        (Inl d', count) \<Rightarrow> owner_to (M_DISABLE d') (put_cpu i ((sy_Cpu s i)\<lparr>cpu_High := True\<rparr>) (s\<lparr>sy_CompletionCount := count\<rparr>))
      | (Inr True, count) \<Rightarrow> owner_to M_SHUTDOWN (put_cpu i ((sy_Cpu s i)\<lparr>cpu_Disabled := True\<rparr>) (s\<lparr>sy_CompletionCount := count\<rparr>))
      | (Inr False, count) \<Rightarrow> owner_to (M_DISABLE D_INC) (put_cpu i ((sy_Cpu s i)\<lparr>cpu_High := False\<rparr>) (s\<lparr>sy_CompletionCount := count\<rparr>)))"

text \<open>
  A step of the owner; \<open>answer\<close> is what \<^verbatim>\<open>SchedShutdown\<close> returns. Every routine asserts that there is an owner
  as it starts; \<^verbatim>\<open>__SyncRelease\<close> that it is this processor, and the processor that \<open>sy_Owner\<close> names is the one whose
  step this is.
\<close>

definition sync_owner :: "NTSTATUS \<Rightarrow> sync_state \<Rightarrow> sync_state kernel" where
  "sync_owner answer s =
     (case sy_pc s of
        M_INC \<Rightarrow> Some (owner_to (M_WAIT SYNC_REQUEST_NONE) (s\<lparr>sy_CompletionCount := sy_CompletionCount s + 1\<rparr>))
      | M_WAIT r \<Rightarrow> Some (if sy_CompletionCount s = int (sy_ProcessorCount s) then owner_to (after_wait (sy_status s) r) s else s)
      | M_RESET r \<Rightarrow> do { ASSERT (sy_Owner s \<noteq> None); Some (owner_to (after_reset r) (s\<lparr>sy_CompletionCount := 0\<rparr>)) }
      | M_ACT r \<Rightarrow> do { i \<leftarrow> sy_Owner s; Some (owner_to (M_TICK r) (sync_act r i s)) }
      | M_TICK r \<Rightarrow> Some (owner_to (M_SET r) (s\<lparr>sy_CompletionCount := sy_CompletionCount s + 1\<rparr>))
      | M_SET r \<Rightarrow> Some (owner_to (if r = SYNC_REQUEST_DISABLE_INTERRUPTS then M_DISABLE D_INC else M_WAIT r) (s\<lparr>sy_Request := r\<rparr>))
      | M_DISABLE d \<Rightarrow> do { i \<leftarrow> sy_Owner s; Some (owner_disable i d s) }
      | M_SHUTDOWN \<Rightarrow> Some (owner_to (after_shutdown answer) (s\<lparr>sy_status := answer\<rparr>))
      | M_FREE \<Rightarrow> do { ASSERT (sy_Owner s \<noteq> None); Some (owner_to M_DONE ((zero_SYNC_CONTEXT s)\<lparr>sy_Owner := None\<rparr>)) }
      | M_DONE \<Rightarrow> Some s)"

section \<open>Runs\<close>

text \<open>A step of the owner, with the answer of the shutdown if it is that one, or of the worker of a processor.\<close>

datatype sync_action = Owner NTSTATUS | Worker nat

fun sync_do :: "sync_action \<Rightarrow> sync_state \<Rightarrow> sync_state kernel" where
  "sync_do (Owner answer) s = sync_owner answer s"
| "sync_do (Worker i) s = SyncWorker i s"

fun sync_run :: "sync_action list \<Rightarrow> sync_state \<Rightarrow> sync_state kernel" where
  "sync_run [] s = Some s"
| "sync_run (a # as) s = do { s' \<leftarrow> sync_do a s; sync_run as s' }"

text \<open>Before a capture nobody owns the context, which is zero, and every processor is outside with its interrupts enabled.\<close>

definition sync_idle :: sync_state where
  "sync_idle = \<lparr>sy_Owner = None, sy_Early = False, sy_Late = False, sy_ProcessorCount = 0, sy_Request = SYNC_REQUEST_NONE,
     sy_CompletionCount = 0, sy_Dpc = False, sy_pc = M_DONE, sy_status = STATUS_SUCCESS,
     sy_Cpu = (\<lambda>_. \<lparr>cpu_pc = W_DONE, cpu_Request = SYNC_REQUEST_NONE, cpu_High = False, cpu_Disabled = False\<rparr>), sy_Calls = []\<rparr>"

text \<open>\<^verbatim>\<open>SuspendTrigger\<close> gives both callbacks.\<close>

inductive sync_reachable :: "nat \<Rightarrow> nat \<Rightarrow> sync_state \<Rightarrow> bool" for N Index where
  start: "Index < N \<Longrightarrow> SyncCapture True N Index True True sync_idle = Some s \<Longrightarrow> sync_reachable N Index s"
| step: "sync_reachable N Index s \<Longrightarrow> sync_do a s = Some s' \<Longrightarrow> sync_reachable N Index s'"

end
