(* ===== verification/Sync_Correct.thy ===== *)
theory Sync_Correct
  imports Sync
begin

text \<open>
  The corralling of the processors is safe in every interleaving and on any number of processors: nobody
  runs the late callbacks before everybody has run the early ones with its interrupts disabled, and no
  assertion fails. This theory holds the invariant that carries the proofs; the theorems are in Sync\_Runs.

  The invariant gives every worker a contribution to the count: 1 when it has carried out the current
  request, 0 when it has not, -1 when it has taken back, in the count of a later request, the increment
  it made while it waited for the others to disable their interrupts.
\<close>

abbreviation "rN \<equiv> SYNC_REQUEST_NONE"
abbreviation "rD \<equiv> SYNC_REQUEST_DISABLE_INTERRUPTS"
abbreviation "rE \<equiv> SYNC_REQUEST_RUN_EARLY"
abbreviation "rI \<equiv> SYNC_REQUEST_ENABLE_INTERRUPTS"
abbreviation "rL \<equiv> SYNC_REQUEST_RUN_LATE"
abbreviation "rX \<equiv> SYNC_REQUEST_EXIT"

section \<open>The invariant\<close>

definition calls_of :: "nat \<Rightarrow> sync_state \<Rightarrow> (SYNC_REQUEST \<times> bool) list" where
  "calls_of i s = map (\<lambda>(r, j, d). (r, d)) (filter (\<lambda>(r, j, d). j = i) (sy_Calls s))"

text \<open>The request before one, the calls a processor has made and its interrupts when it has carried one out (\<open>ok\<close>: the shutdown succeeded).\<close>

fun request_before :: "bool \<Rightarrow> SYNC_REQUEST \<Rightarrow> SYNC_REQUEST" where
  "request_before ok SYNC_REQUEST_RUN_EARLY = rD"
| "request_before ok SYNC_REQUEST_ENABLE_INTERRUPTS = (if ok then rE else rD)"
| "request_before ok SYNC_REQUEST_RUN_LATE = rI"
| "request_before ok SYNC_REQUEST_EXIT = (if ok then rL else rI)"
| "request_before ok r = rN"

fun calls_at :: "bool \<Rightarrow> SYNC_REQUEST \<Rightarrow> (SYNC_REQUEST \<times> bool) list" where
  "calls_at ok SYNC_REQUEST_RUN_EARLY = [(rE, True)]"
| "calls_at ok SYNC_REQUEST_ENABLE_INTERRUPTS = (if ok then [(rE, True)] else [])"
| "calls_at ok SYNC_REQUEST_RUN_LATE = [(rE, True), (rL, False)]"
| "calls_at ok SYNC_REQUEST_EXIT = (if ok then [(rE, True), (rL, False)] else [])"
| "calls_at ok r = []"

definition disabled_at :: "SYNC_REQUEST \<Rightarrow> bool" where
  "disabled_at r \<longleftrightarrow> r = rD \<or> r = rE"

definition lost_calls :: "SYNC_REQUEST \<Rightarrow> (SYNC_REQUEST \<times> bool) list" where
  "lost_calls r = (if r = rE then [(rE, False)] else [])"

fun waiting :: "nat \<Rightarrow> disable_pc \<Rightarrow> bool" where
  "waiting N D_INC = False"
| "waiting N (D_SPIN a) = True"
| "waiting N D_READ = True"
| "waiting N (D_CAS Old) = (Old < int N)"

definition looping :: "worker_pc \<Rightarrow> bool" where
  "looping pc \<longleftrightarrow> pc = W_EXIT_TEST \<or> pc = W_SAME_TEST"

lemma looping_pcs [simp, intro]: "looping W_EXIT_TEST" "looping W_SAME_TEST"
  by (simp_all add: looping_def)

lemma looping_cases [elim!]: "looping pc \<Longrightarrow> (pc = W_EXIT_TEST \<Longrightarrow> P) \<Longrightarrow> (pc = W_SAME_TEST \<Longrightarrow> P) \<Longrightarrow> P"
  by (auto simp: looping_def)

definition worker :: "worker_pc \<Rightarrow> SYNC_REQUEST \<Rightarrow> bool \<Rightarrow> bool \<Rightarrow> sync_cpu" where
  "worker pc l h d = \<lparr>cpu_pc = pc, cpu_Request = l, cpu_High = h, cpu_Disabled = d\<rparr>"

text \<open>
  A worker while the owner carries out request \<open>r\<close> and \<open>q\<close> is the one published (\<open>r\<close> or the one before), its
  calls so far and its contribution to the count.
\<close>

inductive worker_ok :: "nat \<Rightarrow> bool \<Rightarrow> SYNC_REQUEST \<Rightarrow> SYNC_REQUEST \<Rightarrow> sync_cpu \<Rightarrow> (SYNC_REQUEST \<times> bool) list \<Rightarrow> int \<Rightarrow> bool"
  for N ok where
  queued: "worker_ok N ok rN rN (worker W_QUEUED l False False) [] 0"
| captured: "looping pc \<Longrightarrow> worker_ok N ok rN rN (worker pc rN False False) [] 1"
| disabling: "looping pc \<Longrightarrow> worker_ok N ok rD q (worker pc rN False False) [] 0"
| disabling_next: "pc = W_SWITCH \<or> pc = W_DISABLE D_INC \<Longrightarrow> worker_ok N ok rD rD (worker pc rN False False) [] 0"
| disabling_wait: "waiting N d \<Longrightarrow> worker_ok N ok rD rD (worker (W_DISABLE d) rN True False) [] 1"
| disabled: "pc = W_RECORD \<or> looping pc \<and> l = rD \<Longrightarrow> worker_ok N ok rD rD (worker pc l True True) [] 1"
| behind: "r \<in> {rE, rI, rL, rX} \<Longrightarrow> p = request_before ok r \<Longrightarrow> f = disabled_at p \<Longrightarrow>
    pc = W_RECORD \<or> looping pc \<and> l = p \<or> looping pc \<and> l = r \<and> q = r \<or> (pc = W_SWITCH \<or> pc = W_ACT r \<and> r \<noteq> rX \<or> pc = W_LEAVE \<and> r = rX) \<and> q = r \<Longrightarrow>
    worker_ok N ok r q (worker pc l f f) (calls_at ok p) 0"
| acted: "r \<in> {rE, rI, rL} \<Longrightarrow> f = disabled_at r \<Longrightarrow> worker_ok N ok r r (worker (W_TICK r) l f f) (calls_at ok r) 0"
| complete: "r \<in> {rE, rI, rL} \<Longrightarrow> f = disabled_at r \<Longrightarrow> pc = W_RECORD \<or> looping pc \<and> l = r \<Longrightarrow> worker_ok N ok r r (worker pc l f f) (calls_at ok r) 1"
| left: "worker_ok N ok rX rX (worker W_DONE l False False) (calls_at ok rX) 1"
| lingering: "r \<in> {rE, rI} \<Longrightarrow> request_before ok r = rD \<Longrightarrow> waiting N d \<Longrightarrow> worker_ok N ok r q (worker (W_DISABLE d) rN True False) [] 0"
| fallen: "r \<in> {rE, rI} \<Longrightarrow> request_before ok r = rD \<Longrightarrow> looping pc \<or> pc = W_SWITCH \<or> pc = W_DISABLE D_INC \<or> pc = W_ACT r \<and> q = r \<Longrightarrow>
    worker_ok N ok r q (worker pc rN False False) [] (- 1)"
| fallen_acted: "r \<in> {rE, rI} \<Longrightarrow> request_before ok r = rD \<Longrightarrow> worker_ok N ok r r (worker (W_TICK r) l False False) (lost_calls r) (- 1)"
| fallen_done: "r \<in> {rE, rI} \<Longrightarrow> request_before ok r = rD \<Longrightarrow> pc = W_RECORD \<or> looping pc \<and> l = r \<Longrightarrow>
    worker_ok N ok r r (worker pc l False False) (lost_calls r) 0"

lemma worker_ok_le: "worker_ok N ok r q w calls c \<Longrightarrow> c \<le> 1"
  by (induction rule: worker_ok.induct) auto

text \<open>The request the owner carries out, the one published, and the owner's contribution.\<close>

fun phase_of :: "bool \<Rightarrow> owner_pc \<Rightarrow> SYNC_REQUEST \<times> SYNC_REQUEST \<times> int" where
  "phase_of ok M_INC = (rN, rN, 0)"
| "phase_of ok (M_WAIT r) = (r, r, 1)"
| "phase_of ok (M_RESET r) = (request_before ok r, request_before ok r, 1)"
| "phase_of ok (M_ACT r) = (r, request_before ok r, 0)"
| "phase_of ok (M_TICK r) = (r, request_before ok r, 0)"
| "phase_of ok (M_SET r) = (r, request_before ok r, if r = rD then 0 else 1)"
| "phase_of ok (M_DISABLE d) = (rD, rD, if d = D_INC then 0 else 1)"
| "phase_of ok M_SHUTDOWN = (rD, rD, 1)"
| "phase_of ok M_FREE = (rX, rX, 1)"
| "phase_of ok M_DONE = (rX, rX, 1)"

definition flags :: "bool \<Rightarrow> bool \<Rightarrow> sync_cpu \<Rightarrow> bool" where
  "flags h d w \<longleftrightarrow> cpu_High w = h \<and> cpu_Disabled w = d"

text \<open>The owner's place, its interrupts and its calls.\<close>

fun owner_ok :: "nat \<Rightarrow> bool \<Rightarrow> owner_pc \<Rightarrow> sync_cpu \<Rightarrow> (SYNC_REQUEST \<times> bool) list \<Rightarrow> bool" where
  "owner_ok N ok M_INC w calls = (flags False False w \<and> calls = [])"
| "owner_ok N ok (M_WAIT r) w calls = (r \<noteq> rD \<and> (r \<in> {rE, rL} \<longrightarrow> ok) \<and> flags (disabled_at r) (disabled_at r) w \<and> calls = calls_at ok r)"
| "owner_ok N ok (M_RESET r) w calls = (r \<noteq> rN \<and> (r \<in> {rE, rL} \<longrightarrow> ok) \<and>
     flags (disabled_at (request_before ok r)) (disabled_at (request_before ok r)) w \<and> calls = calls_at ok (request_before ok r))"
| "owner_ok N ok (M_ACT r) w calls = (r \<in> {rE, rI, rL} \<and> (r \<in> {rE, rL} \<longrightarrow> ok) \<and>
     flags (disabled_at (request_before ok r)) (disabled_at (request_before ok r)) w \<and> calls = calls_at ok (request_before ok r))"
| "owner_ok N ok (M_TICK r) w calls = (r \<in> {rE, rI, rL, rX} \<and> (r \<in> {rE, rL} \<longrightarrow> ok) \<and> flags (disabled_at r) (disabled_at r) w \<and> calls = calls_at ok r)"
| "owner_ok N ok (M_SET r) w calls = (r \<noteq> rN \<and> (r \<in> {rE, rL} \<longrightarrow> ok) \<and>
     (if r = rD then flags False False w \<and> calls = [] else flags (disabled_at r) (disabled_at r) w \<and> calls = calls_at ok r))"
| "owner_ok N ok (M_DISABLE d) w calls = ((if d = D_INC then flags False False w else waiting N d \<and> flags True False w) \<and> calls = [])"
| "owner_ok N ok M_SHUTDOWN w calls = (flags True True w \<and> calls = [])"
| "owner_ok N ok M_FREE w calls = (flags False False w \<and> calls = calls_at ok rX)"
| "owner_ok N ok M_DONE w calls = (flags False False w \<and> calls = calls_at ok rX)"

text \<open>Where everyone is known to have carried out the last request.\<close>

fun passed :: "owner_pc \<Rightarrow> bool" where
  "passed (M_RESET r) = True"
| "passed M_SHUTDOWN = True"
| "passed M_FREE = True"
| "passed pc = False"

definition workers :: "nat \<Rightarrow> nat \<Rightarrow> nat set" where
  "workers N Index = {..< N} - {Index}"

definition sync_inv :: "nat \<Rightarrow> nat \<Rightarrow> (nat \<Rightarrow> int) \<Rightarrow> sync_state \<Rightarrow> bool" where
  "sync_inv N Index c s \<longleftrightarrow> Index < N \<and> sy_Owner s = Some Index \<and> sy_Early s \<and> sy_Late s \<and> sy_ProcessorCount s = N \<and>
     (case phase_of (NT_SUCCESS (sy_status s)) (sy_pc s) of (r, q, m) \<Rightarrow>
        sy_Request s = q \<and> sy_CompletionCount s = m + (\<Sum>i \<in> workers N Index. c i) \<and>
        (\<forall>i \<in> workers N Index. worker_ok N (NT_SUCCESS (sy_status s)) r q (sy_Cpu s i) (calls_of i s) (c i)) \<and>
        (passed (sy_pc s) \<or> r = rD \<and> (\<exists>i \<in> workers N Index. cpu_Disabled (sy_Cpu s i)) \<longrightarrow> sy_CompletionCount s = int N)) \<and>
     owner_ok N (NT_SUCCESS (sy_status s)) (sy_pc s) (sy_Cpu s Index) (calls_of Index s) \<and> sy_pc s \<noteq> M_DONE \<and>
     (\<forall>i. i \<notin> workers N Index \<longrightarrow> cpu_pc (sy_Cpu s i) = W_DONE)"


section \<open>Steps of a worker\<close>

lemma calls_of_simps [simp]:
  "calls_of i (s\<lparr>sy_CompletionCount := n\<rparr>) = calls_of i s"
  "calls_of i (s\<lparr>sy_Request := r\<rparr>) = calls_of i s"
  "calls_of i (s\<lparr>sy_status := st\<rparr>) = calls_of i s"
  "calls_of i (put_cpu j w s) = calls_of i s"
  "calls_of i (worker_to j pc s) = calls_of i s"
  "calls_of i (owner_to opc s) = calls_of i s"
  by (simp_all add: calls_of_def put_cpu_def worker_to_def owner_to_def)

lemma calls_of_call: "calls_of i (sync_call r j s) = (if i = j then calls_of i s @ [(r, cpu_Disabled (sy_Cpu s j))] else calls_of i s)"
  by (simp add: calls_of_def sync_call_def)

lemma put_cpu_simps [simp]:
  "sy_Cpu (put_cpu i w s) = (sy_Cpu s)(i := w)"
  "sy_Cpu (worker_to i pc s) = (sy_Cpu s)(i := (sy_Cpu s i)\<lparr>cpu_pc := pc\<rparr>)"
  "sy_Cpu (sync_call r i s) = sy_Cpu s"
  "sy_Cpu (owner_to opc s) = sy_Cpu s"
  by (simp_all add: put_cpu_def worker_to_def sync_call_def owner_to_def)

text \<open>What a step of a worker leaves alone.\<close>

definition worker_frame :: "nat \<Rightarrow> sync_state \<Rightarrow> sync_state \<Rightarrow> bool" where
  "worker_frame i s s' \<longleftrightarrow> sy_Owner s' = sy_Owner s \<and> sy_Early s' = sy_Early s \<and> sy_Late s' = sy_Late s \<and>
     sy_ProcessorCount s' = sy_ProcessorCount s \<and> sy_Request s' = sy_Request s \<and> sy_pc s' = sy_pc s \<and> sy_status s' = sy_status s \<and>
     (\<forall>j. j \<noteq> i \<longrightarrow> sy_Cpu s' j = sy_Cpu s j \<and> calls_of j s' = calls_of j s)"

lemma worker_frame_intros [simp]:
  "worker_frame i s s"
  "worker_frame i s (put_cpu i w s)"
  "worker_frame i s (worker_to i pc s)"
  "worker_frame i s (put_cpu i w (s\<lparr>sy_CompletionCount := n\<rparr>))"
  "worker_frame i s (worker_to i pc (s\<lparr>sy_CompletionCount := n\<rparr>))"
  "worker_frame i s (worker_to i pc (sync_call r i s))"
  "worker_frame i s (worker_to i pc (put_cpu i w s))"
  by (auto simp: worker_frame_def put_cpu_def worker_to_def sync_call_def calls_of_def)

lemma SyncWorker_frame: "SyncWorker i s = Some s' \<Longrightarrow> worker_frame i s s'"
proof (cases "cpu_pc (sy_Cpu s i)")
  case (W_DISABLE d)
  assume "SyncWorker i s = Some s'"
  then show ?thesis using W_DISABLE by (auto simp: SyncWorker_def worker_disable_def split: sum.splits prod.splits bool.splits)
next
  case (W_ACT r)
  assume "SyncWorker i s = Some s'"
  then show ?thesis using W_ACT by (cases r) (auto simp: SyncWorker_def)
qed (auto simp: SyncWorker_def bind_eq_Some_conv split: if_split_asm)

text \<open>
  One step of a worker: the count changes with its contribution. \<open>full\<close> is the situation in which the count
  says that all are done, which only an honest count does.
\<close>

lemma worker_simps [simp]:
  "cpu_pc (worker pc l h d) = pc" "cpu_Request (worker pc l h d) = l" "cpu_High (worker pc l h d) = h" "cpu_Disabled (worker pc l h d) = d"
  "(worker pc l h d)\<lparr>cpu_pc := pc'\<rparr> = worker pc' l h d"
  "(worker pc l h d)\<lparr>cpu_High := h'\<rparr> = worker pc l h' d"
  "(worker pc l h d)\<lparr>cpu_Disabled := d'\<rparr> = worker pc l h d'"
  "(worker pc l h d)\<lparr>cpu_Request := l'\<rparr> = worker pc l' h d"
  by (simp_all add: worker_def)

lemma completion_simps [simp]:
  "sy_CompletionCount (put_cpu i w s) = sy_CompletionCount s"
  "sy_CompletionCount (worker_to i pc s) = sy_CompletionCount s"
  "sy_CompletionCount (sync_call r i s) = sy_CompletionCount s"
  "sy_CompletionCount (owner_to opc s) = sy_CompletionCount s"
  by (simp_all add: put_cpu_def worker_to_def sync_call_def owner_to_def)

lemma same_count: "s\<lparr>sy_CompletionCount := sy_CompletionCount s\<rparr> = s"
  by simp

lemma put_same_count: "sy_CompletionCount s = n \<Longrightarrow> put_cpu i w (s\<lparr>sy_CompletionCount := n\<rparr>) = put_cpu i w s"
  by auto

text \<open>The goal of the step lemma, for a worker that ends up as \<open>w\<close>.\<close>

definition stepped :: "nat \<Rightarrow> bool \<Rightarrow> SYNC_REQUEST \<Rightarrow> SYNC_REQUEST \<Rightarrow> nat \<Rightarrow> sync_state \<Rightarrow> int \<Rightarrow> bool" where
  "stepped N ok r q i s c \<longleftrightarrow> (case SyncWorker i s of None \<Rightarrow> False | Some s' \<Rightarrow>
     worker_ok N ok r q (sy_Cpu s' i) (calls_of i s') (sy_CompletionCount s' - sy_CompletionCount s + c))"

lemma worker_wait_step:
  assumes "sy_ProcessorCount s = N" and "waiting N d" and "sy_Cpu s i = worker (W_DISABLE d) l True False" and "sy_CompletionCount s \<le> int N"
  shows "(\<exists>d'. waiting N d' \<and> SyncWorker i s = Some (put_cpu i (worker (W_DISABLE d') l True False) s)) \<or>
     sy_CompletionCount s = int N \<and> SyncWorker i s = Some (put_cpu i (worker W_RECORD l True True) s) \<or>
     sy_CompletionCount s < int N \<and>
       SyncWorker i s = Some (put_cpu i (worker W_EXIT_TEST l False False) (s\<lparr>sy_CompletionCount := sy_CompletionCount s - 1\<rparr>))"
proof (cases d)
  case (D_SPIN a)
  then show ?thesis using assms
    by (intro disjI1 exI [of _ "if Suc a \<le> 1000 \<and> sy_CompletionCount s \<noteq> int N then D_SPIN (Suc a) else D_READ"])
      (simp add: SyncWorker_def worker_disable_def same_count)
next
  case D_READ
  show ?thesis
  proof (cases "sy_CompletionCount s = int N")
    case True
    then show ?thesis using assms D_READ by (simp add: SyncWorker_def worker_disable_def put_same_count)
  next
    case False
    then show ?thesis using assms D_READ
      by (intro disjI1 exI [of _ "D_CAS (sy_CompletionCount s)"]) (simp add: SyncWorker_def worker_disable_def same_count)
  qed
next
  case (D_CAS Old)
  show ?thesis
  proof (cases "sy_CompletionCount s = Old")
    case True
    then show ?thesis using assms D_CAS by (simp add: SyncWorker_def worker_disable_def)
  next
    case False
    then show ?thesis using assms D_CAS
      by (intro disjI1 exI [of _ D_READ]) (simp add: SyncWorker_def worker_disable_def same_count)
  qed
qed (use assms in simp)


lemma SyncWorker_law:
  assumes ok: "worker_ok N ok r q (sy_Cpu s i) (calls_of i s) c"
    and s: "sy_ProcessorCount s = N" "sy_Request s = q" "sy_Early s" "sy_Late s" "sy_Owner s = Some Index" "Index \<noteq> i" "r \<in> {rE, rL} \<longrightarrow> ok"
    and q: "q = r \<or> q = request_before ok r"
    and count: "sy_CompletionCount s \<le> int N" "c \<le> 0 \<Longrightarrow> sy_CompletionCount s < int N"
  shows "stepped N ok r q i s c"
proof -
  have wait: "stepped N ok r q i s c"
    if w: "sy_Cpu s i = worker (W_DISABLE d) l True False" "waiting N d" and
      stay: "\<And>d'. waiting N d' \<Longrightarrow> worker_ok N ok r q (worker (W_DISABLE d') l True False) (calls_of i s) c" and
      success: "sy_CompletionCount s = int N \<Longrightarrow> worker_ok N ok r q (worker W_RECORD l True True) (calls_of i s) c" and
      retreat: "sy_CompletionCount s < int N \<Longrightarrow> worker_ok N ok r q (worker W_EXIT_TEST l False False) (calls_of i s) (c - 1)" for d l
    using worker_wait_step [OF s(1) w(2,1) count(1)]
  proof (elim disjE exE conjE)
    fix d' assume "waiting N d'" "SyncWorker i s = Some (put_cpu i (worker (W_DISABLE d') l True False) s)"
    then show ?thesis by (simp add: stepped_def stay)
  next
    assume "sy_CompletionCount s = int N" "SyncWorker i s = Some (put_cpu i (worker W_RECORD l True True) s)"
    then show ?thesis by (simp add: stepped_def success)
  next
    assume "sy_CompletionCount s < int N"
      "SyncWorker i s = Some (put_cpu i (worker W_EXIT_TEST l False False) (s\<lparr>sy_CompletionCount := sy_CompletionCount s - 1\<rparr>))"
    then show ?thesis using retreat by (simp add: stepped_def)
  qed
  show ?thesis
    using ok
  proof cases
    case (queued l)
    then show ?thesis using s
      by (simp add: stepped_def SyncWorker_def worker_ok.captured)
  next
    case (captured pc)
    then show ?thesis using s
      by (auto simp: stepped_def SyncWorker_def worker_ok.captured)
  next
    case (disabling pc)
    then show ?thesis using s q
      by (auto simp: stepped_def SyncWorker_def worker_ok.disabling worker_ok.disabling_next)
  next
    case (disabling_next pc)
    then show ?thesis
    proof (elim disjE)
      assume "pc = W_SWITCH"
      then show ?thesis using s disabling_next
        by (simp add: stepped_def SyncWorker_def worker_ok.disabling_next)
    next
      assume "pc = W_DISABLE D_INC"
      then show ?thesis using s disabling_next
        by (simp add: stepped_def SyncWorker_def worker_disable_def worker_ok.disabling_wait)
    qed
  next
    case (disabling_wait d)
    show ?thesis
    proof (rule wait [of d])
      show "worker_ok N ok r q (worker W_RECORD rN True True) (calls_of i s) c" using disabling_wait by (simp add: worker_ok.disabled)
      show "worker_ok N ok r q (worker W_EXIT_TEST rN False False) (calls_of i s) (c - 1)" using disabling_wait by (simp add: worker_ok.disabling)
    qed (use disabling_wait in \<open>simp_all add: worker_ok.disabling_wait\<close>)
  next
    case (disabled pc l)
    then show ?thesis using s
      by (auto simp: stepped_def SyncWorker_def worker_ok.disabled)
  next
    case (behind p f pc l)
    note b = worker_ok.behind [OF behind(4,5,6)]
    have r: "r = rE \<or> r = rI \<or> r = rL \<or> r = rX" using behind(4) by simp
    have p: "p \<noteq> r" "p \<noteq> rX" "r = rX \<Longrightarrow> \<not> f" using behind(4-6) by (auto simp: disabled_at_def split: if_splits)
    from behind(7) consider "pc = W_RECORD" | "looping pc" "l = p" | "looping pc" "l = r" "q = r" | "pc = W_SWITCH" "q = r"
      | "pc = W_ACT r" "r \<noteq> rX" "q = r" | "pc = W_LEAVE" "r = rX" "q = r" by blast
    then show ?thesis
    proof cases
      case 1
      then show ?thesis using behind(1-3) s(2) q b [of W_EXIT_TEST q q] behind(5) by (auto simp: stepped_def SyncWorker_def)
    next
      case 2
      then show ?thesis using behind(1-3) s(2) q p b [of W_EXIT_TEST p q] b [of W_SAME_TEST p q] b [of W_LEAVE p q] b [of W_SWITCH p q] behind(5)
        by (auto simp: stepped_def SyncWorker_def)
    next
      case 3
      then show ?thesis using behind(1-3) s(2) p b [of W_EXIT_TEST r q] b [of W_SAME_TEST r q] b [of W_LEAVE r q]
        by (auto simp: stepped_def SyncWorker_def)
    next
      case 4
      then show ?thesis using behind(1-3) s(2) r b [of "W_ACT r" l q] b [of W_RECORD l q]
        by (auto simp: stepped_def SyncWorker_def)
    next
      case 5
      have calls: "worker_ok N ok r r (worker (W_TICK r) l (disabled_at r) (disabled_at r)) (calls_at ok r) 0" using 5(2) r by (intro worker_ok.acted) auto
      show ?thesis using r
      proof (elim disjE)
        assume "r = rE"
        then show ?thesis using behind 5 s calls by (simp add: stepped_def SyncWorker_def calls_of_call disabled_at_def)
      next
        assume "r = rI"
        then show ?thesis using behind 5 s calls by (cases ok) (simp_all add: stepped_def SyncWorker_def disabled_at_def)
      next
        assume "r = rL"
        then show ?thesis using behind 5 s calls by (simp add: stepped_def SyncWorker_def calls_of_call disabled_at_def)
      qed (use 5(2) in simp)
    next
      case 6
      then show ?thesis using behind p s worker_ok.left [of N ok l] by (simp add: stepped_def SyncWorker_def split: if_splits)
    qed
  next
    case (acted f l)
    then show ?thesis using s
      by (simp add: stepped_def SyncWorker_def worker_ok.complete)
  next
    case (complete f pc l)
    note b = worker_ok.complete [OF complete(5,6)]
    have "r \<noteq> rX" using complete(5) by auto
    then show ?thesis using complete(1-4,7) s(2) b [of W_EXIT_TEST r] b [of W_SAME_TEST r] by (auto simp: stepped_def SyncWorker_def)
  next
    case (left l)
    then show ?thesis using ok
      by (simp add: stepped_def SyncWorker_def)
  next
    case (lingering d)
    show ?thesis
    proof (rule wait [of d])
      show "worker_ok N ok r q (worker W_EXIT_TEST rN False False) (calls_of i s) (c - 1)" using lingering by (simp add: worker_ok.fallen)
      show "worker_ok N ok r q (worker (W_DISABLE d') rN True False) (calls_of i s) c" if "waiting N d'" for d'
        using lingering that by (simp add: worker_ok.lingering)
    qed (use lingering count(2) in simp_all)
  next
    case (fallen pc)
    note b = worker_ok.fallen [OF fallen(4,5)]
    have r: "r = rE \<or> r = rI" "q = r \<or> q = rD" using fallen(4,5) q by auto
    from fallen(6) consider "looping pc" | "pc = W_SWITCH" | "pc = W_DISABLE D_INC" | "pc = W_ACT r" "q = r" by blast
    then show ?thesis
    proof cases
      case 1
      then show ?thesis using fallen(1-3) s(2) r b [of W_EXIT_TEST q] b [of W_SAME_TEST q] b [of W_SWITCH q] by (auto simp: stepped_def SyncWorker_def)
    next
      case 2
      then show ?thesis using fallen(1-3) s(2) r b [of "W_DISABLE D_INC" q] b [of "W_ACT r" q] by (auto simp: stepped_def SyncWorker_def)
    next
      case 3
      have "worker_ok N ok r q (worker (W_DISABLE (D_SPIN 0)) rN True False) [] 0" using fallen(4,5) by (simp add: worker_ok.lingering)
      then show ?thesis using 3 fallen(1-3) s(1,2) by (simp add: stepped_def SyncWorker_def worker_disable_def)
    next
      case 4
      then show ?thesis using fallen(1-3) s r(1) worker_ok.fallen_acted [OF fallen(4,5)]
        by (auto simp: stepped_def SyncWorker_def calls_of_call lost_calls_def)
    qed
  next
    case (fallen_acted l)
    then show ?thesis using s
      by (simp add: stepped_def SyncWorker_def worker_ok.fallen_done)
  next
    case (fallen_done pc l)
    note b = worker_ok.fallen_done [OF fallen_done(5,6)]
    have "r \<noteq> rX" using fallen_done(5) by auto
    then show ?thesis using fallen_done(1-4,7) s(2) b [of W_EXIT_TEST r] b [of W_SAME_TEST r] by (auto simp: stepped_def SyncWorker_def)
  qed
qed


text \<open>An honest count: when it says that all are done, a worker that is leaves it alone; only then are interrupts disabled.\<close>

lemma SyncWorker_full:
  assumes "worker_ok N ok r q (sy_Cpu s i) (calls_of i s) 1" and "sy_ProcessorCount s = N" and "sy_CompletionCount s = int N"
    and "SyncWorker i s = Some s'"
  shows "sy_CompletionCount s' = int N"
  using assms(1)
proof cases
  case (disabling_wait d)
  then show ?thesis using worker_wait_step [of s N d i rN] assms by auto
next
  case (disabled pc l)
  then show ?thesis using assms(3,4) by (auto simp: SyncWorker_def bind_eq_Some_conv split: if_split_asm)
next
  case (complete f pc l)
  then show ?thesis using assms(3,4) by (auto simp: SyncWorker_def bind_eq_Some_conv split: if_split_asm)
qed (use assms(3,4) in \<open>auto simp: SyncWorker_def bind_eq_Some_conv split: if_split_asm\<close>)

lemma SyncWorker_disables:
  assumes "worker_ok N ok rD q (sy_Cpu s i) (calls_of i s) c" and "sy_ProcessorCount s = N" and "sy_CompletionCount s \<le> int N"
    and "SyncWorker i s = Some s'" and "cpu_Disabled (sy_Cpu s' i)" and "\<not> cpu_Disabled (sy_Cpu s i)"
  shows "sy_CompletionCount s = int N"
  using assms(1)
proof cases
  case (disabling_wait d)
  then show ?thesis using worker_wait_step [of s N d i rN] assms by auto
qed (use assms(4-6) in \<open>auto simp: SyncWorker_def worker_disable_def bind_eq_Some_conv split: if_split_asm\<close>)

section \<open>The count\<close>

lemma workers_card: "Index < N \<Longrightarrow> int (card (workers N Index)) = int N - 1"
  by (simp add: workers_def of_nat_diff)

lemma workers_finite [simp]: "finite (workers N Index)"
  by (simp add: workers_def)

lemma count_full:
  assumes "Index < N" and "\<forall>i \<in> workers N Index. c i \<le> (1 :: int)" and "m \<le> 1"
  shows "m + (\<Sum>i \<in> workers N Index. c i) \<le> int N \<and>
     (m + (\<Sum>i \<in> workers N Index. c i) = int N \<longrightarrow> m = 1 \<and> (\<forall>i \<in> workers N Index. c i = 1))"
proof -
  have "(\<Sum>i \<in> workers N Index. 1 - c i) = int N - 1 - (\<Sum>i \<in> workers N Index. c i)"
    by (simp add: sum_subtractf workers_card [OF assms(1)])
  moreover have "0 \<le> (\<Sum>i \<in> workers N Index. 1 - c i)" using assms(2) by (intro sum_nonneg) simp
  moreover have "(\<Sum>i \<in> workers N Index. 1 - c i) = 0 \<longrightarrow> (\<forall>i \<in> workers N Index. 1 - c i = 0)"
    using sum_nonneg_eq_0_iff [of "workers N Index" "\<lambda>i. 1 - c i"] assms(2) by auto
  ultimately show ?thesis using assms(3) by auto
qed

lemma sum_update: "i \<in> workers N Index \<Longrightarrow> (\<Sum>j \<in> workers N Index. (c(i := x)) j) = (\<Sum>j \<in> workers N Index. c j) - c i + (x :: int)"
  by (simp add: sum.remove [of "workers N Index" i] )

lemma phase_of_le: "phase_of ok pc = (r, q, m) \<Longrightarrow> m \<le> 1"
  by (cases pc) (auto split: if_splits)

lemma phase_of_request: "phase_of ok pc = (r, q, m) \<Longrightarrow> q = r \<or> q = request_before ok r"
  by (cases pc) auto


section \<open>The invariant in every run\<close>

lemma SyncWorker_idle: "cpu_pc (sy_Cpu s i) = W_DONE \<Longrightarrow> SyncWorker i s = Some s"
  by (simp add: SyncWorker_def)

lemma sync_inv_worker:
  assumes inv: "sync_inv N Index c s"
  shows "\<exists>s' c'. SyncWorker i s = Some s' \<and> worker_frame i s s' \<and> sync_inv N Index (c(i := c')) s' \<and>
     (i \<in> workers N Index \<longrightarrow> worker_ok N (NT_SUCCESS (sy_status s)) (fst (phase_of (NT_SUCCESS (sy_status s)) (sy_pc s))) (sy_Request s) (sy_Cpu s' i) (calls_of i s') c')"
proof (cases "i \<in> workers N Index")
  case False
  then have "SyncWorker i s = Some s" using inv by (intro SyncWorker_idle) (simp add: sync_inv_def split: prod.splits)
  then show ?thesis using inv False by (intro exI [of _ s] exI [of _ "c i"]) simp
next
  case i: True
  let ?ok = "NT_SUCCESS (sy_status s)"
  obtain r q m where ph: "phase_of ?ok (sy_pc s) = (r, q, m)" by (cases "phase_of ?ok (sy_pc s)")
  have s: "Index < N" "sy_Owner s = Some Index" "sy_Early s" "sy_Late s" "sy_ProcessorCount s = N" "sy_Request s = q"
    "sy_CompletionCount s = m + (\<Sum>i \<in> workers N Index. c i)"
    "\<forall>i \<in> workers N Index. worker_ok N ?ok r q (sy_Cpu s i) (calls_of i s) (c i)"
    "passed (sy_pc s) \<or> r = rD \<and> (\<exists>i \<in> workers N Index. cpu_Disabled (sy_Cpu s i)) \<longrightarrow> sy_CompletionCount s = int N"
    "owner_ok N ?ok (sy_pc s) (sy_Cpu s Index) (calls_of Index s)" "sy_pc s \<noteq> M_DONE"
    "\<forall>i. i \<notin> workers N Index \<longrightarrow> cpu_pc (sy_Cpu s i) = W_DONE"
    using inv ph by (auto simp: sync_inv_def)
  have le: "\<forall>i \<in> workers N Index. c i \<le> 1" using s(8) worker_ok_le by blast
  note full = count_full [OF s(1) le phase_of_le [OF ph]]
  have count: "sy_CompletionCount s \<le> int N" "c i \<le> 0 \<Longrightarrow> sy_CompletionCount s < int N" using full i s(7) by auto
  have "Index \<noteq> i" using i by (auto simp: workers_def)
  moreover have "r \<in> {rE, rL} \<longrightarrow> ?ok" using s(10) ph by (cases "sy_pc s") (auto split: if_splits elim: request_before.elims)
  ultimately have "stepped N ?ok r q i s (c i)"
    using SyncWorker_law [OF bspec [OF s(8) i] s(5,6,3,4,2)] phase_of_request [OF ph] count by blast
  then obtain s' where run: "SyncWorker i s = Some s'" and
    ok': "worker_ok N ?ok r q (sy_Cpu s' i) (calls_of i s') (sy_CompletionCount s' - sy_CompletionCount s + c i)"
    by (auto simp: stepped_def split: option.splits)
  let ?c' = "sy_CompletionCount s' - sy_CompletionCount s + c i"
  note fr = SyncWorker_frame [OF run]
  then have f: "sy_Owner s' = sy_Owner s" "sy_Early s' = sy_Early s" "sy_Late s' = sy_Late s" "sy_ProcessorCount s' = sy_ProcessorCount s"
    "sy_Request s' = sy_Request s" "sy_pc s' = sy_pc s" "sy_status s' = sy_status s"
    "\<forall>j. j \<noteq> i \<longrightarrow> sy_Cpu s' j = sy_Cpu s j \<and> calls_of j s' = calls_of j s" by (simp_all add: worker_frame_def)
  have stays: "sy_CompletionCount s' = int N" if "sy_CompletionCount s = int N"
    using SyncWorker_full [of N ?ok r q s i s'] bspec [OF s(8) i] s(5,7) full i run that by auto
  have "sy_CompletionCount s' = int N" if "passed (sy_pc s') \<or> r = rD \<and> (\<exists>i \<in> workers N Index. cpu_Disabled (sy_Cpu s' i))"
  proof (rule stays)
    show "sy_CompletionCount s = int N"
    proof (cases "passed (sy_pc s) \<or> r = rD \<and> (\<exists>i \<in> workers N Index. cpu_Disabled (sy_Cpu s i))")
      case False
      with that f(6) obtain j where "r = rD" "j \<in> workers N Index" "cpu_Disabled (sy_Cpu s' j)" "\<not> cpu_Disabled (sy_Cpu s j)" by auto
      moreover from this have "j = i" using f(8) by metis
      ultimately show ?thesis using SyncWorker_disables [of N ?ok q s i "c i" s'] bspec [OF s(8) i] s(5) count(1) run by simp
    qed (use s(9) in blast)
  qed
  moreover have "\<forall>j \<in> workers N Index. worker_ok N ?ok r q (sy_Cpu s' j) (calls_of j s') ((c(i := ?c')) j)"
    using s(8) f(8) ok' by auto
  moreover have "sy_CompletionCount s' = m + (\<Sum>j \<in> workers N Index. (c(i := ?c')) j)" using sum_update [OF i, of c ?c'] s(7) by simp
  moreover have "sy_Cpu s' Index = sy_Cpu s Index" "calls_of Index s' = calls_of Index s" using f(8) \<open>Index \<noteq> i\<close> by auto
  moreover have "\<forall>j. j \<notin> workers N Index \<longrightarrow> cpu_pc (sy_Cpu s' j) = W_DONE" using s(12) f(8) i by metis
  ultimately have "sync_inv N Index (c(i := ?c')) s'" using s ph f by (simp add: sync_inv_def)
  then show ?thesis using run fr ok' ph s(6) by (intro exI [of _ s'] exI [of _ ?c']) simp
qed

text \<open>Publishing a request, and resetting the count for the next one.\<close>

lemma worker_ok_publish: "worker_ok N ok r (request_before ok r) w calls c \<Longrightarrow> r \<noteq> rN \<Longrightarrow> worker_ok N ok r r w calls c"
proof (induction rule: worker_ok.cases [consumes 1])
  case (behind r' p f pc l q)
  then show ?case by (auto intro!: worker_ok.behind)
next
  case (lingering r' d q)
  then show ?case by (auto intro!: worker_ok.lingering)
next
  case (fallen r' pc q)
  then show ?case by (auto intro!: worker_ok.fallen)
qed (auto intro: worker_ok.disabling split: if_splits)

lemma worker_ok_reset:
  assumes "worker_ok N ok (request_before ok r) (request_before ok r) w calls 1" and "r \<noteq> rN" and "request_before ok r \<noteq> rX"
  shows "worker_ok N ok r (request_before ok r) w calls 0"
  using assms(1)
proof cases
  case (captured pc)
  then have "r = rD" using assms(2) by (cases r) (auto split: if_splits)
  with captured show ?thesis by (simp add: worker_ok.disabling)
next
  case (disabling_wait d)
  then have "r \<in> {rE, rI}" by (cases r) (auto split: if_splits)
  with disabling_wait show ?thesis by (simp add: worker_ok.lingering)
next
  case (disabled pc l)
  then have "r \<in> {rE, rI, rL, rX}" by (cases r) (auto split: if_splits)
  with disabled show ?thesis
    using worker_ok.behind [where r = r and p = rD and ok = ok and f = True and pc = pc and l = l and q = rD and N = N] by (auto simp: disabled_at_def)
next
  case (complete f pc l)
  then have "r \<in> {rE, rI, rL, rX}" by (cases r) (auto split: if_splits)
  moreover have "pc = W_RECORD \<or> looping pc \<and> l = request_before ok r \<or> looping pc \<and> l = r \<and> request_before ok r = r \<or>
      (pc = W_SWITCH \<or> pc = W_ACT r \<and> r \<noteq> rX \<or> pc = W_LEAVE \<and> r = rX) \<and> request_before ok r = r" using complete(5) by blast
  ultimately have "worker_ok N ok r (request_before ok r) (worker pc l f f) (calls_at ok (request_before ok r)) 0"
    using complete(4) by (intro worker_ok.behind refl)
  with complete(1,2) show ?thesis by simp
qed (use assms in auto)

lemma worker_ok_status: "worker_ok N ok rD q w calls c \<Longrightarrow> worker_ok N ok' rD q w calls c"
  by (erule worker_ok.cases) (auto intro: worker_ok.intros)


definition final :: "nat \<Rightarrow> bool \<Rightarrow> sync_state \<Rightarrow> bool" where
  "final N ok s \<longleftrightarrow> sy_pc s = M_DONE \<and> sy_Owner s = None \<and> IsZero_SYNC_CONTEXT s \<and> NT_SUCCESS (sy_status s) = ok \<and>
     (\<forall>i. cpu_pc (sy_Cpu s i) = W_DONE) \<and> (\<forall>i < N. flags False False (sy_Cpu s i) \<and> calls_of i s = calls_at ok rX)"

lemma owner_simps [simp]:
  "sy_Owner (owner_to pc s) = sy_Owner s" "sy_Early (owner_to pc s) = sy_Early s" "sy_Late (owner_to pc s) = sy_Late s"
  "sy_ProcessorCount (owner_to pc s) = sy_ProcessorCount s" "sy_Request (owner_to pc s) = sy_Request s" "sy_status (owner_to pc s) = sy_status s"
  "sy_pc (owner_to pc s) = pc"
  by (simp_all add: owner_to_def)

lemma put_cpu_fields [simp]:
  "sy_Owner (put_cpu i w s) = sy_Owner s" "sy_Early (put_cpu i w s) = sy_Early s" "sy_Late (put_cpu i w s) = sy_Late s"
  "sy_ProcessorCount (put_cpu i w s) = sy_ProcessorCount s" "sy_Request (put_cpu i w s) = sy_Request s" "sy_status (put_cpu i w s) = sy_status s"
  "sy_pc (put_cpu i w s) = sy_pc s"
  by (simp_all add: put_cpu_def)

lemma sync_call_fields [simp]:
  "sy_Owner (sync_call r i s) = sy_Owner s" "sy_Early (sync_call r i s) = sy_Early s" "sy_Late (sync_call r i s) = sy_Late s"
  "sy_ProcessorCount (sync_call r i s) = sy_ProcessorCount s" "sy_Request (sync_call r i s) = sy_Request s" "sy_status (sync_call r i s) = sy_status s"
  "sy_pc (sync_call r i s) = sy_pc s"
  by (simp_all add: sync_call_def)

text \<open>The owner moves on: what is left to show about the state after its step.\<close>

lemma owner_moves:
  assumes inv: "sync_inv N Index c s" and ph: "phase_of (NT_SUCCESS (sy_status s)) (sy_pc s) = (r, q, m)"
    and same: "sy_Owner s' = sy_Owner s" "sy_Early s' = sy_Early s" "sy_Late s' = sy_Late s" "sy_ProcessorCount s' = sy_ProcessorCount s"
      "\<And>i. i \<noteq> Index \<Longrightarrow> sy_Cpu s' i = sy_Cpu s i \<and> calls_of i s' = calls_of i s" "cpu_pc (sy_Cpu s' Index) = cpu_pc (sy_Cpu s Index)"
    and ph': "phase_of (NT_SUCCESS (sy_status s')) (sy_pc s') = (r', q', m')" "sy_Request s' = q'"
      "sy_CompletionCount s' = m' + (\<Sum>i \<in> workers N Index. c' i)"
    and workers: "\<And>i. i \<in> workers N Index \<Longrightarrow> worker_ok N (NT_SUCCESS (sy_status s)) r q (sy_Cpu s i) (calls_of i s) (c i) \<Longrightarrow>
      worker_ok N (NT_SUCCESS (sy_status s')) r' q' (sy_Cpu s i) (calls_of i s) (c' i)"
    and full: "passed (sy_pc s') \<or> r' = rD \<and> (\<exists>i \<in> workers N Index. cpu_Disabled (sy_Cpu s i)) \<Longrightarrow> sy_CompletionCount s' = int N"
    and owner: "owner_ok N (NT_SUCCESS (sy_status s')) (sy_pc s') (sy_Cpu s' Index) (calls_of Index s')" "sy_pc s' \<noteq> M_DONE"
  shows "sync_inv N Index c' s'"
proof -
  have ne: "i \<noteq> Index" if "i \<in> workers N Index" for i using that by (auto simp: workers_def)
  have inv_parts: "Index < N" "sy_Owner s = Some Index" "sy_Early s" "sy_Late s" "sy_ProcessorCount s = N"
    "\<forall>i \<in> workers N Index. worker_ok N (NT_SUCCESS (sy_status s)) r q (sy_Cpu s i) (calls_of i s) (c i)"
    "\<forall>i. i \<notin> workers N Index \<longrightarrow> cpu_pc (sy_Cpu s i) = W_DONE" using inv ph by (auto simp: sync_inv_def)
  have "\<forall>i \<in> workers N Index. worker_ok N (NT_SUCCESS (sy_status s')) r' q' (sy_Cpu s' i) (calls_of i s') (c' i)"
    using inv_parts(6) workers same(5) ne by simp
  moreover have "(\<exists>i \<in> workers N Index. cpu_Disabled (sy_Cpu s' i)) = (\<exists>i \<in> workers N Index. cpu_Disabled (sy_Cpu s i))"
    using same(5) ne by auto
  moreover have "\<forall>i. i \<notin> workers N Index \<longrightarrow> cpu_pc (sy_Cpu s' i) = W_DONE" using inv_parts(7) same(5,6) by metis
  ultimately show ?thesis using inv_parts(1-5) same(1-4) ph' owner full by (simp add: sync_inv_def)
qed


lemma worker_ok_captured: "worker_ok N ok rN q w calls c \<Longrightarrow> \<not> cpu_Disabled w"
  by (erule worker_ok.cases) auto

text \<open>The contributions after a step of the owner: a reset of the count makes them all 0.\<close>

definition counts_after :: "owner_pc \<Rightarrow> (nat \<Rightarrow> int) \<Rightarrow> nat \<Rightarrow> int" where
  "counts_after pc c = (case pc of M_RESET r \<Rightarrow> (\<lambda>_. 0) | _ \<Rightarrow> c)"

lemma sync_inv_all_done:
  assumes inv: "sync_inv N Index c s" and full: "sy_CompletionCount s = int N"
    and ph: "phase_of (NT_SUCCESS (sy_status s)) (sy_pc s) = (r, q, m)"
  shows "m = 1 \<and> (\<forall>i \<in> workers N Index. c i = 1)"
proof -
  have "\<forall>i \<in> workers N Index. c i \<le> 1" using inv ph worker_ok_le by (fastforce simp: sync_inv_def)
  from count_full [OF _ this phase_of_le [OF ph]] inv full ph show ?thesis by (auto simp: sync_inv_def)
qed

lemma sync_invD:
  assumes inv: "sync_inv N Index c s" and ph: "phase_of (NT_SUCCESS (sy_status s)) (sy_pc s) = (r, q, m)"
  shows "Index < N" "sy_Owner s = Some Index" "sy_ProcessorCount s = N" "sy_Early s" "sy_Late s" "sy_pc s \<noteq> M_DONE"
    "owner_ok N (NT_SUCCESS (sy_status s)) (sy_pc s) (sy_Cpu s Index) (calls_of Index s)" "\<forall>i. i \<notin> workers N Index \<longrightarrow> cpu_pc (sy_Cpu s i) = W_DONE"
    "sy_Request s = q" "sy_CompletionCount s = m + (\<Sum>i \<in> workers N Index. c i)" "passed (sy_pc s) \<Longrightarrow> sy_CompletionCount s = int N"
    "r = rD \<Longrightarrow> \<exists>i \<in> workers N Index. cpu_Disabled (sy_Cpu s i) \<Longrightarrow> sy_CompletionCount s = int N"
    "\<forall>i \<in> workers N Index. worker_ok N (NT_SUCCESS (sy_status s)) r q (sy_Cpu s i) (calls_of i s) (c i)"
  using assms by (auto simp: sync_inv_def)

text \<open>One lemma for every place of the owner where its step does more than move on.\<close>

lemma owner_reset:
  assumes inv: "sync_inv N Index c s" and pc: "sy_pc s = M_RESET r'"
  shows "sync_inv N Index (\<lambda>_. 0) (owner_to (after_reset r') (s\<lparr>sy_CompletionCount := 0\<rparr>))"
proof -
  let ?ok = "NT_SUCCESS (sy_status s)"
  obtain r q m where ph: "phase_of ?ok (sy_pc s) = (r, q, m)" by (cases "phase_of ?ok (sy_pc s)")
  note I = sync_invD [OF inv ph]
  note all = sync_inv_all_done [OF inv _ ph]
  note move = owner_moves [OF inv ph]
  from pc have r: "r = request_before ?ok r'" "q = r" "r' \<noteq> rN" "r' \<in> {rE, rL} \<longrightarrow> ?ok" using ph I(7) by auto
  have full: "sy_CompletionCount s = int N" using I(11) pc by simp
  have after: "after_reset r' = M_SET rD \<and> r' = rD \<or> after_reset r' = M_TICK rX \<and> r' = rX \<or> after_reset r' = M_ACT r' \<and> r' \<in> {rE, rI, rL}"
    using r(3) by (cases r') simp_all
  have "sync_inv N Index (\<lambda>_. 0) (owner_to (after_reset r') (s\<lparr>sy_CompletionCount := 0\<rparr>))"
  proof (rule move)
    show "phase_of (NT_SUCCESS (sy_status (owner_to (after_reset r') (s\<lparr>sy_CompletionCount := 0\<rparr>)))) (sy_pc (owner_to (after_reset r') (s\<lparr>sy_CompletionCount := 0\<rparr>))) =
        (r', request_before ?ok r', 0)" using r(3) by (cases r') simp_all
    show "worker_ok N (NT_SUCCESS (sy_status (owner_to (after_reset r') (s\<lparr>sy_CompletionCount := 0\<rparr>)))) r' (request_before ?ok r') (sy_Cpu s i) (calls_of i s) 0"
      if "i \<in> workers N Index" "worker_ok N ?ok r q (sy_Cpu s i) (calls_of i s) (c i)" for i
      using worker_ok_reset [of N ?ok r' "sy_Cpu s i" "calls_of i s"] that all [OF full] r by (cases r') auto
  next
    assume "passed (sy_pc (owner_to (after_reset r') (s\<lparr>sy_CompletionCount := 0\<rparr>))) \<or> r' = rD \<and> (\<exists>i \<in> workers N Index. cpu_Disabled (sy_Cpu s i))"
    with after have "r' = rD" "\<exists>i \<in> workers N Index. cpu_Disabled (sy_Cpu s i)" by auto
    with I(13) r(1) worker_ok_captured have False by fastforce
    then show "sy_CompletionCount (owner_to (after_reset r') (s\<lparr>sy_CompletionCount := 0\<rparr>)) = int N" ..
  next
    show "owner_ok N (NT_SUCCESS (sy_status (owner_to (after_reset r') (s\<lparr>sy_CompletionCount := 0\<rparr>)))) (sy_pc (owner_to (after_reset r') (s\<lparr>sy_CompletionCount := 0\<rparr>)))
        (sy_Cpu (owner_to (after_reset r') (s\<lparr>sy_CompletionCount := 0\<rparr>)) Index) (calls_of Index (owner_to (after_reset r') (s\<lparr>sy_CompletionCount := 0\<rparr>)))"
      using after I(7) pc by (auto simp: disabled_at_def split: if_splits)
  next
    show "sy_pc (owner_to (after_reset r') (s\<lparr>sy_CompletionCount := 0\<rparr>)) \<noteq> M_DONE" using after by auto
  qed (use r(1,2) I(9) in simp_all)
  then show ?thesis .
qed

lemma owner_act:
  assumes inv: "sync_inv N Index c s" and pc: "sy_pc s = M_ACT r'"
  shows "sync_inv N Index c (owner_to (M_TICK r') (sync_act r' Index s))"
proof -
  let ?ok = "NT_SUCCESS (sy_status s)"
  obtain r q m where ph: "phase_of ?ok (sy_pc s) = (r, q, m)" by (cases "phase_of ?ok (sy_pc s)")
  note I = sync_invD [OF inv ph]
  note all = sync_inv_all_done [OF inv _ ph]
  note move = owner_moves [OF inv ph]
  from pc have r: "r' \<in> {rE, rI, rL}" "r' \<in> {rE, rL} \<longrightarrow> ?ok" using I(7) by auto
  have ph': "r = r'" "q = request_before ?ok r'" "m = 0" using ph pc by auto
  have frame: "sy_Owner (sync_act r' Index s) = sy_Owner s" "sy_Early (sync_act r' Index s) = sy_Early s" "sy_Late (sync_act r' Index s) = sy_Late s"
    "sy_ProcessorCount (sync_act r' Index s) = sy_ProcessorCount s" "sy_Request (sync_act r' Index s) = sy_Request s"
    "sy_status (sync_act r' Index s) = sy_status s" "sy_CompletionCount (sync_act r' Index s) = sy_CompletionCount s"
    "cpu_pc (sy_Cpu (sync_act r' Index s) Index) = cpu_pc (sy_Cpu s Index)"
    "\<And>i. i \<noteq> Index \<Longrightarrow> sy_Cpu (sync_act r' Index s) i = sy_Cpu s i \<and> calls_of i (sync_act r' Index s) = calls_of i s"
    using r(1) I(4,5) by (auto simp: calls_of_call)
  have own: "flags (disabled_at r') (disabled_at r') (sy_Cpu (sync_act r' Index s) Index) \<and> calls_of Index (sync_act r' Index s) = calls_at ?ok r'"
    using r(1) I(4,5,7) pc r(2) by (elim insertE) (auto simp: flags_def disabled_at_def calls_of_call split: if_splits)
  have "sync_inv N Index c (owner_to (M_TICK r') (sync_act r' Index s))"
    by (rule move [where r' = r' and q' = "request_before ?ok r'" and m' = 0 and c' = c])
      (use r ph' frame own I(9-12) in auto)
  then show ?thesis .
qed

lemma owner_set:
  assumes inv: "sync_inv N Index c s" and pc: "sy_pc s = M_SET r'"
  shows "sync_inv N Index c (owner_to (if r' = rD then M_DISABLE D_INC else M_WAIT r') (s\<lparr>sy_Request := r'\<rparr>))"
proof -
  let ?ok = "NT_SUCCESS (sy_status s)"
  obtain r q m where ph: "phase_of ?ok (sy_pc s) = (r, q, m)" by (cases "phase_of ?ok (sy_pc s)")
  note I = sync_invD [OF inv ph]
  note all = sync_inv_all_done [OF inv _ ph]
  note move = owner_moves [OF inv ph]
  from pc have r: "r = r'" "q = request_before ?ok r'" "r' \<noteq> rN" "m = (if r' = rD then 0 else 1)" using ph I(7) by auto
  let ?pc = "if r' = rD then M_DISABLE D_INC else M_WAIT r'"
  have "sync_inv N Index c (owner_to ?pc (s\<lparr>sy_Request := r'\<rparr>))"
  proof (rule move)
    show "phase_of (NT_SUCCESS (sy_status (owner_to ?pc (s\<lparr>sy_Request := r'\<rparr>)))) (sy_pc (owner_to ?pc (s\<lparr>sy_Request := r'\<rparr>))) = (r', r', m)"
      using r by simp
    show "worker_ok N (NT_SUCCESS (sy_status (owner_to ?pc (s\<lparr>sy_Request := r'\<rparr>)))) r' r' (sy_Cpu s i) (calls_of i s) (c i)"
      if "i \<in> workers N Index" "worker_ok N ?ok r q (sy_Cpu s i) (calls_of i s) (c i)" for i
      using worker_ok_publish that r by simp
    show "owner_ok N (NT_SUCCESS (sy_status (owner_to ?pc (s\<lparr>sy_Request := r'\<rparr>)))) (sy_pc (owner_to ?pc (s\<lparr>sy_Request := r'\<rparr>)))
        (sy_Cpu (owner_to ?pc (s\<lparr>sy_Request := r'\<rparr>)) Index) (calls_of Index (owner_to ?pc (s\<lparr>sy_Request := r'\<rparr>)))"
      using I(7) pc by (auto split: if_splits)
  qed (use r I(9-12) in \<open>auto split: if_splits\<close>)
  then show ?thesis .
qed

lemma owner_disables:
  assumes inv: "sync_inv N Index c s" and pc: "sy_pc s = M_DISABLE d"
  shows "sync_inv N Index c (owner_disable Index d s)"
proof -
  let ?ok = "NT_SUCCESS (sy_status s)"
  obtain r q m where ph: "phase_of ?ok (sy_pc s) = (r, q, m)" by (cases "phase_of ?ok (sy_pc s)")
  note I = sync_invD [OF inv ph]
  note all = sync_inv_all_done [OF inv _ ph]
  note move = owner_moves [OF inv ph]
  from pc have r: "r = rD" "q = rD" "m = (if d = D_INC then 0 else 1)" using ph by auto
  have own: "calls_of Index s = []" "if d = D_INC then flags False False (sy_Cpu s Index) else waiting N d \<and> flags True False (sy_Cpu s Index)"
    using I(7) pc by simp_all
  have le: "sy_CompletionCount s \<le> int N"
    using count_full [OF I(1) _ phase_of_le [OF ph], of c] I(13) I(10) worker_ok_le by fastforce
  have go: "sync_inv N Index c (owner_to pc (put_cpu Index w (s\<lparr>sy_CompletionCount := n\<rparr>)))"
    if "phase_of ?ok pc = (rD, rD, m')" "n = m' + (\<Sum>i \<in> workers N Index. c i)" "cpu_pc w = cpu_pc (sy_Cpu s Index)" "owner_ok N ?ok pc w []"
      "pc \<noteq> M_DONE" "passed pc \<or> (\<exists>i \<in> workers N Index. cpu_Disabled (sy_Cpu s i)) \<Longrightarrow> n = int N" for pc w n m'
    by (rule move [where r' = rD and q' = rD and m' = m' and c' = c]) (use that r I(9) own(1) in auto)
  have dis: "d \<noteq> D_INC \<and> (\<forall>Old. d = D_CAS Old \<longrightarrow> sy_CompletionCount s \<noteq> Old)" if "\<exists>i \<in> workers N Index. cpu_Disabled (sy_Cpu s i)"
    using I(12) [OF r(1) that] all own(2) r(3) by (auto split: if_splits)
  have "sync_inv N Index c (owner_disable Index d s)"
  proof (cases d)
    case D_INC
    then have "owner_disable Index d s = owner_to (M_DISABLE (D_SPIN 0)) (put_cpu Index ((sy_Cpu s Index)\<lparr>cpu_High := True\<rparr>) (s\<lparr>sy_CompletionCount := sy_CompletionCount s + 1\<rparr>))"
      by (simp add: owner_disable_def)
    also have "sync_inv N Index c \<dots>" by (rule go [where m' = 1]) (use D_INC own r(3) I(10) dis in \<open>auto simp: flags_def\<close>)
    finally show ?thesis .
  next
    case (D_SPIN a)
    let ?d = "if Suc a \<le> 1000 \<and> sy_CompletionCount s \<noteq> int N then D_SPIN (Suc a) else D_READ"
    have "owner_disable Index d s = owner_to (M_DISABLE ?d) (put_cpu Index ((sy_Cpu s Index)\<lparr>cpu_High := True\<rparr>) (s\<lparr>sy_CompletionCount := sy_CompletionCount s\<rparr>))"
      using D_SPIN I(3) by (simp add: owner_disable_def)
    also have "sync_inv N Index c \<dots>" by (rule go [where m' = 1]) (use D_SPIN own r(1,3) I(10,12) in \<open>auto simp: flags_def\<close>)
    finally show ?thesis .
  next
    case D_READ
    show ?thesis
    proof (cases "sy_CompletionCount s = int N")
      case True
      then have "owner_disable Index d s = owner_to M_SHUTDOWN (put_cpu Index ((sy_Cpu s Index)\<lparr>cpu_Disabled := True\<rparr>) (s\<lparr>sy_CompletionCount := int N\<rparr>))"
        using D_READ I(3) by (simp add: owner_disable_def)
      also have "sync_inv N Index c \<dots>" by (rule go [where m' = 1]) (use D_READ own r(3) I(10) True in \<open>auto simp: flags_def\<close>)
      finally show ?thesis .
    next
      case False
      then have "owner_disable Index d s = owner_to (M_DISABLE (D_CAS (sy_CompletionCount s))) (put_cpu Index ((sy_Cpu s Index)\<lparr>cpu_High := True\<rparr>) (s\<lparr>sy_CompletionCount := sy_CompletionCount s\<rparr>))"
        using D_READ I(3) by (simp add: owner_disable_def)
      also have "sync_inv N Index c \<dots>" by (rule go [where m' = 1]) (use D_READ own r(1,3) I(10,12) le False in \<open>auto simp: flags_def\<close>)
      finally show ?thesis .
    qed
  next
    case (D_CAS Old)
    then have Old: "Old < int N" using own(2) by simp
    show ?thesis
    proof (cases "sy_CompletionCount s = Old")
      case True
      then have "owner_disable Index d s = owner_to (M_DISABLE D_INC) (put_cpu Index ((sy_Cpu s Index)\<lparr>cpu_High := False\<rparr>) (s\<lparr>sy_CompletionCount := Old - 1\<rparr>))"
        using D_CAS I(3) Old by (simp add: owner_disable_def)
      also have "sync_inv N Index c \<dots>" by (rule go [where m' = 0]) (use D_CAS own r(3) I(10) dis True in \<open>auto simp: flags_def\<close>)
      finally show ?thesis .
    next
      case False
      then have "owner_disable Index d s = owner_to (M_DISABLE D_READ) (put_cpu Index ((sy_Cpu s Index)\<lparr>cpu_High := True\<rparr>) (s\<lparr>sy_CompletionCount := sy_CompletionCount s\<rparr>))"
        using D_CAS I(3) by (simp add: owner_disable_def)
      also have "sync_inv N Index c \<dots>" by (rule go [where m' = 1]) (use D_CAS own r(1,3) I(10,12) in \<open>auto simp: flags_def\<close>)
      finally show ?thesis .
    qed
  qed
  then show ?thesis .
qed

lemma owner_free:
  assumes inv: "sync_inv N Index c s" and pc: "sy_pc s = M_FREE"
  shows "final N (NT_SUCCESS (sy_status s)) (owner_to M_DONE ((zero_SYNC_CONTEXT s)\<lparr>sy_Owner := None\<rparr>))"
proof -
  let ?ok = "NT_SUCCESS (sy_status s)"
  obtain r q m where ph: "phase_of ?ok (sy_pc s) = (r, q, m)" by (cases "phase_of ?ok (sy_pc s)")
  note I = sync_invD [OF inv ph]
  note all = sync_inv_all_done [OF inv _ ph]
  note move = owner_moves [OF inv ph]
  from pc have r: "r = rX" "q = rX" using ph by auto
  have full: "sy_CompletionCount s = int N" using I(11) pc by simp
  have w: "flags False False (sy_Cpu s i) \<and> calls_of i s = calls_at ?ok rX \<and> cpu_pc (sy_Cpu s i) = W_DONE" if "i \<in> workers N Index" for i
  proof -
    have "worker_ok N ?ok rX rX (sy_Cpu s i) (calls_of i s) 1" using I(13) that r all [OF full] by auto
    then show ?thesis by cases (auto simp: flags_def)
  qed
  have own: "flags False False (sy_Cpu s Index)" "calls_of Index s = calls_at ?ok rX" using I(7) pc by simp_all
  let ?s' = "owner_to M_DONE ((zero_SYNC_CONTEXT s)\<lparr>sy_Owner := None\<rparr>)"
  have same: "sy_Cpu ?s' = sy_Cpu s" "calls_of i ?s' = calls_of i s" "sy_status ?s' = sy_status s" for i
    by (simp_all add: zero_SYNC_CONTEXT_def calls_of_def owner_to_def)
  have "cpu_pc (sy_Cpu s i) = W_DONE" for i using w I(8) by blast
  moreover have "flags False False (sy_Cpu s i) \<and> calls_of i s = calls_at ?ok rX" if "i < N" for i
    using that w [of i] own by (cases "i = Index") (auto simp: workers_def)
  ultimately have "final N ?ok ?s'" using same by (simp add: final_def) (simp add: zero_SYNC_CONTEXT_def IsZero_SYNC_CONTEXT_def owner_to_def)
  then show ?thesis .
qed

lemma sync_inv_owner:
  assumes inv: "sync_inv N Index c s"
  shows "\<exists>s'. sync_owner answer s = Some s' \<and>
     (if sy_pc s = M_FREE then final N (NT_SUCCESS (sy_status s)) s' else sync_inv N Index (counts_after (sy_pc s) c) s')"
proof -
  let ?ok = "NT_SUCCESS (sy_status s)"
  obtain r q m where ph: "phase_of ?ok (sy_pc s) = (r, q, m)" by (cases "phase_of ?ok (sy_pc s)")
  note I = sync_invD [OF inv ph]
  note all = sync_inv_all_done [OF inv _ ph]
  note move = owner_moves [OF inv ph]
  show ?thesis
  proof (cases "sy_pc s")
    case M_INC
    then have "sync_inv N Index c (owner_to (M_WAIT rN) (s\<lparr>sy_CompletionCount := sy_CompletionCount s + 1\<rparr>))"
      using ph I(7) I(9-12) by (intro move) (auto simp: disabled_at_def)
    then show ?thesis using M_INC by (simp add: sync_owner_def counts_after_def)
  next
    case (M_WAIT r')
    show ?thesis
    proof (cases "sy_CompletionCount s = int N")
      case True
      have "sync_inv N Index c (owner_to (after_wait (sy_status s) r') s)"
        using M_WAIT ph I(7) I(9-12) True all [OF True]
        by (cases r') (intro move; auto simp: disabled_at_def split: if_splits)+
      then show ?thesis using M_WAIT True I(3) by (simp add: sync_owner_def counts_after_def)
    qed (use M_WAIT inv I(3) in \<open>simp add: sync_owner_def counts_after_def\<close>)
  next
    case (M_TICK r')
    then have "r' \<in> {rE, rI, rL, rX}" using I(7) by auto
    then have "sync_inv N Index c (owner_to (M_SET r') (s\<lparr>sy_CompletionCount := sy_CompletionCount s + 1\<rparr>))"
      using M_TICK ph I(7) I(9-12) by (intro move) (auto simp: disabled_at_def)
    then show ?thesis using M_TICK by (simp add: sync_owner_def counts_after_def)
  next
    case M_SHUTDOWN
    then have r: "r = rD" "q = rD" "m = 1" using ph by auto
    have "sync_inv N Index c (owner_to (after_shutdown answer) (s\<lparr>sy_status := answer\<rparr>))"
      using M_SHUTDOWN r I(7) I(9-12)
      by (intro move) (auto simp: after_shutdown_def disabled_at_def flags_def intro: worker_ok_status)
    then show ?thesis using M_SHUTDOWN by (simp add: sync_owner_def counts_after_def)
  next
    case M_FREE
    then show ?thesis using owner_free [OF inv M_FREE] I(2) by (simp add: sync_owner_def)
  qed (use I(2,6) owner_reset [OF inv] owner_act [OF inv] owner_set [OF inv] owner_disables [OF inv] in
      \<open>simp_all add: sync_owner_def counts_after_def\<close>)
qed


section \<open>Safety\<close>

text \<open>A capture starts with the invariant, and every step keeps it until the context is released.\<close>

lemma start_inv:
  assumes "Index < N" and "SyncCapture True N Index True True sync_idle = Some s"
  shows "sync_inv N Index (\<lambda>_. 0) s"
proof -
  have "sy_Owner sync_idle = None" "IsZero_SYNC_CONTEXT sync_idle"
    by (simp_all add: IsZero_SYNC_CONTEXT_def sync_idle_def)
  then have s: "s = sync_idle\<lparr>sy_Owner := Some Index, sy_Early := True, sy_Late := True, sy_CompletionCount := 0, sy_ProcessorCount := N,
         sy_Dpc := True, sy_pc := M_INC,
         sy_Cpu := (\<lambda>i. if i < N \<and> i \<noteq> Index then (sy_Cpu sync_idle i)\<lparr>cpu_pc := W_QUEUED\<rparr> else sy_Cpu sync_idle i)\<rparr>"
    using assms(2) by (simp add: SyncCapture_def ASSERT_def)
  have "worker_ok N True rN rN (sy_Cpu s i) (calls_of i s) 0" if "i \<in> workers N Index" for i
    using that worker_ok.queued [of N True rN] by (simp add: s workers_def sync_idle_def worker_def calls_of_def)
  moreover have "\<forall>i. i \<notin> workers N Index \<longrightarrow> cpu_pc (sy_Cpu s i) = W_DONE" by (auto simp: s workers_def sync_idle_def)
  moreover have "flags False False (sy_Cpu s Index)" "calls_of Index s = []" by (simp_all add: s flags_def sync_idle_def calls_of_def)
  ultimately show ?thesis using assms(1) by (simp add: sync_inv_def) (simp add: s sync_idle_def)
qed

lemma sync_do_law:
  assumes "sync_inv N Index c s"
  shows "\<exists>s'. sync_do a s = Some s' \<and> (final N (NT_SUCCESS (sy_status s)) s' \<or> (\<exists>c'. sync_inv N Index c' s'))"
proof (cases a)
  case (Owner answer)
  then show ?thesis using sync_inv_owner [OF assms, of answer] by (auto split: if_splits)
next
  case (Worker i)
  then show ?thesis using sync_inv_worker [OF assms, of i] by auto
qed

lemma final_stays: "final N ok s \<Longrightarrow> sync_do a s = Some s"
  by (cases a) (simp_all add: final_def sync_owner_def SyncWorker_def)

lemma reachable_inv: "sync_reachable N Index s \<Longrightarrow> (\<exists>c. sync_inv N Index c s) \<or> (\<exists>ok. final N ok s)"
proof (induction rule: sync_reachable.induct)
  case (start s)
  then show ?case using start_inv by blast
next
  case (step s a s')
  from step.IH show ?case
  proof (elim disjE exE)
    fix c assume "sync_inv N Index c s"
    from sync_do_law [OF this, of a] step.hyps show ?thesis by auto
  next
    fix ok assume "final N ok s"
    from final_stays [OF this, of a] this step.hyps show ?thesis by auto
  qed
qed

text \<open>What a worker has called, by its place: with a late call comes an early one, made with its interrupts disabled.\<close>

lemma calls_at_late: "(rL, d) \<in> set (calls_at ok r) \<Longrightarrow> r = rL \<or> r = rX \<and> ok"
  by (cases r) (auto split: if_splits)

lemma calls_at_early: "r = rL \<or> r = rX \<and> ok \<Longrightarrow> \<exists>cs. calls_at ok r = (rE, True) # cs"
  by auto

lemma request_before_late: "request_before ok r = rL \<Longrightarrow> r = rX \<and> ok"
  by (cases r; simp split: if_splits)

lemma request_before_exit [simp]: "request_before ok r \<noteq> rX"
  by (cases r) simp_all

lemma worker_ok_late:
  assumes "worker_ok N ok r q w calls c" and "(rL, d) \<in> set calls"
  shows "r = rL \<or> r = rX \<and> ok"
  using assms by cases (auto simp: lost_calls_def dest: calls_at_late request_before_late split: if_splits)

lemma worker_ok_late_phase:
  assumes "worker_ok N ok r q w calls c" and "r = rL \<or> r = rX \<and> ok" and "r = rL \<longrightarrow> ok"
  shows "\<exists>cs. calls = (rE, True) # cs"
  using assms(1) by cases (use assms(2,3) in \<open>auto split: if_splits\<close>)

lemma calls_of_mem: "(r, i, d) \<in> set (sy_Calls s) \<Longrightarrow> (r, d) \<in> set (calls_of i s)"
  by (force simp: calls_of_def)

text \<open>The same for the owner.\<close>

lemma owner_ok_late:
  assumes "owner_ok N ok pc w calls" and "phase_of ok pc = (r, q, m)" and "(rL, d) \<in> set calls"
  shows "r = rL \<and> ok \<or> r = rX \<and> ok"
  using assms by (cases pc) (auto dest: calls_at_late request_before_late split: if_splits)

lemma owner_ok_early:
  assumes "owner_ok N ok pc w calls" and "phase_of ok pc = (r, q, m)" and "r = rL \<or> r = rX \<and> ok"
  shows "\<exists>cs. calls = (rE, True) # cs"
  using assms by (cases pc) (auto dest: request_before_late split: if_splits)

lemma owner_ok_late_status:
  assumes "owner_ok N ok pc w calls" and "phase_of ok pc = (rL, q, m)"
  shows ok
  using assms by (cases pc) (auto dest: request_before_late split: if_splits)

lemma late_after_early_law:
  assumes inv: "sync_inv N Index c s" and late: "(rL, j, d) \<in> set (sy_Calls s)" "j < N" and i: "i < N"
  shows "\<exists>cs. calls_of i s = (rE, True) # cs"
proof -
  let ?ok = "NT_SUCCESS (sy_status s)"
  obtain r q m where ph: "phase_of ?ok (sy_pc s) = (r, q, m)" by (cases "phase_of ?ok (sy_pc s)")
  note I = sync_invD [OF inv ph]
  have mem: "(rL, d) \<in> set (calls_of j s)" by (rule calls_of_mem [OF late(1)])
  have phase: "(r = rL \<or> r = rX \<and> ?ok) \<and> ?ok"
  proof (cases "j = Index")
    case True
    then show ?thesis using mem owner_ok_late [OF I(7) ph] by auto
  next
    case False
    then have "worker_ok N ?ok r q (sy_Cpu s j) (calls_of j s) (c j)" using I(13) late(2) by (simp add: workers_def)
    from worker_ok_late [OF this mem] owner_ok_late_status [OF I(7)] ph show ?thesis by auto
  qed
  show ?thesis
  proof (cases "i = Index")
    case True
    then show ?thesis using owner_ok_early [OF I(7) ph] phase by auto
  next
    case False
    then have "worker_ok N ?ok r q (sy_Cpu s i) (calls_of i s) (c i)" using I(13) i by (simp add: workers_def)
    then show ?thesis using worker_ok_late_phase phase by blast
  qed
qed

end
