(* ===== verification/Sync_Runs.thy ===== *)
theory Sync_Runs
  imports Sync_Correct
begin

text \<open>
  What holds in every run of the protocol of sync.c, in which the processors take their steps in any order:
  no assertion fails, everyone is at HIGH\_LEVEL when the owner suspends, nobody runs its late callback before
  everyone has run its early one, and a capture that ends leaves every processor as it was. It need not
  end: a worker can be lost in two ways, each of which lets the owner wait for ever.
\<close>

section \<open>Runs\<close>

lemma reachable_run: "sync_reachable N Index s \<Longrightarrow> sync_run as s = Some s' \<Longrightarrow> sync_reachable N Index s'"
proof (induction as arbitrary: s)
  case (Cons a as)
  from Cons.prems(2) obtain s1 where "sync_do a s = Some s1" "sync_run as s1 = Some s'" by (auto simp: bind_eq_Some_conv)
  then show ?case using Cons.IH sync_reachable.step [OF Cons.prems(1)] by blast
qed simp

text \<open>Two processors: the states that a run leads to from a capture by the first, and what is seen of them.\<close>

definition two_run :: "sync_action list \<Rightarrow> sync_state kernel" where
  "two_run as = do { s \<leftarrow> SyncCapture True 2 0 True True sync_idle; sync_run as s }"

lemma two_run_reachable: "two_run as = Some s \<Longrightarrow> sync_reachable 2 0 s"
  unfolding two_run_def bind_eq_Some_conv using reachable_run [OF sync_reachable.start, of 0 2] by auto

abbreviation "ow \<equiv> Owner STATUS_SUCCESS"
abbreviation "wo \<equiv> Worker 1"

text \<open>Up to the request to disable the interrupts; both disable; a request is carried out by the owner and by the worker.\<close>

definition to_disable :: "sync_action list" where
  "to_disable = [ow, wo, ow, ow, ow, wo, wo, wo]"

definition both_disable :: "sync_action list" where
  "both_disable = [ow, wo, ow, ow, wo, wo, wo, ow]"

definition one_request :: "sync_action list" where
  "one_request = [ow, ow, ow, ow, wo, wo, wo, wo, wo, wo, ow]"

definition to_end :: "sync_action list" where
  "to_end = [ow, ow, ow, wo, wo, ow, ow]"

definition whole_run :: "sync_action list" where
  "whole_run = to_disable @ both_disable @ one_request @ one_request @ one_request @ to_end"

lemma whole_run_ends: "map_option (\<lambda>s. (sy_pc s, sy_Calls s)) (two_run whole_run) =
    Some (M_DONE, [(rE, 0, True), (rE, 1, True), (rL, 0, False), (rL, 1, False)])"
  by code_simp

text \<open>
  C29. No assertion of the protocol fails, whatever the interleaving and the number of processors: from a
  reachable state the owner and every worker can take their step. In particular a worker is back at
  DISPATCH\_LEVEL when it leaves, and the context is released by its owner.
\<close>
theorem Sync_never_asserts:
  assumes "sync_reachable N Index s"
  shows "\<exists>s'. sync_do a s = Some s'"
  using reachable_inv [OF assms] sync_do_law final_stays by blast


section \<open>Everyone is quiet during the suspend\<close>

lemma quiet_law:
  assumes inv: "sync_inv N Index c s" and pc: "sy_pc s = M_SHUTDOWN" and i: "i < N"
  shows "cpu_High (sy_Cpu s i)"
proof -
  let ?ok = "NT_SUCCESS (sy_status s)"
  have ph: "phase_of ?ok (sy_pc s) = (rD, rD, 1)" using pc by simp
  note I = sync_invD [OF inv ph]
  show ?thesis
  proof (cases "i = Index")
    case True
    then show ?thesis using I(7) pc by (simp add: flags_def)
  next
    case False
    then have "worker_ok N ?ok rD rD (sy_Cpu s i) (calls_of i s) 1"
      using I(11,13) sync_inv_all_done [OF inv _ ph] i pc by (simp add: workers_def)
    then show ?thesis by cases auto
  qed
qed

lemma reachable_cases:
  assumes "sync_reachable N Index s" and "sy_pc s \<noteq> M_DONE"
  shows "\<exists>c. sync_inv N Index c s"
  using reachable_inv [OF assms(1)] assms(2) by (auto simp: final_def)

text \<open>
  C27. When the owner is about to suspend, every processor is at HIGH\_LEVEL: nothing else runs anywhere, in
  whatever order they got there and however often they backed off.
\<close>
theorem Sync_quiet_at_shutdown:
  assumes "sync_reachable N Index s" and "sy_pc s = M_SHUTDOWN" and "i < N"
  shows "cpu_High (sy_Cpu s i)"
  using reachable_cases [OF assms(1)] quiet_law assms(2,3) by auto

lemma two_run_to_shutdown: "map_option sy_pc (two_run (to_disable @ [ow, wo, ow, ow])) = Some M_SHUTDOWN"
  by code_simp

theorem Sync_quiet_at_shutdown_witness:
  "cpu_High (sy_Cpu (the (two_run (to_disable @ [ow, wo, ow, ow]))) 1)"
proof -
  obtain s where s: "two_run (to_disable @ [ow, wo, ow, ow]) = Some s" "sy_pc s = M_SHUTDOWN" using two_run_to_shutdown by auto
  show ?thesis using Sync_quiet_at_shutdown [OF two_run_reachable [OF s(1)] s(2), of 1] s(1) by simp
qed

theorem Sync_never_asserts_witness: "\<exists>s'. sync_do wo (the (two_run whole_run)) = Some s'"
proof -
  obtain s where s: "two_run whole_run = Some s" using whole_run_ends by auto
  show ?thesis using Sync_never_asserts [OF two_run_reachable [OF s], of wo] s by simp
qed


section \<open>The order of the callbacks\<close>

text \<open>A step makes one call at most.\<close>

lemma sync_act_calls: "sy_Calls (sync_act r i s) = sy_Calls s \<or> (\<exists>d. sy_Calls (sync_act r i s) = sy_Calls s @ [(r, i, d)])"
  by (cases r) (auto simp: sync_call_def put_cpu_def)

lemma put_cpu_calls [simp]: "sy_Calls (put_cpu i w s) = sy_Calls s" "sy_Calls (worker_to i wpc s) = sy_Calls s" "sy_Calls (owner_to opc s) = sy_Calls s"
  by (simp_all add: put_cpu_def worker_to_def owner_to_def)

lemma disable_calls [simp]: "sy_Calls (worker_disable i d s) = sy_Calls s" "sy_Calls (owner_disable i d s) = sy_Calls s"
  by (simp_all add: worker_disable_def owner_disable_def split: prod.split sum.split bool.split)

lemma worker_calls:
  assumes "SyncWorker i s = Some s'"
  shows "sy_Calls s' = sy_Calls s \<or> cpu_pc (sy_Cpu s i) \<noteq> W_DONE \<and> (\<exists>r d. sy_Calls s' = sy_Calls s @ [(r, i, d)])"
proof (cases "cpu_pc (sy_Cpu s i)")
  case (W_ACT r)
  then show ?thesis using assms sync_act_calls [of r i s] by (auto simp: SyncWorker_def)
qed (use assms in \<open>auto simp: SyncWorker_def bind_eq_Some_conv split: if_split_asm\<close>)

lemma owner_calls:
  assumes "sync_owner answer s = Some s'"
  shows "sy_Calls s' = sy_Calls s \<or> sy_pc s \<noteq> M_DONE \<and> (\<exists>i r d. sy_Owner s = Some i \<and> sy_Calls s' = sy_Calls s @ [(r, i, d)])"
proof (cases "sy_pc s")
  case (M_ACT r)
  then obtain i where "sy_Owner s = Some i" "s' = owner_to (M_TICK r) (sync_act r i s)" using assms by (auto simp: sync_owner_def bind_eq_Some_conv)
  then show ?thesis using M_ACT sync_act_calls [of r i s] by auto
qed (use assms in \<open>auto simp: sync_owner_def zero_SYNC_CONTEXT_def bind_eq_Some_conv split: if_split_asm\<close>)

text \<open>A call is made by one of the processors.\<close>

lemma sync_do_calls:
  assumes "sync_reachable N Index s" and "sync_do a s = Some s'"
  shows "sy_Calls s' = sy_Calls s \<or> (\<exists>r i d. sy_Calls s' = sy_Calls s @ [(r, i, d)] \<and> i < N)"
proof (cases "\<exists>c. sync_inv N Index c s")
  case True
  then obtain c where inv: "sync_inv N Index c s" ..
  then have "Index < N" "sy_Owner s = Some Index" "\<forall>i. i \<notin> workers N Index \<longrightarrow> cpu_pc (sy_Cpu s i) = W_DONE"
    by (auto simp: sync_inv_def split: prod.splits)
  then have owner: "\<And>i. sy_Owner s = Some i \<Longrightarrow> i < N" and worker: "\<And>i. cpu_pc (sy_Cpu s i) \<noteq> W_DONE \<Longrightarrow> i < N"
    by (auto simp: workers_def)
  show ?thesis
  proof (cases a)
    case (Owner answer)
    then show ?thesis using owner_calls [of answer s s'] assms(2) owner by auto
  next
    case (Worker i)
    then show ?thesis using worker_calls [of i s s'] assms(2) worker by auto
  qed
next
  case False
  then obtain ok where "final N ok s" using reachable_inv [OF assms(1)] by auto
  then show ?thesis using final_stays [of N ok s a] assms(2) by simp
qed

lemma SyncCapture_calls: "SyncCapture mem N Index Early Late s = Some s' \<Longrightarrow> sy_Calls s' = sy_Calls s"
  by (auto simp: SyncCapture_def ASSERT_def split: if_split_asm)

lemma reachable_callers:
  assumes "sync_reachable N Index s"
  shows "\<forall>(r, i, d) \<in> set (sy_Calls s). i < N"
  using assms
proof (induction rule: sync_reachable.induct)
  case (start s)
  then show ?case using SyncCapture_calls [OF start(2)] by (simp add: sync_idle_def)
next
  case (step s a s')
  then show ?case using sync_do_calls [OF step.hyps] by auto
qed

lemma calls_of_conv: "(r, d) \<in> set (calls_of i s) \<longleftrightarrow> (r, i, d) \<in> set (sy_Calls s)"
  by (force simp: calls_of_def)

lemma early_before_late:
  assumes "sync_reachable N Index s" and "(rL, j, d) \<in> set (sy_Calls s)" and "i < N"
  shows "(rE, i, True) \<in> set (sy_Calls s)"
proof -
  have "j < N" using reachable_callers [OF assms(1)] assms(2) by auto
  then have "\<exists>cs. calls_of i s = (rE, True) # cs"
    using reachable_inv [OF assms(1)]
  proof (elim disjE exE)
    fix c assume "sync_inv N Index c s"
    then show ?thesis using late_after_early_law assms(2,3) \<open>j < N\<close> by blast
  next
    fix ok assume "final N ok s"
    then show ?thesis using assms(2,3) \<open>j < N\<close> by (auto simp: final_def calls_of_conv [symmetric] split: if_splits)
  qed
  then have "(rE, True) \<in> set (calls_of i s)" by auto
  then show ?thesis by (simp add: calls_of_conv)
qed

lemma late_after_early_order:
  assumes "sync_reachable N Index s"
  shows "sy_Calls s = pre @ (rL, j, d) # post \<Longrightarrow> i < N \<Longrightarrow> (rE, i, True) \<in> set pre"
  using assms
proof (induction arbitrary: post rule: sync_reachable.induct)
  case (start s)
  then show ?case using SyncCapture_calls [OF start(2)] by (simp add: sync_idle_def)
next
  case (step s a s')
  note reach = sync_reachable.step [OF step.hyps]
  from sync_do_calls [OF step.hyps] show ?case
  proof (elim disjE exE conjE)
    assume "sy_Calls s' = sy_Calls s"
    with step.prems(1) have "sy_Calls s = pre @ (rL, j, d) # post" by simp
    then show ?thesis using step.IH step.prems(2) by blast
  next
    fix r' i' d' assume x: "sy_Calls s' = sy_Calls s @ [(r', i', d')]"
    show ?thesis
    proof (cases post rule: rev_cases)
      case Nil
      then have "(r', i', d') = (rL, j, d)" "pre = sy_Calls s" using x step.prems(1) by auto
      then show ?thesis using early_before_late [OF reach, of j d i] x step.prems(2) by auto
    next
      case (snoc post' y)
      then have "sy_Calls s = pre @ (rL, j, d) # post'" using x step.prems(1) by auto
      then show ?thesis using step.IH step.prems(2) by blast
    qed
  qed
qed

text \<open>
  C26. Before any processor runs its late callback, every processor has run its early one, and has done so
  with its interrupts disabled.
\<close>
theorem Sync_late_after_early:
  assumes "sync_reachable N Index s" and "sy_Calls s = pre @ (rL, j, d) # post" and "i < N"
  shows "(rE, i, True) \<in> set pre"
  using late_after_early_order assms by blast

theorem Sync_late_after_early_witness: "(rE, 1, True) \<in> set (butlast (butlast (sy_Calls (the (two_run whole_run)))))"
proof -
  obtain s where s: "two_run whole_run = Some s" "sy_Calls s = [(rE, 0, True), (rE, 1, True)] @ (rL, 0, False) # [(rL, 1, False)]"
    using whole_run_ends by auto
  show ?thesis using Sync_late_after_early [OF two_run_reachable [OF s(1)] s(2), of 1] s by simp
qed

lemma ends_law:
  assumes "sync_reachable N Index s" and "sy_pc s = M_DONE" and "i < N"
  shows "sy_Owner s = None \<and> IsZero_SYNC_CONTEXT s \<and> cpu_pc (sy_Cpu s i) = W_DONE \<and> \<not> cpu_High (sy_Cpu s i) \<and> \<not> cpu_Disabled (sy_Cpu s i) \<and>
     filter (\<lambda>(r, j, d). j = i) (sy_Calls s) = (if NT_SUCCESS (sy_status s) then [(rE, i, True), (rL, i, False)] else [])"
proof -
  from reachable_inv [OF assms(1)] assms(2) obtain ok where f: "final N ok s" by (auto simp: sync_inv_def)
  have "filter (\<lambda>(r, j, d). j = i) (sy_Calls s) = map (\<lambda>(r, d). (r, i, d)) (calls_of i s)"
    by (auto simp: calls_of_def o_def case_prod_beta intro!: map_idI [symmetric])
  with f assms(3) show ?thesis by (simp add: final_def flags_def)
qed

text \<open>
  C28. When the owner has let everyone go, the context is free and zeroed, so that the next capture finds what it
  asserts, every worker has ended, and each processor has its interrupts enabled, is below HIGH\_LEVEL and has run each of its callbacks once, the early one
  first with its interrupts disabled and the late one with them enabled, or none if the shutdown failed.
\<close>
theorem Sync_ends:
  assumes "sync_reachable N Index s" and "sy_pc s = M_DONE" and "i < N"
  shows "sy_Owner s = None \<and> IsZero_SYNC_CONTEXT s \<and> cpu_pc (sy_Cpu s i) = W_DONE \<and> \<not> cpu_High (sy_Cpu s i) \<and> \<not> cpu_Disabled (sy_Cpu s i) \<and>
     filter (\<lambda>(r, j, d). j = i) (sy_Calls s) = (if NT_SUCCESS (sy_status s) then [(rE, i, True), (rL, i, False)] else [])"
  by (rule ends_law [OF assms])

theorem Sync_ends_witness: "filter (\<lambda>(r, j, d). j = 1) (sy_Calls (the (two_run whole_run))) = [(rE, 1, True), (rL, 1, False)]"
proof -
  obtain s where s: "two_run whole_run = Some s" "sy_pc s = M_DONE" "sy_Calls s \<noteq> []" "1 \<in> (fst o snd) ` set (sy_Calls s)"
    using whole_run_ends by auto
  then have "filter (\<lambda>(r, j, d). j = 1) (sy_Calls s) \<noteq> []" by (fastforce simp: filter_empty_conv)
  then show ?thesis using Sync_ends [OF two_run_reachable [OF s(1)] s(2), of 1] s(1) by (auto split: if_splits)
qed


section \<open>Lost workers\<close>

text \<open>
  The owner waits for everyone to carry out request \<open>r\<close>. A worker never contributes when it is still in the
  loop that waits for interrupts to be disabled, as nothing tells it that all have made it before the count
  is reset; nor when it has taken the new request for the one it had just carried out.
\<close>

inductive worker_lost :: "nat \<Rightarrow> bool \<Rightarrow> SYNC_REQUEST \<Rightarrow> SYNC_REQUEST \<Rightarrow> sync_cpu \<Rightarrow> (SYNC_REQUEST \<times> bool) list \<Rightarrow> int \<Rightarrow> bool"
  for N ok where
  lingering: "r \<in> {rE, rI} \<Longrightarrow> request_before ok r = rD \<Longrightarrow> waiting N d \<Longrightarrow> worker_lost N ok r q (worker (W_DISABLE d) rN True False) [] 0"
| fallen: "r \<in> {rE, rI} \<Longrightarrow> request_before ok r = rD \<Longrightarrow> looping pc \<or> pc = W_SWITCH \<or> pc = W_DISABLE D_INC \<or> pc = W_ACT r \<and> q = r \<Longrightarrow>
    worker_lost N ok r q (worker pc rN False False) [] (- 1)"
| fallen_acted: "r \<in> {rE, rI} \<Longrightarrow> request_before ok r = rD \<Longrightarrow> worker_lost N ok r r (worker (W_TICK r) l False False) (lost_calls r) (- 1)"
| fallen_done: "r \<in> {rE, rI} \<Longrightarrow> request_before ok r = rD \<Longrightarrow> pc = W_RECORD \<or> looping pc \<and> l = r \<Longrightarrow>
    worker_lost N ok r r (worker pc l False False) (lost_calls r) 0"
| skipped: "r \<in> {rE, rI, rL} \<Longrightarrow> looping pc \<Longrightarrow> worker_lost N ok r r (worker pc r f f) calls 0"

lemma worker_lost_le: "worker_lost N ok r q w calls c \<Longrightarrow> c \<le> 0"
  by (induction rule: worker_lost.induct) auto

lemma worker_lost_publish: "worker_lost N ok r q w calls c \<Longrightarrow> q = r \<or> q = request_before ok r \<Longrightarrow> worker_lost N ok r r w calls c"
proof (induction rule: worker_lost.cases [consumes 1])
  case (fallen r' pc q')
  then show ?case using worker_lost.fallen [of r' ok pc r' N] by auto
qed (auto intro: worker_lost.intros)

text \<open>A lost worker stays lost.\<close>

lemma SyncWorker_lost:
  assumes lost: "worker_lost N ok r q (sy_Cpu s i) (calls_of i s) c"
    and s: "sy_ProcessorCount s = N" "sy_Request s = q" "sy_Early s" "sy_Late s" "q = r \<or> q = request_before ok r" "sy_CompletionCount s < int N"
    and run: "SyncWorker i s = Some s'"
  shows "worker_lost N ok r q (sy_Cpu s' i) (calls_of i s') (sy_CompletionCount s' - sy_CompletionCount s + c)"
  using lost
proof cases
  case (lingering d)
  have fallen: "worker_lost N ok r q (worker W_EXIT_TEST rN False False) [] (- 1)" using lingering by (simp add: worker_lost.fallen)
  have stays: "worker_lost N ok r q (worker (W_DISABLE d') rN True False) [] 0" if "waiting N d'" for d'
    using lingering that by (simp add: worker_lost.lingering)
  from worker_wait_step [OF s(1) lingering(6,1) less_imp_le [OF s(6)]] run s(6) lingering(2,3) fallen stays show ?thesis by auto
next
  case (fallen pc)
  note b = worker_lost.fallen [OF fallen(4,5)]
  have r: "r = rE \<or> r = rI" "q = r \<or> q = rD" using fallen(4,5) s(5) by auto
  from fallen(6) consider "looping pc" | "pc = W_SWITCH" | "pc = W_DISABLE D_INC" | "pc = W_ACT r" "q = r" by blast
  then show ?thesis
  proof cases
    case 1
    then show ?thesis using run fallen(1-3) s(2) r b [of W_EXIT_TEST q] b [of W_SAME_TEST q] b [of W_SWITCH q] by (auto simp: SyncWorker_def)
  next
    case 2
    then show ?thesis using run fallen(1-3) s(2) r b [of "W_DISABLE D_INC" q] b [of "W_ACT r" q] by (auto simp: SyncWorker_def)
  next
    case 3
    have "worker_lost N ok r q (worker (W_DISABLE (D_SPIN 0)) rN True False) [] 0" using fallen(4,5) by (simp add: worker_lost.lingering)
    then show ?thesis using run 3 fallen(1-3) by (auto simp: SyncWorker_def worker_disable_def)
  next
    case 4
    then show ?thesis using run fallen(1-3) s r(1) worker_lost.fallen_acted [OF fallen(4,5)]
      by (auto simp: SyncWorker_def calls_of_call lost_calls_def)
  qed
next
  case (fallen_acted l)
  then show ?thesis using run s by (auto simp: SyncWorker_def worker_lost.fallen_done)
next
  case (fallen_done pc l)
  note b = worker_lost.fallen_done [OF fallen_done(5,6)]
  have "r \<noteq> rX" using fallen_done(5) by auto
  then show ?thesis using run fallen_done(1-4,7) s(2) b [of W_EXIT_TEST r] b [of W_SAME_TEST r] by (auto simp: SyncWorker_def)
next
  case (skipped pc f)
  then have "r \<noteq> rX" by auto
  then show ?thesis using run skipped s(2) worker_lost.skipped [of r W_EXIT_TEST N ok f "calls_of i s"] worker_lost.skipped [of r W_SAME_TEST N ok f "calls_of i s"]
    by (auto simp: SyncWorker_def)
qed

text \<open>The owner and a lost worker.\<close>

definition lost_inv :: "nat \<Rightarrow> nat \<Rightarrow> SYNC_REQUEST \<Rightarrow> nat \<Rightarrow> (nat \<Rightarrow> int) \<Rightarrow> sync_state \<Rightarrow> bool" where
  "lost_inv N Index r i c s \<longleftrightarrow> sync_inv N Index c s \<and> i \<in> workers N Index \<and> sy_pc s \<in> {M_ACT r, M_TICK r, M_SET r, M_WAIT r} \<and> r \<noteq> rD \<and>
     worker_lost N (NT_SUCCESS (sy_status s)) r (sy_Request s) (sy_Cpu s i) (calls_of i s) (c i)"

lemma lost_count:
  assumes "lost_inv N Index r i c s"
  shows "sy_CompletionCount s < int N"
proof -
  let ?ok = "NT_SUCCESS (sy_status s)"
  obtain r' q m where ph: "phase_of ?ok (sy_pc s) = (r', q, m)" by (cases "phase_of ?ok (sy_pc s)")
  have inv: "sync_inv N Index c s" and i: "i \<in> workers N Index" "c i \<le> 0" using assms worker_lost_le by (auto simp: lost_inv_def)
  note I = sync_invD [OF inv ph]
  have "\<forall>i \<in> workers N Index. c i \<le> 1" using I(13) worker_ok_le by blast
  from count_full [OF I(1) this phase_of_le [OF ph]] I(10) i show ?thesis by auto
qed

lemma lost_worker:
  assumes lost: "lost_inv N Index r i c s" and run: "SyncWorker j s = Some s'"
  shows "\<exists>c'. lost_inv N Index r i c' s'"
proof -
  have inv: "sync_inv N Index c s" and i: "i \<in> workers N Index" and pc: "sy_pc s \<in> {M_ACT r, M_TICK r, M_SET r, M_WAIT r}" "r \<noteq> rD"
    and w: "worker_lost N (NT_SUCCESS (sy_status s)) r (sy_Request s) (sy_Cpu s i) (calls_of i s) (c i)"
    using lost by (auto simp: lost_inv_def)
  let ?ok = "NT_SUCCESS (sy_status s)"
  obtain r' q m where ph: "phase_of ?ok (sy_pc s) = (r', q, m)" by (cases "phase_of ?ok (sy_pc s)")
  note I = sync_invD [OF inv ph]
  have r: "r' = r" using ph pc by auto
  from sync_inv_worker [OF inv, of j] run obtain x where x: "sync_inv N Index (c(j := x)) s'" by auto
  note fr = SyncWorker_frame [OF run]
  have f: "sy_pc s' = sy_pc s" "sy_status s' = sy_status s" "sy_Request s' = sy_Request s" using fr by (simp_all add: worker_frame_def)
  have "worker_lost N ?ok r (sy_Request s) (sy_Cpu s' i) (calls_of i s') ((c(j := x)) i)"
  proof (cases "j = i")
    case False
    then show ?thesis using fr w by (simp add: worker_frame_def)
  next
    case True
    have "sy_CompletionCount s' = m + (\<Sum>k \<in> workers N Index. (c(j := x)) k)" using sync_invD(10) [OF x] f ph by auto
    then have "x = sy_CompletionCount s' - sy_CompletionCount s + c i" using True I(10) sum_update [of j N Index c x] i by simp
    then show ?thesis
      using SyncWorker_lost [OF w I(3) _ I(4,5) _ lost_count [OF lost]] run True phase_of_request [OF ph] I(9) r by simp
  qed
  with x i pc f show ?thesis unfolding lost_inv_def by (intro exI [of _ "c(j := x)"]) simp
qed

lemma sync_act_other: "i \<noteq> j \<Longrightarrow> sy_Cpu (sync_act r j s) i = sy_Cpu s i" "i \<noteq> j \<Longrightarrow> calls_of i (sync_act r j s) = calls_of i s"
  "sy_Request (sync_act r j s) = sy_Request s" "sy_status (sync_act r j s) = sy_status s"
  by (cases r; simp add: calls_of_call)+

lemma lost_owner:
  assumes lost: "lost_inv N Index r i c s" and run: "sync_owner answer s = Some s'"
  shows "lost_inv N Index r i c s'"
proof -
  have inv: "sync_inv N Index c s" and i: "i \<in> workers N Index" and pc: "sy_pc s \<in> {M_ACT r, M_TICK r, M_SET r, M_WAIT r}" and r: "r \<noteq> rD"
    and w: "worker_lost N (NT_SUCCESS (sy_status s)) r (sy_Request s) (sy_Cpu s i) (calls_of i s) (c i)"
    using lost by (auto simp: lost_inv_def)
  let ?ok = "NT_SUCCESS (sy_status s)"
  obtain r' q m where ph: "phase_of ?ok (sy_pc s) = (r', q, m)" by (cases "phase_of ?ok (sy_pc s)")
  note I = sync_invD [OF inv ph]
  have ne: "i \<noteq> Index" using i by (auto simp: workers_def)
  have "counts_after (sy_pc s) c = c" "sy_pc s \<noteq> M_FREE" using pc by (auto simp: counts_after_def)
  then have inv': "sync_inv N Index c s'" using sync_inv_owner [OF inv, of answer] run by auto
  have "sy_pc s' \<in> {M_ACT r, M_TICK r, M_SET r, M_WAIT r} \<and>
     worker_lost N (NT_SUCCESS (sy_status s')) r (sy_Request s') (sy_Cpu s' i) (calls_of i s') (c i)"
    using pc
  proof (elim insertE)
    assume "sy_pc s = M_ACT r"
    then show ?thesis using run w ne I(2) by (auto simp: sync_owner_def sync_act_other)
  next
    assume "sy_pc s = M_TICK r"
    then show ?thesis using run w by (auto simp: sync_owner_def)
  next
    assume m: "sy_pc s = M_SET r"
    then have "worker_lost N ?ok r r (sy_Cpu s i) (calls_of i s) (c i)" using worker_lost_publish [OF w] I(9) ph by auto
    then show ?thesis using m run r by (auto simp: sync_owner_def)
  next
    assume "sy_pc s = M_WAIT r"
    then show ?thesis using run w lost_count [OF lost] I(3) by (auto simp: sync_owner_def)
  qed simp
  then show ?thesis using inv' i r by (simp add: lost_inv_def)
qed

lemma lost_run: "lost_inv N Index r i c s \<Longrightarrow> sync_run as s = Some s' \<Longrightarrow> sy_pc s' \<in> {M_ACT r, M_TICK r, M_SET r, M_WAIT r}"
proof (induction as arbitrary: s c)
  case Nil
  then show ?case by (simp add: lost_inv_def)
next
  case (Cons a as)
  from Cons.prems(2) obtain s1 where "sync_do a s = Some s1" "sync_run as s1 = Some s'" by (auto simp: bind_eq_Some_conv)
  moreover from this Cons.prems(1) have "\<exists>c'. lost_inv N Index r i c' s1" by (cases a) (auto intro: lost_owner lost_worker)
  ultimately show ?case using Cons.IH by blast
qed


lemma race_disable:
  assumes inv: "sync_inv N Index c s" and pc: "sy_pc s = M_RESET r" and q: "sy_Request s = rD" and w: "cpu_pc (sy_Cpu s i) = W_DISABLE d"
    and run: "sync_do (Owner answer) s = Some s1"
  shows "lost_inv N Index r i (\<lambda>_. 0) s1"
proof -
  let ?ok = "NT_SUCCESS (sy_status s)"
  have ph: "phase_of ?ok (sy_pc s) = (request_before ?ok r, request_before ?ok r, 1)" using pc by simp
  note I = sync_invD [OF inv ph]
  have i: "i \<in> workers N Index" using I(8) w by auto
  have b: "request_before ?ok r = rD" "r = rE \<or> r = rI" using I(9) q by (cases r; simp split: if_splits)+
  have "worker_ok N ?ok rD rD (sy_Cpu s i) (calls_of i s) 1"
    using I(11,13) sync_inv_all_done [OF inv _ ph] i pc b(1) by simp
  then have lost: "worker_lost N ?ok r rD (sy_Cpu s i) (calls_of i s) 0"
    by cases (use w b in \<open>auto intro: worker_lost.lingering\<close>)
  have s1: "s1 = owner_to (M_ACT r) (s\<lparr>sy_CompletionCount := 0\<rparr>)" using run pc I(2) b(2) by (auto simp: sync_owner_def)
  have "sync_inv N Index (\<lambda>_. 0) s1" using owner_reset [OF inv pc] s1 b(2) by auto
  then show ?thesis using lost i b(2) q s1 by (auto simp: lost_inv_def)
qed

text \<open>
  C30. When the owner goes on from disabling the interrupts while a worker is still in the loop that waits for
  everyone to have disabled theirs, that worker is lost, and the owner never gets past its next request.
\<close>
theorem Sync_disable_race_hangs:
  assumes "sync_reachable N Index s" and "sy_pc s = M_RESET r" and "sy_Request s = rD" and "cpu_pc (sy_Cpu s i) = W_DISABLE d"
    and "sync_run (Owner answer # as) s = Some s'"
  shows "sy_pc s' \<in> {M_ACT r, M_TICK r, M_SET r, M_WAIT r}"
proof -
  obtain c where "sync_inv N Index c s" using reachable_cases [OF assms(1)] assms(2) by auto
  moreover obtain s1 where "sync_do (Owner answer) s = Some s1" "sync_run as s1 = Some s'" using assms(5) by (auto simp: bind_eq_Some_conv)
  ultimately show ?thesis using race_disable assms(2-4) lost_run by blast
qed

lemma race_disable_run: "map_option (\<lambda>s. (sy_pc s, sy_Request s, cpu_pc (sy_Cpu s 1), map_option sy_pc (sync_run (ow # replicate 9 wo) s)))
    (two_run (to_disable @ [ow, wo, ow, ow, ow])) = Some (M_RESET rE, rD, W_DISABLE (D_SPIN 0), Some (M_ACT rE))"
  by code_simp

theorem Sync_disable_race_hangs_witness:
  "sy_pc (the (sync_run (ow # replicate 9 wo) (the (two_run (to_disable @ [ow, wo, ow, ow, ow]))))) \<in> {M_ACT rE, M_TICK rE, M_SET rE, M_WAIT rE}"
proof -
  obtain s s' where s: "two_run (to_disable @ [ow, wo, ow, ow, ow]) = Some s" "sy_pc s = M_RESET rE" "sy_Request s = rD"
    "cpu_pc (sy_Cpu s 1) = W_DISABLE (D_SPIN 0)" "sync_run (ow # replicate 9 wo) s = Some s'"
    using race_disable_run by (auto simp del: sync_run.simps)
  show ?thesis using Sync_disable_race_hangs [OF two_run_reachable [OF s(1)] s(2-5)] s(1,5) by (simp del: sync_run.simps)
qed

lemma race_record:
  assumes inv: "sync_inv N Index c s" and pc: "sy_pc s = M_SET r" and r: "r \<noteq> rX" and w: "cpu_pc (sy_Cpu s i) = W_RECORD"
    and run: "sync_do (Owner answer) s = Some s1" "sync_do (Worker i) s1 = Some s2"
  shows "\<exists>c'. lost_inv N Index r i c' s2"
proof -
  let ?ok = "NT_SUCCESS (sy_status s)"
  have ph: "phase_of ?ok (sy_pc s) = (r, request_before ?ok r, if r = rD then 0 else 1)" using pc by simp
  note I = sync_invD [OF inv ph]
  have i: "i \<in> workers N Index" using I(8) w by auto
  have b: "r \<noteq> rN" "request_before ?ok r \<noteq> r" using I(7) pc by (auto elim: request_before.elims split: if_splits)
  have "worker_ok N ?ok r (request_before ?ok r) (sy_Cpu s i) (calls_of i s) (c i)" using I(13) i by blast
  then obtain l f where wi: "sy_Cpu s i = worker W_RECORD l f f" "c i = 0" "r \<in> {rE, rI, rL}"
    by cases (use w b r in auto)
  have s1: "s1 = owner_to (M_WAIT r) (s\<lparr>sy_Request := r\<rparr>)" using run(1) pc wi(3) by (auto simp: sync_owner_def)
  have inv1: "sync_inv N Index c s1" using owner_set [OF inv pc] s1 wi(3) by auto
  have s2: "s2 = put_cpu i (worker W_EXIT_TEST r f f) s1" using run(2) s1 wi(1) by (simp add: SyncWorker_def)
  from sync_inv_worker [OF inv1, of i] run(2) obtain x where x: "sync_inv N Index (c(i := x)) s2" by auto
  have "sy_CompletionCount s2 = 1 + (\<Sum>k \<in> workers N Index. (c(i := x)) k)" "sy_CompletionCount s1 = 1 + (\<Sum>k \<in> workers N Index. c k)"
    using sync_invD(10) [OF x, of r r 1] sync_invD(10) [OF inv1, of r r 1] s1 s2 by simp_all
  then have "x = 0" using sum_update [OF i, of c x] s2 wi(2) by simp
  then have "worker_lost N ?ok r r (worker W_EXIT_TEST r f f) (calls_of i s2) x" using wi(3) by (auto intro: worker_lost.skipped)
  then have "lost_inv N Index r i (c(i := x)) s2" using x i s1 s2 wi(3) by (auto simp: lost_inv_def)
  then show ?thesis by blast
qed

text \<open>
  When a worker has counted a request and the owner publishes the next one, other than the request to
  exit, before the worker has read back the request it carried out, the worker takes the new one for
  carried out, and the owner waits for it for ever.
\<close>
theorem Sync_record_race_hangs:
  assumes "sync_reachable N Index s" and "sy_pc s = M_SET r" and "r \<noteq> rX" and "cpu_pc (sy_Cpu s i) = W_RECORD"
    and "sync_run (Owner answer # Worker i # as) s = Some s'"
  shows "sy_pc s' \<in> {M_ACT r, M_TICK r, M_SET r, M_WAIT r}"
proof -
  obtain c where "sync_inv N Index c s" using reachable_cases [OF assms(1)] assms(2) by auto
  moreover obtain s1 s2 where "sync_do (Owner answer) s = Some s1" "sync_do (Worker i) s1 = Some s2" "sync_run as s2 = Some s'"
    using assms(5) by (auto simp: bind_eq_Some_conv simp del: sync_do.simps)
  ultimately show ?thesis using race_record [OF _ assms(2-4)] lost_run by blast
qed

lemma race_record_run: "map_option (\<lambda>s. (sy_pc s, cpu_pc (sy_Cpu s 1), map_option sy_pc (sync_run (ow # wo # [ow, wo, wo, ow]) s)))
    (two_run (to_disable @ both_disable @ [ow, ow, ow, ow, wo, wo, wo, wo, wo, ow, ow, ow, ow])) = Some (M_SET rI, W_RECORD, Some (M_WAIT rI))"
  by code_simp

theorem Sync_record_race_hangs_witness:
  "sy_pc (the (sync_run (ow # wo # [ow, wo, wo, ow]) (the (two_run (to_disable @ both_disable @ [ow, ow, ow, ow, wo, wo, wo, wo, wo, ow, ow, ow, ow])))))
     \<in> {M_ACT rI, M_TICK rI, M_SET rI, M_WAIT rI}"
proof -
  obtain s s' where s: "two_run (to_disable @ both_disable @ [ow, ow, ow, ow, wo, wo, wo, wo, wo, ow, ow, ow, ow]) = Some s" "sy_pc s = M_SET rI"
    "cpu_pc (sy_Cpu s 1) = W_RECORD" "sync_run (ow # wo # [ow, wo, wo, ow]) s = Some s'"
    using race_record_run by (auto simp del: sync_run.simps)
  show ?thesis using Sync_record_race_hangs [OF two_run_reachable [OF s(1)] s(2) _ s(3,4)] s(1,4) by (simp del: sync_run.simps)
qed

end
