(* ===== verification/Suspend.thy ===== *)
theory Suspend
  imports Sync_Runs
begin

text \<open>
  The suspend interface, src/src/xenbus/suspend.c: clients register callbacks on an early and a late list, and
  \<^verbatim>\<open>SuspendTrigger\<close> corrals the processors, suspends and has each processor run \<^verbatim>\<open>SuspendEarly\<close> and
  \<^verbatim>\<open>SuspendLate\<close> as the callbacks of the protocol of Sync.

  \<^item> A callback handle is the address of its record, a \<^typ>\<open>nat\<close>; the records in memory are a map and the two
    lists hold addresses. Functions and arguments are opaque numbers.
  \<^item> What the callbacks of the processors call outside (\<^verbatim>\<open>SystemProcessorRegisterVcpuInfo\<close>,
    \<^verbatim>\<open>UnplugDevices\<close>, the registered functions) is a trace, in the order of the calls. A registered
    function runs at HIGH\_LEVEL or with everyone corralled: it neither registers nor deregisters.
  \<^item> The debug interface is the answers of its two calls and whether its reference and the callback are held.
\<close>

section \<open>State\<close>

datatype XENBUS_SUSPEND_CALLBACK_TYPE =
    SUSPEND_CALLBACK_TYPE_INVALID
  | SUSPEND_CALLBACK_EARLY
  | SUSPEND_CALLBACK_LATE

record XENBUS_SUSPEND_CALLBACK =
  cb_Function :: nat
  cb_Argument :: nat

datatype suspend_event = RegisterVcpuInfo nat | UnplugDevices | CallFunction nat nat

record XENBUS_SUSPEND_CONTEXT =
  sp_Fdo :: bool
  sp_References :: int
  sp_Count :: int
  sp_EarlyList :: "nat list"
  sp_LateList :: "nat list"
  sp_DebugInterface :: bool
  sp_Debug :: bool
  sp_DebugCallback :: bool
  sp_Callback :: "nat \<rightharpoonup> XENBUS_SUSPEND_CALLBACK"
  sp_Trace :: "suspend_event list"

section \<open>Registering\<close>

text \<open>\<open>block\<close> is the address the allocator gives, if it gives one. On failure the handle of the caller is null.\<close>

definition SuspendRegister :: "nat option \<Rightarrow> XENBUS_SUSPEND_CALLBACK_TYPE \<Rightarrow> nat \<Rightarrow> nat \<Rightarrow> XENBUS_SUSPEND_CONTEXT \<Rightarrow>
    (NTSTATUS \<times> nat option \<times> XENBUS_SUSPEND_CONTEXT) kernel" where
  "SuspendRegister block Type Function Argument ctx =
     (case block of
        None \<Rightarrow> Some (STATUS_NO_MEMORY, None, ctx)
      | Some cb \<Rightarrow>
          let ctx1 = ctx\<lparr>sp_Callback := (sp_Callback ctx)(cb \<mapsto> \<lparr>cb_Function = Function, cb_Argument = Argument\<rparr>)\<rparr> in
          (case Type of
             SUSPEND_CALLBACK_EARLY \<Rightarrow> Some (STATUS_SUCCESS, Some cb, ctx1\<lparr>sp_EarlyList := sp_EarlyList ctx1 @ [cb]\<rparr>)
           | SUSPEND_CALLBACK_LATE \<Rightarrow> Some (STATUS_SUCCESS, Some cb, ctx1\<lparr>sp_LateList := sp_LateList ctx1 @ [cb]\<rparr>)
           | _ \<Rightarrow> BUG))"

text \<open>Unlinking an entry that is on no list corrupts memory: the model stops.\<close>

definition SuspendDeregister :: "nat \<Rightarrow> XENBUS_SUSPEND_CONTEXT \<Rightarrow> XENBUS_SUSPEND_CONTEXT kernel" where
  "SuspendDeregister cb ctx =
     do {
       ASSERT (cb \<in> set (sp_EarlyList ctx) \<or> cb \<in> set (sp_LateList ctx));
       Some (ctx\<lparr>sp_EarlyList := remove1 cb (sp_EarlyList ctx), sp_LateList := remove1 cb (sp_LateList ctx),
         sp_Callback := (sp_Callback ctx)(cb := None)\<rparr>)
     }"

section \<open>The callbacks of the processors\<close>

definition sp_note :: "suspend_event \<Rightarrow> XENBUS_SUSPEND_CONTEXT \<Rightarrow> XENBUS_SUSPEND_CONTEXT" where
  "sp_note e ctx = ctx\<lparr>sp_Trace := sp_Trace ctx @ [e]\<rparr>"

text \<open>The walk over a list; a callback that is not in memory is a read of freed memory.\<close>

fun call_functions :: "nat list \<Rightarrow> XENBUS_SUSPEND_CONTEXT \<Rightarrow> XENBUS_SUSPEND_CONTEXT kernel" where
  "call_functions [] ctx = Some ctx"
| "call_functions (cb # cbs) ctx =
     do { c \<leftarrow> sp_Callback ctx cb; call_functions cbs (sp_note (CallFunction (cb_Function c) (cb_Argument c)) ctx) }"

text \<open>
  \<^verbatim>\<open>SuspendEarly\<close> runs on all the processors at once, so it is a machine of small steps: where a processor is
  in the body, and one step of it. The increment of the count has no lock and no interlocked operation: it is a
  read and a write of a shared word, with other processors' steps between them.
\<close>

datatype early_pc = E_READ | E_WRITE int | E_REGISTER | E_UNPLUG | E_CALL "nat list" | E_DONE

fun SuspendEarly :: "nat \<Rightarrow> early_pc \<Rightarrow> XENBUS_SUSPEND_CONTEXT \<Rightarrow> (early_pc \<times> XENBUS_SUSPEND_CONTEXT) kernel" where
  "SuspendEarly Cpu E_READ ctx = Some (E_WRITE (sp_Count ctx), ctx)"
| "SuspendEarly Cpu (E_WRITE count) ctx = Some (E_REGISTER, ctx\<lparr>sp_Count := u32 (count + 1)\<rparr>)"
| "SuspendEarly Cpu E_REGISTER ctx = Some (if Cpu \<noteq> 0 then E_DONE else E_UNPLUG, sp_note (RegisterVcpuInfo Cpu) ctx)"
| "SuspendEarly Cpu E_UNPLUG ctx = Some (E_CALL (sp_EarlyList ctx), sp_note UnplugDevices ctx)"
| "SuspendEarly Cpu (E_CALL []) ctx = Some (E_DONE, ctx)"
| "SuspendEarly Cpu (E_CALL (cb # cbs)) ctx =
     do { c \<leftarrow> sp_Callback ctx cb; Some (E_CALL cbs, sp_note (CallFunction (cb_Function c) (cb_Argument c)) ctx) }"
| "SuspendEarly Cpu E_DONE ctx = Some (E_DONE, ctx)"

text \<open>On the late request only the first processor does anything: the steps of the others do not matter.\<close>

definition SuspendLate :: "nat \<Rightarrow> XENBUS_SUSPEND_CONTEXT \<Rightarrow> XENBUS_SUSPEND_CONTEXT kernel" where
  "SuspendLate Cpu ctx = (if Cpu \<noteq> 0 then Some ctx else call_functions (sp_LateList ctx) ctx)"

text \<open>
  What \<^verbatim>\<open>SuspendTrigger\<close> has the processors do, from the log of the protocol. Each processor with an early
  entry runs \<^verbatim>\<open>SuspendEarly\<close>; \<open>sched\<close> says whose step is the next one, in any order. The late entries follow,
  since the protocol has no late call begin before every early call has returned (Sync\_Runs).
\<close>

definition early_start :: "(SYNC_REQUEST \<times> nat \<times> bool) list \<Rightarrow> nat \<Rightarrow> early_pc" where
  "early_start calls = (\<lambda>i. if list_ex (\<lambda>(r, j, d). r = SYNC_REQUEST_RUN_EARLY \<and> j = i) calls then E_READ else E_DONE)"

fun early_run :: "nat list \<Rightarrow> (nat \<Rightarrow> early_pc) \<Rightarrow> XENBUS_SUSPEND_CONTEXT \<Rightarrow> ((nat \<Rightarrow> early_pc) \<times> XENBUS_SUSPEND_CONTEXT) kernel" where
  "early_run [] pcs ctx = Some (pcs, ctx)"
| "early_run (i # sched) pcs ctx = do { (pc, ctx1) \<leftarrow> SuspendEarly i (pcs i) ctx; early_run sched (pcs(i := pc)) ctx1 }"

fun late_calls :: "(SYNC_REQUEST \<times> nat \<times> bool) list \<Rightarrow> XENBUS_SUSPEND_CONTEXT \<Rightarrow> XENBUS_SUSPEND_CONTEXT kernel" where
  "late_calls [] ctx = Some ctx"
| "late_calls ((r, i, d) # calls) ctx =
     do { ctx1 \<leftarrow> (if r = SYNC_REQUEST_RUN_LATE then SuspendLate i ctx else Some ctx); late_calls calls ctx1 }"

definition SuspendGetCount :: "XENBUS_SUSPEND_CONTEXT \<Rightarrow> int" where
  "SuspendGetCount ctx = sp_Count ctx"

section \<open>The debug callback\<close>

text \<open>What it prints; \<open>lookup\<close> is \<^verbatim>\<open>ModuleLookup\<close>, the name of the module of an address and the offset in it.\<close>

datatype suspend_line = CountLine int | CallbackLine string "(string \<times> nat) option" nat nat

fun callback_lines :: "string \<Rightarrow> (nat \<Rightarrow> (string \<times> nat) option) \<Rightarrow> XENBUS_SUSPEND_CONTEXT \<Rightarrow> nat list \<Rightarrow> suspend_line list kernel" where
  "callback_lines Prefix lookup ctx [] = Some []"
| "callback_lines Prefix lookup ctx (cb # cbs) =
     do {
       c \<leftarrow> sp_Callback ctx cb;
       lines \<leftarrow> callback_lines Prefix lookup ctx cbs;
       Some (CallbackLine Prefix (lookup (cb_Function c)) (cb_Function c) (cb_Argument c) # lines)
     }"

definition SuspendDebugCallback :: "(nat \<Rightarrow> (string \<times> nat) option) \<Rightarrow> XENBUS_SUSPEND_CONTEXT \<Rightarrow> suspend_line list kernel" where
  "SuspendDebugCallback lookup ctx =
     do {
       early \<leftarrow> callback_lines ''EARLY'' lookup ctx (sp_EarlyList ctx);
       late \<leftarrow> callback_lines ''LATE'' lookup ctx (sp_LateList ctx);
       Some (CountLine (sp_Count ctx) # early @ late)
     }"

section \<open>References\<close>

definition suspend_fail1 :: "NTSTATUS \<Rightarrow> XENBUS_SUSPEND_CONTEXT \<Rightarrow> (NTSTATUS \<times> XENBUS_SUSPEND_CONTEXT) kernel" where
  "suspend_fail1 status ctx =
     do {
       let ctx1 = ctx\<lparr>sp_References := sp_References ctx - 1\<rparr>;
       ASSERT (sp_References ctx1 = 0);
       Some (status, ctx1)
     }"

definition SuspendAcquire :: "NTSTATUS \<Rightarrow> NTSTATUS \<Rightarrow> XENBUS_SUSPEND_CONTEXT \<Rightarrow> (NTSTATUS \<times> XENBUS_SUSPEND_CONTEXT) kernel" where
  "SuspendAcquire debug_acquire debug_register ctx =
     (let ctx0 = ctx\<lparr>sp_References := sp_References ctx + 1\<rparr> in
      if sp_References ctx \<noteq> 0 then Some (STATUS_SUCCESS, ctx0)
      else if \<not> NT_SUCCESS debug_acquire then suspend_fail1 debug_acquire ctx0
      else let ctx1 = ctx0\<lparr>sp_Debug := True\<rparr> in
      if \<not> NT_SUCCESS debug_register then suspend_fail1 debug_register (ctx1\<lparr>sp_Debug := False\<rparr>)
      else Some (STATUS_SUCCESS, ctx1\<lparr>sp_DebugCallback := True\<rparr>))"

definition SuspendRelease :: "XENBUS_SUSPEND_CONTEXT \<Rightarrow> XENBUS_SUSPEND_CONTEXT kernel" where
  "SuspendRelease ctx =
     (let ctx0 = ctx\<lparr>sp_References := sp_References ctx - 1\<rparr> in
      if 0 < sp_References ctx0 then Some ctx0
      else if sp_LateList ctx0 \<noteq> [] \<or> sp_EarlyList ctx0 \<noteq> [] then BUG
      else Some (ctx0\<lparr>sp_Count := 0, sp_DebugCallback := False, sp_Debug := False\<rparr>))"

text \<open>\<^verbatim>\<open>SuspendInitialize\<close> and \<^verbatim>\<open>SuspendTeardown\<close>; \<^verbatim>\<open>DebugGetInterface\<close> does not fail for its newest version.\<close>

definition SuspendInitialize :: "bool \<Rightarrow> NTSTATUS \<Rightarrow> (NTSTATUS \<times> XENBUS_SUSPEND_CONTEXT option) kernel" where
  "SuspendInitialize mem debug =
     (if \<not> mem then Some (STATUS_NO_MEMORY, None)
      else do {
        ASSERT (NT_SUCCESS debug);
        Some (STATUS_SUCCESS, Some \<lparr>sp_Fdo = True, sp_References = 0, sp_Count = 0, sp_EarlyList = [], sp_LateList = [],
          sp_DebugInterface = True, sp_Debug = False, sp_DebugCallback = False, sp_Callback = Map.empty, sp_Trace = []\<rparr>)
      })"

definition SuspendGetReferences :: "XENBUS_SUSPEND_CONTEXT \<Rightarrow> int" where
  "SuspendGetReferences ctx = sp_References ctx"

text \<open>Everything but the references, the count and the debug callback has been zeroed before the assertion.\<close>

definition SuspendTeardown :: "XENBUS_SUSPEND_CONTEXT \<Rightarrow> unit kernel" where
  "SuspendTeardown ctx = ASSERT (sp_References ctx = 0 \<and> sp_Count ctx = 0 \<and> \<not> sp_DebugCallback ctx)"

text \<open>Whether an interface is handed out, by its version; \<open>Size\<close> and \<open>size1\<close> are the space there is and the space it takes.\<close>

definition SuspendGetInterface :: "nat \<Rightarrow> nat \<Rightarrow> nat \<Rightarrow> NTSTATUS" where
  "SuspendGetInterface size1 Version Size =
     (if Version = 1 then if Size < size1 then STATUS_BUFFER_OVERFLOW else STATUS_SUCCESS else STATUS_NOT_SUPPORTED)"


section \<open>A whole suspend\<close>

text \<open>The lists hold the callbacks there are, each once.\<close>

definition suspend_wf :: "XENBUS_SUSPEND_CONTEXT \<Rightarrow> bool" where
  "suspend_wf ctx \<longleftrightarrow> distinct (sp_EarlyList ctx @ sp_LateList ctx) \<and> set (sp_EarlyList ctx @ sp_LateList ctx) = dom (sp_Callback ctx)"

text \<open>The events of the trace that only the first processor makes, and those of the registration of processors.\<close>

definition is_main :: "suspend_event \<Rightarrow> bool" where
  "is_main e \<longleftrightarrow> (case e of RegisterVcpuInfo i \<Rightarrow> False | _ \<Rightarrow> True)"

definition call_of :: "XENBUS_SUSPEND_CONTEXT \<Rightarrow> nat \<Rightarrow> suspend_event" where
  "call_of ctx cb = CallFunction (cb_Function (the (sp_Callback ctx cb))) (cb_Argument (the (sp_Callback ctx cb)))"

definition main_events :: "XENBUS_SUSPEND_CONTEXT \<Rightarrow> suspend_event list" where
  "main_events ctx = filter is_main (sp_Trace ctx)"

definition registrations :: "XENBUS_SUSPEND_CONTEXT \<Rightarrow> nat \<Rightarrow> nat" where
  "registrations ctx i = count_list (sp_Trace ctx) (RegisterVcpuInfo i)"

definition same_callbacks :: "XENBUS_SUSPEND_CONTEXT \<Rightarrow> XENBUS_SUSPEND_CONTEXT \<Rightarrow> bool" where
  "same_callbacks ctx ctx' \<longleftrightarrow> sp_EarlyList ctx' = sp_EarlyList ctx \<and> sp_LateList ctx' = sp_LateList ctx \<and> sp_Callback ctx' = sp_Callback ctx"

lemma sp_note_simps [simp]:
  "sp_EarlyList (sp_note e ctx) = sp_EarlyList ctx"
  "sp_LateList (sp_note e ctx) = sp_LateList ctx"
  "sp_Callback (sp_note e ctx) = sp_Callback ctx"
  "sp_Count (sp_note e ctx) = sp_Count ctx"
  "call_of (sp_note e ctx) = call_of ctx"
  "main_events (sp_note e ctx) = main_events ctx @ (if is_main e then [e] else [])"
  "registrations (sp_note e ctx) i = registrations ctx i + (if e = RegisterVcpuInfo i then 1 else 0)"
  by (simp_all add: sp_note_def call_of_def main_events_def registrations_def fun_eq_iff)

lemma count_simps [simp]:
  "call_of (ctx\<lparr>sp_Count := n\<rparr>) = call_of ctx" "main_events (ctx\<lparr>sp_Count := n\<rparr>) = main_events ctx"
  "registrations (ctx\<lparr>sp_Count := n\<rparr>) = registrations ctx"
  by (simp_all add: call_of_def main_events_def registrations_def fun_eq_iff)

lemma is_main_simps [simp]: "is_main (CallFunction f a)" "\<not> is_main (RegisterVcpuInfo i)" "is_main UnplugDevices" "is_main (call_of ctx cb)"
    "call_of ctx cb \<noteq> RegisterVcpuInfo i"
  by (simp_all add: is_main_def call_of_def)

lemma call_functions_law:
  "set cbs \<subseteq> dom (sp_Callback ctx) \<Longrightarrow> \<exists>ctx'. call_functions cbs ctx = Some ctx' \<and>
     main_events ctx' = main_events ctx @ map (call_of ctx) cbs \<and> registrations ctx' = registrations ctx \<and> sp_Count ctx' = sp_Count ctx"
proof (induction cbs arbitrary: ctx)
  case Nil
  then show ?case by simp
next
  case (Cons cb cbs)
  then obtain c where c: "sp_Callback ctx cb = Some c" by auto
  then have "CallFunction (cb_Function c) (cb_Argument c) = call_of ctx cb" by (simp add: call_of_def)
  with Cons.IH [of "sp_note (call_of ctx cb) ctx"] Cons.prems c show ?case by (simp add: fun_eq_iff)
qed

text \<open>
  The invariant of the early calls in three parts: how far the first processor is in its events, who has
  registered, and between which bounds the count and the values read of it are.
\<close>

fun early_made :: "XENBUS_SUSPEND_CONTEXT \<Rightarrow> early_pc \<Rightarrow> suspend_event list \<Rightarrow> bool" where
  "early_made ctx (E_CALL cbs) es \<longleftrightarrow> (\<exists>pre. sp_EarlyList ctx = pre @ cbs \<and> es = UnplugDevices # map (call_of ctx) pre)"
| "early_made ctx E_DONE es \<longleftrightarrow> es = UnplugDevices # map (call_of ctx) (sp_EarlyList ctx)"
| "early_made ctx _ es \<longleftrightarrow> es = []"

definition main_pc :: "early_pc \<Rightarrow> bool" where
  "main_pc pc \<longleftrightarrow> (case pc of E_UNPLUG \<Rightarrow> True | E_CALL cbs \<Rightarrow> True | _ \<Rightarrow> False)"

definition counted :: "early_pc \<Rightarrow> bool" where
  "counted pc \<longleftrightarrow> (case pc of E_READ \<Rightarrow> False | E_WRITE c \<Rightarrow> False | _ \<Rightarrow> True)"

definition registered :: "early_pc \<Rightarrow> bool" where
  "registered pc \<longleftrightarrow> counted pc \<and> pc \<noteq> E_REGISTER"

definition read_within :: "int \<Rightarrow> int \<Rightarrow> early_pc \<Rightarrow> bool" where
  "read_within lo hi pc \<longleftrightarrow> (case pc of E_WRITE c \<Rightarrow> lo \<le> c \<and> c \<le> hi | _ \<Rightarrow> True)"

definition counted_cpus :: "nat \<Rightarrow> (nat \<Rightarrow> early_pc) \<Rightarrow> nat set" where
  "counted_cpus N pcs = {i. i < N \<and> counted (pcs i)}"

definition early_main :: "XENBUS_SUSPEND_CONTEXT \<Rightarrow> (nat \<Rightarrow> early_pc) \<Rightarrow> XENBUS_SUSPEND_CONTEXT \<Rightarrow> bool" where
  "early_main ctx0 pcs ctx \<longleftrightarrow> same_callbacks ctx0 ctx \<and> (\<exists>es. main_events ctx = main_events ctx0 @ es \<and> early_made ctx0 (pcs 0) es) \<and>
     (\<forall>i. i \<noteq> 0 \<longrightarrow> \<not> main_pc (pcs i))"

definition early_registered :: "nat \<Rightarrow> XENBUS_SUSPEND_CONTEXT \<Rightarrow> (nat \<Rightarrow> early_pc) \<Rightarrow> XENBUS_SUSPEND_CONTEXT \<Rightarrow> bool" where
  "early_registered N ctx0 pcs ctx \<longleftrightarrow> (\<forall>i. \<not> i < N \<longrightarrow> pcs i = E_DONE) \<and>
     (\<forall>i. i < N \<longrightarrow> registrations ctx i = registrations ctx0 i + (if registered (pcs i) then 1 else 0))"

definition early_count :: "nat \<Rightarrow> XENBUS_SUSPEND_CONTEXT \<Rightarrow> (nat \<Rightarrow> early_pc) \<Rightarrow> XENBUS_SUSPEND_CONTEXT \<Rightarrow> bool" where
  "early_count N ctx0 pcs ctx \<longleftrightarrow> (let lo = sp_Count ctx0; hi = sp_Count ctx0 + int (card (counted_cpus N pcs)) in
     (\<forall>i. \<not> i < N \<longrightarrow> pcs i = E_DONE) \<and> (\<forall>i. read_within lo hi (pcs i)) \<and>
     lo + (if counted_cpus N pcs = {} then 0 else 1) \<le> sp_Count ctx \<and> sp_Count ctx \<le> hi)"

definition early_inv :: "nat \<Rightarrow> XENBUS_SUSPEND_CONTEXT \<Rightarrow> (nat \<Rightarrow> early_pc) \<Rightarrow> XENBUS_SUSPEND_CONTEXT \<Rightarrow> bool" where
  "early_inv N ctx0 pcs ctx \<longleftrightarrow> early_main ctx0 pcs ctx \<and> early_registered N ctx0 pcs ctx \<and> early_count N ctx0 pcs ctx"

lemma call_functions_same: "call_functions cbs ctx = Some ctx' \<Longrightarrow> same_callbacks ctx ctx'"
proof (induction cbs arbitrary: ctx)
  case (Cons cb cbs)
  then obtain c where c: "sp_Callback ctx cb = Some c" by (cases "sp_Callback ctx cb") auto
  then have "call_functions cbs (sp_note (CallFunction (cb_Function c) (cb_Argument c)) ctx) = Some ctx'" using Cons.prems by simp
  from Cons.IH [OF this] show ?case by (simp add: same_callbacks_def)
qed (simp add: same_callbacks_def)

lemma early_main_step:
  assumes "early_main ctx0 pcs ctx" and "suspend_wf ctx0"
  shows "\<exists>pc ctx1. SuspendEarly i (pcs i) ctx = Some (pc, ctx1) \<and> early_main ctx0 (pcs(i := pc)) ctx1"
proof -
  from assms(1) obtain es where same: "same_callbacks ctx0 ctx" and es: "main_events ctx = main_events ctx0 @ es" "early_made ctx0 (pcs 0) es"
    and others: "\<forall>i. i \<noteq> 0 \<longrightarrow> \<not> main_pc (pcs i)" by (auto simp: early_main_def)
  have eqs: "sp_EarlyList ctx = sp_EarlyList ctx0" "sp_Callback ctx = sp_Callback ctx0"
    using same by (auto simp: same_callbacks_def)
  show ?thesis
  proof (cases "i = 0")
    case False
    with others have "\<not> main_pc (pcs i)" by simp
    then show ?thesis using same es others False
      by (cases "pcs i") (auto simp: early_main_def same_callbacks_def main_pc_def)
  next
    case True
    show ?thesis
    proof (cases "\<exists>cb rest. pcs 0 = E_CALL (cb # rest)")
      case False
      then have "pcs 0 = E_READ \<or> (\<exists>c. pcs 0 = E_WRITE c) \<or> pcs 0 = E_REGISTER \<or> pcs 0 = E_UNPLUG \<or> pcs 0 = E_CALL [] \<or> pcs 0 = E_DONE"
        by (metis early_pc.exhaust list.exhaust)
      then show ?thesis using True same es others eqs
        by (elim disjE exE) (auto simp: early_main_def same_callbacks_def)
    next
      case call: True
      then obtain cb rest where pc: "pcs 0 = E_CALL (cb # rest)" by blast
      with es obtain pre where pre: "sp_EarlyList ctx0 = pre @ cb # rest" "es = UnplugDevices # map (call_of ctx0) pre" by auto
      then have "cb \<in> dom (sp_Callback ctx)" using assms(2) eqs(2) by (auto simp: suspend_wf_def)
      then obtain d where d: "sp_Callback ctx cb = Some d" by auto
      then have c: "CallFunction (cb_Function d) (cb_Argument d) = call_of ctx0 cb" using eqs(2) by (simp add: call_of_def)
      have "early_made ctx0 (E_CALL rest) (UnplugDevices # map (call_of ctx0) (pre @ [cb]))" using pre(1) by simp
      then show ?thesis using True same es(1) others pc pre(2) d c by (auto simp: early_main_def same_callbacks_def)
    qed
  qed
qed

text \<open>What a step does to the part of the state that the other two parts of the invariant are about.\<close>

lemma SuspendEarly_cases:
  assumes "SuspendEarly i pc ctx = Some (pc1, ctx1)"
  shows "(pc = E_READ \<and> pc1 = E_WRITE (sp_Count ctx) \<and> ctx1 = ctx) \<or>
    (\<exists>c. pc = E_WRITE c \<and> pc1 = E_REGISTER \<and> ctx1 = ctx\<lparr>sp_Count := u32 (c + 1)\<rparr>) \<or>
    (pc = E_REGISTER \<and> registered pc1 \<and> (\<forall>lo hi. read_within lo hi pc1) \<and> ctx1 = sp_note (RegisterVcpuInfo i) ctx) \<or>
    (registered pc \<and> registered pc1 \<and> (\<forall>lo hi. read_within lo hi pc1) \<and> sp_Count ctx1 = sp_Count ctx \<and> registrations ctx1 = registrations ctx)"
proof (cases pc)
  case (E_CALL cbs)
  then show ?thesis using assms
    by (cases cbs) (auto simp: bind_eq_Some_conv registered_def counted_def read_within_def fun_eq_iff)
qed (use assms in \<open>auto simp: registered_def counted_def read_within_def split: if_splits\<close>)

lemma registered_counted: "registered pc \<Longrightarrow> counted pc"
  by (simp add: registered_def)

lemma counted_simps [simp]: "\<not> counted E_READ" "\<not> counted (E_WRITE c)" "counted E_REGISTER" "counted E_DONE"
  "\<not> registered E_READ" "\<not> registered (E_WRITE c)" "\<not> registered E_REGISTER" "registered E_DONE"
  by (simp_all add: counted_def registered_def)

lemma early_registered_step:
  assumes inv: "early_registered N ctx0 pcs ctx" and step: "SuspendEarly i (pcs i) ctx = Some (pc, ctx1)"
  shows "early_registered N ctx0 (pcs(i := pc)) ctx1"
  using SuspendEarly_cases [OF step]
proof (elim disjE exE conjE)
  assume "registered (pcs i)" "registered pc" "registrations ctx1 = registrations ctx"
  then show ?thesis using inv step by (cases "pcs i = E_DONE") (auto simp: early_registered_def)
qed (use inv in \<open>auto simp: early_registered_def\<close>)

lemma counted_cpus_keep: "counted pc = counted (pcs i) \<Longrightarrow> counted_cpus N (pcs(i := pc)) = counted_cpus N pcs"
  by (auto simp: counted_cpus_def)

lemma read_within_mono: "read_within lo hi pc \<Longrightarrow> hi \<le> hi' \<Longrightarrow> read_within lo hi' pc"
  by (auto simp: read_within_def split: early_pc.splits)

lemma read_within_simps [simp]: "read_within lo hi (E_WRITE c) \<longleftrightarrow> lo \<le> c \<and> c \<le> hi" "read_within lo hi E_READ" "read_within lo hi E_REGISTER"
    "read_within lo hi E_DONE"
  by (simp_all add: read_within_def)

lemma early_count_write:
  assumes inv: "early_count N ctx0 pcs ctx" and pc: "pcs i = E_WRITE c"
    and bound: "0 \<le> sp_Count ctx0" "sp_Count ctx0 + int N < 2 ^ 32"
  shows "early_count N ctx0 (pcs(i := E_REGISTER)) (ctx\<lparr>sp_Count := u32 (c + 1)\<rparr>)"
proof -
  have i: "i < N" using inv pc by (cases "i < N") (auto simp: early_count_def Let_def)
  have W: "counted_cpus N (pcs(i := E_REGISTER)) = insert i (counted_cpus N pcs)" "i \<notin> counted_cpus N pcs"
    using pc i by (auto simp: counted_cpus_def)
  have fin: "finite (counted_cpus N pcs)" by (simp add: counted_cpus_def)
  have card: "card (counted_cpus N (pcs(i := E_REGISTER))) = Suc (card (counted_cpus N pcs))" using W fin by simp
  have "card (insert i (counted_cpus N pcs)) \<le> card {..<N}" by (rule card_mono) (use i in \<open>auto simp: counted_cpus_def\<close>)
  then have small: "int (card (counted_cpus N pcs)) + 1 \<le> int N" using W(2) fin by simp
  have all: "\<forall>j. read_within (sp_Count ctx0) (sp_Count ctx0 + int (card (counted_cpus N pcs))) (pcs j)"
    using inv by (simp add: early_count_def Let_def)
  have c: "sp_Count ctx0 \<le> c" "c \<le> sp_Count ctx0 + int (card (counted_cpus N pcs))" using all [rule_format, of i] pc by simp_all
  then have u: "u32 (c + 1) = c + 1" using small bound by (simp add: u32_def)
  have "\<forall>j. read_within (sp_Count ctx0) (sp_Count ctx0 + int (Suc (card (counted_cpus N pcs)))) ((pcs(i := E_REGISTER)) j)"
    using all by (auto intro: read_within_mono)
  then show ?thesis using inv c u i unfolding early_count_def Let_def card by (auto simp: W)
qed

lemma early_count_step:
  assumes inv: "early_count N ctx0 pcs ctx" and step: "SuspendEarly i (pcs i) ctx = Some (pc, ctx1)"
    and bound: "0 \<le> sp_Count ctx0" "sp_Count ctx0 + int N < 2 ^ 32"
  shows "early_count N ctx0 (pcs(i := pc)) ctx1"
  using SuspendEarly_cases [OF step]
proof (elim disjE exE conjE)
  assume "pcs i = E_READ" "pc = E_WRITE (sp_Count ctx)" "ctx1 = ctx"
  then show ?thesis using inv counted_cpus_keep [of pc pcs i N] by (auto simp: early_count_def Let_def split: if_split_asm)
next
  fix c
  assume "pcs i = E_WRITE c" "pc = E_REGISTER" "ctx1 = ctx\<lparr>sp_Count := u32 (c + 1)\<rparr>"
  then show ?thesis using early_count_write [OF inv _ bound, of i c] by simp
next
  assume "pcs i = E_REGISTER" "registered pc" "\<forall>lo hi. read_within lo hi pc" "ctx1 = sp_note (RegisterVcpuInfo i) ctx"
  then show ?thesis using inv counted_cpus_keep [of pc pcs i N] by (auto simp: early_count_def Let_def registered_counted)
next
  assume "registered (pcs i)" "registered pc" "\<forall>lo hi. read_within lo hi pc" "sp_Count ctx1 = sp_Count ctx"
  then show ?thesis using inv counted_cpus_keep [of pc pcs i N] step
    by (cases "pcs i = E_DONE") (auto simp: early_count_def Let_def registered_counted)
qed

lemma early_run_inv:
  assumes "suspend_wf ctx0" and "0 \<le> sp_Count ctx0" and "sp_Count ctx0 + int N < 2 ^ 32"
  shows "early_inv N ctx0 pcs ctx \<Longrightarrow> \<exists>pcs' ctx'. early_run sched pcs ctx = Some (pcs', ctx') \<and> early_inv N ctx0 pcs' ctx'"
proof (induction sched arbitrary: pcs ctx)
  case Nil
  then show ?case by simp
next
  case (Cons i sched)
  have parts: "early_main ctx0 pcs ctx" "early_registered N ctx0 pcs ctx" "early_count N ctx0 pcs ctx"
    using Cons.prems by (simp_all add: early_inv_def)
  obtain pc ctx1 where step: "SuspendEarly i (pcs i) ctx = Some (pc, ctx1)" "early_main ctx0 (pcs(i := pc)) ctx1"
    using early_main_step [OF parts(1) assms(1)] by blast
  have "early_inv N ctx0 (pcs(i := pc)) ctx1"
    using step early_registered_step [OF parts(2) step(1)] early_count_step [OF parts(3) step(1) assms(2,3)] by (simp add: early_inv_def)
  from Cons.IH [OF this] step(1) show ?case by (auto simp del: fun_upd_apply)
qed

text \<open>Once all have returned, and then the late calls.\<close>

lemma early_inv_done:
  assumes "early_inv N ctx0 pcs ctx" and "\<forall>i < N. pcs i = E_DONE" and "0 < N"
  shows "same_callbacks ctx0 ctx \<and> main_events ctx = main_events ctx0 @ UnplugDevices # map (call_of ctx0) (sp_EarlyList ctx0) \<and>
    (\<forall>i < N. registrations ctx i = registrations ctx0 i + 1) \<and> sp_Count ctx0 + 1 \<le> sp_Count ctx \<and> sp_Count ctx \<le> sp_Count ctx0 + int N"
proof -
  have W: "counted_cpus N pcs = {..<N}" using assms(2) by (auto simp: counted_cpus_def)
  have "pcs 0 = E_DONE" "{..<N} \<noteq> {}" using assms(2,3) by auto
  then show ?thesis using assms by (simp add: early_inv_def early_main_def early_registered_def early_count_def Let_def W)
qed

definition late_made :: "XENBUS_SUSPEND_CONTEXT \<Rightarrow> SYNC_REQUEST \<times> nat \<times> bool \<Rightarrow> suspend_event list" where
  "late_made ctx = (\<lambda>(r, i, d). if r = rL \<and> i = 0 then map (call_of ctx) (sp_LateList ctx) else [])"

lemma late_calls_law:
  "set (sp_LateList ctx) \<subseteq> dom (sp_Callback ctx) \<Longrightarrow> \<exists>ctx'. late_calls calls ctx = Some ctx' \<and>
     main_events ctx' = main_events ctx @ concat (map (late_made ctx) calls) \<and> registrations ctx' = registrations ctx \<and>
     sp_Count ctx' = sp_Count ctx"
proof (induction calls arbitrary: ctx)
  case Nil
  then show ?case by simp
next
  case (Cons x calls)
  obtain r i d where x: "x = (r, i, d)" by (cases x)
  obtain ctx1 where c1: "(if r = rL then SuspendLate i ctx else Some ctx) = Some ctx1" "same_callbacks ctx ctx1"
    "main_events ctx1 = main_events ctx @ late_made ctx x" "registrations ctx1 = registrations ctx" "sp_Count ctx1 = sp_Count ctx"
    using call_functions_law [OF Cons.prems] call_functions_same [of "sp_LateList ctx" ctx] x
    by (cases "r = rL \<and> i = 0") (auto simp: SuspendLate_def late_made_def same_callbacks_def)
  have "late_made ctx1 = late_made ctx" "set (sp_LateList ctx1) \<subseteq> dom (sp_Callback ctx1)"
    using c1(2) Cons.prems by (auto simp: late_made_def same_callbacks_def call_of_def fun_eq_iff)
  with Cons.IH [of ctx1] c1 x show ?case by auto
qed

lemma reachable_index: "sync_reachable N Index s \<Longrightarrow> Index < N"
  by (induction rule: sync_reachable.induct)

text \<open>The early calls begin on every processor, and the late ones of the first processor are one.\<close>

lemma finished_early_start:
  assumes "sync_reachable N Index s" and "sy_pc s = M_DONE" and "NT_SUCCESS (sy_status s)"
  shows "early_start (sy_Calls s) i = (if i < N then E_READ else E_DONE)"
proof (cases "i < N")
  case True
  from ends_law [OF assms(1,2) this] assms(3) have "length (filter (\<lambda>(r, i, d). r = rE) (filter (\<lambda>(r, j, d). j = i) (sy_Calls s))) = 1"
    by simp
  then have "list_ex (\<lambda>(r, j, d). r = rE \<and> j = i) (sy_Calls s)"
    by (auto simp: length_Suc_conv filter_eq_Cons_iff list_ex_iff intro: bexI)
  then show ?thesis using True by (simp add: early_start_def)
next
  case False
  then have "\<not> list_ex (\<lambda>(r, j, d). r = rE \<and> j = i) (sy_Calls s)" using reachable_callers [OF assms(1)] by (auto simp: list_ex_iff)
  then show ?thesis using False by (simp add: early_start_def)
qed

lemma concat_if: "concat (map (\<lambda>x. if P x then f x else []) xs) = concat (map f (filter P xs))"
  by (induction xs) auto

lemma finished_late:
  assumes "sync_reachable N Index s" and "sy_pc s = M_DONE" and "NT_SUCCESS (sy_status s)"
  shows "concat (map (late_made ctx) (sy_Calls s)) = map (call_of ctx) (sp_LateList ctx)"
proof -
  let ?P = "\<lambda>(r, i, d). r = rL \<and> i = (0 :: nat)"
  have "0 < N" using reachable_index [OF assms(1)] by simp
  from ends_law [OF assms(1,2) this] assms(3) have calls: "filter (\<lambda>(r, j, d). j = 0) (sy_Calls s) = [(rE, 0, True), (rL, 0, False)]" by simp
  have "filter ?P (sy_Calls s) = filter (\<lambda>(r, j, d). r = rL) (filter (\<lambda>(r, j, d). j = 0) (sy_Calls s))"
    by (simp add: case_prod_unfold conj_commute)
  then have one: "filter ?P (sy_Calls s) = [(rL, 0, False)]" by (simp add: calls)
  have "late_made ctx = (\<lambda>x. if ?P x then map (call_of ctx) (sp_LateList ctx) else [])" by (auto simp: late_made_def)
  then show ?thesis using concat_if [of ?P "\<lambda>x. map (call_of ctx) (sp_LateList ctx)" "sy_Calls s"] one by simp
qed

text \<open>
  C13. A suspend that has ended and succeeded, with the steps of the processors' early calls in any order: no
  step reads freed memory; once the early calls have all returned, the devices have been unplugged once, then
  every early callback called once, in the order of the registration, then every late callback once in theirs,
  and every processor's information has been registered once. The count has grown by at least one, but not by a
  fixed number: the increments have no lock, and between one and all of the processors' are kept.
\<close>
theorem SuspendTrigger_calls_each_once:
  assumes "sync_reachable N Index s" and "sy_pc s = M_DONE" and "NT_SUCCESS (sy_status s)" and "suspend_wf ctx"
    and "0 \<le> sp_Count ctx" and "sp_Count ctx + int N < 2 ^ 32"
  shows "\<exists>pcs ctx1 ctx2. early_run sched (early_start (sy_Calls s)) ctx = Some (pcs, ctx1) \<and> late_calls (sy_Calls s) ctx1 = Some ctx2 \<and>
     ((\<forall>i < N. pcs i = E_DONE) \<longrightarrow>
       main_events ctx2 = main_events ctx @ UnplugDevices # map (call_of ctx) (sp_EarlyList ctx) @ map (call_of ctx) (sp_LateList ctx) \<and>
       (\<forall>i < N. registrations ctx2 i = registrations ctx i + 1) \<and>
       SuspendGetCount ctx + 1 \<le> SuspendGetCount ctx2 \<and> SuspendGetCount ctx2 \<le> SuspendGetCount ctx + int N)"
proof -
  have N: "0 < N" using reachable_index [OF assms(1)] by simp
  have start: "early_start (sy_Calls s) = (\<lambda>i. if i < N then E_READ else E_DONE)" using finished_early_start [OF assms(1-3)] by auto
  have "early_inv N ctx (early_start (sy_Calls s)) ctx" using N
    by (auto simp: start early_inv_def early_main_def early_registered_def early_count_def counted_cpus_def same_callbacks_def main_pc_def)
  from early_run_inv [OF assms(4-6) this] obtain pcs ctx1 where run: "early_run sched (early_start (sy_Calls s)) ctx = Some (pcs, ctx1)"
    and inv: "early_inv N ctx pcs ctx1" by blast
  have same: "same_callbacks ctx ctx1" using inv by (simp add: early_inv_def early_main_def)
  then have "set (sp_LateList ctx1) \<subseteq> dom (sp_Callback ctx1)" "call_of ctx1 = call_of ctx" "sp_LateList ctx1 = sp_LateList ctx"
    using assms(4) by (auto simp: same_callbacks_def suspend_wf_def call_of_def fun_eq_iff)
  with late_calls_law [of ctx1 "sy_Calls s"] finished_late [OF assms(1-3), of ctx1] obtain ctx2 where late: "late_calls (sy_Calls s) ctx1 = Some ctx2"
    "main_events ctx2 = main_events ctx1 @ map (call_of ctx) (sp_LateList ctx)" "registrations ctx2 = registrations ctx1"
    "sp_Count ctx2 = sp_Count ctx1" by auto
  show ?thesis using run late early_inv_done [OF inv _ N] by (auto simp: SuspendGetCount_def)
qed

definition sample_suspend :: XENBUS_SUSPEND_CONTEXT where
  "sample_suspend = \<lparr>sp_Fdo = True, sp_References = 1, sp_Count = 0, sp_EarlyList = [7], sp_LateList = [8], sp_DebugInterface = True,
     sp_Debug = True, sp_DebugCallback = True,
     sp_Callback = [7 \<mapsto> \<lparr>cb_Function = 1, cb_Argument = 2\<rparr>, 8 \<mapsto> \<lparr>cb_Function = 3, cb_Argument = 4\<rparr>], sp_Trace = []\<rparr>"

lemma whole_run_status: "map_option (\<lambda>s. NT_SUCCESS (sy_status s)) (two_run whole_run) = Some True"
  by code_simp

text \<open>Two processors, whose increments follow each other or overlap.\<close>

definition sample_sched :: "nat list" where
  "sample_sched = [0, 1, 0, 1, 1, 0, 0, 0, 0]"

lemma sample_early_done:
  "map_option (\<lambda>(pcs, ctx1). (pcs 0, pcs 1, sp_Count ctx1)) (early_run sample_sched (early_start (sy_Calls (the (two_run whole_run)))) sample_suspend)
     = Some (E_DONE, E_DONE, 1)"
  by code_simp

theorem SuspendTrigger_calls_each_once_witness:
  "\<exists>pcs ctx1 ctx2. early_run sample_sched (early_start (sy_Calls (the (two_run whole_run)))) sample_suspend = Some (pcs, ctx1) \<and>
     late_calls (sy_Calls (the (two_run whole_run))) ctx1 = Some ctx2 \<and>
     main_events ctx2 = [UnplugDevices, CallFunction 1 2, CallFunction 3 4] \<and> registrations ctx2 0 = 1 \<and> registrations ctx2 1 = 1 \<and>
     sp_Count ctx1 = 1"
proof -
  obtain s where s: "two_run whole_run = Some s" "sy_pc s = M_DONE" "NT_SUCCESS (sy_status s)"
    using whole_run_ends whole_run_status by auto
  have "suspend_wf sample_suspend" by (auto simp: suspend_wf_def sample_suspend_def)
  from SuspendTrigger_calls_each_once [OF two_run_reachable [OF s(1)] s(2,3) this, of sample_sched]
  obtain pcs ctx1 ctx2 where run: "early_run sample_sched (early_start (sy_Calls s)) sample_suspend = Some (pcs, ctx1)" "late_calls (sy_Calls s) ctx1 = Some ctx2"
    and res: "(\<forall>i < 2. pcs i = E_DONE) \<longrightarrow> main_events ctx2 = main_events sample_suspend @ UnplugDevices # map (call_of sample_suspend) [7] @ map (call_of sample_suspend) [8] \<and>
       (\<forall>i < 2. registrations ctx2 i = registrations sample_suspend i + 1)"
    by (auto simp: sample_suspend_def)
  have "pcs 0 = E_DONE" "pcs 1 = E_DONE" "sp_Count ctx1 = 1" using sample_early_done run(1) s(1) by simp_all
  then show ?thesis using run res s(1) by (auto simp: less_2_cases_iff sample_suspend_def main_events_def call_of_def registrations_def)
qed

section \<open>Registration and references\<close>

text \<open>What the clients do keeps the lists and the records in agreement; the allocator gives fresh addresses.\<close>

lemma SuspendRegister_wf:
  assumes "suspend_wf ctx" and "\<forall>b. block = Some b \<longrightarrow> sp_Callback ctx b = None"
    and "SuspendRegister block Type Function Argument ctx = Some (status, cb, ctx')"
  shows "suspend_wf ctx'"
proof (cases block)
  case None
  then show ?thesis using assms by (simp add: SuspendRegister_def)
next
  case (Some b)
  let ?ctx1 = "ctx\<lparr>sp_Callback := (sp_Callback ctx)(b \<mapsto> \<lparr>cb_Function = Function, cb_Argument = Argument\<rparr>)\<rparr>"
  have "distinct (sp_EarlyList ctx @ sp_LateList ctx)" "set (sp_EarlyList ctx) \<union> set (sp_LateList ctx) = dom (sp_Callback ctx)"
    "b \<notin> dom (sp_Callback ctx)" using assms(1,2) Some by (auto simp: suspend_wf_def)
  then have "suspend_wf (?ctx1\<lparr>sp_EarlyList := sp_EarlyList ctx @ [b]\<rparr>)" "suspend_wf (?ctx1\<lparr>sp_LateList := sp_LateList ctx @ [b]\<rparr>)"
    by (auto simp: suspend_wf_def simp del: fun_upd_apply)
  then show ?thesis using assms(3) Some by (cases Type) (auto simp: SuspendRegister_def Let_def)
qed

lemma SuspendDeregister_wf:
  assumes "suspend_wf ctx" and "SuspendDeregister cb ctx = Some ctx'"
  shows "suspend_wf ctx'"
proof -
  have "ctx' = ctx\<lparr>sp_EarlyList := remove1 cb (sp_EarlyList ctx), sp_LateList := remove1 cb (sp_LateList ctx),
      sp_Callback := (sp_Callback ctx)(cb := None)\<rparr>" using assms(2) by (simp add: SuspendDeregister_def split: if_split_asm)
  moreover have "set (sp_EarlyList ctx) \<union> set (sp_LateList ctx) = dom (sp_Callback ctx)" using assms(1) by (simp add: suspend_wf_def)
  ultimately show ?thesis using assms(1) by (auto simp: suspend_wf_def set_remove1_eq)
qed

text \<open>
  Registering a callback either fails for want of memory and changes nothing, or gives a handle whose
  deregistration restores the lists and the records as they were.
\<close>
theorem SuspendRegister_roundtrip:
  assumes "suspend_wf ctx" and "\<forall>b. block = Some b \<longrightarrow> sp_Callback ctx b = None" and "Type \<noteq> SUSPEND_CALLBACK_TYPE_INVALID"
  shows "\<exists>status cb ctx'. SuspendRegister block Type Function Argument ctx = Some (status, cb, ctx') \<and> suspend_wf ctx' \<and>
     (case cb of None \<Rightarrow> status = STATUS_NO_MEMORY \<and> ctx' = ctx | Some h \<Rightarrow> status = STATUS_SUCCESS \<and> SuspendDeregister h ctx' = Some ctx)"
proof (cases block)
  case None
  then show ?thesis using assms(1) by (simp add: SuspendRegister_def)
next
  case (Some b)
  then have fresh: "sp_Callback ctx b = None" "b \<notin> set (sp_EarlyList ctx)" "b \<notin> set (sp_LateList ctx)"
    using assms(1,2) by (auto simp: suspend_wf_def)
  obtain status cb ctx' where run: "SuspendRegister block Type Function Argument ctx = Some (status, cb, ctx')"
    using Some assms(3) by (cases Type) (auto simp: SuspendRegister_def)
  have "cb = Some b \<and> status = STATUS_SUCCESS \<and> SuspendDeregister b ctx' = Some ctx"
    using run Some assms(3) fresh by (cases Type) (auto simp: SuspendRegister_def SuspendDeregister_def remove1_append remove1_idem fun_upd_idem)
  then show ?thesis using run SuspendRegister_wf [OF assms(1,2) run] by auto
qed

theorem SuspendRegister_roundtrip_witness:
  "\<exists>status cb ctx'. SuspendRegister (Some 9) SUSPEND_CALLBACK_EARLY 5 6 sample_suspend = Some (status, cb, ctx') \<and> suspend_wf ctx' \<and>
     (case cb of None \<Rightarrow> status = STATUS_NO_MEMORY \<and> ctx' = sample_suspend | Some h \<Rightarrow> status = STATUS_SUCCESS \<and> SuspendDeregister h ctx' = Some sample_suspend)"
  by (rule SuspendRegister_roundtrip) (auto simp: suspend_wf_def sample_suspend_def)

lemma SuspendAcquire_law:
  assumes "SuspendAcquire da dr ctx = Some (status, ctx')" and "sp_References ctx = 0" and "\<not> sp_Debug ctx" and "\<not> sp_DebugCallback ctx"
  shows "if NT_SUCCESS status then ctx' = ctx\<lparr>sp_References := 1, sp_Debug := True, sp_DebugCallback := True\<rparr> else ctx' = ctx"
  using assms by (auto simp: SuspendAcquire_def suspend_fail1_def Let_def split: if_split_asm)

end
