(* ===== verification/Balloon_Sort.thy ===== *)
theory Balloon_Sort
  imports Prelude "HOL-Library.Multiset"
begin

text \<open>
  The heap sort of page frame numbers in src/src/xenbus/balloon.c. An array of PFNs is a list of \<^typ>\<open>int\<close>, of
  which the first \<open>Count\<close> entries are in use. An assertion that two entries differ or are ordered is a
  branch that stops the machine.
\<close>

section \<open>The code\<close>

definition SWAP_NODES :: "int list \<Rightarrow> nat \<Rightarrow> nat \<Rightarrow> int list" where
  "SWAP_NODES xs x y = xs[y := xs ! x, x := xs ! y]"

function BalloonHeapPushDown :: "int list \<Rightarrow> nat \<Rightarrow> nat \<Rightarrow> int list kernel" where
  "BalloonHeapPushDown Heap Start Count =
     (let LeftChild = Start * 2 + 1; RightChild = Start * 2 + 2 in
      if RightChild < Count then
        if Heap ! LeftChild = Heap ! Start \<or> Heap ! RightChild = Heap ! Start \<or> Heap ! LeftChild = Heap ! RightChild then BUG
        else if Heap ! LeftChild < Heap ! Start \<and> Heap ! RightChild < Heap ! Start then Some Heap
        else if Heap ! LeftChild < Heap ! Start \<and> Heap ! RightChild > Heap ! Start \<or>
            \<not> (Heap ! RightChild < Heap ! Start \<and> Heap ! LeftChild > Heap ! Start) \<and> \<not> Heap ! LeftChild > Heap ! RightChild then
          let Heap1 = SWAP_NODES Heap RightChild Start in
          if \<not> Heap1 ! RightChild < Heap1 ! Start then BUG else BalloonHeapPushDown Heap1 RightChild Count
        else
          let Heap1 = SWAP_NODES Heap LeftChild Start in
          if \<not> Heap1 ! LeftChild < Heap1 ! Start then BUG else BalloonHeapPushDown Heap1 LeftChild Count
      else if LeftChild < Count then
        if Heap ! LeftChild = Heap ! Start then BUG
        else if Heap ! LeftChild < Heap ! Start then Some Heap
        else
          let Heap1 = SWAP_NODES Heap LeftChild Start in
          if \<not> Heap1 ! LeftChild < Heap1 ! Start then BUG else BalloonHeapPushDown Heap1 LeftChild Count
      else Some Heap)"
  by pat_completeness auto
termination
  by (relation "measure (\<lambda>(_, Start, Count). Count - Start)") auto

declare BalloonHeapPushDown.simps [simp del]

text \<open>The loop of \<^verbatim>\<open>BalloonCreateHeap\<close> from an index down to 0.\<close>

fun create_heap :: "int list \<Rightarrow> nat \<Rightarrow> nat \<Rightarrow> int list kernel" where
  "create_heap Heap 0 Count = Some Heap"
| "create_heap Heap (Suc Index) Count = do { Heap1 \<leftarrow> BalloonHeapPushDown Heap Index Count; create_heap Heap1 Index Count }"

definition BalloonCreateHeap :: "int list \<Rightarrow> nat \<Rightarrow> int list kernel" where
  "BalloonCreateHeap PfnArray Count = create_heap PfnArray Count Count"

text \<open>Taking the largest entry off the heap, until nothing is unsorted.\<close>

fun extract_max :: "int list \<Rightarrow> nat \<Rightarrow> int list kernel" where
  "extract_max PfnArray 0 = Some PfnArray"
| "extract_max PfnArray (Suc Unsorted) =
     do { PfnArray1 \<leftarrow> BalloonHeapPushDown (SWAP_NODES PfnArray 0 Unsorted) 0 Unsorted; extract_max PfnArray1 Unsorted }"

text \<open>
  The check at the end: \<^verbatim>\<open>Count - 1\<close> is a ULONG, so that for no entries it is the largest one; a read outside
  the array is a stop.
\<close>

function check_sorted :: "int list \<Rightarrow> nat \<Rightarrow> nat \<Rightarrow> unit kernel" where
  "check_sorted PfnArray Index Bound =
     (if Index < Bound then
        if length PfnArray \<le> Index + 1 \<or> \<not> PfnArray ! Index < PfnArray ! (Index + 1) then BUG
        else check_sorted PfnArray (Index + 1) Bound
      else Some ())"
  by pat_completeness auto
termination
  by (relation "measure (\<lambda>(_, Index, Bound). Bound - Index)") auto

declare check_sorted.simps [simp del]

definition BalloonSort :: "int list \<Rightarrow> nat \<Rightarrow> int list kernel" where
  "BalloonSort PfnArray Count =
     do {
       PfnArray1 \<leftarrow> BalloonCreateHeap PfnArray Count;
       PfnArray2 \<leftarrow> extract_max PfnArray1 Count;
       check_sorted PfnArray2 0 (nat (u32 (int Count - 1)));
       Some PfnArray2
     }"

section \<open>Swaps\<close>

lemma SWAP_NODES_simps [simp]:
  "length (SWAP_NODES xs x y) = length xs"
  "x < length xs \<Longrightarrow> y < length xs \<Longrightarrow> SWAP_NODES xs x y ! i = (if i = x then xs ! y else if i = y then xs ! x else xs ! i)"
  by (auto simp: SWAP_NODES_def nth_list_update)

text \<open>The first \<open>n\<close> entries keep their elements, the others stay where they are.\<close>

definition same_elements :: "nat \<Rightarrow> int list \<Rightarrow> int list \<Rightarrow> bool" where
  "same_elements n xs ys \<longleftrightarrow> length ys = length xs \<and> mset (take n ys) = mset (take n xs) \<and> drop n ys = drop n xs"

lemma same_elements_refl [simp]: "same_elements n xs xs"
  by (simp add: same_elements_def)

lemma same_elements_trans: "same_elements n xs ys \<Longrightarrow> same_elements n ys zs \<Longrightarrow> same_elements n xs zs"
  by (simp add: same_elements_def)

lemma same_elements_swap:
  assumes "x < n" and "y < n" and "n \<le> length xs"
  shows "same_elements n xs (SWAP_NODES xs x y)"
proof -
  have "take n (SWAP_NODES xs x y) = (take n xs)[y := take n xs ! x, x := take n xs ! y]"
    using assms by (simp add: SWAP_NODES_def take_update_swap)
  moreover have "mset ((take n xs)[y := take n xs ! x, x := take n xs ! y]) = mset (take n xs)"
    using assms by (intro mset_swap) simp_all
  ultimately show ?thesis using assms by (simp add: same_elements_def SWAP_NODES_def)
qed

lemma same_elements_distinct: "same_elements n xs ys \<Longrightarrow> distinct (take n xs) \<Longrightarrow> distinct (take n ys)"
  unfolding same_elements_def by (metis mset_eq_imp_distinct_iff)

lemma distinct_take_nth: "distinct (take n xs) \<Longrightarrow> n \<le> length xs \<Longrightarrow> i < n \<Longrightarrow> j < n \<Longrightarrow> xs ! i = xs ! j \<longleftrightarrow> i = j"
  using nth_eq_iff_index_eq [of "take n xs" i j] by simp

section \<open>Heaps\<close>

definition child :: "nat \<Rightarrow> nat \<Rightarrow> bool" where
  "child p c \<longleftrightarrow> c = p * 2 + 1 \<or> c = p * 2 + 2"

lemma child_simps: "child p c \<Longrightarrow> p < c" "child p c \<Longrightarrow> child q c \<Longrightarrow> p = q"
  unfolding child_def by presburger+

text \<open>
  Every node from \<open>s\<close> on, except \<open>p\<close>, is larger than its children, and the parent of \<open>p\<close> is larger than the
  children of \<open>p\<close>; \<open>p = n\<close> is a heap from \<open>s\<close> on.
\<close>

definition heap_but :: "nat \<Rightarrow> nat \<Rightarrow> nat \<Rightarrow> int list \<Rightarrow> bool" where
  "heap_but p s n xs \<longleftrightarrow> (\<forall>i c. s \<le> i \<and> i \<noteq> p \<and> child i c \<and> c < n \<longrightarrow> xs ! c < xs ! i) \<and>
     (\<forall>i c. s \<le> i \<and> child i p \<and> child p c \<and> c < n \<longrightarrow> xs ! c < xs ! i)"

lemma heap_butD:
  "heap_but p s n xs \<Longrightarrow> s \<le> i \<Longrightarrow> i \<noteq> p \<Longrightarrow> child i c \<Longrightarrow> c < n \<Longrightarrow> xs ! c < xs ! i"
  "heap_but p s n xs \<Longrightarrow> s \<le> i \<Longrightarrow> child i p \<Longrightarrow> child p c \<Longrightarrow> c < n \<Longrightarrow> xs ! c < xs ! i"
  unfolding heap_but_def by blast+

text \<open>A swap with the largest child moves the place that may be too small down to that child.\<close>

lemma heap_but_down:
  assumes heap: "heap_but p s n xs" and c: "child p c" "c < n" "n \<le> length xs" "s \<le> p" and larger: "xs ! p < xs ! c"
    and largest: "\<And>d. child p d \<Longrightarrow> d < n \<Longrightarrow> d \<noteq> c \<Longrightarrow> xs ! d < xs ! c"
  shows "heap_but c s n (SWAP_NODES xs c p)"
proof -
  have p: "p < c" "p < n" using child_simps(1) [OF c(1)] c(2) by simp_all
  have nth: "SWAP_NODES xs c p ! i = (if i = c then xs ! p else if i = p then xs ! c else xs ! i)" for i
    using c p by simp
  show ?thesis
    unfolding heap_but_def nth
  proof (intro conjI allI impI; elim conjE)
    fix i d assume i: "s \<le> i" "i \<noteq> c" "child i d" "d < n"
    have "d \<noteq> p" if "i = p" using i that child_simps(1) by fastforce
    then show "(if d = c then xs ! p else if d = p then xs ! c else xs ! d) < (if i = c then xs ! p else if i = p then xs ! c else xs ! i)"
      using i larger largest [of d] heap_butD(1) [OF heap i(1) _ i(3,4)] heap_butD(2) [OF heap i(1) _ c(1,2)]
        child_simps(2) [OF c(1), of i] by auto
  next
    fix i d assume i: "s \<le> i" "child i c" "child c d" "d < n"
    have "i = p" using child_simps(2) [OF i(2) c(1)] .
    moreover have "d \<noteq> c" "d \<noteq> p" "c < d" using child_simps(1) [OF i(3)] p by simp_all
    ultimately show "(if d = c then xs ! p else if d = p then xs ! c else xs ! d) < (if i = c then xs ! p else if i = p then xs ! c else xs ! i)"
      using heap_butD(1) [OF heap _ _ i(3,4)] p c(4) by simp
  qed
qed

lemma heap_but_end:
  assumes "heap_but p s n xs" and "\<And>c. child p c \<Longrightarrow> c < n \<Longrightarrow> xs ! c < xs ! p"
  shows "heap_but n s n xs"
  using assms child_simps(1) unfolding heap_but_def by (metis order_less_trans less_irrefl)

lemma heap_root: "heap_but n 0 n xs \<Longrightarrow> i < n \<Longrightarrow> xs ! i \<le> xs ! 0"
proof (induction i rule: less_induct)
  case (less i)
  show ?case
  proof (cases "i = 0")
    case False
    then have c: "child ((i - 1) div 2) i" "(i - 1) div 2 < i" by (auto simp: child_def)
    then have "xs ! i < xs ! ((i - 1) div 2)" using heap_butD(1) [OF less.prems(1) _ _ c(1)] less.prems(2) by simp
    then show ?thesis using less.IH [OF c(2) less.prems(1)] c(2) less.prems(2) by simp
  qed simp
qed


text \<open>Pushing down: one step goes to the larger child when that is larger, and otherwise it ends.\<close>

lemma push_down_step:
  assumes "distinct (take n xs)" and "n \<le> length xs" and "child p c" and "c < n"
    and largest: "\<And>d. child p d \<Longrightarrow> d < n \<Longrightarrow> d \<noteq> c \<Longrightarrow> xs ! d < xs ! c"
  shows "BalloonHeapPushDown xs p n = (if xs ! c < xs ! p then Some xs else BalloonHeapPushDown (SWAP_NODES xs c p) c n)"
proof -
  have p: "p < c" using child_simps(1) [OF assms(3)] .
  note ne = distinct_take_nth [OF assms(1,2)]
  have d: "xs ! c \<noteq> xs ! p" using ne [of c p] p assms(4) by simp
  show ?thesis
  proof (cases "p * 2 + 2 < n")
    case True
    have neqs: "xs ! (p * 2 + 1) \<noteq> xs ! p" "xs ! (p * 2 + 2) \<noteq> xs ! p" "xs ! (p * 2 + 1) \<noteq> xs ! (p * 2 + 2)"
      using ne True by simp_all
    from assms(3) consider "c = p * 2 + 1" "xs ! (p * 2 + 2) < xs ! c" | "c = p * 2 + 2" "xs ! (p * 2 + 1) < xs ! c"
      using largest [of "p * 2 + 1"] largest [of "p * 2 + 2"] True by (auto simp: child_def)
    then show ?thesis
    proof cases
      case 1
      then show ?thesis using neqs True assms(2,4) p d by (subst BalloonHeapPushDown.simps) (auto simp: Let_def)
    next
      case 2
      then show ?thesis using neqs True assms(2,4) p d by (subst BalloonHeapPushDown.simps) (auto simp: Let_def)
    qed
  next
    case False
    then have "c = p * 2 + 1" using assms(3,4) by (auto simp: child_def)
    then show ?thesis using False assms(2,4) p d by (subst BalloonHeapPushDown.simps) (auto simp: Let_def)
  qed
qed

lemma push_down_leaf: "n \<le> p * 2 + 1 \<Longrightarrow> BalloonHeapPushDown xs p n = Some xs"
  by (subst BalloonHeapPushDown.simps) simp

lemma largest_child:
  fixes xs :: "int list"
  assumes "distinct (take n xs)" and "n \<le> length xs" and "child p d" and "d < n"
  obtains c where "child p c" "c < n" "\<And>d. child p d \<Longrightarrow> d < n \<Longrightarrow> d \<noteq> c \<Longrightarrow> xs ! d < xs ! c"
proof -
  let ?l = "p * 2 + 1" and ?r = "p * 2 + 2"
  have l: "?l < n" using assms(3,4) by (auto simp: child_def)
  have ne: "xs ! ?l \<noteq> xs ! ?r" if "?r < n" using distinct_take_nth [OF assms(1,2) l that] by simp
  show thesis
  proof (cases "?r < n \<and> xs ! ?l < xs ! ?r")
    case True
    then show thesis using that [of ?r] by (auto simp: child_def)
  next
    case False
    then have "xs ! ?r < xs ! ?l" if "?r < n" using ne [OF that] that not_less_iff_gr_or_eq [of "xs ! ?l" "xs ! ?r"] by blast
    then show thesis using that [of ?l] l by (auto simp: child_def)
  qed
qed

lemma push_down_law:
  "heap_but p s n xs \<Longrightarrow> s \<le> p \<Longrightarrow> distinct (take n xs) \<Longrightarrow> n \<le> length xs \<Longrightarrow>
     \<exists>ys. BalloonHeapPushDown xs p n = Some ys \<and> same_elements n xs ys \<and> heap_but n s n ys"
proof (induction "n - p" arbitrary: p xs rule: less_induct)
  case less
  show ?case
  proof (cases "\<exists>d. child p d \<and> d < n")
    case False
    then have "BalloonHeapPushDown xs p n = Some xs" by (intro push_down_leaf) (auto simp: child_def)
    moreover have "heap_but n s n xs" using heap_but_end [OF less.prems(1)] False by blast
    ultimately show ?thesis by simp
  next
    case True
    with largest_child [OF less.prems(3,4)] obtain c where c: "child p c" "c < n" "\<And>d. child p d \<Longrightarrow> d < n \<Longrightarrow> d \<noteq> c \<Longrightarrow> xs ! d < xs ! c"
      by metis
    note step = push_down_step [OF less.prems(3,4) c]
    have p: "p < c" "p < n" using child_simps(1) [OF c(1)] c(2) by simp_all
    show ?thesis
    proof (cases "xs ! c < xs ! p")
      case True
      have "heap_but n s n xs" using heap_but_end [OF less.prems(1)] c(3) True by (metis order_less_trans)
      with step True show ?thesis by simp
    next
      case False
      then have larger: "xs ! p < xs ! c" using distinct_take_nth [OF less.prems(3,4) p(2) c(2)] p(1) by simp
      let ?ys = "SWAP_NODES xs c p"
      have same: "same_elements n xs ?ys" using same_elements_swap [OF c(2) p(2) less.prems(4)] .
      have "heap_but c s n ?ys" using heap_but_down [OF less.prems(1) c(1,2) less.prems(4,2) larger c(3)] .
      moreover have "distinct (take n ?ys)" using same_elements_distinct [OF same less.prems(3)] .
      ultimately obtain zs where "BalloonHeapPushDown ?ys c n = Some zs" "same_elements n ?ys zs" "heap_but n s n zs"
        using less.hyps [OF diff_less_mono2 [OF p(1) c(2) [THEN order.strict_trans [OF p(1)]]], of ?ys] p less.prems(2,4) by auto
      with step False same show ?thesis by (auto intro: same_elements_trans)
    qed
  qed
qed

lemma create_heap_law:
  "heap_but n i n xs \<Longrightarrow> i \<le> n \<Longrightarrow> distinct (take n xs) \<Longrightarrow> n \<le> length xs \<Longrightarrow>
     \<exists>ys. create_heap xs i n = Some ys \<and> same_elements n xs ys \<and> heap_but n 0 n ys"
proof (induction i arbitrary: xs)
  case (Suc i)
  have "heap_but i i n xs"
    using heap_butD(1) [OF Suc.prems(1)] child_simps(1) unfolding heap_but_def
    by (metis Suc.prems(2) Suc_leI le_neq_implies_less less_le_not_le)
  then obtain ys where ys: "BalloonHeapPushDown xs i n = Some ys" "same_elements n xs ys" "heap_but n i n ys"
    using push_down_law [of i i n xs] Suc.prems by auto
  moreover have "distinct (take n ys)" "n \<le> length ys"
    using same_elements_distinct [OF ys(2)] Suc.prems ys(2) by (auto simp: same_elements_def)
  ultimately show ?case using Suc.IH [of ys] Suc.prems(2) by (auto intro: same_elements_trans)
qed simp


section \<open>The sort\<close>

lemma same_elements_mono:
  assumes "same_elements k xs ys" and "k \<le> n"
  shows "same_elements n xs ys"
proof -
  have parts: "take n zs = take k zs @ take (n - k) (drop k zs)" "drop n zs = drop (n - k) (drop k zs)" for zs :: "int list"
    using take_add [of k "n - k" zs] assms(2) by simp_all
  show ?thesis using assms(1) unfolding same_elements_def parts mset_append by simp
qed

lemma same_elements_nth: "same_elements k xs ys \<Longrightarrow> k \<le> j \<Longrightarrow> j < length xs \<Longrightarrow> ys ! j = xs ! j"
  using nth_drop [of k xs "j - k"] nth_drop [of k ys "j - k"] by (simp add: same_elements_def)

lemma same_elements_range:
  assumes "same_elements k xs ys" and "i < k" and "k \<le> length xs"
  obtains j where "j < k" "ys ! i = xs ! j"
proof -
  have "set (take k ys) = set (take k xs)" using assms(1) by (auto simp: same_elements_def dest: mset_eq_setD)
  moreover have "ys ! i \<in> set (take k ys)" using assms by (auto simp: same_elements_def in_set_conv_nth)
  ultimately obtain j where "j < k" "take k xs ! j = ys ! i" using assms(3) by (auto simp: in_set_conv_nth)
  then show thesis using that [of j] by simp
qed

text \<open>The part from \<open>k\<close> on is sorted and above the rest.\<close>

definition sorted_from :: "nat \<Rightarrow> nat \<Rightarrow> int list \<Rightarrow> bool" where
  "sorted_from k n xs \<longleftrightarrow> (\<forall>i j. i < j \<and> k \<le> j \<and> j < n \<longrightarrow> xs ! i < xs ! j)"

lemma extract_step:
  assumes heap: "heap_but (Suc u) 0 (Suc u) xs" and "Suc u \<le> n" "n \<le> length xs" "distinct (take n xs)" "sorted_from (Suc u) n xs"
  shows "\<exists>ys. BalloonHeapPushDown (SWAP_NODES xs 0 u) 0 u = Some ys \<and> same_elements n xs ys \<and> heap_but u 0 u ys \<and> sorted_from u n ys"
proof -
  let ?xs = "SWAP_NODES xs 0 u"
  have len: "0 < length xs" "u < length xs" using assms(2,3) by linarith+
  note nth = SWAP_NODES_simps(2) [OF len]
  have same: "same_elements n xs ?xs" using same_elements_swap [of 0 n u xs] assms(2,3) by simp
  have dist: "distinct (take n ?xs)" by (rule same_elements_distinct [OF same assms(4)])
  have "take u (take n ?xs) = take u ?xs" using assms(2) by (simp add: min_def)
  then have "distinct (take u ?xs)" using distinct_take [OF dist, of u] by simp
  moreover have "heap_but 0 0 u ?xs"
    unfolding heap_but_def
  proof (intro conjI allI impI; elim conjE)
    fix i c assume i: "0 \<le> i" "i \<noteq> 0" "child i c" "c < u"
    then have "i < c" using child_simps(1) by blast
    then show "?xs ! c < ?xs ! i" using heap_butD(1) [OF heap _ _ i(3)] i(2,4) by (simp add: nth)
  qed (auto simp: child_def)
  ultimately obtain ys where ys: "BalloonHeapPushDown ?xs 0 u = Some ys" "same_elements u ?xs ys" "heap_but u 0 u ys"
    using push_down_law [of 0 0 u ?xs] len by auto
  have "same_elements n ?xs ys" using same_elements_mono [OF ys(2)] assms(2) by simp
  moreover have "sorted_from u n ys"
    unfolding sorted_from_def
  proof (intro allI impI; elim conjE)
    fix i j assume ij: "i < j" "u \<le> j" "j < n"
    have j: "ys ! j = (if j = u then xs ! 0 else xs ! j)" using same_elements_nth [OF ys(2) ij(2)] ij(2,3) assms(3) len by (auto simp: nth)
    have i: "\<exists>k \<le> u. ys ! i = xs ! k \<and> (j = u \<longrightarrow> k \<noteq> 0) \<or> i = u \<and> ys ! i = xs ! 0 \<or> u < i \<and> ys ! i = xs ! i"
    proof (cases "i < u")
      case True
      with same_elements_range [OF ys(2)] len obtain k where k: "k < u" "ys ! i = ?xs ! k" by auto
      then show ?thesis by (intro exI [of _ "if k = 0 then u else k"]) (auto simp: nth)
    next
      case False
      then show ?thesis using same_elements_nth [OF ys(2), of i] ij assms(3) len by (auto simp: nth)
    qed
    show "ys ! i < ys ! j"
    proof (cases "j = u")
      case True
      with i ij(1) obtain k where k: "k \<le> u" "ys ! i = xs ! k" "k \<noteq> 0" by auto
      then have "xs ! k \<le> xs ! 0" "xs ! k \<noteq> xs ! 0"
        using heap_root [OF heap, of k] distinct_take_nth [OF assms(4,3), of k 0] assms(2) by simp_all
      then show ?thesis using j True k(2) by simp
    next
      case False
      then have "Suc u \<le> j" using ij(2) by simp
      then have above: "xs ! k < xs ! j" if "k < j" for k using assms(5) that ij(3) by (auto simp: sorted_from_def)
      from i show ?thesis using above ij(1) False j \<open>Suc u \<le> j\<close> by (auto simp: le_less_trans)
    qed
  qed
  ultimately show ?thesis using ys same same_elements_trans by blast
qed

lemma extract_law:
  "heap_but k 0 k xs \<Longrightarrow> k \<le> n \<Longrightarrow> n \<le> length xs \<Longrightarrow> distinct (take n xs) \<Longrightarrow> sorted_from k n xs \<Longrightarrow>
     \<exists>ys. extract_max xs k = Some ys \<and> same_elements n xs ys \<and> sorted_from 0 n ys"
proof (induction k arbitrary: xs)
  case (Suc u)
  obtain ys where ys: "BalloonHeapPushDown (SWAP_NODES xs 0 u) 0 u = Some ys" "same_elements n xs ys" "heap_but u 0 u ys" "sorted_from u n ys"
    using extract_step [OF Suc.prems] by blast
  moreover have "distinct (take n ys)" "n \<le> length ys"
    using same_elements_distinct [OF ys(2) Suc.prems(4)] Suc.prems(3) ys(2) by (simp_all add: same_elements_def)
  ultimately show ?case using Suc.IH [OF ys(3)] Suc.prems(2) by (auto intro: same_elements_trans)
qed simp

lemma check_sorted_law: "sorted_from 0 n xs \<Longrightarrow> n \<le> length xs \<Longrightarrow> b + 1 \<le> n \<Longrightarrow> check_sorted xs i b = Some ()"
proof (induction xs i b rule: check_sorted.induct)
  case (1 xs i b)
  then have "i < b \<Longrightarrow> xs ! i < xs ! (i + 1) \<and> i + 1 < length xs" by (auto simp: sorted_from_def)
  then show ?case using 1 by (subst check_sorted.simps) auto
qed

lemma BalloonSort_law:
  assumes "distinct (take n xs)" and "0 < n" and "n \<le> length xs" and "n < 2 ^ 32"
  shows "BalloonSort xs n = Some (sort (take n xs) @ drop n xs)"
proof -
  have "heap_but n n n xs" using child_simps(1) by (fastforce simp: heap_but_def)
  then obtain ys where ys: "create_heap xs n n = Some ys" "same_elements n xs ys" "heap_but n 0 n ys"
    using create_heap_law assms by blast
  moreover have "distinct (take n ys)" "n \<le> length ys"
    using same_elements_distinct [OF ys(2) assms(1)] assms(3) ys(2) by (simp_all add: same_elements_def)
  moreover have "sorted_from n n ys" by (simp add: sorted_from_def)
  ultimately obtain zs where zs: "extract_max ys n = Some zs" "same_elements n ys zs" "sorted_from 0 n zs"
    using extract_law [of n ys n] by blast
  have same: "same_elements n xs zs" using same_elements_trans [OF ys(2) zs(2)] .
  then have len: "length zs = length xs" "drop n zs = drop n xs" by (simp_all add: same_elements_def)
  have "nat (u32 (int n - 1)) = n - 1" using assms(2,4) by (simp add: u32_def nat_diff_distrib)
  then have "BalloonSort xs n = Some zs"
    using ys(1) zs(1) check_sorted_law [OF zs(3), of "n - 1" 0] len(1) assms(2,3) by (simp add: BalloonSort_def BalloonCreateHeap_def)
  moreover have "take n zs = sort (take n xs)"
  proof (rule properties_for_sort [symmetric])
    show "mset (take n zs) = mset (take n xs)" using same by (simp add: same_elements_def)
    show "sorted (take n zs)" using zs(3) len(1) assms(3) by (auto simp: sorted_iff_nth_mono_less sorted_from_def less_imp_le)
  qed
  ultimately show ?thesis using len(2) by (metis append_take_drop_id)
qed

text \<open>
  C24. The heap sort of an array of different page frame numbers returns, passes every assertion on the way,
  and leaves exactly the sorted entries, with the rest of the array untouched.
\<close>
theorem BalloonSort_sorts:
  assumes "distinct (take Count PfnArray)" and "0 < Count" and "Count \<le> length PfnArray" and "Count < 2 ^ 32"
  shows "BalloonSort PfnArray Count = Some (sort (take Count PfnArray) @ drop Count PfnArray)"
  by (rule BalloonSort_law [OF assms])

theorem BalloonSort_sorts_witness: "BalloonSort [5, 3, 9, 1, 7, 0, 0] 5 = Some [1, 3, 5, 7, 9, 0, 0]"
  using BalloonSort_sorts [of 5 "[5, 3, 9, 1, 7, 0, 0]"] by simp

end
