(* ===== verification/Balloon.thy ===== *)
theory Balloon
  imports Balloon_Sort Range_Set
begin

text \<open>
  The memory balloon, src/src/xenbus/balloon.c: inflating takes pages from Windows, remembers their frame
  numbers in a range set and gives the memory behind them back to Xen; deflating is the way back. Both
  work in rounds of at most 8192 pages, through the array of frame numbers in the context.

  \<^item> A frame number is an \<^typ>\<open>int\<close>; the range set is the model of Range\_Set. Whether the pool has memory when
    a range set operation asks for it is an argument.
  \<^item> Two sets stand for the world: the pages Windows has (\<open>bl_Os\<close>), which \<^verbatim>\<open>MmAllocatePagesForMdlEx\<close> with
    MM\_ALLOCATE\_AND\_HOT\_REMOVE takes from and \<^verbatim>\<open>MmAddPhysicalMemory\<close> adds to, and the frames with memory
    behind them (\<open>bl_Xen\<close>), which the two hypercalls change. What they answer is an argument, by the round.
  \<^item> The store is what reading the two keys gives. Times are in units of 100ns.
\<close>

section \<open>State\<close>

definition XENBUS_BALLOON_PFN_ARRAY_SIZE :: nat where
  "XENBUS_BALLOON_PFN_ARRAY_SIZE = 8192"

record XENBUS_BALLOON_FIST =
  fist_Inflation :: bool
  fist_Deflation :: bool

record XENBUS_BALLOON_CONTEXT =
  bl_Fdo :: bool
  bl_References :: int
  bl_LowMemoryEvent :: bool
  bl_Size :: nat
  bl_PfnArray :: "int list"
  bl_RangeSetInterface :: bool
  bl_RangeSets :: XENBUS_RANGE_SET_CONTEXT
  bl_RangeSet :: "XENBUS_RANGE_SET option"
  bl_StoreInterface :: bool
  bl_Store :: bool
  bl_FIST :: XENBUS_BALLOON_FIST
  bl_Os :: "int set"
  bl_Xen :: "int set"

text \<open>
  The answers in round \<open>k\<close>: whether memory is low; the pages there are for a request, of those Windows
  has; the time before and after; the two hypercalls; adding memory at an address; memory for the range
  set operations on entry \<open>i\<close>.
\<close>

record balloon_env =
  be_low :: bool
  be_pages :: "nat \<Rightarrow> int set \<Rightarrow> nat \<Rightarrow> int list option"
  be_time :: "nat \<Rightarrow> int \<times> int"
  be_decrease :: "nat \<Rightarrow> nat \<Rightarrow> NTSTATUS \<times> nat"
  be_populate :: "nat \<Rightarrow> nat \<Rightarrow> NTSTATUS \<times> nat"
  be_add :: "nat \<Rightarrow> int \<Rightarrow> NTSTATUS"
  be_put :: "nat \<Rightarrow> nat \<Rightarrow> bool"
  be_get :: "nat \<Rightarrow> nat \<Rightarrow> bool"

definition zero_prefix :: "nat \<Rightarrow> int list \<Rightarrow> bool" where
  "zero_prefix n xs \<longleftrightarrow> list_all (\<lambda>x. x = 0) (take n xs)"

definition zero_first :: "nat \<Rightarrow> int list \<Rightarrow> int list" where
  "zero_first n xs = replicate (min n (length xs)) 0 @ drop n xs"

section \<open>Pages\<close>

text \<open>The inner loop of \<^verbatim>\<open>BalloonFreePages\<close>: the end of the run of consecutive frames from \<open>RangeStart\<close>.\<close>

function run_end :: "int list \<Rightarrow> nat \<Rightarrow> nat \<Rightarrow> nat \<Rightarrow> nat" where
  "run_end Pfn Count RangeStart RangeEnd =
     (if RangeEnd < Count \<and> Pfn ! RangeEnd = Pfn ! RangeStart + int (RangeEnd - RangeStart)
      then run_end Pfn Count RangeStart (RangeEnd + 1) else RangeEnd)"
  by pat_completeness auto
termination
  by (relation "measure (\<lambda>(_, Count, _, RangeEnd). Count - RangeEnd)") auto

declare run_end.simps [simp del]

lemma run_end_ge: "RangeEnd \<le> run_end Pfn Count RangeStart RangeEnd"
proof (induction Pfn Count RangeStart RangeEnd rule: run_end.induct)
  case (1 Pfn Count RangeStart RangeEnd)
  then show ?case by (subst run_end.simps) (auto dest: Suc_leD)
qed

lemma run_end_gt: "RangeStart < Count \<Longrightarrow> RangeStart < run_end Pfn Count RangeStart RangeStart"
  using run_end_ge [of "RangeStart + 1" Pfn Count RangeStart] by (subst run_end.simps) simp

text \<open>
  The pages that are given to Windows: a failure of \<^verbatim>\<open>MmAddPhysicalMemory\<close> ends the loop. An address is its
  frame number.
\<close>

function free_pages :: "(int \<Rightarrow> NTSTATUS) \<Rightarrow> int list \<Rightarrow> nat \<Rightarrow> nat \<Rightarrow> int set \<Rightarrow> int set" where
  "free_pages add Pfn Count RangeStart os =
     (if RangeStart < Count then
        let RangeEnd = run_end Pfn Count RangeStart RangeStart in
        if \<not> NT_SUCCESS (add (Pfn ! RangeStart)) then os
        else free_pages add Pfn Count RangeEnd (os \<union> {Pfn ! RangeStart ..< Pfn ! RangeStart + int (RangeEnd - RangeStart)})
      else os)"
  by pat_completeness auto
termination
  by (relation "measure (\<lambda>(_, _, Count, RangeStart, _). Count - RangeStart)")
    (auto intro!: diff_less_mono2 run_end_gt)

declare free_pages.simps [simp del]

definition BalloonFreePages :: "(int \<Rightarrow> NTSTATUS) \<Rightarrow> int list \<Rightarrow> nat \<Rightarrow> int set \<Rightarrow> int set" where
  "BalloonFreePages add Pfn Count os = free_pages add Pfn Count 0 os"

text \<open>Pages per second: TimeDelta is in milliseconds and at least one.\<close>

definition balloon_rate :: "nat \<Rightarrow> int \<times> int \<Rightarrow> int" where
  "balloon_rate Count = (\<lambda>(Start, End). u32 (int Count * 1000) div max (u64 (End - Start) div 10000) 1)"

definition XENBUS_BALLOON_MIN_PAGES_PER_S :: int where
  "XENBUS_BALLOON_MIN_PAGES_PER_S = 1000"

text \<open>\<^verbatim>\<open>BalloonAllocatePfnArray\<close>: the number of pages, whether that was slow, and the state.\<close>

definition BalloonAllocatePfnArray :: "balloon_env \<Rightarrow> nat \<Rightarrow> nat \<Rightarrow> XENBUS_BALLOON_CONTEXT \<Rightarrow> (nat \<times> bool \<times> XENBUS_BALLOON_CONTEXT) kernel" where
  "BalloonAllocatePfnArray env k Requested ctx =
     do {
       ASSERT (Requested \<noteq> 0);
       ASSERT (Requested \<le> XENBUS_BALLOON_PFN_ARRAY_SIZE);
       ASSERT (zero_prefix Requested (bl_PfnArray ctx));
       (Count, ctx1) \<leftarrow>
         (case be_pages env k (bl_Os ctx) Requested of
            None \<Rightarrow> Some (0, ctx)
          | Some pages \<Rightarrow> do {
              PfnArray \<leftarrow> BalloonSort (pages @ drop (length pages) (bl_PfnArray ctx)) (length pages);
              Some (length pages, ctx\<lparr>bl_PfnArray := PfnArray, bl_Os := bl_Os ctx - set pages\<rparr>)
            });
       Some (Count, balloon_rate Count (be_time env k) < XENBUS_BALLOON_MIN_PAGES_PER_S, ctx1)
     }"

section \<open>Moving frames\<close>

fun pop_pfns :: "nat \<Rightarrow> XENBUS_RANGE_SET \<Rightarrow> (int list \<times> XENBUS_RANGE_SET) kernel" where
  "pop_pfns 0 rs = Some ([], rs)"
| "pop_pfns (Suc n) rs =
     do {
       (status, Pfn, rs1) \<leftarrow> RangeSetPop rs 1;
       ASSERT (NT_SUCCESS status);
       pfn \<leftarrow> Pfn;
       (pfns, rs2) \<leftarrow> pop_pfns n rs1;
       Some (pfn # pfns, rs2)
     }"

text \<open>Entries put back, each asserted to succeed.\<close>

fun put_back :: "(nat \<Rightarrow> bool) \<Rightarrow> nat \<Rightarrow> int list \<Rightarrow> XENBUS_RANGE_SET \<Rightarrow> XENBUS_RANGE_SET kernel" where
  "put_back mem i [] rs = Some rs"
| "put_back mem i (pfn # pfns) rs =
     do { (status, rs1) \<leftarrow> RangeSetPut (mem i) rs pfn 1; ASSERT (NT_SUCCESS status); put_back mem (i + 1) pfns rs1 }"

text \<open>Entries put until one fails: how many there were.\<close>

fun put_pfns :: "(nat \<Rightarrow> bool) \<Rightarrow> nat \<Rightarrow> int list \<Rightarrow> XENBUS_RANGE_SET \<Rightarrow> (nat \<times> XENBUS_RANGE_SET) kernel" where
  "put_pfns mem i [] rs = Some (i, rs)"
| "put_pfns mem i (pfn # pfns) rs =
     do {
       (status, rs1) \<leftarrow> RangeSetPut (mem i) rs pfn 1;
       (if \<not> NT_SUCCESS status then Some (i, rs1) else put_pfns mem (i + 1) pfns rs1)
     }"

fun get_pfns :: "(nat \<Rightarrow> bool) \<Rightarrow> nat \<Rightarrow> int list \<Rightarrow> XENBUS_RANGE_SET \<Rightarrow> XENBUS_RANGE_SET kernel" where
  "get_pfns mem i [] rs = Some rs"
| "get_pfns mem i (pfn # pfns) rs =
     do { (status, rs1) \<leftarrow> RangeSetGet (mem i) rs pfn 1; ASSERT (NT_SUCCESS status); get_pfns mem (i + 1) pfns rs1 }"

definition BalloonPopulatePfnArray :: "balloon_env \<Rightarrow> nat \<Rightarrow> nat \<Rightarrow> XENBUS_BALLOON_CONTEXT \<Rightarrow> (nat \<times> XENBUS_BALLOON_CONTEXT) kernel" where
  "BalloonPopulatePfnArray env k Requested ctx =
     do {
       ASSERT (Requested \<noteq> 0);
       ASSERT (Requested \<le> XENBUS_BALLOON_PFN_ARRAY_SIZE);
       ASSERT (zero_prefix Requested (bl_PfnArray ctx));
       rs \<leftarrow> bl_RangeSet ctx;
       (pfns, rs1) \<leftarrow> pop_pfns Requested rs;
       let Count = (case be_populate env k Requested of (status, n) \<Rightarrow> if NT_SUCCESS status then n else 0);
       rs2 \<leftarrow> put_back (be_put env k) Count (drop Count pfns) rs1;
       Some (Count, ctx\<lparr>bl_RangeSet := Some rs2,
         bl_PfnArray := take Count pfns @ replicate (Requested - Count) 0 @ drop Requested (bl_PfnArray ctx),
         bl_Xen := bl_Xen ctx \<union> set (take Count pfns)\<rparr>)
     }"

definition BalloonReleasePfnArray :: "balloon_env \<Rightarrow> nat \<Rightarrow> nat \<Rightarrow> XENBUS_BALLOON_CONTEXT \<Rightarrow> (nat \<times> XENBUS_BALLOON_CONTEXT) kernel" where
  "BalloonReleasePfnArray env k Requested ctx =
     do {
       ASSERT (Requested \<le> XENBUS_BALLOON_PFN_ARRAY_SIZE);
       (if Requested = 0 then Some (0, ctx)
        else do {
          rs \<leftarrow> bl_RangeSet ctx;
          (Requested1, rs1) \<leftarrow> put_pfns (be_put env k) 0 (take Requested (bl_PfnArray ctx)) rs;
          let Count = (case be_decrease env k Requested1 of (status, n) \<Rightarrow> if NT_SUCCESS status then n else 0);
          let PfnArray = zero_first Count (bl_PfnArray ctx);
          rs2 \<leftarrow> get_pfns (be_get env k) Count (drop Count (take Requested1 PfnArray)) rs1;
          ASSERT (zero_prefix Count PfnArray);
          Some (Count, ctx\<lparr>bl_RangeSet := Some rs2, bl_PfnArray := PfnArray,
            bl_Xen := bl_Xen ctx - set (take Count (bl_PfnArray ctx))\<rparr>)
        })
     }"

definition BalloonFreePfnArray :: "balloon_env \<Rightarrow> nat \<Rightarrow> nat \<Rightarrow> XENBUS_BALLOON_CONTEXT \<Rightarrow> (nat \<times> XENBUS_BALLOON_CONTEXT) kernel" where
  "BalloonFreePfnArray env k Requested ctx =
     do {
       ASSERT (Requested \<le> XENBUS_BALLOON_PFN_ARRAY_SIZE);
       (if Requested = 0 then Some (0, ctx)
        else do {
          ASSERT (list_all (\<lambda>x. x \<noteq> 0) (take Requested (bl_PfnArray ctx)));
          let PfnArray = zero_first Requested (bl_PfnArray ctx);
          ASSERT (zero_prefix Requested PfnArray);
          Some (Requested, ctx\<lparr>bl_PfnArray := PfnArray, bl_Os := BalloonFreePages (be_add env k) (bl_PfnArray ctx) Requested (bl_Os ctx)\<rparr>)
        })
     }"


section \<open>Deflating and inflating\<close>

text \<open>One round of the loop of \<^verbatim>\<open>BalloonDeflate\<close>: its status and the pages freed.\<close>

definition deflate_round :: "balloon_env \<Rightarrow> nat \<Rightarrow> nat \<Rightarrow> XENBUS_BALLOON_CONTEXT \<Rightarrow> (NTSTATUS \<times> nat \<times> XENBUS_BALLOON_CONTEXT) kernel" where
  "deflate_round env k ThisTime ctx =
     do {
       (Populated, ctx1) \<leftarrow> BalloonPopulatePfnArray env k ThisTime ctx;
       (Freed, ctx2) \<leftarrow> BalloonFreePfnArray env k Populated ctx1;
       ASSERT (Freed = Populated);
       Some (if Populated < ThisTime then STATUS_RETRY else STATUS_SUCCESS, Freed, ctx2)
     }"

lemma deflate_round_progress:
  assumes "deflate_round env k n ctx = Some (status, Freed, ctx')" and "0 < n"
  shows "\<not> NT_SUCCESS status \<or> 0 < Freed"
  using assms by (auto simp: deflate_round_def bind_eq_Some_conv split: if_splits)

function deflate_loop :: "balloon_env \<Rightarrow> nat \<Rightarrow> nat \<Rightarrow> nat \<Rightarrow> NTSTATUS \<Rightarrow> XENBUS_BALLOON_CONTEXT \<Rightarrow> (NTSTATUS \<times> nat \<times> XENBUS_BALLOON_CONTEXT) kernel" where
  "deflate_loop env k Requested Count status ctx =
     (if Count < Requested \<and> NT_SUCCESS status then
        (case deflate_round env k (min (Requested - Count) XENBUS_BALLOON_PFN_ARRAY_SIZE) ctx of
           None \<Rightarrow> None
         | Some (status1, Freed, ctx1) \<Rightarrow> deflate_loop env (k + 1) Requested (Count + Freed) status1 ctx1)
      else Some (status, Count, ctx))"
  by pat_completeness auto

termination
  by (relation "measure (\<lambda>(_, _, Requested, Count, status, _). if NT_SUCCESS status then Requested - Count + 1 else 0)")
    (auto dest!: deflate_round_progress simp: XENBUS_BALLOON_PFN_ARRAY_SIZE_def)

declare deflate_loop.simps [simp del]

definition BalloonDeflate :: "balloon_env \<Rightarrow> nat \<Rightarrow> XENBUS_BALLOON_CONTEXT \<Rightarrow> (NTSTATUS \<times> XENBUS_BALLOON_CONTEXT) kernel" where
  "BalloonDeflate env Requested ctx =
     (if fist_Deflation (bl_FIST ctx) then Some (STATUS_UNSUCCESSFUL, ctx)
      else do {
        (status, Count, ctx1) \<leftarrow> deflate_loop env 0 Requested 0 STATUS_SUCCESS ctx;
        Some (status, ctx1\<lparr>bl_Size := bl_Size ctx1 - Count\<rparr>)
      })"

text \<open>
  One round of \<^verbatim>\<open>BalloonInflate\<close>: what could not be released moves to the front of the array and is freed. The
  move copies: the entries stay where they were as well.
\<close>

definition inflate_round :: "balloon_env \<Rightarrow> nat \<Rightarrow> nat \<Rightarrow> XENBUS_BALLOON_CONTEXT \<Rightarrow> (NTSTATUS \<times> nat \<times> XENBUS_BALLOON_CONTEXT) kernel" where
  "inflate_round env k ThisTime ctx =
     do {
       (Allocated, Slow, ctx1) \<leftarrow> BalloonAllocatePfnArray env k ThisTime ctx;
       let status = (if Allocated < ThisTime \<or> Slow then STATUS_RETRY else STATUS_SUCCESS);
       (Released, ctx2) \<leftarrow> BalloonReleasePfnArray env k Allocated ctx1;
       ctx3 \<leftarrow>
         (if Released < Allocated then do {
            let n = Allocated - Released;
            let PfnArray = take n (drop Released (bl_PfnArray ctx2)) @ drop n (bl_PfnArray ctx2);
            (Freed, ctx3) \<leftarrow> BalloonFreePfnArray env k n (ctx2\<lparr>bl_PfnArray := PfnArray\<rparr>);
            ASSERT (Freed = n);
            Some ctx3
          } else Some ctx2);
       Some (if Released = 0 then STATUS_RETRY else status, Released, ctx3)
     }"

lemma inflate_round_progress:
  assumes "inflate_round env k n ctx = Some (status, Released, ctx')"
  shows "\<not> NT_SUCCESS status \<or> 0 < Released"
  using assms by (auto simp: inflate_round_def Let_def bind_eq_Some_conv split: if_split_asm prod.splits)

function inflate_loop :: "balloon_env \<Rightarrow> nat \<Rightarrow> nat \<Rightarrow> nat \<Rightarrow> NTSTATUS \<Rightarrow> XENBUS_BALLOON_CONTEXT \<Rightarrow> (NTSTATUS \<times> nat \<times> XENBUS_BALLOON_CONTEXT) kernel" where
  "inflate_loop env k Requested Count status ctx =
     (if Count < Requested \<and> NT_SUCCESS status then
        (case inflate_round env k (min (Requested - Count) XENBUS_BALLOON_PFN_ARRAY_SIZE) ctx of
           None \<Rightarrow> None
         | Some (status1, Released, ctx1) \<Rightarrow> inflate_loop env (k + 1) Requested (Count + Released) status1 ctx1)
      else Some (status, Count, ctx))"
  by pat_completeness auto

termination
  by (relation "measure (\<lambda>(_, _, Requested, Count, status, _). if NT_SUCCESS status then Requested - Count + 1 else 0)")
    (auto dest!: inflate_round_progress)

declare inflate_loop.simps [simp del]

definition BalloonInflate :: "balloon_env \<Rightarrow> nat \<Rightarrow> XENBUS_BALLOON_CONTEXT \<Rightarrow> (NTSTATUS \<times> XENBUS_BALLOON_CONTEXT) kernel" where
  "BalloonInflate env Requested ctx =
     (if fist_Inflation (bl_FIST ctx) then Some (STATUS_UNSUCCESSFUL, ctx)
      else if be_low env then Some (STATUS_NO_MEMORY, ctx)
      else do {
        (status, Count, ctx1) \<leftarrow> inflate_loop env 0 Requested 0 STATUS_SUCCESS ctx;
        Some (status, ctx1\<lparr>bl_Size := bl_Size ctx1 + Count\<rparr>)
      })"

section \<open>Adjusting\<close>

text \<open>\<^verbatim>\<open>strtol (Buffer, NULL, 2)\<close>: white space, a sign, binary digits, clamped to a long; then the cast to BOOLEAN.\<close>

fun binary_digits :: "string \<Rightarrow> int \<Rightarrow> int" where
  "binary_digits (c # cs) n = (if c = CHR ''0'' then binary_digits cs (2 * n) else if c = CHR ''1'' then binary_digits cs (2 * n + 1) else n)"
| "binary_digits [] n = n"

fun strtol_2 :: "string \<Rightarrow> int" where
  "strtol_2 [] = 0"
| "strtol_2 (c # cs) =
     (if c \<in> {CHR '' '', CHR 0x09, CHR 0x0A, CHR 0x0B, CHR 0x0C, CHR 0x0D} then strtol_2 cs
      else if c = CHR ''-'' then max (- (2 ^ 31)) (- binary_digits cs 0)
      else min (2 ^ 31 - 1) (if c = CHR ''+'' then binary_digits cs 0 else binary_digits (c # cs) 0))"

text \<open>What reading a key gives, if it can be read.\<close>

definition fist_entry :: "string option \<Rightarrow> bool" where
  "fist_entry value = (case value of None \<Rightarrow> False | Some buffer \<Rightarrow> strtol_2 buffer mod 256 \<noteq> 0)"

definition BalloonGetFISTEntries :: "string option \<Rightarrow> string option \<Rightarrow> XENBUS_BALLOON_CONTEXT \<Rightarrow> XENBUS_BALLOON_CONTEXT" where
  "BalloonGetFISTEntries inflation deflation ctx =
     ctx\<lparr>bl_FIST := \<lparr>fist_Inflation = fist_entry inflation, fist_Deflation = fist_entry deflation\<rparr>\<rparr>"

text \<open>The loop of \<^verbatim>\<open>BalloonAdjust\<close>; the answers are a stream, one for each turn. \<^const>\<open>None\<close> is also the loop that does not end.\<close>

partial_function (option) adjust_loop :: "(nat \<Rightarrow> balloon_env) \<Rightarrow> nat \<Rightarrow> nat \<Rightarrow> NTSTATUS \<Rightarrow> XENBUS_BALLOON_CONTEXT \<Rightarrow>
    (NTSTATUS \<times> XENBUS_BALLOON_CONTEXT) option" where
  "adjust_loop envs n Size status ctx =
     (if bl_Size ctx \<noteq> Size \<and> NT_SUCCESS status then
        Option.bind
          (if bl_Size ctx < Size then BalloonInflate (envs n) (Size - bl_Size ctx) ctx else BalloonDeflate (envs n) (bl_Size ctx - Size) ctx)
          (\<lambda>(status1, ctx1). adjust_loop envs (n + 1) Size status1 ctx1)
      else Some (status, ctx))"

definition BalloonAdjust :: "(nat \<Rightarrow> balloon_env) \<Rightarrow> string option \<Rightarrow> string option \<Rightarrow> nat \<Rightarrow> XENBUS_BALLOON_CONTEXT \<Rightarrow>
    (NTSTATUS \<times> XENBUS_BALLOON_CONTEXT) kernel" where
  "BalloonAdjust envs inflation deflation Size ctx = adjust_loop envs 0 Size STATUS_SUCCESS (BalloonGetFISTEntries inflation deflation ctx)"

definition BalloonGetSize :: "XENBUS_BALLOON_CONTEXT \<Rightarrow> nat" where
  "BalloonGetSize ctx = bl_Size ctx"

section \<open>References\<close>

definition balloon_fail1 :: "NTSTATUS \<Rightarrow> XENBUS_BALLOON_CONTEXT \<Rightarrow> (NTSTATUS \<times> XENBUS_BALLOON_CONTEXT) kernel" where
  "balloon_fail1 status ctx =
     do {
       let ctx1 = ctx\<lparr>bl_References := bl_References ctx - 1\<rparr>;
       ASSERT (bl_References ctx1 = 0);
       Some (status, ctx1)
     }"

definition balloon_fail2 :: "NTSTATUS \<Rightarrow> XENBUS_BALLOON_CONTEXT \<Rightarrow> (NTSTATUS \<times> XENBUS_BALLOON_CONTEXT) kernel" where
  "balloon_fail2 status ctx = do { r \<leftarrow> RangeSetRelease (bl_RangeSets ctx); balloon_fail1 status (ctx\<lparr>bl_RangeSets := r\<rparr>) }"

definition balloon_fail3 :: "NTSTATUS \<Rightarrow> XENBUS_BALLOON_CONTEXT \<Rightarrow> (NTSTATUS \<times> XENBUS_BALLOON_CONTEXT) kernel" where
  "balloon_fail3 status ctx =
     do { rs \<leftarrow> bl_RangeSet ctx; r \<leftarrow> RangeSetDestroy (bl_RangeSets ctx) rs; balloon_fail2 status (ctx\<lparr>bl_RangeSets := r, bl_RangeSet := None\<rparr>) }"

text \<open>The arguments are what the calls answer: the two of acquiring the range sets, the two of creating one, the store's.\<close>

definition BalloonAcquire :: "NTSTATUS \<times> NTSTATUS \<Rightarrow> bool \<times> NTSTATUS \<Rightarrow> NTSTATUS \<Rightarrow> XENBUS_BALLOON_CONTEXT \<Rightarrow>
    (NTSTATUS \<times> XENBUS_BALLOON_CONTEXT) kernel" where
  "BalloonAcquire range_sets create store ctx =
     (let ctx0 = ctx\<lparr>bl_References := bl_References ctx + 1\<rparr> in
      if bl_References ctx \<noteq> 0 then Some (STATUS_SUCCESS, ctx0)
      else do {
        (status, r) \<leftarrow> RangeSetAcquire (fst range_sets) (snd range_sets) (bl_RangeSets ctx0);
        let ctx1 = ctx0\<lparr>bl_RangeSets := r\<rparr>;
        (if \<not> NT_SUCCESS status then balloon_fail1 status ctx1
         else case RangeSetCreate (fst create) (snd create) (bl_RangeSets ctx1) ''balloon'' of (status, RangeSet, r) \<Rightarrow>
           let ctx2 = ctx1\<lparr>bl_RangeSets := r, bl_RangeSet := RangeSet\<rparr> in
           if \<not> NT_SUCCESS status then balloon_fail2 status ctx2
           else if \<not> NT_SUCCESS store then balloon_fail3 store ctx2
           else Some (STATUS_SUCCESS, ctx2\<lparr>bl_Store := True\<rparr>))
      })"

definition BalloonRelease :: "XENBUS_BALLOON_CONTEXT \<Rightarrow> XENBUS_BALLOON_CONTEXT kernel" where
  "BalloonRelease ctx =
     (let ctx0 = ctx\<lparr>bl_References := bl_References ctx - 1\<rparr> in
      if 0 < bl_References ctx0 then Some ctx0
      else if bl_Size ctx0 \<noteq> 0 then BUG
      else do {
        rs \<leftarrow> bl_RangeSet ctx0;
        r \<leftarrow> RangeSetDestroy (bl_RangeSets ctx0) rs;
        r1 \<leftarrow> RangeSetRelease r;
        Some (ctx0\<lparr>bl_FIST := \<lparr>fist_Inflation = False, fist_Deflation = False\<rparr>, bl_Store := False, bl_RangeSets := r1, bl_RangeSet := None\<rparr>)
      })"

text \<open>\<open>rsc\<close> is the context of the range sets, \<open>os\<close> and \<open>xen\<close> the pages there are; \<open>event\<close>: the event of low memory is found.\<close>

definition BalloonInitialize :: "bool \<Rightarrow> NTSTATUS \<Rightarrow> NTSTATUS \<Rightarrow> bool \<Rightarrow> XENBUS_RANGE_SET_CONTEXT \<Rightarrow> int set \<Rightarrow> int set \<Rightarrow>
    (NTSTATUS \<times> XENBUS_BALLOON_CONTEXT option) kernel" where
  "BalloonInitialize mem range_set store event rsc os xen =
     (if \<not> mem then Some (STATUS_NO_MEMORY, None)
      else do {
        ASSERT (NT_SUCCESS range_set);
        ASSERT (NT_SUCCESS store);
        (if \<not> event then Some (STATUS_UNSUCCESSFUL, None)
         else Some (STATUS_SUCCESS, Some \<lparr>bl_Fdo = True, bl_References = 0, bl_LowMemoryEvent = True, bl_Size = 0,
           bl_PfnArray = replicate XENBUS_BALLOON_PFN_ARRAY_SIZE 0, bl_RangeSetInterface = True, bl_RangeSets = rsc, bl_RangeSet = None,
           bl_StoreInterface = True, bl_Store = False, bl_FIST = \<lparr>fist_Inflation = False, fist_Deflation = False\<rparr>, bl_Os = os, bl_Xen = xen\<rparr>))
      })"

definition BalloonGetReferences :: "XENBUS_BALLOON_CONTEXT \<Rightarrow> int" where
  "BalloonGetReferences ctx = bl_References ctx"

text \<open>The assertion covers what has not been zeroed before it.\<close>

definition BalloonTeardown :: "XENBUS_BALLOON_CONTEXT \<Rightarrow> unit kernel" where
  "BalloonTeardown ctx = ASSERT (bl_References ctx = 0 \<and> bl_Size ctx = 0 \<and> zero_prefix XENBUS_BALLOON_PFN_ARRAY_SIZE (bl_PfnArray ctx) \<and>
     bl_RangeSet ctx = None \<and> \<not> fist_Inflation (bl_FIST ctx) \<and> \<not> fist_Deflation (bl_FIST ctx))"

definition BalloonGetInterface :: "nat \<Rightarrow> nat \<Rightarrow> nat \<Rightarrow> NTSTATUS" where
  "BalloonGetInterface size1 Version Size =
     (if Version = 1 then if Size < size1 then STATUS_BUFFER_OVERFLOW else STATUS_SUCCESS else STATUS_NOT_SUPPORTED)"

end
