(* ===== verification/Balloon_Correct.thy ===== *)
theory Balloon_Correct
  imports Balloon
begin

text \<open>
  The balloon keeps its accounts: a page is either with Windows or in the range set, never both and never
  lost, Windows only ever has pages with memory behind them, and the size is the number of frames in the
  set. The proofs rest on the contract of the range set, the locale \<open>range_allocator\<close>.
\<close>

section \<open>Lists of frames against the range set\<close>

context range_allocator begin

lemma get_one:
  assumes "accounts s used U" and "x \<in> U - used" and "card (items s) < 2 ^ 32 - 1"
  shows "\<exists>s'. get True s x 1 = Some (STATUS_SUCCESS, s') \<and> accounts s' (insert x used) U"
proof -
  have "{x .. x + 1 - 1} \<subseteq> items s" "inv s" using assms by (auto simp: accounts_def)
  with get_law [of s 1 x] assms(3) obtain s' where
    "get True s x 1 = Some (STATUS_SUCCESS, s')" "inv s'" "items s' = items s - {x}" by auto
  with assms(1,2) show ?thesis by (auto simp: accounts_def)
qed

lemma accounts_card:
  assumes "accounts s used U" and "finite U"
  shows "card (items s) = card U - card (used \<inter> U)" "card (items s) \<le> card U"
proof -
  have "items s = U - used \<inter> U" using assms(1) by (auto simp: accounts_def)
  then show "card (items s) = card U - card (used \<inter> U)" "card (items s) \<le> card U"
    using assms(2) by (auto simp: card_Diff_subset intro: card_mono)
qed

end

text \<open>The frames there are.\<close>

definition universe_ok :: "int set \<Rightarrow> bool" where
  "universe_ok U \<longleftrightarrow> finite U \<and> card U < 2 ^ 32 - 1 \<and> U \<subseteq> {0 <..< 2 ^ 52}"

lemma universe_frame: "universe_ok U \<Longrightarrow> x \<in> U \<Longrightarrow> 0 < x \<and> - (2 ^ 63) < x \<and> x + 1 < 2 ^ 63"
  by (auto simp: universe_ok_def)

lemma universe_room: "universe_ok U \<Longrightarrow> rs.accounts rs used U \<Longrightarrow> card (rs_items rs) < 2 ^ 32 - 1"
  using rs.accounts_card(2) by (fastforce simp: universe_ok_def)

lemma put_pfns_law:
  "universe_ok U \<Longrightarrow> rs.accounts rs used U \<Longrightarrow> distinct pfns \<Longrightarrow> set pfns \<subseteq> used \<inter> U \<Longrightarrow> \<forall>i. mem i \<Longrightarrow>
     \<exists>rs'. put_pfns mem i pfns rs = Some (i + length pfns, rs') \<and> rs.accounts rs' (used - set pfns) U"
proof (induction pfns arbitrary: i rs used)
  case (Cons pfn pfns)
  then obtain rs1 where "RangeSetPut True rs pfn 1 = Some (STATUS_SUCCESS, rs1)" "rs.accounts rs1 (used - {pfn}) U"
    using rs.put_one [OF Cons.prems(2), of pfn] universe_frame universe_room by fastforce
  moreover have "used - set (pfn # pfns) = used - {pfn} - set pfns" by auto
  ultimately show ?case using Cons.IH [of rs1 "used - {pfn}" "i + 1"] Cons.prems by auto
qed simp

lemma put_back_law:
  "universe_ok U \<Longrightarrow> rs.accounts rs used U \<Longrightarrow> distinct pfns \<Longrightarrow> set pfns \<subseteq> used \<inter> U \<Longrightarrow> \<forall>i. mem i \<Longrightarrow>
     \<exists>rs'. put_back mem i pfns rs = Some rs' \<and> rs.accounts rs' (used - set pfns) U"
proof (induction pfns arbitrary: i rs used)
  case (Cons pfn pfns)
  then obtain rs1 where "RangeSetPut True rs pfn 1 = Some (STATUS_SUCCESS, rs1)" "rs.accounts rs1 (used - {pfn}) U"
    using rs.put_one [OF Cons.prems(2), of pfn] universe_frame universe_room by fastforce
  moreover have "used - set (pfn # pfns) = used - {pfn} - set pfns" by auto
  ultimately show ?case using Cons.IH [of rs1 "used - {pfn}" "i + 1"] Cons.prems by auto
qed simp

lemma get_pfns_law:
  "universe_ok U \<Longrightarrow> rs.accounts rs used U \<Longrightarrow> distinct pfns \<Longrightarrow> set pfns \<subseteq> U - used \<Longrightarrow> \<forall>i. mem i \<Longrightarrow>
     \<exists>rs'. get_pfns mem i pfns rs = Some rs' \<and> rs.accounts rs' (used \<union> set pfns) U"
proof (induction pfns arbitrary: i rs used)
  case (Cons pfn pfns)
  then obtain rs1 where "RangeSetGet True rs pfn 1 = Some (STATUS_SUCCESS, rs1)" "rs.accounts rs1 (insert pfn used) U"
    using rs.get_one [OF Cons.prems(2), of pfn] universe_room by fastforce
  moreover have "used \<union> set (pfn # pfns) = insert pfn used \<union> set pfns" by auto
  ultimately show ?case using Cons.IH [of rs1 "insert pfn used" "i + 1"] Cons.prems by auto
qed simp

lemma pop_pfns_law:
  "rs.accounts rs used U \<Longrightarrow> finite U \<Longrightarrow> n \<le> card (rs_items rs) \<Longrightarrow>
     \<exists>pfns rs'. pop_pfns n rs = Some (pfns, rs') \<and> length pfns = n \<and> distinct pfns \<and> set pfns \<subseteq> U - used \<and>
       rs.accounts rs' (used \<union> set pfns) U"
proof (induction n arbitrary: rs used)
  case (Suc n)
  have "rs_items rs \<noteq> {}" using Suc.prems(3) by auto
  then have "used \<noteq> U" using Suc.prems(1) by (auto simp: rs.accounts_def)
  with rs.pop_one [OF Suc.prems(1)] obtain x rs1 where
    pop: "RangeSetPop rs 1 = Some (STATUS_SUCCESS, Some x, rs1)" "x \<in> U - used" "rs.accounts rs1 (insert x used) U" by auto
  have "rs_items rs1 = rs_items rs - {x}" "x \<in> rs_items rs" using pop(2,3) Suc.prems(1) by (auto simp: rs.accounts_def)
  then have "n \<le> card (rs_items rs1)" using Suc.prems(3) by simp
  then obtain pfns rs' where "pop_pfns n rs1 = Some (pfns, rs')" "length pfns = n" "distinct pfns"
    "set pfns \<subseteq> U - insert x used" "rs.accounts rs' (insert x used \<union> set pfns) U"
    using Suc.IH [OF pop(3) Suc.prems(2)] by blast
  with pop show ?case by (intro exI [of _ "x # pfns"] exI [of _ rs']) auto
qed simp


section \<open>Giving pages to Windows\<close>

definition consecutive :: "int list \<Rightarrow> nat \<Rightarrow> nat \<Rightarrow> bool" where
  "consecutive Pfn s e \<longleftrightarrow> (\<forall>j. s \<le> j \<and> j < e \<longrightarrow> Pfn ! j = Pfn ! s + int (j - s))"

lemma consecutive_Suc: "consecutive Pfn s e \<Longrightarrow> Pfn ! e = Pfn ! s + int (e - s) \<Longrightarrow> consecutive Pfn s (e + 1)"
  unfolding consecutive_def by (metis Suc_eq_plus1 less_Suc_eq)

lemma run_end_law:
  "RangeEnd \<le> Count \<Longrightarrow> consecutive Pfn RangeStart RangeEnd \<Longrightarrow>
     run_end Pfn Count RangeStart RangeEnd \<le> Count \<and> consecutive Pfn RangeStart (run_end Pfn Count RangeStart RangeEnd)"
proof (induction Pfn Count RangeStart RangeEnd rule: run_end.induct)
  case (1 Pfn Count RangeStart RangeEnd)
  show ?case
  proof (cases "RangeEnd < Count \<and> Pfn ! RangeEnd = Pfn ! RangeStart + int (RangeEnd - RangeStart)")
    case True
    have "run_end Pfn Count RangeStart RangeEnd = run_end Pfn Count RangeStart (RangeEnd + 1)"
      by (rule trans [OF run_end.simps]) (use True in simp)
    then show ?thesis using 1(1) [OF True] True consecutive_Suc [OF 1(3)] by simp
  next
    case False
    then have "run_end Pfn Count RangeStart RangeEnd = RangeEnd" by (intro trans [OF run_end.simps]) (use False in auto)
    then show ?thesis using 1(2,3) by simp
  qed
qed

lemma run_image:
  assumes "consecutive Pfn s e"
  shows "{Pfn ! s ..< Pfn ! s + int (e - s)} = (\<lambda>j. Pfn ! j) ` {s ..< e}"
proof -
  have "{Pfn ! s ..< Pfn ! s + int (e - s)} = (\<lambda>j. Pfn ! s + int (j - s)) ` {s ..< e}"
  proof (intro equalityI subsetI)
    fix x assume "x \<in> {Pfn ! s ..< Pfn ! s + int (e - s)}"
    then have "x = Pfn ! s + int (s + nat (x - Pfn ! s) - s)" "s + nat (x - Pfn ! s) \<in> {s ..< e}" by auto
    then show "x \<in> (\<lambda>j. Pfn ! s + int (j - s)) ` {s ..< e}" by blast
  qed auto
  also have "\<dots> = (\<lambda>j. Pfn ! j) ` {s ..< e}"
  proof (rule image_cong [OF refl])
    fix j assume "j \<in> {s ..< e}"
    then show "Pfn ! s + int (j - s) = Pfn ! j" using assms unfolding consecutive_def atLeastLessThan_iff by metis
  qed
  finally show ?thesis .
qed

lemma free_pages_law:
  "\<forall>x. NT_SUCCESS (add x) \<Longrightarrow> s \<le> n \<Longrightarrow> free_pages add Pfn n s os = os \<union> (\<lambda>j. Pfn ! j) ` {s ..< n}"
proof (induction "n - s" arbitrary: s os rule: less_induct)
  case less
  show ?case
  proof (cases "s < n")
    case True
    let ?e = "run_end Pfn n s s"
    have "consecutive Pfn s s" by (simp add: consecutive_def)
    then have e: "s < ?e" "?e \<le> n" "consecutive Pfn s ?e"
      using run_end_gt [OF True] run_end_law [of s n Pfn s] True by simp_all
    have "free_pages add Pfn n s os = free_pages add Pfn n ?e (os \<union> {Pfn ! s ..< Pfn ! s + int (?e - s)})"
      by (rule trans [OF free_pages.simps]) (use True less.prems(1) in \<open>simp add: Let_def\<close>)
    also have "\<dots> = os \<union> (\<lambda>j. Pfn ! j) ` {s ..< ?e} \<union> (\<lambda>j. Pfn ! j) ` {?e ..< n}"
      using less.hyps [of ?e] less.prems e True run_image [OF e(3)] by simp
    also have "\<dots> = os \<union> (\<lambda>j. Pfn ! j) ` ({s ..< ?e} \<union> {?e ..< n})" by (simp add: image_Un Un_assoc)
    also have "{s ..< ?e} \<union> {?e ..< n} = {s ..< n}" using e by (intro ivl_disj_un_two) auto
    finally show ?thesis .
  next
    case False
    then have "free_pages add Pfn n s os = os" by (intro trans [OF free_pages.simps]) simp
    then show ?thesis using less.prems(2) False by simp
  qed
qed

lemma BalloonFreePages_law:
  assumes "\<forall>x. NT_SUCCESS (add x)" and "n \<le> length Pfn"
  shows "BalloonFreePages add Pfn n os = os \<union> set (take n Pfn)"
proof -
  have "(\<lambda>j. Pfn ! j) ` {0 ..< n} = set (take n Pfn)" using assms(2) nth_image [of n Pfn] by simp
  then show ?thesis using free_pages_law [OF assms(1), of 0 n Pfn os] by (simp add: BalloonFreePages_def)
qed

section \<open>The accounts of a context\<close>

text \<open>\<open>H\<close> are the frames in the array, which neither side has.\<close>

definition balloon_at :: "int set \<Rightarrow> int set \<Rightarrow> XENBUS_RANGE_SET \<Rightarrow> XENBUS_BALLOON_CONTEXT \<Rightarrow> bool" where
  "balloon_at U H rs ctx \<longleftrightarrow> bl_RangeSet ctx = Some rs \<and> rs.accounts rs (bl_Os ctx \<union> H) U \<and> bl_Os ctx \<inter> H = {} \<and>
     bl_Os ctx \<subseteq> bl_Xen ctx \<and> rs_items rs \<inter> bl_Xen ctx = {}"

text \<open>The array: the frames in it, then zeros.\<close>

definition array_of :: "int list \<Rightarrow> int list" where
  "array_of pfns = pfns @ replicate (XENBUS_BALLOON_PFN_ARRAY_SIZE - length pfns) 0"

definition same_size :: "XENBUS_BALLOON_CONTEXT \<Rightarrow> XENBUS_BALLOON_CONTEXT \<Rightarrow> bool" where
  "same_size ctx ctx' \<longleftrightarrow> bl_Size ctx' = bl_Size ctx \<and> bl_FIST ctx' = bl_FIST ctx"

text \<open>
  What the world answers: pages that Windows had, at least one and no more than asked; hypercalls that do
  not exceed their request; and nothing runs out of memory. In \<open>env_ok\<close> giving up memory is all or nothing.
\<close>

definition env_part :: "balloon_env \<Rightarrow> bool" where
  "env_part env \<longleftrightarrow>
     (\<forall>k os n pages. be_pages env k os n = Some pages \<longrightarrow> distinct pages \<and> set pages \<subseteq> os \<and> 0 < length pages \<and> length pages \<le> n) \<and>
     (\<forall>k n. snd (be_decrease env k n) \<le> n) \<and> (\<forall>k n. snd (be_populate env k n) \<le> n) \<and>
     (\<forall>k x. NT_SUCCESS (be_add env k x)) \<and> (\<forall>k i. be_put env k i) \<and> (\<forall>k i. be_get env k i)"

definition env_ok :: "balloon_env \<Rightarrow> bool" where
  "env_ok env \<longleftrightarrow> env_part env \<and> (\<forall>k n. snd (be_decrease env k n) = 0 \<or> snd (be_decrease env k n) = n)"

lemma env_ok_part: "env_ok env \<Longrightarrow> env_part env"
  by (simp add: env_ok_def)

lemma array_of_simps [simp]:
  "length pfns \<le> XENBUS_BALLOON_PFN_ARRAY_SIZE \<Longrightarrow> length (array_of pfns) = XENBUS_BALLOON_PFN_ARRAY_SIZE"
  "take (length pfns) (array_of pfns) = pfns"
  "zero_prefix n (array_of [])"
  by (auto simp: array_of_def zero_prefix_def list_all_iff dest: in_set_takeD)

lemma zero_first_array: "length pfns \<le> XENBUS_BALLOON_PFN_ARRAY_SIZE \<Longrightarrow> zero_first (length pfns) (array_of pfns) = array_of []"
  by (simp add: zero_first_def array_of_def min_def replicate_add [symmetric])

lemma zero_prefix_replicate: "zero_prefix n (replicate n 0 @ xs)" "zero_prefix n (replicate m 0)"
  by (simp_all add: zero_prefix_def list_all_iff)

lemma balloon_at_U: "balloon_at U H rs ctx \<Longrightarrow> bl_Os ctx \<union> H \<subseteq> U \<and> rs_items rs \<subseteq> U"
  by (auto simp: balloon_at_def rs.accounts_def)


section \<open>The four movements\<close>

lemma BalloonAllocatePfnArray_law:
  assumes env: "env_part env" and U: "universe_ok U" and at: "balloon_at U {} rs ctx" and array: "bl_PfnArray ctx = array_of []"
    and n: "0 < n" "n \<le> XENBUS_BALLOON_PFN_ARRAY_SIZE"
  shows "\<exists>pfns slow ctx'. BalloonAllocatePfnArray env k n ctx = Some (length pfns, slow, ctx') \<and> length pfns \<le> n \<and> distinct pfns \<and>
     bl_PfnArray ctx' = array_of pfns \<and> balloon_at U (set pfns) rs ctx' \<and> set pfns \<subseteq> bl_Xen ctx' \<and> same_size ctx ctx' \<and>
     (case be_pages env k (bl_Os ctx) n of None \<Rightarrow> pfns = [] | Some pages \<Rightarrow> pfns = sort pages)"
proof (cases "be_pages env k (bl_Os ctx) n")
  case None
  then show ?thesis using n at array by (intro exI [of _ "[]"]) (simp add: BalloonAllocatePfnArray_def same_size_def)
next
  case (Some pages)
  then have p: "distinct pages" "set pages \<subseteq> bl_Os ctx" "0 < length pages" "length pages \<le> n" using env unfolding env_part_def by blast+
  let ?pfns = "sort pages"
  have len: "length pages \<le> XENBUS_BALLOON_PFN_ARRAY_SIZE" using p(4) n(2) by simp
  have arr: "pages @ drop (length pages) (array_of []) = array_of pages" using len by (simp add: array_of_def)
  have "BalloonSort (array_of pages) (length pages) = Some (sort pages @ drop (length pages) (array_of pages))"
    using BalloonSort_law [of "length pages" "array_of pages"] p(1,3) len by (simp add: XENBUS_BALLOON_PFN_ARRAY_SIZE_def)
  also have "sort pages @ drop (length pages) (array_of pages) = array_of ?pfns" by (simp add: array_of_def)
  finally have sort: "BalloonSort (array_of pages) (length pages) = Some (array_of ?pfns)" .
  have "balloon_at U (set pages) rs (ctx\<lparr>bl_PfnArray := array_of ?pfns, bl_Os := bl_Os ctx - set pages\<rparr>)"
    using at p(2) by (auto simp: balloon_at_def Un_absorb2)
  moreover have "set pages \<subseteq> bl_Xen ctx" using at p(2) by (auto simp: balloon_at_def)
  ultimately show ?thesis using Some n p(1,4) arr sort array
    by (intro exI [of _ ?pfns]) (simp add: BalloonAllocatePfnArray_def same_size_def)
qed

lemma BalloonFreePfnArray_law:
  assumes env: "env_part env" and U: "universe_ok U" and at: "balloon_at U (set pfns) rs ctx"
    and array: "take (length pfns) (bl_PfnArray ctx) = pfns" "length (bl_PfnArray ctx) = XENBUS_BALLOON_PFN_ARRAY_SIZE"
    and xen: "set pfns \<subseteq> bl_Xen ctx" and n: "length pfns \<le> XENBUS_BALLOON_PFN_ARRAY_SIZE"
  shows "\<exists>ctx'. BalloonFreePfnArray env k (length pfns) ctx = Some (length pfns, ctx') \<and>
     bl_PfnArray ctx' = zero_first (length pfns) (bl_PfnArray ctx) \<and> balloon_at U {} rs ctx' \<and> same_size ctx ctx'"
proof (cases "pfns = []")
  case True
  then show ?thesis using at by (simp add: BalloonFreePfnArray_def same_size_def zero_first_def)
next
  case False
  let ?arr = "zero_first (length pfns) (bl_PfnArray ctx)"
  have "list_all (\<lambda>x. x \<noteq> 0) pfns" using balloon_at_U [OF at] universe_frame [OF U] by (fastforce simp: list_all_iff)
  moreover have "BalloonFreePages (be_add env k) (bl_PfnArray ctx) (length pfns) (bl_Os ctx) = bl_Os ctx \<union> set pfns"
    using BalloonFreePages_law [of "be_add env k" "length pfns" "bl_PfnArray ctx"] env n array by (simp add: env_part_def)
  moreover have "balloon_at U {} rs (ctx\<lparr>bl_PfnArray := ?arr, bl_Os := bl_Os ctx \<union> set pfns\<rparr>)"
    using at xen by (simp add: balloon_at_def)
  moreover have "zero_prefix (length pfns) ?arr" using n array(2) by (simp add: zero_first_def min_def zero_prefix_replicate)
  ultimately show ?thesis using False n array(1) by (simp add: BalloonFreePfnArray_def same_size_def Let_def)
qed

lemma BalloonPopulatePfnArray_law:
  assumes env: "env_part env" and U: "universe_ok U" and at: "balloon_at U {} rs ctx" and array: "bl_PfnArray ctx = array_of []"
    and n: "0 < n" "n \<le> XENBUS_BALLOON_PFN_ARRAY_SIZE" "n \<le> card (rs_items rs)"
  shows "\<exists>pfns rs' ctx'. BalloonPopulatePfnArray env k n ctx = Some (length pfns, ctx') \<and> length pfns \<le> n \<and> bl_PfnArray ctx' = array_of pfns \<and>
     balloon_at U (set pfns) rs' ctx' \<and> set pfns \<subseteq> bl_Xen ctx' \<and> same_size ctx ctx' \<and>
     card (rs_items rs') = card (rs_items rs) - length pfns"
proof -
  have acc: "rs.accounts rs (bl_Os ctx) U" and fin: "finite U" using at U by (simp_all add: balloon_at_def universe_ok_def)
  obtain pfns rs1 where pop: "pop_pfns n rs = Some (pfns, rs1)" "length pfns = n" "distinct pfns" "set pfns \<subseteq> U - bl_Os ctx"
    "rs.accounts rs1 (bl_Os ctx \<union> set pfns) U" using pop_pfns_law [OF acc fin n(3)] by blast
  obtain st m where pop_mem: "be_populate env k n = (st, m)" by fastforce
  let ?m = "if NT_SUCCESS st then m else 0"
  have m: "?m \<le> n" using env pop_mem unfolding env_part_def by (metis (full_types) le0 snd_conv)
  let ?got = "take ?m pfns" and ?rest = "drop ?m pfns"
  have split: "set ?got \<union> set ?rest = set pfns" "set ?got \<inter> set ?rest = {}" "distinct ?rest"
    using set_take_disj_set_drop_if_distinct [OF pop(3)] pop(3) set_append [of ?got ?rest] by auto
  have mem: "\<forall>i. be_put env k i" using env by (simp add: env_part_def)
  have "set ?rest \<subseteq> (bl_Os ctx \<union> set pfns) \<inter> U" using split(1) pop(4) by blast
  then obtain rs2 where put: "put_back (be_put env k) ?m ?rest rs1 = Some rs2" "rs.accounts rs2 (bl_Os ctx \<union> set pfns - set ?rest) U"
    using put_back_law [OF U pop(5) split(3), of "be_put env k" ?m] mem by blast
  have used: "bl_Os ctx \<union> set pfns - set ?rest = bl_Os ctx \<union> set ?got" using split pop(4) by blast
  let ?ctx' = "ctx\<lparr>bl_RangeSet := Some rs2, bl_PfnArray := array_of ?got, bl_Xen := bl_Xen ctx \<union> set ?got\<rparr>"
  have items: "rs_items rs2 = rs_items rs - set ?got" using put(2) acc pop(4) split used unfolding rs.accounts_def by blast
  have gotin: "set ?got \<subseteq> rs_items rs" using acc pop(4) split(1) unfolding rs.accounts_def by blast
  have "card (rs_items rs2) = card (rs_items rs) - length ?got"
    using items gotin pop(3) by (simp add: card_Diff_subset distinct_card)
  moreover have "balloon_at U (set ?got) rs2 ?ctx'"
    using at put(2) used items pop(4) split(1) by (auto simp: balloon_at_def)
  moreover have "take ?m pfns @ replicate (n - ?m) 0 @ drop n (array_of []) = array_of ?got"
    using pop(2) m n(2) by (simp add: array_of_def min_def replicate_add [symmetric])
  ultimately show ?thesis using n pop(1,2) put(1) pop_mem at array m
    by (intro exI [of _ ?got] exI [of _ rs2] exI [of _ ?ctx']) (simp add: BalloonPopulatePfnArray_def balloon_at_def same_size_def Let_def min_def)
qed


text \<open>\<open>m\<close> is what the hypercall says it released.\<close>

definition released :: "balloon_env \<Rightarrow> nat \<Rightarrow> nat \<Rightarrow> nat" where
  "released env k n = (case be_decrease env k n of (status, m) \<Rightarrow> if NT_SUCCESS status then m else 0)"

lemma BalloonReleasePfnArray_law:
  assumes env: "env_part env" and U: "universe_ok U" and at: "balloon_at U (set pfns) rs ctx" and array: "bl_PfnArray ctx = array_of pfns"
    and xen: "set pfns \<subseteq> bl_Xen ctx" and n: "length pfns \<le> XENBUS_BALLOON_PFN_ARRAY_SIZE" "distinct pfns" "pfns \<noteq> []"
    and m: "m = released env k (length pfns)"
  shows "\<exists>rs' ctx'. BalloonReleasePfnArray env k (length pfns) ctx = Some (m, ctx') \<and> same_size ctx ctx' \<and> m \<le> length pfns \<and>
     bl_PfnArray ctx' = zero_first m (array_of pfns) \<and> balloon_at U (set (drop m pfns)) rs' ctx' \<and> set (drop m pfns) \<subseteq> bl_Xen ctx' \<and>
     card (rs_items rs') = card (rs_items rs) + m"
proof -
  have acc: "rs.accounts rs (bl_Os ctx \<union> set pfns) U" and dis: "bl_Os ctx \<inter> set pfns = {}" and RS: "bl_RangeSet ctx = Some rs"
    and sub: "bl_Os ctx \<subseteq> bl_Xen ctx" "rs_items rs \<inter> bl_Xen ctx = {}" using at by (simp_all add: balloon_at_def)
  have mem: "\<forall>i. be_put env k i" "\<forall>i. be_get env k i" using env by (simp_all add: env_part_def)
  have "snd (be_decrease env k (length pfns)) \<le> length pfns" using env by (simp add: env_part_def)
  then have le: "m \<le> length pfns" by (simp add: m released_def split_beta)
  have inU: "set pfns \<subseteq> (bl_Os ctx \<union> set pfns) \<inter> U" using balloon_at_U [OF at] by blast
  have parts: "set (take m pfns) \<union> set (drop m pfns) = set pfns" "set (take m pfns) \<inter> set (drop m pfns) = {}" "distinct (drop m pfns)"
    using set_take_disj_set_drop_if_distinct [OF n(2)] n(2) set_append [of "take m pfns" "drop m pfns"] by auto
  obtain rs1 where put: "put_pfns (be_put env k) 0 pfns rs = Some (length pfns, rs1)" "rs.accounts rs1 (bl_Os ctx \<union> set pfns - set pfns) U"
    using put_pfns_law [OF U acc n(2) inU mem(1), of 0] by auto
  have os: "bl_Os ctx \<union> set pfns - set pfns = bl_Os ctx" using dis by blast
  have "set (drop m pfns) \<subseteq> U - bl_Os ctx" using inU dis parts(1) by blast
  then obtain rs2 where get: "get_pfns (be_get env k) m (drop m pfns) rs1 = Some rs2" "rs.accounts rs2 (bl_Os ctx \<union> set (drop m pfns)) U"
    using get_pfns_law [OF U put(2) [unfolded os] parts(3) _ mem(2), of m] by auto
  have items: "rs_items rs2 = rs_items rs \<union> set (take m pfns)" "rs_items rs \<inter> set (take m pfns) = {}"
    using get(2) acc dis parts unfolding rs.accounts_def by blast+
  have "finite (rs_items rs)" using acc U unfolding rs.accounts_def universe_ok_def by (metis finite_Un)
  then have card: "card (rs_items rs2) = card (rs_items rs) + m"
    using items n(2) le by (simp add: card_Un_disjoint distinct_card)
  let ?arr = "zero_first m (array_of pfns)"
  let ?ctx' = "ctx\<lparr>bl_RangeSet := Some rs2, bl_PfnArray := ?arr, bl_Xen := bl_Xen ctx - set (take m pfns)\<rparr>"
  have "balloon_at U (set (drop m pfns)) rs2 ?ctx'" using get(2) items sub dis parts(1) by (auto simp: balloon_at_def)
  moreover have "set (drop m pfns) \<subseteq> bl_Xen ?ctx'" using xen parts by auto
  moreover have "drop m (take (length pfns) ?arr) = drop m pfns" "zero_prefix m ?arr" "take m (array_of pfns) = take m pfns"
    using le n(1) by (simp_all add: zero_first_def array_of_def min_def zero_prefix_replicate)
  moreover have "(case be_decrease env k (length pfns) of (status, n) \<Rightarrow> if NT_SUCCESS status then n else 0) = m" by (simp add: m released_def)
  ultimately show ?thesis using n RS array put(1) get(1) card le
    by (intro exI [of _ rs2] exI [of _ ?ctx']) (simp add: BalloonReleasePfnArray_def same_size_def Let_def)
qed

section \<open>Rounds\<close>

text \<open>The accounts between rounds.\<close>

definition balloon_rest :: "int set \<Rightarrow> nat \<Rightarrow> XENBUS_BALLOON_CONTEXT \<Rightarrow> bool" where
  "balloon_rest U n ctx \<longleftrightarrow> bl_PfnArray ctx = array_of [] \<and> (\<exists>rs. balloon_at U {} rs ctx \<and> card (rs_items rs) = n)"

lemma same_size_trans: "same_size a b \<Longrightarrow> same_size b c \<Longrightarrow> same_size a c"
  by (simp add: same_size_def)

lemma deflate_round_law:
  assumes "env_ok env" and "universe_ok U" and "balloon_rest U s ctx" and "0 < n" "n \<le> XENBUS_BALLOON_PFN_ARRAY_SIZE" "n \<le> s"
  shows "\<exists>status m ctx'. deflate_round env k n ctx = Some (status, m, ctx') \<and> m \<le> n \<and> (NT_SUCCESS status \<longrightarrow> m = n) \<and>
     balloon_rest U (s - m) ctx' \<and> same_size ctx ctx'"
proof -
  from assms(3) obtain rs where rs: "bl_PfnArray ctx = array_of []" "balloon_at U {} rs ctx" "card (rs_items rs) = s" by (auto simp: balloon_rest_def)
  obtain pfns rs' ctx1 where pop: "BalloonPopulatePfnArray env k n ctx = Some (length pfns, ctx1)" "length pfns \<le> n" "bl_PfnArray ctx1 = array_of pfns"
    "balloon_at U (set pfns) rs' ctx1" "set pfns \<subseteq> bl_Xen ctx1" "same_size ctx ctx1" "card (rs_items rs') = s - length pfns"
    using BalloonPopulatePfnArray_law [OF env_ok_part [OF assms(1)] assms(2) rs(2,1) assms(4,5), of k] assms(6) rs(3) by auto
  have len: "length pfns \<le> XENBUS_BALLOON_PFN_ARRAY_SIZE" using pop(2) assms(5) by simp
  obtain ctx2 where free: "BalloonFreePfnArray env k (length pfns) ctx1 = Some (length pfns, ctx2)" "bl_PfnArray ctx2 = array_of []"
    "balloon_at U {} rs' ctx2" "same_size ctx1 ctx2"
    using BalloonFreePfnArray_law [OF env_ok_part [OF assms(1)] assms(2) pop(4) _ _ pop(5) len, of k] pop(3) zero_first_array [OF len] len by auto
  have "balloon_rest U (s - length pfns) ctx2" using free(2,3) pop(7) by (auto simp: balloon_rest_def)
  then show ?thesis using pop(1,2) free(1) same_size_trans [OF pop(6) free(4)] by (auto simp: deflate_round_def)
qed

text \<open>A round of an inflation, whatever part of it the hypercall releases: what is then in the array.\<close>

definition left_over :: "nat \<Rightarrow> int list \<Rightarrow> int list" where
  "left_over m pfns = (let arr = zero_first m (array_of pfns); n = length pfns - m in zero_first n (take n (drop m arr) @ drop n arr))"

lemma zero_first_0 [simp]: "zero_first 0 xs = xs"
  by (simp add: zero_first_def)

lemma zero_first_length [simp]: "length (zero_first n xs) = length xs"
  by (simp add: zero_first_def min_def)

lemma array_of_again [simp]: "pfns @ drop (length pfns) (array_of pfns) = array_of pfns"
  by (simp add: array_of_def)

lemma left_over_all: "length pfns \<le> XENBUS_BALLOON_PFN_ARRAY_SIZE \<Longrightarrow> m = 0 \<or> m = length pfns \<Longrightarrow> left_over m pfns = array_of []"
  by (auto simp: left_over_def Let_def zero_first_array)

lemma take_drop_zero_first: "length pfns \<le> XENBUS_BALLOON_PFN_ARRAY_SIZE \<Longrightarrow> m \<le> length pfns \<Longrightarrow>
    take (length pfns - m) (drop m (zero_first m (array_of pfns))) = drop m pfns"
  by (simp add: zero_first_def array_of_def min_def)

lemma inflate_round_part:
  assumes "env_part env" and "universe_ok U" and "bl_PfnArray ctx = array_of []" "balloon_at U {} rs ctx"
    and "0 < n" "n \<le> XENBUS_BALLOON_PFN_ARRAY_SIZE"
  shows "\<exists>pfns m status rs' ctx'. m = (if pfns = [] then 0 else released env k (length pfns)) \<and> m \<le> length pfns \<and> length pfns \<le> n \<and>
     inflate_round env k n ctx = Some (status, m, ctx') \<and> (NT_SUCCESS status \<longrightarrow> length pfns = n \<and> 0 < m) \<and>
     bl_PfnArray ctx' = left_over m pfns \<and> balloon_at U {} rs' ctx' \<and> card (rs_items rs') = card (rs_items rs) + m \<and> same_size ctx ctx' \<and>
     set pfns \<subseteq> U \<and> (case be_pages env k (bl_Os ctx) n of None \<Rightarrow> pfns = [] | Some pages \<Rightarrow> pfns = sort pages)"
proof -
  obtain pfns slow ctx1 where al: "BalloonAllocatePfnArray env k n ctx = Some (length pfns, slow, ctx1)" "length pfns \<le> n" "distinct pfns"
    "bl_PfnArray ctx1 = array_of pfns" "balloon_at U (set pfns) rs ctx1" "set pfns \<subseteq> bl_Xen ctx1" "same_size ctx ctx1"
    "case be_pages env k (bl_Os ctx) n of None \<Rightarrow> pfns = [] | Some pages \<Rightarrow> pfns = sort pages"
    using BalloonAllocatePfnArray_law [OF assms(1,2,4,3,5,6), of k] by blast
  have len: "length pfns \<le> XENBUS_BALLOON_PFN_ARRAY_SIZE" using al(2) assms(6) by simp
  have inU: "set pfns \<subseteq> U" using balloon_at_U [OF al(5)] by blast
  show ?thesis
  proof (cases "pfns = []")
    case True
    then have "inflate_round env k n ctx = Some (STATUS_RETRY, 0, ctx1)" using al(1) by (simp add: inflate_round_def BalloonReleasePfnArray_def Let_def)
    then show ?thesis using True al left_over_all [of "[]" 0]
      by (intro exI [of _ "[]"] exI [of _ 0] exI [of _ STATUS_RETRY] exI [of _ rs] exI [of _ ctx1]) (simp split: option.splits)
  next
    case False
    define m where "m = released env k (length pfns)"
    obtain rs' ctx2 where rel: "BalloonReleasePfnArray env k (length pfns) ctx1 = Some (m, ctx2)" "same_size ctx1 ctx2" "m \<le> length pfns"
      "bl_PfnArray ctx2 = zero_first m (array_of pfns)" "balloon_at U (set (drop m pfns)) rs' ctx2" "set (drop m pfns) \<subseteq> bl_Xen ctx2"
      "card (rs_items rs') = card (rs_items rs) + m"
      using BalloonReleasePfnArray_law [OF assms(1,2) al(5,4,6) len al(3) False m_def] by blast
    let ?n = "length pfns - m"
    let ?moved = "take ?n (drop m (bl_PfnArray ctx2)) @ drop ?n (bl_PfnArray ctx2)"
    have moved: "take (length (drop m pfns)) ?moved = drop m pfns" "length ?moved = XENBUS_BALLOON_PFN_ARRAY_SIZE"
      using take_drop_zero_first [OF len rel(3)] rel(4) len by simp_all
    have at: "balloon_at U (set (drop m pfns)) rs' (ctx2\<lparr>bl_PfnArray := ?moved\<rparr>)" using rel(5) by (simp add: balloon_at_def)
    have "?n \<le> XENBUS_BALLOON_PFN_ARRAY_SIZE" using len by linarith
    then obtain ctx3 where free: "BalloonFreePfnArray env k ?n (ctx2\<lparr>bl_PfnArray := ?moved\<rparr>) = Some (?n, ctx3)"
      "bl_PfnArray ctx3 = left_over m pfns" "balloon_at U {} rs' ctx3" "same_size ctx2 ctx3"
      using BalloonFreePfnArray_law [OF assms(1,2) at, of k] moved rel(4,6) len by (auto simp: left_over_def Let_def same_size_def)
    let ?ctx' = "if m < length pfns then ctx3 else ctx2"
    have all: "m = length pfns" if "\<not> m < length pfns" using that rel(3) by simp
    have "balloon_at U {} rs' ?ctx'" "bl_PfnArray ?ctx' = left_over m pfns"
      using free(2,3) rel(4,5) all left_over_all [OF len, of m] zero_first_array [OF len] by auto
    moreover have "same_size ctx ?ctx'" using same_size_trans [OF al(7) rel(2)] same_size_trans [OF _ free(4)] by simp
    moreover have "inflate_round env k n ctx = Some (if m = 0 then STATUS_RETRY else if length pfns < n \<or> slow then STATUS_RETRY else STATUS_SUCCESS, m, ?ctx')"
      using al(1) rel(1) free(1) by (simp add: inflate_round_def Let_def)
    ultimately show ?thesis using al(2,8) inU rel(3,7) False m_def
      by (intro exI [of _ pfns] exI [of _ m] exI [of _ "if m = 0 then STATUS_RETRY else if length pfns < n \<or> slow then STATUS_RETRY else STATUS_SUCCESS"]
          exI [of _ rs'] exI [of _ ?ctx']) auto
  qed
qed

lemma inflate_round_law:
  assumes "env_ok env" and "universe_ok U" and "balloon_rest U s ctx" and "0 < n" "n \<le> XENBUS_BALLOON_PFN_ARRAY_SIZE"
  shows "\<exists>status m ctx'. inflate_round env k n ctx = Some (status, m, ctx') \<and> m \<le> n \<and> (NT_SUCCESS status \<longrightarrow> m = n) \<and>
     balloon_rest U (s + m) ctx' \<and> same_size ctx ctx'"
proof -
  from assms(3) obtain rs where rs: "bl_PfnArray ctx = array_of []" "balloon_at U {} rs ctx" "card (rs_items rs) = s" by (auto simp: balloon_rest_def)
  from inflate_round_part [OF env_ok_part [OF assms(1)] assms(2) rs(1,2) assms(4,5), of k] obtain pfns m status rs' ctx' where
    r: "m = (if pfns = [] then 0 else released env k (length pfns))" "m \<le> length pfns" "length pfns \<le> n"
      "inflate_round env k n ctx = Some (status, m, ctx')" "NT_SUCCESS status \<longrightarrow> length pfns = n \<and> 0 < m"
      "bl_PfnArray ctx' = left_over m pfns" "balloon_at U {} rs' ctx'" "card (rs_items rs') = card (rs_items rs) + m" "same_size ctx ctx'" by blast
  have "m = 0 \<or> m = length pfns" using assms(1) r(1) unfolding env_ok_def released_def by (auto simp: split_beta)
  then have "bl_PfnArray ctx' = array_of []" "NT_SUCCESS status \<longrightarrow> m = n" using r(3,5,6) left_over_all [of pfns m] assms(5) by auto
  then show ?thesis using r(2-4,7-9) rs(3) by (auto simp: balloon_rest_def)
qed

section \<open>The loops\<close>

lemma deflate_loop_law:
  "env_ok env \<Longrightarrow> universe_ok U \<Longrightarrow> balloon_rest U s ctx \<Longrightarrow> Count \<le> Requested \<Longrightarrow> Requested - Count \<le> s \<Longrightarrow>
     NT_SUCCESS status0 \<Longrightarrow>
     \<exists>status c ctx'. deflate_loop env k Requested Count status0 ctx = Some (status, c, ctx') \<and> Count \<le> c \<and> c \<le> Requested \<and>
       (NT_SUCCESS status \<longrightarrow> c = Requested) \<and> balloon_rest U (s - (c - Count)) ctx' \<and> same_size ctx ctx'"
proof (induction "Requested - Count" arbitrary: Count s k status0 ctx rule: less_induct)
  case less
  show ?case
  proof (cases "Count < Requested")
    case False
    then have "deflate_loop env k Requested Count status0 ctx = Some (status0, Count, ctx)" by (intro trans [OF deflate_loop.simps]) simp
    then show ?thesis using less.prems False by (simp add: same_size_def)
  next
    case True
    let ?n = "min (Requested - Count) XENBUS_BALLOON_PFN_ARRAY_SIZE"
    have n: "0 < ?n" "?n \<le> XENBUS_BALLOON_PFN_ARRAY_SIZE" "?n \<le> s" using True less.prems(5) by (auto simp: XENBUS_BALLOON_PFN_ARRAY_SIZE_def)
    obtain st m ctx1 where r: "deflate_round env k ?n ctx = Some (st, m, ctx1)" "m \<le> ?n" "NT_SUCCESS st \<longrightarrow> m = ?n"
      "balloon_rest U (s - m) ctx1" "same_size ctx ctx1" using deflate_round_law [OF less.prems(1-3) n, of k] by blast
    have step: "deflate_loop env k Requested Count status0 ctx = deflate_loop env (k + 1) Requested (Count + m) st ctx1"
      by (rule trans [OF deflate_loop.simps]) (use True less.prems(6) r(1) in simp)
    show ?thesis
    proof (cases "NT_SUCCESS st")
      case False
      then have "deflate_loop env (k + 1) Requested (Count + m) st ctx1 = Some (st, Count + m, ctx1)" by (intro trans [OF deflate_loop.simps]) simp
      then show ?thesis using step r(2,4,5) False True by auto
    next
      case True
      have m: "0 < m" "Count + m \<le> Requested" using True r(3) n(1) by auto
      then have less: "Requested - (Count + m) < Requested - Count" "Requested - (Count + m) \<le> s - m" using less.prems(5) by linarith+
      then obtain st' c ctx2 where "deflate_loop env (k + 1) Requested (Count + m) st ctx1 = Some (st', c, ctx2)" "Count + m \<le> c" "c \<le> Requested"
        "NT_SUCCESS st' \<longrightarrow> c = Requested" "balloon_rest U (s - m - (c - (Count + m))) ctx2" "same_size ctx1 ctx2"
        using less.hyps [OF less(1) less.prems(1,2) r(4) m(2) less(2) True, of "k + 1"] by blast
      then show ?thesis using step same_size_trans [OF r(5)] m by auto
    qed
  qed
qed

lemma inflate_loop_law:
  "env_ok env \<Longrightarrow> universe_ok U \<Longrightarrow> balloon_rest U s ctx \<Longrightarrow> Count \<le> Requested \<Longrightarrow> NT_SUCCESS status0 \<Longrightarrow>
     \<exists>status c ctx'. inflate_loop env k Requested Count status0 ctx = Some (status, c, ctx') \<and> Count \<le> c \<and> c \<le> Requested \<and>
       (NT_SUCCESS status \<longrightarrow> c = Requested) \<and> balloon_rest U (s + (c - Count)) ctx' \<and> same_size ctx ctx'"
proof (induction "Requested - Count" arbitrary: Count s k status0 ctx rule: less_induct)
  case less
  show ?case
  proof (cases "Count < Requested")
    case False
    then have "inflate_loop env k Requested Count status0 ctx = Some (status0, Count, ctx)" by (intro trans [OF inflate_loop.simps]) simp
    then show ?thesis using less.prems False by (simp add: same_size_def)
  next
    case True
    let ?n = "min (Requested - Count) XENBUS_BALLOON_PFN_ARRAY_SIZE"
    have n: "0 < ?n" "?n \<le> XENBUS_BALLOON_PFN_ARRAY_SIZE" using True by (auto simp: XENBUS_BALLOON_PFN_ARRAY_SIZE_def)
    obtain st m ctx1 where r: "inflate_round env k ?n ctx = Some (st, m, ctx1)" "m \<le> ?n" "NT_SUCCESS st \<longrightarrow> m = ?n"
      "balloon_rest U (s + m) ctx1" "same_size ctx ctx1" using inflate_round_law [OF less.prems(1-3) n, of k] by blast
    have step: "inflate_loop env k Requested Count status0 ctx = inflate_loop env (k + 1) Requested (Count + m) st ctx1"
      by (rule trans [OF inflate_loop.simps]) (use True less.prems(5) r(1) in simp)
    show ?thesis
    proof (cases "NT_SUCCESS st")
      case False
      then have "inflate_loop env (k + 1) Requested (Count + m) st ctx1 = Some (st, Count + m, ctx1)" by (intro trans [OF inflate_loop.simps]) simp
      then show ?thesis using step r(2,4,5) False True by auto
    next
      case True
      have m: "0 < m" "Count + m \<le> Requested" using True r(3) n(1) by auto
      then have less: "Requested - (Count + m) < Requested - Count" by linarith
      then obtain st' c ctx2 where "inflate_loop env (k + 1) Requested (Count + m) st ctx1 = Some (st', c, ctx2)" "Count + m \<le> c" "c \<le> Requested"
        "NT_SUCCESS st' \<longrightarrow> c = Requested" "balloon_rest U (s + m + (c - (Count + m))) ctx2" "same_size ctx1 ctx2"
        using less.hyps [OF less less.prems(1,2) r(4) m(2) True, of "k + 1"] by blast
      moreover from this have "s + m + (c - (Count + m)) = s + (c - Count)" by simp
      ultimately show ?thesis using step same_size_trans [OF r(5)] m by auto
    qed
  qed
qed

section \<open>Properties\<close>

text \<open>
  The accounts of a balloon over the frames \<open>U\<close>: each is with Windows or in the range set, what Windows has
  has memory behind it, what is in the set has none, the size counts the set, and the array is empty.
\<close>

definition balloon_wf :: "int set \<Rightarrow> XENBUS_BALLOON_CONTEXT \<Rightarrow> bool" where
  "balloon_wf U ctx \<longleftrightarrow> bl_PfnArray ctx = replicate XENBUS_BALLOON_PFN_ARRAY_SIZE 0 \<and> bl_Os ctx \<subseteq> bl_Xen ctx \<and>
     (case bl_RangeSet ctx of None \<Rightarrow> False | Some rs \<Rightarrow> rs_wf rs \<and> rs_items rs \<union> bl_Os ctx = U \<and> rs_items rs \<inter> bl_Os ctx = {} \<and>
        rs_items rs \<inter> bl_Xen ctx = {} \<and> card (rs_items rs) = bl_Size ctx)"

lemma balloon_wf_rest: "balloon_wf U ctx \<longleftrightarrow> balloon_rest U (bl_Size ctx) ctx"
  by (auto simp: balloon_wf_def balloon_rest_def balloon_at_def rs.accounts_def array_of_def split: option.splits)

lemma balloon_rest_update: "balloon_rest U n ctx \<Longrightarrow> balloon_rest U n (ctx\<lparr>bl_Size := m\<rparr>)" "balloon_rest U n ctx \<Longrightarrow> balloon_rest U n (ctx\<lparr>bl_FIST := f\<rparr>)"
  by (simp_all add: balloon_rest_def balloon_at_def)

lemma BalloonDeflate_law:
  assumes "env_ok env" and "universe_ok U" and "balloon_wf U ctx" and "n \<le> bl_Size ctx"
  shows "\<exists>status c ctx'. BalloonDeflate env n ctx = Some (status, ctx') \<and> balloon_wf U ctx' \<and> c \<le> n \<and> bl_Size ctx' = bl_Size ctx - c \<and>
     (NT_SUCCESS status \<longrightarrow> c = n)"
proof (cases "fist_Deflation (bl_FIST ctx)")
  case True
  then show ?thesis using assms(3) by (intro exI [of _ STATUS_UNSUCCESSFUL] exI [of _ 0] exI [of _ ctx]) (simp add: BalloonDeflate_def)
next
  case False
  obtain status c ctx1 where l: "deflate_loop env 0 n 0 STATUS_SUCCESS ctx = Some (status, c, ctx1)" "c \<le> n" "NT_SUCCESS status \<longrightarrow> c = n"
    "balloon_rest U (bl_Size ctx - c) ctx1" "same_size ctx ctx1"
    using deflate_loop_law [OF assms(1,2) assms(3) [unfolded balloon_wf_rest], of 0 n STATUS_SUCCESS 0] assms(4) by auto
  let ?ctx' = "ctx1\<lparr>bl_Size := bl_Size ctx1 - c\<rparr>"
  have "balloon_wf U ?ctx'" using balloon_rest_update(1) [OF l(4)] l(5) by (simp add: balloon_wf_rest same_size_def)
  then show ?thesis using l False by (intro exI [of _ status] exI [of _ c] exI [of _ ?ctx']) (simp add: BalloonDeflate_def same_size_def)
qed

lemma BalloonInflate_law:
  assumes "env_ok env" and "universe_ok U" and "balloon_wf U ctx"
  shows "\<exists>status c ctx'. BalloonInflate env n ctx = Some (status, ctx') \<and> balloon_wf U ctx' \<and> c \<le> n \<and> bl_Size ctx' = bl_Size ctx + c \<and>
     (NT_SUCCESS status \<longrightarrow> c = n)"
proof (cases "fist_Inflation (bl_FIST ctx) \<or> be_low env")
  case True
  then show ?thesis using assms(3)
    by (intro exI [of _ "if fist_Inflation (bl_FIST ctx) then STATUS_UNSUCCESSFUL else STATUS_NO_MEMORY"] exI [of _ 0] exI [of _ ctx])
      (auto simp: BalloonInflate_def)
next
  case False
  obtain status c ctx1 where l: "inflate_loop env 0 n 0 STATUS_SUCCESS ctx = Some (status, c, ctx1)" "c \<le> n" "NT_SUCCESS status \<longrightarrow> c = n"
    "balloon_rest U (bl_Size ctx + c) ctx1" "same_size ctx ctx1"
    using inflate_loop_law [OF assms(1,2) assms(3) [unfolded balloon_wf_rest], of 0 n STATUS_SUCCESS 0] by auto
  let ?ctx' = "ctx1\<lparr>bl_Size := bl_Size ctx1 + c\<rparr>"
  have "balloon_wf U ?ctx'" using balloon_rest_update(1) [OF l(4)] l(5) by (simp add: balloon_wf_rest same_size_def)
  then show ?thesis using l False by (intro exI [of _ status] exI [of _ c] exI [of _ ?ctx']) (simp add: BalloonInflate_def same_size_def)
qed

lemma adjust_stops: "bl_Size ctx = Size \<or> \<not> NT_SUCCESS status \<Longrightarrow> adjust_loop envs n Size status ctx = Some (status, ctx)"
  by (intro trans [OF adjust_loop.simps]) auto

lemma adjust_law:
  assumes "\<forall>n. env_ok (envs n)" and "universe_ok U" and "balloon_wf U ctx"
  shows "\<exists>status ctx'. adjust_loop envs n Size STATUS_SUCCESS ctx = Some (status, ctx') \<and> balloon_wf U ctx' \<and>
     (NT_SUCCESS status \<longrightarrow> bl_Size ctx' = Size) \<and> min (bl_Size ctx) Size \<le> bl_Size ctx' \<and> bl_Size ctx' \<le> max (bl_Size ctx) Size"
proof -
  have env: "env_ok (envs n)" using assms(1) by blast
  consider "bl_Size ctx = Size" | "bl_Size ctx < Size" | "Size < bl_Size ctx" by linarith
  then show ?thesis
  proof cases
    case 1
    then show ?thesis using adjust_stops assms(3) by auto
  next
    case 2
    obtain status c ctx1 where i: "BalloonInflate (envs n) (Size - bl_Size ctx) ctx = Some (status, ctx1)" "balloon_wf U ctx1"
      "c \<le> Size - bl_Size ctx" "bl_Size ctx1 = bl_Size ctx + c" "NT_SUCCESS status \<longrightarrow> c = Size - bl_Size ctx"
      using BalloonInflate_law [OF env assms(2,3)] by blast
    have "adjust_loop envs n Size STATUS_SUCCESS ctx = adjust_loop envs (n + 1) Size status ctx1"
      by (rule trans [OF adjust_loop.simps]) (use 2 i(1) in simp)
    also have "\<dots> = Some (status, ctx1)" using i(4,5) 2 by (intro adjust_stops) auto
    finally show ?thesis using i 2 by auto
  next
    case 3
    obtain status c ctx1 where i: "BalloonDeflate (envs n) (bl_Size ctx - Size) ctx = Some (status, ctx1)" "balloon_wf U ctx1"
      "c \<le> bl_Size ctx - Size" "bl_Size ctx1 = bl_Size ctx - c" "NT_SUCCESS status \<longrightarrow> c = bl_Size ctx - Size"
      using BalloonDeflate_law [OF env assms(2,3), of "bl_Size ctx - Size"] 3 by auto
    have "adjust_loop envs n Size STATUS_SUCCESS ctx = adjust_loop envs (n + 1) Size status ctx1"
      by (rule trans [OF adjust_loop.simps]) (use 3 i(1) in simp)
    also have "\<dots> = Some (status, ctx1)" using i(4,5) 3 by (intro adjust_stops) auto
    finally show ?thesis using i 3 by auto
  qed
qed

text \<open>
  Adjusting the balloon ends and stops in no assertion. Every frame stays accounted for, with Windows or
  in the range set, Windows never gets a page without memory behind it, and the size is the number of
  frames in the set. The size moves towards the target and not past it, and a success is the target.
\<close>
theorem BalloonAdjust_keeps_accounts:
  assumes "\<forall>n. env_ok (envs n)" and "universe_ok U" and "balloon_wf U ctx"
  shows "\<exists>status ctx'. BalloonAdjust envs inflation deflation Size ctx = Some (status, ctx') \<and> balloon_wf U ctx' \<and>
     (NT_SUCCESS status \<longrightarrow> BalloonGetSize ctx' = Size) \<and>
     min (BalloonGetSize ctx) Size \<le> BalloonGetSize ctx' \<and> BalloonGetSize ctx' \<le> max (BalloonGetSize ctx) Size"
proof -
  let ?ctx = "BalloonGetFISTEntries inflation deflation ctx"
  have "balloon_wf U ?ctx" using assms(3) by (simp add: balloon_wf_def BalloonGetFISTEntries_def split: option.splits)
  moreover have "bl_Size ?ctx = bl_Size ctx" by (simp add: BalloonGetFISTEntries_def)
  ultimately show ?thesis using adjust_law [OF assms(1,2), of ?ctx 0 Size] by (simp add: BalloonAdjust_def BalloonGetSize_def)
qed


text \<open>A machine of 16 frames, all with Windows, whose answers are the best ones.\<close>

definition sample_env :: balloon_env where
  "sample_env = \<lparr>be_low = False, be_pages = (\<lambda>k os n. if 2 \<in> os \<and> 5 \<in> os \<and> 2 \<le> n then Some [5, 2] else None), be_time = (\<lambda>k. (0, 10000)),
     be_decrease = (\<lambda>k n. (STATUS_SUCCESS, n)), be_populate = (\<lambda>k n. (STATUS_SUCCESS, n)), be_add = (\<lambda>k x. STATUS_SUCCESS),
     be_put = (\<lambda>k i. True), be_get = (\<lambda>k i. True)\<rparr>"

definition sample_balloon :: XENBUS_BALLOON_CONTEXT where
  "sample_balloon = \<lparr>bl_Fdo = True, bl_References = 1, bl_LowMemoryEvent = True, bl_Size = 0, bl_PfnArray = replicate XENBUS_BALLOON_PFN_ARRAY_SIZE 0,
     bl_RangeSetInterface = True, bl_RangeSets = \<lparr>rsc_References = 1, rsc_Debug = True, rsc_DebugCallback = True, rsc_List = [''balloon'']\<rparr>,
     bl_RangeSet = Some \<lparr>rs_Name = ''balloon'', rs_List = [], rs_Cursor = None, rs_RangeCount = 0, rs_ItemCount = 0, rs_Spare = None\<rparr>,
     bl_StoreInterface = True, bl_Store = True, bl_FIST = \<lparr>fist_Inflation = False, fist_Deflation = False\<rparr>, bl_Os = {1 .. 16}, bl_Xen = {1 .. 16}\<rparr>"

lemma sample_balloon_ok: "env_ok sample_env" "universe_ok {1 .. 16}" "balloon_wf {1 .. 16} sample_balloon"
proof -
  show "env_ok sample_env" by (auto simp: env_ok_def env_part_def sample_env_def split: if_splits)
  show "universe_ok {1 .. 16}" by (auto simp: universe_ok_def)
  have "rs_wf \<lparr>rs_Name = ''balloon'', rs_List = [], rs_Cursor = None, rs_RangeCount = 0, rs_ItemCount = 0, rs_Spare = None\<rparr> \<and>
      rs_items \<lparr>rs_Name = ''balloon'', rs_List = [], rs_Cursor = None, rs_RangeCount = 0, rs_ItemCount = 0, rs_Spare = None\<rparr> = {}"
    by (rule RangeSetCreate_wf [of True STATUS_SUCCESS _ "''balloon''"]) (simp add: RangeSetCreate_def)
  then show "balloon_wf {1 .. 16} sample_balloon" by (simp add: balloon_wf_def sample_balloon_def)
qed

theorem BalloonAdjust_keeps_accounts_witness:
  "\<exists>status ctx'. BalloonAdjust (\<lambda>_. sample_env) None None 2 sample_balloon = Some (status, ctx') \<and> balloon_wf {1 .. 16} ctx' \<and>
     (NT_SUCCESS status \<longrightarrow> BalloonGetSize ctx' = 2) \<and>
     min (BalloonGetSize sample_balloon) 2 \<le> BalloonGetSize ctx' \<and> BalloonGetSize ctx' \<le> max (BalloonGetSize sample_balloon) 2"
  using BalloonAdjust_keeps_accounts [of "\<lambda>_. sample_env" "{1 .. 16}" sample_balloon None None 2] sample_balloon_ok by simp

section \<open>A partial release\<close>

text \<open>The last frame of a round of which only a part was released is still in the array after the round.\<close>

lemma zero_first_nth: "i < length xs \<Longrightarrow> zero_first m xs ! i = (if i < m then 0 else xs ! i)"
  by (auto simp: zero_first_def nth_append min_def)

lemma left_over_part:
  assumes "0 < m" "m < length pfns" "length pfns \<le> XENBUS_BALLOON_PFN_ARRAY_SIZE"
  shows "left_over m pfns ! (length pfns - 1) = pfns ! (length pfns - 1)" "length (left_over m pfns) = XENBUS_BALLOON_PFN_ARRAY_SIZE"
proof -
  let ?arr = "zero_first m (array_of pfns)" and ?n = "length pfns - m"
  let ?moved = "take ?n (drop m ?arr) @ drop ?n ?arr"
  have L: "length ?moved = XENBUS_BALLOON_PFN_ARRAY_SIZE" using assms by simp
  have "left_over m pfns ! (length pfns - 1) = ?moved ! (length pfns - 1)"
    unfolding left_over_def Let_def using L assms by (subst zero_first_nth) auto
  also have "\<dots> = ?arr ! (length pfns - 1)"
  proof -
    have "length (take ?n (drop m ?arr)) = ?n" "?n \<le> length pfns - 1" using assms by simp_all
    then show ?thesis using assms by (simp add: nth_append)
  qed
  also have "\<dots> = pfns ! (length pfns - 1)" using assms by (subst zero_first_nth) (auto simp: array_of_def nth_append)
  finally show "left_over m pfns ! (length pfns - 1) = pfns ! (length pfns - 1)" .
  show "length (left_over m pfns) = XENBUS_BALLOON_PFN_ARRAY_SIZE" using L by (simp add: left_over_def Let_def)
qed

lemma zero_prefix_False:
  assumes "i < n" and "i < length xs" and "xs ! i \<noteq> 0"
  shows "\<not> zero_prefix n xs"
proof -
  have "xs ! i \<in> set (take n xs)" using assms(1,2) by (auto simp: in_set_conv_nth)
  then show ?thesis using assms(3) by (auto simp: zero_prefix_def list_all_iff)
qed

text \<open>What a deflation to nothing and the last release leave for the teardown.\<close>

definition given_back :: "XENBUS_BALLOON_CONTEXT \<Rightarrow> XENBUS_BALLOON_CONTEXT" where
  "given_back ctx = ctx\<lparr>bl_References := 0, bl_Size := 0, bl_RangeSet := None, bl_FIST := \<lparr>fist_Inflation = False, fist_Deflation = False\<rparr>\<rparr>"

definition clean_array :: "XENBUS_BALLOON_CONTEXT \<Rightarrow> XENBUS_BALLOON_CONTEXT" where
  "clean_array ctx = ctx\<lparr>bl_PfnArray := replicate XENBUS_BALLOON_PFN_ARRAY_SIZE 0\<rparr>"

text \<open>
  C25. When the hypercall releases a part of the pages of a round, and nothing else fails, the round ends with a
  page more in the set for each page released, but frame numbers are left in the array. Because of them the next
  round of at least as many pages stops in the assertion that the array is zero, whether it allocates or
  populates from a set with enough frames, and so does the teardown after everything has been given
  back: all three return if the array is cleared first.
\<close>
theorem BalloonInflate_partial_release_stops:
  assumes "env_part env" and "universe_ok U" and "balloon_wf U ctx" and "0 < n" and "n \<le> XENBUS_BALLOON_PFN_ARRAY_SIZE"
    and "be_pages env k (bl_Os ctx) n = Some pages" and "be_decrease env k (length pages) = (STATUS_SUCCESS, m)" and "0 < m" and "m < length pages"
    and "env_part env'" and "length pages \<le> n'" and "n' \<le> XENBUS_BALLOON_PFN_ARRAY_SIZE" and "n' \<le> bl_Size ctx + m"
  shows "\<exists>status ctx' rs. inflate_round env k n ctx = Some (status, m, ctx') \<and> bl_RangeSet ctx' = Some rs \<and> card (rs_items rs) = bl_Size ctx + m \<and>
     BalloonAllocatePfnArray env' k' n' ctx' = None \<and> BalloonAllocatePfnArray env' k' n' (clean_array ctx') \<noteq> None \<and>
     BalloonPopulatePfnArray env' k' n' ctx' = None \<and> BalloonPopulatePfnArray env' k' n' (clean_array ctx') \<noteq> None \<and>
     BalloonTeardown (given_back ctx') = None \<and> BalloonTeardown (given_back (clean_array ctx')) = Some ()"
proof -
  from assms(3) obtain rs0 where rs0: "bl_PfnArray ctx = array_of []" "balloon_at U {} rs0 ctx" "card (rs_items rs0) = bl_Size ctx"
    by (auto simp: balloon_wf_rest balloon_rest_def)
  from inflate_round_part [OF assms(1,2) rs0(1,2) assms(4,5), of k] obtain pfns m' status rs ctx' where
    r: "m' = (if pfns = [] then 0 else released env k (length pfns))" "length pfns \<le> n" "inflate_round env k n ctx = Some (status, m', ctx')"
      "bl_PfnArray ctx' = left_over m' pfns" "set pfns \<subseteq> U" "pfns = sort pages" "balloon_at U {} rs ctx'" "card (rs_items rs) = bl_Size ctx + m'"
    using assms(6) rs0(3) by auto
  have len: "length pfns = length pages" "length pfns \<le> XENBUS_BALLOON_PFN_ARRAY_SIZE" using r(2,6) assms(5) by simp_all
  then have ne: "pfns \<noteq> []" using assms(9) by auto
  have m: "m' = m" using r(1,6) ne assms(7) by (simp add: released_def)
  have "0 \<notin> U" using universe_frame [OF assms(2)] by fastforce
  moreover have "pfns ! (length pfns - 1) \<in> set pfns" using ne by simp
  ultimately have last: "pfns ! (length pfns - 1) \<noteq> 0" using r(5) by (metis subsetD)
  have "\<not> zero_prefix j (bl_PfnArray ctx')" if "length pages \<le> j" for j
    using zero_prefix_False [of "length pfns - 1" j "bl_PfnArray ctx'"] left_over_part [of m pfns] assms(8,9) len r(4) m last that ne by simp
  then have dirty: "\<not> zero_prefix n' (bl_PfnArray ctx')" "\<not> zero_prefix XENBUS_BALLOON_PFN_ARRAY_SIZE (bl_PfnArray ctx')"
    using assms(11) len by simp_all
  have at: "balloon_at U {} rs (clean_array ctx')" "bl_PfnArray (clean_array ctx') = array_of []"
    using r(7) by (simp_all add: balloon_at_def clean_array_def array_of_def)
  have n': "0 < n'" "n' \<le> card (rs_items rs)" using assms(8,9,11,13) r(8) m by simp_all
  have "BalloonAllocatePfnArray env' k' n' (clean_array ctx') \<noteq> None" "BalloonPopulatePfnArray env' k' n' (clean_array ctx') \<noteq> None"
    using BalloonAllocatePfnArray_law [OF assms(10,2) at n'(1) assms(12), of k'] BalloonPopulatePfnArray_law [OF assms(10,2) at n'(1) assms(12) n'(2), of k']
    by auto
  moreover have "BalloonTeardown (given_back ctx') = None" "BalloonTeardown (given_back (clean_array ctx')) = Some ()"
    using dirty(2) by (simp_all add: BalloonTeardown_def given_back_def clean_array_def ASSERT_def zero_prefix_replicate)
  moreover have "bl_RangeSet ctx' = Some rs" using r(7) by (simp add: balloon_at_def)
  ultimately show ?thesis using r(3,8) m dirty(1)
    by (intro exI [of _ status] exI [of _ ctx'] exI [of _ rs]) (simp add: BalloonAllocatePfnArray_def BalloonPopulatePfnArray_def ASSERT_def)
qed

text \<open>The same machine with one frame in the balloon.\<close>

definition sample_set :: XENBUS_RANGE_SET where
  "sample_set = snd (the (RangeSetPut True (the (bl_RangeSet sample_balloon)) 1 1))"

definition sample_inflated :: XENBUS_BALLOON_CONTEXT where
  "sample_inflated = sample_balloon\<lparr>bl_Size := 1, bl_RangeSet := Some sample_set, bl_Os := {2 .. 16}, bl_Xen := {2 .. 16}\<rparr>"

lemma sample_inflated_ok: "balloon_wf {1 .. 16} sample_inflated"
proof -
  obtain rs where rs: "bl_RangeSet sample_balloon = Some rs" "rs_wf rs" "rs_items rs = {}"
    using sample_balloon_ok(3) by (auto simp: balloon_wf_def sample_balloon_def split: option.splits)
  from rs.put_law [OF rs(2), of 1 1] obtain rs1 where "RangeSetPut True rs 1 1 = Some (STATUS_SUCCESS, rs1)" "rs_wf rs1" "rs_items rs1 = {1}"
    using rs(3) by auto
  then have "rs_wf sample_set" "rs_items sample_set = {1}" using rs(1) by (simp_all add: sample_set_def)
  moreover have "{1} \<union> {2 .. 16} = {1 .. (16 :: int)}" by auto
  ultimately show ?thesis by (simp add: balloon_wf_def sample_inflated_def sample_balloon_def)
qed

theorem BalloonInflate_partial_release_stops_witness:
  "\<exists>status ctx' rs. inflate_round (sample_env\<lparr>be_decrease := (\<lambda>k n. (STATUS_SUCCESS, n div 2))\<rparr>) 0 4 sample_inflated = Some (status, 1, ctx') \<and>
     bl_RangeSet ctx' = Some rs \<and> card (rs_items rs) = 2 \<and>
     BalloonAllocatePfnArray sample_env 1 2 ctx' = None \<and> BalloonAllocatePfnArray sample_env 1 2 (clean_array ctx') \<noteq> None \<and>
     BalloonPopulatePfnArray sample_env 1 2 ctx' = None \<and> BalloonPopulatePfnArray sample_env 1 2 (clean_array ctx') \<noteq> None \<and>
     BalloonTeardown (given_back ctx') = None \<and> BalloonTeardown (given_back (clean_array ctx')) = Some ()"
proof -
  let ?env = "sample_env\<lparr>be_decrease := (\<lambda>k n. (STATUS_SUCCESS, n div 2))\<rparr>"
  have env: "env_part ?env" by (auto simp: env_part_def sample_env_def split: if_splits)
  have pages: "be_pages ?env 0 (bl_Os sample_inflated) 4 = Some [5, 2]" "be_decrease ?env 0 (length [5, 2 :: int]) = (STATUS_SUCCESS, 1)"
    "bl_Size sample_inflated = 1" by (simp_all add: sample_env_def sample_inflated_def)
  from BalloonInflate_partial_release_stops [OF env sample_balloon_ok(2) sample_inflated_ok _ _ pages(1,2) _ _ env_ok_part [OF sample_balloon_ok(1)], of 2 1]
  show ?thesis unfolding pages(3) by (simp add: XENBUS_BALLOON_PFN_ARRAY_SIZE_def numeral_2_eq_2)
qed

end
