(* ===== verification/Registry.thy ===== *)
theory Registry
  imports Util "HOL-Library.Multiset"
begin

text \<open>
  The registry routines of src/src/common/registry.c, which every driver of the package links: reading and
  writing values, arrays of strings, enumeration, opening and creating keys, and the options of the system
  start.

  \<^item> The kernel's keys are behind the records \<open>zw\<close> (the values of a key) and \<open>zw_keys\<close> (opening and creating),
    whose functions are parameters; \<open>zw_ok\<close> is what the documentation says of setting, reading and deleting
    a value. A kernel may refuse any call.
  \<^item> The data of a value are bytes. A routine that looks for the NUL of a string in a buffer without one
    leaves the buffer: \<^const>\<open>None\<close>.
  \<^item> The code page of the machine is a parameter with a character for a character, as the code assumes in the
    sizes of its buffers. Strings longer than a \<^verbatim>\<open>UNICODE_STRING\<close> can hold (32766 characters) are left out:
    reading one is \<^const>\<open>None\<close> as well.
  \<^item> Buffers are freed on every path by the code and are not tracked; open handles are.
\<close>

section \<open>Data\<close>

type_synonym WSTR = "16 word list"
type_synonym HANDLE = nat

datatype REG_TYPE = REG_SZ | REG_MULTI_SZ | REG_DWORD | REG_QWORD | REG_BINARY | REG_OTHER nat

record VALUE =
  val_Type :: REG_TYPE
  val_Data :: "8 word list"

record code_page =
  cp_wide :: "char \<Rightarrow> 16 word"
  cp_ansi :: "16 word \<Rightarrow> char"

definition code_page_ok :: "code_page \<Rightarrow> bool" where
  "code_page_ok cp \<longleftrightarrow> (\<forall>c. cp_ansi cp (cp_wide cp c) = c \<and> (cp_wide cp c = 0 \<longleftrightarrow> c = CHR 0x00))"

record 'k zw =
  zw_query :: "'k \<Rightarrow> WSTR \<Rightarrow> NTSTATUS \<times> VALUE"
  zw_set :: "'k \<Rightarrow> WSTR \<Rightarrow> REG_TYPE \<Rightarrow> 8 word list \<Rightarrow> NTSTATUS \<times> 'k"
  zw_delete :: "'k \<Rightarrow> WSTR \<Rightarrow> NTSTATUS \<times> 'k"

definition zw_ok :: "'k zw \<Rightarrow> bool" where
  "zw_ok zw \<longleftrightarrow>
     (\<forall>k n t d s k'. zw_set zw k n t d = (s, k') \<longrightarrow>
        (if NT_SUCCESS s then zw_query zw k' n = (STATUS_SUCCESS, \<lparr>val_Type = t, val_Data = d\<rparr>) \<and> (\<forall>m. m \<noteq> n \<longrightarrow> zw_query zw k' m = zw_query zw k m)
         else k' = k)) \<and>
     (\<forall>k n s k'. zw_delete zw k n = (s, k') \<longrightarrow>
        (if NT_SUCCESS s then \<not> NT_SUCCESS (fst (zw_query zw k' n)) \<and> (\<forall>m. m \<noteq> n \<longrightarrow> zw_query zw k' m = zw_query zw k m)
         else k' = k))"

text \<open>The answers to requests for memory: the conversion of the name, the buffer of the value, an array, its strings.\<close>

record reg_mem =
  rm_Name :: NTSTATUS
  rm_Partial :: bool
  rm_Array :: bool
  rm_Buffer :: "nat \<Rightarrow> bool"

definition plenty :: reg_mem where
  "plenty = \<lparr>rm_Name = STATUS_SUCCESS, rm_Partial = True, rm_Array = True, rm_Buffer = (\<lambda>i. True)\<rparr>"

lemma plenty_simps [simp]: "rm_Name plenty = STATUS_SUCCESS" "rm_Partial plenty" "rm_Array plenty" "rm_Buffer plenty i"
  by (simp_all add: plenty_def)

text \<open>Little-endian bytes, and the characters of a buffer.\<close>

fun le_bytes :: "nat \<Rightarrow> nat \<Rightarrow> 8 word list" where
  "le_bytes 0 x = []"
| "le_bytes (Suc n) x = of_nat (x mod 256) # le_bytes n (x div 256)"

fun le_value :: "8 word list \<Rightarrow> nat" where
  "le_value [] = 0"
| "le_value (b # bs) = unat b + 256 * le_value bs"

fun wchars :: "8 word list \<Rightarrow> WSTR" where
  "wchars (a # b # bs) = of_nat (le_value [a, b]) # wchars bs"
| "wchars bs = []"

definition wbytes :: "WSTR \<Rightarrow> 8 word list" where
  "wbytes s = concat (map (\<lambda>w. le_bytes 2 (unat w)) s)"

lemma length_le_bytes [simp]: "length (le_bytes n x) = n"
  by (induction n arbitrary: x) simp_all

lemma le_value_bytes [simp]: "le_value (le_bytes n x) = x mod 256 ^ n"
proof (induction n arbitrary: x)
  case (Suc n)
  have "unat (of_nat (x mod 256) :: 8 word) = x mod 256" by (simp add: unat_of_nat)
  then show ?case using Suc by (simp add: mod_mult2_eq)
qed simp

lemma wchars_Cons: "wchars (le_bytes 2 (unat w) @ bs) = w # wchars bs"
proof -
  have "unat w < 2 ^ LENGTH(16)" by (rule unsigned_less)
  then have "of_nat (le_value (le_bytes 2 (unat w))) = w" by simp
  then show ?thesis by (simp add: numeral_2_eq_2)
qed

lemma wchars_wbytes [simp]: "wchars (wbytes s) = s"
  by (induction s) (simp_all add: wbytes_def wchars_Cons)

section \<open>Strings\<close>

text \<open>\<^verbatim>\<open>wcslen\<close> with the string it measures.\<close>

fun wcs :: "WSTR \<Rightarrow> WSTR kernel" where
  "wcs [] = None"
| "wcs (c # cs) = (if c = 0 then Some [] else do { s \<leftarrow> wcs cs; Some (c # s) })"

lemma wcs_shorter: "wcs Buffer = Some s \<Longrightarrow> length s < length Buffer"
  by (induction Buffer arbitrary: s) (auto split: if_splits bind_splits)

lemma wcs_append: "0 \<notin> set s \<Longrightarrow> wcs (s @ 0 # rest) = Some s"
  by (induction s) auto

definition UNICODE_CHARS_MAX :: nat where
  "UNICODE_CHARS_MAX = 32766"

definition RegistrySzToAnsi :: "code_page \<Rightarrow> reg_mem \<Rightarrow> WSTR \<Rightarrow> string list option kernel" where
  "RegistrySzToAnsi cp mem Buffer =
     (if \<not> rm_Array mem then Some None
      else do {
        s \<leftarrow> wcs Buffer;
        (if \<not> rm_Buffer mem 0 then Some None
         else do {
           ASSERT (length s \<le> UNICODE_CHARS_MAX);
           Some (Some [map (cp_ansi cp) s])
         })
      })"

text \<open>The loop that counts the strings of a list, up to its empty one.\<close>

function multi_count :: "WSTR \<Rightarrow> nat kernel" where
  "multi_count Buffer =
     (case wcs Buffer of
        None \<Rightarrow> None
      | Some s \<Rightarrow> if s = [] then Some 0 else do { n \<leftarrow> multi_count (drop (length s + 1) Buffer); Some (n + 1) })"
  by pat_completeness auto
termination
  by (relation "measure length") (auto dest: wcs_shorter)

declare multi_count.simps [simp del]

fun multi_strings :: "code_page \<Rightarrow> reg_mem \<Rightarrow> nat \<Rightarrow> nat \<Rightarrow> WSTR \<Rightarrow> string list option kernel" where
  "multi_strings cp mem Index 0 Buffer = Some (Some [])"
| "multi_strings cp mem Index (Suc n) Buffer =
     do {
       s \<leftarrow> wcs Buffer;
       (if \<not> rm_Buffer mem Index then Some None
        else do {
          ASSERT (length s \<le> UNICODE_CHARS_MAX);
          rest \<leftarrow> multi_strings cp mem (Index + 1) n (drop (length s + 1) Buffer);
          Some (case rest of None \<Rightarrow> None | Some strings \<Rightarrow> Some (map (cp_ansi cp) s # strings))
        })
     }"

definition RegistryMultiSzToAnsi :: "code_page \<Rightarrow> reg_mem \<Rightarrow> WSTR \<Rightarrow> string list option kernel" where
  "RegistryMultiSzToAnsi cp mem Buffer =
     do { Count \<leftarrow> multi_count Buffer; (if \<not> rm_Array mem then Some None else multi_strings cp mem 0 Count Buffer) }"

text \<open>
  \<^verbatim>\<open>RtlAnsiStringToUnicodeString\<close> into a buffer of \<open>MaximumLength\<close> bytes: it needs room for the string and its
  NUL.
\<close>

definition ansi_to_unicode :: "code_page \<Rightarrow> nat \<Rightarrow> string \<Rightarrow> WSTR option" where
  "ansi_to_unicode cp MaximumLength s = (if 2 * (length s + 1) \<le> MaximumLength then Some (map (cp_wide cp) s @ [0]) else None)"

definition RegistryAnsiToSz :: "code_page \<Rightarrow> reg_mem \<Rightarrow> string list \<Rightarrow> VALUE option kernel" where
  "RegistryAnsiToSz cp mem Array =
     (case Array of
        [] \<Rightarrow> None
      | Ansi # _ \<Rightarrow>
          let Length = length Ansi + 1 in
          if \<not> rm_Partial mem then Some None
          else case ansi_to_unicode cp ((Length * 2) mod 256) Ansi of
              None \<Rightarrow> Some None
            | Some Data \<Rightarrow> Some (Some \<lparr>val_Type = REG_SZ, val_Data = wbytes Data\<rparr>))"

fun multi_data :: "code_page \<Rightarrow> nat \<Rightarrow> string list \<Rightarrow> WSTR option kernel" where
  "multi_data cp MaximumLength [] = Some (Some [0])"
| "multi_data cp MaximumLength (Ansi # Array) =
     (case ansi_to_unicode cp MaximumLength Ansi of
        None \<Rightarrow> Some None
      | Some Data \<Rightarrow> do {
          ASSERT (MaximumLength \<ge> (length Ansi + 1) * 2);
          rest \<leftarrow> multi_data cp (MaximumLength - (length Ansi + 1) * 2) Array;
          Some (case rest of None \<Rightarrow> None | Some rest1 \<Rightarrow> Some (Data @ rest1))
        })"

definition RegistryAnsiToMultiSz :: "code_page \<Rightarrow> reg_mem \<Rightarrow> string list \<Rightarrow> VALUE option kernel" where
  "RegistryAnsiToMultiSz cp mem Array =
     (let Length = 1 + sum_list (map (\<lambda>Ansi. length Ansi + 1) Array) in
      if \<not> rm_Partial mem then Some None
      else do {
        Data \<leftarrow> multi_data cp ((Length * 2) mod 2 ^ 16) Array;
        Some (case Data of None \<Rightarrow> None | Some d \<Rightarrow> Some \<lparr>val_Type = REG_MULTI_SZ, val_Data = wbytes d\<rparr>)
      })"

section \<open>Values\<close>

text \<open>
  What the queries share: the name is converted, the size asked for, a buffer allocated and the value read.
  A size that can be told comes with one of the two statuses the code lets pass.
\<close>

definition query_partial :: "'k zw \<Rightarrow> code_page \<Rightarrow> reg_mem \<Rightarrow> 'k \<Rightarrow> string \<Rightarrow> NTSTATUS \<times> VALUE option" where
  "query_partial zw cp mem key Name =
     (if \<not> NT_SUCCESS (rm_Name mem) then (rm_Name mem, None)
      else case zw_query zw key (map (cp_wide cp) Name) of (status, Value) \<Rightarrow>
        if \<not> NT_SUCCESS status then (status, None)
        else if \<not> rm_Partial mem then (STATUS_NO_MEMORY, None)
        else (STATUS_SUCCESS, Some Value))"

definition RegistryQueryDwordValue :: "'k zw \<Rightarrow> code_page \<Rightarrow> reg_mem \<Rightarrow> 'k \<Rightarrow> string \<Rightarrow> NTSTATUS \<times> 32 word option" where
  "RegistryQueryDwordValue zw cp mem key Name =
     (case query_partial zw cp mem key Name of
        (status, None) \<Rightarrow> (status, None)
      | (_, Some Partial) \<Rightarrow>
          if val_Type Partial \<noteq> REG_DWORD \<or> length (val_Data Partial) \<noteq> 4 then (STATUS_INVALID_PARAMETER, None)
          else (STATUS_SUCCESS, Some (of_nat (le_value (val_Data Partial)))))"

definition RegistryQueryQwordValue :: "'k zw \<Rightarrow> code_page \<Rightarrow> reg_mem \<Rightarrow> 'k \<Rightarrow> string \<Rightarrow> NTSTATUS \<times> 64 word option" where
  "RegistryQueryQwordValue zw cp mem key Name =
     (case query_partial zw cp mem key Name of
        (status, None) \<Rightarrow> (status, None)
      | (_, Some Partial) \<Rightarrow>
          if val_Type Partial \<noteq> REG_QWORD \<or> length (val_Data Partial) \<noteq> 8 then (STATUS_INVALID_PARAMETER, None)
          else (STATUS_SUCCESS, Some (of_nat (le_value (val_Data Partial)))))"

text \<open>An allocation of no bytes gives NULL (\<^verbatim>\<open>__AllocatePoolWithTag\<close> of util.h).\<close>

definition RegistryQueryBinaryValue :: "'k zw \<Rightarrow> code_page \<Rightarrow> reg_mem \<Rightarrow> 'k \<Rightarrow> string \<Rightarrow> NTSTATUS \<times> 8 word list option" where
  "RegistryQueryBinaryValue zw cp mem key Name =
     (case query_partial zw cp mem key Name of
        (status, None) \<Rightarrow> (status, None)
      | (_, Some Partial) \<Rightarrow>
          if val_Type Partial = REG_BINARY then
            if val_Data Partial = [] \<or> \<not> rm_Buffer mem 0 then (STATUS_NO_MEMORY, None) else (STATUS_SUCCESS, Some (val_Data Partial))
          else (STATUS_INVALID_PARAMETER, None))"

definition RegistryQuerySzValue :: "'k zw \<Rightarrow> code_page \<Rightarrow> reg_mem \<Rightarrow> 'k \<Rightarrow> string \<Rightarrow> (NTSTATUS \<times> (REG_TYPE \<times> string list) option) kernel" where
  "RegistryQuerySzValue zw cp mem key Name =
     (case query_partial zw cp mem key Name of
        (status, None) \<Rightarrow> Some (status, None)
      | (_, Some Value) \<Rightarrow> do {
          (status, Array) \<leftarrow>
            (if val_Type Value = REG_SZ then do { a \<leftarrow> RegistrySzToAnsi cp mem (wchars (val_Data Value)); Some (STATUS_NO_MEMORY, a) }
             else if val_Type Value = REG_MULTI_SZ then do { a \<leftarrow> RegistryMultiSzToAnsi cp mem (wchars (val_Data Value)); Some (STATUS_NO_MEMORY, a) }
             else Some (STATUS_INVALID_PARAMETER, None));
          Some (case Array of None \<Rightarrow> (status, None) | Some a \<Rightarrow> (STATUS_SUCCESS, Some (val_Type Value, a)))
        })"

definition RegistryUpdateDwordValue :: "'k zw \<Rightarrow> code_page \<Rightarrow> reg_mem \<Rightarrow> 'k \<Rightarrow> string \<Rightarrow> 32 word \<Rightarrow> NTSTATUS \<times> 'k" where
  "RegistryUpdateDwordValue zw cp mem key Name Value =
     (if \<not> NT_SUCCESS (rm_Name mem) then (rm_Name mem, key)
      else if \<not> rm_Partial mem then (STATUS_NO_MEMORY, key)
      else case zw_set zw key (map (cp_wide cp) Name) REG_DWORD (le_bytes 4 (unat Value)) of (status, key1) \<Rightarrow>
        if \<not> NT_SUCCESS status then (status, key1) else (STATUS_SUCCESS, key1))"

definition RegistryUpdateBinaryValue :: "'k zw \<Rightarrow> code_page \<Rightarrow> reg_mem \<Rightarrow> 'k \<Rightarrow> string \<Rightarrow> 8 word list \<Rightarrow> NTSTATUS \<times> 'k" where
  "RegistryUpdateBinaryValue zw cp mem key Name Buffer =
     (if \<not> NT_SUCCESS (rm_Name mem) then (rm_Name mem, key)
      else if \<not> rm_Partial mem then (STATUS_NO_MEMORY, key)
      else case zw_set zw key (map (cp_wide cp) Name) REG_BINARY Buffer of (status, key1) \<Rightarrow>
        if \<not> NT_SUCCESS status then (status, key1) else (STATUS_SUCCESS, key1))"

definition RegistryUpdateSzValue :: "'k zw \<Rightarrow> code_page \<Rightarrow> reg_mem \<Rightarrow> 'k \<Rightarrow> string \<Rightarrow> REG_TYPE \<Rightarrow> string list \<Rightarrow> (NTSTATUS \<times> 'k) kernel" where
  "RegistryUpdateSzValue zw cp mem key Name Type Array =
     (if \<not> NT_SUCCESS (rm_Name mem) then Some (rm_Name mem, key)
      else do {
        (status, Partial) \<leftarrow>
          (if Type = REG_SZ then do { p \<leftarrow> RegistryAnsiToSz cp mem Array; Some (STATUS_NO_MEMORY, p) }
           else if Type = REG_MULTI_SZ then do { p \<leftarrow> RegistryAnsiToMultiSz cp mem Array; Some (STATUS_NO_MEMORY, p) }
           else Some (STATUS_INVALID_PARAMETER, None));
        Some (case Partial of
            None \<Rightarrow> (status, key)
          | Some p \<Rightarrow> (case zw_set zw key (map (cp_wide cp) Name) (val_Type p) (val_Data p) of (status, key1) \<Rightarrow>
              if \<not> NT_SUCCESS status then (status, key1) else (STATUS_SUCCESS, key1)))
      })"

definition RegistryDeleteValue :: "'k zw \<Rightarrow> code_page \<Rightarrow> reg_mem \<Rightarrow> 'k \<Rightarrow> string \<Rightarrow> NTSTATUS \<times> 'k" where
  "RegistryDeleteValue zw cp mem key Name =
     (if \<not> NT_SUCCESS (rm_Name mem) then (rm_Name mem, key)
      else case zw_delete zw key (map (cp_wide cp) Name) of (status, key1) \<Rightarrow>
        if \<not> NT_SUCCESS status then (status, key1) else (STATUS_SUCCESS, key1))"

section \<open>The options of the system start\<close>

lemma strtok_cases:
  obtains "strtok_r None D (Some s) = (None, Some s)"
  | t r where "strtok_r None D (Some s) = (Some t, Some r)" and "length r < length s"
proof (cases "dropWhile (\<lambda>c. c \<in> set D) s")
  case Nil
  then show thesis using that(1) by (simp add: strtok_r_next del: dropWhile_eq_Nil_conv)
next
  case (Cons c t)
  then show thesis using that(2) strtok_r_shorter [of D s] by (simp add: strtok_r_next)
qed

text \<open>
  \<open>open\<close> is what opening the key answers. The scan of the options: the loop around the tokenizer, up to the
  first token that starts with the prefix (\<^verbatim>\<open>strncmp\<close> over the length of the prefix).
\<close>

function option_scan :: "string \<Rightarrow> string option \<times> string option \<Rightarrow> string option" where
  "option_scan Prefix (Option, Context) =
     (case Option of
        None \<Rightarrow> None
      | Some token \<Rightarrow>
          if take (length Prefix) token = Prefix then Some token
          else case Context of None \<Rightarrow> None | Some rest \<Rightarrow> option_scan Prefix (strtok_r None '' '' (Some rest)))"
  by pat_completeness auto

termination
proof (relation "measure (\<lambda>(_, Option, Context). (case Context of None \<Rightarrow> 0 | Some s \<Rightarrow> length s + 1) + (case Option of None \<Rightarrow> 0 | Some t \<Rightarrow> 1))")
  fix Prefix token :: string and Option Context and rest :: string
  assume "Option = Some token" "Context = Some rest"
  then show "((Prefix, strtok_r None '' '' (Some rest)), (Prefix, Option, Context)) \<in>
      measure (\<lambda>(_, Option, Context). (case Context of None \<Rightarrow> 0 | Some s \<Rightarrow> length s + 1) + (case Option of None \<Rightarrow> 0 | Some t \<Rightarrow> 1))"
    by (cases rule: strtok_cases [of "'' ''" rest]) simp_all
qed simp

declare option_scan.simps [simp del]

definition RegistryQuerySystemStartOption :: "'k zw \<Rightarrow> code_page \<Rightarrow> reg_mem \<Rightarrow> NTSTATUS \<Rightarrow> 'k \<Rightarrow> reg_mem \<Rightarrow> string \<Rightarrow>
    (NTSTATUS \<times> string list option) kernel" where
  "RegistryQuerySystemStartOption zw cp mem open key mem_value Prefix =
     (if \<not> NT_SUCCESS open then Some (open, None)
      else do {
        (status, Ansi) \<leftarrow> RegistryQuerySzValue zw cp mem key ''SystemStartOptions'';
        (case Ansi of
           None \<Rightarrow> Some (status, None)
         | Some (_, []) \<Rightarrow> None
         | Some (_, Options # _) \<Rightarrow>
             (case option_scan Prefix (strtok_r (Some Options) '' '' None) of
                None \<Rightarrow> Some (STATUS_OBJECT_NAME_NOT_FOUND, None)
              | Some Option \<Rightarrow>
                  if \<not> rm_Array mem_value then Some (STATUS_NO_MEMORY, None)
                  else if \<not> rm_Buffer mem_value 0 then Some (STATUS_NO_MEMORY, None)
                  else Some (STATUS_SUCCESS, Some [Option])))
      })"

section \<open>Keys\<close>

text \<open>
  What opening and creating answer, by the step. \<^verbatim>\<open>ZwClose\<close> takes a handle off the open ones.
\<close>

record zw_keys =
  zk_open :: "HANDLE \<Rightarrow> WSTR \<Rightarrow> NTSTATUS \<times> HANDLE"
  zk_create :: "nat \<Rightarrow> HANDLE \<Rightarrow> WSTR \<Rightarrow> NTSTATUS \<times> HANDLE"

definition ZwClose :: "HANDLE \<Rightarrow> HANDLE multiset \<Rightarrow> HANDLE multiset" where
  "ZwClose h opened = opened - {#h#}"

definition RegistryOpenKey :: "zw_keys \<Rightarrow> HANDLE \<Rightarrow> WSTR \<Rightarrow> HANDLE multiset \<Rightarrow> NTSTATUS \<times> HANDLE \<times> HANDLE multiset" where
  "RegistryOpenKey zk Parent Path opened =
     (case zk_open zk Parent Path of (status, Key) \<Rightarrow>
        if \<not> NT_SUCCESS status then (status, 0, opened) else (STATUS_SUCCESS, Key, add_mset Key opened))"

text \<open>Wide literals, and the comparison of \<^verbatim>\<open>_wcsnicmp\<close>.\<close>

definition wide_literal :: "string \<Rightarrow> WSTR" where
  "wide_literal s = map (\<lambda>c. of_nat (of_char c)) s"

definition wlower :: "16 word \<Rightarrow> 16 word" where
  "wlower w = (if 65 \<le> w \<and> w \<le> 90 then w + 32 else w)"

definition REGISTRY_MACHINE :: WSTR where
  "REGISTRY_MACHINE = wide_literal (CHR 0x5C # ''Registry'' @ CHR 0x5C # ''Machine'' @ [CHR 0x5C])"

definition RegistryOpenRoot :: "zw_keys \<Rightarrow> WSTR \<Rightarrow> HANDLE multiset \<Rightarrow> NTSTATUS \<times> HANDLE \<times> WSTR \<times> HANDLE multiset" where
  "RegistryOpenRoot zk Path opened =
     (let Length = length REGISTRY_MACHINE in
      if map wlower (take Length Path) \<noteq> map wlower REGISTRY_MACHINE then (STATUS_INVALID_PARAMETER, 0, [], opened)
      else case RegistryOpenKey zk 0 REGISTRY_MACHINE opened of (status, Parent, opened1) \<Rightarrow>
        if \<not> NT_SUCCESS status then (status, 0, [], opened1) else (STATUS_SUCCESS, Parent, drop Length Path, opened1))"

text \<open>
  The loop of \<^verbatim>\<open>RegistryCreateKey\<close> over the names the tokenizer gives, with the label fail4: each key is made in
  the one before, which is closed unless the caller gave it.
\<close>

fun create_walk :: "zw_keys \<Rightarrow> nat \<Rightarrow> HANDLE \<Rightarrow> HANDLE \<Rightarrow> WSTR list \<Rightarrow> HANDLE multiset \<Rightarrow> NTSTATUS \<times> HANDLE \<times> HANDLE multiset" where
  "create_walk zk n Root Parent [] opened = (STATUS_SUCCESS, Parent, opened)"
| "create_walk zk n Root Parent (ChildName # names) opened =
     (case zk_create zk n Parent ChildName of (status, Child) \<Rightarrow>
        if \<not> NT_SUCCESS status then (status, 0, if Parent \<noteq> Root then ZwClose Parent opened else opened)
        else let opened1 = add_mset Child opened in
          create_walk zk (n + 1) Root Child names (if Parent \<noteq> Root then ZwClose Parent opened1 else opened1))"

definition RegistryCreateKey :: "zw_keys \<Rightarrow> bool \<Rightarrow> HANDLE \<Rightarrow> WSTR \<Rightarrow> HANDLE multiset \<Rightarrow> NTSTATUS \<times> HANDLE \<times> HANDLE multiset" where
  "RegistryCreateKey zk mem Parent Path opened =
     (if \<not> mem then (STATUS_NO_MEMORY, 0, opened)
      else let Root = Parent in
        case (if Parent \<noteq> 0 then (STATUS_SUCCESS, Parent, Path, opened) else RegistryOpenRoot zk Path opened) of
          (status, Parent, ChildPath, opened1) \<Rightarrow>
            if \<not> NT_SUCCESS status then (status, 0, opened1)
            else let names = strtok_loop (wide_literal [CHR 0x5C]) ChildPath in
              if names = [] then (STATUS_INVALID_PARAMETER, 0, if Parent \<noteq> Root then ZwClose Parent opened1 else opened1)
              else create_walk zk 0 Root Parent names opened1)"

text \<open>The names of sub-keys are converted first.\<close>

definition RegistryOpenSubKey :: "zw_keys \<Rightarrow> code_page \<Rightarrow> NTSTATUS \<Rightarrow> HANDLE \<Rightarrow> string \<Rightarrow> HANDLE multiset \<Rightarrow> NTSTATUS \<times> HANDLE \<times> HANDLE multiset" where
  "RegistryOpenSubKey zk cp convert Key Name opened =
     (if \<not> NT_SUCCESS convert then (convert, 0, opened) else RegistryOpenKey zk Key (map (cp_wide cp) Name) opened)"

definition RegistryCreateSubKey :: "zw_keys \<Rightarrow> code_page \<Rightarrow> NTSTATUS \<Rightarrow> bool \<Rightarrow> HANDLE \<Rightarrow> string \<Rightarrow> HANDLE multiset \<Rightarrow> NTSTATUS \<times> HANDLE \<times> HANDLE multiset" where
  "RegistryCreateSubKey zk cp convert mem Key Name opened =
     (if \<not> NT_SUCCESS convert then (convert, 0, opened) else RegistryCreateKey zk mem Key (map (cp_wide cp) Name) opened)"

text \<open>\<open>delete\<close> is what \<^verbatim>\<open>ZwDeleteKey\<close> answers for a handle.\<close>

definition RegistryDeleteSubKey :: "zw_keys \<Rightarrow> code_page \<Rightarrow> NTSTATUS \<Rightarrow> (HANDLE \<Rightarrow> NTSTATUS) \<Rightarrow> HANDLE \<Rightarrow> string \<Rightarrow> HANDLE multiset \<Rightarrow> NTSTATUS \<times> HANDLE multiset" where
  "RegistryDeleteSubKey zk cp convert delete Key Name opened =
     (if \<not> NT_SUCCESS convert then (convert, opened)
      else case RegistryOpenKey zk Key (map (cp_wide cp) Name) opened of (status, SubKey, opened1) \<Rightarrow>
        if \<not> NT_SUCCESS status then (status, opened1)
        else if \<not> NT_SUCCESS (delete SubKey) then (delete SubKey, ZwClose SubKey opened1)
        else (STATUS_SUCCESS, ZwClose SubKey opened1))"

text \<open>
  The globals: the path of the service, the driver object, and \<^verbatim>\<open>IoOpenDriverRegistryKey\<close> where the system has it.
\<close>

record REGISTRY =
  rg_Path :: "WSTR option"
  rg_DriverObject :: "nat option"
  rg_IoOpenDriverRegistryKey :: "(nat option \<Rightarrow> NTSTATUS \<times> HANDLE) option"

text \<open>\<open>upcase\<close>: what \<^verbatim>\<open>RtlUpcaseUnicodeString\<close> gives; \<open>func\<close>: what \<^verbatim>\<open>MmGetSystemRoutineAddress\<close> finds.\<close>

definition RegistryInitialize :: "NTSTATUS \<times> WSTR \<Rightarrow> (nat option \<Rightarrow> NTSTATUS \<times> HANDLE) option \<Rightarrow> nat option \<Rightarrow> REGISTRY \<Rightarrow> (NTSTATUS \<times> REGISTRY) kernel" where
  "RegistryInitialize upcase func DriverObject rg =
     do {
       ASSERT (rg_Path rg = None);
       (case upcase of (status, Path) \<Rightarrow>
          if \<not> NT_SUCCESS status then Some (status, rg)
          else do {
            ASSERT (rg_DriverObject rg = None);
            ASSERT (case rg_IoOpenDriverRegistryKey rg of None \<Rightarrow> True | Some _ \<Rightarrow> False);
            Some (STATUS_SUCCESS, \<lparr>rg_Path = Some Path, rg_DriverObject = DriverObject, rg_IoOpenDriverRegistryKey = func\<rparr>)
          })
     }"

definition RegistryTeardown :: "REGISTRY \<Rightarrow> REGISTRY" where
  "RegistryTeardown rg = \<lparr>rg_Path = None, rg_DriverObject = None, rg_IoOpenDriverRegistryKey = None\<rparr>"

definition RegistryOpenServiceKey :: "zw_keys \<Rightarrow> REGISTRY \<Rightarrow> HANDLE multiset \<Rightarrow> NTSTATUS \<times> HANDLE \<times> HANDLE multiset" where
  "RegistryOpenServiceKey zk rg opened = RegistryOpenKey zk 0 (case rg_Path rg of None \<Rightarrow> [] | Some Path \<Rightarrow> Path) opened"

definition RegistryCreateServiceKey :: "zw_keys \<Rightarrow> bool \<Rightarrow> REGISTRY \<Rightarrow> HANDLE multiset \<Rightarrow> NTSTATUS \<times> HANDLE \<times> HANDLE multiset" where
  "RegistryCreateServiceKey zk mem rg opened = RegistryCreateKey zk mem 0 (case rg_Path rg of None \<Rightarrow> [] | Some Path \<Rightarrow> Path) opened"

definition RegistryOpenParametersKey :: "zw_keys \<Rightarrow> code_page \<Rightarrow> NTSTATUS \<Rightarrow> REGISTRY \<Rightarrow> HANDLE multiset \<Rightarrow> NTSTATUS \<times> HANDLE \<times> HANDLE multiset" where
  "RegistryOpenParametersKey zk cp convert rg opened =
     (case rg_IoOpenDriverRegistryKey rg of
        Some open \<Rightarrow> (case open (rg_DriverObject rg) of (status, Key) \<Rightarrow>
          if \<not> NT_SUCCESS status then (status, 0, opened) else (STATUS_SUCCESS, Key, add_mset Key opened))
      | None \<Rightarrow> (case RegistryOpenServiceKey zk rg opened of (status, ServiceKey, opened1) \<Rightarrow>
          if \<not> NT_SUCCESS status then (status, 0, opened1)
          else case RegistryOpenSubKey zk cp convert ServiceKey ''Parameters'' opened1 of (status, Key, opened2) \<Rightarrow>
            if \<not> NT_SUCCESS status then (status, 0, ZwClose ServiceKey opened2)
            else (STATUS_SUCCESS, Key, ZwClose ServiceKey opened2)))"

text \<open>
  \<open>device\<close> opens the key of the device, \<open>key_name\<close> is what asking for its name answers: the parent of that
  key is opened. \<^verbatim>\<open>wcsrchr\<close> finds the last separator.
\<close>

definition RegistryOpenHardwareKey :: "zw_keys \<Rightarrow> NTSTATUS \<times> HANDLE \<Rightarrow> (HANDLE \<Rightarrow> NTSTATUS \<times> WSTR) \<Rightarrow> bool \<Rightarrow> HANDLE multiset \<Rightarrow>
    (NTSTATUS \<times> HANDLE \<times> HANDLE multiset) kernel" where
  "RegistryOpenHardwareKey zk device key_name mem opened =
     (case device of (status, SubKey) \<Rightarrow>
        if \<not> NT_SUCCESS status then Some (status, 0, opened)
        else let opened1 = add_mset SubKey opened in
          case key_name SubKey of (status, Name) \<Rightarrow>
            if \<not> NT_SUCCESS status then Some (status, 0, ZwClose SubKey opened1)
            else if \<not> mem then Some (STATUS_NO_MEMORY, 0, ZwClose SubKey opened1)
            else do {
              let separator = hd (wide_literal [CHR 0x5C]);
              let text = takeWhile (\<lambda>c. c \<noteq> 0) Name;
              ASSERT (separator \<in> set text);
              let parent = rev (tl (dropWhile (\<lambda>c. c \<noteq> separator) (rev text)));
              (case RegistryOpenKey zk 0 parent opened1 of (status, Key, opened2) \<Rightarrow>
                 if \<not> NT_SUCCESS status then Some (status, 0, ZwClose SubKey opened2)
                 else Some (STATUS_SUCCESS, Key, ZwClose SubKey opened2))
            })"

definition RegistryQueryKeyName :: "code_page \<Rightarrow> reg_mem \<Rightarrow> NTSTATUS \<times> WSTR \<Rightarrow> (NTSTATUS \<times> string list option) kernel" where
  "RegistryQueryKeyName cp mem key_name =
     (case key_name of (status, Name) \<Rightarrow>
        if \<not> NT_SUCCESS status then Some (status, None)
        else if \<not> rm_Partial mem then Some (STATUS_NO_MEMORY, None)
        else do {
          Array \<leftarrow> RegistrySzToAnsi cp mem (Name @ [0]);
          Some (case Array of None \<Rightarrow> (STATUS_NO_MEMORY, None) | Some a \<Rightarrow> (STATUS_SUCCESS, Some a))
        })"

section \<open>Enumeration\<close>

text \<open>
  The loop over the sub-keys (or values): \<open>enum\<close> is what the kernel answers for an index, and the callback
  threads its own state. Converting a name that does not go into the code page is a parameter as well.
\<close>

fun enumerate :: "(nat \<Rightarrow> NTSTATUS \<times> 'n) \<Rightarrow> (nat \<Rightarrow> bool) \<Rightarrow> ('n \<Rightarrow> NTSTATUS kernel) \<Rightarrow> ('n \<Rightarrow> 'c \<Rightarrow> NTSTATUS \<times> 'c) \<Rightarrow> nat \<Rightarrow> nat \<Rightarrow> 'c \<Rightarrow> (NTSTATUS \<times> 'c) kernel" where
  "enumerate enum mem convert Callback Index 0 c = Some (STATUS_SUCCESS, c)"
| "enumerate enum mem convert Callback Index (Suc n) c =
     (case enum Index of (status, Name) \<Rightarrow>
        if \<not> NT_SUCCESS status then Some (status, c)
        else if \<not> mem Index then Some (STATUS_NO_MEMORY, c)
        else do {
          status \<leftarrow> convert Name;
          (if \<not> NT_SUCCESS status then Some (status, c)
           else case Callback Name c of (status, c1) \<Rightarrow>
             if \<not> NT_SUCCESS status then Some (status, c1) else enumerate enum mem convert Callback (Index + 1) n c1)
        })"

text \<open>The two queries of the key's information, whether there is memory for it and for a name, and the number it tells.\<close>

record key_info =
  ki_Size :: NTSTATUS
  ki_Full :: "NTSTATUS \<times> nat"
  ki_MemFull :: bool
  ki_MemBasic :: bool
  ki_MemAnsi :: "nat \<Rightarrow> bool"

definition enumerate_key :: "key_info \<Rightarrow> (nat \<Rightarrow> NTSTATUS \<times> 'n) \<Rightarrow> ('n \<Rightarrow> NTSTATUS kernel) \<Rightarrow> ('n \<Rightarrow> 'c \<Rightarrow> NTSTATUS \<times> 'c) \<Rightarrow> 'c \<Rightarrow> (NTSTATUS \<times> 'c) kernel" where
  "enumerate_key ki enum convert Callback c =
     (if ki_Size ki \<noteq> STATUS_BUFFER_OVERFLOW \<and> ki_Size ki \<noteq> STATUS_BUFFER_TOO_SMALL then Some (ki_Size ki, c)
      else if \<not> ki_MemFull ki then Some (STATUS_NO_MEMORY, c)
      else case ki_Full ki of (status, Count) \<Rightarrow>
        if \<not> NT_SUCCESS status then Some (status, c)
        else if \<not> ki_MemBasic ki then Some (STATUS_NO_MEMORY, c)
        else enumerate enum (ki_MemAnsi ki) convert Callback 0 Count c)"

text \<open>A name that cannot be converted stops the machine here, and is an error of the enumeration of values.\<close>

definition RegistryEnumerateSubKeys :: "code_page \<Rightarrow> key_info \<Rightarrow> (nat \<Rightarrow> NTSTATUS \<times> WSTR) \<Rightarrow> (WSTR \<Rightarrow> NTSTATUS) \<Rightarrow> (string \<Rightarrow> 'c \<Rightarrow> NTSTATUS \<times> 'c) \<Rightarrow> 'c \<Rightarrow>
    (NTSTATUS \<times> 'c) kernel" where
  "RegistryEnumerateSubKeys cp ki enum convert Callback c =
     enumerate_key ki enum (\<lambda>n. if NT_SUCCESS (convert n) then Some STATUS_SUCCESS else BUG)
       (\<lambda>n. Callback (takeWhile (\<lambda>ch. ch \<noteq> CHR 0x00) (map (cp_ansi cp) n))) c"

definition RegistryEnumerateValues :: "code_page \<Rightarrow> key_info \<Rightarrow> (nat \<Rightarrow> NTSTATUS \<times> WSTR \<times> REG_TYPE) \<Rightarrow> (WSTR \<Rightarrow> NTSTATUS) \<Rightarrow>
    (string \<Rightarrow> REG_TYPE \<Rightarrow> 'c \<Rightarrow> NTSTATUS \<times> 'c) \<Rightarrow> 'c \<Rightarrow> (NTSTATUS \<times> 'c) kernel" where
  "RegistryEnumerateValues cp ki enum convert Callback c =
     enumerate_key ki enum (\<lambda>(n, _). Some (convert n))
       (\<lambda>(n, t). Callback (takeWhile (\<lambda>ch. ch \<noteq> CHR 0x00) (map (cp_ansi cp) n)) t) c"

section \<open>Round trips\<close>

text \<open>What can be written as one string, or as a list of strings, and what the buffers have room for.\<close>

definition sz_text :: "REG_TYPE \<Rightarrow> string list \<Rightarrow> bool" where
  "sz_text Type Array \<longleftrightarrow> (\<forall>s \<in> set Array. CHR 0x00 \<notin> set s) \<and>
     (Type = REG_SZ \<and> length Array = 1 \<or> Type = REG_MULTI_SZ \<and> [] \<notin> set Array)"

definition sz_total :: "string list \<Rightarrow> nat" where
  "sz_total Array = sum_list (map (\<lambda>Ansi. length Ansi + 1) Array)"

definition sz_fits :: "REG_TYPE \<Rightarrow> string list \<Rightarrow> bool" where
  "sz_fits Type Array \<longleftrightarrow> (if Type = REG_SZ then sz_total Array < 128 else sz_total Array < 32767)"

definition sz_wide :: "code_page \<Rightarrow> string list \<Rightarrow> WSTR" where
  "sz_wide cp Array = concat (map (\<lambda>s. map (cp_wide cp) s @ [0]) Array)"

lemma sz_total_simps [simp]: "sz_total [] = 0" "sz_total (s # Array) = length s + 1 + sz_total Array"
  by (simp_all add: sz_total_def)

lemma sz_wide_simps [simp]: "sz_wide cp [] = []" "sz_wide cp (s # Array) = map (cp_wide cp) s @ 0 # sz_wide cp Array"
  by (simp_all add: sz_wide_def)

lemma wcs_wide:
  assumes "code_page_ok cp" and "CHR 0x00 \<notin> set s"
  shows "wcs (map (cp_wide cp) s @ 0 # rest) = Some (map (cp_wide cp) s)"
proof (rule wcs_append)
  have "\<forall>c \<in> set s. cp_wide cp c \<noteq> 0" using assms by (auto simp: code_page_ok_def)
  then show "0 \<notin> set (map (cp_wide cp) s)" by (auto simp: image_iff)
qed

lemma ansi_wide: "code_page_ok cp \<Longrightarrow> map (cp_ansi cp) (map (cp_wide cp) s) = s"
  by (simp add: code_page_ok_def map_idI)

lemma multi_data_law: "multi_data cp M Array = Some (if 2 * sz_total Array \<le> M then Some (sz_wide cp Array @ [0]) else None)"
  by (induction Array arbitrary: M) (auto simp: ansi_to_unicode_def)

lemma multi_count_law:
  assumes "code_page_ok cp" and "\<forall>s \<in> set Array. CHR 0x00 \<notin> set s" and "[] \<notin> set Array"
  shows "multi_count (sz_wide cp Array @ [0]) = Some (length Array)"
  using assms(2,3)
proof (induction Array)
  case Nil
  then show ?case by (subst multi_count.simps) simp
next
  case (Cons s Array)
  then show ?case using wcs_wide [OF assms(1), of s "sz_wide cp Array @ [0]"] by (subst multi_count.simps) auto
qed

lemma multi_strings_law:
  assumes "code_page_ok cp" and "\<forall>s \<in> set Array. CHR 0x00 \<notin> set s" and "sz_total Array < 32767"
  shows "multi_strings cp plenty i (length Array) (sz_wide cp Array @ [0]) = Some (Some Array)"
  using assms(2,3)
proof (induction Array arbitrary: i)
  case (Cons s Array)
  then show ?case using wcs_wide [OF assms(1), of s "sz_wide cp Array @ [0]"] ansi_wide [OF assms(1), of s]
    by (simp add: UNICODE_CHARS_MAX_def del: map_map)
qed simp

definition sz_value :: "code_page \<Rightarrow> REG_TYPE \<Rightarrow> string list \<Rightarrow> VALUE" where
  "sz_value cp Type Array = \<lparr>val_Type = Type, val_Data = wbytes (sz_wide cp Array @ (if Type = REG_SZ then [] else [0]))\<rparr>"

lemma mod_fits: "2 * (n :: nat) \<le> ((1 + n) * 2) mod 2 ^ 16 \<longleftrightarrow> n < 32767"
proof (cases "n < 32767")
  case False
  have "((1 + n) * 2) mod 2 ^ 16 < 2 ^ 16" by simp
  then show ?thesis using False by (cases "n = 32767") auto
qed simp

lemma mod_fits_byte: "Suc n * 2 \<le> (Suc n * 2) mod 256 \<longleftrightarrow> n < 127"
proof (cases "n < 127")
  case False
  have "(Suc n * 2) mod 256 < 256" and "256 \<le> Suc n * 2" using False by simp_all
  then have "\<not> Suc n * 2 \<le> (Suc n * 2) mod 256" by linarith
  then show ?thesis using False by blast
qed simp

lemma RegistryAnsiToMultiSz_law:
  "RegistryAnsiToMultiSz cp plenty Array = Some (if sz_total Array < 32767 then Some (sz_value cp REG_MULTI_SZ Array) else None)"
  unfolding RegistryAnsiToMultiSz_def sz_total_def [symmetric] Let_def multi_data_law mod_fits
  by (simp add: sz_value_def)

text \<open>What is handed to the kernel, and what is made of it when it comes back.\<close>

lemma RegistryUpdateSzValue_law:
  assumes "sz_text Type Array"
  shows "RegistryUpdateSzValue zw cp plenty key Name Type Array =
     Some (if sz_fits Type Array then (case zw_set zw key (map (cp_wide cp) Name) Type (val_Data (sz_value cp Type Array)) of (status, key1) \<Rightarrow>
         if \<not> NT_SUCCESS status then (status, key1) else (STATUS_SUCCESS, key1)) else (STATUS_NO_MEMORY, key))"
proof (cases "Type = REG_SZ")
  case True
  then obtain s where s: "Array = [s]" using assms by (auto simp: sz_text_def length_Suc_conv)
  show ?thesis using True mod_fits_byte [of "length s"]
    by (auto simp: RegistryUpdateSzValue_def RegistryAnsiToSz_def ansi_to_unicode_def sz_fits_def sz_value_def s split: prod.splits)
next
  case False
  then have "Type = REG_MULTI_SZ" using assms by (auto simp: sz_text_def)
  then show ?thesis by (simp add: RegistryUpdateSzValue_def RegistryAnsiToMultiSz_law sz_fits_def sz_value_def)
qed

lemma RegistryQuerySzValue_law:
  assumes "sz_text Type Array" and "sz_total Array < 32767" and "code_page_ok cp"
    and "zw_query zw key (map (cp_wide cp) Name) = (STATUS_SUCCESS, sz_value cp Type Array)"
  shows "RegistryQuerySzValue zw cp plenty key Name = Some (STATUS_SUCCESS, Some (Type, Array))"
proof (cases "Type = REG_SZ")
  case True
  then obtain s where s: "Array = [s]" "CHR 0x00 \<notin> set s" using assms(1) by (auto simp: sz_text_def length_Suc_conv)
  show ?thesis using True assms(2,4) s wcs_wide [OF assms(3) s(2), of "[]"] ansi_wide [OF assms(3), of s]
    by (simp add: RegistryQuerySzValue_def query_partial_def RegistrySzToAnsi_def sz_value_def UNICODE_CHARS_MAX_def del: map_map)
next
  case False
  then have t: "Type = REG_MULTI_SZ" "\<forall>s \<in> set Array. CHR 0x00 \<notin> set s" "[] \<notin> set Array" "sz_total Array < 32767"
    using assms(1,2) by (auto simp: sz_text_def)
  show ?thesis using assms(4) t multi_count_law [OF assms(3) t(2,3)] multi_strings_law [OF assms(3) t(2,4), of 0]
    by (simp add: RegistryQuerySzValue_def query_partial_def RegistryMultiSzToAnsi_def sz_value_def)
qed

lemma RegistrySzValue_law:
  assumes "zw_ok zw" and "code_page_ok cp" and "sz_text Type Array"
    and "RegistryUpdateSzValue zw cp plenty key Name Type Array = Some (status, key')"
  shows "if NT_SUCCESS status then sz_fits Type Array \<and> status = STATUS_SUCCESS \<and>
       zw_query zw key' (map (cp_wide cp) Name) = (STATUS_SUCCESS, sz_value cp Type Array) \<and>
       (\<forall>n. n \<noteq> map (cp_wide cp) Name \<longrightarrow> zw_query zw key' n = zw_query zw key n)
     else key' = key"
proof (cases "sz_fits Type Array")
  case True
  obtain s key1 where set: "zw_set zw key (map (cp_wide cp) Name) Type (val_Data (sz_value cp Type Array)) = (s, key1)" by fastforce
  have "if NT_SUCCESS s then zw_query zw key1 (map (cp_wide cp) Name) = (STATUS_SUCCESS, sz_value cp Type Array) \<and>
      (\<forall>m. m \<noteq> map (cp_wide cp) Name \<longrightarrow> zw_query zw key1 m = zw_query zw key m) else key1 = key"
    using assms(1) set unfolding zw_ok_def by (simp add: sz_value_def)
  then show ?thesis using assms(4) set True by (auto simp: RegistryUpdateSzValue_law [OF assms(3)] split: if_splits)
qed (use assms(4) in \<open>auto simp: RegistryUpdateSzValue_law [OF assms(3)]\<close>)

text \<open>
  C16. A string or a list of strings that a driver writes to the registry is read back as it was, if its
  buffer has room: a list up to 64 KB, a single string only up to 126 characters. A longer one is refused
  as if there were no memory, and the key is unchanged.
\<close>
theorem RegistrySzValue_roundtrip:
  assumes "zw_ok zw" and "code_page_ok cp" and "sz_text Type Array"
    and "\<forall>n t d. NT_SUCCESS (fst (zw_set zw key n t d))"
  shows "\<exists>status key'. RegistryUpdateSzValue zw cp plenty key Name Type Array = Some (status, key') \<and>
     (if sz_fits Type Array
      then status = STATUS_SUCCESS \<and> RegistryQuerySzValue zw cp plenty key' Name = Some (STATUS_SUCCESS, Some (Type, Array))
      else status = STATUS_NO_MEMORY \<and> key' = key)"
proof (cases "sz_fits Type Array")
  case True
  obtain s key1 where set: "zw_set zw key (map (cp_wide cp) Name) Type (val_Data (sz_value cp Type Array)) = (s, key1)" by fastforce
  moreover have "NT_SUCCESS s" using assms(4) set by (metis fst_conv)
  moreover have "zw_query zw key1 (map (cp_wide cp) Name) = (STATUS_SUCCESS, sz_value cp Type Array)"
    using assms(1) set \<open>NT_SUCCESS s\<close> unfolding zw_ok_def by (simp add: sz_value_def) 
  then have "RegistryQuerySzValue zw cp plenty key1 Name = Some (STATUS_SUCCESS, Some (Type, Array))"
    using RegistryQuerySzValue_law [OF assms(3) _ assms(2)] True by (simp add: sz_fits_def split: if_splits)
  ultimately show ?thesis using True by (simp add: RegistryUpdateSzValue_law [OF assms(3)])
qed (simp add: RegistryUpdateSzValue_law [OF assms(3)])

text \<open>A key that keeps its values in a list, and ASCII.\<close>

fun sample_query :: "(WSTR \<times> VALUE) list \<Rightarrow> WSTR \<Rightarrow> NTSTATUS \<times> VALUE" where
  "sample_query k n = (case map_of k n of None \<Rightarrow> (STATUS_OBJECT_NAME_NOT_FOUND, \<lparr>val_Type = REG_BINARY, val_Data = []\<rparr>) | Some v \<Rightarrow> (STATUS_SUCCESS, v))"

definition sample_zw :: "(WSTR \<times> VALUE) list zw" where
  "sample_zw = \<lparr>zw_query = sample_query,
     zw_set = (\<lambda>k n t d. (STATUS_SUCCESS, (n, \<lparr>val_Type = t, val_Data = d\<rparr>) # filter (\<lambda>(m, v). m \<noteq> n) k)),
     zw_delete = (\<lambda>k n. if map_of k n = None then (STATUS_OBJECT_NAME_NOT_FOUND, k) else (STATUS_SUCCESS, filter (\<lambda>(m, v). m \<noteq> n) k))\<rparr>"

definition ascii :: code_page where
  "ascii = \<lparr>cp_wide = (\<lambda>c. of_nat (of_char c)), cp_ansi = (\<lambda>w. char_of (unat w))\<rparr>"

lemma map_of_filter_name: "map_of (filter (\<lambda>(m, v). m \<noteq> n) k) m = (if m = n then None else map_of k m)"
  by (induction k) auto

lemma sample_zw_ok: "zw_ok sample_zw"
  by (auto simp: zw_ok_def sample_zw_def map_of_filter_name split: option.splits if_splits)

lemma ascii_ok: "code_page_ok ascii"
proof -
  have wide: "unat (of_nat (of_char c) :: 16 word) = of_char c" for c
  proof -
    have "(of_char c :: nat) < 2 ^ 16" by (rule less_trans [OF nat_of_char_less_256]) simp
    then show ?thesis by (simp add: unat_of_nat)
  qed
  have "(of_nat (of_char c) = (0 :: 16 word)) \<longleftrightarrow> c = CHR 0x00" for c
  proof
    assume "of_nat (of_char c) = (0 :: 16 word)"
    then have "of_char c = (0 :: nat)" using wide [of c] by (metis unat_0)
    then have "of_char c = (of_char (CHR 0x00) :: nat)" by simp
    then show "c = CHR 0x00" by (simp only: of_char_eq_iff)
  qed simp
  then show ?thesis using wide by (simp add: code_page_ok_def ascii_def)
qed

theorem RegistrySzValue_roundtrip_witness:
  "\<exists>status key'. RegistryUpdateSzValue sample_zw ascii plenty [] ''ActiveDeviceID'' REG_MULTI_SZ [''VBD'', ''VIF''] = Some (status, key') \<and>
     status = STATUS_SUCCESS \<and> RegistryQuerySzValue sample_zw ascii plenty key' ''ActiveDeviceID'' = Some (STATUS_SUCCESS, Some (REG_MULTI_SZ, [''VBD'', ''VIF'']))"
  using RegistrySzValue_roundtrip [OF sample_zw_ok ascii_ok, of REG_MULTI_SZ "[''VBD'', ''VIF'']" "[]" "''ActiveDeviceID''"]
  by (simp add: sz_text_def sz_fits_def sample_zw_def)

section \<open>Looking for an option\<close>

lemma option_scan_law:
  "option_scan Prefix (strtok_r None '' '' (Some s)) = find (\<lambda>t. take (length Prefix) t = Prefix) (strtok_loop '' '' s)"
proof (induction s rule: length_induct)
  case (1 s)
  show ?case
  proof (cases rule: strtok_cases [of "'' ''" s])
    case 1
    then have "strtok_loop '' '' s = []" by (subst strtok_loop.simps) simp
    then show ?thesis using 1 by (simp add: option_scan.simps)
  next
    case (2 t r)
    then have "strtok_loop '' '' s = t # strtok_loop '' '' r" by (subst strtok_loop.simps) simp
    then show ?thesis using 2 "1.IH" by (simp add: option_scan.simps)
  qed
qed

lemma strtok_first: "strtok_r (Some s) D c = strtok_r None D (Some s)"
  by (simp add: strtok_r_def)

text \<open>
  C18. The option a driver asks for is the first of the space-separated options of the system start that
  begins with the prefix, whole; if there is none, the status says so.
\<close>
theorem RegistryQuerySystemStartOption_first:
  assumes "code_page_ok cp" and "CHR 0x00 \<notin> set Options" and "length Options < 32766" and "NT_SUCCESS open"
    and "zw_query zw key (map (cp_wide cp) ''SystemStartOptions'') = (STATUS_SUCCESS, sz_value cp REG_SZ [Options])"
  shows "RegistryQuerySystemStartOption zw cp plenty open key plenty Prefix = Some
     (case find (\<lambda>t. take (length Prefix) t = Prefix) (filter (\<lambda>p. p \<noteq> []) (pieces '' '' Options)) of
        None \<Rightarrow> (STATUS_OBJECT_NAME_NOT_FOUND, None)
      | Some Option \<Rightarrow> (STATUS_SUCCESS, Some [Option]))"
proof -
  have "RegistryQuerySzValue zw cp plenty key ''SystemStartOptions'' = Some (STATUS_SUCCESS, Some (REG_SZ, [Options]))"
    by (rule RegistryQuerySzValue_law [OF _ _ assms(1,5)]) (use assms(2,3) in \<open>simp_all add: sz_text_def\<close>)
  then show ?thesis using assms(4)
    by (simp add: RegistryQuerySystemStartOption_def strtok_first option_scan_law strtok_loop_pieces split: option.split)
qed

theorem RegistryQuerySystemStartOption_first_witness:
  "RegistryQuerySystemStartOption sample_zw ascii plenty STATUS_SUCCESS
     [(map (cp_wide ascii) ''SystemStartOptions'', sz_value ascii REG_SZ [''Q A=1 A=2''])] plenty ''A=''
   = Some (STATUS_SUCCESS, Some [''A=1''])"
proof -
  let ?text = "''Q A=1 A=2''"
  have found: "find (\<lambda>t. take (length ''A='') t = ''A='') (filter (\<lambda>p. p \<noteq> []) (pieces '' '' ?text)) = Some ''A=1''"
    by simp
  have nul: "CHR 0x00 \<notin> set ?text" by simp
  have len: "length ?text < 32766" by simp
  have query: "zw_query sample_zw [(n, v)] n = (STATUS_SUCCESS, v)" for n v by (simp add: sample_zw_def)
  show ?thesis
    using RegistryQuerySystemStartOption_first [OF ascii_ok nul len NT_SUCCESS_simps(1) query, of "''A=''"] unfolding found option.case .
qed

section \<open>Creating a key\<close>

text \<open>The key that is reached by making each name in the one before, and handles the kernel may give.\<close>

fun key_at :: "zw_keys \<Rightarrow> nat \<Rightarrow> HANDLE \<Rightarrow> WSTR list \<Rightarrow> HANDLE" where
  "key_at zk n Parent [] = Parent"
| "key_at zk n Parent (name # names) = key_at zk (n + 1) (snd (zk_create zk n Parent name)) names"

definition fresh_handles :: "zw_keys \<Rightarrow> HANDLE \<Rightarrow> bool" where
  "fresh_handles zk Root \<longleftrightarrow> (\<forall>n p name. NT_SUCCESS (fst (zk_create zk n p name)) \<longrightarrow> snd (zk_create zk n p name) \<noteq> Root) \<and>
     (\<forall>p name. NT_SUCCESS (fst (zk_open zk p name)) \<longrightarrow> snd (zk_open zk p name) \<noteq> Root)"

definition others :: "HANDLE \<Rightarrow> HANDLE \<Rightarrow> HANDLE multiset \<Rightarrow> HANDLE multiset" where
  "others Root Parent opened = (if Parent \<noteq> Root then ZwClose Parent opened else opened)"

lemma create_walk_law:
  assumes "fresh_handles zk Root" and "create_walk zk n Root Parent names opened = (status, Key, opened')"
    and "names \<noteq> []" and "Parent \<noteq> Root \<longrightarrow> Parent \<in># opened"
  shows "if NT_SUCCESS status then Key = key_at zk n Parent names \<and> opened' = add_mset Key (others Root Parent opened)
     else opened' = others Root Parent opened"
  using assms(2-4)
proof (induction names arbitrary: n Parent opened)
  case (Cons name names)
  obtain s Child where step: "zk_create zk n Parent name = (s, Child)" by fastforce
  show ?case
  proof (cases "NT_SUCCESS s")
    case True
    then have child: "Child \<noteq> Root" using assms(1) step unfolding fresh_handles_def by (metis fst_conv snd_conv)
    let ?opened = "add_mset Child (others Root Parent opened)"
    have run: "create_walk zk (n + 1) Root Child names ?opened = (status, Key, opened')"
      using Cons.prems(1,3) step True by (auto simp: others_def ZwClose_def split: if_splits)
    have rest: "others Root Child ?opened = others Root Parent opened" using child by (simp add: others_def ZwClose_def)
    show ?thesis
    proof (cases "names = []")
      case True
      then show ?thesis using run step by auto
    next
      case False
      then show ?thesis using Cons.IH [OF run False] rest step child by simp
    qed
  qed (use Cons.prems step in \<open>auto simp: others_def\<close>)
qed simp

lemma key_at_created: "names \<noteq> [] \<Longrightarrow> \<exists>m p name. key_at zk n Parent names = snd (zk_create zk m p name)"
proof (induction names arbitrary: n Parent)
  case (Cons name names)
  then show ?case by (cases "names = []") auto
qed simp

lemma RegistryCreateKey_law:
  assumes "fresh_handles zk Parent"
    and "RegistryCreateKey zk mem Parent Path opened = (status, Key, opened')"
  shows "if NT_SUCCESS status
     then opened' = add_mset Key opened \<and> (\<exists>n p name. Key = snd (zk_create zk n p name)) \<and>
       (Parent \<noteq> 0 \<longrightarrow> Key = key_at zk 0 Parent (filter (\<lambda>p. p \<noteq> []) (pieces (wide_literal [CHR 0x5C]) Path)))
     else opened' = opened"
proof (cases "mem")
  case True
  let ?names = "\<lambda>path. strtok_loop (wide_literal [CHR 0x5C]) path"
  show ?thesis
  proof (cases "Parent = 0")
    case False
    show ?thesis
    proof (cases "?names Path = []")
      case False
      then show ?thesis using create_walk_law [OF assms(1), of 0 Parent "?names Path" opened status Key opened'] key_at_created [of "?names Path" zk 0 Parent] assms(2) True \<open>Parent \<noteq> 0\<close>
        by (simp add: RegistryCreateKey_def others_def strtok_loop_pieces split: if_splits)
    qed (use assms(2) True \<open>Parent \<noteq> 0\<close> in \<open>auto simp: RegistryCreateKey_def\<close>)
  next
    case True
    obtain s Root path opened1 where root: "RegistryOpenRoot zk Path opened = (s, Root, path, opened1)" by (metis prod_cases4)
    obtain o_status o_key where opn: "zk_open zk 0 REGISTRY_MACHINE = (o_status, o_key)" by fastforce
    have "NT_SUCCESS o_status \<Longrightarrow> o_key \<noteq> Parent" using assms(1) opn unfolding fresh_handles_def by (metis fst_conv snd_conv)
    then have r: "if NT_SUCCESS s then opened1 = add_mset Root opened \<and> Root \<noteq> Parent else opened1 = opened"
      using root opn by (auto simp: RegistryOpenRoot_def RegistryOpenKey_def Let_def split: if_splits)
    show ?thesis
    proof (cases "NT_SUCCESS s \<and> ?names path \<noteq> []")
      case True
      then show ?thesis
        using create_walk_law [OF assms(1), of 0 Root "?names path" opened1 status Key opened'] key_at_created [of "?names path" zk 0 Root] r root assms(2) \<open>mem\<close> \<open>Parent = 0\<close>
        by (simp add: RegistryCreateKey_def others_def ZwClose_def split: if_splits)
    qed (use r root assms(2) \<open>mem\<close> \<open>Parent = 0\<close> in \<open>auto simp: RegistryCreateKey_def ZwClose_def split: if_splits\<close>)
  qed
qed (use assms(2) in \<open>auto simp: RegistryCreateKey_def\<close>)

text \<open>
  C19. Creating a key opens no handle but the one it returns: after a success that handle is open besides what
  was, and it is the key reached by making the parts of the path in turn; after any failure, on whichever
  part of the path, the open handles are what they were.
\<close>
theorem RegistryCreateKey_balances:
  assumes "fresh_handles zk Parent"
    and "RegistryCreateKey zk mem Parent Path opened = (status, Key, opened')"
  shows "if NT_SUCCESS status
     then opened' = add_mset Key opened \<and> (Parent \<noteq> 0 \<longrightarrow> Key = key_at zk 0 Parent (filter (\<lambda>p. p \<noteq> []) (pieces (wide_literal [CHR 0x5C]) Path)))
     else opened' = opened"
  using RegistryCreateKey_law [OF assms] by (simp split: if_splits)

definition sample_keys :: zw_keys where
  "sample_keys = \<lparr>zk_open = (\<lambda>p name. (STATUS_SUCCESS, 7)), zk_create = (\<lambda>n p name. if n = 2 then (STATUS_ACCESS_DENIED, 0) else (STATUS_SUCCESS, 10 + n))\<rparr>"

theorem RegistryCreateKey_balances_witness:
  "RegistryCreateKey sample_keys True 3 (wide_literal (''A'' @ CHR 0x5C # ''B'')) {#3#} = (STATUS_SUCCESS, 11, {#11, 3#}) \<and>
   (if NT_SUCCESS STATUS_SUCCESS
     then {#11, 3#} = add_mset 11 {#3 :: nat#} \<and> (3 \<noteq> (0 :: nat) \<longrightarrow> 11 = key_at sample_keys 0 3 (filter (\<lambda>p. p \<noteq> []) (pieces (wide_literal [CHR 0x5C]) (wide_literal (''A'' @ CHR 0x5C # ''B'')))))
     else {#11, 3#} = {#3 :: nat#})"
proof -
  have run: "RegistryCreateKey sample_keys True 3 (wide_literal (''A'' @ CHR 0x5C # ''B'')) {#3#} = (STATUS_SUCCESS, 11, {#11, 3#})"
    by (simp add: RegistryCreateKey_def sample_keys_def wide_literal_def strtok_loop_pieces ZwClose_def)
  moreover have "fresh_handles sample_keys 3" by (auto simp: fresh_handles_def sample_keys_def split: if_splits)
  ultimately show ?thesis using RegistryCreateKey_balances [OF _ run] by blast
qed

end
