(* ===== verification/Config.thy ===== *)
theory Config
  imports Registry
begin

text \<open>
  The configuration of the support driver, src/src/xen/config.c: which device is the active one, kept as three
  values of the parameters of XENFILT, and the request for a reboot. The world is the open handles and the
  values of the key. \<open>vendor\<close> is the build's VENDOR\_DEVICE\_ID\_STR, where it has one.
\<close>

record config_env =
  ce_Convert :: NTSTATUS
  ce_Mem :: "nat \<Rightarrow> reg_mem"
  ce_Value :: bool

record 'k config =
  cw_Opened :: "HANDLE multiset"
  cw_Active :: 'k

definition MAXNAMELEN :: nat where
  "MAXNAMELEN = 128"

definition REGISTRY_PREFIX :: string where
  "REGISTRY_PREFIX = CHR 0x5C # ''Registry'' @ CHR 0x5C # ''Machine'' @ [CHR 0x5C]"

definition ACTIVE_PATH :: string where
  "ACTIVE_PATH = REGISTRY_PREFIX @ ''SYSTEM'' @ CHR 0x5C # ''CurrentControlSet'' @ CHR 0x5C # ''Services'' @ CHR 0x5C # ''XENFILT'' @ CHR 0x5C # ''Parameters''"

definition ENUM_PATH :: string where
  "ENUM_PATH = REGISTRY_PREFIX @ ''SYSTEM'' @ CHR 0x5C # ''CurrentControlSet'' @ CHR 0x5C # ''Enum''"

text \<open>The name of the value is printed into a buffer of MAXNAMELEN bytes, which is asserted to be enough.\<close>

definition ConfigGetActive :: "'k zw \<Rightarrow> zw_keys \<Rightarrow> code_page \<Rightarrow> config_env \<Rightarrow> string \<Rightarrow> 'k config \<Rightarrow> (NTSTATUS \<times> string option \<times> 'k config) kernel" where
  "ConfigGetActive zw zk cp env Key w =
     (case RegistryOpenSubKey zk cp (ce_Convert env) 0 ACTIVE_PATH (cw_Opened w) of (status, ActiveKey, opened) \<Rightarrow>
        if \<not> NT_SUCCESS status then Some (status, None, w\<lparr>cw_Opened := opened\<rparr>)
        else do {
          let Name = ''Active'' @ Key;
          ASSERT (length Name < MAXNAMELEN);
          (status, Ansi) \<leftarrow> RegistryQuerySzValue zw cp (ce_Mem env 0) (cw_Active w) Name;
          let w1 = w\<lparr>cw_Opened := ZwClose ActiveKey opened\<rparr>;
          (case Ansi of
             None \<Rightarrow> Some (status, None, w1)
           | Some (_, []) \<Rightarrow> None
           | Some (_, Value # _) \<Rightarrow> if \<not> ce_Value env then Some (STATUS_NO_MEMORY, None, w1) else Some (STATUS_SUCCESS, Some Value, w1))
        })"

definition strnicmp_eq :: "string \<Rightarrow> string \<Rightarrow> bool" where
  "strnicmp_eq s prefix \<longleftrightarrow> map to_lower (take (length prefix) s) = map to_lower prefix"

definition ConfigIsDeviceLegacy :: "string option \<Rightarrow> string \<Rightarrow> bool" where
  "ConfigIsDeviceLegacy vendor DeviceID =
     (case vendor of None \<Rightarrow> True | Some v \<Rightarrow> \<not> strnicmp_eq DeviceID (''PCI'' @ CHR 0x5C # ''VEN_5853&DEV_'' @ v))"

definition ConfigIsVendorDevicePresent :: "zw_keys \<Rightarrow> code_page \<Rightarrow> config_env \<Rightarrow> string option \<Rightarrow> HANDLE multiset \<Rightarrow> bool \<times> HANDLE multiset" where
  "ConfigIsVendorDevicePresent zk cp env vendor opened =
     (case vendor of
        None \<Rightarrow> (False, opened)
      | Some v \<Rightarrow>
          (case RegistryOpenSubKey zk cp (ce_Convert env) 0 ENUM_PATH opened of (status, EnumKey, opened1) \<Rightarrow>
             if \<not> NT_SUCCESS status then (False, opened1)
             else case RegistryOpenSubKey zk cp (ce_Convert env) EnumKey
                 (''PCI'' @ CHR 0x5C # ''VEN_5853&DEV_'' @ v @ ''&SUBSYS_'' @ v @ ''5853&REV_01'') opened1 of (status, DeviceKey, opened2) \<Rightarrow>
               if \<not> NT_SUCCESS status then (False, ZwClose EnumKey opened2)
               else (True, ZwClose EnumKey (ZwClose DeviceKey opened2))))"

text \<open>
  Opening the key for writing, with the test that a legacy device is not taken where the vendor's is there:
  the start of \<^verbatim>\<open>ConfigSetActive\<close> and of \<^verbatim>\<open>ConfigUpdateActive\<close>, with the labels fail1 and fail2.
\<close>

definition open_active :: "zw_keys \<Rightarrow> code_page \<Rightarrow> config_env \<Rightarrow> string option \<Rightarrow> string \<Rightarrow> HANDLE multiset \<Rightarrow> NTSTATUS \<times> HANDLE \<times> HANDLE multiset" where
  "open_active zk cp env vendor DeviceID opened =
     (case RegistryOpenSubKey zk cp (ce_Convert env) 0 ACTIVE_PATH opened of (status, ActiveKey, opened1) \<Rightarrow>
        if \<not> NT_SUCCESS status then (status, 0, opened1)
        else if ConfigIsDeviceLegacy vendor DeviceID then
          (case ConfigIsVendorDevicePresent zk cp env vendor opened1 of (present, opened2) \<Rightarrow>
             if present then (STATUS_UNSUCCESSFUL, 0, ZwClose ActiveKey opened2) else (STATUS_SUCCESS, ActiveKey, opened2))
        else (STATUS_SUCCESS, ActiveKey, opened1))"

text \<open>Values written one after the other, up to the first that is refused.\<close>

fun write_values :: "'k zw \<Rightarrow> code_page \<Rightarrow> (nat \<Rightarrow> reg_mem) \<Rightarrow> nat \<Rightarrow> (string \<times> string) list \<Rightarrow> 'k \<Rightarrow> (NTSTATUS \<times> 'k) kernel" where
  "write_values zw cp mem i [] key = Some (STATUS_SUCCESS, key)"
| "write_values zw cp mem i ((Name, Value) # pairs) key =
     do {
       (status, key1) \<leftarrow> RegistryUpdateSzValue zw cp (mem i) key Name REG_SZ [Value];
       (if \<not> NT_SUCCESS status then Some (status, key1) else write_values zw cp mem (i + 1) pairs key1)
     }"

definition ConfigSetActive :: "'k zw \<Rightarrow> zw_keys \<Rightarrow> code_page \<Rightarrow> config_env \<Rightarrow> string option \<Rightarrow> string \<Rightarrow> string \<Rightarrow> string \<Rightarrow> 'k config \<Rightarrow> (NTSTATUS \<times> 'k config) kernel" where
  "ConfigSetActive zw zk cp env vendor DeviceID InstanceID LocationInformation w =
     (case open_active zk cp env vendor DeviceID (cw_Opened w) of (status, ActiveKey, opened) \<Rightarrow>
        if \<not> NT_SUCCESS status then Some (status, w\<lparr>cw_Opened := opened\<rparr>)
        else do {
          (status, key) \<leftarrow> write_values zw cp (ce_Mem env) 0
            [(''ActiveDeviceID'', DeviceID), (''ActiveInstanceID'', InstanceID), (''ActiveLocationInformation'', LocationInformation)] (cw_Active w);
          Some (status, \<lparr>cw_Opened = ZwClose ActiveKey opened, cw_Active = key\<rparr>)
        })"

text \<open>The values that are missing are written; the others stay.\<close>

fun update_values :: "'k zw \<Rightarrow> zw_keys \<Rightarrow> code_page \<Rightarrow> (nat \<Rightarrow> config_env) \<Rightarrow> nat \<Rightarrow> (string \<times> string) list \<Rightarrow> 'k config \<Rightarrow> (NTSTATUS \<times> 'k config) kernel" where
  "update_values zw zk cp envs i [] w = Some (STATUS_SUCCESS, w)"
| "update_values zw zk cp envs i ((Name, Value) # pairs) w =
     do {
       (status, _, w1) \<leftarrow> ConfigGetActive zw zk cp (envs i) Name w;
       (if NT_SUCCESS status then update_values zw zk cp envs (i + 1) pairs w1
        else do {
          (status, key) \<leftarrow> RegistryUpdateSzValue zw cp (ce_Mem (envs i) 1) (cw_Active w1) (''Active'' @ Name) REG_SZ [Value];
          let w2 = w1\<lparr>cw_Active := key\<rparr>;
          (if \<not> NT_SUCCESS status then Some (status, w2) else update_values zw zk cp envs (i + 1) pairs w2)
        })
     }"

definition ConfigUpdateActive :: "'k zw \<Rightarrow> zw_keys \<Rightarrow> code_page \<Rightarrow> (nat \<Rightarrow> config_env) \<Rightarrow> string option \<Rightarrow> string \<Rightarrow> string \<Rightarrow> string \<Rightarrow> 'k config \<Rightarrow> (NTSTATUS \<times> 'k config) kernel" where
  "ConfigUpdateActive zw zk cp envs vendor DeviceID InstanceID LocationInformation w =
     (case open_active zk cp (envs 0) vendor DeviceID (cw_Opened w) of (status, ActiveKey, opened) \<Rightarrow>
        if \<not> NT_SUCCESS status then Some (status, w\<lparr>cw_Opened := opened\<rparr>)
        else do {
          (status, w1) \<leftarrow> update_values zw zk cp envs 1 [(''InstanceID'', InstanceID), (''LocationInformation'', LocationInformation)] (w\<lparr>cw_Opened := opened\<rparr>);
          Some (status, w1\<lparr>cw_Opened := ZwClose ActiveKey (cw_Opened w1)\<rparr>)
        })"

definition ConfigClearActive :: "'k zw \<Rightarrow> zw_keys \<Rightarrow> code_page \<Rightarrow> config_env \<Rightarrow> 'k config \<Rightarrow> NTSTATUS \<times> 'k config" where
  "ConfigClearActive zw zk cp env w =
     (case RegistryOpenSubKey zk cp (ce_Convert env) 0 ACTIVE_PATH (cw_Opened w) of (status, ActiveKey, opened) \<Rightarrow>
        if \<not> NT_SUCCESS status then (status, w\<lparr>cw_Opened := opened\<rparr>)
        else case RegistryDeleteValue zw cp (ce_Mem env 0) (cw_Active w) ''ActiveDeviceID'' of (status, key) \<Rightarrow>
          if \<not> NT_SUCCESS status then (status, \<lparr>cw_Opened = ZwClose ActiveKey opened, cw_Active = key\<rparr>)
          else case RegistryDeleteValue zw cp (ce_Mem env 1) key ''ActiveInstanceID'' of (status, key) \<Rightarrow>
            (status, \<lparr>cw_Opened = ZwClose ActiveKey opened, cw_Active = key\<rparr>))"

text \<open>
  \<open>params\<close> are the values of the parameters key of the caller; \<open>reboot\<close> is what setting the value of the new
  sub-key answers, \<open>zks\<close> what the two creations do. The request key stays open after a success.
\<close>

definition ConfigRequestReboot :: "'k zw \<Rightarrow> (nat \<Rightarrow> zw_keys) \<Rightarrow> code_page \<Rightarrow> config_env \<Rightarrow> NTSTATUS \<Rightarrow> 'k \<Rightarrow> string \<Rightarrow> HANDLE multiset \<Rightarrow> (NTSTATUS \<times> HANDLE multiset) kernel" where
  "ConfigRequestReboot zw zks cp env reboot params Module opened =
     do {
       (status, Ansi) \<leftarrow> RegistryQuerySzValue zw cp (ce_Mem env 0) params ''RequestKey'';
       (case Ansi of
          None \<Rightarrow> Some (status, opened)
        | Some (_, []) \<Rightarrow> None
        | Some (_, Value # _) \<Rightarrow> do {
            let RequestKeyName = REGISTRY_PREFIX @ Value;
            ASSERT (length RequestKeyName < MAXNAMELEN);
            (case RegistryCreateSubKey (zks 0) cp (ce_Convert env) (rm_Partial (ce_Mem env 1)) 0 RequestKeyName opened of (status, RequestKey, opened1) \<Rightarrow>
               if \<not> NT_SUCCESS status then Some (status, opened1)
               else case RegistryCreateSubKey (zks 1) cp (ce_Convert env) (rm_Partial (ce_Mem env 2)) RequestKey Module opened1 of (status, SubKey, opened2) \<Rightarrow>
                 if \<not> NT_SUCCESS status then Some (status, ZwClose RequestKey opened2)
                 else if \<not> NT_SUCCESS reboot then Some (reboot, ZwClose RequestKey (ZwClose SubKey opened2))
                 else Some (STATUS_SUCCESS, ZwClose SubKey opened2))
          })
     }"

definition ConfigQuerySystemStartOption :: "'k zw \<Rightarrow> code_page \<Rightarrow> reg_mem \<Rightarrow> NTSTATUS \<Rightarrow> 'k \<Rightarrow> reg_mem \<Rightarrow> string \<Rightarrow> (NTSTATUS \<times> string list option) kernel" where
  "ConfigQuerySystemStartOption zw cp mem open key mem_value Key = RegistryQuerySystemStartOption zw cp mem open key mem_value Key"

section \<open>Properties\<close>

lemma open_active_handles:
  assumes "open_active zk cp env vendor DeviceID opened = (status, ActiveKey, opened')"
  shows "if NT_SUCCESS status then opened' = add_mset ActiveKey opened \<and> RegistryOpenSubKey zk cp (ce_Convert env) 0 ACTIVE_PATH opened = (STATUS_SUCCESS, ActiveKey, opened')
     else opened' = opened"
  using assms
  by (auto simp: open_active_def ConfigIsVendorDevicePresent_def RegistryOpenSubKey_def RegistryOpenKey_def ZwClose_def Let_def
      split: if_splits option.splits prod.splits)

lemma wide_inj: "code_page_ok cp \<Longrightarrow> map (cp_wide cp) a = map (cp_wide cp) b \<longleftrightarrow> a = b"
  by (metis ansi_wide)

lemma write_values_other:
  assumes "zw_ok zw" and "code_page_ok cp"
    and "write_values zw cp (\<lambda>_. plenty) i pairs key = Some (STATUS_SUCCESS, key')" and "m \<notin> fst ` set pairs" and "\<forall>(n, v) \<in> set pairs. CHR 0x00 \<notin> set v"
  shows "zw_query zw key' (map (cp_wide cp) m) = zw_query zw key (map (cp_wide cp) m)"
  using assms(3-5)
proof (induction pairs arbitrary: i key)
  case (Cons x pairs)
  obtain a b where x: "x = (a, b)" by fastforce
  from Cons.prems(1) x obtain s key1 where "RegistryUpdateSzValue zw cp plenty key a REG_SZ [b] = Some (s, key1)" "NT_SUCCESS s"
    "write_values zw cp (\<lambda>_. plenty) (i + 1) pairs key1 = Some (STATUS_SUCCESS, key')" by (auto simp: bind_eq_Some_conv split: if_splits)
  then show ?case using Cons.IH [of "i + 1" key1] RegistrySzValue_law [OF assms(1,2), of REG_SZ "[b]" key a s key1] Cons.prems(2,3) x wide_inj [OF assms(2)]
    by (auto simp: sz_text_def)
qed simp

lemma write_values_law:
  assumes "zw_ok zw" and "code_page_ok cp" and "\<forall>(n, v) \<in> set pairs. CHR 0x00 \<notin> set v" and "distinct (map fst pairs)"
    and "write_values zw cp (\<lambda>_. plenty) i pairs key = Some (STATUS_SUCCESS, key')" and "(n, v) \<in> set pairs"
  shows "zw_query zw key' (map (cp_wide cp) n) = (STATUS_SUCCESS, sz_value cp REG_SZ [v]) \<and> length v < 127"
  using assms(3-6)
proof (induction pairs arbitrary: i key)
  case (Cons nv pairs)
  obtain m u where nv: "nv = (m, u)" by fastforce
  from Cons.prems(3) nv obtain s key1 where first: "RegistryUpdateSzValue zw cp plenty key m REG_SZ [u] = Some (s, key1)"
    and rest: "NT_SUCCESS s" "write_values zw cp (\<lambda>_. plenty) (i + 1) pairs key1 = Some (STATUS_SUCCESS, key')"
    by (auto simp: bind_eq_Some_conv split: if_splits)
  have law: "sz_fits REG_SZ [u]" "zw_query zw key1 (map (cp_wide cp) m) = (STATUS_SUCCESS, sz_value cp REG_SZ [u])"
    using RegistrySzValue_law [OF assms(1,2) _ first] Cons.prems(1) nv rest(1) by (auto simp: sz_text_def)
  have "zw_query zw key' (map (cp_wide cp) m) = zw_query zw key1 (map (cp_wide cp) m)"
    using write_values_other [OF assms(1,2) rest(2)] Cons.prems(1,2) nv by auto
  then show ?case using Cons.IH [OF _ _ rest(2)] Cons.prems(1,2,4) nv law by (auto simp: sz_fits_def)
qed simp

lemma ConfigGetActive_law:
  assumes "code_page_ok cp" and "ce_Mem env 0 = plenty" and "ce_Value env" and "length Key < 100" and "CHR 0x00 \<notin> set v" and "length v < 127"
    and "RegistryOpenSubKey zk cp (ce_Convert env) 0 ACTIVE_PATH (cw_Opened w) = (STATUS_SUCCESS, h, add_mset h (cw_Opened w))"
    and "zw_query zw (cw_Active w) (map (cp_wide cp) (''Active'' @ Key)) = (STATUS_SUCCESS, sz_value cp REG_SZ [v])"
  shows "ConfigGetActive zw zk cp env Key w = Some (STATUS_SUCCESS, Some v, w)"
proof -
  have "RegistryQuerySzValue zw cp plenty (cw_Active w) (''Active'' @ Key) = Some (STATUS_SUCCESS, Some (REG_SZ, [v]))"
    by (rule RegistryQuerySzValue_law [OF _ _ assms(1,8)]) (use assms(5,6) in \<open>simp_all add: sz_text_def\<close>)
  then show ?thesis using assms(2-4,7) by (simp add: ConfigGetActive_def ZwClose_def MAXNAMELEN_def)
qed

text \<open>
  C17. A successful \<^verbatim>\<open>ConfigSetActive\<close> makes the device the active one: \<^verbatim>\<open>ConfigGetActive\<close> then gives back the
  device, the instance and the location that were set, and neither leaves a handle open.
\<close>
theorem ConfigActive_roundtrip:
  assumes "zw_ok zw" and "code_page_ok cp" and "\<forall>i. ce_Mem env i = plenty" and "ce_Value env"
    and "\<forall>s \<in> {DeviceID, InstanceID, LocationInformation}. CHR 0x00 \<notin> set s"
    and "ConfigSetActive zw zk cp env vendor DeviceID InstanceID LocationInformation w = Some (STATUS_SUCCESS, w')"
  shows "cw_Opened w' = cw_Opened w \<and>
     ConfigGetActive zw zk cp env ''DeviceID'' w' = Some (STATUS_SUCCESS, Some DeviceID, w') \<and>
     ConfigGetActive zw zk cp env ''InstanceID'' w' = Some (STATUS_SUCCESS, Some InstanceID, w') \<and>
     ConfigGetActive zw zk cp env ''LocationInformation'' w' = Some (STATUS_SUCCESS, Some LocationInformation, w')"
proof -
  let ?pairs = "[(''ActiveDeviceID'', DeviceID), (''ActiveInstanceID'', InstanceID), (''ActiveLocationInformation'', LocationInformation)]"
  obtain s h opened where opn: "open_active zk cp env vendor DeviceID (cw_Opened w) = (s, h, opened)" by (metis prod_cases3)
  have mem: "ce_Mem env = (\<lambda>_. plenty)" using assms(3) by auto
  have s: "NT_SUCCESS s" using assms(6) opn by (auto simp: ConfigSetActive_def split: if_splits)
  from assms(6) opn s obtain key where key: "write_values zw cp (\<lambda>_. plenty) 0 ?pairs (cw_Active w) = Some (STATUS_SUCCESS, key)"
    and w': "w' = \<lparr>cw_Opened = ZwClose h opened, cw_Active = key\<rparr>"
    by (auto simp: ConfigSetActive_def mem bind_eq_Some_conv simp del: write_values.simps split: if_splits)
  have handles: "opened = add_mset h (cw_Opened w)" "RegistryOpenSubKey zk cp (ce_Convert env) 0 ACTIVE_PATH (cw_Opened w) = (STATUS_SUCCESS, h, opened)"
    using open_active_handles [OF opn] s by simp_all
  have w: "cw_Opened w' = cw_Opened w" "cw_Active w' = key" using w' handles(1) by (simp_all add: ZwClose_def)
  have get: "ConfigGetActive zw zk cp env Key w' = Some (STATUS_SUCCESS, Some v, w')" if "(''Active'' @ Key, v) \<in> set ?pairs" "length Key < 100" "CHR 0x00 \<notin> set v" for Key v
  proof -
    have "zw_query zw key (map (cp_wide cp) (''Active'' @ Key)) = (STATUS_SUCCESS, sz_value cp REG_SZ [v]) \<and> length v < 127"
      by (rule write_values_law [OF assms(1,2) _ _ key that(1)]) (use assms(5) in auto)
    then show ?thesis using that(2,3) handles w mem assms(4)
      by (intro ConfigGetActive_law [OF assms(2)]) simp_all
  qed
  show ?thesis using w(1) get [of "''DeviceID''" DeviceID] get [of "''InstanceID''" InstanceID] get [of "''LocationInformation''" LocationInformation] assms(5)
    by simp
qed

definition sample_config_env :: config_env where
  "sample_config_env = \<lparr>ce_Convert = STATUS_SUCCESS, ce_Mem = (\<lambda>i. plenty), ce_Value = True\<rparr>"

lemma sample_config_env_simps [simp]:
  "ce_Convert sample_config_env = STATUS_SUCCESS" "ce_Mem sample_config_env i = plenty" "ce_Value sample_config_env"
  "ce_Mem sample_config_env = (\<lambda>i. plenty)"
  by (simp_all add: sample_config_env_def)

lemma sample_update:
  "length v < 127 \<Longrightarrow> CHR 0x00 \<notin> set v \<Longrightarrow> \<exists>key'. RegistryUpdateSzValue sample_zw cp plenty key n REG_SZ [v] = Some (STATUS_SUCCESS, key')"
  by (simp add: RegistryUpdateSzValue_law sz_text_def sz_fits_def sample_zw_def)

theorem ConfigActive_roundtrip_witness:
  "\<exists>w'. ConfigSetActive sample_zw sample_keys ascii sample_config_env None ''VBD'' ''I'' ''L'' \<lparr>cw_Opened = {#}, cw_Active = []\<rparr> = Some (STATUS_SUCCESS, w') \<and>
     cw_Opened w' = {#} \<and> ConfigGetActive sample_zw sample_keys ascii sample_config_env ''DeviceID'' w' = Some (STATUS_SUCCESS, Some ''VBD'', w')"
proof -
  have opn: "open_active sample_keys ascii sample_config_env None d {#} = (STATUS_SUCCESS, 7, {#7#})" for d
    by (simp add: open_active_def RegistryOpenSubKey_def RegistryOpenKey_def sample_keys_def ConfigIsDeviceLegacy_def ConfigIsVendorDevicePresent_def)
  obtain k1 where 1: "RegistryUpdateSzValue sample_zw ascii plenty [] ''ActiveDeviceID'' REG_SZ [''VBD''] = Some (STATUS_SUCCESS, k1)"
    using sample_update [of "''VBD''" ascii "[]" "''ActiveDeviceID''"] by auto
  obtain k2 where 2: "RegistryUpdateSzValue sample_zw ascii plenty k1 ''ActiveInstanceID'' REG_SZ [''I''] = Some (STATUS_SUCCESS, k2)"
    using sample_update [of "''I''" ascii k1 "''ActiveInstanceID''"] by auto
  obtain k3 where 3: "RegistryUpdateSzValue sample_zw ascii plenty k2 ''ActiveLocationInformation'' REG_SZ [''L''] = Some (STATUS_SUCCESS, k3)"
    using sample_update [of "''L''" ascii k2 "''ActiveLocationInformation''"] by auto
  have run: "ConfigSetActive sample_zw sample_keys ascii sample_config_env None ''VBD'' ''I'' ''L'' \<lparr>cw_Opened = {#}, cw_Active = []\<rparr>
      = Some (STATUS_SUCCESS, \<lparr>cw_Opened = {#}, cw_Active = k3\<rparr>)"
    by (simp add: ConfigSetActive_def opn 1 2 3 ZwClose_def)
  show ?thesis using ConfigActive_roundtrip [OF sample_zw_ok ascii_ok _ _ _ run] by (intro exI [of _ "\<lparr>cw_Opened = {#}, cw_Active = k3\<rparr>"]) (simp add: run)
qed

text \<open>
  A request for a reboot that succeeds leaves a handle open that nobody holds, the request key's; one
  that fails leaves none.
\<close>
theorem ConfigRequestReboot_leaks:
  assumes "fresh_handles (zks 0) 0" and "\<forall>n p name. fresh_handles (zks 1) (snd (zk_create (zks 0) n p name))"
    and "ConfigRequestReboot zw zks cp env reboot params Module opened = Some (status, opened')"
  shows "if NT_SUCCESS status then \<exists>h. opened' = add_mset h opened else opened' = opened"
proof -
  have create: "if NT_SUCCESS s then os' = add_mset h os \<and> (\<exists>n p name. h = snd (zk_create zk n p name)) else os' = os"
    if "fresh_handles zk P" "RegistryCreateSubKey zk cp c m P path os = (s, h, os')" for zk c m P path os s h os'
    using that RegistryCreateKey_law [of zk P m "map (cp_wide cp) path" os s h os'] by (auto simp: RegistryCreateSubKey_def split: if_splits)
  from assms(3) obtain st Ansi where q: "RegistryQuerySzValue zw cp (ce_Mem env 0) params ''RequestKey'' = Some (st, Ansi)"
    by (auto simp: ConfigRequestReboot_def bind_eq_Some_conv)
  show ?thesis
  proof (cases Ansi)
    case None
    have "\<not> NT_SUCCESS st" using q None
      by (auto simp: RegistryQuerySzValue_def query_partial_def bind_eq_Some_conv split: if_splits prod.splits option.splits)
    then show ?thesis using assms(3) q None by (simp add: ConfigRequestReboot_def)
  next
    case (Some a)
    obtain t Value vs where a: "a = (t, Value # vs)" using assms(3) q Some
      by (cases a; cases "snd a") (auto simp: ConfigRequestReboot_def)
    obtain s1 h1 o1 where c1: "RegistryCreateSubKey (zks 0) cp (ce_Convert env) (rm_Partial (ce_Mem env 1)) 0 (REGISTRY_PREFIX @ Value) opened = (s1, h1, o1)"
      by (metis prod_cases3)
    obtain s2 h2 o2 where c2: "RegistryCreateSubKey (zks 1) cp (ce_Convert env) (rm_Partial (ce_Mem env 2)) h1 Module o1 = (s2, h2, o2)"
      by (metis prod_cases3)
    note r1 = create [OF assms(1) c1]
    have r2: "NT_SUCCESS s1 \<Longrightarrow> if NT_SUCCESS s2 then o2 = add_mset h2 o1 else o2 = o1"
      using r1 create [OF _ c2] assms(2) by (auto split: if_splits)
    show ?thesis using assms(3) q Some a c1 c2 r1 r2
      by (auto simp: ConfigRequestReboot_def ZwClose_def split: if_splits)
  qed
qed

definition more_keys :: zw_keys where
  "more_keys = \<lparr>zk_open = (\<lambda>p name. (STATUS_SUCCESS, 5)), zk_create = (\<lambda>n p name. (STATUS_SUCCESS, 2))\<rparr>"

theorem ConfigRequestReboot_leaks_witness:
  "ConfigRequestReboot sample_zw (\<lambda>i. if i = 0 then sample_keys else more_keys) ascii sample_config_env STATUS_SUCCESS
      [(map (cp_wide ascii) ''RequestKey'', sz_value ascii REG_SZ [''R''])] ''XENVBD'' {#} = Some (STATUS_SUCCESS, {#10#}) \<and>
   (\<exists>h. {#10#} = add_mset h {#})"
proof -
  have "RegistryQuerySzValue sample_zw ascii plenty [(map (cp_wide ascii) ''RequestKey'', sz_value ascii REG_SZ [''R''])] ''RequestKey''
      = Some (STATUS_SUCCESS, Some (REG_SZ, [''R'']))"
    by (rule RegistryQuerySzValue_law [OF _ _ ascii_ok]) (simp_all add: sz_text_def sample_zw_def)
  moreover have "RegistryCreateKey sample_keys True 0 (map (cp_wide ascii) (REGISTRY_PREFIX @ ''R'')) {#} = (STATUS_SUCCESS, 10, {#10#})"
    by (simp add: RegistryCreateKey_def RegistryOpenRoot_def RegistryOpenKey_def sample_keys_def REGISTRY_MACHINE_def REGISTRY_PREFIX_def
        wide_literal_def ascii_def wlower_def strtok_loop_pieces ZwClose_def)
  moreover have "RegistryCreateKey more_keys True 10 (map (cp_wide ascii) ''XENVBD'') {#10#} = (STATUS_SUCCESS, 2, {#2, 10#})"
    by (simp add: RegistryCreateKey_def more_keys_def wide_literal_def ascii_def strtok_loop_pieces ZwClose_def)
  moreover have "length (REGISTRY_PREFIX @ ''R'') < MAXNAMELEN" by (simp add: REGISTRY_PREFIX_def MAXNAMELEN_def)
  ultimately have run: "ConfigRequestReboot sample_zw (\<lambda>i. if i = 0 then sample_keys else more_keys) ascii sample_config_env STATUS_SUCCESS
      [(map (cp_wide ascii) ''RequestKey'', sz_value ascii REG_SZ [''R''])] ''XENVBD'' {#} = Some (STATUS_SUCCESS, {#10#})"
    by (simp add: ConfigRequestReboot_def RegistryCreateSubKey_def ZwClose_def del: map_append map_eq_conv list.map)
  have "fresh_handles sample_keys 0" and "\<forall>n p name. fresh_handles more_keys (snd (zk_create sample_keys n p name))"
    by (auto simp: fresh_handles_def sample_keys_def more_keys_def)
  then show ?thesis using run ConfigRequestReboot_leaks [OF _ _ run] by simp
qed

end
