(* ===== verification/Unplug.thy ===== *)
theory Unplug
  imports Config
begin

text \<open>
  Unplugging the emulated devices: src/src/xen/unplug.c, which counts the requests in the registry, decides at
  the next boot and writes the ports of the protocol, and src/src/xenbus/unplug.c, the interface the other
  drivers make requests through. The two files use the same names; those of the latter have the prefix Bus.

  \<^item> The counters are values of the key Unplug of the driver, behind a \<open>zw\<close>; ForceUnplug is a key of the same kind.
    \<open>mem\<close> answers the requests for memory of each registry call in turn.
  \<^item> A port access is an entry of a list of writes; what reading the ports gives is an argument.
\<close>

section \<open>The support driver\<close>

datatype UNPLUG_TYPE = UNPLUG_DISKS | UNPLUG_NICS

definition UNPLUG_FLAGS_IDE_SCSI_DISKS :: nat where "UNPLUG_FLAGS_IDE_SCSI_DISKS = 1"
definition UNPLUG_FLAGS_ALL_NICS :: nat where "UNPLUG_FLAGS_ALL_NICS = 2"
definition UNPLUG_FLAGS_AUX_IDE_DISKS :: nat where "UNPLUG_FLAGS_AUX_IDE_DISKS = 4"
definition UNPLUG_FLAGS_NVME_DISKS :: nat where "UNPLUG_FLAGS_NVME_DISKS = 8"

text \<open>The disjunction of two different bits is their sum.\<close>

definition UNPLUG_FLAGS_ALL_DISKS :: nat where
  "UNPLUG_FLAGS_ALL_DISKS = UNPLUG_FLAGS_IDE_SCSI_DISKS + UNPLUG_FLAGS_NVME_DISKS"

record UNPLUG_CONTEXT =
  up_References :: int
  up_Lock :: bool
  up_BlackListed :: bool
  up_Disks :: bool
  up_Nics :: bool
  up_BootEmulated :: bool

fun up_Request :: "UNPLUG_TYPE \<Rightarrow> UNPLUG_CONTEXT \<Rightarrow> bool" where
  "up_Request UNPLUG_DISKS = up_Disks"
| "up_Request UNPLUG_NICS = up_Nics"

fun set_request :: "UNPLUG_TYPE \<Rightarrow> bool \<Rightarrow> UNPLUG_CONTEXT \<Rightarrow> UNPLUG_CONTEXT" where
  "set_request UNPLUG_DISKS b ctx = ctx\<lparr>up_Disks := b\<rparr>"
| "set_request UNPLUG_NICS b ctx = ctx\<lparr>up_Nics := b\<rparr>"

definition zero_UNPLUG :: UNPLUG_CONTEXT where
  "zero_UNPLUG = \<lparr>up_References = 0, up_Lock = False, up_BlackListed = False, up_Disks = False, up_Nics = False, up_BootEmulated = False\<rparr>"

text \<open>The value of the option after its key, compared with \<^verbatim>\<open>strcmp\<close>; \<open>option\<close> is the answer of the query.\<close>

definition BOOT_EMULATED :: string where
  "BOOT_EMULATED = ''XEN:BOOT_EMULATED=''"

definition option_value :: "string list \<Rightarrow> string" where
  "option_value Option = drop (length BOOT_EMULATED) (hd Option)"

definition UnplugSetBootEmulated :: "NTSTATUS \<times> string list option \<Rightarrow> UNPLUG_CONTEXT \<Rightarrow> UNPLUG_CONTEXT" where
  "UnplugSetBootEmulated option ctx =
     (case option of
        (status, Some Option) \<Rightarrow> if option_value Option = ''TRUE'' then ctx\<lparr>up_BootEmulated := True\<rparr> else ctx
      | (status, None) \<Rightarrow> ctx)"

datatype port_write =
    WRITE_PORT_USHORT nat nat
  | WRITE_PORT_ULONG nat nat

definition UnplugDeviceType :: "UNPLUG_TYPE \<Rightarrow> UNPLUG_CONTEXT \<Rightarrow> port_write list" where
  "UnplugDeviceType Type ctx =
     (case Type of
        UNPLUG_DISKS \<Rightarrow> if up_BootEmulated ctx then [WRITE_PORT_USHORT 0x10 UNPLUG_FLAGS_AUX_IDE_DISKS] else [WRITE_PORT_USHORT 0x10 UNPLUG_FLAGS_ALL_DISKS]
      | UNPLUG_NICS \<Rightarrow> [WRITE_PORT_USHORT 0x10 UNPLUG_FLAGS_ALL_NICS])"

text \<open>
  What the ports answer: the magic number, the version, and the magic number again after the driver has said
  who it is. \<open>product\<close> is the driver's version number, put together as the code does.
\<close>

record ports =
  po_Magic :: nat
  po_Version :: nat
  po_MagicAgain :: nat
  po_Product :: nat

definition UnplugPreamble :: "ports \<Rightarrow> UNPLUG_CONTEXT \<Rightarrow> NTSTATUS \<times> UNPLUG_CONTEXT \<times> port_write list" where
  "UnplugPreamble po ctx =
     (if po_Magic po = 0xd249 then (STATUS_SUCCESS, ctx\<lparr>up_BlackListed := True\<rparr>, [])
      else if po_Magic po \<noteq> 0x49d2 then (STATUS_NOT_SUPPORTED, ctx, [])
      else if po_Version po \<noteq> 0 then
        (STATUS_SUCCESS, if po_MagicAgain po = 0xd249 then ctx\<lparr>up_BlackListed := True\<rparr> else ctx,
         [WRITE_PORT_USHORT 0x12 0xFFFF, WRITE_PORT_ULONG 0x10 (po_Product po)])
      else (STATUS_SUCCESS, ctx, []))"

text \<open>\<^verbatim>\<open>strstr\<close>: whether a name has another in it.\<close>

fun strstr :: "string \<Rightarrow> string \<Rightarrow> bool" where
  "strstr [] Name \<longleftrightarrow> Name = []"
| "strstr (c # cs) Name \<longleftrightarrow> take (length Name) (c # cs) = Name \<or> strstr cs Name"

definition UnplugCheckEnumKeyCallback :: "string \<Rightarrow> string \<Rightarrow> bool \<Rightarrow> NTSTATUS \<times> bool" where
  "UnplugCheckEnumKeyCallback DataName Name Found = (STATUS_SUCCESS, Found \<or> strstr Name DataName)"

text \<open>What the key of the enumerator answers: to being opened, to its queries, and the names below it.\<close>

record enum_key =
  ek_Open :: NTSTATUS
  ek_Info :: key_info
  ek_Enum :: "nat \<Rightarrow> NTSTATUS \<times> WSTR"
  ek_Convert :: "WSTR \<Rightarrow> NTSTATUS"

definition UnplugCheckEnumKey :: "code_page \<Rightarrow> enum_key \<Rightarrow> string \<Rightarrow> 32 word \<Rightarrow> (NTSTATUS \<times> 32 word) kernel" where
  "UnplugCheckEnumKey cp ek EnumName Value =
     (if \<not> NT_SUCCESS (ek_Open ek) then Some (ek_Open ek, 0)
      else do {
        (status, Found) \<leftarrow> RegistryEnumerateSubKeys cp (ek_Info ek) (ek_Enum ek) (ek_Convert ek) (UnplugCheckEnumKeyCallback EnumName) False;
        Some (if \<not> NT_SUCCESS status then (status, 0) else (STATUS_SUCCESS, if \<not> Found then 0 else Value))
      })"

fun ValueName :: "UNPLUG_TYPE \<Rightarrow> string" where
  "ValueName UNPLUG_DISKS = ''DISKS''"
| "ValueName UNPLUG_NICS = ''NICS''"

fun EnumName :: "UNPLUG_TYPE \<Rightarrow> string" where
  "EnumName UNPLUG_DISKS = ''VBD''"
| "EnumName UNPLUG_NICS = ''VIF''"

definition UnplugSetRequest :: "'k zw \<Rightarrow> code_page \<Rightarrow> (nat \<Rightarrow> reg_mem) \<Rightarrow> enum_key \<Rightarrow> 'k \<Rightarrow> UNPLUG_TYPE \<Rightarrow> 'k \<times> UNPLUG_CONTEXT \<Rightarrow> ('k \<times> UNPLUG_CONTEXT) kernel" where
  "UnplugSetRequest zw cp mem ek force Type = (\<lambda>(key, ctx).
     do {
       let unplug = (\<lambda>Value. (snd (RegistryDeleteValue zw cp (mem 2) key (ValueName Type)), set_request Type (Value \<noteq> 0) ctx));
       (case RegistryQueryDwordValue zw cp (mem 0) force (ValueName Type) of
          (_, forced) \<Rightarrow>
            if forced \<noteq> None \<and> forced \<noteq> Some 0 then Some (unplug (the forced))
            else case RegistryQueryDwordValue zw cp (mem 1) key (ValueName Type) of
                (_, None) \<Rightarrow> Some (key, ctx)
              | (_, Some Value) \<Rightarrow>
                  if Value \<noteq> 0 then do { (_, Value1) \<leftarrow> UnplugCheckEnumKey cp ek (EnumName Type) Value; Some (unplug Value1) }
                  else Some (unplug Value))
     })"

definition UnplugIncrementValue :: "'k zw \<Rightarrow> code_page \<Rightarrow> (nat \<Rightarrow> reg_mem) \<Rightarrow> UNPLUG_TYPE \<Rightarrow> 'k \<Rightarrow> NTSTATUS \<times> 'k" where
  "UnplugIncrementValue zw cp mem Type key =
     (let Value = (case RegistryQueryDwordValue zw cp (mem 0) key (ValueName Type) of (_, None) \<Rightarrow> 0 | (_, Some v) \<Rightarrow> v) in
      RegistryUpdateDwordValue zw cp (mem 1) key (ValueName Type) (Value + 1))"

text \<open>\<^verbatim>\<open>Value\<close> is a LONG here.\<close>

definition UnplugDecrementValue :: "'k zw \<Rightarrow> code_page \<Rightarrow> (nat \<Rightarrow> reg_mem) \<Rightarrow> UNPLUG_TYPE \<Rightarrow> 'k \<Rightarrow> NTSTATUS \<times> 'k" where
  "UnplugDecrementValue zw cp mem Type key =
     (case RegistryQueryDwordValue zw cp (mem 0) key (ValueName Type) of
        (status, None) \<Rightarrow> (status, key)
      | (_, Some Value) \<Rightarrow>
          if sint (Value - 1) < 0 then (STATUS_INVALID_PARAMETER, key)
          else RegistryUpdateDwordValue zw cp (mem 1) key (ValueName Type) (Value - 1))"

definition UnplugGetRequest :: "UNPLUG_TYPE \<Rightarrow> UNPLUG_CONTEXT \<Rightarrow> bool" where
  "UnplugGetRequest Type ctx = up_Request Type ctx"

definition UnplugDevices :: "ports \<Rightarrow> UNPLUG_CONTEXT \<Rightarrow> (UNPLUG_CONTEXT \<times> port_write list) kernel" where
  "UnplugDevices po ctx =
     (case UnplugPreamble po ctx of (status, ctx1, writes) \<Rightarrow>
        do {
          ASSERT (NT_SUCCESS status);
          Some (ctx1, writes @ concat (map (\<lambda>Type. if up_Request Type ctx1 then UnplugDeviceType Type ctx1 else []) [UNPLUG_DISKS, UNPLUG_NICS]))
        })"

text \<open>\<open>option\<close>: the answer of the query for the option of the system start.\<close>

definition UnplugInitialize :: "'k zw \<Rightarrow> code_page \<Rightarrow> (UNPLUG_TYPE \<Rightarrow> nat \<Rightarrow> reg_mem) \<Rightarrow> enum_key \<Rightarrow> 'k \<Rightarrow> NTSTATUS \<times> string list option \<Rightarrow>
    'k \<times> UNPLUG_CONTEXT \<Rightarrow> (NTSTATUS \<times> 'k \<times> UNPLUG_CONTEXT) kernel" where
  "UnplugInitialize zw cp mem ek force option = (\<lambda>(key, ctx).
     (let ctx0 = ctx\<lparr>up_References := up_References ctx + 1\<rparr> in
      if up_References ctx0 \<noteq> 1 then do { ASSERT (ctx = zero_UNPLUG); Some (STATUS_OBJECTID_EXISTS, key, ctx) }
      else do {
        s1 \<leftarrow> UnplugSetRequest zw cp (mem UNPLUG_DISKS) ek force UNPLUG_DISKS (key, ctx0\<lparr>up_Lock := True\<rparr>);
        (key2, ctx2) \<leftarrow> UnplugSetRequest zw cp (mem UNPLUG_NICS) ek force UNPLUG_NICS s1;
        Some (STATUS_SUCCESS, key2, UnplugSetBootEmulated option ctx2)
      }))"

definition UnplugTeardown :: "UNPLUG_CONTEXT \<Rightarrow> UNPLUG_CONTEXT kernel" where
  "UnplugTeardown ctx =
     (let ctx1 = ctx\<lparr>up_BootEmulated := False, up_Disks := False, up_Nics := False, up_Lock := False, up_References := up_References ctx - 1\<rparr> in
      do { ASSERT (ctx1 = zero_UNPLUG); Some ctx1 })"

section \<open>The interface of the bus driver\<close>

datatype XENBUS_UNPLUG_DEVICE_TYPE =
    XENBUS_UNPLUG_DEVICE_TYPE_INVALID
  | XENBUS_UNPLUG_DEVICE_TYPE_NICS
  | XENBUS_UNPLUG_DEVICE_TYPE_DISKS

record XENBUS_UNPLUG_CONTEXT =
  xu_References :: int

definition UnplugRequest :: "'k zw \<Rightarrow> code_page \<Rightarrow> (nat \<Rightarrow> reg_mem) \<Rightarrow> XENBUS_UNPLUG_DEVICE_TYPE \<Rightarrow> bool \<Rightarrow> 'k \<Rightarrow> 'k kernel" where
  "UnplugRequest zw cp mem Type Make key =
     (case Type of
        XENBUS_UNPLUG_DEVICE_TYPE_NICS \<Rightarrow>
          Some (if Make then snd (UnplugIncrementValue zw cp mem UNPLUG_NICS key) else snd (UnplugDecrementValue zw cp mem UNPLUG_NICS key))
      | XENBUS_UNPLUG_DEVICE_TYPE_DISKS \<Rightarrow>
          Some (if Make then snd (UnplugIncrementValue zw cp mem UNPLUG_DISKS key) else snd (UnplugDecrementValue zw cp mem UNPLUG_DISKS key))
      | XENBUS_UNPLUG_DEVICE_TYPE_INVALID \<Rightarrow> BUG)"

definition UnplugIsRequested :: "XENBUS_UNPLUG_DEVICE_TYPE \<Rightarrow> UNPLUG_CONTEXT \<Rightarrow> bool kernel" where
  "UnplugIsRequested Type ctx =
     (case Type of
        XENBUS_UNPLUG_DEVICE_TYPE_NICS \<Rightarrow> Some (UnplugGetRequest UNPLUG_NICS ctx)
      | XENBUS_UNPLUG_DEVICE_TYPE_DISKS \<Rightarrow> Some (UnplugGetRequest UNPLUG_DISKS ctx)
      | XENBUS_UNPLUG_DEVICE_TYPE_INVALID \<Rightarrow> BUG)"

definition UnplugBootEmulated :: "NTSTATUS \<times> string list option \<Rightarrow> bool" where
  "UnplugBootEmulated option =
     (case option of (status, Some Option) \<Rightarrow> option_value Option = ''TRUE'' | (status, None) \<Rightarrow> False)"

definition UnplugReboot :: "'k zw \<Rightarrow> (nat \<Rightarrow> zw_keys) \<Rightarrow> code_page \<Rightarrow> config_env \<Rightarrow> NTSTATUS \<Rightarrow> 'k \<Rightarrow> string \<Rightarrow> HANDLE multiset \<Rightarrow> HANDLE multiset kernel" where
  "UnplugReboot zw zks cp env reboot params Module opened = do { (status, opened1) \<leftarrow> ConfigRequestReboot zw zks cp env reboot params Module opened; Some opened1 }"

definition BusUnplugAcquire :: "XENBUS_UNPLUG_CONTEXT \<Rightarrow> NTSTATUS \<times> XENBUS_UNPLUG_CONTEXT" where
  "BusUnplugAcquire ctx = (STATUS_SUCCESS, ctx\<lparr>xu_References := xu_References ctx + 1\<rparr>)"

definition BusUnplugRelease :: "XENBUS_UNPLUG_CONTEXT \<Rightarrow> XENBUS_UNPLUG_CONTEXT" where
  "BusUnplugRelease ctx = ctx\<lparr>xu_References := xu_References ctx - 1\<rparr>"

definition BusUnplugInitialize :: "bool \<Rightarrow> NTSTATUS \<times> XENBUS_UNPLUG_CONTEXT option" where
  "BusUnplugInitialize mem = (if \<not> mem then (STATUS_NO_MEMORY, None) else (STATUS_SUCCESS, Some \<lparr>xu_References = 0\<rparr>))"

text \<open>The sizes of the three interfaces are arguments.\<close>

definition BusUnplugGetInterface :: "nat \<times> nat \<times> nat \<Rightarrow> nat \<Rightarrow> nat \<Rightarrow> NTSTATUS" where
  "BusUnplugGetInterface sizes Version Size =
     (case sizes of (size1, size2, size3) \<Rightarrow>
        if Version = 1 then if Size < size1 then STATUS_BUFFER_OVERFLOW else STATUS_SUCCESS
        else if Version = 2 then if Size < size2 then STATUS_BUFFER_OVERFLOW else STATUS_SUCCESS
        else if Version = 3 then if Size < size3 then STATUS_BUFFER_OVERFLOW else STATUS_SUCCESS
        else STATUS_NOT_SUPPORTED)"

definition BusUnplugGetReferences :: "XENBUS_UNPLUG_CONTEXT \<Rightarrow> int" where
  "BusUnplugGetReferences ctx = xu_References ctx"

definition BusUnplugTeardown :: "XENBUS_UNPLUG_CONTEXT \<Rightarrow> unit kernel" where
  "BusUnplugTeardown ctx = ASSERT (xu_References ctx = 0)"

section \<open>Counters\<close>

definition counter :: "'k zw \<Rightarrow> code_page \<Rightarrow> 'k \<Rightarrow> UNPLUG_TYPE \<Rightarrow> nat" where
  "counter zw cp key Type = (case RegistryQueryDwordValue zw cp plenty key (ValueName Type) of (_, None) \<Rightarrow> 0 | (_, Some v) \<Rightarrow> unat v)"

lemma ValueName_inj: "ValueName T = ValueName T' \<longleftrightarrow> T = T'"
  by (cases T; cases T') auto

lemma query_partial_plenty:
  "query_partial zw cp plenty key Name = (case zw_query zw key (map (cp_wide cp) Name) of (status, Value) \<Rightarrow>
     if \<not> NT_SUCCESS status then (status, None) else (STATUS_SUCCESS, Some Value))"
  by (simp add: query_partial_def split: prod.split)

lemma counter_same: "zw_query zw key' (map (cp_wide cp) (ValueName T)) = zw_query zw key (map (cp_wide cp) (ValueName T)) \<Longrightarrow>
    counter zw cp key' T = counter zw cp key T"
  by (simp add: counter_def RegistryQueryDwordValue_def query_partial_plenty)

lemma counter_update:
  assumes "zw_ok zw" and "code_page_ok cp" and "\<forall>k n t d. NT_SUCCESS (fst (zw_set zw k n t d))"
    and "RegistryUpdateDwordValue zw cp plenty key (ValueName T) v = (status, key')"
  shows "counter zw cp key' = (counter zw cp key)(T := unat v)"
proof
  fix T'
  obtain s k1 where set: "zw_set zw key (map (cp_wide cp) (ValueName T)) REG_DWORD (le_bytes 4 (unat v)) = (s, k1)" by fastforce
  have s: "NT_SUCCESS s" using assms(3) set by (metis fst_conv)
  have k: "key' = k1" using assms(4) set s by (simp add: RegistryUpdateDwordValue_def)
  have q: "zw_query zw k1 (map (cp_wide cp) (ValueName T)) = (STATUS_SUCCESS, \<lparr>val_Type = REG_DWORD, val_Data = le_bytes 4 (unat v)\<rparr>)"
    "\<forall>n. n \<noteq> map (cp_wide cp) (ValueName T) \<longrightarrow> zw_query zw k1 n = zw_query zw key n"
    using assms(1) set s unfolding zw_ok_def by (simp_all split: if_splits)
  have "unat v < 2 ^ LENGTH(32)" by (rule unsigned_less)
  then have "counter zw cp k1 T = unat v" using q(1) by (simp add: counter_def RegistryQueryDwordValue_def query_partial_plenty)
  then show "counter zw cp key' T' = ((counter zw cp key)(T := unat v)) T'"
    using k q(2) counter_same [of zw k1 cp T' key] wide_inj [OF assms(2)] by (cases "T' = T") (simp_all add: ValueName_inj)
qed

text \<open>A request of the bus interface, and what it means for the counters: revoking stops at zero.\<close>

fun unplug_type :: "XENBUS_UNPLUG_DEVICE_TYPE \<Rightarrow> UNPLUG_TYPE" where
  "unplug_type XENBUS_UNPLUG_DEVICE_TYPE_NICS = UNPLUG_NICS"
| "unplug_type _ = UNPLUG_DISKS"

fun count_request :: "XENBUS_UNPLUG_DEVICE_TYPE \<times> bool \<Rightarrow> (UNPLUG_TYPE \<Rightarrow> nat) \<Rightarrow> (UNPLUG_TYPE \<Rightarrow> nat)" where
  "count_request (Type, Make) c = c(unplug_type Type := (if Make then c (unplug_type Type) + 1 else c (unplug_type Type) - 1))"

fun unplug_requests :: "'k zw \<Rightarrow> code_page \<Rightarrow> (XENBUS_UNPLUG_DEVICE_TYPE \<times> bool) list \<Rightarrow> 'k \<Rightarrow> 'k kernel" where
  "unplug_requests zw cp [] key = Some key"
| "unplug_requests zw cp ((Type, Make) # rs) key = do { key1 \<leftarrow> UnplugRequest zw cp (\<lambda>_. plenty) Type Make key; unplug_requests zw cp rs key1 }"

lemma UnplugIncrementValue_law:
  assumes "zw_ok zw" and "code_page_ok cp" and "\<forall>k n t d. NT_SUCCESS (fst (zw_set zw k n t d))" and "counter zw cp key T + 1 < 2 ^ 31"
  shows "counter zw cp (snd (UnplugIncrementValue zw cp (\<lambda>_. plenty) T key)) = (counter zw cp key)(T := counter zw cp key T + 1)"
proof -
  let ?v = "case RegistryQueryDwordValue zw cp plenty key (ValueName T) of (_, None) \<Rightarrow> 0 | (_, Some v) \<Rightarrow> v"
  have v: "unat ?v = counter zw cp key T" by (simp add: counter_def split: prod.split option.split)
  have "unat (?v + 1) = counter zw cp key T + 1"
    using v assms(4) by (simp add: unat_word_ariths mod_less)
  then show ?thesis using counter_update [OF assms(1-3), of key T "?v + 1"]
    by (simp add: UnplugIncrementValue_def Let_def) (metis prod.collapse)
qed

lemma UnplugDecrementValue_law:
  assumes "zw_ok zw" and "code_page_ok cp" and "\<forall>k n t d. NT_SUCCESS (fst (zw_set zw k n t d))" and "counter zw cp key T < 2 ^ 31"
  shows "counter zw cp (snd (UnplugDecrementValue zw cp (\<lambda>_. plenty) T key)) = (counter zw cp key)(T := counter zw cp key T - 1)"
proof -
  obtain st read where q: "RegistryQueryDwordValue zw cp plenty key (ValueName T) = (st, read)" by fastforce
  show ?thesis
  proof (cases read)
    case None
    then show ?thesis using q by (simp add: UnplugDecrementValue_def counter_def fun_upd_idem)
  next
    case (Some v)
    then have c: "counter zw cp key T = unat v" using q by (simp add: counter_def)
    show ?thesis
    proof (cases "v = 0")
      case True
      then show ?thesis using Some q c by (simp add: UnplugDecrementValue_def fun_upd_idem)
    next
      case False
      then have minus: "unat (v - 1) = unat v - 1" by (simp add: unat_minus_one)
      have "uint (v - 1) = int (unat v - 1)" using minus by (metis uint_nat)
      moreover have "unat v - 1 < 2 ^ 31" using c assms(4) less_imp_diff_less by metis
      then have "int (unat v - 1) < 2 ^ 31" by (metis of_nat_less_iff of_nat_numeral of_nat_power)
      ultimately have "\<not> sint (v - 1) < 0" by (simp add: sint_uint signed_take_bit_int_eq_self)
      then show ?thesis using Some q c minus counter_update [OF assms(1-3), of key T "v - 1"]
        by (simp add: UnplugDecrementValue_def) (metis prod.collapse)
    qed
  qed
qed

text \<open>
  C14. However the drivers make and revoke unplug requests, each of the two counters in the registry is what
  counting says: revoking stops at zero, and neither kind of device affects the other's counter.
\<close>
theorem UnplugRequest_counts:
  assumes "zw_ok zw" and "code_page_ok cp" and "\<forall>k n t d. NT_SUCCESS (fst (zw_set zw k n t d))"
    and "\<forall>(Type, Make) \<in> set rs. Type \<noteq> XENBUS_UNPLUG_DEVICE_TYPE_INVALID" and "\<forall>T. counter zw cp key T + length rs < 2 ^ 31"
  shows "\<exists>key'. unplug_requests zw cp rs key = Some key' \<and> counter zw cp key' = fold count_request rs (counter zw cp key)"
  using assms(4,5)
proof (induction rs arbitrary: key)
  case (Cons r rs)
  obtain Type Make where r: "r = (Type, Make)" by fastforce
  let ?T = "unplug_type Type"
  have room: "counter zw cp key ?T + 1 < 2 ^ 31" "counter zw cp key ?T < 2 ^ 31" using Cons.prems(2) [rule_format, of ?T] by simp_all
  obtain key1 where step: "UnplugRequest zw cp (\<lambda>_. plenty) Type Make key = Some key1"
    and c: "counter zw cp key1 = count_request (Type, Make) (counter zw cp key)"
    using Cons.prems(1) r UnplugIncrementValue_law [OF assms(1-3) room(1)] UnplugDecrementValue_law [OF assms(1-3) room(2)]
    by (cases Type; cases Make) (auto simp: UnplugRequest_def)
  have "counter zw cp key1 T + length rs < 2 ^ 31" for T
    using Cons.prems(2) [rule_format, of T] Cons.prems(2) [rule_format, of ?T] diff_le_self [of "counter zw cp key ?T" 1] c
    by (cases "T = ?T"; cases Make) simp_all
  then obtain key' where "unplug_requests zw cp rs key1 = Some key'" "counter zw cp key' = fold count_request rs (counter zw cp key1)"
    using Cons.IH [of key1] Cons.prems(1) by auto
  then show ?case unfolding r by (simp add: step c del: count_request.simps)
qed simp

theorem UnplugRequest_counts_witness:
  "\<exists>key'. unplug_requests sample_zw ascii [(XENBUS_UNPLUG_DEVICE_TYPE_NICS, True), (XENBUS_UNPLUG_DEVICE_TYPE_DISKS, False)] [] = Some key' \<and>
     counter sample_zw ascii key' = fold count_request [(XENBUS_UNPLUG_DEVICE_TYPE_NICS, True), (XENBUS_UNPLUG_DEVICE_TYPE_DISKS, False)] (counter sample_zw ascii [])"
proof (rule UnplugRequest_counts [OF sample_zw_ok ascii_ok])
  have "counter sample_zw ascii [] T = 0" for T
    by (simp add: counter_def RegistryQueryDwordValue_def query_partial_def sample_zw_def)
  then show "\<forall>T. counter sample_zw ascii [] T + length [(XENBUS_UNPLUG_DEVICE_TYPE_NICS, True), (XENBUS_UNPLUG_DEVICE_TYPE_DISKS, False)] < 2 ^ 31"
    by simp
qed (simp_all add: sample_zw_def)

section \<open>The next boot\<close>

lemma strstr_iff: "strstr s n \<longleftrightarrow> (\<exists>p q. s = p @ n @ q)"
proof (induction s)
  case (Cons c s)
  show ?case
  proof
    assume "strstr (c # s) n"
    then consider "take (length n) (c # s) = n" | "strstr s n" by auto
    then show "\<exists>p q. c # s = p @ n @ q"
    proof cases
      case 1
      then have "c # s = [] @ n @ drop (length n) (c # s)" by (metis append_Nil append_take_drop_id)
      then show ?thesis by blast
    next
      case 2
      then show ?thesis using Cons.IH by (metis append_Cons)
    qed
  next
    assume "\<exists>p q. c # s = p @ n @ q"
    then obtain p q where pq: "c # s = p @ n @ q" by blast
    show "strstr (c # s) n"
    proof (cases p)
      case Nil
      then have "take (length n) (c # s) = n" using pq by simp
      then show ?thesis by simp
    next
      case (Cons d p')
      then show ?thesis using pq Cons.IH by auto
    qed
  qed
qed auto

text \<open>A key of the enumerator with these names below it, every call answered.\<close>

definition enum_key_of :: "code_page \<Rightarrow> string list \<Rightarrow> enum_key" where
  "enum_key_of cp names = \<lparr>ek_Open = STATUS_SUCCESS,
     ek_Info = \<lparr>ki_Size = STATUS_BUFFER_TOO_SMALL, ki_Full = (STATUS_SUCCESS, length names), ki_MemFull = True, ki_MemBasic = True, ki_MemAnsi = (\<lambda>i. True)\<rparr>,
     ek_Enum = (\<lambda>i. (STATUS_SUCCESS, map (cp_wide cp) (names ! i))), ek_Convert = (\<lambda>n. STATUS_SUCCESS)\<rparr>"

lemma takeWhile_nul: "CHR 0x00 \<notin> set s \<Longrightarrow> takeWhile (\<lambda>ch. ch \<noteq> CHR 0x00) s = s"
  by (rule takeWhile_eq_all_conv [THEN iffD2]) auto

lemma enumerate_names:
  assumes "code_page_ok cp" and "\<forall>s \<in> set names. CHR 0x00 \<notin> set s"
  shows "enumerate (\<lambda>i. (STATUS_SUCCESS, map (cp_wide cp) ((xs @ names) ! i))) (\<lambda>i. True) (\<lambda>n. Some STATUS_SUCCESS)
     (\<lambda>n. UnplugCheckEnumKeyCallback m (takeWhile (\<lambda>ch. ch \<noteq> CHR 0x00) (map (cp_ansi cp) n))) (length xs) (length names) found
     = Some (STATUS_SUCCESS, found \<or> (\<exists>s \<in> set names. strstr s m))"
  using assms(2)
proof (induction names arbitrary: xs found)
  case (Cons s names)
  have "takeWhile (\<lambda>ch. ch \<noteq> CHR 0x00) (map (cp_ansi cp) (map (cp_wide cp) s)) = s"
    unfolding ansi_wide [OF assms(1)] using Cons.prems by (intro takeWhile_nul) simp
  then show ?case using Cons.IH [of "xs @ [s]" "found \<or> strstr s m"] Cons.prems
    by (simp add: nth_append UnplugCheckEnumKeyCallback_def disj_assoc del: map_map)
qed simp

lemma UnplugCheckEnumKey_law:
  assumes "code_page_ok cp" and "\<forall>s \<in> set names. CHR 0x00 \<notin> set s"
  shows "UnplugCheckEnumKey cp (enum_key_of cp names) n v = Some (STATUS_SUCCESS, if \<exists>s \<in> set names. strstr s n then v else 0)"
  using enumerate_names [OF assms, of "[]" n False]
  by (simp add: UnplugCheckEnumKey_def RegistryEnumerateSubKeys_def enumerate_key_def enum_key_of_def)

text \<open>Whether a type of device is to be unplugged: forced, or asked for and with a paravirtual device to take its place.\<close>

definition wanted :: "'k zw \<Rightarrow> code_page \<Rightarrow> string list \<Rightarrow> 'k \<Rightarrow> 'k \<Rightarrow> UNPLUG_TYPE \<Rightarrow> bool" where
  "wanted zw cp names force key T \<longleftrightarrow>
     counter zw cp force T \<noteq> 0 \<or> counter zw cp key T \<noteq> 0 \<and> (\<exists>s \<in> set names. \<exists>p q. s = p @ EnumName T @ q)"

definition deletes :: "'k zw \<Rightarrow> bool" where
  "deletes zw \<longleftrightarrow> (\<forall>k n. NT_SUCCESS (fst (zw_query zw k n)) \<longrightarrow> NT_SUCCESS (fst (zw_delete zw k n)))"

lemma counter_delete:
  assumes "zw_ok zw" and "code_page_ok cp" and "deletes zw"
  shows "counter zw cp (snd (RegistryDeleteValue zw cp plenty key (ValueName T))) = (counter zw cp key)(T := 0)"
proof
  fix T'
  obtain s k1 where del: "zw_delete zw key (map (cp_wide cp) (ValueName T)) = (s, k1)" by fastforce
  have k: "snd (RegistryDeleteValue zw cp plenty key (ValueName T)) = k1" using del by (simp add: RegistryDeleteValue_def)
  have q: "if NT_SUCCESS s then \<not> NT_SUCCESS (fst (zw_query zw k1 (map (cp_wide cp) (ValueName T)))) \<and>
      (\<forall>m. m \<noteq> map (cp_wide cp) (ValueName T) \<longrightarrow> zw_query zw k1 m = zw_query zw key m) else k1 = key"
    using assms(1) del unfolding zw_ok_def by blast
  have gone: "counter zw cp k1 T = 0" if "\<not> NT_SUCCESS (fst (zw_query zw k1 (map (cp_wide cp) (ValueName T))))"
    using that by (cases "zw_query zw k1 (map (cp_wide cp) (ValueName T))") (simp add: counter_def RegistryQueryDwordValue_def query_partial_plenty)
  have "NT_SUCCESS s \<or> \<not> NT_SUCCESS (fst (zw_query zw key (map (cp_wide cp) (ValueName T))))"
    using assms(3) del unfolding deletes_def by (metis fst_conv)
  then have "\<not> NT_SUCCESS (fst (zw_query zw k1 (map (cp_wide cp) (ValueName T))))" using q by (auto split: if_splits)
  then show "counter zw cp (snd (RegistryDeleteValue zw cp plenty key (ValueName T))) T' = ((counter zw cp key)(T := 0)) T'"
    using k gone q counter_same [of zw k1 cp T' key] wide_inj [OF assms(2)] by (cases "T' = T") (simp_all add: ValueName_inj split: if_splits)
qed

lemma UnplugSetRequest_law:
  assumes "zw_ok zw" and "code_page_ok cp" and "deletes zw" and "\<forall>s \<in> set names. CHR 0x00 \<notin> set s" and "\<not> up_Request T ctx"
  shows "\<exists>key'. UnplugSetRequest zw cp (\<lambda>_. plenty) (enum_key_of cp names) force T (key, ctx) = Some (key', set_request T (wanted zw cp names force key T) ctx) \<and>
     counter zw cp key' = (counter zw cp key)(T := 0)"
proof -
  obtain s1 f where f: "RegistryQueryDwordValue zw cp plenty force (ValueName T) = (s1, f)" by fastforce
  obtain s2 c where c: "RegistryQueryDwordValue zw cp plenty key (ValueName T) = (s2, c)" by fastforce
  have same: "set_request T False ctx = ctx" using assms(5) by (cases T) simp_all
  have force: "counter zw cp force T = (case f of None \<Rightarrow> 0 | Some v \<Rightarrow> unat v)" "counter zw cp key T = (case c of None \<Rightarrow> 0 | Some v \<Rightarrow> unat v)"
    using f c by (simp_all add: counter_def)
  have zero: "unat v = 0 \<longleftrightarrow> v = 0" for v :: "32 word" by (simp add: unat_eq_0)
  note run = UnplugSetRequest_def f c UnplugCheckEnumKey_law [OF assms(2,4)] counter_delete [OF assms(1-3)] wanted_def force zero strstr_iff [symmetric]
  show ?thesis
  proof (cases "f \<noteq> None \<and> f \<noteq> Some 0")
    case True
    then obtain v where "f = Some v" "v \<noteq> 0" by auto
    then show ?thesis by (simp add: run)
  next
    case False
    show ?thesis
    proof (cases c)
      case None
      then show ?thesis using False force by (auto simp: run same fun_upd_idem)
    next
      case (Some v)
      then show ?thesis using False by (cases "v = 0") (auto simp: run)
    qed
  qed
qed

lemma UnplugDevices_law:
  assumes "po_Magic po = 0x49d2"
  shows "UnplugDevices po ctx = Some (fst (snd (UnplugPreamble po ctx)), snd (snd (UnplugPreamble po ctx)) @
     (if up_Disks ctx then [WRITE_PORT_USHORT 0x10 (if up_BootEmulated ctx then UNPLUG_FLAGS_AUX_IDE_DISKS else UNPLUG_FLAGS_ALL_DISKS)] else []) @
     (if up_Nics ctx then [WRITE_PORT_USHORT 0x10 UNPLUG_FLAGS_ALL_NICS] else []))"
  using assms by (simp add: UnplugDevices_def UnplugPreamble_def UnplugDeviceType_def)

text \<open>
  C15. At boot a kind of device is unplugged exactly if \<^verbatim>\<open>ForceUnplug\<close> names it with a value other than zero, or its
  counter is not zero and a driver for it is installed in the enumeration key: the ports are written for those
  kinds and no other, after the preamble. The counters are gone then, so the same requests do not unplug
  anything at a later boot. This is when the registry has memory, its writes and deletions succeed and its names
  are texts, and when the port answers with the magic of the protocol.
\<close>
theorem UnplugInitialize_then_UnplugDevices:
  assumes "zw_ok zw" and "code_page_ok cp" and "deletes zw" and "\<forall>s \<in> set names. CHR 0x00 \<notin> set s" and "po_Magic po = 0x49d2"
  shows "\<exists>key' ctx' ctx''. UnplugInitialize zw cp (\<lambda>_ _. plenty) (enum_key_of cp names) force option (key, zero_UNPLUG) = Some (STATUS_SUCCESS, key', ctx') \<and>
     UnplugDevices po ctx' = Some (ctx'', snd (snd (UnplugPreamble po ctx')) @
       (if wanted zw cp names force key UNPLUG_DISKS
        then [WRITE_PORT_USHORT 0x10 (if UnplugBootEmulated option then UNPLUG_FLAGS_AUX_IDE_DISKS else UNPLUG_FLAGS_ALL_DISKS)] else []) @
       (if wanted zw cp names force key UNPLUG_NICS then [WRITE_PORT_USHORT 0x10 UNPLUG_FLAGS_ALL_NICS] else [])) \<and>
     (\<forall>T. counter zw cp key' T = 0)"
proof -
  let ?ctx0 = "zero_UNPLUG\<lparr>up_References := 1, up_Lock := True\<rparr>"
  let ?w = "wanted zw cp names force key"
  have none: "\<not> up_Request T ?ctx0" for T by (cases T) (simp_all add: zero_UNPLUG_def)
  from UnplugSetRequest_law [where force = force and key = key, OF assms(1-4) none [of UNPLUG_DISKS]] obtain k1 where
    1: "UnplugSetRequest zw cp (\<lambda>_. plenty) (enum_key_of cp names) force UNPLUG_DISKS (key, ?ctx0) = Some (k1, ?ctx0\<lparr>up_Disks := ?w UNPLUG_DISKS\<rparr>)"
    "counter zw cp k1 = (counter zw cp key)(UNPLUG_DISKS := 0)" by auto
  have same: "wanted zw cp names force k1 UNPLUG_NICS = ?w UNPLUG_NICS" by (simp add: wanted_def 1(2))
  have "\<not> up_Request UNPLUG_NICS (?ctx0\<lparr>up_Disks := ?w UNPLUG_DISKS\<rparr>)" by (simp add: zero_UNPLUG_def)
  from UnplugSetRequest_law [where force = force and key = k1, OF assms(1-4) this] obtain k2 where
    2: "UnplugSetRequest zw cp (\<lambda>_. plenty) (enum_key_of cp names) force UNPLUG_NICS (k1, ?ctx0\<lparr>up_Disks := ?w UNPLUG_DISKS\<rparr>)
      = Some (k2, ?ctx0\<lparr>up_Disks := ?w UNPLUG_DISKS, up_Nics := ?w UNPLUG_NICS\<rparr>)"
    "counter zw cp k2 = (counter zw cp k1)(UNPLUG_NICS := 0)" by (auto simp: same)
  let ?ctx = "UnplugSetBootEmulated option (?ctx0\<lparr>up_Disks := ?w UNPLUG_DISKS, up_Nics := ?w UNPLUG_NICS\<rparr>)"
  have run: "UnplugInitialize zw cp (\<lambda>_ _. plenty) (enum_key_of cp names) force option (key, zero_UNPLUG) = Some (STATUS_SUCCESS, k2, ?ctx)"
    using 1(1) 2(1) by (simp add: UnplugInitialize_def zero_UNPLUG_def)
  have bits: "up_Disks ?ctx = ?w UNPLUG_DISKS" "up_Nics ?ctx = ?w UNPLUG_NICS" "up_BootEmulated ?ctx = UnplugBootEmulated option"
    by (simp_all add: UnplugSetBootEmulated_def UnplugBootEmulated_def zero_UNPLUG_def split: prod.split option.split)
  have "counter zw cp k2 T = 0" for T using 1(2) 2(2) by (cases T) simp_all
  then show ?thesis using run UnplugDevices_law [OF assms(5), of ?ctx] unfolding bits by blast
qed

theorem UnplugInitialize_then_UnplugDevices_witness:
  "\<exists>key' ctx' ctx''. UnplugInitialize sample_zw ascii (\<lambda>_ _. plenty) (enum_key_of ascii [''VIF'']) [] (STATUS_SUCCESS, None)
       ([(map (cp_wide ascii) ''NICS'', \<lparr>val_Type = REG_DWORD, val_Data = [1, 0, 0, 0]\<rparr>)], zero_UNPLUG) = Some (STATUS_SUCCESS, key', ctx') \<and>
     UnplugDevices \<lparr>po_Magic = 0x49d2, po_Version = 0, po_MagicAgain = 0, po_Product = 0\<rparr> ctx' = Some (ctx'', [WRITE_PORT_USHORT 0x10 2]) \<and>
     (\<forall>T. counter sample_zw ascii key' T = 0)"
proof -
  let ?key = "[(map (cp_wide ascii) ''NICS'', \<lparr>val_Type = REG_DWORD, val_Data = [1, 0, 0, 0]\<rparr>)]"
  let ?po = "\<lparr>po_Magic = 0x49d2, po_Version = 0, po_MagicAgain = 0, po_Product = 0\<rparr>"
  have d: "deletes sample_zw" by (auto simp: deletes_def sample_zw_def split: option.splits)
  have "counter sample_zw ascii [] T = 0" for T
    by (simp add: counter_def RegistryQueryDwordValue_def query_partial_def sample_zw_def)
  moreover have "counter sample_zw ascii ?key UNPLUG_DISKS = 0" "counter sample_zw ascii ?key UNPLUG_NICS = 1"
    by (simp_all add: counter_def RegistryQueryDwordValue_def query_partial_def sample_zw_def ascii_def)
  ultimately have w: "\<not> wanted sample_zw ascii [''VIF''] [] ?key UNPLUG_DISKS" "wanted sample_zw ascii [''VIF''] [] ?key UNPLUG_NICS"
    unfolding wanted_def strstr_iff [symmetric] by simp_all
  show ?thesis
    using UnplugInitialize_then_UnplugDevices [OF sample_zw_ok ascii_ok d, of "[''VIF'']" ?po "[]" "(STATUS_SUCCESS, None)" ?key] w
    by (simp add: UnplugPreamble_def UNPLUG_FLAGS_ALL_NICS_def)
qed

end
