(* ===== verification/Emulated.thy ===== *)
theory Emulated
  imports Util
begin

text \<open>
  The emulated devices of the filter driver, src/src/xenfilt/emulated.c: the list of the PCI devices and IDE
  disks that the filter sees, and the questions the other drivers ask about it before they unplug or start
  anything. A string has no NUL in it; the list of compatible IDs is a buffer of strings with theirs. The
  address of an object is what \<^verbatim>\<open>__EmulatedAllocate\<close> gave. The union of the two kinds of data is a datatype,
  as the type of an object says which one it has.
\<close>

section \<open>Strings\<close>

text \<open>\<^verbatim>\<open>strlen\<close> with the string it measures: leaving the buffer is a stop.\<close>

fun cstr :: "string \<Rightarrow> string kernel" where
  "cstr [] = None"
| "cstr (c # cs) = (if c = CHR 0x00 then Some [] else do { s \<leftarrow> cstr cs; Some (c # s) })"

lemma cstr_shorter: "cstr Buffer = Some s \<Longrightarrow> length s < length Buffer"
  by (induction Buffer arbitrary: s) (auto split: if_splits bind_splits)

definition stricmp_eq :: "string \<Rightarrow> string \<Rightarrow> bool" where
  "stricmp_eq s t \<longleftrightarrow> map to_lower s = map to_lower t"

text \<open>
  \<^verbatim>\<open>strtoul\<close> in base 10: white space, a sign, digits; the value, clamped to a ULONG, and the rest. Without a
  digit the value is 0 and the rest is the whole string.
\<close>

definition is_digit :: "char \<Rightarrow> bool" where
  "is_digit c \<longleftrightarrow> (48 :: nat) \<le> of_char c \<and> of_char c \<le> (57 :: nat)"

definition is_space :: "char \<Rightarrow> bool" where
  "is_space c \<longleftrightarrow> c \<in> {CHR '' '', CHR 0x09, CHR 0x0A, CHR 0x0B, CHR 0x0C, CHR 0x0D}"

definition digits_value :: "string \<Rightarrow> nat" where
  "digits_value = foldl (\<lambda>n c. 10 * n + (of_char c - 48)) 0"

definition strtoul :: "string \<Rightarrow> nat \<times> string" where
  "strtoul s =
     (let t = dropWhile is_space s;
          minus = (t \<noteq> [] \<and> hd t = CHR ''-'');
          u = (if t \<noteq> [] \<and> (hd t = CHR ''-'' \<or> hd t = CHR ''+'') then tl t else t);
          digits = takeWhile is_digit u;
          n = digits_value digits in
      if digits = [] then (0, s)
      else (if 2 ^ 32 \<le> n then 2 ^ 32 - 1 else if minus then (2 ^ 32 - n) mod 2 ^ 32 else n, dropWhile is_digit u))"

section \<open>Objects\<close>

datatype XENFILT_EMULATED_OBJECT_TYPE =
    XENFILT_EMULATED_OBJECT_TYPE_UNKNOWN
  | XENFILT_EMULATED_OBJECT_TYPE_PCI
  | XENFILT_EMULATED_OBJECT_TYPE_IDE

datatype XENBUS_EMULATED_ACTIVATION_STATUS =
    XENBUS_EMULATED_ACTIVATE_NEUTRAL
  | XENBUS_EMULATED_FORCE_ACTIVATED
  | XENBUS_EMULATED_FORCE_DEACTIVATED

record XENFILT_EMULATED_DEVICE_DATA =
  dd_DeviceID :: string
  dd_InstanceID :: string
  dd_ForceActivate :: XENBUS_EMULATED_ACTIVATION_STATUS
  dd_IsEmulatedNvme :: bool

datatype XENFILT_EMULATED_OBJECT =
    PCI XENFILT_EMULATED_DEVICE_DATA
  | IDE nat

record XENFILT_EMULATED_CONTEXT =
  em_References :: int
  em_List :: "(nat \<times> XENFILT_EMULATED_OBJECT) list"

definition MAXNAMELEN :: nat where
  "MAXNAMELEN = 128"

definition NVME_INTEL :: string where
  "NVME_INTEL = ''PCI'' @ CHR 0x5C # ''VEN_8086&DEV_5845''"

definition NVME_QEMU :: string where
  "NVME_QEMU = ''PCI'' @ CHR 0x5C # ''VEN_1B36&DEV_0010''"

function find_nvme :: "string \<Rightarrow> bool kernel" where
  "find_nvme CompatibleIDs =
     (case cstr CompatibleIDs of
        None \<Rightarrow> None
      | Some s \<Rightarrow> if s = [] then Some False
          else if stricmp_eq s NVME_INTEL \<or> stricmp_eq s NVME_QEMU then Some True
          else find_nvme (drop (length s + 1) CompatibleIDs))"
  by pat_completeness auto
termination
  by (relation "measure length") (auto dest: cstr_shorter)

declare find_nvme.simps [simp del]

text \<open>The printing of both names is asserted to fit.\<close>

definition EmulatedSetObjectDeviceData :: "XENFILT_EMULATED_OBJECT_TYPE \<Rightarrow> string \<Rightarrow> string \<Rightarrow> string option \<Rightarrow>
    (NTSTATUS \<times> XENFILT_EMULATED_DEVICE_DATA option) kernel" where
  "EmulatedSetObjectDeviceData Type DeviceID InstanceID CompatibleIDs =
     (if Type \<noteq> XENFILT_EMULATED_OBJECT_TYPE_PCI then Some (STATUS_INVALID_PARAMETER, None)
      else do {
        ASSERT (length DeviceID < MAXNAMELEN);
        ASSERT (length InstanceID < MAXNAMELEN);
        nvme \<leftarrow> (case CompatibleIDs of None \<Rightarrow> Some False | Some ids \<Rightarrow> find_nvme ids);
        Some (STATUS_SUCCESS, Some \<lparr>dd_DeviceID = DeviceID, dd_InstanceID = InstanceID,
          dd_ForceActivate = XENBUS_EMULATED_ACTIVATE_NEUTRAL, dd_IsEmulatedNvme = nvme\<rparr>)
      })"

definition starts_with :: "char \<Rightarrow> string \<Rightarrow> bool" where
  "starts_with c s \<longleftrightarrow> s \<noteq> [] \<and> hd s = c"

definition EmulatedSetObjectDiskData :: "XENFILT_EMULATED_OBJECT_TYPE \<Rightarrow> string \<Rightarrow> NTSTATUS \<times> nat option" where
  "EmulatedSetObjectDiskData Type InstanceID =
     (if Type \<noteq> XENFILT_EMULATED_OBJECT_TYPE_IDE then (STATUS_INVALID_PARAMETER, None)
      else case strtoul InstanceID of (Controller, End) \<Rightarrow>
        if 1 < Controller \<or> \<not> starts_with (CHR ''.'') End then (STATUS_INVALID_PARAMETER, None)
        else case strtoul (tl End) of (Target, End) \<Rightarrow>
          if 1 < Target \<or> \<not> starts_with (CHR ''.'') End then (STATUS_INVALID_PARAMETER, None)
          else case strtoul (tl End) of (Lun, End) \<Rightarrow>
            if Lun \<noteq> 0 then (STATUS_NOT_SUPPORTED, None)
            else if End \<noteq> [] then (STATUS_INVALID_PARAMETER, None)
            else (STATUS_SUCCESS, Some (2 * Controller + Target)))"

text \<open>\<open>mem\<close> is the address of the new object, if there is memory for it.\<close>

definition EmulatedAddObject :: "nat option \<Rightarrow> string \<Rightarrow> string \<Rightarrow> string option \<Rightarrow> XENFILT_EMULATED_OBJECT_TYPE \<Rightarrow> XENBUS_EMULATED_ACTIVATION_STATUS \<Rightarrow>
    XENFILT_EMULATED_CONTEXT \<Rightarrow> (NTSTATUS \<times> nat option \<times> XENFILT_EMULATED_CONTEXT) kernel" where
  "EmulatedAddObject mem DeviceID InstanceID CompatibleIDs Type ForceActivate ctx =
     (case mem of
        None \<Rightarrow> Some (STATUS_NO_MEMORY, None, ctx)
      | Some addr \<Rightarrow> do {
          (status, obj) \<leftarrow>
            (case Type of
               XENFILT_EMULATED_OBJECT_TYPE_PCI \<Rightarrow> do {
                 (status, Device) \<leftarrow> EmulatedSetObjectDeviceData Type DeviceID InstanceID CompatibleIDs;
                 Some (status, case Device of None \<Rightarrow> None | Some d \<Rightarrow> Some (PCI (d\<lparr>dd_ForceActivate := ForceActivate\<rparr>)))
               }
             | XENFILT_EMULATED_OBJECT_TYPE_IDE \<Rightarrow>
                 (case EmulatedSetObjectDiskData Type InstanceID of (status, Disk) \<Rightarrow>
                    Some (status, case Disk of None \<Rightarrow> None | Some i \<Rightarrow> Some (IDE i)))
             | _ \<Rightarrow> Some (STATUS_INVALID_PARAMETER, None));
          Some (case obj of
              None \<Rightarrow> (status, None, ctx)
            | Some object \<Rightarrow> (STATUS_SUCCESS, Some addr, ctx\<lparr>em_List := em_List ctx @ [(addr, object)]\<rparr>))
        })"

text \<open>Unlinking an object that is not on the list is not modelled: it stops.\<close>

definition EmulatedRemoveObject :: "nat \<Rightarrow> XENFILT_EMULATED_CONTEXT \<Rightarrow> XENFILT_EMULATED_CONTEXT kernel" where
  "EmulatedRemoveObject addr ctx =
     do {
       ASSERT (addr \<in> fst ` set (em_List ctx));
       Some (ctx\<lparr>em_List := filter (\<lambda>(a, _). a \<noteq> addr) (em_List ctx)\<rparr>)
     }"

section \<open>Questions\<close>

definition EmulatedDeviceMatchesDeviceID :: "XENFILT_EMULATED_DEVICE_DATA \<Rightarrow> string option \<Rightarrow> bool" where
  "EmulatedDeviceMatchesDeviceID Device DeviceID =
     (case DeviceID of Some s \<Rightarrow> stricmp_eq s (dd_DeviceID Device) | None \<Rightarrow> dd_ForceActivate Device = XENBUS_EMULATED_FORCE_ACTIVATED)"

definition EmulatedDeviceMatchesInstanceID :: "XENFILT_EMULATED_DEVICE_DATA \<Rightarrow> string option \<Rightarrow> bool" where
  "EmulatedDeviceMatchesInstanceID Device InstanceID = (case InstanceID of None \<Rightarrow> True | Some s \<Rightarrow> stricmp_eq s (dd_InstanceID Device))"

fun device_matches :: "string option \<Rightarrow> string option \<Rightarrow> XENFILT_EMULATED_OBJECT \<Rightarrow> bool" where
  "device_matches DeviceID InstanceID (PCI Device) \<longleftrightarrow> EmulatedDeviceMatchesDeviceID Device DeviceID \<and> EmulatedDeviceMatchesInstanceID Device InstanceID"
| "device_matches DeviceID InstanceID (IDE _) \<longleftrightarrow> False"

fun activation :: "XENFILT_EMULATED_OBJECT \<Rightarrow> XENBUS_EMULATED_ACTIVATION_STATUS" where
  "activation (PCI Device) = dd_ForceActivate Device"
| "activation (IDE _) = XENBUS_EMULATED_ACTIVATE_NEUTRAL"

text \<open>The walk along the list, to the first object that matches: whether there is one, and its activation.\<close>

fun find_device :: "string option \<Rightarrow> string option \<Rightarrow> (nat \<times> XENFILT_EMULATED_OBJECT) list \<Rightarrow> bool \<times> XENBUS_EMULATED_ACTIVATION_STATUS" where
  "find_device DeviceID InstanceID [] = (False, XENBUS_EMULATED_ACTIVATE_NEUTRAL)"
| "find_device DeviceID InstanceID ((_, obj) # objs) =
     (if device_matches DeviceID InstanceID obj then (True, activation obj) else find_device DeviceID InstanceID objs)"

definition EmulatedIsDevicePresent :: "string option \<Rightarrow> string option \<Rightarrow> XENFILT_EMULATED_CONTEXT \<Rightarrow> bool \<times> XENBUS_EMULATED_ACTIVATION_STATUS" where
  "EmulatedIsDevicePresent DeviceID InstanceID ctx = find_device DeviceID InstanceID (em_List ctx)"

definition EmulatedIsDevicePresentVersion1 :: "string \<Rightarrow> string option \<Rightarrow> XENFILT_EMULATED_CONTEXT \<Rightarrow> bool" where
  "EmulatedIsDevicePresentVersion1 DeviceID InstanceID ctx = fst (EmulatedIsDevicePresent (Some DeviceID) InstanceID ctx)"

fun disk_matches :: "nat \<Rightarrow> XENFILT_EMULATED_OBJECT \<Rightarrow> bool" where
  "disk_matches Index (IDE i) \<longleftrightarrow> Index = i"
| "disk_matches Index (PCI Device) \<longleftrightarrow> dd_IsEmulatedNvme Device"

fun find_disk :: "nat \<Rightarrow> (nat \<times> XENFILT_EMULATED_OBJECT) list \<Rightarrow> bool" where
  "find_disk Index [] = False"
| "find_disk Index ((_, obj) # objs) = (if disk_matches Index obj then True else find_disk Index objs)"

definition EmulatedIsDiskPresent :: "nat \<Rightarrow> XENFILT_EMULATED_CONTEXT \<Rightarrow> bool" where
  "EmulatedIsDiskPresent Index ctx = find_disk Index (em_List ctx)"

definition EmulatedIsDiskPresentVersion1 :: "nat \<Rightarrow> nat \<Rightarrow> nat \<Rightarrow> XENFILT_EMULATED_CONTEXT \<Rightarrow> bool" where
  "EmulatedIsDiskPresentVersion1 Controller Target Lun ctx = EmulatedIsDiskPresent Target ctx"

section \<open>References\<close>

definition EmulatedAcquire :: "XENFILT_EMULATED_CONTEXT \<Rightarrow> NTSTATUS \<times> XENFILT_EMULATED_CONTEXT" where
  "EmulatedAcquire ctx = (STATUS_SUCCESS, ctx\<lparr>em_References := em_References ctx + 1\<rparr>)"

definition EmulatedRelease :: "XENFILT_EMULATED_CONTEXT \<Rightarrow> XENFILT_EMULATED_CONTEXT" where
  "EmulatedRelease ctx = ctx\<lparr>em_References := em_References ctx - 1\<rparr>"

definition EmulatedInitialize :: "bool \<Rightarrow> NTSTATUS \<times> XENFILT_EMULATED_CONTEXT option" where
  "EmulatedInitialize mem = (if \<not> mem then (STATUS_NO_MEMORY, None) else (STATUS_SUCCESS, Some \<lparr>em_References = 0, em_List = []\<rparr>))"

text \<open>The sizes of the three interfaces are arguments.\<close>

definition EmulatedGetInterface :: "nat \<times> nat \<times> nat \<Rightarrow> nat \<Rightarrow> nat \<Rightarrow> NTSTATUS" where
  "EmulatedGetInterface sizes Version Size =
     (case sizes of (size1, size2, size3) \<Rightarrow>
        if Version = 1 then if Size < size1 then STATUS_BUFFER_OVERFLOW else STATUS_SUCCESS
        else if Version = 2 then if Size < size2 then STATUS_BUFFER_OVERFLOW else STATUS_SUCCESS
        else if Version = 3 then if Size < size3 then STATUS_BUFFER_OVERFLOW else STATUS_SUCCESS
        else STATUS_NOT_SUPPORTED)"

definition EmulatedTeardown :: "XENFILT_EMULATED_CONTEXT \<Rightarrow> unit kernel" where
  "EmulatedTeardown ctx = (if em_List ctx \<noteq> [] then BUG else ASSERT (em_References ctx = 0))"

section \<open>What is there\<close>

text \<open>
  The devices and disks by what arrived, without the objects the code makes of them: a PCI device with its
  names and the list of its compatible IDs, or an IDE disk by its controller, target and unit. A capital
  letter and its small one, 32 apart in ASCII, count as the same.
\<close>

datatype arrival =
    PciDevice string string "string list option" XENBUS_EMULATED_ACTIVATION_STATUS
  | IdeDisk nat nat nat
  | OtherObject

datatype emulated_event = Arrives nat arrival | Leaves nat

fun accepted :: "arrival \<Rightarrow> bool" where
  "accepted (PciDevice d i ids f) \<longleftrightarrow> True"
| "accepted (IdeDisk c t l) \<longleftrightarrow> c \<le> 1 \<and> t \<le> 1 \<and> l = 0"
| "accepted OtherObject \<longleftrightarrow> False"

definition present_step :: "emulated_event \<Rightarrow> (nat \<times> arrival) list \<Rightarrow> (nat \<times> arrival) list" where
  "present_step e m = (case e of
      Arrives addr x \<Rightarrow> if accepted x then m @ [(addr, x)] else m
    | Leaves addr \<Rightarrow> filter (\<lambda>(a, _). a \<noteq> addr) m)"

definition present :: "emulated_event list \<Rightarrow> arrival list" where
  "present es = map snd (fold present_step es [])"

definition same_letter :: "char \<Rightarrow> char \<Rightarrow> bool" where
  "same_letter c d \<longleftrightarrow> (let m = of_char c :: nat; n = of_char d :: nat in
     m = n \<or> 65 \<le> m \<and> m \<le> 90 \<and> n = m + 32 \<or> 65 \<le> n \<and> n \<le> 90 \<and> m = n + 32)"

definition same_text :: "string \<Rightarrow> string \<Rightarrow> bool" where
  "same_text = list_all2 same_letter"

fun is_disk :: "nat \<Rightarrow> arrival \<Rightarrow> bool" where
  "is_disk Index (IdeDisk c t l) \<longleftrightarrow> Index = 2 * c + t"
| "is_disk Index (PciDevice d i (Some ids) f) \<longleftrightarrow> (\<exists>s \<in> set ids. same_text s NVME_INTEL \<or> same_text s NVME_QEMU)"
| "is_disk Index _ \<longleftrightarrow> False"

fun is_device :: "string option \<Rightarrow> string option \<Rightarrow> arrival \<Rightarrow> bool" where
  "is_device DeviceID InstanceID (PciDevice d i ids f) \<longleftrightarrow>
     (DeviceID = None \<and> f = XENBUS_EMULATED_FORCE_ACTIVATED \<or> (\<exists>s. DeviceID = Some s \<and> same_text s d)) \<and>
     (InstanceID = None \<or> (\<exists>s. InstanceID = Some s \<and> same_text s i))"
| "is_device DeviceID InstanceID _ \<longleftrightarrow> False"

fun forced :: "arrival \<Rightarrow> XENBUS_EMULATED_ACTIVATION_STATUS" where
  "forced (PciDevice d i ids f) = f"
| "forced _ = XENBUS_EMULATED_ACTIVATE_NEUTRAL"

text \<open>How the callers hand it over: the list of IDs as one buffer, the place of a disk as a text of three numbers.\<close>

fun decimal_digits :: "nat \<Rightarrow> string" where
  "decimal_digits n = (if n < 10 then [char_of (48 + n)] else decimal_digits (n div 10) @ [char_of (48 + n mod 10)])"

declare decimal_digits.simps [simp del]

definition multi_sz :: "string list \<Rightarrow> string" where
  "multi_sz ids = concat (map (\<lambda>s. s @ [CHR 0x00]) ids) @ [CHR 0x00]"

fun emulated_do :: "emulated_event \<Rightarrow> XENFILT_EMULATED_CONTEXT \<Rightarrow> XENFILT_EMULATED_CONTEXT kernel" where
  "emulated_do (Arrives addr (PciDevice d i ids f)) ctx =
     do { (_, _, ctx1) \<leftarrow> EmulatedAddObject (Some addr) d i (map_option multi_sz ids) XENFILT_EMULATED_OBJECT_TYPE_PCI f ctx; Some ctx1 }"
| "emulated_do (Arrives addr (IdeDisk c t l)) ctx =
     do { (_, _, ctx1) \<leftarrow> EmulatedAddObject (Some addr) ''IDE'' (decimal_digits c @ ''.'' @ decimal_digits t @ ''.'' @ decimal_digits l) None
            XENFILT_EMULATED_OBJECT_TYPE_IDE XENBUS_EMULATED_ACTIVATE_NEUTRAL ctx; Some ctx1 }"
| "emulated_do (Arrives addr OtherObject) ctx =
     do { (_, _, ctx1) \<leftarrow> EmulatedAddObject (Some addr) [] [] None XENFILT_EMULATED_OBJECT_TYPE_UNKNOWN XENBUS_EMULATED_ACTIVATE_NEUTRAL ctx; Some ctx1 }"
| "emulated_do (Leaves addr) ctx = EmulatedRemoveObject addr ctx"

fun emulated_run :: "emulated_event list \<Rightarrow> XENFILT_EMULATED_CONTEXT \<Rightarrow> XENFILT_EMULATED_CONTEXT kernel" where
  "emulated_run [] ctx = Some ctx"
| "emulated_run (e # es) ctx = do { ctx1 \<leftarrow> emulated_do e ctx; emulated_run es ctx1 }"

text \<open>What the callers owe: names that fit, IDs that are texts, numbers of 32 bits, new addresses, and removing what is there.\<close>

fun arrival_legal :: "arrival \<Rightarrow> bool" where
  "arrival_legal (PciDevice d i ids f) \<longleftrightarrow> length d < 128 \<and> length i < 128 \<and> (\<forall>s \<in> set (case ids of None \<Rightarrow> [] | Some l \<Rightarrow> l). s \<noteq> [] \<and> CHR 0x00 \<notin> set s)"
| "arrival_legal (IdeDisk c t l) \<longleftrightarrow> c < 2 ^ 32 \<and> t < 2 ^ 32 \<and> l < 2 ^ 32"
| "arrival_legal OtherObject \<longleftrightarrow> True"

fun events_legal :: "emulated_event list \<Rightarrow> (nat \<times> arrival) list \<Rightarrow> bool" where
  "events_legal [] m \<longleftrightarrow> True"
| "events_legal (Arrives addr x # es) m \<longleftrightarrow> arrival_legal x \<and> addr \<notin> fst ` set m \<and> events_legal es (present_step (Arrives addr x) m)"
| "events_legal (Leaves addr # es) m \<longleftrightarrow> addr \<in> fst ` set m \<and> events_legal es (present_step (Leaves addr) m)"

section \<open>The code's readings\<close>

lemma of_char_to_lower: "of_char (to_lower c) = (if (65 :: nat) \<le> of_char c \<and> of_char c \<le> (90 :: nat) then of_char c + 32 else (of_char c :: nat))"
  by (auto simp: to_lower_def of_char_of)

lemma to_lower_same: "to_lower c = to_lower d \<longleftrightarrow> same_letter c d"
proof -
  have "to_lower c = to_lower d \<longleftrightarrow> (of_char (to_lower c) :: nat) = of_char (to_lower d)" by simp
  then show ?thesis unfolding of_char_to_lower same_letter_def Let_def by (auto split: if_splits)
qed

lemma stricmp_same: "stricmp_eq s t \<longleftrightarrow> same_text s t"
proof -
  have "map to_lower s = map to_lower t \<longleftrightarrow> list_all2 (\<lambda>c d. to_lower c = to_lower d) s t"
  proof (induction s arbitrary: t)
    case (Cons c s)
    then show ?case by (cases t) auto
  qed auto
  then show ?thesis by (simp add: stricmp_eq_def same_text_def to_lower_same)
qed

lemma cstr_text: "CHR 0x00 \<notin> set s \<Longrightarrow> cstr (s @ CHR 0x00 # rest) = Some s"
  by (induction s) auto

lemma find_nvme_text:
  "\<forall>s \<in> set ids. s \<noteq> [] \<and> CHR 0x00 \<notin> set s \<Longrightarrow>
     find_nvme (multi_sz ids) = Some (\<exists>s \<in> set ids. same_text s NVME_INTEL \<or> same_text s NVME_QEMU)"
proof (induction ids)
  case Nil
  then show ?case by (simp add: multi_sz_def find_nvme.simps)
next
  case (Cons s ids)
  have buf: "multi_sz (s # ids) = s @ CHR 0x00 # multi_sz ids" by (simp add: multi_sz_def)
  have "cstr (multi_sz (s # ids)) = Some s" using Cons.prems cstr_text [of s "multi_sz ids"] by (simp add: buf)
  then show ?case using Cons by (subst find_nvme.simps) (auto simp: buf stricmp_same)
qed

lemma is_digit_char: "(k :: nat) < 10 \<Longrightarrow> is_digit (char_of (48 + k)) \<and> of_char (char_of (48 + k) :: char) = 48 + k"
  by (simp add: is_digit_def of_char_of)

lemma digits_value_snoc: "digits_value (ds @ [c]) = 10 * digits_value ds + (of_char c - 48)"
  by (simp add: digits_value_def)

lemma decimal_digits_law: "digits_value (decimal_digits n) = n \<and> list_all is_digit (decimal_digits n) \<and> decimal_digits n \<noteq> []"
proof (induction n rule: decimal_digits.induct)
  case (1 n)
  have d: "is_digit (char_of (48 + n mod 10))" "of_char (char_of (48 + n mod 10) :: char) = 48 + n mod 10"
    using is_digit_char [of "n mod 10"] by simp_all
  show ?case
  proof (cases "n < 10")
    case True
    then show ?thesis using d by (simp add: decimal_digits.simps [of n] digits_value_def)
  next
    case False
    then show ?thesis using 1 d by (simp add: decimal_digits.simps [of n] digits_value_snoc)
  qed
qed

lemma digit_first: "list_all is_digit ds \<Longrightarrow> ds \<noteq> [] \<Longrightarrow> \<not> is_space (hd ds) \<and> hd ds \<noteq> CHR ''-'' \<and> hd ds \<noteq> CHR ''+''"
  by (cases ds) (auto simp: is_digit_def is_space_def)

lemma strtoul_decimal:
  assumes "n < 2 ^ 32" and "rest = [] \<or> \<not> is_digit (hd rest)"
  shows "strtoul (decimal_digits n @ rest) = (n, rest)"
proof -
  note law = decimal_digits_law [of n]
  obtain c cs where ds: "decimal_digits n = c # cs" using law by (cases "decimal_digits n") auto
  have first: "\<not> is_space c" "c \<noteq> CHR ''-''" "c \<noteq> CHR ''+''" using digit_first [of "decimal_digits n"] law ds by auto
  have "takeWhile is_digit rest = []" "dropWhile is_digit rest = rest" using assms(2) by (cases rest; simp)+
  then have cut: "takeWhile is_digit (decimal_digits n @ rest) = decimal_digits n" "dropWhile is_digit (decimal_digits n @ rest) = rest"
    using law by (simp_all add: list_all_iff takeWhile_append dropWhile_append)
  show ?thesis using first cut law assms(1) by (simp add: strtoul_def Let_def ds)
qed

text \<open>A disk has an object exactly if its place is one of four, and then the index of that place.\<close>

lemma disk_data:
  assumes "c < 2 ^ 32" and "t < 2 ^ 32" and "l < 2 ^ 32"
  shows "snd (EmulatedSetObjectDiskData XENFILT_EMULATED_OBJECT_TYPE_IDE (decimal_digits c @ ''.'' @ decimal_digits t @ ''.'' @ decimal_digits l)) =
     (if accepted (IdeDisk c t l) then Some (2 * c + t) else None)"
proof -
  have "strtoul (decimal_digits c @ ''.'' @ decimal_digits t @ ''.'' @ decimal_digits l) = (c, ''.'' @ decimal_digits t @ ''.'' @ decimal_digits l)"
    "strtoul (decimal_digits t @ ''.'' @ decimal_digits l) = (t, ''.'' @ decimal_digits l)" "strtoul (decimal_digits l) = (l, [])"
    using strtoul_decimal [of c "''.'' @ decimal_digits t @ ''.'' @ decimal_digits l"] strtoul_decimal [of t "''.'' @ decimal_digits l"]
      strtoul_decimal [of l "[]"] assms by (simp_all add: is_digit_def)
  then show ?thesis by (cases "l = 0") (simp_all add: EmulatedSetObjectDiskData_def starts_with_def)
qed

section \<open>The list holds what is there\<close>

fun object_of :: "arrival \<Rightarrow> XENFILT_EMULATED_OBJECT" where
  "object_of (PciDevice d i ids f) = PCI \<lparr>dd_DeviceID = d, dd_InstanceID = i, dd_ForceActivate = f, dd_IsEmulatedNvme = is_disk 0 (PciDevice d i ids f)\<rparr>"
| "object_of (IdeDisk c t l) = IDE (2 * c + t)"
| "object_of OtherObject = IDE 0"

definition emulated_ok :: "XENFILT_EMULATED_CONTEXT \<Rightarrow> (nat \<times> arrival) list \<Rightarrow> bool" where
  "emulated_ok ctx m \<longleftrightarrow> em_List ctx = map (\<lambda>(a, x). (a, object_of x)) m \<and> list_all (\<lambda>(a, x). accepted x) m"

lemma emulated_arrives:
  assumes "arrival_legal x"
  shows "emulated_do (Arrives addr x) ctx = Some (if accepted x then ctx\<lparr>em_List := em_List ctx @ [(addr, object_of x)]\<rparr> else ctx)"
proof (cases x)
  case (PciDevice d i ids f)
  have "find_nvme (multi_sz l) = Some (is_disk 0 (PciDevice d i ids f))" if "ids = Some l" for l
    using find_nvme_text [of l] assms PciDevice that by simp
  then show ?thesis using assms PciDevice
    by (cases ids) (auto simp: EmulatedAddObject_def EmulatedSetObjectDeviceData_def MAXNAMELEN_def)
next
  case (IdeDisk c t l)
  then have data: "snd (EmulatedSetObjectDiskData XENFILT_EMULATED_OBJECT_TYPE_IDE (decimal_digits c @ ''.'' @ decimal_digits t @ ''.'' @ decimal_digits l)) =
     (if accepted x then Some (2 * c + t) else None)" using disk_data [of c t l] assms by simp
  obtain status disk where "EmulatedSetObjectDiskData XENFILT_EMULATED_OBJECT_TYPE_IDE (decimal_digits c @ ''.'' @ decimal_digits t @ ''.'' @ decimal_digits l) = (status, disk)"
    by fastforce
  then show ?thesis using data IdeDisk by (simp add: EmulatedAddObject_def del: append.simps append_Cons append_Nil accepted.simps)
next
  case OtherObject
  then show ?thesis by (simp add: EmulatedAddObject_def)
qed

lemma emulated_leaves:
  assumes "emulated_ok ctx m" and "addr \<in> fst ` set m"
  shows "\<exists>ctx'. emulated_do (Leaves addr) ctx = Some ctx' \<and> emulated_ok ctx' (present_step (Leaves addr) m)"
proof -
  have "addr \<in> fst ` set (em_List ctx)" using assms by (force simp: emulated_ok_def)
  moreover have "filter (\<lambda>(a, _). a \<noteq> addr) (map (\<lambda>(a, x). (a, object_of x)) m) = map (\<lambda>(a, x). (a, object_of x)) (filter (\<lambda>(a, _). a \<noteq> addr) m)"
    by (induction m) auto
  moreover have "list_all (\<lambda>(a, x). accepted x) (filter (\<lambda>(a, _). a \<noteq> addr) m)" using assms(1) by (auto simp: emulated_ok_def list_all_iff)
  ultimately show ?thesis using assms(1) by (simp add: emulated_ok_def EmulatedRemoveObject_def present_step_def)
qed

lemma emulated_run_law:
  "emulated_ok ctx m \<Longrightarrow> events_legal es m \<Longrightarrow> \<exists>ctx'. emulated_run es ctx = Some ctx' \<and> emulated_ok ctx' (fold present_step es m)"
proof (induction es m arbitrary: ctx rule: events_legal.induct)
  case (1 m)
  then show ?case by simp
next
  case (2 addr x es m)
  let ?ctx1 = "if accepted x then ctx\<lparr>em_List := em_List ctx @ [(addr, object_of x)]\<rparr> else ctx"
  have "emulated_ok ?ctx1 (present_step (Arrives addr x) m)" using 2(2) by (simp add: emulated_ok_def present_step_def)
  with 2 emulated_arrives [of x addr ctx] show ?case by (simp del: emulated_do.simps)
next
  case (3 addr es m)
  with emulated_leaves [of ctx m addr] show ?case by (auto simp del: emulated_do.simps)
qed

lemma disk_matches_object: "accepted x \<Longrightarrow> disk_matches Index (object_of x) = is_disk Index x"
  by (cases x rule: is_disk.cases [of "(Index, x)" for x, simplified]) auto

lemma find_disk_present:
  "list_all (\<lambda>(a, x). accepted x) m \<Longrightarrow> find_disk Index (map (\<lambda>(a, x). (a, object_of x)) m) = (\<exists>x \<in> set (map snd m). is_disk Index x)"
  by (induction m) (auto simp: disk_matches_object)

lemma device_matches_object: "accepted x \<Longrightarrow> device_matches DeviceID InstanceID (object_of x) = is_device DeviceID InstanceID x"
  by (cases x) (auto simp: EmulatedDeviceMatchesDeviceID_def EmulatedDeviceMatchesInstanceID_def stricmp_same split: option.splits)

lemma activation_object: "activation (object_of x) = forced x"
  by (cases x) auto

lemma find_device_present:
  "list_all (\<lambda>(a, x). accepted x) m \<Longrightarrow> find_device DeviceID InstanceID (map (\<lambda>(a, x). (a, object_of x)) m) =
     (case find (is_device DeviceID InstanceID) (map snd m) of None \<Rightarrow> (False, XENBUS_EMULATED_ACTIVATE_NEUTRAL) | Some x \<Rightarrow> (True, forced x))"
  by (induction m) (auto simp: device_matches_object activation_object)

text \<open>
  C22. After any sequence of arrivals and removals the questions of the other drivers are answered by what is
  there. A disk is present exactly if there is an IDE disk of controller \<open>c\<close>, target \<open>t\<close> and unit 0 with
  that index \<open>2 * c + t\<close>, where anything above one controller or target was turned away, or some PCI device
  has one of the two compatible IDs of an emulated NVMe controller. A device is present exactly if a PCI
  device has the name asked for, or is force-activated when none is, and the instance asked for, if one
  is; names are compared without regard to case, and the activation told is that of the first such device.
\<close>
theorem Emulated_answers_from_objects:
  assumes "events_legal es []"
  shows "\<exists>ctx. emulated_run es \<lparr>em_References = r, em_List = []\<rparr> = Some ctx \<and>
     EmulatedIsDiskPresent Index ctx = (\<exists>x \<in> set (present es). is_disk Index x) \<and>
     EmulatedIsDevicePresent DeviceID InstanceID ctx =
       (case find (is_device DeviceID InstanceID) (present es) of None \<Rightarrow> (False, XENBUS_EMULATED_ACTIVATE_NEUTRAL) | Some x \<Rightarrow> (True, forced x))"
proof -
  have "emulated_ok \<lparr>em_References = r, em_List = []\<rparr> []" by (simp add: emulated_ok_def)
  then obtain ctx where run: "emulated_run es \<lparr>em_References = r, em_List = []\<rparr> = Some ctx" and ok: "emulated_ok ctx (fold present_step es [])"
    using emulated_run_law [OF _ assms] by blast
  then have m: "em_List ctx = map (\<lambda>(a, x). (a, object_of x)) (fold present_step es [])" "list_all (\<lambda>(a, x). accepted x) (fold present_step es [])"
    by (simp_all add: emulated_ok_def)
  show ?thesis
    by (intro exI [of _ ctx])
      (simp only: run m(1) find_disk_present [OF m(2)] find_device_present [OF m(2)] EmulatedIsDiskPresent_def EmulatedIsDevicePresent_def present_def simp_thms)
qed

definition sample_arrivals :: "emulated_event list" where
  "sample_arrivals = [Arrives 8 (PciDevice ''A'' ''B'' None XENBUS_EMULATED_FORCE_ACTIVATED), Arrives 9 (IdeDisk 1 0 0), Arrives 7 (IdeDisk 2 0 0)]"

theorem Emulated_answers_from_objects_witness:
  "\<exists>ctx. emulated_run sample_arrivals \<lparr>em_References = 0, em_List = []\<rparr> = Some ctx \<and>
     EmulatedIsDiskPresent 2 ctx \<and> EmulatedIsDevicePresent (Some ''a'') None ctx = (True, XENBUS_EMULATED_FORCE_ACTIVATED)"
proof -
  have legal: "events_legal sample_arrivals []" by (simp add: sample_arrivals_def present_step_def)
  have there: "present sample_arrivals = [PciDevice ''A'' ''B'' None XENBUS_EMULATED_FORCE_ACTIVATED, IdeDisk 1 0 0]"
    by (simp add: sample_arrivals_def present_def present_step_def)
  have "same_text ''a'' ''A''" by (simp add: same_text_def same_letter_def Let_def)
  then show ?thesis using Emulated_answers_from_objects [OF legal, of 0 2 "Some ''a''" None] by (simp add: there)
qed

text \<open>The four disks of two controllers.\<close>

lemma disk_indices:
  "snd (EmulatedSetObjectDiskData XENFILT_EMULATED_OBJECT_TYPE_IDE ''0.0.0'') = Some 0"
  "snd (EmulatedSetObjectDiskData XENFILT_EMULATED_OBJECT_TYPE_IDE ''0.1.0'') = Some 1"
  "snd (EmulatedSetObjectDiskData XENFILT_EMULATED_OBJECT_TYPE_IDE ''1.0.0'') = Some 2"
  "snd (EmulatedSetObjectDiskData XENFILT_EMULATED_OBJECT_TYPE_IDE ''1.1.0'') = Some 3"
  by (simp_all add: EmulatedSetObjectDiskData_def strtoul_def digits_value_def is_digit_def is_space_def starts_with_def)

text \<open>
  Adding an IDE disk either fails and changes nothing, or adds an object with an index below 4; the
  instance \<^verbatim>\<open>c.t.0\<close> of controller \<open>c\<close> and target \<open>t\<close> has the index \<open>2 * c + t\<close>.
\<close>
theorem EmulatedSetObjectDiskData_index:
  "(case EmulatedSetObjectDiskData Type InstanceID of
      (status, None) \<Rightarrow> \<not> NT_SUCCESS status
    | (status, Some Index) \<Rightarrow> status = STATUS_SUCCESS \<and> Type = XENFILT_EMULATED_OBJECT_TYPE_IDE \<and> Index < 4) \<and>
   snd (EmulatedSetObjectDiskData XENFILT_EMULATED_OBJECT_TYPE_IDE ''0.0.0'') = Some 0 \<and>
   snd (EmulatedSetObjectDiskData XENFILT_EMULATED_OBJECT_TYPE_IDE ''0.1.0'') = Some 1 \<and>
   snd (EmulatedSetObjectDiskData XENFILT_EMULATED_OBJECT_TYPE_IDE ''1.0.0'') = Some 2 \<and>
   snd (EmulatedSetObjectDiskData XENFILT_EMULATED_OBJECT_TYPE_IDE ''1.1.0'') = Some 3"
  unfolding disk_indices by (simp add: EmulatedSetObjectDiskData_def split: prod.split)

end
