(* ===== verification/Console.thy ===== *)
theory Console
  imports Ring
begin

text \<open>
  The console, src/src/xenbus/console.c: text to and from the host over the two rings of
  src/include/xen/public/io/console.h, the events that readers wait for, and what a suspend does to it. The
  loops over the rings are those of Ring; the locale \<open>byte_stream\<close> is interpreted on both.

  \<^item> The grant table, the event channels and the kernel answer by arguments; for each interface and each callback
    the context counts the references taken and not given back, so that giving back what was not taken shows.
    \<open>cn_Log\<close> lists what is done to the event channel and to the events of the waiters.
  \<^item> Closing a channel that is NULL stops (EvtchnClose takes its lock), and so does unmapping a page that is not mapped.
\<close>

section \<open>The page\<close>

definition XENCONS_IN_SIZE :: nat where
  "XENCONS_IN_SIZE = 1024"

definition XENCONS_OUT_SIZE :: nat where
  "XENCONS_OUT_SIZE = 2048"

record xencons_interface =
  xc_in :: string
  xc_out :: string
  xc_in_cons :: "32 word"
  xc_in_prod :: "32 word"
  xc_out_cons :: "32 word"
  xc_out_prod :: "32 word"

lemma xencons_sizes: "ring_size XENCONS_IN_SIZE" "ring_size XENCONS_OUT_SIZE"
  unfolding ring_size_def XENCONS_IN_SIZE_def XENCONS_OUT_SIZE_def by (rule exI [of _ 10], simp, rule exI [of _ 11], simp)

definition ConsoleOutAvailable :: "xencons_interface \<Rightarrow> nat" where
  "ConsoleOutAvailable Shared = unat (xc_out_cons Shared + of_nat XENCONS_OUT_SIZE - xc_out_prod Shared)"

definition ConsoleCopyToOut :: "string \<Rightarrow> xencons_interface \<Rightarrow> nat \<times> xencons_interface" where
  "ConsoleCopyToOut Data Shared =
     (case ring_write XENCONS_OUT_SIZE (xc_out_cons Shared) Data (xc_out Shared) (xc_out_prod Shared) 0 of
        (ring, producer, Offset) \<Rightarrow> (Offset, Shared\<lparr>xc_out := ring, xc_out_prod := producer\<rparr>))"

definition ConsoleInAvailable :: "xencons_interface \<Rightarrow> nat" where
  "ConsoleInAvailable Shared = unat (xc_in_prod Shared - xc_in_cons Shared)"

definition ConsoleCopyFromIn :: "nat \<Rightarrow> xencons_interface \<Rightarrow> string \<times> xencons_interface" where
  "ConsoleCopyFromIn Length Shared =
     (case ring_read XENCONS_IN_SIZE (xc_in_prod Shared) (xc_in Shared) Length (xc_in_cons Shared) [] of
        (consumer, Data) \<Rightarrow> (Data, Shared\<lparr>xc_in_cons := consumer\<rparr>))"

text \<open>The host's ends, the same loops on the other ring.\<close>

definition host_read :: "nat \<Rightarrow> xencons_interface \<Rightarrow> string \<times> xencons_interface" where
  "host_read Length Shared =
     (case ring_read XENCONS_OUT_SIZE (xc_out_prod Shared) (xc_out Shared) Length (xc_out_cons Shared) [] of
        (consumer, Data) \<Rightarrow> (Data, Shared\<lparr>xc_out_cons := consumer\<rparr>))"

definition host_write :: "string \<Rightarrow> xencons_interface \<Rightarrow> nat \<times> xencons_interface" where
  "host_write Data Shared =
     (case ring_write XENCONS_IN_SIZE (xc_in_cons Shared) Data (xc_in Shared) (xc_in_prod Shared) 0 of
        (ring, producer, Offset) \<Rightarrow> (Offset, Shared\<lparr>xc_in := ring, xc_in_prod := producer\<rparr>))"

section \<open>The context\<close>

datatype console_action =
    EvtchnSent nat
  | EvtchnUnmasked nat
  | EvtchnClosed nat
  | EventSet nat

record XENBUS_CONSOLE_WAKEUP =
  cw_Address :: nat
  cw_Event :: nat

record XENBUS_CONSOLE_CONTEXT =
  cn_References :: int
  cn_Shared :: "xencons_interface option"
  cn_Address :: nat
  cn_WakeupList :: "XENBUS_CONSOLE_WAKEUP list"
  cn_DpcQueued :: bool
  cn_Channel :: "nat option"
  cn_Events :: int
  cn_Dpcs :: int
  cn_Gnttab :: int
  cn_Evtchn :: int
  cn_Suspend :: int
  cn_Debug :: int
  cn_SuspendCallbackLate :: int
  cn_DebugCallback :: int
  cn_Enabled :: bool
  cn_Log :: "console_action list"

definition cn_note :: "console_action \<Rightarrow> XENBUS_CONSOLE_CONTEXT \<Rightarrow> XENBUS_CONSOLE_CONTEXT" where
  "cn_note a ctx = ctx\<lparr>cn_Log := cn_Log ctx @ [a]\<rparr>"

definition ConsolePoll :: "XENBUS_CONSOLE_CONTEXT \<Rightarrow> XENBUS_CONSOLE_CONTEXT" where
  "ConsolePoll ctx = fold (\<lambda>w. cn_note (EventSet (cw_Event w))) (cn_WakeupList ctx) ctx"

text \<open>The queue is emptied before the routine runs.\<close>

definition ConsoleDpc :: "XENBUS_CONSOLE_CONTEXT \<Rightarrow> XENBUS_CONSOLE_CONTEXT" where
  "ConsoleDpc ctx = (let ctx1 = ctx\<lparr>cn_DpcQueued := False\<rparr> in if cn_References ctx1 \<noteq> 0 then ConsolePoll ctx1 else ctx1)"

definition ConsoleQueueDpc :: "XENBUS_CONSOLE_CONTEXT \<Rightarrow> XENBUS_CONSOLE_CONTEXT" where
  "ConsoleQueueDpc ctx = (if cn_DpcQueued ctx then ctx else ctx\<lparr>cn_DpcQueued := True, cn_Dpcs := u32 (cn_Dpcs ctx + 1)\<rparr>)"

definition ConsoleEvtchnCallback :: "XENBUS_CONSOLE_CONTEXT \<Rightarrow> bool \<times> XENBUS_CONSOLE_CONTEXT" where
  "ConsoleEvtchnCallback ctx = (True, ConsoleQueueDpc (ctx\<lparr>cn_Events := u32 (cn_Events ctx + 1)\<rparr>))"

definition ConsoleDisable :: "XENBUS_CONSOLE_CONTEXT \<Rightarrow> XENBUS_CONSOLE_CONTEXT kernel" where
  "ConsoleDisable ctx =
     do {
       let ctx1 = ctx\<lparr>cn_Enabled := False\<rparr>;
       Channel \<leftarrow> cn_Channel ctx1;
       Some ((cn_note (EvtchnClosed Channel) ctx1)\<lparr>cn_Channel := None\<rparr>)
     }"

text \<open>\<open>param\<close>: the parameter of the machine; \<open>opens\<close>: the channel for a port.\<close>

definition ConsoleEnable :: "NTSTATUS \<times> nat \<Rightarrow> (nat \<Rightarrow> nat option) \<Rightarrow> XENBUS_CONSOLE_CONTEXT \<Rightarrow> (NTSTATUS \<times> XENBUS_CONSOLE_CONTEXT) kernel" where
  "ConsoleEnable param opens ctx =
     (case param of (status, Value) \<Rightarrow>
        if \<not> NT_SUCCESS status then Some (status, ctx)
        else do {
          Channel \<leftarrow> opens (Value mod 2 ^ 32);
          let ctx1 = cn_note (EvtchnUnmasked Channel) (ctx\<lparr>cn_Channel := Some Channel\<rparr>);
          Some (STATUS_SUCCESS, ConsoleQueueDpc (ctx1\<lparr>cn_Enabled := True\<rparr>))
        })"

text \<open>\<open>query\<close>: what the grant table says of the console's reference.\<close>

definition ConsoleGetAddress :: "NTSTATUS \<times> nat \<Rightarrow> NTSTATUS \<times> nat option" where
  "ConsoleGetAddress query = (case query of (status, Pfn) \<Rightarrow> if \<not> NT_SUCCESS status then (status, None) else (STATUS_SUCCESS, Some (Pfn * 2 ^ 12)))"

text \<open>An address that has not been written is compared: that is a stop.\<close>

definition ConsoleSuspendCallbackLate :: "NTSTATUS \<times> nat \<Rightarrow> NTSTATUS \<times> nat \<Rightarrow> (nat \<Rightarrow> nat option) \<Rightarrow> XENBUS_CONSOLE_CONTEXT \<Rightarrow> XENBUS_CONSOLE_CONTEXT kernel" where
  "ConsoleSuspendCallbackLate query param opens ctx =
     do {
       Address \<leftarrow> snd (ConsoleGetAddress query);
       ASSERT (Address = cn_Address ctx);
       ctx1 \<leftarrow> ConsoleDisable ctx;
       (_, ctx2) \<leftarrow> ConsoleEnable param opens ctx1;
       Some ctx2
     }"

section \<open>Reading and writing\<close>

definition ConsoleCanRead :: "XENBUS_CONSOLE_CONTEXT \<Rightarrow> bool kernel" where
  "ConsoleCanRead ctx = do { Shared \<leftarrow> cn_Shared ctx; Some (ConsoleInAvailable Shared \<noteq> 0) }"

definition ConsoleRead :: "nat \<Rightarrow> XENBUS_CONSOLE_CONTEXT \<Rightarrow> (string \<times> XENBUS_CONSOLE_CONTEXT) kernel" where
  "ConsoleRead Length ctx =
     (if \<not> cn_Enabled ctx then Some ([], ctx)
      else do {
        Shared \<leftarrow> cn_Shared ctx;
        let (Data, Shared1) = ConsoleCopyFromIn Length Shared;
        let ctx1 = ctx\<lparr>cn_Shared := Some Shared1\<rparr>;
        (if Data \<noteq> [] then do { Channel \<leftarrow> cn_Channel ctx1; Some (Data, cn_note (EvtchnSent Channel) ctx1) }
         else Some (Data, ctx1))
      })"

definition ConsoleCanWrite :: "XENBUS_CONSOLE_CONTEXT \<Rightarrow> bool kernel" where
  "ConsoleCanWrite ctx = do { Shared \<leftarrow> cn_Shared ctx; Some (ConsoleOutAvailable Shared \<noteq> 0) }"

definition ConsoleWrite :: "string \<Rightarrow> XENBUS_CONSOLE_CONTEXT \<Rightarrow> (nat \<times> XENBUS_CONSOLE_CONTEXT) kernel" where
  "ConsoleWrite Data ctx =
     (if \<not> cn_Enabled ctx then Some (0, ctx)
      else do {
        Shared \<leftarrow> cn_Shared ctx;
        let (Written, Shared1) = ConsoleCopyToOut Data Shared;
        let ctx1 = ctx\<lparr>cn_Shared := Some Shared1\<rparr>;
        (if Written \<noteq> 0 then do { Channel \<leftarrow> cn_Channel ctx1; Some (Written, cn_note (EvtchnSent Channel) ctx1) }
         else Some (Written, ctx1))
      })"

text \<open>\<open>mem\<close> is the address of the new entry, if there is memory for it.\<close>

definition ConsoleWakeupAdd :: "nat option \<Rightarrow> nat \<Rightarrow> XENBUS_CONSOLE_CONTEXT \<Rightarrow> NTSTATUS \<times> nat option \<times> XENBUS_CONSOLE_CONTEXT" where
  "ConsoleWakeupAdd mem Event ctx =
     (case mem of
        None \<Rightarrow> (STATUS_NO_MEMORY, None, ctx)
      | Some a \<Rightarrow> (STATUS_SUCCESS, Some a, ctx\<lparr>cn_WakeupList := cn_WakeupList ctx @ [\<lparr>cw_Address = a, cw_Event = Event\<rparr>]\<rparr>))"

definition ConsoleWakeupRemove :: "nat \<Rightarrow> XENBUS_CONSOLE_CONTEXT \<Rightarrow> XENBUS_CONSOLE_CONTEXT kernel" where
  "ConsoleWakeupRemove a ctx =
     do {
       ASSERT (a \<in> cw_Address ` set (cn_WakeupList ctx));
       Some (ctx\<lparr>cn_WakeupList := filter (\<lambda>w. cw_Address w \<noteq> a) (cn_WakeupList ctx)\<rparr>)
     }"

section \<open>References\<close>

text \<open>What the calls of \<^verbatim>\<open>ConsoleAcquire\<close> answer, in their order.\<close>

record console_calls =
  co_gnttab :: NTSTATUS
  co_query :: "NTSTATUS \<times> nat"
  co_map :: "xencons_interface option"
  co_evtchn :: NTSTATUS
  co_param :: "NTSTATUS \<times> nat"
  co_open :: "nat \<Rightarrow> nat option"
  co_suspend :: NTSTATUS
  co_late :: NTSTATUS
  co_debug :: NTSTATUS
  co_debug_cb :: NTSTATUS

definition cn_fail1 :: "NTSTATUS \<Rightarrow> XENBUS_CONSOLE_CONTEXT \<Rightarrow> (NTSTATUS \<times> XENBUS_CONSOLE_CONTEXT) kernel" where
  "cn_fail1 status ctx =
     do {
       let ctx1 = ctx\<lparr>cn_Address := 0, cn_References := cn_References ctx - 1\<rparr>;
       ASSERT (cn_References ctx1 = 0);
       Some (status, ctx1)
     }"

definition cn_fail2 :: "NTSTATUS \<Rightarrow> XENBUS_CONSOLE_CONTEXT \<Rightarrow> (NTSTATUS \<times> XENBUS_CONSOLE_CONTEXT) kernel" where
  "cn_fail2 status ctx = cn_fail1 status (ctx\<lparr>cn_Gnttab := cn_Gnttab ctx - 1\<rparr>)"

definition cn_fail3 :: "NTSTATUS \<Rightarrow> XENBUS_CONSOLE_CONTEXT \<Rightarrow> (NTSTATUS \<times> XENBUS_CONSOLE_CONTEXT) kernel" where
  "cn_fail3 status ctx = cn_fail2 status (ctx\<lparr>cn_Address := 0\<rparr>)"

definition cn_fail4 :: "NTSTATUS \<Rightarrow> XENBUS_CONSOLE_CONTEXT \<Rightarrow> (NTSTATUS \<times> XENBUS_CONSOLE_CONTEXT) kernel" where
  "cn_fail4 status ctx = do { ASSERT (cn_Shared ctx \<noteq> None); cn_fail3 status (ctx\<lparr>cn_Shared := None\<rparr>) }"

definition cn_fail5 :: "NTSTATUS \<Rightarrow> XENBUS_CONSOLE_CONTEXT \<Rightarrow> (NTSTATUS \<times> XENBUS_CONSOLE_CONTEXT) kernel" where
  "cn_fail5 status ctx = cn_fail4 status (ctx\<lparr>cn_Evtchn := cn_Evtchn ctx - 1\<rparr>)"

definition cn_fail6 :: "NTSTATUS \<Rightarrow> XENBUS_CONSOLE_CONTEXT \<Rightarrow> (NTSTATUS \<times> XENBUS_CONSOLE_CONTEXT) kernel" where
  "cn_fail6 status ctx = do { ctx1 \<leftarrow> ConsoleDisable ctx; cn_fail5 status ctx1 }"

definition cn_fail7 :: "NTSTATUS \<Rightarrow> XENBUS_CONSOLE_CONTEXT \<Rightarrow> (NTSTATUS \<times> XENBUS_CONSOLE_CONTEXT) kernel" where
  "cn_fail7 status ctx = cn_fail6 status (ctx\<lparr>cn_Suspend := cn_Suspend ctx - 1\<rparr>)"

definition cn_fail8 :: "NTSTATUS \<Rightarrow> XENBUS_CONSOLE_CONTEXT \<Rightarrow> (NTSTATUS \<times> XENBUS_CONSOLE_CONTEXT) kernel" where
  "cn_fail8 status ctx = cn_fail7 status (ctx\<lparr>cn_SuspendCallbackLate := cn_SuspendCallbackLate ctx - 1\<rparr>)"

definition cn_fail9 :: "NTSTATUS \<Rightarrow> XENBUS_CONSOLE_CONTEXT \<Rightarrow> (NTSTATUS \<times> XENBUS_CONSOLE_CONTEXT) kernel" where
  "cn_fail9 status ctx = cn_fail8 status (ctx\<lparr>cn_Debug := cn_Debug ctx - 1\<rparr>)"

text \<open>From the event channels on.\<close>

definition console_connect :: "console_calls \<Rightarrow> XENBUS_CONSOLE_CONTEXT \<Rightarrow> (NTSTATUS \<times> XENBUS_CONSOLE_CONTEXT) kernel" where
  "console_connect calls ctx =
     (if \<not> NT_SUCCESS (co_evtchn calls) then cn_fail4 (co_evtchn calls) ctx
      else do {
        (status, ctx1) \<leftarrow> ConsoleEnable (co_param calls) (co_open calls) (ctx\<lparr>cn_Evtchn := cn_Evtchn ctx + 1\<rparr>);
        (if \<not> NT_SUCCESS status then cn_fail5 status ctx1
         else if \<not> NT_SUCCESS (co_suspend calls) then cn_fail6 (co_suspend calls) ctx1
         else let ctx2 = ctx1\<lparr>cn_Suspend := cn_Suspend ctx1 + 1\<rparr> in
           if \<not> NT_SUCCESS (co_late calls) then cn_fail7 (co_late calls) ctx2
           else let ctx3 = ctx2\<lparr>cn_SuspendCallbackLate := cn_SuspendCallbackLate ctx2 + 1\<rparr> in
             if \<not> NT_SUCCESS (co_debug calls) then cn_fail8 (co_debug calls) ctx3
             else let ctx4 = ctx3\<lparr>cn_Debug := cn_Debug ctx3 + 1\<rparr> in
               if \<not> NT_SUCCESS (co_debug_cb calls) then cn_fail9 (co_debug_cb calls) ctx4
               else Some (STATUS_SUCCESS, ctx4\<lparr>cn_DebugCallback := cn_DebugCallback ctx4 + 1\<rparr>))
      })"

definition ConsoleAcquire :: "console_calls \<Rightarrow> XENBUS_CONSOLE_CONTEXT \<Rightarrow> (NTSTATUS \<times> XENBUS_CONSOLE_CONTEXT) kernel" where
  "ConsoleAcquire calls ctx =
     (let ctx0 = ctx\<lparr>cn_References := cn_References ctx + 1\<rparr> in
      if cn_References ctx \<noteq> 0 then Some (STATUS_SUCCESS, ctx0)
      else if \<not> NT_SUCCESS (co_gnttab calls) then cn_fail1 (co_gnttab calls) ctx0
      else let ctx1 = ctx0\<lparr>cn_Gnttab := cn_Gnttab ctx0 + 1\<rparr> in
        case ConsoleGetAddress (co_query calls) of
          (status, None) \<Rightarrow> cn_fail2 status ctx1
        | (_, Some Address) \<Rightarrow>
            let ctx2 = ctx1\<lparr>cn_Address := Address, cn_Shared := co_map calls\<rparr> in
            if co_map calls = None then cn_fail3 STATUS_UNSUCCESSFUL ctx2 else console_connect calls ctx2)"

definition ConsoleRelease :: "XENBUS_CONSOLE_CONTEXT \<Rightarrow> XENBUS_CONSOLE_CONTEXT kernel" where
  "ConsoleRelease ctx =
     (let ctx0 = ctx\<lparr>cn_References := cn_References ctx - 1\<rparr> in
      if 0 < cn_References ctx0 then Some ctx0
      else if cn_WakeupList ctx0 \<noteq> [] then BUG
      else do {
        ctx1 \<leftarrow> ConsoleDisable (ctx0\<lparr>cn_DebugCallback := cn_DebugCallback ctx0 - 1, cn_Debug := cn_Debug ctx0 - 1,
          cn_SuspendCallbackLate := cn_SuspendCallbackLate ctx0 - 1, cn_Suspend := cn_Suspend ctx0 - 1\<rparr>);
        ASSERT (cn_Shared ctx1 \<noteq> None);
        Some (ctx1\<lparr>cn_Evtchn := cn_Evtchn ctx1 - 1, cn_Shared := None, cn_Address := 0, cn_Gnttab := cn_Gnttab ctx1 - 1\<rparr>)
      })"

definition zero_CONSOLE :: XENBUS_CONSOLE_CONTEXT where
  "zero_CONSOLE = \<lparr>cn_References = 0, cn_Shared = None, cn_Address = 0, cn_WakeupList = [], cn_DpcQueued = False, cn_Channel = None,
     cn_Events = 0, cn_Dpcs = 0, cn_Gnttab = 0, cn_Evtchn = 0, cn_Suspend = 0, cn_Debug = 0,
     cn_SuspendCallbackLate = 0, cn_DebugCallback = 0, cn_Enabled = False, cn_Log = []\<rparr>"

text \<open>The four interfaces are asserted to be there.\<close>

definition ConsoleInitialize :: "bool \<Rightarrow> NTSTATUS list \<Rightarrow> (NTSTATUS \<times> XENBUS_CONSOLE_CONTEXT option) kernel" where
  "ConsoleInitialize mem interfaces =
     (if \<not> mem then Some (STATUS_NO_MEMORY, None)
      else do { ASSERT (list_all NT_SUCCESS interfaces); Some (STATUS_SUCCESS, Some zero_CONSOLE) })"

definition ConsoleGetInterface :: "nat \<Rightarrow> nat \<Rightarrow> nat \<Rightarrow> NTSTATUS" where
  "ConsoleGetInterface size1 Version Size =
     (if Version = 1 then if Size < size1 then STATUS_BUFFER_OVERFLOW else STATUS_SUCCESS else STATUS_NOT_SUPPORTED)"

definition ConsoleGetReferences :: "XENBUS_CONSOLE_CONTEXT \<Rightarrow> int" where
  "ConsoleGetReferences ctx = cn_References ctx"

text \<open>A queued DPC runs first; then what has not been cleared must be zero.\<close>

definition ConsoleTeardown :: "XENBUS_CONSOLE_CONTEXT \<Rightarrow> unit kernel" where
  "ConsoleTeardown ctx =
     (let ctx1 = (if cn_DpcQueued ctx then ConsoleDpc ctx else ctx) in
      ASSERT (cn_References ctx1 = 0 \<and> cn_Shared ctx1 = None \<and> cn_Address ctx1 = 0 \<and> cn_Channel ctx1 = None \<and>
        cn_SuspendCallbackLate ctx1 = 0 \<and> cn_DebugCallback ctx1 = 0 \<and> \<not> cn_Enabled ctx1))"

section \<open>The two rings as streams\<close>

definition out_bytes :: "xencons_interface \<Rightarrow> string" where
  "out_bytes S = ring_bytes XENCONS_OUT_SIZE (xc_out S) (xc_out_cons S) (xc_out_prod S)"

definition in_bytes :: "xencons_interface \<Rightarrow> string" where
  "in_bytes S = ring_bytes XENCONS_IN_SIZE (xc_in S) (xc_in_cons S) (xc_in_prod S)"

definition page_ok :: "xencons_interface \<Rightarrow> bool" where
  "page_ok S \<longleftrightarrow> ring_ok XENCONS_OUT_SIZE (xc_out S) (xc_out_cons S) (xc_out_prod S) \<and>
     ring_ok XENCONS_IN_SIZE (xc_in S) (xc_in_cons S) (xc_in_prod S)"

lemma ConsoleCopyToOut_law:
  assumes "page_ok S"
  shows "\<exists>S'. ConsoleCopyToOut Data S = (min (length Data) (XENCONS_OUT_SIZE - length (out_bytes S)), S') \<and> page_ok S' \<and>
     out_bytes S' = out_bytes S @ take (XENCONS_OUT_SIZE - length (out_bytes S)) Data \<and> in_bytes S' = in_bytes S"
  using ring_write_law [OF xencons_sizes(2), of "xc_out S" "xc_out_cons S" "xc_out_prod S" Data 0] assms
  by (auto simp: ConsoleCopyToOut_def page_ok_def out_bytes_def in_bytes_def)

lemma host_read_law:
  assumes "page_ok S"
  shows "\<exists>S'. host_read n S = (take n (out_bytes S), S') \<and> page_ok S' \<and> out_bytes S' = drop n (out_bytes S) \<and> in_bytes S' = in_bytes S"
  using ring_read_law [OF xencons_sizes(2), of "xc_out S" "xc_out_cons S" "xc_out_prod S" n "[]"] assms
  by (auto simp: host_read_def page_ok_def out_bytes_def in_bytes_def)

lemma host_write_law:
  assumes "page_ok S"
  shows "\<exists>S'. host_write Data S = (min (length Data) (XENCONS_IN_SIZE - length (in_bytes S)), S') \<and> page_ok S' \<and>
     in_bytes S' = in_bytes S @ take (XENCONS_IN_SIZE - length (in_bytes S)) Data \<and> out_bytes S' = out_bytes S"
  using ring_write_law [OF xencons_sizes(1), of "xc_in S" "xc_in_cons S" "xc_in_prod S" Data 0] assms
  by (auto simp: host_write_def page_ok_def out_bytes_def in_bytes_def)

lemma ConsoleCopyFromIn_law:
  assumes "page_ok S"
  shows "\<exists>S'. ConsoleCopyFromIn n S = (take n (in_bytes S), S') \<and> page_ok S' \<and> in_bytes S' = drop n (in_bytes S) \<and> out_bytes S' = out_bytes S"
  using ring_read_law [OF xencons_sizes(1), of "xc_in S" "xc_in_cons S" "xc_in_prod S" n "[]"] assms
  by (auto simp: ConsoleCopyFromIn_def page_ok_def out_bytes_def in_bytes_def)

lemma page_ok_room: "page_ok S \<Longrightarrow> length (out_bytes S) \<le> XENCONS_OUT_SIZE \<and> length (in_bytes S) \<le> XENCONS_IN_SIZE"
  by (simp add: page_ok_def out_bytes_def in_bytes_def ring_ok_def)

text \<open>The operations of an enabled console as the two ends of its streams; the other ends are the host's.\<close>

definition console_ok :: "XENBUS_CONSOLE_CONTEXT \<Rightarrow> bool" where
  "console_ok ctx \<longleftrightarrow> cn_Enabled ctx \<and> cn_Channel ctx \<noteq> None \<and> (case cn_Shared ctx of None \<Rightarrow> False | Some S \<Rightarrow> page_ok S)"

definition out_text :: "XENBUS_CONSOLE_CONTEXT \<Rightarrow> string" where
  "out_text ctx = (case cn_Shared ctx of None \<Rightarrow> [] | Some S \<Rightarrow> out_bytes S)"

definition in_text :: "XENBUS_CONSOLE_CONTEXT \<Rightarrow> string" where
  "in_text ctx = (case cn_Shared ctx of None \<Rightarrow> [] | Some S \<Rightarrow> in_bytes S)"

definition console_put :: "string \<Rightarrow> XENBUS_CONSOLE_CONTEXT \<Rightarrow> nat \<times> XENBUS_CONSOLE_CONTEXT" where
  "console_put Data ctx = (case ConsoleWrite Data ctx of None \<Rightarrow> (0, ctx) | Some r \<Rightarrow> r)"

definition console_get :: "nat \<Rightarrow> XENBUS_CONSOLE_CONTEXT \<Rightarrow> string \<times> XENBUS_CONSOLE_CONTEXT" where
  "console_get n ctx = (case ConsoleRead n ctx of None \<Rightarrow> ([], ctx) | Some r \<Rightarrow> r)"

definition host_put :: "string \<Rightarrow> XENBUS_CONSOLE_CONTEXT \<Rightarrow> nat \<times> XENBUS_CONSOLE_CONTEXT" where
  "host_put Data ctx = (case cn_Shared ctx of None \<Rightarrow> (0, ctx) | Some S \<Rightarrow> (case host_write Data S of (n, S') \<Rightarrow> (n, ctx\<lparr>cn_Shared := Some S'\<rparr>)))"

definition host_get :: "nat \<Rightarrow> XENBUS_CONSOLE_CONTEXT \<Rightarrow> string \<times> XENBUS_CONSOLE_CONTEXT" where
  "host_get n ctx = (case cn_Shared ctx of None \<Rightarrow> ([], ctx) | Some S \<Rightarrow> (case host_read n S of (Data, S') \<Rightarrow> (Data, ctx\<lparr>cn_Shared := Some S'\<rparr>)))"

lemma ConsoleWrite_law:
  assumes "console_ok ctx"
  shows "\<exists>ctx'. ConsoleWrite Data ctx = Some (min (length Data) (XENCONS_OUT_SIZE - length (out_text ctx)), ctx') \<and> console_ok ctx' \<and>
     out_text ctx' = out_text ctx @ take (XENCONS_OUT_SIZE - length (out_text ctx)) Data \<and> in_text ctx' = in_text ctx"
proof -
  obtain S where S: "cn_Shared ctx = Some S" "page_ok S" using assms by (auto simp: console_ok_def split: option.splits)
  from ConsoleCopyToOut_law [OF S(2), of Data] obtain S' where
    "ConsoleCopyToOut Data S = (min (length Data) (XENCONS_OUT_SIZE - length (out_bytes S)), S')" "page_ok S'"
    "out_bytes S' = out_bytes S @ take (XENCONS_OUT_SIZE - length (out_bytes S)) Data" "in_bytes S' = in_bytes S" by blast
  then show ?thesis using assms S
    by (auto simp: ConsoleWrite_def console_ok_def out_text_def in_text_def cn_note_def Let_def)
qed

lemma ConsoleRead_law:
  assumes "console_ok ctx"
  shows "\<exists>ctx'. ConsoleRead n ctx = Some (take n (in_text ctx), ctx') \<and> console_ok ctx' \<and> in_text ctx' = drop n (in_text ctx) \<and> out_text ctx' = out_text ctx"
proof -
  obtain S where S: "cn_Shared ctx = Some S" "page_ok S" using assms by (auto simp: console_ok_def split: option.splits)
  from ConsoleCopyFromIn_law [OF S(2), of n] obtain S' where
    "ConsoleCopyFromIn n S = (take n (in_bytes S), S')" "page_ok S'" "in_bytes S' = drop n (in_bytes S)" "out_bytes S' = out_bytes S" by blast
  then show ?thesis using assms S
    by (auto simp: ConsoleRead_def console_ok_def out_text_def in_text_def cn_note_def Let_def)
qed

lemma console_room: "console_ok ctx \<Longrightarrow> length (out_text ctx) \<le> XENCONS_OUT_SIZE \<and> length (in_text ctx) \<le> XENCONS_IN_SIZE"
  using page_ok_room by (auto simp: console_ok_def out_text_def in_text_def split: option.splits)

interpretation out: byte_stream console_ok out_text console_put host_get XENCONS_OUT_SIZE
proof
  show "\<exists>ctx'. console_put Data ctx = (min (length Data) (XENCONS_OUT_SIZE - length (out_text ctx)), ctx') \<and> console_ok ctx' \<and>
      out_text ctx' = out_text ctx @ take (XENCONS_OUT_SIZE - length (out_text ctx)) Data" if "console_ok ctx" for ctx Data
    using ConsoleWrite_law [OF that, of Data] by (auto simp: console_put_def)
  show "\<exists>ctx'. host_get n ctx = (take n (out_text ctx), ctx') \<and> console_ok ctx' \<and> out_text ctx' = drop n (out_text ctx)"
    if ok: "console_ok ctx" for ctx n
  proof -
    obtain S where S: "cn_Shared ctx = Some S" "page_ok S" using ok by (auto simp: console_ok_def split: option.splits)
    then show ?thesis using host_read_law [OF S(2), of n] ok by (auto simp: host_get_def console_ok_def out_text_def)
  qed
qed (use console_room in blast)

interpretation inp: byte_stream console_ok in_text host_put console_get XENCONS_IN_SIZE
proof
  show "\<exists>ctx'. host_put Data ctx = (min (length Data) (XENCONS_IN_SIZE - length (in_text ctx)), ctx') \<and> console_ok ctx' \<and>
      in_text ctx' = in_text ctx @ take (XENCONS_IN_SIZE - length (in_text ctx)) Data" if ok: "console_ok ctx" for ctx Data
  proof -
    obtain S where S: "cn_Shared ctx = Some S" "page_ok S" using ok by (auto simp: console_ok_def split: option.splits)
    then show ?thesis using host_write_law [OF S(2), of Data] ok by (auto simp: host_put_def console_ok_def in_text_def)
  qed
  show "\<exists>ctx'. console_get n ctx = (take n (in_text ctx), ctx') \<and> console_ok ctx' \<and> in_text ctx' = drop n (in_text ctx)"
    if "console_ok ctx" for ctx n
    using ConsoleRead_law [OF that, of n] by (auto simp: console_get_def)
qed (use console_room in blast)

section \<open>Properties\<close>

text \<open>
  C20. Whatever way \<^verbatim>\<open>ConsoleWrite\<close> and the host's reads, or the host's writes and \<^verbatim>\<open>ConsoleRead\<close>, alternate, and
  however short the transfers are, the text arrives complete and in order, and there is never more of it on
  the way than the ring holds.
\<close>
theorem Console_streams_fifo:
  assumes "console_ok ctx" and "stream_run console_put host_get ops ctx = (written, taken, ctx1)"
    and "stream_run host_put console_get ops' ctx = (sent, got, ctx2)"
  shows "taken @ out_text ctx1 = out_text ctx @ written \<and> length (out_text ctx1) \<le> 2048 \<and>
     got @ in_text ctx2 = in_text ctx @ sent \<and> length (in_text ctx2) \<le> 1024"
  using out.stream_fifo [OF assms(1,2)] inp.stream_fifo [OF assms(1,3)] console_room [of ctx1] console_room [of ctx2]
  by (simp add: XENCONS_OUT_SIZE_def XENCONS_IN_SIZE_def)

definition empty_console_page :: xencons_interface where
  "empty_console_page = \<lparr>xc_in = replicate 1024 (CHR 0x00), xc_out = replicate 2048 (CHR 0x00), xc_in_cons = 0, xc_in_prod = 0, xc_out_cons = 0, xc_out_prod = 0\<rparr>"

definition sample_console :: XENBUS_CONSOLE_CONTEXT where
  "sample_console = zero_CONSOLE\<lparr>cn_References := 1, cn_Shared := Some empty_console_page, cn_Channel := Some 4, cn_Enabled := True\<rparr>"

lemma empty_console_page: "page_ok empty_console_page" "out_bytes empty_console_page = []" "in_bytes empty_console_page = []"
  by (simp_all add: page_ok_def out_bytes_def in_bytes_def ring_ok_def ring_bytes_def empty_console_page_def XENCONS_OUT_SIZE_def XENCONS_IN_SIZE_def)

lemma sample_console_ok: "console_ok sample_console" "out_text sample_console = []" "in_text sample_console = []"
  using empty_console_page by (simp_all add: console_ok_def out_text_def in_text_def sample_console_def)

theorem Console_streams_fifo_witness:
  "\<exists>ctx1 ctx2. stream_run console_put host_get [Put ''abc'', Get 2] sample_console = (''abc'', ''ab'', ctx1) \<and> out_text ctx1 = ''c'' \<and>
     stream_run host_put console_get [Put ''x''] sample_console = (''x'', [], ctx2) \<and> in_text ctx2 = ''x''"
proof -
  obtain c1 where c1: "console_put ''abc'' sample_console = (3, c1)" "console_ok c1" "out_text c1 = ''abc''"
    using out.put_law [OF sample_console_ok(1), of "''abc''"] by (auto simp: sample_console_ok XENCONS_OUT_SIZE_def)
  obtain c2 where c2: "host_get 2 c1 = (''ab'', c2)" using out.get_law [OF c1(2), of 2] c1(3) by (auto simp: numeral_2_eq_2)
  obtain c3 where c3: "host_put ''x'' sample_console = (1, c3)"
    using inp.put_law [OF sample_console_ok(1), of "''x''"] by (auto simp: sample_console_ok XENCONS_IN_SIZE_def)
  have runs: "stream_run console_put host_get [Put ''abc'', Get 2] sample_console = (''abc'', ''ab'', c2)"
    "stream_run host_put console_get [Put ''x''] sample_console = (''x'', [], c3)" using c1(1) c2 c3 by simp_all
  show ?thesis using Console_streams_fifo [OF sample_console_ok(1) runs] runs
    by (intro exI [of _ c2] exI [of _ c3]) (simp add: sample_console_ok)
qed

section \<open>Taking and giving back\<close>

definition console_off :: "XENBUS_CONSOLE_CONTEXT \<Rightarrow> bool" where
  "console_off ctx \<longleftrightarrow> cn_References ctx = 0 \<and> cn_Shared ctx = None \<and> cn_Address ctx = 0 \<and> cn_WakeupList ctx = [] \<and> cn_Channel ctx = None \<and>
     cn_Gnttab ctx = 0 \<and> cn_Evtchn ctx = 0 \<and> cn_Suspend ctx = 0 \<and> cn_Debug ctx = 0 \<and> cn_SuspendCallbackLate ctx = 0 \<and>
     cn_DebugCallback ctx = 0 \<and> \<not> cn_Enabled ctx"

text \<open>One reference to everything, the page of the console and an open channel.\<close>

definition console_on :: "console_calls \<Rightarrow> nat \<Rightarrow> XENBUS_CONSOLE_CONTEXT \<Rightarrow> bool" where
  "console_on calls Channel ctx \<longleftrightarrow> cn_References ctx = 1 \<and> cn_Shared ctx = co_map calls \<and> cn_Shared ctx \<noteq> None \<and>
     cn_Address ctx = snd (co_query calls) * 4096 \<and> cn_WakeupList ctx = [] \<and> cn_Channel ctx = Some Channel \<and>
     cn_Gnttab ctx = 1 \<and> cn_Evtchn ctx = 1 \<and> cn_Suspend ctx = 1 \<and> cn_Debug ctx = 1 \<and> cn_SuspendCallbackLate ctx = 1 \<and>
     cn_DebugCallback ctx = 1 \<and> cn_Enabled ctx"

text \<open>What the calls answer: that the channel is reached, which one it is, and that all of them succeed.\<close>

definition calls_reach_open :: "console_calls \<Rightarrow> bool" where
  "calls_reach_open calls \<longleftrightarrow> NT_SUCCESS (co_gnttab calls) \<and> NT_SUCCESS (fst (co_query calls)) \<and> co_map calls \<noteq> None \<and>
     NT_SUCCESS (co_evtchn calls) \<and> NT_SUCCESS (fst (co_param calls))"

definition calls_channel :: "console_calls \<Rightarrow> nat option" where
  "calls_channel calls = co_open calls (snd (co_param calls) mod 4294967296)"

definition calls_succeed :: "console_calls \<Rightarrow> bool" where
  "calls_succeed calls \<longleftrightarrow> calls_reach_open calls \<and> NT_SUCCESS (co_suspend calls) \<and> NT_SUCCESS (co_late calls) \<and> NT_SUCCESS (co_debug calls) \<and>
     NT_SUCCESS (co_debug_cb calls)"

text \<open>What a caller is left with: the console, or the context as it was but for the log and the queued routine.\<close>

definition console_same :: "XENBUS_CONSOLE_CONTEXT \<Rightarrow> XENBUS_CONSOLE_CONTEXT \<Rightarrow> bool" where
  "console_same ctx ctx' \<longleftrightarrow> ctx' = ctx\<lparr>cn_Log := cn_Log ctx', cn_DpcQueued := cn_DpcQueued ctx', cn_Dpcs := cn_Dpcs ctx'\<rparr>"

definition all_or_nothing :: "console_calls \<Rightarrow> XENBUS_CONSOLE_CONTEXT \<Rightarrow> (NTSTATUS \<times> XENBUS_CONSOLE_CONTEXT) kernel \<Rightarrow> bool" where
  "all_or_nothing calls ctx r = (case r of
      None \<Rightarrow> calls_reach_open calls \<and> calls_channel calls = None
    | Some (status, ctx') \<Rightarrow> NT_SUCCESS status = calls_succeed calls \<and> (calls_reach_open calls \<longrightarrow> calls_channel calls \<noteq> None) \<and>
        (if calls_succeed calls
         then console_on calls (the (calls_channel calls)) ctx' \<and> cn_Log ctx' = cn_Log ctx @ [EvtchnUnmasked (the (calls_channel calls))]
         else console_same ctx ctx' \<and> cn_Log ctx' = cn_Log ctx @ (if calls_reach_open calls
                then [EvtchnUnmasked (the (calls_channel calls)), EvtchnClosed (the (calls_channel calls))] else [])))"

lemmas console_fails = cn_fail1_def cn_fail2_def cn_fail3_def cn_fail4_def cn_fail5_def cn_fail6_def cn_fail7_def cn_fail8_def cn_fail9_def
lemmas console_steps = ConsoleEnable_def ConsoleDisable_def ConsoleQueueDpc_def cn_note_def Let_def
lemmas console_outcome = all_or_nothing_def console_on_def console_same_def calls_reach_open_def calls_succeed_def calls_channel_def

definition console_half :: "console_calls \<Rightarrow> XENBUS_CONSOLE_CONTEXT \<Rightarrow> XENBUS_CONSOLE_CONTEXT" where
  "console_half calls ctx = ctx\<lparr>cn_References := 1, cn_Gnttab := 1, cn_Address := snd (co_query calls) * 4096, cn_Shared := co_map calls\<rparr>"

lemma console_connect_law:
  assumes "console_off ctx" and "NT_SUCCESS (co_gnttab calls)" and "NT_SUCCESS (fst (co_query calls))" and "co_map calls = Some S"
  shows "all_or_nothing calls ctx (console_connect calls (console_half calls ctx))"
proof -
  obtain st v where p: "co_param calls = (st, v)" by fastforce
  note h = assms(1) [unfolded console_off_def] assms(2-4)
  note d = console_half_def console_connect_def console_steps console_fails console_outcome
  show ?thesis
  proof (cases "co_open calls (v mod 4294967296)")
    case None
    then show ?thesis by (cases "NT_SUCCESS (co_evtchn calls)"; cases "NT_SUCCESS st"; cases ctx; simp add: h p d) (use h in simp_all)
  next
    case (Some Channel)
    show ?thesis
    by (cases ctx; cases "NT_SUCCESS (co_evtchn calls)"; cases "NT_SUCCESS st"; cases "NT_SUCCESS (co_suspend calls)"; cases "NT_SUCCESS (co_late calls)";
        cases "NT_SUCCESS (co_debug calls)"; cases "NT_SUCCESS (co_debug_cb calls)"; use h Some in \<open>simp add: p d\<close>)
  qed
qed

lemma ConsoleAcquire_law:
  assumes "console_off ctx"
  shows "all_or_nothing calls ctx (ConsoleAcquire calls ctx)"
proof (cases "NT_SUCCESS (co_gnttab calls) \<and> NT_SUCCESS (fst (co_query calls)) \<and> co_map calls \<noteq> None")
  case True
  then obtain S where S: "co_map calls = Some S" by auto
  have "ConsoleAcquire calls ctx = console_connect calls (console_half calls ctx)"
    using True assms by (cases "co_query calls") (auto simp: ConsoleAcquire_def ConsoleGetAddress_def console_half_def console_off_def)
  with console_connect_law [OF assms, of calls S] True S show ?thesis by simp
next
  case False
  note d = ConsoleAcquire_def ConsoleGetAddress_def console_fails console_outcome
  show ?thesis using assms False
    by (cases ctx; cases "co_query calls"; cases "NT_SUCCESS (co_gnttab calls)"; cases "NT_SUCCESS (fst (co_query calls))"; cases "co_map calls")
      (simp_all add: console_off_def d Let_def)
qed

text \<open>The last release gives back what is held, and the channel is closed.\<close>

lemma ConsoleRelease_law:
  assumes "console_on calls Channel ctx"
  shows "\<exists>ctx'. ConsoleRelease ctx = Some ctx' \<and> console_off ctx' \<and> cn_Log ctx' = cn_Log ctx @ [EvtchnClosed Channel]"
  using assms by (cases "co_map calls") (auto simp: ConsoleRelease_def console_on_def console_off_def console_steps)

text \<open>
  C21. Taking the console is all or nothing. If the machine has a channel to open, then either every call
  succeeds, the console is enabled on that channel with one reference to each of the four interfaces, both
  callbacks registered and the page mapped at its address, and the last release gives all of it back and closes
  the channel; or some call fails, a failure is returned, and every reference, callback and field is as it was,
  a channel that had been opened having been closed. It stops in one case only, when everything before the
  channel has succeeded and the channel does not open, which the code asserts.
\<close>
theorem ConsoleAcquire_all_or_nothing:
  assumes "console_off ctx"
  shows "case ConsoleAcquire calls ctx of
      None \<Rightarrow> calls_reach_open calls \<and> calls_channel calls = None
    | Some (status, ctx') \<Rightarrow>
        if calls_succeed calls
        then NT_SUCCESS status \<and> (\<exists>Channel ctx''. calls_channel calls = Some Channel \<and> console_on calls Channel ctx' \<and>
               ConsoleRelease ctx' = Some ctx'' \<and> console_off ctx'' \<and> cn_Log ctx'' = cn_Log ctx @ [EvtchnUnmasked Channel, EvtchnClosed Channel])
        else \<not> NT_SUCCESS status \<and> console_same ctx ctx' \<and>
             (cn_Log ctx' = cn_Log ctx \<or> (\<exists>Channel. calls_channel calls = Some Channel \<and> cn_Log ctx' = cn_Log ctx @ [EvtchnUnmasked Channel, EvtchnClosed Channel]))"
proof (cases "ConsoleAcquire calls ctx")
  case None
  then show ?thesis using ConsoleAcquire_law [OF assms, of calls] by (simp add: all_or_nothing_def)
next
  case (Some r)
  obtain status ctx' where r: "r = (status, ctx')" by fastforce
  note law = ConsoleAcquire_law [OF assms, of calls]
  show ?thesis
  proof (cases "calls_succeed calls")
    case True
    then obtain Channel where c: "calls_channel calls = Some Channel"
      using law Some r by (cases "calls_channel calls") (auto simp: all_or_nothing_def calls_succeed_def)
    with law Some r True have on: "console_on calls Channel ctx'" "cn_Log ctx' = cn_Log ctx @ [EvtchnUnmasked Channel]" "NT_SUCCESS status"
      by (auto simp: all_or_nothing_def)
    with ConsoleRelease_law [OF on(1)] c Some r True show ?thesis by auto
  next
    case False
    then show ?thesis using law Some r by (cases "calls_channel calls") (auto simp: all_or_nothing_def split: if_splits)
  qed
qed

definition sample_calls :: "NTSTATUS \<Rightarrow> console_calls" where
  "sample_calls debug = \<lparr>co_gnttab = STATUS_SUCCESS, co_query = (STATUS_SUCCESS, 5), co_map = Some empty_console_page, co_evtchn = STATUS_SUCCESS,
     co_param = (STATUS_SUCCESS, 2), co_open = (\<lambda>port. if port = 2 then Some 9 else None), co_suspend = STATUS_SUCCESS, co_late = STATUS_SUCCESS,
     co_debug = debug, co_debug_cb = STATUS_SUCCESS\<rparr>"

theorem ConsoleAcquire_all_or_nothing_witness:
  "\<exists>ctx' ctx''. ConsoleAcquire (sample_calls STATUS_NO_MEMORY) zero_CONSOLE = Some (STATUS_NO_MEMORY, ctx') \<and> console_same zero_CONSOLE ctx' \<and>
     ConsoleAcquire (sample_calls STATUS_SUCCESS) zero_CONSOLE = Some (STATUS_SUCCESS, ctx'') \<and> console_on (sample_calls STATUS_SUCCESS) 9 ctx''"
proof -
  have off: "console_off zero_CONSOLE" by (simp add: console_off_def zero_CONSOLE_def)
  have calls: "\<not> calls_succeed (sample_calls STATUS_NO_MEMORY)" "calls_succeed (sample_calls STATUS_SUCCESS)" "calls_channel (sample_calls STATUS_SUCCESS) = Some 9"
    by (simp_all add: calls_succeed_def calls_reach_open_def calls_channel_def sample_calls_def)
  obtain ctx' where 1: "ConsoleAcquire (sample_calls STATUS_NO_MEMORY) zero_CONSOLE = Some (STATUS_NO_MEMORY, ctx')"
    by (simp add: ConsoleAcquire_def ConsoleGetAddress_def console_connect_def console_fails console_steps sample_calls_def zero_CONSOLE_def)
  obtain ctx'' where 2: "ConsoleAcquire (sample_calls STATUS_SUCCESS) zero_CONSOLE = Some (STATUS_SUCCESS, ctx'')"
    by (simp add: ConsoleAcquire_def ConsoleGetAddress_def console_connect_def console_steps sample_calls_def zero_CONSOLE_def)
  show ?thesis
    using 1 2 calls ConsoleAcquire_all_or_nothing [OF off, of "sample_calls STATUS_NO_MEMORY"] ConsoleAcquire_all_or_nothing [OF off, of "sample_calls STATUS_SUCCESS"]
    by auto
qed

text \<open>
  C23. \<^verbatim>\<open>ConsoleSuspendCallbackLate\<close> ignores the status of \<^verbatim>\<open>ConsoleEnable\<close>: when the machine's parameter cannot
  be read after a resume, the console is left referenced but disabled and without a channel, nothing is read or
  written any more, and both the next resume and the last release stop on the channel that is not there.
\<close>
theorem ConsoleSuspendCallbackLate_strands:
  assumes "cn_Channel ctx = Some Channel" and "NT_SUCCESS (fst query)" and "snd query * 2 ^ 12 = cn_Address ctx" and "\<not> NT_SUCCESS (fst param)"
  shows "\<exists>ctx'. ConsoleSuspendCallbackLate query param opens ctx = Some ctx' \<and> cn_References ctx' = cn_References ctx \<and>
     ConsoleRead n ctx' = Some ([], ctx') \<and> ConsoleWrite Data ctx' = Some (0, ctx') \<and>
     ConsoleDisable ctx' = None \<and> ConsoleSuspendCallbackLate query param' opens ctx' = None \<and> ConsoleRelease (ctx'\<lparr>cn_References := 1\<rparr>) = None"
proof -
  obtain st Pfn where q: "query = (st, Pfn)" by fastforce
  obtain st' v where p: "param = (st', v)" by fastforce
  have h: "NT_SUCCESS st" "Pfn * 4096 = cn_Address ctx" "\<not> NT_SUCCESS st'" using assms q p by simp_all
  note d = ConsoleSuspendCallbackLate_def ConsoleGetAddress_def ConsoleRead_def ConsoleWrite_def ConsoleRelease_def console_steps
  have "ConsoleSuspendCallbackLate query param opens ctx = Some (ctx\<lparr>cn_Enabled := False, cn_Log := cn_Log ctx @ [EvtchnClosed Channel], cn_Channel := None\<rparr>)"
    by (simp add: q p h assms(1) d)
  then show ?thesis by (simp add: q h d)
qed

theorem ConsoleSuspendCallbackLate_strands_witness:
  "\<exists>ctx'. ConsoleSuspendCallbackLate (STATUS_SUCCESS, 0) (STATUS_UNSUCCESSFUL, 0) (\<lambda>_. None) sample_console = Some ctx' \<and>
     ConsoleRelease (ctx'\<lparr>cn_References := 1\<rparr>) = None"
  using ConsoleSuspendCallbackLate_strands [of sample_console 4 "(STATUS_SUCCESS, 0)" "(STATUS_UNSUCCESSFUL, 0)" "\<lambda>_. None" 1 "''a''" "(STATUS_SUCCESS, 0)"]
  by (auto simp: sample_console_def zero_CONSOLE_def)

end
