(* ===== verification/Module.thy ===== *)
theory Module
  imports Util
begin

text \<open>
  The loaded modules, src/src/xen/module.c: a list of the address ranges of the images of the kernel, sorted and
  disjoint, with a cursor that stays where the last one was added. The debug interface and the dump of a bug
  check turn addresses into names with it.

  \<^item> The image that is added wins: what it overlaps is taken off the list, by the loop \<open>module_place\<close>.
  \<^item> \<open>mc_List\<close> is \<^const>\<open>None\<close> while the list head is zero memory; the cursor is then NULL or dangling.
  \<^item> The pool, the conversion of a name and what the system says of its images are arguments. A name is the
    characters before its NUL.
\<close>

section \<open>Modules\<close>

type_synonym ULONG_PTR = "64 word"

record MODULE =
  md_Start :: ULONG_PTR
  md_End :: ULONG_PTR
  md_Name :: string

datatype module_cursor =
    CursorNull
  | Cursor ptr

record MODULE_CONTEXT =
  mc_References :: int
  mc_List :: "MODULE list option"
  mc_Cursor :: module_cursor

definition zero_MODULE_CONTEXT :: MODULE_CONTEXT where
  "zero_MODULE_CONTEXT = \<lparr>mc_References = 0, mc_List = None, mc_Cursor = CursorNull\<rparr>"

definition AUX_KLIB_MODULE_PATH_LEN :: nat where
  "AUX_KLIB_MODULE_PATH_LEN = 256"

text \<open>The two searches move the cursor, to the anchor if they find nothing.\<close>

definition ModuleSearchForwards :: "MODULE list \<Rightarrow> nat \<Rightarrow> ULONG_PTR \<Rightarrow> ptr" where
  "ModuleSearchForwards xs c Address =
     (let i = first_from (\<lambda>i. Address \<le> md_End (xs ! i)) c (length xs) in if i < length xs then Some i else None)"

fun ModuleSearchBackwards :: "MODULE list \<Rightarrow> nat \<Rightarrow> ULONG_PTR \<Rightarrow> ptr" where
  "ModuleSearchBackwards xs c Address =
     (if md_Start (xs ! c) \<le> Address then Some c else case c of 0 \<Rightarrow> None | Suc i \<Rightarrow> ModuleSearchBackwards xs i Address)"

declare ModuleSearchBackwards.simps [simp del]

lemma ModuleSearchForwards_bound: "ModuleSearchForwards xs c a = Some i \<Longrightarrow> i < length xs"
  by (simp add: ModuleSearchForwards_def Let_def split: if_splits)

lemma ModuleSearchBackwards_bound: "ModuleSearchBackwards xs c a = Some i \<Longrightarrow> i \<le> c"
proof (induction c)
  case 0
  then show ?case by (subst (asm) ModuleSearchBackwards.simps) (simp split: if_splits)
next
  case (Suc c)
  then show ?case by (subst (asm) (2) ModuleSearchBackwards.simps) (auto split: if_splits)
qed

text \<open>
  The loop of \<^verbatim>\<open>ModuleAdd\<close>, from the label again: whether to insert after the cursor, the list, the cursor and the
  modules that have been taken off.
\<close>

function module_place :: "MODULE \<Rightarrow> MODULE list \<Rightarrow> ptr \<Rightarrow> MODULE list \<Rightarrow> (bool \<times> MODULE list \<times> ptr \<times> MODULE list) kernel" where
  "module_place New xs None List = do { ASSERT (xs = []); Some (True, xs, None, List) }"
| "module_place New xs (Some c) List =
     (if length xs \<le> c then None
      else if md_End (xs ! c) < md_Start New then
        (case ModuleSearchForwards xs c (md_Start New) of
           None \<Rightarrow> Some (False, xs, None, List)
         | Some i \<Rightarrow>
             if md_Start (xs ! i) \<le> md_End New then module_place New (remove_nth i xs) (unlinked i (blink xs (Some i))) (List @ [xs ! i])
             else Some (False, xs, Some i, List))
      else if md_End New < md_Start (xs ! c) then
        (case ModuleSearchBackwards xs c (md_End New) of
           None \<Rightarrow> Some (True, xs, None, List)
         | Some i \<Rightarrow>
             if md_Start New \<le> md_End (xs ! i) then module_place New (remove_nth i xs) (unlinked i (flink xs (Some i))) (List @ [xs ! i])
             else Some (True, xs, Some i, List))
      else
        let Cursor = (if flink xs (Some c) \<noteq> None then flink xs (Some c) else blink xs (Some c)) in
        module_place New (remove_nth c xs) (unlinked c Cursor) (List @ [xs ! c]))"
  by pat_completeness auto
termination
  by (relation "measure (\<lambda>(_, xs, _, _). length xs)") (auto dest: ModuleSearchForwards_bound ModuleSearchBackwards_bound)

declare module_place.simps(2) [simp del]

definition ModuleAdd :: "bool \<Rightarrow> string \<Rightarrow> ULONG_PTR \<Rightarrow> ULONG_PTR \<Rightarrow> MODULE_CONTEXT \<Rightarrow> (NTSTATUS \<times> MODULE_CONTEXT \<times> MODULE list) kernel" where
  "ModuleAdd mem Name Start Size ctx =
     (if \<not> mem then Some (STATUS_NO_MEMORY, ctx, [])
      else case (mc_List ctx, mc_Cursor ctx) of
          (Some modules, Cursor c) \<Rightarrow> do {
            let New = \<lparr>md_Start = Start, md_End = Start + Size - 1, md_Name = map to_lower (take AUX_KLIB_MODULE_PATH_LEN Name)\<rparr>;
            (After, modules1, c1, List) \<leftarrow> module_place New modules c [];
            let (modules2, i) = (if After then insert_after modules1 c1 New else insert_before modules1 c1 New);
            Some (STATUS_SUCCESS, ctx\<lparr>mc_List := Some modules2, mc_Cursor := Cursor (Some i)\<rparr>, List)
          }
        | _ \<Rightarrow> None)"

text \<open>The part of a path after its last backslash.\<close>

definition base_name :: "string \<Rightarrow> string" where
  "base_name path = rev (takeWhile (\<lambda>ch. ch \<noteq> CHR 0x5C) (rev path))"

text \<open>\<open>convert\<close>: the answer of the conversion of the name; \<open>mem\<close>: the two allocations. Errors are only logged.\<close>

definition ModuleLoad :: "NTSTATUS \<times> string \<Rightarrow> bool \<times> bool \<Rightarrow> bool \<Rightarrow> ULONG_PTR \<Rightarrow> ULONG_PTR \<Rightarrow> MODULE_CONTEXT \<Rightarrow> MODULE_CONTEXT kernel" where
  "ModuleLoad convert mem SystemModeImage ImageBase ImageSize ctx =
     (if \<not> SystemModeImage then Some ctx
      else if \<not> NT_SUCCESS (fst convert) then Some ctx
      else if \<not> fst mem then Some ctx
      else do { (_, ctx1, _) \<leftarrow> ModuleAdd (snd mem) (base_name (snd convert)) ImageBase ImageSize ctx; Some ctx1 })"

definition ModuleLookup :: "ULONG_PTR \<Rightarrow> MODULE_CONTEXT \<Rightarrow> (string option \<times> ULONG_PTR) kernel" where
  "ModuleLookup Address ctx =
     do {
       modules \<leftarrow> mc_List ctx;
       Some (case find (\<lambda>m. md_Start m \<le> Address \<and> Address \<le> md_End m) modules of
           None \<Rightarrow> (None, 0)
         | Some m \<Rightarrow> (Some (md_Name m), Address - md_Start m))
     }"

definition ModuleTeardown :: "MODULE_CONTEXT \<Rightarrow> MODULE_CONTEXT kernel" where
  "ModuleTeardown ctx =
     do {
       _ \<leftarrow> mc_List ctx;
       let ctx1 = \<lparr>mc_References = mc_References ctx - 1, mc_List = None, mc_Cursor = CursorNull\<rparr>;
       ASSERT (ctx1 = zero_MODULE_CONTEXT);
       Some ctx1
     }"

section \<open>Setting up\<close>

text \<open>
  What the system answers: the size it asks for, and for the n-th buffer, of so many entries, its status and the
  entries, each a path, a base and a size. A buffer that is not filled to its end stays zero behind.
\<close>

record module_env =
  me_Size :: "NTSTATUS \<times> nat"
  me_Memory :: "nat \<Rightarrow> bool"
  me_Query :: "nat \<Rightarrow> nat \<Rightarrow> NTSTATUS \<times> nat \<times> (string \<times> ULONG_PTR \<times> ULONG_PTR) list"
  me_Add :: "nat \<Rightarrow> bool"
  me_Notify :: NTSTATUS

definition zero_entry :: "string \<times> ULONG_PTR \<times> ULONG_PTR" where
  "zero_entry = ([], 0, 0)"

text \<open>The rounds of the label again: the number of entries of the buffer and what it holds. It ends when the buffer is not too small.\<close>

partial_function (option) query_modules :: "module_env \<Rightarrow> nat \<Rightarrow> nat \<Rightarrow> (NTSTATUS \<times> (string \<times> ULONG_PTR \<times> ULONG_PTR) list) option" where
  "query_modules env n Count =
     (if \<not> me_Memory env n then Some (STATUS_NO_MEMORY, [])
      else case me_Query env n Count of (status, Count1, entries) \<Rightarrow>
        if NT_SUCCESS status then Some (STATUS_SUCCESS, take Count (entries @ replicate Count zero_entry))
        else if status \<noteq> STATUS_BUFFER_TOO_SMALL then Some (status, [])
        else query_modules env (n + 1) Count1)"

fun add_modules :: "module_env \<Rightarrow> nat \<Rightarrow> (string \<times> ULONG_PTR \<times> ULONG_PTR) list \<Rightarrow> MODULE_CONTEXT \<Rightarrow> (NTSTATUS \<times> MODULE_CONTEXT) kernel" where
  "add_modules env Index [] ctx = Some (STATUS_SUCCESS, ctx)"
| "add_modules env Index ((FullPathName, ImageBase, ImageSize) # entries) ctx =
     do {
       (status, ctx1, _) \<leftarrow> ModuleAdd (me_Add env Index) (base_name FullPathName) ImageBase ImageSize ctx;
       (if \<not> NT_SUCCESS status then Some (status, ctx1) else add_modules env (Index + 1) entries ctx1)
     }"

definition module_fail1 :: "NTSTATUS \<Rightarrow> MODULE_CONTEXT \<Rightarrow> (NTSTATUS \<times> MODULE_CONTEXT) kernel" where
  "module_fail1 status ctx =
     do {
       let ctx1 = ctx\<lparr>mc_References := mc_References ctx - 1\<rparr>;
       ASSERT (ctx1 = zero_MODULE_CONTEXT);
       Some (status, ctx1)
     }"

text \<open>The list is emptied and cleared, the cursor is not.\<close>

definition module_fail6 :: "NTSTATUS \<Rightarrow> MODULE_CONTEXT \<Rightarrow> (NTSTATUS \<times> MODULE_CONTEXT) kernel" where
  "module_fail6 status ctx = module_fail1 status (ctx\<lparr>mc_List := None\<rparr>)"

definition ModuleInitialize :: "module_env \<Rightarrow> MODULE_CONTEXT \<Rightarrow> (NTSTATUS \<times> MODULE_CONTEXT) kernel" where
  "ModuleInitialize env ctx =
     (let ctx0 = ctx\<lparr>mc_References := mc_References ctx + 1\<rparr> in
      if mc_References ctx0 \<noteq> 1 then module_fail1 STATUS_OBJECTID_EXISTS ctx0
      else if \<not> NT_SUCCESS (fst (me_Size env)) then module_fail1 (fst (me_Size env)) ctx0
      else if snd (me_Size env) = 0 then module_fail1 STATUS_UNSUCCESSFUL ctx0
      else do {
        (status, entries) \<leftarrow> query_modules env 0 (snd (me_Size env));
        (if \<not> NT_SUCCESS status then module_fail1 status ctx0
         else do {
           (status, ctx1) \<leftarrow> add_modules env 0 entries (ctx0\<lparr>mc_List := Some [], mc_Cursor := Cursor None\<rparr>);
           (if \<not> NT_SUCCESS status then module_fail6 status ctx1
            else if \<not> NT_SUCCESS (me_Notify env) then module_fail6 (me_Notify env) ctx1
            else Some (STATUS_SUCCESS, ctx1))
         })
      })"

section \<open>The list stays sorted and disjoint\<close>

definition before :: "MODULE \<Rightarrow> MODULE \<Rightarrow> bool" where
  "before a b \<longleftrightarrow> md_End a < md_Start b"

definition overlap :: "MODULE \<Rightarrow> MODULE \<Rightarrow> bool" where
  "overlap a b \<longleftrightarrow> \<not> before a b \<and> \<not> before b a"

definition modules_ok :: "MODULE list \<Rightarrow> bool" where
  "modules_ok xs \<longleftrightarrow> (\<forall>m \<in> set xs. md_Start m \<le> md_End m) \<and> sorted_wrt before xs"

fun cursor_ok :: "MODULE list \<Rightarrow> ptr \<Rightarrow> bool" where
  "cursor_ok xs None \<longleftrightarrow> xs = []"
| "cursor_ok xs (Some c) \<longleftrightarrow> c < length xs"

lemma before_nth: "modules_ok xs \<Longrightarrow> i < j \<Longrightarrow> j < length xs \<Longrightarrow> before (xs ! i) (xs ! j)"
  by (auto simp: modules_ok_def intro: sorted_wrt_nth_less)

lemma module_range: "modules_ok xs \<Longrightarrow> i < length xs \<Longrightarrow> md_Start (xs ! i) \<le> md_End (xs ! i)"
  by (auto simp: modules_ok_def)

lemma modules_ok_remove:
  assumes "modules_ok xs"
  shows "modules_ok (remove_nth i xs)"
proof (cases "i < length xs")
  case True
  then obtain ys x zs where "xs = ys @ x # zs" "length ys = i" by (rule split_at)
  then show ?thesis using assms by (auto simp: modules_ok_def sorted_wrt_append)
qed (use assms in \<open>simp add: remove_nth_def\<close>)

lemma filter_remove_nth: "i < length xs \<Longrightarrow> \<not> P (xs ! i) \<Longrightarrow> filter P (remove_nth i xs) = filter P xs"
  by (erule split_at) (use remove_nth_append in auto)

lemma set_filter_remove_nth: "i < length xs \<Longrightarrow> P (xs ! i) \<Longrightarrow> set (filter P xs) = insert (xs ! i) (set (filter P (remove_nth i xs)))"
  by (erule split_at) (use remove_nth_append in auto)

text \<open>The two searches.\<close>

lemma ModuleSearchForwards_law:
  assumes "c < length xs"
  shows "case ModuleSearchForwards xs c a of
      None \<Rightarrow> \<forall>j. c \<le> j \<and> j < length xs \<longrightarrow> md_End (xs ! j) < a
    | Some i \<Rightarrow> c \<le> i \<and> i < length xs \<and> a \<le> md_End (xs ! i) \<and> (\<forall>j. c \<le> j \<and> j < i \<longrightarrow> md_End (xs ! j) < a)"
  using first_from_spec [of c "length xs" "\<lambda>i. a \<le> md_End (xs ! i)"] assms
  by (auto simp: ModuleSearchForwards_def Let_def not_le)

lemma ModuleSearchBackwards_law:
  "case ModuleSearchBackwards xs c a of
      None \<Rightarrow> \<forall>j \<le> c. a < md_Start (xs ! j)
    | Some i \<Rightarrow> i \<le> c \<and> md_Start (xs ! i) \<le> a \<and> (\<forall>j. i < j \<and> j \<le> c \<longrightarrow> a < md_Start (xs ! j))"
proof (induction c)
  case 0
  then show ?case by (subst ModuleSearchBackwards.simps) (simp add: not_le)
next
  case (Suc c)
  then show ?case
    by (subst ModuleSearchBackwards.simps) (auto simp: not_le le_Suc_eq split: option.splits)
qed

text \<open>
  Where the new module goes: everything before a position lies below it, everything from there on above it. That
  the neighbours do is enough.
\<close>

definition gap :: "MODULE \<Rightarrow> MODULE list \<Rightarrow> nat \<Rightarrow> bool" where
  "gap New xs k \<longleftrightarrow> k \<le> length xs \<and> (\<forall>j < k. before (xs ! j) New) \<and> (\<forall>j. k \<le> j \<and> j < length xs \<longrightarrow> before New (xs ! j))"

lemma before_trans: "before a b \<Longrightarrow> md_Start b \<le> md_End b \<Longrightarrow> before b c \<Longrightarrow> before a c"
  unfolding before_def by (meson less_le_trans less_trans)

lemma gap_neighbours:
  assumes "modules_ok xs" and "md_Start New \<le> md_End New" and "k \<le> length xs"
    and "0 < k \<Longrightarrow> before (xs ! (k - 1)) New" and "k < length xs \<Longrightarrow> before New (xs ! k)"
  shows "gap New xs k"
proof -
  have "before (xs ! j) New" if "j < k" for j
  proof (cases "j = k - 1")
    case False
    then have "before (xs ! j) (xs ! (k - 1))" using that assms(1,3) by (intro before_nth) auto
    then show ?thesis using that assms(1,3,4) module_range [of xs "k - 1"] before_trans by (metis gr_zeroI diff_less less_le_trans not_less0 zero_less_one)
  qed (use that assms(4) in auto)
  moreover have "before New (xs ! j)" if "k \<le> j" "j < length xs" for j
  proof (cases "j = k")
    case False
    then have "before (xs ! k) (xs ! j)" using that assms(1) by (intro before_nth) auto
    then show ?thesis using that assms(1,5) module_range [of xs k] before_trans by (metis le_less_trans)
  qed (use that assms(5) in auto)
  ultimately show ?thesis using assms(3) by (simp add: gap_def)
qed

lemma filter_all: "(\<And>x. x \<in> set xs \<Longrightarrow> P x) \<Longrightarrow> filter P xs = xs"
  by (induction xs) auto

lemma filter_none: "(\<And>x. x \<in> set xs \<Longrightarrow> \<not> P x) \<Longrightarrow> filter P xs = []"
  by (induction xs) auto

lemma gap_filter:
  assumes "gap New xs k" and "modules_ok xs" and "md_Start New \<le> md_End New"
  shows "filter (\<lambda>m. before m New) xs = take k xs" "filter (before New) xs = drop k xs" "filter (overlap New) xs = []"
proof -
  have t: "before m New" if "m \<in> set (take k xs)" for m using that assms(1) by (auto simp: gap_def in_set_conv_nth)
  have d: "before New m" if "m \<in> set (drop k xs)" for m using that assms(1) by (auto simp: gap_def in_set_conv_nth)
  have r: "md_Start m \<le> md_End m" if "m \<in> set (take k xs) \<union> set (drop k xs)" for m
    using that assms(2) by (auto simp: modules_ok_def dest: in_set_takeD in_set_dropD)
  have nt: "\<not> before New m" if "m \<in> set (take k xs)" for m using t [OF that] r [of m] that assms(3) by (auto simp: before_def)
  have nd: "\<not> before m New" if "m \<in> set (drop k xs)" for m using d [OF that] r [of m] that assms(3) by (auto simp: before_def)
  have xs: "xs = take k xs @ drop k xs" by simp
  show "filter (\<lambda>m. before m New) xs = take k xs"
    by (subst xs, subst filter_append) (use filter_all [of "take k xs"] filter_none [of "drop k xs"] t nd in simp)
  show "filter (before New) xs = drop k xs"
    by (subst xs, subst filter_append) (use filter_all [of "drop k xs"] filter_none [of "take k xs"] d nt in simp)
  show "filter (overlap New) xs = []"
    by (subst xs, subst filter_append) (use filter_none [of "drop k xs"] filter_none [of "take k xs"] d t in \<open>simp add: overlap_def\<close>)
qed

text \<open>What the loop leaves: the position of the new module, and apart from what overlaps it the same modules.\<close>

definition placed :: "MODULE \<Rightarrow> MODULE list \<Rightarrow> MODULE list \<Rightarrow> (bool \<times> MODULE list \<times> ptr \<times> MODULE list) kernel \<Rightarrow> bool" where
  "placed New xs List r \<longleftrightarrow> (\<exists>After xs' p k gone. r = Some (After, xs', p, List @ gone) \<and> modules_ok xs' \<and> gap New xs' k \<and>
     (if After then insert_after xs' p New else insert_before xs' p New) = (take k xs' @ New # drop k xs', k) \<and>
     filter (\<lambda>m. before m New) xs' = filter (\<lambda>m. before m New) xs \<and> filter (before New) xs' = filter (before New) xs \<and>
     set gone = {m \<in> set xs. overlap New m})"

lemma placed_here:
  assumes "modules_ok xs" and "md_Start New \<le> md_End New" and "gap New xs k"
    and "(if After then insert_after xs p New else insert_before xs p New) = (take k xs @ New # drop k xs, k)"
  shows "placed New xs List (Some (After, xs, p, List))"
  using gap_filter(3) [OF assms(3,1,2)] assms unfolding placed_def
  by (intro exI [of _ After] exI [of _ xs] exI [of _ p] exI [of _ k] exI [of _ "[]"]) (auto simp: filter_empty_conv)

lemma placed_remove:
  assumes "placed New (remove_nth i xs) (List @ [xs ! i]) r" and "i < length xs" and "overlap New (xs ! i)"
  shows "placed New xs List r"
proof -
  obtain After xs' p k gone where r: "r = Some (After, xs', p, (List @ [xs ! i]) @ gone)" "modules_ok xs'" "gap New xs' k"
    "(if After then insert_after xs' p New else insert_before xs' p New) = (take k xs' @ New # drop k xs', k)"
    "filter (\<lambda>m. before m New) xs' = filter (\<lambda>m. before m New) (remove_nth i xs)" "filter (before New) xs' = filter (before New) (remove_nth i xs)"
    "set gone = {m \<in> set (remove_nth i xs). overlap New m}"
    using assms(1) unfolding placed_def by (elim exE conjE) blast
  have "{m \<in> set xs. overlap New m} = set (xs ! i # gone)"
    using set_filter_remove_nth [of i xs "overlap New"] assms(2,3) r(7) by simp
  then show ?thesis unfolding placed_def
    using r(1-6) assms(2,3) filter_remove_nth [of i xs "\<lambda>m. before m New"] filter_remove_nth [of i xs "before New"]
    by (intro exI [of _ After] exI [of _ xs'] exI [of _ p] exI [of _ k] exI [of _ "xs ! i # gone"]) (simp add: overlap_def)
qed

lemma cursor_after_remove:
  assumes "i < length xs" and "p = None \<Longrightarrow> length xs = 1" and "\<And>j. p = Some j \<Longrightarrow> j \<noteq> i \<and> j < length xs"
  shows "cursor_ok (remove_nth i xs) (unlinked i p)"
  using assms by (cases p) (auto simp: remove_nth_def)

lemma forwards_step:
  assumes ok: "modules_ok xs" "md_Start New \<le> md_End New" and c: "c < length xs" "md_End (xs ! c) < md_Start New"
  shows "case ModuleSearchForwards xs c (md_Start New) of
      None \<Rightarrow> gap New xs (length xs)
    | Some i \<Rightarrow> c < i \<and> i < length xs \<and> (if md_Start (xs ! i) \<le> md_End New then overlap New (xs ! i) else gap New xs i)"
proof (cases "ModuleSearchForwards xs c (md_Start New)")
  case None
  then have "\<forall>j. c \<le> j \<and> j < length xs \<longrightarrow> before (xs ! j) New"
    using ModuleSearchForwards_law [OF c(1), of "md_Start New"] by (simp add: before_def)
  moreover have "c \<le> length xs - 1 \<and> length xs - 1 < length xs" using c(1) by linarith
  ultimately have "before (xs ! (length xs - 1)) New" by blast
  then show ?thesis using None gap_neighbours [OF ok, of "length xs"] by simp
next
  case (Some i)
  then have s: "c \<le> i" "i < length xs" "md_Start New \<le> md_End (xs ! i)" "\<forall>j. c \<le> j \<and> j < i \<longrightarrow> md_End (xs ! j) < md_Start New"
    using ModuleSearchForwards_law [OF c(1), of "md_Start New"] by auto
  have "c < i" using s(1,3) c(2) by (metis le_less not_le)
  then have "before (xs ! (i - 1)) New" using s(4) by (auto simp: before_def)
  then show ?thesis using Some s \<open>c < i\<close> gap_neighbours [OF ok, of i] by (auto simp: overlap_def before_def not_le not_less)
qed

lemma backwards_step:
  assumes ok: "modules_ok xs" "md_Start New \<le> md_End New" and c: "c < length xs" "md_End New < md_Start (xs ! c)"
  shows "case ModuleSearchBackwards xs c (md_End New) of
      None \<Rightarrow> gap New xs 0
    | Some i \<Rightarrow> i < c \<and> (if md_Start New \<le> md_End (xs ! i) then overlap New (xs ! i) else gap New xs (Suc i))"
proof (cases "ModuleSearchBackwards xs c (md_End New)")
  case None
  then have "before New (xs ! 0)" using ModuleSearchBackwards_law [where xs = xs and c = c and a = "md_End New"] by (simp add: before_def)
  then show ?thesis using None gap_neighbours [OF ok, of 0] by simp
next
  case (Some i)
  then have s: "i \<le> c" "md_Start (xs ! i) \<le> md_End New" "\<forall>j. i < j \<and> j \<le> c \<longrightarrow> md_End New < md_Start (xs ! j)"
    using ModuleSearchBackwards_law [where xs = xs and c = c and a = "md_End New"] by auto
  have "i < c" using s(1,2) c(2) by (metis le_less not_le)
  then have "before New (xs ! Suc i)" using s(3) by (auto simp: before_def)
  then show ?thesis using Some s \<open>i < c\<close> c(1) gap_neighbours [OF ok, of "Suc i"] by (auto simp: overlap_def before_def not_le not_less)
qed

text \<open>The three cases of a round, given that the rounds after it do what they should.\<close>

definition goes_on :: "MODULE \<Rightarrow> MODULE list \<Rightarrow> MODULE list \<Rightarrow> bool" where
  "goes_on New xs List \<longleftrightarrow> (\<forall>i q. i < length xs \<longrightarrow> overlap New (xs ! i) \<longrightarrow> (q = None \<longrightarrow> length xs = 1) \<longrightarrow>
     (\<forall>j. q = Some j \<longrightarrow> j \<noteq> i \<and> j < length xs) \<longrightarrow> placed New xs List (module_place New (remove_nth i xs) (unlinked i q) (List @ [xs ! i])))"

lemma goes_onD:
  assumes "goes_on New xs List" and "i < length xs" and "overlap New (xs ! i)" and "q = None \<Longrightarrow> length xs = 1"
    and "\<And>j. q = Some j \<Longrightarrow> j \<noteq> i \<and> j < length xs"
  shows "placed New xs List (module_place New (remove_nth i xs) (unlinked i q) (List @ [xs ! i]))"
  using assms unfolding goes_on_def by simp

lemma place_above:
  assumes ok: "modules_ok xs" "md_Start New \<le> md_End New" and c: "c < length xs" "md_End (xs ! c) < md_Start New" and again: "goes_on New xs List"
  shows "placed New xs List (module_place New xs (Some c) List)"
proof (cases "ModuleSearchForwards xs c (md_Start New)")
  case None
  then have "module_place New xs (Some c) List = Some (False, xs, None, List)" using c by (simp add: module_place.simps(2))
  then show ?thesis using placed_here [OF ok, of "length xs" False None] forwards_step [OF ok c] None by simp
next
  case (Some i)
  note f = forwards_step [OF ok c, unfolded Some option.case]
  have "module_place New xs (Some c) List = (if md_Start (xs ! i) \<le> md_End New
      then module_place New (remove_nth i xs) (unlinked i (Some (i - 1))) (List @ [xs ! i]) else Some (False, xs, Some i, List))"
    using c f Some by (simp add: module_place.simps(2) blink_Some)
  moreover have "placed New xs List (module_place New (remove_nth i xs) (unlinked i (Some (i - 1))) (List @ [xs ! i]))" if "overlap New (xs ! i)"
    by (rule goes_onD [OF again _ that]) (use f in auto)
  ultimately show ?thesis using f placed_here [OF ok, of i False "Some i" List] by (simp split: if_splits)
qed

lemma place_below:
  assumes ok: "modules_ok xs" "md_Start New \<le> md_End New" and c: "c < length xs" "md_End New < md_Start (xs ! c)" and again: "goes_on New xs List"
  shows "placed New xs List (module_place New xs (Some c) List)"
proof -
  have "md_Start New < md_End (xs ! c)" using le_less_trans [OF ok(2) c(2)] module_range [OF ok(1) c(1)] by (rule less_le_trans)
  then have nb: "\<not> md_End (xs ! c) < md_Start New" by simp
  show ?thesis
  proof (cases "ModuleSearchBackwards xs c (md_End New)")
    case None
    then have "module_place New xs (Some c) List = Some (True, xs, None, List)" using c nb by (simp add: module_place.simps(2))
    then show ?thesis using placed_here [OF ok, of 0 True None] backwards_step [OF ok c] None by simp
  next
    case (Some i)
    note f = backwards_step [OF ok c, unfolded Some option.case]
    have "module_place New xs (Some c) List = (if md_Start New \<le> md_End (xs ! i)
        then module_place New (remove_nth i xs) (unlinked i (Some (Suc i))) (List @ [xs ! i]) else Some (True, xs, Some i, List))"
      using c nb f Some by (simp add: module_place.simps(2))
    moreover have "placed New xs List (module_place New (remove_nth i xs) (unlinked i (Some (Suc i))) (List @ [xs ! i]))" if "overlap New (xs ! i)"
      by (rule goes_onD [OF again _ that]) (use f c in auto)
    ultimately show ?thesis using f placed_here [OF ok, of "Suc i" True "Some i" List] by (simp split: if_splits)
  qed
qed

lemma place_over:
  assumes c: "c < length xs" "overlap New (xs ! c)" and again: "goes_on New xs List"
  shows "placed New xs List (module_place New xs (Some c) List)"
proof -
  let ?q = "if flink xs (Some c) \<noteq> None then flink xs (Some c) else blink xs (Some c)"
  have "module_place New xs (Some c) List = module_place New (remove_nth c xs) (unlinked c ?q) (List @ [xs ! c])"
    using c by (subst module_place.simps(2)) (simp add: overlap_def before_def Let_def)
  moreover have "placed New xs List (module_place New (remove_nth c xs) (unlinked c ?q) (List @ [xs ! c]))"
  proof (rule goes_onD [OF again c])
    assume "?q = None"
    then have "\<not> Suc c < length xs" "c = 0" by (auto simp: blink_Some split: if_splits)
    then show "length xs = 1" using c(1) by linarith
  qed (use c(1) in \<open>auto simp: blink_Some split: if_splits\<close>)
  ultimately show ?thesis by simp
qed

lemma module_place_law:
  assumes "modules_ok xs" and "md_Start New \<le> md_End New" and "cursor_ok xs p"
  shows "placed New xs List (module_place New xs p List)"
  using assms(1,3)
proof (induction "length xs" arbitrary: xs p List rule: less_induct)
  case less
  have again: "goes_on New xs List"
    unfolding goes_on_def
  proof (intro allI impI)
    fix i q
    assume i: "i < length xs" "overlap New (xs ! i)" "q = None \<longrightarrow> length xs = 1" "\<forall>j. q = Some j \<longrightarrow> j \<noteq> i \<and> j < length xs"
    then have "placed New (remove_nth i xs) (List @ [xs ! i]) (module_place New (remove_nth i xs) (unlinked i q) (List @ [xs ! i]))"
      using less.prems(1) by (intro less.hyps modules_ok_remove cursor_after_remove) auto
    then show "placed New xs List (module_place New (remove_nth i xs) (unlinked i q) (List @ [xs ! i]))" using i(1,2) by (rule placed_remove)
  qed
  show ?case
  proof (cases p)
    case None
    then show ?thesis using less.prems placed_here [OF less.prems(1) assms(2), of 0 True None] by (simp add: gap_def)
  next
    case (Some c)
    then have c: "c < length xs" using less.prems(2) by simp
    consider "md_End (xs ! c) < md_Start New" | "md_End New < md_Start (xs ! c)" | "overlap New (xs ! c)" by (auto simp: overlap_def before_def)
    then show ?thesis
      using place_above [OF less.prems(1) assms(2) c _ again] place_below [OF less.prems(1) assms(2) c _ again] place_over [OF c _ again] Some by cases auto
  qed
qed

section \<open>Properties\<close>

definition context_ok :: "MODULE_CONTEXT \<Rightarrow> bool" where
  "context_ok ctx \<longleftrightarrow> (case (mc_List ctx, mc_Cursor ctx) of (Some xs, Cursor p) \<Rightarrow> modules_ok xs \<and> cursor_ok xs p | _ \<Rightarrow> False)"

definition images :: "MODULE_CONTEXT \<Rightarrow> MODULE set" where
  "images ctx = (case mc_List ctx of None \<Rightarrow> {} | Some xs \<Rightarrow> set xs)"

definition module_of :: "string \<Rightarrow> ULONG_PTR \<Rightarrow> ULONG_PTR \<Rightarrow> MODULE" where
  "module_of Name Start Size = \<lparr>md_Start = Start, md_End = Start + Size - 1, md_Name = map to_lower (take 256 Name)\<rparr>"

lemma gap_insert_ok:
  assumes "modules_ok xs" and "gap New xs k" and "md_Start New \<le> md_End New"
  shows "modules_ok (take k xs @ New # drop k xs)"
proof -
  have t: "before m New" if "m \<in> set (take k xs)" for m using that assms(2) by (auto simp: gap_def in_set_conv_nth)
  have d: "before New m" if "m \<in> set (drop k xs)" for m using that assms(2) by (auto simp: gap_def in_set_conv_nth)
  have "sorted_wrt before (take k xs @ drop k xs)" "\<forall>m \<in> set xs. md_Start m \<le> md_End m" using assms(1) by (simp_all add: modules_ok_def)
  then show ?thesis using t d assms(3) unfolding modules_ok_def sorted_wrt_append by (auto dest: in_set_takeD in_set_dropD)
qed

lemma ModuleAdd_law:
  assumes "context_ok ctx" and "Start \<le> Start + Size - 1"
  shows "\<exists>status ctx' freed. ModuleAdd mem Name Start Size ctx = Some (status, ctx', freed) \<and> context_ok ctx' \<and>
     NT_SUCCESS status = mem \<and> mc_References ctx' = mc_References ctx \<and>
     images ctx' = (if mem then insert (module_of Name Start Size) {m \<in> images ctx. \<not> overlap (module_of Name Start Size) m} else images ctx)"
proof (cases mem)
  case True
  let ?New = "module_of Name Start Size"
  obtain xs p where x: "mc_List ctx = Some xs" "mc_Cursor ctx = Cursor p" "modules_ok xs" "cursor_ok xs p"
    using assms(1) by (auto simp: context_ok_def split: option.splits module_cursor.splits)
  have r: "md_Start ?New \<le> md_End ?New" using assms(2) by (simp add: module_of_def)
  obtain After xs' q k gone where m: "module_place ?New xs p [] = Some (After, xs', q, gone)" "modules_ok xs'" "gap ?New xs' k"
    "(if After then insert_after xs' q ?New else insert_before xs' q ?New) = (take k xs' @ ?New # drop k xs', k)"
    "filter (\<lambda>m. before m ?New) xs' = filter (\<lambda>m. before m ?New) xs" "filter (before ?New) xs' = filter (before ?New) xs"
    using module_place_law [OF x(3) r x(4), of "[]"] unfolding placed_def by (elim exE conjE) simp
  have "set (take k xs') = {m \<in> set xs. before m ?New}" "set (drop k xs') = {m \<in> set xs. before ?New m}"
    using gap_filter(1,2) [OF m(3,2) r] m(5,6) by (metis set_filter)+
  then have "set (take k xs' @ ?New # drop k xs') = insert ?New {m \<in> set xs. \<not> overlap ?New m}" by (auto simp: overlap_def)
  moreover have "ModuleAdd mem Name Start Size ctx =
      Some (STATUS_SUCCESS, ctx\<lparr>mc_List := Some (take k xs' @ ?New # drop k xs'), mc_Cursor := Cursor (Some k)\<rparr>, gone)"
    using m(1,4) True x by (simp add: ModuleAdd_def AUX_KLIB_MODULE_PATH_LEN_def Let_def flip: module_of_def)
  moreover have "k < length (take k xs' @ ?New # drop k xs')" using m(3) by (simp add: gap_def)
  ultimately show ?thesis using True x(1) gap_insert_ok [OF m(2,3) r] by (simp add: context_ok_def images_def)
qed (use assms in \<open>simp add: ModuleAdd_def\<close>)

text \<open>A sequence of loads, some of which find no memory, and the images they leave.\<close>

type_synonym load = "bool \<times> string \<times> ULONG_PTR \<times> ULONG_PTR"

fun load_all :: "load list \<Rightarrow> MODULE_CONTEXT \<Rightarrow> MODULE_CONTEXT kernel" where
  "load_all [] ctx = Some ctx"
| "load_all ((mem, Name, Start, Size) # loads) ctx = do { (_, ctx1, _) \<leftarrow> ModuleAdd mem Name Start Size ctx; load_all loads ctx1 }"

fun loaded :: "load list \<Rightarrow> MODULE set \<Rightarrow> MODULE set" where
  "loaded [] S = S"
| "loaded ((mem, Name, Start, Size) # loads) S =
     loaded loads (if mem then insert (module_of Name Start Size) {m \<in> S. \<not> overlap (module_of Name Start Size) m} else S)"

definition in_range :: "load \<Rightarrow> bool" where
  "in_range l = (case l of (_, _, Start, Size) \<Rightarrow> Start \<le> Start + Size - 1)"

lemma load_all_law:
  assumes "context_ok ctx" and "\<forall>l \<in> set loads. in_range l"
  shows "\<exists>ctx'. load_all loads ctx = Some ctx' \<and> context_ok ctx' \<and> images ctx' = loaded loads (images ctx)"
  using assms
proof (induction loads arbitrary: ctx)
  case (Cons l loads)
  obtain mem Name Start Size where l: "l = (mem, Name, Start, Size)" using prod_cases4 by blast
  then have "Start \<le> Start + Size - 1" using Cons.prems(2) by (simp add: in_range_def)
  from ModuleAdd_law [OF Cons.prems(1) this, of mem Name] obtain status ctx1 freed where
    "ModuleAdd mem Name Start Size ctx = Some (status, ctx1, freed)" "context_ok ctx1"
    "images ctx1 = (if mem then insert (module_of Name Start Size) {m \<in> images ctx. \<not> overlap (module_of Name Start Size) m} else images ctx)" by blast
  then show ?case using Cons.IH [of ctx1] Cons.prems(2) l by simp
qed simp

lemma find_unique:
  assumes "m \<in> set xs" and "P m" and "\<And>x. x \<in> set xs \<Longrightarrow> P x \<Longrightarrow> x = m"
  shows "find P xs = Some m"
proof (cases "find P xs")
  case None
  then show ?thesis using assms(1,2) by (auto simp: find_None_iff)
next
  case (Some y)
  then have "y \<in> set xs" "P y" by (auto simp: find_Some_iff)
  then show ?thesis using Some assms(3) by blast
qed

lemma one_image:
  assumes "context_ok ctx" and "m \<in> images ctx" "m' \<in> images ctx" and "md_Start m \<le> A" "A \<le> md_End m" and "md_Start m' \<le> A" "A \<le> md_End m'"
  shows "m' = m"
proof -
  obtain xs where x: "mc_List ctx = Some xs" "modules_ok xs" using assms(1) by (auto simp: context_ok_def split: option.splits module_cursor.splits)
  then obtain i j where ij: "i < length xs" "xs ! i = m" "j < length xs" "xs ! j = m'" using assms(2,3) by (auto simp: images_def in_set_conv_nth)
  have "\<not> before m m'" "\<not> before m' m" using assms(4-7) by (auto simp: before_def not_less intro: order_trans)
  then show ?thesis using ij before_nth [OF x(2), of i j] before_nth [OF x(2), of j i] by (metis linorder_neqE_nat)
qed

lemma context_okD: "context_ok ctx \<Longrightarrow> \<exists>xs p. mc_List ctx = Some xs \<and> mc_Cursor ctx = Cursor p \<and> modules_ok xs \<and> cursor_ok xs p"
  by (auto simp: context_ok_def split: option.splits module_cursor.splits)

lemma ModuleLookup_named:
  assumes "context_ok ctx" and "m \<in> images ctx" and "md_Start m \<le> A" and "A \<le> md_End m"
  shows "ModuleLookup A ctx = Some (Some (md_Name m), A - md_Start m)"
proof -
  obtain xs where x: "mc_List ctx = Some xs" using context_okD [OF assms(1)] by blast
  have "find (\<lambda>m. md_Start m \<le> A \<and> A \<le> md_End m) xs = Some m"
  proof (rule find_unique)
    fix y
    assume "y \<in> set xs" "md_Start y \<le> A \<and> A \<le> md_End y"
    then show "y = m" using one_image [OF assms(1,2) _ assms(3,4), of y] x by (simp add: images_def)
  qed (use assms x in \<open>simp_all add: images_def\<close>)
  then show ?thesis using x by (simp add: ModuleLookup_def)
qed

lemma ModuleLookup_unnamed:
  assumes "context_ok ctx" and "\<forall>m \<in> images ctx. \<not> (md_Start m \<le> A \<and> A \<le> md_End m)"
  shows "ModuleLookup A ctx = Some (None, 0)"
proof -
  obtain xs where x: "mc_List ctx = Some xs" using context_okD [OF assms(1)] by blast
  then have "find (\<lambda>m. md_Start m \<le> A \<and> A \<le> md_End m) xs = None" using assms(2) by (simp add: find_None_iff images_def)
  then show ?thesis using x by (simp add: ModuleLookup_def)
qed

text \<open>
  Whatever images are loaded, in whatever order, over whatever is there and wherever the cursor stands,
  \<^verbatim>\<open>ModuleAdd\<close> returns (its loop and its searches end and none of its assertions fails), and the list stays
  sorted with disjoint ranges and the cursor on one of its modules.
\<close>
theorem ModuleAdd_keeps_sorted:
  assumes "context_ok ctx" and "\<forall>l \<in> set loads. in_range l"
  shows "\<exists>ctx' xs p. load_all loads ctx = Some ctx' \<and> mc_List ctx' = Some xs \<and> mc_Cursor ctx' = Cursor p \<and> cursor_ok xs p \<and>
     sorted_wrt (\<lambda>a b. md_End a < md_Start b) xs \<and> (\<forall>m \<in> set xs. md_Start m \<le> md_End m)"
proof -
  obtain ctx' where c: "load_all loads ctx = Some ctx'" "context_ok ctx'" using load_all_law [OF assms] by blast
  then show ?thesis using context_okD [OF c(2)] by (auto simp: modules_ok_def before_def [abs_def])
qed

definition no_modules :: MODULE_CONTEXT where
  "no_modules = \<lparr>mc_References = 1, mc_List = Some [], mc_Cursor = Cursor None\<rparr>"

definition sample_loads :: "load list" where
  "sample_loads = [(True, ''Kernel'', 0x3000, 0x1000), (True, ''Boot'', 0x1000, 0x1000), (False, ''Lost'', 0x2000, 0x10), (True, ''XenBus'', 0x3800, 0x1000)]"

lemma no_modules_ok: "context_ok no_modules" "images no_modules = {}"
  by (simp_all add: context_ok_def no_modules_def modules_ok_def images_def)

lemma sample_loads_in_range: "\<forall>l \<in> set sample_loads. in_range l"
  by (simp add: sample_loads_def in_range_def)

theorem ModuleAdd_keeps_sorted_witness:
  "\<exists>ctx' xs p. load_all sample_loads no_modules = Some ctx' \<and> mc_List ctx' = Some xs \<and> mc_Cursor ctx' = Cursor p \<and> cursor_ok xs p \<and>
     sorted_wrt (\<lambda>a b. md_End a < md_Start b) xs"
  using ModuleAdd_keeps_sorted [OF no_modules_ok(1) sample_loads_in_range] by blast

text \<open>
  C34. An address is named by the image that was loaded over it last, with its offset in that image; an image
  that a later one overlaps names nothing any more, not even where the later one is not, and an address that no
  image is left for has no name. The list, its order and its cursor are a set of images to the callers.
\<close>
theorem ModuleLookup_names_latest:
  assumes "context_ok ctx" and "\<forall>l \<in> set loads. in_range l"
  shows "\<exists>ctx'. load_all loads ctx = Some ctx' \<and> images ctx' = loaded loads (images ctx) \<and>
     (\<forall>A. (\<forall>m \<in> loaded loads (images ctx). md_Start m \<le> A \<longrightarrow> A \<le> md_End m \<longrightarrow> ModuleLookup A ctx' = Some (Some (md_Name m), A - md_Start m)) \<and>
       ((\<forall>m \<in> loaded loads (images ctx). \<not> (md_Start m \<le> A \<and> A \<le> md_End m)) \<longrightarrow> ModuleLookup A ctx' = Some (None, 0)))"
proof -
  obtain ctx' where c: "load_all loads ctx = Some ctx'" "context_ok ctx'" "images ctx' = loaded loads (images ctx)"
    using load_all_law [OF assms] by blast
  show ?thesis
    by (intro exI [of _ ctx'] conjI allI ballI impI c(1,3) ModuleLookup_named [OF c(2)] ModuleLookup_unnamed [OF c(2)]) (simp_all add: c(3))
qed

lemma sample_loaded:
  "loaded sample_loads {} = {\<lparr>md_Start = 0x3800, md_End = 0x47FF, md_Name = ''xenbus''\<rparr>, \<lparr>md_Start = 0x1000, md_End = 0x1FFF, md_Name = ''boot''\<rparr>}"
proof -
  have names: "map to_lower ''Kernel'' = ''kernel''" "map to_lower ''Boot'' = ''boot''" "map to_lower ''XenBus'' = ''xenbus''" by code_simp+
  let ?k = "\<lparr>md_Start = 0x3000, md_End = 0x3FFF, md_Name = ''kernel''\<rparr> :: MODULE"
  let ?b = "\<lparr>md_Start = 0x1000, md_End = 0x1FFF, md_Name = ''boot''\<rparr> :: MODULE"
  let ?x = "\<lparr>md_Start = 0x3800, md_End = 0x47FF, md_Name = ''xenbus''\<rparr> :: MODULE"
  have new: "module_of ''Kernel'' 0x3000 0x1000 = ?k" "module_of ''Boot'' 0x1000 0x1000 = ?b" "module_of ''XenBus'' 0x3800 0x1000 = ?x"
    by (simp_all add: module_of_def names del: list.map)
  have over: "overlap ?b ?k = False" "overlap ?x ?b = False" "overlap ?x ?k = True" by (simp_all add: overlap_def before_def)
  have kept: "{m \<in> insert a S. \<not> overlap n m} = (if overlap n a then {m \<in> S. \<not> overlap n m} else insert a {m \<in> S. \<not> overlap n m})"
    "{m \<in> {}. \<not> overlap n m} = {}" for a n S by auto
  show ?thesis by (simp only: sample_loads_def loaded.simps if_True if_False new kept over)
qed

theorem ModuleLookup_names_latest_witness:
  "\<exists>ctx'. load_all sample_loads no_modules = Some ctx' \<and> ModuleLookup 0x3900 ctx' = Some (Some ''xenbus'', 0x100) \<and>
     ModuleLookup 0x1004 ctx' = Some (Some ''boot'', 4) \<and> ModuleLookup 0x3100 ctx' = Some (None, 0)"
proof -
  obtain ctx' where c: "load_all sample_loads no_modules = Some ctx'"
    and named: "\<And>A m. m \<in> loaded sample_loads {} \<Longrightarrow> md_Start m \<le> A \<Longrightarrow> A \<le> md_End m \<Longrightarrow> ModuleLookup A ctx' = Some (Some (md_Name m), A - md_Start m)"
    and unnamed: "\<And>A. \<forall>m \<in> loaded sample_loads {}. \<not> (md_Start m \<le> A \<and> A \<le> md_End m) \<Longrightarrow> ModuleLookup A ctx' = Some (None, 0)"
    using ModuleLookup_names_latest [OF no_modules_ok(1) sample_loads_in_range] unfolding no_modules_ok(2) by blast
  show ?thesis
    using c named [of "\<lparr>md_Start = 0x3800, md_End = 0x47FF, md_Name = ''xenbus''\<rparr>" "0x3900"]
      named [of "\<lparr>md_Start = 0x1000, md_End = 0x1FFF, md_Name = ''boot''\<rparr>" "0x1004"] unnamed [of "0x3100"]
    by (simp add: sample_loaded)
qed

section \<open>Setting up and tearing down\<close>

definition entry_loads :: "(string \<times> ULONG_PTR \<times> ULONG_PTR) list \<Rightarrow> load list" where
  "entry_loads entries = map (\<lambda>(path, Start, Size). (True, base_name path, Start, Size)) entries"

lemma add_modules_law:
  assumes "context_ok ctx" and "\<forall>l \<in> set (entry_loads entries). in_range l" and "\<forall>n. me_Add env n"
  shows "\<exists>ctx'. add_modules env i entries ctx = Some (STATUS_SUCCESS, ctx') \<and> context_ok ctx' \<and> mc_References ctx' = mc_References ctx \<and>
     images ctx' = loaded (entry_loads entries) (images ctx)"
  using assms(1,2)
proof (induction entries arbitrary: i ctx)
  case (Cons e entries)
  obtain path Start Size where e: "e = (path, Start, Size)" using prod_cases3 by blast
  then have r: "Start \<le> Start + Size - 1" using Cons.prems(2) by (simp add: in_range_def entry_loads_def)
  let ?New = "module_of (base_name path) Start Size"
  from ModuleAdd_law [OF Cons.prems(1) r, of True "base_name path"] obtain status ctx1 freed where
    "ModuleAdd True (base_name path) Start Size ctx = Some (status, ctx1, freed)" "context_ok ctx1" "NT_SUCCESS status"
    "mc_References ctx1 = mc_References ctx" "images ctx1 = insert ?New {m \<in> images ctx. \<not> overlap ?New m}" by auto
  then show ?case using Cons.IH [of ctx1 "i + 1"] Cons.prems(2) e assms(3) by (simp add: entry_loads_def)
qed (simp add: entry_loads_def)

text \<open>
  When the system answers the query and every step succeeds, \<^verbatim>\<open>ModuleInitialize\<close> leaves the modules of the
  answer in the list, in the context's order, and \<^verbatim>\<open>ModuleTeardown\<close> gives back a zero context, so that it can be
  set up again.
\<close>
theorem ModuleInitialize_Teardown:
  assumes "me_Size env = (STATUS_SUCCESS, Suc n)" and "query_modules env 0 (Suc n) = Some (STATUS_SUCCESS, entries)"
    and "\<forall>l \<in> set (entry_loads entries). in_range l" and "\<forall>n. me_Add env n" and "NT_SUCCESS (me_Notify env)"
  shows "\<exists>ctx. ModuleInitialize env zero_MODULE_CONTEXT = Some (STATUS_SUCCESS, ctx) \<and> context_ok ctx \<and>
     images ctx = loaded (entry_loads entries) {} \<and> ModuleTeardown ctx = Some zero_MODULE_CONTEXT"
proof -
  obtain ctx where c: "add_modules env 0 entries no_modules = Some (STATUS_SUCCESS, ctx)" "context_ok ctx" "mc_References ctx = 1"
    "images ctx = loaded (entry_loads entries) {}"
    using add_modules_law [OF no_modules_ok(1) assms(3,4), of 0] by (auto simp: no_modules_ok) (simp add: no_modules_def)
  obtain xs where "mc_List ctx = Some xs" using c(2) by (auto simp: context_ok_def split: option.splits)
  then have "ModuleTeardown ctx = Some zero_MODULE_CONTEXT" using c(3) by (simp add: ModuleTeardown_def zero_MODULE_CONTEXT_def)
  moreover have "ModuleInitialize env zero_MODULE_CONTEXT = Some (STATUS_SUCCESS, ctx)"
    using c(1) assms by (simp add: ModuleInitialize_def zero_MODULE_CONTEXT_def no_modules_def)
  ultimately show ?thesis using c by blast
qed

definition sample_env :: module_env where
  "sample_env = \<lparr>me_Size = (STATUS_SUCCESS, 1), me_Memory = (\<lambda>_. True),
     me_Query = (\<lambda>n Count. if n = 0 then (STATUS_BUFFER_TOO_SMALL, 2, []) else (STATUS_SUCCESS, 2, [(''C'' @ [CHR 0x5C] @ ''A'', 0x1000, 0x10), (''B'', 0x2000, 0x10)])),
     me_Add = (\<lambda>_. True), me_Notify = STATUS_SUCCESS\<rparr>"

theorem ModuleInitialize_Teardown_witness:
  "\<exists>ctx. ModuleInitialize sample_env zero_MODULE_CONTEXT = Some (STATUS_SUCCESS, ctx) \<and> ModuleTeardown ctx = Some zero_MODULE_CONTEXT"
proof -
  let ?entries = "[(''C'' @ [CHR 0x5C] @ ''A'', 0x1000, 0x10), (''B'', 0x2000, 0x10)] :: (string \<times> ULONG_PTR \<times> ULONG_PTR) list"
  have "query_modules sample_env 1 2 = Some (STATUS_SUCCESS, ?entries)"
    by (subst query_modules.simps) (simp add: sample_env_def numeral_2_eq_2)
  then have q: "query_modules sample_env 0 (Suc 0) = Some (STATUS_SUCCESS, ?entries)"
    by (subst query_modules.simps) (simp add: sample_env_def)
  have "\<forall>l \<in> set (entry_loads ?entries). in_range l" by (simp add: entry_loads_def in_range_def)
  then show ?thesis using ModuleInitialize_Teardown [OF _ q] by (auto simp: sample_env_def)
qed

text \<open>
  When the notification of new images cannot be registered, the labels of \<^verbatim>\<open>ModuleInitialize\<close> clear the list
  but leave the cursor set, and the assertion that the context is zero stops the machine.
\<close>
theorem ModuleInitialize_failure_stops:
  assumes "me_Size env = (STATUS_SUCCESS, Suc n)" and "query_modules env 0 (Suc n) = Some (STATUS_SUCCESS, entries)"
    and "\<forall>l \<in> set (entry_loads entries). in_range l" and "\<forall>n. me_Add env n" and "\<not> NT_SUCCESS (me_Notify env)"
  shows "ModuleInitialize env zero_MODULE_CONTEXT = None"
proof -
  obtain ctx where c: "add_modules env 0 entries no_modules = Some (STATUS_SUCCESS, ctx)" "context_ok ctx"
    using add_modules_law [OF no_modules_ok(1) assms(3,4), of 0] by blast
  obtain xs p where "mc_Cursor ctx = Cursor p" using context_okD [OF c(2)] by blast
  then have "module_fail6 (me_Notify env) ctx = None" by (cases ctx) (simp add: module_fail6_def module_fail1_def zero_MODULE_CONTEXT_def Let_def)
  then show ?thesis using c(1) assms by (simp add: ModuleInitialize_def zero_MODULE_CONTEXT_def no_modules_def)
qed

theorem ModuleInitialize_failure_stops_witness:
  "ModuleInitialize (sample_env\<lparr>me_Query := (\<lambda>_ _. (STATUS_SUCCESS, 1, [])), me_Notify := STATUS_INSUFFICIENT_RESOURCES\<rparr>) zero_MODULE_CONTEXT = None"
proof -
  let ?env = "sample_env\<lparr>me_Query := (\<lambda>_ _. (STATUS_SUCCESS, 1, [])), me_Notify := STATUS_INSUFFICIENT_RESOURCES\<rparr>"
  have q: "query_modules ?env 0 (Suc 0) = Some (STATUS_SUCCESS, [zero_entry])"
    by (subst query_modules.simps) (simp add: sample_env_def)
  have "\<forall>l \<in> set (entry_loads [zero_entry]). in_range l" by (simp add: entry_loads_def in_range_def zero_entry_def)
  then show ?thesis using ModuleInitialize_failure_stops [OF _ q] by (simp add: sample_env_def)
qed

end
