(* ===== verification/Spec2Isabelle.thy ===== *)
(*  Verification of the Xen PV bus driver (win-xenbus): root theory *)

theory Spec2Isabelle
  imports Util Range_Set Hash_Table Bucket_Lock Slab_Cache Shared_Info Evtchn_2L Evtchn_Fifo Evtchn_Correct Gnttab Store_Acquire Sync_Runs Suspend Balloon_Correct Unplug Emulated Console Module
begin

text \<open>
  The Xen paravirtual bus driver for Windows gives the other drivers of a guest their access to Xen: event
  channels, grant references, XenStore, the balloon, the console, suspend (src/src/xenbus). Its support driver
  (src/src/xen) runs before it, unplugs the emulated devices and keeps the configuration in the registry;
  its filter (src/src/xenfilt) tells which emulated devices are there; src/src/common is shared. This library
  models their components as functions on explicit states and proves what makes each of them correct, and
  how they rely on each other.

  \<^bold>\<open>How the code is modelled.\<close> A context or object of the driver is a record with the source's fields, an
  operation a function with the source's name. A routine that can fail an \<^verbatim>\<open>ASSERT\<close>, reach a \<^verbatim>\<open>BUG\<close> or use
  memory it must not returns an option: \<^const>\<open>None\<close> is the stop of the machine, in the checked build that
  \<^verbatim>\<open>src/src/common/assert.h\<close> describes, and a theorem that an operation returns says that it is \<^const>\<open>Some\<close>.
  An error the caller sees is an \<open>NTSTATUS\<close> in the result, and the labels \<^verbatim>\<open>fail1\<close>, \<^verbatim>\<open>fail2\<close>, ... of a routine
  are definitions that fall through to each other as in the source. What the kernel and the hypervisor
  answer (pool memory, processor numbers, hypercalls, the registration of callbacks) is an argument, a
  record of functions named \<open>..._env\<close>, on which the theorems put no condition they do not state. A spin lock
  held through a routine makes the routine one step; where a lock or a barrier is the point, the steps
  between which other processors run are separate. Values that the code treats bitwise or lets wrap are
  words, LONG and ULONGLONG counters with their wrap-around written out are \<^typ>\<open>int\<close>, and indices on which
  nothing can wrap are \<^typ>\<open>nat\<close>.

  \<^bold>\<open>The theories.\<close>

  \<^item> \<open>Prelude\<close>: status codes, bug checks, machine arithmetic, the kernel's doubly linked lists.
  \<^item> \<open>Util\<close> (src/src/common/util.h): rounding, bit search, the tokenizer, case folding. The tokenizer is
    equal to a specification of the tokens of a string.
  \<^item> \<open>Range_Set\<close> (range\_set.c): the allocator of 64-bit numbers as a sorted list of ranges with a cursor.
    Pop, Put and Get are the operations of the set the list stands for; the contract is the locale
    \<open>range_allocator\<close>, which the grant table uses.
  \<^item> \<open>Hash_Table\<close> (hash\_table.c): buckets, removal through a hidden list and a DPC. Any sequence of operations
    refines a map from keys to queues of values; the contract is the locale \<open>key_table\<close>. \<open>Bucket_Lock\<close> has the lock of a bucket as a
    transition system of its reads and compare-exchanges, with its exclusion and where it fails.
  \<^item> \<open>Slab_Cache\<close> (cache.c): slabs, masks, magazines, constructors, spilling, auditing. An object is never
    handed out twice; the locales \<open>object_cache\<close> and \<open>slab_client\<close> are what a cache promises and what its
    constructor and destructor owe it.
  \<^item> \<open>Shared_Info\<close> (shared\_info.c): the pending and mask bits of the shared page, the poll over the selector
    words, the consistent read of the wallclock against a history of the hypervisor's updates, acquisition and
    release.
  \<^item> \<open>Evtchn_Abi\<close> (evtchn\_abi.h): the interface of an event channel ABI as a locale, with its refinement of
    two bits per port. \<open>Evtchn_2L\<close> (evtchn\_2l.c) and \<open>Evtchn_Fifo\<close> (evtchn\_fifo.c) are its two providers; the
    latter has the event array, its growth, the queues of each VCPU, which a poll drains, and the reset of the
    event channels (\<^verbatim>\<open>EvtchnReset\<close> of evtchn.c), which it relies on.
  \<^item> \<open>Evtchn\<close> (evtchn.c): the channels on top of either ABI, their pending lists and DPCs. \<open>Evtchn_Inv\<close>: the
    invariant and its preservation by every operation. \<open>Evtchn_Poll\<close>: what a poll does, from the pages of
    the ABI to the callbacks; the function table of the ABIs is the third interpretation of the locale.
    \<open>Evtchn_Correct\<close>: the properties, over the step relation \<open>evtchn_step\<close> of all operations, in which the
    closing of a channel is two steps.
  \<^item> \<open>Gnttab\<close> (gnttab.c): the table of grants, its growth a frame at a time, the entries as objects of a slab
    cache, foreign mappings. The cache's client locale is interpreted on the constructor and destructor of
    this file, whose laws come from the range set's.
  \<^item> \<open>Ring\<close>: the copy loops over a ring of bytes with free-running indices, as store.c and console.c have them,
    and the locale \<open>byte_stream\<close>: what is read is what was written, in order and within the ring's size.
  \<^item> \<open>Store_Ring\<close> (store.c, xs\_wire.h): the two rings of the store, interpretations of \<open>byte_stream\<close>. \<open>Store\<close>:
    requests, responses, matching them, watch events, the poll loop. \<open>Store_Stream\<close> and \<open>Store_Poll\<close>: sending
    and receiving cut and join the byte stream whatever pieces it comes in. \<open>Store_Ops\<close>: the operations of
    the clients. \<open>Store_Correct\<close> and \<open>Store_Acquire\<close>: their properties, against a daemon that answers.
  \<^item> \<open>Sync\<close> (sync.c): the protocol that corrals the processors for a suspend, as a transition system of the
    shared accesses of its owner and of any number of workers. \<open>Sync_Correct\<close> has its invariant, \<open>Sync_Runs\<close>
    what holds in every interleaving and the two races that hang it. \<open>Suspend\<close> (suspend.c): the callbacks, which
    the processors call from that protocol, in steps between which the others run, as the count has no lock.
  \<^item> \<open>Balloon_Sort\<close>, \<open>Balloon\<close> (balloon.c): the heap sort; the pages between Windows, the range set and Xen, and
    the rounds that inflate and deflate. \<open>Balloon_Correct\<close>: while neither the kernel nor the range set fails, every
    frame stays accounted for, through the range set's contract; and what a partial release leaves behind.
  \<^item> \<open>Console\<close> (console.c, console.h): the two rings as interpretations of \<open>byte_stream\<close>, readers' events, suspend,
    acquisition.
  \<^item> \<open>Registry\<close> (src/src/common/registry.c): keys and typed values over the kernel's routines, as parameters
    with what a registry promises (\<open>zw_ok\<close>). \<open>Config\<close> (src/src/xen/config.c): the active device. \<open>Unplug\<close>
    (src/src/xen/unplug.c, src/src/xenbus/unplug.c): the requests, their counters in the registry, and the writes to
    the ports at boot.
  \<^item> \<open>Module\<close> (src/src/xen/module.c): the list of the kernel's images, sorted and disjoint, with its cursor. It
    refines the set of the images that no later one overlaps.
  \<^item> \<open>Emulated\<close> (src/src/xenfilt/emulated.c): the emulated devices and disks. The questions about them are
    answered from the arrivals and removals, whose names and numbers are printed and parsed again.

  \<^bold>\<open>Loops and bounds.\<close> A loop over a list or an array is structural recursion; loops that end because a
  measure falls (the search for a range, the filling and spilling of a cache, the tokenizer, the rounds of
  the balloon) are functions with
  that measure; loops that wait for someone else (\<open>wait_loop\<close>, \<open>interrupt_loop\<close>, \<open>poll_loop\<close>, \<open>submit_loop\<close>, the
  consistent read of the time, the balloon's adjustment) are partial functions whose \<^const>\<open>None\<close> is also the loop that never ends, and the
  theorems say when they return. No fuel is used. The compare-exchange loop of unmasking takes what its
  rounds see as a list; \<open>quiet\<close> is the run in which the first exchange succeeds.

  \<^bold>\<open>Not modelled.\<close> Routines that only print (the debug callbacks, RangeSetDump) and, for the components where
  nothing but a table is filled, Initialize, GetInterface, Teardown and GetReferences. The function and child
  device objects (fdo.c, pdo.c of xenbus and xenfilt) are plug-and-play and power handlers over I/O request
  packets whose behaviour is that of the Windows kernel objects they forward to; bus.c, dma.c, thread.c and the
  driver entries wrap kernel services; the rest of src/src/xen (hypercall wrappers, the discovery of the
  processors and of ACPI, the dump of a bug check) is the processor's and the hypervisor's interface, apart from
  filters.c, which adds and removes this driver in the registry's lists of class filters; debug.c runs the
  callbacks that print;
  monitor.c is a service around Win32 calls. Callbacks of event channels do not call back into the component
  from the poll that runs them.
\<close>

end
